(* ===== verification/Bxxt_Prelude.thy ===== *)
theory Bxxt_Prelude
  imports Main "HOL-Library.Word"
begin

text \<open>
  Shared vocabulary of the development: the machine types of the C code, the memory
  faults a C operation can run into, the error-passing combinator, little- and
  big-endian byte encodings, and the generic list lemmas the components use.
  The target is the LP64, little-endian Android ABI (arm64-v8a, x86_64).
\<close>

unbundle bit_operations_syntax

section \<open>Machine types and faults\<close>

type_synonym u8 = "8 word"
type_synonym u16 = "16 word"
type_synonym u32 = "32 word"
type_synonym u64 = "64 word"
type_synonym bytes = "u8 list"

text \<open>
  What the C code does when it leaves its objects is undefined; the model stops with a
  fault that says which rule was broken, or that an assertion failed, so that absence of a fault is a theorem and
  never an assumption.
\<close>

datatype fault =
    Oob_Read
  | Oob_Write
  | Div_By_Zero
  | Null_Deref
  | Signed_Overflow
  | Bad_Shift
  | Use_After_Free
  | Assert_Failed

type_synonym 'a res = "fault + 'a"

definition res_bind :: "'a res \<Rightarrow> ('a \<Rightarrow> 'b res) \<Rightarrow> 'b res" where
  "res_bind m f = (case m of Inl e \<Rightarrow> Inl e | Inr x \<Rightarrow> f x)"

named_theorems res_simps \<open>evaluation of the fault combinators\<close>

lemma res_bind_Inl [simp, res_simps]: "res_bind (Inl e) f = Inl e"
  by (simp add: res_bind_def)

lemma res_bind_Inr [simp, res_simps]: "res_bind (Inr x) f = f x"
  by (simp add: res_bind_def)

lemma res_bind_eq_Inr [res_simps]:
  "res_bind m f = Inr y \<longleftrightarrow> (\<exists>x. m = Inr x \<and> f x = Inr y)"
  by (cases m) auto

lemma res_bind_eq_Inl [res_simps]:
  "res_bind m f = Inl e \<longleftrightarrow> m = Inl e \<or> (\<exists>x. m = Inr x \<and> f x = Inl e)"
  by (cases m) auto

lemma res_bind_cong [fundef_cong]:
  "m = m' \<Longrightarrow> (\<And>x. m' = Inr x \<Longrightarrow> f x = g x) \<Longrightarrow> res_bind m f = res_bind m' g"
  by (cases m') auto

lemma res_bind_assoc: "res_bind (res_bind m f) g = res_bind m (\<lambda>x. res_bind (f x) g)"
  by (cases m) auto

section \<open>Bytes in memory\<close>

text \<open>
  Reading and writing at an offset of a byte array. Both check their range, as no C
  access does.
\<close>

definition rd_bytes :: "bytes \<Rightarrow> nat \<Rightarrow> nat \<Rightarrow> bytes res" where
  "rd_bytes m off n = (if off + n \<le> length m then Inr (take n (drop off m)) else Inl Oob_Read)"

definition splice :: "bytes \<Rightarrow> nat \<Rightarrow> bytes \<Rightarrow> bytes" where
  "splice m off d = take off m @ d @ drop (off + length d) m"

definition wr_bytes :: "bytes \<Rightarrow> nat \<Rightarrow> bytes \<Rightarrow> bytes res" where
  "wr_bytes m off d =
     (if off + length d \<le> length m then Inr (splice m off d) else Inl Oob_Write)"

lemma length_splice [simp]:
  "off + length d \<le> length m \<Longrightarrow> length (splice m off d) = length m"
  by (simp add: splice_def)

lemma take_splice [simp]:
  "n \<le> off \<Longrightarrow> off \<le> length m \<Longrightarrow> take n (splice m off d) = take n m"
  by (simp add: splice_def min_def)

lemma drop_splice [simp]:
  "off + length d \<le> n \<Longrightarrow> off \<le> length m \<Longrightarrow> drop n (splice m off d) = drop n m"
  by (simp add: splice_def drop_append min_def)

lemma take_drop_splice_same [simp]:
  "off \<le> length m \<Longrightarrow> take (length d) (drop off (splice m off d)) = d"
  by (simp add: splice_def)

lemma nth_splice:
  assumes "off + length d \<le> length m" and "i < length m"
  shows "splice m off d ! i =
    (if off \<le> i \<and> i < off + length d then d ! (i - off) else m ! i)"
  using assms by (auto simp: splice_def nth_append min_def)

lemma splice_0: "splice m 0 d = d @ drop (length d) m"
  by (simp add: splice_def)

lemma rd_bytes_ok [simp, res_simps]:
  "off + n \<le> length m \<Longrightarrow> rd_bytes m off n = Inr (take n (drop off m))"
  by (simp add: rd_bytes_def)

lemma rd_bytes_fault: "rd_bytes m off n = Inl e \<longleftrightarrow> length m < off + n \<and> e = Oob_Read"
  by (auto simp: rd_bytes_def)

section \<open>Byte orders\<close>

fun le_bytes :: "nat \<Rightarrow> nat \<Rightarrow> bytes" where
  "le_bytes 0 v = []"
| "le_bytes (Suc n) v = word_of_nat v # le_bytes n (v div 256)"

fun le_val :: "bytes \<Rightarrow> nat" where
  "le_val [] = 0"
| "le_val (b # bs) = unat b + 256 * le_val bs"

definition be_bytes :: "nat \<Rightarrow> nat \<Rightarrow> bytes" where
  "be_bytes n v = rev (le_bytes n v)"

definition be_val :: "bytes \<Rightarrow> nat" where
  "be_val bs = le_val (rev bs)"

lemma length_le_bytes [simp]: "length (le_bytes n v) = n"
  by (induction n arbitrary: v) auto

lemma length_be_bytes [simp]: "length (be_bytes n v) = n"
  by (simp add: be_bytes_def)

lemma unat_word_of_nat_u8: "unat (word_of_nat v :: u8) = v mod 256"
  by (simp add: unat_of_nat)

lemma le_val_le_bytes: "le_val (le_bytes n v) = v mod 256 ^ n"
proof (induction n arbitrary: v)
  case (Suc n)
  have "v mod 256 + 256 * (v div 256 mod 256 ^ n) = v mod (256 * 256 ^ n)"
    by (simp add: mod_mult2_eq)
  with Suc show ?case by (simp add: unat_of_nat)
qed simp

lemma le_bytes_le_val: "le_bytes (length bs) (le_val bs) = bs"
proof (induction bs)
  case (Cons b bs)
  have u: "unat b < 256" using unsigned_less [where 'a=nat, of b] by simp
  have "(word_of_nat (unat b + 256 * le_val bs) :: u8) = b"
    by (rule word_unat_eq_iff [THEN iffD2], subst unat_word_of_nat_u8) (use u in simp)
  with Cons u show ?case by simp
qed simp

lemma le_val_bound: "le_val bs < 256 ^ length bs"
proof (induction bs)
  case (Cons b bs)
  have "unat b < 256" using unsigned_less [where 'a=nat, of b] by simp
  with Cons show ?case by simp
qed simp

lemma le_bytes_0 [simp]: "le_bytes n 0 = replicate n 0"
  by (induction n) auto

lemma le_bytes_add: "le_bytes (m + n) x = le_bytes m x @ le_bytes n (x div 256 ^ m)"
  by (induction m arbitrary: x) (simp_all add: div_mult2_eq)

lemma le_val_zeros [simp]: "le_val (replicate n 0) = 0"
  by (induction n) auto

lemma le_bytes_4: "le_bytes 4 v =
    [word_of_nat v, word_of_nat (v div 256), word_of_nat (v div 65536), word_of_nat (v div 16777216)]"
proof -
  have "4 = Suc (Suc (Suc (Suc 0)))" by simp
  then show ?thesis by (simp only: le_bytes.simps) (simp add: div_mult2_eq [symmetric])
qed

lemma be_val_be_bytes: "be_val (be_bytes n v) = v mod 256 ^ n"
  by (simp add: be_val_def be_bytes_def le_val_le_bytes)

lemma be_bytes_be_val: "be_bytes (length bs) (be_val bs) = bs"
  using le_bytes_le_val [of "rev bs"] by (simp add: be_val_def be_bytes_def)

lemma be_val_bound: "be_val bs < 256 ^ length bs"
  using le_val_bound [of "rev bs"] by (simp add: be_val_def)

text \<open>
  A fixed-width codec: what a client of an encoding (the packed boot header, the
  bitmap reader, the archive header) relies on.
\<close>

locale byte_codec =
  fixes enc :: "'a \<Rightarrow> bytes"
    and dec :: "bytes \<Rightarrow> 'a"
    and width :: nat
  assumes length_enc: "length (enc x) = width"
    and dec_enc: "dec (enc x) = x"
    and enc_dec: "length bs = width \<Longrightarrow> enc (dec bs) = bs"
begin

lemma dec_prefix: "dec (take width (enc x @ rest)) = x"
  by (simp add: length_enc dec_enc)

lemma drop_prefix: "drop width (enc x @ rest) = rest"
  by (simp add: length_enc)

lemma dec_at: "length pre = off \<Longrightarrow> dec (take width (drop off (pre @ enc x @ rest))) = x"
  by (simp add: length_enc dec_enc)

lemma enc_inj: "enc x = enc y \<Longrightarrow> x = y"
  by (metis dec_enc)

lemma dec_splice: "off \<le> length m \<Longrightarrow> dec (take width (drop off (splice m off (enc x)))) = x"
  using take_drop_splice_same [of off m "enc x"] by (simp add: length_enc dec_enc)

end

definition le32 :: "u32 \<Rightarrow> bytes" where
  "le32 w = le_bytes 4 (unat w)"

definition rd_le32 :: "bytes \<Rightarrow> u32" where
  "rd_le32 bs = word_of_nat (le_val bs)"

definition le64 :: "u64 \<Rightarrow> bytes" where
  "le64 w = le_bytes 8 (unat w)"

definition rd_le64 :: "bytes \<Rightarrow> u64" where
  "rd_le64 bs = word_of_nat (le_val bs)"

definition be32 :: "u32 \<Rightarrow> bytes" where
  "be32 w = be_bytes 4 (unat w)"

definition rd_be32 :: "bytes \<Rightarrow> u32" where
  "rd_be32 bs = word_of_nat (be_val bs)"

definition be64 :: "u64 \<Rightarrow> bytes" where
  "be64 w = be_bytes 8 (unat w)"

definition rd_be64 :: "bytes \<Rightarrow> u64" where
  "rd_be64 bs = word_of_nat (be_val bs)"

lemma unat_lt_u32: "unat (w :: u32) < 4294967296"
  using unsigned_less [where 'a=nat, of w] by simp

lemma unat_lt_u64: "unat (w :: u64) < 18446744073709551616"
  using unsigned_less [where 'a=nat, of w] by simp

lemma le32_0: "le32 0 = [0, 0, 0, 0]"
  by (simp add: le32_def eval_nat_numeral)

interpretation le32: byte_codec le32 rd_le32 4
proof
  fix w :: u32 and bs :: bytes
  show "length (le32 w) = 4" by (simp add: le32_def)
  show "rd_le32 (le32 w) = w"
    using unat_lt_u32 [of w] by (simp add: rd_le32_def le32_def le_val_le_bytes)
  assume l: "length bs = 4"
  have "unat (word_of_nat (le_val bs) :: u32) = le_val bs"
    using le_val_bound [of bs] l by (simp add: unat_of_nat)
  then show "le32 (rd_le32 bs) = bs"
    using le_bytes_le_val [of bs] l by (simp add: rd_le32_def le32_def)
qed

interpretation le64: byte_codec le64 rd_le64 8
proof
  fix w :: u64 and bs :: bytes
  show "length (le64 w) = 8" by (simp add: le64_def)
  show "rd_le64 (le64 w) = w"
    using unat_lt_u64 [of w] by (simp add: rd_le64_def le64_def le_val_le_bytes)
  assume l: "length bs = 8"
  have "unat (word_of_nat (le_val bs) :: u64) = le_val bs"
    using le_val_bound [of bs] l by (simp add: unat_of_nat)
  then show "le64 (rd_le64 bs) = bs"
    using le_bytes_le_val [of bs] l by (simp add: rd_le64_def le64_def)
qed

interpretation be32: byte_codec be32 rd_be32 4
proof
  fix w :: u32 and bs :: bytes
  show "length (be32 w) = 4" by (simp add: be32_def)
  show "rd_be32 (be32 w) = w"
    using unat_lt_u32 [of w] by (simp add: rd_be32_def be32_def be_val_be_bytes)
  assume l: "length bs = 4"
  have "unat (word_of_nat (be_val bs) :: u32) = be_val bs"
    using be_val_bound [of bs] l by (simp add: unat_of_nat)
  then show "be32 (rd_be32 bs) = bs"
    using be_bytes_be_val [of bs] l by (simp add: rd_be32_def be32_def)
qed

interpretation be64: byte_codec be64 rd_be64 8
proof
  fix w :: u64 and bs :: bytes
  show "length (be64 w) = 8" by (simp add: be64_def)
  show "rd_be64 (be64 w) = w"
    using unat_lt_u64 [of w] by (simp add: rd_be64_def be64_def be_val_be_bytes)
  assume l: "length bs = 8"
  have "unat (word_of_nat (be_val bs) :: u64) = be_val bs"
    using be_val_bound [of bs] l by (simp add: unat_of_nat)
  then show "be64 (rd_be64 bs) = bs"
    using be_bytes_be_val [of bs] l by (simp add: rd_be64_def be64_def)
qed

lemmas codec_length [simp] =
  le32.length_enc le64.length_enc be32.length_enc be64.length_enc

section \<open>Lists\<close>

lemma find_append: "find P (a @ b) = (case find P a of None \<Rightarrow> find P b | Some x \<Rightarrow> Some x)"
  by (induction a) auto

section \<open>C integers and strings\<close>

text \<open>The value of an \<open>int\<close> object after a conversion from a wider integer.\<close>

definition to_int32 :: "int \<Rightarrow> int" where
  "to_int32 z = (z + 2147483648) mod 4294967296 - 2147483648"

lemma to_int32_id: "- 2147483648 \<le> z \<Longrightarrow> z < 2147483648 \<Longrightarrow> to_int32 z = z"
  by (simp add: to_int32_def)

lemma to_int32_range: "- 2147483648 \<le> to_int32 z" "to_int32 z < 2147483648"
  using pos_mod_bound [of 4294967296 "z + 2147483648"]
    pos_mod_sign [of 4294967296 "z + 2147483648"]
  by (simp_all add: to_int32_def)

definition chr_of_byte :: "u8 \<Rightarrow> char" where
  "chr_of_byte b = char_of (unat b)"

definition byte_of_chr :: "char \<Rightarrow> u8" where
  "byte_of_chr c = word_of_nat (of_char c)"

lemma unat_lt_u8: "unat (b :: u8) < 256"
  using unsigned_less [where 'a=nat, of b] by simp

lemma byte_of_chr_of_byte [simp]: "byte_of_chr (chr_of_byte b) = b"
  using unat_lt_u8 [of b] by (simp add: byte_of_chr_def chr_of_byte_def)

lemma chr_of_byte_of_chr [simp]: "chr_of_byte (byte_of_chr c) = c"
proof -
  have "(of_char c :: nat) < 256" by (rule nat_of_char_less_256)
  then show ?thesis by (simp add: byte_of_chr_def chr_of_byte_def unat_of_nat)
qed

text \<open>The bytes of a C string literal or of a scanned string.\<close>

definition c_bytes :: "string \<Rightarrow> bytes" where
  "c_bytes s = map byte_of_chr s"

text \<open>The string a \<open>char*\<close> denotes: the bytes up to the first NUL.\<close>

definition cstr :: "bytes \<Rightarrow> bytes" where
  "cstr m = takeWhile (\<lambda>b. b \<noteq> 0) m"

lemma cstr_no_nul: "0 \<notin> set (cstr m)"
  by (auto simp: cstr_def dest: set_takeWhileD)

lemma cstr_append_nul: "0 \<notin> set s \<Longrightarrow> cstr (s @ 0 # rest) = s"
  by (simp add: cstr_def takeWhile_append)

end
