(* ===== verification/Bxxt_Sha1.thy ===== *)
theory Bxxt_Sha1
  imports Bxxt_Prelude
begin

text \<open>
  The hash of sha1.c. The first part is the block transformation as the code unrolls it:
  five registers addressed by rotating roles, a sixteen-word block expanded in place.
  Beside it stands the textbook definition (message schedule of eighty words, one
  five-tuple per round), and the two are proved equal.
\<close>

section \<open>The block transformation of the code\<close>

definition rol32 :: "u32 \<Rightarrow> nat \<Rightarrow> u32" where
  "rol32 v n = push_bit n v OR drop_bit (32 - n) v"

text \<open>
  \<open>blk0(i)\<close> swaps the bytes of block word \<open>i\<close> in place; \<open>blk(i)\<close> replaces word
  \<open>i & 15\<close> by the next word of the schedule. Both yield the new word.
\<close>

definition sha1_blk0 :: "u32 list \<Rightarrow> nat \<Rightarrow> u32 list \<times> u32" where
  "sha1_blk0 blk i =
     (let x = (rol32 (blk ! i) 24 AND 0xFF00FF00) OR (rol32 (blk ! i) 8 AND 0x00FF00FF)
      in (blk[i := x], x))"

definition sha1_blk :: "u32 list \<Rightarrow> nat \<Rightarrow> u32 list \<times> u32" where
  "sha1_blk blk i =
     (let x = rol32 (blk ! ((i + 13) mod 16) XOR blk ! ((i + 8) mod 16)
                     XOR blk ! ((i + 2) mod 16) XOR blk ! (i mod 16)) 1
      in (blk[i mod 16 := x], x))"

text \<open>
  The round macros. \<open>v w x y z\<close> are the indices of the five working variables in the
  register list; a macro adds to \<open>z\<close> and then rotates \<open>w\<close>.
\<close>

definition sha1_mix :: "(u32 \<Rightarrow> u32 \<Rightarrow> u32 \<Rightarrow> u32) \<Rightarrow> u32 \<Rightarrow> nat \<Rightarrow> nat \<Rightarrow> nat \<Rightarrow> nat \<Rightarrow> nat
    \<Rightarrow> u32 list \<Rightarrow> u32 \<Rightarrow> u32 list" where
  "sha1_mix f k v w x y z regs b =
     (let regs1 = regs[z := regs ! z + (f (regs ! w) (regs ! x) (regs ! y) + b + k
                            + rol32 (regs ! v) 5)]
      in regs1[w := rol32 (regs1 ! w) 30])"

definition sha1_R0 :: "nat \<Rightarrow> nat \<Rightarrow> nat \<Rightarrow> nat \<Rightarrow> nat \<Rightarrow> nat \<Rightarrow> u32 list \<times> u32 list \<Rightarrow> u32 list \<times> u32 list" where
  "sha1_R0 v w x y z i s =
     (let (blk, b) = sha1_blk0 (snd s) i in
      (sha1_mix (\<lambda>w x y. (w AND (x XOR y)) XOR y) 0x5A827999 v w x y z (fst s) b, blk))"

definition sha1_R1 :: "nat \<Rightarrow> nat \<Rightarrow> nat \<Rightarrow> nat \<Rightarrow> nat \<Rightarrow> nat \<Rightarrow> u32 list \<times> u32 list \<Rightarrow> u32 list \<times> u32 list" where
  "sha1_R1 v w x y z i s =
     (let (blk, b) = sha1_blk (snd s) i in
      (sha1_mix (\<lambda>w x y. (w AND (x XOR y)) XOR y) 0x5A827999 v w x y z (fst s) b, blk))"

definition sha1_R2 :: "nat \<Rightarrow> nat \<Rightarrow> nat \<Rightarrow> nat \<Rightarrow> nat \<Rightarrow> nat \<Rightarrow> u32 list \<times> u32 list \<Rightarrow> u32 list \<times> u32 list" where
  "sha1_R2 v w x y z i s =
     (let (blk, b) = sha1_blk (snd s) i in
      (sha1_mix (\<lambda>w x y. w XOR x XOR y) 0x6ED9EBA1 v w x y z (fst s) b, blk))"

definition sha1_R3 :: "nat \<Rightarrow> nat \<Rightarrow> nat \<Rightarrow> nat \<Rightarrow> nat \<Rightarrow> nat \<Rightarrow> u32 list \<times> u32 list \<Rightarrow> u32 list \<times> u32 list" where
  "sha1_R3 v w x y z i s =
     (let (blk, b) = sha1_blk (snd s) i in
      (sha1_mix (\<lambda>w x y. ((w OR x) AND y) OR (w AND x)) 0x8F1BBCDC v w x y z (fst s) b, blk))"

definition sha1_R4 :: "nat \<Rightarrow> nat \<Rightarrow> nat \<Rightarrow> nat \<Rightarrow> nat \<Rightarrow> nat \<Rightarrow> u32 list \<times> u32 list \<Rightarrow> u32 list \<times> u32 list" where
  "sha1_R4 v w x y z i s =
     (let (blk, b) = sha1_blk (snd s) i in
      (sha1_mix (\<lambda>w x y. w XOR x XOR y) 0xCA62C1D6 v w x y z (fst s) b, blk))"

text \<open>
  Line \<open>i\<close> of the unrolled sequence: the arguments \<open>a b c d e\<close> (registers 0 to 4) are
  rotated right by one from line to line, and the macro changes at 16, 20, 40 and 60.
\<close>

definition sha1_line :: "nat \<Rightarrow> u32 list \<times> u32 list \<Rightarrow> u32 list \<times> u32 list" where
  "sha1_line i =
     (let v = 4 * i mod 5; w = (1 + 4 * i) mod 5; x = (2 + 4 * i) mod 5;
          y = (3 + 4 * i) mod 5; z = (4 + 4 * i) mod 5
      in if i < 16 then sha1_R0 v w x y z i
         else if i < 20 then sha1_R1 v w x y z i
         else if i < 40 then sha1_R2 v w x y z i
         else if i < 60 then sha1_R3 v w x y z i
         else sha1_R4 v w x y z i)"

definition sha1_load :: "bytes \<Rightarrow> u32 list" where
  "sha1_load buf = map (\<lambda>i. rd_le32 (take 4 (drop (4 * i) buf))) [0..<16]"

definition SHA1Transform :: "u32 list \<Rightarrow> bytes \<Rightarrow> u32 list" where
  "SHA1Transform state buf =
     (let regs = fst (fold sha1_line [0..<80] (state, sha1_load buf))
      in map2 (+) state regs)"

section \<open>The textbook definition\<close>

fun sha1_W :: "(nat \<Rightarrow> u32) \<Rightarrow> nat \<Rightarrow> u32" where
  "sha1_W M t =
     (if t < 16 then M t
      else rol32 (sha1_W M (t - 3) XOR sha1_W M (t - 8) XOR sha1_W M (t - 14) XOR sha1_W M (t - 16)) 1)"

declare sha1_W.simps [simp del]

definition sha1_f :: "nat \<Rightarrow> u32 \<Rightarrow> u32 \<Rightarrow> u32 \<Rightarrow> u32" where
  "sha1_f t x y z =
     (if t < 20 then (x AND y) XOR (NOT x AND z)
      else if t < 40 then x XOR y XOR z
      else if t < 60 then (x AND y) XOR (x AND z) XOR (y AND z)
      else x XOR y XOR z)"

definition sha1_K :: "nat \<Rightarrow> u32" where
  "sha1_K t =
     (if t < 20 then 0x5A827999 else if t < 40 then 0x6ED9EBA1
      else if t < 60 then 0x8F1BBCDC else 0xCA62C1D6)"

fun sha1_round :: "(nat \<Rightarrow> u32) \<Rightarrow> nat \<Rightarrow> u32 list \<Rightarrow> u32 list" where
  "sha1_round W t [a, b, c, d, e] =
     [rol32 a 5 + sha1_f t b c d + e + sha1_K t + W t, a, rol32 b 30, c, d]"
| "sha1_round W t s = s"

definition sha1_word :: "bytes \<Rightarrow> nat \<Rightarrow> u32" where
  "sha1_word buf t = rd_be32 (take 4 (drop (4 * t) buf))"

definition sha1_compress :: "u32 list \<Rightarrow> bytes \<Rightarrow> u32 list" where
  "sha1_compress H block =
     map2 (+) H (fold (sha1_round (sha1_W (sha1_word block))) [0..<80] H)"

section \<open>The code computes the textbook function\<close>

lemma bit_add_shift8:
  assumes "a < (256::nat)"
  shows "bit (a + 256 * x) n \<longleftrightarrow> (if n < 8 then bit a n else bit x (n - 8))"
proof -
  let ?y = "a + 256 * x"
  have t: "take_bit 8 ?y = a" using assms by (simp add: take_bit_eq_mod)
  have d: "drop_bit 8 ?y = x" using assms by (simp add: drop_bit_eq_div)
  show ?thesis
  proof (cases "n < 8")
    case True
    then have "bit ?y n = bit (take_bit 8 ?y) n" by (simp add: bit_take_bit_iff)
    with t True show ?thesis by simp
  next
    case False
    then have "bit (drop_bit 8 ?y) (n - 8) = bit ?y n" by (simp add: bit_drop_bit_eq)
    with d False show ?thesis by simp
  qed
qed

lemma bit_le_val:
  "bit (le_val bs) n \<longleftrightarrow> n < 8 * length bs \<and> bit (bs ! (n div 8)) (n mod 8)"
proof (induction bs arbitrary: n)
  case Nil
  then show ?case by simp
next
  case (Cons b bs)
  have u: "unat b < 256" by (rule unat_lt_u8)
  show ?case
  proof (cases "n < 8")
    case True
    then show ?thesis using u by (simp add: bit_add_shift8 bit_unsigned_iff)
  next
    case False
    then obtain m where m: "n = m + 8" by (metis add.commute le_Suc_ex not_less)
    have "(m + 8) div 8 = Suc (m div 8)" by simp
    then show ?thesis using u Cons.IH [of m] m by (simp add: bit_add_shift8)
  qed
qed

lemma bit_rd_le32:
  "length bs = 4 \<Longrightarrow> bit (rd_le32 bs) n \<longleftrightarrow> n < 32 \<and> bit (bs ! (n div 8)) (n mod 8)"
  by (auto simp: rd_le32_def bit_of_nat_iff bit_le_val)

lemma bit_rd_be32:
  "length bs = 4 \<Longrightarrow> bit (rd_be32 bs) n \<longleftrightarrow> n < 32 \<and> bit (rev bs ! (n div 8)) (n mod 8)"
  by (auto simp: rd_be32_def be_val_def bit_of_nat_iff bit_le_val)

lemma bit_rol32:
  "n < 32 \<Longrightarrow> k < 32 \<Longrightarrow> bit (rol32 v k) n \<longleftrightarrow> bit v (if k \<le> n then n - k else 32 + n - k)"
  by (auto simp: rol32_def bit_simps dest: bit_imp_le_length)

lemma blk0_is_be:
  assumes "length bs = 4"
  shows "(rol32 (rd_le32 bs) 24 AND 0xFF00FF00) OR (rol32 (rd_le32 bs) 8 AND 0x00FF00FF) = rd_be32 bs"
proof -
  from assms obtain b0 b1 b2 b3 where bs: "bs = [b0, b1, b2, b3]"
    by (auto simp: numeral_eq_Suc length_Suc_conv)
  show ?thesis
  proof (rule bit_word_eqI)
    fix n
    assume "n < LENGTH(32)"
    then have "n \<in> set [0..<32]" by simp
    then show "bit ((rol32 (rd_le32 bs) 24 AND 0xFF00FF00) OR (rol32 (rd_le32 bs) 8 AND 0x00FF00FF)) n
        = bit (rd_be32 bs) n"
      by (simp add: upt_rec, elim disjE)
        (simp_all add: bs bit_or_iff bit_and_iff bit_rol32 bit_rd_le32 bit_rd_be32 numeral_2_eq_2)
  qed
qed

lemma ch_eq: "((w::u32) AND (x XOR y)) XOR y = (w AND x) XOR (NOT w AND y)"
  by (rule bit_word_eqI) (auto simp: bit_simps)

lemma maj_eq: "(((w::u32) OR x) AND y) OR (w AND x) = (w AND x) XOR (w AND y) XOR (x AND y)"
  by (rule bit_word_eqI) (auto simp: bit_simps)

text \<open>
  The invariant of the unrolled code after \<open>i\<close> lines: role \<open>r\<close> holds component \<open>r\<close> of
  the textbook state, the last sixteen schedule words are in the block, and the words
  not yet reached are still the raw ones.
\<close>

definition sha1_inv :: "bytes \<Rightarrow> u32 list \<Rightarrow> nat \<Rightarrow> u32 list \<times> u32 list \<Rightarrow> bool" where
  "sha1_inv buf S i s \<longleftrightarrow>
     length (fst s) = 5 \<and> length S = 5 \<and> length (snd s) = 16 \<and>
     (\<forall>r<5. fst s ! ((r + 4 * i) mod 5) = S ! r) \<and>
     (\<forall>t<i. i \<le> t + 16 \<longrightarrow> snd s ! (t mod 16) = sha1_W (sha1_word buf) t) \<and>
     (\<forall>t<16. i \<le> t \<longrightarrow> snd s ! t = rd_le32 (take 4 (drop (4 * t) buf)))"

lemma role_mod5:
  assumes "i mod 5 = (m::nat)"
  shows "(r + 4 * i) mod 5 = (r + 4 * m) mod 5"
    and "4 * i mod 5 = 4 * m mod 5"
    and "(r + 4 * Suc i) mod 5 = (r + (4 + 4 * m)) mod 5"
proof -
  have a: "(r + 4 * i) mod 5 = (r + 4 * m) mod 5" for r
    using assms by (metis mod_add_right_eq mod_mult_right_eq)
  show "(r + 4 * i) mod 5 = (r + 4 * m) mod 5" by (rule a)
  show "4 * i mod 5 = 4 * m mod 5" using a [of 0] by simp
  show "(r + 4 * Suc i) mod 5 = (r + (4 + 4 * m)) mod 5" using a [of "r + 4"] by (simp add: add.assoc)
qed

lemma mod5_cases: "i mod 5 \<in> {0, 1, 2, 3, 4 :: nat}"
  by simp presburger

lemma mix_roles:
  fixes f :: "u32 \<Rightarrow> u32 \<Rightarrow> u32 \<Rightarrow> u32" and k b :: u32
  assumes len: "length regs = 5" "length S = 5"
    and roles: "\<forall>r<5. regs ! ((r + 4 * i) mod 5) = S ! r"
  defines "regs' \<equiv> sha1_mix f k (4 * i mod 5) ((1 + 4 * i) mod 5) ((2 + 4 * i) mod 5)
                     ((3 + 4 * i) mod 5) ((4 + 4 * i) mod 5) regs b"
  shows "length regs' = 5 \<and>
    (\<forall>r<5. regs' ! ((r + 4 * Suc i) mod 5) =
      [S ! 4 + (f (S ! 1) (S ! 2) (S ! 3) + b + k + rol32 (S ! 0) 5),
       S ! 0, rol32 (S ! 1) 30, S ! 2, S ! 3] ! r)"
proof -
  obtain r0 r1 r2 r3 r4 where r: "regs = [r0, r1, r2, r3, r4]"
    using len(1) by (auto simp: eval_nat_numeral length_Suc_conv)
  have ex: "(\<forall>r<5. P r) \<longleftrightarrow> P 0 \<and> P 1 \<and> P 2 \<and> P 3 \<and> P (4::nat)" for P
    by (auto simp: eval_nat_numeral less_Suc_eq)
  obtain m where m: "i mod 5 = m" and mm: "m \<in> {0, 1, 2, 3, 4}"
    using mod5_cases by blast
  note e = role_mod5 [OF m]
  show ?thesis
    using mm roles
    unfolding regs'_def ex sha1_mix_def Let_def r e
    by (elim insertE emptyE) simp_all
qed


lemma sha1_W_small: "t < 16 \<Longrightarrow> sha1_W M t = M t"
  by (subst sha1_W.simps) simp

lemma sha1_W_large: "16 \<le> t \<Longrightarrow>
  sha1_W M t = rol32 (sha1_W M (t - 3) XOR sha1_W M (t - 8) XOR sha1_W M (t - 14) XOR sha1_W M (t - 16)) 1"
  by (subst sha1_W.simps) simp

lemma blk0_step:
  assumes inv: "sha1_inv buf S i s" and i: "i < 16" and len: "length buf = 64"
  shows "sha1_blk0 (snd s) i =
    ((snd s)[i mod 16 := sha1_W (sha1_word buf) i], sha1_W (sha1_word buf) i)"
proof -
  have raw: "snd s ! i = rd_le32 (take 4 (drop (4 * i) buf))"
    using inv i by (simp add: sha1_inv_def)
  have "length (take 4 (drop (4 * i) buf)) = 4" using i len by simp
  then show ?thesis
    using i by (simp add: sha1_blk0_def Let_def raw blk0_is_be sha1_W_small sha1_word_def)
qed

lemma blk_step:
  assumes inv: "sha1_inv buf S i s" and i: "16 \<le> i"
  shows "sha1_blk (snd s) i =
    ((snd s)[i mod 16 := sha1_W (sha1_word buf) i], sha1_W (sha1_word buf) i)"
proof -
  have w: "snd s ! (t mod 16) = sha1_W (sha1_word buf) t" if "t < i" "i \<le> t + 16" for t
    using inv that by (simp add: sha1_inv_def)
  obtain j where j: "i = j + 16" using i by (metis add.commute le_Suc_ex)
  have k: "(i + k) mod 16 = (j + k) mod 16" for k
    using mod_add_self2 [of "j + k" 16] by (simp only: j ac_simps)
  have k0: "i mod 16 = j mod 16" using k [of 0] by simp
  show ?thesis
    using w [of j] w [of "j + 2"] w [of "j + 8"] w [of "j + 13"] sha1_W_large [OF i]
    unfolding sha1_blk_def Let_def k k0
    by (simp add: j ac_simps)
qed


lemma sha1_line_eq:
  assumes inv: "sha1_inv buf S i s" and len: "length buf = 64"
  shows "sha1_line i s =
    (sha1_mix (sha1_f i) (sha1_K i) (4 * i mod 5) ((1 + 4 * i) mod 5) ((2 + 4 * i) mod 5)
       ((3 + 4 * i) mod 5) ((4 + 4 * i) mod 5) (fst s) (sha1_W (sha1_word buf) i),
     (snd s)[i mod 16 := sha1_W (sha1_word buf) i])"
proof (cases "i < 16")
  case True
  then show ?thesis
    using blk0_step [OF inv True len]
    by (simp add: sha1_line_def sha1_R0_def Let_def sha1_K_def sha1_f_def [abs_def] ch_eq)
next
  case False
  then have "16 \<le> i" by simp
  from blk_step [OF inv this] False show ?thesis
    by (simp add: sha1_line_def sha1_R1_def sha1_R2_def sha1_R3_def sha1_R4_def Let_def
        sha1_K_def sha1_f_def [abs_def] ch_eq maj_eq)
qed

lemma five_list: "length S = 5 \<longleftrightarrow> (\<exists>a b c d e. S = [a, b, c, d, e])"
  by (auto simp: eval_nat_numeral length_Suc_conv)

lemma length_sha1_round [simp]: "length (sha1_round W t S) = length S"
  by (induction W t S rule: sha1_round.induct) simp_all

lemma sha1_inv_step:
  assumes inv: "sha1_inv buf S i s" and len: "length buf = 64"
  shows "sha1_inv buf (sha1_round (sha1_W (sha1_word buf)) i S) (Suc i) (sha1_line i s)"
proof -
  let ?W = "sha1_W (sha1_word buf)"
  let ?blk = "(snd s)[i mod 16 := ?W i]"
  from inv have l: "length (fst s) = 5" "length S = 5" "length (snd s) = 16"
    and roles: "\<forall>r<5. fst s ! ((r + 4 * i) mod 5) = S ! r"
    and dn: "\<forall>t<i. i \<le> t + 16 \<longrightarrow> snd s ! (t mod 16) = ?W t"
    and raw: "\<forall>t<16. i \<le> t \<longrightarrow> snd s ! t = rd_le32 (take 4 (drop (4 * t) buf))"
    by (simp_all add: sha1_inv_def)
  have R: "sha1_round ?W i S =
      [S ! 4 + (sha1_f i (S ! 1) (S ! 2) (S ! 3) + ?W i + sha1_K i + rol32 (S ! 0) 5),
       S ! 0, rol32 (S ! 1) 30, S ! 2, S ! 3]"
    using l(2) by (auto simp: five_list ac_simps)
  have d': "?blk ! (t mod 16) = ?W t" if "t < Suc i" "Suc i \<le> t + 16" for t
  proof (cases "t = i")
    case False
    with that have "t < i" "i < t + 16" by auto
    have "t mod 16 \<noteq> i mod 16"
    proof
      assume "t mod 16 = i mod 16"
      with \<open>t < i\<close> have "16 dvd i - t" by (metis mod_eq_dvd_iff_nat less_imp_le)
      with \<open>t < i\<close> \<open>i < t + 16\<close> show False by (auto dest: dvd_imp_le)
    qed
    with dn \<open>t < i\<close> \<open>i < t + 16\<close> show ?thesis by simp
  qed (use l in simp)
  have r': "?blk ! t = rd_le32 (take 4 (drop (4 * t) buf))" if "t < 16" "Suc i \<le> t" for t
    using that raw by simp
  show ?thesis
    using mix_roles [OF l(1,2) roles, of "sha1_f i" "sha1_K i" "?W i"] d' r' l
    unfolding sha1_inv_def sha1_line_eq [OF inv len] R by simp
qed

lemma sha1_inv_fold:
  assumes "sha1_inv buf S 0 s" and "length buf = 64"
  shows "sha1_inv buf (fold (sha1_round (sha1_W (sha1_word buf))) [0..<n] S) n
           (fold sha1_line [0..<n] s)"
  using assms by (induction n) (simp_all add: sha1_inv_step)

lemma sha1_inv_init:
  "length st = 5 \<Longrightarrow> sha1_inv buf st 0 (st, sha1_load buf)"
  by (simp add: sha1_inv_def sha1_load_def)

lemma length_fold_sha1_round [simp]: "length (fold (sha1_round W) ts S) = length S"
  by (induction ts arbitrary: S) simp_all

lemma length_sha1_compress [simp]: "length (sha1_compress H block) = length H"
  by (simp add: sha1_compress_def)

text \<open>The unrolled transformation is the textbook compression function.\<close>

lemma SHA1Transform_compress:
  assumes "length st = 5" and "length buf = 64"
  shows "SHA1Transform st buf = sha1_compress st buf"
proof -
  let ?S = "fold (sha1_round (sha1_W (sha1_word buf))) [0..<80] st"
  let ?regs = "fst (fold sha1_line [0..<80] (st, sha1_load buf))"
  have inv: "sha1_inv buf ?S 80 (fold sha1_line [0..<80] (st, sha1_load buf))"
    using sha1_inv_fold [OF sha1_inv_init [OF assms(1), of buf] assms(2), of 80] .
  then have len: "length ?regs = 5" "length ?S = 5"
    and role: "\<forall>r<5. ?regs ! ((r + 4 * 80) mod 5) = ?S ! r"
    unfolding sha1_inv_def by blast+
  have "?regs = ?S"
  proof (rule nth_equalityI)
    show "length ?regs = length ?S" by (simp only: len)
    fix r assume "r < length ?regs"
    then have r: "r < 5" by (simp only: len)
    then have "(r + 4 * 80) mod 5 = r" by (simp add: mod_add_eq [symmetric])
    with role r show "?regs ! r = ?S ! r" by metis
  qed
  then show ?thesis unfolding SHA1Transform_def sha1_compress_def Let_def by (rule arg_cong)
qed

end
