(* ===== verification/Bxxt_Buffer.thy ===== *)
theory Bxxt_Buffer
  imports Bxxt_Prelude
begin

text \<open>
  The growable byte buffer of util.c: creation, resizing through realloc, appending
  and alignment. The record holds the allocated block and the size field; the block and
  the field agree in a well-formed buffer. Allocation of a size that a process can have
  is taken to succeed, as the C code does not test for failure.
\<close>

section \<open>The buffer and its operations\<close>

record buffer =
  b_size :: nat
  b_ptr :: bytes

definition buffer_wf :: "buffer \<Rightarrow> bool" where
  "buffer_wf b \<longleftrightarrow> length (b_ptr b) = b_size b"

definition bxxt_malloc :: "nat \<Rightarrow> bytes" where
  "bxxt_malloc n = replicate n 0"

definition bxxt_buffer_create :: "nat \<Rightarrow> buffer" where
  "bxxt_buffer_create n = \<lparr>b_size = n, b_ptr = bxxt_malloc n\<rparr>"

text \<open>\<open>memcpy\<close> of the first \<open>n\<close> bytes of \<open>src\<close> to \<open>dst + off\<close>.\<close>

definition c_memcpy :: "bytes \<Rightarrow> nat \<Rightarrow> bytes \<Rightarrow> nat \<Rightarrow> bytes res" where
  "c_memcpy dst off src n =
     (if length src < n then Inl Oob_Read
      else wr_bytes dst off (take n src))"

definition bxxt_buffer_create_from_data :: "bytes \<Rightarrow> nat \<Rightarrow> buffer res" where
  "bxxt_buffer_create_from_data data n =
     (let b = bxxt_buffer_create n in
      res_bind (c_memcpy (b_ptr b) 0 data n) (\<lambda>p. Inr (b\<lparr>b_ptr := p\<rparr>)))"

text \<open>
  \<open>realloc\<close> to \<open>size + adj\<close> keeps the common prefix; the bytes it adds are zeroed by the
  \<open>memset\<close>. A negative total wraps to a size no allocator grants, so the pointer
  becomes NULL.
\<close>

definition bxxt_buffer_resize :: "buffer \<Rightarrow> int \<Rightarrow> buffer res" where
  "bxxt_buffer_resize b adj =
     (let n = int (b_size b) + adj in
      if n < 0 then Inl Null_Deref
      else Inr \<lparr>b_size = nat n,
                b_ptr = take (nat n) (b_ptr b) @ replicate (if adj > 0 then nat adj else 0) 0\<rparr>)"

text \<open>
  The \<open>size_t\<close> argument is converted to \<open>int\<close> when it is handed to
  \<open>bxxt_buffer_resize\<close>; the \<open>memcpy\<close> then uses the unconverted size.
\<close>

definition bxxt_buffer_concat_from_data :: "buffer \<Rightarrow> bytes \<Rightarrow> nat \<Rightarrow> (buffer \<times> nat) res" where
  "bxxt_buffer_concat_from_data b data n =
     (let old = b_size b in
      res_bind (bxxt_buffer_resize b (to_int32 (int n))) (\<lambda>b'.
      res_bind (c_memcpy (b_ptr b') old data n) (\<lambda>p.
      Inr (b'\<lparr>b_ptr := p\<rparr>, n))))"

definition bxxt_buffer_align :: "buffer \<Rightarrow> nat \<Rightarrow> (buffer \<times> nat) res" where
  "bxxt_buffer_align b page =
     (if page = 0 then Inl Div_By_Zero
      else
        let extra = (page - b_size b mod page) mod page in
        res_bind (bxxt_buffer_resize b (to_int32 (int extra))) (\<lambda>b'. Inr (b', extra)))"

text \<open>\<open>bxxt_buffer_free\<close>: a null buffer is left alone, otherwise both blocks are released.\<close>

definition bxxt_buffer_free :: "buffer option \<Rightarrow> buffer option" where
  "bxxt_buffer_free b = (case b of None \<Rightarrow> None | Some _ \<Rightarrow> None)"

section \<open>Their behaviour\<close>

lemma bxxt_buffer_create_wf [simp]: "buffer_wf (bxxt_buffer_create n)"
  by (simp add: buffer_wf_def bxxt_buffer_create_def bxxt_malloc_def)

lemma c_memcpy_ok:
  "n \<le> length src \<Longrightarrow> off + n \<le> length dst \<Longrightarrow>
   c_memcpy dst off src n = Inr (splice dst off (take n src))"
  by (simp add: c_memcpy_def wr_bytes_def min_def)

lemma bxxt_buffer_create_from_data_eq:
  "n \<le> length data \<Longrightarrow>
   bxxt_buffer_create_from_data data n = Inr \<lparr>b_size = n, b_ptr = take n data\<rparr>"
  by (simp add: bxxt_buffer_create_from_data_def bxxt_buffer_create_def bxxt_malloc_def
      Let_def c_memcpy_ok splice_0)

lemma bxxt_buffer_create_from_data_fault:
  "length data < n \<Longrightarrow> bxxt_buffer_create_from_data data n = Inl Oob_Read"
  by (simp add: bxxt_buffer_create_from_data_def c_memcpy_def Let_def)

lemma bxxt_buffer_resize_grow:
  "buffer_wf b \<Longrightarrow> 0 \<le> adj \<Longrightarrow>
   bxxt_buffer_resize b adj =
     Inr \<lparr>b_size = b_size b + nat adj, b_ptr = b_ptr b @ replicate (nat adj) 0\<rparr>"
  by (auto simp: bxxt_buffer_resize_def buffer_wf_def Let_def nat_add_distrib)

lemma bxxt_buffer_resize_shrink:
  "k \<le> b_size b \<Longrightarrow>
   bxxt_buffer_resize b (- int k) = Inr \<lparr>b_size = b_size b - k, b_ptr = take (b_size b - k) (b_ptr b)\<rparr>"
  by (auto simp: bxxt_buffer_resize_def Let_def nat_diff_distrib')

lemma bxxt_buffer_resize_wf:
  "buffer_wf b \<Longrightarrow> bxxt_buffer_resize b adj = Inr b' \<Longrightarrow> buffer_wf b'"
  by (auto simp: bxxt_buffer_resize_def buffer_wf_def Let_def min_def split: if_splits)

lemma bxxt_buffer_concat_eq:
  assumes "buffer_wf b" and "n \<le> length data" and "n < 2147483648"
  shows "bxxt_buffer_concat_from_data b data n =
    Inr (\<lparr>b_size = b_size b + n, b_ptr = b_ptr b @ take n data\<rparr>, n)"
proof -
  have "to_int32 (int n) = int n" using assms(3) by (simp add: to_int32_id)
  then show ?thesis
    using assms by (simp add: bxxt_buffer_concat_from_data_def bxxt_buffer_resize_grow Let_def
        c_memcpy_ok splice_def buffer_wf_def)
qed

lemma align_extra:
  assumes "0 < (page::nat)"
  shows "(page - n mod page) mod page < page"
    and "page dvd n + (page - n mod page) mod page"
proof -
  show "(page - n mod page) mod page < page" using assms by simp
  have "(n + (page - n mod page)) mod page = (n mod page + (page - n mod page)) mod page"
    by (simp add: mod_add_left_eq)
  also have "\<dots> = page mod page"
    using assms by (simp add: mod_less_divisor [THEN less_imp_le])
  finally have "(n + (page - n mod page)) mod page = 0" by simp
  then show "page dvd n + (page - n mod page) mod page"
    by (simp add: dvd_eq_mod_eq_0 mod_add_right_eq)
qed

text \<open>Alignment as the reader of the image computes it.\<close>

definition align_up :: "nat \<Rightarrow> nat \<Rightarrow> nat" where
  "align_up page n = (n + page - 1) div page * page"

lemma align_up_eq:
  assumes "0 < page"
  shows "align_up page n = n + (page - n mod page) mod page"
proof -
  define q r where "q = n div page" and "r = n mod page"
  have n: "n = page * q + r" by (simp add: q_def r_def)
  have r: "r < page" using assms by (simp add: r_def)
  show ?thesis
  proof (cases "r = 0")
    case True
    have "n + page - 1 = (page - 1) + page * q" using n True assms by simp
    then have "(n + page - 1) div page = q"
      using assms by (simp only: div_mult_self2) simp
    then show ?thesis using n True by (simp add: align_up_def mult.commute)
  next
    case False
    have "n + page - 1 = (r - 1) + page * (q + 1)" using n False by simp
    then have "(n + page - 1) div page = q + 1"
      using assms r by (simp only: div_mult_self2) simp
    moreover have "n mod page = r" using n r by simp
    ultimately show ?thesis using n r False by (simp add: align_up_def algebra_simps)
  qed
qed

lemma align_up_dvd: "0 < page \<Longrightarrow> page dvd align_up page n"
  by (simp add: align_up_def)

lemma align_up_ge: "0 < page \<Longrightarrow> n \<le> align_up page n"
  by (simp add: align_up_eq)

lemma align_up_less: "0 < page \<Longrightarrow> align_up page n < n + page"
  by (simp add: align_up_eq)

lemma align_up_add:
  "0 < page \<Longrightarrow> page dvd m \<Longrightarrow> align_up page (m + n) = m + align_up page n"
  by (auto simp: align_up_eq elim!: dvdE)

lemma bxxt_buffer_align_eq:
  assumes "buffer_wf b" and "0 < page" and "page \<le> 2147483648"
  shows "bxxt_buffer_align b page =
    Inr (\<lparr>b_size = align_up page (b_size b),
          b_ptr = b_ptr b @ replicate (align_up page (b_size b) - b_size b) 0\<rparr>,
         align_up page (b_size b) - b_size b)"
proof -
  let ?e = "(page - b_size b mod page) mod page"
  have "?e < page" using assms(2) by simp
  then have "to_int32 (int ?e) = int ?e" using assms(3) by (intro to_int32_id) auto
  then show ?thesis
    using assms by (simp add: bxxt_buffer_align_def bxxt_buffer_resize_grow Let_def align_up_eq)
qed

end
