(* ===== verification/Bxxt_Sha1_Correct.thy ===== *)
theory Bxxt_Sha1_Correct
  imports Bxxt_Sha1_Stream
begin

text \<open>
  SHA-1 of a whole message as the standard defines it, the representation relation
  between a context and the message absorbed so far, and the proofs that every
  operation of the streaming interface follows it. The contract a caller of a hash uses
  is the locale at the end; the code's functions interpret it.
\<close>

section \<open>SHA-1 of a message\<close>

function sha1_absorb :: "u32 list \<Rightarrow> bytes \<Rightarrow> u32 list" where
  "sha1_absorb H m =
     (if length m < 64 then H else sha1_absorb (sha1_compress H (take 64 m)) (drop 64 m))"
  by pat_completeness auto
termination by (relation "measure (\<lambda>(H, m). length m)") auto

declare sha1_absorb.simps [simp del]

definition sha1_zeros :: "nat \<Rightarrow> nat" where
  "sha1_zeros n = (119 - n mod 64) mod 64"

definition sha1_pad :: "bytes \<Rightarrow> bytes" where
  "sha1_pad m = m @ [128] @ replicate (sha1_zeros (length m)) 0 @ be64 (word_of_nat (8 * length m))"

definition sha1_hash :: "bytes \<Rightarrow> bytes" where
  "sha1_hash m = concat (map be32 (sha1_absorb sha1_H0 (sha1_pad m)))"

lemma sha1_absorb_short [simp]: "length m < 64 \<Longrightarrow> sha1_absorb H m = H"
  by (subst sha1_absorb.simps) simp

lemma sha1_absorb_block:
  "64 \<le> length m \<Longrightarrow> sha1_absorb H m = sha1_absorb (sha1_compress H (take 64 m)) (drop 64 m)"
  by (subst sha1_absorb.simps) simp

lemma length_sha1_absorb [simp]: "length (sha1_absorb H m) = length H"
proof (induction H m rule: sha1_absorb.induct)
  case (1 H m)
  then show ?case by (cases "length m < 64") (simp_all add: sha1_absorb_block)
qed

lemma sha1_absorb_append:
  "length a = 64 * k \<Longrightarrow> sha1_absorb H (a @ b) = sha1_absorb (sha1_absorb H a) b"
proof (induction k arbitrary: a H)
  case (Suc k)
  then have "64 \<le> length a" by simp
  then have "sha1_absorb H (a @ b) = sha1_absorb (sha1_compress H (take 64 a)) (drop 64 a @ b)"
    by (simp add: sha1_absorb_block [of "a @ b"])
  also have "\<dots> = sha1_absorb (sha1_absorb (sha1_compress H (take 64 a)) (drop 64 a)) b"
    using Suc by simp
  finally show ?case using \<open>64 \<le> length a\<close> by (simp add: sha1_absorb_block [of a])
qed simp

definition full_part :: "bytes \<Rightarrow> bytes" where
  "full_part m = take (64 * (length m div 64)) m"

definition rest_part :: "bytes \<Rightarrow> bytes" where
  "rest_part m = drop (64 * (length m div 64)) m"

lemma full_rest: "full_part m @ rest_part m = m"
  by (simp add: full_part_def rest_part_def)

lemma length_rest_part: "length (rest_part m) = length m mod 64"
  by (simp add: rest_part_def minus_mult_div_eq_mod)

lemma sha1_absorb_extend:
  "sha1_absorb H (m @ d) = sha1_absorb (sha1_absorb H m) (rest_part m @ d)"
proof -
  have l: "length (full_part m) = 64 * (length m div 64)" by (simp add: full_part_def)
  have "sha1_absorb H m = sha1_absorb (sha1_absorb H (full_part m)) (rest_part m)"
    using sha1_absorb_append [OF l, of H "rest_part m"] by (simp add: full_rest)
  also have "\<dots> = sha1_absorb H (full_part m)" by (simp add: length_rest_part)
  finally show ?thesis
    using sha1_absorb_append [OF l, of H "rest_part m @ d"] by (simp add: full_rest flip: append_assoc)
qed

lemma rest_part_extend:
  assumes "length (rest_part m) + length d = 64 * k + r" and "r < 64"
  shows "rest_part (m @ d) = drop (64 * k) (rest_part m @ d)"
proof -
  let ?q = "length m div 64"
  have "length m = 64 * ?q + length (rest_part m)" by (simp add: length_rest_part)
  then have "length (m @ d) = 64 * (?q + k) + r" using assms(1) by simp
  then have "length (m @ d) div 64 = ?q + k" using assms(2) by simp
  moreover have "drop (64 * (?q + k)) (full_part m @ (rest_part m @ d)) = drop (64 * k) (rest_part m @ d)"
  proof -
    have "length (full_part m) = 64 * ?q" by (simp add: full_part_def)
    then show ?thesis by (simp add: drop_append algebra_simps)
  qed
  ultimately show ?thesis
    by (simp add: rest_part_def [of "m @ d"] full_rest flip: append_assoc)
qed

section \<open>Representation\<close>

definition sha1_rep :: "SHA1_CTX \<Rightarrow> bytes \<Rightarrow> bool" where
  "sha1_rep ctx m \<longleftrightarrow>
     sha_state ctx = sha1_absorb sha1_H0 m \<and>
     length (sha_buffer ctx) = 64 \<and>
     take (length m mod 64) (sha_buffer ctx) = rest_part m \<and>
     unat (sha_count0 ctx) + 4294967296 * unat (sha_count1 ctx)
       = 8 * length m mod 18446744073709551616"

lemma length_sha1_H0 [simp]: "length sha1_H0 = 5"
  by (simp add: sha1_H0_def)

lemma sha1_rep_Init: "length (sha_buffer ctx) = 64 \<Longrightarrow> sha1_rep (SHA1Init ctx) []"
  by (simp add: sha1_rep_def SHA1Init_def rest_part_def)

lemma unat_fill: "unat (drop_bit 3 c AND 63 :: u32) = unat c div 8 mod 64"
proof -
  have "drop_bit 3 c AND 63 = take_bit 6 (drop_bit 3 c)"
    by (simp add: take_bit_eq_mask mask_eq_exp_minus_1)
  then show ?thesis
    by (simp add: take_bit_eq_mod drop_bit_eq_div unat_div_distrib unat_mod_distrib)
qed

text \<open>The low word of the counter gives the fill level of the buffer.\<close>

lemma sha1_rep_fill:
  assumes "sha1_rep ctx m"
  shows "unat (drop_bit 3 (sha_count0 ctx) AND 63) = length m mod 64"
proof -
  let ?c = "unat (sha_count0 ctx)"
  have "?c = (?c + 4294967296 * unat (sha_count1 ctx)) mod 4294967296"
    using unat_lt_u32 [of "sha_count0 ctx"] by simp
  also have "\<dots> = 8 * length m mod 18446744073709551616 mod 4294967296"
    using assms by (simp add: sha1_rep_def)
  also have "\<dots> = 8 * length m mod 4294967296" by (simp add: mod_mod_cancel)
  finally have "?c div 8 mod 64 = length m mod 64" by (simp add: div8_mod64_wrap)
  then show ?thesis by (simp only: unat_fill)
qed

lemma split_64:
  assumes "a < (4294967296 :: nat)"
  shows "(a + 4294967296 * x) mod 18446744073709551616 = a + 4294967296 * (x mod 4294967296)"
proof -
  have "(a + 4294967296 * x) div 4294967296 = x" "(a + 4294967296 * x) mod 4294967296 = a"
    using assms by simp_all
  then show ?thesis
    using mod_mult2_eq [of "a + 4294967296 * x" 4294967296 4294967296] by simp
qed

lemma sha1_count_step:
  fixes j c1 len :: u32
  assumes "L < 4294967296" and "len = word_of_nat L"
    and "unat j + 4294967296 * unat c1 = 8 * n mod 18446744073709551616"
  defines "c0 \<equiv> j + push_bit 3 len"
  shows "unat c0 + 4294967296 * unat ((if c0 < j then c1 + 1 else c1) + drop_bit 29 len)
    = 8 * (n + L) mod 18446744073709551616"
proof -
  define lo hi where "lo = 8 * L mod 4294967296" and "hi = 8 * L div 4294967296"
  have LL: "8 * L = lo + 4294967296 * hi" unfolding lo_def hi_def by (rule mod_mult_div_eq [symmetric])
  have hi: "hi < 8" using assms(1) by (simp add: hi_def)
  have plen: "unat (push_bit 3 len) = lo"
    using assms(1,2) by (simp add: push_bit_eq_mult unat_word_ariths unat_of_nat lo_def mult.commute)
  have dlen: "unat (drop_bit 29 len) = hi"
    using assms(1,2) by (simp add: drop_bit_eq_div unat_div_distrib unat_of_nat hi_def)
  have c0: "unat c0 = (unat j + lo) mod 4294967296"
    by (simp add: c0_def unat_word_ariths plen)
  define carry where "carry = (unat j + lo) div 4294967296"
  have jb: "unat j < 4294967296" by (rule unat_lt_u32)
  have lob: "lo < 4294967296" by (simp add: lo_def)
  have carry: "carry = (if c0 < j then 1 else 0)"
  proof (cases "unat j + lo < 4294967296")
    case True
    then show ?thesis using c0 by (simp add: carry_def word_less_nat_alt)
  next
    case False
    then have "unat c0 = unat j + lo - 4294967296" using c0 jb lob by (simp add: mod_if)
    moreover have "carry = 1" using False jb lob by (simp add: carry_def div_if)
    ultimately show ?thesis using False lob by (simp add: word_less_nat_alt)
  qed
  have sum: "unat c0 + 4294967296 * carry = unat j + lo" by (simp add: c0 carry_def)
  have "unat ((if c0 < j then c1 + 1 else c1) + drop_bit 29 len)
      = (unat c1 + carry + hi) mod 4294967296"
    unfolding carry by (simp add: unat_word_ariths dlen mod_simps)
  then have "unat c0 + 4294967296 * unat ((if c0 < j then c1 + 1 else c1) + drop_bit 29 len)
      = (unat c0 + 4294967296 * (unat c1 + carry + hi)) mod 18446744073709551616"
    using split_64 [OF unat_lt_u32 [of c0], of "unat c1 + carry + hi"] by (simp only:)
  also have "unat c0 + 4294967296 * (unat c1 + carry + hi) = (unat j + 4294967296 * unat c1) + 8 * L"
    using sum LL by (simp add: algebra_simps)
  finally show ?thesis unfolding assms(3) by (simp add: mod_add_left_eq distrib_left)
qed


section \<open>SHA1Update follows the message\<close>

lemma sha1_update_loop_eq:
  assumes "length st = 5" and "length data = unat len" and "i \<le> unat len"
    and "i + 64 * ((unat len - i) div 64) + 63 < 4294967296"
  shows "sha1_update_loop st data len i =
    Inr (sha1_absorb st (drop i data), unat len - (unat len - i) mod 64)"
  using assms
proof (induction st data len i rule: sha1_update_loop.induct)
  case (1 st data len i)
  show ?case
  proof (cases "i + 63 < unat len")
    case True
    let ?st = "SHA1Transform st (take 64 (drop i data))"
    have b: "length (take 64 (drop i data)) = 64" using True 1 by simp
    have q: "(unat len - i) div 64 = Suc ((unat len - (i + 64)) div 64)"
      using True by (simp add: div_if [of "unat len - i"])
    have m: "(unat len - i) mod 64 = (unat len - (i + 64)) mod 64"
      using True by (simp add: mod_if [of "unat len - i"])
    have w: "(i + 63) mod 4294967296 = i + 63" "(i + 64) mod 4294967296 = i + 64"
      using True unat_lt_u32 [of len] by simp_all
    have tr: "?st = sha1_compress st (take 64 (drop i data))"
      using 1 b by (intro SHA1Transform_compress) simp_all
    have IH: "sha1_update_loop ?st data len (i + 64) =
        Inr (sha1_absorb ?st (drop (i + 64) data), unat len - (unat len - (i + 64)) mod 64)"
      using "1.IH" "1.prems" True q unfolding w by (simp add: tr)
    have "sha1_absorb st (drop i data) = sha1_absorb ?st (drop (i + 64) data)"
      using True 1 by (simp add: sha1_absorb_block [of "drop i data"] tr add.commute)
    then show ?thesis
      using True IH by (subst sha1_update_loop.simps) (simp add: w m)
  next
    case False
    then have "unat len - i < 64" by simp
    then have "(i + 63) mod 4294967296 = i + 63" using "1.prems" by simp
    then show ?thesis
      using False 1 by (subst sha1_update_loop.simps) simp
  qed
qed

lemma u32_add_gt63:
  fixes j :: u32
  assumes "unat j < 64" and "L < 4294967296"
  shows "(63 < j + word_of_nat L) \<longleftrightarrow> 63 < (unat j + L) mod 4294967296"
  using assms by (simp add: word_less_nat_alt unat_word_ariths unat_of_nat mod_simps)

text \<open>
  The step: whenever the buffered bytes and the new ones together do not overflow
  \<open>uint32_t\<close>, the update succeeds and the context represents the longer message.
\<close>

lemma SHA1Update_rep:
  assumes rep: "sha1_rep ctx m" and L: "length m mod 64 + length data < 4294967296"
  shows "\<exists>ctx'. SHA1Update ctx data = Inr ctx' \<and> sha1_rep ctx' (m @ data)"
proof -
  let ?L = "length data"
  define len where "len = (word_of_nat ?L :: u32)"
  define j where "j = drop_bit 3 (sha_count0 ctx) AND 63"
  define c0 where "c0 = sha_count0 ctx + push_bit 3 len"
  define c1 where "c1 = (if c0 < sha_count0 ctx then sha_count1 ctx + 1 else sha_count1 ctx) + drop_bit 29 len"
  define n where "n = length m mod 64"
  have j: "unat j = n" using sha1_rep_fill [OF rep] by (simp add: j_def n_def)
  have n: "n < 64" by (simp add: n_def)
  have ulen: "unat len = ?L" using L by (simp add: len_def unat_of_nat)
  have st: "sha_state ctx = sha1_absorb sha1_H0 m" "length (sha_state ctx) = 5"
    and bl: "length (sha_buffer ctx) = 64"
    and br: "take n (sha_buffer ctx) = rest_part m"
    using rep by (simp_all add: sha1_rep_def n_def)
  have lr: "length (rest_part m) = n" by (simp add: length_rest_part n_def)
  have count: "unat c0 + 4294967296 * unat c1 = 8 * length (m @ data) mod 18446744073709551616"
    using sha1_count_step [of ?L len "sha_count0 ctx" "sha_count1 ctx" "length m"] rep L
    by (simp add: sha1_rep_def c0_def c1_def len_def)
  have test: "(63 < j + len) = (64 \<le> n + ?L)"
    using u32_add_gt63 [of j ?L] j n L by (auto simp: len_def n_def)
  let ?ctx = "ctx\<lparr>sha_count0 := c0, sha_count1 := c1\<rparr>"
  note unfold = SHA1Update_def Let_def len_def [symmetric] c0_def [symmetric] c1_def [symmetric]
    j_def [symmetric] test j
  show ?thesis
  proof (cases "64 \<le> n + ?L")
    case False
    have up: "SHA1Update ctx data = Inr (?ctx\<lparr>sha_buffer := splice (sha_buffer ctx) n data\<rparr>)"
      unfolding unfold using False bl ulen by (simp add: c_memcpy_ok)
    have "rest_part (m @ data) = rest_part m @ data"
      using rest_part_extend [of m data 0 "n + ?L"] False lr by simp
    moreover have "sha1_absorb sha1_H0 (m @ data) = sha_state ctx"
      using sha1_absorb_extend [of sha1_H0 m data] False lr st(1) by simp
    moreover have "(length m + ?L) mod 64 = n + ?L"
      using False unfolding n_def by (metis mod_add_left_eq mod_less not_le)
    moreover have "take (n + ?L) (splice (sha_buffer ctx) n data) = rest_part m @ data"
      using False bl br lr by (simp add: splice_def)
    ultimately have "sha1_rep (?ctx\<lparr>sha_buffer := splice (sha_buffer ctx) n data\<rparr>) (m @ data)"
      using count False bl by (simp add: sha1_rep_def)
    with up show ?thesis by blast
  next
    case True
    define buf where "buf = rest_part m @ take (64 - n) data"
    define st1 where "st1 = sha1_compress (sha_state ctx) buf"
    define tl where "tl = drop (64 - n) data"
    define r where "r = (?L - (64 - n)) mod 64"
    have lb: "length buf = 64" using True lr n by (simp add: buf_def)
    have "splice (sha_buffer ctx) n (take (64 - n) data) = buf"
      using True bl br lr n by (simp add: splice_def buf_def)
    then have cp: "c_memcpy (sha_buffer ctx) n data (64 - n) = Inr buf"
      using True bl n by (simp add: c_memcpy_ok)
    have tr: "SHA1Transform (sha_state ctx) buf = st1"
      using st lb by (simp add: SHA1Transform_compress st1_def)
    have l1: "length st1 = 5" using st by (simp add: st1_def)
    have lp: "sha1_update_loop st1 data len (64 - n) = Inr (sha1_absorb st1 tl, ?L - r)"
    proof -
      define x where "x = (?L - (64 - n)) div 64"
      have "64 * x \<le> ?L - (64 - n)" by (simp add: x_def)
      then have "64 * (x + 1) \<le> n + ?L" using True n by arith
      then have "x + 1 < 67108864" using L unfolding n_def [symmetric] by presburger
      then have "64 - n + 64 * ((?L - (64 - n)) div 64) + 63 < 4294967296"
        unfolding x_def [symmetric] using n by linarith
      then show ?thesis
        using sha1_update_loop_eq [OF l1, of data len "64 - n"] True ulen
        by (simp add: tl_def r_def)
    qed
    have r: "r < 64" "r \<le> ?L" by (simp_all add: r_def)
    have i: "unat (len - word_of_nat (?L - r)) = r"
    proof -
      have "len - word_of_nat (?L - r) = word_of_nat r"
        using r by (simp add: len_def of_nat_diff)
      then show ?thesis using r by (simp add: unat_of_nat)
    qed
    let ?d = "drop (?L - r) data"
    have cp2: "c_memcpy buf 0 ?d r = Inr (splice buf 0 ?d)"
      using r lb by (simp add: c_memcpy_ok)
    have up: "SHA1Update ctx data =
        Inr (?ctx\<lparr>sha_state := sha1_absorb st1 tl, sha_buffer := splice buf 0 ?d\<rparr>)"
      unfolding unfold using True by (simp add: cp tr lp i cp2)
    obtain k where k: "n + ?L = 64 * Suc k + r"
    proof
      show "n + ?L = 64 * Suc ((?L - (64 - n)) div 64) + r"
        using True n mult_div_mod_eq [of 64 "?L - (64 - n)"] unfolding r_def by simp
    qed
    have "sha1_absorb sha1_H0 (m @ data) = sha1_absorb (sha_state ctx) (buf @ tl)"
      using sha1_absorb_extend [of sha1_H0 m data] st(1) by (simp add: buf_def tl_def)
    also have "\<dots> = sha1_absorb st1 tl"
      using lb by (simp add: sha1_absorb_block st1_def)
    finally have abs: "sha1_absorb sha1_H0 (m @ data) = sha1_absorb st1 tl" .
    have rest: "rest_part (m @ data) = ?d"
    proof -
      have "rest_part (m @ data) = drop (64 * Suc k) (rest_part m @ data)"
        using k lr r by (intro rest_part_extend) simp_all
      moreover have "64 * Suc k - n = ?L - r" "n \<le> 64 * Suc k" using k n by simp_all
      ultimately show ?thesis using lr by simp
    qed
    have "length ?d = r" using r by simp
    moreover from this have "length (m @ data) mod 64 = r"
      using length_rest_part [of "m @ data"] by (simp only: rest)
    ultimately have "sha1_rep (?ctx\<lparr>sha_state := sha1_absorb st1 tl, sha_buffer := splice buf 0 ?d\<rparr>) (m @ data)"
      using count lb r abs rest by (simp add: sha1_rep_def splice_def)
    with up show ?thesis by blast
  qed
qed


text \<open>
  The other side of the bound: when the sum of the fill level and the length wraps, the
  test takes the short branch and the copy runs past the 64-byte buffer.
\<close>

lemma SHA1Update_overflow:
  assumes rep: "sha1_rep ctx m" and d: "length data < 4294967296"
    and L: "4294967296 \<le> length m mod 64 + length data"
  shows "SHA1Update ctx data = Inl Oob_Write"
proof -
  let ?L = "length data"
  define j where "j = drop_bit 3 (sha_count0 ctx) AND 63"
  define n where "n = length m mod 64"
  have j: "unat j = n" using sha1_rep_fill [OF rep] by (simp add: j_def n_def)
  have n: "n < 64" by (simp add: n_def)
  have "(n + ?L) mod 4294967296 = n + ?L - 4294967296"
    using L d n unfolding n_def [symmetric] by (simp add: mod_if)
  then have test: "\<not> 63 < j + (word_of_nat ?L :: u32)"
    using u32_add_gt63 [of j ?L] j n d by simp
  have "length (sha_buffer ctx) = 64" using rep by (simp add: sha1_rep_def)
  then have "c_memcpy (sha_buffer ctx) n data ?L = Inl Oob_Write"
    using L n unfolding n_def [symmetric] by (simp add: c_memcpy_def wr_bytes_def)
  then show ?thesis
    unfolding SHA1Update_def Let_def j_def [symmetric]
    using test d j by (simp add: unat_of_nat)
qed

lemma sha1_rep_state: "sha1_rep ctx m \<Longrightarrow> sha_state ctx = sha1_absorb sha1_H0 m"
  by (simp add: sha1_rep_def)

section \<open>SHA1Final yields the hash\<close>

lemma fill_small: "k < 4294967232 \<Longrightarrow> length m mod 64 + k < 4294967296"
  using mod_less_divisor [of 64 "length m"] by linarith

lemma sha1_pad_measure_rep:
  assumes "sha1_rep ctx m"
  shows "sha1_pad_measure ctx = (120 - length m mod 64) mod 64"
  using sha1_rep_fill [OF assms]
  by (simp add: sha1_pad_measure_def flip: unat_fill)


lemma sha1_pad_loop_rep:
  "sha1_rep ctx m \<Longrightarrow>
   \<exists>ctx'. sha1_pad_loop ctx = Inr ctx' \<and> sha1_rep ctx' (m @ replicate (sha1_pad_measure ctx) 0)"
proof (induction ctx arbitrary: m rule: measure_induct_rule [of sha1_pad_measure])
  case (less ctx)
  show ?case
  proof (cases "sha_count0 ctx AND 504 = 448")
    case True
    then have "sha1_pad_measure ctx = 0" by (simp add: pad_test sha1_pad_measure_def)
    with True less.prems show ?thesis by (subst sha1_pad_loop.simps) simp
  next
    case False
    obtain ctx1 where c1: "SHA1Update ctx [0] = Inr ctx1" "sha1_rep ctx1 (m @ [0])"
      using SHA1Update_rep [OF less.prems, of "[0]"] fill_small [of 1 m] by auto
    have lt: "sha1_pad_measure ctx1 < sha1_pad_measure ctx"
      by (rule sha1_pad_measure_less [OF False c1(1)])
    obtain ctx2 where c2: "sha1_pad_loop ctx1 = Inr ctx2"
        "sha1_rep ctx2 ((m @ [0]) @ replicate (sha1_pad_measure ctx1) 0)"
      using less.IH [OF lt c1(2)] by blast
    have "sha1_pad_measure ctx = Suc (sha1_pad_measure ctx1)"
    proof -
      define q where "q = length m mod 64"
      have q: "q < 64" by (simp add: q_def)
      have "sha1_pad_measure ctx = (120 - q) mod 64"
        "sha1_pad_measure ctx1 = (120 - Suc q mod 64) mod 64"
        using sha1_pad_measure_rep [OF less.prems] sha1_pad_measure_rep [OF c1(2)]
        by (simp_all add: q_def mod_Suc_eq)
      moreover have "(120 - q) mod 64 \<noteq> 0" using lt calculation by simp
      ultimately show ?thesis
        using q lt by (cases "q = 63") (auto simp: mod_if split: if_splits)
    qed
    with False c1 c2 show ?thesis by (subst sha1_pad_loop.simps) simp
  qed
qed

lemma nth_le_bytes: "i < n \<Longrightarrow> le_bytes n v ! i = word_of_nat (v div 256 ^ i)"
proof (induction n arbitrary: v i)
  case (Suc n)
  then show ?case by (cases i) (simp_all add: div_mult2_eq)
qed simp

lemma byte_of_u32: "(ucast (drop_bit (8 * k) c AND 255) :: u8) = word_of_nat (unat (c :: u32) div 256 ^ k)"
proof -
  have "unat c div 256 ^ k = unat (drop_bit (8 * k) c)"
    unfolding unat_drop_bit_eq by (simp add: drop_bit_eq_div power_mult)
  moreover have e: "(255 :: u32) = mask 8" by (simp add: mask_eq_exp_minus_1)
  ultimately show ?thesis
    unfolding e by (auto intro!: bit_word_eqI simp: bit_simps)
qed

lemma be32_expand:
  "be32 c = map (\<lambda>i. ucast (drop_bit ((3 - i) * 8) c AND 255)) [0..<4]"
  by (rule nth_equalityI)
    (auto simp: be32_def be_bytes_def rev_nth nth_le_bytes byte_of_u32 mult.commute [of _ 8])

lemma sha1_digest_eq: "length st = 5 \<Longrightarrow> sha1_digest st = concat (map be32 st)"
  by (auto simp: five_list sha1_digest_def be32_expand upt_rec)

lemma le_bytes_mod: "le_bytes n (v mod 256 ^ n) = le_bytes n v"
  using le_bytes_le_val [of "le_bytes n v"] by (simp add: le_val_le_bytes)

lemma sha1_finalcount_eq:
  assumes "sha1_rep ctx m"
  shows "sha1_finalcount ctx = be64 (word_of_nat (8 * length m))"
proof -
  let ?a = "unat (sha_count0 ctx)" and ?b = "unat (sha_count1 ctx)"
  have a: "?a < 4294967296" by (rule unat_lt_u32)
  have "unat (word_of_nat (8 * length m) :: u64) = 8 * length m mod 18446744073709551616"
    by (subst unat_of_nat) simp
  then have v: "unat (word_of_nat (8 * length m) :: u64) = ?a + 4294967296 * ?b"
    using assms by (simp add: sha1_rep_def)
  have "le_bytes 8 (?a + 4294967296 * ?b) = le_bytes 4 ?a @ le_bytes 4 ?b"
    using le_bytes_add [of 4 4 "?a + 4294967296 * ?b"] le_bytes_mod [of 4 "?a + 4294967296 * ?b"]
      le_bytes_mod [of 4 ?a] a by simp
  then have "be64 (word_of_nat (8 * length m)) = be32 (sha_count1 ctx) @ be32 (sha_count0 ctx)"
    unfolding be64_def v by (simp add: be_bytes_def be32_def)
  then show ?thesis by (simp add: sha1_finalcount_def be32_expand upt_rec)
qed


lemma sha1_zeros_measure:
  "sha1_rep ctx (m @ [128]) \<Longrightarrow> sha1_pad_measure ctx = sha1_zeros (length m)"
proof -
  assume r: "sha1_rep ctx (m @ [128])"
  define q where "q = length m mod 64"
  have "q < 64" by (simp add: q_def)
  then have "(120 - Suc q mod 64) mod 64 = (119 - q) mod (64::nat)"
    by (cases "q = 63") simp_all
  then show ?thesis
    using sha1_pad_measure_rep [OF r] by (simp add: sha1_zeros_def q_def mod_Suc_eq)
qed

lemma SHA1Final_rep:
  assumes rep: "sha1_rep ctx m"
  shows "SHA1Final ctx = Inr (sha1_hash m, sha1_wiped)"
proof -
  obtain c1 where c1: "SHA1Update ctx [128] = Inr c1" "sha1_rep c1 (m @ [128])"
    using SHA1Update_rep [OF rep, of "[128]"] fill_small [of 1 m] by auto
  let ?p = "(m @ [128]) @ replicate (sha1_pad_measure c1) 0"
  obtain c2 where c2: "sha1_pad_loop c1 = Inr c2" "sha1_rep c2 ?p"
    using sha1_pad_loop_rep [OF c1(2)] by blast
  obtain c3 where c3: "SHA1Update c2 (sha1_finalcount ctx) = Inr c3"
      "sha1_rep c3 (?p @ sha1_finalcount ctx)"
    using SHA1Update_rep [OF c2(2), of "sha1_finalcount ctx"] fill_small [of 8 ?p]
    by (auto simp: sha1_finalcount_eq [OF rep])
  have "?p @ sha1_finalcount ctx = sha1_pad m"
    by (simp add: sha1_pad_def sha1_finalcount_eq [OF rep] sha1_zeros_measure [OF c1(2)])
  then have "sha_state c3 = sha1_absorb sha1_H0 (sha1_pad m)"
    using sha1_rep_state [OF c3(2)] by simp
  then show ?thesis
    by (simp add: SHA1Final_def Let_def c1(1) c2(1) c3(1) sha1_digest_eq sha1_hash_def)
qed

lemma length_sha1_hash [simp]: "length (sha1_hash m) = 20"
proof -
  have "length (sha1_absorb sha1_H0 (sha1_pad m)) = 5" by simp
  then obtain a b c d e where "sha1_absorb sha1_H0 (sha1_pad m) = [a, b, c, d, e]"
    unfolding five_list by blast
  then show ?thesis by (simp add: sha1_hash_def)
qed

section \<open>The contract of a streaming hash\<close>

text \<open>
  What the signature code relies on: an initialised context absorbs pieces, each shorter
  than \<open>limit\<close>, and finally yields the hash of their concatenation.
\<close>

locale stream_hash =
  fixes init :: "'c \<Rightarrow> 'c"
    and upd :: "'c \<Rightarrow> bytes \<Rightarrow> 'c res"
    and fin :: "'c \<Rightarrow> (bytes \<times> 'c) res"
    and ctx_ok :: "'c \<Rightarrow> bool"
    and rep :: "'c \<Rightarrow> bytes \<Rightarrow> bool"
    and hash :: "bytes \<Rightarrow> bytes"
    and limit :: nat
  assumes init_rep: "ctx_ok c \<Longrightarrow> rep (init c) []"
    and upd_rep: "rep c m \<Longrightarrow> length d < limit \<Longrightarrow> \<exists>c'. upd c d = Inr c' \<and> rep c' (m @ d)"
    and fin_hash: "rep c m \<Longrightarrow> \<exists>c'. fin c = Inr (hash m, c')"
begin

primrec feed :: "'c \<Rightarrow> bytes list \<Rightarrow> 'c res" where
  "feed c [] = Inr c"
| "feed c (d # ds) = res_bind (upd c d) (\<lambda>c. feed c ds)"

lemma feed_rep:
  "rep c m \<Longrightarrow> \<forall>d\<in>set ds. length d < limit \<Longrightarrow>
   \<exists>c'. feed c ds = Inr c' \<and> rep c' (m @ concat ds)"
proof (induction ds arbitrary: c m)
  case (Cons d ds)
  then obtain c1 where c1: "upd c d = Inr c1" "rep c1 (m @ d)"
    using upd_rep [of c m d] by auto
  with Cons show ?case by fastforce
qed auto

lemma feed_hash:
  assumes "ctx_ok c" and "\<forall>d\<in>set ds. length d < limit"
  shows "\<exists>c'. res_bind (feed (init c) ds) fin = Inr (hash (concat ds), c')"
proof -
  obtain c1 where "feed (init c) ds = Inr c1" "rep c1 (concat ds)"
    using feed_rep [OF init_rep [OF assms(1)] assms(2)] by auto
  then show ?thesis using fin_hash by fastforce
qed

lemma feed_independent:
  assumes "ctx_ok c" and "\<forall>d\<in>set ds. length d < limit" and "\<forall>d\<in>set es. length d < limit"
    and "concat ds = concat es"
  shows "map_sum id fst (res_bind (feed (init c) ds) fin) = map_sum id fst (res_bind (feed (init c) es) fin)"
  using feed_hash [OF assms(1,2)] feed_hash [OF assms(1,3)] assms(4) by auto

end

definition sha1_ctx_ok :: "SHA1_CTX \<Rightarrow> bool" where
  "sha1_ctx_ok ctx \<longleftrightarrow> length (sha_buffer ctx) = 64"

interpretation sha1: stream_hash SHA1Init SHA1Update SHA1Final sha1_ctx_ok sha1_rep sha1_hash
  4294967233
proof
  fix c m d
  show "sha1_ctx_ok c \<Longrightarrow> sha1_rep (SHA1Init c) []"
    by (simp add: sha1_ctx_ok_def sha1_rep_Init)
  show "sha1_rep c m \<Longrightarrow> length d < 4294967233 \<Longrightarrow>
      \<exists>c'. SHA1Update c d = Inr c' \<and> sha1_rep c' (m @ d)"
    using SHA1Update_rep [of c m d] mod_less_divisor [of 64 "length m"] by auto
  show "sha1_rep c m \<Longrightarrow> \<exists>c'. SHA1Final c = Inr (sha1_hash m, c')"
    by (simp add: SHA1Final_rep)
qed

lemma sha1_feed_rep: "sha1_rep ctx m \<Longrightarrow> \<exists>c'. sha1_feed ctx bs = Inr c' \<and> sha1_rep c' (m @ bs)"
proof (induction bs arbitrary: ctx m)
  case (Cons b bs)
  obtain c1 where "SHA1Update ctx [b] = Inr c1" "sha1_rep c1 (m @ [b])"
    using sha1.upd_rep [OF Cons.prems, of "[b]"] by auto
  with Cons.IH [of c1 "m @ [b]"] show ?case by simp
qed simp

lemma SHA1_hash: "sha1_ctx_ok ctx0 \<Longrightarrow> SHA1 ctx0 str = Inr (sha1_hash str @ [0])"
  using sha1_feed_rep [OF sha1.init_rep, of ctx0 str]
  by (auto simp: SHA1_def SHA1Final_rep)

end
