(* ===== verification/Boot_Header.thy ===== *)
theory Boot_Header
  imports Bxxt_Prelude
begin

text \<open>
  The packed boot image header of boot.h: its fields, its layout in memory, and the
  field accesses the packer makes through a pointer into the image.
\<close>

section \<open>The header record and its layout\<close>

record boot_img_hdr =
  magic :: bytes
  kernel_size :: u32
  kernel_addr :: u32
  ramdisk_size :: u32
  ramdisk_addr :: u32
  second_size :: u32
  second_addr :: u32
  tags_addr :: u32
  page_size :: u32
  header_version :: u32
  os_version :: u32
  name :: bytes
  cmdline :: bytes
  id_field :: bytes
  extra_cmdline :: bytes
  recovery_dtbo_size :: u32
  recovery_dtbo_offset :: u64
  header_size :: u32
  dtb_size :: u32
  dtb_addr :: u64

definition BOOT_MAGIC :: bytes where
  "BOOT_MAGIC = [0x41, 0x4E, 0x44, 0x52, 0x4F, 0x49, 0x44, 0x21]"

definition BOOT_NAME_SIZE :: nat where "BOOT_NAME_SIZE = 0x10"
definition BOOT_ARGS_SIZE :: nat where "BOOT_ARGS_SIZE = 0x200"
definition BOOT_EXTRA_ARGS_SIZE :: nat where "BOOT_EXTRA_ARGS_SIZE = 0x400"
definition HDR_SIZE :: nat where "HDR_SIZE = 1660"

lemmas hdr_consts = BOOT_NAME_SIZE_def BOOT_ARGS_SIZE_def BOOT_EXTRA_ARGS_SIZE_def HDR_SIZE_def

text \<open>The array fields of a C struct have a fixed size.\<close>

definition hdr_wf :: "boot_img_hdr \<Rightarrow> bool" where
  "hdr_wf h \<longleftrightarrow> length (magic h) = 8 \<and> length (name h) = BOOT_NAME_SIZE \<and>
     length (cmdline h) = BOOT_ARGS_SIZE \<and> length (id_field h) = 32 \<and>
     length (extra_cmdline h) = BOOT_EXTRA_ARGS_SIZE"

definition encode_hdr :: "boot_img_hdr \<Rightarrow> bytes" where
  "encode_hdr h =
     magic h @ le32 (kernel_size h) @ le32 (kernel_addr h) @
     le32 (ramdisk_size h) @ le32 (ramdisk_addr h) @
     le32 (second_size h) @ le32 (second_addr h) @
     le32 (tags_addr h) @ le32 (page_size h) @
     le32 (header_version h) @ le32 (os_version h) @
     name h @ cmdline h @ id_field h @ extra_cmdline h @
     le32 (recovery_dtbo_size h) @ le64 (recovery_dtbo_offset h) @
     le32 (header_size h) @ le32 (dtb_size h) @ le64 (dtb_addr h)"

definition field :: "nat \<Rightarrow> nat \<Rightarrow> bytes \<Rightarrow> bytes" where
  "field off n m = take n (drop off m)"

definition decode_hdr :: "bytes \<Rightarrow> boot_img_hdr" where
  "decode_hdr m = \<lparr>
     magic = field 0 8 m,
     kernel_size = rd_le32 (field 8 4 m),
     kernel_addr = rd_le32 (field 12 4 m),
     ramdisk_size = rd_le32 (field 16 4 m),
     ramdisk_addr = rd_le32 (field 20 4 m),
     second_size = rd_le32 (field 24 4 m),
     second_addr = rd_le32 (field 28 4 m),
     tags_addr = rd_le32 (field 32 4 m),
     page_size = rd_le32 (field 36 4 m),
     header_version = rd_le32 (field 40 4 m),
     os_version = rd_le32 (field 44 4 m),
     name = field 48 16 m,
     cmdline = field 64 512 m,
     id_field = field 576 32 m,
     extra_cmdline = field 608 1024 m,
     recovery_dtbo_size = rd_le32 (field 1632 4 m),
     recovery_dtbo_offset = rd_le64 (field 1636 8 m),
     header_size = rd_le32 (field 1644 4 m),
     dtb_size = rd_le32 (field 1648 4 m),
     dtb_addr = rd_le64 (field 1652 8 m)\<rparr>"

lemma length_encode_hdr [simp]: "hdr_wf h \<Longrightarrow> length (encode_hdr h) = HDR_SIZE"
  by (simp add: encode_hdr_def hdr_wf_def hdr_consts)

lemma field_here [simp]: "length x = n \<Longrightarrow> field 0 n (x @ r) = x"
  by (simp add: field_def)

lemma field_skip: "length x \<le> off \<Longrightarrow> field off n (x @ r) = field (off - length x) n r"
  by (simp add: field_def)

lemma field_last: "length x = n \<Longrightarrow> field 0 n x = x"
  by (simp add: field_def)

lemma length_field [simp]: "off + n \<le> length m \<Longrightarrow> length (field off n m) = n"
  by (simp add: field_def)

lemma decode_encode_hdr: "hdr_wf h \<Longrightarrow> decode_hdr (encode_hdr h @ rest) = h"
  by (simp add: decode_hdr_def encode_hdr_def hdr_wf_def hdr_consts field_skip field_last
      le32.dec_enc le64.dec_enc)

lemma hdr_wf_decode: "HDR_SIZE \<le> length m \<Longrightarrow> hdr_wf (decode_hdr m)"
  by (simp add: hdr_wf_def decode_hdr_def hdr_consts)

lemma field_join: "field off a m @ field (off + a) b m = field off (a + b) m"
  by (simp add: field_def take_add add.commute)

lemma field_joins:
  "b = off + a \<Longrightarrow> field off a m @ field b c m = field off (a + c) m"
  "b = off + a \<Longrightarrow> field off a m @ field b c m @ r = field off (a + c) m @ r"
  by (simp_all add: field_join flip: append_assoc)

lemma encode_decode_hdr:
  assumes "HDR_SIZE \<le> length m"
  shows "encode_hdr (decode_hdr m) = take HDR_SIZE m"
proof -
  have l: "length (field off n m) = n" if "off + n \<le> 1660" for off n
    using that assms by (simp add: hdr_consts)
  show ?thesis
    by (simp add: encode_hdr_def decode_hdr_def le32.enc_dec le64.enc_dec l field_joins)
      (simp add: field_def hdr_consts)
qed

section \<open>Stores through the header pointer\<close>

text \<open>
  \<open>((struct boot_img_hdr*)img->ptr)->f = v\<close> writes the bytes of the field at its offset
  of the image.
\<close>

definition set_kernel_size :: "u32 \<Rightarrow> bytes \<Rightarrow> bytes res" where
  "set_kernel_size v m = wr_bytes m 8 (le32 v)"
definition set_ramdisk_size :: "u32 \<Rightarrow> bytes \<Rightarrow> bytes res" where
  "set_ramdisk_size v m = wr_bytes m 16 (le32 v)"
definition set_second_size :: "u32 \<Rightarrow> bytes \<Rightarrow> bytes res" where
  "set_second_size v m = wr_bytes m 24 (le32 v)"
definition set_recovery_dtbo_size :: "u32 \<Rightarrow> bytes \<Rightarrow> bytes res" where
  "set_recovery_dtbo_size v m = wr_bytes m 1632 (le32 v)"
definition set_dtb_size :: "u32 \<Rightarrow> bytes \<Rightarrow> bytes res" where
  "set_dtb_size v m = wr_bytes m 1648 (le32 v)"
definition set_id :: "bytes \<Rightarrow> bytes \<Rightarrow> bytes res" where
  "set_id v m = wr_bytes m 576 v"

lemma splice_skip:
  "length x \<le> off \<Longrightarrow> splice (x @ r) off d = x @ splice r (off - length x) d"
  by (simp add: splice_def)

lemma splice_here: "length x = length d \<Longrightarrow> splice (x @ r) 0 d = d @ r"
  by (simp add: splice_def)

named_theorems hdr_stores \<open>the effect of a store on an encoded header\<close>

lemma set_kernel_size_encode [hdr_stores]:
  "hdr_wf h \<Longrightarrow> set_kernel_size v (encode_hdr h @ rest) = Inr (encode_hdr (h\<lparr>kernel_size := v\<rparr>) @ rest)"
  by (simp add: set_kernel_size_def encode_hdr_def hdr_wf_def hdr_consts wr_bytes_def splice_skip splice_here)

lemma set_ramdisk_size_encode [hdr_stores]:
  "hdr_wf h \<Longrightarrow> set_ramdisk_size v (encode_hdr h @ rest) = Inr (encode_hdr (h\<lparr>ramdisk_size := v\<rparr>) @ rest)"
  by (simp add: set_ramdisk_size_def encode_hdr_def hdr_wf_def hdr_consts wr_bytes_def splice_skip splice_here)

lemma set_second_size_encode [hdr_stores]:
  "hdr_wf h \<Longrightarrow> set_second_size v (encode_hdr h @ rest) = Inr (encode_hdr (h\<lparr>second_size := v\<rparr>) @ rest)"
  by (simp add: set_second_size_def encode_hdr_def hdr_wf_def hdr_consts wr_bytes_def splice_skip splice_here)

lemma set_recovery_dtbo_size_encode [hdr_stores]:
  "hdr_wf h \<Longrightarrow>
   set_recovery_dtbo_size v (encode_hdr h @ rest) = Inr (encode_hdr (h\<lparr>recovery_dtbo_size := v\<rparr>) @ rest)"
  by (simp add: set_recovery_dtbo_size_def encode_hdr_def hdr_wf_def hdr_consts wr_bytes_def splice_skip splice_here)

lemma set_dtb_size_encode [hdr_stores]:
  "hdr_wf h \<Longrightarrow> set_dtb_size v (encode_hdr h @ rest) = Inr (encode_hdr (h\<lparr>dtb_size := v\<rparr>) @ rest)"
  by (simp add: set_dtb_size_def encode_hdr_def hdr_wf_def hdr_consts wr_bytes_def splice_skip splice_here)

lemma set_id_encode [hdr_stores]:
  "hdr_wf h \<Longrightarrow> length v = 32 \<Longrightarrow>
   set_id v (encode_hdr h @ rest) = Inr (encode_hdr (h\<lparr>id_field := v\<rparr>) @ rest)"
  by (simp add: set_id_def encode_hdr_def hdr_wf_def hdr_consts wr_bytes_def splice_skip splice_here)

lemma hdr_wf_update [simp]:
  "hdr_wf (h\<lparr>kernel_size := v\<rparr>) = hdr_wf h"
  "hdr_wf (h\<lparr>ramdisk_size := v\<rparr>) = hdr_wf h"
  "hdr_wf (h\<lparr>second_size := v\<rparr>) = hdr_wf h"
  "hdr_wf (h\<lparr>recovery_dtbo_size := v\<rparr>) = hdr_wf h"
  "hdr_wf (h\<lparr>dtb_size := v\<rparr>) = hdr_wf h"
  by (simp_all add: hdr_wf_def)

section \<open>Versions\<close>

text \<open>The encoding that the Android tools use for the field.\<close>

definition mk_os_version :: "u32 \<Rightarrow> u32 \<Rightarrow> u32 \<Rightarrow> u32 \<Rightarrow> u32 \<Rightarrow> u32" where
  "mk_os_version a b c y m =
     push_bit 25 a OR push_bit 18 b OR push_bit 11 c OR push_bit 4 (y - 2000) OR m"

end
