(* ===== verification/Util_Properties.thy ===== *)
theory Util_Properties
  imports Bxxt_Sha1_Correct Boot_Header
begin

text \<open>
  The properties of the program's own utilities: SHA-1, the growable buffer and the
  packed header.
\<close>

text \<open>
  C3: The unrolled block function with its schedule kept in sixteen words, overwritten in
  place, is the compression function of the standard on every block.
\<close>

theorem sha1_transform_standard:
  assumes "length st = 5" and "length blk = 64"
  shows "SHA1Transform st blk = sha1_compress st blk"
  using SHA1Transform_compress [OF assms] .

theorem sha1_transform_standard_witness:
  "SHA1Transform sha1_H0 (replicate 64 0x61) = sha1_compress sha1_H0 (replicate 64 0x61)"
  by (rule sha1_transform_standard) (simp_all add: sha1_H0_def)

text \<open>
  C2: However the message is cut into pieces of less than 2^32 - 63 bytes, initialising an
  uninitialised context, feeding the pieces and finishing gives SHA-1 of the whole message,
  and no access leaves the context.
\<close>

theorem sha1_stream_correct:
  assumes "sha1_ctx_ok ctx0" and "\<forall>d\<in>set ds. length d < 4294967233"
  shows "\<exists>c. res_bind (sha1.feed (SHA1Init ctx0) ds) SHA1Final = Inr (sha1_hash (concat ds), c)"
  by (rule sha1.feed_hash [OF assms])

theorem sha1_stream_correct_witness:
  "\<exists>c. res_bind (sha1.feed (SHA1Init \<lparr>sha_state = [], sha_count0 = 5, sha_count1 = 7, sha_buffer = replicate 64 1\<rparr>)
      [[0x61, 0x62], [], [0x63]]) SHA1Final = Inr (sha1_hash [0x61, 0x62, 0x63], c)"
  using sha1_stream_correct [of "\<lparr>sha_state = [], sha_count0 = 5, sha_count1 = 7, sha_buffer = replicate 64 1\<rparr>"
    "[[0x61, 0x62], [], [0x63]]"] by (simp add: sha1_ctx_ok_def)

text \<open>
  The guard of \<open>SHA1Update\<close> adds the fill of its buffer and the length in 32 bits: when
  the sum reaches 2^32 a piece that should be hashed is copied whole over the 64-byte
  buffer.
\<close>

theorem sha1_update_overflow:
  assumes "sha1_rep ctx m" and "length d < 4294967296" and "4294967296 \<le> length m mod 64 + length d"
  shows "SHA1Update ctx d = Inl Oob_Write"
  using SHA1Update_overflow [OF assms] .

theorem sha1_update_overflow_witness:
  "\<exists>ctx. SHA1Update ctx (replicate 4294967295 0) = Inl Oob_Write"
proof -
  obtain c where "sha1_rep c [1]"
    using sha1.upd_rep [OF sha1.init_rep [of "\<lparr>sha_state = [], sha_count0 = 5, sha_count1 = 7, sha_buffer = replicate 64 1\<rparr>"],
      of "[1]"] by (auto simp: sha1_ctx_ok_def)
  from sha1_update_overflow [OF this, of "replicate 4294967295 0"] show ?thesis by auto
qed

text \<open>
  The packed header is a bijection between well-formed headers and their 1660 bytes:
  what is written is read back, and every 1660 bytes are the header they are read as.
\<close>

theorem header_roundtrip:
  assumes "hdr_wf h" and "HDR_SIZE \<le> length m"
  shows "decode_hdr (encode_hdr h @ rest) = h \<and> encode_hdr (decode_hdr m) = take HDR_SIZE m \<and>
    length (encode_hdr h) = HDR_SIZE"
  using decode_encode_hdr [OF assms(1)] encode_decode_hdr [OF assms(2)] assms(1) by simp

theorem header_roundtrip_witness:
  "encode_hdr (decode_hdr (replicate 2000 7)) = replicate 1660 7"
  using header_roundtrip [OF hdr_wf_decode [of "replicate 2000 7"], of "replicate 2000 7"] by (simp add: hdr_consts)

text \<open>
  Appending to a well-formed buffer and aligning it to a page size adds the data, then
  zeros up to the next multiple of the page, and leaves a well-formed buffer.
\<close>

theorem buffer_append_align:
  assumes "buffer_wf b" and "length x < 2147483648" and "0 < p" and "p \<le> 2147483648"
  shows "\<exists>b1 b2. bxxt_buffer_concat_from_data b x (length x) = Inr (b1, length x) \<and>
    bxxt_buffer_align b1 p = Inr (b2, b_size b2 - b_size b1) \<and> buffer_wf b2 \<and> p dvd b_size b2 \<and>
    b_size b2 < b_size b + length x + p \<and>
    b_ptr b2 = b_ptr b @ x @ replicate (b_size b2 - (b_size b + length x)) 0"
proof -
  let ?b1 = "\<lparr>b_size = b_size b + length x, b_ptr = b_ptr b @ x\<rparr>"
  have wf1: "buffer_wf ?b1" using assms(1) by (simp add: buffer_wf_def)
  have c: "bxxt_buffer_concat_from_data b x (length x) = Inr (?b1, length x)"
    using bxxt_buffer_concat_eq [OF assms(1) order_refl assms(2)] by simp
  show ?thesis
    using c bxxt_buffer_align_eq [OF wf1 assms(3,4)] align_up_ge [OF assms(3), of "b_size b + length x"]
      align_up_less [OF assms(3), of "b_size b + length x"] align_up_dvd [OF assms(3)] assms(1)
    by (intro exI [of _ ?b1] exI) (auto simp: buffer_wf_def)
qed

theorem buffer_append_align_witness:
  "\<exists>b1 b2. bxxt_buffer_concat_from_data (bxxt_buffer_create 1) [5, 6] 2 = Inr (b1, 2) \<and>
    bxxt_buffer_align b1 2048 = Inr (b2, b_size b2 - b_size b1) \<and> buffer_wf b2"
  using buffer_append_align [OF bxxt_buffer_create_wf [of 1], of "[5, 6]" 2048] by (auto simp: numeral_2_eq_2)

end
