(* ===== verification/Boot_Image.thy ===== *)
theory Boot_Image
  imports Boot_Header Bxxt_Buffer Bxxt_Sha1_Correct
begin

text \<open>
  Reading a boot image (boot.c): the layout computed by \<open>bxxt_boot_init1\<close> in
  32-bit arithmetic, the version, sanity and signature checks, the trimming of the data
  after the last section, and the search for device trees. Pointers into the image are
  offsets from its first byte; an access outside the image is a fault.
\<close>

section \<open>State\<close>

record boot_opts =
  force_no_compat_check :: bool
  skip_unknown_data :: bool

record bxxt_dtb =
  dt_size :: nat
  dt_ptr :: nat

record bxxt_boot =
  b_hdr :: boot_img_hdr
  b_kernel_dtb :: "bxxt_dtb list"
  b_dtb :: "bxxt_dtb list"
  b_mm :: bytes
  b_version :: u32
  b_page_size :: u32
  b_kernel_compression :: nat
  b_kernel_size :: u32
  b_kernel_ptr :: nat
  b_ramdisk_size :: u32
  b_ramdisk_ptr :: nat
  b_second_size :: u32
  b_second_ptr :: nat
  b_recovery_dtbo_size :: u32
  b_recovery_dtbo_ptr :: nat
  b_dtb_size :: u32
  b_dtb_ptr :: nat
  b_pad_size :: u32
  b_pad_ptr :: nat

definition BXXT_SUCCESS :: int where "BXXT_SUCCESS = 0"
definition BXXT_FAILED :: int where "BXXT_FAILED = - 25"

lemma status_neq [simp]: "BXXT_SUCCESS \<noteq> BXXT_FAILED" "BXXT_FAILED \<noteq> BXXT_SUCCESS"
  by (simp_all add: BXXT_SUCCESS_def BXXT_FAILED_def)

definition BOOT_MAX_DTB :: nat where "BOOT_MAX_DTB = 255"

text \<open>\<open>bxxt_boot_new\<close>: a zeroed structure.\<close>

definition hdr_zero :: boot_img_hdr where
  "hdr_zero = decode_hdr (replicate HDR_SIZE 0)"

definition bxxt_boot_new :: bxxt_boot where
  "bxxt_boot_new = \<lparr>b_hdr = hdr_zero, b_kernel_dtb = [], b_dtb = [], b_mm = [],
     b_version = 0, b_page_size = 0, b_kernel_compression = 0,
     b_kernel_size = 0, b_kernel_ptr = 0, b_ramdisk_size = 0, b_ramdisk_ptr = 0,
     b_second_size = 0, b_second_ptr = 0, b_recovery_dtbo_size = 0, b_recovery_dtbo_ptr = 0,
     b_dtb_size = 0, b_dtb_ptr = 0, b_pad_size = 0, b_pad_ptr = 0\<rparr>"

section \<open>Checks\<close>

definition bxxt_boot_img_version_check :: "bxxt_boot \<Rightarrow> int" where
  "bxxt_boot_img_version_check b =
     (if magic (b_hdr b) \<noteq> BOOT_MAGIC then BXXT_FAILED
      else if header_version (b_hdr b) \<le> 2 then BXXT_SUCCESS
      else BXXT_FAILED)"

definition bxxt_boot_img_base_check :: "bxxt_boot \<Rightarrow> int" where
  "bxxt_boot_img_base_check b =
     (let h = b_hdr b in
      if page_size h = 0 then BXXT_FAILED
      else if kernel_size h = 0 then BXXT_FAILED
      else if ramdisk_size h > 0x4000000 then BXXT_FAILED
      else if kernel_size h > 0x4000000 then BXXT_FAILED
      else if page_size h > 0xffff then BXXT_FAILED
      else BXXT_SUCCESS)"

definition KERNEL_COMPRESSION_NONE :: nat where "KERNEL_COMPRESSION_NONE = 0"
definition KERNEL_COMPRESSION_GZIP :: nat where "KERNEL_COMPRESSION_GZIP = 1"
definition KERNEL_COMPRESSION_LZMA :: nat where "KERNEL_COMPRESSION_LZMA = 3"

definition bxxt_boot_detect_kernel_compression :: "bxxt_boot \<Rightarrow> nat res" where
  "bxxt_boot_detect_kernel_compression b =
     res_bind (rd_bytes (b_mm b) (b_kernel_ptr b) 2) (\<lambda>w.
       let v = le_val w in
       Inr (if v = 0x8b1f \<or> v = 0x9e1f then KERNEL_COMPRESSION_GZIP
            else if v = 0x005d then KERNEL_COMPRESSION_LZMA
            else KERNEL_COMPRESSION_NONE))"

text \<open>
  \<open>bxxt_boot_img_signature\<close>: SHA-1 over each section followed by its size as it lies in
  memory, sections present depending on the header version; the static 32-byte result
  is zeroed first. \<open>ctx0\<close> is the uninitialised hash context on the stack.
\<close>

definition sha1_upd_mem :: "bytes \<Rightarrow> nat \<Rightarrow> u32 \<Rightarrow> SHA1_CTX \<Rightarrow> SHA1_CTX res" where
  "sha1_upd_mem m off n ctx = res_bind (rd_bytes m off (unat n)) (SHA1Update ctx)"

definition sha1_upd_sized :: "bytes \<Rightarrow> nat \<Rightarrow> u32 \<Rightarrow> SHA1_CTX \<Rightarrow> SHA1_CTX res" where
  "sha1_upd_sized m off n ctx =
     res_bind (if n > 0 then sha1_upd_mem m off n ctx else Inr ctx) (\<lambda>ctx.
     SHA1Update ctx (le32 n))"

definition bxxt_boot_img_signature :: "SHA1_CTX \<Rightarrow> bxxt_boot \<Rightarrow> bytes res" where
  "bxxt_boot_img_signature ctx0 b =
     (let m = b_mm b in
      res_bind (sha1_upd_mem m (b_kernel_ptr b) (b_kernel_size b) (SHA1Init ctx0)) (\<lambda>ctx.
      res_bind (SHA1Update ctx (le32 (b_kernel_size b))) (\<lambda>ctx.
      res_bind (sha1_upd_mem m (b_ramdisk_ptr b) (b_ramdisk_size b) ctx) (\<lambda>ctx.
      res_bind (SHA1Update ctx (le32 (b_ramdisk_size b))) (\<lambda>ctx.
      res_bind (sha1_upd_sized m (b_second_ptr b) (b_second_size b) ctx) (\<lambda>ctx.
      res_bind (if b_version b > 0
                then sha1_upd_sized m (b_recovery_dtbo_ptr b) (b_recovery_dtbo_size b) ctx
                else Inr ctx) (\<lambda>ctx.
      res_bind (if b_version b > 1
                then sha1_upd_sized m (b_dtb_ptr b) (b_dtb_size b) ctx
                else Inr ctx) (\<lambda>ctx.
      res_bind (SHA1Final ctx) (\<lambda>(digest, _). Inr (digest @ replicate 12 0))))))))))"

text \<open>The first eight bytes are compared.\<close>

definition bxxt_boot_img_compat_check :: "boot_opts \<Rightarrow> SHA1_CTX \<Rightarrow> bxxt_boot \<Rightarrow> int res" where
  "bxxt_boot_img_compat_check opts ctx0 b =
     (if force_no_compat_check opts then Inr BXXT_SUCCESS
      else res_bind (bxxt_boot_img_signature ctx0 b) (\<lambda>sha.
        Inr (if take 8 sha = take 8 (id_field (b_hdr b)) then BXXT_SUCCESS else BXXT_FAILED)))"

section \<open>Device trees inside a section\<close>

definition FDT_MAGIC :: u32 where "FDT_MAGIC = 0xd00dfeed"

fun find_sub :: "bytes \<Rightarrow> bytes \<Rightarrow> nat option" where
  "find_sub pat [] = (if pat = [] then Some 0 else None)"
| "find_sub pat (x # xs) =
     (if take (length pat) (x # xs) = pat then Some 0 else map_option Suc (find_sub pat xs))"

text \<open>
  \<open>memmem\<close> over \<open>n\<close> bytes at \<open>base\<close>: a search that has to go on past the last
  mapped byte is a fault.
\<close>

definition c_memmem :: "bytes \<Rightarrow> nat \<Rightarrow> nat \<Rightarrow> bytes \<Rightarrow> nat option res" where
  "c_memmem m base n pat =
     (case find_sub pat (take n (drop base m)) of
        Some k \<Rightarrow> Inr (Some (base + k))
      | None \<Rightarrow> if base + n \<le> length m then Inr None else Inl Oob_Read)"

function parse_dtb_loop ::
  "bytes \<Rightarrow> nat \<Rightarrow> nat \<Rightarrow> nat \<Rightarrow> bxxt_dtb list \<Rightarrow> bxxt_dtb list res" where
  "parse_dtb_loop m mm tot base acc =
     (let size = (word_of_int (int mm + int tot - int base) :: u32) in
      if \<not> size > 0 then Inr acc
      else res_bind (c_memmem m base (unat size) (be32 FDT_MAGIC)) (\<lambda>found.
        case found of
          None \<Rightarrow> Inr acc
        | Some p \<Rightarrow>
            res_bind (rd_bytes m (p + 4) 4) (\<lambda>ts.
            res_bind (rd_bytes m (p + 20) 4) (\<lambda>ver.
            let size = unat (rd_be32 ts) in
            if BOOT_MAX_DTB \<le> length acc then Inl Oob_Write
            else parse_dtb_loop m mm tot (p + size) (acc @ [\<lparr>dt_size = size, dt_ptr = p\<rparr>])))))"
  by pat_completeness auto
termination
  by (relation "measure (\<lambda>(m, mm, tot, base, acc). BOOT_MAX_DTB - length acc)") auto

declare parse_dtb_loop.simps [simp del]

definition bxxt_boot_parse_dtb_sections :: "bytes \<Rightarrow> nat \<Rightarrow> nat \<Rightarrow> bxxt_dtb list res" where
  "bxxt_boot_parse_dtb_sections m mm tot = parse_dtb_loop m mm tot mm []"

section \<open>Layout\<close>

definition B_ps :: "u32 \<Rightarrow> u32 \<Rightarrow> u32" where
  "B_ps ps bs = (bs + ps - 1) div ps * ps"

definition B_KE_o :: "bxxt_boot \<Rightarrow> u32" where
  "B_KE_o b = b_page_size b"
definition B_RA_o :: "bxxt_boot \<Rightarrow> u32" where
  "B_RA_o b = B_KE_o b + B_ps (b_page_size b) (b_kernel_size b)"
definition B_SE_o :: "bxxt_boot \<Rightarrow> u32" where
  "B_SE_o b = B_RA_o b + B_ps (b_page_size b) (b_ramdisk_size b)"
definition B_RE_o :: "bxxt_boot \<Rightarrow> u32" where
  "B_RE_o b = B_SE_o b + B_ps (b_page_size b) (b_second_size b)"
definition B_DT_o :: "bxxt_boot \<Rightarrow> u32" where
  "B_DT_o b = B_RE_o b + B_ps (b_page_size b) (b_recovery_dtbo_size b)"
definition B_PAD_o :: "bxxt_boot \<Rightarrow> u32" where
  "B_PAD_o b = B_DT_o b + B_ps (b_page_size b) (b_dtb_size b)"

text \<open>
  The backward scan for the last non-zero byte after the sections. The index is an
  \<open>int32_t\<close>; at 0 the scan stops without looking at the byte.
\<close>

function trim_scan :: "bytes \<Rightarrow> nat \<Rightarrow> int \<Rightarrow> int res" where
  "trim_scan m pad ts =
     (if ts = 0 then Inr 0
      else let a = int pad + ts in
        if a < 0 \<or> int (length m) \<le> a then Inl Oob_Read
        else if m ! nat a = 0
          then if ts = - 2147483648 then Inl Signed_Overflow else trim_scan m pad (ts - 1)
          else Inr ts)"
  by pat_completeness auto
termination by (relation "measure (\<lambda>(m, pad, ts). nat (int pad + ts + 1))") auto

declare trim_scan.simps [simp del]

text \<open>\<open>bxxt_boot_init1\<close>, in the order of the code: the image is taken in \<open>ptr\<close>, \<open>check\<close> is its last argument.\<close>

definition boot_layout :: "bxxt_boot \<Rightarrow> bytes \<Rightarrow> bxxt_boot res" where
  "boot_layout b ptr =
     (let h = b_hdr b;
          b = b\<lparr>b_mm := ptr, b_page_size := page_size h, b_version := header_version h,
                b_kernel_size := kernel_size h, b_ramdisk_size := ramdisk_size h,
                b_second_size := second_size h, b_recovery_dtbo_size := recovery_dtbo_size h,
                b_dtb_size := dtb_size h\<rparr>
      in if b_page_size b = 0 then Inl Div_By_Zero
         else
           let b = b\<lparr>b_kernel_ptr := unat (B_KE_o b)\<rparr> in
           res_bind (bxxt_boot_detect_kernel_compression b) (\<lambda>c.
           let b = b\<lparr>b_kernel_compression := c,
                     b_ramdisk_ptr := unat (B_RA_o b),
                     b_second_ptr := unat (B_SE_o b),
                     b_recovery_dtbo_ptr := unat (B_RE_o b),
                     b_dtb_ptr := unat (B_DT_o b),
                     b_pad_size := word_of_nat (length ptr) - B_PAD_o b,
                     b_pad_ptr := unat (B_PAD_o b)\<rparr> in
           res_bind (trim_scan ptr (b_pad_ptr b) (sint (b_pad_size b - 1))) (\<lambda>ts.
           Inr (if b_pad_size b \<noteq> 0 then b\<lparr>b_pad_size := word_of_int ts\<rparr> else b))))"

definition bxxt_boot_init1 ::
  "boot_opts \<Rightarrow> SHA1_CTX \<Rightarrow> bxxt_boot \<Rightarrow> bytes \<Rightarrow> bool \<Rightarrow> (bxxt_boot \<times> int) res" where
  "bxxt_boot_init1 opts ctx0 b ptr check =
     res_bind (rd_bytes ptr 0 HDR_SIZE) (\<lambda>hm.
     let b = b\<lparr>b_hdr := decode_hdr hm\<rparr> in
     if bxxt_boot_img_version_check b = BXXT_FAILED then Inr (b, BXXT_FAILED)
     else
       res_bind (boot_layout b ptr) (\<lambda>b.
       if bxxt_boot_img_base_check b = BXXT_FAILED then Inr (b, BXXT_FAILED)
       else
         res_bind (if check then bxxt_boot_img_compat_check opts ctx0 b else Inr BXXT_SUCCESS) (\<lambda>c.
         if c = BXXT_FAILED then Inr (b, BXXT_FAILED)
         else
           res_bind (bxxt_boot_parse_dtb_sections ptr (b_kernel_ptr b) (unat (b_kernel_size b))) (\<lambda>kd.
           res_bind (bxxt_boot_parse_dtb_sections ptr (b_dtb_ptr b) (unat (b_dtb_size b))) (\<lambda>d.
           Inr (b\<lparr>b_kernel_dtb := kd, b_dtb := d\<rparr>, BXXT_SUCCESS))))))"

text \<open>
  \<open>bxxt_boot_open_file\<close> on an image whose bytes were mapped (\<open>None\<close>: the file could not
  be opened). The last argument of the call to \<open>bxxt_boot_init1\<close> is the option itself.
\<close>

definition bxxt_boot_open_file ::
  "boot_opts \<Rightarrow> SHA1_CTX \<Rightarrow> bxxt_boot \<Rightarrow> bytes option \<Rightarrow> (bxxt_boot \<times> int) res" where
  "bxxt_boot_open_file opts ctx0 b img =
     (case img of
        None \<Rightarrow> Inr (b, BXXT_FAILED)
      | Some ptr \<Rightarrow>
          res_bind (bxxt_boot_init1 opts ctx0 b ptr (force_no_compat_check opts)) (\<lambda>(b, r).
          Inr (b, if r \<noteq> BXXT_SUCCESS then BXXT_FAILED else BXXT_SUCCESS)))"

end
