(* ===== verification/Boot_Layout.thy ===== *)
theory Boot_Layout
  imports Boot_Image
begin

text \<open>
  What the reader of boot images computes: the 32-bit offsets are the page-aligned sums
  when these fit, and the trimming scan over the trailing data is characterised exactly.
\<close>

section \<open>Offsets\<close>

lemma unat_B_ps:
  assumes "0 < unat ps" and "unat bs + unat ps \<le> 4294967296"
  shows "unat (B_ps ps bs) = align_up (unat ps) (unat bs)"
proof -
  have "unat (bs + ps - 1) = unat bs + unat ps - 1"
  proof -
    have e: "bs + ps - 1 = word_of_nat (unat bs + unat ps - 1)"
      using assms(1) by (simp add: of_nat_diff)
    have "(unat bs + unat ps - 1) mod 2 ^ LENGTH(32) = unat bs + unat ps - 1"
      using assms by simp
    then show ?thesis unfolding e by (simp only: unat_of_nat)
  qed
  then have q: "unat ((bs + ps - 1) div ps) = (unat bs + unat ps - 1) div unat ps"
    by (simp only: unat_div_distrib)
  define x where "x = (bs + ps - 1) div ps"
  have "(unat bs + unat ps - 1) div unat ps * unat ps < 4294967296"
    using assms div_times_less_eq_dividend [of "unat bs + unat ps - 1" "unat ps"] by linarith
  then have "unat x * unat ps < 4294967296" by (simp only: x_def q)
  then have "unat (x * ps) = unat x * unat ps" by (simp add: unat_word_ariths)
  then show ?thesis unfolding B_ps_def align_up_def x_def q .
qed

lemma unat_add_small:
  fixes x y :: u32
  shows "unat x + unat y < 4294967296 \<Longrightarrow> unat (x + y) = unat x + unat y"
  by (simp add: unat_word_ariths)

text \<open>The offsets as natural numbers, section by section.\<close>

definition pages :: "nat \<Rightarrow> nat list \<Rightarrow> nat" where
  "pages p ns = p + sum_list (map (align_up p) ns)"

lemma align_up_fits:
  "0 < p \<Longrightarrow> align_up p n \<le> k \<Longrightarrow> p + k < 4294967296 \<Longrightarrow> n + p \<le> 4294967296"
  using align_up_ge [of p n] by linarith

lemma offsets_eq:
  assumes p: "0 < unat (b_page_size b)"
    and fits: "pages (unat (b_page_size b)) [unat (b_kernel_size b), unat (b_ramdisk_size b),
        unat (b_second_size b), unat (b_recovery_dtbo_size b), unat (b_dtb_size b)] < 4294967296"
  defines "P \<equiv> unat (b_page_size b)"
  shows "unat (B_KE_o b) = pages P []"
    and "unat (B_RA_o b) = pages P [unat (b_kernel_size b)]"
    and "unat (B_SE_o b) = pages P [unat (b_kernel_size b), unat (b_ramdisk_size b)]"
    and "unat (B_RE_o b) = pages P [unat (b_kernel_size b), unat (b_ramdisk_size b), unat (b_second_size b)]"
    and "unat (B_DT_o b) = pages P [unat (b_kernel_size b), unat (b_ramdisk_size b),
           unat (b_second_size b), unat (b_recovery_dtbo_size b)]"
    and "unat (B_PAD_o b) = pages P [unat (b_kernel_size b), unat (b_ramdisk_size b),
           unat (b_second_size b), unat (b_recovery_dtbo_size b), unat (b_dtb_size b)]"
proof -
  let ?A = "\<lambda>n. align_up P n"
  have fits': "P + ?A (unat (b_kernel_size b)) + ?A (unat (b_ramdisk_size b)) + ?A (unat (b_second_size b))
      + ?A (unat (b_recovery_dtbo_size b)) + ?A (unat (b_dtb_size b)) < 4294967296"
    using fits by (simp add: pages_def P_def)
  have ps: "unat (B_ps (b_page_size b) s) = ?A (unat s)" if "P + ?A (unat s) < 4294967296" for s
    unfolding P_def
    by (rule unat_B_ps [OF p]) (use that p in \<open>auto simp: P_def intro: align_up_fits\<close>)
  have k: "unat (B_ps (b_page_size b) (b_kernel_size b)) = ?A (unat (b_kernel_size b))"
    and r: "unat (B_ps (b_page_size b) (b_ramdisk_size b)) = ?A (unat (b_ramdisk_size b))"
    and s: "unat (B_ps (b_page_size b) (b_second_size b)) = ?A (unat (b_second_size b))"
    and t: "unat (B_ps (b_page_size b) (b_recovery_dtbo_size b)) = ?A (unat (b_recovery_dtbo_size b))"
    and d: "unat (B_ps (b_page_size b) (b_dtb_size b)) = ?A (unat (b_dtb_size b))"
    by (rule ps, use fits' in linarith)+
  have KE: "unat (B_KE_o b) = P" by (simp add: B_KE_o_def P_def)
  have RA: "unat (B_RA_o b) = P + ?A (unat (b_kernel_size b))"
    unfolding B_RA_o_def by (subst unat_add_small) (use KE k fits' in linarith)+
  have SE: "unat (B_SE_o b) = P + ?A (unat (b_kernel_size b)) + ?A (unat (b_ramdisk_size b))"
    unfolding B_SE_o_def by (subst unat_add_small) (use RA r fits' in linarith)+
  have RE: "unat (B_RE_o b) = P + ?A (unat (b_kernel_size b)) + ?A (unat (b_ramdisk_size b))
      + ?A (unat (b_second_size b))"
    unfolding B_RE_o_def by (subst unat_add_small) (use SE s fits' in linarith)+
  have DT: "unat (B_DT_o b) = P + ?A (unat (b_kernel_size b)) + ?A (unat (b_ramdisk_size b))
      + ?A (unat (b_second_size b)) + ?A (unat (b_recovery_dtbo_size b))"
    unfolding B_DT_o_def by (subst unat_add_small) (use RE t fits' in linarith)+
  have PAD: "unat (B_PAD_o b) = P + ?A (unat (b_kernel_size b)) + ?A (unat (b_ramdisk_size b))
      + ?A (unat (b_second_size b)) + ?A (unat (b_recovery_dtbo_size b)) + ?A (unat (b_dtb_size b))"
    unfolding B_PAD_o_def by (subst unat_add_small) (use DT d fits' in linarith)+
  show "unat (B_KE_o b) = pages P []"
    and "unat (B_RA_o b) = pages P [unat (b_kernel_size b)]"
    and "unat (B_SE_o b) = pages P [unat (b_kernel_size b), unat (b_ramdisk_size b)]"
    and "unat (B_RE_o b) = pages P [unat (b_kernel_size b), unat (b_ramdisk_size b), unat (b_second_size b)]"
    and "unat (B_DT_o b) = pages P [unat (b_kernel_size b), unat (b_ramdisk_size b),
           unat (b_second_size b), unat (b_recovery_dtbo_size b)]"
    and "unat (B_PAD_o b) = pages P [unat (b_kernel_size b), unat (b_ramdisk_size b),
           unat (b_second_size b), unat (b_recovery_dtbo_size b), unat (b_dtb_size b)]"
    using KE RA SE RE DT PAD by (simp_all add: pages_def)
qed

section \<open>The trimming scan\<close>

text \<open>
  From a positive index the scan ends at the last non-zero byte above index 0, or at 0.
\<close>

lemma trim_scan_pos:
  assumes "pad + ts < length m"
  shows "\<exists>t. trim_scan m pad (int ts) = Inr (int t) \<and> t \<le> ts \<and>
    (\<forall>k. t < k \<and> k \<le> ts \<longrightarrow> m ! (pad + k) = 0) \<and> (0 < t \<longrightarrow> m ! (pad + t) \<noteq> 0)"
  using assms
proof (induction ts)
  case 0
  then show ?case by (subst trim_scan.simps) auto
next
  case (Suc ts)
  have nt: "nat (int pad + (1 + int ts)) = Suc (pad + ts)" by simp
  show ?case
  proof (cases "m ! (pad + Suc ts) = 0")
    case True
    have "trim_scan m pad (int (Suc ts)) = trim_scan m pad (int ts)"
      using Suc.prems True by (subst trim_scan.simps) (simp add: nt Let_def)
    moreover obtain t where "trim_scan m pad (int ts) = Inr (int t)" "t \<le> ts"
        "\<forall>k. t < k \<and> k \<le> ts \<longrightarrow> m ! (pad + k) = 0" "0 < t \<longrightarrow> m ! (pad + t) \<noteq> 0"
      using Suc by auto
    moreover have "\<forall>k. t < k \<and> k \<le> Suc ts \<longrightarrow> m ! (pad + k) = 0"
      using calculation(4) True le_Suc_eq by auto
    ultimately show ?thesis by (intro exI [of _ t]) simp
  next
    case False
    have "trim_scan m pad (int (Suc ts)) = Inr (int (Suc ts))"
      using Suc.prems False by (subst trim_scan.simps) (simp add: nt Let_def)
    with False show ?thesis by (intro exI [of _ "Suc ts"]) auto
  qed
qed

text \<open>
  When the sections fill the image the scan starts at index -1 and walks back into the
  sections; a non-zero byte below stops it.
\<close>

lemma trim_scan_neg:
  assumes "k \<le> pad" and "0 < k" and "pad \<le> length m" and "pad < 2147483648"
    and "\<exists>i\<le>pad - k. m ! i \<noteq> 0"
  shows "\<exists>ts. trim_scan m pad (- int k) = Inr ts"
  using assms
proof (induction "pad - k" arbitrary: k)
  case 0
  then have e: "nat (int pad - int k) = 0" "k = pad" by simp_all
  moreover have "m \<noteq> []" using 0 by auto
  ultimately show ?case using 0 by (subst trim_scan.simps) (simp add: Let_def)
next
  case (Suc n)
  have a: "nat (int pad - int k) = pad - k" by simp
  show ?case
  proof (cases "m ! (pad - k) = 0")
    case True
    then obtain i where i: "i \<le> pad - k" "m ! i \<noteq> 0" using Suc.prems by blast
    with True have "i \<le> pad - Suc k" by (metis Suc_diff_Suc Suc.hyps(2) diff_Suc_Suc le_Suc_eq zero_less_Suc zero_less_diff)
    then have "\<exists>ts. trim_scan m pad (- int (Suc k)) = Inr ts"
      using Suc i by (intro Suc.hyps(1)) auto
    moreover have "- int (Suc k) = - int k - 1" by simp
    then have "trim_scan m pad (- int k) = trim_scan m pad (- int (Suc k))"
      using Suc.prems True by (subst trim_scan.simps) (simp only:, simp add: Let_def a)
    ultimately show ?thesis by simp
  next
    case False
    then show ?thesis
      using Suc.prems by (subst trim_scan.simps) (simp add: Let_def a)
  qed
qed

end
