(* ===== verification/Boot_Sections.thy ===== *)
theory Boot_Sections
  imports Boot_Layout
begin

text \<open>
  What the reader makes of an image put together from padded sections: the layout it
  computes finds every section, the signature is SHA-1 of the documented concatenation,
  and device trees appended to a section are all found.
\<close>

section \<open>Images put together from padded sections\<close>

definition page_pad :: "nat \<Rightarrow> bytes \<Rightarrow> bytes" where
  "page_pad p xs = xs @ replicate (align_up p (length xs) - length xs) 0"

record sections =
  s_kernel :: bytes
  s_ramdisk :: bytes
  s_second :: bytes
  s_recovery :: bytes
  s_dtb :: bytes
  s_extra :: bytes

definition image_of :: "nat \<Rightarrow> boot_img_hdr \<Rightarrow> sections \<Rightarrow> bytes" where
  "image_of p h S = page_pad p (encode_hdr h) @ page_pad p (s_kernel S) @ page_pad p (s_ramdisk S) @
     page_pad p (s_second S) @ page_pad p (s_recovery S) @ page_pad p (s_dtb S) @ page_pad p (s_extra S)"

text \<open>An image that a header describes: sizes, page size and version as the reader accepts them.\<close>

definition describes :: "boot_img_hdr \<Rightarrow> sections \<Rightarrow> bool" where
  "describes h S \<longleftrightarrow>
     hdr_wf h \<and> magic h = BOOT_MAGIC \<and> header_version h \<le> 2 \<and>
     HDR_SIZE \<le> unat (page_size h) \<and> unat (page_size h) \<le> 65535 \<and>
     unat (kernel_size h) = length (s_kernel S) \<and> unat (ramdisk_size h) = length (s_ramdisk S) \<and>
     unat (second_size h) = length (s_second S) \<and>
     unat (recovery_dtbo_size h) = length (s_recovery S) \<and> unat (dtb_size h) = length (s_dtb S) \<and>
     0 < length (s_kernel S) \<and> length (s_kernel S) \<le> 67108864 \<and> length (s_ramdisk S) \<le> 67108864 \<and>
     length (image_of (unat (page_size h)) h S) < 2147483648"

lemma length_page_pad [simp]: "0 < p \<Longrightarrow> length (page_pad p xs) = align_up p (length xs)"
  using align_up_ge [of p "length xs"] by (simp add: page_pad_def)

lemma page_pad_Nil [simp]: "0 < p \<Longrightarrow> page_pad p [] = []"
  by (simp add: page_pad_def align_up_eq)

lemma align_up_one_page: "0 < n \<Longrightarrow> n \<le> p \<Longrightarrow> align_up p n = p"
  by (cases "n = p") (simp_all add: align_up_eq)

text \<open>The section that starts where the pieces before it end.\<close>

lemma section_at:
  "length pre = off \<Longrightarrow> take (length xs) (drop off (pre @ page_pad p xs @ post)) = xs"
  by (simp add: page_pad_def)

definition section_bytes :: "bytes \<Rightarrow> nat \<Rightarrow> u32 \<Rightarrow> bytes" where
  "section_bytes m off n = take (unat n) (drop off m)"

lemma describesD:
  assumes "describes h S" and "p = unat (page_size h)" and "img = image_of p h S"
  shows "hdr_wf h" "magic h = BOOT_MAGIC" "header_version h \<le> 2" "HDR_SIZE \<le> p" "p \<le> 65535" "0 < p"
    "unat (kernel_size h) = length (s_kernel S)" "unat (ramdisk_size h) = length (s_ramdisk S)"
    "unat (second_size h) = length (s_second S)"
    "unat (recovery_dtbo_size h) = length (s_recovery S)" "unat (dtb_size h) = length (s_dtb S)"
    "0 < length (s_kernel S)" "length (s_kernel S) \<le> 67108864" "length (s_ramdisk S) \<le> 67108864"
    "length img < 2147483648"
  using assms by (simp_all add: describes_def hdr_consts)

text \<open>Where the sections of such an image lie, as the reader computes it.\<close>

definition placed :: "sections \<Rightarrow> bytes \<Rightarrow> bxxt_boot \<Rightarrow> bool" where
  "placed S img b \<longleftrightarrow>
     b_mm b = img \<and>
     section_bytes img (b_kernel_ptr b) (b_kernel_size b) = s_kernel S \<and>
     section_bytes img (b_ramdisk_ptr b) (b_ramdisk_size b) = s_ramdisk S \<and>
     section_bytes img (b_second_ptr b) (b_second_size b) = s_second S \<and>
     section_bytes img (b_recovery_dtbo_ptr b) (b_recovery_dtbo_size b) = s_recovery S \<and>
     section_bytes img (b_dtb_ptr b) (b_dtb_size b) = s_dtb S \<and>
     b_kernel_ptr b + unat (b_kernel_size b) \<le> length img \<and>
     b_ramdisk_ptr b + unat (b_ramdisk_size b) \<le> length img \<and>
     b_second_ptr b + unat (b_second_size b) \<le> length img \<and>
     b_recovery_dtbo_ptr b + unat (b_recovery_dtbo_size b) \<le> length img \<and>
     b_dtb_ptr b + unat (b_dtb_size b) \<le> length img"

lemma length_image_of:
  assumes "0 < p" and "hdr_wf h" and "HDR_SIZE \<le> p"
  shows "length (image_of p h S) = pages p [length (s_kernel S), length (s_ramdisk S),
    length (s_second S), length (s_recovery S), length (s_dtb S)] + align_up p (length (s_extra S))"
  using assms align_up_one_page [of HDR_SIZE p]
  by (simp add: image_of_def pages_def hdr_consts)

lemma sint_pred_zero: "sint (0 - 1 :: u32) = - 1"
  by simp

lemma sint_pred:
  fixes w :: u32
  assumes "0 < unat w" and "unat w < 2147483648"
  shows "sint (w - 1) = int (unat w - 1)"
proof -
  have e: "w - 1 = word_of_nat (unat w - 1)" using assms by (simp add: of_nat_diff)
  have "sint (word_of_nat n :: u32) = int n" if "n < 2147483648" for n
    using that by (simp add: signed_of_nat signed_take_bit_int_eq_self)
  from this [of "unat w - 1"] show ?thesis unfolding e using assms by simp
qed

lemma detect_ok:
  "b_kernel_ptr b + 2 \<le> length (b_mm b) \<Longrightarrow>
   \<exists>c. bxxt_boot_detect_kernel_compression b = Inr c"
  by (simp add: bxxt_boot_detect_kernel_compression_def Let_def)

text \<open>
  The number of bytes of the trailing data that the reader keeps: the index of its last
  non-zero byte, 0 when there is none above index 0.
\<close>

definition kept_size :: "bytes \<Rightarrow> nat" where
  "kept_size xs = length (dropWhile (\<lambda>b. b = 0) (rev xs)) - 1"

lemma kept_size_unique:
  assumes "t < length xs" and "\<forall>k. t < k \<and> k < length xs \<longrightarrow> xs ! k = 0"
    and "0 < t \<longrightarrow> xs ! t \<noteq> 0"
  shows "t = kept_size xs"
proof -
  have xs: "xs = take (Suc t) xs @ drop (Suc t) xs" by simp
  have z: "\<forall>b\<in>set (drop (Suc t) xs). b = 0"
    using assms(2) by (auto simp: in_set_conv_nth)
  have tk: "take (Suc t) xs = take t xs @ [xs ! t]" using assms(1) by (rule take_Suc_conv_app_nth)
  have "rev xs = rev (drop (Suc t) xs) @ xs ! t # rev (take t xs)"
    by (subst xs, simp only: tk rev_append) simp
  then have "dropWhile (\<lambda>b. b = 0) (rev xs) = dropWhile (\<lambda>b. b = 0) (xs ! t # rev (take t xs))"
    using z by (simp add: dropWhile_append)
  then show ?thesis using assms(1,3) by (cases "t = 0") (auto simp: kept_size_def)
qed

lemma kept_size_zeros: "kept_size (xs @ replicate n 0) = kept_size xs"
  by (simp add: kept_size_def dropWhile_append)


text \<open>The scan over the trailing data of an image whose sections are all there.\<close>

lemma trim_image:
  assumes img: "img = pre @ page_pad p x" and pre: "length pre = pad"
    and fits: "length img < 2147483648" and hd: "0 < pad" "img ! 0 \<noteq> 0" and p: "0 < p"
  defines "w \<equiv> (word_of_nat (length img) - word_of_nat pad :: u32)"
  shows "\<exists>ts. trim_scan img pad (sint (w - 1)) = Inr ts \<and>
    (if w \<noteq> 0 then word_of_int ts else w) = (word_of_nat (kept_size x) :: u32)"
proof -
  let ?y = "page_pad p x"
  have len: "length img = pad + length ?y" using img pre by simp
  have w: "w = word_of_nat (length ?y)" by (simp add: w_def len)
  have uw: "unat w = length ?y" using fits len unfolding w by (simp add: unat_of_nat)
  have kz: "kept_size ?y = kept_size x" by (simp add: page_pad_def kept_size_zeros)
  show ?thesis
  proof (cases "?y = []")
    case True
    then have "w = 0" by (simp add: w)
    moreover from True have "x = []" by (simp add: page_pad_def)
    moreover have "\<exists>ts. trim_scan img pad (- int 1) = Inr ts"
      using hd fits len by (intro trim_scan_neg) auto
    ultimately show ?thesis by (auto simp: kept_size_def)
  next
    case False
    then have pos: "0 < unat w" by (simp add: uw)
    then have s: "sint (w - 1) = int (length ?y - 1)"
      using sint_pred [of w] fits len uw by simp
    have "pad + (length ?y - 1) < length img" using False len by (cases ?y) auto
    from trim_scan_pos [OF this] obtain t where t: "trim_scan img pad (int (length ?y - 1)) = Inr (int t)"
      "t \<le> length ?y - 1" "\<forall>k. t < k \<and> k \<le> length ?y - 1 \<longrightarrow> img ! (pad + k) = 0"
      "0 < t \<longrightarrow> img ! (pad + t) \<noteq> 0" by blast
    have nth: "img ! (pad + k) = ?y ! k" for k using img pre by (simp add: nth_append)
    have "t = kept_size ?y"
      using t False by (intro kept_size_unique) (auto simp: nth neq_Nil_conv)
    moreover have "w \<noteq> 0" using pos by auto
    ultimately show ?thesis using t(1) s kz by simp
  qed
qed

lemma image_split:
  assumes "describes h S" and "p = unat (page_size h)" and "img = image_of p h S"
  shows "img = encode_hdr h @ drop HDR_SIZE img" and "img ! 0 = 0x41"
proof -
  note D = describesD [OF assms]
  obtain r where r: "img = encode_hdr h @ r"
    by (auto simp: assms(3) image_of_def page_pad_def)
  with D(1) show "img = encode_hdr h @ drop HDR_SIZE img" by simp
  have "encode_hdr h ! 0 = BOOT_MAGIC ! 0"
    using D(1,2) by (simp add: encode_hdr_def nth_append BOOT_MAGIC_def)
  then show "img ! 0 = 0x41"
    unfolding r using D(1) by (simp add: nth_append hdr_consts BOOT_MAGIC_def)
qed

lemma offs_update [simp]:
  "B_KE_o (b\<lparr>b_kernel_ptr := x\<rparr>) = B_KE_o b" "B_RA_o (b\<lparr>b_kernel_ptr := x\<rparr>) = B_RA_o b"
  "B_SE_o (b\<lparr>b_kernel_ptr := x\<rparr>) = B_SE_o b" "B_RE_o (b\<lparr>b_kernel_ptr := x\<rparr>) = B_RE_o b"
  "B_DT_o (b\<lparr>b_kernel_ptr := x\<rparr>) = B_DT_o b" "B_PAD_o (b\<lparr>b_kernel_ptr := x\<rparr>) = B_PAD_o b"
  by (simp_all add: B_KE_o_def B_RA_o_def B_SE_o_def B_RE_o_def B_DT_o_def B_PAD_o_def)

lemma boot_layout_image:
  assumes "describes h S" and "p = unat (page_size h)" and "img = image_of p h S"
    and hb: "b_hdr b = h"
  shows "\<exists>b'. boot_layout b img = Inr b' \<and> placed S img b' \<and> b_hdr b' = h \<and>
    b_version b' = header_version h \<and>
    b_kernel_ptr b' = p \<and>
    b_kernel_size b' = kernel_size h \<and> b_ramdisk_size b' = ramdisk_size h \<and>
    b_second_size b' = second_size h \<and> b_recovery_dtbo_size b' = recovery_dtbo_size h \<and>
    b_dtb_size b' = dtb_size h \<and>
    b_pad_size b' = word_of_nat (kept_size (s_extra S)) \<and>
    b_pad_ptr b' + kept_size (s_extra S) \<le> length img \<and>
    take (kept_size (s_extra S)) (drop (b_pad_ptr b') img) = take (kept_size (s_extra S)) (s_extra S)"
proof -
  note D = describesD [OF assms(1-3)]
  define B where "B = b\<lparr>b_mm := img, b_page_size := page_size h, b_version := header_version h,
      b_kernel_size := kernel_size h, b_ramdisk_size := ramdisk_size h,
      b_second_size := second_size h, b_recovery_dtbo_size := recovery_dtbo_size h,
      b_dtb_size := dtb_size h\<rparr>"
  have P: "unat (b_page_size B) = p" by (simp add: B_def assms(2))
  have len: "length img = pages p [length (s_kernel S), length (s_ramdisk S),
    length (s_second S), length (s_recovery S), length (s_dtb S)] + align_up p (length (s_extra S))"
    using length_image_of [OF D(6,1,4)] assms(3) by simp
  have sizes: "unat (b_kernel_size B) = length (s_kernel S)" "unat (b_ramdisk_size B) = length (s_ramdisk S)"
    "unat (b_second_size B) = length (s_second S)"
    "unat (b_recovery_dtbo_size B) = length (s_recovery S)" "unat (b_dtb_size B) = length (s_dtb S)"
    using D by (simp_all add: B_def)
  have off: "unat (B_KE_o B) = pages p []"
    "unat (B_RA_o B) = pages p [length (s_kernel S)]"
    "unat (B_SE_o B) = pages p [length (s_kernel S), length (s_ramdisk S)]"
    "unat (B_RE_o B) = pages p [length (s_kernel S), length (s_ramdisk S), length (s_second S)]"
    "unat (B_DT_o B) = pages p [length (s_kernel S), length (s_ramdisk S), length (s_second S),
        length (s_recovery S)]"
    "unat (B_PAD_o B) = pages p [length (s_kernel S), length (s_ramdisk S), length (s_second S),
        length (s_recovery S), length (s_dtb S)]"
    using offsets_eq [of B] D(6,15) len unfolding P sizes by simp_all
  have Bmm: "b_mm B = img" "b_hdr B = h" "b_version B = header_version h"
    "b_kernel_size B = kernel_size h" "b_ramdisk_size B = ramdisk_size h"
    "b_second_size B = second_size h" "b_recovery_dtbo_size B = recovery_dtbo_size h"
    "b_dtb_size B = dtb_size h" "b_page_size B = page_size h"
    using hb by (simp_all add: B_def)
  have p1: "p \<le> align_up p (length (s_kernel S))"
    using dvd_imp_le [OF align_up_dvd [OF D(6), of "length (s_kernel S)"]]
      align_up_ge [OF D(6), of "length (s_kernel S)"] D(12) by linarith
  obtain c where c: "bxxt_boot_detect_kernel_compression (B\<lparr>b_kernel_ptr := unat (B_KE_o B)\<rparr>) = Inr c"
    using detect_ok [of "B\<lparr>b_kernel_ptr := unat (B_KE_o B)\<rparr>"] len p1 D(4)
    by (auto simp: Bmm off(1) pages_def hdr_consts)
  define pad where "pad = pages p [length (s_kernel S), length (s_ramdisk S),
      length (s_second S), length (s_recovery S), length (s_dtb S)]"
  let ?pre = "page_pad p (encode_hdr h) @ page_pad p (s_kernel S) @ page_pad p (s_ramdisk S) @
     page_pad p (s_second S) @ page_pad p (s_recovery S) @ page_pad p (s_dtb S)"
  have pre: "img = ?pre @ page_pad p (s_extra S)" by (simp add: assms(3) image_of_def)
  have lpre: "length ?pre = pad"
    using D(1,6) align_up_one_page [of HDR_SIZE p] D(4)
    by (simp add: pad_def pages_def hdr_consts)
  have pos: "0 < pad" using D(6) by (simp add: pad_def pages_def)
  have "img ! 0 \<noteq> 0" using image_split(2) [OF assms(1-3)] by simp
  from trim_image [OF pre lpre D(15) pos this D(6)] obtain ts where
    ts: "trim_scan img pad (sint (word_of_nat (length img) - word_of_nat pad - 1 :: u32)) = Inr ts"
      "(if word_of_nat (length img) - word_of_nat pad \<noteq> (0 :: u32) then word_of_int ts
        else word_of_nat (length img) - word_of_nat pad) = (word_of_nat (kept_size (s_extra S)) :: u32)"
    by blast
  have padw: "B_PAD_o B = word_of_nat pad" unfolding pad_def off(6) [symmetric] by simp
  define b' where "b' = B\<lparr>b_kernel_ptr := unat (B_KE_o B), b_kernel_compression := c,
                     b_ramdisk_ptr := unat (B_RA_o B),
                     b_second_ptr := unat (B_SE_o B),
                     b_recovery_dtbo_ptr := unat (B_RE_o B),
                     b_dtb_ptr := unat (B_DT_o B),
                     b_pad_size := word_of_nat (kept_size (s_extra S)),
                     b_pad_ptr := pad\<rparr>"
  have lay: "boot_layout b img = Inr b'"
  proof -
    have "unat (B_PAD_o B) = pad" using off(6) by (simp add: pad_def)
    then show ?thesis
      using P D(6) ts c
      unfolding boot_layout_def hb Let_def B_def [symmetric]
      by (auto simp: padw b'_def)
  qed
  have hl: "align_up p (length (encode_hdr h)) = p"
    using D(1,4) align_up_one_page [of HDR_SIZE p] by (simp add: hdr_consts)
  let ?H = "page_pad p (encode_hdr h)" and ?K = "page_pad p (s_kernel S)" and ?R = "page_pad p (s_ramdisk S)"
    and ?S = "page_pad p (s_second S)" and ?T = "page_pad p (s_recovery S)" and ?D = "page_pad p (s_dtb S)"
    and ?X = "page_pad p (s_extra S)"
  have at: "section_bytes img (pages p ls) w = xs \<and> pages p ls + unat w \<le> length img"
    if "img = q @ page_pad p xs @ r" "length q = pages p ls" "unat w = length xs" for q xs r ls w
    using section_at [OF that(2), of xs p r] that align_up_ge [OF D(6), of "length xs"] D(6)
    by (simp add: section_bytes_def)
  note I = assms(3) [unfolded image_of_def] and L = D(6) hl pages_def
  have K: "section_bytes img (unat (B_KE_o B)) (kernel_size h) = s_kernel S \<and>
      unat (B_KE_o B) + unat (kernel_size h) \<le> length img"
    unfolding off by (rule at [of ?H _ "?R @ ?S @ ?T @ ?D @ ?X"]) (simp_all add: I L D(7))
  have R: "section_bytes img (unat (B_RA_o B)) (ramdisk_size h) = s_ramdisk S \<and>
      unat (B_RA_o B) + unat (ramdisk_size h) \<le> length img"
    unfolding off by (rule at [of "?H @ ?K" _ "?S @ ?T @ ?D @ ?X"]) (simp_all add: I L D(8))
  have S: "section_bytes img (unat (B_SE_o B)) (second_size h) = s_second S \<and>
      unat (B_SE_o B) + unat (second_size h) \<le> length img"
    unfolding off by (rule at [of "?H @ ?K @ ?R" _ "?T @ ?D @ ?X"]) (simp_all add: I L D(9))
  have T: "section_bytes img (unat (B_RE_o B)) (recovery_dtbo_size h) = s_recovery S \<and>
      unat (B_RE_o B) + unat (recovery_dtbo_size h) \<le> length img"
    unfolding off by (rule at [of "?H @ ?K @ ?R @ ?S" _ "?D @ ?X"]) (simp_all add: I L D(10))
  have DT: "section_bytes img (unat (B_DT_o B)) (dtb_size h) = s_dtb S \<and>
      unat (B_DT_o B) + unat (dtb_size h) \<le> length img"
    unfolding off by (rule at [of "?H @ ?K @ ?R @ ?S @ ?T" _ "?X"]) (simp_all add: I L D(11))
  have pl: "placed S img b'"
    unfolding placed_def b'_def using K R S T DT by (simp add: Bmm)
  have kx: "kept_size (s_extra S) \<le> length (s_extra S)"
    using length_dropWhile_le [of "\<lambda>b. b = 0" "rev (s_extra S)"] by (simp add: kept_size_def)
  have dp: "drop pad img = page_pad p (s_extra S)" using pre lpre by simp
  have "take (kept_size (s_extra S)) (drop pad img) = take (kept_size (s_extra S)) (s_extra S)"
    unfolding dp page_pad_def using kx by simp
  moreover have "pad + kept_size (s_extra S) \<le> length img"
    using kx len align_up_ge [OF D(6), of "length (s_extra S)"] by (simp add: pad_def)
  ultimately show ?thesis
    using lay pl by (intro exI [of _ b']) (simp add: b'_def Bmm off(1) pages_def)
qed


section \<open>The signature\<close>

text \<open>What is hashed: every section the header version knows, each followed by its size.\<close>

definition boot_signed :: "bxxt_boot \<Rightarrow> bytes" where
  "boot_signed b =
     (let sec = section_bytes (b_mm b) in
      sec (b_kernel_ptr b) (b_kernel_size b) @ le32 (b_kernel_size b) @
      sec (b_ramdisk_ptr b) (b_ramdisk_size b) @ le32 (b_ramdisk_size b) @
      sec (b_second_ptr b) (b_second_size b) @ le32 (b_second_size b) @
      (if b_version b > 0
       then sec (b_recovery_dtbo_ptr b) (b_recovery_dtbo_size b) @ le32 (b_recovery_dtbo_size b) else []) @
      (if b_version b > 1 then sec (b_dtb_ptr b) (b_dtb_size b) @ le32 (b_dtb_size b) else []))"

definition sections_inside :: "bxxt_boot \<Rightarrow> bool" where
  "sections_inside b \<longleftrightarrow>
     b_kernel_ptr b + unat (b_kernel_size b) \<le> length (b_mm b) \<and>
     b_ramdisk_ptr b + unat (b_ramdisk_size b) \<le> length (b_mm b) \<and>
     b_second_ptr b + unat (b_second_size b) \<le> length (b_mm b) \<and>
     b_recovery_dtbo_ptr b + unat (b_recovery_dtbo_size b) \<le> length (b_mm b) \<and>
     b_dtb_ptr b + unat (b_dtb_size b) \<le> length (b_mm b) \<and>
     length (b_mm b) < 4294967233"

text \<open>One rule per kind of step: the context absorbs the piece and the rest goes on from there.\<close>

lemma bind_mem:
  assumes "sha1_rep ctx x" and "off + unat n \<le> length m" and "length m < 4294967233"
    and "\<And>c. sha1_rep c (x @ section_bytes m off n) \<Longrightarrow> g c = R"
  shows "res_bind (sha1_upd_mem m off n ctx) g = R"
proof -
  have "length (section_bytes m off n) < 4294967233" using assms(2,3) by (simp add: section_bytes_def)
  from sha1.upd_rep [OF assms(1) this] assms(2,4) show ?thesis
    by (auto simp: sha1_upd_mem_def section_bytes_def)
qed

lemma bind_le32:
  assumes "sha1_rep ctx x" and "\<And>c. sha1_rep c (x @ le32 n) \<Longrightarrow> g c = R"
  shows "res_bind (SHA1Update ctx (le32 n)) g = R"
  using sha1.upd_rep [OF assms(1), of "le32 n"] assms(2) by auto

lemma bind_sized:
  assumes "sha1_rep ctx x" and "off + unat n \<le> length m" and "length m < 4294967233"
    and "\<And>c. sha1_rep c (x @ section_bytes m off n @ le32 n) \<Longrightarrow> g c = R"
  shows "res_bind (sha1_upd_sized m off n ctx) g = R"
proof (cases "n = 0")
  case True
  then show ?thesis
    using bind_le32 [OF assms(1), of n g R] assms(4) by (simp add: sha1_upd_sized_def section_bytes_def)
next
  case False
  then have "sha1_upd_sized m off n ctx =
      res_bind (sha1_upd_mem m off n ctx) (\<lambda>ctx. SHA1Update ctx (le32 n))"
    by (simp add: sha1_upd_sized_def word_neq_0_conv)
  then show ?thesis
    using assms by (auto simp: res_bind_assoc intro!: bind_mem bind_le32)
qed

lemma bind_if_sized:
  assumes "sha1_rep ctx x" and "off + unat n \<le> length m" and "length m < 4294967233"
    and "\<And>c. sha1_rep c (x @ (if t then section_bytes m off n @ le32 n else [])) \<Longrightarrow> g c = R"
  shows "res_bind (if t then sha1_upd_sized m off n ctx else Inr ctx) g = R"
  using assms by (cases t) (auto intro!: bind_sized)

lemma signature_sha1:
  assumes "sha1_ctx_ok ctx0" and ins: "sections_inside b"
  shows "bxxt_boot_img_signature ctx0 b = Inr (sha1_hash (boot_signed b) @ replicate 12 0)"
proof -
  note I = ins [unfolded sections_inside_def]
  show ?thesis
    unfolding bxxt_boot_img_signature_def Let_def
    apply (rule bind_mem, rule sha1.init_rep [OF assms(1)], use I in blast, use I in blast)
    apply (rule bind_le32, assumption)
    apply (rule bind_mem, assumption, use I in blast, use I in blast)
    apply (rule bind_le32, assumption)
    apply (rule bind_sized, assumption, use I in blast, use I in blast)
    apply (rule bind_if_sized, assumption, use I in blast, use I in blast)
    apply (rule bind_if_sized, assumption, use I in blast, use I in blast)
    apply (simp add: SHA1Final_rep boot_signed_def Let_def)
    done
qed


section \<open>Device trees are found\<close>

text \<open>A flattened device tree as far as the scan looks: the magic word and its own size.\<close>

definition dtb_blob :: "bytes \<Rightarrow> bool" where
  "dtb_blob d \<longleftrightarrow> 24 \<le> length d \<and> length d < 4294967296 \<and> take 4 d = be32 FDT_MAGIC \<and>
     rd_be32 (take 4 (drop 4 d)) = word_of_nat (length d)"

fun dtb_places :: "nat \<Rightarrow> bytes list \<Rightarrow> bxxt_dtb list" where
  "dtb_places off [] = []"
| "dtb_places off (d # ds) = \<lparr>dt_size = length d, dt_ptr = off\<rparr> # dtb_places (off + length d) ds"

lemma length_dtb_places [simp]: "length (dtb_places off ds) = length ds"
  by (induction ds arbitrary: off) auto

lemma find_sub_here: "take (length pat) xs = pat \<Longrightarrow> find_sub pat xs = Some 0"
  by (cases xs) auto

lemma find_sub_blob: "dtb_blob d \<Longrightarrow> find_sub (be32 FDT_MAGIC) (d @ r) = Some 0"
  by (rule find_sub_here) (simp add: dtb_blob_def)

lemma parse_dtb_complete_gen:
  assumes "m = pre @ g @ concat ds @ post" and "base = length pre"
    and "mm + tot = base + length (g @ concat ds)" and "length (g @ concat ds) < 4294967296"
    and "list_all dtb_blob ds" and "length acc + length ds \<le> BOOT_MAX_DTB"
    and "find_sub (be32 FDT_MAGIC) (g @ concat ds) = (if ds = [] then None else Some (length g))"
  shows "parse_dtb_loop m mm tot base acc = Inr (acc @ dtb_places (base + length g) ds)"
  using assms
proof (induction ds arbitrary: pre g base acc)
  case Nil
  have sz: "(word_of_int (int mm + int tot - int base) :: u32) = word_of_nat (length g)"
  proof -
    have "int mm + int tot - int base = int (length g)" using Nil.prems(3) by simp
    then show ?thesis by (simp only: of_int_of_nat_eq)
  qed
  have ug: "unat (word_of_nat (length g) :: u32) = length g"
    using Nil.prems(4) by (simp add: unat_of_nat)
  have "take (length g) (drop base m) = g" using Nil.prems(1,2) by simp
  then have "c_memmem m base (length g) (be32 FDT_MAGIC) = Inr None"
    using Nil.prems by (simp add: c_memmem_def)
  then show ?case
    by (subst parse_dtb_loop.simps) (simp only: Let_def sz ug res_bind_Inr option.case if_cancel
        dtb_places.simps append_Nil2)
next
  case (Cons d ds)
  let ?R = "g @ concat (d # ds)"
  let ?p = "base + length g"
  have d: "24 \<le> length d" "length d < 4294967296" "rd_be32 (take 4 (drop 4 d)) = word_of_nat (length d)"
    using Cons.prems(5) by (simp_all add: dtb_blob_def)
  have sz: "(word_of_int (int mm + int tot - int base) :: u32) = word_of_nat (length ?R)"
  proof -
    have "int mm + int tot - int base = int (length ?R)" using Cons.prems(3) by simp
    then show ?thesis by (simp only: of_int_of_nat_eq)
  qed
  have ug: "unat (word_of_nat (length ?R) :: u32) = length ?R"
    using Cons.prems(4) by (simp only: unat_of_nat) simp
  have "0 < length ?R" using d(1) by (cases d) auto
  then have pos: "(word_of_nat (length ?R) :: u32) > 0"
    unfolding word_less_nat_alt ug by simp
  have "take (length ?R) (drop base m) = ?R" using Cons.prems(1,2) by simp
  then have f: "c_memmem m base (length ?R) (be32 FDT_MAGIC) = Inr (Some ?p)"
    using Cons.prems(7) by (simp add: c_memmem_def)
  have dm: "drop ?p m = d @ concat ds @ post" "?p + length d \<le> length m"
    using Cons.prems(1,2) by simp_all
  have "drop (?p + 4) m = drop 4 (drop ?p m)" by (simp add: add.commute)
  then have ts: "rd_bytes m (?p + 4) 4 = Inr (take 4 (drop 4 d))"
    using d(1) dm by simp
  have ver: "rd_bytes m (?p + 20) 4 = Inr (take 4 (drop (?p + 20) m))"
    using d(1) dm by simp
  have us: "unat (rd_be32 (take 4 (drop 4 d))) = length d"
    using d by (simp add: unat_of_nat)
  have IH: "parse_dtb_loop m mm tot (?p + length d) (acc @ [\<lparr>dt_size = length d, dt_ptr = ?p\<rparr>]) =
      Inr ((acc @ [\<lparr>dt_size = length d, dt_ptr = ?p\<rparr>]) @ dtb_places (?p + length d + length ([] :: bytes)) ds)"
  proof (rule Cons.IH [where pre = "pre @ g @ d" and g = "[]"])
    show "find_sub (be32 FDT_MAGIC) ([] @ concat ds) = (if ds = [] then None else Some (length []))"
    proof (cases ds)
      case Nil
      have "be32 FDT_MAGIC \<noteq> []" by (metis length_0_conv codec_length(3) zero_neq_numeral)
      with Nil show ?thesis by simp
    next
      case (Cons e es)
      then show ?thesis using Cons.prems(5) find_sub_blob [of e "concat es"] by simp
    qed
  qed (use Cons.prems in auto)
  have "\<not> BOOT_MAX_DTB \<le> length acc" using Cons.prems(6) by simp
  then show ?case
    using IH pos
    by (subst parse_dtb_loop.simps) (simp only: Let_def sz ug f ts ver us res_bind_Inr option.case
        if_False if_True simp_thms dtb_places.simps append_assoc append_Cons append_Nil list.size add_0_right)
qed

lemma parse_dtb_complete:
  assumes "m = pre @ g @ concat ds @ post" and "length (g @ concat ds) < 4294967296"
    and "list_all dtb_blob ds" and "length ds \<le> BOOT_MAX_DTB"
    and "find_sub (be32 FDT_MAGIC) (g @ concat ds) = (if ds = [] then None else Some (length g))"
  shows "bxxt_boot_parse_dtb_sections m (length pre) (length (g @ concat ds)) =
    Inr (dtb_places (length pre + length g) ds)"
  using parse_dtb_complete_gen [OF assms(1) refl, of "length pre" "length (g @ concat ds)" "[]"] assms
  by (simp add: bxxt_boot_parse_dtb_sections_def)

text \<open>A size field of zero makes the scan find the same tree for ever; the array overflows.\<close>

lemma parse_dtb_zero_size:
  assumes f: "c_memmem m base (unat (word_of_int (int mm + int tot - int base) :: u32)) (be32 FDT_MAGIC) = Inr (Some base)"
    and pos: "(word_of_int (int mm + int tot - int base) :: u32) > 0"
    and ts: "rd_bytes m (base + 4) 4 = Inr z" "rd_be32 z = 0" and ver: "rd_bytes m (base + 20) 4 = Inr v"
  shows "parse_dtb_loop m mm tot base acc = Inl Oob_Write"
proof (induction "BOOT_MAX_DTB - length acc" arbitrary: acc)
  case 0
  then have "BOOT_MAX_DTB \<le> length acc" by simp
  then show ?case
    using pos by (subst parse_dtb_loop.simps) (simp only: Let_def f ts ver res_bind_Inr option.case
        if_False if_True simp_thms)
next
  case (Suc n)
  then have "parse_dtb_loop m mm tot base (acc @ [\<lparr>dt_size = 0, dt_ptr = base\<rparr>]) = Inl Oob_Write"
    by simp
  then show ?case
    using pos by (subst parse_dtb_loop.simps) (simp only: Let_def f ts ver res_bind_Inr option.case
        if_False if_True simp_thms add_0_right unat_0, simp)
qed

section \<open>Reading an image that its header describes\<close>

text \<open>What the signature of such an image is computed from.\<close>

definition image_signed :: "u32 \<Rightarrow> sections \<Rightarrow> bytes" where
  "image_signed v S =
     (let sized = (\<lambda>x. x @ le32 (word_of_nat (length x))) in
      sized (s_kernel S) @ sized (s_ramdisk S) @ sized (s_second S) @
      (if v > 0 then sized (s_recovery S) else []) @ (if v > 1 then sized (s_dtb S) else []))"

text \<open>A section in which the device trees \<open>ds\<close> follow other data \<open>g\<close>.\<close>

definition section_dtbs :: "bytes \<Rightarrow> bytes \<Rightarrow> bytes list \<Rightarrow> bool" where
  "section_dtbs x g ds \<longleftrightarrow> x = g @ concat ds \<and> length x < 4294967296 \<and> list_all dtb_blob ds \<and>
     length ds \<le> BOOT_MAX_DTB \<and>
     find_sub (be32 FDT_MAGIC) x = (if ds = [] then None else Some (length g))"

lemma section_in_image:
  assumes "section_bytes img off n = x" and "off + unat n \<le> length img"
  shows "img = take off img @ x @ drop (off + unat n) img" and "length x = unat n"
proof -
  have "drop off img = x @ drop (off + unat n) img"
    using assms(1) append_take_drop_id [of "unat n" "drop off img"]
    by (simp add: section_bytes_def add.commute)
  then show "img = take off img @ x @ drop (off + unat n) img" by (metis append_take_drop_id)
  show "length x = unat n" using assms by (auto simp: section_bytes_def)
qed

lemma parse_section:
  assumes "section_bytes img off n = x" and "off + unat n \<le> length img" and "section_dtbs x g ds"
  shows "bxxt_boot_parse_dtb_sections img off (unat n) = Inr (dtb_places (off + length g) ds)"
proof -
  have x: "x = g @ concat ds" using assms(3) by (simp add: section_dtbs_def)
  note s = section_in_image [OF assms(1,2)]
  have l: "length (take off img) = off" using assms(2) by simp
  have i: "img = take off img @ g @ concat ds @ drop (off + unat n) img" using s(1) x by simp
  show ?thesis
    using parse_dtb_complete [OF i] s(2) assms(3) unfolding l x section_dtbs_def by simp
qed

lemma placed_signed:
  assumes "placed S img b" and "b_version b = v"
  shows "boot_signed b = image_signed v S"
proof -
  note P = assms(1) [unfolded placed_def]
  have sz: "word_of_nat (length x) = n" if "section_bytes img off n = x" "off + unat n \<le> length img" for off n x
    using section_in_image(2) [OF that] by simp
  have "word_of_nat (length (s_kernel S)) = b_kernel_size b" "word_of_nat (length (s_ramdisk S)) = b_ramdisk_size b"
    "word_of_nat (length (s_second S)) = b_second_size b"
    "word_of_nat (length (s_recovery S)) = b_recovery_dtbo_size b" "word_of_nat (length (s_dtb S)) = b_dtb_size b"
    using P by (auto intro!: sz)
  then show ?thesis using P assms(2) by (simp add: boot_signed_def image_signed_def Let_def)
qed

lemma placed_inside:
  "placed S img b \<Longrightarrow> length img < 2147483648 \<Longrightarrow> sections_inside b"
  by (simp add: placed_def sections_inside_def)

lemma describes_checks:
  assumes "describes h S" and "b_hdr b = h"
  shows "bxxt_boot_img_version_check b = BXXT_SUCCESS" and "bxxt_boot_img_base_check b = BXXT_SUCCESS"
proof -
  note D = describesD [OF assms(1) refl refl]
  have "unat (kernel_size h) > 0" "unat (kernel_size h) \<le> 67108864" "unat (ramdisk_size h) \<le> 67108864"
    "unat (page_size h) > 0" "unat (page_size h) \<le> 65535"
    using D by simp_all
  then have "kernel_size h \<noteq> 0" "kernel_size h \<le> 0x4000000" "ramdisk_size h \<le> 0x4000000"
    "page_size h \<noteq> 0" "page_size h \<le> 0xffff"
    by (auto simp: word_le_nat_alt)
  then show "bxxt_boot_img_version_check b = BXXT_SUCCESS" "bxxt_boot_img_base_check b = BXXT_SUCCESS"
    using D(2,3) assms(2)
    by (simp_all add: bxxt_boot_img_version_check_def bxxt_boot_img_base_check_def Let_def not_less)
qed

lemma init1_image:
  assumes D: "describes h S" and p: "p = unat (page_size h)" and img: "img = image_of p h S"
    and K: "section_dtbs (s_kernel S) g kd" and T: "section_dtbs (s_dtb S) g' d"
    and sig: "check \<and> \<not> force_no_compat_check opts \<longrightarrow>
      take 8 (id_field h) = take 8 (sha1_hash (image_signed (header_version h) S))"
    and ctx: "sha1_ctx_ok ctx0"
  shows "\<exists>b'. bxxt_boot_init1 opts ctx0 b img check = Inr (b', BXXT_SUCCESS) \<and> placed S img b' \<and>
    b_hdr b' = h \<and> b_version b' = header_version h \<and> b_kernel_ptr b' = p \<and>
    b_pad_size b' = word_of_nat (kept_size (s_extra S)) \<and>
    section_bytes img (b_pad_ptr b') (b_pad_size b') = take (kept_size (s_extra S)) (s_extra S) \<and>
    b_kernel_dtb b' = dtb_places (p + length g) kd \<and>
    b_dtb b' = dtb_places (b_dtb_ptr b' + length g') d"
proof -
  note DD = describesD [OF D p img]
  have hl: "HDR_SIZE \<le> length img" and dec: "decode_hdr (take HDR_SIZE img) = h"
  proof -
    have i: "img = encode_hdr h @ drop HDR_SIZE img" using image_split(1) [OF D p img] .
    have "length img = HDR_SIZE + length (drop HDR_SIZE img)"
      by (subst i) (simp add: DD(1))
    then show "HDR_SIZE \<le> length img" by simp
    have "take HDR_SIZE img = encode_hdr h" by (subst i) (simp add: DD(1))
    then show "decode_hdr (take HDR_SIZE img) = h"
      using decode_encode_hdr [OF DD(1), of "[]"] by simp
  qed
  let ?b = "b\<lparr>b_hdr := h\<rparr>"
  obtain b1 where L: "boot_layout ?b img = Inr b1" "placed S img b1" "b_hdr b1 = h"
    "b_version b1 = header_version h" "b_kernel_ptr b1 = p" "b_kernel_size b1 = kernel_size h"
    "b_dtb_size b1 = dtb_size h"
    "b_pad_size b1 = word_of_nat (kept_size (s_extra S))"
    "b_pad_ptr b1 + kept_size (s_extra S) \<le> length img"
    "take (kept_size (s_extra S)) (drop (b_pad_ptr b1) img) = take (kept_size (s_extra S)) (s_extra S)"
    using boot_layout_image [OF D p img, of ?b] by auto
  have v: "bxxt_boot_img_version_check ?b = BXXT_SUCCESS" and c: "bxxt_boot_img_base_check b1 = BXXT_SUCCESS"
    using describes_checks [OF D] L(3) by simp_all
  note P = L(2) [unfolded placed_def]
  have kd: "bxxt_boot_parse_dtb_sections img (b_kernel_ptr b1) (unat (b_kernel_size b1)) =
      Inr (dtb_places (p + length g) kd)"
    using parse_section [OF _ _ K] P L(5) by auto
  have dd: "bxxt_boot_parse_dtb_sections img (b_dtb_ptr b1) (unat (b_dtb_size b1)) =
      Inr (dtb_places (b_dtb_ptr b1 + length g') d)"
    using parse_section [OF _ _ T] P by auto
  have s: "bxxt_boot_img_signature ctx0 b1 =
      Inr (sha1_hash (image_signed (header_version h) S) @ replicate 12 0)"
    using signature_sha1 [OF ctx placed_inside [OF L(2) DD(15)]] placed_signed [OF L(2,4)] by simp
  have chk: "(if check then bxxt_boot_img_compat_check opts ctx0 b1 else Inr BXXT_SUCCESS) = Inr BXXT_SUCCESS"
    using sig s L(3) by (simp add: bxxt_boot_img_compat_check_def length_sha1_hash)
  have "unat (word_of_nat (kept_size (s_extra S)) :: u32) = kept_size (s_extra S)"
    using L(9) DD(15) by (simp add: unat_of_nat)
  then have x: "section_bytes img (b_pad_ptr b1) (b_pad_size b1) = take (kept_size (s_extra S)) (s_extra S)"
    using L(8,10) by (simp add: section_bytes_def)
  define b' where "b' = b1\<lparr>b_kernel_dtb := dtb_places (p + length g) kd,
      b_dtb := dtb_places (b_dtb_ptr b1 + length g') d\<rparr>"
  have "bxxt_boot_init1 opts ctx0 b img check = Inr (b', BXXT_SUCCESS)"
    unfolding bxxt_boot_init1_def
    using hl by (simp add: dec L(1) v c chk kd dd b'_def)
  moreover have "placed S img b'" using L(2) by (simp add: placed_def b'_def)
  ultimately show ?thesis using L x by (intro exI [of _ b']) (simp add: b'_def)
qed


end
