(* ===== verification/Bxxt_Text.thy ===== *)
theory Bxxt_Text
  imports Bxxt_Prelude
begin

text \<open>
  The part of the C library's formatted input and output that the program uses on text:
  printing of numbers in hexadecimal and decimal, strstr, and the conversions \<open>%x\<close> and
  \<open>%[^\n]\<close> of sscanf. The last section is about files of \<open>key=value\<close> lines, the form
  of METADATA.
\<close>

section \<open>Printing numbers\<close>

definition hex_digits :: string where
  "hex_digits = ''0123456789abcdef''"

fun print_base :: "nat \<Rightarrow> nat \<Rightarrow> string" where
  "print_base b n =
     (if b < 2 \<or> n < b then [hex_digits ! n] else print_base b (n div b) @ [hex_digits ! (n mod b)])"

declare print_base.simps [simp del]

definition print_x :: "nat \<Rightarrow> string" where
  "print_x n = print_base 16 n"

definition print_d :: "nat \<Rightarrow> string" where
  "print_d n = print_base 10 n"

text \<open>\<open>%0wd\<close>, \<open>%0wx\<close>: zero padding to a minimal width.\<close>

definition pad0 :: "nat \<Rightarrow> string \<Rightarrow> string" where
  "pad0 w s = replicate (w - length s) CHR ''0'' @ s"

section \<open>Scanning\<close>

definition c_isspace :: "char \<Rightarrow> bool" where
  "c_isspace c \<longleftrightarrow> of_char c \<in> {9, 10, 11, 12, 13, 32 :: nat}"

definition hex_val :: "char \<Rightarrow> nat option" where
  "hex_val c =
     (let n = (of_char c :: nat) in
      if 48 \<le> n \<and> n \<le> 57 then Some (n - 48)
      else if 97 \<le> n \<and> n \<le> 102 then Some (n - 87)
      else if 65 \<le> n \<and> n \<le> 70 then Some (n - 55)
      else None)"

fun scan_digits :: "nat \<Rightarrow> string \<Rightarrow> nat \<times> string" where
  "scan_digits acc [] = (acc, [])"
| "scan_digits acc (c # s) =
     (case hex_val c of Some d \<Rightarrow> scan_digits (16 * acc + d) s | None \<Rightarrow> (acc, c # s))"

datatype scan_result =
    Scan_EOF
  | Scan_Mismatch
  | Scan_Ok nat

text \<open>
  \<open>%x\<close>: white space is skipped, then an optional sign, an optional \<open>0x\<close> and hexadecimal
  digits; a value beyond 64 bits saturates, a minus sign negates any other modulo \<open>2 ^ 64\<close>. The
  caller stores the low 32 bits.
\<close>

definition scan_prefix :: "string \<Rightarrow> string" where
  "scan_prefix s =
     (case s of
        z # x # d # r \<Rightarrow>
          if z = CHR ''0'' \<and> (x = CHR ''x'' \<or> x = CHR ''X'') \<and> hex_val d \<noteq> None then d # r else s
      | _ \<Rightarrow> s)"

definition scan_unsigned :: "string \<Rightarrow> scan_result" where
  "scan_unsigned s =
     (case s of [] \<Rightarrow> Scan_EOF
      | c # r \<Rightarrow> if hex_val c = None then Scan_Mismatch
                 else Scan_Ok (min (fst (scan_digits 0 (scan_prefix s))) (2 ^ 64 - 1)))"

definition scan_x :: "string \<Rightarrow> scan_result" where
  "scan_x s =
     (case dropWhile c_isspace s of
        [] \<Rightarrow> Scan_EOF
      | c # r \<Rightarrow>
          if c = CHR ''-'' then
            (case scan_unsigned r of
               Scan_Ok v \<Rightarrow> if fst (scan_digits 0 (scan_prefix r)) < 2 ^ 64 then Scan_Ok ((2 ^ 64 - v) mod 2 ^ 64) else Scan_Ok v
             | e \<Rightarrow> e)
          else if c = CHR ''+'' then scan_unsigned r
          else scan_unsigned (c # r))"

text \<open>\<open>%[^\n]\<close>: a non-empty run of characters other than newline.\<close>

definition not_nl :: "char \<Rightarrow> bool" where
  "not_nl c \<longleftrightarrow> c \<noteq> CHR 0x0A"

definition scan_line :: "string \<Rightarrow> string option" where
  "scan_line s = (let v = takeWhile not_nl s in if v = [] then None else Some v)"

definition starts :: "string \<Rightarrow> string \<Rightarrow> bool" where
  "starts s p \<longleftrightarrow> take (length p) s = p"

fun strstr :: "string \<Rightarrow> string \<Rightarrow> string option" where
  "strstr [] p = (if p = [] then Some [] else None)"
| "strstr (c # s) p = (if starts (c # s) p then Some (c # s) else strstr s p)"

section \<open>Numbers survive printing and scanning\<close>

lemma hex_digit_range: "n < 16 \<Longrightarrow> hex_digits ! n \<in> set hex_digits"
  by (simp add: hex_digits_def nth_mem del: set_simps)

lemma hex_val_digit: "n < 16 \<Longrightarrow> hex_val (hex_digits ! n) = Some n"
proof -
  assume "n < 16"
  then have "n \<in> set [0..<16]" by simp
  then show ?thesis
    by (simp add: upt_rec, elim disjE) (simp_all add: hex_digits_def hex_val_def)
qed

lemma print_x_digits: "set (print_x n) \<subseteq> set hex_digits"
proof (induction "16::nat" n rule: print_base.induct)
  case (1 n)
  then show ?case
    by (cases "n < 16") (auto simp: print_x_def print_base.simps [of 16 n] hex_digit_range
        dest: hex_digit_range)
qed

lemma print_x_nonempty: "print_x n \<noteq> []"
  by (subst print_x_def, subst print_base.simps) simp

lemma scan_digits_append:
  "\<forall>c\<in>set s. hex_val c \<noteq> None \<Longrightarrow>
   scan_digits acc (s @ r) = scan_digits (fst (scan_digits acc s)) r"
  by (induction s arbitrary: acc) auto

lemma scan_digits_print:
  "fst (scan_digits acc (print_x n)) = acc * 16 ^ length (print_x n) + n"
proof (induction "16::nat" n arbitrary: acc rule: print_base.induct)
  case (1 n)
  show ?case
  proof (cases "n < 16")
    case True
    then show ?thesis by (simp add: print_x_def print_base.simps [of 16 n] hex_val_digit)
  next
    case False
    have d: "\<forall>c\<in>set (print_x (n div 16)). hex_val c \<noteq> None"
    proof
      fix c assume "c \<in> set (print_x (n div 16))"
      then have "c \<in> set hex_digits" using print_x_digits by blast
      then show "hex_val c \<noteq> None" by (auto simp: hex_digits_def hex_val_def)
    qed
    have e: "print_x n = print_x (n div 16) @ [hex_digits ! (n mod 16)]"
      using False by (simp add: print_x_def print_base.simps [of 16 n])
    have IH: "fst (scan_digits acc (print_x (n div 16))) =
        acc * 16 ^ length (print_x (n div 16)) + n div 16"
      using 1 [of acc] False by (simp add: print_x_def)
    show ?thesis
      unfolding e scan_digits_append [OF d] IH by (simp add: hex_val_digit algebra_simps)
  qed
qed

lemma print_x_hex: "c \<in> set (print_x n) \<Longrightarrow> hex_val c \<noteq> None"
  using print_x_digits [of n] by (auto simp: hex_digits_def hex_val_def)


lemma print_x_no_prefix:
  "scan_prefix (print_x n @ CHR 0x0A # r) = print_x n @ CHR 0x0A # r"
proof -
  have x: "hex_val CHR ''x'' = None" "hex_val CHR ''X'' = None"
    by (simp_all add: hex_val_def)
  obtain a as where e: "print_x n = a # as"
    using print_x_nonempty [of n] by (cases "print_x n") auto
  have h: "\<forall>c\<in>set (a # as). hex_val c \<noteq> None" using print_x_hex [of _ n] unfolding e by blast
  show ?thesis
  proof (cases as)
    case Nil
    then show ?thesis unfolding e by (auto simp: scan_prefix_def split: list.splits)
  next
    case (Cons c cs)
    with h x show ?thesis unfolding e by (auto simp: scan_prefix_def split: list.splits)
  qed
qed

text \<open>What \<open>%x\<close> prints, \<open>%x\<close> reads, when a newline follows.\<close>

lemma scan_x_print_x:
  assumes "n < 2 ^ 64"
  shows "scan_x (print_x n @ CHR 0x0A # r) = Scan_Ok n"
proof -
  let ?s = "print_x n @ CHR 0x0A # r"
  obtain a as where e: "print_x n = a # as"
    using print_x_nonempty [of n] by (cases "print_x n") auto
  have a: "a \<in> set hex_digits" using print_x_digits [of n] unfolding e by simp
  then have sp: "\<not> c_isspace a" "a \<noteq> CHR ''-''" "a \<noteq> CHR ''+''" "hex_val a \<noteq> None"
    by (auto simp: hex_digits_def c_isspace_def hex_val_def)
  have nl: "hex_val CHR 0x0A = None" by (simp add: hex_val_def)
  have "\<forall>c\<in>set (print_x n). hex_val c \<noteq> None" using print_x_hex by blast
  then have "fst (scan_digits 0 ?s) = n"
    using scan_digits_print [of 0 n] by (simp add: scan_digits_append nl)
  then have "scan_unsigned ?s = Scan_Ok n"
    unfolding scan_unsigned_def print_x_no_prefix using assms sp(4) by (simp add: e)
  then show ?thesis using sp by (simp add: scan_x_def e)
qed

lemma scan_line_nl:
  "v \<noteq> [] \<Longrightarrow> CHR 0x0A \<notin> set v \<Longrightarrow> scan_line (v @ CHR 0x0A # r) = Some v"
  by (auto simp: scan_line_def takeWhile_append not_nl_def)

lemma scan_line_empty: "scan_line (CHR 0x0A # r) = None"
  by (simp add: scan_line_def not_nl_def)

section \<open>Searching files of key=value lines\<close>

definition contains :: "string \<Rightarrow> string \<Rightarrow> bool" where
  "contains s p \<longleftrightarrow> strstr s p \<noteq> None"

lemma starts_append: "starts (p @ s) p"
  by (simp add: starts_def)

lemma starts_iff: "starts s p \<longleftrightarrow> (\<exists>r. s = p @ r)"
  by (auto simp: starts_def) (metis append_take_drop_id)

lemma contains_iff: "contains s p \<longleftrightarrow> (\<exists>u v. s = u @ p @ v)"
proof (induction s)
  case Nil
  then show ?case by (auto simp: contains_def)
next
  case (Cons c s)
  show ?case
  proof
    assume c: "contains (c # s) p"
    show "\<exists>u v. c # s = u @ p @ v"
    proof (cases "starts (c # s) p")
      case True
      then obtain r where "c # s = [] @ p @ r" by (auto simp: starts_iff)
      then show ?thesis by blast
    next
      case False
      with c have "contains s p" by (simp add: contains_def)
      with Cons obtain u v where "s = u @ p @ v" by blast
      then have "c # s = (c # u) @ p @ v" by simp
      then show ?thesis by blast
    qed
  next
    assume "\<exists>u v. c # s = u @ p @ v"
    then obtain u v where e: "c # s = u @ p @ v" by blast
    show "contains (c # s) p"
    proof (cases u)
      case Nil
      then have "starts (c # s) p" using e by (simp add: starts_iff)
      then show ?thesis by (simp add: contains_def)
    next
      case (Cons a u')
      then have "contains s p" using e Cons.IH by auto
      then show ?thesis by (simp add: contains_def)
    qed
  qed
qed

lemma contains_set: "contains s p \<Longrightarrow> set p \<subseteq> set s"
  by (auto simp: contains_iff)

lemma contains_sep:
  assumes "c \<notin> set p" and "p \<noteq> []"
  shows "contains (u @ c # v) p \<longleftrightarrow> contains u p \<or> contains v p"
proof
  assume "contains (u @ c # v) p"
  then obtain x y where e: "u @ c # v = x @ p @ y" by (auto simp: contains_iff)
  show "contains u p \<or> contains v p"
  proof (cases "length x + length p \<le> length u")
    case True
    then have "take (length x + length p) (u @ c # v) = take (length x + length p) u" by simp
    then have "take (length x + length p) u = x @ p" using e by simp
    then have "u = x @ p @ drop (length x + length p) u" by (metis append_assoc append_take_drop_id)
    then show ?thesis unfolding contains_iff by blast
  next
    case False
    show ?thesis
    proof (cases "length u < length x")
      case True
      then have "drop (length x) (u @ c # v) = drop (length x - Suc (length u)) v"
        by (simp add: drop_Cons')
      then have "p @ y = drop (length x - Suc (length u)) v" using e by simp
      then have "v = take (length x - Suc (length u)) v @ p @ y" by (metis append_take_drop_id)
      then show ?thesis unfolding contains_iff by blast
    next
      case notless: False
      let ?i = "length u - length x"
      have "(u @ c # v) ! length u = c" by simp
      moreover have i: "?i < length p" using False notless by simp
      ultimately have "p ! ?i = c"
        using e False notless by (simp add: nth_append)
      with i have "c \<in> set p" by (metis nth_mem)
      with assms show ?thesis by simp
    qed
  qed
next
  assume "contains u p \<or> contains v p"
  then show "contains (u @ c # v) p"
  proof
    assume "contains u p"
    then obtain x y where "u = x @ p @ y" by (auto simp: contains_iff)
    then have "u @ c # v = x @ p @ (y @ c # v)" by simp
    then show ?thesis unfolding contains_iff by blast
  next
    assume "contains v p"
    then obtain x y where "v = x @ p @ y" by (auto simp: contains_iff)
    then have "u @ c # v = (u @ c # x) @ p @ y" by simp
    then show ?thesis unfolding contains_iff by blast
  qed
qed


lemma strstr_skip:
  "(\<And>i. i < length u \<Longrightarrow> \<not> starts (drop i (u @ v)) p) \<Longrightarrow> strstr (u @ v) p = strstr v p"
proof (induction u)
  case (Cons c u)
  have "\<not> starts (c # u @ v) p" using Cons.prems [of 0] by simp
  moreover have "strstr (u @ v) p = strstr v p"
  proof (rule Cons.IH)
    fix i assume "i < length u"
    then show "\<not> starts (drop i (u @ v)) p" using Cons.prems [of "Suc i"] by simp
  qed
  ultimately show ?case by simp
qed simp

lemma strstr_here: "starts s p \<Longrightarrow> strstr s p = Some s"
  by (cases s) (auto simp: starts_def)

text \<open>
  A line of the file: the tag \<open>bxxt.\<close>, the key, an equals sign, the value, a newline.
  A value is safe when it has no newline and does not itself contain the tag.
\<close>

definition meta_tag :: string where
  "meta_tag = ''bxxt.''"

definition meta_line :: "string \<times> string \<Rightarrow> string" where
  "meta_line kv = meta_tag @ fst kv @ ''='' @ snd kv @ [CHR 0x0A]"

definition meta_key_ok :: "string \<Rightarrow> bool" where
  "meta_key_ok k \<longleftrightarrow> CHR ''='' \<notin> set k \<and> CHR 0x0A \<notin> set k \<and> \<not> contains (''xxt.'' @ k) meta_tag"

definition meta_value_ok :: "string \<Rightarrow> bool" where
  "meta_value_ok v \<longleftrightarrow> CHR 0x0A \<notin> set v \<and> \<not> contains v meta_tag"

lemma key_prefix_eq:
  assumes "CHR ''='' \<notin> set k" and "CHR ''='' \<notin> set k'" and "k @ CHR ''='' # x = k' @ CHR ''='' # y"
  shows "k = k'"
proof -
  have "takeWhile (\<lambda>c. c \<noteq> CHR ''='') (k @ CHR ''='' # x) = k"
    using assms(1) by (auto simp: takeWhile_append)
  moreover have "takeWhile (\<lambda>c. c \<noteq> CHR ''='') (k' @ CHR ''='' # y) = k'"
    using assms(2) by (auto simp: takeWhile_append)
  ultimately show ?thesis using assms(3) by simp
qed

lemma starts_weaken: "starts s (p @ q) \<Longrightarrow> starts s p"
  by (auto simp: starts_iff)

lemma tag_not_inside_line:
  assumes k: "meta_key_ok k" and v: "meta_value_ok v" and i: "0 < i" "i < length (meta_line (k, v))"
  shows "\<not> starts (drop i (meta_line (k, v) @ rest)) meta_tag"
proof
  define w where "w = ''xxt.'' @ k @ ''='' @ v"
  assume "starts (drop i (meta_line (k, v) @ rest)) meta_tag"
  moreover have "meta_line (k, v) = CHR ''b'' # w @ [CHR 0x0A]"
    by (simp add: meta_line_def meta_tag_def w_def)
  ultimately obtain r where r: "drop (i - 1) (w @ CHR 0x0A # rest) = meta_tag @ r"
    using i by (cases i) (auto simp: starts_iff)
  have "\<not> contains w meta_tag"
  proof -
    have "w = (''xxt.'' @ k) @ CHR ''='' # v" by (simp add: w_def)
    then show ?thesis
      using k v contains_sep [of "CHR ''=''" meta_tag "''xxt.'' @ k" v]
      unfolding meta_key_ok_def meta_value_ok_def by (simp add: meta_tag_def)
  qed
  moreover have "contains w meta_tag"
  proof (cases "i - 1 + length meta_tag \<le> length w")
    case True
    then have "take (length meta_tag) (drop (i - 1) (w @ CHR 0x0A # rest)) =
        take (length meta_tag) (drop (i - 1) w)" by simp
    from this [unfolded r] have "take (length meta_tag) (drop (i - 1) w) = meta_tag" by simp
    then have "drop (i - 1) w = meta_tag @ drop (length meta_tag) (drop (i - 1) w)"
      by (metis append_take_drop_id)
    then have "w = take (i - 1) w @ meta_tag @ drop (length meta_tag) (drop (i - 1) w)"
      by (metis append_take_drop_id)
    then show ?thesis unfolding contains_iff by blast
  next
    case False
    let ?j = "length w - (i - 1)"
    have "i - 1 \<le> length w" using i by (simp add: meta_line_def meta_tag_def w_def)
    then have "drop (i - 1) (w @ CHR 0x0A # rest) ! ?j = CHR 0x0A"
      by (simp add: nth_append)
    moreover have "?j < length meta_tag" using False by (simp add: meta_tag_def)
    ultimately have "CHR 0x0A \<in> set meta_tag" unfolding r by (metis nth_append nth_mem)
    then show ?thesis by (simp add: meta_tag_def)
  qed
  ultimately show False by simp
qed

text \<open>The search for a key finds its line, whatever lines with other keys come before.\<close>

lemma strstr_meta:
  assumes "\<forall>(k, v) \<in> set kvs. meta_key_ok k \<and> meta_value_ok v"
    and "CHR ''='' \<notin> set key" and "map_of kvs key = Some v"
  shows "\<exists>rest. strstr (concat (map meta_line kvs)) (meta_tag @ key @ ''='') =
     Some (meta_tag @ key @ ''='' @ v @ CHR 0x0A # rest)"
  using assms
proof (induction kvs)
  case (Cons kv kvs)
  obtain k w where kv: "kv = (k, w)" by (cases kv)
  let ?rest = "concat (map meta_line kvs)"
  let ?p = "meta_tag @ key @ ''=''"
  show ?case
  proof (cases "k = key")
    case True
    then have "w = v" using Cons.prems kv by simp
    with True have "concat (map meta_line (kv # kvs)) = meta_tag @ key @ ''='' @ v @ CHR 0x0A # ?rest"
      by (simp add: kv meta_line_def)
    then show ?thesis
      using starts_append [of ?p "v @ CHR 0x0A # ?rest"] by (auto intro: strstr_here)
  next
    case False
    have ok: "meta_key_ok k" "meta_value_ok w" using Cons.prems kv by auto
    have "strstr (meta_line (k, w) @ ?rest) ?p = strstr ?rest ?p"
    proof (rule strstr_skip)
      fix i assume i: "i < length (meta_line (k, w))"
      show "\<not> starts (drop i (meta_line (k, w) @ ?rest)) ?p"
      proof (cases "i = 0")
        case True
        show ?thesis
        proof
          assume "starts (drop i (meta_line (k, w) @ ?rest)) ?p"
          then obtain r where "k @ CHR ''='' # (w @ CHR 0x0A # ?rest) = key @ CHR ''='' # r"
            using True by (auto simp: starts_iff meta_line_def)
          then have "k = key"
            using key_prefix_eq [of k key] ok(1) Cons.prems(2) unfolding meta_key_ok_def by blast
          with False show False by simp
        qed
      next
        case False
        then show ?thesis
          using tag_not_inside_line [OF ok _ i] starts_weaken by blast
      qed
    qed
    moreover have "\<exists>rest. strstr ?rest ?p = Some (meta_tag @ key @ ''='' @ v @ CHR 0x0A # rest)"
      using Cons.IH Cons.prems kv False by auto
    ultimately show ?thesis by (simp add: kv)
  qed
qed simp

lemma meta_value_ok_hex: "meta_value_ok (print_x n)"
proof -
  have nl: "CHR 0x0A \<notin> set hex_digits" "CHR ''x'' \<notin> set hex_digits"
    by (simp_all add: hex_digits_def)
  have "CHR ''x'' \<in> set meta_tag" by (simp add: meta_tag_def)
  with nl print_x_digits [of n] contains_set [of "print_x n" meta_tag] show ?thesis
    unfolding meta_value_ok_def by blast
qed

end
