(* ===== verification/Boot_Metadata.thy ===== *)
theory Boot_Metadata
  imports Boot_Sections Bxxt_Text
begin

text \<open>
  METADATA (boot.c): the file that unpacking writes with one \<open>bxxt.key=value\<close> line per
  header field and that packing scans back into a header, and the version strings shown
  for an image. Scanning stores into the 1660 bytes of the header, so what a conversion
  of the wrong width or an over-long string does to the neighbouring fields is visible.
\<close>

section \<open>Version strings\<close>

definition bxxt_boot_img_get_osver_string :: "bxxt_boot \<Rightarrow> string" where
  "bxxt_boot_img_get_osver_string b =
     (let i = os_version (b_hdr b);
          d = drop_bit (32 - 7 * 1) i AND 0x7F;
          e = drop_bit (32 - 7 * 2) i AND 0x7F;
          f = drop_bit (32 - 7 * 3) i AND 0x7F
      in print_d (unat d) @ ''.'' @ print_d (unat e) @ ''.'' @ print_d (unat f))"

definition bxxt_boot_img_get_patchlevel_string :: "bxxt_boot \<Rightarrow> string" where
  "bxxt_boot_img_get_patchlevel_string b =
     (let i = os_version (b_hdr b) in
      pad0 4 (print_d (unat (2000 + (drop_bit 4 i AND 0x7F)))) @ ''-'' @
      pad0 2 (print_d (unat (drop_bit 0 i AND 0x07))) @ ''-'' @ pad0 2 (print_d 0))"

text \<open>\<open>%02X\<close> of every byte of the id.\<close>

definition print_X2 :: "u8 \<Rightarrow> string" where
  "print_X2 v = (let D = ''0123456789ABCDEF'' in [D ! (unat v div 16), D ! (unat v mod 16)])"

definition bxxt_boot_img_get_signature_string :: "bxxt_boot \<Rightarrow> string" where
  "bxxt_boot_img_get_signature_string b = concat (map print_X2 (id_field (b_hdr b)))"

lemma nth_of_take_bit: "take_bit n w = w \<Longrightarrow> bit w i \<Longrightarrow> i < n"
  by (metis bit_take_bit_iff)

lemma less_take_bit: "(w :: u32) < 2 ^ n \<Longrightarrow> take_bit n w = w"
  by (cases "n < 32") (auto simp: less_mask_eq take_bit_eq_mask and_mask_less' dest: less_mask_eq)

lemma os_version_fields:
  assumes "a < 2 ^ 7" and "b < 2 ^ 7" and "c < 2 ^ 7" and "y - 2000 < 2 ^ 7" and "m < 2 ^ 4"
  shows "drop_bit 25 (mk_os_version a b c y m) AND 0x7F = a"
    and "drop_bit 18 (mk_os_version a b c y m) AND 0x7F = b"
    and "drop_bit 11 (mk_os_version a b c y m) AND 0x7F = c"
    and "drop_bit 4 (mk_os_version a b c y m) AND 0x7F = y - 2000"
    and "mk_os_version a b c y m AND 0x07 = take_bit 3 m"
proof -
  note T = assms [THEN less_take_bit, THEN nth_of_take_bit]
  have f: "0x7F = (mask 7 :: u32)" "0x07 = (mask 3 :: u32)" by (simp_all add: mask_eq_exp_minus_1)
  show "drop_bit 25 (mk_os_version a b c y m) AND 0x7F = a"
    and "drop_bit 18 (mk_os_version a b c y m) AND 0x7F = b"
    and "drop_bit 11 (mk_os_version a b c y m) AND 0x7F = c"
    and "drop_bit 4 (mk_os_version a b c y m) AND 0x7F = y - 2000"
    and "mk_os_version a b c y m AND 0x07 = take_bit 3 m"
    unfolding f mk_os_version_def
    by (rule bit_word_eqI, use T in \<open>force simp: bit_simps\<close>)+
qed

text \<open>The version string shows the numbers; the patch level loses the top bit of the month.\<close>

lemma osver_string:
  assumes "a < 2 ^ 7" and "b < 2 ^ 7" and "c < 2 ^ 7" and "y - 2000 < 2 ^ 7" and "m < 2 ^ 4"
    and "os_version (b_hdr bt) = mk_os_version a b c y m"
  shows "bxxt_boot_img_get_osver_string bt =
    print_d (unat a) @ ''.'' @ print_d (unat b) @ ''.'' @ print_d (unat c)"
  using os_version_fields [OF assms(1-5)] assms(6)
  by (simp add: bxxt_boot_img_get_osver_string_def Let_def)

lemma patchlevel_string:
  assumes "a < 2 ^ 7" and "b < 2 ^ 7" and "c < 2 ^ 7" and "y - 2000 < 2 ^ 7" and "m < 2 ^ 4"
    and "os_version (b_hdr bt) = mk_os_version a b c y m"
  shows "bxxt_boot_img_get_patchlevel_string bt =
    pad0 4 (print_d (unat y)) @ ''-'' @ pad0 2 (print_d (unat m mod 8)) @ ''-00''"
proof -
  have "unat (take_bit 3 m) = unat m mod 8" by (simp add: take_bit_eq_mod unat_mod_distrib)
  moreover have "pad0 2 (print_d 0) = ''00''"
    by (simp add: pad0_def print_d_def print_base.simps hex_digits_def)
  ultimately show ?thesis
    using os_version_fields(4,5) [OF assms(1-5)] assms(6)
    by (simp add: bxxt_boot_img_get_patchlevel_string_def Let_def)
qed

section \<open>Writing METADATA\<close>

text \<open>
  \<open>%s\<close> of a character array of the header: it runs to the next NUL, into the fields
  that follow when the array is full; after the header comes the \<open>path\<close> array, which
  the zeroing allocation left empty.
\<close>

definition hdr_cstr :: "boot_img_hdr \<Rightarrow> nat \<Rightarrow> string" where
  "hdr_cstr h off = map chr_of_byte (cstr (drop off (encode_hdr h @ [0])))"

definition meta_entries :: "bxxt_boot \<Rightarrow> nat \<Rightarrow> (string \<times> string) list" where
  "meta_entries b c =
     (let h = b_hdr b; x = (\<lambda>v. print_x (unat (v :: u32))) in
      [(''kernel_addr'', x (kernel_addr h)),
       (''ramdisk_addr'', x (ramdisk_addr h)),
       (''second_addr'', x (second_addr h)),
       (''tags_addr'', x (tags_addr h)),
       (''dtb_addr'', print_x (unat (dtb_addr h))),
       (''recovery_dtbo_offset'', print_x (unat (recovery_dtbo_offset h))),
       (''name'', hdr_cstr h 48),
       (''cmdline'', hdr_cstr h 64),
       (''extra_cmdline'', hdr_cstr h 608),
       (''kernel_compression'', print_x c),
       (''header_version'', x (header_version h)),
       (''os_version'', x (os_version h)),
       (''header_size'', x (header_size h)),
       (''page_size'', x (page_size h)),
       (''kernel_size'', x (b_kernel_size b)),
       (''ramdisk_size'', x (b_ramdisk_size b)),
       (''second_size'', x (b_second_size b)),
       (''recovery_dtbo_size'', x (b_recovery_dtbo_size b)),
       (''dtb_size'', x (b_dtb_size b))])"

definition bxxt_boot_print_meta_info_file :: "bxxt_boot \<Rightarrow> bytes res" where
  "bxxt_boot_print_meta_info_file b =
     res_bind (bxxt_boot_detect_kernel_compression b) (\<lambda>c.
     Inr (map byte_of_chr (concat (map meta_line (meta_entries b c)))))"

section \<open>Reading METADATA\<close>

text \<open>
  The mapping of a file is read as a C string: pages are 4096 bytes and the rest of the
  last one is zero, so the string ends there unless the file fills its last page.
\<close>

definition mapped_cstr :: "bytes \<Rightarrow> string res" where
  "mapped_cstr m =
     (if 0 \<in> set m \<or> length m mod 4096 \<noteq> 0 then Inr (map chr_of_byte (cstr m)) else Inl Oob_Read)"

datatype meta_fmt = Fmt_x | Fmt_line

text \<open>
  \<open>sscanf\<close> of one conversion into memory at an offset: the result is the number of
  conversions made, or EOF.
\<close>

definition sscanf1 :: "meta_fmt \<Rightarrow> string \<Rightarrow> bytes \<Rightarrow> nat \<Rightarrow> (bytes \<times> int) res" where
  "sscanf1 fmt s m off =
     (case fmt of
        Fmt_x \<Rightarrow>
          (case scan_x s of
             Scan_EOF \<Rightarrow> Inr (m, - 1)
           | Scan_Mismatch \<Rightarrow> Inr (m, 0)
           | Scan_Ok v \<Rightarrow> res_bind (wr_bytes m off (le32 (word_of_nat v))) (\<lambda>m. Inr (m, 1)))
      | Fmt_line \<Rightarrow>
          (case scan_line s of
             None \<Rightarrow> Inr (m, if s = [] then - 1 else 0)
           | Some v \<Rightarrow> res_bind (wr_bytes m off (map byte_of_chr v @ [0])) (\<lambda>m. Inr (m, 1))))"

text \<open>
  \<open>bxxt_boot_scan_metadata\<close>. \<open>None\<close> is a file that cannot be opened; an empty file
  cannot be mapped, which is the same failure.
\<close>

definition bxxt_boot_scan_metadata ::
  "bytes option \<Rightarrow> string \<Rightarrow> meta_fmt \<Rightarrow> bytes \<Rightarrow> nat \<Rightarrow> (bytes \<times> int) res" where
  "bxxt_boot_scan_metadata file nm fmt m off =
     (case file of
        None \<Rightarrow> Inr (m, BXXT_FAILED)
      | Some content \<Rightarrow>
          if content = [] then Inr (m, BXXT_FAILED)
          else res_bind (mapped_cstr content) (\<lambda>text.
            case strstr text (nm @ ''='') of
              None \<Rightarrow> Inr (m, BXXT_FAILED)
            | Some p \<Rightarrow> sscanf1 fmt (drop (length nm + 1) p) m off))"

definition strlen_at :: "bytes \<Rightarrow> nat \<Rightarrow> nat res" where
  "strlen_at m off =
     (if 0 \<in> set (drop off m) then Inr (length (cstr (drop off m))) else Inl Oob_Read)"

text \<open>
  \<open>config_string\<close> with its length check, \<open>config_xint\<close> with its check of the result:
  \<open>k\<close> is the rest of the function.
\<close>

definition config_string ::
  "bytes option \<Rightarrow> string \<Rightarrow> nat \<Rightarrow> nat \<Rightarrow> bytes \<Rightarrow> (bytes \<Rightarrow> (bytes \<times> int) res) \<Rightarrow> (bytes \<times> int) res" where
  "config_string file n off lim m k =
     res_bind (bxxt_boot_scan_metadata file (meta_tag @ n) Fmt_line m off) (\<lambda>(m, _).
     res_bind (strlen_at m off) (\<lambda>l.
     if l \<ge> lim then Inr (m, BXXT_FAILED) else k m))"

definition config_xint ::
  "bytes option \<Rightarrow> string \<Rightarrow> nat \<Rightarrow> bytes \<Rightarrow> (bytes \<Rightarrow> (bytes \<times> int) res) \<Rightarrow> (bytes \<times> int) res" where
  "config_xint file n off m k =
     res_bind (bxxt_boot_scan_metadata file (meta_tag @ n) Fmt_x m off) (\<lambda>(m, r).
     if r \<noteq> 1 then Inr (m, BXXT_FAILED) else k m)"

definition bxxt_boot_hdr_from_metadata :: "bytes option \<Rightarrow> (bytes \<times> int) res" where
  "bxxt_boot_hdr_from_metadata file =
     (let m = replicate HDR_SIZE 0 in
      config_string file ''cmdline'' 64 BOOT_ARGS_SIZE m (\<lambda>m.
      config_string file ''extra_cmdline'' 608 BOOT_EXTRA_ARGS_SIZE m (\<lambda>m.
      config_string file ''name'' 48 BOOT_NAME_SIZE m (\<lambda>m.
      config_xint file ''header_size'' 1644 m (\<lambda>m.
      config_xint file ''kernel_addr'' 12 m (\<lambda>m.
      config_xint file ''ramdisk_addr'' 20 m (\<lambda>m.
      config_xint file ''second_addr'' 28 m (\<lambda>m.
      config_xint file ''tags_addr'' 32 m (\<lambda>m.
      config_xint file ''page_size'' 36 m (\<lambda>m.
      config_xint file ''header_version'' 40 m (\<lambda>m.
      config_xint file ''header_size'' 1644 m (\<lambda>m.
      config_xint file ''os_version'' 44 m (\<lambda>m.
      config_xint file ''recovery_dtbo_offset'' 1636 m (\<lambda>m.
      config_xint file ''dtb_addr'' 1652 m (\<lambda>m.
      Inr (splice m 0 (BOOT_MAGIC @ [0]), BXXT_SUCCESS))))))))))))))))"


section \<open>A written METADATA file is read back\<close>

text \<open>A C string in a zero-filled array.\<close>

definition c_array :: "nat \<Rightarrow> bytes \<Rightarrow> bytes" where
  "c_array n s = s @ replicate (n - length s) 0"

lemma length_c_array [simp]: "length s \<le> n \<Longrightarrow> length (c_array n s) = n"
  by (simp add: c_array_def)

lemma cstr_c_array: "0 \<notin> set s \<Longrightarrow> length s < n \<Longrightarrow> cstr (c_array n s @ r) = s"
  by (cases "n - length s") (auto simp: c_array_def cstr_append_nul)

lemma splice_zeros:
  assumes "length s < n"
  shows "splice (replicate n 0) 0 (s @ [0]) = c_array n s"
proof -
  have "n - length s = Suc (n - (length s + 1))" using assms by simp
  then have "c_array n s = s @ 0 # replicate (n - (length s + 1)) 0" by (simp add: c_array_def)
  then show ?thesis by (simp add: splice_0)
qed

lemma splice_inside:
  "length x = off \<Longrightarrow> length d \<le> length y \<Longrightarrow> splice (x @ y @ r) off d = x @ splice y 0 d @ r"
  by (simp add: splice_def)

lemma chr_byte_comp [simp]: "chr_of_byte \<circ> byte_of_chr = id" "byte_of_chr \<circ> chr_of_byte = id"
  by (simp_all add: fun_eq_iff)

lemma byte_of_chr_nul: "byte_of_chr CHR 0x00 = 0"
  by (simp add: byte_of_chr_def)

lemma byte_of_chr_eq_0: "byte_of_chr c = 0 \<longleftrightarrow> c = CHR 0x00"
  by (metis byte_of_chr_nul chr_of_byte_of_chr)

lemma byte_of_chr_zero: "0 \<in> byte_of_chr ` A \<longleftrightarrow> CHR 0x00 \<in> A"
  using byte_of_chr_eq_0 by (metis (no_types, lifting) image_iff)

text \<open>A file of entries that can be told apart, which does not fill its last page.\<close>

definition meta_file_ok :: "(string \<times> string) list \<Rightarrow> bool" where
  "meta_file_ok kvs \<longleftrightarrow>
     (\<forall>(k, v) \<in> set kvs. meta_key_ok k \<and> meta_value_ok v \<and> CHR 0x00 \<notin> set k \<and> CHR 0x00 \<notin> set v) \<and>
     length (concat (map meta_line kvs)) mod 4096 \<noteq> 0"

definition meta_file :: "(string \<times> string) list \<Rightarrow> bytes" where
  "meta_file kvs = map byte_of_chr (concat (map meta_line kvs))"

lemma mapped_cstr_text:
  assumes "CHR 0x00 \<notin> set s" and "length s mod 4096 \<noteq> 0"
  shows "mapped_cstr (map byte_of_chr s) = Inr s"
proof -
  have "cstr (map byte_of_chr s) = map byte_of_chr s"
    using assms(1) by (force simp: cstr_def takeWhile_eq_all_conv byte_of_chr_eq_0)
  then show ?thesis using assms(2) by (simp add: mapped_cstr_def)
qed

lemma scan_metadata_hit:
  assumes "meta_file_ok kvs" and "map_of kvs key = Some v" and "CHR ''='' \<notin> set key"
  shows "\<exists>rest. bxxt_boot_scan_metadata (Some (meta_file kvs)) (meta_tag @ key) fmt m off =
    sscanf1 fmt (v @ CHR 0x0A # rest) m off"
proof -
  let ?s = "concat (map meta_line kvs)"
  from assms(1) have ok: "\<forall>(k, v) \<in> set kvs. meta_key_ok k \<and> meta_value_ok v"
    by (auto simp: meta_file_ok_def)
  from strstr_meta [OF this assms(3,2)] obtain rest where
    f: "strstr ?s ((meta_tag @ key) @ ''='') = Some (meta_tag @ key @ ''='' @ v @ CHR 0x0A # rest)" by auto
  have "CHR 0x00 \<notin> set (meta_line kv)" if "kv \<in> set kvs" for kv
    using assms(1) that by (auto simp: meta_file_ok_def meta_line_def meta_tag_def)
  then have "CHR 0x00 \<notin> set ?s" by auto
  then have "mapped_cstr (meta_file kvs) = Inr ?s"
    unfolding meta_file_def using assms(1) by (intro mapped_cstr_text) (auto simp: meta_file_ok_def)
  moreover have "meta_file kvs \<noteq> []"
    using assms(1) by (auto simp: meta_file_ok_def meta_file_def simp del: concat_eq_Nil_conv)
  ultimately have "bxxt_boot_scan_metadata (Some (meta_file kvs)) (meta_tag @ key) fmt m off =
      sscanf1 fmt (drop (length (meta_tag @ key) + 1) (meta_tag @ key @ ''='' @ v @ CHR 0x0A # rest)) m off"
    unfolding bxxt_boot_scan_metadata_def by (simp only: option.case if_False res_bind_Inr f)
  then show ?thesis by (intro exI [of _ rest]) simp
qed

lemma config_xint_step:
  assumes "meta_file_ok kvs" and "map_of kvs key = Some (print_x v)" and "CHR ''='' \<notin> set key"
    and "v < 2 ^ 64" and "off + 4 \<le> length m"
  shows "config_xint (Some (meta_file kvs)) key off m k = k (splice m off (le32 (word_of_nat v)))"
  using scan_metadata_hit [OF assms(1-3), of Fmt_x m off] assms(4,5)
  by (auto simp: config_xint_def sscanf1_def scan_x_print_x wr_bytes_def)

lemma strlen_at_splice:
  assumes "off + length s + 1 \<le> length m" and "0 \<notin> set s"
  shows "strlen_at (splice m off (s @ [0])) off = Inr (length s)"
proof -
  have "drop off (splice m off (s @ [0])) = s @ 0 # drop (off + length s + 1) m"
    using assms(1) by (simp add: splice_def)
  then show ?thesis using assms(2) by (simp add: strlen_at_def cstr_append_nul)
qed

lemma splice_same_zero: "off < length m \<Longrightarrow> m ! off = 0 \<Longrightarrow> splice m off [0] = m"
  by (simp add: splice_def) (metis id_take_nth_drop)

lemma config_string_step:
  assumes "meta_file_ok kvs" and "map_of kvs key = Some s" and "CHR ''='' \<notin> set key"
    and "off + length s + 1 \<le> length m" and "length s < lim" and "m ! off = 0"
  shows "config_string (Some (meta_file kvs)) key off lim m k =
    k (splice m off (map byte_of_chr s @ [0]))"
proof -
  from assms(1,2) have s: "meta_value_ok s" "CHR 0x00 \<notin> set s"
    by (force simp: meta_file_ok_def dest: map_of_SomeD)+
  then have z: "0 \<notin> set (map byte_of_chr s)" by (simp add: byte_of_chr_zero)
  have l: "strlen_at (splice m off (map byte_of_chr s @ [0])) off = Inr (length s)"
    using strlen_at_splice [of off "map byte_of_chr s" m] assms(4) z by simp
  obtain rest where r: "bxxt_boot_scan_metadata (Some (meta_file kvs)) (meta_tag @ key) Fmt_line m off =
      sscanf1 Fmt_line (s @ CHR 0x0A # rest) m off"
    using scan_metadata_hit [OF assms(1-3), of Fmt_line m off] by blast
  show ?thesis
  proof (cases "s = []")
    case True
    have "splice m off [0] = m" using assms(4,6) by (intro splice_same_zero) auto
    then show ?thesis using True r l assms(5) by (simp add: config_string_def sscanf1_def scan_line_empty)
  next
    case False
    then have "scan_line (s @ CHR 0x0A # rest) = Some s"
      using s by (intro scan_line_nl) (auto simp: meta_value_ok_def)
    then show ?thesis
      using assms(4,5) r l by (simp add: config_string_def sscanf1_def wr_bytes_def)
  qed
qed


section \<open>The header a METADATA file gives back\<close>

lemma encode_hdr_zero: "encode_hdr hdr_zero = replicate HDR_SIZE 0"
  using encode_decode_hdr [of "replicate HDR_SIZE 0"] by (simp add: hdr_zero_def)

lemma hdr_zero_fields:
  "hdr_wf hdr_zero" "magic hdr_zero = replicate 8 0" "kernel_size hdr_zero = 0" "kernel_addr hdr_zero = 0"
  "ramdisk_size hdr_zero = 0" "ramdisk_addr hdr_zero = 0" "second_size hdr_zero = 0" "second_addr hdr_zero = 0"
  "tags_addr hdr_zero = 0" "page_size hdr_zero = 0" "header_version hdr_zero = 0" "os_version hdr_zero = 0"
  "name hdr_zero = replicate 16 0" "cmdline hdr_zero = replicate 512 0" "id_field hdr_zero = replicate 32 0"
  "extra_cmdline hdr_zero = replicate 1024 0" "recovery_dtbo_size hdr_zero = 0"
  "recovery_dtbo_offset hdr_zero = 0" "header_size hdr_zero = 0" "dtb_size hdr_zero = 0" "dtb_addr hdr_zero = 0"
  by (simp_all add: hdr_zero_def hdr_wf_decode, simp_all add: decode_hdr_def field_def hdr_consts rd_le32_def rd_le64_def)

text \<open>Stores of the scanned fields, as updates of the record.\<close>

lemma store_header_size [hdr_stores]:
  "hdr_wf h \<Longrightarrow> splice (encode_hdr h) 1644 (le32 v) = encode_hdr (h\<lparr>header_size := v\<rparr>)"
  by (simp add: encode_hdr_def hdr_wf_def hdr_consts splice_skip splice_here)

lemma store_kernel_addr [hdr_stores]:
  "hdr_wf h \<Longrightarrow> splice (encode_hdr h) 12 (le32 v) = encode_hdr (h\<lparr>kernel_addr := v\<rparr>)"
  by (simp add: encode_hdr_def hdr_wf_def hdr_consts splice_skip splice_here)

lemma store_ramdisk_addr [hdr_stores]:
  "hdr_wf h \<Longrightarrow> splice (encode_hdr h) 20 (le32 v) = encode_hdr (h\<lparr>ramdisk_addr := v\<rparr>)"
  by (simp add: encode_hdr_def hdr_wf_def hdr_consts splice_skip splice_here)

lemma store_second_addr [hdr_stores]:
  "hdr_wf h \<Longrightarrow> splice (encode_hdr h) 28 (le32 v) = encode_hdr (h\<lparr>second_addr := v\<rparr>)"
  by (simp add: encode_hdr_def hdr_wf_def hdr_consts splice_skip splice_here)

lemma store_tags_addr [hdr_stores]:
  "hdr_wf h \<Longrightarrow> splice (encode_hdr h) 32 (le32 v) = encode_hdr (h\<lparr>tags_addr := v\<rparr>)"
  by (simp add: encode_hdr_def hdr_wf_def hdr_consts splice_skip splice_here)

lemma store_page_size [hdr_stores]:
  "hdr_wf h \<Longrightarrow> splice (encode_hdr h) 36 (le32 v) = encode_hdr (h\<lparr>page_size := v\<rparr>)"
  by (simp add: encode_hdr_def hdr_wf_def hdr_consts splice_skip splice_here)

lemma store_header_version [hdr_stores]:
  "hdr_wf h \<Longrightarrow> splice (encode_hdr h) 40 (le32 v) = encode_hdr (h\<lparr>header_version := v\<rparr>)"
  by (simp add: encode_hdr_def hdr_wf_def hdr_consts splice_skip splice_here)

lemma store_os_version [hdr_stores]:
  "hdr_wf h \<Longrightarrow> splice (encode_hdr h) 44 (le32 v) = encode_hdr (h\<lparr>os_version := v\<rparr>)"
  by (simp add: encode_hdr_def hdr_wf_def hdr_consts splice_skip splice_here)

lemma le64_low: "le64 (ucast (v :: u32)) = le32 v @ replicate 4 0"
proof -
  have b: "unat v < 4294967296" by (rule unat_lt_u32)
  have "unat (ucast v :: u64) = unat v" using b by (simp add: unsigned_ucast_eq take_bit_nat_eq_self_iff)
  then show ?thesis using le_bytes_add [of 4 4 "unat v"] b by (simp add: le64_def le32_def)
qed

lemma store_low64:
  assumes "x = le64 0" and "length p = off"
  shows "splice (p @ x @ r) off (le32 v) = p @ le64 (ucast v) @ r"
proof -
  have "le64 0 = le32 0 @ replicate 4 0" using le64_low [of 0] by simp
  then show ?thesis using assms by (simp add: splice_def le64_low)
qed

lemma store_recovery_dtbo_offset [hdr_stores]:
  "hdr_wf h \<Longrightarrow> recovery_dtbo_offset h = 0 \<Longrightarrow>
   splice (encode_hdr h) 1636 (le32 v) = encode_hdr (h\<lparr>recovery_dtbo_offset := ucast v\<rparr>)"
  by (simp add: encode_hdr_def hdr_wf_def hdr_consts splice_skip store_low64 [of _ "[]", simplified])

lemma store_dtb_addr [hdr_stores]:
  "hdr_wf h \<Longrightarrow> dtb_addr h = 0 \<Longrightarrow>
   splice (encode_hdr h) 1652 (le32 v) = encode_hdr (h\<lparr>dtb_addr := ucast v\<rparr>)"
  by (simp add: encode_hdr_def hdr_wf_def hdr_consts splice_skip store_low64 [of _ "[]" _ "[]", simplified])

lemma store_magic [hdr_stores]:
  assumes "hdr_wf h" and "kernel_size h = 0"
  shows "splice (encode_hdr h) 0 (BOOT_MAGIC @ [0]) = encode_hdr (h\<lparr>magic := BOOT_MAGIC\<rparr>)"
  using assms by (simp add: encode_hdr_def hdr_wf_def splice_0 BOOT_MAGIC_def le32_0)

lemma store_string:
  assumes "length x = off" and "length s < n"
  shows "splice (x @ replicate n 0 @ r) off (s @ [0]) = x @ c_array n s @ r"
  using assms by (simp add: splice_inside splice_zeros)

lemma store_name [hdr_stores]:
  "hdr_wf h \<Longrightarrow> name h = replicate 16 0 \<Longrightarrow> length s < 16 \<Longrightarrow>
   splice (encode_hdr h) 48 (s @ [0]) = encode_hdr (h\<lparr>name := c_array 16 s\<rparr>)"
  by (simp add: encode_hdr_def hdr_wf_def hdr_consts splice_skip store_string [of "[]", simplified])

lemma store_cmdline [hdr_stores]:
  "hdr_wf h \<Longrightarrow> cmdline h = replicate 512 0 \<Longrightarrow> length s < 512 \<Longrightarrow>
   splice (encode_hdr h) 64 (s @ [0]) = encode_hdr (h\<lparr>cmdline := c_array 512 s\<rparr>)"
  by (simp add: encode_hdr_def hdr_wf_def hdr_consts splice_skip store_string [of "[]", simplified])

lemma store_extra_cmdline [hdr_stores]:
  "hdr_wf h \<Longrightarrow> extra_cmdline h = replicate 1024 0 \<Longrightarrow> length s < 1024 \<Longrightarrow>
   splice (encode_hdr h) 608 (s @ [0]) = encode_hdr (h\<lparr>extra_cmdline := c_array 1024 s\<rparr>)"
  by (simp add: encode_hdr_def hdr_wf_def hdr_consts splice_skip store_string [of "[]", simplified])

lemma meta_keys_ok:
  "list_all (\<lambda>k. meta_key_ok k \<and> CHR 0x00 \<notin> set k)
    [''kernel_addr'', ''ramdisk_addr'', ''second_addr'', ''tags_addr'', ''dtb_addr'',
     ''recovery_dtbo_offset'', ''name'', ''cmdline'', ''extra_cmdline'', ''kernel_compression'',
     ''header_version'', ''os_version'', ''header_size'', ''page_size'', ''kernel_size'',
     ''ramdisk_size'', ''second_size'', ''recovery_dtbo_size'', ''dtb_size'']"
  by (simp add: meta_key_ok_def contains_def meta_tag_def starts_def)

lemma print_x_no_nul: "CHR 0x00 \<notin> set (print_x n)"
  using print_x_digits [of n] by (auto simp: hex_digits_def)

text \<open>A string field that METADATA can carry: terminated, one line, without the tag.\<close>

definition meta_string_ok :: "bytes \<Rightarrow> bool" where
  "meta_string_ok f \<longleftrightarrow> 0 \<in> set f \<and> meta_value_ok (map chr_of_byte (cstr f))"

lemma cstr_append: "0 \<in> set f \<Longrightarrow> cstr (f @ r) = cstr f"
  by (auto simp: cstr_def takeWhile_append)

lemma length_cstr_less: "0 \<in> set f \<Longrightarrow> length (cstr f) < length f"
  unfolding cstr_def by (metis (mono_tags, lifting) length_takeWhile_le nat_less_le set_takeWhileD takeWhile_eq_take take_all_iff)

lemma drop_field: "length x = off \<Longrightarrow> drop off (x @ r) = r"
  by simp

lemma hdr_cstrs:
  assumes "hdr_wf h"
  shows "0 \<in> set (name h) \<Longrightarrow> hdr_cstr h 48 = map chr_of_byte (cstr (name h))"
    and "0 \<in> set (cmdline h) \<Longrightarrow> hdr_cstr h 64 = map chr_of_byte (cstr (cmdline h))"
    and "0 \<in> set (extra_cmdline h) \<Longrightarrow> hdr_cstr h 608 = map chr_of_byte (cstr (extra_cmdline h))"
  using assms by (simp_all add: hdr_cstr_def encode_hdr_def hdr_wf_def hdr_consts cstr_append)

lemma meta_string_no_nul: "CHR 0x00 \<notin> set (map chr_of_byte (cstr f))"
proof
  assume "CHR 0x00 \<in> set (map chr_of_byte (cstr f))"
  then obtain x where x: "x \<in> set (cstr f)" "chr_of_byte x = CHR 0x00" by auto
  then have "x = 0" by (metis byte_of_chr_nul byte_of_chr_of_byte)
  with x cstr_no_nul show False by simp
qed

definition hdr_restored :: "boot_img_hdr \<Rightarrow> boot_img_hdr" where
  "hdr_restored h = hdr_zero\<lparr>
     magic := BOOT_MAGIC,
     kernel_addr := kernel_addr h, ramdisk_addr := ramdisk_addr h, second_addr := second_addr h,
     tags_addr := tags_addr h, page_size := page_size h, header_version := header_version h,
     os_version := os_version h,
     name := c_array 16 (cstr (name h)), cmdline := c_array 512 (cstr (cmdline h)),
     extra_cmdline := c_array 1024 (cstr (extra_cmdline h)),
     recovery_dtbo_offset := ucast (ucast (recovery_dtbo_offset h) :: u32),
     header_size := header_size h,
     dtb_addr := ucast (ucast (dtb_addr h) :: u32)\<rparr>"

lemma hdr_wf_update2 [simp]:
  "hdr_wf (h\<lparr>kernel_addr := v\<rparr>) = hdr_wf h" "hdr_wf (h\<lparr>ramdisk_addr := v\<rparr>) = hdr_wf h"
  "hdr_wf (h\<lparr>second_addr := v\<rparr>) = hdr_wf h" "hdr_wf (h\<lparr>tags_addr := v\<rparr>) = hdr_wf h"
  "hdr_wf (h\<lparr>page_size := v\<rparr>) = hdr_wf h" "hdr_wf (h\<lparr>header_version := v\<rparr>) = hdr_wf h"
  "hdr_wf (h\<lparr>os_version := v\<rparr>) = hdr_wf h" "hdr_wf (h\<lparr>header_size := v\<rparr>) = hdr_wf h"
  "hdr_wf (h\<lparr>recovery_dtbo_offset := v'\<rparr>) = hdr_wf h" "hdr_wf (h\<lparr>dtb_addr := v'\<rparr>) = hdr_wf h"
  "length s \<le> 16 \<Longrightarrow> hdr_wf h \<Longrightarrow> hdr_wf (h\<lparr>name := c_array 16 s\<rparr>)"
  "length s \<le> 512 \<Longrightarrow> hdr_wf h \<Longrightarrow> hdr_wf (h\<lparr>cmdline := c_array 512 s\<rparr>)"
  "length s \<le> 1024 \<Longrightarrow> hdr_wf h \<Longrightarrow> hdr_wf (h\<lparr>extra_cmdline := c_array 1024 s\<rparr>)"
  by (simp_all add: hdr_wf_def hdr_consts)

lemma meta_entries_ok:
  assumes "hdr_wf (b_hdr b)"
    and "meta_string_ok (name (b_hdr b))" "meta_string_ok (cmdline (b_hdr b))" "meta_string_ok (extra_cmdline (b_hdr b))"
    and "length (concat (map meta_line (meta_entries b c))) mod 4096 \<noteq> 0"
  shows "meta_file_ok (meta_entries b c)"
  using assms meta_keys_ok
  unfolding meta_file_ok_def meta_entries_def Let_def
  by (simp add: hdr_cstrs meta_string_ok_def meta_value_ok_hex print_x_no_nul meta_string_no_nul del: set_map)


lemma entry_lookup:
  fixes c :: nat
  assumes "hdr_wf (b_hdr b)" and "meta_string_ok (name (b_hdr b))" "meta_string_ok (cmdline (b_hdr b))"
    "meta_string_ok (extra_cmdline (b_hdr b))"
  defines "h \<equiv> b_hdr b" and "L \<equiv> map_of (meta_entries b c)"
  shows "L ''name'' = Some (map chr_of_byte (cstr (name h)))"
    and "L ''cmdline'' = Some (map chr_of_byte (cstr (cmdline h)))"
    and "L ''extra_cmdline'' = Some (map chr_of_byte (cstr (extra_cmdline h)))"
    and "L ''kernel_addr'' = Some (print_x (unat (kernel_addr h)))"
    and "L ''ramdisk_addr'' = Some (print_x (unat (ramdisk_addr h)))"
    and "L ''second_addr'' = Some (print_x (unat (second_addr h)))"
    and "L ''tags_addr'' = Some (print_x (unat (tags_addr h)))"
    and "L ''dtb_addr'' = Some (print_x (unat (dtb_addr h)))"
    and "L ''recovery_dtbo_offset'' = Some (print_x (unat (recovery_dtbo_offset h)))"
    and "L ''header_version'' = Some (print_x (unat (header_version h)))"
    and "L ''os_version'' = Some (print_x (unat (os_version h)))"
    and "L ''header_size'' = Some (print_x (unat (header_size h)))"
    and "L ''page_size'' = Some (print_x (unat (page_size h)))"
    and "L ''kernel_compression'' = Some (print_x c)"
  using assms by (simp_all add: L_def h_def meta_entries_def Let_def hdr_cstrs meta_string_ok_def)

lemma word_of_nat_low: "(word_of_nat (unat (w :: u64)) :: u32) = ucast w"
  by simp

text \<open>One rule per kind of scanned field: the header held so far is updated.\<close>

lemma step_x:
  assumes "meta_file_ok kvs" and "map_of kvs key = Some (print_x v)" and "CHR ''='' \<notin> set key"
    and "hdr_wf h" and "v < 2 ^ 64" and "off + 4 \<le> HDR_SIZE"
    and "splice (encode_hdr h) off (le32 (word_of_nat v)) = encode_hdr h'" and "k (encode_hdr h') = R"
  shows "config_xint (Some (meta_file kvs)) key off (encode_hdr h) k = R"
  using config_xint_step [OF assms(1-3,5), of off "encode_hdr h" k] assms(4,6-8) by simp

lemma step_x32:
  assumes "meta_file_ok kvs" and "map_of kvs key = Some (print_x (unat (w :: u32)))"
    and "CHR ''='' \<notin> set key" and "hdr_wf h" and "off + 4 \<le> HDR_SIZE"
    and "splice (encode_hdr h) off (le32 w) = encode_hdr h'" and "k (encode_hdr h') = R"
  shows "config_xint (Some (meta_file kvs)) key off (encode_hdr h) k = R"
  by (rule step_x [where v = "unat w" and k = k and h' = h', OF assms(1-4) _ assms(5) _ assms(7)])
    (use assms(6) unat_lt_u32 [of w] in simp_all)

lemma step_x64:
  assumes "meta_file_ok kvs" and "map_of kvs key = Some (print_x (unat (w :: u64)))"
    and "CHR ''='' \<notin> set key" and "hdr_wf h" and "off + 4 \<le> HDR_SIZE"
    and "splice (encode_hdr h) off (le32 (ucast w)) = encode_hdr h'" and "k (encode_hdr h') = R"
  shows "config_xint (Some (meta_file kvs)) key off (encode_hdr h) k = R"
  by (rule step_x [where v = "unat w" and k = k and h' = h', OF assms(1-4) _ assms(5) _ assms(7)])
    (use assms(6) unat_lt_u64 [of w] in simp_all)

lemma step_string:
  assumes "meta_file_ok kvs" and "map_of kvs key = Some (map chr_of_byte s)" and "CHR ''='' \<notin> set key"
    and "hdr_wf h" and "length s < lim" and "off + lim < HDR_SIZE" and "encode_hdr h ! off = 0"
    and "splice (encode_hdr h) off (s @ [0]) = encode_hdr h'" and "k (encode_hdr h') = R"
  shows "config_string (Some (meta_file kvs)) key off lim (encode_hdr h) k = R"
  using config_string_step [OF assms(1-3), of off "encode_hdr h" lim k] assms(4-9) by simp

lemma hdr_nth_zero:
  assumes "hdr_wf h"
  shows "cmdline h = replicate 512 0 \<Longrightarrow> encode_hdr h ! 64 = 0"
    and "extra_cmdline h = replicate 1024 0 \<Longrightarrow> encode_hdr h ! 608 = 0"
    and "name h = replicate 16 0 \<Longrightarrow> encode_hdr h ! 48 = 0"
  using assms by (simp_all add: encode_hdr_def hdr_wf_def hdr_consts nth_append)

lemma hdr_from_metadata_entries:
  assumes "hdr_wf (b_hdr b)"
    and "meta_string_ok (name (b_hdr b))" "meta_string_ok (cmdline (b_hdr b))" "meta_string_ok (extra_cmdline (b_hdr b))"
    and "length (concat (map meta_line (meta_entries b c))) mod 4096 \<noteq> 0"
  shows "bxxt_boot_hdr_from_metadata (Some (meta_file (meta_entries b c))) =
    Inr (encode_hdr (hdr_restored (b_hdr b)), BXXT_SUCCESS)"
proof -
  note ok = meta_entries_ok [OF assms] and L = entry_lookup [OF assms(1-4), of c]
  have len: "length (cstr (name (b_hdr b))) < 16" "length (cstr (cmdline (b_hdr b))) < 512"
    "length (cstr (extra_cmdline (b_hdr b))) < 1024"
    using assms(1-4) length_cstr_less by (force simp: hdr_wf_def meta_string_ok_def hdr_consts)+
  note S = hdr_zero_fields hdr_consts len hdr_nth_zero less_imp_le
  show ?thesis
    unfolding bxxt_boot_hdr_from_metadata_def Let_def encode_hdr_zero [symmetric]
    apply (rule step_string [OF ok L(2) _ _ _ _ _ store_cmdline], simp, simp add: S, simp add: S, simp add: S, simp add: S,
        simp add: S, simp add: S, simp add: S)
    apply (rule step_string [OF ok L(3) _ _ _ _ _ store_extra_cmdline], simp, simp add: S, simp add: S, simp add: S, simp add: S,
        simp add: S, simp add: S, simp add: S)
    apply (rule step_string [OF ok L(1) _ _ _ _ _ store_name], simp, simp add: S, simp add: S, simp add: S, simp add: S,
        simp add: S, simp add: S, simp add: S)
    apply (rule step_x32 [OF ok L(12) _ _ _ store_header_size], simp, simp add: S, simp add: S, simp add: S)
    apply (rule step_x32 [OF ok L(4) _ _ _ store_kernel_addr], simp, simp add: S, simp add: S, simp add: S)
    apply (rule step_x32 [OF ok L(5) _ _ _ store_ramdisk_addr], simp, simp add: S, simp add: S, simp add: S)
    apply (rule step_x32 [OF ok L(6) _ _ _ store_second_addr], simp, simp add: S, simp add: S, simp add: S)
    apply (rule step_x32 [OF ok L(7) _ _ _ store_tags_addr], simp, simp add: S, simp add: S, simp add: S)
    apply (rule step_x32 [OF ok L(13) _ _ _ store_page_size], simp, simp add: S, simp add: S, simp add: S)
    apply (rule step_x32 [OF ok L(10) _ _ _ store_header_version], simp, simp add: S, simp add: S, simp add: S)
    apply (rule step_x32 [OF ok L(12) _ _ _ store_header_size], simp, simp add: S, simp add: S, simp add: S)
    apply (rule step_x32 [OF ok L(11) _ _ _ store_os_version], simp, simp add: S, simp add: S, simp add: S)
    apply (rule step_x64 [OF ok L(9) _ _ _ store_recovery_dtbo_offset], simp, simp add: S, simp add: S, simp add: S, simp add: S)
    apply (rule step_x64 [OF ok L(8) _ _ _ store_dtb_addr], simp, simp add: S, simp add: S, simp add: S, simp add: S)
    apply (subst store_magic)
      apply (simp_all add: S hdr_restored_def)
    apply (rule arg_cong [where f = encode_hdr])
    apply (rule boot_img_hdr.equality, simp_all)
    done
qed


end
