(* ===== verification/Boot_Pack.thy ===== *)
theory Boot_Pack
  imports Boot_Metadata
begin

text \<open>
  Packing and unpacking (boot.c): \<open>bxxt_boot_pack_all\<close> puts an image together from the files
  of a directory with the growable buffer, signs it and writes it;
  \<open>bxxt_boot_unpack_all\<close> opens an image and writes its parts. libarchive, libdtc and
  the disk are parameters.
\<close>

section \<open>Files and the libraries\<close>

datatype fnode = Reg bytes | Dir

type_synonym fs = "string \<Rightarrow> fnode option"

definition path_in :: "string \<Rightarrow> string \<Rightarrow> string" where
  "path_in dir n = dir @ ''/'' @ n"

text \<open>What \<open>stat\<close> says of the size; a directory has one block.\<close>

definition stat_size :: "fs \<Rightarrow> string \<Rightarrow> nat option" where
  "stat_size fs p = (case fs p of None \<Rightarrow> None | Some (Reg d) \<Rightarrow> Some (length d) | Some Dir \<Rightarrow> Some 4096)"

text \<open>A file opened and mapped by \<open>bxxt_file_open\<close>: directories and empty files cannot be mapped.\<close>

definition map_file :: "fs \<Rightarrow> string \<Rightarrow> bytes option" where
  "map_file fs p = (case fs p of Some (Reg d) \<Rightarrow> if d = [] then None else Some d | _ \<Rightarrow> None)"

text \<open>
  The libraries and the disk, as the code uses them: \<open>pe_raw_write c d n\<close> is what libarchive's
  raw format with filter \<open>c\<close> leaves in a buffer of \<open>n\<close> bytes for the data \<open>d\<close>,
  \<open>pe_raw_read\<close> what it extracts again, \<open>pe_dtc\<close> the blob libdtc builds from a source
  file and \<open>pe_dts\<close> the source it prints, \<open>pe_cpio_out\<close> and \<open>pe_cpio_in\<close> the packed
  ramdisk of a directory and its extraction, \<open>pe_write p n\<close> how many of \<open>n\<close> bytes are
  written to \<open>p\<close>, \<open>None\<close> when it cannot be opened.
\<close>

record pack_env =
  pe_raw_write :: "int \<Rightarrow> bytes \<Rightarrow> nat \<Rightarrow> bytes"
  pe_raw_read :: "int \<Rightarrow> bytes \<Rightarrow> bytes"
  pe_dtc :: "fs \<Rightarrow> string \<Rightarrow> bytes"
  pe_dts :: "bytes \<Rightarrow> bytes"
  pe_cpio_out :: "fs \<Rightarrow> string \<Rightarrow> bytes option"
  pe_cpio_in :: "bytes \<Rightarrow> string \<Rightarrow> fs \<Rightarrow> fs"
  pe_write :: "string \<Rightarrow> nat \<Rightarrow> nat option"

definition bxxt_boot_write_to :: "pack_env \<Rightarrow> bytes \<Rightarrow> string \<Rightarrow> fs \<Rightarrow> fs \<times> int" where
  "bxxt_boot_write_to E d file fs =
     (case pe_write E file (length d) of
        None \<Rightarrow> (fs, BXXT_FAILED)
      | Some k \<Rightarrow> (fs(file \<mapsto> Reg (take k d)), if k = length d then BXXT_SUCCESS else int k))"

definition bxxt_boot_read_from :: "fs \<Rightarrow> string \<Rightarrow> buffer res" where
  "bxxt_boot_read_from fs file =
     (let buffer = bxxt_buffer_create 0 in
      case map_file fs file of
        None \<Rightarrow> Inr buffer
      | Some d \<Rightarrow> res_bind (bxxt_buffer_concat_from_data buffer d (length d)) (\<lambda>(buffer, _). Inr buffer))"

definition bxxt_boot_compress_from_file ::
  "pack_env \<Rightarrow> fs \<Rightarrow> string \<Rightarrow> int \<Rightarrow> buffer option res" where
  "bxxt_boot_compress_from_file E fs file c =
     (case map_file fs file of
        None \<Rightarrow> Inr None
      | Some d \<Rightarrow>
          let buffer = bxxt_buffer_create (length d);
              out = pe_raw_write E c d (length d)
          in res_bind (c_memcpy (b_ptr buffer) 0 out (length out)) (\<lambda>p.
             res_bind (bxxt_buffer_resize (buffer\<lparr>b_ptr := p\<rparr>)
               (to_int32 (to_int32 (int (length out)) - to_int32 (int (b_size buffer))))) (\<lambda>b. Inr (Some b))))"

primrec compile_loop ::
  "nat \<Rightarrow> nat \<Rightarrow> pack_env \<Rightarrow> fs \<Rightarrow> string \<Rightarrow> string \<Rightarrow> buffer \<Rightarrow> buffer res" where
  "compile_loop 0 ctr E fs dir prefix blob = Inr blob"
| "compile_loop (Suc n) ctr E fs dir prefix blob =
     (let path = path_in dir (prefix @ pad0 2 (print_x ctr)) in
      case fs path of
        Some (Reg _) \<Rightarrow>
          let dt = pe_dtc E fs path in
          res_bind (bxxt_buffer_concat_from_data blob dt (length dt)) (\<lambda>(blob, _).
          compile_loop n (Suc ctr) E fs dir prefix blob)
      | _ \<Rightarrow> Inr blob)"

definition bxxt_boot_compile_fs2blob ::
  "pack_env \<Rightarrow> fs \<Rightarrow> string \<Rightarrow> string \<Rightarrow> buffer res" where
  "bxxt_boot_compile_fs2blob E fs dir prefix =
     compile_loop 0xff 0 E fs dir prefix (bxxt_buffer_create 0)"

section \<open>Packing\<close>

text \<open>\<open>page_size\<close> is an \<open>int\<close>; as a \<open>size_t\<close> a negative one is huge.\<close>

definition as_size_t :: "int \<Rightarrow> nat" where
  "as_size_t i = nat (i mod 2 ^ 64)"

definition pad_data :: "buffer \<Rightarrow> buffer \<Rightarrow> int \<Rightarrow> buffer res" where
  "pad_data img buffer pg =
     res_bind (bxxt_buffer_concat_from_data img (b_ptr buffer) (b_size buffer)) (\<lambda>(img, _).
     res_bind (bxxt_buffer_align img (as_size_t pg)) (\<lambda>(img, _). Inr img))"

definition on_img :: "(bytes \<Rightarrow> bytes res) \<Rightarrow> buffer \<Rightarrow> buffer res" where
  "on_img f img = res_bind (f (b_ptr img)) (\<lambda>p. Inr (img\<lparr>b_ptr := p\<rparr>))"

definition u32_size :: "buffer \<Rightarrow> u32" where
  "u32_size b = word_of_nat (b_size b)"

text \<open>The optional sections \<open>second\<close> and \<open>recovery_dtbo\<close>.\<close>

definition add_optional ::
  "fs \<Rightarrow> string \<Rightarrow> (u32 \<Rightarrow> bytes \<Rightarrow> bytes res) \<Rightarrow> int \<Rightarrow> buffer \<Rightarrow> buffer res" where
  "add_optional fs path setter pg img =
     (case stat_size fs path of
        Some (Suc _) \<Rightarrow>
          res_bind (bxxt_boot_read_from fs path) (\<lambda>tmp.
          res_bind (on_img (setter (u32_size tmp)) img) (\<lambda>img.
          pad_data img tmp pg))
      | _ \<Rightarrow> Inr img)"

definition bxxt_boot_pack_kernel ::
  "pack_env \<Rightarrow> fs \<Rightarrow> string \<Rightarrow> int \<Rightarrow> buffer option res" where
  "bxxt_boot_pack_kernel E fs abspath compression =
     res_bind (bxxt_boot_compress_from_file E fs (path_in abspath ''kernel'') compression) (\<lambda>tmp.
     case tmp of
       None \<Rightarrow> Inr None
     | Some tmp \<Rightarrow>
         res_bind (bxxt_boot_compile_fs2blob E fs abspath ''kernel.dts-'') (\<lambda>dt.
         res_bind (bxxt_buffer_concat_from_data tmp (b_ptr dt) (b_size dt)) (\<lambda>(tmp, _).
         Inr (Some tmp))))"

text \<open>The last part: the finished image is read back, signed in place and written.\<close>

definition bxxt_boot_pack_sign :: "boot_opts \<Rightarrow> SHA1_CTX \<Rightarrow> bytes \<Rightarrow> bytes res" where
  "bxxt_boot_pack_sign opts ctx0 img =
     res_bind (bxxt_boot_init1 opts ctx0 bxxt_boot_new img False) (\<lambda>(boot, _).
     res_bind (bxxt_boot_img_signature ctx0 boot) (\<lambda>sha1.
     if b_mm boot = [] then Inl Null_Deref else set_id sha1 img))"

definition bxxt_boot_pack_image ::
  "pack_env \<Rightarrow> boot_opts \<Rightarrow> fs \<Rightarrow> string \<Rightarrow> bytes \<Rightarrow> int \<Rightarrow> buffer option res" where
  "bxxt_boot_pack_image E opts fs abspath hdr compression =
     res_bind (bxxt_buffer_create_from_data hdr HDR_SIZE) (\<lambda>img.
     let pg = sint (page_size (decode_hdr (b_ptr img))) in
     res_bind (bxxt_buffer_align img (as_size_t pg)) (\<lambda>(img, _).
     res_bind (bxxt_boot_pack_kernel E fs abspath compression) (\<lambda>k.
     case k of
       None \<Rightarrow> Inr None
     | Some tmp \<Rightarrow>
         res_bind (on_img (set_kernel_size (u32_size tmp)) img) (\<lambda>img.
         res_bind (pad_data img tmp pg) (\<lambda>img.
         if fs (path_in abspath ''ramdisk'') \<noteq> Some Dir then Inr None
         else case pe_cpio_out E fs (path_in abspath ''ramdisk'') of
           None \<Rightarrow> Inr None
         | Some cpio \<Rightarrow>
             let tmp = \<lparr>b_size = length cpio, b_ptr = cpio\<rparr> in
             res_bind (on_img (set_ramdisk_size (u32_size tmp)) img) (\<lambda>img.
             res_bind (pad_data img tmp pg) (\<lambda>img.
             res_bind (add_optional fs (path_in abspath ''second'') set_second_size pg img) (\<lambda>img.
             res_bind (add_optional fs (path_in abspath ''recovery_dtbo'') set_recovery_dtbo_size pg img) (\<lambda>img.
             res_bind (bxxt_boot_compile_fs2blob E fs abspath ''dt.dts-'') (\<lambda>tmp.
             res_bind (on_img (set_dtb_size (u32_size tmp)) img) (\<lambda>img.
             res_bind (pad_data img tmp pg) (\<lambda>img.
             res_bind (if skip_unknown_data opts then Inr img
                       else add_optional fs (path_in abspath ''extra.data'') (\<lambda>_. Inr) pg img) (\<lambda>img.
             Inr (Some img))))))))))))))"

definition bxxt_boot_pack_all ::
  "pack_env \<Rightarrow> boot_opts \<Rightarrow> SHA1_CTX \<Rightarrow> string \<Rightarrow> string \<Rightarrow> fs \<Rightarrow> (fs \<times> int) res" where
  "bxxt_boot_pack_all E opts ctx0 abspath out fs =
     (let meta = map_file fs (path_in abspath ''METADATA'') in
      res_bind (bxxt_boot_hdr_from_metadata meta) (\<lambda>(hdr, r).
      if r \<noteq> BXXT_SUCCESS then Inr (fs, r)
      else
        res_bind (bxxt_boot_scan_metadata meta (meta_tag @ ''kernel_compression'') Fmt_x
          (le32 (word_of_nat KERNEL_COMPRESSION_GZIP)) 0) (\<lambda>(c, _).
        res_bind (bxxt_boot_pack_image E opts fs abspath hdr (sint (rd_le32 c))) (\<lambda>img.
        case img of
          None \<Rightarrow> Inr (fs, BXXT_FAILED)
        | Some img \<Rightarrow>
            res_bind (bxxt_boot_pack_sign opts ctx0 (b_ptr img)) (\<lambda>p.
            Inr (bxxt_boot_write_to E p out fs))))))"

section \<open>Unpacking\<close>

primrec decompile_loop :: "bxxt_dtb list \<Rightarrow> nat \<Rightarrow> pack_env \<Rightarrow> bytes \<Rightarrow> string \<Rightarrow> string \<Rightarrow> fs \<Rightarrow> fs res" where
  "decompile_loop [] ctr E m dir prefix fs = Inr fs"
| "decompile_loop (d # ds) ctr E m dir prefix fs =
     (let path = path_in dir (prefix @ pad0 2 (print_x ctr)) in
      res_bind (case pe_write E path 0 of
          None \<Rightarrow> Inr fs
        | Some _ \<Rightarrow> res_bind (rd_bytes m (dt_ptr d) (dt_size d)) (\<lambda>dtb. Inr (fs(path \<mapsto> Reg (pe_dts E dtb)))))
        (\<lambda>fs. decompile_loop ds (Suc ctr) E m dir prefix fs))"

definition bxxt_boot_decompile_dt2fs ::
  "pack_env \<Rightarrow> bytes \<Rightarrow> bxxt_dtb list \<Rightarrow> string \<Rightarrow> string \<Rightarrow> fs \<Rightarrow> fs res" where
  "bxxt_boot_decompile_dt2fs E m ds dir prefix fs = decompile_loop ds 0 E m dir prefix fs"

definition bxxt_boot_decompress_to_file ::
  "pack_env \<Rightarrow> bytes \<Rightarrow> int \<Rightarrow> string \<Rightarrow> fs \<Rightarrow> fs" where
  "bxxt_boot_decompress_to_file E d c file fs =
     (let out = pe_raw_read E c d;
          old = (case fs file of Some (Reg o') \<Rightarrow> o' | _ \<Rightarrow> [])
      in case pe_write E file (length out) of
        None \<Rightarrow> fs
      | Some k \<Rightarrow> fs(file \<mapsto> Reg (take k out @ drop k old)))"

definition write_section :: "pack_env \<Rightarrow> bytes \<Rightarrow> nat \<Rightarrow> u32 \<Rightarrow> string \<Rightarrow> fs \<Rightarrow> fs res" where
  "write_section E m off n path fs =
     (if n = 0 then Inr fs
      else res_bind (rd_bytes m off (unat n)) (\<lambda>d. Inr (fst (bxxt_boot_write_to E d path fs))))"

definition bxxt_boot_unpack_all ::
  "pack_env \<Rightarrow> boot_opts \<Rightarrow> SHA1_CTX \<Rightarrow> string \<Rightarrow> string \<Rightarrow> fs \<Rightarrow> (fs \<times> int) res" where
  "bxxt_boot_unpack_all E opts ctx0 img abspath fs =
     (let loc = path_in abspath in
      case pe_write E (loc ''METADATA'') 0 of
        None \<Rightarrow> Inr (fs, BXXT_FAILED)
      | Some _ \<Rightarrow>
          let fs = fs(loc ''METADATA'' \<mapsto> Reg []) in
          res_bind (bxxt_boot_open_file opts ctx0 bxxt_boot_new (map_file fs img)) (\<lambda>(b, r).
          if r \<noteq> BXXT_SUCCESS then Inr (fs, r)
          else
            let m = b_mm b in
            res_bind (rd_bytes m (b_kernel_ptr b) (unat (b_kernel_size b))) (\<lambda>k.
            let fs = bxxt_boot_decompress_to_file E k (int (b_kernel_compression b)) (loc ''kernel'') fs in
            res_bind (write_section E m (b_recovery_dtbo_ptr b) (b_recovery_dtbo_size b) (loc ''recovery_dtbo'') fs) (\<lambda>fs.
            res_bind (write_section E m (b_second_ptr b) (b_second_size b) (loc ''second'') fs) (\<lambda>fs.
            res_bind (write_section E m (b_pad_ptr b) (b_pad_size b) (loc ''extra.data'') fs) (\<lambda>fs.
            res_bind (bxxt_boot_decompile_dt2fs E m (b_kernel_dtb b) abspath ''kernel.dts-'' fs) (\<lambda>fs.
            res_bind (bxxt_boot_decompile_dt2fs E m (b_dtb b) abspath ''dt.dts-'' fs) (\<lambda>fs.
            res_bind (rd_bytes m (b_ramdisk_ptr b) (unat (b_ramdisk_size b))) (\<lambda>rd.
            let fs = (if fs (loc ''ramdisk'') = None then fs(loc ''ramdisk'' \<mapsto> Dir) else fs);
                fs = (if b_ramdisk_size b > 0 then pe_cpio_in E rd (loc ''ramdisk'') fs else fs)
            in res_bind (bxxt_boot_print_meta_info_file b) (\<lambda>meta.
               Inr (fs(loc ''METADATA'' \<mapsto> Reg meta), BXXT_SUCCESS)))))))))))"


section \<open>What packing produces\<close>

text \<open>A buffer that holds just these bytes.\<close>

definition buf :: "bytes \<Rightarrow> buffer" where
  "buf xs = \<lparr>b_size = length xs, b_ptr = xs\<rparr>"

lemma buf_simps [simp]: "b_size (buf xs) = length xs" "b_ptr (buf xs) = xs" "buffer_wf (buf xs)"
  "u32_size (buf xs) = word_of_nat (length xs)" "bxxt_buffer_create 0 = buf []"
  by (simp_all add: buf_def buffer_wf_def u32_size_def bxxt_buffer_create_def bxxt_malloc_def)

lemma concat_buf [simp]:
  "length ys < 2147483648 \<Longrightarrow> bxxt_buffer_concat_from_data (buf xs) ys (length ys) = Inr (buf (xs @ ys), length ys)"
  by (simp add: bxxt_buffer_concat_eq buf_def buffer_wf_def)

lemma align_buf [simp]:
  "0 < p \<Longrightarrow> p \<le> 2147483648 \<Longrightarrow>
   bxxt_buffer_align (buf xs) p = Inr (buf (page_pad p xs), align_up p (length xs) - length xs)"
  using align_up_ge [of p "length xs"]
  by (simp add: bxxt_buffer_align_eq) (simp add: buf_def page_pad_def)

lemma page_pad_app: "0 < p \<Longrightarrow> p dvd length xs \<Longrightarrow> page_pad p (xs @ ys) = xs @ page_pad p ys"
  by (simp add: page_pad_def align_up_add)

lemma as_size_t_nat [simp]: "n < 2 ^ 64 \<Longrightarrow> as_size_t (int n) = n"
  by (simp add: as_size_t_def)

lemma pad_data_buf:
  assumes "0 < p" and "p \<le> 2147483648" and "p dvd length img" and "length x < 2147483648"
  shows "pad_data (buf img) (buf x) (int p) = Inr (buf (img @ page_pad p x))"
  using assms by (simp add: pad_data_def page_pad_app)

lemma dvd_page_pad [simp]: "0 < p \<Longrightarrow> p dvd length (page_pad p xs)"
  by (simp add: align_up_dvd)

lemma on_img_buf: "f xs = Inr ys \<Longrightarrow> length ys = length xs \<Longrightarrow> on_img f (buf xs) = Inr (buf ys)"
  by (simp add: on_img_def buf_def)

lemma read_from_buf:
  "\<forall>d. map_file fs f = Some d \<longrightarrow> length d < 2147483648 \<Longrightarrow>
   bxxt_boot_read_from fs f = Inr (buf (case map_file fs f of None \<Rightarrow> [] | Some d \<Rightarrow> d))"
  by (auto simp: bxxt_boot_read_from_def Let_def split: option.split)

text \<open>The blob of the device tree sources with a prefix: numbered from 0 without a gap.\<close>

definition is_reg :: "fs \<Rightarrow> string \<Rightarrow> bool" where
  "is_reg fs p \<longleftrightarrow> (\<exists>d. fs p = Some (Reg d))"

definition dts_path :: "string \<Rightarrow> string \<Rightarrow> nat \<Rightarrow> string" where
  "dts_path dir prefix i = path_in dir (prefix @ pad0 2 (print_x i))"

definition dts_blobs :: "pack_env \<Rightarrow> fs \<Rightarrow> string \<Rightarrow> string \<Rightarrow> bytes list" where
  "dts_blobs E fs dir prefix =
     map (pe_dtc E fs) (takeWhile (is_reg fs) (map (dts_path dir prefix) [0..<255]))"

lemma compile_loop_eq:
  assumes "length (concat (map (pe_dtc E fs) (takeWhile (is_reg fs) (map (dts_path dir prefix) [ctr..<ctr + n])))) < 2147483648"
  shows "compile_loop n ctr E fs dir prefix (buf b) =
    Inr (buf (b @ concat (map (pe_dtc E fs) (takeWhile (is_reg fs) (map (dts_path dir prefix) [ctr..<ctr + n])))))"
  using assms
proof (induction n arbitrary: ctr b)
  case (Suc n)
  have u: "[ctr..<ctr + Suc n] = ctr # [Suc ctr..<Suc ctr + n]" by (simp add: upt_rec)
  show ?case
  proof (cases "is_reg fs (dts_path dir prefix ctr)")
    case True
    then obtain d where d: "fs (path_in dir (prefix @ pad0 2 (print_x ctr))) = Some (Reg d)"
      by (auto simp: is_reg_def dts_path_def)
    show ?thesis
      using Suc.IH [of "Suc ctr"] Suc.prems True
      unfolding u by (simp add: d Let_def del: upt_Suc) (simp add: dts_path_def)
  next
    case False
    then have "\<And>d. fs (path_in dir (prefix @ pad0 2 (print_x ctr))) \<noteq> Some (Reg d)"
      by (auto simp: is_reg_def dts_path_def)
    then show ?thesis
      using False unfolding u by (auto simp: Let_def split: option.split fnode.split)
  qed
qed simp

lemma compile_fs2blob_eq:
  "length (concat (dts_blobs E fs dir prefix)) < 2147483648 \<Longrightarrow>
   bxxt_boot_compile_fs2blob E fs dir prefix = Inr (buf (concat (dts_blobs E fs dir prefix)))"
  using compile_loop_eq [of E fs dir prefix 0 255 "[]"]
  by (simp add: bxxt_boot_compile_fs2blob_def dts_blobs_def)

lemma compress_eq:
  assumes "map_file fs file = Some d" and "length (pe_raw_write E c d (length d)) \<le> length d"
    and "length d < 2147483648"
  shows "bxxt_boot_compress_from_file E fs file c = Inr (Some (buf (pe_raw_write E c d (length d))))"
proof -
  let ?o = "pe_raw_write E c d (length d)"
  have "to_int32 (to_int32 (int (length ?o)) - to_int32 (int (length d))) = - int (length d - length ?o)"
    using assms by (simp add: to_int32_id of_nat_diff)
  then show ?thesis
    using assms bxxt_buffer_resize_shrink [of "length d - length ?o" "\<lparr>b_size = length d, b_ptr = ?o @ replicate (length d - length ?o) 0\<rparr>"]
    by (simp add: bxxt_boot_compress_from_file_def bxxt_buffer_create_def bxxt_malloc_def Let_def
        c_memcpy_ok splice_0 buf_def)
qed


definition opt_file :: "fs \<Rightarrow> string \<Rightarrow> bytes" where
  "opt_file fs p = (case map_file fs p of None \<Rightarrow> [] | Some d \<Rightarrow> d)"

definition sized_hdr :: "boot_img_hdr \<Rightarrow> sections \<Rightarrow> boot_img_hdr" where
  "sized_hdr h S = h\<lparr>kernel_size := word_of_nat (length (s_kernel S)),
     ramdisk_size := word_of_nat (length (s_ramdisk S)), second_size := word_of_nat (length (s_second S)),
     recovery_dtbo_size := word_of_nat (length (s_recovery S)), dtb_size := word_of_nat (length (s_dtb S))\<rparr>"

text \<open>A section is added: its size goes into the header, its bytes to the end.\<close>

lemma add_section:
  assumes "0 < p" and "p \<le> 2147483648" and "p dvd length (encode_hdr h @ r)" and "length x < 2147483648"
    and "setter (word_of_nat (length x)) (encode_hdr h @ r) = Inr (encode_hdr h' @ r)"
    and "hdr_wf h" and "hdr_wf h'"
  shows "res_bind (on_img (setter (u32_size (buf x))) (buf (encode_hdr h @ r))) (\<lambda>img. pad_data img (buf x) (int p)) =
    Inr (buf (encode_hdr h' @ r @ page_pad p x))"
proof -
  have "on_img (setter (u32_size (buf x))) (buf (encode_hdr h @ r)) = Inr (buf (encode_hdr h' @ r))"
    by (rule on_img_buf) (use assms in simp_all)
  moreover have "p dvd length (encode_hdr h' @ r)" using assms by simp
  ultimately show ?thesis using pad_data_buf [OF assms(1,2) _ assms(4)] by simp
qed

lemma add_optional_eq:
  assumes "0 < p" and "p \<le> 2147483648" and "p dvd length (encode_hdr h @ r)"
    and "length (opt_file fs path) < 2147483648"
    and "setter (word_of_nat (length (opt_file fs path))) (encode_hdr h @ r) = Inr (encode_hdr h' @ r)"
    and "hdr_wf h" and "hdr_wf h'" and "opt_file fs path = [] \<Longrightarrow> h' = h"
  shows "add_optional fs path setter (int p) (buf (encode_hdr h @ r)) =
    Inr (buf (encode_hdr h' @ r @ page_pad p (opt_file fs path)))"
proof (cases "\<exists>k. stat_size fs path = Some (Suc k)")
  case True
  then have "add_optional fs path setter (int p) (buf (encode_hdr h @ r)) =
      res_bind (on_img (setter (u32_size (buf (opt_file fs path)))) (buf (encode_hdr h @ r)))
        (\<lambda>img. pad_data img (buf (opt_file fs path)) (int p))"
    using read_from_buf [of fs path] assms(4)
    by (auto simp: add_optional_def opt_file_def split: option.splits)
  then show ?thesis using add_section [where setter = setter and x = "opt_file fs path", OF assms(1-7)] by simp
next
  case False
  then have "opt_file fs path = []"
    by (auto simp: opt_file_def map_file_def stat_size_def neq_Nil_conv split: option.splits fnode.splits)
  moreover from False have "add_optional fs path setter (int p) (buf (encode_hdr h @ r)) = Inr (buf (encode_hdr h @ r))"
    by (auto simp: add_optional_def split: option.splits nat.splits)
  ultimately show ?thesis using assms(1,8) by simp
qed

text \<open>What the files of a directory make the sections of the image.\<close>

definition packed_sections :: "pack_env \<Rightarrow> boot_opts \<Rightarrow> fs \<Rightarrow> string \<Rightarrow> int \<Rightarrow> sections" where
  "packed_sections E opts fs dir c =
     (let k = opt_file fs (path_in dir ''kernel'') in
      \<lparr>s_kernel = pe_raw_write E c k (length k) @ concat (dts_blobs E fs dir ''kernel.dts-''),
       s_ramdisk = (case pe_cpio_out E fs (path_in dir ''ramdisk'') of None \<Rightarrow> [] | Some d \<Rightarrow> d),
       s_second = opt_file fs (path_in dir ''second''),
       s_recovery = opt_file fs (path_in dir ''recovery_dtbo''),
       s_dtb = concat (dts_blobs E fs dir ''dt.dts-''),
       s_extra = (if skip_unknown_data opts then [] else opt_file fs (path_in dir ''extra.data''))\<rparr>)"

definition small_sections :: "sections \<Rightarrow> bool" where
  "small_sections S \<longleftrightarrow> (\<forall>x \<in> {s_kernel S, s_ramdisk S, s_second S, s_recovery S, s_dtb S, s_extra S}.
     length x < 2147483648)"

definition packable :: "pack_env \<Rightarrow> fs \<Rightarrow> string \<Rightarrow> int \<Rightarrow> bool" where
  "packable E fs dir c \<longleftrightarrow>
     (case map_file fs (path_in dir ''kernel'') of None \<Rightarrow> False
      | Some k \<Rightarrow> length k < 2147483648 \<and> length (pe_raw_write E c k (length k)) \<le> length k) \<and>
     fs (path_in dir ''ramdisk'') = Some Dir \<and> pe_cpio_out E fs (path_in dir ''ramdisk'') \<noteq> None"

lemma pack_kernel_eq:
  assumes "packable E fs dir c" and "small_sections (packed_sections E opts fs dir c)"
  shows "bxxt_boot_pack_kernel E fs dir c = Inr (Some (buf (s_kernel (packed_sections E opts fs dir c))))"
proof -
  obtain k where k: "map_file fs (path_in dir ''kernel'') = Some k" "length k < 2147483648"
    "length (pe_raw_write E c k (length k)) \<le> length k"
    using assms(1) by (auto simp: packable_def split: option.splits)
  have "length (concat (dts_blobs E fs dir ''kernel.dts-'')) < 2147483648"
    using assms(2) by (simp add: small_sections_def packed_sections_def Let_def)
  then show ?thesis
    using compress_eq [OF k(1,3,2)] compile_fs2blob_eq [of E fs dir "''kernel.dts-''"] k(1)
    by (simp add: bxxt_boot_pack_kernel_def packed_sections_def opt_file_def Let_def)
qed

lemma word_of_nat_0_update [simp]:
  "second_size h = 0 \<Longrightarrow> h\<lparr>second_size := 0\<rparr> = h"
  "recovery_dtbo_size h = 0 \<Longrightarrow> h\<lparr>recovery_dtbo_size := 0\<rparr> = h"
  by simp_all


lemma sint_small: "unat (w :: u32) < 2147483648 \<Longrightarrow> sint w = int (unat w)"
proof -
  assume a: "unat w < 2147483648"
  have "sint (word_of_nat n :: u32) = int n" if "n < 2147483648" for n
    using that by (simp add: signed_of_nat signed_take_bit_int_eq_self)
  from this [of "unat w"] a show ?thesis by simp
qed

lemma pack_image_eq:
  fixes opts :: boot_opts
  assumes wf: "hdr_wf h" and zs: "second_size h = 0" "recovery_dtbo_size h = 0" "dtb_size h = 0"
    and p: "p = unat (page_size h)" "0 < p" "p < 2147483648"
    and ok: "packable E fs dir c" and S: "S = packed_sections E opts fs dir c" and sm: "small_sections S"
  shows "bxxt_boot_pack_image E opts fs dir (encode_hdr h) c = Inr (Some (buf (image_of p (sized_hdr h S) S)))"
proof -
  have pg: "sint (page_size h) = int p" using p by (simp add: sint_small)
  have sz: "as_size_t (int p) = p" using p(3) by simp
  have rd: "fs (path_in dir ''ramdisk'') = Some Dir"
    and cpio: "pe_cpio_out E fs (path_in dir ''ramdisk'') = Some (s_ramdisk S)"
    using ok by (auto simp: packable_def S packed_sections_def Let_def)
  have secs: "opt_file fs (path_in dir ''second'') = s_second S"
    "opt_file fs (path_in dir ''recovery_dtbo'') = s_recovery S"
    "concat (dts_blobs E fs dir ''dt.dts-'') = s_dtb S"
    "\<not> skip_unknown_data opts \<Longrightarrow> opt_file fs (path_in dir ''extra.data'') = s_extra S"
    "skip_unknown_data opts \<Longrightarrow> s_extra S = []"
    by (simp_all add: S packed_sections_def Let_def)
  have len: "length (s_kernel S) < 2147483648" "length (s_ramdisk S) < 2147483648"
    "length (s_second S) < 2147483648" "length (s_recovery S) < 2147483648"
    "length (s_dtb S) < 2147483648" "length (s_extra S) < 2147483648"
    using sm by (simp_all add: small_sections_def)
  define z where "z = replicate (align_up p HDR_SIZE - HDR_SIZE) (0 :: u8)"
  have pp: "page_pad p (encode_hdr h') = encode_hdr h' @ z" if "hdr_wf h'" for h'
    using that by (simp add: page_pad_def z_def)
  have dv: "p dvd length (encode_hdr h' @ z)" if "hdr_wf h'" for h'
    using dvd_page_pad [OF p(2), of "encode_hdr h'"] pp [OF that] by simp
  define h1 where "h1 = h\<lparr>kernel_size := word_of_nat (length (s_kernel S))\<rparr>"
  define h2 where "h2 = h1\<lparr>ramdisk_size := word_of_nat (length (s_ramdisk S))\<rparr>"
  define h3 where "h3 = h2\<lparr>second_size := word_of_nat (length (s_second S))\<rparr>"
  define h4 where "h4 = h3\<lparr>recovery_dtbo_size := word_of_nat (length (s_recovery S))\<rparr>"
  define h5 where "h5 = h4\<lparr>dtb_size := word_of_nat (length (s_dtb S))\<rparr>"
  have w: "hdr_wf h1" "hdr_wf h2" "hdr_wf h3" "hdr_wf h4" "hdr_wf h5"
    using wf by (simp_all add: h1_def h2_def h3_def h4_def h5_def)
  let ?K = "page_pad p (s_kernel S)" and ?R = "page_pad p (s_ramdisk S)" and ?S = "page_pad p (s_second S)"
    and ?T = "page_pad p (s_recovery S)" and ?D = "page_pad p (s_dtb S)" and ?X = "page_pad p (s_extra S)"
  have "p dvd HDR_SIZE + length z" using dv [OF wf] wf by simp
  then have dvs: "p dvd HDR_SIZE + (length z + x)" if "p dvd x" for x
    using that by (metis add.assoc dvd_add)
  have dp: "p dvd length ?K" "p dvd length ?R" "p dvd length ?S" "p dvd length ?T" "p dvd length ?D"
    using p(2) by (simp_all add: align_up_dvd)
  have p': "p \<le> 2147483648" using p(3) by simp
  have s1: "res_bind (on_img (set_kernel_size (u32_size (buf (s_kernel S)))) (buf (encode_hdr h @ z)))
      (\<lambda>img. pad_data img (buf (s_kernel S)) (int p)) = Inr (buf (encode_hdr h1 @ z @ ?K))"
    by (rule add_section) (use p' p(2) dv wf len w in \<open>simp_all add: hdr_stores h1_def\<close>)
  have s2: "res_bind (on_img (set_ramdisk_size (u32_size (buf (s_ramdisk S)))) (buf (encode_hdr h1 @ z @ ?K)))
      (\<lambda>img. pad_data img (buf (s_ramdisk S)) (int p)) = Inr (buf (encode_hdr h2 @ (z @ ?K) @ ?R))"
    by (rule add_section) (use p' p(2) dvs dp len w in \<open>simp_all add: hdr_stores h2_def\<close>)
  have s3: "add_optional fs (path_in dir ''second'') set_second_size (int p) (buf (encode_hdr h2 @ z @ ?K @ ?R)) =
      Inr (buf (encode_hdr h3 @ (z @ ?K @ ?R) @ ?S))"
    unfolding secs(1) [symmetric]
    by (rule add_optional_eq) (use p' p(2) dvs dp len w secs zs in \<open>simp_all add: hdr_stores h3_def h2_def h1_def\<close>)
  have s4: "add_optional fs (path_in dir ''recovery_dtbo'') set_recovery_dtbo_size (int p)
      (buf (encode_hdr h3 @ z @ ?K @ ?R @ ?S)) = Inr (buf (encode_hdr h4 @ (z @ ?K @ ?R @ ?S) @ ?T))"
    unfolding secs(2) [symmetric]
    by (rule add_optional_eq)
      (use p' p(2) dvs dp len w secs zs in \<open>simp_all add: hdr_stores h4_def h3_def h2_def h1_def\<close>)
  have s5: "res_bind (on_img (set_dtb_size (u32_size (buf (s_dtb S)))) (buf (encode_hdr h4 @ z @ ?K @ ?R @ ?S @ ?T)))
      (\<lambda>img. pad_data img (buf (s_dtb S)) (int p)) = Inr (buf (encode_hdr h5 @ (z @ ?K @ ?R @ ?S @ ?T) @ ?D))"
    by (rule add_section) (use p' p(2) dvs dp len w in \<open>simp_all add: hdr_stores h5_def\<close>)
  have s6: "(if skip_unknown_data opts then Inr (buf (encode_hdr h5 @ z @ ?K @ ?R @ ?S @ ?T @ ?D))
      else add_optional fs (path_in dir ''extra.data'') (\<lambda>_. Inr) (int p) (buf (encode_hdr h5 @ z @ ?K @ ?R @ ?S @ ?T @ ?D))) =
      Inr (buf (encode_hdr h5 @ (z @ ?K @ ?R @ ?S @ ?T @ ?D) @ ?X))"
  proof (cases "skip_unknown_data opts")
    case True
    then show ?thesis using secs(5) p(2) by simp
  next
    case False
    then have "add_optional fs (path_in dir ''extra.data'') (\<lambda>_. Inr) (int p) (buf (encode_hdr h5 @ z @ ?K @ ?R @ ?S @ ?T @ ?D)) =
      Inr (buf (encode_hdr h5 @ (z @ ?K @ ?R @ ?S @ ?T @ ?D) @ ?X))"
      unfolding secs(4) [OF False, symmetric]
      by (intro add_optional_eq) (use p' p(2) dvs dp len w secs in simp_all)
    with False show ?thesis by simp
  qed
  have h5: "h5 = sized_hdr h S"
    by (simp add: h5_def h4_def h3_def h2_def h1_def sized_hdr_def)
  have img: "image_of p h5 S = encode_hdr h5 @ z @ ?K @ ?R @ ?S @ ?T @ ?D @ ?X"
    using pp [OF w(5)] by (simp add: image_of_def)
  have "bxxt_boot_pack_kernel E fs dir c = Inr (Some (buf (s_kernel S)))"
    using pack_kernel_eq [OF ok sm [unfolded S]] S by simp
  moreover have "bxxt_boot_compile_fs2blob E fs dir ''dt.dts-'' = Inr (buf (s_dtb S))"
    using compile_fs2blob_eq [of E fs dir "''dt.dts-''"] secs(3) len(5) by simp
  moreover have "bxxt_buffer_create_from_data (encode_hdr h) HDR_SIZE = Inr (buf (encode_hdr h))"
    using wf by (simp add: bxxt_buffer_create_from_data_eq buf_def)
  moreover have "decode_hdr (encode_hdr h) = h" using decode_encode_hdr [OF wf, of "[]"] by simp
  ultimately show ?thesis
    using s1 s2 s3 s4 s5 s6 p' p(2) rd
    unfolding bxxt_boot_pack_image_def h5 [symmetric] img Let_def buf_def [symmetric]
    by (simp add: pg sz cpio pp wf del: concat_buf flip: res_bind_assoc cong: if_cong)
qed


section \<open>Signing, and the whole of packing\<close>

definition signed_hdr :: "boot_img_hdr \<Rightarrow> sections \<Rightarrow> boot_img_hdr" where
  "signed_hdr h S = h\<lparr>id_field := sha1_hash (image_signed (header_version h) S) @ replicate 12 0\<rparr>"

lemma signed_hdr_wf [simp]: "hdr_wf h \<Longrightarrow> hdr_wf (signed_hdr h S)"
  by (simp add: signed_hdr_def hdr_wf_def length_sha1_hash)

lemma describes_signed: "describes h S \<Longrightarrow> describes (signed_hdr h S) S"
proof -
  assume D: "describes h S"
  then have w: "hdr_wf h" by (simp add: describes_def)
  have "length (image_of p (signed_hdr h S) S) = length (image_of p h S)" for p
    using w signed_hdr_wf [OF w, of S] by (simp add: image_of_def page_pad_def)
  with D w signed_hdr_wf [OF w, of S] show ?thesis
    unfolding describes_def by (simp add: signed_hdr_def)
qed

lemma pack_sign_eq:
  assumes D: "describes h S" and p: "p = unat (page_size h)" and ctx: "sha1_ctx_ok ctx0"
    and K: "section_dtbs (s_kernel S) g kd" and T: "section_dtbs (s_dtb S) g' d"
  shows "bxxt_boot_pack_sign opts ctx0 (image_of p h S) = Inr (image_of p (signed_hdr h S) S)"
proof -
  let ?img = "image_of p h S"
  note DD = describesD [OF D p refl]
  obtain b' where b': "bxxt_boot_init1 opts ctx0 bxxt_boot_new ?img False = Inr (b', BXXT_SUCCESS)"
    "placed S ?img b'" "b_version b' = header_version h"
    using init1_image [OF D p refl K T _ ctx, of False opts bxxt_boot_new] by auto
  have sg: "bxxt_boot_img_signature ctx0 b' = Inr (sha1_hash (image_signed (header_version h) S) @ replicate 12 0)"
    using signature_sha1 [OF ctx placed_inside [OF b'(2) DD(15)]] placed_signed [OF b'(2,3)] by simp
  have "?img \<noteq> []" using image_split(1) [OF D p refl] DD(1) by (metis length_encode_hdr append_is_Nil_conv
    list.size(3) HDR_SIZE_def zero_neq_numeral)
  moreover have "b_mm b' = ?img" using b'(2) by (simp add: placed_def)
  moreover have "set_id (sha1_hash (image_signed (header_version h) S) @ replicate 12 0) ?img =
      Inr (image_of p (signed_hdr h S) S)"
    using DD(1) signed_hdr_wf [OF DD(1), of S]
    by (simp add: image_of_def page_pad_def hdr_stores length_sha1_hash) (simp add: signed_hdr_def)
  ultimately show ?thesis by (simp add: bxxt_boot_pack_sign_def b'(1) sg)
qed

text \<open>The header that packing starts from, before sizes and signature.\<close>

lemma restored_fields:
  "hdr_wf h \<Longrightarrow> 0 \<in> set (name h) \<Longrightarrow> 0 \<in> set (cmdline h) \<Longrightarrow> 0 \<in> set (extra_cmdline h) \<Longrightarrow> hdr_wf (hdr_restored h)"
  "second_size (hdr_restored h) = 0" "recovery_dtbo_size (hdr_restored h) = 0" "dtb_size (hdr_restored h) = 0"
  "page_size (hdr_restored h) = page_size h" "header_version (hdr_restored h) = header_version h"
  by (simp_all add: hdr_restored_def hdr_zero_fields)
    (use length_cstr_less in \<open>force simp: hdr_wf_def hdr_consts hdr_zero_fields BOOT_MAGIC_def\<close>)

definition meta_ok :: "bxxt_boot \<Rightarrow> nat \<Rightarrow> bool" where
  "meta_ok b c \<longleftrightarrow> hdr_wf (b_hdr b) \<and> meta_string_ok (name (b_hdr b)) \<and> meta_string_ok (cmdline (b_hdr b)) \<and>
     meta_string_ok (extra_cmdline (b_hdr b)) \<and> c < 2147483648 \<and>
     length (meta_file (meta_entries b c)) mod 4096 \<noteq> 0"

lemma scan_compression:
  assumes "meta_ok b c"
  shows "bxxt_boot_scan_metadata (Some (meta_file (meta_entries b c))) (meta_tag @ ''kernel_compression'') Fmt_x
      (le32 w) 0 = Inr (le32 (word_of_nat c), 1)"
proof -
  have ok: "meta_file_ok (meta_entries b c)"
    using assms by (intro meta_entries_ok) (simp_all add: meta_ok_def meta_file_def)
  have L: "map_of (meta_entries b c) ''kernel_compression'' = Some (print_x c)"
    using assms by (intro entry_lookup) (simp_all add: meta_ok_def)
  obtain rest where "bxxt_boot_scan_metadata (Some (meta_file (meta_entries b c)))
      (meta_tag @ ''kernel_compression'') Fmt_x (le32 w) 0 = sscanf1 Fmt_x (print_x c @ CHR 0x0A # rest) (le32 w) 0"
    using scan_metadata_hit [OF ok L, of Fmt_x "le32 w" 0] by auto
  moreover have "scan_x (print_x c @ CHR 0x0A # rest) = Scan_Ok c"
    using assms by (intro scan_x_print_x) (simp add: meta_ok_def)
  ultimately show ?thesis by (simp add: sscanf1_def wr_bytes_def splice_0)
qed

lemma pack_all_eq:
  assumes m: "meta_ok b c" "map_file fs (path_in dir ''METADATA'') = Some (meta_file (meta_entries b c))"
    and ok: "packable E fs dir (int c)" and S: "S = packed_sections E opts fs dir (int c)"
    and h: "h = sized_hdr (hdr_restored (b_hdr b)) S" and p: "p = unat (page_size h)"
    and D: "describes h S" and ctx: "sha1_ctx_ok ctx0"
    and K: "section_dtbs (s_kernel S) g kd" and T: "section_dtbs (s_dtb S) g' d"
  shows "bxxt_boot_pack_all E opts ctx0 dir out fs =
    Inr (bxxt_boot_write_to E (image_of p (signed_hdr h S) S) out fs)"
proof -
  let ?h = "hdr_restored (b_hdr b)"
  note DD = describesD [OF D p refl]
  have wf: "hdr_wf ?h"
    using m(1) by (intro restored_fields) (simp_all add: meta_ok_def meta_string_ok_def)
  have md: "bxxt_boot_hdr_from_metadata (Some (meta_file (meta_entries b c))) = Inr (encode_hdr ?h, BXXT_SUCCESS)"
    using m(1) by (intro hdr_from_metadata_entries) (simp_all add: meta_ok_def meta_file_def)
  have cz: "sint (rd_le32 (le32 (word_of_nat c))) = int c"
    using m(1) by (simp add: le32.dec_enc meta_ok_def sint_small unat_of_nat)
  have pp: "p = unat (page_size ?h)" by (simp add: p h sized_hdr_def)
  have len: "length (image_of p h S) = p + align_up p (length (s_kernel S)) + align_up p (length (s_ramdisk S)) +
    align_up p (length (s_second S)) + align_up p (length (s_recovery S)) + align_up p (length (s_dtb S)) +
    align_up p (length (s_extra S))"
    using length_image_of [OF DD(6,1,4)] by (simp add: pages_def)
  have sm: "small_sections S"
    unfolding small_sections_def
    using len DD(15) align_up_ge [OF DD(6), of "length (s_kernel S)"] align_up_ge [OF DD(6), of "length (s_ramdisk S)"]
      align_up_ge [OF DD(6), of "length (s_second S)"] align_up_ge [OF DD(6), of "length (s_recovery S)"]
      align_up_ge [OF DD(6), of "length (s_dtb S)"] align_up_ge [OF DD(6), of "length (s_extra S)"]
    by auto
  have "bxxt_boot_pack_image E opts fs dir (encode_hdr ?h) (int c) = Inr (Some (buf (image_of p h S)))"
    unfolding h
    by (rule pack_image_eq [OF wf restored_fields(2-4) pp DD(6) _ ok S sm]) (use DD in simp)
  then show ?thesis
    using pack_sign_eq [OF D p ctx K T, of opts]
    by (simp add: bxxt_boot_pack_all_def m(2) md scan_compression [OF m(1)] cz Let_def)
qed

end
