(* ===== verification/Boot_Properties.thy ===== *)
theory Boot_Properties
  imports Boot_Pack
begin

text \<open>
  The properties of boot images: reading, signing, METADATA, packing, each with a concrete
  input on which its hypotheses hold.
\<close>

section \<open>A directory to pack\<close>

text \<open>
  A directory with a three-byte kernel and a ramdisk, a compressor that stores and a disk
  that takes every byte: the hypotheses of the properties below hold there.
\<close>

definition demo_env :: pack_env where
  "demo_env = \<lparr>pe_raw_write = (\<lambda>c d n. take n d), pe_raw_read = (\<lambda>c d. d), pe_dtc = (\<lambda>fs p. []),
     pe_dts = (\<lambda>d. []), pe_cpio_out = (\<lambda>fs p. Some [7]), pe_cpio_in = (\<lambda>d p fs. fs), pe_write = (\<lambda>p n. Some n)\<rparr>"

definition demo_boot :: bxxt_boot where
  "demo_boot = bxxt_boot_new\<lparr>b_hdr := hdr_zero\<lparr>page_size := 2048, cmdline := c_array 512 [0x61, 0x3D, 0x62]\<rparr>\<rparr>"

definition demo_fs :: fs where
  "demo_fs = [''d/METADATA'' \<mapsto> Reg (meta_file (meta_entries demo_boot 0)), ''d/kernel'' \<mapsto> Reg [1, 2, 3],
     ''d/ramdisk'' \<mapsto> Dir, ''d/extra.data'' \<mapsto> Reg [9, 0, 5]]"

definition demo_opts :: boot_opts where
  "demo_opts = \<lparr>force_no_compat_check = False, skip_unknown_data = False\<rparr>"

definition demo_sections :: sections where
  "demo_sections = \<lparr>s_kernel = [1, 2, 3], s_ramdisk = [7], s_second = [], s_recovery = [], s_dtb = [], s_extra = [9, 0, 5]\<rparr>"

definition demo_hdr :: boot_img_hdr where
  "demo_hdr = sized_hdr (hdr_restored (b_hdr demo_boot)) demo_sections"

text \<open>An uninitialised hash context.\<close>

definition demo_ctx :: SHA1_CTX where
  "demo_ctx = \<lparr>sha_state = [1, 2, 3, 4, 5], sha_count0 = 77, sha_count1 = 9, sha_buffer = replicate 64 0xCC\<rparr>"

lemma demo_chars: "chr_of_byte 0x61 = CHR ''a''" "chr_of_byte 0x3D = CHR ''=''" "chr_of_byte 0x62 = CHR ''b''"
  using chr_of_byte_of_chr [of "CHR ''a''"] chr_of_byte_of_chr [of "CHR ''=''"] chr_of_byte_of_chr [of "CHR ''b''"]
  by (simp_all add: byte_of_chr_def)

lemma demo_strings:
  "cstr (replicate 16 0) = []" "cstr (replicate 1024 0) = []" "cstr (c_array 512 [0x61, 0x3D, 0x62]) = [0x61, 0x3D, 0x62]"
  using cstr_c_array [of "[0x61, 0x3D, 0x62]" 512 "[]"] by (simp_all add: cstr_def)

lemma demo_meta_ok: "meta_ok demo_boot 0"
proof -
  have wf: "hdr_wf (b_hdr demo_boot)"
    by (simp add: demo_boot_def hdr_zero_fields)
  have st: "meta_string_ok (name (b_hdr demo_boot))" "meta_string_ok (cmdline (b_hdr demo_boot))"
    "meta_string_ok (extra_cmdline (b_hdr demo_boot))"
    by (simp_all add: meta_string_ok_def meta_value_ok_def demo_boot_def hdr_zero_fields demo_strings demo_chars
        contains_def meta_tag_def starts_def) (simp add: c_array_def)
  have "length (meta_file (meta_entries demo_boot 0)) mod 4096 \<noteq> 0"
    using wf st
    by (simp add: meta_file_def meta_entries_def Let_def hdr_cstrs meta_string_ok_def)
     (simp add: demo_boot_def bxxt_boot_new_def hdr_zero_fields demo_strings demo_chars
        meta_line_def meta_tag_def print_x_def print_base.simps hex_digits_def)
  with wf st show ?thesis by (simp add: meta_ok_def)
qed

lemma demo_dts: "dts_blobs demo_env demo_fs ''d'' prefix = []" if "prefix = ''kernel.dts-'' \<or> prefix = ''dt.dts-''"
proof -
  have "\<not> is_reg demo_fs (dts_path ''d'' prefix 0)"
    using that by (auto simp: is_reg_def dts_path_def path_in_def demo_fs_def)
  moreover have "[0..<255] = 0 # [1..<255]" by (simp add: upt_rec)
  ultimately show ?thesis by (simp add: dts_blobs_def)
qed

lemma demo_packed: "packed_sections demo_env demo_opts demo_fs ''d'' 0 = demo_sections"
  by (simp add: packed_sections_def demo_dts Let_def)
    (simp add: demo_sections_def opt_file_def map_file_def demo_fs_def path_in_def demo_env_def demo_opts_def)

lemma demo_packable: "packable demo_env demo_fs ''d'' 0"
  by (simp add: packable_def map_file_def demo_fs_def path_in_def demo_env_def)

lemma demo_page: "unat (page_size demo_hdr) = 2048"
  by (simp add: demo_hdr_def sized_hdr_def restored_fields demo_boot_def)

lemma demo_describes: "describes demo_hdr demo_sections"
proof -
  have wf: "hdr_wf demo_hdr"
    using demo_meta_ok by (simp add: demo_hdr_def sized_hdr_def restored_fields meta_ok_def meta_string_ok_def)
  moreover have "length (image_of 2048 demo_hdr demo_sections) < 2147483648"
    using wf by (simp add: length_image_of hdr_consts pages_def demo_sections_def align_up_def)
  ultimately show ?thesis
    unfolding describes_def demo_page
    by (simp add: hdr_consts) (simp add: demo_hdr_def sized_hdr_def hdr_restored_def demo_sections_def
        demo_boot_def hdr_zero_fields)
qed

lemma find_sub_short: "length xs < length pat \<Longrightarrow> find_sub pat xs = None"
proof (induction xs)
  case (Cons x xs)
  then have "length (take (length pat) (x # xs)) \<noteq> length pat" by simp
  then have "take (length pat) (x # xs) \<noteq> pat" by metis
  with Cons show ?case by simp
qed simp

lemma demo_dtbs: "section_dtbs (s_kernel demo_sections) [1, 2, 3] []" "section_dtbs (s_dtb demo_sections) [] []"
  by (simp_all add: section_dtbs_def demo_sections_def find_sub_short del: find_sub.simps)


lemmas demo_facts = demo_meta_ok demo_packable demo_packed demo_page demo_describes demo_dtbs

section \<open>Properties of packing and opening\<close>

text \<open>
  C1: Packing a directory writes one image, and opening that image with the signature
  check on succeeds: the header is the one of METADATA with the sizes of the parts, every
  section is found where it was put, and the device trees appended to the kernel and in
  the dtb section are located.
\<close>

theorem packed_image_opens:
  assumes "meta_ok b c" "map_file fs (path_in dir ''METADATA'') = Some (meta_file (meta_entries b c))"
    and "packable E fs dir (int c)" and S: "S = packed_sections E opts fs dir (int c)"
    and h: "h = sized_hdr (hdr_restored (b_hdr b)) S"
    and "describes h S" and "sha1_ctx_ok ctx0"
    and "section_dtbs (s_kernel S) g kd" and "section_dtbs (s_dtb S) g' d"
    and disk: "\<And>n. pe_write E out n = Some n"
  shows "\<exists>img b'. bxxt_boot_pack_all E opts ctx0 dir out fs = Inr (fs(out \<mapsto> Reg img), BXXT_SUCCESS) \<and>
    bxxt_boot_init1 opts ctx0 b0 img True = Inr (b', BXXT_SUCCESS) \<and> placed S img b' \<and>
    b_hdr b' = signed_hdr h S \<and>
    b_kernel_dtb b' = dtb_places (b_kernel_ptr b' + length g) kd \<and>
    b_dtb b' = dtb_places (b_dtb_ptr b' + length g') d"
proof -
  let ?p = "unat (page_size h)" and ?h = "signed_hdr h S"
  let ?img = "image_of ?p ?h S"
  have pack: "bxxt_boot_pack_all E opts ctx0 dir out fs = Inr (fs(out \<mapsto> Reg ?img), BXXT_SUCCESS)"
    using pack_all_eq [OF assms(1-5) refl assms(6-9)] disk by (simp add: bxxt_boot_write_to_def)
  have p: "?p = unat (page_size ?h)" by (simp add: signed_hdr_def)
  have sig: "True \<and> \<not> force_no_compat_check opts \<longrightarrow>
      take 8 (id_field ?h) = take 8 (sha1_hash (image_signed (header_version ?h) S))"
    by (simp add: signed_hdr_def length_sha1_hash)
  obtain b' where b': "bxxt_boot_init1 opts ctx0 b0 ?img True = Inr (b', BXXT_SUCCESS)" "placed S ?img b'"
    "b_hdr b' = ?h" "b_kernel_dtb b' = dtb_places (b_kernel_ptr b' + length g) kd"
    "b_dtb b' = dtb_places (b_dtb_ptr b' + length g') d"
    using init1_image [OF describes_signed [OF assms(6)] p refl assms(8,9) sig assms(7), of b0] by auto
  then show ?thesis using pack by (intro exI [of _ ?img] exI [of _ b']) simp
qed

theorem packed_image_opens_witness:
  "\<exists>img b'. bxxt_boot_pack_all demo_env demo_opts demo_ctx
      ''d'' ''out.img'' demo_fs = Inr (demo_fs(''out.img'' \<mapsto> Reg img), BXXT_SUCCESS) \<and>
    bxxt_boot_init1 demo_opts demo_ctx bxxt_boot_new img True =
      Inr (b', BXXT_SUCCESS) \<and> placed demo_sections img b'"
proof -
  have m: "map_file demo_fs (path_in ''d'' ''METADATA'') = Some (meta_file (meta_entries demo_boot 0))"
    using demo_meta_ok by (auto simp: map_file_def demo_fs_def path_in_def meta_ok_def)
  have c: "sha1_ctx_ok demo_ctx"
    by (simp add: sha1_ctx_ok_def demo_ctx_def)
  have d: "\<And>n. pe_write demo_env ''out.img'' n = Some n" by (simp add: demo_env_def)
  have k: "packable demo_env demo_fs ''d'' (int 0)"
    "demo_sections = packed_sections demo_env demo_opts demo_fs ''d'' (int 0)"
    using demo_facts by simp_all
  show ?thesis
    using packed_image_opens [OF demo_meta_ok m k demo_hdr_def demo_describes c demo_dtbs d] by blast
qed

lemma field_take: "off + n \<le> k \<Longrightarrow> field off n (take k m) = field off n m"
  by (simp add: field_def drop_take)

lemma decode_hdr_take: "decode_hdr (take HDR_SIZE m) = decode_hdr m"
  by (simp add: decode_hdr_def field_take hdr_consts)

lemma boot_layout_keeps:
  "boot_layout b ptr = Inr b' \<Longrightarrow> b_hdr b' = b_hdr b \<and> b_mm b' = ptr"
  by (auto simp: boot_layout_def Let_def res_bind_eq_Inr split: if_splits)

lemma init1_success:
  assumes "bxxt_boot_init1 opts ctx0 b img check = Inr (b', BXXT_SUCCESS)"
  obtains b1 where "HDR_SIZE \<le> length img" "b_hdr b1 = decode_hdr img" "b_hdr b' = decode_hdr img"
    "bxxt_boot_img_version_check b1 = BXXT_SUCCESS" "bxxt_boot_img_base_check b1 = BXXT_SUCCESS"
    "check \<longrightarrow> bxxt_boot_img_compat_check opts ctx0 b1 = Inr BXXT_SUCCESS" "b_mm b1 = img"
proof -
  have l: "HDR_SIZE \<le> length img"
    using assms by (auto simp: bxxt_boot_init1_def rd_bytes_def split: if_splits)
  let ?b = "b\<lparr>b_hdr := decode_hdr img\<rparr>"
  have vc: "bxxt_boot_img_version_check x \<noteq> BXXT_FAILED \<Longrightarrow> bxxt_boot_img_version_check x = BXXT_SUCCESS" for x
    by (auto simp: bxxt_boot_img_version_check_def split: if_splits)
  have bc: "bxxt_boot_img_base_check x \<noteq> BXXT_FAILED \<Longrightarrow> bxxt_boot_img_base_check x = BXXT_SUCCESS" for x
    by (auto simp: bxxt_boot_img_base_check_def Let_def split: if_splits)
  have cc: "bxxt_boot_img_compat_check opts ctx0 x = Inr c \<Longrightarrow> c \<noteq> BXXT_FAILED \<Longrightarrow> c = BXXT_SUCCESS" for x c
    by (auto simp: bxxt_boot_img_compat_check_def res_bind_eq_Inr split: if_splits)
  from assms l obtain b1 where b1: "boot_layout ?b img = Inr b1" "bxxt_boot_img_version_check ?b \<noteq> BXXT_FAILED"
    "bxxt_boot_img_base_check b1 \<noteq> BXXT_FAILED" "b_hdr b' = b_hdr b1"
    "\<exists>c. (if check then bxxt_boot_img_compat_check opts ctx0 b1 else Inr BXXT_SUCCESS) = Inr c \<and> c \<noteq> BXXT_FAILED"
    by (auto simp: bxxt_boot_init1_def decode_hdr_take res_bind_eq_Inr Let_def split: if_splits)
  note k = boot_layout_keeps [OF b1(1)]
  show thesis
  proof (rule that [OF l, of b1])
    show "b_hdr b1 = decode_hdr img" "b_hdr b' = decode_hdr img" using k b1(4) by simp_all
    show "bxxt_boot_img_version_check b1 = BXXT_SUCCESS"
      using vc [OF b1(2)] k by (auto simp: bxxt_boot_img_version_check_def split: if_splits)
    show "bxxt_boot_img_base_check b1 = BXXT_SUCCESS" using bc b1(3) by simp
    show "check \<longrightarrow> bxxt_boot_img_compat_check opts ctx0 b1 = Inr BXXT_SUCCESS" using b1(5) cc by auto
    show "b_mm b1 = img" using k by simp
  qed
qed

text \<open>
  Whatever image \<open>bxxt_boot_init1\<close> accepts is at least a header long and has the
  Android magic, a header version of at most 2, a page size between 1 and 65535, a
  kernel, and a kernel and a ramdisk of at most 64 MB each.
\<close>

theorem init1_accepts_only:
  assumes "bxxt_boot_init1 opts ctx0 b img check = Inr (b', BXXT_SUCCESS)"
  shows "HDR_SIZE \<le> length img \<and> magic (decode_hdr img) = BOOT_MAGIC \<and> header_version (decode_hdr img) \<le> 2 \<and>
    0 < page_size (decode_hdr img) \<and> page_size (decode_hdr img) \<le> 0xffff \<and> kernel_size (decode_hdr img) \<noteq> 0 \<and>
    kernel_size (decode_hdr img) \<le> 0x4000000 \<and> ramdisk_size (decode_hdr img) \<le> 0x4000000"
proof -
  from init1_success [OF assms] obtain b1 where b1: "HDR_SIZE \<le> length img" "b_hdr b1 = decode_hdr img"
    "bxxt_boot_img_version_check b1 = BXXT_SUCCESS" "bxxt_boot_img_base_check b1 = BXXT_SUCCESS" by metis
  from b1 show ?thesis
    by (auto simp: bxxt_boot_img_version_check_def bxxt_boot_img_base_check_def Let_def word_neq_0_conv not_less
        split: if_splits)
qed

definition demo_image :: bytes where
  "demo_image = image_of 2048 demo_hdr demo_sections"

lemma demo_init1:
  assumes "\<not> check"
  obtains b' where "bxxt_boot_init1 demo_opts demo_ctx bxxt_boot_new demo_image check = Inr (b', BXXT_SUCCESS)"
    "b_pad_size b' = 2"
  using init1_image [OF demo_describes demo_page [symmetric] demo_image_def demo_dtbs, of check demo_opts demo_ctx bxxt_boot_new]
    assms by (auto simp: sha1_ctx_ok_def demo_ctx_def demo_sections_def kept_size_def)

theorem init1_accepts_only_witness:
  "magic (decode_hdr demo_image) = BOOT_MAGIC \<and> header_version (decode_hdr demo_image) \<le> 2"
proof -
  obtain b' where "bxxt_boot_init1 demo_opts demo_ctx bxxt_boot_new demo_image False = Inr (b', BXXT_SUCCESS)"
    using demo_init1 [of False] by auto
  from init1_accepts_only [OF this] show ?thesis by simp
qed

text \<open>
  Opening a file never looks at the signature: an image that its header describes is
  accepted whatever its id field holds, with the option that switches checking off and
  without it. (The option is handed over as the \<open>check\<close> argument, and the check itself
  gives up when the option is set.)
\<close>

theorem open_ignores_signature:
  assumes "describes h S" and "section_dtbs (s_kernel S) g kd" and "section_dtbs (s_dtb S) g' d"
    and "sha1_ctx_ok ctx0"
  shows "\<exists>b'. bxxt_boot_open_file opts ctx0 b (Some (image_of (unat (page_size h)) h S)) = Inr (b', BXXT_SUCCESS)"
  using init1_image [OF assms(1) refl refl assms(2,3) _ assms(4), of "force_no_compat_check opts" opts b]
  by (auto simp: bxxt_boot_open_file_def)

theorem open_ignores_signature_witness:
  "\<exists>b'. bxxt_boot_open_file demo_opts demo_ctx bxxt_boot_new (Some (image_of (unat (page_size demo_hdr)) demo_hdr demo_sections)) =
    Inr (b', BXXT_SUCCESS)"
  using open_ignores_signature [OF demo_describes demo_dtbs] by (simp add: sha1_ctx_ok_def demo_ctx_def)

text \<open>
  Data after the last section is read back without its last non-zero byte: the reader
  takes the index of that byte for the length of the data.
\<close>

theorem extra_data_loses_last_byte:
  assumes "describes h S" and "section_dtbs (s_kernel S) g kd" and "section_dtbs (s_dtb S) g' d"
    and "sha1_ctx_ok ctx0" and "s_extra S = xs @ [x] @ replicate n 0" and "x \<noteq> 0"
  shows "\<exists>b'. bxxt_boot_init1 opts ctx0 b (image_of (unat (page_size h)) h S) False = Inr (b', BXXT_SUCCESS) \<and>
    unat (b_pad_size b') = length xs \<and> section_bytes (b_mm b') (b_pad_ptr b') (b_pad_size b') = xs"
proof -
  let ?img = "image_of (unat (page_size h)) h S"
  obtain b' where b': "bxxt_boot_init1 opts ctx0 b ?img False = Inr (b', BXXT_SUCCESS)" "placed S ?img b'"
    "b_pad_size b' = word_of_nat (kept_size (s_extra S))"
    "section_bytes ?img (b_pad_ptr b') (b_pad_size b') = take (kept_size (s_extra S)) (s_extra S)"
    using init1_image [OF assms(1) refl refl assms(2,3) _ assms(4), of False opts b] by auto
  have k: "kept_size (s_extra S) = length xs" using assms(5,6) by (simp add: kept_size_def dropWhile_append)
  have "length (s_extra S) < 2147483648"
    using describesD(15) [OF assms(1) refl refl] length_page_pad [of "unat (page_size h)" "s_extra S"]
      align_up_ge [of "unat (page_size h)" "length (s_extra S)"] describesD(6) [OF assms(1) refl refl]
    by (simp add: image_of_def)
  then have "length xs < 2147483648" using assms(5) by simp
  then have "unat (word_of_nat (length xs) :: u32) = length xs" by (simp add: unat_of_nat)
  then show ?thesis
    using b' k assms(5) by (intro exI [of _ b']) (simp add: placed_def)
qed

theorem extra_data_loses_last_byte_witness:
  "\<exists>b'. bxxt_boot_init1 demo_opts demo_ctx bxxt_boot_new (image_of (unat (page_size demo_hdr)) demo_hdr demo_sections) False =
    Inr (b', BXXT_SUCCESS) \<and> section_bytes (b_mm b') (b_pad_ptr b') (b_pad_size b') = [9, 0]"
  using extra_data_loses_last_byte [OF demo_describes demo_dtbs, of demo_ctx "[9, 0]" 5 0 demo_opts bxxt_boot_new]
  by (auto simp: sha1_ctx_ok_def demo_ctx_def demo_sections_def)


text \<open>
  C7: The signature of an image whose sections are placed is SHA-1 over the sections the
  header version has, each followed by its 32-bit size, in the first 20 of 32 bytes.
\<close>

theorem signature_of_sections:
  assumes "placed S img b" and "length img < 2147483648" and "sha1_ctx_ok ctx0"
  shows "bxxt_boot_img_signature ctx0 b = Inr (sha1_hash (image_signed (b_version b) S) @ replicate 12 0)"
  using signature_sha1 [OF assms(3) placed_inside [OF assms(1,2)]] placed_signed [OF assms(1) refl] by simp

theorem signature_of_sections_witness:
  "\<exists>b. placed demo_sections (image_of (unat (page_size demo_hdr)) demo_hdr demo_sections) b \<and>
    bxxt_boot_img_signature demo_ctx b =
      Inr (sha1_hash (image_signed (b_version b) demo_sections) @ replicate 12 0)"
proof -
  have c: "sha1_ctx_ok demo_ctx" by (simp add: sha1_ctx_ok_def demo_ctx_def)
  obtain b where b: "placed demo_sections (image_of (unat (page_size demo_hdr)) demo_hdr demo_sections) b"
    using init1_image [OF demo_describes refl refl demo_dtbs _ c, of False demo_opts bxxt_boot_new] by auto
  from signature_of_sections [OF b describesD(15) [OF demo_describes refl refl] c] b show ?thesis by blast
qed

text \<open>
  Device trees that follow one another at the end of a section are all found, in order,
  at their offsets and with their sizes, when the magic word does not occur before them
  and there are at most 255.
\<close>

theorem dtbs_found:
  assumes "m = pre @ g @ concat ds @ post"
    and "section_dtbs (g @ concat ds) g ds"
  shows "bxxt_boot_parse_dtb_sections m (length pre) (length (g @ concat ds)) =
    Inr (dtb_places (length pre + length g) ds)"
  using parse_dtb_complete [OF assms(1)] assms(2) by (simp add: section_dtbs_def)

definition demo_tree :: bytes where
  "demo_tree = [0xd0, 0x0d, 0xfe, 0xed, 0, 0, 0, 24, 0, 0, 0, 0, 0, 0, 0, 0, 0, 0, 0, 0, 0, 0, 0, 17]"

lemma be_magic: "be32 FDT_MAGIC = [0xd0, 0x0d, 0xfe, 0xed]"
  by (simp add: be32_def be_bytes_def le_bytes_4 FDT_MAGIC_def)

lemma demo_tree_blob: "dtb_blob demo_tree"
  by (simp add: dtb_blob_def be_magic demo_tree_def rd_be32_def be_val_def)

theorem dtbs_found_witness:
  "bxxt_boot_parse_dtb_sections ([9] @ [0xd0, 0x0d] @ concat [demo_tree, demo_tree] @ [0])
      (length [9 :: u8]) (length ([0xd0, 0x0d] @ concat [demo_tree, demo_tree])) =
    Inr [\<lparr>dt_size = 24, dt_ptr = 3\<rparr>, \<lparr>dt_size = 24, dt_ptr = 27\<rparr>]"
proof -
  have "find_sub [0xd0, 0x0d, 0xfe, 0xed] ([0xd0, 0x0d] @ concat [demo_tree, demo_tree]) = Some 2"
    by (simp add: demo_tree_def)
  then have s: "section_dtbs ([0xd0, 0x0d] @ concat [demo_tree, demo_tree]) [0xd0, 0x0d] [demo_tree, demo_tree]"
    using demo_tree_blob by (simp add: section_dtbs_def be_magic demo_tree_def BOOT_MAX_DTB_def)
  have "dtb_places (length [9 :: u8] + length [0xd0, 0x0d :: u8]) [demo_tree, demo_tree] =
      [\<lparr>dt_size = 24, dt_ptr = 3\<rparr>, \<lparr>dt_size = 24, dt_ptr = 27\<rparr>]"
    by (simp add: demo_tree_def)
  with dtbs_found [OF refl s, of "[9]" "[0]"] show ?thesis by presburger
qed

text \<open>
  A device tree whose size field is zero is found again and again: the table of 255
  trees overflows.
\<close>

theorem dtb_zero_size_overflows:
  assumes "c_memmem m base tot (be32 FDT_MAGIC) = Inr (Some base)" and "0 < tot" and "tot < 4294967296"
    and "base + 24 \<le> length m" and "take 4 (drop (base + 4) m) = replicate 4 0"
  shows "bxxt_boot_parse_dtb_sections m base tot = Inl Oob_Write"
proof -
  have e: "word_of_int (int base + int tot - int base) = (word_of_nat tot :: u32)" by simp
  have u: "unat (word_of_nat tot :: u32) = tot" using assms(3) by (simp add: unat_of_nat)
  show ?thesis
    unfolding bxxt_boot_parse_dtb_sections_def
  proof (rule parse_dtb_zero_size)
    show "c_memmem m base (unat (word_of_int (int base + int tot - int base) :: u32)) (be32 FDT_MAGIC) = Inr (Some base)"
      unfolding e u by (rule assms(1))
    show "(0 :: u32) < word_of_int (int base + int tot - int base)"
      unfolding e word_less_nat_alt u using assms(2) by simp
    show "rd_bytes m (base + 4) 4 = Inr (replicate 4 0)" using assms(4,5) by simp
    show "rd_be32 (replicate 4 0) = 0" by (simp add: rd_be32_def be_val_def)
    show "rd_bytes m (base + 20) 4 = Inr (take 4 (drop (base + 20) m))" using assms(4) by simp
  qed
qed

theorem dtb_zero_size_overflows_witness:
  "bxxt_boot_parse_dtb_sections ([0xd0, 0x0d, 0xfe, 0xed] @ replicate 20 0) 0 24 = Inl Oob_Write"
proof (rule dtb_zero_size_overflows)
  show "c_memmem ([0xd0, 0x0d, 0xfe, 0xed] @ replicate 20 0) 0 24 (be32 FDT_MAGIC) = Inr (Some 0)"
    by (simp add: be_magic c_memmem_def)
qed simp_all

text \<open>
  C4: A METADATA file written for an image gives its header back: the load addresses, the
  page size, versions and strings as they were, the sizes and the id zero, and of the two
  64-bit fields, scanned with a 32-bit conversion, the low half only.
\<close>

theorem metadata_roundtrip:
  assumes "hdr_wf (b_hdr b)" and "meta_string_ok (name (b_hdr b))" "meta_string_ok (cmdline (b_hdr b))"
      "meta_string_ok (extra_cmdline (b_hdr b))"
    and "bxxt_boot_print_meta_info_file b = Inr file" and "length file mod 4096 \<noteq> 0"
  shows "bxxt_boot_hdr_from_metadata (Some file) = Inr (encode_hdr (hdr_restored (b_hdr b)), BXXT_SUCCESS)"
  using assms hdr_from_metadata_entries [OF assms(1-4)]
  by (auto simp: bxxt_boot_print_meta_info_file_def res_bind_eq_Inr meta_file_def)

theorem metadata_roundtrip_witness:
  "bxxt_boot_hdr_from_metadata (Some (meta_file (meta_entries (demo_boot\<lparr>b_mm := [0, 0]\<rparr>) 0))) =
    Inr (encode_hdr (hdr_restored (b_hdr demo_boot)), BXXT_SUCCESS)"
proof -
  let ?b = "demo_boot\<lparr>b_mm := [0, 0]\<rparr>"
  have e: "meta_entries ?b 0 = meta_entries demo_boot 0" by (simp add: meta_entries_def)
  have "bxxt_boot_detect_kernel_compression ?b = Inr 0"
    by (simp add: bxxt_boot_detect_kernel_compression_def demo_boot_def bxxt_boot_new_def
        KERNEL_COMPRESSION_NONE_def KERNEL_COMPRESSION_GZIP_def KERNEL_COMPRESSION_LZMA_def)
  then have "bxxt_boot_print_meta_info_file ?b = Inr (meta_file (meta_entries ?b 0))"
    by (simp add: bxxt_boot_print_meta_info_file_def meta_file_def)
  from metadata_roundtrip [OF _ _ _ _ this] demo_meta_ok show ?thesis
    by (simp add: e meta_ok_def)
qed

text \<open>
  The version string of an image shows the three version numbers that the Android tools
  packed, but the patch level shows the month modulo 8: its mask has three bits, the field four.
\<close>

theorem version_strings:
  assumes "a < 2 ^ 7" and "b < 2 ^ 7" and "c < 2 ^ 7" and "y - 2000 < 2 ^ 7" and "m < 2 ^ 4"
    and "os_version (b_hdr bt) = mk_os_version a b c y m"
  shows "bxxt_boot_img_get_osver_string bt =
      print_d (unat a) @ ''.'' @ print_d (unat b) @ ''.'' @ print_d (unat c) \<and>
    bxxt_boot_img_get_patchlevel_string bt =
      pad0 4 (print_d (unat y)) @ ''-'' @ pad0 2 (print_d (unat m mod 8)) @ ''-00''"
  using osver_string [OF assms] patchlevel_string [OF assms] by blast

theorem version_strings_witness:
  "bxxt_boot_img_get_patchlevel_string (bxxt_boot_new\<lparr>b_hdr := hdr_zero\<lparr>os_version := mk_os_version 9 0 0 2019 12\<rparr>\<rparr>) =
    ''2019-04-00''"
  using version_strings [of 9 0 0 2019 12 "bxxt_boot_new\<lparr>b_hdr := hdr_zero\<lparr>os_version := mk_os_version 9 0 0 2019 12\<rparr>\<rparr>"]
  by (simp add: pad0_def print_d_def print_base.simps hex_digits_def)

end
