(* ===== verification/Sepol_Ebitmap.thy ===== *)
theory Sepol_Ebitmap
  imports Bxxt_Prelude
begin

text \<open>
  The extensible bitmap of libsepol (ebitmap.c, with \<open>ebitmap_write\<close> of write.c), in which
  the policy keeps sets of types: a list of 64-bit words with their first bit. The
  operations are proved to be the operations on sets of numbers, and the file format
  to round-trip and to admit well-formed bitmaps only.
\<close>


section \<open>The data structure\<close>

record ebitmap_node =
  startbit :: u32
  mapw :: u64

record ebitmap =
  enodes :: "ebitmap_node list"
  highbit :: u32

text \<open>\<open>MAPSIZE\<close> is a \<open>size_t\<close>, so sums with it do not wrap at 32 bits.\<close>

definition MAPSIZE :: nat where "MAPSIZE = 64"

text \<open>\<open>MAPBIT << k\<close>.\<close>

definition MAPBIT :: "nat \<Rightarrow> u64" where "MAPBIT k = push_bit k 1"

definition ebitmap_init :: ebitmap where
  "ebitmap_init = \<lparr>enodes = [], highbit = 0\<rparr>"

definition node_lo :: "ebitmap_node \<Rightarrow> nat" where
  "node_lo n = unat (startbit n)"

definition map_bit :: "u64 \<Rightarrow> nat \<Rightarrow> bool" where
  "map_bit m i = (m AND MAPBIT i \<noteq> 0)"

section \<open>Operations\<close>

fun get_nodes :: "u32 \<Rightarrow> ebitmap_node list \<Rightarrow> bool" where
  "get_nodes b [] = False"
| "get_nodes b (n # ns) =
     (if startbit n \<le> b then
        if node_lo n + MAPSIZE > unat b then map_bit (mapw n) (unat (b - startbit n)) else get_nodes b ns
      else False)"

definition ebitmap_get_bit :: "ebitmap \<Rightarrow> u32 \<Rightarrow> bool" where
  "ebitmap_get_bit e b = (if highbit e < b then False else get_nodes b (enodes e))"

text \<open>
  The walk of \<open>ebitmap_set_bit\<close>: \<open>prev\<close> is the node before the rest; the second result
  is the new \<open>highbit\<close> when it is assigned.
\<close>

fun set_nodes :: "u32 \<Rightarrow> bool \<Rightarrow> ebitmap_node option \<Rightarrow> ebitmap_node list \<Rightarrow> ebitmap_node list \<times> u32 option" where
  "set_nodes b v prev [] =
     (let s = b AND NOT 63 in
      if \<not> v then ([], None)
      else ([\<lparr>startbit = s, mapw = MAPBIT (unat (b - s))\<rparr>], Some (s + 64)))"
| "set_nodes b v prev (n # ns) =
     (let s = b AND NOT 63 in
      if startbit n \<le> b then
        if node_lo n + MAPSIZE > unat b then
          if v then (n\<lparr>mapw := mapw n OR MAPBIT (unat (b - startbit n))\<rparr> # ns, None)
          else
            let m = mapw n AND NOT (MAPBIT (unat (b - startbit n))) in
            if m = 0
            then (ns, if ns = [] then Some (case prev of Some p \<Rightarrow> startbit p + 64 | None \<Rightarrow> 0) else None)
            else (n\<lparr>mapw := m\<rparr> # ns, None)
        else let (r, h) = set_nodes b v (Some n) ns in (n # r, h)
      else if \<not> v then (n # ns, None)
      else (\<lparr>startbit = s, mapw = MAPBIT (unat (b - s))\<rparr> # n # ns, None))"

definition EINVAL :: int where "EINVAL = 22"

definition ebitmap_set_bit :: "ebitmap \<Rightarrow> u32 \<Rightarrow> bool \<Rightarrow> ebitmap \<times> int" where
  "ebitmap_set_bit e b v =
     (if (b AND NOT 63) + 64 = 0 then (e, - EINVAL)
      else
        let (ns, h) = set_nodes b v None (enodes e) in
        (\<lparr>enodes = ns, highbit = (case h of Some x \<Rightarrow> x | None \<Rightarrow> highbit e)\<rparr>, 0))"

fun or_nodes :: "ebitmap_node list \<Rightarrow> ebitmap_node list \<Rightarrow> ebitmap_node list" where
  "or_nodes [] [] = []"
| "or_nodes (n1 # r1) [] = n1 # or_nodes r1 []"
| "or_nodes [] (n2 # r2) = n2 # or_nodes [] r2"
| "or_nodes (n1 # r1) (n2 # r2) =
     (if startbit n1 = startbit n2
      then \<lparr>startbit = startbit n1, mapw = mapw n1 OR mapw n2\<rparr> # or_nodes r1 r2
      else if startbit n1 < startbit n2 then n1 # or_nodes r1 (n2 # r2)
      else n2 # or_nodes (n1 # r1) r2)"

definition ebitmap_or :: "ebitmap \<Rightarrow> ebitmap \<Rightarrow> ebitmap \<times> int" where
  "ebitmap_or e1 e2 =
     (\<lparr>enodes = or_nodes (enodes e1) (enodes e2),
       highbit = (if highbit e1 > highbit e2 then highbit e1 else highbit e2)\<rparr>, 0)"

definition ebitmap_union :: "ebitmap \<Rightarrow> ebitmap \<Rightarrow> ebitmap \<times> int" where
  "ebitmap_union dst e1 =
     (let (tmp, r) = ebitmap_or dst e1 in if r \<noteq> 0 then (dst, - 1) else (tmp, 0))"

text \<open>The counting loop that the derived operations share: it stops at a negative result.\<close>

fun bit_loop :: "(nat \<Rightarrow> 'e \<Rightarrow> 'e \<times> int) \<Rightarrow> nat list \<Rightarrow> 'e \<Rightarrow> 'e \<times> int" where
  "bit_loop body [] d = (d, 0)"
| "bit_loop body (i # is) d =
     (let (d, rc) = body i d in if rc < 0 then (d, rc) else bit_loop body is d)"

definition ebitmap_length :: "ebitmap \<Rightarrow> nat" where
  "ebitmap_length e = unat (highbit e)"

definition eget :: "ebitmap \<Rightarrow> nat \<Rightarrow> bool" where
  "eget e i = ebitmap_get_bit e (word_of_nat i)"

definition ebitmap_and :: "ebitmap \<Rightarrow> ebitmap \<Rightarrow> ebitmap \<times> int" where
  "ebitmap_and e1 e2 =
     bit_loop (\<lambda>i d. if eget e1 i \<and> eget e2 i then ebitmap_set_bit d (word_of_nat i) True else (d, 0))
       [0..<min (ebitmap_length e1) (ebitmap_length e2)] ebitmap_init"

definition ebitmap_xor :: "ebitmap \<Rightarrow> ebitmap \<Rightarrow> ebitmap \<times> int" where
  "ebitmap_xor e1 e2 =
     bit_loop (\<lambda>i d. ebitmap_set_bit d (word_of_nat i) (eget e1 i \<noteq> eget e2 i))
       [0..<max (ebitmap_length e1) (ebitmap_length e2)] ebitmap_init"

definition ebitmap_not :: "ebitmap \<Rightarrow> u32 \<Rightarrow> ebitmap \<times> int" where
  "ebitmap_not e1 maxbit =
     bit_loop (\<lambda>i d. ebitmap_set_bit d (word_of_nat i) (\<not> eget e1 i)) [0..<unat maxbit] ebitmap_init"

definition ebitmap_andnot :: "ebitmap \<Rightarrow> ebitmap \<Rightarrow> u32 \<Rightarrow> ebitmap \<times> int" where
  "ebitmap_andnot e1 e2 maxbit =
     (let (e3, rc) = ebitmap_not e2 maxbit in
      if rc < 0 then (ebitmap_init, rc)
      else let (dst, rc) = ebitmap_and e1 e3 in if rc < 0 then (dst, rc) else (dst, 0))"

definition ebitmap_startbit :: "ebitmap \<Rightarrow> nat" where
  "ebitmap_startbit e = (case enodes e of [] \<Rightarrow> 0 | n # _ \<Rightarrow> node_lo n)"

definition ebitmap_cardinality :: "ebitmap \<Rightarrow> u32" where
  "ebitmap_cardinality e =
     fold (\<lambda>i count. if eget e i then count + 1 else count) [ebitmap_startbit e..<ebitmap_length e] 0"

fun cmp_nodes :: "ebitmap_node list \<Rightarrow> ebitmap_node list \<Rightarrow> bool" where
  "cmp_nodes (n1 # r1) (n2 # r2) =
     (if startbit n1 = startbit n2 \<and> mapw n1 = mapw n2 then cmp_nodes r1 r2 else False)"
| "cmp_nodes [] [] = True"
| "cmp_nodes _ _ = False"

definition ebitmap_cmp :: "ebitmap \<Rightarrow> ebitmap \<Rightarrow> bool" where
  "ebitmap_cmp e1 e2 = (if highbit e1 \<noteq> highbit e2 then False else cmp_nodes (enodes e1) (enodes e2))"

definition ebitmap_hamming_distance :: "ebitmap \<Rightarrow> ebitmap \<Rightarrow> int" where
  "ebitmap_hamming_distance e1 e2 =
     (if ebitmap_cmp e1 e2 then 0
      else let (tmp, rc) = ebitmap_xor e1 e2 in
        if rc < 0 then - 1 else to_int32 (uint (ebitmap_cardinality tmp)))"

fun cpy_nodes :: "ebitmap_node list \<Rightarrow> ebitmap_node list" where
  "cpy_nodes [] = []"
| "cpy_nodes (n # ns) = \<lparr>startbit = startbit n, mapw = mapw n\<rparr> # cpy_nodes ns"

definition ebitmap_cpy :: "ebitmap \<Rightarrow> ebitmap \<times> int" where
  "ebitmap_cpy src = (\<lparr>enodes = cpy_nodes (enodes src), highbit = highbit src\<rparr>, 0)"

fun contains_nodes :: "ebitmap_node list \<Rightarrow> ebitmap_node list \<Rightarrow> bool" where
  "contains_nodes (n1 # r1) (n2 # r2) =
     (if startbit n1 \<le> startbit n2 then
        if startbit n1 < startbit n2 then contains_nodes r1 (n2 # r2)
        else if mapw n1 AND mapw n2 \<noteq> mapw n2 then False
        else contains_nodes r1 r2
      else False)"
| "contains_nodes r1 r2 = (r2 = [])"

definition ebitmap_contains :: "ebitmap \<Rightarrow> ebitmap \<Rightarrow> bool" where
  "ebitmap_contains e1 e2 = (if highbit e1 < highbit e2 then False else contains_nodes (enodes e1) (enodes e2))"

fun match_nodes :: "ebitmap_node list \<Rightarrow> ebitmap_node list \<Rightarrow> bool" where
  "match_nodes (n1 # r1) (n2 # r2) =
     (if startbit n1 < startbit n2 then match_nodes r1 (n2 # r2)
      else if startbit n2 < startbit n1 then match_nodes (n1 # r1) r2
      else if mapw n1 AND mapw n2 \<noteq> 0 then True
      else match_nodes r1 r2)"
| "match_nodes _ _ = False"

definition ebitmap_match_any :: "ebitmap \<Rightarrow> ebitmap \<Rightarrow> bool" where
  "ebitmap_match_any e1 e2 = match_nodes (enodes e1) (enodes e2)"

section \<open>Reading and writing\<close>

definition next_entry :: "nat \<Rightarrow> bytes \<Rightarrow> (bytes \<times> bytes) option" where
  "next_entry n fp = (if n \<le> length fp then Some (take n fp, drop n fp) else None)"

text \<open>
  The node loop of \<open>ebitmap_read\<close>: \<open>l\<close> is the start bit of the last node read.
  Every failure is a negative result; the position in the file is kept.
\<close>

definition not_after :: "u32 option \<Rightarrow> u32 \<Rightarrow> bool" where
  "not_after l s = (case l of Some x \<Rightarrow> s \<le> x | None \<Rightarrow> False)"

primrec read_nodes :: "nat \<Rightarrow> u32 \<Rightarrow> u32 option \<Rightarrow> bytes \<Rightarrow> (int + ebitmap_node list) \<times> bytes" where
  "read_nodes 0 hb l fp = (Inr [], fp)"
| "read_nodes (Suc k) hb l fp =
     (case next_entry 4 fp of
        None \<Rightarrow> (Inl (- 1), fp)
      | Some (sb, fp) \<Rightarrow>
          let s = rd_le32 sb in
          if s AND 63 \<noteq> 0 then (Inl (- EINVAL), fp)
          else if unat s > unat hb - MAPSIZE then (Inl (- EINVAL), fp)
          else case next_entry 8 fp of
            None \<Rightarrow> (Inl (- 1), fp)
          | Some (mb, fp) \<Rightarrow>
              let m = rd_le64 mb in
              if m = 0 then (Inl (- EINVAL), fp)
              else if not_after l s then (Inl (- EINVAL), fp)
              else case read_nodes k hb (Some s) fp of
                (Inl e, fp) \<Rightarrow> (Inl e, fp)
              | (Inr ns, fp) \<Rightarrow> (Inr (\<lparr>startbit = s, mapw = m\<rparr> # ns), fp))"

definition ebitmap_read :: "bytes \<Rightarrow> ebitmap \<times> int \<times> bytes" where
  "ebitmap_read fp =
     (case next_entry 12 fp of
        None \<Rightarrow> (ebitmap_init, - 1, fp)
      | Some (buf, fp) \<Rightarrow>
          let ms = rd_le32 (take 4 buf); hb = rd_le32 (take 4 (drop 4 buf)); count = rd_le32 (drop 8 buf) in
          if unat ms \<noteq> MAPSIZE then (ebitmap_init, - EINVAL, fp)
          else if hb = 0 then (ebitmap_init, 0, fp)
          else if hb AND 63 \<noteq> 0 then (ebitmap_init, - EINVAL, fp)
          else if count = 0 then (ebitmap_init, - EINVAL, fp)
          else case read_nodes (unat count) hb None fp of
            (Inl e, fp) \<Rightarrow> (ebitmap_init, e, fp)
          | (Inr ns, fp) \<Rightarrow>
              if node_lo (last ns) + MAPSIZE \<noteq> unat hb then (ebitmap_init, - EINVAL, fp)
              else (\<lparr>enodes = ns, highbit = hb\<rparr>, 0, fp))"

definition ebitmap_write :: "ebitmap \<Rightarrow> bytes" where
  "ebitmap_write e =
     le32 64 @ le32 (highbit e) @ le32 (word_of_nat (length (enodes e))) @
     concat (map (\<lambda>n. le32 (startbit n) @ le64 (mapw n)) (enodes e))"


section \<open>The set a bitmap stands for\<close>

definition node_bits :: "ebitmap_node \<Rightarrow> nat set" where
  "node_bits n = {x. node_lo n \<le> x \<and> x < node_lo n + 64 \<and> bit (mapw n) (x - node_lo n)}"

definition nodes_set :: "ebitmap_node list \<Rightarrow> nat set" where
  "nodes_set ns = (\<Union>n \<in> set ns. node_bits n)"

definition ebits :: "ebitmap \<Rightarrow> nat set" where
  "ebits e = nodes_set (enodes e)"

text \<open>
  The invariant: nodes start at ascending multiples of 64, none is empty, and \<open>highbit\<close>
  is the end of the last one.
\<close>

fun nodes_ok :: "nat \<Rightarrow> ebitmap_node list \<Rightarrow> bool" where
  "nodes_ok k [] = True"
| "nodes_ok k (n # ns) \<longleftrightarrow> k \<le> node_lo n \<and> 64 dvd node_lo n \<and> mapw n \<noteq> 0 \<and>
     node_lo n + 64 < 4294967296 \<and> nodes_ok (node_lo n + 64) ns"

definition last_hi :: "ebitmap_node list \<Rightarrow> nat" where
  "last_hi ns = (if ns = [] then 0 else node_lo (last ns) + 64)"

definition ebitmap_ok :: "ebitmap \<Rightarrow> bool" where
  "ebitmap_ok e \<longleftrightarrow> nodes_ok 0 (enodes e) \<and> unat (highbit e) = last_hi (enodes e)"

lemma nodes_set_simps [simp]: "nodes_set [] = {}" "nodes_set (n # ns) = node_bits n \<union> nodes_set ns"
  by (simp_all add: nodes_set_def)

lemma nodes_ok_weaken: "nodes_ok k ns \<Longrightarrow> k' \<le> k \<Longrightarrow> nodes_ok k' ns"
  by (cases ns) auto

lemma nodes_ok_ge: "nodes_ok k ns \<Longrightarrow> x \<in> nodes_set ns \<Longrightarrow> k \<le> x"
  by (induction ns arbitrary: k) (fastforce simp: node_bits_def)+

lemma last_hi_ge: "nodes_ok k ns \<Longrightarrow> ns \<noteq> [] \<Longrightarrow> k + 64 \<le> last_hi ns"
proof (induction ns arbitrary: k)
  case (Cons n ns)
  show ?case
  proof (cases "ns = []")
    case False
    with Cons.prems Cons.IH [of "node_lo n + 64"] have "node_lo n + 64 + 64 \<le> last_hi ns" by simp
    with Cons.prems False show ?thesis by (simp add: last_hi_def)
  qed (use Cons.prems in \<open>simp add: last_hi_def\<close>)
qed simp

lemma nodes_set_less: "nodes_ok k ns \<Longrightarrow> x \<in> nodes_set ns \<Longrightarrow> x < last_hi ns"
proof (induction ns arbitrary: k)
  case (Cons n ns)
  show ?case
  proof (cases "ns = []")
    case True
    with Cons.prems show ?thesis by (auto simp: last_hi_def node_bits_def)
  next
    case False
    then have e: "last_hi (n # ns) = last_hi ns" by (simp add: last_hi_def)
    have "node_lo n + 64 + 64 \<le> last_hi ns"
      using last_hi_ge [of "node_lo n + 64" ns] Cons.prems(1) False by simp
    moreover have "x < node_lo n + 64" if "x \<in> node_bits n" using that by (simp add: node_bits_def)
    moreover have "x < last_hi ns" if "x \<in> nodes_set ns"
      using Cons.IH [of "node_lo n + 64"] Cons.prems(1) that by simp
    ultimately show ?thesis using Cons.prems(2) unfolding e by fastforce
  qed
qed simp

lemma finite_ebits: "ebitmap_ok e \<Longrightarrow> finite (ebits e)"
  using nodes_set_less [of 0 "enodes e"]
  by (auto simp: ebitmap_ok_def ebits_def intro!: finite_subset [of _ "{..<last_hi (enodes e)}"])

lemma map_bit_iff: "i < 64 \<Longrightarrow> map_bit m i \<longleftrightarrow> bit m i"
  unfolding map_bit_def MAPBIT_def bit_iff_and_push_bit_not_eq_0 ..

lemma unat_diff: "s \<le> b \<Longrightarrow> unat (b - s :: u32) = unat b - unat s"
  by (rule unat_sub)

lemma get_nodes_iff: "nodes_ok k ns \<Longrightarrow> get_nodes b ns \<longleftrightarrow> unat b \<in> nodes_set ns"
proof (induction ns arbitrary: k)
  case (Cons n ns)
  show ?case
  proof (cases "startbit n \<le> b")
    case True
    then have le: "node_lo n \<le> unat b" by (simp add: node_lo_def word_le_nat_alt)
    show ?thesis
    proof (cases "unat b < node_lo n + 64")
      case inside: True
      have "unat b \<notin> nodes_set ns" using nodes_ok_ge [of "node_lo n + 64" ns "unat b"] Cons.prems inside by auto
      moreover have "unat (b - startbit n) = unat b - node_lo n" using True by (simp add: unat_diff node_lo_def)
      moreover have "unat b - node_lo n < 64" using inside by simp
      ultimately show ?thesis using inside le True
        by (simp add: MAPSIZE_def map_bit_iff node_bits_def)
    next
      case False
      then show ?thesis using True Cons.IH [of "node_lo n + 64"] Cons.prems by (simp add: MAPSIZE_def node_bits_def)
    qed
  next
    case False
    then have lt: "unat b < node_lo n" by (simp add: node_lo_def word_le_nat_alt not_le)
    have "unat b \<notin> nodes_set ns" using nodes_ok_ge [of "node_lo n + 64" ns "unat b"] Cons.prems lt by auto
    with lt False show ?thesis by (simp add: node_bits_def)
  qed
qed simp

lemma ebitmap_get_bit_iff:
  assumes "ebitmap_ok e"
  shows "ebitmap_get_bit e b \<longleftrightarrow> unat b \<in> ebits e"
proof (cases "highbit e < b")
  case True
  then have "last_hi (enodes e) < unat b" using assms by (simp add: ebitmap_ok_def word_less_nat_alt)
  then have "unat b \<notin> ebits e"
    using assms nodes_set_less [of 0 "enodes e" "unat b"] by (auto simp: ebitmap_ok_def ebits_def)
  with True show ?thesis by (simp add: ebitmap_get_bit_def)
next
  case False
  then show ?thesis using assms get_nodes_iff [of 0 "enodes e" b]
    by (simp add: ebitmap_get_bit_def ebitmap_ok_def ebits_def)
qed

text \<open>The base of a bit.\<close>

definition ebase :: "u32 \<Rightarrow> nat" where
  "ebase b = unat b div 64 * 64"

lemma unat_base: "unat (b AND NOT 63 :: u32) = ebase b"
proof -
  have m: "(63 :: u32) = mask 6" by (simp add: mask_eq_exp_minus_1)
  have e: "b AND NOT (mask 6) = push_bit 6 (drop_bit 6 b)"
    by (rule bit_word_eqI) (auto simp: bit_simps)
  have "unat b div 64 * 64 < 4294967296"
    using unat_lt_u32 [of b] div_times_less_eq_dividend [of "unat b" 64] by linarith
  then show ?thesis
    unfolding m e by (simp add: ebase_def push_bit_eq_mult drop_bit_eq_div unat_word_ariths unat_div_distrib)
qed

lemma ebase_bounds: "ebase b \<le> unat b" "unat b < ebase b + 64" "64 dvd ebase b"
  using mod_less_divisor [of 64 "unat b"] div_mult_mod_eq [of "unat b" 64] unfolding ebase_def by auto

lemma ebase_unique:
  assumes "64 dvd s" and "s \<le> unat b" and "unat b < s + 64"
  shows "s = ebase b"
proof -
  obtain q where q: "s = 64 * q" using assms(1) by blast
  then have "unat b div 64 = q" using assms(2,3) by (intro div_nat_eqI) auto
  with q show ?thesis by (simp add: ebase_def)
qed


lemma bit_single: "k < 64 \<Longrightarrow> bit (MAPBIT k) i \<longleftrightarrow> i = k"
  unfolding MAPBIT_def by (auto simp: bit_simps)

lemma single_not_0: "k < 64 \<Longrightarrow> MAPBIT k \<noteq> 0"
  using bit_single [of k k] by auto

lemma node_bits_new:
  assumes "node_lo n = ebase b" and "mapw n = MAPBIT (unat b - ebase b)"
  shows "node_bits n = {unat b}"
  using assms ebase_bounds [of b] by (auto simp: node_bits_def bit_single)

lemma node_bits_insert:
  assumes "node_lo n \<le> unat b" and "unat b < node_lo n + 64"
  shows "node_bits (n\<lparr>mapw := mapw n OR MAPBIT (unat b - node_lo n)\<rparr>) = insert (unat b) (node_bits n)"
proof -
  have "unat b - node_lo n < 64" using assms by simp
  then show ?thesis using assms
    by (auto simp: node_bits_def node_lo_def bit_or_iff bit_single)
qed

lemma bit_not_single: "k < 64 \<Longrightarrow> bit (NOT (MAPBIT k)) i \<longleftrightarrow> i < 64 \<and> i \<noteq> k"
  using bit_single [of k i] by (auto simp: bit_not_iff)

lemma node_bits_remove:
  assumes "node_lo n \<le> unat b" and "unat b < node_lo n + 64"
  shows "node_bits (n\<lparr>mapw := mapw n AND NOT (MAPBIT (unat b - node_lo n))\<rparr>) = node_bits n - {unat b}"
proof -
  have "unat b - node_lo n < 64" using assms by simp
  then show ?thesis using assms
    by (auto simp: node_bits_def node_lo_def bit_and_iff bit_not_single)
qed

text \<open>What one walk of \<open>ebitmap_set_bit\<close> does to the nodes.\<close>

definition set_spec :: "nat \<Rightarrow> u32 \<Rightarrow> bool \<Rightarrow> ebitmap_node option \<Rightarrow> ebitmap_node list \<Rightarrow>
    ebitmap_node list \<times> u32 option \<Rightarrow> bool" where
  "set_spec k b v prev ns = (\<lambda>(r, h). nodes_ok k r \<and>
     nodes_set r = (if v then insert (unat b) (nodes_set ns) else nodes_set ns - {unat b}) \<and>
     (case h of None \<Rightarrow> last_hi r = last_hi ns
      | Some x \<Rightarrow> if r = [] then x = (case prev of Some p \<Rightarrow> startbit p + 64 | None \<Rightarrow> 0) else unat x = last_hi r))"

definition new_node :: "u32 \<Rightarrow> ebitmap_node" where
  "new_node b = \<lparr>startbit = b AND NOT 63, mapw = MAPBIT (unat (b - (b AND NOT 63)))\<rparr>"

lemma new_node_props:
  shows "node_lo (new_node b) = ebase b" "mapw (new_node b) \<noteq> 0" "node_bits (new_node b) = {unat b}"
proof -
  let ?s = "b AND NOT 63"
  have s: "unat ?s = ebase b" by (rule unat_base)
  then have "?s \<le> b" using ebase_bounds [of b] by (simp add: word_le_nat_alt)
  then have d: "unat (b - ?s) = unat b - ebase b" using s by (simp add: unat_diff)
  have k: "unat b - ebase b < 64" using ebase_bounds [of b] by arith
  show lo: "node_lo (new_node b) = ebase b" using s by (simp add: node_lo_def new_node_def)
  have m: "mapw (new_node b) = MAPBIT (unat b - ebase b)" using d by (simp add: new_node_def)
  show "mapw (new_node b) \<noteq> 0" using single_not_0 [OF k] m by simp
  show "node_bits (new_node b) = {unat b}" by (rule node_bits_new [OF lo m])
qed

lemma set_nodes_new:
  "set_nodes b v prev [] = (if v then ([new_node b], Some ((b AND NOT 63) + 64)) else ([], None))"
  by (simp add: new_node_def Let_def)

lemma set_nil:
  assumes "k \<le> ebase b" and "ebase b + 64 < 4294967296"
  shows "set_spec k b v prev [] (set_nodes b v prev [])"
proof -
  have "unat ((b AND NOT 63) + 64) = ebase b + 64"
    using assms(2) unat_base [of b] by (simp add: unat_word_ariths)
  then show ?thesis
    using assms ebase_bounds [of b] unfolding set_nodes_new
    by (auto simp: set_spec_def new_node_props last_hi_def)
qed

lemma set_before:
  assumes "nodes_ok k (n # ns)" and "k \<le> ebase b" and "\<not> startbit n \<le> b"
  shows "set_spec k b v prev (n # ns) (set_nodes b v prev (n # ns))"
proof -
  have lt: "unat b < node_lo n" using assms(3) by (simp add: node_lo_def word_le_nat_alt not_le)
  have notin: "unat b \<notin> nodes_set (n # ns)"
    using nodes_ok_ge [of "node_lo n" "n # ns" "unat b"] assms(1) lt by auto
  have "64 dvd node_lo n" "64 dvd ebase b" "ebase b < node_lo n"
    using assms(1) ebase_bounds [of b] lt by auto
  then have sep: "ebase b + 64 \<le> node_lo n" by (auto elim!: dvdE)
  have e: "set_nodes b v prev (n # ns) = (if v then (new_node b # n # ns, None) else (n # ns, None))"
    using assms(3) by (simp add: new_node_def Let_def)
  show ?thesis
    using assms(1,2) notin sep ebase_bounds [of b] unfolding e
    by (auto simp: set_spec_def new_node_props last_hi_def)
qed

lemma set_inside:
  assumes ok: "nodes_ok k (n # ns)" and le: "startbit n \<le> b" and lt: "unat b < node_lo n + 64"
  shows "set_spec k b v prev (n # ns) (set_nodes b v prev (n # ns))"
proof -
  have lo: "node_lo n \<le> unat b" using le by (simp add: node_lo_def word_le_nat_alt)
  have d: "unat (b - startbit n) = unat b - node_lo n" using le by (simp add: unat_diff node_lo_def)
  have ns: "nodes_ok (node_lo n + 64) ns" "nodes_ok k ns"
    using ok nodes_ok_weaken [of "node_lo n + 64" ns k] by auto
  have notin: "unat b \<notin> nodes_set ns" using nodes_ok_ge [OF ns(1), of "unat b"] lt by auto
  define m1 where "m1 = mapw n OR MAPBIT (unat b - node_lo n)"
  define m0 where "m0 = mapw n AND NOT (MAPBIT (unat b - node_lo n))"
  have b1: "node_bits (n\<lparr>mapw := m1\<rparr>) = insert (unat b) (node_bits n)"
    unfolding m1_def by (rule node_bits_insert [OF lo lt])
  have b0: "node_bits (n\<lparr>mapw := m0\<rparr>) = node_bits n - {unat b}"
    unfolding m0_def by (rule node_bits_remove [OF lo lt])
  have z: "node_bits (n\<lparr>mapw := 0\<rparr>) = {}" by (simp add: node_bits_def)
  have m1: "m1 \<noteq> 0" using b1 z by (metis insert_not_empty)
  have up: "node_lo (n\<lparr>mapw := m\<rparr>) = node_lo n" for m by (simp add: node_lo_def)
  show ?thesis
  proof (cases v)
    case True
    then have e: "set_nodes b v prev (n # ns) = (n\<lparr>mapw := m1\<rparr> # ns, None)"
      using le lt d by (simp add: MAPSIZE_def m1_def Let_def)
    show ?thesis using ok m1 b1 True unfolding e by (simp add: set_spec_def up last_hi_def)
  next
    case False
    show ?thesis
    proof (cases "m0 = 0")
      case True
      then have e: "set_nodes b v prev (n # ns) =
          (ns, if ns = [] then Some (case prev of Some p \<Rightarrow> startbit p + 64 | None \<Rightarrow> 0) else None)"
        using le lt d False unfolding m0_def by (simp add: MAPSIZE_def Let_def)
      have "node_bits n - {unat b} = {}" using b0 True z by simp
      then have "nodes_set ns = nodes_set (n # ns) - {unat b}" using notin by auto
      with False ns show ?thesis unfolding e by (simp add: set_spec_def last_hi_def)
    next
      case m0: False
      then have e: "set_nodes b v prev (n # ns) = (n\<lparr>mapw := m0\<rparr> # ns, None)"
        using le lt d False unfolding m0_def by (simp add: MAPSIZE_def Let_def)
      show ?thesis using ok m0 b0 False notin unfolding e by (auto simp: set_spec_def up last_hi_def)
    qed
  qed
qed

lemma set_later:
  assumes ok: "nodes_ok k (n # ns)" and le: "startbit n \<le> b" and ge: "node_lo n + 64 \<le> unat b"
    and IH: "set_spec (node_lo n + 64) b v (Some n) ns (set_nodes b v (Some n) ns)"
  shows "set_spec k b v prev (n # ns) (set_nodes b v prev (n # ns))"
proof -
  obtain r h where rec: "set_nodes b v (Some n) ns = (r, h)" by (cases "set_nodes b v (Some n) ns")
  have e: "set_nodes b v prev (n # ns) = (n # r, h)"
    using le ge rec by (simp add: MAPSIZE_def Let_def)
  have nb: "unat b \<notin> node_bits n" using ge by (auto simp: node_bits_def)
  have up: "unat (startbit n + 64) = node_lo n + 64"
    using ok by (simp add: node_lo_def unat_word_ariths)
  have r: "nodes_ok (node_lo n + 64) r"
    "nodes_set r = (if v then insert (unat b) (nodes_set ns) else nodes_set ns - {unat b})"
    using IH unfolding rec set_spec_def by auto
  have hi: "last_hi (n # x) = (if x = [] then node_lo n + 64 else last_hi x)" for x
    by (simp add: last_hi_def)
  have h: "case h of None \<Rightarrow> last_hi (n # r) = last_hi (n # ns) | Some x \<Rightarrow> unat x = last_hi (n # r)"
  proof (cases h)
    case None
    then have "last_hi r = last_hi ns" using IH unfolding rec set_spec_def by simp
    moreover from this have "r = [] \<longleftrightarrow> ns = []" by (simp add: last_hi_def split: if_splits)
    ultimately show ?thesis using None by (simp add: hi)
  next
    case (Some x)
    then show ?thesis using IH up unfolding rec set_spec_def by (simp add: hi split: if_splits)
  qed
  have "nodes_set (n # r) = (if v then insert (unat b) (nodes_set (n # ns)) else nodes_set (n # ns) - {unat b})"
    using r(2) nb by auto
  with r(1) ok h show ?thesis unfolding e set_spec_def by (auto split: option.splits)
qed

lemma set_nodes_correct:
  assumes "nodes_ok k ns" and "k \<le> ebase b" and "ebase b + 64 < 4294967296"
  shows "set_spec k b v prev ns (set_nodes b v prev ns)"
  using assms
proof (induction ns arbitrary: k prev)
  case Nil
  then show ?case by (intro set_nil) auto
next
  case (Cons n ns)
  show ?case
  proof (cases "startbit n \<le> b \<and> node_lo n + 64 \<le> unat b")
    case True
    have "node_lo n + 64 \<le> ebase b"
    proof (rule ccontr)
      assume "\<not> node_lo n + 64 \<le> ebase b"
      then have "ebase b < node_lo n + 64" by simp
      moreover have "64 dvd node_lo n + 64" "64 dvd ebase b" using Cons.prems(1) ebase_bounds by auto
      ultimately have "ebase b + 64 \<le> node_lo n + 64" by (auto elim!: dvdE)
      with True ebase_bounds [of b] show False by simp
    qed
    then have "set_spec (node_lo n + 64) b v (Some n) ns (set_nodes b v (Some n) ns)"
      using Cons.prems by (intro Cons.IH) auto
    with True Cons.prems(1) show ?thesis by (intro set_later) auto
  next
    case False
    then show ?thesis
      using set_inside [OF Cons.prems(1)] set_before [OF Cons.prems(1,2)] by (meson not_le)
  qed
qed

lemma ebitmap_set_bit_correct:
  assumes ok: "ebitmap_ok e" and r: "unat b < 4294967232"
  obtains e' where "ebitmap_set_bit e b v = (e', 0)" and "ebitmap_ok e'"
    and "ebits e' = (if v then insert (unat b) (ebits e) else ebits e - {unat b})"
proof -
  have "64 * (unat b div 64) \<le> 64 * 67108862" using r by (intro mult_le_mono2) auto
  then have base: "ebase b + 64 < 4294967296" by (simp add: ebase_def)
  have "unat ((b AND NOT 63) + 64) = ebase b + 64"
    using base unat_base [of b] by (simp add: unat_word_ariths)
  then have nz: "(b AND NOT 63) + 64 \<noteq> 0" by (metis add_is_0 unat_0 zero_neq_numeral)
  obtain ns h where sn: "set_nodes b v None (enodes e) = (ns, h)" by (cases "set_nodes b v None (enodes e)")
  have sp: "set_spec 0 b v None (enodes e) (ns, h)"
    using set_nodes_correct [of 0 "enodes e" b v None] ok base unfolding sn by (simp add: ebitmap_ok_def)
  let ?e = "\<lparr>enodes = ns, highbit = (case h of Some x \<Rightarrow> x | None \<Rightarrow> highbit e)\<rparr>"
  have "ebitmap_set_bit e b v = (?e, 0)" using nz by (simp add: ebitmap_set_bit_def sn)
  moreover have "ebitmap_ok ?e"
    using sp ok by (auto simp: set_spec_def ebitmap_ok_def last_hi_def split: option.splits if_splits)
  moreover have "ebits ?e = (if v then insert (unat b) (ebits e) else ebits e - {unat b})"
    using sp by (simp add: set_spec_def ebits_def)
  ultimately show thesis by (rule that)
qed

lemma ebitmap_set_bit_overflow:
  assumes "4294967232 \<le> unat b"
  shows "ebitmap_set_bit e b v = (e, - EINVAL)"
proof -
  have "ebase b = 4294967232"
    using ebase_unique [of 4294967232 b] assms unat_lt_u32 [of b] by simp
  then have "unat ((b AND NOT 63) + 64) = 0" using unat_base [of b] by (simp add: unat_word_ariths)
  then have "(b AND NOT 63) + 64 = 0" by (simp only: unat_eq_zero)
  then show ?thesis by (simp add: ebitmap_set_bit_def)
qed

end
