(* ===== verification/Sepol_Ebitmap_Ops.thy ===== *)
theory Sepol_Ebitmap_Ops
  imports Sepol_Ebitmap
begin

text \<open>
  The set operations of ebitmap.c and its file format over the invariant of
  \<open>Sepol_Ebitmap\<close>: the derived operations rest on the interface \<open>bit_store\<close>, the
  merging walks on the order of the nodes.
\<close>

section \<open>A store of bits\<close>

text \<open>
  What the derived operations rely on: a store holds a set of numbers below a limit, with
  one operation to read a number's bit and one to write it.
\<close>

locale bit_store =
  fixes inv :: "'e \<Rightarrow> bool"
    and empty :: 'e
    and get :: "'e \<Rightarrow> nat \<Rightarrow> bool"
    and put :: "nat \<Rightarrow> bool \<Rightarrow> 'e \<Rightarrow> 'e \<times> int"
    and elems :: "'e \<Rightarrow> nat set"
    and limit :: nat
  assumes inv_empty: "inv empty" and elems_empty: "elems empty = {}"
    and get_elems: "inv e \<Longrightarrow> i < 4294967296 \<Longrightarrow> get e i \<longleftrightarrow> i \<in> elems e"
    and put_elems: "inv e \<Longrightarrow> i < limit \<Longrightarrow>
      \<exists>e'. put i v e = (e', 0) \<and> inv e' \<and> elems e' = (if v then insert i (elems e) else elems e - {i})"
begin

lemma loop_put:
  assumes "inv e" and "\<forall>i\<in>set is. i < limit" and "distinct is"
  shows "\<exists>e'. bit_loop (\<lambda>i. put i (f i)) is e = (e', 0) \<and> inv e' \<and>
    elems e' = (elems e - {i \<in> set is. \<not> f i}) \<union> {i \<in> set is. f i}"
  using assms
proof (induction "is" arbitrary: e)
  case (Cons i "is")
  obtain e1 where e1: "put i (f i) e = (e1, 0)" "inv e1"
    "elems e1 = (if f i then insert i (elems e) else elems e - {i})"
    using put_elems [of e i "f i"] Cons.prems by auto
  then obtain e2 where "bit_loop (\<lambda>i. put i (f i)) is e1 = (e2, 0)" "inv e2"
    "elems e2 = (elems e1 - {i \<in> set is. \<not> f i}) \<union> {i \<in> set is. f i}"
    using Cons.IH [of e1] Cons.prems by auto
  with e1 Cons.prems(3) show ?case by (intro exI [of _ e2]) auto
qed simp

lemma loop_put_empty:
  assumes "n \<le> limit"
  shows "\<exists>e'. bit_loop (\<lambda>i. put i (f i)) [0..<n] empty = (e', 0) \<and> inv e' \<and> elems e' = {i. i < n \<and> f i}"
proof -
  have "\<forall>i\<in>set [0..<n]. i < limit" using assms by simp
  from loop_put [OF inv_empty this distinct_upt, of f] show ?thesis by (auto simp: elems_empty)
qed

lemma loop_set:
  assumes "inv e" and "\<forall>i\<in>set is. i < limit"
  shows "\<exists>e'. bit_loop (\<lambda>i d. if f i then put i True d else (d, 0)) is e = (e', 0) \<and> inv e' \<and>
    elems e' = elems e \<union> {i \<in> set is. f i}"
  using assms
proof (induction "is" arbitrary: e)
  case (Cons i "is")
  obtain e1 where e1: "(if f i then put i True e else (e, 0)) = (e1, 0)" "inv e1"
    "elems e1 = (if f i then insert i (elems e) else elems e)"
    using put_elems [of e i True] Cons.prems by (cases "f i") auto
  then obtain e2 where "bit_loop (\<lambda>i d. if f i then put i True d else (d, 0)) is e1 = (e2, 0)" "inv e2"
    "elems e2 = elems e1 \<union> {i \<in> set is. f i}"
    using Cons.IH [of e1] Cons.prems by auto
  with e1 show ?case by (intro exI [of _ e2]) auto
qed simp

lemma loop_set_empty:
  assumes "n \<le> limit"
  shows "\<exists>e'. bit_loop (\<lambda>i d. if f i then put i True d else (d, 0)) [0..<n] empty = (e', 0) \<and> inv e' \<and>
    elems e' = {i. i < n \<and> f i}"
  using loop_set [OF inv_empty, of "[0..<n]" f] assms by (auto simp: elems_empty)

end

lemma unat_word_of_nat_u32: "i < 4294967296 \<Longrightarrow> unat (word_of_nat i :: u32) = i"
  by (simp add: unat_of_nat)

interpretation ebm: bit_store ebitmap_ok ebitmap_init eget
  "\<lambda>i v e. ebitmap_set_bit e (word_of_nat i) v" ebits 4294967232
proof
  show "ebitmap_ok ebitmap_init" "ebits ebitmap_init = {}"
    by (simp_all add: ebitmap_ok_def ebitmap_init_def ebits_def last_hi_def)
  show "ebitmap_ok e \<Longrightarrow> i < 4294967296 \<Longrightarrow> eget e i \<longleftrightarrow> i \<in> ebits e" for e i
    by (simp add: eget_def ebitmap_get_bit_iff unat_word_of_nat_u32)
  fix e :: ebitmap and i :: nat and v
  assume A: "ebitmap_ok e" and B: "i < 4294967232"
  then have u: "unat (word_of_nat i :: u32) = i" by (simp add: unat_word_of_nat_u32)
  show "\<exists>e'. ebitmap_set_bit e (word_of_nat i) v = (e', 0) \<and> ebitmap_ok e' \<and>
      ebits e' = (if v then insert i (ebits e) else ebits e - {i})"
  proof -
    have r: "unat (word_of_nat i :: u32) < 4294967232" unfolding u by (rule B)
    show ?thesis by (rule ebitmap_set_bit_correct [OF A r, of v, unfolded u]) blast
  qed
qed

lemma last_hi_le: "nodes_ok k ns \<Longrightarrow> last_hi ns \<le> 4294967232 \<and> 64 dvd last_hi ns"
proof (induction ns arbitrary: k)
  case (Cons n ns)
  show ?case
  proof (cases "ns = []")
    case True
    moreover have "64 dvd (4294967296 :: nat)" by simp
    ultimately show ?thesis using Cons.prems by (auto simp: last_hi_def elim!: dvdE)
  next
    case False
    then have "last_hi (n # ns) = last_hi ns" by (simp add: last_hi_def)
    then show ?thesis using Cons.IH [of "node_lo n + 64"] Cons.prems by simp
  qed
qed (simp add: last_hi_def)

lemma ebitmap_length_le: "ebitmap_ok e \<Longrightarrow> ebitmap_length e \<le> 4294967232"
  using last_hi_le [of 0 "enodes e"] by (simp add: ebitmap_ok_def ebitmap_length_def)

lemma ebits_less: "ebitmap_ok e \<Longrightarrow> x \<in> ebits e \<Longrightarrow> x < ebitmap_length e"
  using nodes_set_less [of 0 "enodes e" x] by (simp add: ebitmap_ok_def ebitmap_length_def ebits_def)

lemma eget_iff: "ebitmap_ok e \<Longrightarrow> i \<le> 4294967232 \<Longrightarrow> eget e i \<longleftrightarrow> i \<in> ebits e"
  using ebm.get_elems [of e i] by simp

lemma eget_mem: "ebitmap_ok e \<Longrightarrow> i \<in> ebits e \<Longrightarrow> eget e i"
  using eget_iff [of e i] ebits_less [of e i] ebitmap_length_le [of e] by simp

lemma eget_other: "ebitmap_ok e \<Longrightarrow> ebitmap_ok e' \<Longrightarrow> i \<in> ebits e' \<Longrightarrow> eget e i \<longleftrightarrow> i \<in> ebits e"
  using eget_iff [of e i] ebits_less [of e' i] ebitmap_length_le [of e'] by simp

section \<open>The derived operations\<close>

lemma ebitmap_and_correct:
  assumes "ebitmap_ok e1" and "ebitmap_ok e2"
  obtains d where "ebitmap_and e1 e2 = (d, 0)" and "ebitmap_ok d" and "ebits d = ebits e1 \<inter> ebits e2"
proof -
  let ?n = "min (ebitmap_length e1) (ebitmap_length e2)"
  have n: "?n \<le> 4294967232" using ebitmap_length_le [OF assms(1)] by simp
  obtain d where d: "ebitmap_and e1 e2 = (d, 0)" "ebitmap_ok d" "ebits d = {i. i < ?n \<and> eget e1 i \<and> eget e2 i}"
    using ebm.loop_set_empty [OF n, of "\<lambda>i. eget e1 i \<and> eget e2 i"] unfolding ebitmap_and_def by auto
  moreover have "{i. i < ?n \<and> eget e1 i \<and> eget e2 i} = ebits e1 \<inter> ebits e2"
    using eget_iff [OF assms(1)] eget_iff [OF assms(2)] ebits_less [OF assms(1)] ebits_less [OF assms(2)] n
      eget_mem [OF assms(1)] eget_mem [OF assms(2)] by auto
  ultimately show thesis by (intro that [of d]) auto
qed

lemma ebitmap_xor_correct:
  assumes "ebitmap_ok e1" and "ebitmap_ok e2"
  obtains d where "ebitmap_xor e1 e2 = (d, 0)" and "ebitmap_ok d"
    and "ebits d = (ebits e1 - ebits e2) \<union> (ebits e2 - ebits e1)"
proof -
  let ?n = "max (ebitmap_length e1) (ebitmap_length e2)"
  have n: "?n \<le> 4294967232" using ebitmap_length_le assms by simp
  obtain d where d: "ebitmap_xor e1 e2 = (d, 0)" "ebitmap_ok d" "ebits d = {i. i < ?n \<and> eget e1 i \<noteq> eget e2 i}"
    using ebm.loop_put_empty [OF n, of "\<lambda>i. eget e1 i \<noteq> eget e2 i"] unfolding ebitmap_xor_def by auto
  moreover have "{i. i < ?n \<and> eget e1 i \<noteq> eget e2 i} = (ebits e1 - ebits e2) \<union> (ebits e2 - ebits e1)"
    using eget_iff [OF assms(1)] eget_iff [OF assms(2)] ebits_less [OF assms(1)] ebits_less [OF assms(2)] n
      eget_mem [OF assms(1)] eget_mem [OF assms(2)]
      eget_other [OF assms] eget_other [OF assms(2,1)] by (auto simp: less_max_iff_disj)
  ultimately show thesis by (intro that [of d]) auto
qed

lemma ebitmap_not_correct:
  assumes "ebitmap_ok e" and "unat maxbit \<le> 4294967232"
  obtains d where "ebitmap_not e maxbit = (d, 0)" and "ebitmap_ok d" and "ebits d = {i. i < unat maxbit} - ebits e"
proof -
  obtain d where d: "ebitmap_not e maxbit = (d, 0)" "ebitmap_ok d" "ebits d = {i. i < unat maxbit \<and> \<not> eget e i}"
    using ebm.loop_put_empty [OF assms(2), of "\<lambda>i. \<not> eget e i"] unfolding ebitmap_not_def by auto
  moreover have "{i. i < unat maxbit \<and> \<not> eget e i} = {i. i < unat maxbit} - ebits e"
    using eget_iff [OF assms(1)] assms(2) by auto
  ultimately show thesis by (intro that [of d]) auto
qed

lemma ebitmap_andnot_correct:
  assumes "ebitmap_ok e1" and "ebitmap_ok e2" and "unat maxbit \<le> 4294967232"
  obtains d where "ebitmap_andnot e1 e2 maxbit = (d, 0)" and "ebitmap_ok d"
    and "ebits d = {i \<in> ebits e1. i < unat maxbit} - ebits e2"
proof -
  obtain e3 where e3: "ebitmap_not e2 maxbit = (e3, 0)" "ebitmap_ok e3" "ebits e3 = {i. i < unat maxbit} - ebits e2"
    using ebitmap_not_correct [OF assms(2,3)] by blast
  obtain d where "ebitmap_and e1 e3 = (d, 0)" "ebitmap_ok d" "ebits d = ebits e1 \<inter> ebits e3"
    using ebitmap_and_correct [OF assms(1) e3(2)] by blast
  with e3 show thesis by (intro that [of d]) (auto simp: ebitmap_andnot_def)
qed

lemma fold_count:
  "fold (\<lambda>i count. if P i then count + 1 else count) xs (n :: u32) = n + of_nat (length (filter P xs))"
  by (induction xs arbitrary: n) simp_all

lemma ebitmap_cardinality_correct:
  assumes "ebitmap_ok e"
  shows "unat (ebitmap_cardinality e) = card (ebits e)"
proof -
  have lo: "ebitmap_startbit e \<le> x" if "x \<in> ebits e" for x
  proof (cases "enodes e")
    case (Cons n ns)
    then show ?thesis
      using assms that nodes_ok_ge [of "node_lo n" "enodes e" x]
      by (auto simp: ebitmap_ok_def ebitmap_startbit_def ebits_def)
  qed (simp add: ebitmap_startbit_def)
  have "set (filter (eget e) [ebitmap_startbit e..<ebitmap_length e]) = ebits e"
    using lo ebits_less [OF assms] eget_iff [OF assms] ebitmap_length_le [OF assms] eget_mem [OF assms] by auto
  then have n: "length (filter (eget e) [ebitmap_startbit e..<ebitmap_length e]) = card (ebits e)"
    by (metis distinct_card distinct_filter distinct_upt)
  have "length (filter (eget e) [ebitmap_startbit e..<ebitmap_length e]) \<le> ebitmap_length e"
    by (rule order_trans [OF length_filter_le]) simp
  also have "\<dots> < 2 ^ 32" using unsigned_less [of "highbit e"] by (simp add: ebitmap_length_def)
  finally show ?thesis by (simp add: ebitmap_cardinality_def fold_count n unat_of_nat)
qed

text \<open>Merging two node lists.\<close>

lemma node_bits_or:
  "startbit a = startbit b \<Longrightarrow> node_bits \<lparr>startbit = startbit a, mapw = mapw a OR mapw b\<rparr> = node_bits a \<union> node_bits b"
  by (auto simp: node_bits_def node_lo_def bit_or_iff)

lemma node_lo_less_iff: "startbit a < startbit b \<longleftrightarrow> node_lo a < node_lo b"
  and node_lo_eq_iff: "startbit a = startbit b \<longleftrightarrow> node_lo a = node_lo b"
  by (simp_all add: node_lo_def word_less_nat_alt word_unat_eq_iff)

lemma node_gap: "64 dvd node_lo a \<Longrightarrow> 64 dvd node_lo b \<Longrightarrow> node_lo a < node_lo b \<Longrightarrow> node_lo a + 64 \<le> node_lo b"
  by (auto elim!: dvdE)

lemma or_not_0: "(x :: u64) \<noteq> 0 \<Longrightarrow> x OR y \<noteq> 0"
  by (metis bit_0_eq bit_eq_iff bit_or_iff bot_apply bot_bool_def)

lemma or_nodes_correct:
  "nodes_ok k a \<Longrightarrow> nodes_ok k b \<Longrightarrow>
   nodes_ok k (or_nodes a b) \<and> nodes_set (or_nodes a b) = nodes_set a \<union> nodes_set b"
proof (induction a b arbitrary: k rule: or_nodes.induct)
  case (4 n1 r1 n2 r2)
  show ?case
  proof (cases "startbit n1 = startbit n2")
    case True
    then show ?thesis
      using 4 node_bits_or [OF True] or_not_0 [of "mapw n1" "mapw n2"]
      by (auto simp: node_lo_eq_iff) (auto simp: node_lo_def)
  next
    case False
    then show ?thesis
      using 4 node_gap [of n1 n2] node_gap [of n2 n1] by (auto simp: node_lo_less_iff node_lo_eq_iff)
  qed
qed auto


lemma last_hi_Cons: "nodes_ok (node_lo n + 64) ns \<Longrightarrow> last_hi (n # ns) = max (node_lo n + 64) (last_hi ns)"
  using last_hi_ge [of "node_lo n + 64" ns] by (cases "ns = []") (auto simp: last_hi_def)

lemma or_nodes_Nil [simp]: "or_nodes a [] = a" "or_nodes [] b = b"
  by (induction a) (auto, induction b, auto)

lemma or_nodes_hi:
  "nodes_ok k a \<Longrightarrow> nodes_ok k b \<Longrightarrow> last_hi (or_nodes a b) = max (last_hi a) (last_hi b)"
proof (induction a b arbitrary: k rule: or_nodes.induct)
  case (4 n1 r1 n2 r2)
  have ok: "nodes_ok (node_lo n1 + 64) r1" "nodes_ok (node_lo n2 + 64) r2" using 4 by auto
  show ?case
  proof (cases "startbit n1 = startbit n2")
    case True
    then have lo: "node_lo n1 = node_lo n2" by (simp add: node_lo_eq_iff)
    let ?n = "\<lparr>startbit = startbit n1, mapw = mapw n1 OR mapw n2\<rparr>"
    have "node_lo ?n = node_lo n1" by (simp add: node_lo_def)
    moreover have "nodes_ok (node_lo n1 + 64) (or_nodes r1 r2)"
      using or_nodes_correct [OF ok(1), of r2] ok lo by simp
    moreover have "last_hi (or_nodes r1 r2) = max (last_hi r1) (last_hi r2)"
      using 4(1) [OF True ok(1)] ok(2) lo by simp
    ultimately show ?thesis
      using True lo ok by (simp add: last_hi_Cons)
  next
    case False
    show ?thesis
    proof (cases "startbit n1 < startbit n2")
      case True
      then have b: "nodes_ok (node_lo n1 + 64) (n2 # r2)"
        using node_gap [of n1 n2] 4 by (auto simp: node_lo_less_iff)
      then show ?thesis
        using True False 4(2) [OF False True ok(1) b] or_nodes_correct [OF ok(1) b] ok by (simp add: last_hi_Cons)
    next
      case nless: False
      then have b: "nodes_ok (node_lo n2 + 64) (n1 # r1)"
        using node_gap [of n2 n1] 4 False by (auto simp: node_lo_less_iff node_lo_eq_iff)
      then show ?thesis
        using nless False 4(3) [OF False nless b ok(2)] or_nodes_correct [OF b ok(2)] ok by (simp add: last_hi_Cons)
    qed
  qed
qed (simp_all add: last_hi_def)

lemma ebitmap_or_correct:
  assumes "ebitmap_ok e1" and "ebitmap_ok e2"
  obtains d where "ebitmap_or e1 e2 = (d, 0)" and "ebitmap_ok d" and "ebits d = ebits e1 \<union> ebits e2"
proof -
  have "unat (if highbit e1 > highbit e2 then highbit e1 else highbit e2) = max (unat (highbit e1)) (unat (highbit e2))"
    by (simp add: word_less_nat_alt)
  note h = this or_nodes_correct [of 0 "enodes e1" "enodes e2"] or_nodes_hi [of 0 "enodes e1" "enodes e2"]
  show thesis
  proof (rule that)
    show "ebitmap_or e1 e2 = (fst (ebitmap_or e1 e2), 0)" by (simp add: ebitmap_or_def)
    show "ebitmap_ok (fst (ebitmap_or e1 e2))" "ebits (fst (ebitmap_or e1 e2)) = ebits e1 \<union> ebits e2"
      using h assms by (simp_all add: ebitmap_or_def ebitmap_ok_def ebits_def)
  qed
qed

text \<open>Comparing node lists.\<close>

lemma node_bits_ne: "mapw n \<noteq> 0 \<Longrightarrow> \<exists>x. x \<in> node_bits n"
proof -
  assume "mapw n \<noteq> 0"
  then obtain i where i: "bit (mapw n) i" by (metis bit_0_eq bit_eq_iff bot_apply bot_bool_def)
  then have "i < 64" using bit_imp_le_length by fastforce
  with i have "node_lo n + i \<in> node_bits n" by (simp add: node_bits_def)
  then show ?thesis ..
qed

lemma node_bits_range: "x \<in> node_bits n \<Longrightarrow> node_lo n \<le> x \<and> x < node_lo n + 64"
  by (simp add: node_bits_def)

lemma node_subset:
  assumes "node_lo a = node_lo b"
  shows "node_bits b \<subseteq> node_bits a \<longleftrightarrow> mapw a AND mapw b = mapw b"
proof
  assume s: "node_bits b \<subseteq> node_bits a"
  show "mapw a AND mapw b = mapw b"
  proof (rule bit_word_eqI)
    fix i assume i: "i < LENGTH(64)"
    have "bit (mapw b) i \<Longrightarrow> node_lo b + i \<in> node_bits a" using i s by (intro subsetD [OF s]) (simp add: node_bits_def)
    then have "bit (mapw b) i \<Longrightarrow> bit (mapw a) i" using assms by (simp add: node_bits_def)
    then show "bit (mapw a AND mapw b) i = bit (mapw b) i" by (auto simp: bit_and_iff)
  qed
next
  assume m: "mapw a AND mapw b = mapw b"
  have "bit (mapw b) i \<Longrightarrow> bit (mapw a) i" for i
  proof -
    assume "bit (mapw b) i"
    then have "bit (mapw a AND mapw b) i" by (simp add: m)
    then show ?thesis by (simp add: bit_and_iff)
  qed
  then show "node_bits b \<subseteq> node_bits a" using assms by (auto simp: node_bits_def)
qed

text \<open>The elements of a list whose later nodes start above a node.\<close>

lemma tail_above:
  "nodes_ok (node_lo n + 64) ns \<Longrightarrow> x \<in> nodes_set ns \<Longrightarrow> node_lo n + 64 \<le> x"
  by (rule nodes_ok_ge)

lemma contains_nil_step: "nodes_ok k ns \<Longrightarrow> nodes_set ns = {} \<Longrightarrow> ns = []"
  using node_bits_ne by (cases ns) fastforce+

lemma contains_nodes_iff:
  "nodes_ok k a \<Longrightarrow> nodes_ok k b \<Longrightarrow> contains_nodes a b \<longleftrightarrow> nodes_set b \<subseteq> nodes_set a"
proof (induction a b arbitrary: k rule: contains_nodes.induct)
  case (1 n1 r1 n2 r2)
  have ok: "nodes_ok (node_lo n1 + 64) r1" "nodes_ok (node_lo n2 + 64) r2" using 1 by auto
  obtain y where y: "y \<in> node_bits n2" using node_bits_ne [of n2] 1 by auto
  note yr = node_bits_range [OF y]
  show ?case
  proof (cases "startbit n1 \<le> startbit n2")
    case False
    then have "node_lo n2 + 64 \<le> node_lo n1"
      using node_gap [of n2 n1] 1 by (auto simp: node_lo_less_iff not_le)
    then have "y \<notin> nodes_set (n1 # r1)"
      using yr tail_above [OF ok(1), of y] node_bits_range [of y n1] by auto
    then show ?thesis using False y by auto
  next
    case le: True
    show ?thesis
    proof (cases "startbit n1 < startbit n2")
      case True
      then have gap: "node_lo n1 + 64 \<le> node_lo n2"
        using node_gap [of n1 n2] 1 by (auto simp: node_lo_less_iff)
      then have b: "nodes_ok (node_lo n1 + 64) (n2 # r2)" using 1 by auto
      have "x \<notin> node_bits n1" if "x \<in> nodes_set (n2 # r2)" for x
        using nodes_ok_ge [OF b that] node_bits_range [of x n1] by auto
      then show ?thesis using le True 1(1) [OF le True ok(1) b] by auto
    next
      case False
      then have eq: "node_lo n1 = node_lo n2" using le by (simp add: node_lo_def word_le_nat_alt word_less_nat_alt)
      have sep: "x \<notin> node_bits n2" "x \<notin> node_bits n1" if "x \<in> nodes_set r1 \<or> x \<in> nodes_set r2" for x
        using that tail_above [OF ok(1), of x] tail_above [OF ok(2), of x] node_bits_range [of x n1] node_bits_range [of x n2] eq
        by auto
      have sub: "nodes_set (n2 # r2) \<subseteq> nodes_set (n1 # r1) \<longleftrightarrow> node_bits n2 \<subseteq> node_bits n1 \<and> nodes_set r2 \<subseteq> nodes_set r1"
        using sep by auto
      show ?thesis
      proof (cases "mapw n1 AND mapw n2 = mapw n2")
        case True
        then show ?thesis
          using le False 1(2) [OF le False _ ok(1)] ok(2) eq node_subset [OF eq] sub by simp
      next
        case neq: False
        then show ?thesis using le False node_subset [OF eq] sub by simp
      qed
    qed
  qed
qed (auto dest: contains_nil_step)

text \<open>The last node has an element, so the ends of bitmaps compare as the sets do.\<close>

lemma last_elem:
  "nodes_ok k ns \<Longrightarrow> ns \<noteq> [] \<Longrightarrow> \<exists>x \<in> nodes_set ns. last_hi ns \<le> x + 64"
proof (induction ns arbitrary: k)
  case (Cons n ns)
  show ?case
  proof (cases "ns = []")
    case True
    obtain x where "x \<in> node_bits n" using node_bits_ne [of n] Cons.prems by auto
    with True node_bits_range [of x n] show ?thesis by (auto simp: last_hi_def)
  next
    case False
    then obtain x where "x \<in> nodes_set ns" "last_hi ns \<le> x + 64"
      using Cons.IH [of "node_lo n + 64"] Cons.prems(1) by auto
    with False show ?thesis by (auto simp: last_hi_def)
  qed
qed simp

lemma ebitmap_contains_correct:
  assumes "ebitmap_ok e1" and "ebitmap_ok e2"
  shows "ebitmap_contains e1 e2 \<longleftrightarrow> ebits e2 \<subseteq> ebits e1"
proof (cases "highbit e1 < highbit e2")
  case True
  then have lt: "last_hi (enodes e1) < last_hi (enodes e2)"
    using assms by (simp add: ebitmap_ok_def word_less_nat_alt)
  have d: "64 dvd last_hi (enodes e1)" "64 dvd last_hi (enodes e2)"
    using last_hi_le assms by (auto simp: ebitmap_ok_def)
  have "enodes e2 \<noteq> []" using lt by (auto simp: last_hi_def)
  then obtain x where x: "x \<in> nodes_set (enodes e2)" "last_hi (enodes e2) \<le> x + 64"
    using last_elem [of 0 "enodes e2"] assms(2) by (auto simp: ebitmap_ok_def)
  have "last_hi (enodes e1) + 64 \<le> last_hi (enodes e2)" using lt d by (auto elim!: dvdE)
  then have "x \<notin> nodes_set (enodes e1)"
    using x(2) nodes_set_less [of 0 "enodes e1" x] assms(1) by (auto simp: ebitmap_ok_def)
  with True x show ?thesis by (auto simp: ebitmap_contains_def ebits_def)
next
  case False
  then show ?thesis
    using assms contains_nodes_iff [of 0 "enodes e1" "enodes e2"]
    by (simp add: ebitmap_contains_def ebitmap_ok_def ebits_def)
qed

lemma node_disjoint:
  assumes "node_lo a = node_lo b"
  shows "node_bits a \<inter> node_bits b = {} \<longleftrightarrow> mapw a AND mapw b = 0"
proof
  assume d: "node_bits a \<inter> node_bits b = {}"
  show "mapw a AND mapw b = 0"
  proof (rule bit_word_eqI)
    fix i assume i: "i < LENGTH(64)"
    have "node_lo a + i \<in> node_bits a \<inter> node_bits b" if "bit (mapw a) i" "bit (mapw b) i"
      using that i assms by (simp add: node_bits_def)
    then show "bit (mapw a AND mapw b) i = bit 0 i" using d by (auto simp: bit_and_iff)
  qed
next
  assume "mapw a AND mapw b = 0"
  then have "\<not> (bit (mapw a) i \<and> bit (mapw b) i)" for i by (metis bit_0_eq bit_and_iff bot_apply bot_bool_def)
  then show "node_bits a \<inter> node_bits b = {}" using assms by (auto simp: node_bits_def)
qed

lemma match_nodes_iff:
  "nodes_ok k a \<Longrightarrow> nodes_ok k b \<Longrightarrow> match_nodes a b \<longleftrightarrow> nodes_set a \<inter> nodes_set b \<noteq> {}"
proof (induction a b arbitrary: k rule: match_nodes.induct)
  case (1 n1 r1 n2 r2)
  have ok: "nodes_ok (node_lo n1 + 64) r1" "nodes_ok (node_lo n2 + 64) r2" using 1 by auto
  show ?case
  proof (cases "startbit n1 < startbit n2")
    case True
    then have b: "nodes_ok (node_lo n1 + 64) (n2 # r2)"
      using node_gap [of n1 n2] 1 by (auto simp: node_lo_less_iff)
    have "node_bits n1 \<inter> nodes_set (n2 # r2) = {}"
      using tail_above [OF b] node_bits_range [of _ n1] by fastforce
    with True 1(1) [OF True ok(1) b] show ?thesis by auto
  next
    case n1: False
    show ?thesis
    proof (cases "startbit n2 < startbit n1")
      case True
      then have b: "nodes_ok (node_lo n2 + 64) (n1 # r1)"
        using node_gap [of n2 n1] 1 by (auto simp: node_lo_less_iff)
      have "node_bits n2 \<inter> nodes_set (n1 # r1) = {}"
        using tail_above [OF b] node_bits_range [of _ n2] by fastforce
      with n1 True 1(2) [OF n1 True b ok(2)] show ?thesis by auto
    next
      case False
      then have eq: "node_lo n1 = node_lo n2" using n1 by (simp add: node_lo_def word_less_nat_alt)
      have "node_bits n1 \<inter> nodes_set r2 = {}" "nodes_set r1 \<inter> node_bits n2 = {}"
        using tail_above [OF ok(2)] tail_above [OF ok(1)] node_bits_range [of _ n1] node_bits_range [of _ n2] eq
        by fastforce+
      then have s: "nodes_set (n1 # r1) \<inter> nodes_set (n2 # r2) \<noteq> {} \<longleftrightarrow>
          node_bits n1 \<inter> node_bits n2 \<noteq> {} \<or> nodes_set r1 \<inter> nodes_set r2 \<noteq> {}" by auto
      show ?thesis
      proof (cases "mapw n1 AND mapw n2 = 0")
        case True
        then show ?thesis
          using n1 False 1(3) [OF n1 False _ ok(1)] ok(2) eq node_disjoint [OF eq] s by simp
      next
        case neq: False
        then show ?thesis using n1 False node_disjoint [OF eq] s by simp
      qed
    qed
  qed
qed auto

lemma ebitmap_match_any_correct:
  "ebitmap_ok e1 \<Longrightarrow> ebitmap_ok e2 \<Longrightarrow> ebitmap_match_any e1 e2 \<longleftrightarrow> ebits e1 \<inter> ebits e2 \<noteq> {}"
  using match_nodes_iff [of 0 "enodes e1" "enodes e2"]
  by (simp add: ebitmap_match_any_def ebitmap_ok_def ebits_def)

lemma node_eqI: "startbit a = startbit b \<Longrightarrow> mapw a = mapw b \<Longrightarrow> a = (b :: ebitmap_node)"
  by (cases a, cases b) simp

lemma cmp_nodes_eq: "cmp_nodes a b \<longleftrightarrow> a = b"
  by (induction a b rule: cmp_nodes.induct) (auto intro: node_eqI)

lemma cpy_nodes_eq: "cpy_nodes a = a"
  by (induction a) auto

lemma ebitmap_cpy_eq: "ebitmap_cpy e = (e, 0)"
  by (simp add: ebitmap_cpy_def cpy_nodes_eq)

text \<open>A set has one representation.\<close>

lemma nodes_unique:
  "nodes_ok k a \<Longrightarrow> nodes_ok k b \<Longrightarrow> nodes_set a = nodes_set b \<Longrightarrow> a = b"
proof (induction a arbitrary: b k)
  case Nil
  then show ?case using node_bits_ne by (cases b) fastforce+
next
  case (Cons n1 r1)
  obtain n2 r2 where b: "b = n2 # r2"
    using Cons.prems node_bits_ne [of n1] by (cases b) auto
  have ok: "nodes_ok (node_lo n1 + 64) r1" "nodes_ok (node_lo n2 + 64) r2" using Cons.prems b by auto
  obtain x y where x: "x \<in> node_bits n1" and y: "y \<in> node_bits n2"
    using node_bits_ne [of n1] node_bits_ne [of n2] Cons.prems b by auto
  note r = node_bits_range [OF x] node_bits_range [OF y]
  have "node_lo n2 \<le> x" "node_lo n1 \<le> y"
    using nodes_ok_ge [of "node_lo n2" b x] nodes_ok_ge [of "node_lo n1" "n1 # r1" y] Cons.prems b x y by auto
  then have eq: "node_lo n1 = node_lo n2"
    using r node_gap [of n1 n2] node_gap [of n2 n1] Cons.prems b by (cases "node_lo n1" "node_lo n2" rule: linorder_cases) auto
  have s1: "z \<in> node_bits n1 \<longleftrightarrow> z \<in> nodes_set (n1 # r1) \<and> z < node_lo n1 + 64" for z
    using tail_above [OF ok(1), of z] node_bits_range [of z n1] by auto
  have s2: "z \<in> node_bits n2 \<longleftrightarrow> z \<in> nodes_set (n2 # r2) \<and> z < node_lo n2 + 64" for z
    using tail_above [OF ok(2), of z] node_bits_range [of z n2] by auto
  have bits: "node_bits n1 = node_bits n2" using s1 s2 eq Cons.prems(3) b by auto
  then have "mapw n1 AND mapw n2 = mapw n2" "mapw n2 AND mapw n1 = mapw n1"
    using node_subset [OF eq] node_subset [OF eq [symmetric]] by auto
  then have "mapw n1 = mapw n2" by (metis and.commute)
  then have n: "n1 = n2" using eq by (intro node_eqI) (simp_all add: node_lo_eq_iff)
  have "nodes_set r1 = nodes_set r2"
    using Cons.prems(3) b n tail_above [OF ok(1)] tail_above [OF ok(2)] node_bits_range [of _ n1] by fastforce
  then show ?case using Cons.IH [OF ok(1), of r2] ok(2) b n by simp
qed

lemma ebitmap_cmp_correct:
  assumes "ebitmap_ok e1" and "ebitmap_ok e2"
  shows "ebitmap_cmp e1 e2 \<longleftrightarrow> ebits e1 = ebits e2"
proof
  show "ebitmap_cmp e1 e2 \<Longrightarrow> ebits e1 = ebits e2"
    by (simp add: ebitmap_cmp_def cmp_nodes_eq ebits_def split: if_splits)
  assume "ebits e1 = ebits e2"
  then have "enodes e1 = enodes e2"
    using nodes_unique [of 0 "enodes e1" "enodes e2"] assms by (simp add: ebitmap_ok_def ebits_def)
  then show "ebitmap_cmp e1 e2"
    using assms by (simp add: ebitmap_cmp_def cmp_nodes_eq ebitmap_ok_def word_unat_eq_iff)
qed

lemma ebitmap_differ_bound:
  assumes "ebitmap_ok e1" and "ebitmap_ok e2"
  shows "card ((ebits e1 - ebits e2) \<union> (ebits e2 - ebits e1)) < 4294967296"
proof -
  obtain d where d: "ebitmap_ok d" "ebits d = (ebits e1 - ebits e2) \<union> (ebits e2 - ebits e1)"
    using ebitmap_xor_correct [OF assms] by blast
  show ?thesis
    using ebitmap_cardinality_correct [OF d(1)] d(2)
      unsigned_less [of "ebitmap_cardinality d", where ?'a = nat] by simp
qed

lemma to_int32_cases:
  "0 \<le> z \<Longrightarrow> z < 4294967296 \<Longrightarrow> to_int32 z = (if z < 2147483648 then z else z - 4294967296)"
  using mod_pos_pos_trivial [of "z - 2147483648" 4294967296] mod_add_self2 [of "z - 2147483648" 4294967296]
  by (auto simp: to_int32_def add.commute [of z])

lemma ebitmap_hamming_correct:
  assumes "ebitmap_ok e1" and "ebitmap_ok e2"
  shows "ebitmap_hamming_distance e1 e2 = to_int32 (int (card ((ebits e1 - ebits e2) \<union> (ebits e2 - ebits e1))))"
proof (cases "ebitmap_cmp e1 e2")
  case True
  then show ?thesis using ebitmap_cmp_correct [OF assms] by (simp add: ebitmap_hamming_distance_def to_int32_id)
next
  case False
  obtain d where d: "ebitmap_xor e1 e2 = (d, 0)" "ebitmap_ok d"
    "ebits d = (ebits e1 - ebits e2) \<union> (ebits e2 - ebits e1)"
    using ebitmap_xor_correct [OF assms] by blast
  have "uint (ebitmap_cardinality d) = int (card (ebits d))"
    using ebitmap_cardinality_correct [OF d(2)] by (metis uint_nat)
  with False d show ?thesis by (simp add: ebitmap_hamming_distance_def)
qed


section \<open>The file format\<close>

lemma next_entry_app [simp]: "length x = n \<Longrightarrow> next_entry n (x @ r) = Some (x, r)"
  by (simp add: next_entry_def)

lemma and_63: "(s :: u32) AND 63 = 0 \<longleftrightarrow> 64 dvd unat s"
proof -
  have m: "(63 :: u32) = mask 6" by (simp add: mask_eq_exp_minus_1)
  have "unat (s AND mask 6) = unat s mod 64"
    by (simp add: take_bit_eq_mask [symmetric] take_bit_eq_mod unat_mod_distrib)
  then show ?thesis
    unfolding m dvd_eq_mod_eq_0 by (metis unat_0 unat_eq_zero)
qed

text \<open>Whatever is read is well formed.\<close>

lemma read_nodes_ok:
  assumes "read_nodes k hb l fp = (Inr ns, fp')" and "64 \<le> unat hb"
    and "case l of None \<Rightarrow> True | Some x \<Rightarrow> 64 dvd unat x"
  shows "length ns = k \<and> nodes_ok (case l of None \<Rightarrow> 0 | Some x \<Rightarrow> unat x + 64) ns"
  using assms
proof (induction k arbitrary: l fp ns fp')
  case (Suc k)
  obtain sb fp1 where sb: "next_entry 4 fp = Some (sb, fp1)"
    using Suc.prems(1) by (cases "next_entry 4 fp") auto
  define s where "s = rd_le32 sb"
  have s: "s AND 63 = 0" "unat s \<le> unat hb - MAPSIZE"
    using Suc.prems(1) sb by (auto simp: s_def [symmetric] Let_def split: if_splits)
  obtain mb fp2 where mb: "next_entry 8 fp1 = Some (mb, fp2)"
    using Suc.prems(1) sb s by (cases "next_entry 8 fp1") (auto simp: s_def [symmetric] Let_def)
  define m where "m = rd_le64 mb"
  have m: "m \<noteq> 0" "\<not> not_after l s"
    using Suc.prems(1) sb s mb by (auto simp: s_def [symmetric] m_def [symmetric] Let_def split: if_splits)
  obtain r where r: "read_nodes k hb (Some s) fp2 = (Inr r, fp')" "ns = \<lparr>startbit = s, mapw = m\<rparr> # r"
    using Suc.prems(1) sb s mb m
    by (auto simp: s_def [symmetric] m_def [symmetric] Let_def split: sum.splits prod.splits)
  have d: "64 dvd unat s" using s(1) by (simp add: and_63)
  have IH: "length r = k \<and> nodes_ok (unat s + 64) r" using Suc.IH [OF r(1) Suc.prems(2)] d by simp
  have up: "unat s + 64 < 4294967296"
    using s(2) Suc.prems(2) unat_lt_u32 [of hb] by (simp add: MAPSIZE_def)
  have lo: "(case l of None \<Rightarrow> 0 | Some x \<Rightarrow> unat x + 64) \<le> unat s"
    using m(2) Suc.prems(3) d by (auto simp: not_after_def word_le_nat_alt not_le elim!: dvdE split: option.splits)
  show ?case using r(2) IH m(1) d up lo by (simp add: node_lo_def)
qed simp

lemma ebitmap_read_ok:
  assumes "ebitmap_read fp = (e, rc, fp')"
  shows "ebitmap_ok e \<and> (rc < 0 \<longrightarrow> e = ebitmap_init) \<and> rc \<le> 0"
proof -
  have i: "ebitmap_ok ebitmap_init" by (rule ebm.inv_empty)
  show ?thesis
  proof (cases "next_entry 12 fp")
    case None
    then show ?thesis using assms i by (simp add: ebitmap_read_def)
  next
    case (Some p)
    obtain buf fp1 where p: "next_entry 12 fp = Some (buf, fp1)" using Some by (cases p) auto
    define ms hb count where "ms = rd_le32 (take 4 buf)" and "hb = rd_le32 (take 4 (drop 4 buf))"
      and "count = rd_le32 (drop 8 buf)"
    note D = ms_def [symmetric] hb_def [symmetric] count_def [symmetric]
    consider (short) "unat ms \<noteq> MAPSIZE \<or> hb = 0 \<or> hb AND 63 \<noteq> 0 \<or> count = 0"
      | (nodes) "unat ms = MAPSIZE" "hb \<noteq> 0" "hb AND 63 = 0" "count \<noteq> 0" by blast
    then show ?thesis
    proof cases
      case short
      then show ?thesis
        using assms i by (auto simp: ebitmap_read_def p D Let_def EINVAL_def split: if_splits sum.splits prod.splits)
    next
      case nodes
      have h: "64 \<le> unat hb"
        using nodes(2,3) by (simp add: and_63) (metis dvd_imp_le unat_gt_0)
      obtain res fp2 where rn: "read_nodes (unat count) hb None fp1 = (res, fp2)"
        by (cases "read_nodes (unat count) hb None fp1")
      show ?thesis
      proof (cases res)
        case (Inl err)
        have neg: "read_nodes k hb l f = (Inl err, f') \<Longrightarrow> err < 0" for k l f f'
          by (induction k arbitrary: l f)
            (auto simp: Let_def EINVAL_def split: option.splits if_splits sum.splits prod.splits)
        then show ?thesis
          using assms i nodes rn Inl neg [OF rn [unfolded Inl]] by (auto simp: ebitmap_read_def p D Let_def)
      next
        case (Inr ns)
        have ok: "length ns = unat count" "nodes_ok 0 ns"
          using read_nodes_ok [OF rn [unfolded Inr] h] by auto
        then have "ns \<noteq> []" using nodes(4) by (auto simp: unat_eq_0)
        then show ?thesis
          using assms i nodes rn Inr ok
          by (auto simp: ebitmap_read_def p D Let_def ebitmap_ok_def last_hi_def MAPSIZE_def EINVAL_def split: if_splits)
      qed
    qed
  qed
qed

lemma nodes_length: "nodes_ok k ns \<Longrightarrow> k + 64 * length ns \<le> max k (last_hi ns)"
proof (induction ns arbitrary: k)
  case (Cons n ns)
  have "node_lo n + 64 + 64 * length ns \<le> max (node_lo n + 64) (last_hi ns)"
    using Cons.IH [of "node_lo n + 64"] Cons.prems by simp
  moreover have "last_hi (n # ns) = max (node_lo n + 64) (last_hi ns)"
    using Cons.prems by (intro last_hi_Cons) simp
  ultimately show ?case using Cons.prems by simp
qed simp

text \<open>What is written is read back.\<close>

lemma read_nodes_write:
  assumes "nodes_ok (case l of None \<Rightarrow> 0 | Some x \<Rightarrow> unat x + 64) ns" and "last_hi ns \<le> unat hb"
  shows "read_nodes (length ns) hb l (concat (map (\<lambda>n. le32 (startbit n) @ le64 (mapw n)) ns) @ rest) = (Inr ns, rest)"
  using assms
proof (induction ns arbitrary: l)
  case (Cons n ns)
  have ok: "nodes_ok (node_lo n + 64) ns" using Cons.prems(1) by simp
  have hi: "node_lo n + 64 \<le> unat hb" "last_hi ns \<le> unat hb"
    using Cons.prems(2) last_hi_Cons [OF ok] by simp_all
  have IH: "read_nodes (length ns) hb (Some (startbit n))
      (concat (map (\<lambda>n. le32 (startbit n) @ le64 (mapw n)) ns) @ rest) = (Inr ns, rest)"
    using Cons.IH [of "Some (startbit n)"] ok hi(2) by (simp add: node_lo_def)
  have "startbit n AND 63 = 0" using Cons.prems(1) by (simp add: and_63 node_lo_def)
  moreover have "\<not> not_after l (startbit n)"
    using Cons.prems(1) by (auto simp: not_after_def node_lo_def word_le_nat_alt split: option.splits)
  moreover have "\<not> unat hb - MAPSIZE < unat (startbit n)" using hi(1) by (simp add: node_lo_def MAPSIZE_def)
  ultimately show ?case
    using IH Cons.prems(1) by (simp add: Let_def le32.dec_enc le64.dec_enc)
qed simp

lemma ebitmap_read_write:
  assumes ok: "ebitmap_ok e"
  shows "ebitmap_read (ebitmap_write e @ rest) = (e, 0, rest)"
proof -
  let ?ns = "enodes e" and ?B = "concat (map (\<lambda>n. le32 (startbit n) @ le64 (mapw n)) (enodes e))"
  let ?buf = "le32 64 @ le32 (highbit e) @ le32 (word_of_nat (length ?ns))"
  have hd: "next_entry 12 (ebitmap_write e @ rest) = Some (?buf, ?B @ rest)"
    using next_entry_app [of ?buf 12 "?B @ rest"] by (simp add: ebitmap_write_def)
  have n: "nodes_ok 0 ?ns" "unat (highbit e) = last_hi ?ns" using ok by (simp_all add: ebitmap_ok_def)
  have "length ?ns < 4294967296" using nodes_length [OF n(1)] last_hi_le [OF n(1)] by simp
  then have len: "unat (word_of_nat (length ?ns) :: u32) = length ?ns" by (rule unat_word_of_nat_u32)
  show ?thesis
  proof (cases "?ns = []")
    case True
    then have "highbit e = 0" using n(2) by (simp add: last_hi_def unat_eq_0)
    moreover from this True have "e = ebitmap_init" by (cases e) (simp add: ebitmap_init_def)
    ultimately show ?thesis
      unfolding ebitmap_read_def hd using True by (simp add: Let_def le32.dec_enc MAPSIZE_def)
  next
    case False
    have "highbit e AND 63 = 0" using n last_hi_le [OF n(1)] by (simp add: and_63)
    moreover have "highbit e \<noteq> 0" using n(2) False by (auto simp: last_hi_def)
    moreover have "(word_of_nat (length ?ns) :: u32) \<noteq> 0" using len False by (metis length_0_conv unat_0)
    moreover have "read_nodes (length ?ns) (highbit e) None (?B @ rest) = (Inr ?ns, rest)"
      using read_nodes_write [of None ?ns "highbit e" rest] n by simp
    moreover have "node_lo (last ?ns) + MAPSIZE = unat (highbit e)"
      using n(2) False by (simp add: last_hi_def MAPSIZE_def)
    ultimately show ?thesis
      unfolding ebitmap_read_def hd using len by (simp add: Let_def le32.dec_enc MAPSIZE_def)
  qed
qed

end
