(* ===== verification/Bxxt_Strcmp.thy ===== *)
theory Bxxt_Strcmp
  imports Bxxt_Prelude
begin

text \<open>
  The order of C strings: \<open>strcmp\<close>, and C strings as a type that it orders linearly, so
  that the sorting functions of the library apply to them.
\<close>

section \<open>Comparison\<close>

fun strcmp :: "bytes \<Rightarrow> bytes \<Rightarrow> int" where
  "strcmp [] [] = 0"
| "strcmp [] (b # _) = - uint b"
| "strcmp (a # _) [] = uint a"
| "strcmp (a # as) (b # bs) = (if a \<noteq> b \<or> a = 0 then uint a - uint b else strcmp as bs)"

definition sym_ok :: "bytes \<Rightarrow> bool" where
  "sym_ok s \<longleftrightarrow> 0 \<notin> set s"

lemma uint_eq_u8 [simp]: "uint a = uint b \<longleftrightarrow> a = (b :: u8)" "uint a = 0 \<longleftrightarrow> a = (0 :: u8)"
  by (simp_all only: word_uint_eq_iff [symmetric] uint_0_iff)

lemma strcmp_eq: "sym_ok a \<Longrightarrow> sym_ok b \<Longrightarrow> strcmp a b = 0 \<longleftrightarrow> a = b"
  by (induction a b rule: strcmp.induct) (auto simp: sym_ok_def)

lemma strcmp_neg: "strcmp b a = - strcmp a b"
  by (induction a b rule: strcmp.induct) auto

lemma strcmp_nil [simp]: "\<not> 0 < strcmp [] c"
  using uint_ge_0 [of "hd c"] by (cases c) auto

lemma strcmp_trans: "sym_ok a \<Longrightarrow> sym_ok b \<Longrightarrow> sym_ok c \<Longrightarrow> 0 < strcmp a b \<Longrightarrow> 0 < strcmp b c \<Longrightarrow> 0 < strcmp a c"
proof (induction a b arbitrary: c rule: strcmp.induct)
  case (4 x xs y ys)
  then show ?case
  proof (cases c)
    case (Cons z zs)
    then show ?thesis using 4 by (auto simp: sym_ok_def split: if_splits)
  qed (use uint_ge_0 [of x] in \<open>auto simp: sym_ok_def less_le\<close>)
qed (auto simp: sym_ok_def)

section \<open>Comparison functions\<close>

text \<open>
  What sorted chains and sorted arrays need from a comparison in the manner of C. Its two
  users are the order of C strings below and the chains of the symbol tables.
\<close>

locale key_order =
  fixes cmp :: "'k \<Rightarrow> 'k \<Rightarrow> int"
    and key_ok :: "'k \<Rightarrow> bool"
  assumes cmp_eq: "key_ok a \<Longrightarrow> key_ok b \<Longrightarrow> cmp a b = 0 \<longleftrightarrow> a = b"
    and cmp_flip: "key_ok a \<Longrightarrow> key_ok b \<Longrightarrow> 0 < cmp a b \<longleftrightarrow> cmp b a < 0"
    and cmp_trans: "key_ok a \<Longrightarrow> key_ok b \<Longrightarrow> key_ok c \<Longrightarrow> 0 < cmp a b \<Longrightarrow> 0 < cmp b c \<Longrightarrow> 0 < cmp a c"
begin

lemma cmp_self: "key_ok k \<Longrightarrow> cmp k k = 0"
  by (simp add: cmp_eq)

lemma cmp_linear: "key_ok a \<Longrightarrow> key_ok b \<Longrightarrow> cmp a b \<le> 0 \<or> cmp b a \<le> 0"
  using cmp_flip [of a b] by linarith

lemma cmp_antisym: "key_ok a \<Longrightarrow> key_ok b \<Longrightarrow> cmp a b \<le> 0 \<Longrightarrow> cmp b a \<le> 0 \<Longrightarrow> a = b"
  using cmp_flip [of b a] cmp_eq [of a b] by linarith

lemma cmp_le_trans:
  assumes "key_ok a" and "key_ok b" and "key_ok c" and "cmp a b \<le> 0" and "cmp b c \<le> 0"
  shows "cmp a c \<le> 0"
proof (cases "cmp a b = 0 \<or> cmp b c = 0")
  case True
  then show ?thesis using assms cmp_eq by metis
next
  case False
  then have "0 < cmp c b" "0 < cmp b a" using assms cmp_flip [of b a] cmp_flip [of c b] by linarith+
  then have "0 < cmp c a" by (rule cmp_trans [OF assms(3,2,1)])
  then show ?thesis using cmp_flip [of c a] assms(1,3) by linarith
qed

end

interpretation c_str: key_order strcmp sym_ok
proof
  fix a b c :: bytes
  show "sym_ok a \<Longrightarrow> sym_ok b \<Longrightarrow> strcmp a b = 0 \<longleftrightarrow> a = b" by (rule strcmp_eq)
  show "0 < strcmp a b \<longleftrightarrow> strcmp b a < 0" using strcmp_neg [of a b] by simp
  show "sym_ok a \<Longrightarrow> sym_ok b \<Longrightarrow> sym_ok c \<Longrightarrow> 0 < strcmp a b \<Longrightarrow> 0 < strcmp b c \<Longrightarrow> 0 < strcmp a c" by (rule strcmp_trans)
qed

section \<open>The type of C strings\<close>

typedef c_string = "{s :: bytes. sym_ok s}"
  by (rule exI [of _ "[]"]) (simp add: sym_ok_def)

setup_lifting type_definition_c_string

instantiation c_string :: linorder
begin

lift_definition less_eq_c_string :: "c_string \<Rightarrow> c_string \<Rightarrow> bool" is "\<lambda>a b. strcmp a b \<le> 0" .

lift_definition less_c_string :: "c_string \<Rightarrow> c_string \<Rightarrow> bool" is "\<lambda>a b. strcmp a b < 0" .

instance
proof
  fix x y z :: c_string
  show "x < y \<longleftrightarrow> x \<le> y \<and> \<not> y \<le> x" by transfer (use c_str.cmp_flip in \<open>metis not_le order_less_imp_le\<close>)
  show "x \<le> x" by transfer (simp add: c_str.cmp_self)
  show "x \<le> y \<Longrightarrow> y \<le> x \<Longrightarrow> x = y" by transfer (rule c_str.cmp_antisym)
  show "x \<le> y \<or> y \<le> x" by transfer (rule c_str.cmp_linear)
  show "x \<le> y \<Longrightarrow> y \<le> z \<Longrightarrow> x \<le> z" by transfer (rule c_str.cmp_le_trans)
qed

end

end
