(* ===== verification/Sepol_Hashtab.thy ===== *)
theory Sepol_Hashtab
  imports Bxxt_Strcmp
begin

text \<open>
  The hash table and the symbol table of libsepol (hashtab.c, symtab.c), through which the
  policy finds its types and classes by name. Over the interface \<open>hash_scheme\<close> - what the
  table needs from its hash and comparison functions - every operation is proved to be
  that of a finite map; \<open>symhash\<close> and \<open>symcmp\<close> are shown to provide it.
\<close>

section \<open>The table\<close>

text \<open>
  A table's slots hold chains of nodes; the hash and comparison functions are those given
  to \<open>hashtab_create\<close>. The hash function reads the table's size only. \<open>hashtab_t\<close> is a
  pointer, so every operation takes an option. Allocation succeeds.
\<close>

record ('k, 'd) hashtab =
  htable :: "('k \<times> 'd) list list"
  hsize :: u32
  nel :: u32
  hash_value :: "u32 \<Rightarrow> 'k \<Rightarrow> u32"
  keycmp :: "'k \<Rightarrow> 'k \<Rightarrow> int"

definition SEPOL_OK :: int where "SEPOL_OK = 0"
definition SEPOL_ENOENT :: int where "SEPOL_ENOENT = - 2"
definition SEPOL_ENOMEM :: int where "SEPOL_ENOMEM = - 12"
definition SEPOL_EEXIST :: int where "SEPOL_EEXIST = - 17"

definition hashtab_create :: "(u32 \<Rightarrow> 'k \<Rightarrow> u32) \<Rightarrow> ('k \<Rightarrow> 'k \<Rightarrow> int) \<Rightarrow> u32 \<Rightarrow> ('k, 'd) hashtab option" where
  "hashtab_create hv cmp n =
     Some \<lparr>htable = replicate (unat n) [], hsize = n, nel = 0, hash_value = hv, keycmp = cmp\<rparr>"

text \<open>The slot of a key: \<open>hvalue\<close> is an \<open>int\<close>, and the array has \<open>size\<close> elements.\<close>

definition hvalue :: "('k, 'd) hashtab \<Rightarrow> 'k \<Rightarrow> int" where
  "hvalue t key = to_int32 (uint (hash_value t (hsize t) key))"

definition hslot :: "('k, 'd) hashtab \<Rightarrow> int \<Rightarrow> ('k \<times> 'd) list res" where
  "hslot t i = (if 0 \<le> i \<and> nat i < length (htable t) then Inr (htable t ! nat i) else Inl Oob_Read)"

definition set_slot :: "('k, 'd) hashtab \<Rightarrow> int \<Rightarrow> ('k \<times> 'd) list \<Rightarrow> ('k, 'd) hashtab" where
  "set_slot t i c = t\<lparr>htable := (htable t)[nat i := c]\<rparr>"

text \<open>The loop of all operations: the nodes passed, and the chain from the node it stops at.\<close>

fun chain_seek :: "('k \<Rightarrow> int) \<Rightarrow> ('k \<times> 'd) list \<Rightarrow> ('k \<times> 'd) list \<times> ('k \<times> 'd) list" where
  "chain_seek cmp [] = ([], [])"
| "chain_seek cmp (n # ns) =
     (if cmp (fst n) > 0 then let (a, b) = chain_seek cmp ns in (n # a, b) else ([], n # ns))"

definition chain_hit :: "('k \<Rightarrow> int) \<Rightarrow> ('k \<times> 'd) list \<Rightarrow> bool" where
  "chain_hit cmp rest = (case rest of [] \<Rightarrow> False | c # _ \<Rightarrow> cmp (fst c) = 0)"

definition hashtab_insert ::
  "('k, 'd) hashtab option \<Rightarrow> 'k \<Rightarrow> 'd \<Rightarrow> (('k, 'd) hashtab option \<times> int) res" where
  "hashtab_insert h key datum =
     (case h of None \<Rightarrow> Inr (None, SEPOL_ENOMEM)
      | Some t \<Rightarrow>
          res_bind (hslot t (hvalue t key)) (\<lambda>chain.
            let (prev, cur) = chain_seek (keycmp t key) chain in
            if chain_hit (keycmp t key) cur then Inr (Some t, SEPOL_EEXIST)
            else Inr (Some ((set_slot t (hvalue t key) (prev @ (key, datum) # cur))\<lparr>nel := nel t + 1\<rparr>), SEPOL_OK)))"

definition run_destroy :: "('k \<Rightarrow> 'd \<Rightarrow> 's \<Rightarrow> 's) option \<Rightarrow> 'k \<times> 'd \<Rightarrow> 's \<Rightarrow> 's" where
  "run_destroy destroy n args = (case destroy of None \<Rightarrow> args | Some f \<Rightarrow> f (fst n) (snd n) args)"

definition hashtab_remove ::
  "('k, 'd) hashtab option \<Rightarrow> 'k \<Rightarrow> ('k \<Rightarrow> 'd \<Rightarrow> 's \<Rightarrow> 's) option \<Rightarrow> 's
    \<Rightarrow> (('k, 'd) hashtab option \<times> 's \<times> int) res" where
  "hashtab_remove h key destroy args =
     (case h of None \<Rightarrow> Inr (None, args, SEPOL_ENOENT)
      | Some t \<Rightarrow>
          res_bind (hslot t (hvalue t key)) (\<lambda>chain.
            let (last, cur) = chain_seek (keycmp t key) chain in
            if \<not> chain_hit (keycmp t key) cur then Inr (Some t, args, SEPOL_ENOENT)
            else Inr (Some ((set_slot t (hvalue t key) (last @ tl cur))\<lparr>nel := nel t - 1\<rparr>),
                      run_destroy destroy (hd cur) args, SEPOL_OK)))"

definition hashtab_replace ::
  "('k, 'd) hashtab option \<Rightarrow> 'k \<Rightarrow> 'd \<Rightarrow> ('k \<Rightarrow> 'd \<Rightarrow> 's \<Rightarrow> 's) option \<Rightarrow> 's
    \<Rightarrow> (('k, 'd) hashtab option \<times> 's \<times> int) res" where
  "hashtab_replace h key datum destroy args =
     (case h of None \<Rightarrow> Inr (None, args, SEPOL_ENOMEM)
      | Some t \<Rightarrow>
          res_bind (hslot t (hvalue t key)) (\<lambda>chain.
            let (prev, cur) = chain_seek (keycmp t key) chain in
            if chain_hit (keycmp t key) cur
            then Inr (Some (set_slot t (hvalue t key) (prev @ (key, datum) # tl cur)),
                      run_destroy destroy (hd cur) args, SEPOL_OK)
            else Inr (Some (set_slot t (hvalue t key) (prev @ (key, datum) # cur)), args, SEPOL_OK)))"

definition hashtab_search :: "('k, 'd) hashtab option \<Rightarrow> 'k \<Rightarrow> 'd option res" where
  "hashtab_search h key =
     (case h of None \<Rightarrow> Inr None
      | Some t \<Rightarrow>
          res_bind (hslot t (hvalue t key)) (\<lambda>chain.
            let (_, cur) = chain_seek (keycmp t key) chain in
            if chain_hit (keycmp t key) cur then Inr (Some (snd (hd cur))) else Inr None))"

text \<open>\<open>hashtab_destroy\<close> releases every node; the result is the nodes in the order of the calls of \<open>free\<close>.\<close>

definition hashtab_destroy :: "('k, 'd) hashtab option \<Rightarrow> ('k \<times> 'd) list" where
  "hashtab_destroy h = (case h of None \<Rightarrow> [] | Some t \<Rightarrow> concat (htable t))"

text \<open>The two nested loops of \<open>hashtab_map\<close>; \<open>apply\<close> works on the state behind \<open>args\<close>.\<close>

fun map_chain :: "('k \<Rightarrow> 'd \<Rightarrow> 's \<Rightarrow> 's \<times> int) \<Rightarrow> ('k \<times> 'd) list \<Rightarrow> 's \<Rightarrow> 's \<times> int" where
  "map_chain f [] s = (s, SEPOL_OK)"
| "map_chain f (n # ns) s =
     (let (s', ret) = f (fst n) (snd n) s in if ret \<noteq> 0 then (s', ret) else map_chain f ns s')"

fun map_slots :: "('k \<Rightarrow> 'd \<Rightarrow> 's \<Rightarrow> 's \<times> int) \<Rightarrow> ('k \<times> 'd) list list \<Rightarrow> 's \<Rightarrow> 's \<times> int" where
  "map_slots f [] s = (s, SEPOL_OK)"
| "map_slots f (c # cs) s =
     (let (s', ret) = map_chain f c s in if ret \<noteq> 0 then (s', ret) else map_slots f cs s')"

definition hashtab_map :: "('k, 'd) hashtab option \<Rightarrow> ('k \<Rightarrow> 'd \<Rightarrow> 's \<Rightarrow> 's \<times> int) \<Rightarrow> 's \<Rightarrow> 's \<times> int" where
  "hashtab_map h apply args = (case h of None \<Rightarrow> (args, SEPOL_OK) | Some t \<Rightarrow> map_slots apply (htable t) args)"

text \<open>\<open>hashtab_map_remove_on_error\<close> counts each node it removes.\<close>

fun sweep_chain :: "('k \<Rightarrow> 'd \<Rightarrow> 's \<Rightarrow> 's \<times> int) \<Rightarrow> ('k \<Rightarrow> 'd \<Rightarrow> 's \<Rightarrow> 's) option
    \<Rightarrow> ('k \<times> 'd) list \<Rightarrow> 's \<Rightarrow> u32 \<Rightarrow> ('k \<times> 'd) list \<times> 's \<times> u32" where
  "sweep_chain f destroy [] s n = ([], s, n)"
| "sweep_chain f destroy (c # cs) s n =
     (let (s, ret) = f (fst c) (snd c) s in
      if ret \<noteq> 0 then sweep_chain f destroy cs (run_destroy destroy c s) (n - 1)
      else let (r, s, n) = sweep_chain f destroy cs s n in (c # r, s, n))"

fun sweep_slots :: "('k \<Rightarrow> 'd \<Rightarrow> 's \<Rightarrow> 's \<times> int) \<Rightarrow> ('k \<Rightarrow> 'd \<Rightarrow> 's \<Rightarrow> 's) option
    \<Rightarrow> ('k \<times> 'd) list list \<Rightarrow> 's \<Rightarrow> u32 \<Rightarrow> ('k \<times> 'd) list list \<times> 's \<times> u32" where
  "sweep_slots f destroy [] s n = ([], s, n)"
| "sweep_slots f destroy (c # cs) s n =
     (let (r, s, n) = sweep_chain f destroy c s n; (rs, s, n) = sweep_slots f destroy cs s n in (r # rs, s, n))"

definition hashtab_map_remove_on_error :: "('k, 'd) hashtab option \<Rightarrow> ('k \<Rightarrow> 'd \<Rightarrow> 's \<Rightarrow> 's \<times> int)
    \<Rightarrow> ('k \<Rightarrow> 'd \<Rightarrow> 's \<Rightarrow> 's) option \<Rightarrow> 's \<Rightarrow> ('k, 'd) hashtab option \<times> 's" where
  "hashtab_map_remove_on_error h apply destroy args =
     (case h of None \<Rightarrow> (None, args)
      | Some t \<Rightarrow>
          let (hs, s, n) = sweep_slots apply destroy (htable t) args (nel t)
          in (Some (t\<lparr>htable := hs, nel := n\<rparr>), s))"

text \<open>The three numbers that \<open>hashtab_hash_eval\<close> prints: entries, slots used, longest chain.\<close>

definition hashtab_hash_eval :: "('k, 'd) hashtab \<Rightarrow> u32 \<times> nat \<times> nat" where
  "hashtab_hash_eval t =
     (let (used, longest) = fold (\<lambda>c (used, longest).
        if c \<noteq> [] then (used + 1, max longest (length c)) else (used, longest)) (htable t) (0, 0)
      in (nel t, used, longest))"

section \<open>Symbol tables\<close>

text \<open>
  The keys are C strings. \<open>symhash\<close> adds each character as an \<open>unsigned char\<close>, the
  plain \<open>char\<close> of the ARM ABI.
\<close>

definition symhash :: "u32 \<Rightarrow> bytes \<Rightarrow> u32" where
  "symhash nslots key =
     fold (\<lambda>c val. (push_bit 4 val OR drop_bit 28 val) XOR ucast c) key 0 AND (nslots - 1)"

definition symcmp :: "bytes \<Rightarrow> bytes \<Rightarrow> int" where
  "symcmp key1 key2 = strcmp key1 key2"

record 'd symtab =
  table :: "(bytes, 'd) hashtab option"
  nprim :: u32

definition symtab_init :: "'d symtab \<Rightarrow> u32 \<Rightarrow> 'd symtab \<times> int" where
  "symtab_init s nslots =
     (let s = s\<lparr>table := hashtab_create symhash symcmp nslots\<rparr> in
      if table s = None then (s, - 1) else (s\<lparr>nprim := 0\<rparr>, 0))"

definition symtab_destroy :: "'d symtab option \<Rightarrow> (bytes \<times> 'd) list" where
  "symtab_destroy s =
     (case s of None \<Rightarrow> []
      | Some s \<Rightarrow> (case table s of None \<Rightarrow> [] | Some t \<Rightarrow> hashtab_destroy (Some t)))"


section \<open>The table as a finite map\<close>

text \<open>
  What the table needs from the functions given to \<open>hashtab_create\<close>: a comparison that
  orders the keys and a hash below the size of the table.
\<close>

locale hash_scheme = key_order cmp key_ok
  for cmp :: "'k \<Rightarrow> 'k \<Rightarrow> int" and key_ok :: "'k \<Rightarrow> bool" +
  fixes hash :: "u32 \<Rightarrow> 'k \<Rightarrow> u32"
  assumes hash_less: "n \<noteq> 0 \<Longrightarrow> hash n k < n"
begin

definition chain_ok :: "('k \<times> 'd) list \<Rightarrow> bool" where
  "chain_ok c \<longleftrightarrow> (\<forall>n\<in>set c. key_ok (fst n)) \<and> sorted_wrt (\<lambda>a b. 0 < cmp (fst b) (fst a)) c"

definition slot_of :: "('k, 'd) hashtab \<Rightarrow> 'k \<Rightarrow> nat" where
  "slot_of t k = unat (hash (hsize t) k)"

definition table_ok :: "('k, 'd) hashtab \<Rightarrow> bool" where
  "table_ok t \<longleftrightarrow> hash_value t = hash \<and> keycmp t = cmp \<and> 0 < unat (hsize t) \<and> unat (hsize t) < 2147483648 \<and>
     length (htable t) = unat (hsize t) \<and>
     (\<forall>i < length (htable t). chain_ok (htable t ! i) \<and> (\<forall>n\<in>set (htable t ! i). slot_of t (fst n) = i))"

definition contents :: "('k, 'd) hashtab \<Rightarrow> 'k \<Rightarrow> 'd option" where
  "contents t k = map_of (htable t ! slot_of t k) k"

definition counted :: "('k, 'd) hashtab \<Rightarrow> bool" where
  "counted t \<longleftrightarrow> nel t = word_of_nat (length (concat (htable t)))"

lemma slot_less: "table_ok t \<Longrightarrow> slot_of t k < length (htable t)"
  using hash_less [of "hsize t" k] by (auto simp: table_ok_def slot_of_def word_less_nat_alt unat_gt_0)

lemma hvalue_slot: "table_ok t \<Longrightarrow> hvalue t k = int (slot_of t k)"
proof -
  assume ok: "table_ok t"
  have "int (slot_of t k) < 2147483648" using slot_less [OF ok, of k] ok by (simp add: table_ok_def)
  then have "uint (hash (hsize t) k) < 2147483648" by (simp add: slot_of_def)
  moreover have "0 \<le> uint (hash (hsize t) k)" by (rule uint_ge_0)
  ultimately have "to_int32 (uint (hash (hsize t) k)) = uint (hash (hsize t) k)"
    by (intro to_int32_id) linarith+
  then show ?thesis using ok by (simp add: hvalue_def slot_of_def table_ok_def)
qed

lemma hslot_slot: "table_ok t \<Longrightarrow> hslot t (int (slot_of t k)) = Inr (htable t ! slot_of t k)"
  using slot_less [of t k] by (simp add: hslot_def)

lemma table_keycmp: "table_ok t \<Longrightarrow> keycmp t = cmp"
  by (simp add: table_ok_def)

lemma seek_split:
  assumes "chain_ok c" and "key_ok k" and "chain_seek (cmp k) c = (a, b)"
  shows "c = a @ b" "\<forall>n\<in>set a. 0 < cmp k (fst n)" "\<forall>n\<in>set b. cmp k (fst n) \<le> 0"
    "chain_hit (cmp k) b \<longleftrightarrow> b \<noteq> [] \<and> fst (hd b) = k" "\<forall>n\<in>set (tl b). cmp k (fst n) < 0"
proof -
  have "c = a @ b \<and> (\<forall>n\<in>set a. 0 < cmp k (fst n)) \<and> (b = [] \<or> cmp k (fst (hd b)) \<le> 0)"
    using assms(3) by (induction c arbitrary: a) (auto split: prod.splits if_splits)
  then have 1: "c = a @ b" "\<forall>n\<in>set a. 0 < cmp k (fst n)" "b = [] \<or> cmp k (fst (hd b)) \<le> 0" by auto
  show "c = a @ b" "\<forall>n\<in>set a. 0 < cmp k (fst n)" using 1 by auto
  have tl: "cmp k (fst n) < 0" if b: "b = m # r" and n: "n \<in> set r" for m r n
  proof -
    have km: "0 < cmp (fst n) (fst m)" "key_ok (fst m)" "key_ok (fst n)"
      using assms(1) n unfolding 1(1) b by (auto simp: chain_ok_def sorted_wrt_append)
    have "cmp k (fst m) \<le> 0" using 1(3) b by simp
    then show ?thesis
      using km cmp_eq [of k "fst m"] cmp_flip [of "fst m" k] cmp_flip [of "fst n" k] cmp_trans [of "fst n" "fst m" k] assms(2)
      by (cases "cmp k (fst m) = 0") auto
  qed
  show "\<forall>n\<in>set (tl b). cmp k (fst n) < 0" using tl by (cases b) auto
  then show "\<forall>n\<in>set b. cmp k (fst n) \<le> 0" using 1(3) by (cases b) (auto dest: less_imp_le)
  show "chain_hit (cmp k) b \<longleftrightarrow> b \<noteq> [] \<and> fst (hd b) = k"
    using assms(1,2) cmp_eq unfolding 1(1) by (auto simp: chain_hit_def chain_ok_def split: list.splits)
qed

lemma seek_map_of:
  assumes "chain_ok c" and "key_ok k" and "chain_seek (cmp k) c = (a, b)"
  shows "map_of c k = (if chain_hit (cmp k) b then Some (snd (hd b)) else None)"
    "map_of a k = None" "map_of (tl b) k = None"
proof -
  note s = seek_split [OF assms]
  have ne: "k \<noteq> fst n" if "n \<in> set a \<or> n \<in> set (tl b)" for n
    using that s(2,5) cmp_self [OF assms(2)] by auto
  show a: "map_of a k = None" using ne by (force simp: map_of_eq_None_iff)
  show t: "map_of (tl b) k = None" using ne by (force simp: map_of_eq_None_iff)
  show "map_of c k = (if chain_hit (cmp k) b then Some (snd (hd b)) else None)"
    using a t s(4) unfolding s(1) by (cases b) (auto simp: map_add_def)
qed

lemma seek_insert_ok:
  assumes "chain_ok c" and "key_ok k" and "chain_seek (cmp k) c = (a, b)"
  shows "\<not> chain_hit (cmp k) b \<Longrightarrow> chain_ok (a @ (k, d) # b)"
    "chain_hit (cmp k) b \<Longrightarrow> chain_ok (a @ (k, d) # tl b)" "chain_ok (a @ tl b)"
proof -
  note s = seek_split [OF assms]
  have fl: "0 < cmp (fst n) k" if "cmp k (fst n) < 0" "key_ok (fst n)" for n :: "'k \<times> 'd"
    using that cmp_flip assms(2) by auto
  have ab: "0 < cmp (fst y) (fst x)" if "x \<in> set a" "y \<in> set b" for x y
    using assms(1) that unfolding s(1) by (auto simp: chain_ok_def sorted_wrt_append)
  have tb: "y \<in> set (tl b) \<Longrightarrow> y \<in> set b" for y by (rule list.set_sel(2)) auto
  have srt: "sorted_wrt (\<lambda>a b. 0 < cmp (fst b) (fst a)) a" "sorted_wrt (\<lambda>a b. 0 < cmp (fst b) (fst a)) b"
    "\<forall>n\<in>set a. key_ok (fst n)" "\<forall>n\<in>set b. key_ok (fst n)"
    using assms(1) unfolding s(1) by (auto simp: chain_ok_def sorted_wrt_append)
  have st: "sorted_wrt (\<lambda>a b. 0 < cmp (fst b) (fst a)) (tl b)" using srt(2) by (cases b) auto
  have "\<forall>n\<in>set (tl b). 0 < cmp (fst n) k" using s(5) fl tb srt(4) by blast
  then show "chain_ok (a @ (k, d) # tl b)"
    using s(2) ab tb srt st assms(2) by (auto simp: chain_ok_def sorted_wrt_append)
  show "chain_ok (a @ tl b)" using ab tb srt st by (auto simp: chain_ok_def sorted_wrt_append)
  assume "\<not> chain_hit (cmp k) b"
  then have "cmp k (fst n) < 0" if "n \<in> set b" for n
    using that s(3,5) srt(4) assms(2) cmp_eq by (cases b) (auto simp: chain_hit_def less_le)
  then have "\<forall>n\<in>set b. 0 < cmp (fst n) k" using fl srt(4) by blast
  then show "chain_ok (a @ (k, d) # b)"
    using s(2) ab srt assms(2) by (auto simp: chain_ok_def sorted_wrt_append)
qed

lemma map_of_other:
  assumes "k' \<noteq> k"
  shows "map_of (a @ (k, d) # b) k' = map_of (a @ b) k'"
    and "fst n = k \<Longrightarrow> map_of (a @ n # b) k' = map_of (a @ b) k'"
  using assms by (auto simp: map_add_def split: option.splits)

text \<open>Replacing one chain keeps the invariant and changes the contents of that slot only.\<close>

lemma put_chain:
  assumes ok: "table_ok t" and i: "i = slot_of t k" and c: "chain_ok c" and s: "\<forall>n\<in>set c. slot_of t (fst n) = i"
  shows "table_ok (set_slot t (int i) c)" "length (concat (htable (set_slot t (int i) c))) + length (htable t ! i)
      = length (concat (htable t)) + length c"
    "\<And>k'. contents (set_slot t (int i) c) k' = (if slot_of t k' = i then map_of c k' else contents t k')"
proof -
  have l: "i < length (htable t)" using slot_less [OF ok] i by simp
  have same: "slot_of (set_slot t (int i) c) = slot_of t" by (simp add: fun_eq_iff slot_of_def set_slot_def)
  show "table_ok (set_slot t (int i) c)"
    using ok c s l unfolding table_ok_def same by (auto simp: set_slot_def nth_list_update)
  show "contents (set_slot t (int i) c) k' = (if slot_of t k' = i then map_of c k' else contents t k')" for k'
    using l unfolding contents_def same by (auto simp: set_slot_def nth_list_update)
  have "htable t = take i (htable t) @ htable t ! i # drop (Suc i) (htable t)" using l by (rule id_take_nth_drop)
  then have "length (concat (htable t)) =
      length (concat (take i (htable t))) + length (htable t ! i) + length (concat (drop (Suc i) (htable t)))"
    by (metis append.assoc concat.simps(2) concat_append length_append)
  then show "length (concat (htable (set_slot t (int i) c))) + length (htable t ! i) = length (concat (htable t)) + length c"
    using l by (simp add: set_slot_def upd_conv_take_nth_drop)
qed

lemma slot_chain: "table_ok t \<Longrightarrow> chain_ok (htable t ! slot_of t k) \<and> (\<forall>n\<in>set (htable t ! slot_of t k). slot_of t (fst n) = slot_of t k)"
  using slot_less [of t k] by (auto simp: table_ok_def)

lemma nel_irrelevant: "table_ok (t\<lparr>nel := n\<rparr>) = table_ok t" "contents (t\<lparr>nel := n\<rparr>) = contents t"
  by (auto simp: table_ok_def contents_def slot_of_def fun_eq_iff)

lemma search_correct:
  assumes "table_ok t" and "key_ok k"
  shows "hashtab_search (Some t) k = Inr (contents t k)"
proof -
  obtain a b where s: "chain_seek (cmp k) (htable t ! slot_of t k) = (a, b)"
    by (cases "chain_seek (cmp k) (htable t ! slot_of t k)")
  show ?thesis
    using hvalue_slot [OF assms(1)] hslot_slot [OF assms(1)] seek_map_of(1) [OF _ assms(2) s] slot_chain [OF assms(1)] s
    by (simp add: hashtab_search_def contents_def table_keycmp [OF assms(1)])
qed


lemma seek_cases:
  obtains a b where "chain_seek (cmp k) (htable t ! slot_of t k) = (a, b)"
  by (cases "chain_seek (cmp k) (htable t ! slot_of t k)")

lemmas reach = hvalue_slot hslot_slot table_keycmp

lemma put_seek:
  assumes ok: "table_ok t" and k: "key_ok k" and s: "chain_seek (cmp k) (htable t ! slot_of t k) = (a, b)"
  shows "\<not> chain_hit (cmp k) b \<Longrightarrow> table_ok (set_slot t (int (slot_of t k)) (a @ (k, d) # b)) \<and>
      contents (set_slot t (int (slot_of t k)) (a @ (k, d) # b)) = (contents t)(k \<mapsto> d) \<and>
      length (concat (htable (set_slot t (int (slot_of t k)) (a @ (k, d) # b)))) = Suc (length (concat (htable t)))"
    and "chain_hit (cmp k) b \<Longrightarrow> table_ok (set_slot t (int (slot_of t k)) (a @ (k, d) # tl b)) \<and>
      contents (set_slot t (int (slot_of t k)) (a @ (k, d) # tl b)) = (contents t)(k \<mapsto> d) \<and>
      length (concat (htable (set_slot t (int (slot_of t k)) (a @ (k, d) # tl b)))) = length (concat (htable t))"
    and "chain_hit (cmp k) b \<Longrightarrow> table_ok (set_slot t (int (slot_of t k)) (a @ tl b)) \<and>
      contents (set_slot t (int (slot_of t k)) (a @ tl b)) = (contents t)(k := None) \<and>
      Suc (length (concat (htable (set_slot t (int (slot_of t k)) (a @ tl b))))) = length (concat (htable t))"
proof -
  let ?i = "slot_of t k"
  have c: "chain_ok (htable t ! ?i)" "\<forall>n\<in>set (htable t ! ?i). slot_of t (fst n) = ?i"
    using slot_chain [OF ok, of k] by auto
  note sp = seek_split [OF c(1) k s] and mo = seek_map_of [OF c(1) k s] and so = seek_insert_ok [OF c(1) k s]
  have in_a: "n \<in> set a \<Longrightarrow> slot_of t (fst n) = ?i" and in_b: "n \<in> set b \<Longrightarrow> slot_of t (fst n) = ?i" for n
    using c(2) unfolding sp(1) by auto
  have in_tb: "n \<in> set (tl b) \<Longrightarrow> slot_of t (fst n) = ?i" for n using in_b by (cases b) auto
  have cont: "contents t k' = map_of (a @ b) k'" if "slot_of t k' = ?i" for k'
    using that by (simp add: contents_def sp(1))
  have mo_ins: "map_of (a @ (k, d) # r) k = Some d" for r using mo(2) by (simp add: map_add_def)
  {
    assume "\<not> chain_hit (cmp k) b"
    then have "chain_ok (a @ (k, d) # b)" by (rule so)
    note p = put_chain [OF ok refl this]
    show "table_ok (set_slot t (int ?i) (a @ (k, d) # b)) \<and>
      contents (set_slot t (int ?i) (a @ (k, d) # b)) = (contents t)(k \<mapsto> d) \<and>
      length (concat (htable (set_slot t (int ?i) (a @ (k, d) # b)))) = Suc (length (concat (htable t)))"
    proof (intro conjI ext)
      have al: "\<forall>n\<in>set (a @ (k, d) # b). slot_of t (fst n) = ?i" using in_a in_b by auto
      show "table_ok (set_slot t (int ?i) (a @ (k, d) # b))" by (rule p(1) [OF al])
      show "length (concat (htable (set_slot t (int ?i) (a @ (k, d) # b)))) = Suc (length (concat (htable t)))"
        using p(2) [OF al] sp(1) by simp
      show "contents (set_slot t (int ?i) (a @ (k, d) # b)) x = ((contents t)(k \<mapsto> d)) x" for x
        using p(3) [OF al, of x] cont [of x] mo_ins map_of_other(1) [of x k a d b] by (cases "x = k") auto
    qed
  }
  {
    assume h: "chain_hit (cmp k) b"
    then obtain m where b: "b = m # tl b" "fst m = k" using sp(4) by (cases b) auto
    have len: "length (htable t ! ?i) = Suc (length a + length (tl b))"
      using sp(1) b(1) by (metis add_Suc_right length_Cons length_append)
    have al: "\<forall>n\<in>set (a @ (k, d) # tl b). slot_of t (fst n) = ?i" "\<forall>n\<in>set (a @ tl b). slot_of t (fst n) = ?i"
      using in_a in_tb by auto
    have oth: "map_of (a @ b) x = map_of (a @ tl b) x" if "x \<noteq> k" for x
      using map_of_other(2) [OF that b(2), of a "tl b"] b(1) by metis
    note p = put_chain [OF ok refl so(2) [OF h] al(1)] and q = put_chain [OF ok refl so(3) al(2)]
    show "table_ok (set_slot t (int ?i) (a @ (k, d) # tl b)) \<and>
      contents (set_slot t (int ?i) (a @ (k, d) # tl b)) = (contents t)(k \<mapsto> d) \<and>
      length (concat (htable (set_slot t (int ?i) (a @ (k, d) # tl b)))) = length (concat (htable t))"
    proof (intro conjI ext)
      show "table_ok (set_slot t (int ?i) (a @ (k, d) # tl b))" by (rule p(1))
      show "length (concat (htable (set_slot t (int ?i) (a @ (k, d) # tl b)))) = length (concat (htable t))"
        using p(2) len by simp
      show "contents (set_slot t (int ?i) (a @ (k, d) # tl b)) x = ((contents t)(k \<mapsto> d)) x" for x
        using p(3) [of x] cont [of x] mo_ins map_of_other(1) [of x k a d "tl b"] oth [of x] by (cases "x = k") auto
    qed
    show "table_ok (set_slot t (int ?i) (a @ tl b)) \<and>
      contents (set_slot t (int ?i) (a @ tl b)) = (contents t)(k := None) \<and>
      Suc (length (concat (htable (set_slot t (int ?i) (a @ tl b))))) = length (concat (htable t))"
    proof (intro conjI ext)
      show "table_ok (set_slot t (int ?i) (a @ tl b))" by (rule q(1))
      show "Suc (length (concat (htable (set_slot t (int ?i) (a @ tl b))))) = length (concat (htable t))"
        using q(2) len by simp
      show "contents (set_slot t (int ?i) (a @ tl b)) x = ((contents t)(k := None)) x" for x
        using q(3) [of x] cont [of x] mo(2,3) oth [of x] by (cases "x = k") (auto simp: map_add_def)
    qed
  }
qed

lemma contents_hit:
  assumes "table_ok t" and "key_ok k" and "chain_seek (cmp k) (htable t ! slot_of t k) = (a, b)"
  shows "contents t k = (if chain_hit (cmp k) b then Some (snd (hd b)) else None)"
  using seek_map_of(1) [OF _ assms(2,3)] slot_chain [OF assms(1)] by (simp add: contents_def)

lemma insert_correct:
  assumes ok: "table_ok t" "counted t" and k: "key_ok k"
  shows "case contents t k of
      Some _ \<Rightarrow> hashtab_insert (Some t) k d = Inr (Some t, SEPOL_EEXIST)
    | None \<Rightarrow> (\<exists>t'. hashtab_insert (Some t) k d = Inr (Some t', SEPOL_OK) \<and> table_ok t' \<and> counted t' \<and>
        hsize t' = hsize t \<and> contents t' = (contents t)(k \<mapsto> d))"
proof -
  obtain a b where s: "chain_seek (cmp k) (htable t ! slot_of t k) = (a, b)" by (rule seek_cases)
  show ?thesis
  proof (cases "chain_hit (cmp k) b")
    case True
    then show ?thesis using contents_hit [OF ok(1) k s] s by (simp add: hashtab_insert_def reach [OF ok(1)])
  next
    case False
    then show ?thesis using contents_hit [OF ok(1) k s] s put_seek(1) [OF ok(1) k s False] ok(2)
      by (simp add: hashtab_insert_def reach [OF ok(1)] nel_irrelevant counted_def) (simp add: set_slot_def)
  qed
qed

lemma remove_correct:
  assumes ok: "table_ok t" "counted t" and k: "key_ok k"
  shows "case contents t k of
      None \<Rightarrow> hashtab_remove (Some t) k f s = Inr (Some t, s, SEPOL_ENOENT)
    | Some d \<Rightarrow> (\<exists>t'. hashtab_remove (Some t) k f s = Inr (Some t', run_destroy f (k, d) s, SEPOL_OK) \<and> table_ok t' \<and>
        counted t' \<and> contents t' = (contents t)(k := None))"
proof -
  obtain a b where sk: "chain_seek (cmp k) (htable t ! slot_of t k) = (a, b)" by (rule seek_cases)
  show ?thesis
  proof (cases "chain_hit (cmp k) b")
    case False
    then show ?thesis using contents_hit [OF ok(1) k sk] sk by (simp add: hashtab_remove_def reach [OF ok(1)])
  next
    case True
    have "hd b = (k, snd (hd b))"
      using seek_split(4) [OF _ k sk] slot_chain [OF ok(1)] True by (metis prod.collapse)
    moreover have "word_of_nat (length (concat (htable t))) - 1 =
        (word_of_nat (length (concat (htable (set_slot t (int (slot_of t k)) (a @ tl b))))) :: u32)"
      using put_seek(3) [OF ok(1) k sk True] by (metis add_diff_cancel_left' of_nat_Suc)
    ultimately show ?thesis using contents_hit [OF ok(1) k sk] sk put_seek(3) [OF ok(1) k sk True] ok(2) True
      by (simp add: hashtab_remove_def reach [OF ok(1)] nel_irrelevant counted_def)
  qed
qed

lemma replace_correct:
  assumes ok: "table_ok t" and k: "key_ok k"
  shows "\<exists>t'. hashtab_replace (Some t) k d f s =
      Inr (Some t', (case contents t k of None \<Rightarrow> s | Some old \<Rightarrow> run_destroy f (k, old) s), SEPOL_OK) \<and>
    table_ok t' \<and> contents t' = (contents t)(k \<mapsto> d) \<and> nel t' = nel t \<and>
    length (concat (htable t')) = length (concat (htable t)) + (if contents t k = None then 1 else 0)"
proof -
  obtain a b where sk: "chain_seek (cmp k) (htable t ! slot_of t k) = (a, b)" by (rule seek_cases)
  show ?thesis
  proof (cases "chain_hit (cmp k) b")
    case False
    then show ?thesis using contents_hit [OF ok k sk] sk put_seek(1) [OF ok k sk False]
      by (simp add: hashtab_replace_def reach [OF ok]) (simp add: set_slot_def)
  next
    case True
    have "hd b = (k, snd (hd b))"
      using seek_split(4) [OF _ k sk] slot_chain [OF ok] True by (metis prod.collapse)
    then show ?thesis using contents_hit [OF ok k sk] sk put_seek(2) [OF ok k sk True] True
      by (simp add: hashtab_replace_def reach [OF ok]) (simp add: set_slot_def)
  qed
qed

lemma create_correct:
  assumes "0 < unat n" and "unat n < 2147483648"
  shows "\<exists>t. hashtab_create hash cmp n = Some t \<and> table_ok t \<and> counted t \<and> contents t = Map.empty \<and> hsize t = n"
proof -
  have "unat (hash n k) < unat n" for k
    using hash_less [of n k] assms(1) by (auto simp: word_less_nat_alt unat_gt_0)
  then show ?thesis
    using assms by (auto simp: hashtab_create_def table_ok_def counted_def contents_def slot_of_def chain_ok_def fun_eq_iff)
qed

end


section \<open>Iteration\<close>

text \<open>A map over the table is the map over all nodes in slot order, up to the first error.\<close>

lemma map_chain_append: "map_chain f (a @ b) s = (let (s', ret) = map_chain f a s in if ret \<noteq> 0 then (s', ret) else map_chain f b s')"
  by (induction a arbitrary: s) (auto simp: Let_def SEPOL_OK_def split: prod.splits)

lemma hashtab_map_nodes: "hashtab_map (Some t) f s = map_chain f (concat (htable t)) s"
proof -
  have "map_slots f cs s = map_chain f (concat cs) s" for cs
    by (induction cs arbitrary: s) (auto simp: map_chain_append Let_def split: prod.splits)
  then show ?thesis by (simp add: hashtab_map_def)
qed

lemma sweep_chain_filter:
  assumes "\<And>k d s. snd (f k d s) \<noteq> 0 \<longleftrightarrow> bad k d"
  shows "\<exists>s'. sweep_chain f g c s n = (filter (\<lambda>(k, d). \<not> bad k d) c, s', n - word_of_nat (length (filter (\<lambda>(k, d). bad k d) c)))"
proof (induction c arbitrary: s n)
  case (Cons x c)
  obtain k d where x: "x = (k, d)" by (cases x)
  obtain s1 r where f: "f k d s = (s1, r)" by (cases "f k d s")
  have r: "r \<noteq> 0 \<longleftrightarrow> bad k d" using assms [of k d s] f by simp
  show ?case
  proof (cases "bad k d")
    case True
    then show ?thesis using Cons.IH [of "run_destroy g x s1" "n - 1"] f r by (auto simp: x)
  next
    case False
    then show ?thesis using Cons.IH [of s1 n] f r by (auto simp: x)
  qed
qed simp

lemma sweep_slots_filter:
  assumes "\<And>k d s. snd (f k d s) \<noteq> 0 \<longleftrightarrow> bad k d"
  shows "\<exists>s'. sweep_slots f g cs s n =
    (map (filter (\<lambda>(k, d). \<not> bad k d)) cs, s', n - word_of_nat (length (filter (\<lambda>(k, d). bad k d) (concat cs))))"
proof (induction cs arbitrary: s n)
  case (Cons c cs)
  obtain s1 where "sweep_chain f g c s n =
      (filter (\<lambda>(k, d). \<not> bad k d) c, s1, n - word_of_nat (length (filter (\<lambda>(k, d). bad k d) c)))"
    using sweep_chain_filter [of f bad g c s n, OF assms] by blast
  moreover obtain s2 where "sweep_slots f g cs s1 (n - word_of_nat (length (filter (\<lambda>(k, d). bad k d) c))) =
     (map (filter (\<lambda>(k, d). \<not> bad k d)) cs, s2, n - word_of_nat (length (filter (\<lambda>(k, d). bad k d) c))
        - word_of_nat (length (filter (\<lambda>(k, d). bad k d) (concat cs))))"
    using Cons.IH by blast
  ultimately show ?case by (simp add: algebra_simps)
qed simp

context hash_scheme begin

lemma map_of_filter_sorted:
  assumes "chain_ok c" and "key_ok k"
  shows "map_of (filter (\<lambda>(k, d). \<not> bad k d) c) k =
    (case map_of c k of None \<Rightarrow> None | Some d \<Rightarrow> if bad k d then None else Some d)"
  using assms(1)
proof (induction c)
  case (Cons x c)
  obtain k' d' where x: "x = (k', d')" by (cases x)
  have ok: "chain_ok c" using Cons.prems by (simp add: chain_ok_def)
  have "k' \<notin> fst ` set c"
    using Cons.prems cmp_eq [of k' k'] by (auto simp: chain_ok_def x)
  then have "map_of c k' = None" "map_of (filter (\<lambda>(k, d). \<not> bad k d) c) k' = None"
    by (force simp: map_of_eq_None_iff)+
  then show ?case using Cons.IH [OF ok] by (auto simp: x)
qed simp

lemma sweep_correct:
  assumes ok: "table_ok t" "counted t" and bad: "\<And>k d s. snd (f k d s) \<noteq> 0 \<longleftrightarrow> bad k d"
  shows "\<exists>t' s'. hashtab_map_remove_on_error (Some t) f g s = (Some t', s') \<and> table_ok t' \<and> counted t' \<and>
    (\<forall>k. key_ok k \<longrightarrow> contents t' k = (case contents t k of None \<Rightarrow> None | Some d \<Rightarrow> if bad k d then None else Some d))"
proof -
  let ?p = "\<lambda>(k, d). \<not> bad k d" and ?q = "\<lambda>(k, d). bad k d"
  let ?t = "t\<lparr>htable := map (filter ?p) (htable t), nel := nel t - word_of_nat (length (filter ?q (concat (htable t))))\<rparr>"
  obtain s' where sw: "sweep_slots f g (htable t) s (nel t) = (map (filter ?p) (htable t), s',
      nel t - word_of_nat (length (filter ?q (concat (htable t)))))"
    using sweep_slots_filter [of f bad g "htable t" s "nel t", OF bad] by blast
  have co: "chain_ok c \<Longrightarrow> chain_ok (filter ?p c)" for c by (auto simp: chain_ok_def sorted_wrt_filter)
  have tok: "table_ok ?t" using ok(1) co by (auto simp: table_ok_def slot_of_def)
  have pq: "?q = (\<lambda>x. \<not> ?p x)" by auto
  have "length (filter ?p (concat (htable t))) + length (filter ?q (concat (htable t))) = length (concat (htable t))"
    unfolding pq by (rule sum_length_filter_compl)
  moreover have "length (concat (map (filter ?p) (htable t))) = length (filter ?p (concat (htable t)))"
    by (simp add: filter_concat)
  ultimately have "word_of_nat (length (concat (htable t))) =
      (word_of_nat (length (concat (map (filter ?p) (htable t)))) + word_of_nat (length (filter ?q (concat (htable t)))) :: u32)"
    by (metis of_nat_add)
  then have cnt: "counted ?t" using ok(2) by (simp add: counted_def)
  have "contents ?t k = (case contents t k of None \<Rightarrow> None | Some d \<Rightarrow> if bad k d then None else Some d)" if "key_ok k" for k
    using slot_less [OF ok(1), of k] map_of_filter_sorted [OF _ that, of "htable t ! slot_of t k" bad] slot_chain [OF ok(1), of k]
    by (simp add: contents_def slot_of_def)
  with tok cnt sw show ?thesis by (auto simp: hashtab_map_remove_on_error_def)
qed

end

lemma hash_eval_correct:
  "hashtab_hash_eval t = (nel t, length (filter (\<lambda>c. c \<noteq> []) (htable t)), foldr (\<lambda>c. max (length c)) (htable t) 0)"
proof -
  have "fold (\<lambda>c (used, longest). if c \<noteq> [] then (used + 1, max longest (length c)) else (used, longest)) cs (u, m) =
      (u + length (filter (\<lambda>c. c \<noteq> []) cs), max m (foldr (\<lambda>c. max (length c)) cs 0))" for cs :: "('a \<times> 'b) list list" and u m
    by (induction cs arbitrary: u m) (auto simp: max.assoc)
  from this [of "htable t" 0 0] show ?thesis by (simp add: hashtab_hash_eval_def)
qed

section \<open>Symbol tables instantiate the scheme\<close>

lemma symcmp_strcmp: "symcmp = strcmp"
  by (simp add: fun_eq_iff symcmp_def)

interpretation sym: hash_scheme symcmp sym_ok symhash
  unfolding symcmp_strcmp
proof
  fix n :: u32 and k :: bytes
  assume n: "n \<noteq> 0"
  have "symhash n k \<le> n - 1" unfolding symhash_def by (rule word_and_le1)
  then show "symhash n k < n" using n by (simp add: word_le_nat_alt word_less_nat_alt unat_minus_one unat_gt_0) (metis Suc_pred le_imp_less_Suc unat_gt_0)
qed

end
