(* ===== verification/Sepol_Avtab.thy ===== *)
theory Sepol_Avtab
  imports Bxxt_Prelude "HOL-Library.Product_Lexorder"
begin

text \<open>
  The access vector table of libsepol (avtab.c): the rules of the policy, hashed by source
  type, target type and class, every chain sorted by them. Searches are proved to find the
  first rule with the key although they stop early, insertions to add one rule and to touch
  no other, and writing through a search result to change one rule only. The interface
  \<open>rule_store\<close> packages these laws for the policy editor.
\<close>

section \<open>The table\<close>

record avtab_key =
  source_type :: u16
  target_type :: u16
  target_class :: u16
  specified :: u16

record avtab_extended_perms =
  xspecified :: u8
  driver :: u8
  perms :: "u32 list"

record avtab_datum =
  av_data :: u32
  xperms :: "avtab_extended_perms option"

type_synonym avtab_node = "avtab_key \<times> avtab_datum"

text \<open>\<open>avslots\<close> is the field \<open>htable\<close>, a null pointer until \<open>avtab_alloc\<close>.\<close>

record avtab =
  avslots :: "avtab_node list list option"
  avnel :: u32
  nslot :: u32
  avmask :: u32

definition AVTAB_ALLOWED :: u16 where "AVTAB_ALLOWED = 0x0001"
definition AVTAB_XPERMS :: u16 where "AVTAB_XPERMS = 0x0100 OR 0x0200 OR 0x0400"
definition AVTAB_ENABLED :: u32 where "AVTAB_ENABLED = 0x8000"
definition AVTAB_ENABLED_OLD :: u32 where "AVTAB_ENABLED_OLD = 0x80000000"
definition MAX_AVTAB_HASH_BUCKETS :: u32 where "MAX_AVTAB_HASH_BUCKETS = push_bit 20 1"

definition avtab_mix :: "u32 \<Rightarrow> u16 \<Rightarrow> u32" where
  "avtab_mix hash input =
     (let v = ucast input * 0xcc9e2d51;
          v = push_bit 15 v OR drop_bit 17 v;
          v = v * 0x1b873593;
          hash = hash XOR v;
          hash = push_bit 13 hash OR drop_bit 19 hash
      in hash * 5 + 0xe6546b64)"

definition avtab_hash32 :: "avtab_key \<Rightarrow> u32" where
  "avtab_hash32 keyp =
     (let hash = avtab_mix (avtab_mix (avtab_mix 0 (target_class keyp)) (target_type keyp)) (source_type keyp);
          hash = hash XOR drop_bit 16 hash;
          hash = hash * 0x85ebca6b;
          hash = hash XOR drop_bit 13 hash;
          hash = hash * 0xc2b2ae35;
          hash = hash XOR drop_bit 16 hash
      in hash)"

definition avtab_hash :: "avtab_key \<Rightarrow> u32 \<Rightarrow> int" where
  "avtab_hash keyp msk = to_int32 (uint (avtab_hash32 keyp AND msk))"

text \<open>\<open>key->specified & ~(AVTAB_ENABLED | AVTAB_ENABLED_OLD)\<close>, assigned to a \<open>uint16_t\<close>.\<close>

definition av_spec :: "avtab_key \<Rightarrow> u16" where
  "av_spec key = ucast (ucast (specified key) AND NOT (AVTAB_ENABLED OR AVTAB_ENABLED_OLD))"

definition av_slot :: "avtab \<Rightarrow> int \<Rightarrow> avtab_node list res" where
  "av_slot h i =
     (case avslots h of None \<Rightarrow> Inl Null_Deref
      | Some hs \<Rightarrow> if 0 \<le> i \<and> nat i < length hs then Inr (hs ! nat i) else Inl Oob_Read)"

text \<open>The comparisons of the walks: the same rule, and a key that sorts before a node.\<close>

definition av_same :: "avtab_key \<Rightarrow> avtab_key \<Rightarrow> bool" where
  "av_same key cur \<longleftrightarrow> source_type key = source_type cur \<and> target_type key = target_type cur \<and>
     target_class key = target_class cur"

definition av_before :: "avtab_key \<Rightarrow> avtab_key \<Rightarrow> bool" where
  "av_before key cur \<longleftrightarrow>
     source_type key < source_type cur \<or>
     source_type key = source_type cur \<and> target_type key < target_type cur \<or>
     source_type key = source_type cur \<and> target_type key = target_type cur \<and> target_class key < target_class cur"

section \<open>Operations\<close>

text \<open>A node pointer is the slot and the position of the node in its chain.\<close>

type_synonym avtab_ptr = "nat \<times> nat"

definition new_avnode :: "avtab_key \<Rightarrow> avtab_datum \<Rightarrow> avtab_node" where
  "new_avnode key datum =
     (if specified key AND AVTAB_XPERMS \<noteq> 0
      then (key, \<lparr>av_data = av_data datum,
                  xperms = Some (case xperms datum of Some x \<Rightarrow> x
                                 | None \<Rightarrow> \<lparr>xspecified = 0, driver = 0, perms = replicate 8 0\<rparr>)\<rparr>)
      else (key, datum))"

definition avtab_insert_node :: "avtab \<Rightarrow> int \<Rightarrow> nat \<Rightarrow> avtab_key \<Rightarrow> avtab_datum \<Rightarrow> (avtab \<times> avtab_ptr) res" where
  "avtab_insert_node h hvalue pos key datum =
     res_bind (av_slot h hvalue) (\<lambda>chain.
       Inr (h\<lparr>avslots := map_option (\<lambda>hs. hs[nat hvalue := take pos chain @ new_avnode key datum # drop pos chain]) (avslots h),
              avnel := avnel h + 1\<rparr>, (nat hvalue, pos)))"

text \<open>
  The loops. The result is the position where the loop stops; for \<open>avtab_insert\<close> none when
  it returns \<open>SEPOL_EEXIST\<close>, for the searches none when nothing is found.
\<close>

fun av_insert_walk :: "avtab_key \<Rightarrow> u16 \<Rightarrow> avtab_node list \<Rightarrow> nat \<Rightarrow> nat option" where
  "av_insert_walk key spec [] i = Some i"
| "av_insert_walk key spec (c # cs) i =
     (if av_same key (fst c) \<and> spec AND specified (fst c) \<noteq> 0
      then if spec AND AVTAB_XPERMS \<noteq> 0 then Some i else None
      else if av_before key (fst c) then Some i
      else av_insert_walk key spec cs (i + 1))"

fun av_nonunique_walk :: "avtab_key \<Rightarrow> u16 \<Rightarrow> avtab_node list \<Rightarrow> nat \<Rightarrow> nat" where
  "av_nonunique_walk key spec [] i = i"
| "av_nonunique_walk key spec (c # cs) i =
     (if av_same key (fst c) \<and> spec AND specified (fst c) \<noteq> 0 then i
      else if av_before key (fst c) then i
      else av_nonunique_walk key spec cs (i + 1))"

fun av_search_walk :: "avtab_key \<Rightarrow> u16 \<Rightarrow> avtab_node list \<Rightarrow> nat \<Rightarrow> nat option" where
  "av_search_walk key spec [] i = None"
| "av_search_walk key spec (c # cs) i =
     (if av_same key (fst c) \<and> spec AND specified (fst c) \<noteq> 0 then Some i
      else if av_before key (fst c) then None
      else av_search_walk key spec cs (i + 1))"

definition EEXIST_AV :: int where "EEXIST_AV = - 17"
definition ENOMEM_AV :: int where "ENOMEM_AV = - 12"

definition avtab_insert :: "avtab \<Rightarrow> avtab_key \<Rightarrow> avtab_datum \<Rightarrow> (avtab \<times> int) res" where
  "avtab_insert h key datum =
     (if avslots h = None then Inr (h, ENOMEM_AV)
      else let hv = avtab_hash key (avmask h) in
        res_bind (av_slot h hv) (\<lambda>chain.
          case av_insert_walk key (av_spec key) chain 0 of
            None \<Rightarrow> Inr (h, EEXIST_AV)
          | Some i \<Rightarrow> res_bind (avtab_insert_node h hv i key datum) (\<lambda>(h, _). Inr (h, 0))))"

definition avtab_insert_nonunique :: "avtab \<Rightarrow> avtab_key \<Rightarrow> avtab_datum \<Rightarrow> (avtab \<times> avtab_ptr option) res" where
  "avtab_insert_nonunique h key datum =
     (if avslots h = None then Inr (h, None)
      else let hv = avtab_hash key (avmask h) in
        res_bind (av_slot h hv) (\<lambda>chain.
          res_bind (avtab_insert_node h hv (av_nonunique_walk key (av_spec key) chain 0) key datum) (\<lambda>(h, p).
            Inr (h, Some p))))"

definition avtab_search_node :: "avtab \<Rightarrow> avtab_key \<Rightarrow> avtab_ptr option res" where
  "avtab_search_node h key =
     (if avslots h = None then Inr None
      else let hv = avtab_hash key (avmask h) in
        res_bind (av_slot h hv) (\<lambda>chain.
          Inr (map_option (\<lambda>i. (nat hv, i)) (av_search_walk key (av_spec key) chain 0))))"

text \<open>
  \<open>avtab_search\<close> has the same loop and returns the address of the node's datum; the model
  names the datum by its node.
\<close>

definition avtab_search :: "avtab \<Rightarrow> avtab_key \<Rightarrow> avtab_ptr option res" where
  "avtab_search h key =
     (if avslots h = None then Inr None
      else let hv = avtab_hash key (avmask h) in
        res_bind (av_slot h hv) (\<lambda>chain.
          Inr (map_option (\<lambda>i. (nat hv, i)) (av_search_walk key (av_spec key) chain 0))))"

definition av_node :: "avtab \<Rightarrow> avtab_ptr \<Rightarrow> avtab_node res" where
  "av_node h p =
     res_bind (av_slot h (int (fst p))) (\<lambda>chain. if snd p < length chain then Inr (chain ! snd p) else Inl Oob_Read)"

definition avtab_search_node_next :: "avtab \<Rightarrow> avtab_ptr option \<Rightarrow> u32 \<Rightarrow> avtab_ptr option res" where
  "avtab_search_node_next h node spec =
     (case node of None \<Rightarrow> Inr None
      | Some p \<Rightarrow>
          res_bind (av_node h p) (\<lambda>n.
          res_bind (av_slot h (int (fst p))) (\<lambda>chain.
            Inr (map_option (\<lambda>i. (fst p, i))
              (av_search_walk (fst n) (ucast (spec AND NOT (AVTAB_ENABLED OR AVTAB_ENABLED_OLD)))
                 (drop (Suc (snd p)) chain) (Suc (snd p)))))))"

text \<open>Writing the permissions of a datum through the pointer.\<close>

definition av_write :: "avtab \<Rightarrow> avtab_ptr \<Rightarrow> (u32 \<Rightarrow> u32) \<Rightarrow> avtab res" where
  "av_write h p f =
     res_bind (av_node h p) (\<lambda>n.
       Inr (h\<lparr>avslots := map_option (\<lambda>hs. hs[fst p := (hs ! fst p)[snd p := (fst n, (snd n)\<lparr>av_data := f (av_data (snd n))\<rparr>)]])
                (avslots h)\<rparr>))"

definition avtab_init :: "avtab \<Rightarrow> avtab \<times> int" where
  "avtab_init h = (h\<lparr>avslots := None, avnel := 0\<rparr>, 0)"

function av_shift :: "u32 \<Rightarrow> nat" where
  "av_shift work = (if work = 0 then 0 else Suc (av_shift (drop_bit 1 work)))"
  by auto
termination
proof (relation "measure unat", goal_cases)
  case (2 w)
  then have "0 < unat w" by (simp add: unat_gt_0)
  then show ?case by (simp add: drop_bit_eq_div unat_div_distrib)
qed simp

declare av_shift.simps [simp del]

definition av_nslot :: "u32 \<Rightarrow> u32" where
  "av_nslot nrules =
     (let shift = av_shift nrules;
          shift = (if shift > 2 then shift - 2 else shift);
          n = push_bit shift 1
      in if n > MAX_AVTAB_HASH_BUCKETS then MAX_AVTAB_HASH_BUCKETS else n)"

definition avtab_alloc :: "avtab \<Rightarrow> u32 \<Rightarrow> avtab \<times> int" where
  "avtab_alloc h nrules =
     (if nrules = 0 then (h\<lparr>avnel := 0, nslot := 0, avmask := 0\<rparr>, 0)
      else let n = av_nslot nrules in
        (h\<lparr>avslots := Some (replicate (unat n) []), avnel := 0, nslot := n, avmask := n - 1\<rparr>, 0))"

definition avtab_destroy :: "avtab \<Rightarrow> avtab" where
  "avtab_destroy h =
     (if avslots h = None then h else h\<lparr>avslots := None, nslot := 0, avmask := 0\<rparr>)"

fun av_map_chain :: "(avtab_node \<Rightarrow> 's \<Rightarrow> avtab_node \<times> 's \<times> int) \<Rightarrow> avtab_node list \<Rightarrow> 's \<Rightarrow> avtab_node list \<times> 's \<times> int" where
  "av_map_chain f [] s = ([], s, 0)"
| "av_map_chain f (n # ns) s =
     (let (n, s, ret) = f n s in
      if ret \<noteq> 0 then (n # ns, s, ret)
      else let (ns, s, ret) = av_map_chain f ns s in (n # ns, s, ret))"

fun av_map_slots :: "(avtab_node \<Rightarrow> 's \<Rightarrow> avtab_node \<times> 's \<times> int) \<Rightarrow> avtab_node list list \<Rightarrow> 's \<Rightarrow> avtab_node list list \<times> 's \<times> int" where
  "av_map_slots f [] s = ([], s, 0)"
| "av_map_slots f (c # cs) s =
     (let (c, s, ret) = av_map_chain f c s in
      if ret \<noteq> 0 then (c # cs, s, ret)
      else let (cs, s, ret) = av_map_slots f cs s in (c # cs, s, ret))"

text \<open>\<open>apply\<close> gets pointers to the key and the datum and may change both.\<close>

definition avtab_map :: "avtab \<Rightarrow> (avtab_node \<Rightarrow> 's \<Rightarrow> avtab_node \<times> 's \<times> int) \<Rightarrow> 's \<Rightarrow> (avtab \<times> 's \<times> int) res" where
  "avtab_map h apply args =
     (case avslots h of None \<Rightarrow> if nslot h = 0 then Inr (h, args, 0) else Inl Null_Deref
      | Some hs \<Rightarrow>
          let n = unat (nslot h) in
          if length hs < n then Inl Oob_Read
          else let (ms, s, ret) = av_map_slots apply (take n hs) args
            in Inr (h\<lparr>avslots := Some (ms @ drop n hs)\<rparr>, s, ret))"

text \<open>The four numbers that \<open>avtab_hash_eval\<close> prints.\<close>

definition avtab_hash_eval :: "avtab \<Rightarrow> (u32 \<times> nat \<times> u32 \<times> nat) res" where
  "avtab_hash_eval h =
     (case avslots h of None \<Rightarrow> if nslot h = 0 then Inr (avnel h, 0, nslot h, 0) else Inl Null_Deref
      | Some hs \<Rightarrow>
          if length hs < unat (nslot h) then Inl Oob_Read
          else let (used, longest) = fold (\<lambda>c (used, longest).
              if c \<noteq> [] then (used + 1, max longest (length c)) else (used, longest)) (take (unat (nslot h)) hs) (0, 0)
            in Inr (avnel h, used, nslot h, longest))"


section \<open>The order of the rules\<close>

definition av_triple :: "avtab_key \<Rightarrow> u16 \<times> u16 \<times> u16" where
  "av_triple k = (source_type k, target_type k, target_class k)"

lemma av_same_triple: "av_same a b \<longleftrightarrow> av_triple a = av_triple b"
  by (auto simp: av_same_def av_triple_def)

lemma av_before_triple: "av_before a b \<longleftrightarrow> av_triple a < av_triple b"
  by (auto simp: av_before_def av_triple_def less_prod_def)

definition av_hit :: "avtab_key \<Rightarrow> avtab_node \<Rightarrow> bool" where
  "av_hit k n \<longleftrightarrow> av_same k (fst n) \<and> av_spec k AND specified (fst n) \<noteq> 0"

lemma av_walk_Cons:
  "av_search_walk k (av_spec k) (n # c) i =
    (if av_hit k n then Some i else if av_before k (fst n) then None else av_search_walk k (av_spec k) c (i + 1))"
  "av_insert_walk k (av_spec k) (n # c) i =
    (if av_hit k n then if av_spec k AND AVTAB_XPERMS \<noteq> 0 then Some i else None
     else if av_before k (fst n) then Some i else av_insert_walk k (av_spec k) c (i + 1))"
  by (simp_all add: av_hit_def)

declare av_search_walk.simps(2) [simp del] av_insert_walk.simps(2) [simp del]
declare av_walk_Cons [simp]

definition av_sorted :: "avtab_node list \<Rightarrow> bool" where
  "av_sorted c = sorted (map (\<lambda>n. av_triple (fst n)) c)"

lemma av_sorted_simps [simp]: "av_sorted []"
  "av_sorted (n # c) \<longleftrightarrow> (\<forall>m\<in>set c. av_triple (fst n) \<le> av_triple (fst m)) \<and> av_sorted c"
  "av_sorted (c @ d) \<longleftrightarrow> av_sorted c \<and> av_sorted d \<and> (\<forall>m\<in>set c. \<forall>n\<in>set d. av_triple (fst m) \<le> av_triple (fst n))"
  by (auto simp: av_sorted_def sorted_append)

lemma av_search_walk_Some:
  "av_search_walk k (av_spec k) c i = Some j \<Longrightarrow>
    i \<le> j \<and> j - i < length c \<and> find (av_hit k) c = Some (c ! (j - i)) \<and> av_hit k (c ! (j - i)) \<and>
    find (av_hit k) (take (j - i) c) = None"
proof (induction c arbitrary: i)
  case (Cons n c)
  show ?case
  proof (cases "av_hit k n")
    case True
    then show ?thesis using Cons.prems by auto
  next
    case False
    then have "av_search_walk k (av_spec k) c (i + 1) = Some j"
      using Cons.prems by (auto split: if_splits)
    with Cons.IH [of "i + 1"] have IH: "i + 1 \<le> j \<and> j - (i + 1) < length c \<and> find (av_hit k) c = Some (c ! (j - (i + 1))) \<and>
      av_hit k (c ! (j - (i + 1))) \<and> find (av_hit k) (take (j - (i + 1)) c) = None" by simp
    then have "j - i = Suc (j - (i + 1))" by linarith
    with IH False show ?thesis by simp
  qed
qed simp

lemma av_search_walk_None:
  "av_sorted c \<Longrightarrow> av_search_walk k (av_spec k) c i = None \<longleftrightarrow> find (av_hit k) c = None"
proof (induction c arbitrary: i)
  case (Cons n c)
  have "\<not> av_hit k m" if "av_before k (fst n)" "m \<in> set c" for m
    using Cons.prems that by (force simp: av_before_triple av_hit_def av_same_triple)
  then have "find (av_hit k) c = None" if "av_before k (fst n)" using that by (auto simp: find_None_iff)
  with Cons show ?case by auto
qed simp

lemma av_insert_walk_spec:
  assumes "av_sorted c"
  shows "case av_insert_walk k (av_spec k) c i of
      None \<Rightarrow> find (av_hit k) c \<noteq> None \<and> av_spec k AND AVTAB_XPERMS = 0
    | Some j \<Rightarrow> i \<le> j \<and> j - i \<le> length c \<and> (find (av_hit k) c \<noteq> None \<longrightarrow> av_spec k AND AVTAB_XPERMS \<noteq> 0) \<and>
        (\<forall>n\<in>set (take (j - i) c). av_triple (fst n) \<le> av_triple k \<and> \<not> av_hit k n) \<and>
        (\<forall>n\<in>set (drop (j - i) c). av_triple k \<le> av_triple (fst n)) \<and>
        (find (av_hit k) c = None \<longrightarrow> (\<forall>n\<in>set (drop (j - i) c). av_triple k < av_triple (fst n)))"
  using assms
proof (induction c arbitrary: i)
  case (Cons n c)
  show ?case
  proof (cases "av_hit k n")
    case True
    then show ?thesis using Cons.prems by (auto simp: av_hit_def av_same_triple)
  next
    case False
    show ?thesis
    proof (cases "av_before k (fst n)")
      case True
      then have "\<forall>m\<in>set c. av_triple k < av_triple (fst m)"
        using Cons.prems by (force simp: av_before_triple)
      then have "find (av_hit k) c = None"
        by (force simp: find_None_iff av_hit_def av_same_triple)
      with True False \<open>\<forall>m\<in>set c. _\<close> show ?thesis
        by (auto simp: av_before_triple less_imp_le)
    next
      case nb: False
      have "av_insert_walk k (av_spec k) (n # c) i = av_insert_walk k (av_spec k) c (i + 1)"
        using False nb by simp
      moreover have "av_triple (fst n) \<le> av_triple k" using nb by (simp add: av_before_triple not_less)
      moreover have "j - i = Suc (j - (i + 1))" if "i + 1 \<le> j" for j using that by simp
      ultimately show ?thesis using Cons.IH [of "i + 1"] Cons.prems False
        by (auto split: option.splits simp del: av_walk_Cons)
    qed
  qed
qed simp

section \<open>The table as a store of rules\<close>

definition av_ok :: "avtab \<Rightarrow> bool" where
  "av_ok t \<longleftrightarrow> (case avslots t of None \<Rightarrow> False
    | Some hs \<Rightarrow> length hs = unat (nslot t) \<and> nslot t \<noteq> 0 \<and> avmask t = nslot t - 1 \<and> unat (nslot t) \<le> 1048576 \<and>
        (\<forall>i<length hs. av_sorted (hs ! i) \<and> (\<forall>n\<in>set (hs ! i). avtab_hash (fst n) (avmask t) = int i)))"

definition av_chain :: "avtab \<Rightarrow> avtab_key \<Rightarrow> avtab_node list" where
  "av_chain t k = the (avslots t) ! nat (avtab_hash k (avmask t))"

definition av_look :: "avtab \<Rightarrow> avtab_key \<Rightarrow> avtab_datum option" where
  "av_look t k = map_option snd (find (av_hit k) (av_chain t k))"

lemma avtab_hash_same: "av_same a b \<Longrightarrow> avtab_hash a m = avtab_hash b m"
  unfolding avtab_hash_def avtab_hash32_def av_same_def by (elim conjE) (simp only:)

lemma av_okE:
  assumes "av_ok t"
  obtains hs where "avslots t = Some hs" and "length hs = unat (nslot t)" and "nslot t \<noteq> 0" and "avmask t = nslot t - 1"
    and "unat (nslot t) \<le> 1048576" and "\<And>i. i < length hs \<Longrightarrow> av_sorted (hs ! i)"
    and "\<And>i n. i < length hs \<Longrightarrow> n \<in> set (hs ! i) \<Longrightarrow> avtab_hash (fst n) (avmask t) = int i"
proof (cases "avslots t")
  case (Some hs)
  have "length hs = unat (nslot t) \<and> nslot t \<noteq> 0 \<and> avmask t = nslot t - 1 \<and> unat (nslot t) \<le> 1048576 \<and>
      (\<forall>i<length hs. av_sorted (hs ! i) \<and> (\<forall>n\<in>set (hs ! i). avtab_hash (fst n) (avmask t) = int i))"
    using assms(1) unfolding av_ok_def Some option.case .
  then show ?thesis by (intro that [OF Some]) blast+
qed (use assms(1) in \<open>simp add: av_ok_def\<close>)

lemma avtab_hash_range:
  assumes "av_ok t"
  shows "0 \<le> avtab_hash k (avmask t)" "nat (avtab_hash k (avmask t)) < unat (nslot t)"
proof -
  define h where "h = avtab_hash32 k AND avmask t"
  from assms obtain hs where ok: "nslot t \<noteq> 0" "avmask t = nslot t - 1" "unat (nslot t) \<le> 1048576"
    by (rule av_okE)
  have "h \<le> avmask t" unfolding h_def by (rule word_and_le1)
  then have "unat h \<le> unat (nslot t) - 1"
    unfolding ok(2) word_le_nat_alt unat_minus_one [OF ok(1)] .
  moreover have "0 < unat (nslot t)" using ok(1) by (simp add: unat_gt_0)
  ultimately have l: "unat h < unat (nslot t)" by linarith
  then have "int (unat h) < 2147483648" using ok(3) by linarith
  then have "to_int32 (uint h) = int (unat h)"
    unfolding of_nat_unat using uint_ge_0 [of h] by (intro to_int32_id) linarith+
  then have e: "avtab_hash k (avmask t) = int (unat h)" unfolding avtab_hash_def h_def .
  show "0 \<le> avtab_hash k (avmask t)" "nat (avtab_hash k (avmask t)) < unat (nslot t)"
    unfolding e using l by auto
qed

lemma av_ok_Some: "av_ok t \<Longrightarrow> \<exists>hs. avslots t = Some hs \<and> length hs = unat (nslot t)"
  by (auto simp: av_ok_def split: option.splits)

lemma av_slot_hash: "av_ok t \<Longrightarrow> av_slot t (avtab_hash k (avmask t)) = Inr (av_chain t k)"
  using avtab_hash_range [of t k] by (auto simp: av_slot_def av_chain_def dest!: av_ok_Some)

lemma av_chain_ok:
  assumes "av_ok t"
  shows "av_sorted (av_chain t k)" "\<forall>n\<in>set (av_chain t k). avtab_hash (fst n) (avmask t) = avtab_hash k (avmask t)"
proof -
  note r = avtab_hash_range [OF assms, of k]
  from assms show "av_sorted (av_chain t k)"
    by (rule av_okE) (use r in \<open>simp add: av_chain_def\<close>)
  from assms show "\<forall>n\<in>set (av_chain t k). avtab_hash (fst n) (avmask t) = avtab_hash k (avmask t)"
  proof (rule av_okE, intro ballI)
    fix hs n
    assume a: "avslots t = Some hs" "length hs = unat (nslot t)" "n \<in> set (av_chain t k)"
      "\<And>i n. i < length hs \<Longrightarrow> n \<in> set (hs ! i) \<Longrightarrow> avtab_hash (fst n) (avmask t) = int i"
    then have "avtab_hash (fst n) (avmask t) = int (nat (avtab_hash k (avmask t)))"
      using r by (intro a(4)) (simp_all add: av_chain_def)
    with r show "avtab_hash (fst n) (avmask t) = avtab_hash k (avmask t)" by simp
  qed
qed

lemma avtab_search_correct:
  assumes "av_ok t"
  shows "\<exists>r. avtab_search t k = Inr r \<and> avtab_search_node t k = Inr r \<and>
    (case r of None \<Rightarrow> av_look t k = None
     | Some p \<Rightarrow> fst p = nat (avtab_hash k (avmask t)) \<and> snd p < length (av_chain t k) \<and>
         find (av_hit k) (av_chain t k) = Some (av_chain t k ! snd p) \<and> av_look t k = Some (snd (av_chain t k ! snd p)) \<and>
         find (av_hit k) (take (snd p) (av_chain t k)) = None)"
proof -
  let ?w = "av_search_walk k (av_spec k) (av_chain t k) 0"
  have s: "avtab_search t k = Inr (map_option (\<lambda>i. (nat (avtab_hash k (avmask t)), i)) ?w)"
    "avtab_search_node t k = Inr (map_option (\<lambda>i. (nat (avtab_hash k (avmask t)), i)) ?w)"
    using av_slot_hash [OF assms] av_ok_Some [OF assms] by (auto simp: avtab_search_def avtab_search_node_def)
  show ?thesis
  proof (cases ?w)
    case None
    then show ?thesis using s av_search_walk_None [of "av_chain t k" k 0] av_chain_ok [OF assms] by (simp add: av_look_def)
  next
    case (Some j)
    then show ?thesis using s av_search_walk_Some [OF Some] by (simp add: av_look_def)
  qed
qed

text \<open>Writing a chain back.\<close>

definition av_put :: "avtab \<Rightarrow> avtab_key \<Rightarrow> avtab_node list \<Rightarrow> avtab" where
  "av_put t k c = t\<lparr>avslots := map_option (\<lambda>hs. hs[nat (avtab_hash k (avmask t)) := c]) (avslots t)\<rparr>"

lemma av_put_ok:
  assumes "av_ok t" and "av_sorted c" and "\<forall>n\<in>set c. avtab_hash (fst n) (avmask t) = avtab_hash k (avmask t)"
  shows "av_ok (av_put t k c)"
    "av_chain (av_put t k c) k' = (if avtab_hash k' (avmask t) = avtab_hash k (avmask t) then c else av_chain t k')"
proof -
  note r = avtab_hash_range [OF assms(1)]
  obtain hs where hs: "avslots t = Some hs" "length hs = unat (nslot t)" "nslot t \<noteq> 0" "avmask t = nslot t - 1"
      "unat (nslot t) \<le> 1048576" "\<And>i. i < length hs \<Longrightarrow> av_sorted (hs ! i)"
      "\<And>i n. i < length hs \<Longrightarrow> n \<in> set (hs ! i) \<Longrightarrow> avtab_hash (fst n) (avmask t) = int i"
    using av_okE [OF assms(1)] by blast
  let ?h = "nat (avtab_hash k (avmask t))"
  have "av_sorted (hs[?h := c] ! i)" if "i < length hs" for i
    using assms(2) hs(6) that by (cases "i = ?h") simp_all
  moreover have "avtab_hash (fst n) (avmask t) = int i" if "i < length hs" "n \<in> set (hs[?h := c] ! i)" for i n
    using assms(3) hs(7) that r [of k] by (cases "i = ?h") simp_all
  ultimately show "av_ok (av_put t k c)"
    using hs(1-5) by (simp add: av_ok_def av_put_def del: One_nat_def)
  have "nat (avtab_hash k' (avmask t)) = nat (avtab_hash k (avmask t)) \<longleftrightarrow> avtab_hash k' (avmask t) = avtab_hash k (avmask t)"
    using r(1) [of k] r(1) [of k'] by (simp add: nat_eq_iff)
  then show "av_chain (av_put t k c) k' = (if avtab_hash k' (avmask t) = avtab_hash k (avmask t) then c else av_chain t k')"
    using av_ok_Some [OF assms(1)] r [of k] by (auto simp: av_chain_def av_put_def nth_list_update)
qed

lemma av_ok_nel [simp]: "av_ok (t\<lparr>avnel := n\<rparr>) = av_ok t" "av_chain (t\<lparr>avnel := n\<rparr>) = av_chain t"
    "av_look (t\<lparr>avnel := n\<rparr>) = av_look t"
  by (simp_all add: av_ok_def av_chain_def av_look_def fun_eq_iff cong: option.case_cong)

lemma avtab_insert_node_put:
  assumes "av_ok t"
  shows "avtab_insert_node t (avtab_hash k (avmask t)) i k d =
    Inr ((av_put t k (take i (av_chain t k) @ new_avnode k d # drop i (av_chain t k)))\<lparr>avnel := avnel t + 1\<rparr>,
      (nat (avtab_hash k (avmask t)), i))"
  using av_slot_hash [OF assms] by (simp add: avtab_insert_node_def av_put_def)

lemma fst_new_avnode [simp]: "fst (new_avnode k d) = k"
  by (simp add: new_avnode_def)

lemma avtab_insert_correct:
  assumes ok: "av_ok t"
  shows "case av_look t k of
      Some _ \<Rightarrow> if av_spec k AND AVTAB_XPERMS = 0 then avtab_insert t k d = Inr (t, EEXIST_AV)
        else (\<exists>t'. avtab_insert t k d = Inr (t', 0) \<and> av_ok t' \<and> av_look t' k = Some (snd (new_avnode k d)))
    | None \<Rightarrow> (\<exists>t'. avtab_insert t k d = Inr (t', 0) \<and> av_ok t' \<and> avnel t' = avnel t + 1 \<and>
        (\<forall>k'. av_look t' k' = (case av_look t k' of Some x \<Rightarrow> Some x
           | None \<Rightarrow> if av_hit k' (new_avnode k d) then Some (snd (new_avnode k d)) else None)))"
proof -
  let ?c = "av_chain t k" and ?n = "new_avnode k d" and ?hv = "avtab_hash k (avmask t)"
  have c: "av_sorted ?c" "\<forall>n\<in>set ?c. avtab_hash (fst n) (avmask t) = ?hv" using av_chain_ok [OF ok] by auto
  have w: "avtab_insert t k d = (case av_insert_walk k (av_spec k) ?c 0 of None \<Rightarrow> Inr (t, EEXIST_AV)
    | Some i \<Rightarrow> Inr ((av_put t k (take i ?c @ ?n # drop i ?c))\<lparr>avnel := avnel t + 1\<rparr>, 0))"
    using av_ok_Some [OF ok] av_slot_hash [OF ok, of k] avtab_insert_node_put [OF ok, of k _ d]
    by (auto simp: avtab_insert_def Let_def split: option.splits)
  note sp = av_insert_walk_spec [OF c(1), of k 0]
  show ?thesis
  proof (cases "av_insert_walk k (av_spec k) ?c 0")
    case None
    then show ?thesis using sp w by (auto simp: av_look_def split: option.splits)
  next
    case (Some i)
    let ?c' = "take i ?c @ ?n # drop i ?c" and ?t = "av_put t k (take i ?c @ ?n # drop i ?c)"
    have i: "\<forall>n\<in>set (take i ?c). av_triple (fst n) \<le> av_triple k \<and> \<not> av_hit k n"
      "\<forall>n\<in>set (drop i ?c). av_triple k \<le> av_triple (fst n)"
      "find (av_hit k) ?c \<noteq> None \<longrightarrow> av_spec k AND AVTAB_XPERMS \<noteq> 0"
      "find (av_hit k) ?c = None \<longrightarrow> (\<forall>n\<in>set (drop i ?c). av_triple k < av_triple (fst n))"
      using sp Some by auto
    have parts: "av_sorted (take i ?c)" "av_sorted (drop i ?c)"
      using c(1) by (metis append_take_drop_id av_sorted_simps(3))+
    have srt: "av_sorted ?c'" using i(1,2) parts by (fastforce intro: order_trans)
    have hs: "\<forall>n\<in>set ?c'. avtab_hash (fst n) (avmask t) = ?hv"
      using c(2) by (auto dest: in_set_takeD in_set_dropD)
    note put = av_put_ok [OF ok srt hs]
    have look: "av_look ?t k' = (if avtab_hash k' (avmask t) = ?hv then map_option snd (find (av_hit k') ?c') else av_look t k')" for k'
      by (simp add: av_look_def put(2))
    have nf: "find (av_hit k) (take i ?c) = None" using i(1) by (auto simp: find_None_iff)
    show ?thesis
    proof (cases "find (av_hit k) ?c")
      case None
      have "av_look ?t k' = (case av_look t k' of Some x \<Rightarrow> Some x
           | None \<Rightarrow> if av_hit k' ?n then Some (snd ?n) else None)" for k'
      proof (cases "avtab_hash k' (avmask t) = ?hv")
        case True
        have "find (av_hit k') ?c = (case find (av_hit k') (take i ?c) of None \<Rightarrow> find (av_hit k') (drop i ?c) | Some x \<Rightarrow> Some x)"
          by (metis append_take_drop_id find_append)
        moreover have "find (av_hit k') (drop i ?c) = None" if "av_hit k' ?n"
          using i(4) None that by (force simp: find_None_iff av_hit_def av_same_triple)
        moreover have "av_chain t k' = ?c" using True by (simp add: av_chain_def)
        ultimately show ?thesis using True
          by (auto simp: look find_append av_look_def [of t] split: option.splits) (metis surjective_pairing)+
      next
        case False
        then have "\<not> av_hit k' ?n" using avtab_hash_same [of k' k] by (auto simp: av_hit_def)
        then show ?thesis using False by (simp add: look split: option.splits)
      qed
      then show ?thesis using None w Some put(1) by (simp add: av_look_def [of t k])
    next
      case hit: (Some m)
      have m: "m \<in> set ?c" "av_hit k m"
        using hit by (auto simp: find_Some_iff)
      have x: "av_spec k AND AVTAB_XPERMS \<noteq> 0" using hit i(3) by simp
      have "av_hit k ?n"
      proof -
        have "av_spec k AND specified k \<noteq> 0"
        proof
          assume z: "av_spec k AND specified k = 0"
          have "av_spec k AND specified k = av_spec k"
            by (rule bit_word_eqI) (auto simp: av_spec_def bit_simps)
          with z m(2) show False by (simp add: av_hit_def)
        qed
        then show ?thesis by (simp add: av_hit_def av_same_def)
      qed
      then have "av_look ?t k = Some (snd ?n)" using nf by (simp add: look find_append)
      then show ?thesis using hit x w Some put(1) by (simp add: av_look_def [of t k])
    qed
  qed
qed


text \<open>The unconditional insertion puts the node before the first one its own key finds.\<close>

lemma av_nonunique_walk_spec:
  assumes "av_sorted c" and "av_nonunique_walk k (av_spec k) c i = j"
  shows "i \<le> j \<and> j - i \<le> length c \<and> (\<forall>n\<in>set (take (j - i) c). av_triple (fst n) \<le> av_triple k \<and> \<not> av_hit k n) \<and>
    (\<forall>n\<in>set (drop (j - i) c). av_triple k \<le> av_triple (fst n))"
  using assms
proof (induction c arbitrary: i)
  case (Cons n c)
  have w: "av_nonunique_walk k (av_spec k) (n # c) i =
      (if av_hit k n \<or> av_before k (fst n) then i else av_nonunique_walk k (av_spec k) c (i + 1))"
    by (auto simp: av_hit_def)
  show ?case
  proof (cases "av_hit k n \<or> av_before k (fst n)")
    case True
    then have "av_triple k \<le> av_triple (fst n)"
      by (auto simp: av_hit_def av_same_triple av_before_triple less_imp_le)
    moreover have "j = i" using Cons.prems(2) True unfolding w by simp
    ultimately show ?thesis using Cons.prems(1) by (auto intro: order_trans)
  next
    case False
    then have "av_nonunique_walk k (av_spec k) c (i + 1) = j" using Cons.prems(2) unfolding w by simp
    with Cons.IH [of "i + 1"] Cons.prems(1) have IH: "i + 1 \<le> j \<and> j - (i + 1) \<le> length c \<and>
      (\<forall>n\<in>set (take (j - (i + 1)) c). av_triple (fst n) \<le> av_triple k \<and> \<not> av_hit k n) \<and>
      (\<forall>n\<in>set (drop (j - (i + 1)) c). av_triple k \<le> av_triple (fst n))" by simp
    moreover have "j - i = Suc (j - (i + 1))" using IH by linarith
    moreover have "av_triple (fst n) \<le> av_triple k" using False by (simp add: av_before_triple not_less)
    ultimately show ?thesis using False by simp
  qed
qed simp

lemma av_spec_self: "av_spec k AND specified k = av_spec k"
  by (rule bit_word_eqI) (auto simp: av_spec_def bit_simps)

lemma avtab_insert_nonunique_correct:
  assumes ok: "av_ok t" and sp: "av_spec k \<noteq> 0"
  shows "\<exists>t' p. avtab_insert_nonunique t k d = Inr (t', Some p) \<and> av_ok t' \<and> av_node t' p = Inr (new_avnode k d) \<and>
    av_look t' k = Some (snd (new_avnode k d)) \<and> (\<forall>k'. \<not> av_same k k' \<longrightarrow> av_look t' k' = av_look t k')"
proof -
  let ?c = "av_chain t k" and ?n = "new_avnode k d" and ?hv = "avtab_hash k (avmask t)"
  define i where "i = av_nonunique_walk k (av_spec k) ?c 0"
  let ?c' = "take i ?c @ ?n # drop i ?c"
  let ?t = "(av_put t k ?c')\<lparr>avnel := avnel t + 1\<rparr>"
  note c = av_chain_ok [OF ok, of k] and r = avtab_hash_range [OF ok, of k]
  have w: "i \<le> length ?c" "\<forall>n\<in>set (take i ?c). av_triple (fst n) \<le> av_triple k \<and> \<not> av_hit k n"
      "\<forall>n\<in>set (drop i ?c). av_triple k \<le> av_triple (fst n)"
    using av_nonunique_walk_spec [OF c(1) i_def [symmetric]] by auto
  have parts: "av_sorted (take i ?c)" "av_sorted (drop i ?c)"
    using c(1) by (metis append_take_drop_id av_sorted_simps(3))+
  have srt: "av_sorted ?c'" using w(2,3) parts by (fastforce intro: order_trans)
  have hs: "\<forall>n\<in>set ?c'. avtab_hash (fst n) (avmask t) = ?hv"
    using c(2) by (auto dest: in_set_takeD in_set_dropD)
  note put = av_put_ok [OF ok srt hs]
  have "avtab_insert_nonunique t k d = Inr (?t, Some (nat ?hv, i))"
    using av_ok_Some [OF ok] av_slot_hash [OF ok, of k] avtab_insert_node_put [OF ok, of k _ d]
    by (auto simp: avtab_insert_nonunique_def Let_def i_def)
  moreover have "av_ok ?t" using put(1) by simp
  moreover have "av_node ?t (nat ?hv, i) = Inr ?n"
  proof -
    have "av_slot (av_put t k ?c') ?hv = Inr ?c'"
      using av_slot_hash [OF put(1), of k] put(2) [of k] by (simp add: av_put_def)
    then show ?thesis using r w(1) by (simp add: av_node_def av_slot_def nth_append)
  qed
  moreover have "av_look ?t k = Some (snd ?n)"
  proof -
    have "av_hit k ?n" using sp by (simp add: av_hit_def av_same_def av_spec_self)
    moreover have "find (av_hit k) (take i ?c) = None" using w(2) by (auto simp: find_None_iff)
    ultimately show ?thesis using put(2) [of k] by (simp add: av_look_def find_append)
  qed
  moreover have "av_look ?t k' = av_look t k'" if "\<not> av_same k k'" for k'
  proof (cases "avtab_hash k' (avmask t) = ?hv")
    case True
    have "\<not> av_hit k' ?n" using that by (auto simp: av_hit_def av_same_def)
    moreover have "find (av_hit k') ?c = (case find (av_hit k') (take i ?c) of None \<Rightarrow> find (av_hit k') (drop i ?c) | Some x \<Rightarrow> Some x)"
      by (metis append_take_drop_id find_append)
    moreover have "av_chain t k' = ?c" using True by (simp add: av_chain_def)
    ultimately show ?thesis using True put(2) [of k'] by (auto simp: av_look_def find_append split: option.split)
  qed (use put(2) [of k'] in \<open>simp add: av_look_def\<close>)
  ultimately show ?thesis by blast
qed

text \<open>A search that found a node can be continued behind it.\<close>

lemma avtab_search_node_next_correct:
  assumes ok: "av_ok t" and p: "p = (nat (avtab_hash k (avmask t)), i)" "i < length (av_chain t k)" "fst (av_chain t k ! i) = k"
  shows "\<exists>r. avtab_search_node_next t (Some p) (ucast (specified k)) = Inr r \<and>
    (case r of None \<Rightarrow> find (av_hit k) (drop (Suc i) (av_chain t k)) = None
     | Some q \<Rightarrow> fst q = fst p \<and> i < snd q \<and> snd q < length (av_chain t k) \<and>
         find (av_hit k) (drop (Suc i) (av_chain t k)) = Some (av_chain t k ! snd q))"
proof -
  let ?c = "av_chain t k"
  have sl: "av_slot t (int (fst p)) = Inr ?c"
    using av_slot_hash [OF ok, of k] avtab_hash_range(1) [OF ok, of k] by (simp add: p(1))
  have srt: "av_sorted (drop (Suc i) ?c)"
    using av_chain_ok(1) [OF ok, of k] by (metis append_take_drop_id av_sorted_simps(3))
  let ?w = "av_search_walk k (av_spec k) (drop (Suc i) ?c) (Suc i)"
  have e: "avtab_search_node_next t (Some p) (ucast (specified k)) = Inr (map_option (\<lambda>j. (fst p, j)) ?w)"
    using sl p by (simp add: avtab_search_node_next_def av_node_def av_spec_def)
  show ?thesis
  proof (cases ?w)
    case None
    then show ?thesis using e av_search_walk_None [OF srt, of k "Suc i"] by simp
  next
    case (Some j)
    then show ?thesis using e av_search_walk_Some [OF Some] p(2) by auto
  qed
qed

text \<open>Writing through the pointer changes the data of the rule that was found, and of no other rule.\<close>

lemma av_write_correct:
  assumes ok: "av_ok t" and s: "avtab_search t k = Inr (Some p)" and l: "av_look t k = Some d"
  shows "\<exists>t'. av_write t p f = Inr t' \<and> av_ok t' \<and> av_look t' k = Some (d\<lparr>av_data := f (av_data d)\<rparr>) \<and>
    (\<forall>k'. \<not> av_same k k' \<longrightarrow> av_look t' k' = av_look t k')"
proof -
  let ?c = "av_chain t k" and ?hv = "avtab_hash k (avmask t)"
  let ?m = "?c ! snd p"
  have p: "fst p = nat ?hv" "snd p < length ?c" "find (av_hit k) ?c = Some ?m" "d = snd ?m"
      "find (av_hit k) (take (snd p) ?c) = None"
    using avtab_search_correct [OF ok, of k] s l by auto
  have hit: "av_hit k ?m" using p(3) by (auto simp: find_Some_iff)
  define n where "n = (fst ?m, (snd ?m)\<lparr>av_data := f (av_data (snd ?m))\<rparr>)"
  have n: "fst n = fst ?m" by (simp add: n_def)
  have same: "av_hit k' n = av_hit k' ?m" for k' by (simp add: av_hit_def n_def)
  let ?c' = "?c[snd p := n]"
  note c = av_chain_ok [OF ok, of k] and r = avtab_hash_range [OF ok, of k]
  have "map (\<lambda>n. av_triple (fst n)) ?c' = map (\<lambda>n. av_triple (fst n)) ?c"
    using p(2) n by (simp add: map_update list_update_same_conv)
  then have srt: "av_sorted ?c'" using c(1) by (simp add: av_sorted_def)
  have "\<forall>n\<in>set ?c'. avtab_hash (fst n) (avmask t) = ?hv"
    using c(2) p(2) n by (metis insert_iff nth_mem set_update_subset_insert subsetD)
  note put = av_put_ok [OF ok srt this]
  have nd: "av_node t p = Inr ?m"
    using av_slot_hash [OF ok, of k] r(1) p(1,2) by (simp add: av_node_def)
  have wr: "av_write t p f = Inr (av_put t k ?c')"
    using nd p(1) av_ok_Some [OF ok] by (auto simp: av_write_def av_put_def av_chain_def n_def)
  have split: "?c = take (snd p) ?c @ ?m # drop (Suc (snd p)) ?c" using p(2) by (rule id_take_nth_drop)
  have split': "?c' = take (snd p) ?c @ n # drop (Suc (snd p)) ?c" using p(2) by (rule upd_conv_take_nth_drop)
  have fk: "find (av_hit k) ?c' = Some n"
    using p(5) hit same [of k] by (simp add: split' find_append)
  have "find (av_hit k') ?c' = find (av_hit k') ?c" if "\<not> av_hit k' ?m" for k'
    using that same [of k'] by (subst split, subst split') (auto simp: find_append split: option.split)
  moreover have "\<not> av_hit k' ?m" if "\<not> av_same k k'" for k'
    using that hit by (auto simp: av_hit_def av_same_def)
  ultimately have oth: "av_look (av_put t k ?c') k' = av_look t k'" if "\<not> av_same k k'" for k'
    using that put(2) [of k'] by (cases "avtab_hash k' (avmask t) = ?hv") (simp_all add: av_look_def av_chain_def)
  have "av_look (av_put t k ?c') k = Some (d\<lparr>av_data := f (av_data d)\<rparr>)"
    using fk put(2) [of k] p(4) by (simp add: av_look_def n_def)
  with wr put(1) oth show ?thesis by blast
qed

text \<open>Allocation: a power of two of slots, at most \<open>MAX_AVTAB_HASH_BUCKETS\<close>.\<close>

lemma av_shift_le: "unat w < 2 ^ k \<Longrightarrow> av_shift w \<le> k"
proof (induction k arbitrary: w)
  case 0
  then have "w = 0" by (simp add: unat_eq_zero)
  then show ?case by (simp add: av_shift.simps)
next
  case (Suc k)
  then have "unat (drop_bit 1 w) < 2 ^ k" by (simp add: drop_bit_eq_div unat_div_distrib less_mult_imp_div_less mult.commute)
  then show ?case using Suc.IH [of "drop_bit 1 w"] by (subst av_shift.simps) auto
qed

lemma av_nslot_range: "av_nslot n \<noteq> 0 \<and> unat (av_nslot n) \<le> 1048576"
proof -
  have m: "unat MAX_AVTAB_HASH_BUCKETS = 1048576" by (simp add: MAX_AVTAB_HASH_BUCKETS_def)
  define s where "s = (if av_shift n > 2 then av_shift n - 2 else av_shift n)"
  have "av_shift n \<le> 32" using unat_lt_u32 [of n] by (intro av_shift_le) simp
  then have "s \<le> 30" unfolding s_def by arith
  then have "bit (push_bit s 1 :: u32) s" by (simp only: bit_push_bit_iff) simp
  then have "(push_bit s 1 :: u32) \<noteq> 0" by (metis bit_0_eq bot_apply bot_bool_def)
  moreover have "MAX_AVTAB_HASH_BUCKETS \<noteq> 0" using m by (metis unat_0 zero_neq_numeral)
  moreover have "av_nslot n = (if push_bit s 1 > MAX_AVTAB_HASH_BUCKETS then MAX_AVTAB_HASH_BUCKETS else push_bit s 1)"
    by (simp only: av_nslot_def Let_def s_def)
  ultimately show ?thesis using m by (auto simp: not_less word_le_nat_alt simp del: push_bit_of_1)
qed

lemma avtab_alloc_correct:
  assumes "n \<noteq> 0"
  shows "\<exists>t'. avtab_alloc t n = (t', 0) \<and> av_ok t' \<and> avnel t' = 0 \<and> av_look t' k = None"
proof -
  let ?t = "t\<lparr>avslots := Some (replicate (unat (av_nslot n)) []), avnel := 0, nslot := av_nslot n, avmask := av_nslot n - 1\<rparr>"
  have ok: "av_ok ?t" using av_nslot_range [of n] by (simp add: av_ok_def)
  moreover have "av_chain ?t k = []" using avtab_hash_range(2) [OF ok, of k] by (simp add: av_chain_def)
  ultimately show ?thesis using assms by (simp add: avtab_alloc_def Let_def av_look_def)
qed


section \<open>The interface of a rule store\<close>

text \<open>
  What a client that edits rules relies on: searching, inserting, and writing the data of a
  rule that a search returned. Two keys with different rules never disturb each other.
\<close>

locale rule_store =
  fixes inv :: "'t \<Rightarrow> bool"
    and look :: "'t \<Rightarrow> 'k \<Rightarrow> 'd option"
    and apart :: "'k \<Rightarrow> 'k \<Rightarrow> bool"
    and simple :: "'k \<Rightarrow> bool"
    and search :: "'t \<Rightarrow> 'k \<Rightarrow> 'p option res"
    and insert :: "'t \<Rightarrow> 'k \<Rightarrow> 'd \<Rightarrow> ('t \<times> int) res"
    and store :: "'t \<Rightarrow> 'p \<Rightarrow> (u32 \<Rightarrow> u32) \<Rightarrow> 't res"
    and upd :: "(u32 \<Rightarrow> u32) \<Rightarrow> 'd \<Rightarrow> 'd"
  assumes search: "inv t \<Longrightarrow> \<exists>r. search t k = Inr r \<and> (r = None \<longleftrightarrow> look t k = None)"
    and insert_new: "inv t \<Longrightarrow> simple k \<Longrightarrow> look t k = None \<Longrightarrow>
      \<exists>t'. insert t k d = Inr (t', 0) \<and> inv t' \<and> look t' k = Some d \<and> (\<forall>k'. apart k k' \<longrightarrow> look t' k' = look t k')"
    and store: "inv t \<Longrightarrow> search t k = Inr (Some p) \<Longrightarrow> look t k = Some d \<Longrightarrow>
      \<exists>t'. store t p f = Inr t' \<and> inv t' \<and> look t' k = Some (upd f d) \<and> (\<forall>k'. apart k k' \<longrightarrow> look t' k' = look t k')"
begin

text \<open>
  The editing step of a client: search, insert when there is nothing, search again, store.
\<close>

definition edit :: "'t \<Rightarrow> 'k \<Rightarrow> 'd \<Rightarrow> (u32 \<Rightarrow> u32) \<Rightarrow> ('t \<times> bool) res" where
  "edit t k d0 f =
     res_bind (search t k) (\<lambda>r. case r of
       Some p \<Rightarrow> res_bind (store t p f) (\<lambda>t. Inr (t, True))
     | None \<Rightarrow> res_bind (insert t k d0) (\<lambda>(t, rc).
         if rc \<noteq> 0 then Inr (t, False)
         else res_bind (search t k) (\<lambda>r. case r of
           None \<Rightarrow> Inl Null_Deref
         | Some p \<Rightarrow> res_bind (store t p f) (\<lambda>t. Inr (t, True)))))"

lemma edit_correct:
  assumes "inv t" and "simple k"
  shows "\<exists>t'. edit t k d0 f = Inr (t', True) \<and> inv t' \<and>
    look t' k = Some (upd f (case look t k of None \<Rightarrow> d0 | Some d \<Rightarrow> d)) \<and> (\<forall>k'. apart k k' \<longrightarrow> look t' k' = look t k')"
proof -
  obtain r where r: "search t k = Inr r" "r = None \<longleftrightarrow> look t k = None" using search [OF assms(1)] by blast
  show ?thesis
  proof (cases "look t k")
    case (Some d)
    then obtain p where p: "r = Some p" using r(2) by (cases r) auto
    from store [OF assms(1) r(1) [unfolded p] Some, of f] p r Some show ?thesis by (auto simp: edit_def)
  next
    case None
    obtain t1 where t1: "insert t k d0 = Inr (t1, 0)" "inv t1" "look t1 k = Some d0"
        "\<forall>k'. apart k k' \<longrightarrow> look t1 k' = look t k'"
      using insert_new [OF assms None] by blast
    obtain r1 where r1: "search t1 k = Inr r1" "r1 = None \<longleftrightarrow> look t1 k = None" using search [OF t1(2)] by blast
    then obtain p where p: "r1 = Some p" using t1(3) by (cases r1) auto
    from store [OF t1(2) r1(1) [unfolded p] t1(3), of f] p r r1 t1 None show ?thesis by (auto simp: edit_def)
  qed
qed

end

definition av_upd :: "(u32 \<Rightarrow> u32) \<Rightarrow> avtab_datum \<Rightarrow> avtab_datum" where
  "av_upd f d = d\<lparr>av_data := f (av_data d)\<rparr>"

definition av_simple :: "avtab_key \<Rightarrow> bool" where
  "av_simple k \<longleftrightarrow> av_spec k \<noteq> 0 \<and> specified k AND AVTAB_XPERMS = 0"

interpretation avtab: rule_store av_ok av_look "\<lambda>k k'. \<not> av_same k k'" av_simple avtab_search avtab_insert av_write av_upd
proof
  fix t k d p f
  assume ok: "av_ok t"
  show "\<exists>r. avtab_search t k = Inr r \<and> (r = None \<longleftrightarrow> av_look t k = None)"
  proof -
    obtain r where r: "avtab_search t k = Inr r" "case r of None \<Rightarrow> av_look t k = None
        | Some p \<Rightarrow> av_look t k = Some (snd (av_chain t k ! snd p))"
      using avtab_search_correct [OF ok, of k] by (auto split: option.splits)
    then show ?thesis by (cases r) auto
  qed
  show "\<exists>t'. avtab_insert t k d = Inr (t', 0) \<and> av_ok t' \<and> av_look t' k = Some d \<and>
      (\<forall>k'. \<not> av_same k k' \<longrightarrow> av_look t' k' = av_look t k')" if s: "av_simple k" and n: "av_look t k = None"
  proof -
    let ?n = "new_avnode k d"
    have nn: "?n = (k, d)" using s by (simp add: new_avnode_def av_simple_def)
    then have d: "snd ?n = d" by simp
    have h: "av_hit k ?n" using s by (simp add: nn av_hit_def av_same_def av_spec_self av_simple_def)
    have ap: "\<not> av_hit k' ?n" if "\<not> av_same k k'" for k' using that by (auto simp: nn av_hit_def av_same_def)
    obtain t' where t': "avtab_insert t k d = Inr (t', 0)" "av_ok t'"
      "\<And>k'. av_look t' k' = (case av_look t k' of Some x \<Rightarrow> Some x | None \<Rightarrow> if av_hit k' ?n then Some (snd ?n) else None)"
      using avtab_insert_correct [OF ok, of k d] n by auto
    have "av_look t' k = Some d" using t'(3) [of k] n h d by simp
    moreover have "av_look t' k' = av_look t k'" if "\<not> av_same k k'" for k'
      using t'(3) [of k'] ap [OF that] by (simp split: option.split)
    ultimately show ?thesis using t'(1,2) by blast
  qed
  show "\<exists>t'. av_write t p f = Inr t' \<and> av_ok t' \<and> av_look t' k = Some (av_upd f d) \<and>
      (\<forall>k'. \<not> av_same k k' \<longrightarrow> av_look t' k' = av_look t k')"
    if "avtab_search t k = Inr (Some p)" and "av_look t k = Some d"
    using av_write_correct [OF ok that] by (simp add: av_upd_def)
qed

end
