(* ===== verification/Sepol_Properties.thy ===== *)
theory Sepol_Properties
  imports Sepol_Ebitmap_Ops Sepol_Hashtab Sepol_Avtab
begin

text \<open>
  What the policy containers promise: bitmaps are sets of numbers with a faithful file
  format, hash tables are finite maps, the access vector table is a store of rules.
\<close>

section \<open>Bitmaps\<close>

definition demo_bits1 :: ebitmap where
  "demo_bits1 = \<lparr>enodes = [\<lparr>startbit = 0, mapw = 6\<rparr>, \<lparr>startbit = 128, mapw = 1\<rparr>], highbit = 192\<rparr>"

definition demo_bits2 :: ebitmap where
  "demo_bits2 = \<lparr>enodes = [\<lparr>startbit = 64, mapw = 3\<rparr>], highbit = 128\<rparr>"

lemma demo_bits_ok: "ebitmap_ok demo_bits1" "ebitmap_ok demo_bits2"
  by (simp_all add: demo_bits1_def demo_bits2_def ebitmap_ok_def last_hi_def node_lo_def)

text \<open>
  C15: writing a bit of a well-formed bitmap succeeds below 4294967232, keeps the bitmap
  well-formed, changes the set it stands for by exactly that number, and is seen by the
  next read of any bit; from 4294967232 on it is refused and the bitmap is unchanged.
\<close>

theorem ebitmap_is_a_set:
  assumes "ebitmap_ok e"
  shows "(ebitmap_get_bit e c \<longleftrightarrow> unat c \<in> ebits e) \<and>
    (if unat b < 4294967232
     then \<exists>e'. ebitmap_set_bit e b v = (e', 0) \<and> ebitmap_ok e' \<and>
        ebits e' = (if v then insert (unat b) (ebits e) else ebits e - {unat b}) \<and>
        ebitmap_get_bit e' c = (if c = b then v else ebitmap_get_bit e c)
     else ebitmap_set_bit e b v = (e, - EINVAL))"
proof (cases "unat b < 4294967232")
  case True
  then obtain e' where e': "ebitmap_set_bit e b v = (e', 0)" "ebitmap_ok e'"
      "ebits e' = (if v then insert (unat b) (ebits e) else ebits e - {unat b})"
    by (rule ebitmap_set_bit_correct [OF assms])
  moreover have "ebitmap_get_bit e' c = (if c = b then v else ebitmap_get_bit e c)"
    using ebitmap_get_bit_iff [OF assms, of c] ebitmap_get_bit_iff [OF e'(2), of c] e'(3)
    by (auto simp: word_unat_eq_iff)
  ultimately show ?thesis using True ebitmap_get_bit_iff [OF assms] by auto
qed (use ebitmap_get_bit_iff [OF assms] ebitmap_set_bit_overflow in \<open>simp add: not_less\<close>)

theorem ebitmap_is_a_set_witness:
  "(\<exists>e'. ebitmap_set_bit demo_bits1 70 True = (e', 0) \<and> ebitmap_get_bit e' 70) \<and>
   ebitmap_set_bit demo_bits1 0xFFFFFFF0 True = (demo_bits1, - 22) \<and> ebitmap_get_bit demo_bits1 2 = (2 \<in> ebits demo_bits1)"
  using ebitmap_is_a_set [OF demo_bits_ok(1), of 70 70 True] ebitmap_is_a_set [OF demo_bits_ok(1), of 2 "0xFFFFFFF0" True]
  by (auto simp: EINVAL_def)

text \<open>
  C35: on well-formed bitmaps the derived operations are union, intersection, symmetric
  difference, complement below a bound, difference and cardinality of the sets; none of them
  reports an error and every result is well-formed.  The distance is the number of members in
  which the sets differ, as an \<open>int\<close>: exact below 2147483648 differing members, and less by
  4294967296 from there on, since the unsigned count is stored in a signed variable.
\<close>

theorem ebitmap_algebra:
  assumes "ebitmap_ok e1" and "ebitmap_ok e2" and "unat m \<le> 4294967232"
  shows "(\<exists>d. ebitmap_or e1 e2 = (d, 0) \<and> ebitmap_ok d \<and> ebits d = ebits e1 \<union> ebits e2) \<and>
    (\<exists>d. ebitmap_and e1 e2 = (d, 0) \<and> ebitmap_ok d \<and> ebits d = ebits e1 \<inter> ebits e2) \<and>
    (\<exists>d. ebitmap_xor e1 e2 = (d, 0) \<and> ebitmap_ok d \<and> ebits d = (ebits e1 - ebits e2) \<union> (ebits e2 - ebits e1)) \<and>
    (\<exists>d. ebitmap_not e1 m = (d, 0) \<and> ebitmap_ok d \<and> ebits d = {i. i < unat m} - ebits e1) \<and>
    (\<exists>d. ebitmap_andnot e1 e2 m = (d, 0) \<and> ebitmap_ok d \<and> ebits d = {i \<in> ebits e1. i < unat m} - ebits e2) \<and>
    (unat (ebitmap_cardinality e1) = card (ebits e1)) \<and>
    (let differ = card ((ebits e1 - ebits e2) \<union> (ebits e2 - ebits e1))
     in ebitmap_hamming_distance e1 e2 =
          (if differ < 2147483648 then int differ else int differ - 4294967296))"
  apply (intro conjI)
  subgoal by (rule ebitmap_or_correct [OF assms(1,2)]) blast
  subgoal by (rule ebitmap_and_correct [OF assms(1,2)]) blast
  subgoal by (rule ebitmap_xor_correct [OF assms(1,2)]) blast
  subgoal by (rule ebitmap_not_correct [OF assms(1,3)]) blast
  subgoal by (rule ebitmap_andnot_correct [OF assms]) blast
  subgoal by (rule ebitmap_cardinality_correct [OF assms(1)])
  subgoal using ebitmap_differ_bound [OF assms(1,2)] ebitmap_hamming_correct [OF assms(1,2)]
    by (simp add: Let_def to_int32_cases)
  done

theorem ebitmap_algebra_witness:
  "(\<exists>d. ebitmap_or demo_bits1 demo_bits2 = (d, 0) \<and> ebits d = ebits demo_bits1 \<union> ebits demo_bits2) \<and>
   unat (ebitmap_cardinality demo_bits1) = card (ebits demo_bits1)"
  using ebitmap_algebra [OF demo_bits_ok, of 200] by auto

text \<open>
  the merging walks over two well-formed bitmaps decide set equality, inclusion and
  overlap, and a copy is the bitmap itself.
\<close>

theorem ebitmap_comparisons:
  assumes "ebitmap_ok e1" and "ebitmap_ok e2"
  shows "(ebitmap_cmp e1 e2 \<longleftrightarrow> ebits e1 = ebits e2) \<and>
    (ebitmap_contains e1 e2 \<longleftrightarrow> ebits e2 \<subseteq> ebits e1) \<and>
    (ebitmap_match_any e1 e2 \<longleftrightarrow> ebits e1 \<inter> ebits e2 \<noteq> {}) \<and>
    (ebitmap_cpy e1 = (e1, 0))"
  using ebitmap_cmp_correct [OF assms] ebitmap_contains_correct [OF assms] ebitmap_match_any_correct [OF assms]
    ebitmap_cpy_eq [of e1] by blast+

theorem ebitmap_comparisons_witness: "ebits demo_bits1 \<noteq> ebits demo_bits2 \<and> ebits demo_bits1 \<inter> ebits demo_bits2 = {}"
  using ebitmap_comparisons [OF demo_bits_ok]
  by (auto simp: demo_bits1_def demo_bits2_def ebitmap_cmp_def ebitmap_match_any_def)

text \<open>
  a bitmap written to a policy file is read back equal and the reader stops behind it.
\<close>

theorem ebitmap_file_roundtrip:
  assumes "ebitmap_ok e"
  shows "ebitmap_read (ebitmap_write e @ rest) = (e, 0, rest)"
  by (rule ebitmap_read_write [OF assms])

theorem ebitmap_file_roundtrip_witness: "ebitmap_read (ebitmap_write demo_bits1 @ [7]) = (demo_bits1, 0, [7])"
  by (rule ebitmap_file_roundtrip [OF demo_bits_ok(1)])

text \<open>
  whatever bytes a policy file holds, the bitmap reader leaves a well-formed bitmap: on
  success the one it read, on every error (short file, wrong unit, unaligned or unordered
  or empty nodes, a wrong end) the empty one, with a negative result.
\<close>

theorem ebitmap_read_invariant:
  assumes "ebitmap_read fp = (e, rc, fp')"
  shows "ebitmap_ok e \<and> rc \<le> 0 \<and> (rc < 0 \<longrightarrow> e = ebitmap_init)"
  using ebitmap_read_ok [OF assms] by blast

lemma read_short: "ebitmap_read [1, 2, 3] = (ebitmap_init, - 1, [1, 2, 3])"
  by (simp add: ebitmap_read_def next_entry_def)

theorem ebitmap_read_invariant_witness:
  "ebitmap_ok (fst (ebitmap_read [1, 2, 3])) \<and> fst (snd (ebitmap_read [1, 2, 3])) = - 1 \<and> fst (ebitmap_read [1, 2, 3]) = ebitmap_init"
  using ebitmap_read_invariant [OF read_short] by (simp add: read_short)

section \<open>Symbol tables\<close>

text \<open>
  C17: over a symbol table of any size below 2^31, insertion, lookup and removal are those of
  a finite map from C strings: a second insertion under the same name is refused with
  \<open>SEPOL_EEXIST\<close>, a removal of an unknown name with \<open>SEPOL_ENOENT\<close>, the counter \<open>nel\<close> is
  the number of nodes, the destroy callback runs once on the removed node, and no operation
  leaves the table's array.
\<close>

theorem hashtab_is_a_map:
  assumes "sym.table_ok t" and "sym.counted t" and "sym_ok k"
  shows "(hashtab_search (Some t) k = Inr (sym.contents t k)) \<and>
    (case sym.contents t k of
        Some _ \<Rightarrow> hashtab_insert (Some t) k d = Inr (Some t, SEPOL_EEXIST)
      | None \<Rightarrow> (\<exists>t'. hashtab_insert (Some t) k d = Inr (Some t', SEPOL_OK) \<and> sym.table_ok t' \<and> sym.counted t' \<and>
          hsize t' = hsize t \<and> sym.contents t' = (sym.contents t)(k \<mapsto> d))) \<and>
    (case sym.contents t k of
        None \<Rightarrow> hashtab_remove (Some t) k f s = Inr (Some t, s, SEPOL_ENOENT)
      | Some d \<Rightarrow> (\<exists>t'. hashtab_remove (Some t) k f s = Inr (Some t', run_destroy f (k, d) s, SEPOL_OK) \<and>
          sym.table_ok t' \<and> sym.counted t' \<and> sym.contents t' = (sym.contents t)(k := None)))"
  apply (intro conjI)
  subgoal by (rule sym.search_correct [OF assms(1,3)])
  subgoal by (rule sym.insert_correct [OF assms])
  subgoal by (rule sym.remove_correct [OF assms])
  done

definition demo_table :: "(bytes, nat) hashtab" where
  "demo_table = \<lparr>htable = [[([98], 7)], [([97], 1), ([99], 2)]], hsize = 2, nel = 3, hash_value = symhash, keycmp = symcmp\<rparr>"

lemma demo_hash: "symhash 2 [97] = 1" "symhash 2 [98] = 0" "symhash 2 [99] = 1" "symhash 2 [100] = 0"
  by (simp_all add: symhash_def)

lemma demo_slots: "i < 2 \<Longrightarrow> htable demo_table ! i = (if i = 0 then [([98], 7)] else [([97], 1), ([99], 2)])"
  by (auto simp: demo_table_def less_2_cases_iff)

lemma demo_table_ok: "sym.table_ok demo_table" "sym.counted demo_table" "sym_ok [99]" "sym_ok [100]"
proof -
  have f: "hsize demo_table = 2" "hash_value demo_table = symhash" "keycmp demo_table = symcmp" "length (htable demo_table) = 2"
    by (simp_all add: demo_table_def)
  have "sym.chain_ok (htable demo_table ! i) \<and> (\<forall>n\<in>set (htable demo_table ! i). sym.slot_of demo_table (fst n) = i)"
    if i: "i < 2" for i
    using less_2_cases [OF i] by (auto simp: demo_slots sym.chain_ok_def sym.slot_of_def f demo_hash sym_ok_def symcmp_def)
  then show "sym.table_ok demo_table" by (simp add: sym.table_ok_def f)
  show "sym.counted demo_table" by (simp add: sym.counted_def demo_table_def)
qed (simp_all add: sym_ok_def)

lemma demo_contents: "sym.contents demo_table [99] = Some 2" "sym.contents demo_table [100] = None"
  by (simp_all add: sym.contents_def sym.slot_of_def demo_hash demo_slots) (simp_all add: demo_table_def sym.slot_of_def demo_hash)

theorem hashtab_is_a_map_witness:
  "hashtab_search (Some demo_table) [99] = Inr (Some 2) \<and> hashtab_insert (Some demo_table) [99] 5 = Inr (Some demo_table, - 17) \<and>
   (\<exists>t'. hashtab_remove (Some demo_table) [99] None () = Inr (Some t', (), 0)) \<and>
   (\<exists>t'. hashtab_insert (Some demo_table) [100] 5 = Inr (Some t', 0) \<and> sym.table_ok t')"
  using hashtab_is_a_map [OF demo_table_ok(1-3), of 5 None "()"] hashtab_is_a_map [OF demo_table_ok(1,2,4), of 5 None "()"]
  by (auto simp: demo_contents SEPOL_OK_def SEPOL_EEXIST_def)

text \<open>
  replacing works on the contents like an update, but a replacement that had to insert a
  node does not count it: from then on \<open>nel\<close> is behind the number of nodes.
\<close>

theorem hashtab_replace_miscounts:
  assumes "sym.table_ok t" and "sym.counted t" and "sym_ok k"
  shows "\<exists>t'. hashtab_replace (Some t) k d f s =
      Inr (Some t', (case sym.contents t k of None \<Rightarrow> s | Some old \<Rightarrow> run_destroy f (k, old) s), SEPOL_OK) \<and>
    sym.table_ok t' \<and> sym.contents t' = (sym.contents t)(k \<mapsto> d) \<and> (sym.counted t' \<longleftrightarrow> sym.contents t k \<noteq> None)"
proof -
  obtain t' where t': "hashtab_replace (Some t) k d f s =
      Inr (Some t', (case sym.contents t k of None \<Rightarrow> s | Some old \<Rightarrow> run_destroy f (k, old) s), SEPOL_OK)"
    "sym.table_ok t'" "sym.contents t' = (sym.contents t)(k \<mapsto> d)" "nel t' = nel t"
    "length (concat (htable t')) = length (concat (htable t)) + (if sym.contents t k = None then 1 else 0)"
    using sym.replace_correct [OF assms(1,3), of d f s] by blast
  have "(word_of_nat (Suc n) :: u32) \<noteq> word_of_nat n" for n by simp
  then have "sym.counted t' \<longleftrightarrow> sym.contents t k \<noteq> None"
    using assms(2) t'(4,5) unfolding sym.counted_def by (cases "sym.contents t k") auto
  with t' show ?thesis by blast
qed

theorem hashtab_replace_miscounts_witness:
  "\<exists>t'. hashtab_replace (Some demo_table) [100] 5 None () = Inr (Some t', (), 0) \<and> \<not> sym.counted t'"
  using hashtab_replace_miscounts [OF demo_table_ok(1,2,4), of 5 None "()"] by (auto simp: demo_contents SEPOL_OK_def)

section \<open>The access vector table\<close>

text \<open>
  C16: on a well-formed table \<open>avtab_search\<close> and \<open>avtab_search_node\<close> find the first rule of
  the chain with the key although they stop at the first larger node; \<open>avtab_insert\<close> adds
  exactly one rule where there was none, refuses with \<open>SEPOL_EEXIST\<close> where there was one,
  except for extended permissions, where the new rule comes first.
\<close>

theorem avtab_is_a_rule_store:
  assumes ok: "av_ok t"
  shows "(\<exists>r. avtab_search t k = Inr r \<and> avtab_search_node t k = Inr r \<and>
      (case r of None \<Rightarrow> find (av_hit k) (av_chain t k) = None
       | Some p \<Rightarrow> \<exists>n. av_node t p = Inr n \<and> find (av_hit k) (av_chain t k) = Some n)) \<and>
    (case av_look t k of
        Some _ \<Rightarrow> if av_spec k AND AVTAB_XPERMS = 0 then avtab_insert t k d = Inr (t, EEXIST_AV)
          else (\<exists>t'. avtab_insert t k d = Inr (t', 0) \<and> av_ok t' \<and> av_look t' k = Some (snd (new_avnode k d)))
      | None \<Rightarrow> (\<exists>t'. avtab_insert t k d = Inr (t', 0) \<and> av_ok t' \<and> avnel t' = avnel t + 1 \<and>
          (\<forall>k'. av_look t' k' = (case av_look t k' of Some x \<Rightarrow> Some x
             | None \<Rightarrow> if av_hit k' (new_avnode k d) then Some (snd (new_avnode k d)) else None))))"
proof (rule conjI)
  obtain r where r: "avtab_search t k = Inr r" "avtab_search_node t k = Inr r"
    "case r of None \<Rightarrow> av_look t k = None
     | Some p \<Rightarrow> fst p = nat (avtab_hash k (avmask t)) \<and> snd p < length (av_chain t k) \<and>
         find (av_hit k) (av_chain t k) = Some (av_chain t k ! snd p)"
    using avtab_search_correct [OF ok, of k] by (auto split: option.splits)
  have "av_node t p = Inr (av_chain t k ! snd p)" if "r = Some p" for p
    using r(3) that av_slot_hash [OF ok, of k] avtab_hash_range(1) [OF ok, of k] by (simp add: av_node_def)
  then have "case r of None \<Rightarrow> find (av_hit k) (av_chain t k) = None
       | Some p \<Rightarrow> \<exists>n. av_node t p = Inr n \<and> find (av_hit k) (av_chain t k) = Some n"
    using r(3) by (cases r) (auto simp: av_look_def)
  with r(1,2) show "\<exists>r. avtab_search t k = Inr r \<and> avtab_search_node t k = Inr r \<and>
      (case r of None \<Rightarrow> find (av_hit k) (av_chain t k) = None
       | Some p \<Rightarrow> \<exists>n. av_node t p = Inr n \<and> find (av_hit k) (av_chain t k) = Some n)" by blast
qed (rule avtab_insert_correct [OF ok])

definition demo_key :: avtab_key where
  "demo_key = \<lparr>source_type = 3, target_type = 4, target_class = 5, specified = 1\<rparr>"

definition demo_avtab :: avtab where
  "demo_avtab = fst (avtab_alloc \<lparr>avslots = None, avnel = 0, nslot = 0, avmask = 0\<rparr> 8)"

lemma demo_avtab_ok: "av_ok demo_avtab" "av_look demo_avtab k = None"
  using avtab_alloc_correct [of 8 "\<lparr>avslots = None, avnel = 0, nslot = 0, avmask = 0\<rparr>" k] by (auto simp: demo_avtab_def)

theorem avtab_is_a_rule_store_witness:
  "\<exists>t'. avtab_insert demo_avtab demo_key \<lparr>av_data = 9, xperms = None\<rparr> = Inr (t', 0) \<and> av_ok t' \<and> avtab_search demo_avtab demo_key = Inr None"
proof -
  have "avtab_search demo_avtab demo_key = Inr None"
  proof -
    obtain r where "avtab_search demo_avtab demo_key = Inr r" and
      "case r of None \<Rightarrow> True | Some p \<Rightarrow> \<exists>n. find (av_hit demo_key) (av_chain demo_avtab demo_key) = Some n"
      using avtab_is_a_rule_store [OF demo_avtab_ok(1), of demo_key "\<lparr>av_data = 9, xperms = None\<rparr>"] by (auto split: option.splits)
    then show ?thesis using demo_avtab_ok(2) [of demo_key] by (cases r) (auto simp: av_look_def)
  qed
  then show ?thesis
    using avtab_is_a_rule_store [OF demo_avtab_ok(1), of demo_key "\<lparr>av_data = 9, xperms = None\<rparr>"] demo_avtab_ok(2) [of demo_key]
    by auto
qed

text \<open>
  C36: allocating for any number of rules gives a well-formed empty table with between one
  and 2^20 slots, the counting loop ends, and every key's slot is inside the array.
\<close>

theorem avtab_alloc_bounds:
  assumes "n \<noteq> 0"
  shows "\<exists>t'. avtab_alloc t n = (t', 0) \<and> av_ok t' \<and> avnel t' = 0 \<and> 0 < unat (nslot t') \<and> unat (nslot t') \<le> 1048576 \<and>
    0 \<le> avtab_hash k (avmask t') \<and> avtab_hash k (avmask t') < int (unat (nslot t')) \<and> av_look t' k = None"
proof -
  obtain t' where t': "avtab_alloc t n = (t', 0)" "av_ok t'" "avnel t' = 0" "av_look t' k = None"
    using avtab_alloc_correct [OF assms, of t k] by blast
  from t'(2) have "0 < unat (nslot t')" "unat (nslot t') \<le> 1048576"
    by (auto elim!: av_okE simp: unat_gt_0)
  moreover have "avtab_hash k (avmask t') < int (unat (nslot t'))"
    using avtab_hash_range [OF t'(2), of k] by linarith
  ultimately show ?thesis using t' avtab_hash_range(1) [OF t'(2), of k] by blast
qed

theorem avtab_alloc_bounds_witness:
  "\<exists>t'. avtab_alloc demo_avtab 100 = (t', 0) \<and> av_ok t' \<and> unat (nslot t') \<le> 1048576"
  using avtab_alloc_bounds [of 100 demo_avtab demo_key] by auto

end
