(* ===== verification/Bxxt_File.thy ===== *)
theory Bxxt_File
  imports Boot_Pack
begin

text \<open>
  The file handles of util.c over an explicit operating system: files, a descriptor table
  and memory mappings. Every tool opens its files through them.
\<close>

section \<open>The operating system\<close>

record ofile =
  of_name :: string
  of_pos :: nat
  of_flags :: u32

text \<open>
  \<open>os_fdt\<close> is the descriptor table with \<open>os_nofile\<close> entries, \<open>os_map\<close> the private
  mappings by address (a positive number), \<open>os_may\<close> the permissions.
\<close>

record os =
  os_fs :: fs
  os_fdt :: "nat \<Rightarrow> ofile option"
  os_nofile :: nat
  os_map :: "nat \<Rightarrow> bytes option"
  os_may :: "string \<Rightarrow> u32 \<Rightarrow> bool"

definition O_RDONLY :: u32 where "O_RDONLY = 0"
definition O_WRONLY :: u32 where "O_WRONLY = 1"
definition O_RDWR :: u32 where "O_RDWR = 2"
definition O_CREAT :: u32 where "O_CREAT = 0x40"
definition O_EXCL :: u32 where "O_EXCL = 0x80"
definition O_TRUNC :: u32 where "O_TRUNC = 0x200"

definition can_write :: "u32 \<Rightarrow> bool" where
  "can_write fl \<longleftrightarrow> fl AND 3 = O_WRONLY \<or> fl AND 3 = O_RDWR"

definition can_read :: "u32 \<Rightarrow> bool" where
  "can_read fl \<longleftrightarrow> fl AND 3 = O_RDONLY \<or> fl AND 3 = O_RDWR"

text \<open>\<open>open\<close>: the lowest free descriptor.\<close>

definition new_fd :: "string \<Rightarrow> u32 \<Rightarrow> os \<Rightarrow> os \<times> int" where
  "new_fd nm fl s =
     (case find (\<lambda>i. os_fdt s i = None) [0..<os_nofile s] of
        None \<Rightarrow> (s, - 1)
      | Some i \<Rightarrow> (s\<lparr>os_fdt := (os_fdt s)(i \<mapsto> \<lparr>of_name = nm, of_pos = 0, of_flags = fl\<rparr>)\<rparr>, int i))"

definition os_open :: "string \<Rightarrow> u32 \<Rightarrow> os \<Rightarrow> os \<times> int" where
  "os_open nm fl s =
     (if \<not> os_may s nm fl then (s, - 1)
      else case os_fs s nm of
        None \<Rightarrow>
          if fl AND O_CREAT = 0 then (s, - 1)
          else (case new_fd nm fl s of (s', fd) \<Rightarrow>
                  if fd = - 1 then (s, - 1) else (s'\<lparr>os_fs := (os_fs s')(nm \<mapsto> Reg [])\<rparr>, fd))
      | Some Dir \<Rightarrow> if can_write fl \<or> fl AND O_CREAT \<noteq> 0 then (s, - 1) else new_fd nm fl s
      | Some (Reg d) \<Rightarrow>
          if fl AND O_CREAT \<noteq> 0 \<and> fl AND O_EXCL \<noteq> 0 then (s, - 1)
          else (case new_fd nm fl s of (s', fd) \<Rightarrow>
                  if fd = - 1 then (s, - 1)
                  else if fl AND O_TRUNC \<noteq> 0 \<and> can_write fl then (s'\<lparr>os_fs := (os_fs s')(nm \<mapsto> Reg [])\<rparr>, fd)
                  else (s', fd)))"

definition os_close :: "int \<Rightarrow> os \<Rightarrow> os" where
  "os_close fd s = (if 0 \<le> fd then s\<lparr>os_fdt := (os_fdt s)(nat fd := None)\<rparr> else s)"

text \<open>\<open>st_size\<close> of an open descriptor.\<close>

definition os_fstat :: "int \<Rightarrow> os \<Rightarrow> nat option" where
  "os_fstat fd s =
     (if fd < 0 then None
      else case os_fdt s (nat fd) of None \<Rightarrow> None | Some f \<Rightarrow> stat_size (os_fs s) (of_name f))"

text \<open>\<open>mmap\<close> of a whole file: a copy, since all mappings are \<open>MAP_PRIVATE\<close>.\<close>

datatype mptr = Null | Map_Failed | Mapped nat

definition os_mmap :: "int \<Rightarrow> os \<Rightarrow> os \<times> mptr" where
  "os_mmap fd s =
     (case (if fd < 0 then None else os_fdt s (nat fd)) of
        None \<Rightarrow> (s, Map_Failed)
      | Some f \<Rightarrow>
          if \<not> can_read (of_flags f) then (s, Map_Failed)
          else case map_file (os_fs s) (of_name f) of
            None \<Rightarrow> (s, Map_Failed)
          | Some d \<Rightarrow> (case find (\<lambda>i. os_map s i = None) [1..<65536] of
                None \<Rightarrow> (s, Map_Failed)
              | Some i \<Rightarrow> (s\<lparr>os_map := (os_map s)(i \<mapsto> d)\<rparr>, Mapped i)))"

definition os_munmap :: "nat \<Rightarrow> os \<Rightarrow> os" where
  "os_munmap p s = s\<lparr>os_map := (os_map s)(p := None)\<rparr>"

text \<open>\<open>lseek\<close> to an absolute position: the \<open>off_t\<close> is signed.\<close>

definition os_lseek :: "int \<Rightarrow> u64 \<Rightarrow> os \<Rightarrow> os \<times> u64" where
  "os_lseek fd off s =
     (if fd < 0 \<or> sint off < 0 then (s, - 1)
      else case os_fdt s (nat fd) of
        None \<Rightarrow> (s, - 1)
      | Some f \<Rightarrow> (s\<lparr>os_fdt := (os_fdt s)(nat fd \<mapsto> f\<lparr>of_pos := unat off\<rparr>)\<rparr>, off))"

text \<open>\<open>write\<close>: a hole before the position reads as zeros.\<close>

definition write_at :: "bytes \<Rightarrow> nat \<Rightarrow> bytes \<Rightarrow> bytes" where
  "write_at d pos x = splice (d @ replicate (pos + length x - length d) 0) pos x"

definition os_write :: "int \<Rightarrow> bytes \<Rightarrow> os \<Rightarrow> os \<times> int" where
  "os_write fd x s =
     (if fd < 0 then (s, - 1)
      else case os_fdt s (nat fd) of
        None \<Rightarrow> (s, - 1)
      | Some f \<Rightarrow>
          if \<not> can_write (of_flags f) then (s, - 1)
          else let s' = s\<lparr>os_fdt := (os_fdt s)(nat fd \<mapsto> f\<lparr>of_pos := of_pos f + length x\<rparr>)\<rparr> in
            case os_fs s (of_name f) of
              Some (Reg d) \<Rightarrow>
                (if x = [] then s'
                 else s'\<lparr>os_fs := (os_fs s)(of_name f \<mapsto> Reg (write_at d (of_pos f) x))\<rparr>, int (length x))
            | _ \<Rightarrow> (s, - 1))"

section \<open>Handles\<close>

record bxxt_file =
  fl_fd :: int
  fl_name :: string
  fl_flags :: u32
  fl_mode :: u32
  fl_size :: nat
  fl_mm :: bool
  fl_mm_flags :: u32
  fl_mm_prot :: u32
  fl_ptr :: mptr

definition PATH_MAX :: nat where "PATH_MAX = 4096"

text \<open>\<open>strcpy\<close> into the name needs room for the terminator.\<close>

definition bxxt_file_new :: "string \<Rightarrow> u32 \<Rightarrow> u32 \<Rightarrow> bxxt_file res" where
  "bxxt_file_new file flags mode =
     (if length file < PATH_MAX
      then Inr \<lparr>fl_fd = 0, fl_name = file, fl_flags = flags, fl_mode = mode, fl_size = 0, fl_mm = False,
        fl_mm_flags = 0, fl_mm_prot = 0, fl_ptr = Null\<rparr>
      else Inl Oob_Write)"

definition bxxt_file_new_mm :: "string \<Rightarrow> u32 \<Rightarrow> u32 \<Rightarrow> u32 \<Rightarrow> u32 \<Rightarrow> bxxt_file res" where
  "bxxt_file_new_mm file flags mode mm_flags mm_prot =
     res_bind (bxxt_file_new file flags mode) (\<lambda>F.
       Inr (F\<lparr>fl_mm := True, fl_mm_flags := mm_flags, fl_mm_prot := mm_prot\<rparr>))"

definition bxxt_file_close_no_free :: "bxxt_file \<Rightarrow> os \<Rightarrow> os" where
  "bxxt_file_close_no_free file s =
     (let s = (case fl_ptr file of Mapped p \<Rightarrow> os_munmap p s | _ \<Rightarrow> s)
      in if fl_fd file \<noteq> 0 \<and> fl_fd file \<noteq> - 1 then os_close (fl_fd file) s else s)"

definition bxxt_file_open :: "bxxt_file \<Rightarrow> os \<Rightarrow> bxxt_file \<times> os \<times> int" where
  "bxxt_file_open file s =
     (let (s, fd) = os_open (fl_name file) (fl_flags file) s;
          file = file\<lparr>fl_fd := fd\<rparr>
      in if fd = - 1 \<or> os_fstat fd s = None then (file, bxxt_file_close_no_free file s, - 1)
         else
           let file = file\<lparr>fl_size := the (os_fstat fd s)\<rparr>;
               (s, p) = (if fl_mm file then os_mmap fd s else (s, fl_ptr file));
               file = file\<lparr>fl_ptr := p\<rparr>
           in if \<not> fl_mm file \<or> fl_ptr file \<noteq> Map_Failed then (file, s, 0)
              else (file, bxxt_file_close_no_free file s, - 1))"

definition bxxt_file_close :: "bxxt_file option \<Rightarrow> os \<Rightarrow> os" where
  "bxxt_file_close file s = (case file of None \<Rightarrow> s | Some f \<Rightarrow> bxxt_file_close_no_free f s)"

section \<open>Opening and closing\<close>

definition fresh_handle :: "bxxt_file \<Rightarrow> bool" where
  "fresh_handle f \<longleftrightarrow> fl_ptr f = Null \<and> fl_fd f = 0"

lemma new_handles:
  "length n < PATH_MAX \<Longrightarrow> \<exists>f. bxxt_file_new n fl m = Inr f \<and> fresh_handle f \<and> fl_name f = n \<and> fl_flags f = fl \<and> \<not> fl_mm f"
  "length n < PATH_MAX \<Longrightarrow> \<exists>f. bxxt_file_new_mm n fl m a b = Inr f \<and> fresh_handle f \<and> fl_name f = n \<and> fl_flags f = fl \<and> fl_mm f"
  by (auto simp: bxxt_file_new_def bxxt_file_new_mm_def fresh_handle_def)

lemma new_fd_cases:
  obtains "new_fd n fl s = (s, - 1)"
  | i where "new_fd n fl s = (s\<lparr>os_fdt := (os_fdt s)(i \<mapsto> \<lparr>of_name = n, of_pos = 0, of_flags = fl\<rparr>)\<rparr>, int i)"
      and "os_fdt s i = None" and "i < os_nofile s"
proof (cases "find (\<lambda>i. os_fdt s i = None) [0..<os_nofile s]")
  case None
  then show ?thesis using that(1) by (simp add: new_fd_def)
next
  case (Some i)
  then have "i < os_nofile s \<and> os_fdt s i = None" by (auto simp: find_Some_iff)
  then show ?thesis using that(2) [of i] Some by (simp add: new_fd_def)
qed

text \<open>What \<open>open\<close> can do: fail and leave everything, or take one free descriptor and make sure the file is there.\<close>

lemma os_open_cases:
  obtains "os_open n fl s = (s, - 1)"
  | i fs' where "os_open n fl s = (s\<lparr>os_fdt := (os_fdt s)(i \<mapsto> \<lparr>of_name = n, of_pos = 0, of_flags = fl\<rparr>), os_fs := fs'\<rparr>, int i)"
      and "os_fdt s i = None" and "fs' n \<noteq> None"
      and "fs' = os_fs s \<or> (fs' = (os_fs s)(n \<mapsto> Reg []) \<and> (fl AND O_CREAT \<noteq> 0 \<or> fl AND O_TRUNC \<noteq> 0))"
      and "\<not> can_write fl \<or> (\<exists>d. fs' n = Some (Reg d))"
proof (cases "os_open n fl s = (s, - 1)")
  case False
  let ?f = "\<lparr>of_name = n, of_pos = 0, of_flags = fl\<rparr>"
  have may: "os_may s n fl" using False by (rule contrapos_np) (simp add: os_open_def)
  show ?thesis
  proof (cases n fl s rule: new_fd_cases)
    case 1
    then show ?thesis using False may by (simp add: os_open_def split: option.splits fnode.splits if_splits)
  next
    case (2 i)
    have up: "s\<lparr>os_fdt := x\<rparr> = s\<lparr>os_fdt := x, os_fs := os_fs s\<rparr>" for x by simp
    note opened = that(2) [OF _ 2(2)]
    show ?thesis
    proof (cases "os_fs s n")
      case None
      then have cr: "fl AND O_CREAT \<noteq> 0" using False may by (auto simp: os_open_def)
      then have "os_open n fl s = (s\<lparr>os_fdt := (os_fdt s)(i \<mapsto> ?f), os_fs := (os_fs s)(n \<mapsto> Reg [])\<rparr>, int i)"
        using None may 2(1) by (simp add: os_open_def)
      from opened [OF this] None cr show ?thesis by simp
    next
      case (Some x)
      show ?thesis
      proof (cases x)
        case Dir
        have "\<not> (can_write fl \<or> fl AND O_CREAT \<noteq> 0)"
        proof
          assume "can_write fl \<or> fl AND O_CREAT \<noteq> 0"
          then have "os_open n fl s = (s, - 1)" using may Some Dir by (simp add: os_open_def)
          with False show False by simp
        qed
        then have w: "\<not> can_write fl" "fl AND O_CREAT = 0" by auto
        then have "os_open n fl s = (s\<lparr>os_fdt := (os_fdt s)(i \<mapsto> ?f), os_fs := os_fs s\<rparr>, int i)"
          using Some Dir may 2(1) by (simp add: os_open_def up [symmetric])
        from opened [OF this] Some w show ?thesis by simp
      next
        case (Reg d)
        have ex: "\<not> (fl AND O_CREAT \<noteq> 0 \<and> fl AND O_EXCL \<noteq> 0)"
        proof
          assume "fl AND O_CREAT \<noteq> 0 \<and> fl AND O_EXCL \<noteq> 0"
          then have "os_open n fl s = (s, - 1)" using may Some Reg by (simp add: os_open_def)
          with False show False by simp
        qed
        show ?thesis
        proof (cases "fl AND O_TRUNC \<noteq> 0 \<and> can_write fl")
          case True
          then have "os_open n fl s = (s\<lparr>os_fdt := (os_fdt s)(i \<mapsto> ?f), os_fs := (os_fs s)(n \<mapsto> Reg [])\<rparr>, int i)"
            using Some Reg may 2(1) ex by (simp add: os_open_def)
          from opened [OF this] True show ?thesis by simp
        next
          case False
          then have "os_open n fl s = (s\<lparr>os_fdt := (os_fdt s)(i \<mapsto> ?f), os_fs := os_fs s\<rparr>, int i)"
            using Some Reg may 2(1) ex by (auto simp: os_open_def)
          from opened [OF this] Some Reg show ?thesis by simp
        qed
      qed
    qed
  qed
qed (rule that(1))


lemma os_mmap_cases:
  obtains "os_mmap fd s = (s, Map_Failed)"
  | p d where "os_mmap fd s = (s\<lparr>os_map := (os_map s)(p \<mapsto> d)\<rparr>, Mapped p)" and "os_map s p = None" and "d \<noteq> []"
      and "\<exists>f. os_fdt s (nat fd) = Some f \<and> os_fs s (of_name f) = Some (Reg d)"
proof (cases "os_mmap fd s = (s, Map_Failed)")
  case False
  then obtain f d p where m: "0 \<le> fd" "os_fdt s (nat fd) = Some f" "map_file (os_fs s) (of_name f) = Some d"
      "find (\<lambda>i. os_map s i = None) [1..<65536] = Some p" "can_read (of_flags f)"
    by (auto simp: os_mmap_def split: if_splits option.splits)
  then have "os_mmap fd s = (s\<lparr>os_map := (os_map s)(p \<mapsto> d)\<rparr>, Mapped p)"
    by (simp add: os_mmap_def)
  moreover have "os_map s p = None" using m(4) by (auto simp: find_Some_iff)
  moreover have "d \<noteq> []" "os_fs s (of_name f) = Some (Reg d)"
    using m(3) by (auto simp: map_file_def split: option.splits fnode.splits if_splits)
  ultimately show ?thesis using that(2) m(2) by blast
qed (rule that(1))

text \<open>
  Opening a fresh handle and closing it, whatever the outcome of the open, leaves the
  descriptor table and the mappings as they were; a success gives the file's size and,
  when asked for, its contents in memory.
\<close>

lemma bxxt_file_open_effect:
  assumes fresh: "fresh_handle f" and std: "os_fdt s 0 \<noteq> None" and op: "bxxt_file_open f s = (f', s', r)"
  shows "os_fdt (bxxt_file_close (Some f') s') = os_fdt s \<and> os_map (bxxt_file_close (Some f') s') = os_map s \<and>
    (r = 0 \<or> r = - 1 \<and> os_fdt s' = os_fdt s \<and> os_map s' = os_map s)"
    and "r = 0 \<Longrightarrow> os_fdt s' (nat (fl_fd f')) = Some \<lparr>of_name = fl_name f, of_pos = 0, of_flags = fl_flags f\<rparr> \<and> 0 < fl_fd f' \<and>
      stat_size (os_fs s') (fl_name f) = Some (fl_size f')"
    and "r = 0 \<Longrightarrow> fl_mm f \<Longrightarrow> \<exists>p d. fl_ptr f' = Mapped p \<and> os_map s' p = Some d \<and> os_fs s' (fl_name f) = Some (Reg d) \<and>
      fl_size f' = length d \<and> d \<noteq> []"
    and "fl_flags f AND O_CREAT = 0 \<Longrightarrow> fl_flags f AND O_TRUNC = 0 \<Longrightarrow> os_fs s' = os_fs s"
proof -
  let ?o = "\<lparr>of_name = fl_name f, of_pos = 0, of_flags = fl_flags f\<rparr>"
  have fr: "fl_ptr f = Null" "fl_fd f = 0" using fresh by (auto simp: fresh_handle_def)
  have res: "(os_fdt (bxxt_file_close (Some f') s') = os_fdt s \<and> os_map (bxxt_file_close (Some f') s') = os_map s \<and>
      (r = 0 \<or> r = - 1 \<and> os_fdt s' = os_fdt s \<and> os_map s' = os_map s)) \<and>
    (r = 0 \<longrightarrow> os_fdt s' (nat (fl_fd f')) = Some ?o \<and> 0 < fl_fd f' \<and> stat_size (os_fs s') (fl_name f) = Some (fl_size f')) \<and>
    (r = 0 \<longrightarrow> fl_mm f \<longrightarrow> (\<exists>p d. fl_ptr f' = Mapped p \<and> os_map s' p = Some d \<and> os_fs s' (fl_name f) = Some (Reg d) \<and>
      fl_size f' = length d \<and> d \<noteq> [])) \<and>
    (fl_flags f AND O_CREAT = 0 \<longrightarrow> fl_flags f AND O_TRUNC = 0 \<longrightarrow> os_fs s' = os_fs s)"
  proof (cases "fl_name f" "fl_flags f" s rule: os_open_cases)
    case 1
    then show ?thesis using op fr
      by (auto simp: bxxt_file_open_def Let_def bxxt_file_close_no_free_def bxxt_file_close_def)
  next
    case (2 i fs')
    define s1 where "s1 = s\<lparr>os_fdt := (os_fdt s)(i \<mapsto> ?o), os_fs := fs'\<rparr>"
    have i: "i \<noteq> 0" using std 2(2) by (cases "i = 0") auto
    obtain n where n: "stat_size fs' (fl_name f) = Some n"
      using 2(3) by (cases "stat_size fs' (fl_name f)") (auto simp: stat_size_def split: fnode.splits)
    have op1: "os_open (fl_name f) (fl_flags f) s = (s1, int i)" using 2(1) by (simp add: s1_def)
    have st: "os_fstat (int i) s1 = Some n" using n by (simp add: os_fstat_def s1_def)
    have cl: "(os_fdt s1)(i := None) = os_fdt s" using 2(2) by (auto simp: s1_def)
    have fs1: "fl_flags f AND O_CREAT = 0 \<longrightarrow> fl_flags f AND O_TRUNC = 0 \<longrightarrow> fs' = os_fs s" using 2(4) by auto
    note sel = bxxt_file_open_def bxxt_file_close_def bxxt_file_close_no_free_def os_close_def
    show ?thesis
    proof (cases "fl_mm f")
      case False
      then have "f' = f\<lparr>fl_fd := int i, fl_size := n\<rparr>" "s' = s1" "r = 0"
        using op op1 st by (simp_all add: bxxt_file_open_def)
      then show ?thesis using False i cl n fs1 fr by (simp add: sel) (simp add: s1_def)
    next
      case mm: True
      show ?thesis
      proof (cases "int i" s1 rule: os_mmap_cases)
        case 1
        then have "s' = os_close (int i) s1" "r = - 1" "f' = f\<lparr>fl_fd := int i, fl_size := n, fl_ptr := Map_Failed\<rparr>"
          using op op1 st mm i by (simp_all add: bxxt_file_open_def bxxt_file_close_no_free_def)
        then show ?thesis using i cl fs1 by (simp add: sel) (simp add: s1_def)
      next
        case (2 p d)
        have d: "fs' (fl_name f) = Some (Reg d)" using 2(4) by (simp add: s1_def)
        then have "n = length d" using n by (simp add: stat_size_def)
        moreover have "s' = s1\<lparr>os_map := (os_map s1)(p \<mapsto> d)\<rparr>" "r = 0"
            "f' = f\<lparr>fl_fd := int i, fl_size := n, fl_ptr := Mapped p\<rparr>"
          using op op1 st mm 2(1) by (simp_all add: bxxt_file_open_def)
        moreover have "(os_map s)(p := None) = os_map s" using 2(2) by (auto simp: s1_def)
        ultimately show ?thesis using i cl fs1 n d 2(3) by (simp add: sel os_munmap_def) (simp add: s1_def)
      qed
    qed
  qed
  then show "os_fdt (bxxt_file_close (Some f') s') = os_fdt s \<and> os_map (bxxt_file_close (Some f') s') = os_map s \<and>
      (r = 0 \<or> r = - 1 \<and> os_fdt s' = os_fdt s \<and> os_map s' = os_map s)"
    "r = 0 \<Longrightarrow> os_fdt s' (nat (fl_fd f')) = Some ?o \<and> 0 < fl_fd f' \<and> stat_size (os_fs s') (fl_name f) = Some (fl_size f')"
    "r = 0 \<Longrightarrow> fl_mm f \<Longrightarrow> \<exists>p d. fl_ptr f' = Mapped p \<and> os_map s' p = Some d \<and> os_fs s' (fl_name f) = Some (Reg d) \<and>
      fl_size f' = length d \<and> d \<noteq> []"
    "fl_flags f AND O_CREAT = 0 \<Longrightarrow> fl_flags f AND O_TRUNC = 0 \<Longrightarrow> os_fs s' = os_fs s"
    by blast+
qed

end
