(* ===== verification/Bxxt_Scan.thy ===== *)
theory Bxxt_Scan
  imports Bxxt_Text
begin

text \<open>
  The formatted scanning of the command-line tools: \<open>sscanf\<close> with literals, white space,
  character sets and 64-bit hexadecimal numbers, as a function from the format and the
  input to the conversions made. The number of conversions is what \<open>sscanf\<close> returns,
  except that it returns \<open>EOF\<close> for none on exhausted input, which no caller tells apart.
\<close>

section \<open>Directives\<close>

datatype scan_item =
    FSpace
  | FLit char
  | FSet "char \<Rightarrow> bool"
  | FHex

datatype scan_val =
    VStr string
  | VHex u64

text \<open>\<open>%lx\<close>: as \<open>scan_x\<close>, with the rest of the input.\<close>

definition scan_hex64 :: "string \<Rightarrow> (u64 \<times> string) option" where
  "scan_hex64 s =
     (case dropWhile c_isspace s of
        [] \<Rightarrow> None
      | c # r \<Rightarrow>
          let t = (if c = CHR ''-'' \<or> c = CHR ''+'' then r else c # r) in
          case t of
            [] \<Rightarrow> None
          | d # _ \<Rightarrow>
              if hex_val d = None then None
              else let (v, rest) = scan_digits 0 (scan_prefix t) in
                if 2 ^ 64 \<le> v then Some (- 1, rest)
                else Some (if c = CHR ''-'' then - word_of_nat v else word_of_nat v, rest))"

fun scan_fmt :: "scan_item list \<Rightarrow> string \<Rightarrow> scan_val list" where
  "scan_fmt [] s = []"
| "scan_fmt (FSpace # f) s = scan_fmt f (dropWhile c_isspace s)"
| "scan_fmt (FLit c # f) [] = []"
| "scan_fmt (FLit c # f) (d # s) = (if d = c then scan_fmt f s else [])"
| "scan_fmt (FSet P # f) s =
     (let v = takeWhile P s in if v = [] then [] else VStr v # scan_fmt f (dropWhile P s))"
| "scan_fmt (FHex # f) s =
     (case scan_hex64 s of None \<Rightarrow> [] | Some (v, r) \<Rightarrow> VHex v # scan_fmt f r)"

definition lits :: "string \<Rightarrow> scan_item list" where
  "lits s = map FLit s"

section \<open>Scanning what was printed\<close>

lemma scan_lits: "scan_fmt (lits p @ f) (p @ s) = scan_fmt f s"
  by (induction p) (simp_all add: lits_def)

lemma scan_lits_other:
  assumes "take (length p) s \<noteq> p"
  shows "scan_fmt (lits p @ f) s = []"
  using assms
proof (induction p arbitrary: s)
  case (Cons c p)
  then show ?case by (cases s) (auto simp: lits_def)
qed simp

lemma scan_space: "scan_fmt (FSpace # f) (CHR '' '' # s) = scan_fmt f (dropWhile c_isspace s)"
  by (simp add: c_isspace_def)

lemma scan_space_word:
  assumes "w \<noteq> []" and "\<not> c_isspace (hd w)"
  shows "scan_fmt (FSpace # f) (CHR '' '' # w @ s) = scan_fmt f (w @ s)"
proof -
  have "dropWhile c_isspace (w @ s) = w @ s" using assms by (cases w) auto
  then show ?thesis unfolding scan_space by simp
qed

lemma takeWhile_stop: "\<forall>c\<in>set w. P c \<Longrightarrow> s = [] \<or> \<not> P (hd s) \<Longrightarrow> takeWhile P (w @ s) = w \<and> dropWhile P (w @ s) = s"
  by (cases s) (auto simp: takeWhile_append dropWhile_append)

lemma scan_set:
  assumes "w \<noteq> []" and "\<forall>c\<in>set w. P c" and "s = [] \<or> \<not> P (hd s)"
  shows "scan_fmt (FSet P # f) (w @ s) = VStr w # scan_fmt f s"
  using takeWhile_stop [OF assms(2,3)] assms(1) by simp

lemma scan_hex64_print:
  assumes "n < 2 ^ 64" and "s = [] \<or> hex_val (hd s) = None \<and> hd s \<noteq> CHR ''x'' \<and> hd s \<noteq> CHR ''X''"
  shows "scan_hex64 (print_x n @ s) = Some (word_of_nat n, s)"
proof -
  obtain a as where e: "print_x n = a # as"
    using print_x_nonempty [of n] by (cases "print_x n") auto
  have a: "a \<in> set hex_digits" using print_x_digits [of n] unfolding e by simp
  then have sp: "\<not> c_isspace a" "a \<noteq> CHR ''-''" "a \<noteq> CHR ''+''" "hex_val a \<noteq> None"
    by (auto simp: hex_digits_def c_isspace_def hex_val_def)
  have all: "\<forall>c\<in>set (print_x n). hex_val c \<noteq> None" using print_x_hex by blast
  have x: "hex_val CHR ''x'' = None" "hex_val CHR ''X'' = None" by (simp_all add: hex_val_def)
  have pre: "scan_prefix (print_x n @ s) = print_x n @ s"
  proof (cases as)
    case Nil
    then show ?thesis unfolding e using assms(2) by (auto simp: scan_prefix_def split: list.splits)
  next
    case (Cons b bs)
    then have "b \<noteq> CHR ''x''" "b \<noteq> CHR ''X''" using all x unfolding e by auto
    then show ?thesis unfolding e Cons by (auto simp: scan_prefix_def split: list.splits)
  qed
  have "scan_digits 0 (print_x n @ s) = scan_digits n s"
    using scan_digits_append [OF all, of 0 s] scan_digits_print [of 0 n] by simp
  also have "\<dots> = (n, s)" using assms(2) by (cases s) auto
  finally have d: "scan_digits 0 (print_x n @ s) = (n, s)" .
  then show ?thesis
    using sp pre assms(1) unfolding e by (simp add: scan_hex64_def Let_def)
qed

lemma scan_hex:
  assumes "n < 2 ^ 64" and "s = [] \<or> hex_val (hd s) = None \<and> hd s \<noteq> CHR ''x'' \<and> hd s \<noteq> CHR ''X''"
  shows "scan_fmt (FHex # f) (print_x n @ s) = VHex (word_of_nat n) # scan_fmt f s"
  using scan_hex64_print [OF assms] by simp

end
