(* ===== verification/Bxxt_Patch.thy ===== *)
theory Bxxt_Patch
  imports Bxxt_File Bxxt_Scan
begin

text \<open>
  The tool that patches bytes of a file (patch.c): \<open>patch\<close> stores the low bytes of a
  number, most significant first, at an offset; \<open>patch_main\<close> scans them from the command
  line. The result of \<open>patch\<close> carries the two numbers of the message it logs.
\<close>

section \<open>The tool\<close>

definition bswap64 :: "u64 \<Rightarrow> u64" where
  "bswap64 w = rd_be64 (le64 w)"

definition patch :: "u64 \<Rightarrow> u64 \<Rightarrow> u64 \<Rightarrow> string \<Rightarrow> os \<Rightarrow> (os \<times> int \<times> (u64 \<times> u64) option) res" where
  "patch offset repl sz fname s =
     (let repl = bswap64 repl in
      if sz > 8 then Inr (bxxt_file_close None s, BXXT_FAILED, None)
      else res_bind (bxxt_file_new fname O_WRONLY 420) (\<lambda>file.
        let (file, s, r) = bxxt_file_open file s in
        if r \<noteq> 0 then Inr (bxxt_file_close (Some file) s, BXXT_FAILED, None)
        else let (s, pos) = os_lseek (fl_fd file) offset s in
          if pos \<noteq> offset then Inr (bxxt_file_close (Some file) s, BXXT_FAILED, None)
          else
            let ptr = drop (8 - unat sz) (le64 repl);
                n = rd_le64 (splice (le64 0) 0 (take (unat sz) ptr))
            in if 64 \<le> (8 - unat sz) * 8 then Inl Bad_Shift
               else
                 let n = drop_bit ((8 - unat sz) * 8) (bswap64 n);
                     (s, _) = os_write (fl_fd file) (take (unat sz) ptr) s
                 in Inr (bxxt_file_close (Some file) s, BXXT_SUCCESS, Some (offset, n))))"

definition patch_format :: "scan_item list" where
  "patch_format = lits ''@'' @ FHex # lits '':'' @ FHex # lits ''='' @ [FHex]"

definition patch_main :: "string list \<Rightarrow> os \<Rightarrow> (os \<times> int \<times> (u64 \<times> u64) option) res" where
  "patch_main argv s =
     (if length argv = 3 then
        case scan_fmt patch_format (argv ! 1) of
          [VHex offset, VHex sz, VHex repl] \<Rightarrow> patch offset repl sz (argv ! 2) s
        | _ \<Rightarrow> Inr (s, BXXT_FAILED, None)
      else Inr (s, BXXT_FAILED, None))"

section \<open>Byte order\<close>

lemma le64_bswap: "le64 (bswap64 w) = be64 w"
proof -
  have "be64 (bswap64 w) = le64 w" unfolding bswap64_def by (rule be64.enc_dec) simp
  then have "rev (be64 (bswap64 w)) = rev (le64 w)" by simp
  then show ?thesis by (simp add: be64_def le64_def be_bytes_def)
qed

lemma be_bytes_low: "n \<le> m \<Longrightarrow> drop (m - n) (be_bytes m v) = be_bytes n v"
  using le_bytes_add [of n "m - n" v] by (simp add: be_bytes_def drop_rev)

lemma be_val_zeros: "be_val (bs @ replicate k 0) = be_val bs * 256 ^ k"
proof -
  have "le_val (replicate k 0 @ cs) = 256 ^ k * le_val cs" for cs by (induction k) simp_all
  then show ?thesis by (simp add: be_val_def)
qed

lemma logged_value:
  assumes "n \<le> 8" and "x = be_bytes n v"
  shows "drop_bit ((8 - n) * 8) (bswap64 (rd_le64 (splice (le64 0) 0 x))) = (word_of_nat (v mod 256 ^ n) :: u64)"
proof -
  have l: "length x = n" by (simp add: assms(2))
  have s: "splice (le64 0) 0 x = x @ replicate (8 - n) 0" by (simp add: splice_0 le64_def l)
  have "length (x @ replicate (8 - n) 0) = 8" using l assms(1) by simp
  then have "bswap64 (rd_le64 (splice (le64 0) 0 x)) = rd_be64 (x @ replicate (8 - n) 0)"
    unfolding s bswap64_def by (simp add: le64.enc_dec)
  also have "\<dots> = word_of_nat (v mod 256 ^ n * 256 ^ (8 - n))"
    by (simp add: rd_be64_def be_val_zeros assms(2) be_val_be_bytes)
  finally have b: "bswap64 (rd_le64 (splice (le64 0) 0 x)) = word_of_nat (v mod 256 ^ n * 256 ^ (8 - n))" .
  have p: "(256 :: nat) ^ k = 2 ^ (k * 8)" for k
    using power_mult [of "2 :: nat" 8 k] by (simp add: mult.commute)
  have "v mod 256 ^ n * 256 ^ (8 - n) < 256 ^ n * 256 ^ (8 - n)"
    by (intro mult_strict_right_mono) auto
  also have "(256 :: nat) ^ n * 256 ^ (8 - n) = 2 ^ 64"
    using assms(1) unfolding p by (subst power_add [symmetric]) (simp add: add_mult_distrib [symmetric])
  finally have lt: "v mod 256 ^ n * 256 ^ (8 - n) < 2 ^ 64" .
  define w :: u64 where "w = word_of_nat (v mod 256 ^ n * 256 ^ (8 - n))"
  have u: "unat w = v mod 256 ^ n * 256 ^ (8 - n)" unfolding w_def using lt by (subst unat_of_nat) simp
  have "unat (drop_bit ((8 - n) * 8) w) = v mod 256 ^ n"
    unfolding unat_drop_bit_eq u unfolding drop_bit_eq_div p by simp
  moreover have "v mod 256 ^ n < 2 ^ 64" using lt by (rule le_less_trans [rotated]) simp
  then have "unat (word_of_nat (v mod 256 ^ n) :: u64) = v mod 256 ^ n" by (subst unat_of_nat) simp
  ultimately show ?thesis unfolding b w_def [symmetric] by (simp only: word_unat_eq_iff)
qed

section \<open>What is patched\<close>

lemma os_write_opened:
  assumes "os_fdt s (nat fd) = Some \<lparr>of_name = n, of_pos = p, of_flags = fl\<rparr>" and "0 \<le> fd" and "can_write fl"
    and "os_fs s n = Some (Reg d)" and "x \<noteq> []"
  shows "os_write fd x s = (s\<lparr>os_fdt := (os_fdt s)(nat fd \<mapsto> \<lparr>of_name = n, of_pos = p + length x, of_flags = fl\<rparr>),
    os_fs := (os_fs s)(n \<mapsto> Reg (write_at d p x))\<rparr>, int (length x))"
  using assms by (simp add: os_write_def Let_def)

text \<open>A file that can be opened for writing, by name.\<close>

definition patchable :: "os \<Rightarrow> string \<Rightarrow> bytes \<Rightarrow> bool" where
  "patchable s f d \<longleftrightarrow> os_may s f O_WRONLY \<and> os_fs s f = Some (Reg d) \<and> os_fdt s 0 \<noteq> None \<and>
     (\<exists>i<os_nofile s. os_fdt s i = None) \<and> length f < PATH_MAX"

lemma open_patchable:
  assumes "patchable s f d" and "bxxt_file_new f O_WRONLY 420 = Inr F"
  obtains i F' where "bxxt_file_open F s =
      (F', s\<lparr>os_fdt := (os_fdt s)(i \<mapsto> \<lparr>of_name = f, of_pos = 0, of_flags = O_WRONLY\<rparr>)\<rparr>, 0)"
    and "fl_fd F' = int i" and "0 < i" and "os_fdt s i = None" and "fl_ptr F' = Null"
proof -
  have F: "fl_name F = f" "fl_flags F = O_WRONLY" "\<not> fl_mm F" "fl_ptr F = Null"
    using assms(2) by (auto simp: bxxt_file_new_def split: if_splits)
  obtain j where "j < os_nofile s" "os_fdt s j = None" using assms(1) by (auto simp: patchable_def)
  then have "find (\<lambda>i. os_fdt s i = None) [0..<os_nofile s] \<noteq> None" by (auto simp: find_None_iff)
  then obtain i where i: "find (\<lambda>i. os_fdt s i = None) [0..<os_nofile s] = Some i" by blast
  then have free: "os_fdt s i = None" by (auto simp: find_Some_iff)
  have i0: "0 < i" using free assms(1) by (cases i) (auto simp: patchable_def)
  have "os_open f O_WRONLY s = (s\<lparr>os_fdt := (os_fdt s)(i \<mapsto> \<lparr>of_name = f, of_pos = 0, of_flags = O_WRONLY\<rparr>)\<rparr>, int i)"
    using assms(1) i by (simp add: os_open_def new_fd_def patchable_def O_WRONLY_def O_CREAT_def O_EXCL_def O_TRUNC_def)
  then have "bxxt_file_open F s = (F\<lparr>fl_fd := int i, fl_size := length d\<rparr>,
      s\<lparr>os_fdt := (os_fdt s)(i \<mapsto> \<lparr>of_name = f, of_pos = 0, of_flags = O_WRONLY\<rparr>)\<rparr>, 0)"
    using F assms(1) by (simp add: bxxt_file_open_def os_fstat_def stat_size_def patchable_def)
  with that [of "F\<lparr>fl_fd := int i, fl_size := length d\<rparr>" i] i0 free F(4) show ?thesis by simp
qed

lemma patch_run:
  assumes p: "patchable s f d" and n: "0 < unat sz" "unat sz \<le> 8"
    and pos: "0 \<le> sint off \<and> q = unat off \<or> off = - 1 \<and> q = 0"
  shows "patch off v sz f s = Inr (s\<lparr>os_fs := (os_fs s)(f \<mapsto> Reg (write_at d q (be_bytes (unat sz) (unat v))))\<rparr>,
    BXXT_SUCCESS, Some (off, word_of_nat (unat v mod 256 ^ unat sz)))"
proof -
  obtain F where F: "bxxt_file_new f O_WRONLY 420 = Inr F" using p by (auto simp: bxxt_file_new_def patchable_def)
  obtain i F' where o: "bxxt_file_open F s =
      (F', s\<lparr>os_fdt := (os_fdt s)(i \<mapsto> \<lparr>of_name = f, of_pos = 0, of_flags = O_WRONLY\<rparr>)\<rparr>, 0)"
    and F': "fl_fd F' = int i" "0 < i" "os_fdt s i = None" "fl_ptr F' = Null"
    by (rule open_patchable [OF p F])
  let ?s1 = "s\<lparr>os_fdt := (os_fdt s)(i \<mapsto> \<lparr>of_name = f, of_pos = 0, of_flags = O_WRONLY\<rparr>)\<rparr>"
  let ?s2 = "s\<lparr>os_fdt := (os_fdt s)(i \<mapsto> \<lparr>of_name = f, of_pos = q, of_flags = O_WRONLY\<rparr>)\<rparr>"
  have sk: "os_lseek (int i) off ?s1 = (?s2, off)"
    using pos by (auto simp: os_lseek_def)
  let ?x = "be_bytes (unat sz) (unat v)"
  have x: "drop (8 - unat sz) (le64 (bswap64 v)) = ?x"
    using be_bytes_low [OF n(2), of "unat v"] by (simp add: le64_bswap be64_def)
  have ne: "?x \<noteq> []" using n(1) by (metis length_0_conv length_be_bytes less_irrefl)
  have "can_write O_WRONLY" by (simp add: can_write_def O_WRONLY_def)
  then have w: "os_write (int i) ?x ?s2 = (s\<lparr>os_fdt := (os_fdt s)(i \<mapsto> \<lparr>of_name = f, of_pos = q + length ?x, of_flags = O_WRONLY\<rparr>),
      os_fs := (os_fs s)(f \<mapsto> Reg (write_at d q ?x))\<rparr>, int (length ?x))"
    using os_write_opened [of ?s2 "int i" f q O_WRONLY d ?x] ne p by (simp add: patchable_def)
  have restored: "(os_fdt s)(i := None) = os_fdt s" using F'(3) by auto
  have sz: "\<not> sz > 8" using n(2) by (simp add: word_less_nat_alt)
  have sh: "\<not> 64 \<le> (8 - unat sz) * 8" using n by simp
  note lg = logged_value [OF n(2) refl, of "unat v"]
  show ?thesis
    using F' sz sh
    by (simp add: patch_def Let_def F o sk x w lg bxxt_file_close_def bxxt_file_close_no_free_def os_close_def restored)
qed

lemma patch_main_scan:
  "patch_main [a, ''@'' @ print_x (unat off) @ '':'' @ print_x (unat sz) @ ''='' @ print_x (unat v), f] s = patch off v sz f s"
proof -
  have h: "hex_val CHR '':'' = None" "hex_val CHR ''='' = None" by (simp_all add: hex_val_def)
  have b: "unat (w :: u64) < 2 ^ 64" for w using unat_lt_u64 [of w] by simp
  have c: "lits '':'' = [FLit CHR '':'']" "lits ''='' = [FLit CHR ''='']" "lits ''@'' = [FLit CHR ''@'']"
    by (simp_all add: lits_def)
  have "scan_fmt patch_format (''@'' @ print_x (unat off) @ '':'' @ print_x (unat sz) @ ''='' @ print_x (unat v)) =
      [VHex off, VHex sz, VHex v]"
    using scan_hex [OF b [of off], of "CHR '':'' # print_x (unat sz) @ CHR ''='' # print_x (unat v)"]
      scan_hex [OF b [of sz], of "CHR ''='' # print_x (unat v)"] scan_hex [OF b [of v], of "[]" "[]"] h
    by (simp add: patch_format_def c del: scan_fmt.simps(6))
  then show ?thesis by (simp add: patch_main_def)
qed

end
