(* ===== verification/Bxxt_Prop.thy ===== *)
theory Bxxt_Prop
  imports Bxxt_File Bxxt_Scan
begin

text \<open>
  Setting Android properties (prop.c): the file behind a property's record is found in the
  process's memory map and its serial and value are overwritten; \<open>setdebuggable\<close> then
  kills the system server. The property's address and serial come from libc, the text of
  the memory map and the process list from \<open>/proc\<close>: they are arguments.
\<close>

section \<open>The memory map\<close>

record bxxt_mapinfo =
  bm_file :: string
  bm_start :: u64
  bm_end :: u64

definition bxxt_scan_maps_by_offset_callback :: "u64 \<Rightarrow> bxxt_mapinfo \<Rightarrow> int" where
  "bxxt_scan_maps_by_offset_callback off bm = (if off \<ge> bm_start bm \<and> off \<le> bm_end bm then 0 else 1)"

text \<open>
  One \<open>fscanf(m, "%lx-%lx %[^\n]s", ...)\<close>: the name when all three conversions are made,
  and the rest of the file. The numbers are stored as they are converted.
\<close>

definition scan_map_entry :: "string \<Rightarrow> bxxt_mapinfo \<Rightarrow> bxxt_mapinfo \<times> (string \<times> string) option" where
  "scan_map_entry s bm =
     (case scan_hex64 s of
        None \<Rightarrow> (bm, None)
      | Some (a, r) \<Rightarrow>
          let bm = bm\<lparr>bm_start := a\<rparr> in
          case r of
            [] \<Rightarrow> (bm, None)
          | c # r \<Rightarrow>
              if c \<noteq> CHR ''-'' then (bm, None)
              else case scan_hex64 r of
                None \<Rightarrow> (bm, None)
              | Some (b, r) \<Rightarrow>
                  let bm = bm\<lparr>bm_end := b\<rparr>; r = dropWhile c_isspace r; n = takeWhile not_nl r in
                  (bm, if n = [] then None else Some (n, dropWhile not_nl r)))"

text \<open>The part of the line behind the last space.\<close>

definition after_last_space :: "string \<Rightarrow> string" where
  "after_last_space n = rev (takeWhile (\<lambda>c. c \<noteq> CHR '' '') (rev n))"

lemma scan_digits_length: "length (snd (scan_digits a s)) \<le> length s"
  by (induction a s rule: scan_digits.induct) (auto split: option.split)

lemma scan_prefix_cases:
  "scan_prefix s = s \<or> (\<exists>z x d r. s = z # x # d # r \<and> hex_val d \<noteq> None \<and> scan_prefix s = d # r)"
  by (cases s rule: list.exhaust [case_product list.exhaust]) (auto simp: scan_prefix_def split: list.splits)

lemma scan_hex64_shorter:
  assumes "scan_hex64 s = Some (v, r)"
  shows "length r < length s"
proof -
  obtain c t where s: "dropWhile c_isspace s = c # t" using assms by (cases "dropWhile c_isspace s") (auto simp: scan_hex64_def)
  define u where "u = (if c = CHR ''-'' \<or> c = CHR ''+'' then t else c # t)"
  obtain d u' where u: "u = d # u'" using assms s by (cases u) (auto simp: scan_hex64_def u_def)
  have d: "hex_val d \<noteq> None" "r = snd (scan_digits 0 (scan_prefix u))"
    using assms s u by (auto simp: scan_hex64_def Let_def u_def [symmetric] split: prod.splits if_splits)
  obtain e p where p: "scan_prefix u = e # p" "hex_val e \<noteq> None" "length p < length u"
    using scan_prefix_cases [of u] d(1) u by (elim disjE) auto
  have "length r \<le> length p"
    using p d(2) scan_digits_length [of _ p] by (auto split: option.splits)
  moreover have "length u \<le> length (dropWhile c_isspace s)" using s by (simp add: u_def)
  moreover have "length (dropWhile c_isspace s) \<le> length s" by (rule length_dropWhile_le)
  ultimately show ?thesis using p(3) by linarith
qed

lemma scan_map_entry_shorter:
  assumes "scan_map_entry s bm = (bm', Some (n, r))"
  shows "length r < length s"
proof -
  obtain a t where t: "scan_hex64 s = Some (a, t)"
    using assms by (cases "scan_hex64 s") (auto simp: scan_map_entry_def)
  then obtain c t' where t': "t = c # t'" "c = CHR ''-''"
    using assms by (cases t) (auto simp: scan_map_entry_def Let_def split: if_splits)
  then obtain b q where q: "scan_hex64 t' = Some (b, q)"
    using assms t by (cases "scan_hex64 t'") (auto simp: scan_map_entry_def Let_def)
  then have "r = dropWhile not_nl (dropWhile c_isspace q)"
    using assms t t' by (auto simp: scan_map_entry_def Let_def split: if_splits)
  then have "length r \<le> length q" by (metis length_dropWhile_le order_trans)
  then show ?thesis using scan_hex64_shorter [OF t] scan_hex64_shorter [OF q] t' by simp
qed

function scan_maps_loop :: "'a \<Rightarrow> ('a \<Rightarrow> bxxt_mapinfo \<Rightarrow> int) \<Rightarrow> string \<Rightarrow> bxxt_mapinfo \<Rightarrow> (bxxt_mapinfo \<times> int) res" where
  "scan_maps_loop args callback s bm =
     (case scan_map_entry s bm of
        (bm, None) \<Rightarrow> Inr (bm, 1)
      | (bm, Some (n, r)) \<Rightarrow>
          if length n \<ge> PATH_MAX then Inl Oob_Write
          else let bm = bm\<lparr>bm_file := after_last_space n\<rparr> in
            if callback args bm = 0 then Inr (bm, 0) else scan_maps_loop args callback r bm)"
  by auto
termination
  by (relation "measure (\<lambda>(_, _, s, _). length s)") (auto dest: scan_map_entry_shorter [OF sym])

declare scan_maps_loop.simps [simp del]

definition bxxt_scan_maps_by_callback ::
  "string option \<Rightarrow> 'a \<Rightarrow> ('a \<Rightarrow> bxxt_mapinfo \<Rightarrow> int) \<Rightarrow> (bxxt_mapinfo \<times> int) res" where
  "bxxt_scan_maps_by_callback maps args callback =
     (let bm = \<lparr>bm_file = [], bm_start = 0, bm_end = 0\<rparr> in
      case maps of None \<Rightarrow> Inr (bm, 0) | Some m \<Rightarrow> scan_maps_loop args callback m bm)"

section \<open>Writing a property\<close>

definition PROP_VALUE_MAX :: nat where "PROP_VALUE_MAX = 92"

text \<open>\<open>find\<close> is \<open>__system_property_find\<close> (0 is the null pointer), \<open>serial\<close> reads \<open>p->serial\<close>.\<close>

record prop_env =
  pv_find :: "string \<Rightarrow> u64"
  pv_serial :: "u64 \<Rightarrow> u32 option"
  pv_maps :: "string option"

definition new_serial :: "nat \<Rightarrow> u32 \<Rightarrow> u32" where
  "new_serial len ser =
     (let vlbits = 8 in ucast ((push_bit 24 (word_of_nat len) :: u64) OR ucast (drop_bit vlbits (push_bit vlbits ser))))"

definition bxxt_prop_set :: "prop_env \<Rightarrow> string \<Rightarrow> bytes \<Rightarrow> os \<Rightarrow> (os \<times> int) res" where
  "bxxt_prop_set E nm val s =
     (let addr = pv_find E nm in
      res_bind (bxxt_scan_maps_by_callback (pv_maps E) addr bxxt_scan_maps_by_offset_callback) (\<lambda>(bm, r).
      if r \<noteq> 0 then Inr (s, 1)
      else let off = addr - bm_start bm in
        if length val > PROP_VALUE_MAX then Inr (s, 1)
        else let (s, fd) = os_open (bm_file bm) (O_RDWR OR O_EXCL) s in
          if fd = - 1 then Inr (s, 1)
          else case pv_serial E addr of
            None \<Rightarrow> Inl Null_Deref
          | Some ser \<Rightarrow>
              let (s, _) = os_lseek fd off s;
                  (s, _) = os_write fd (le32 (new_serial (length val) ser)) s;
                  (s, _) = os_lseek fd (off + 4) s;
                  (s, r) = os_write fd (val @ [0]) s;
                  s = os_close fd s
              in Inr (s, if r > 0 then 0 else 1)))"

section \<open>Processes\<close>

fun atol_digits :: "nat \<Rightarrow> string \<Rightarrow> nat" where
  "atol_digits n [] = n"
| "atol_digits n (c # s) =
     (let d = (of_char c :: nat) in if 48 \<le> d \<and> d \<le> 57 then atol_digits (10 * n + (d - 48)) s else n)"

definition atol :: "string \<Rightarrow> int" where
  "atol s =
     (case dropWhile c_isspace s of
        [] \<Rightarrow> 0
      | c # r \<Rightarrow> if c = CHR ''-'' then - int (atol_digits 0 r)
                 else if c = CHR ''+'' then int (atol_digits 0 r) else int (atol_digits 0 (c # r)))"

text \<open>
  The entries of \<open>/proc\<close> in the order of \<open>readdir\<close>, each with its command line when that
  file can be read. \<open>tmp\<close> has \<open>PATH_MAX\<close> bytes and no terminator when they are all used.
\<close>

fun find_cmdline :: "bytes \<Rightarrow> (string \<times> bytes option) list \<Rightarrow> int res" where
  "find_cmdline nm [] = Inr (- 1)"
| "find_cmdline nm ((_, None) # ds) = find_cmdline nm ds"
| "find_cmdline nm ((d, Some cmd) # ds) =
     (let tmp = take PATH_MAX (cmd @ replicate PATH_MAX 0) in
      if 0 \<notin> set tmp \<and> take PATH_MAX nm = tmp then Inl Oob_Read
      else if nm = cstr tmp then Inr (to_int32 (atol d))
      else find_cmdline nm ds)"

definition bxxt_get_pid_by_cmdline :: "(string \<times> bytes option) list option \<Rightarrow> bytes \<Rightarrow> int res" where
  "bxxt_get_pid_by_cmdline procs nm = (case procs of None \<Rightarrow> Inr (- 1) | Some ds \<Rightarrow> find_cmdline nm ds)"

definition SIGTERM :: int where "SIGTERM = 15"

text \<open>The last component is the signals sent, as pairs of process and signal.\<close>

definition bxxt_do_setdebuggable ::
  "prop_env \<Rightarrow> (string \<times> bytes option) list option \<Rightarrow> bytes \<Rightarrow> os \<Rightarrow> (os \<times> int \<times> (int \<times> int) list) res" where
  "bxxt_do_setdebuggable E procs val s =
     res_bind (bxxt_prop_set E ''ro.debuggable'' val s) (\<lambda>(s, r).
     if r \<noteq> 0 then Inr (s, 1, [])
     else res_bind (bxxt_get_pid_by_cmdline procs (c_bytes ''system_server'')) (\<lambda>pid.
       if pid \<le> 0 then Inr (s, 1, []) else Inr (s, 0, [(pid, SIGTERM)])))"

definition setdebuggable_main ::
  "prop_env \<Rightarrow> (string \<times> bytes option) list option \<Rightarrow> string list \<Rightarrow> os \<Rightarrow> (os \<times> int \<times> (int \<times> int) list) res" where
  "setdebuggable_main E procs argv s = bxxt_do_setdebuggable E procs (c_bytes (argv ! 1)) s"

definition setprop_main :: "prop_env \<Rightarrow> string list \<Rightarrow> os \<Rightarrow> (os \<times> int) res" where
  "setprop_main E argv s = bxxt_prop_set E (argv ! 1) (c_bytes (argv ! 2)) s"


section \<open>Finding a mapping\<close>

text \<open>A mapping as the kernel prints it: the range, then the other columns up to the file.\<close>

type_synonym map_line = "u64 \<times> u64 \<times> string"

definition map_line :: "map_line \<Rightarrow> string" where
  "map_line = (\<lambda>(a, b, info). print_x (unat a) @ CHR ''-'' # print_x (unat b) @ CHR '' '' # info @ [CHR 0x0A])"

definition map_line_ok :: "map_line \<Rightarrow> bool" where
  "map_line_ok = (\<lambda>(a, b, info). info \<noteq> [] \<and> \<not> c_isspace (hd info) \<and> CHR 0x0A \<notin> set info \<and> length info < PATH_MAX)"

definition map_entry :: "map_line \<Rightarrow> bxxt_mapinfo" where
  "map_entry = (\<lambda>(a, b, info). \<lparr>bm_file = after_last_space info, bm_start = a, bm_end = b\<rparr>)"

lemma scan_hex64_space: "c_isspace c \<Longrightarrow> scan_hex64 (c # s) = scan_hex64 s"
  by (simp add: scan_hex64_def)

lemma scan_map_entry_line:
  assumes "map_line_ok (a, b, info)" and "pre = [] \<or> pre = [CHR 0x0A]"
  shows "scan_map_entry (pre @ map_line (a, b, info) @ rest) bm =
    (bm\<lparr>bm_start := a, bm_end := b\<rparr>, Some (info, CHR 0x0A # rest))"
proof -
  have h: "hex_val CHR ''-'' = None" "hex_val CHR '' '' = None" by (simp_all add: hex_val_def)
  have b64: "unat (w :: u64) < 2 ^ 64" for w using unat_lt_u64 [of w] by simp
  let ?t = "CHR ''-'' # print_x (unat b) @ CHR '' '' # info @ CHR 0x0A # rest"
  have "scan_hex64 (print_x (unat a) @ ?t) = Some (a, ?t)"
    using scan_hex64_print [OF b64, of ?t a] h by simp
  then have 1: "scan_hex64 (pre @ map_line (a, b, info) @ rest) = Some (a, ?t)"
    using assms(2) by (auto simp: map_line_def scan_hex64_space c_isspace_def)
  have 2: "scan_hex64 (print_x (unat b) @ CHR '' '' # info @ CHR 0x0A # rest) = Some (b, CHR '' '' # info @ CHR 0x0A # rest)"
    using scan_hex64_print [OF b64, of "CHR '' '' # info @ CHR 0x0A # rest" b] h by simp
  have sp: "dropWhile c_isspace (CHR '' '' # info @ CHR 0x0A # rest) = info @ CHR 0x0A # rest"
    using assms(1) by (cases info) (simp_all add: map_line_ok_def c_isspace_def)
  have "\<forall>c\<in>set info. not_nl c" using assms(1) by (auto simp: map_line_ok_def not_nl_def)
  then have tw: "takeWhile not_nl (info @ CHR 0x0A # rest) = info" "dropWhile not_nl (info @ CHR 0x0A # rest) = CHR 0x0A # rest"
    using takeWhile_stop [of info not_nl "CHR 0x0A # rest"] by (simp_all add: not_nl_def)
  have "info \<noteq> []" using assms(1) by (simp add: map_line_ok_def)
  then show ?thesis using 1 2 sp tw by (simp add: scan_map_entry_def Let_def)
qed

lemma scan_maps_loop_find:
  assumes "\<forall>l\<in>set L. map_line_ok l" and "pre = [] \<or> pre = [CHR 0x0A]"
  shows "\<exists>bm'. scan_maps_loop args cb (pre @ concat (map map_line L)) bm =
    Inr (case find (\<lambda>l. cb args (map_entry l) = 0) L of Some l \<Rightarrow> (map_entry l, 0) | None \<Rightarrow> (bm', 1))"
  using assms
proof (induction L arbitrary: pre bm)
  case Nil
  have "scan_hex64 pre = None" using Nil(2) by (auto simp: scan_hex64_def c_isspace_def)
  then show ?case by (simp add: scan_maps_loop.simps scan_map_entry_def)
next
  case (Cons l L)
  obtain a b info where l: "l = (a, b, info)" by (cases l) auto
  have ok: "map_line_ok (a, b, info)" using Cons.prems(1) l by simp
  have e: "bm\<lparr>bm_start := a, bm_end := b, bm_file := after_last_space info\<rparr> = map_entry l"
    by (simp add: map_entry_def l)
  have len: "\<not> PATH_MAX \<le> length info" using ok by (simp add: map_line_ok_def)
  have step: "scan_maps_loop args cb (pre @ concat (map map_line (l # L))) bm =
      (if cb args (map_entry l) = 0 then Inr (map_entry l, 0)
       else scan_maps_loop args cb ([CHR 0x0A] @ concat (map map_line L)) (map_entry l))"
    using scan_map_entry_line [OF ok Cons.prems(2), of "concat (map map_line L)" bm] len e
    by (subst scan_maps_loop.simps) (simp add: l Let_def)
  show ?case
    using Cons.IH [of "[CHR 0x0A]" "map_entry l"] Cons.prems(1) unfolding step by auto
qed

section \<open>Writing a record\<close>

lemma write_at_inside: "p + length x \<le> length d \<Longrightarrow> write_at d p x = splice d p x"
  by (simp add: write_at_def)

text \<open>The record of a property in its file, between what is before it and what follows its value array.\<close>

definition prop_record :: "bytes \<Rightarrow> u32 \<Rightarrow> bytes \<Rightarrow> bytes \<Rightarrow> bytes" where
  "prop_record pre ser val rest = pre @ le32 ser @ val @ rest"

lemma splice_at: "length pre = p \<Longrightarrow> length x = length y \<Longrightarrow> splice (pre @ y @ r) p x = pre @ x @ r"
  by (simp add: splice_def)

lemma prop_record_write:
  assumes "length old = PROP_VALUE_MAX" and "length val \<le> PROP_VALUE_MAX" and "rest \<noteq> []"
  shows "write_at (write_at (prop_record pre ser old rest) (length pre) (le32 ser')) (length pre + 4) (val @ [0]) =
    (if length val < PROP_VALUE_MAX
     then prop_record pre ser' (val @ 0 # drop (Suc (length val)) old) rest
     else prop_record pre ser' val (0 # tl rest))"
proof -
  have 1: "write_at (prop_record pre ser old rest) (length pre) (le32 ser') = prop_record pre ser' old rest"
    by (subst write_at_inside) (simp_all add: prop_record_def splice_at)
  show ?thesis
  proof (cases "length val < PROP_VALUE_MAX")
    case True
    let ?n = "Suc (length val)"
    have "prop_record pre ser' old rest = (pre @ le32 ser') @ take ?n old @ (drop ?n old @ rest)"
      by (simp add: prop_record_def)
    moreover have "write_at (prop_record pre ser' old rest) (length pre + 4) (val @ [0]) =
        splice (prop_record pre ser' old rest) (length pre + 4) (val @ [0])"
      using True assms(1) by (intro write_at_inside) (simp add: prop_record_def)
    moreover have "splice ((pre @ le32 ser') @ take ?n old @ (drop ?n old @ rest)) (length pre + 4) (val @ [0]) =
        (pre @ le32 ser') @ (val @ [0]) @ (drop ?n old @ rest)"
      using True assms(1) by (intro splice_at) simp_all
    moreover have "pre @ le32 ser' @ take ?n old @ drop ?n old @ rest = pre @ le32 ser' @ old @ rest"
      by (metis append.assoc append_take_drop_id)
    ultimately show ?thesis using True 1 by (simp add: prop_record_def)
  next
    case False
    then have l: "length val = PROP_VALUE_MAX" using assms(2) by simp
    obtain z zs where rest: "rest = z # zs" using assms(3) by (cases rest) auto
    have "write_at (prop_record pre ser' old rest) (length pre + 4) (val @ [0]) =
        splice (prop_record pre ser' old rest) (length pre + 4) (val @ [0])"
      using l assms(1) by (intro write_at_inside) (simp add: prop_record_def rest)
    moreover have "splice ((pre @ le32 ser') @ (old @ [z]) @ zs) (length pre + 4) (val @ [0]) = (pre @ le32 ser') @ (val @ [0]) @ zs"
      using l assms(1) by (intro splice_at) simp_all
    ultimately show ?thesis using False 1 by (simp add: prop_record_def rest)
  qed
qed

text \<open>The serial keeps its low 24 bits; its high byte is the length of the value.\<close>

lemma new_serial_fields:
  assumes "n < 256"
  shows "drop_bit 24 (new_serial n ser) = word_of_nat n" and "take_bit 24 (new_serial n ser) = take_bit 24 ser"
proof -
  have b: "bit (new_serial n ser) i \<longleftrightarrow> i < 32 \<and> (if i < 24 then bit ser i else bit n (i - 24))" for i
    by (auto simp: new_serial_def bit_simps)
  have hi: "\<not> bit n i" if "8 \<le> i" for i
  proof -
    have "(2 :: nat) ^ 8 \<le> 2 ^ i" using that by (intro power_increasing) simp_all
    then have "n div 2 ^ i = 0" using assms by simp
    then show ?thesis by (simp add: bit_iff_odd)
  qed
  show "drop_bit 24 (new_serial n ser) = word_of_nat n"
    by (rule bit_word_eqI) (use hi in \<open>auto simp: bit_simps b not_le [symmetric]\<close>)
  show "take_bit 24 (new_serial n ser) = take_bit 24 ser"
    by (rule bit_word_eqI) (auto simp: bit_simps b)
qed

end
