(* ===== verification/Tools_Properties.thy ===== *)
theory Tools_Properties
  imports Bxxt_Patch Bxxt_Prop
begin

text \<open>
  What the file handles, the patch tool and the property tools promise.
\<close>

section \<open>File handles\<close>

definition demo_os :: os where
  "demo_os = \<lparr>os_fs = [''img'' \<mapsto> Reg [1, 2, 3, 4, 5, 6, 7, 8]],
    os_fdt = (\<lambda>i. if i < 3 then Some \<lparr>of_name = ''tty'', of_pos = 0, of_flags = O_RDWR\<rparr> else None),
    os_nofile = 16, os_map = (\<lambda>_. None), os_may = (\<lambda>_ _. True)\<rparr>"

text \<open>
  C39: a new handle that is opened and then closed leaves the descriptor table and the
  memory mappings exactly as they were, whether the open succeeded, the file was missing or
  forbidden, or the mapping failed (when the handle is closed twice); a successful open of a
  mapping handle has the whole file in memory and its size. It needs descriptor 0 to be in
  use: a file opened as descriptor 0 is never closed.
\<close>

theorem file_open_close_balanced:
  assumes "fresh_handle f" and "os_fdt s 0 \<noteq> None" and "bxxt_file_open f s = (f', s', r)"
  shows "os_fdt (bxxt_file_close (Some f') s') = os_fdt s \<and> os_map (bxxt_file_close (Some f') s') = os_map s \<and>
    (r = 0 \<or> r = - 1) \<and>
    (r = 0 \<and> fl_mm f \<longrightarrow> (\<exists>p d. fl_ptr f' = Mapped p \<and> os_map s' p = Some d \<and> os_fs s' (fl_name f) = Some (Reg d) \<and>
       fl_size f' = length d)) \<and>
    (fl_flags f AND O_CREAT = 0 \<and> fl_flags f AND O_TRUNC = 0 \<longrightarrow> os_fs s' = os_fs s)"
  using bxxt_file_open_effect [OF assms] by blast

definition demo_handle :: bxxt_file where
  "demo_handle = \<lparr>fl_fd = 0, fl_name = ''img'', fl_flags = O_RDONLY, fl_mode = 0, fl_size = 0, fl_mm = True,
    fl_mm_flags = 2, fl_mm_prot = 3, fl_ptr = Null\<rparr>"

theorem file_open_close_balanced_witness:
  "os_fdt (bxxt_file_close (Some (fst (bxxt_file_open demo_handle demo_os))) (fst (snd (bxxt_file_open demo_handle demo_os)))) =
   os_fdt demo_os"
  using file_open_close_balanced [of demo_handle demo_os "fst (bxxt_file_open demo_handle demo_os)"
      "fst (snd (bxxt_file_open demo_handle demo_os))" "snd (snd (bxxt_file_open demo_handle demo_os))"]
  by (simp add: fresh_handle_def demo_handle_def demo_os_def)

section \<open>Patching\<close>

text \<open>
  C38: the command \<open>patch @OFF:SIZE=VALUE FILE\<close> with hexadecimal numbers stores the SIZE low
  bytes of VALUE, most significant first, at offset OFF of the file (zeros fill a gap behind
  its end), changes nothing else of the system, leaves no descriptor open and reports the
  number it stored.
\<close>

theorem patch_stores_bytes:
  fixes off sz v :: u64
  assumes "patchable s f d" and "0 < unat sz" and "unat sz \<le> 8" and "0 \<le> sint off"
  shows "patch_main [a, ''@'' @ print_x (unat off) @ '':'' @ print_x (unat sz) @ ''='' @ print_x (unat v), f] s =
    Inr (s\<lparr>os_fs := (os_fs s)(f \<mapsto> Reg (write_at d (unat off) (be_bytes (unat sz) (unat v))))\<rparr>, BXXT_SUCCESS,
      Some (off, word_of_nat (unat v mod 256 ^ unat sz)))"
  unfolding patch_main_scan using assms(4) by (intro patch_run [OF assms(1-3)]) simp

lemma demo_patchable: "patchable demo_os ''img'' [1, 2, 3, 4, 5, 6, 7, 8]"
proof -
  have "3 < os_nofile demo_os \<and> os_fdt demo_os 3 = None" by (simp add: demo_os_def)
  then show ?thesis unfolding patchable_def by (intro conjI exI [of _ 3]) (simp_all add: demo_os_def PATH_MAX_def)
qed

theorem patch_stores_bytes_witness:
  "\<exists>s'. patch_main [''patch'', ''@'' @ print_x (unat (2 :: u64)) @ '':'' @ print_x (unat (3 :: u64)) @ ''='' @ print_x (unat (0x0a0b0c :: u64)), ''img'']
     demo_os = Inr (s', BXXT_SUCCESS, Some (2, 0x0a0b0c)) \<and> os_fs s' ''img'' = Some (Reg [1, 2, 0xa, 0xb, 0xc, 6, 7, 8])"
proof -
  have "be_bytes 3 0x0a0b0c = [0xa, 0xb, 0xc]" by (simp add: be_bytes_def numeral_3_eq_3)
  then show ?thesis
    using patch_stores_bytes [OF demo_patchable, of 3 2 "''patch''" "0x0a0b0c"] by (simp add: write_at_def splice_def)
qed

text \<open>
  an offset of 2^64 - 1 is refused by \<open>lseek\<close>, whose error result equals the offset, so
  the patch goes on and overwrites the first bytes of the file.
\<close>

theorem patch_last_offset_hits_start:
  assumes "patchable s f d" and "0 < unat sz" and "unat sz \<le> 8"
  shows "patch (- 1) v sz f s =
    Inr (s\<lparr>os_fs := (os_fs s)(f \<mapsto> Reg (write_at d 0 (be_bytes (unat sz) (unat v))))\<rparr>, BXXT_SUCCESS,
      Some (- 1, word_of_nat (unat v mod 256 ^ unat sz)))"
  by (rule patch_run [OF assms]) simp

theorem patch_last_offset_hits_start_witness:
  "\<exists>s'. patch (- 1) 9 1 ''img'' demo_os = Inr (s', BXXT_SUCCESS, Some (- 1, 9)) \<and> os_fs s' ''img'' = Some (Reg [9, 2, 3, 4, 5, 6, 7, 8])"
  using patch_last_offset_hits_start [OF demo_patchable, of 1 9] by (simp add: write_at_def splice_def be_bytes_def)

section \<open>Properties\<close>

lemma offset_callback_hits:
  "(\<lambda>l. bxxt_scan_maps_by_offset_callback addr (map_entry l) = 0) = (\<lambda>(a, b, _). a \<le> addr \<and> addr \<le> b)"
  by (auto simp: bxxt_scan_maps_by_offset_callback_def map_entry_def)

text \<open>
  over the memory map as the kernel prints it, the scan ends and finds the first mapping
  whose range, its end included, holds the address, with the file behind the last space of
  its line; it reports 1 when there is none.
\<close>

theorem maps_scan_finds_first:
  assumes "\<forall>l\<in>set L. map_line_ok l"
  shows "\<exists>bm'. bxxt_scan_maps_by_callback (Some (concat (map map_line L))) addr bxxt_scan_maps_by_offset_callback =
    Inr (case find (\<lambda>(a, b, _). a \<le> addr \<and> addr \<le> b) L of Some l \<Rightarrow> (map_entry l, 0) | None \<Rightarrow> (bm', 1))"
  using scan_maps_loop_find [OF assms, of "[]" addr bxxt_scan_maps_by_offset_callback]
  by (simp add: bxxt_scan_maps_by_callback_def offset_callback_hits)

definition demo_maps :: "map_line list" where
  "demo_maps = [(0x1000, 0x2000, ''r-xp 0 8:1 1 /bin/app''), (0x7000, 0x8000, ''rw-s 0 0:5 2 /dev/props'')]"

lemma demo_maps_ok: "\<forall>l\<in>set demo_maps. map_line_ok l"
  by (simp add: demo_maps_def map_line_ok_def c_isspace_def PATH_MAX_def)

theorem maps_scan_finds_first_witness:
  "bxxt_scan_maps_by_callback (Some (concat (map map_line demo_maps))) 0x7010 bxxt_scan_maps_by_offset_callback =
   Inr (\<lparr>bm_file = ''/dev/props'', bm_start = 0x7000, bm_end = 0x8000\<rparr>, 0)"
proof -
  have "find (\<lambda>(a, b, _). a \<le> 0x7010 \<and> 0x7010 \<le> b) demo_maps = Some (0x7000, 0x8000, ''rw-s 0 0:5 2 /dev/props'')"
    by (simp add: demo_maps_def)
  moreover have "map_entry (0x7000, 0x8000, ''rw-s 0 0:5 2 /dev/props'') = \<lparr>bm_file = ''/dev/props'', bm_start = 0x7000, bm_end = 0x8000\<rparr>"
    by (simp add: map_entry_def after_last_space_def)
  ultimately show ?thesis using maps_scan_finds_first [OF demo_maps_ok, of "0x7010"] by simp
qed

lemma os_seek_write:
  assumes "os_fdt s i = Some \<lparr>of_name = n, of_pos = p, of_flags = fl\<rparr>" and "can_write fl"
    and "os_fs s n = Some (Reg d)" and "x \<noteq> []" and "0 \<le> sint off"
  shows "os_lseek (int i) off s = (s\<lparr>os_fdt := (os_fdt s)(i \<mapsto> \<lparr>of_name = n, of_pos = unat off, of_flags = fl\<rparr>)\<rparr>, off)"
    and "os_write (int i) x (s\<lparr>os_fdt := (os_fdt s)(i \<mapsto> \<lparr>of_name = n, of_pos = unat off, of_flags = fl\<rparr>)\<rparr>) =
      (s\<lparr>os_fdt := (os_fdt s)(i \<mapsto> \<lparr>of_name = n, of_pos = unat off + length x, of_flags = fl\<rparr>),
         os_fs := (os_fs s)(n \<mapsto> Reg (write_at d (unat off) x))\<rparr>, int (length x))"
  using assms by (auto simp: os_lseek_def os_write_opened [where n = n and p = "unat off" and fl = fl and d = d])

text \<open>
  C37: setting a property whose record lies in the file of the first mapping around its
  address overwrites exactly the record: the serial gets the length of the value as its high
  byte and keeps the rest, the value is stored with its terminator, everything before and
  behind the value array stays - unless the value has the full 92 characters, which the
  length check admits: then its terminator is the first character of the property's name.
  No descriptor stays open.
\<close>

theorem prop_set_stores:
  assumes maps: "pv_maps E = Some (concat (map map_line L))" "\<forall>l\<in>set L. map_line_ok l"
    and hit: "find (\<lambda>(a, b, _). a \<le> pv_find E nm \<and> pv_find E nm \<le> b) L = Some (a, b, info)"
    and content: "os_fs s (after_last_space info) = Some (Reg (prop_record pre ser old rest))" "length old = 92" "rest \<noteq> []"
    and addr: "unat (pv_find E nm - a) = length pre" "length pre < 2 ^ 62" "pv_serial E (pv_find E nm) = Some ser"
    and os: "os_may s (after_last_space info) (O_RDWR OR O_EXCL)" "\<exists>i<os_nofile s. os_fdt s i = None"
    and val: "length val \<le> 92"
  shows "\<exists>ser'. bxxt_prop_set E nm val s = Inr (s\<lparr>os_fs := (os_fs s)(after_last_space info \<mapsto> Reg
      (if length val < 92 then prop_record pre ser' (val @ 0 # drop (Suc (length val)) old) rest
       else prop_record pre ser' val (0 # tl rest)))\<rparr>, 0) \<and>
    drop_bit 24 ser' = word_of_nat (length val) \<and> take_bit 24 ser' = take_bit 24 ser"
proof -
  let ?f = "after_last_space info" and ?fl = "O_RDWR OR O_EXCL" and ?off = "pv_find E nm - a"
  let ?ser = "new_serial (length val) ser" and ?d = "prop_record pre ser old rest"
  have scan: "bxxt_scan_maps_by_callback (pv_maps E) (pv_find E nm) bxxt_scan_maps_by_offset_callback = Inr (map_entry (a, b, info), 0)"
    using scan_maps_loop_find [OF maps(2), of "[]" "pv_find E nm" bxxt_scan_maps_by_offset_callback] hit maps(1)
    by (simp add: bxxt_scan_maps_by_callback_def offset_callback_hits)
  have fl: "can_write ?fl" "?fl AND O_CREAT = 0" "?fl AND O_TRUNC = 0"
    by (simp_all add: can_write_def O_RDWR_def O_EXCL_def O_CREAT_def O_TRUNC_def O_WRONLY_def)
  obtain i where i: "find (\<lambda>i. os_fdt s i = None) [0..<os_nofile s] = Some i"
    using os(2) by (cases "find (\<lambda>i. os_fdt s i = None) [0..<os_nofile s]") (auto simp: find_None_iff)
  then have free: "os_fdt s i = None" by (auto simp: find_Some_iff)
  let ?fd = "\<lambda>p. (os_fdt s)(i \<mapsto> \<lparr>of_name = ?f, of_pos = p, of_flags = ?fl\<rparr>)"
  have op: "os_open ?f ?fl s = (s\<lparr>os_fdt := ?fd 0\<rparr>, int i)"
    using os(1) content(1) fl i by (simp add: os_open_def new_fd_def)
  have u4: "unat (?off + 4) = length pre + 4" using addr(1,2) by (simp add: unat_word_ariths)
  have sg: "0 \<le> sint w" if "unat w < 2 ^ 63" for w :: u64
  proof -
    have "uint w = int (unat w)" by simp
    then have "uint w div 2 ^ 63 = 0" using that by (simp del: of_nat_unat add: div_pos_pos_trivial)
    then show ?thesis by (simp add: sint_uint signed_take_bit_eq_if_positive bit_iff_odd)
  qed
  have sgn: "0 \<le> sint ?off" "0 \<le> sint (?off + 4)" using addr(1,2) u4 by (auto intro!: sg)
  let ?d1 = "write_at ?d (length pre) (le32 ?ser)"
  let ?s1 = "s\<lparr>os_fdt := ?fd 0\<rparr>" and ?s2 = "s\<lparr>os_fdt := ?fd (length pre + 4), os_fs := (os_fs s)(?f \<mapsto> Reg ?d1)\<rparr>"
  note w1 = os_seek_write [of ?s1 i ?f 0 ?fl ?d "le32 ?ser" ?off]
  note w2 = os_seek_write [of ?s2 i ?f "length pre + 4" ?fl ?d1 "val @ [0]" "?off + 4"]
  have restored: "(os_fdt s)(i := None) = os_fdt s" using free by auto
  have le: "le32 ?ser \<noteq> []" by (metis le32.length_enc list.size(3) zero_neq_numeral)
  have d2: "write_at ?d1 (length pre + 4) (val @ [0]) = (if length val < 92 then prop_record pre ?ser (val @ 0 # drop (Suc (length val)) old) rest
       else prop_record pre ?ser val (0 # tl rest))"
    using prop_record_write [of old val rest pre ser ?ser] content(2,3) val by (simp add: PROP_VALUE_MAX_def)
  have "bxxt_prop_set E nm val s = Inr (s\<lparr>os_fs := (os_fs s)(?f \<mapsto> Reg (write_at ?d1 (length pre + 4) (val @ [0])))\<rparr>, 0)"
    using w1 w2 fl(1) content(1) le sgn addr val scan op
    by (simp add: bxxt_prop_set_def map_entry_def PROP_VALUE_MAX_def u4 os_close_def restored)
  then show ?thesis
    using new_serial_fields [of "length val" ser] val unfolding d2 by (intro exI [of _ ?ser]) simp
qed

definition demo_props :: prop_env where
  "demo_props = \<lparr>pv_find = (\<lambda>_. 0x7004), pv_serial = (\<lambda>_. Some 0x02000005), pv_maps = Some (concat (map map_line demo_maps))\<rparr>"

definition demo_prop_os :: os where
  "demo_prop_os = demo_os\<lparr>os_fs := [''/dev/props'' \<mapsto> Reg (prop_record [9, 9, 9, 9] 0x02000005 (replicate 92 0) [110, 0])]\<rparr>"

theorem prop_set_stores_witness:
  "\<exists>ser'. bxxt_prop_set demo_props ''n'' (replicate 92 65) demo_prop_os =
     Inr (demo_prop_os\<lparr>os_fs := (os_fs demo_prop_os)(''/dev/props'' \<mapsto>
       Reg (prop_record [9, 9, 9, 9] ser' (replicate 92 65) [0, 0]))\<rparr>, 0) \<and> drop_bit 24 ser' = 92"
proof -
  have f: "after_last_space ''rw-s 0 0:5 2 /dev/props'' = ''/dev/props''" by (simp add: after_last_space_def)
  have "find (\<lambda>(a, b, _). a \<le> pv_find demo_props ''n'' \<and> pv_find demo_props ''n'' \<le> b) demo_maps =
      Some (0x7000, 0x8000, ''rw-s 0 0:5 2 /dev/props'')"
    by (simp add: demo_maps_def demo_props_def)
  moreover have "\<exists>i<os_nofile demo_prop_os. os_fdt demo_prop_os i = None"
    by (rule exI [of _ 3]) (simp add: demo_prop_os_def demo_os_def)
  ultimately show ?thesis
    using prop_set_stores [where E = demo_props and L = demo_maps and nm = "''n''" and a = "0x7000" and b = "0x8000"
        and info = "''rw-s 0 0:5 2 /dev/props''" and s = demo_prop_os and pre = "[9, 9, 9, 9]" and ser = "0x02000005"
        and old = "replicate 92 0" and rest = "[110, 0]" and val = "replicate 92 65"] demo_maps_ok
    by (simp add: f) (auto simp: demo_props_def demo_prop_os_def demo_os_def)
qed

end
