(* ===== verification/Sepol_Policy.thy ===== *)
theory Sepol_Policy
  imports Sepol_Ebitmap_Ops Sepol_Hashtab Sepol_Avtab
begin

text \<open>
  The part of libsepol's policy database that the policy editor works on (policydb.h), and
  the declaration of a symbol (\<open>symtab_insert\<close> of policydb.c). Data that the tables point
  to and the code changes in place - the type and scope data - live in explicit stores; a
  pointer is an index into its store.
\<close>

section \<open>The policy database\<close>

record perm_datum =
  perm_value :: u32

record common_datum =
  common_permissions :: "perm_datum symtab"

record class_datum =
  class_value :: u32
  comdatum :: "common_datum option"
  permissions :: "perm_datum symtab"

record type_datum =
  type_value :: u32
  primary :: u32
  flavor :: u32
  type_types :: ebitmap
  type_flags :: u32
  type_bounds :: u32

record type_set =
  ts_types :: ebitmap
  ts_negset :: ebitmap

record scope_datum =
  sc_scope :: u32
  decl_ids :: "u32 list"

definition SCOPE_REQ :: u32 where "SCOPE_REQ = 1"
definition SCOPE_DECL :: u32 where "SCOPE_DECL = 2"
definition POLICY_KERN :: u32 where "POLICY_KERN = 0"
definition SEPOL_TARGET_SELINUX :: int where "SEPOL_TARGET_SELINUX = 0"
definition SYM_ROLES :: nat where "SYM_ROLES = 2"
definition SYM_TYPES :: nat where "SYM_TYPES = 3"
definition SYM_USERS :: nat where "SYM_USERS = 4"
definition ROLE_ROLE :: u32 where "ROLE_ROLE = 0"
definition TYPE_TYPE :: u32 where "TYPE_TYPE = 0"
definition TYPE_ATTRIB :: u32 where "TYPE_ATTRIB = 1"

text \<open>
  \<open>p_roles\<close> is \<open>role_val_to_struct\<close> (its types only) with \<open>roles_nprim\<close> entries in use,
  \<open>declared_types\<close> the type scope of \<open>global->branch_list->declared\<close>.
\<close>

record policydb =
  policy_type :: u32
  target_platform :: int
  policyvers :: u32
  p_classes :: "class_datum symtab"
  p_types :: "nat symtab"
  type_store :: "type_datum list"
  types_scope :: "nat symtab"
  scope_store :: "scope_datum list"
  p_roles :: "type_set list"
  roles_nprim :: u32
  declared_types :: ebitmap
  te_avtab :: avtab
  type_attr_map :: "ebitmap list"
  attr_type_map :: "ebitmap list"
  permissive_map :: ebitmap

section \<open>Declaring a symbol\<close>

text \<open>
  The tables \<open>symtab_insert\<close> works on: those of one kind of symbol. \<open>role_flavor\<close> is the
  flavor of a role datum, used for roles only.
\<close>

record 'd sym_scope =
  ss_tab :: "'d symtab"
  ss_scope :: "nat symtab"
  ss_store :: "scope_datum list"

definition put_table :: "'d symtab \<Rightarrow> (bytes, 'd) hashtab option \<Rightarrow> 'd symtab" where
  "put_table s t = s\<lparr>table := t\<rparr>"

definition add_i_to_a :: "u32 \<Rightarrow> u32 list \<Rightarrow> u32 list" where
  "add_i_to_a i a = a @ [i]"

text \<open>The search for an existing declaration and, for a requirement, keeping the declaration last.\<close>

definition scope_add_decl :: "u32 \<Rightarrow> u32 \<Rightarrow> scope_datum \<Rightarrow> scope_datum \<times> int option" where
  "scope_add_decl scop decl_id sd =
     (if decl_id \<in> set (decl_ids sd) then (sd, None)
      else
        let sd = sd\<lparr>decl_ids := add_i_to_a decl_id (decl_ids sd)\<rparr> in
        if sc_scope sd = SCOPE_DECL \<and> scop = SCOPE_REQ then
          let len = length (decl_ids sd) in
          if len < 2 then (sd, Some (- 1))
          else (sd\<lparr>decl_ids := (decl_ids sd)[len - 2 := decl_ids sd ! (len - 1), len - 1 := decl_ids sd ! (len - 2)]\<rparr>, None)
        else (sd, None))"

definition symtab_insert ::
  "'d sym_scope \<Rightarrow> nat \<Rightarrow> bytes \<Rightarrow> 'd \<Rightarrow> ('d \<Rightarrow> u32) \<Rightarrow> u32 \<Rightarrow> u32 \<Rightarrow> bool
    \<Rightarrow> ('d sym_scope \<times> u32 option \<times> int) res" where
  "symtab_insert pol symk key datum role_flavor scop decl_id want_value =
     res_bind (hashtab_insert (table (ss_tab pol)) key datum) (\<lambda>(t, rc).
       let pol = pol\<lparr>ss_tab := put_table (ss_tab pol) t\<rparr> in
       if rc \<noteq> SEPOL_OK \<and> rc \<noteq> SEPOL_EEXIST then Inr (pol, None, rc)
       else
         let retval = (if rc = SEPOL_OK then 0 else 1);
             (pol, val) = (if rc = SEPOL_OK \<and> want_value
               then (pol\<lparr>ss_tab := (ss_tab pol)\<lparr>nprim := nprim (ss_tab pol) + 1\<rparr>\<rparr>, Some (nprim (ss_tab pol) + 1))
               else (pol, None));
             finish = (\<lambda>pol p. if p < length (ss_store pol) then
                 (case scope_add_decl scop decl_id (ss_store pol ! p) of
                    (sd, e) \<Rightarrow> Inr (pol\<lparr>ss_store := (ss_store pol)[p := sd]\<rparr>, val, case e of None \<Rightarrow> retval | Some e \<Rightarrow> e))
                 else Inl Oob_Read)
         in res_bind (hashtab_search (table (ss_scope pol)) key) (\<lambda>sp.
           case sp of
             None \<Rightarrow>
               let p = length (ss_store pol);
                   pol = pol\<lparr>ss_store := ss_store pol @ [\<lparr>sc_scope = scop, decl_ids = []\<rparr>]\<rparr>
               in res_bind (hashtab_insert (table (ss_scope pol)) key p) (\<lambda>(t, rc).
                 let pol = pol\<lparr>ss_scope := put_table (ss_scope pol) t\<rparr> in
                 if rc \<noteq> 0 then Inr (pol, val, rc) else finish pol p)
           | Some p \<Rightarrow>
               if p \<ge> length (ss_store pol) then Inl Oob_Read
               else
                 let sd = ss_store pol ! p in
                 if sc_scope sd = SCOPE_DECL \<and> scop = SCOPE_DECL then
                   if symk \<noteq> SYM_ROLES \<and> symk \<noteq> SYM_USERS then Inr (pol, val, - 2)
                   else if symk = SYM_ROLES then
                     res_bind (hashtab_search (table (ss_tab pol)) key) (\<lambda>base.
                       case base of
                         None \<Rightarrow> Inl Null_Deref
                       | Some b \<Rightarrow>
                           if \<not> (role_flavor b = ROLE_ROLE \<and> role_flavor datum = ROLE_ROLE) then Inr (pol, val, - 2)
                           else finish pol p)
                   else finish pol p
                 else if sc_scope sd = SCOPE_REQ \<and> scop = SCOPE_DECL
                 then finish (pol\<lparr>ss_store := (ss_store pol)[p := sd\<lparr>sc_scope := SCOPE_DECL\<rparr>]\<rparr>) p
                 else finish pol p))"

text \<open>A new declaration: the symbol gets the next value and a scope of its own.\<close>

definition sym_scope_ok :: "'d sym_scope \<Rightarrow> bool" where
  "sym_scope_ok p \<longleftrightarrow> (\<exists>t s. table (ss_tab p) = Some t \<and> table (ss_scope p) = Some s \<and>
     sym.table_ok t \<and> sym.counted t \<and> sym.table_ok s \<and> sym.counted s)"

definition sym_contents :: "'d symtab \<Rightarrow> bytes \<Rightarrow> 'd option" where
  "sym_contents s k = (case table s of None \<Rightarrow> None | Some t \<Rightarrow> sym.contents t k)"

lemma symtab_insert_new:
  assumes ok: "sym_scope_ok p" and k: "sym_ok k"
    and new: "sym_contents (ss_tab p) k = None" "sym_contents (ss_scope p) k = None"
  shows "\<exists>p'. symtab_insert p symk k d rf SCOPE_DECL i True = Inr (p', Some (nprim (ss_tab p) + 1), 0) \<and>
    sym_scope_ok p' \<and> sym_contents (ss_tab p') = (sym_contents (ss_tab p))(k \<mapsto> d) \<and>
    nprim (ss_tab p') = nprim (ss_tab p) + 1 \<and>
    sym_contents (ss_scope p') = (sym_contents (ss_scope p))(k \<mapsto> length (ss_store p)) \<and>
    ss_store p' = ss_store p @ [\<lparr>sc_scope = SCOPE_DECL, decl_ids = [i]\<rparr>]"
proof -
  obtain t s where t: "table (ss_tab p) = Some t" "table (ss_scope p) = Some s"
     "sym.table_ok t" "sym.counted t" "sym.table_ok s" "sym.counted s"
    using ok by (auto simp: sym_scope_ok_def)
  have c: "sym.contents t k = None" "sym.contents s k = None" using new t by (simp_all add: sym_contents_def)
  obtain t' where t': "hashtab_insert (Some t) k d = Inr (Some t', SEPOL_OK)" "sym.table_ok t'" "sym.counted t'"
      "sym.contents t' = (sym.contents t)(k \<mapsto> d)"
    using sym.insert_correct [OF t(3,4) k, of d] c(1) by auto
  obtain s' where s': "hashtab_insert (Some s) k (length (ss_store p)) = Inr (Some s', SEPOL_OK)" "sym.table_ok s'" "sym.counted s'"
      "sym.contents s' = (sym.contents s)(k \<mapsto> length (ss_store p))"
    using sym.insert_correct [OF t(5,6) k, of "length (ss_store p)"] c(2) by auto
  have se: "hashtab_search (Some s) k = Inr None" using sym.search_correct [OF t(5) k] c(2) by simp
  let ?p' = "p\<lparr>ss_tab := (put_table (ss_tab p) (Some t'))\<lparr>nprim := nprim (ss_tab p) + 1\<rparr>,
      ss_scope := put_table (ss_scope p) (Some s'),
      ss_store := ss_store p @ [\<lparr>sc_scope = SCOPE_DECL, decl_ids = [i]\<rparr>]\<rparr>"
  have "symtab_insert p symk k d rf SCOPE_DECL i True = Inr (?p', Some (nprim (ss_tab p) + 1), 0)"
    using t t' s' se by (simp add: symtab_insert_def put_table_def Let_def SEPOL_OK_def scope_add_decl_def add_i_to_a_def SCOPE_DECL_def SCOPE_REQ_def)
  moreover have "sym_scope_ok ?p'" using t'(2,3) s'(2,3) by (simp add: sym_scope_ok_def put_table_def)
  moreover have "sym_contents (ss_tab ?p') = (sym_contents (ss_tab p))(k \<mapsto> d)"
    "sym_contents (ss_scope ?p') = (sym_contents (ss_scope p))(k \<mapsto> length (ss_store p))"
    using t t'(4) s'(4) by (auto simp: sym_contents_def put_table_def fun_eq_iff)
  ultimately show ?thesis by (intro exI [of _ ?p']) simp
qed

end
