(* ===== verification/Bxxt_Sepol.thy ===== *)
theory Bxxt_Sepol
  imports Sepol_Policy Bxxt_File Bxxt_Scan
begin

text \<open>
  The policy editor (sepol.c): adding and removing permissions of a rule, creating a domain,
  making it permissive, the statements that name these operations, and loading, saving and
  reloading a policy. Reading and writing the binary policy format is an argument, except
  for its bitmaps and rule tables.
\<close>

section \<open>Rules\<close>

text \<open>What uninitialised memory holds: the datum \<open>allow_ext\<close> allocates, and the tail of a grown array of bitmaps.\<close>

record junk =
  jk_datum :: avtab_datum
  jk_map :: ebitmap

definition type_at :: "policydb \<Rightarrow> nat \<Rightarrow> type_datum res" where
  "type_at pdb p = (if p < length (type_store pdb) then Inr (type_store pdb ! p) else Inl Oob_Read)"

definition perm_mask :: "class_datum \<Rightarrow> bytes \<Rightarrow> u32 option res" where
  "perm_mask c perm =
     (if perm \<noteq> [] \<and> hd perm = 42 then Inr (Some (NOT 0))
      else res_bind (hashtab_search (table (permissions c)) perm) (\<lambda>p.
        res_bind (case (p, comdatum c) of
            (None, Some com) \<Rightarrow> hashtab_search (table (common_permissions com)) perm
          | _ \<Rightarrow> Inr p) (\<lambda>p.
        case p of None \<Rightarrow> Inr None
        | Some p \<Rightarrow>
            if unat (perm_value p - 1) < 32 then Inr (Some (push_bit (unat (perm_value p - 1)) 1)) else Inl Bad_Shift)))"

definition rule_key :: "type_datum \<Rightarrow> type_datum \<Rightarrow> class_datum \<Rightarrow> avtab_key" where
  "rule_key s t c = \<lparr>source_type = ucast (type_value s), target_type = ucast (type_value t),
     target_class = ucast (class_value c), specified = AVTAB_ALLOWED\<rparr>"

definition bxxt_sepol_allow_ext ::
  "junk \<Rightarrow> policydb \<Rightarrow> bytes \<Rightarrow> bytes \<Rightarrow> bytes \<Rightarrow> bytes \<Rightarrow> bool \<Rightarrow> (policydb \<times> int) res" where
  "bxxt_sepol_allow_ext J pdb src tgt cls perm disallow =
     res_bind (hashtab_search (table (p_classes pdb)) cls) (\<lambda>c. case c of None \<Rightarrow> Inr (pdb, BXXT_FAILED) | Some c \<Rightarrow>
     res_bind (hashtab_search (table (p_types pdb)) src) (\<lambda>s. case s of None \<Rightarrow> Inr (pdb, BXXT_FAILED) | Some s \<Rightarrow>
     res_bind (hashtab_search (table (p_types pdb)) tgt) (\<lambda>t. case t of None \<Rightarrow> Inr (pdb, BXXT_FAILED) | Some t \<Rightarrow>
     res_bind (perm_mask c perm) (\<lambda>m. case m of None \<Rightarrow> Inr (pdb, BXXT_FAILED) | Some msk \<Rightarrow>
     res_bind (type_at pdb s) (\<lambda>s. res_bind (type_at pdb t) (\<lambda>t.
     let k = rule_key s t c; f = (\<lambda>d. if disallow then d AND NOT msk else d OR msk) in
     res_bind (avtab_search (te_avtab pdb) k) (\<lambda>a. case a of
       Some a \<Rightarrow> res_bind (av_write (te_avtab pdb) a f) (\<lambda>te. Inr (pdb\<lparr>te_avtab := te\<rparr>, BXXT_SUCCESS))
     | None \<Rightarrow>
         res_bind (avtab_insert (te_avtab pdb) k (jk_datum J)) (\<lambda>(te, r).
         let pdb = pdb\<lparr>te_avtab := te\<rparr> in
         if r \<noteq> 0 then Inr (pdb, BXXT_FAILED)
         else res_bind (avtab_search (te_avtab pdb) k) (\<lambda>a. case a of
           None \<Rightarrow> Inl Null_Deref
         | Some a \<Rightarrow> res_bind (av_write (te_avtab pdb) a f) (\<lambda>te. Inr (pdb\<lparr>te_avtab := te\<rparr>, BXXT_SUCCESS)))))))))))"

section \<open>Domains\<close>

text \<open>\<open>realloc\<close> to \<open>nprim\<close> elements keeps what fits and leaves new elements uninitialised.\<close>

definition resize_maps :: "junk \<Rightarrow> nat \<Rightarrow> ebitmap list \<Rightarrow> ebitmap list" where
  "resize_maps J n ms = take n ms @ replicate (n - length ms) (jk_map J)"

definition add_type_to_role :: "u32 \<Rightarrow> type_set \<Rightarrow> type_set" where
  "add_type_to_role b r = r\<lparr>ts_negset := fst (ebitmap_set_bit (ts_negset r) b False),
     ts_types := fst (ebitmap_set_bit (ts_types r) b True)\<rparr>"

definition new_type :: type_datum where
  "new_type = \<lparr>type_value = 0, primary = 1, flavor = TYPE_TYPE, type_types = ebitmap_init, type_flags = 0, type_bounds = 0\<rparr>"

text \<open>
  The body after the symbol has been declared with \<open>value\<close>. The calls of the index
  functions rebuild arrays from the tables that the model does not keep.
\<close>

definition domain_maps :: "junk \<Rightarrow> u32 \<Rightarrow> policydb \<Rightarrow> policydb res" where
  "domain_maps J val pdb =
     (let n = unat (nprim (p_types pdb)); v = unat (val - 1);
          tam = resize_maps J n (type_attr_map pdb); atm = resize_maps J n (attr_type_map pdb)
      in if v < n then
           if unat (roles_nprim pdb) \<le> length (p_roles pdb) then
             Inr (pdb\<lparr>type_attr_map := tam[v := fst (ebitmap_set_bit ebitmap_init (val - 1) True)],
                      attr_type_map := atm[v := ebitmap_init],
                      p_roles := map (add_type_to_role (val - 1)) (take (unat (roles_nprim pdb)) (p_roles pdb))
                        @ drop (unat (roles_nprim pdb)) (p_roles pdb)\<rparr>)
           else Inl Oob_Read
         else Inl Oob_Write)"

definition domain_attribute :: "u32 \<Rightarrow> type_datum \<Rightarrow> policydb \<Rightarrow> policydb res" where
  "domain_attribute val attr pdb =
     (let v = unat (val - 1); a = unat (type_value attr - 1) in
      if flavor attr \<noteq> TYPE_ATTRIB then Inr pdb
      else if v \<ge> length (type_attr_map pdb) then Inl Oob_Read
      else let (m, r) = ebitmap_set_bit (type_attr_map pdb ! v) (type_value attr - 1) True;
               pdb = pdb\<lparr>type_attr_map := (type_attr_map pdb)[v := m]\<rparr>
        in if r \<noteq> 0 then Inr pdb
           else if a \<ge> length (attr_type_map pdb) then Inl Oob_Read
           else Inr (pdb\<lparr>attr_type_map := (attr_type_map pdb)[a := fst (ebitmap_set_bit (attr_type_map pdb ! a) (val - 1) True)]\<rparr>))"

definition bxxt_sepol_create_domain :: "junk \<Rightarrow> policydb \<Rightarrow> bytes \<Rightarrow> (policydb \<times> int) res" where
  "bxxt_sepol_create_domain J pdb domain =
     res_bind (hashtab_search (table (p_types pdb)) domain) (\<lambda>sd. case sd of
       Some p \<Rightarrow> res_bind (type_at pdb p) (\<lambda>td. Inr (pdb, to_int32 (uint (type_value td))))
     | None \<Rightarrow>
         let p = length (type_store pdb);
             pdb = pdb\<lparr>type_store := type_store pdb @ [new_type]\<rparr>
         in res_bind (symtab_insert \<lparr>ss_tab = p_types pdb, ss_scope = types_scope pdb, ss_store = scope_store pdb\<rparr>
              SYM_TYPES domain p (\<lambda>_. 0) SCOPE_DECL 1 True) (\<lambda>(ss, val, r).
           let pdb = pdb\<lparr>p_types := ss_tab ss, types_scope := ss_scope ss, scope_store := ss_store ss\<rparr>;
               val = (case val of None \<Rightarrow> 0 | Some v \<Rightarrow> v)
           in if r \<noteq> 0 then Inr (pdb, BXXT_FAILED)
              else
                let pdb = pdb\<lparr>type_store := (type_store pdb)[p := (type_store pdb ! p)\<lparr>type_value := val\<rparr>]\<rparr>;
                    (dec, r) = ebitmap_set_bit (declared_types pdb) (val - 1) True;
                    pdb = pdb\<lparr>declared_types := dec\<rparr>
                in if r \<noteq> 0 then Inr (pdb, BXXT_FAILED)
                   else res_bind (domain_maps J val pdb) (\<lambda>pdb.
                     res_bind (hashtab_search (table (p_types pdb)) domain) (\<lambda>sd.
                     if sd = None then Inr (pdb, BXXT_FAILED)
                     else res_bind (hashtab_search (table (p_types pdb)) domain) (\<lambda>attr. case attr of
                       None \<Rightarrow> Inr (pdb, BXXT_FAILED)
                     | Some q \<Rightarrow> res_bind (type_at pdb q) (\<lambda>attr.
                         res_bind (domain_attribute val attr pdb) (\<lambda>pdb. Inr (pdb, to_int32 (uint val)))))))))"

definition bxxt_sepol_set_permissive :: "junk \<Rightarrow> policydb \<Rightarrow> bytes \<Rightarrow> bool \<Rightarrow> (policydb \<times> int) res" where
  "bxxt_sepol_set_permissive J pdb domain permissive =
     res_bind (hashtab_search (table (p_types pdb)) domain) (\<lambda>sd.
     res_bind (case sd of
         Some p \<Rightarrow> res_bind (type_at pdb p) (\<lambda>td. Inr (pdb, type_value td))
       | None \<Rightarrow> res_bind (bxxt_sepol_create_domain J pdb domain) (\<lambda>(pdb, r). Inr (pdb, word_of_int r)))
       (\<lambda>(pdb, b).
         let (m, r) = ebitmap_set_bit (permissive_map pdb) b permissive in Inr (pdb\<lparr>permissive_map := m\<rparr>, r)))"

section \<open>Statements\<close>

text \<open>
  The character sets of the scans: in \<open>[1-9,a-z,_,-]\<close> the last \<open>-\<close> is itself, in
  \<open>[1-9,a-z,_,-,*]\<close> it is a range of one comma; neither has the digit 0.
\<close>

definition name_char :: "char \<Rightarrow> bool" where
  "name_char c \<longleftrightarrow> (let n = (of_char c :: nat) in 49 \<le> n \<and> n \<le> 57 \<or> 97 \<le> n \<and> n \<le> 122 \<or> c = CHR '','' \<or> c = CHR ''_'' \<or> c = CHR ''-'')"

definition perm_char :: "char \<Rightarrow> bool" where
  "perm_char c \<longleftrightarrow> (let n = (of_char c :: nat) in 49 \<le> n \<and> n \<le> 57 \<or> 97 \<le> n \<and> n \<le> 122 \<or> c = CHR '','' \<or> c = CHR ''_'' \<or> c = CHR ''*'')"

definition rule_format :: "string \<Rightarrow> scan_item list" where
  "rule_format kw = lits kw @ FSpace # FSet name_char # FSpace # FSet name_char # FLit CHR '':'' # FSet name_char #
     FSpace # FSet perm_char # [FLit CHR '';'']"

definition domain_format :: "string \<Rightarrow> scan_item list" where
  "domain_format kw = lits kw @ FSpace # FSet name_char # [FLit CHR '';'']"

text \<open>The conversions, stored into arrays of 256 characters.\<close>

definition scan_strs :: "scan_item list \<Rightarrow> string \<Rightarrow> bytes list res" where
  "scan_strs f s =
     (let vs = map (\<lambda>v. case v of VStr x \<Rightarrow> c_bytes x | VHex _ \<Rightarrow> []) (scan_fmt f s) in
      if list_all (\<lambda>v. length v < 256) vs then Inr vs else Inl Oob_Write)"

definition bxxt_sepol_execute_stmt :: "junk \<Rightarrow> policydb \<Rightarrow> string \<Rightarrow> (policydb \<times> int) res" where
  "bxxt_sepol_execute_stmt J pdb stmt =
     res_bind (scan_strs (rule_format ''allow'') stmt) (\<lambda>v. case v of
       [src, tgt, cls, perm] \<Rightarrow> bxxt_sepol_allow_ext J pdb src tgt cls perm False
     | _ \<Rightarrow>
     res_bind (scan_strs (rule_format ''disallow'') stmt) (\<lambda>v. case v of
       [src, tgt, cls, perm] \<Rightarrow> bxxt_sepol_allow_ext J pdb src tgt cls perm True
     | _ \<Rightarrow>
     res_bind (scan_strs (domain_format ''permissive'') stmt) (\<lambda>v. case v of
       [src] \<Rightarrow> bxxt_sepol_set_permissive J pdb src True
     | _ \<Rightarrow>
     res_bind (scan_strs (domain_format ''enforce'') stmt) (\<lambda>v. case v of
       [src] \<Rightarrow> bxxt_sepol_set_permissive J pdb src False
     | _ \<Rightarrow>
     res_bind (scan_strs (domain_format ''create'') stmt) (\<lambda>v. case v of
       [src] \<Rightarrow> res_bind (bxxt_sepol_create_domain J pdb src) (\<lambda>(pdb, r). Inr (pdb, if r < 0 then 1 else 0))
     | _ \<Rightarrow> Inr (pdb, - 1))))))"

end
