(* ===== verification/Sepol_Edit_Correct.thy ===== *)
theory Sepol_Edit_Correct
  imports Bxxt_Sepol
begin

text \<open>
  The policy editor over well-formed policies: no statement runs into a fault, every one
  keeps the policy well-formed, and what it changes is what it says.
\<close>

section \<open>Well-formed policies\<close>

definition perms_ok :: "perm_datum symtab \<Rightarrow> bool" where
  "perms_ok s \<longleftrightarrow> (\<exists>t. table s = Some t \<and> sym.table_ok t) \<and>
     (\<forall>k p. sym_ok k \<longrightarrow> sym_contents s k = Some p \<longrightarrow> unat (perm_value p - 1) < 32)"

definition class_ok :: "class_datum \<Rightarrow> bool" where
  "class_ok c \<longleftrightarrow> perms_ok (permissions c) \<and> (case comdatum c of None \<Rightarrow> True | Some com \<Rightarrow> perms_ok (common_permissions com))"

definition classes_ok :: "policydb \<Rightarrow> bool" where
  "classes_ok pdb \<longleftrightarrow> (\<exists>t. table (p_classes pdb) = Some t \<and> sym.table_ok t) \<and>
     (\<forall>k c. sym_ok k \<longrightarrow> sym_contents (p_classes pdb) k = Some c \<longrightarrow> class_ok c)"

definition types_of :: "policydb \<Rightarrow> nat sym_scope" where
  "types_of pdb = \<lparr>ss_tab = p_types pdb, ss_scope = types_scope pdb, ss_store = scope_store pdb\<rparr>"

definition types_ok :: "policydb \<Rightarrow> bool" where
  "types_ok pdb \<longleftrightarrow> sym_scope_ok (types_of pdb) \<and>
     (\<forall>k p. sym_ok k \<longrightarrow> sym_contents (p_types pdb) k = Some p \<longrightarrow> p < length (type_store pdb)) \<and>
     (\<forall>k. sym_ok k \<longrightarrow> sym_contents (types_scope pdb) k \<noteq> None \<longrightarrow> sym_contents (p_types pdb) k \<noteq> None) \<and>
     length (type_attr_map pdb) = unat (nprim (p_types pdb)) \<and> length (attr_type_map pdb) = unat (nprim (p_types pdb))"

definition maps_ok :: "policydb \<Rightarrow> bool" where
  "maps_ok pdb \<longleftrightarrow> ebitmap_ok (declared_types pdb) \<and> ebitmap_ok (permissive_map pdb) \<and>
     list_all ebitmap_ok (type_attr_map pdb) \<and> list_all ebitmap_ok (attr_type_map pdb) \<and>
     list_all (\<lambda>r. ebitmap_ok (ts_types r) \<and> ebitmap_ok (ts_negset r)) (p_roles pdb) \<and>
     unat (roles_nprim pdb) \<le> length (p_roles pdb)"

definition policy_ok :: "policydb \<Rightarrow> bool" where
  "policy_ok pdb \<longleftrightarrow> classes_ok pdb \<and> types_ok pdb \<and> maps_ok pdb \<and> av_ok (te_avtab pdb)"

lemmas policy_ok_defs = policy_ok_def classes_ok_def types_ok_def maps_ok_def

section \<open>Names\<close>

definition type_of :: "policydb \<Rightarrow> bytes \<Rightarrow> type_datum option" where
  "type_of pdb n = map_option (\<lambda>p. type_store pdb ! p) (sym_contents (p_types pdb) n)"

definition mask_of :: "class_datum \<Rightarrow> bytes \<Rightarrow> u32 option" where
  "mask_of c perm =
     (if perm \<noteq> [] \<and> hd perm = 42 then Some (NOT 0)
      else map_option (\<lambda>p. push_bit (unat (perm_value p - 1)) 1)
        (case (sym_contents (permissions c) perm, comdatum c) of
           (None, Some com) \<Rightarrow> sym_contents (common_permissions com) perm | (p, _) \<Rightarrow> p))"

lemma sym_search: "table s = Some t \<Longrightarrow> sym.table_ok t \<Longrightarrow> sym_ok k \<Longrightarrow> hashtab_search (table s) k = Inr (sym_contents s k)"
  by (simp add: sym.search_correct sym_contents_def)

lemma class_search: "policy_ok pdb \<Longrightarrow> sym_ok k \<Longrightarrow> hashtab_search (table (p_classes pdb)) k = Inr (sym_contents (p_classes pdb) k)"
  by (auto simp: policy_ok_def classes_ok_def intro: sym_search)

lemma type_search: "policy_ok pdb \<Longrightarrow> sym_ok k \<Longrightarrow> hashtab_search (table (p_types pdb)) k = Inr (sym_contents (p_types pdb) k)"
  by (auto simp: policy_ok_def types_ok_def sym_scope_ok_def types_of_def intro: sym_search)

lemma type_at_ok: "policy_ok pdb \<Longrightarrow> sym_ok k \<Longrightarrow> sym_contents (p_types pdb) k = Some p \<Longrightarrow> type_at pdb p = Inr (type_store pdb ! p)"
  by (simp add: policy_ok_def types_ok_def type_at_def)

lemma perm_mask_ok:
  assumes "class_ok c" and "sym_ok perm"
  shows "perm_mask c perm = Inr (mask_of c perm)"
proof (cases "perm \<noteq> [] \<and> hd perm = 42")
  case False
  have s: "hashtab_search (table (permissions c)) perm = Inr (sym_contents (permissions c) perm)"
    using assms by (auto simp: class_ok_def perms_ok_def intro: sym_search)
  have r: "sym_contents (permissions c) perm = Some p \<Longrightarrow> unat (perm_value p - 1) < 32" for p
    using assms by (auto simp: class_ok_def perms_ok_def)
  show ?thesis
  proof (cases "comdatum c")
    case None
    then show ?thesis using False s r by (auto simp: perm_mask_def mask_of_def split: option.split)
  next
    case (Some com)
    have s': "hashtab_search (table (common_permissions com)) perm = Inr (sym_contents (common_permissions com) perm)"
      using assms Some by (auto simp: class_ok_def perms_ok_def intro: sym_search)
    have r': "sym_contents (common_permissions com) perm = Some p \<Longrightarrow> unat (perm_value p - 1) < 32" for p
      using assms Some by (auto simp: class_ok_def perms_ok_def)
    show ?thesis using False Some s r s' r' by (auto simp: perm_mask_def mask_of_def split: option.split)
  qed
qed (auto simp: perm_mask_def mask_of_def)

section \<open>Editing a rule\<close>

lemma allow_ext_edit:
  assumes "policy_ok pdb" and "sym_ok cls" and "sym_ok src" and "sym_ok tgt" and "sym_ok perm"
    and "sym_contents (p_classes pdb) cls = Some c" and "type_of pdb src = Some s" and "type_of pdb tgt = Some t"
    and "mask_of c perm = Some m"
  shows "bxxt_sepol_allow_ext J pdb src tgt cls perm dis =
    res_bind (avtab.edit (te_avtab pdb) (rule_key s t c) (jk_datum J) (\<lambda>d. if dis then d AND NOT m else d OR m))
      (\<lambda>(te, done). Inr (pdb\<lparr>te_avtab := te\<rparr>, if done then BXXT_SUCCESS else BXXT_FAILED))"
proof -
  obtain ps pt where p: "sym_contents (p_types pdb) src = Some ps" "s = type_store pdb ! ps"
      "sym_contents (p_types pdb) tgt = Some pt" "t = type_store pdb ! pt"
    using assms(7,8) by (auto simp: type_of_def)
  have "class_ok c" using assms(1,2,6) by (auto simp: policy_ok_def classes_ok_def)
  note e = perm_mask_ok [OF this assms(5)] class_search [OF assms(1,2)] type_search [OF assms(1)] type_at_ok [OF assms(1)]
  show ?thesis
    using e p assms
    by (simp add: bxxt_sepol_allow_ext_def avtab.edit_def Let_def res_bind_assoc)
      (auto simp: res_bind_def split: sum.split option.split prod.split)
qed

lemma rule_key_simple: "av_simple (rule_key s t c)"
proof -
  have "av_spec (rule_key s t c) = 1"
    by (rule bit_word_eqI) (auto simp: av_spec_def rule_key_def AVTAB_ALLOWED_def AVTAB_ENABLED_def AVTAB_ENABLED_OLD_def bit_simps)
  then show ?thesis by (simp add: av_simple_def rule_key_def AVTAB_ALLOWED_def AVTAB_XPERMS_def)
qed

lemma policy_ok_te: "policy_ok pdb \<Longrightarrow> av_ok te \<Longrightarrow> policy_ok (pdb\<lparr>te_avtab := te\<rparr>)"
  by (simp add: policy_ok_defs types_of_def)

lemma allow_ext_correct:
  assumes "policy_ok pdb" and "sym_ok cls" and "sym_ok src" and "sym_ok tgt" and "sym_ok perm"
    and "sym_contents (p_classes pdb) cls = Some c" and "type_of pdb src = Some s" and "type_of pdb tgt = Some t"
    and "mask_of c perm = Some m"
  shows "\<exists>te. bxxt_sepol_allow_ext J pdb src tgt cls perm dis = Inr (pdb\<lparr>te_avtab := te\<rparr>, BXXT_SUCCESS) \<and>
    policy_ok (pdb\<lparr>te_avtab := te\<rparr>) \<and>
    av_look te (rule_key s t c) = Some (av_upd (\<lambda>d. if dis then d AND NOT m else d OR m)
      (case av_look (te_avtab pdb) (rule_key s t c) of None \<Rightarrow> jk_datum J | Some d \<Rightarrow> d)) \<and>
    (\<forall>k. \<not> av_same (rule_key s t c) k \<longrightarrow> av_look te k = av_look (te_avtab pdb) k)"
proof -
  have "av_ok (te_avtab pdb)" using assms(1) by (simp add: policy_ok_def)
  from avtab.edit_correct [OF this rule_key_simple, of s t c "jk_datum J" "\<lambda>d. if dis then d AND NOT m else d OR m"]
  obtain te where te: "avtab.edit (te_avtab pdb) (rule_key s t c) (jk_datum J) (\<lambda>d. if dis then d AND NOT m else d OR m) = Inr (te, True)"
      "av_ok te" "av_look te (rule_key s t c) = Some (av_upd (\<lambda>d. if dis then d AND NOT m else d OR m)
        (case av_look (te_avtab pdb) (rule_key s t c) of None \<Rightarrow> jk_datum J | Some d \<Rightarrow> d))"
      "\<forall>k. \<not> av_same (rule_key s t c) k \<longrightarrow> av_look te k = av_look (te_avtab pdb) k" by blast
  then show ?thesis unfolding allow_ext_edit [OF assms] using policy_ok_te [OF assms(1) te(2)]
    by (intro exI [of _ te]) simp
qed

text \<open>Unknown names are refused and change nothing.\<close>

lemma allow_ext_unknown:
  assumes "policy_ok pdb" and "sym_ok cls" and "sym_ok src" and "sym_ok tgt" and "sym_ok perm"
    and "sym_contents (p_classes pdb) cls = None \<or> type_of pdb src = None \<or> type_of pdb tgt = None \<or>
      (\<exists>c. sym_contents (p_classes pdb) cls = Some c \<and> mask_of c perm = None)"
  shows "bxxt_sepol_allow_ext J pdb src tgt cls perm dis = Inr (pdb, BXXT_FAILED)"
proof -
  have c: "class_ok c" if "sym_contents (p_classes pdb) cls = Some c" for c
    using assms(1,2) that by (auto simp: policy_ok_def classes_ok_def)
  note e = class_search [OF assms(1,2)] type_search [OF assms(1)]
  show ?thesis using assms e perm_mask_ok [OF c assms(5)]
    by (auto simp: bxxt_sepol_allow_ext_def type_of_def split: option.split)
qed

lemma allow_ext_total:
  assumes "policy_ok pdb" and "sym_ok cls" and "sym_ok src" and "sym_ok tgt" and "sym_ok perm"
  shows "\<exists>te r. bxxt_sepol_allow_ext J pdb src tgt cls perm dis = Inr (pdb\<lparr>te_avtab := te\<rparr>, r) \<and> policy_ok (pdb\<lparr>te_avtab := te\<rparr>)"
proof (cases "\<exists>c s t m. sym_contents (p_classes pdb) cls = Some c \<and> type_of pdb src = Some s \<and> type_of pdb tgt = Some t \<and> mask_of c perm = Some m")
  case True
  then show ?thesis using allow_ext_correct [OF assms] by blast
next
  case False
  then have "sym_contents (p_classes pdb) cls = None \<or> type_of pdb src = None \<or> type_of pdb tgt = None \<or>
      (\<exists>c. sym_contents (p_classes pdb) cls = Some c \<and> mask_of c perm = None)" by (meson not_Some_eq)
  then show ?thesis using allow_ext_unknown [OF assms] assms(1) by (intro exI [of _ "te_avtab pdb"]) simp
qed

end
