(* ===== verification/Sepol_Domain_Correct.thy ===== *)
theory Sepol_Domain_Correct
  imports Sepol_Edit_Correct
begin

text \<open>
  Creating a domain over a well-formed policy: a new name gets the next type value, a scope,
  a place in both type maps and in every role; a known name is left as it is. Making a
  domain permissive changes one bit.
\<close>

section \<open>The new entries of the maps\<close>

definition bit_put :: "u32 \<Rightarrow> bool \<Rightarrow> ebitmap \<Rightarrow> ebitmap" where
  "bit_put b v e = fst (ebitmap_set_bit e b v)"

lemma bit_put:
  assumes "ebitmap_ok e" and "unat b < 4294967232"
  shows "ebitmap_set_bit e b v = (bit_put b v e, 0) \<and> ebitmap_ok (bit_put b v e) \<and>
    ebits (bit_put b v e) = (if v then insert (unat b) (ebits e) else ebits e - {unat b})"
proof -
  obtain e' where "ebitmap_set_bit e b v = (e', 0)" "ebitmap_ok e'"
      "ebits e' = (if v then insert (unat b) (ebits e) else ebits e - {unat b})"
    using ebitmap_set_bit_correct [OF assms] by blast
  then show ?thesis by (simp add: bit_put_def)
qed

lemmas bit_put_set = bit_put [THEN conjunct1]
  and bit_put_ok = bit_put [THEN conjunct2, THEN conjunct1]
  and bit_put_bits = bit_put [THEN conjunct2, THEN conjunct2]

lemma ebitmap_init_ok [simp]: "ebitmap_ok ebitmap_init" "ebits ebitmap_init = {}"
  by (simp_all add: ebitmap_init_def ebitmap_ok_def ebits_def last_hi_def)

lemma resize_maps_grow:
  "n = Suc (length ms) \<Longrightarrow> (resize_maps J n ms)[length ms := x] = ms @ [x]"
  by (simp add: resize_maps_def list_update_append)

definition role_put :: "u32 \<Rightarrow> type_set \<Rightarrow> type_set" where
  "role_put b r = r\<lparr>ts_negset := bit_put b False (ts_negset r), ts_types := bit_put b True (ts_types r)\<rparr>"

lemma add_type_to_role_put: "add_type_to_role b = role_put b"
  by (rule ext) (simp add: add_type_to_role_def role_put_def bit_put_def)

section \<open>Creating a domain\<close>

definition with_types :: "policydb \<Rightarrow> nat sym_scope \<Rightarrow> policydb" where
  "with_types pdb ss = pdb\<lparr>p_types := ss_tab ss, types_scope := ss_scope ss, scope_store := ss_store ss\<rparr>"

text \<open>The policy with one more type of value \<open>nprim + 1\<close>, declared through \<open>ss\<close>.\<close>

definition domain_added :: "policydb \<Rightarrow> nat sym_scope \<Rightarrow> policydb" where
  "domain_added pdb ss =
     (let b = nprim (p_types pdb) in (with_types pdb ss)\<lparr>
        type_store := type_store pdb @ [new_type\<lparr>type_value := b + 1\<rparr>],
        declared_types := bit_put b True (declared_types pdb),
        type_attr_map := type_attr_map pdb @ [bit_put b True ebitmap_init],
        attr_type_map := attr_type_map pdb @ [ebitmap_init],
        p_roles := map (role_put b) (take (unat (roles_nprim pdb)) (p_roles pdb)) @ drop (unat (roles_nprim pdb)) (p_roles pdb)\<rparr>)"

definition room_for_type :: "policydb \<Rightarrow> bool" where
  "room_for_type pdb \<longleftrightarrow> unat (nprim (p_types pdb)) < 4294967232"

lemma unat_plus_1: "unat (b :: u32) < 4294967232 \<Longrightarrow> unat (b + 1) = Suc (unat b)"
  by (simp add: unat_word_ariths)

lemma create_domain_added:
  assumes ok: "policy_ok pdb" and n: "sym_ok n" and new: "type_of pdb n = None" and room: "room_for_type pdb"
  obtains ss where "bxxt_sepol_create_domain J pdb n = Inr (domain_added pdb ss, to_int32 (uint (nprim (p_types pdb) + 1)))"
    and "sym_scope_ok ss" and "sym_contents (ss_tab ss) = (sym_contents (p_types pdb))(n \<mapsto> length (type_store pdb))"
    and "nprim (ss_tab ss) = nprim (p_types pdb) + 1"
    and "sym_contents (ss_scope ss) = (sym_contents (types_scope pdb))(n \<mapsto> length (scope_store pdb))"
proof -
  let ?b = "nprim (p_types pdb)" and ?p = "length (type_store pdb)"
  have t: "types_ok pdb" "maps_ok pdb" using ok by (simp_all add: policy_ok_def)
  have c: "sym_contents (p_types pdb) n = None" using new by (simp add: type_of_def)
  then have c': "sym_contents (types_scope pdb) n = None" using t(1) n by (auto simp: types_ok_def)
  obtain ss where ss: "symtab_insert (types_of pdb) SYM_TYPES n ?p (\<lambda>_. 0) SCOPE_DECL 1 True = Inr (ss, Some (?b + 1), 0)"
      "sym_scope_ok ss" "sym_contents (ss_tab ss) = (sym_contents (p_types pdb))(n \<mapsto> ?p)" "nprim (ss_tab ss) = ?b + 1"
      "sym_contents (ss_scope ss) = (sym_contents (types_scope pdb))(n \<mapsto> length (scope_store pdb))"
    using symtab_insert_new [of "types_of pdb" n SYM_TYPES ?p "\<lambda>_. 0" 1] t(1) n c c'
    by (auto simp: types_ok_def types_of_def)
  have found: "hashtab_search (table (ss_tab ss)) n = Inr (Some ?p)"
    using ss(2,3) n sym_search [of "ss_tab ss"] by (auto simp: sym_scope_ok_def)
  have len: "length (type_attr_map pdb) = unat ?b" "length (attr_type_map pdb) = unat ?b"
    using t(1) by (simp_all add: types_ok_def)
  have b: "unat ?b < 4294967232" using room by (simp add: room_for_type_def)
  have dec: "ebitmap_set_bit (declared_types pdb) ?b True = (bit_put ?b True (declared_types pdb), 0)"
    using bit_put_set [OF _ b] t(2) by (simp add: maps_ok_def)
  define pd where "pd = (with_types pdb ss)\<lparr>type_store := type_store pdb @ [new_type\<lparr>type_value := ?b + 1\<rparr>],
      declared_types := bit_put ?b True (declared_types pdb)\<rparr>"
  have maps: "domain_maps J (?b + 1) pd = Inr (domain_added pdb ss)"
    using len b t(2) ss(4) resize_maps_grow [of "unat (?b + 1)" "type_attr_map pdb"] resize_maps_grow [of "unat (?b + 1)" "attr_type_map pdb"]
    by (simp add: pd_def domain_maps_def domain_added_def with_types_def Let_def unat_plus_1 bit_put_def add_type_to_role_put maps_ok_def)
  have st: "type_store (domain_added pdb ss) = type_store pdb @ [new_type\<lparr>type_value := ?b + 1\<rparr>]"
    "p_types (domain_added pdb ss) = ss_tab ss" by (simp_all add: domain_added_def with_types_def Let_def)
  have se: "hashtab_search (table (p_types pdb)) n = Inr None" using type_search [OF ok n] c by simp
  have "bxxt_sepol_create_domain J pdb n = Inr (domain_added pdb ss, to_int32 (uint (?b + 1)))"
    using maps ss(1) se dec found st
    by (simp add: bxxt_sepol_create_domain_def Let_def types_of_def pd_def with_types_def type_at_def domain_attribute_def
        new_type_def TYPE_TYPE_def TYPE_ATTRIB_def)
  then show thesis using that ss by blast
qed

lemma domain_added_simps [simp]:
  "p_classes (domain_added pdb ss) = p_classes pdb" "te_avtab (domain_added pdb ss) = te_avtab pdb"
  "permissive_map (domain_added pdb ss) = permissive_map pdb" "roles_nprim (domain_added pdb ss) = roles_nprim pdb"
  "p_types (domain_added pdb ss) = ss_tab ss" "types_of (domain_added pdb ss) = ss"
  "type_store (domain_added pdb ss) = type_store pdb @ [new_type\<lparr>type_value := nprim (p_types pdb) + 1\<rparr>]"
  "type_attr_map (domain_added pdb ss) = type_attr_map pdb @ [bit_put (nprim (p_types pdb)) True ebitmap_init]"
  "attr_type_map (domain_added pdb ss) = attr_type_map pdb @ [ebitmap_init]"
  "declared_types (domain_added pdb ss) = bit_put (nprim (p_types pdb)) True (declared_types pdb)"
  "types_scope (domain_added pdb ss) = ss_scope ss"
  by (simp_all add: domain_added_def with_types_def types_of_def Let_def)

lemma domain_added_roles:
  "p_roles (domain_added pdb ss) =
     map (role_put (nprim (p_types pdb))) (take (unat (roles_nprim pdb)) (p_roles pdb)) @ drop (unat (roles_nprim pdb)) (p_roles pdb)"
  by (simp add: domain_added_def with_types_def Let_def)

lemma role_put_ok:
  assumes "ebitmap_ok (ts_types r)" and "ebitmap_ok (ts_negset r)" and "unat b < 4294967232"
  shows "ebitmap_ok (ts_types (role_put b r)) \<and> ebitmap_ok (ts_negset (role_put b r)) \<and>
    ebits (ts_types (role_put b r)) = insert (unat b) (ebits (ts_types r)) \<and>
    ebits (ts_negset (role_put b r)) = ebits (ts_negset r) - {unat b}"
  using assms by (simp add: role_put_def bit_put_ok bit_put_bits)

lemma domain_added_ok:
  assumes ok: "policy_ok pdb" and room: "room_for_type pdb" and n: "sym_ok n"
    and ss: "sym_scope_ok ss" "sym_contents (ss_tab ss) = (sym_contents (p_types pdb))(n \<mapsto> length (type_store pdb))"
      "nprim (ss_tab ss) = nprim (p_types pdb) + 1"
      "sym_contents (ss_scope ss) = (sym_contents (types_scope pdb))(n \<mapsto> length (scope_store pdb))"
  shows "policy_ok (domain_added pdb ss)"
proof -
  let ?d = "domain_added pdb ss"
  have t: "types_ok pdb" "maps_ok pdb" "classes_ok pdb" "av_ok (te_avtab pdb)" using ok by (simp_all add: policy_ok_def)
  have b: "unat (nprim (p_types pdb)) < 4294967232" using room by (simp add: room_for_type_def)
  have "classes_ok ?d" using t(3) by (simp add: classes_ok_def)
  moreover have "types_ok ?d"
    using t(1) ss b by (auto simp: types_ok_def unat_plus_1 less_SucI)
  moreover have "maps_ok ?d"
    using t(2) b unfolding maps_ok_def domain_added_roles
    by (auto simp: list_all_iff bit_put_ok role_put_ok dest: in_set_takeD in_set_dropD)
  ultimately show ?thesis using t(4) by (simp add: policy_ok_def)
qed

lemma domain_added_types:
  assumes ok: "policy_ok pdb" and k: "sym_ok k"
    and ss: "sym_contents (ss_tab ss) = (sym_contents (p_types pdb))(n \<mapsto> length (type_store pdb))"
  shows "type_of (domain_added pdb ss) k =
    (if k = n then Some (new_type\<lparr>type_value := nprim (p_types pdb) + 1\<rparr>) else type_of pdb k)"
proof -
  have "sym_contents (p_types pdb) k = Some p \<Longrightarrow> p < length (type_store pdb)" for p
    using ok k by (auto simp: policy_ok_def types_ok_def)
  then show ?thesis using ss by (auto simp: type_of_def nth_append map_option_case split: option.split)
qed

text \<open>What a new domain is: its type, and its membership in every role and in its own attribute set.\<close>

lemma create_domain_new:
  assumes ok: "policy_ok pdb" and n: "sym_ok n" and new: "type_of pdb n = None" and room: "room_for_type pdb"
  obtains pdb' where "bxxt_sepol_create_domain J pdb n = Inr (pdb', to_int32 (uint (nprim (p_types pdb) + 1)))"
    and "policy_ok pdb'"
    and "\<And>k. sym_ok k \<Longrightarrow> type_of pdb' k = (if k = n then Some (new_type\<lparr>type_value := nprim (p_types pdb) + 1\<rparr>) else type_of pdb k)"
    and "nprim (p_types pdb') = nprim (p_types pdb) + 1"
    and "p_classes pdb' = p_classes pdb" and "te_avtab pdb' = te_avtab pdb" and "permissive_map pdb' = permissive_map pdb"
    and "map ebits (type_attr_map pdb') = map ebits (type_attr_map pdb) @ [{unat (nprim (p_types pdb))}]"
    and "map ebits (attr_type_map pdb') = map ebits (attr_type_map pdb) @ [{}]"
    and "ebits (declared_types pdb') = insert (unat (nprim (p_types pdb))) (ebits (declared_types pdb))"
    and "\<And>i. i < unat (roles_nprim pdb) \<Longrightarrow> ebits (ts_types (p_roles pdb' ! i)) = insert (unat (nprim (p_types pdb))) (ebits (ts_types (p_roles pdb ! i)))"
    and "\<And>i. i < unat (roles_nprim pdb) \<Longrightarrow> unat (nprim (p_types pdb)) \<notin> ebits (ts_negset (p_roles pdb' ! i))"
proof -
  let ?b = "nprim (p_types pdb)"
  obtain ss where c: "bxxt_sepol_create_domain J pdb n = Inr (domain_added pdb ss, to_int32 (uint (?b + 1)))"
    and ss: "sym_scope_ok ss" "sym_contents (ss_tab ss) = (sym_contents (p_types pdb))(n \<mapsto> length (type_store pdb))"
      "nprim (ss_tab ss) = ?b + 1" "sym_contents (ss_scope ss) = (sym_contents (types_scope pdb))(n \<mapsto> length (scope_store pdb))"
    using create_domain_added [OF ok n new room] by blast
  have m: "maps_ok pdb" using ok by (simp add: policy_ok_def)
  have b: "unat ?b < 4294967232" using room by (simp add: room_for_type_def)
  have r: "p_roles (domain_added pdb ss) ! i = role_put ?b (p_roles pdb ! i)" "ebitmap_ok (ts_types (p_roles pdb ! i))"
      "ebitmap_ok (ts_negset (p_roles pdb ! i))" if "i < unat (roles_nprim pdb)" for i
    using that m by (simp_all add: domain_added_roles maps_ok_def nth_append list_all_length)
  show thesis
  proof (rule that [OF c domain_added_ok [OF ok room n ss] domain_added_types [OF ok _ ss(2)]])
    show "ebits (declared_types (domain_added pdb ss)) = insert (unat ?b) (ebits (declared_types pdb))"
      using m b by (simp add: maps_ok_def bit_put_bits)
    show "i < unat (roles_nprim pdb) \<Longrightarrow> ebits (ts_types (p_roles (domain_added pdb ss) ! i)) = insert (unat ?b) (ebits (ts_types (p_roles pdb ! i)))" for i
      using r b role_put_ok by simp
    show "i < unat (roles_nprim pdb) \<Longrightarrow> unat ?b \<notin> ebits (ts_negset (p_roles (domain_added pdb ss) ! i))" for i
      using r b role_put_ok by simp
  qed (use ss(3) b in \<open>simp_all add: bit_put_bits\<close>)
qed

lemma create_domain_old:
  assumes "policy_ok pdb" and "sym_ok n" and "type_of pdb n = Some t"
  shows "bxxt_sepol_create_domain J pdb n = Inr (pdb, to_int32 (uint (type_value t)))"
  using assms type_search [OF assms(1,2)] type_at_ok [OF assms(1,2)]
  by (auto simp: bxxt_sepol_create_domain_def type_of_def)

section \<open>Permissive domains\<close>

definition with_permissive :: "policydb \<Rightarrow> ebitmap \<Rightarrow> policydb" where
  "with_permissive pdb m = pdb\<lparr>permissive_map := m\<rparr>"

lemma with_permissive_ok: "policy_ok pdb \<Longrightarrow> ebitmap_ok m \<Longrightarrow> policy_ok (with_permissive pdb m)"
  by (simp add: policy_ok_defs with_permissive_def types_of_def)

lemma set_bit_total: "ebitmap_ok e \<Longrightarrow> \<exists>e' r. ebitmap_set_bit e b v = (e', r) \<and> ebitmap_ok e'"
  using ebitmap_set_bit_correct [of e b v] ebitmap_set_bit_overflow [of b e v] by (metis not_le)

lemma set_permissive_old:
  assumes ok: "policy_ok pdb" and "sym_ok n" and "type_of pdb n = Some t" and "unat (type_value t) < 4294967232"
  obtains m where "bxxt_sepol_set_permissive J pdb n v = Inr (with_permissive pdb m, 0)"
    and "policy_ok (with_permissive pdb m)"
    and "ebits m = (if v then insert (unat (type_value t)) (ebits (permissive_map pdb)) else ebits (permissive_map pdb) - {unat (type_value t)})"
proof -
  have "ebitmap_ok (permissive_map pdb)" using ok by (simp add: policy_ok_def maps_ok_def)
  note p = bit_put_set [OF this assms(4)] bit_put_ok [OF this assms(4)] bit_put_bits [OF this assms(4)]
  have "bxxt_sepol_set_permissive J pdb n v = Inr (with_permissive pdb (bit_put (type_value t) v (permissive_map pdb)), 0)"
    using assms type_search [OF assms(1,2)] type_at_ok [OF assms(1,2)] p(1)
    by (auto simp: bxxt_sepol_set_permissive_def type_of_def with_permissive_def)
  then show thesis using that with_permissive_ok [OF ok] p by blast
qed

lemma to_int32_uint: "(word_of_int (to_int32 (uint (w :: u32))) :: u32) = w"
proof -
  have "((uint w + 2147483648) mod 4294967296 - 2147483648) mod 4294967296 = uint w mod 4294967296"
    by (simp add: mod_diff_left_eq)
  then have "take_bit 32 (to_int32 (uint w)) = take_bit 32 (uint w)" by (simp add: to_int32_def take_bit_eq_mod)
  then have "(word_of_int (to_int32 (uint w)) :: u32) = word_of_int (uint w)" by (subst word_of_int_eq_iff) simp
  then show ?thesis by simp
qed

lemma set_permissive_new:
  assumes ok: "policy_ok pdb" and n: "sym_ok n" and new: "type_of pdb n = None" and room: "room_for_type pdb"
  obtains pdb1 m r where "bxxt_sepol_create_domain J pdb n = Inr (pdb1, to_int32 (uint (nprim (p_types pdb) + 1)))"
    and "bxxt_sepol_set_permissive J pdb n v = Inr (with_permissive pdb1 m, r)" and "policy_ok (with_permissive pdb1 m)"
    and "(m, r) = ebitmap_set_bit (permissive_map pdb) (nprim (p_types pdb) + 1) v"
proof -
  obtain pdb1 where p: "bxxt_sepol_create_domain J pdb n = Inr (pdb1, to_int32 (uint (nprim (p_types pdb) + 1)))"
      "policy_ok pdb1" "permissive_map pdb1 = permissive_map pdb"
    by (rule create_domain_new [OF assms, of J]) blast
  obtain m r where m: "ebitmap_set_bit (permissive_map pdb) (nprim (p_types pdb) + 1) v = (m, r)" "ebitmap_ok m"
    using set_bit_total [of "permissive_map pdb"] ok unfolding policy_ok_def maps_ok_def by meson
  have "hashtab_search (table (p_types pdb)) n = Inr None" using type_search [OF ok n] new by (simp add: type_of_def)
  then have "bxxt_sepol_set_permissive J pdb n v = Inr (with_permissive pdb1 m, r)"
    using p m by (simp add: bxxt_sepol_set_permissive_def to_int32_uint with_permissive_def)
  then show thesis by (rule that [OF p(1) _ with_permissive_ok [OF p(2) m(2)] m(1) [symmetric]])
qed

end
