(* ===== verification/Sepol_Statements.thy ===== *)
theory Sepol_Statements
  imports Sepol_Domain_Correct
begin

text \<open>
  The statement language of the policy editor: what a printed statement runs, that no
  statement faults on a well-formed policy, and sessions of statements.
\<close>

section \<open>Printing statements\<close>

datatype stmt =
    Allow bool string string string string
  | Permissive bool string
  | Create string

text \<open>\<open>Allow True\<close> is \<open>disallow\<close>, \<open>Permissive False\<close> is \<open>enforce\<close>.\<close>

fun print_stmt :: "stmt \<Rightarrow> string" where
  "print_stmt (Allow dis src tgt cls perm) =
     (if dis then ''disallow'' else ''allow'') @ '' '' @ src @ '' '' @ tgt @ '':'' @ cls @ '' '' @ perm @ '';''"
| "print_stmt (Permissive v src) = (if v then ''permissive'' else ''enforce'') @ '' '' @ src @ '';''"
| "print_stmt (Create src) = ''create '' @ src @ '';''"

definition token :: "(char \<Rightarrow> bool) \<Rightarrow> string \<Rightarrow> bool" where
  "token P w \<longleftrightarrow> w \<noteq> [] \<and> list_all P w \<and> length w < 256"

fun stmt_ok :: "stmt \<Rightarrow> bool" where
  "stmt_ok (Allow dis src tgt cls perm) \<longleftrightarrow> token name_char src \<and> token name_char tgt \<and> token name_char cls \<and> token perm_char perm"
| "stmt_ok (Permissive v src) \<longleftrightarrow> token name_char src"
| "stmt_ok (Create src) \<longleftrightarrow> token name_char src"

fun run_stmt :: "junk \<Rightarrow> policydb \<Rightarrow> stmt \<Rightarrow> (policydb \<times> int) res" where
  "run_stmt J pdb (Allow dis src tgt cls perm) =
     bxxt_sepol_allow_ext J pdb (c_bytes src) (c_bytes tgt) (c_bytes cls) (c_bytes perm) dis"
| "run_stmt J pdb (Permissive v src) = bxxt_sepol_set_permissive J pdb (c_bytes src) v"
| "run_stmt J pdb (Create src) =
     res_bind (bxxt_sepol_create_domain J pdb (c_bytes src)) (\<lambda>(pdb, r). Inr (pdb, if r < 0 then 1 else 0))"

lemma name_char_props: "name_char c \<Longrightarrow> \<not> c_isspace c \<and> c \<noteq> CHR '':'' \<and> c \<noteq> CHR '';''"
  by (auto simp: name_char_def c_isspace_def Let_def)

lemma perm_char_props: "perm_char c \<Longrightarrow> \<not> c_isspace c \<and> c \<noteq> CHR '';''"
  by (auto simp: perm_char_def c_isspace_def Let_def)

lemma scan_token:
  assumes "token P w" and "s = [] \<or> \<not> P (hd s)"
  shows "scan_fmt (FSet P # f) (w @ s) = VStr w # scan_fmt f s"
  using assms by (intro scan_set) (auto simp: token_def list_all_iff)

lemma scan_space_token:
  assumes "token P w" and "\<And>c. P c \<Longrightarrow> \<not> c_isspace c" and "s = [] \<or> \<not> P (hd s)"
  shows "scan_fmt (FSpace # FSet P # f) (CHR '' '' # w @ s) = VStr w # scan_fmt f s"
proof -
  have w: "w \<noteq> []" "\<not> c_isspace (hd w)" using assms(1,2) by (auto simp: token_def list_all_iff)
  show ?thesis unfolding scan_space_word [OF w] by (rule scan_token [OF assms(1,3)])
qed

lemma scan_rule:
  assumes "token name_char src" and "token name_char tgt" and "token name_char cls" and "token perm_char perm"
  shows "scan_fmt (rule_format kw) (kw @ '' '' @ src @ '' '' @ tgt @ '':'' @ cls @ '' '' @ perm @ '';'') =
    [VStr src, VStr tgt, VStr cls, VStr perm]"
proof -
  have n: "\<not> name_char CHR '' ''" "\<not> name_char CHR '':''" "\<not> perm_char CHR '';''"
    by (auto simp: name_char_def perm_char_def)
  have e: "scan_fmt [FLit CHR '';''] '';'' = []" by simp
  note sp = scan_space_token [where P = name_char, OF _ name_char_props [THEN conjunct1]]
    scan_space_token [where P = perm_char, OF _ perm_char_props [THEN conjunct1]]
  show ?thesis
    unfolding rule_format_def append.simps scan_lits
    using n assms by (simp add: sp scan_token del: scan_fmt.simps(2,5))
qed

lemma scan_domain:
  assumes "token name_char src"
  shows "scan_fmt (domain_format kw) (kw @ '' '' @ src @ '';'') = [VStr src]"
proof -
  have n: "\<not> name_char CHR '';''" by (auto simp: name_char_def)
  note sp = scan_space_token [where P = name_char, OF _ name_char_props [THEN conjunct1]]
  show ?thesis
    unfolding domain_format_def append.simps scan_lits
    using n assms by (simp add: sp del: scan_fmt.simps(2,5))
qed

lemma scan_strs_tokens:
  assumes "scan_fmt f s = map VStr ws" and "list_all (\<lambda>w. length w < 256) ws"
  shows "scan_strs f s = Inr (map c_bytes ws)"
proof -
  have "list_all (\<lambda>v. length v < 256) (map c_bytes ws)" using assms(2) by (simp add: list_all_iff c_bytes_def)
  then show ?thesis by (simp add: scan_strs_def assms(1) comp_def)
qed

lemma scan_strs_other: "take (length kw) s \<noteq> kw \<Longrightarrow> scan_strs (rule_format kw) s = Inr [] \<and> scan_strs (domain_format kw) s = Inr []"
  by (simp add: scan_strs_def rule_format_def domain_format_def scan_lits_other)

lemma c_bytes_length [simp]: "length (c_bytes s) = length s"
  by (simp add: c_bytes_def)

text \<open>A printed statement runs the operation it names on the names it holds.\<close>

lemma execute_printed:
  assumes "stmt_ok st"
  shows "bxxt_sepol_execute_stmt J pdb (print_stmt st) = run_stmt J pdb st"
proof (cases st)
  case (Allow dis src tgt cls perm)
  have "scan_strs (rule_format kw) (kw @ '' '' @ src @ '' '' @ tgt @ '':'' @ cls @ '' '' @ perm @ '';'') =
      Inr [c_bytes src, c_bytes tgt, c_bytes cls, c_bytes perm]" for kw
    using assms scan_strs_tokens [OF scan_rule [of src tgt cls perm kw, THEN trans, of "map VStr [src, tgt, cls, perm]"]]
    unfolding Allow by (simp add: token_def)
  from this [of "''allow''"] this [of "''disallow''"] show ?thesis
    using scan_strs_other [of "''allow''" "''disallow'' @ '' '' @ src @ '' '' @ tgt @ '':'' @ cls @ '' '' @ perm @ '';''"]
    unfolding Allow by (cases dis) (simp_all add: bxxt_sepol_execute_stmt_def del: append.simps)
next
  case (Permissive v src)
  have "scan_strs (domain_format kw) (kw @ '' '' @ src @ '';'') = Inr [c_bytes src]" for kw
    using assms scan_strs_tokens [OF scan_domain [of src kw, THEN trans, of "map VStr [src]"]]
    unfolding Permissive by (simp add: token_def)
  from this [of "''permissive''"] this [of "''enforce''"] show ?thesis
    using scan_strs_other [of "''allow''" "print_stmt st"] scan_strs_other [of "''disallow''" "print_stmt st"]
      scan_strs_other [of "''permissive''" "print_stmt st"]
    unfolding Permissive by (cases v) (simp_all add: bxxt_sepol_execute_stmt_def)
next
  case (Create src)
  have "scan_strs (domain_format kw) (kw @ '' '' @ src @ '';'') = Inr [c_bytes src]" for kw
    using assms scan_strs_tokens [OF scan_domain [of src kw, THEN trans, of "map VStr [src]"]]
    unfolding Create by (simp add: token_def)
  from this [of "''create''"] show ?thesis
    using scan_strs_other [of "''allow''" "print_stmt st"] scan_strs_other [of "''disallow''" "print_stmt st"]
      scan_strs_other [of "''permissive''" "print_stmt st"] scan_strs_other [of "''enforce''" "print_stmt st"]
    unfolding Create by (simp add: bxxt_sepol_execute_stmt_def)
qed

section \<open>Any statement\<close>

definition names_ok :: "scan_item list \<Rightarrow> bool" where
  "names_ok f \<longleftrightarrow> (\<forall>i\<in>set f. case i of FSet P \<Rightarrow> \<not> P (CHR 0x00) | FHex \<Rightarrow> False | _ \<Rightarrow> True)"

lemma formats_ok: "names_ok (rule_format kw)" "names_ok (domain_format kw)"
  by (auto simp: names_ok_def rule_format_def domain_format_def lits_def name_char_def perm_char_def)

lemma names_ok_Cons [simp]:
  "names_ok (i # f) \<longleftrightarrow> (case i of FSet P \<Rightarrow> \<not> P (CHR 0x00) | FHex \<Rightarrow> False | _ \<Rightarrow> True) \<and> names_ok f"
  by (simp add: names_ok_def)

text \<open>What is scanned is a nonempty part of the input without a terminator.\<close>

lemma scan_fmt_names:
  "names_ok f \<Longrightarrow> v \<in> set (scan_fmt f s) \<Longrightarrow> \<exists>w. v = VStr w \<and> w \<noteq> [] \<and> CHR 0x00 \<notin> set w \<and> length w \<le> length s"
proof (induction f s rule: scan_fmt.induct)
  case (2 f s)
  then show ?case using length_dropWhile_le [of c_isspace s] by fastforce
next
  case (5 P f s)
  show ?case
  proof (cases "v = VStr (takeWhile P s)")
    case True
    then show ?thesis using 5 length_takeWhile_le [of P s] by (auto simp: Let_def dest: set_takeWhileD split: if_splits)
  next
    case False
    then have "v \<in> set (scan_fmt f (dropWhile P s))" "takeWhile P s \<noteq> []" using 5 by (auto simp: Let_def split: if_splits)
    then show ?thesis using 5 length_dropWhile_le [of P s] by fastforce
  qed
qed (auto intro: le_SucI split: if_splits)

lemma byte_of_chr_0: "byte_of_chr c = 0 \<Longrightarrow> c = CHR 0x00"
  using chr_of_byte_of_chr [of c] by (simp add: chr_of_byte_def char_of_def)

lemma c_bytes_sym_ok: "CHR 0x00 \<notin> set w \<Longrightarrow> sym_ok (c_bytes w)"
  by (auto simp: sym_ok_def c_bytes_def dest: byte_of_chr_0 [OF sym])

lemma scan_strs_names:
  assumes "names_ok f" and "length s < 256"
  shows "\<exists>vs. scan_strs f s = Inr vs \<and> list_all (\<lambda>v. sym_ok v \<and> v \<noteq> []) vs"
proof -
  have "\<exists>ws. scan_fmt f s = map VStr ws \<and> list_all (\<lambda>w. length w < 256 \<and> CHR 0x00 \<notin> set w \<and> w \<noteq> []) ws"
    if "\<forall>v\<in>set vs. \<exists>w. v = VStr w \<and> w \<noteq> [] \<and> CHR 0x00 \<notin> set w \<and> length w \<le> length s" "scan_fmt f s = vs" for vs
    using that(1) unfolding that(2)
  proof (induction vs)
    case (Cons v vs)
    then obtain w ws where "v = VStr w" "vs = map VStr ws" "w \<noteq> []" "CHR 0x00 \<notin> set w" "length w \<le> length s"
      "list_all (\<lambda>w. length w < 256 \<and> CHR 0x00 \<notin> set w \<and> w \<noteq> []) ws" by auto
    then show ?case using assms(2) by (intro exI [of _ "w # ws"]) simp
  qed simp
  then obtain ws where ws: "scan_fmt f s = map VStr ws" "list_all (\<lambda>w. length w < 256 \<and> CHR 0x00 \<notin> set w \<and> w \<noteq> []) ws"
    using scan_fmt_names [OF assms(1)] by blast
  then show ?thesis
    using scan_strs_tokens [OF ws(1)] by (auto simp: list_all_iff c_bytes_sym_ok) (simp add: c_bytes_def)
qed

text \<open>What no statement takes away: the classes, and the types with their values.\<close>

definition grows :: "policydb \<Rightarrow> policydb \<Rightarrow> bool" where
  "grows pdb pdb' \<longleftrightarrow> p_classes pdb' = p_classes pdb \<and>
     (\<forall>k t. sym_ok k \<longrightarrow> type_of pdb k = Some t \<longrightarrow> type_of pdb' k = Some t) \<and>
     unat (nprim (p_types pdb')) \<le> Suc (unat (nprim (p_types pdb)))"

lemma grows_same [simp]: "p_classes p' = p_classes p \<Longrightarrow> p_types p' = p_types p \<Longrightarrow> type_store p' = type_store p \<Longrightarrow> grows p p'"
  by (simp add: grows_def type_of_def)

definition keeps :: "policydb \<Rightarrow> (policydb \<times> int) res \<Rightarrow> bool" where
  "keeps pdb R \<longleftrightarrow> (\<exists>pdb' r. R = Inr (pdb', r) \<and> policy_ok pdb' \<and> grows pdb pdb')"

lemma create_domain_total:
  assumes "policy_ok pdb" and "sym_ok n" and "room_for_type pdb"
  shows "keeps pdb (bxxt_sepol_create_domain J pdb n)"
proof (cases "type_of pdb n")
  case None
  obtain pdb' where p: "bxxt_sepol_create_domain J pdb n = Inr (pdb', to_int32 (uint (nprim (p_types pdb) + 1)))" "policy_ok pdb'"
     "\<And>k. sym_ok k \<Longrightarrow> type_of pdb' k = (if k = n then Some (new_type\<lparr>type_value := nprim (p_types pdb) + 1\<rparr>) else type_of pdb k)"
     "nprim (p_types pdb') = nprim (p_types pdb) + 1" "p_classes pdb' = p_classes pdb"
    by (rule create_domain_new [OF assms(1,2) None assms(3), of J]) blast
  have "grows pdb pdb'" using p(3-5) None assms(3) by (auto simp: grows_def unat_plus_1 room_for_type_def)
  then show ?thesis using p(1,2) by (simp add: keeps_def)
next
  case (Some t)
  then show ?thesis using create_domain_old [OF assms(1,2)] assms(1) by (simp add: keeps_def)
qed

lemma set_permissive_total:
  assumes "policy_ok pdb" and "sym_ok n" and "room_for_type pdb"
  shows "keeps pdb (bxxt_sepol_set_permissive J pdb n v)"
proof -
  have m: "\<exists>m r. ebitmap_set_bit (permissive_map p) b v = (m, r) \<and> policy_ok (with_permissive p m) \<and> grows pdb (with_permissive p m)"
    if "policy_ok p" "grows pdb p" for p b
  proof -
    have "ebitmap_ok (permissive_map p)" using that(1) by (simp add: policy_ok_def maps_ok_def)
    then obtain m r where "ebitmap_set_bit (permissive_map p) b v = (m, r)" "ebitmap_ok m" using set_bit_total by blast
    then show ?thesis using that with_permissive_ok by (simp add: grows_def with_permissive_def type_of_def)
  qed
  obtain pdb1 b where p: "policy_ok pdb1" "grows pdb pdb1"
     "bxxt_sepol_set_permissive J pdb n v =
        (let (m, r) = ebitmap_set_bit (permissive_map pdb1) b v in Inr (with_permissive pdb1 m, r))"
  proof (cases "type_of pdb n")
    case None
    then show thesis
      using create_domain_total [OF assms, of J] type_search [OF assms(1,2)] that
      by (auto simp: bxxt_sepol_set_permissive_def type_of_def with_permissive_def keeps_def)
  next
    case (Some t)
    then show thesis
      using type_at_ok [OF assms(1,2)] type_search [OF assms(1,2)] that [OF assms(1)]
      by (auto simp: bxxt_sepol_set_permissive_def type_of_def with_permissive_def)
  qed
  then show ?thesis using m [OF p(1,2), of b] by (auto simp: keeps_def)
qed

lemma run_rule_total:
  assumes "policy_ok pdb" and "list_all sym_ok [src, tgt, cls, perm]"
  shows "keeps pdb (bxxt_sepol_allow_ext J pdb src tgt cls perm dis)"
proof -
  obtain te r where "bxxt_sepol_allow_ext J pdb src tgt cls perm dis = Inr (pdb\<lparr>te_avtab := te\<rparr>, r)" "policy_ok (pdb\<lparr>te_avtab := te\<rparr>)"
    using allow_ext_total [OF assms(1)] assms(2) by (auto, blast)
  then show ?thesis by (simp add: keeps_def)
qed

lemma keeps_bind:
  "\<exists>v. R = Inr v \<and> list_all (\<lambda>v. sym_ok v \<and> v \<noteq> []) v \<Longrightarrow> (\<And>v. list_all sym_ok v \<Longrightarrow> keeps pdb (f v)) \<Longrightarrow> keeps pdb (res_bind R f)"
  by (auto simp: list_all_iff)

lemma keeps_args4:
  assumes "keeps pdb B" and "\<And>a b c d. list_all sym_ok [a, b, c, d] \<Longrightarrow> keeps pdb (A a b c d)" and "list_all sym_ok v"
  shows "keeps pdb (case v of [a, b, c, d] \<Rightarrow> A a b c d | _ \<Rightarrow> B)"
  using assms by (auto split: list.split)

lemma keeps_args1:
  assumes "keeps pdb B" and "\<And>a. sym_ok a \<Longrightarrow> keeps pdb (A a)" and "list_all sym_ok v"
  shows "keeps pdb (case v of [a] \<Rightarrow> A a | _ \<Rightarrow> B)"
  using assms by (auto split: list.split)

lemma keeps_status: "keeps pdb R \<Longrightarrow> keeps pdb (res_bind R (\<lambda>(p, r). Inr (p, f r)))"
  by (auto simp: keeps_def)

lemma execute_total:
  assumes "policy_ok pdb" and "room_for_type pdb" and "length stmt < 256"
  shows "keeps pdb (bxxt_sepol_execute_stmt J pdb stmt)"
  unfolding bxxt_sepol_execute_stmt_def
  using assms
  by (intro keeps_bind keeps_args4 keeps_args1 keeps_status scan_strs_names formats_ok
      run_rule_total set_permissive_total create_domain_total) (auto simp: keeps_def)

text \<open>Text that is no statement: refused with nothing changed.\<close>

lemma execute_unknown:
  assumes "\<forall>kw\<in>{''allow'', ''disallow'', ''permissive'', ''enforce'', ''create''}. take (length kw) stmt \<noteq> kw"
  shows "bxxt_sepol_execute_stmt J pdb stmt = Inr (pdb, - 1)"
  using assms by (simp add: bxxt_sepol_execute_stmt_def scan_strs_other)

section \<open>Sessions\<close>

text \<open>
  The policies that sequences of statements can make of a policy, for any contents of
  uninitialised memory.
\<close>

inductive session :: "string list \<Rightarrow> policydb \<Rightarrow> policydb \<Rightarrow> bool" where
  session_done: "session [] pdb pdb"
| session_stmt: "bxxt_sepol_execute_stmt J pdb stmt = Inr (pdb1, r) \<Longrightarrow> session stmts pdb1 pdb2 \<Longrightarrow> session (stmt # stmts) pdb pdb2"

inductive_cases session_doneE: "session [] pdb pdb'"
inductive_cases session_stmtE: "session (stmt # stmts) pdb pdb'"

inductive_simps session_simps: "session [] pdb pdb'" "session (stmt # stmts) pdb pdb'"

definition room_for_types :: "nat \<Rightarrow> policydb \<Rightarrow> bool" where
  "room_for_types n pdb \<longleftrightarrow> unat (nprim (p_types pdb)) + n \<le> 4294967232"

lemma room_step: "room_for_types (Suc n) pdb \<Longrightarrow> room_for_type pdb"
  by (simp add: room_for_types_def room_for_type_def)

lemma room_grows: "room_for_types (Suc n) pdb \<Longrightarrow> grows pdb pdb' \<Longrightarrow> room_for_types n pdb'"
  by (auto simp: room_for_types_def grows_def)

lemma session_keeps:
  assumes "session stmts pdb pdb'" and "policy_ok pdb" and "room_for_types (length stmts) pdb"
    and "\<forall>s\<in>set stmts. length s < 256"
  shows "policy_ok pdb' \<and> p_classes pdb' = p_classes pdb \<and>
    (\<forall>k t. sym_ok k \<longrightarrow> type_of pdb k = Some t \<longrightarrow> type_of pdb' k = Some t)"
  using assms
proof (induction rule: session.induct)
  case (session_stmt J pdb stmt pdb1 r stmts pdb2)
  have r: "room_for_types (Suc (length stmts)) pdb" using session_stmt.prems(2) by simp
  have "keeps pdb (bxxt_sepol_execute_stmt J pdb stmt)"
    using session_stmt.prems room_step [OF r] by (intro execute_total) auto
  then have p1: "policy_ok pdb1" "grows pdb pdb1" using session_stmt.hyps(1) by (auto simp: keeps_def)
  have "policy_ok pdb2 \<and> p_classes pdb2 = p_classes pdb1 \<and>
      (\<forall>k t. sym_ok k \<longrightarrow> type_of pdb1 k = Some t \<longrightarrow> type_of pdb2 k = Some t)"
    using session_stmt.IH [OF p1(1) room_grows [OF r p1(2)]] session_stmt.prems(3) by simp
  then show ?case using p1(2) by (simp add: grows_def)
qed simp

text \<open>Sessions never get stuck.\<close>

lemma session_exists:
  assumes "policy_ok pdb" and "room_for_types (length stmts) pdb" and "\<forall>s\<in>set stmts. length s < 256"
  shows "\<exists>pdb'. session stmts pdb pdb'"
  using assms
proof (induction stmts arbitrary: pdb)
  case (Cons s ss)
  have r: "room_for_types (Suc (length ss)) pdb" using Cons.prems(2) by simp
  have "keeps pdb (bxxt_sepol_execute_stmt J pdb s)" for J
    using Cons.prems room_step [OF r] by (intro execute_total) auto
  then obtain J pdb1 x where e: "bxxt_sepol_execute_stmt J pdb s = Inr (pdb1, x)" "policy_ok pdb1" "grows pdb pdb1"
    unfolding keeps_def by meson
  then obtain pdb2 where "session ss pdb1 pdb2"
    using Cons.IH [OF e(2) room_grows [OF r e(3)]] Cons.prems(3) by auto
  then show ?case using session_stmt [OF e(1)] by blast
qed (auto intro: session_done)

lemma session_append: "session (a @ b) p q \<longleftrightarrow> (\<exists>m. session a p m \<and> session b m q)"
  by (induction a arbitrary: p) (auto intro: session.intros simp: session_simps)

end
