(* ===== verification/Bxxt_Getopt.thy ===== *)
theory Bxxt_Getopt
  imports Bxxt_Prelude
begin

text \<open>
  Command-line options as \<open>getopt\<close> delivers them one by one to the tools' switch
  statements: a letter with its argument, \<open>?\<close> for an unknown letter or a missing argument.
  Arguments that are no options are passed over.
\<close>

text \<open>\<open>ks c\<close> is \<open>Some True\<close> for a letter with an argument, \<open>Some False\<close> for one without.\<close>

fun getopt_scan :: "(char \<Rightarrow> bool option) \<Rightarrow> string \<Rightarrow> string list \<Rightarrow> (char \<times> string) list" where
  "getopt_scan ks [] [] = []"
| "getopt_scan ks [] (a # as) =
     (if a = ''--'' then []
      else case a of
        CHR ''-'' # c # cs \<Rightarrow> getopt_scan ks (c # cs) as
      | _ \<Rightarrow> getopt_scan ks [] as)"
| "getopt_scan ks (c # cs) as =
     (case ks c of
        None \<Rightarrow> (CHR ''?'', []) # getopt_scan ks cs as
      | Some False \<Rightarrow> (c, []) # getopt_scan ks cs as
      | Some True \<Rightarrow>
          if cs \<noteq> [] then (c, cs) # getopt_scan ks [] as
          else case as of [] \<Rightarrow> [(CHR ''?'', [])] | a # as' \<Rightarrow> (c, a) # getopt_scan ks [] as')"

definition getopt :: "(char \<Rightarrow> bool option) \<Rightarrow> string list \<Rightarrow> (char \<times> string) list" where
  "getopt ks argv = getopt_scan ks [] (tl argv)"

lemma getopt_flag: "ks c = Some False \<Longrightarrow> c \<noteq> CHR ''-'' \<Longrightarrow> getopt_scan ks [] ([CHR ''-'', c] # as) = (c, []) # getopt_scan ks [] as"
  by simp

lemma getopt_arg: "ks c = Some True \<Longrightarrow> c \<noteq> CHR ''-'' \<Longrightarrow> getopt_scan ks [] ([CHR ''-'', c] # a # as) = (c, a) # getopt_scan ks [] as"
  by simp

end
