(* ===== verification/Bxxt_Sepol_Main.thy ===== *)
theory Bxxt_Sepol_Main
  imports Sepol_Statements Bxxt_Getopt
begin

text \<open>
  The policy editor's runs (sepol.c): loading a policy image, executing a statement, saving
  the image and handing it to the kernel. Reading and printing the image format are
  arguments, as is the kernel's answer to a policy written to it.
\<close>

section \<open>Policies in memory and in files\<close>

text \<open>
  \<open>se_read\<close> is \<open>policydb_from_image\<close>'s parser (\<open>None\<close> for an invalid image),
  \<open>se_image\<close> is \<open>policydb_to_image\<close>, \<open>se_init\<close> is \<open>policydb_init\<close>, \<open>se_write\<close> is \<open>write\<close> on a
  descriptor, of a file or of the kernel's.
\<close>

record sepol_env =
  se_init :: policydb
  se_read :: "bytes \<Rightarrow> policydb option"
  se_image :: "policydb \<Rightarrow> bytes option"
  se_write :: "int \<Rightarrow> bytes \<Rightarrow> os \<Rightarrow> os \<times> int"
  se_junk :: junk

text \<open>A policy whose memory \<open>policydb_from_image\<close> has destroyed is \<open>None\<close>.\<close>

type_synonym sepoldb = "policydb option"

definition bxxt_sepol_new :: "sepol_env \<Rightarrow> sepoldb" where
  "bxxt_sepol_new E = Some (se_init E)"

definition live :: "sepoldb \<Rightarrow> policydb res" where
  "live bpb = (case bpb of None \<Rightarrow> Inl Use_After_Free | Some pdb \<Rightarrow> Inr pdb)"

definition bxxt_sepol_free :: "sepoldb \<Rightarrow> unit res" where
  "bxxt_sepol_free bpb = res_bind (live bpb) (\<lambda>_. Inr ())"

definition mapped_bytes :: "bxxt_file \<Rightarrow> os \<Rightarrow> bytes" where
  "mapped_bytes f s =
     (case fl_ptr f of Mapped p \<Rightarrow> (case os_map s p of Some d \<Rightarrow> take (fl_size f) d | None \<Rightarrow> []) | _ \<Rightarrow> [])"

definition bxxt_sepol_load_policy_file :: "sepol_env \<Rightarrow> sepoldb \<Rightarrow> string \<Rightarrow> os \<Rightarrow> (sepoldb \<times> os \<times> int) res" where
  "bxxt_sepol_load_policy_file E bpb nm s =
     res_bind (bxxt_file_new_mm nm O_RDONLY 420 2 3) (\<lambda>f.
       let (f, s, r) = bxxt_file_open f s in
       if r \<noteq> 0 then Inr (bpb, bxxt_file_close (Some f) s, BXXT_FAILED)
       else case se_read E (mapped_bytes f s) of
         None \<Rightarrow> Inr (None, bxxt_file_close (Some f) s, BXXT_FAILED)
       | Some pdb \<Rightarrow> Inr (Some pdb, bxxt_file_close (Some f) s, BXXT_SUCCESS))"

definition bxxt_sepol_save_policy_file :: "sepol_env \<Rightarrow> sepoldb \<Rightarrow> string \<Rightarrow> os \<Rightarrow> (os \<times> int) res" where
  "bxxt_sepol_save_policy_file E bpb nm s =
     res_bind (live bpb) (\<lambda>pdb.
     case se_image E pdb of None \<Rightarrow> Inr (s, BXXT_FAILED)
     | Some data \<Rightarrow>
         res_bind (bxxt_file_new nm (O_RDWR OR O_CREAT) 420) (\<lambda>f.
           let (f, s, r) = bxxt_file_open f s in
           if r \<noteq> 0 then Inr (bxxt_file_close (Some f) s, BXXT_FAILED)
           else let (s, _) = se_write E (fl_fd f) data s
             in Inr (bxxt_file_close (Some f) s, to_int32 (int (length data)))))"

definition sel_policy :: string where "sel_policy = ''/sys/fs/selinux/policy''"
definition sel_load :: string where "sel_load = ''/sys/fs/selinux/load''"

text \<open>The status of \<open>policydb_to_image\<close> is not looked at: without an image nothing is written.\<close>

definition bxxt_sepol_reload_kernel_policy :: "sepol_env \<Rightarrow> sepoldb \<Rightarrow> os \<Rightarrow> (os \<times> int) res" where
  "bxxt_sepol_reload_kernel_policy E bpb s =
     res_bind (live bpb) (\<lambda>pdb.
     let data = (case se_image E pdb of None \<Rightarrow> [] | Some d \<Rightarrow> d) in
     res_bind (bxxt_file_new sel_load O_WRONLY 384) (\<lambda>f.
       let (f, s, r) = bxxt_file_open f s in
       if r \<noteq> 0 then Inr (bxxt_file_close (Some f) s, BXXT_FAILED)
       else let (s, n) = se_write E (fl_fd f) data s
         in Inr (bxxt_file_close (Some f) s, if n = int (length data) then BXXT_SUCCESS else BXXT_FAILED)))"

definition bxxt_sepol_reload_kernel_policy_from_file :: "sepol_env \<Rightarrow> string \<Rightarrow> os \<Rightarrow> os res" where
  "bxxt_sepol_reload_kernel_policy_from_file E nm s =
     res_bind (bxxt_sepol_load_policy_file E (bxxt_sepol_new E) nm s) (\<lambda>(bpb, s, _).
     res_bind (bxxt_sepol_reload_kernel_policy E bpb s) (\<lambda>(s, _).
     res_bind (bxxt_sepol_free bpb) (\<lambda>_. Inr s)))"

text \<open>A statement on a policy that may be destroyed: text that is no statement does not touch it.\<close>

definition execute_on :: "sepol_env \<Rightarrow> sepoldb \<Rightarrow> string \<Rightarrow> (sepoldb \<times> int) res" where
  "execute_on E bpb stmt =
     (case bpb of
        Some pdb \<Rightarrow> res_bind (bxxt_sepol_execute_stmt (se_junk E) pdb stmt) (\<lambda>(pdb, r). Inr (Some pdb, r))
      | None \<Rightarrow>
          (let n = (\<lambda>f. length (scan_fmt f stmt)) in
           if n (rule_format ''allow'') = 4 \<or> n (rule_format ''disallow'') = 4 \<or> n (domain_format ''permissive'') = 1 \<or>
              n (domain_format ''enforce'') = 1 \<or> n (domain_format ''create'') = 1
           then Inl Use_After_Free else Inr (None, - 1)))"

definition sepol_rtexec :: "sepol_env \<Rightarrow> string \<Rightarrow> os \<Rightarrow> (os \<times> int) res" where
  "sepol_rtexec E stmt s =
     res_bind (bxxt_sepol_load_policy_file E (bxxt_sepol_new E) sel_policy s) (\<lambda>(bpb, s, _).
     res_bind (execute_on E bpb stmt) (\<lambda>(bpb, r).
     if r \<noteq> 0 then res_bind (bxxt_sepol_free bpb) (\<lambda>_. Inr (s, BXXT_FAILED))
     else res_bind (bxxt_sepol_reload_kernel_policy E bpb s) (\<lambda>(s, _).
       res_bind (bxxt_sepol_free bpb) (\<lambda>_. Inr (s, BXXT_SUCCESS)))))"

section \<open>The command\<close>

record sepol_args =
  sa_input :: string
  sa_output :: string
  sa_stmt :: string
  sa_reload :: bool

definition sepol_opts :: "char \<Rightarrow> bool option" where
  "sepol_opts c = (if c \<in> set ''sio'' then Some True else if c = CHR ''l'' then Some False else None)"

text \<open>The switch on one option: the arguments are copied into arrays of 4096 characters.\<close>

definition sepol_opt :: "char \<times> string \<Rightarrow> sepol_args \<Rightarrow> sepol_args res" where
  "sepol_opt = (\<lambda>(opt, optarg) a.
     if opt = CHR ''i'' then (if length optarg < PATH_MAX then Inr (a\<lparr>sa_input := optarg\<rparr>) else Inl Oob_Write)
     else if opt = CHR ''o'' then (if length optarg < PATH_MAX then Inr (a\<lparr>sa_output := optarg\<rparr>) else Inl Oob_Write)
     else if opt = CHR ''s'' then (if length optarg < 4096 then Inr (a\<lparr>sa_stmt := optarg\<rparr>) else Inl Oob_Write)
     else if opt = CHR ''l'' then Inr (a\<lparr>sa_reload := True\<rparr>)
     else Inr a)"

fun sepol_opt_loop :: "(char \<times> string) list \<Rightarrow> sepol_args \<Rightarrow> sepol_args res" where
  "sepol_opt_loop [] a = Inr a"
| "sepol_opt_loop (p # ps) a = res_bind (sepol_opt p a) (sepol_opt_loop ps)"

definition sepol_main :: "sepol_env \<Rightarrow> string list \<Rightarrow> os \<Rightarrow> (os \<times> int) res" where
  "sepol_main E argv s =
     res_bind (sepol_opt_loop (getopt sepol_opts argv) \<lparr>sa_input = sel_policy, sa_output = [], sa_stmt = [], sa_reload = False\<rparr>) (\<lambda>a.
     res_bind (bxxt_sepol_load_policy_file E (bxxt_sepol_new E) (sa_input a) s) (\<lambda>(bpb, s, _).
     res_bind (execute_on E bpb (sa_stmt a)) (\<lambda>(bpb, _).
     res_bind (if sa_output a \<noteq> [] then bxxt_sepol_save_policy_file E bpb (sa_output a) s else Inr (s, 0)) (\<lambda>(s, _).
     res_bind (if sa_reload a then bxxt_sepol_reload_kernel_policy E bpb s else Inr (s, 0)) (\<lambda>(s, _).
     res_bind (bxxt_sepol_free bpb) (\<lambda>_. Inr (s, 0)))))))"

section \<open>Opening and closing a file that is there\<close>

definition free_fd :: "os \<Rightarrow> nat \<Rightarrow> bool" where
  "free_fd s i \<longleftrightarrow> find (\<lambda>i. os_fdt s i = None) [0..<os_nofile s] = Some i \<and> 0 < i"

definition free_map :: "os \<Rightarrow> nat \<Rightarrow> bool" where
  "free_map s p \<longleftrightarrow> find (\<lambda>i. os_map s i = None) [1..<65536] = Some p"

lemma free_fd_None: "free_fd s i \<Longrightarrow> os_fdt s i = None" and free_map_None: "free_map s p \<Longrightarrow> os_map s p = None"
  by (auto simp: free_fd_def free_map_def find_Some_iff)

definition opened :: "string \<Rightarrow> u32 \<Rightarrow> nat \<Rightarrow> os \<Rightarrow> os" where
  "opened n fl i s = s\<lparr>os_fdt := (os_fdt s)(i \<mapsto> \<lparr>of_name = n, of_pos = 0, of_flags = fl\<rparr>)\<rparr>"

lemma os_open_there:
  assumes "os_may s n fl" and "os_fs s n = Some (Reg d)" and "free_fd s i" and "fl AND O_TRUNC = 0" and "fl AND O_EXCL = 0"
  shows "os_open n fl s = (opened n fl i s, int i)"
  using assms by (simp add: os_open_def new_fd_def opened_def free_fd_def)

lemma os_fstat_opened: "os_fs s n = Some (Reg d) \<Longrightarrow> os_fstat (int i) (opened n fl i s) = Some (length d)"
  by (simp add: os_fstat_def opened_def stat_size_def)

lemma close_opened:
  assumes "free_fd s i"
  shows "os_close (int i) (opened n fl i s) = s"
  using free_fd_None [OF assms] by (simp add: os_close_def opened_def fun_upd_idem)

definition plain_handle :: "string \<Rightarrow> u32 \<Rightarrow> u32 \<Rightarrow> bxxt_file" where
  "plain_handle n fl m = \<lparr>fl_fd = 0, fl_name = n, fl_flags = fl, fl_mode = m, fl_size = 0, fl_mm = False,
     fl_mm_flags = 0, fl_mm_prot = 0, fl_ptr = Null\<rparr>"

lemma bxxt_file_new_handle: "length n < PATH_MAX \<Longrightarrow> bxxt_file_new n fl m = Inr (plain_handle n fl m)"
  by (simp add: bxxt_file_new_def plain_handle_def)

lemma plain_open:
  assumes "os_may s n fl" and "os_fs s n = Some (Reg d)" and "free_fd s i" and "fl AND O_TRUNC = 0" and "fl AND O_EXCL = 0"
  shows "bxxt_file_open (plain_handle n fl m) s =
    ((plain_handle n fl m)\<lparr>fl_fd := int i, fl_size := length d\<rparr>, opened n fl i s, 0)"
  using os_open_there [OF assms] os_fstat_opened [OF assms(2)] by (simp add: bxxt_file_open_def plain_handle_def)

lemma plain_close:
  assumes "0 < i"
  shows "bxxt_file_close (Some ((plain_handle n fl m)\<lparr>fl_fd := int i, fl_size := k\<rparr>)) s = os_close (int i) s"
  using assms by (simp add: bxxt_file_close_def bxxt_file_close_no_free_def plain_handle_def)

text \<open>Writing a whole buffer to a file just opened and closing it again.\<close>

lemma write_opened:
  assumes "os_fs s n = Some (Reg d)" and "can_write fl" and "free_fd s i"
  shows "os_write (int i) x (opened n fl i s) =
     ((opened n fl i s)\<lparr>os_fdt := (os_fdt s)(i \<mapsto> \<lparr>of_name = n, of_pos = length x, of_flags = fl\<rparr>),
        os_fs := (os_fs s)(n \<mapsto> Reg (write_at d 0 x))\<rparr>, int (length x))"
proof (cases x)
  case Nil
  have u: "(os_fs s)(n \<mapsto> Reg (write_at d 0 [])) = os_fs s" using assms(1) by (auto simp: write_at_def splice_def)
  have up: "s\<lparr>os_fdt := a\<rparr> = s\<lparr>os_fdt := a, os_fs := os_fs s\<rparr>" for a by simp
  show ?thesis unfolding Nil using assms u up by (simp add: os_write_def opened_def)
next
  case (Cons y ys)
  then show ?thesis using assms by (simp add: os_write_def opened_def)
qed

lemma write_at_0: "write_at d 0 x = x @ drop (length x) d"
  by (simp add: write_at_def splice_def)

lemma written_closed:
  assumes "free_fd s i"
  shows "os_close (int i) ((opened n fl i s)\<lparr>os_fdt := (os_fdt s)(i \<mapsto> f), os_fs := fs\<rparr>) = s\<lparr>os_fs := fs\<rparr>"
  using free_fd_None [OF assms] by (simp add: os_close_def opened_def fun_upd_idem)

text \<open>Loading: the file is mapped, parsed and closed; whatever the parser says, the system is as before.\<close>

lemma load_reads:
  assumes "os_may s n O_RDONLY" and "os_fs s n = Some (Reg d)" and "d \<noteq> []" and i: "free_fd s i" and p: "free_map s p"
    and "length n < PATH_MAX"
  shows "bxxt_sepol_load_policy_file E bpb n s =
    (case se_read E d of None \<Rightarrow> Inr (None, s, BXXT_FAILED) | Some pdb \<Rightarrow> Inr (Some pdb, s, BXXT_SUCCESS))"
proof -
  define f where "f = (plain_handle n O_RDONLY 420)\<lparr>fl_mm := True, fl_mm_flags := 2, fl_mm_prot := 3\<rparr>"
  have new: "bxxt_file_new_mm n O_RDONLY 420 2 3 = Inr f"
    using assms(6) by (simp add: bxxt_file_new_mm_def bxxt_file_new_handle f_def)
  define s1 where "s1 = (opened n O_RDONLY i s)\<lparr>os_map := (os_map s)(p \<mapsto> d)\<rparr>"
  have m: "os_mmap (int i) (opened n O_RDONLY i s) = (s1, Mapped p)"
    using assms p by (simp add: os_mmap_def opened_def s1_def free_map_def can_read_def O_RDONLY_def map_file_def)
  let ?f = "f\<lparr>fl_fd := int i, fl_size := length d, fl_ptr := Mapped p\<rparr>"
  have op: "bxxt_file_open f s = (?f, s1, 0)"
    using os_open_there [of s n O_RDONLY d i] assms os_fstat_opened [OF assms(2)] m
    by (simp add: bxxt_file_open_def f_def plain_handle_def O_RDONLY_def)
  have "i \<noteq> 0" using i by (simp add: free_fd_def)
  then have cl: "bxxt_file_close (Some ?f) s1 = s"
    using free_fd_None [OF i] free_map_None [OF p]
    by (simp add: bxxt_file_close_def bxxt_file_close_no_free_def f_def plain_handle_def os_munmap_def os_close_def s1_def opened_def fun_upd_idem)
  have "mapped_bytes ?f s1 = d" by (simp add: mapped_bytes_def s1_def)
  then show ?thesis using new op cl by (simp add: bxxt_sepol_load_policy_file_def split: option.split)
qed

lemma load_missing:
  assumes "os_fs s n = None" and "length n < PATH_MAX"
  shows "bxxt_sepol_load_policy_file E bpb n s = Inr (bpb, s, BXXT_FAILED)"
proof -
  have "os_open n O_RDONLY s = (s, - 1)" using assms(1) by (simp add: os_open_def O_RDONLY_def)
  then show ?thesis using assms(2)
    by (simp add: bxxt_sepol_load_policy_file_def bxxt_file_new_mm_def bxxt_file_new_handle plain_handle_def bxxt_file_open_def
        bxxt_file_close_no_free_def bxxt_file_close_def)
qed

lemma reload_writes:
  assumes "os_may s sel_load O_WRONLY" and "os_fs s sel_load = Some (Reg d)" and i: "free_fd s i" and "se_write E = os_write"
  shows "bxxt_sepol_reload_kernel_policy E (Some pdb) s =
    Inr (s\<lparr>os_fs := (os_fs s)(sel_load \<mapsto> Reg (write_at d 0 (case se_image E pdb of None \<Rightarrow> [] | Some x \<Rightarrow> x)))\<rparr>, BXXT_SUCCESS)"
proof -
  have "length sel_load < PATH_MAX" by (simp add: sel_load_def PATH_MAX_def)
  note h = bxxt_file_new_handle [OF this]
  have fl: "O_WRONLY AND O_TRUNC = 0" "O_WRONLY AND O_EXCL = 0" "can_write O_WRONLY"
    by (simp_all add: O_WRONLY_def O_TRUNC_def O_EXCL_def can_write_def)
  have "0 < i" using i by (simp add: free_fd_def)
  note op = plain_open [OF assms(1,2) i fl(1,2)] plain_close [OF this] write_opened [OF assms(2) fl(3) i] written_closed [OF i]
  show ?thesis using h op assms(4) by (simp add: bxxt_sepol_reload_kernel_policy_def live_def plain_handle_def Let_def)
qed

lemma save_writes:
  assumes "os_may s n (O_RDWR OR O_CREAT)" and "os_fs s n = Some (Reg d)" and i: "free_fd s i" and "se_write E = os_write"
    and "length n < PATH_MAX" and "se_image E pdb = Some x"
  shows "bxxt_sepol_save_policy_file E (Some pdb) n s =
    Inr (s\<lparr>os_fs := (os_fs s)(n \<mapsto> Reg (write_at d 0 x))\<rparr>, to_int32 (int (length x)))"
proof -
  note h = bxxt_file_new_handle [OF assms(5)]
  have fl: "(O_RDWR OR O_CREAT) AND O_TRUNC = 0" "(O_RDWR OR O_CREAT) AND O_EXCL = 0" "can_write (O_RDWR OR O_CREAT)"
    by (simp_all add: O_RDWR_def O_CREAT_def O_TRUNC_def O_EXCL_def can_write_def)
  have "0 < i" using i by (simp add: free_fd_def)
  note op = plain_open [OF assms(1,2) i fl(1,2)] plain_close [OF this] write_opened [OF assms(2) fl(3) i] written_closed [OF i]
  show ?thesis using h op assms(4,6) by (simp add: bxxt_sepol_save_policy_file_def live_def plain_handle_def Let_def)
qed

end
