(* ===== verification/Policy_Properties.thy ===== *)
theory Policy_Properties
  imports Bxxt_Sepol_Main
begin

text \<open>
  The properties of the policy editor: what its statements do to a well-formed policy, that
  no statement faults, what a session keeps, and the runs over files; with a small policy
  for the witnesses.
\<close>

section \<open>A small policy\<close>

text \<open>Tables of one slot: one class \<open>file\<close> with the permission \<open>read\<close>, one type \<open>app\<close>, one role.\<close>

definition one_slot :: "(bytes \<times> 'd) list \<Rightarrow> (bytes, 'd) hashtab" where
  "one_slot ns = \<lparr>htable = [ns], hsize = 1, nel = word_of_nat (length ns), hash_value = symhash, keycmp = symcmp\<rparr>"

lemma one_slot_ok: "sym.chain_ok ns \<Longrightarrow> sym.table_ok (one_slot ns)" "sym.counted (one_slot ns)"
  "sym.contents (one_slot ns) k = map_of ns k"
  by (simp_all add: one_slot_def sym.table_ok_def sym.slot_of_def symhash_def sym.counted_def sym.contents_def)

definition one_table :: "(bytes \<times> 'd) list \<Rightarrow> 'd symtab" where
  "one_table ns = \<lparr>table = Some (one_slot ns), nprim = word_of_nat (length ns)\<rparr>"

lemma one_table_contents [simp]: "sym_contents (one_table ns) k = map_of ns k"
  by (simp add: sym_contents_def one_table_def one_slot_ok)

lemma one_table_nprim [simp]: "nprim (one_table ns) = word_of_nat (length ns)"
  by (simp add: one_table_def)

definition demo_class :: class_datum where
  "demo_class = \<lparr>class_value = 1, comdatum = None, permissions = one_table [(c_bytes ''read'', \<lparr>perm_value = 2\<rparr>)]\<rparr>"

definition demo_type :: type_datum where
  "demo_type = new_type\<lparr>type_value := 1\<rparr>"

definition demo_rules :: avtab where
  "demo_rules = fst (avtab_alloc \<lparr>avslots = None, avnel = 0, nslot = 0, avmask = 0\<rparr> 8)"

definition demo_policy :: policydb where
  "demo_policy = \<lparr>policy_type = POLICY_KERN, target_platform = SEPOL_TARGET_SELINUX, policyvers = 30,
     p_classes = one_table [(c_bytes ''file'', demo_class)], p_types = one_table [(c_bytes ''app'', 0)],
     type_store = [demo_type], types_scope = one_table [(c_bytes ''app'', 0)],
     scope_store = [\<lparr>sc_scope = SCOPE_DECL, decl_ids = [1]\<rparr>],
     p_roles = [\<lparr>ts_types = ebitmap_init, ts_negset = ebitmap_init\<rparr>], roles_nprim = 1, declared_types = ebitmap_init,
     te_avtab = demo_rules, type_attr_map = [ebitmap_init], attr_type_map = [ebitmap_init], permissive_map = ebitmap_init\<rparr>"

lemma demo_names [simp]: "sym_ok (c_bytes ''file'')" "sym_ok (c_bytes ''read'')" "sym_ok (c_bytes ''app'')"
  by (simp_all add: sym_ok_def c_bytes_def byte_of_chr_def)

lemma chain_one [simp]: "sym_ok k \<Longrightarrow> sym.chain_ok [(k, d)]"
  by (simp add: sym.chain_ok_def)

lemma demo_rules_ok: "av_ok demo_rules" "av_look demo_rules k = None"
  using avtab_alloc_correct [of 8 "\<lparr>avslots = None, avnel = 0, nslot = 0, avmask = 0\<rparr>" k] by (auto simp: demo_rules_def)

lemma demo_policy_ok: "policy_ok demo_policy"
proof -
  have "class_ok demo_class"
    by (auto simp: class_ok_def perms_ok_def demo_class_def one_slot_ok) (simp add: one_table_def one_slot_ok)
  moreover have "types_ok demo_policy"
    by (auto simp: types_ok_def types_of_def sym_scope_ok_def demo_policy_def one_slot_ok split: if_splits)
      (simp_all add: one_table_def one_slot_ok)
  moreover have "\<exists>t. table (one_table [(c_bytes ''file'', demo_class)]) = Some t \<and> sym.table_ok t"
    by (simp add: one_table_def one_slot_ok)
  ultimately show ?thesis
    using demo_rules_ok(1) by (auto simp: policy_ok_def classes_ok_def maps_ok_def demo_policy_def split: if_splits)
qed

lemma demo_policy_parts:
  "sym_contents (p_classes demo_policy) (c_bytes ''file'') = Some demo_class"
  "type_of demo_policy (c_bytes ''app'') = Some demo_type" "mask_of demo_class (c_bytes ''read'') = Some 2"
  "type_of demo_policy (c_bytes ''new'') = None" "room_for_types 100 demo_policy" "room_for_type demo_policy"
  "av_look (te_avtab demo_policy) k = None"
  by (simp_all add: demo_policy_def type_of_def mask_of_def demo_class_def demo_rules_ok c_bytes_def byte_of_chr_def
      room_for_types_def room_for_type_def)

definition demo_junk :: junk where
  "demo_junk = \<lparr>jk_datum = \<lparr>av_data = 0xFF00, xperms = None\<rparr>, jk_map = ebitmap_init\<rparr>"

lemma demo_tokens [simp]: "token name_char ''app''" "token name_char ''file''" "token name_char ''new''" "token perm_char ''read''"
  by (simp_all add: token_def name_char_def perm_char_def)

section \<open>Statements\<close>

lemma token_sym_ok: "token name_char w \<Longrightarrow> sym_ok (c_bytes w)" "token perm_char w \<Longrightarrow> sym_ok (c_bytes w)"
  by (rule c_bytes_sym_ok, force simp: token_def list_all_iff name_char_def perm_char_def)+

text \<open>
  C11: a printed \<open>allow\<close> or \<open>disallow\<close> statement over names the policy knows succeeds and
  keeps the policy well-formed; it sets or clears exactly the permission's bits in the rule
  of the types and the class and leaves every other rule. Where there was no rule, the rest
  of the new rule is what the allocated memory held.
\<close>

theorem rule_statement_edits:
  assumes "policy_ok pdb" and "stmt_ok (Allow dis src tgt cls perm)"
    and "sym_contents (p_classes pdb) (c_bytes cls) = Some c"
    and "type_of pdb (c_bytes src) = Some s" and "type_of pdb (c_bytes tgt) = Some t" and "mask_of c (c_bytes perm) = Some m"
  shows "\<exists>te. bxxt_sepol_execute_stmt J pdb (print_stmt (Allow dis src tgt cls perm)) = Inr (pdb\<lparr>te_avtab := te\<rparr>, 0) \<and>
    policy_ok (pdb\<lparr>te_avtab := te\<rparr>) \<and>
    av_look te (rule_key s t c) = Some (av_upd (\<lambda>d. if dis then d AND NOT m else d OR m)
      (case av_look (te_avtab pdb) (rule_key s t c) of None \<Rightarrow> jk_datum J | Some d \<Rightarrow> d)) \<and>
    (\<forall>k. \<not> av_same (rule_key s t c) k \<longrightarrow> av_look te k = av_look (te_avtab pdb) k)"
proof -
  have k: "sym_ok (c_bytes cls)" "sym_ok (c_bytes src)" "sym_ok (c_bytes tgt)" "sym_ok (c_bytes perm)"
    using assms(2) by (simp_all add: token_sym_ok)
  show ?thesis unfolding execute_printed [OF assms(2)] run_stmt.simps
    using allow_ext_correct [OF assms(1) k assms(3-6), of J dis] by (simp add: BXXT_SUCCESS_def)
qed

theorem rule_statement_edits_witness:
  "\<exists>te. bxxt_sepol_execute_stmt demo_junk demo_policy ''allow app app:file read;'' = Inr (demo_policy\<lparr>te_avtab := te\<rparr>, 0) \<and>
    policy_ok (demo_policy\<lparr>te_avtab := te\<rparr>) \<and> av_look te (rule_key demo_type demo_type demo_class) = Some \<lparr>av_data = 0xFF02, xperms = None\<rparr>"
  using rule_statement_edits [OF demo_policy_ok _ demo_policy_parts(1,2,2,3), of False demo_junk]
  by (auto simp: demo_policy_parts(7) demo_junk_def av_upd_def)

text \<open>
  C12: \<open>create\<close> of an unknown name declares one type with the next value: it is in every
  role, in no role's exclusions, in its own attribute set and in the declaration; every
  other type, the rules and the permissive domains are as before.
\<close>

theorem create_statement_adds_type:
  assumes "policy_ok pdb" and "token name_char n" and "type_of pdb (c_bytes n) = None" and "room_for_type pdb"
    and "unat (nprim (p_types pdb)) < 2147483647"
  shows "\<exists>pdb'. bxxt_sepol_execute_stmt J pdb (print_stmt (Create n)) = Inr (pdb', 0) \<and> policy_ok pdb' \<and>
    nprim (p_types pdb') = nprim (p_types pdb) + 1 \<and>
    (\<forall>k. sym_ok k \<longrightarrow> type_of pdb' k = (if k = c_bytes n then Some (new_type\<lparr>type_value := nprim (p_types pdb) + 1\<rparr>) else type_of pdb k)) \<and>
    (\<forall>i < unat (roles_nprim pdb). ebits (ts_types (p_roles pdb' ! i)) = insert (unat (nprim (p_types pdb))) (ebits (ts_types (p_roles pdb ! i))) \<and>
       unat (nprim (p_types pdb)) \<notin> ebits (ts_negset (p_roles pdb' ! i))) \<and>
    map ebits (type_attr_map pdb') = map ebits (type_attr_map pdb) @ [{unat (nprim (p_types pdb))}] \<and>
    ebits (declared_types pdb') = insert (unat (nprim (p_types pdb))) (ebits (declared_types pdb)) \<and>
    te_avtab pdb' = te_avtab pdb \<and> permissive_map pdb' = permissive_map pdb"
proof -
  have st: "stmt_ok (Create n)" using assms(2) by simp
  have "unat (nprim (p_types pdb) + 1) = Suc (unat (nprim (p_types pdb)))"
    using assms(4) by (simp add: unat_plus_1 room_for_type_def)
  then have "int (unat (nprim (p_types pdb) + 1)) < 2147483648" using assms(5) by linarith
  then have "uint (nprim (p_types pdb) + 1) < 2147483648" by simp
  then have nn: "\<not> to_int32 (uint (nprim (p_types pdb) + 1)) < 0" using uint_ge_0 [of "nprim (p_types pdb) + 1"]
    by (subst to_int32_id) linarith+
  show ?thesis
    unfolding execute_printed [OF st] run_stmt.simps
    by (rule create_domain_new [OF assms(1) token_sym_ok(1) [OF assms(2)] assms(3,4), of J]) (auto simp: nn)
qed

theorem create_statement_adds_type_witness:
  "\<exists>pdb'. bxxt_sepol_execute_stmt demo_junk demo_policy ''create new;'' = Inr (pdb', 0) \<and> policy_ok pdb' \<and>
    type_of pdb' (c_bytes ''new'') = Some (new_type\<lparr>type_value := 2\<rparr>) \<and> ebits (ts_types (p_roles pdb' ! 0)) = {1}"
proof -
  have n: "nprim (p_types demo_policy) = 1" "roles_nprim demo_policy = 1" "ebits (ts_types (p_roles demo_policy ! 0)) = {}"
    by (simp_all add: demo_policy_def one_table_def)
  have "sym_ok (c_bytes ''new'')" by (simp add: token_sym_ok)
  then show ?thesis
    using create_statement_adds_type [OF demo_policy_ok, of "''new''" demo_junk] by (auto simp: demo_policy_parts n)
qed

text \<open>
  \<open>permissive\<close> and \<open>enforce\<close> of a known domain set and clear the bit of its value in the
  permissive map; no other domain's bit and nothing else of the policy changes.
\<close>

theorem permissive_statement_sets_bit:
  assumes "policy_ok pdb" and "token name_char n" and "type_of pdb (c_bytes n) = Some t" and "unat (type_value t) < 4294967232"
  shows "\<exists>m. bxxt_sepol_execute_stmt J pdb (print_stmt (Permissive v n)) = Inr (pdb\<lparr>permissive_map := m\<rparr>, 0) \<and>
    policy_ok (pdb\<lparr>permissive_map := m\<rparr>) \<and>
    ebits m = (if v then insert (unat (type_value t)) (ebits (permissive_map pdb)) else ebits (permissive_map pdb) - {unat (type_value t)})"
proof -
  have st: "stmt_ok (Permissive v n)" using assms(2) by simp
  show ?thesis
    unfolding execute_printed [OF st] run_stmt.simps
    by (rule set_permissive_old [OF assms(1) token_sym_ok(1) [OF assms(2)] assms(3,4), of J v]) (auto simp: with_permissive_def)
qed

theorem permissive_statement_sets_bit_witness:
  "\<exists>m. bxxt_sepol_execute_stmt demo_junk demo_policy ''permissive app;'' = Inr (demo_policy\<lparr>permissive_map := m\<rparr>, 0) \<and> ebits m = {1}"
  using permissive_statement_sets_bit [OF demo_policy_ok _ demo_policy_parts(2), of demo_junk True]
  by (auto simp: demo_type_def demo_policy_def)

text \<open>
  C14: any text of less than 256 characters, statement or not, runs on a well-formed policy
  without an invalid memory access; the policy stays well-formed, its classes and the types
  it has stay what they are.
\<close>

theorem any_text_is_safe:
  assumes "policy_ok pdb" and "room_for_type pdb" and "length stmt < 256"
  shows "\<exists>pdb' r. bxxt_sepol_execute_stmt J pdb stmt = Inr (pdb', r) \<and> policy_ok pdb' \<and> p_classes pdb' = p_classes pdb \<and>
    (\<forall>k t. sym_ok k \<longrightarrow> type_of pdb k = Some t \<longrightarrow> type_of pdb' k = Some t)"
  using execute_total [OF assms, of J] by (auto simp: keeps_def grows_def)

theorem any_text_is_safe_witness:
  "\<exists>pdb' r. bxxt_sepol_execute_stmt demo_junk demo_policy ''allow su app:file {read};'' = Inr (pdb', r) \<and> policy_ok pdb' \<and>
    type_of pdb' (c_bytes ''app'') = Some demo_type"
  using any_text_is_safe [OF demo_policy_ok demo_policy_parts(6), of "''allow su app:file {read};''" demo_junk] demo_policy_parts(2)
  by auto

text \<open>a name of 256 characters in a statement runs over the array it is scanned into.\<close>

theorem long_name_overflows:
  assumes "list_all name_char w" and "256 \<le> length w"
  shows "bxxt_sepol_execute_stmt J pdb (''allow '' @ w) = Inl Oob_Write"
proof -
  have w: "w \<noteq> []" "\<forall>c\<in>set w. name_char c" using assms by (auto simp: list_all_iff)
  have h: "\<not> c_isspace (hd w)" using w name_char_props [of "hd w"] by simp
  have "scan_fmt (rule_format ''allow'') (''allow'' @ CHR '' '' # w @ []) = VStr w # scan_fmt (FSpace # FSet name_char # FLit CHR '':'' # FSet name_char #
     FSpace # FSet perm_char # [FLit CHR '';'']) []"
    unfolding rule_format_def scan_lits scan_space_word [OF w(1) h]
    by (rule scan_set [OF w(1,2)]) simp
  also have "\<dots> = [VStr w]" by simp
  finally have "scan_strs (rule_format ''allow'') (''allow'' @ CHR '' '' # w @ []) = Inl Oob_Write"
    using assms(2) by (simp only: scan_strs_def) (simp add: c_bytes_def)
  then show ?thesis by (simp add: bxxt_sepol_execute_stmt_def)
qed

theorem long_name_overflows_witness:
  "bxxt_sepol_execute_stmt demo_junk demo_policy (''allow '' @ replicate 256 CHR ''a'') = Inl Oob_Write"
  by (rule long_name_overflows) (simp_all add: list_all_iff name_char_def)

section \<open>Sessions\<close>

text \<open>
  C13: every session on a well-formed policy with room for its new types ends in a
  well-formed policy with the same classes, in which every type has kept its value.
\<close>

theorem session_invariant:
  assumes "session stmts pdb pdb'" and "policy_ok pdb" and "room_for_types (length stmts) pdb"
    and "\<forall>s\<in>set stmts. length s < 256"
  shows "policy_ok pdb' \<and> p_classes pdb' = p_classes pdb \<and>
    (\<forall>k t. sym_ok k \<longrightarrow> type_of pdb k = Some t \<longrightarrow> type_of pdb' k = Some t)"
  using session_keeps [OF assms] .

theorem session_invariant_witness:
  "\<exists>pdb'. session [''create new;'', ''permissive new;''] demo_policy pdb' \<and> policy_ok pdb' \<and> type_of pdb' (c_bytes ''app'') = Some demo_type"
proof -
  have r: "room_for_types (length [''create new;'', ''permissive new;'']) demo_policy"
    using demo_policy_parts(5) by (simp add: room_for_types_def)
  have l: "\<forall>s\<in>set [''create new;'', ''permissive new;'']. length s < 256" by simp
  obtain pdb' where p: "session [''create new;'', ''permissive new;''] demo_policy pdb'"
    using session_exists [OF demo_policy_ok r l] by (elim exE)
  show ?thesis using session_invariant [OF p demo_policy_ok r l] p demo_policy_parts(2)
    by (intro exI [of _ pdb'] conjI) simp_all
qed

section \<open>Runs over files\<close>

text \<open>What a run needs of the system: a descriptor and a mapping are free, the two kernel files can be opened.\<close>

definition kernel_files :: "os \<Rightarrow> bytes \<Rightarrow> bytes \<Rightarrow> nat \<Rightarrow> nat \<Rightarrow> bool" where
  "kernel_files s d old i p \<longleftrightarrow> free_fd s i \<and> free_map s p \<and> d \<noteq> [] \<and>
     os_may s sel_policy O_RDONLY \<and> os_fs s sel_policy = Some (Reg d) \<and>
     os_may s sel_load O_WRONLY \<and> os_fs s sel_load = Some (Reg old)"

lemma sel_short: "length sel_policy < PATH_MAX" "length sel_load < PATH_MAX"
  by (simp_all add: sel_policy_def sel_load_def PATH_MAX_def)

text \<open>
  C10: running one statement refines the statement on the policy: where the kernel's file
  holds an image of a policy, the run succeeds when the statement does, and what it writes
  to the kernel is the image of the edited policy; nothing else of the system changes.
\<close>

theorem rtexec_refines:
  assumes "kernel_files s d old i p" and "se_read E d = Some pdb" and "se_write E = os_write"
    and "bxxt_sepol_execute_stmt (se_junk E) pdb stmt = Inr (pdb', 0)" and "se_image E pdb' = Some x"
  shows "sepol_rtexec E stmt s = Inr (s\<lparr>os_fs := (os_fs s)(sel_load \<mapsto> Reg (x @ drop (length x) old))\<rparr>, BXXT_SUCCESS)"
proof -
  have k: "free_fd s i" "free_map s p" "d \<noteq> []" "os_may s sel_policy O_RDONLY" "os_fs s sel_policy = Some (Reg d)"
    "os_may s sel_load O_WRONLY" "os_fs s sel_load = Some (Reg old)" using assms(1) by (simp_all add: kernel_files_def)
  note l = load_reads [OF k(4,5,3,1,2) sel_short(1)] and r = reload_writes [OF k(6,7,1) assms(3)]
  show ?thesis using assms(2-5)
    by (simp add: sepol_rtexec_def l r execute_on_def bxxt_sepol_free_def live_def write_at_0)
qed

text \<open>a statement that is refused leaves the kernel's policy and every file alone.\<close>

theorem rtexec_refused:
  assumes "kernel_files s d old i p" and "se_read E d = Some pdb"
    and "bxxt_sepol_execute_stmt (se_junk E) pdb stmt = Inr (pdb', r)" and "r \<noteq> 0"
  shows "sepol_rtexec E stmt s = Inr (s, BXXT_FAILED)"
proof -
  have k: "free_fd s i" "free_map s p" "d \<noteq> []" "os_may s sel_policy O_RDONLY" "os_fs s sel_policy = Some (Reg d)"
    using assms(1) by (simp_all add: kernel_files_def)
  show ?thesis using assms(2-4)
    by (simp add: sepol_rtexec_def load_reads [OF k(4,5,3,1,2) sel_short(1)] execute_on_def bxxt_sepol_free_def live_def)
qed

text \<open>
  C40: an invalid image is destroyed by the loader and destroyed again when the run ends: any
  statement, and any command without an output file, then works on freed memory.
\<close>

theorem invalid_image_freed_twice:
  assumes "kernel_files s d old i p" and "se_read E d = None"
  shows "sepol_rtexec E stmt s = Inl Use_After_Free \<and> sepol_main E [''sepol''] s = Inl Use_After_Free"
proof -
  have k: "free_fd s i" "free_map s p" "d \<noteq> []" "os_may s sel_policy O_RDONLY" "os_fs s sel_policy = Some (Reg d)"
    using assms(1) by (simp_all add: kernel_files_def)
  note l = load_reads [OF k(4,5,3,1,2) sel_short(1)]
  have e: "execute_on E None st = Inl Use_After_Free \<or> execute_on E None st = Inr (None, - 1)" for st
    by (simp add: execute_on_def Let_def)
  show ?thesis
    using assms(2) e [of stmt] e [of "[]"]
    by (auto simp: sepol_rtexec_def sepol_main_def getopt_def l bxxt_sepol_free_def live_def)
qed

text \<open>
  when the edited policy has no image, nothing is written to the kernel and the run
  still reports success.
\<close>

theorem reload_without_image_succeeds:
  assumes "kernel_files s d old i p" and "se_write E = os_write" and "se_image E pdb = None"
  shows "bxxt_sepol_reload_kernel_policy E (Some pdb) s = Inr (s, BXXT_SUCCESS)"
proof -
  have k: "free_fd s i" "os_may s sel_load O_WRONLY" "os_fs s sel_load = Some (Reg old)"
    using assms(1) by (simp_all add: kernel_files_def)
  have "(os_fs s)(sel_load \<mapsto> Reg old) = os_fs s" using k(3) by auto
  then show ?thesis using reload_writes [OF k(2,3,1) assms(2), of pdb] assms(3) by (simp add: write_at_0)
qed

text \<open>saving a policy over a longer file leaves the end of the old file behind the image.\<close>

theorem save_keeps_old_tail:
  assumes "os_may s n (O_RDWR OR O_CREAT)" and "os_fs s n = Some (Reg old)" and "free_fd s i" and "se_write E = os_write"
    and "length n < PATH_MAX" and "se_image E pdb = Some x"
  shows "bxxt_sepol_save_policy_file E (Some pdb) n s =
    Inr (s\<lparr>os_fs := (os_fs s)(n \<mapsto> Reg (x @ drop (length x) old))\<rparr>, to_int32 (int (length x)))"
  using save_writes [OF assms] by (simp add: write_at_0)

subsection \<open>A small system\<close>

definition demo_os :: "bytes \<Rightarrow> os" where
  "demo_os d = \<lparr>os_fs = (\<lambda>n. None)(sel_policy \<mapsto> Reg d, sel_load \<mapsto> Reg [1, 2, 3]),
     os_fdt = (\<lambda>n. if n = 0 then Some \<lparr>of_name = ''tty'', of_pos = 0, of_flags = 0\<rparr> else None), os_nofile = 2,
     os_map = (\<lambda>_. None), os_may = (\<lambda>_ _. True)\<rparr>"

definition demo_env :: sepol_env where
  "demo_env = \<lparr>se_init = demo_policy, se_read = (\<lambda>d. if d = [7] then Some demo_policy else None),
     se_image = (\<lambda>q. if 1 \<in> ebits (permissive_map q) then Some [8] else None), se_write = os_write, se_junk = demo_junk\<rparr>"

lemma demo_kernel_files: "d \<noteq> [] \<Longrightarrow> kernel_files (demo_os d) d [1, 2, 3] 1 1"
proof -
  assume d: "d \<noteq> []"
  have first: "P a \<Longrightarrow> find P (a # as) = Some a" for P and a :: nat and as by simp
  have "[1..<65536] = 1 # [Suc 1..<65536]" by (rule upt_conv_Cons) simp
  then have "free_map (demo_os d) 1" unfolding free_map_def by (simp only:) (rule first, simp add: demo_os_def)
  moreover have "free_fd (demo_os d) 1" by (simp add: free_fd_def demo_os_def numeral_2_eq_2)
  ultimately show ?thesis using d by (simp add: kernel_files_def demo_os_def sel_policy_def sel_load_def)
qed

lemma demo_permissive:
  obtains m where "bxxt_sepol_execute_stmt demo_junk demo_policy ''permissive app;'' = Inr (demo_policy\<lparr>permissive_map := m\<rparr>, 0)"
    and "1 \<in> ebits m"
proof -
  have "sym_ok (c_bytes ''app'')" by simp
  moreover have "stmt_ok (Permissive True ''app'')" by simp
  moreover have "unat (type_value demo_type) < 4294967232" by (simp add: demo_type_def)
  ultimately show thesis
    using set_permissive_old [OF demo_policy_ok, of "c_bytes ''app''" demo_type demo_junk True] demo_policy_parts(2) that
      execute_printed [of "Permissive True ''app''" demo_junk demo_policy]
    by (auto simp: with_permissive_def demo_type_def)
qed

theorem rtexec_refines_witness:
  "\<exists>fs. sepol_rtexec demo_env ''permissive app;'' (demo_os [7]) = Inr ((demo_os [7])\<lparr>os_fs := fs\<rparr>, 0) \<and> fs sel_load = Some (Reg [8, 2, 3])"
proof -
  obtain m where m: "bxxt_sepol_execute_stmt demo_junk demo_policy ''permissive app;'' = Inr (demo_policy\<lparr>permissive_map := m\<rparr>, 0)"
    "1 \<in> ebits m" using demo_permissive by blast
  have "kernel_files (demo_os [7]) [7] [1, 2, 3] 1 1" by (rule demo_kernel_files) simp
  from rtexec_refines [OF this, of demo_env demo_policy "''permissive app;''" "demo_policy\<lparr>permissive_map := m\<rparr>" "[8]"] m
  have "sepol_rtexec demo_env ''permissive app;'' (demo_os [7]) =
      Inr ((demo_os [7])\<lparr>os_fs := (os_fs (demo_os [7]))(sel_load \<mapsto> Reg [8, 2, 3])\<rparr>, 0)"
    by (simp add: demo_env_def BXXT_SUCCESS_def)
  then show ?thesis by (intro exI conjI) (assumption, simp)
qed

theorem rtexec_refused_witness:
  "sepol_rtexec demo_env ''forget app;'' (demo_os [7]) = Inr (demo_os [7], - 25)"
proof -
  have k: "kernel_files (demo_os [7]) [7] [1, 2, 3] 1 1" by (rule demo_kernel_files) simp
  have e: "bxxt_sepol_execute_stmt demo_junk demo_policy ''forget app;'' = Inr (demo_policy, - 1)"
    by (rule execute_unknown) simp
  have "sepol_rtexec demo_env ''forget app;'' (demo_os [7]) = Inr (demo_os [7], BXXT_FAILED)"
    by (rule rtexec_refused [OF k, of _ demo_policy _ demo_policy "- 1"]) (simp_all add: demo_env_def e)
  then show ?thesis by (simp add: BXXT_FAILED_def)
qed

theorem invalid_image_freed_twice_witness: "sepol_rtexec demo_env ''permissive app;'' (demo_os [9]) = Inl Use_After_Free"
proof -
  have "kernel_files (demo_os [9]) [9] [1, 2, 3] 1 1" by (rule demo_kernel_files) simp
  then show ?thesis using invalid_image_freed_twice [of "demo_os [9]" "[9]"] by (simp add: demo_env_def)
qed

theorem reload_without_image_succeeds_witness:
  "bxxt_sepol_reload_kernel_policy demo_env (Some demo_policy) (demo_os [7]) = Inr (demo_os [7], 0)"
proof -
  have "kernel_files (demo_os [7]) [7] [1, 2, 3] 1 1" by (rule demo_kernel_files) simp
  from reload_without_image_succeeds [OF this, of demo_env demo_policy] show ?thesis
    by (simp add: demo_env_def demo_policy_def BXXT_SUCCESS_def)
qed

theorem save_keeps_old_tail_witness:
  "\<exists>fs. bxxt_sepol_save_policy_file (demo_env\<lparr>se_image := \<lambda>_. Some [8]\<rparr>) (Some demo_policy) sel_load (demo_os [7]) =
      Inr ((demo_os [7])\<lparr>os_fs := fs\<rparr>, 1) \<and> fs sel_load = Some (Reg [8, 2, 3])"
proof -
  have k: "kernel_files (demo_os [7]) [7] [1, 2, 3] 1 1" by (rule demo_kernel_files) simp
  have "bxxt_sepol_save_policy_file (demo_env\<lparr>se_image := \<lambda>_. Some [8]\<rparr>) (Some demo_policy) sel_load (demo_os [7]) =
      Inr ((demo_os [7])\<lparr>os_fs := (os_fs (demo_os [7]))(sel_load \<mapsto> Reg ([8] @ drop (length [8 :: u8]) [1, 2, 3]))\<rparr>, to_int32 (int (length [8 :: u8])))"
    using k by (intro save_keeps_old_tail [where i = 1])
      (simp_all add: kernel_files_def demo_os_def demo_env_def sel_short)
  then show ?thesis by (intro exI conjI) (simp add: to_int32_def, simp)
qed

end
