(* ===== verification/Sepol_Avtab_Read.thy ===== *)
theory Sepol_Avtab_Read
  imports Sepol_Avtab Sepol_Ebitmap
begin

text \<open>
  Reading the rules of a policy file (avtab.c): one rule or, in the format before version
  20, a group of rules of one key, and the whole table. The flag of the Android M format,
  a global variable of the library, is passed and returned.
\<close>

section \<open>Versions and flags\<close>

definition POLICYDB_VERSION_AVTAB :: u32 where "POLICYDB_VERSION_AVTAB = 20"
definition POLICYDB_VERSION_XPERMS_IOCTL :: u32 where "POLICYDB_VERSION_XPERMS_IOCTL = 30"
definition AVTAB_AV :: u16 where "AVTAB_AV = 0x0001 OR 0x0002 OR 0x0004"
definition AVTAB_TYPE :: u16 where "AVTAB_TYPE = 0x0010 OR 0x0020 OR 0x0040"
definition AVTAB_OPTYPE :: u16 where "AVTAB_OPTYPE = 0x1000 OR 0x2000 OR 0x4000"
definition AVTAB_XPERMS_OPTYPE :: nat where "AVTAB_XPERMS_OPTYPE = 4"
definition AVTAB_XPERMS_IOCTLFUNCTION :: u8 where "AVTAB_XPERMS_IOCTLFUNCTION = 1"
definition AVTAB_XPERMS_IOCTLDRIVER :: u8 where "AVTAB_XPERMS_IOCTLDRIVER = 2"

definition avtab_optype_to_xperms :: "u16 \<Rightarrow> u16" where
  "avtab_optype_to_xperms x = drop_bit AVTAB_XPERMS_OPTYPE x"

definition avtab_xperms_to_optype :: "u16 \<Rightarrow> u16" where
  "avtab_xperms_to_optype x = push_bit AVTAB_XPERMS_OPTYPE x"

definition spec_order :: "u16 list" where
  "spec_order = [0x0001, 0x0004, 0x0002, 0x0010, 0x0040, 0x0020, 0x0100, 0x0200, 0x0400]"

definition le16 :: "u16 \<Rightarrow> bytes" where
  "le16 w = le_bytes 2 (unat w)"

definition rd_le16 :: "bytes \<Rightarrow> u16" where
  "rd_le16 bs = word_of_nat (le_val bs)"

definition words32 :: "bytes \<Rightarrow> u32 list" where
  "words32 b = map (\<lambda>i. rd_le32 (take 4 (drop (4 * i) b))) [0..<length b div 4]"

section \<open>One entry\<close>

text \<open>
  The loop over the specifiers of an old entry. \<open>buf\<close> is the array \<open>buf32\<close> of 8 words;
  the result is the number of items used and the value of an insertion that failed.
\<close>

fun old_rules :: "('s \<Rightarrow> avtab_key \<Rightarrow> avtab_datum \<Rightarrow> ('s \<times> int) res) \<Rightarrow> avtab_key \<Rightarrow> u16 \<Rightarrow> u32 \<Rightarrow> u32 list
    \<Rightarrow> u16 list \<Rightarrow> nat \<Rightarrow> 's \<Rightarrow> ('s \<times> nat \<times> int) res" where
  "old_rules insertf key enabled val buf [] items s = Inr (s, items, 0)"
| "old_rules insertf key enabled val buf (o1 # os) items s =
     (if val AND ucast o1 \<noteq> 0 then
        if items \<ge> length buf then Inl Oob_Read
        else res_bind (insertf s (key\<lparr>specified := o1 OR enabled\<rparr>) \<lparr>av_data = buf ! items, xperms = None\<rparr>) (\<lambda>(s, rc).
          if rc \<noteq> 0 then Inr (s, items + 1, rc) else old_rules insertf key enabled val buf os (items + 1) s)
      else old_rules insertf key enabled val buf os items s)"

text \<open>\<open>U\<close> is what \<open>buf32\<close> holds before anything is read into it.\<close>

definition avtab_read_old ::
  "u32 list \<Rightarrow> ('s \<Rightarrow> avtab_key \<Rightarrow> avtab_datum \<Rightarrow> ('s \<times> int) res) \<Rightarrow> bytes \<Rightarrow> 's \<Rightarrow> ('s \<times> bytes \<times> int) res" where
  "avtab_read_old U insertf fp s =
     (case next_entry 4 fp of None \<Rightarrow> Inr (s, fp, - 1)
      | Some (b, fp) \<Rightarrow>
          let items2 = unat (rd_le32 b); buf = U[0 := rd_le32 b] in
          if items2 < 5 \<or> items2 > 8 then Inr (s, fp, - 1)
          else case next_entry (4 * items2) fp of None \<Rightarrow> Inr (s, fp, - 1)
          | Some (b, fp) \<Rightarrow>
              let buf = words32 b @ drop items2 buf;
                  val = buf ! 3; enabled = (if val AND AVTAB_ENABLED_OLD \<noteq> 0 then ucast AVTAB_ENABLED else 0);
                  key = \<lparr>source_type = ucast (buf ! 0), target_type = ucast (buf ! 1), target_class = ucast (buf ! 2), specified = 0\<rparr>
              in if ucast (source_type key) \<noteq> buf ! 0 then Inr (s, fp, - 1)
                 else if ucast (target_type key) \<noteq> buf ! 1 then Inr (s, fp, - 1)
                 else if ucast (target_class key) \<noteq> buf ! 2 then Inr (s, fp, - 1)
                 else if val AND ucast (AVTAB_AV OR AVTAB_TYPE) = 0 then Inr (s, fp, - 1)
                 else if val AND ucast AVTAB_AV \<noteq> 0 \<and> val AND ucast AVTAB_TYPE \<noteq> 0 then Inr (s, fp, - 1)
                 else res_bind (old_rules insertf key enabled val buf spec_order 4 s) (\<lambda>(s, items, rc).
                   if rc \<noteq> 0 then Inr (s, fp, rc)
                   else if items \<noteq> items2 then Inr (s, fp, - 1)
                   else Inr (s, fp, 0)))"

text \<open>The extended permissions: the specifier (with the two compatibility cases), the driver and the eight words.\<close>

definition read_xperms :: "u32 \<Rightarrow> bool \<Rightarrow> bool \<Rightarrow> bytes \<Rightarrow> avtab_extended_perms option \<times> bool \<times> bytes" where
  "read_xperms vers mcompat optype fp =
     (case next_entry 1 fp of None \<Rightarrow> (None, mcompat, fp)
      | Some (b, fp) \<Rightarrow>
          let sp = hd b;
              words = (\<lambda>sp dr mcompat fp. case next_entry 32 fp of None \<Rightarrow> (None, mcompat, fp)
                | Some (b, fp) \<Rightarrow> (Some \<lparr>xspecified = sp, driver = dr, perms = words32 b\<rparr>, mcompat, fp))
          in if mcompat \<or> (sp \<noteq> AVTAB_XPERMS_IOCTLFUNCTION \<and> sp \<noteq> AVTAB_XPERMS_IOCTLDRIVER \<and> vers = POLICYDB_VERSION_XPERMS_IOCTL)
             then words (if optype then AVTAB_XPERMS_IOCTLDRIVER else AVTAB_XPERMS_IOCTLFUNCTION) sp True fp
             else case next_entry 1 fp of None \<Rightarrow> (None, mcompat, fp)
               | Some (b, fp) \<Rightarrow> words sp (hd b) mcompat fp)"

definition avtab_read_item ::
  "u32 list \<Rightarrow> u32 \<Rightarrow> ('s \<Rightarrow> avtab_key \<Rightarrow> avtab_datum \<Rightarrow> ('s \<times> int) res) \<Rightarrow> bool \<Rightarrow> bytes \<Rightarrow> 's
    \<Rightarrow> ('s \<times> bool \<times> bytes \<times> int) res" where
  "avtab_read_item U vers insertf mcompat fp s =
     (if vers < POLICYDB_VERSION_AVTAB then
        res_bind (avtab_read_old U insertf fp s) (\<lambda>(s, fp, rc). Inr (s, mcompat, fp, rc))
      else case next_entry 8 fp of None \<Rightarrow> Inr (s, mcompat, fp, - 1)
      | Some (b, fp) \<Rightarrow>
          let sp = rd_le16 (drop 6 b);
              optype = (sp AND AVTAB_OPTYPE \<noteq> 0 \<and> vers = POLICYDB_VERSION_XPERMS_IOCTL);
              sp = (if optype then avtab_optype_to_xperms sp else sp);
              mcompat = (mcompat \<or> optype);
              key = \<lparr>source_type = rd_le16 (take 2 b), target_type = rd_le16 (take 2 (drop 2 b)),
                     target_class = rd_le16 (take 2 (drop 4 b)), specified = sp\<rparr>
          in if length (filter (\<lambda>o1. sp AND o1 \<noteq> 0) spec_order) \<noteq> 1 then Inr (s, mcompat, fp, - 1)
             else if vers < POLICYDB_VERSION_XPERMS_IOCTL \<and> sp AND AVTAB_XPERMS \<noteq> 0 then Inr (s, mcompat, fp, - 1)
             else if sp AND AVTAB_XPERMS \<noteq> 0 then
               (case read_xperms vers mcompat optype fp of
                  (None, mcompat, fp) \<Rightarrow> Inr (s, mcompat, fp, - 1)
                | (Some x, mcompat, fp) \<Rightarrow>
                    res_bind (insertf s key \<lparr>av_data = 0, xperms = Some x\<rparr>) (\<lambda>(s, rc). Inr (s, mcompat, fp, rc)))
             else case next_entry 4 fp of None \<Rightarrow> Inr (s, mcompat, fp, - 1)
               | Some (b, fp) \<Rightarrow>
                   res_bind (insertf s key \<lparr>av_data = rd_le32 b, xperms = None\<rparr>) (\<lambda>(s, rc). Inr (s, mcompat, fp, rc)))"

section \<open>The table\<close>

definition avtab_insertf :: "avtab \<Rightarrow> avtab_key \<Rightarrow> avtab_datum \<Rightarrow> (avtab \<times> int) res" where
  "avtab_insertf a k d = avtab_insert a k d"

primrec read_items :: "(bool \<Rightarrow> bytes \<Rightarrow> 's \<Rightarrow> ('s \<times> bool \<times> bytes \<times> int) res) \<Rightarrow> nat \<Rightarrow> bool \<Rightarrow> bytes \<Rightarrow> 's
    \<Rightarrow> ('s \<times> bool \<times> bytes \<times> int) res" where
  "read_items item 0 mcompat fp s = Inr (s, mcompat, fp, 0)"
| "read_items item (Suc n) mcompat fp s =
     res_bind (item mcompat fp s) (\<lambda>(s, mcompat, fp, rc).
       if rc \<noteq> 0 then Inr (s, mcompat, fp, rc) else read_items item n mcompat fp s)"

text \<open>All failures end in \<open>avtab_destroy\<close> and the result -1.\<close>

definition avtab_read :: "u32 list \<Rightarrow> u32 \<Rightarrow> bool \<Rightarrow> bytes \<Rightarrow> avtab \<Rightarrow> (avtab \<times> bool \<times> bytes \<times> int) res" where
  "avtab_read U vers mcompat fp a =
     (case next_entry 4 fp of None \<Rightarrow> Inr (avtab_destroy a, mcompat, fp, - 1)
      | Some (b, fp) \<Rightarrow>
          let nel = rd_le32 b in
          if nel = 0 then Inr (avtab_destroy a, mcompat, fp, - 1)
          else let (a, rc) = avtab_alloc a nel in
            if rc \<noteq> 0 then Inr (avtab_destroy a, mcompat, fp, - 1)
            else res_bind (read_items (avtab_read_item U vers avtab_insertf) (unat nel) mcompat fp a) (\<lambda>(a, mcompat, fp, rc).
              if rc \<noteq> 0 then Inr (avtab_destroy a, mcompat, fp, - 1) else Inr (a, mcompat, fp, 0)))"

end
