(* ===== verification/Sepol_Avtab_Write.thy ===== *)
theory Sepol_Avtab_Write
  imports Sepol_Avtab_Read Sepol_Policy
begin

text \<open>
  Writing the rules of a policy file (write.c, put_entry of services.c), in the new format
  one entry per rule, in the format before version 20 one entry per group of rules with the
  same key. Expanding the attributes for the old format is an argument.
\<close>

section \<open>The output\<close>

text \<open>Memory with room left and what has been written, or a count of bytes.\<close>

datatype out_file =
    PF_USE_MEMORY nat bytes
  | PF_LEN nat

definition put_entry :: "bytes \<Rightarrow> out_file \<Rightarrow> out_file option" where
  "put_entry x fp =
     (case fp of
        PF_USE_MEMORY room d \<Rightarrow> if length x > room then None else Some (PF_USE_MEMORY (room - length x) (d @ x))
      | PF_LEN n \<Rightarrow> Some (PF_LEN (n + length x)))"

section \<open>The old format\<close>

lemma av_search_walk_range: "av_search_walk k sp c i = Some j \<Longrightarrow> i \<le> j \<and> j < i + length c"
proof (induction c arbitrary: i)
  case (Cons n c)
  show ?case
  proof (cases "av_same k (fst n) \<and> sp AND specified (fst n) \<noteq> 0 \<or> av_before k (fst n)")
    case True
    then show ?thesis using Cons.prems unfolding av_search_walk.simps(2) by (auto split: if_splits)
  next
    case False
    then have "av_search_walk k sp c (i + 1) = Some j" using Cons.prems unfolding av_search_walk.simps(2) by auto
    then show ?thesis using Cons.IH [of "i + 1"] by simp
  qed
qed simp

lemma search_next_range:
  assumes "avtab_search_node_next t (Some p) sp = Inr (Some q)"
  shows "fst q = fst p \<and> snd p < snd q \<and> (\<exists>c. av_slot t (int (fst p)) = Inr c \<and> snd q < length c)"
proof -
  obtain c where c: "av_slot t (int (fst p)) = Inr c"
    using assms by (cases "av_slot t (int (fst p))") (auto simp: avtab_search_node_next_def av_node_def)
  then obtain n where n: "av_node t p = Inr n" "snd p < length c"
    using assms by (auto simp: avtab_search_node_next_def av_node_def split: if_splits)
  then obtain i where "av_search_walk (fst n) (ucast (sp AND NOT (AVTAB_ENABLED OR AVTAB_ENABLED_OLD)))
      (drop (Suc (snd p)) c) (Suc (snd p)) = Some i" and q: "q = (fst p, i)"
    using assms c by (auto simp: avtab_search_node_next_def)
  from av_search_walk_range [OF this(1)] have "snd p < i" "i < length c" using n(2) unfolding length_drop by linarith+
  then show ?thesis using c q by simp
qed

definition chain_left :: "avtab \<Rightarrow> avtab_ptr \<Rightarrow> nat" where
  "chain_left t p = (case av_slot t (int (fst p)) of Inl _ \<Rightarrow> 0 | Inr c \<Rightarrow> length c - snd p)"

definition old_bits :: "avtab_key \<Rightarrow> u32" where
  "old_bits k = ucast (specified k) AND NOT AVTAB_ENABLED"

definition was_enabled :: "avtab_key \<Rightarrow> bool" where
  "was_enabled k \<longleftrightarrow> ucast (specified k) AND AVTAB_ENABLED \<noteq> 0"

text \<open>The loop that merges the specifiers of the nodes with the same key behind \<open>node\<close>.\<close>

function merge_specs :: "avtab \<Rightarrow> avtab_ptr \<Rightarrow> u32 \<Rightarrow> u32 \<Rightarrow> u32 \<Rightarrow> (u32 \<times> u32) res" where
  "merge_specs t node lookup val st =
     (case avtab_search_node_next t (Some node) lookup of
        Inl e \<Rightarrow> Inl e
      | Inr None \<Rightarrow> Inr (val, st)
      | Inr (Some q) \<Rightarrow>
          (case av_node t q of
             Inl e \<Rightarrow> Inl e
           | Inr n \<Rightarrow> merge_specs t q lookup
               (let val = val OR old_bits (fst n) in if was_enabled (fst n) then val OR AVTAB_ENABLED_OLD else val) (st + 1)))"
  by pat_completeness auto
termination
proof (relation "measure (\<lambda>(t, p, _). chain_left t p)", goal_cases)
  case (2 t node lookup val st x2 q n)
  then obtain c where "av_slot t (int (fst node)) = Inr c" "fst q = fst node" "snd node < snd q" "snd q < length c"
    using search_next_range by blast
  then show ?case by (simp add: chain_left_def)
qed simp

declare merge_specs.simps [simp del]

definition write_spec_order :: "u16 list" where
  "write_spec_order = [0x0001, 0x0004, 0x0002, 0x0010, 0x0040, 0x0020]"

text \<open>
  The loop that appends the data of the merged rules; \<open>mg\<close> is the set of nodes with the
  flag \<open>merged\<close>, \<open>cnt\<close> the count behind the pointer, \<open>st\<close> the variable \<open>set\<close>. Without a
  node there is an error.
\<close>

fun merge_data :: "avtab \<Rightarrow> avtab_ptr \<Rightarrow> avtab_key \<Rightarrow> u32 \<Rightarrow> u16 list \<Rightarrow> u32 list \<Rightarrow> u32 \<Rightarrow> avtab_ptr set \<Rightarrow> u32 option
    \<Rightarrow> ((u32 list \<times> u32) option \<times> avtab_ptr set \<times> u32 option) res" where
  "merge_data t cur key val [] buf st mg cnt = Inr (Some (buf, st), mg, cnt)"
| "merge_data t cur key val (o1 # os) buf st mg cnt =
     (if val AND ucast o1 = 0 then merge_data t cur key val os buf st mg cnt
      else
        let own = (specified key AND o1 \<noteq> 0) in
        res_bind (if own then Inr (Some cur) else avtab_search_node_next t (Some cur) (ucast o1)) (\<lambda>node.
          let cnt = (if own then cnt else map_option (\<lambda>n. n - 1) cnt) in
          case node of None \<Rightarrow> Inr (None, mg, cnt)
          | Some q \<Rightarrow> res_bind (av_node t q) (\<lambda>n.
              merge_data t cur key val os (buf @ [av_data (snd n)]) (st - 1) (insert q mg) cnt)))"

definition POLICYDB_SUCCESS :: int where "POLICYDB_SUCCESS = 0"
definition POLICYDB_ERROR :: int where "POLICYDB_ERROR = - 1"

definition avtab_write_old ::
  "avtab \<Rightarrow> avtab_ptr \<Rightarrow> bool \<Rightarrow> bool \<Rightarrow> avtab_ptr set \<Rightarrow> u32 option \<Rightarrow> out_file
    \<Rightarrow> (out_file \<times> avtab_ptr set \<times> u32 option \<times> int) res" where
  "avtab_write_old t cur mrg commit mg cnt fp =
     (if mrg \<and> cur \<in> mg then Inr (fp, mg, cnt, POLICYDB_SUCCESS)
      else res_bind (av_node t cur) (\<lambda>c.
        let key = fst c;
            val = (if was_enabled key then old_bits key OR AVTAB_ENABLED_OLD else old_bits key);
            lookup = (if val AND ucast AVTAB_AV \<noteq> 0 then ucast AVTAB_AV
                      else if val AND ucast AVTAB_TYPE \<noteq> 0 then ucast AVTAB_TYPE else 0)
        in if mrg \<and> lookup = 0 then Inr (fp, mg, cnt, POLICYDB_ERROR)
           else res_bind (if mrg then merge_specs t cur lookup val 1 else Inr (val, 1)) (\<lambda>(val, st).
             if val AND ucast (AVTAB_AV OR AVTAB_TYPE) = 0 then Inr (fp, mg, cnt, POLICYDB_ERROR)
             else if val AND ucast AVTAB_AV \<noteq> 0 \<and> val AND ucast AVTAB_TYPE \<noteq> 0 then Inr (fp, mg, cnt, POLICYDB_ERROR)
             else
               let buf = [ucast (source_type key), ucast (target_type key), ucast (target_class key), val] in
               res_bind (if mrg then merge_data t cur key val write_spec_order buf st mg cnt
                         else Inr (Some (buf @ [av_data (snd c)], st - 1), insert cur mg, cnt)) (\<lambda>(r, mg, cnt).
                 case r of None \<Rightarrow> Inr (fp, mg, cnt, POLICYDB_ERROR)
                 | Some (buf, st) \<Rightarrow>
                     if st \<noteq> 0 then Inr (fp, mg, cnt, POLICYDB_ERROR)
                     else if commit then
                       (case put_entry (le32 (word_of_nat (length buf)) @ concat (map le32 buf)) fp of
                          None \<Rightarrow> Inr (fp, mg, cnt, POLICYDB_ERROR)
                        | Some fp \<Rightarrow> Inr (fp, mg, cnt, POLICYDB_SUCCESS))
                     else Inr (fp, mg, cnt, POLICYDB_SUCCESS)))))"

section \<open>The new format\<close>

text \<open>The three groups of \<open>put_entry\<close> calls: the key, then the permissions.\<close>

definition write_key :: "bool \<Rightarrow> avtab_node \<Rightarrow> bytes res" where
  "write_key mcompat n =
     (let key = fst n;
          head = le16 (source_type key) @ le16 (target_type key) @ le16 (target_class key)
      in if mcompat \<and> specified key AND AVTAB_XPERMS \<noteq> 0 then
           (case xperms (snd n) of None \<Rightarrow> Inl Null_Deref
            | Some x \<Rightarrow> Inr (head @ le16 (if xspecified x = AVTAB_XPERMS_IOCTLDRIVER
                then avtab_xperms_to_optype (specified key) else specified key)))
         else Inr (head @ le16 (specified key)))"

definition write_xperms :: "bool \<Rightarrow> avtab_extended_perms \<Rightarrow> out_file \<Rightarrow> out_file option" where
  "write_xperms mcompat x fp =
     (case (if mcompat then Some fp else put_entry [xspecified x] fp) of None \<Rightarrow> None
      | Some fp \<Rightarrow>
          (case put_entry [driver x] fp of None \<Rightarrow> None
           | Some fp \<Rightarrow> put_entry (concat (map le32 (perms x))) fp))"

definition avtab_write_new :: "policydb \<Rightarrow> bool \<Rightarrow> avtab_node \<Rightarrow> out_file \<Rightarrow> (out_file \<times> int) res" where
  "avtab_write_new p mcompat n fp =
     res_bind (write_key mcompat n) (\<lambda>kb.
       case put_entry kb fp of None \<Rightarrow> Inr (fp, POLICYDB_ERROR)
       | Some fp \<Rightarrow>
           let xp = (specified (fst n) AND AVTAB_XPERMS \<noteq> 0) in
           if policyvers p < POLICYDB_VERSION_XPERMS_IOCTL \<and> xp then Inr (fp, POLICYDB_ERROR)
           else if target_platform p \<noteq> SEPOL_TARGET_SELINUX \<and> xp then Inr (fp, POLICYDB_ERROR)
           else if xp then
             (case xperms (snd n) of None \<Rightarrow> Inl Null_Deref
              | Some x \<Rightarrow> (case write_xperms mcompat x fp of None \<Rightarrow> Inr (fp, POLICYDB_ERROR)
                  | Some fp \<Rightarrow> Inr (fp, POLICYDB_SUCCESS)))
           else (case put_entry (le32 (av_data (snd n))) fp of None \<Rightarrow> Inr (fp, POLICYDB_ERROR)
             | Some fp \<Rightarrow> Inr (fp, POLICYDB_SUCCESS)))"

definition old_version :: "policydb \<Rightarrow> bool" where
  "old_version p \<longleftrightarrow> policy_type p = POLICY_KERN \<and> policyvers p < POLICYDB_VERSION_AVTAB"

definition avtab_write_item ::
  "policydb \<Rightarrow> bool \<Rightarrow> avtab \<Rightarrow> avtab_ptr \<Rightarrow> bool \<Rightarrow> bool \<Rightarrow> avtab_ptr set \<Rightarrow> u32 option \<Rightarrow> out_file
    \<Rightarrow> (out_file \<times> avtab_ptr set \<times> u32 option \<times> int) res" where
  "avtab_write_item p mcompat t cur mrg commit mg cnt fp =
     (if old_version p then avtab_write_old t cur mrg commit mg cnt fp
      else res_bind (av_node t cur) (\<lambda>n. res_bind (avtab_write_new p mcompat n fp) (\<lambda>(fp, r). Inr (fp, mg, cnt, r))))"

section \<open>The table\<close>

text \<open>The nodes in the order of the two loops.\<close>

definition all_ptrs :: "avtab \<Rightarrow> avtab_ptr list res" where
  "all_ptrs t =
     (case avslots t of None \<Rightarrow> if nslot t = 0 then Inr [] else Inl Null_Deref
      | Some hs \<Rightarrow>
          if length hs < unat (nslot t) then Inl Oob_Read
          else Inr (concat (map (\<lambda>i. map (Pair i) [0..<length (hs ! i)]) [0..<unat (nslot t)])))"

fun write_items :: "(avtab_ptr \<Rightarrow> avtab_ptr set \<Rightarrow> u32 option \<Rightarrow> out_file \<Rightarrow> (out_file \<times> avtab_ptr set \<times> u32 option \<times> int) res)
    \<Rightarrow> avtab_ptr list \<Rightarrow> avtab_ptr set \<Rightarrow> u32 option \<Rightarrow> out_file \<Rightarrow> (out_file \<times> avtab_ptr set \<times> u32 option \<times> int) res" where
  "write_items item [] mg cnt fp = Inr (fp, mg, cnt, 0)"
| "write_items item (q # qs) mg cnt fp =
     res_bind (item q mg cnt fp) (\<lambda>(fp, mg, cnt, r).
       if r \<noteq> 0 then Inr (fp, mg, cnt, - 1) else write_items item qs mg cnt fp)"

definition avtab_write ::
  "(policydb \<Rightarrow> avtab \<Rightarrow> avtab option) \<Rightarrow> policydb \<Rightarrow> bool \<Rightarrow> avtab \<Rightarrow> out_file \<Rightarrow> (out_file \<times> int) res" where
  "avtab_write expand p mcompat t fp =
     (if old_version p then
        case expand p t of None \<Rightarrow> Inr (fp, - 1)
        | Some t \<Rightarrow>
            res_bind (all_ptrs t) (\<lambda>ps.
            res_bind (write_items (\<lambda>q. avtab_write_item p mcompat t q True False) ps {} (Some (avnel t)) fp) (\<lambda>(fp, _, cnt, r).
              if r \<noteq> 0 then Inr (fp, - 1)
              else case put_entry (le32 (the cnt)) fp of None \<Rightarrow> Inr (fp, - 1)
              | Some fp \<Rightarrow>
                  res_bind (write_items (\<lambda>q. avtab_write_item p mcompat t q True True) ps {} None fp) (\<lambda>(fp, _, _, r). Inr (fp, r))))
      else case put_entry (le32 (avnel t)) fp of None \<Rightarrow> Inr (fp, POLICYDB_ERROR)
        | Some fp \<Rightarrow>
            res_bind (all_ptrs t) (\<lambda>ps.
            res_bind (write_items (\<lambda>q. avtab_write_item p mcompat t q True True) ps {} (Some (avnel t)) fp) (\<lambda>(fp, _, _, r).
              Inr (fp, r))))"

end
