(* ===== verification/Sepol_Avtab_File.thy ===== *)
theory Sepol_Avtab_File
  imports Sepol_Avtab_Write "HOL-Library.Multiset"
begin

text \<open>
  Rules survive a policy file: in the new format what is written for a table is read back
  into a table, of whatever size, in which every search finds the same rule; and counting
  the bytes gives the length of what is written.
\<close>

section \<open>One rule\<close>

lemma le_bytes_2: "le_bytes 2 v = [word_of_nat v, word_of_nat (v div 256)]"
  by (simp add: numeral_2_eq_2)

interpretation le16: byte_codec le16 rd_le16 2
proof
  fix w :: u16 and bs :: bytes
  show "length (le16 w) = 2" by (simp add: le16_def)
  have "unat w < 65536" using unsigned_less [where 'a = nat, of w] by simp
  then show "rd_le16 (le16 w) = w" by (simp add: rd_le16_def le16_def le_val_le_bytes)
  assume l: "length bs = 2"
  have "unat (word_of_nat (le_val bs) :: u16) = le_val bs" using le_val_bound [of bs] l by (simp add: unat_of_nat)
  then show "le16 (rd_le16 bs) = bs" using le_bytes_le_val [of bs] l by (simp add: rd_le16_def le16_def)
qed

declare le16.length_enc [simp] le16.dec_enc [simp] le32.length_enc [simp] le32.dec_enc [simp]

lemma words32_append: "words32 (le32 w @ b) = w # words32 b"
proof -
  have "(length (le32 w @ b)) div 4 = Suc (length b div 4)" by simp
  moreover have "rd_le32 (take 4 (drop (4 * Suc i) (le32 w @ b))) = rd_le32 (take 4 (drop (4 * i) b))" for i by simp
  ultimately show ?thesis by (simp add: words32_def upt_conv_Cons map_Suc_upt [symmetric] del: upt_Suc)
qed

lemma words32_concat: "words32 (concat (map le32 ws)) = ws"
proof (induction ws)
  case Nil
  show ?case by (simp add: words32_def)
qed (simp add: words32_append)

definition is_xrule :: "avtab_node \<Rightarrow> bool" where
  "is_xrule n \<longleftrightarrow> specified (fst n) AND AVTAB_XPERMS \<noteq> 0"

definition rule_bytes :: "avtab_node \<Rightarrow> bytes" where
  "rule_bytes n = le16 (source_type (fst n)) @ le16 (target_type (fst n)) @ le16 (target_class (fst n)) @ le16 (specified (fst n)) @
     (if is_xrule n then (case xperms (snd n) of None \<Rightarrow> [] | Some x \<Rightarrow> xspecified x # driver x # concat (map le32 (perms x)))
      else le32 (av_data (snd n)))"

lemma next_entry_1 [simp]: "next_entry (Suc 0) (a # r) = Some ([a], r)"
  by (simp add: next_entry_def)

text \<open>The rules a file of version \<open>vers\<close> can hold.\<close>

definition rule_ok :: "u32 \<Rightarrow> avtab_node \<Rightarrow> bool" where
  "rule_ok vers n \<longleftrightarrow> length (filter (\<lambda>o1. specified (fst n) AND o1 \<noteq> 0) spec_order) = 1 \<and>
     (vers = POLICYDB_VERSION_XPERMS_IOCTL \<longrightarrow> specified (fst n) AND AVTAB_OPTYPE = 0) \<and>
     (if is_xrule n then
        \<not> vers < POLICYDB_VERSION_XPERMS_IOCTL \<and> av_data (snd n) = 0 \<and>
        (case xperms (snd n) of None \<Rightarrow> False
         | Some x \<Rightarrow> length (perms x) = 8 \<and>
             (vers = POLICYDB_VERSION_XPERMS_IOCTL \<longrightarrow> xspecified x = AVTAB_XPERMS_IOCTLFUNCTION \<or> xspecified x = AVTAB_XPERMS_IOCTLDRIVER))
      else xperms (snd n) = None)"

lemma key_eta: "\<lparr>source_type = source_type k, target_type = target_type k, target_class = target_class k, specified = specified k\<rparr> = (k :: avtab_key)"
  by simp

lemma read_rule:
  assumes "rule_ok vers n" and "\<not> vers < POLICYDB_VERSION_AVTAB"
  shows "avtab_read_item U vers f False (rule_bytes n @ r) s = res_bind (f s (fst n) (snd n)) (\<lambda>(s, rc). Inr (s, False, r, rc))"
proof (cases "is_xrule n")
  case True
  then obtain x where x: "xperms (snd n) = Some x" "length (perms x) = 8" "av_data (snd n) = 0" "\<not> vers < POLICYDB_VERSION_XPERMS_IOCTL"
      "vers = POLICYDB_VERSION_XPERMS_IOCTL \<longrightarrow> xspecified x = AVTAB_XPERMS_IOCTLFUNCTION \<or> xspecified x = AVTAB_XPERMS_IOCTLDRIVER"
    using assms(1) by (auto simp: rule_ok_def split: option.splits)
  have n: "snd n = \<lparr>av_data = 0, xperms = Some x\<rparr>" using x(1,3) by simp
  have k: "next_entry 8 (rule_bytes n @ r) = Some (le16 (source_type (fst n)) @ le16 (target_type (fst n)) @ le16 (target_class (fst n)) @
      le16 (specified (fst n)), xspecified x # driver x # concat (map le32 (perms x)) @ r)"
    using True x(1) by (simp add: next_entry_def rule_bytes_def)
  have l: "length (concat (map le32 (perms x))) = 32" using x(2) by (simp add: length_concat comp_def sum_list_triv)
  have xp: "read_xperms vers False False (xspecified x # driver x # concat (map le32 (perms x)) @ r) = (Some x, False, r)"
    using x(5) next_entry_app [OF l] by (auto simp: read_xperms_def words32_concat)
  show ?thesis
    using assms True k x xp by (auto simp: avtab_read_item_def rule_ok_def is_xrule_def Let_def n key_eta)
next
  case False
  have n: "snd n = \<lparr>av_data = av_data (snd n), xperms = None\<rparr>" using False assms(1) by (simp add: rule_ok_def)
  have k: "next_entry 8 (rule_bytes n @ r) = Some (le16 (source_type (fst n)) @ le16 (target_type (fst n)) @ le16 (target_class (fst n)) @
      le16 (specified (fst n)), le32 (av_data (snd n)) @ r)"
    using False by (simp add: next_entry_def rule_bytes_def)
  show ?thesis
    using assms False k by (subst n, auto simp: avtab_read_item_def rule_ok_def is_xrule_def Let_def key_eta)
qed

lemma put_entry_memory: "length x \<le> room \<Longrightarrow> put_entry x (PF_USE_MEMORY room d) = Some (PF_USE_MEMORY (room - length x) (d @ x))"
  by (simp add: put_entry_def)

lemma put_entry_len [simp]: "put_entry x (PF_LEN n) = Some (PF_LEN (n + length x))"
  by (simp add: put_entry_def)

definition can_hold :: "policydb \<Rightarrow> avtab_node \<Rightarrow> bool" where
  "can_hold p n \<longleftrightarrow> rule_ok (policyvers p) n \<and> target_platform p = SEPOL_TARGET_SELINUX"

lemma write_key_plain: "write_key False n =
    Inr (le16 (source_type (fst n)) @ le16 (target_type (fst n)) @ le16 (target_class (fst n)) @ le16 (specified (fst n)))"
  by (simp add: write_key_def Let_def)

lemma write_rule:
  assumes "can_hold p n"
  shows "length (rule_bytes n) \<le> room \<Longrightarrow>
      avtab_write_new p False n (PF_USE_MEMORY room d) = Inr (PF_USE_MEMORY (room - length (rule_bytes n)) (d @ rule_bytes n), 0)"
    and "avtab_write_new p False n (PF_LEN m) = Inr (PF_LEN (m + length (rule_bytes n)), 0)"
proof -
  have p: "rule_ok (policyvers p) n" "target_platform p = SEPOL_TARGET_SELINUX" using assms by (simp_all add: can_hold_def)
  note defs = avtab_write_new_def write_key_plain write_xperms_def put_entry_memory rule_bytes_def POLICYDB_SUCCESS_def
  have both: "(length (rule_bytes n) \<le> room \<longrightarrow>
      avtab_write_new p False n (PF_USE_MEMORY room d) = Inr (PF_USE_MEMORY (room - length (rule_bytes n)) (d @ rule_bytes n), 0)) \<and>
    avtab_write_new p False n (PF_LEN m) = Inr (PF_LEN (m + length (rule_bytes n)), 0)"
  proof (cases "is_xrule n")
    case True
    then obtain x where x: "xperms (snd n) = Some x" "length (perms x) = 8" "\<not> policyvers p < POLICYDB_VERSION_XPERMS_IOCTL"
      using p(1) by (auto simp: rule_ok_def split: option.splits)
    have "length (concat (map le32 (perms x))) = 32" using x(2) by (simp add: length_concat comp_def sum_list_triv)
    then show ?thesis using True x p(2) by (simp add: defs is_xrule_def)
  next
    case False
    then show ?thesis using p(2) by (simp add: defs is_xrule_def)
  qed
  show "length (rule_bytes n) \<le> room \<Longrightarrow>
      avtab_write_new p False n (PF_USE_MEMORY room d) = Inr (PF_USE_MEMORY (room - length (rule_bytes n)) (d @ rule_bytes n), 0)"
    using both by blast
  show "avtab_write_new p False n (PF_LEN m) = Inr (PF_LEN (m + length (rule_bytes n)), 0)" using both by blast
qed

section \<open>All rules\<close>

definition rules_of :: "avtab \<Rightarrow> avtab_node list" where
  "rules_of t = concat (the (avslots t))"

lemma all_ptrs_ok:
  assumes "av_ok t"
  obtains ps where "all_ptrs t = Inr ps" and "list_all2 (\<lambda>q n. av_node t q = Inr n) ps (rules_of t)"
proof -
  obtain hs where hs: "avslots t = Some hs" "length hs = unat (nslot t)" using av_ok_Some [OF assms] by blast
  let ?ps = "concat (map (\<lambda>i. map (Pair i) [0..<length (hs ! i)]) [0..<length hs])"
  have slot: "list_all2 (\<lambda>q n. av_node t q = Inr n) (map (Pair i) [0..<length (hs ! i)]) (hs ! i)" if "i < length hs" for i
    using that hs(1) by (simp add: list_all2_conv_all_nth av_node_def av_slot_def)
  have "list_all2 (\<lambda>q n. av_node t q = Inr n) (concat (map (\<lambda>i. map (Pair i) [0..<length (hs ! i)]) is)) (concat (map ((!) hs) is))"
    if "\<forall>i\<in>set is. i < length hs" for "is"
    using that by (induction "is") (simp_all add: list_all2_appendI slot)
  from this [of "[0..<length hs]"] have "list_all2 (\<lambda>q n. av_node t q = Inr n) ?ps (rules_of t)"
    by (simp add: rules_of_def hs(1) map_nth)
  moreover have "all_ptrs t = Inr ?ps" using hs by (simp add: all_ptrs_def)
  ultimately show thesis using that by blast
qed

definition rules_bytes :: "avtab_node list \<Rightarrow> bytes" where
  "rules_bytes ns = concat (map rule_bytes ns)"

lemma write_items_memory:
  assumes "list_all2 (\<lambda>q n. av_node t q = Inr n) ps ns" and "\<not> old_version p" and "list_all (can_hold p) ns"
    and "length (rules_bytes ns) \<le> room"
  shows "write_items (\<lambda>q. avtab_write_item p False t q True True) ps mg cnt (PF_USE_MEMORY room d) =
    Inr (PF_USE_MEMORY (room - length (rules_bytes ns)) (d @ rules_bytes ns), mg, cnt, 0)"
  using assms
proof (induction ps ns arbitrary: room d rule: list_all2_induct)
  case (Cons q ps n ns)
  then show ?case using write_rule(1) [of p n room d] by (simp add: avtab_write_item_def rules_bytes_def)
qed (simp add: rules_bytes_def)

lemma write_items_len:
  assumes "list_all2 (\<lambda>q n. av_node t q = Inr n) ps ns" and "\<not> old_version p" and "list_all (can_hold p) ns"
  shows "write_items (\<lambda>q. avtab_write_item p False t q True True) ps mg cnt (PF_LEN m) =
    Inr (PF_LEN (m + length (rules_bytes ns)), mg, cnt, 0)"
  using assms
proof (induction ps ns arbitrary: m rule: list_all2_induct)
  case (Cons q ps n ns)
  then show ?case using write_rule(2) [of p n m] by (simp add: avtab_write_item_def rules_bytes_def)
qed (simp add: rules_bytes_def)

definition table_bytes :: "avtab \<Rightarrow> bytes" where
  "table_bytes t = le32 (avnel t) @ rules_bytes (rules_of t)"

lemma avtab_write_memory:
  assumes "av_ok t" and "\<not> old_version p" and "list_all (can_hold p) (rules_of t)" and "length (table_bytes t) \<le> room"
  shows "avtab_write expand p False t (PF_USE_MEMORY room d) =
    Inr (PF_USE_MEMORY (room - length (table_bytes t)) (d @ table_bytes t), 0)"
proof -
  obtain ps where ps: "all_ptrs t = Inr ps" "list_all2 (\<lambda>q n. av_node t q = Inr n) ps (rules_of t)"
    using all_ptrs_ok [OF assms(1)] by blast
  show ?thesis
    using assms(2,4) ps(1) write_items_memory [OF ps(2) assms(2,3)]
    by (simp add: avtab_write_def put_entry_memory table_bytes_def)
qed

lemma avtab_write_len:
  assumes "av_ok t" and "\<not> old_version p" and "list_all (can_hold p) (rules_of t)"
  shows "avtab_write expand p False t (PF_LEN m) = Inr (PF_LEN (m + length (table_bytes t)), 0)"
proof -
  obtain ps where ps: "all_ptrs t = Inr ps" "list_all2 (\<lambda>q n. av_node t q = Inr n) ps (rules_of t)"
    using all_ptrs_ok [OF assms(1)] by blast
  show ?thesis
    using assms(2) ps(1) write_items_len [OF ps(2) assms(2,3)] by (simp add: avtab_write_def table_bytes_def)
qed

section \<open>The rules of a triple\<close>

text \<open>
  The chain restricted to the rules of one source, target and class, and to those a key
  finds. Inserting a rule puts it before the first rule it finds itself, else behind all.
\<close>

definition av_rules :: "avtab \<Rightarrow> avtab_key \<Rightarrow> avtab_node list" where
  "av_rules t k = filter (\<lambda>n. av_same k (fst n)) (av_chain t k)"

definition av_hits :: "avtab \<Rightarrow> avtab_key \<Rightarrow> avtab_node list" where
  "av_hits t k = filter (av_hit k) (av_chain t k)"

definition put_rule :: "avtab_node \<Rightarrow> avtab_node list \<Rightarrow> avtab_node list" where
  "put_rule n c = takeWhile (\<lambda>m. \<not> av_hit (fst n) m) c @ n # dropWhile (\<lambda>m. \<not> av_hit (fst n) m) c"

lemma av_hits_rules: "av_hits t k = filter (av_hit k) (av_rules t k)"
  by (auto simp: av_hits_def av_rules_def av_hit_def intro: filter_cong)

lemma av_look_hits: "av_look t k = (case av_hits t k of [] \<Rightarrow> None | n # _ \<Rightarrow> Some (snd n))"
proof -
  have "find (av_hit k) c = (case filter (av_hit k) c of [] \<Rightarrow> None | n # _ \<Rightarrow> Some n)" for c
    by (induction c) simp_all
  then show ?thesis by (simp add: av_look_def av_hits_def split: list.split)
qed

lemma put_rule_Nil [simp]: "put_rule n [] = [n]"
  by (simp add: put_rule_def)

lemma put_rule_Cons: "put_rule n (m # c) = (if av_hit (fst n) m then n # m # c else m # put_rule n c)"
  by (simp add: put_rule_def)

lemma av_insert_walk_put:
  assumes "av_sorted c" and "av_insert_walk (fst n) (av_spec (fst n)) c i = Some j"
  shows "filter (\<lambda>m. av_same (fst n) (fst m)) (take (j - i) c @ n # drop (j - i) c) =
    put_rule n (filter (\<lambda>m. av_same (fst n) (fst m)) c)"
  using assms
proof (induction c arbitrary: i)
  case (Cons m c)
  consider "av_hit (fst n) m" | "\<not> av_hit (fst n) m" "av_before (fst n) (fst m)" | "\<not> av_hit (fst n) m" "\<not> av_before (fst n) (fst m)"
    by blast
  then show ?case
  proof cases
    case 1
    then have "j = i" using Cons.prems(2) by (simp split: if_splits)
    then show ?thesis using 1 by (simp add: av_same_triple put_rule_Cons) (simp add: av_hit_def av_same_triple)
  next
    case 2
    then have "j = i" using Cons.prems(2) by simp
    moreover have "filter (\<lambda>m. av_same (fst n) (fst m)) (m # c) = []"
      using Cons.prems(1) 2(2) by (force simp: filter_empty_conv av_same_triple av_before_triple)
    ultimately show ?thesis by (simp add: av_same_triple)
  next
    case 3
    then have w: "av_insert_walk (fst n) (av_spec (fst n)) c (i + 1) = Some j" using Cons.prems(2) by simp
    have "i + 1 \<le> j" using av_insert_walk_spec [of c "fst n" "i + 1"] Cons.prems(1) w by simp
    then have "j - i = Suc (j - (i + 1))" by simp
    then show ?thesis using Cons.IH [OF _ w] Cons.prems(1) 3(1) by (simp add: put_rule_Cons)
  qed
qed (simp add: av_same_triple)

lemma avtab_insert_rules:
  assumes ok: "av_ok t" and free: "av_spec k AND AVTAB_XPERMS = 0 \<Longrightarrow> av_look t k = None"
  obtains t' where "avtab_insert t k d = Inr (t', 0)" and "av_ok t'" and "avnel t' = avnel t + 1"
    and "\<And>k'. av_rules t' k' = (if av_same k' k then put_rule (new_avnode k d) (av_rules t k') else av_rules t k')"
proof -
  let ?c = "av_chain t k" and ?n = "new_avnode k d" and ?hv = "avtab_hash k (avmask t)"
  have c: "av_sorted ?c" "\<forall>n\<in>set ?c. avtab_hash (fst n) (avmask t) = ?hv" using av_chain_ok [OF ok] by auto
  obtain i where i: "av_insert_walk k (av_spec k) ?c 0 = Some i"
    using av_insert_walk_spec [OF c(1), of k 0] free by (auto simp: av_look_def split: option.splits)
  let ?c' = "take i ?c @ ?n # drop i ?c"
  let ?t = "(av_put t k ?c')\<lparr>avnel := avnel t + 1\<rparr>"
  have e: "avtab_insert t k d = Inr (?t, 0)"
    using av_ok_Some [OF ok] av_slot_hash [OF ok, of k] avtab_insert_node_put [OF ok, of k _ d] i
    by (auto simp: avtab_insert_def Let_def)
  have "\<forall>n\<in>set (take i ?c). av_triple (fst n) \<le> av_triple k" "\<forall>n\<in>set (drop i ?c). av_triple k \<le> av_triple (fst n)"
    using av_insert_walk_spec [OF c(1), of k 0] i by auto
  moreover have "av_sorted (take i ?c)" "av_sorted (drop i ?c)"
    using c(1) by (metis append_take_drop_id av_sorted_simps(3))+
  ultimately have srt: "av_sorted ?c'" by (fastforce intro: order_trans)
  have hs: "\<forall>n\<in>set ?c'. avtab_hash (fst n) (avmask t) = ?hv"
    using c(2) by (auto dest: in_set_takeD in_set_dropD)
  note put = av_put_ok [OF ok srt hs]
  have "av_rules ?t k' = (if av_same k' k then put_rule ?n (av_rules t k') else av_rules t k')" for k'
  proof (cases "av_same k' k")
    case True
    then have h: "avtab_hash k' m = avtab_hash k m" for m by (rule avtab_hash_same)
    have s: "av_same k' = av_same k" using True by (simp add: fun_eq_iff av_same_triple)
    show ?thesis
      using av_insert_walk_put [of ?c ?n 0 i] c(1) i True
      by (simp add: av_rules_def put(2) h s) (simp add: av_chain_def h)
  next
    case False
    have "filter (\<lambda>n. av_same k' (fst n)) ?c' =
        filter (\<lambda>n. av_same k' (fst n)) (take i ?c) @ filter (\<lambda>n. av_same k' (fst n)) (drop i ?c)" using False by simp
    then have f: "filter (\<lambda>n. av_same k' (fst n)) ?c' = filter (\<lambda>n. av_same k' (fst n)) ?c"
      by (simp only: append_take_drop_id flip: filter_append)
    show ?thesis
    proof (cases "avtab_hash k' (avmask t) = ?hv")
      case True
      then have "av_rules ?t k' = filter (\<lambda>n. av_same k' (fst n)) ?c'" by (simp add: av_rules_def put(2))
      then show ?thesis using f True False by (simp only: if_False) (simp add: av_rules_def av_chain_def)
    qed (use False in \<open>simp add: av_rules_def put(2)\<close>)
  qed
  with e put(1) show thesis by (intro that [of ?t]) simp_all
qed

text \<open>What is read back from rules in a given order.\<close>

definition distinct_rules :: "avtab_node list \<Rightarrow> bool" where
  "distinct_rules ns \<longleftrightarrow> sorted_wrt (\<lambda>m n. \<not> av_hit (fst n) m) ns"

definition plain_rules_distinct :: "avtab_node list \<Rightarrow> bool" where
  "plain_rules_distinct ns \<longleftrightarrow> sorted_wrt (\<lambda>m n. \<not> is_xrule n \<longrightarrow> \<not> av_hit (fst n) m) ns"

definition one_kind :: "avtab_key \<Rightarrow> bool" where
  "one_kind k \<longleftrightarrow> (\<exists>b<16. av_spec k = push_bit b 1)"

lemma one_kind_hit:
  assumes "one_kind k" and "av_hit k m" and "av_hit k n"
  shows "av_hit (fst n) m"
proof -
  obtain b where b: "b < 16" "av_spec k = push_bit b 1" using assms(1) by (auto simp: one_kind_def)
  have e: "push_bit b 1 AND w \<noteq> 0 \<longleftrightarrow> bit w b" for w :: u16
  proof
    assume "push_bit b 1 AND w \<noteq> 0"
    then obtain i where "bit (push_bit b 1 AND w) i" using bit_eqI [of "push_bit b 1 AND w" 0] by auto
    then show "bit w b" by (auto simp: bit_simps)
  next
    assume "bit w b"
    then have "bit (push_bit b 1 AND w) b" using b(1) by (simp add: bit_simps)
    then show "push_bit b 1 AND w \<noteq> 0" by auto
  qed
  have "bit (av_spec k) b" using b by (simp add: bit_simps)
  then have b': "bit (NOT (AVTAB_ENABLED OR AVTAB_ENABLED_OLD)) b"
    by (auto simp: av_spec_def bit_simps)
  have "bit (specified (fst n)) b" "bit (specified (fst m)) b"
    using assms(2,3) unfolding av_hit_def b(2) e by blast+
  moreover from this have "bit (av_spec (fst n)) b"
    using b(1) b' by (auto simp: av_spec_def bit_simps)
  ultimately have "bit (av_spec (fst n) AND specified (fst m)) b" by (simp add: bit_simps)
  then have "av_spec (fst n) AND specified (fst m) \<noteq> 0" by auto
  then show ?thesis using assms(2,3) by (simp add: av_hit_def av_same_triple)
qed

lemma mset_put_rule: "mset (put_rule n c) = add_mset n (mset c)"
  by (induction c) (simp_all add: put_rule_Cons)

lemma set_put_rule [simp]: "set (put_rule n c) = insert n (set c)"
  by (metis mset_put_rule set_mset_add_mset_insert set_mset_mset)

lemma mset_fold_put: "mset (fold put_rule ns c) = mset ns + mset c"
  by (induction ns arbitrary: c) (simp_all add: mset_put_rule)

lemma filter_put_rule:
  assumes "one_kind k"
  shows "filter (av_hit k) (put_rule n c) = (if av_hit k n then n # filter (av_hit k) c else filter (av_hit k) c)"
proof (cases "av_hit k n")
  case True
  then show ?thesis
    using one_kind_hit [OF assms] by (induction c) (auto simp: put_rule_Cons)
next
  case False
  then show ?thesis by (induction c) (simp_all add: put_rule_Cons)
qed

lemma filter_fold_put:
  "one_kind k \<Longrightarrow> filter (av_hit k) (fold put_rule ns c) = rev (filter (av_hit k) ns) @ filter (av_hit k) c"
  by (induction ns arbitrary: c) (simp_all add: filter_put_rule)

lemma put_rule_new: "\<forall>m\<in>set c. \<not> av_hit (fst n) m \<Longrightarrow> put_rule n c = c @ [n]"
  by (induction c) (simp_all add: put_rule_Cons)

lemma fold_put_distinct: "distinct_rules (c @ ns) \<Longrightarrow> fold put_rule ns c = c @ ns"
proof (induction ns arbitrary: c)
  case (Cons n ns)
  then have "put_rule n c = c @ [n]" by (intro put_rule_new) (simp add: distinct_rules_def sorted_wrt_append)
  then show ?case using Cons by simp
qed simp

section \<open>Reading the rules\<close>

text \<open>A rule that is not of extended permissions is added only where there is none.\<close>

lemma new_avnode_rule: "rule_ok vers n \<Longrightarrow> new_avnode (fst n) (snd n) = n"
  by (cases n) (auto simp: new_avnode_def rule_ok_def is_xrule_def split: if_splits option.splits)

lemma av_spec_xrule: "av_spec (fst n) AND AVTAB_XPERMS = 0 \<longleftrightarrow> \<not> is_xrule n"
proof -
  have "av_spec (fst n) AND AVTAB_XPERMS = specified (fst n) AND AVTAB_XPERMS"
  proof (rule bit_word_eqI)
    fix i assume "i < LENGTH(16)"
    then show "bit (av_spec (fst n) AND AVTAB_XPERMS) i = bit (specified (fst n) AND AVTAB_XPERMS) i"
      by (auto simp: av_spec_def bit_simps AVTAB_XPERMS_def AVTAB_ENABLED_def AVTAB_ENABLED_OLD_def bit_numeral_rec less_Suc_eq numeral_eq_Suc)
  qed
  then show ?thesis by (simp add: is_xrule_def)
qed

lemma read_items_rules:
  assumes "list_all (rule_ok vers) ns" and "\<not> vers < POLICYDB_VERSION_AVTAB" and "plain_rules_distinct ns" and "av_ok t"
    and "\<forall>n\<in>set ns. \<not> is_xrule n \<longrightarrow> av_hits t (fst n) = []"
  shows "\<exists>t'. (\<forall>r. read_items (avtab_read_item U vers avtab_insertf) (length ns) False (rules_bytes ns @ r) t = Inr (t', False, r, 0)) \<and>
    av_ok t' \<and> avnel t' = avnel t + word_of_nat (length ns) \<and>
    (\<forall>k. av_rules t' k = fold put_rule (filter (\<lambda>n. av_same k (fst n)) ns) (av_rules t k))"
  using assms
proof (induction ns arbitrary: t)
  case Nil
  then show ?case by (auto simp: rules_bytes_def)
next
  case (Cons n ns)
  have n: "rule_ok vers n" "list_all (rule_ok vers) ns" "plain_rules_distinct ns" "\<forall>m\<in>set ns. \<not> is_xrule m \<longrightarrow> \<not> av_hit (fst m) n"
    using Cons.prems(1,3) by (simp_all add: plain_rules_distinct_def)
  have "av_look t (fst n) = None" if "av_spec (fst n) AND AVTAB_XPERMS = 0"
    using Cons.prems(5) that by (simp add: av_spec_xrule av_look_hits)
  from avtab_insert_rules [OF Cons.prems(4) this, where d = "snd n"]
  obtain t1 where t1: "avtab_insert t (fst n) (snd n) = Inr (t1, 0)" "av_ok t1" "avnel t1 = avnel t + 1"
      "\<And>k. av_rules t1 k = (if av_same k (fst n) then put_rule n (av_rules t k) else av_rules t k)"
    unfolding new_avnode_rule [OF n(1)] by blast
  have "\<forall>m\<in>set ns. \<not> is_xrule m \<longrightarrow> av_hits t1 (fst m) = []"
    using Cons.prems(5) n(4) by (auto simp: av_hits_rules t1(4) filter_empty_conv)
  from Cons.IH [OF n(2) Cons.prems(2) n(3) t1(2) this]
  obtain t' where t': "\<And>r. read_items (avtab_read_item U vers avtab_insertf) (length ns) False (rules_bytes ns @ r) t1 = Inr (t', False, r, 0)"
      "av_ok t'" "avnel t' = avnel t1 + word_of_nat (length ns)"
      "\<forall>k. av_rules t' k = fold put_rule (filter (\<lambda>n. av_same k (fst n)) ns) (av_rules t1 k)" by blast
  have "read_items (avtab_read_item U vers avtab_insertf) (length (n # ns)) False (rules_bytes (n # ns) @ r) t = Inr (t', False, r, 0)" for r
    using read_rule [OF n(1) Cons.prems(2), of U avtab_insertf "rules_bytes ns @ r" t] t1(1) t'(1)
    by (simp add: rules_bytes_def avtab_insertf_def)
  then show ?case using t'(2,3,4) t1(3,4) by auto
qed

lemma filter_concat_slot:
  "i < length hs \<Longrightarrow> \<forall>j < length hs. j \<noteq> i \<longrightarrow> filter P (hs ! j) = [] \<Longrightarrow> filter P (concat hs) = filter P (hs ! i)"
proof (induction hs arbitrary: i)
  case (Cons h hs)
  show ?case
  proof (cases i)
    case 0
    have "filter P (concat hs) = []"
      using Cons.prems(2) unfolding 0 by (force simp: filter_empty_conv in_set_conv_nth)
    then show ?thesis using 0 by simp
  next
    case (Suc k)
    have "filter P h = []" using Cons.prems(2) Suc by (metis length_Cons nth_Cons_0 zero_less_Suc nat.distinct(1))
    moreover have "filter P (concat hs) = filter P (hs ! k)"
      using Cons.prems Suc by (intro Cons.IH) (auto dest: spec [of _ "Suc _"])
    ultimately show ?thesis using Suc by simp
  qed
qed simp

lemma av_rules_all:
  assumes "av_ok t"
  shows "av_rules t k = filter (\<lambda>n. av_same k (fst n)) (rules_of t)"
proof -
  obtain hs where hs: "avslots t = Some hs" "length hs = unat (nslot t)"
     "\<And>i n. i < length hs \<Longrightarrow> n \<in> set (hs ! i) \<Longrightarrow> avtab_hash (fst n) (avmask t) = int i"
    by (rule av_okE [OF assms]) (rule that, assumption+)
  let ?i = "nat (avtab_hash k (avmask t))"
  have i: "?i < length hs" using avtab_hash_range [OF assms, of k] hs(2) by simp
  have "filter (\<lambda>n. av_same k (fst n)) (hs ! j) = []" if j: "j < length hs" "j \<noteq> ?i" for j
  proof -
    have "\<not> av_same k (fst n)" if "n \<in> set (hs ! j)" for n
    proof
      assume "av_same k (fst n)"
      then have "avtab_hash k (avmask t) = avtab_hash (fst n) (avmask t)" by (rule avtab_hash_same)
      with hs(3) [OF j(1) that] j(2) show False by simp
    qed
    then show ?thesis by (simp add: filter_empty_conv)
  qed
  then have "filter (\<lambda>n. av_same k (fst n)) (concat hs) = filter (\<lambda>n. av_same k (fst n)) (hs ! ?i)"
    using filter_concat_slot [OF i] by blast
  then show ?thesis by (simp add: av_rules_def rules_of_def av_chain_def hs(1))
qed

text \<open>
  What a table and the table read back from its file have in common: every search finds the
  same rules, those of one kind in the opposite order, and all of them in the same order
  where no two rules of the source, target and class searched are of one kind.
\<close>

definition read_back :: "avtab \<Rightarrow> avtab \<Rightarrow> bool" where
  "read_back t t' \<longleftrightarrow> av_ok t' \<and> avnel t' = avnel t \<and>
     (\<forall>k. mset (av_hits t' k) = mset (av_hits t k)) \<and>
     (\<forall>k. one_kind k \<longrightarrow> av_hits t' k = rev (av_hits t k)) \<and>
     (\<forall>k. distinct_rules (filter (\<lambda>n. av_same k (fst n)) (rules_of t)) \<longrightarrow> av_hits t' k = av_hits t k)"

lemma read_back_look: "read_back t t' \<Longrightarrow> av_look t' k = None \<longleftrightarrow> av_look t k = None"
proof -
  assume "read_back t t'"
  then have "mset (av_hits t' k) = mset (av_hits t k)" by (simp add: read_back_def)
  then have "av_hits t' k = [] \<longleftrightarrow> av_hits t k = []" by (metis mset_zero_iff)
  then show ?thesis by (auto simp: av_look_hits split: list.split)
qed

lemma avtab_alloc_empty:
  assumes "n \<noteq> 0" and "avtab_alloc t n = (t', 0)"
  shows "av_chain t' k = []"
proof -
  have ok: "av_ok t'" using avtab_alloc_correct [OF assms(1), of t] assms(2) by auto
  have "avslots t' = Some (replicate (unat (av_nslot n)) [])" "nslot t' = av_nslot n"
    using assms by (auto simp: avtab_alloc_def Let_def)
  then show ?thesis using avtab_hash_range(2) [OF ok, of k] by (simp add: av_chain_def)
qed

lemma avtab_read_table:
  assumes "av_ok t" and "list_all (rule_ok vers) (rules_of t)" and "\<not> vers < POLICYDB_VERSION_AVTAB"
    and "plain_rules_distinct (rules_of t)" and "rules_of t \<noteq> []" and "unat (avnel t) = length (rules_of t)"
  shows "\<exists>t'. (\<forall>r. avtab_read U vers False (table_bytes t @ r) a = Inr (t', False, r, 0)) \<and> read_back t t'"
proof -
  have nz: "avnel t \<noteq> 0" using assms(5,6) by auto
  obtain t0 where t0: "avtab_alloc a (avnel t) = (t0, 0)" "av_ok t0" "avnel t0 = 0" "\<And>k. av_look t0 k = None"
    using avtab_alloc_correct [OF nz, of a] by (metis prod.inject)
  have c0: "av_chain t0 k = []" for k using avtab_alloc_empty [OF nz t0(1)] .
  then have h0: "av_hits t0 k = []" and r0: "av_rules t0 k = []" for k by (simp_all add: av_hits_def av_rules_def)
  obtain t' where t': "\<And>r. read_items (avtab_read_item U vers avtab_insertf) (length (rules_of t)) False (rules_bytes (rules_of t) @ r) t0 = Inr (t', False, r, 0)"
    "av_ok t'" "avnel t' = avnel t0 + word_of_nat (length (rules_of t))"
    "\<forall>k. av_rules t' k = fold put_rule (filter (\<lambda>n. av_same k (fst n)) (rules_of t)) (av_rules t0 k)"
    using read_items_rules [OF assms(2,3,4) t0(2)] h0 by blast
  have rules: "av_rules t' k = fold put_rule (av_rules t k) []" for k
    using t'(4) r0 by (simp add: av_rules_all [OF assms(1)])
  have "avnel t' = avnel t" using t'(3) t0(3) assms(6) [symmetric] by simp
  moreover have "avtab_read U vers False (table_bytes t @ r) a = Inr (t', False, r, 0)" for r
    using t'(1) t0(1) nz assms(6) next_entry_app [of "le32 (avnel t)" 4] by (simp add: avtab_read_def table_bytes_def)
  moreover have "mset (av_hits t' k) = mset (av_hits t k)" for k
    by (simp add: av_hits_rules rules mset_fold_put)
  moreover have "av_hits t' k = rev (av_hits t k)" if "one_kind k" for k
    using filter_fold_put [OF that] by (simp add: av_hits_rules rules)
  moreover have "av_hits t' k = av_hits t k" if "distinct_rules (filter (\<lambda>n. av_same k (fst n)) (rules_of t))" for k
    using fold_put_distinct [of "[]"] that by (simp add: av_hits_rules rules av_rules_all [OF assms(1)])
  ultimately show ?thesis using t'(2) unfolding read_back_def by blast
qed

end
