(* ===== verification/Sepol_File_Base.thy ===== *)
theory Sepol_File_Base
  imports Sepol_Avtab_File
begin

text \<open>
  How the records of a policy file are written and read (next_entry, put_entry and str_read
  of services.c, the macros of private.h): writers that end at the first \<open>put_entry\<close> that
  fails, readers that end at the first \<open>next_entry\<close> that fails, and the tables of symbols,
  written with \<open>hashtab_map\<close> and read back with \<open>hashtab_insert\<close>. A failed reader or
  writer makes the whole file fail, so its state is not kept.
\<close>

section \<open>Writers\<close>

type_synonym writer = "out_file \<Rightarrow> out_file option res"

definition w_skip :: writer where "w_skip fp = Inr (Some fp)"

definition w_fail :: writer where "w_fail fp = Inr None"

definition w_crash :: writer where "w_crash fp = Inl Null_Deref"

definition w_put :: "bytes \<Rightarrow> writer" where "w_put b fp = Inr (put_entry b fp)"

definition le32s :: "u32 list \<Rightarrow> bytes" where "le32s ws = concat (map le32 ws)"

definition w_words :: "u32 list \<Rightarrow> writer" where "w_words ws = w_put (le32s ws)"

definition w_seq :: "writer \<Rightarrow> writer \<Rightarrow> writer" where
  "w_seq f g fp = (case f fp of Inl e \<Rightarrow> Inl e | Inr None \<Rightarrow> Inr None | Inr (Some fp) \<Rightarrow> g fp)"

primrec w_all :: "writer list \<Rightarrow> writer" where
  "w_all [] = w_skip"
| "w_all (f # fs) = w_seq f (w_all fs)"

definition w_when :: "bool \<Rightarrow> writer \<Rightarrow> writer" where
  "w_when c f = (if c then f else w_skip)"

text \<open>The number of nodes of a list or of the characters of a string, as the code writes it.\<close>

definition len32 :: "'a list \<Rightarrow> u32" where "len32 xs = word_of_nat (length xs)"

text \<open>\<open>hashtab_map\<close> with a function that writes one node.\<close>

definition w_node :: "('k \<Rightarrow> 'd \<Rightarrow> writer) \<Rightarrow> 'k \<Rightarrow> 'd \<Rightarrow> out_file res \<Rightarrow> out_file res \<times> int" where
  "w_node f k d s =
     (case s of Inl e \<Rightarrow> (Inl e, POLICYDB_ERROR)
      | Inr fp \<Rightarrow>
          (case f k d fp of Inl e \<Rightarrow> (Inl e, POLICYDB_ERROR)
           | Inr None \<Rightarrow> (Inr fp, POLICYDB_ERROR)
           | Inr (Some fp) \<Rightarrow> (Inr fp, POLICYDB_SUCCESS)))"

definition w_table :: "('k \<Rightarrow> 'd \<Rightarrow> writer) \<Rightarrow> ('k, 'd) hashtab option \<Rightarrow> writer" where
  "w_table f h fp =
     (case hashtab_map h (w_node f) (Inr fp) of
        (Inl e, _) \<Rightarrow> Inl e
      | (Inr fp, rc) \<Rightarrow> Inr (if rc \<noteq> 0 then None else Some fp))"

section \<open>Readers\<close>

type_synonym 'a reader = "bytes \<Rightarrow> ('a \<times> bytes) option res"

definition r_ok :: "'a \<Rightarrow> 'a reader" where "r_ok x fp = Inr (Some (x, fp))"

definition r_fail :: "'a reader" where "r_fail fp = Inr None"

definition r_bind :: "'a reader \<Rightarrow> ('a \<Rightarrow> 'b reader) \<Rightarrow> 'b reader" where
  "r_bind m f fp = (case m fp of Inl e \<Rightarrow> Inl e | Inr None \<Rightarrow> Inr None | Inr (Some (x, fp)) \<Rightarrow> f x fp)"

definition r_check :: "bool \<Rightarrow> 'a reader \<Rightarrow> 'a reader" where
  "r_check c m = (if c then m else r_fail)"

definition r_bytes :: "nat \<Rightarrow> bytes reader" where "r_bytes n fp = Inr (next_entry n fp)"

definition r_words :: "nat \<Rightarrow> u32 list reader" where
  "r_words n = r_bind (r_bytes (4 * n)) (\<lambda>b. r_ok (words32 b))"

text \<open>\<open>is_saturated\<close> for a variable of \<open>w\<close> bits: 64 for a \<open>size_t\<close>, 32 for a \<open>uint32_t\<close>.\<close>

definition is_saturated :: "nat \<Rightarrow> nat \<Rightarrow> bool" where
  "is_saturated w x \<longleftrightarrow> x = 2 ^ w - 1"

definition zero_or_saturated :: "nat \<Rightarrow> nat \<Rightarrow> bool" where
  "zero_or_saturated w x \<longleftrightarrow> x = 0 \<or> is_saturated w x"

text \<open>A string of a given length: the bytes of the file with a NUL put behind them.\<close>

definition r_key :: "nat \<Rightarrow> bytes reader" where
  "r_key len = r_bind (r_bytes len) (\<lambda>b. r_ok (cstr (b @ [0])))"

definition str_read :: "nat \<Rightarrow> bytes reader" where
  "str_read len = r_check (\<not> zero_or_saturated 64 len) (r_key len)"

definition r_ebitmap :: "ebitmap reader" where
  "r_ebitmap fp = (case ebitmap_read fp of (e, rc, fp) \<Rightarrow> Inr (if rc \<noteq> 0 then None else Some (e, fp)))"

definition w_ebitmap :: "ebitmap \<Rightarrow> writer" where "w_ebitmap e = w_put (ebitmap_write e)"

primrec r_list :: "nat \<Rightarrow> 'a reader \<Rightarrow> 'a list reader" where
  "r_list 0 m = r_ok []"
| "r_list (Suc n) m = r_bind m (\<lambda>x. r_bind (r_list n m) (\<lambda>xs. r_ok (x # xs)))"

definition r_symtab :: "u32 \<Rightarrow> 'd symtab reader" where
  "r_symtab n = (case symtab_init \<lparr>table = None, nprim = 0\<rparr> n of (s, rc) \<Rightarrow> r_check (rc = 0) (r_ok s))"

definition r_insert :: "('k, 'd) hashtab option \<Rightarrow> 'k \<Rightarrow> 'd \<Rightarrow> ('k, 'd) hashtab option reader" where
  "r_insert h k d fp =
     (case hashtab_insert h k d of Inl e \<Rightarrow> Inl e | Inr (h, rc) \<Rightarrow> Inr (if rc \<noteq> 0 then None else Some (h, fp)))"

text \<open>The loop that reads entry after entry into a table.\<close>

primrec r_times :: "nat \<Rightarrow> ('s \<Rightarrow> 's reader) \<Rightarrow> 's \<Rightarrow> 's reader" where
  "r_times 0 m s = r_ok s"
| "r_times (Suc n) m s = r_bind (m s) (r_times n m)"


section \<open>Laws\<close>

text \<open>A writer emits bytes when it does what one \<open>put_entry\<close> of them does; a reader accepts what it consumes.\<close>

definition emits :: "writer \<Rightarrow> bytes \<Rightarrow> bool" where
  "emits w b \<longleftrightarrow> (\<forall>fp. w fp = Inr (put_entry b fp))"

definition accepts :: "'a reader \<Rightarrow> bytes \<Rightarrow> 'a \<Rightarrow> bool" where
  "accepts m b x \<longleftrightarrow> (\<forall>r. m (b @ r) = Inr (Some (x, r)))"

named_theorems emit_intros \<open>what the writers emit\<close>
named_theorems accept_intros \<open>what the readers accept\<close>

lemma put_entry_Nil [simp]: "put_entry [] fp = Some fp"
  by (cases fp) (simp_all add: put_entry_def)

lemma put_entry_append:
  "put_entry (a @ b) fp = (case put_entry a fp of None \<Rightarrow> None | Some fp \<Rightarrow> put_entry b fp)"
  by (cases fp) (auto simp: put_entry_def)

lemma emits_skip [emit_intros]: "emits w_skip []"
  by (simp add: emits_def w_skip_def)

lemma emits_put [emit_intros]: "emits (w_put b) b"
  by (simp add: emits_def w_put_def)

lemma emits_words [emit_intros]: "emits (w_words ws) (le32s ws)"
  unfolding w_words_def by (rule emits_put)

lemma emits_ebitmap [emit_intros]: "emits (w_ebitmap e) (ebitmap_write e)"
  unfolding w_ebitmap_def by (rule emits_put)

lemma emits_seq [emit_intros]: "emits f a \<Longrightarrow> emits g b \<Longrightarrow> emits (w_seq f g) (a @ b)"
  by (auto simp: emits_def w_seq_def put_entry_append split: option.split)

lemma emits_all_Nil [emit_intros]: "emits (w_all []) []"
  by (simp add: emits_skip)

lemma emits_all_Cons [emit_intros]: "emits f a \<Longrightarrow> emits (w_all fs) b \<Longrightarrow> emits (w_all (f # fs)) (a @ b)"
  by (simp add: emits_seq)

lemma emits_when [emit_intros]: "(c \<Longrightarrow> emits f a) \<Longrightarrow> emits (w_when c f) (if c then a else [])"
  by (simp add: w_when_def emits_skip)

lemma emits_if [emit_intros]:
  "(c \<Longrightarrow> emits f a) \<Longrightarrow> (\<not> c \<Longrightarrow> emits g b) \<Longrightarrow> emits (if c then f else g) (if c then a else b)"
  by simp

lemma emits_list [emit_intros]:
  "(\<And>x. x \<in> set xs \<Longrightarrow> emits (f x) (enc x)) \<Longrightarrow> emits (w_all (map f xs)) (concat (map enc xs))"
  by (induction xs) (simp_all add: emits_skip emits_seq)

lemma accepts_ok [accept_intros]: "accepts (r_ok x) [] x"
  by (simp add: accepts_def r_ok_def)

lemma accepts_bind [accept_intros]: "accepts m a x \<Longrightarrow> accepts (f x) b y \<Longrightarrow> accepts (r_bind m f) (a @ b) y"
  by (simp add: accepts_def r_bind_def)

lemma accepts_bind_ok: "accepts m a x \<Longrightarrow> accepts (r_bind m (\<lambda>x. r_ok (f x))) a (f x)"
  using accepts_bind [of m a x "\<lambda>x. r_ok (f x)" "[]" "f x", OF _ accepts_ok] by simp

lemma accepts_check [accept_intros]: "c \<Longrightarrow> accepts m b x \<Longrightarrow> accepts (r_check c m) b x"
  by (simp add: r_check_def)

lemma accepts_bytes [accept_intros]: "length b = n \<Longrightarrow> accepts (r_bytes n) b b"
  by (simp add: accepts_def r_bytes_def)

lemma length_words: "length (le32s ws) = 4 * length ws"
  unfolding le32s_def by (induction ws) simp_all

lemma accepts_words [accept_intros]: "length ws = n \<Longrightarrow> accepts (r_words n) (le32s ws) ws"
  using accepts_bind_ok [OF accepts_bytes [of "le32s ws" "4 * n"], of words32] words32_concat [of ws]
  by (simp add: r_words_def length_words) (simp add: le32s_def)

lemma accepts_ebitmap [accept_intros]: "ebitmap_ok e \<Longrightarrow> accepts r_ebitmap (ebitmap_write e) e"
  by (simp add: accepts_def r_ebitmap_def ebitmap_read_write)

lemma accepts_list [accept_intros]:
  "length xs = n \<Longrightarrow> (\<And>x. x \<in> set xs \<Longrightarrow> accepts m (enc x) x) \<Longrightarrow> accepts (r_list n m) (concat (map enc xs)) xs"
proof (induction xs arbitrary: n)
  case (Cons x xs)
  obtain k where n: "n = Suc k" using Cons.prems(1) by (cases n) auto
  have "accepts (r_list k m) (concat (map enc xs)) xs" by (rule Cons.IH) (use Cons.prems n in auto)
  then show ?case using Cons.prems(2) [of x] unfolding n by (auto intro!: accepts_bind accepts_bind_ok)
qed (auto intro: accepts_ok)

text \<open>A name as it is written: its bytes, which hold no NUL, and its length, which is read back.\<close>

definition name_ok :: "bytes \<Rightarrow> bool" where
  "name_ok k \<longleftrightarrow> sym_ok k \<and> k \<noteq> [] \<and> length k < 4294967295"

lemma name_okD: "name_ok k \<Longrightarrow> sym_ok k" "name_ok k \<Longrightarrow> k \<noteq> []"
  by (simp_all add: name_ok_def)

definition short :: "'a list \<Rightarrow> bool" where
  "short xs \<longleftrightarrow> length xs < 4294967296"

lemma len32_unat [simp]: "short xs \<Longrightarrow> unat (len32 xs) = length xs"
  unfolding len32_def short_def by (rule unat_word_of_nat_u32)

lemma name_short [simp]: "name_ok k \<Longrightarrow> short k"
  by (simp add: name_ok_def short_def)

lemma name_not_saturated [simp]:
  "name_ok k \<Longrightarrow> \<not> zero_or_saturated 64 (length k)" "name_ok k \<Longrightarrow> \<not> zero_or_saturated 32 (length k)"
  "name_ok k \<Longrightarrow> \<not> is_saturated 64 (length k)"
  by (auto simp: name_ok_def zero_or_saturated_def is_saturated_def)

lemma accepts_key [accept_intros]: "sym_ok k \<Longrightarrow> length k = n \<Longrightarrow> accepts (r_key n) k k"
proof -
  assume k: "sym_ok k" "length k = n"
  have "cstr (k @ [0]) = k" using k(1) by (simp add: sym_ok_def cstr_append_nul)
  then show ?thesis
    using accepts_bind_ok [OF accepts_bytes [OF k(2)], of "\<lambda>b. cstr (b @ [0])"] by (simp add: r_key_def)
qed

lemma accepts_str [accept_intros]: "name_ok k \<Longrightarrow> length k = n \<Longrightarrow> accepts (str_read n) k k"
  using accepts_key [of k n] name_okD(1) [of k] by (auto simp: str_read_def r_check_def)


lemma emits_eq: "emits w b \<Longrightarrow> b = b' \<Longrightarrow> emits w b'"
  by simp

text \<open>Readers run on what they accept, as rewriting.\<close>

named_theorems run_simps \<open>a reader at the start of a record\<close>

lemma run_bind: "accepts m b x \<Longrightarrow> r_bind m f (b @ r) = f x r"
  by (simp add: accepts_def r_bind_def)

lemma run_ok [run_simps]: "r_bind (r_ok x) f = f x"
  by (simp add: fun_eq_iff r_bind_def r_ok_def)

lemma run_assoc [run_simps]: "r_bind (r_bind m f) g = r_bind m (\<lambda>x. r_bind (f x) g)"
  by (simp add: fun_eq_iff r_bind_def split: sum.split option.split)

lemma run_check [run_simps]: "r_check True m = m"
  by (simp add: r_check_def)

lemmas run_words [run_simps] = run_bind [OF accepts_words]
lemmas run_ebitmap [run_simps] = run_bind [OF accepts_ebitmap]
lemmas run_key [run_simps] = run_bind [OF accepts_key]
lemmas run_str [run_simps] = run_bind [OF accepts_str]

text \<open>A reader that only returns its last value.\<close>

lemma acceptsI: "(\<And>r. m (b @ r) = r_ok x r) \<Longrightarrow> accepts m b x"
  by (simp add: accepts_def r_ok_def)

section \<open>Tables\<close>

definition nodes :: "('k, 'd) hashtab \<Rightarrow> ('k \<times> 'd) list" where
  "nodes t = concat (htable t)"

text \<open>A table is determined by its size and its contents: chains are sorted, so the order of insertion leaves no trace.\<close>

lemma sorted_wrt_unique:
  assumes "sorted_wrt P xs" and "sorted_wrt P ys" and "set xs = set ys"
    and "\<forall>x\<in>set xs. \<forall>y\<in>set xs. P x y \<longrightarrow> \<not> P y x"
  shows "xs = ys"
  using assms
proof (induction xs arbitrary: ys)
  case (Cons x xs)
  obtain y ys' where ys: "ys = y # ys'" using Cons.prems(3) by (cases ys) auto
  have px: "\<forall>z\<in>set xs. P x z" "sorted_wrt P xs" and py: "\<forall>z\<in>set ys'. P y z" "sorted_wrt P ys'"
    using Cons.prems(1,2) by (simp_all add: ys)
  have eq: "insert x (set xs) = insert y (set ys')" using Cons.prems(3) by (simp add: ys)
  have xy: "x = y"
  proof (rule ccontr)
    assume "x \<noteq> y"
    then have i: "x \<in> set ys'" "y \<in> set xs" using eq by (metis insertE insertI1)+
    have "P x y" "P y x" using bspec [OF px(1) i(2)] bspec [OF py(1) i(1)] .
    moreover have "x \<in> set (x # xs)" "y \<in> set (x # xs)" using \<open>y \<in> set xs\<close> by simp_all
    ultimately show False using Cons.prems(4) by blast
  qed
  have "x \<in> set (x # xs)" by simp
  then have "\<not> P x x" using Cons.prems(4) by blast
  then have "x \<notin> set xs" "x \<notin> set ys'" using px(1) py(1) xy by auto
  then have "set xs = set ys'" using eq xy by (simp add: insert_ident)
  moreover have "\<forall>u\<in>set xs. \<forall>v\<in>set xs. P u v \<longrightarrow> \<not> P v u" using Cons.prems(4) by (meson list.set_intros(2))
  ultimately have "xs = ys'" using Cons.IH [OF px(2) py(2)] by blast
  then show ?case by (simp add: ys xy)
qed simp

lemma distinct_slots:
  assumes "\<forall>i < length hs. distinct (map fst (hs ! i)) \<and> (\<forall>n\<in>set (hs ! i). f (fst n) = i + (m :: nat))"
  shows "distinct (map fst (concat hs)) \<and> (\<forall>n\<in>set (concat hs). m \<le> f (fst n))"
  using assms
proof (induction hs arbitrary: m)
  case (Cons c hs)
  have c: "distinct (map fst c)" "\<forall>n\<in>set c. f (fst n) = m" using spec [OF Cons.prems, of 0] by simp_all
  have IH: "distinct (map fst (concat hs)) \<and> (\<forall>n\<in>set (concat hs). Suc m \<le> f (fst n))"
  proof (rule Cons.IH, intro allI impI)
    fix i assume "i < length hs"
    then show "distinct (map fst (hs ! i)) \<and> (\<forall>n\<in>set (hs ! i). f (fst n) = i + Suc m)"
      using spec [OF Cons.prems, of "Suc i"] by simp
  qed
  have "fst ` set c \<inter> fst ` set (concat hs) = {}" using c(2) IH by fastforce
  then show ?case using c IH by fastforce
qed simp

context hash_scheme begin

lemma chain_distinct: "chain_ok c \<Longrightarrow> distinct (map fst c)"
proof (induction c)
  case (Cons n c)
  have "fst n \<notin> fst ` set c" using Cons.prems cmp_self by (force simp: chain_ok_def)
  then show ?case using Cons by (simp add: chain_ok_def)
qed simp

lemma chain_at: "table_ok t \<Longrightarrow> i < length (htable t) \<Longrightarrow> distinct (map fst (htable t ! i)) \<and> (\<forall>n\<in>set (htable t ! i). slot_of t (fst n) = i)"
  using chain_distinct unfolding table_ok_def by blast

lemma nodes_distinct: "table_ok t \<Longrightarrow> distinct (map fst (nodes t))"
  unfolding nodes_def
  by (intro conjunct1 [OF distinct_slots [of "htable t" "slot_of t" 0]] allI impI) (simp add: chain_at)

lemma node_contents:
  assumes "table_ok t"
  shows "(k, d) \<in> set (nodes t) \<longleftrightarrow> contents t k = Some d"
proof
  assume "(k, d) \<in> set (nodes t)"
  then obtain i where i: "i < length (htable t)" "(k, d) \<in> set (htable t ! i)"
    by (auto simp: nodes_def in_set_conv_nth [of _ "htable t"])
  then have "slot_of t k = i" using assms by (force simp: table_ok_def)
  then show "contents t k = Some d"
    using i chain_at [OF assms i(1)] by (simp add: contents_def)
next
  assume "contents t k = Some d"
  then have "(k, d) \<in> set (htable t ! slot_of t k)" by (auto simp: contents_def dest: map_of_SomeD)
  then show "(k, d) \<in> set (nodes t)" using slot_less [OF assms, of k] by (auto simp: nodes_def)
qed

lemma contents_nodes:
  assumes "table_ok t"
  shows "contents t = map_of (nodes t)"
proof
  fix k
  have "contents t k = Some d \<longleftrightarrow> map_of (nodes t) k = Some d" for d
    by (simp add: node_contents [OF assms, symmetric] map_of_eq_Some_iff [OF nodes_distinct [OF assms]])
  then show "contents t k = map_of (nodes t) k" by (metis not_Some_eq)
qed

lemma slot_set:
  assumes "table_ok t" and "i < length (htable t)"
  shows "(k, d) \<in> set (htable t ! i) \<longleftrightarrow> contents t k = Some d \<and> slot_of t k = i"
proof -
  have "slot_of t k = i" if "(k, d) \<in> set (htable t ! i)" using chain_at [OF assms] that by force
  then show ?thesis using chain_at [OF assms] by (auto simp: contents_def)
qed

lemma table_unique:
  assumes "table_ok t" and "table_ok t'" and "hsize t = hsize t'" and "nel t = nel t'" and "contents t = contents t'"
  shows "t = t'"
proof -
  have len: "length (htable t) = length (htable t')" using assms(1-3) by (simp add: table_ok_def)
  have "htable t ! i = htable t' ! i" if i: "i < length (htable t)" for i
  proof (rule sorted_wrt_unique [where P = "\<lambda>a b. 0 < cmp (fst b) (fst a)"])
    show "sorted_wrt (\<lambda>a b. 0 < cmp (fst b) (fst a)) (htable t ! i)"
      "sorted_wrt (\<lambda>a b. 0 < cmp (fst b) (fst a)) (htable t' ! i)"
      using assms(1,2) i len by (auto simp: table_ok_def chain_ok_def)
    show "set (htable t ! i) = set (htable t' ! i)"
      using slot_set [OF assms(1) i] slot_set [OF assms(2)] i len assms(3,5) by (auto simp: slot_of_def)
    have "\<forall>x\<in>set (htable t ! i). key_ok (fst x)" using assms(1) i unfolding table_ok_def chain_ok_def by blast
    then show "\<forall>x\<in>set (htable t ! i). \<forall>y\<in>set (htable t ! i). 0 < cmp (fst y) (fst x) \<longrightarrow> \<not> 0 < cmp (fst x) (fst y)"
      using cmp_flip by fastforce
  qed
  then have "htable t = htable t'" using len by (simp add: list_eq_iff_nth_eq)
  then show ?thesis using assms(1-4) by (cases t, cases t') (simp add: table_ok_def)
qed

lemma counted_nel: "counted t \<Longrightarrow> short (nodes t) \<Longrightarrow> unat (nel t) = length (nodes t)"
  by (simp add: counted_def nodes_def short_def unat_word_of_nat_u32)

text \<open>Inserting nodes with new, different keys adds them all.\<close>

lemma insert_nodes:
  assumes "table_ok t" and "counted t" and "key_ok k" and "contents t k = None"
  obtains t' where "hashtab_insert (Some t) k d = Inr (Some t', SEPOL_OK)" and "table_ok t'" and "counted t'"
    and "hsize t' = hsize t" and "contents t' = (contents t)(k \<mapsto> d)"
  using insert_correct [OF assms(1-3), of d] assms(4) by auto

end

text \<open>A new table, as \<open>hashtab_create\<close> makes it.\<close>

definition empty_table :: "(u32 \<Rightarrow> 'k \<Rightarrow> u32) \<Rightarrow> ('k \<Rightarrow> 'k \<Rightarrow> int) \<Rightarrow> u32 \<Rightarrow> ('k, 'd) hashtab" where
  "empty_table hv cmp n = \<lparr>htable = replicate (unat n) [], hsize = n, nel = 0, hash_value = hv, keycmp = cmp\<rparr>"

lemma create_empty: "hashtab_create hv cmp n = Some (empty_table hv cmp n)"
  by (simp add: hashtab_create_def empty_table_def)

lemma nodes_empty [simp]: "nodes (empty_table hv cmp n) = []" "hsize (empty_table hv cmp n) = n" "nel (empty_table hv cmp n) = 0"
  by (simp_all add: nodes_def empty_table_def)

context hash_scheme begin

lemma empty_ok:
  fixes t :: "('k, 'd) hashtab"
  assumes "t = empty_table hash cmp n" and "0 < unat n" and "unat n < 2147483648"
  shows "table_ok t" and "counted t" and "contents t = Map.empty"
proof -
  obtain t' :: "('k, 'd) hashtab" where "hashtab_create hash cmp n = Some t'" "table_ok t'" "counted t'"
    "contents t' = Map.empty"
    using create_correct [OF assms(2,3)] by metis
  then show "table_ok t" "counted t" "contents t = Map.empty" by (simp_all add: create_empty assms(1))
qed

end

text \<open>
  The interface of a kind of table: what the function that \<open>hashtab_map\<close> calls emits for
  a node, and that its reader inserts the node from that, when its key is new. Some nodes
  are skipped by the reader, which finds them in the table already.
\<close>

locale table_codec = hash_scheme cmp key_ok hash
  for cmp :: "'k \<Rightarrow> 'k \<Rightarrow> int" and key_ok :: "'k \<Rightarrow> bool" and hash :: "u32 \<Rightarrow> 'k \<Rightarrow> u32" +
  fixes wr :: "'k \<Rightarrow> 'd \<Rightarrow> writer"
    and rd :: "('k, 'd) hashtab option \<Rightarrow> ('k, 'd) hashtab option reader"
    and enc :: "'k \<Rightarrow> 'd \<Rightarrow> bytes"
    and ok :: "'k \<Rightarrow> 'd \<Rightarrow> bool"
    and skips :: "'k \<Rightarrow> 'd \<Rightarrow> bool"
  assumes wr_emits: "ok k d \<Longrightarrow> emits (wr k d) (enc k d)"
    and rd_skips: "ok k d \<Longrightarrow> skips k d \<Longrightarrow> rd h (enc k d @ r) = Inr (Some (h, r))"
    and rd_inserts: "ok k d \<Longrightarrow> \<not> skips k d \<Longrightarrow> hashtab_insert h k d = Inr (h', SEPOL_OK) \<Longrightarrow>
      rd h (enc k d @ r) = Inr (Some (h', r))"
    and ok_key: "ok k d \<Longrightarrow> key_ok k"
begin

definition table_enc :: "('k, 'd) hashtab \<Rightarrow> bytes" where
  "table_enc t = concat (map (\<lambda>n. enc (fst n) (snd n)) (nodes t))"

definition storable :: "('k, 'd) hashtab \<Rightarrow> bool" where
  "storable t \<longleftrightarrow> table_ok t \<and> counted t \<and> short (nodes t) \<and> (\<forall>n\<in>set (nodes t). ok (fst n) (snd n))"

text \<open>What must be in the table that is read into.\<close>

definition skipped :: "('k, 'd) hashtab \<Rightarrow> ('k, 'd) hashtab \<Rightarrow> bool" where
  "skipped t t0 \<longleftrightarrow> table_ok t0 \<and> counted t0 \<and> hsize t0 = hsize t \<and>
     contents t0 = map_of (filter (\<lambda>n. skips (fst n) (snd n)) (nodes t))"

lemma written:
  assumes "storable t"
  shows "emits (w_table wr (Some t)) (table_enc t)"
proof -
  have all: "\<exists>fp'. map_chain (w_node wr) ns (Inr fp) =
      (case put_entry (concat (map (\<lambda>n. enc (fst n) (snd n)) ns)) fp of
         None \<Rightarrow> (Inr fp', POLICYDB_ERROR) | Some fp \<Rightarrow> (Inr fp, SEPOL_OK))"
    if "\<forall>n\<in>set ns. ok (fst n) (snd n)" for ns fp
    using that
  proof (induction ns arbitrary: fp)
    case (Cons n ns)
    have w: "wr (fst n) (snd n) fp = Inr (put_entry (enc (fst n) (snd n)) fp)"
      using wr_emits [of "fst n" "snd n"] Cons.prems by (simp add: emits_def)
    show ?case
    proof (cases "put_entry (enc (fst n) (snd n)) fp")
      case None
      then have "w_node wr (fst n) (snd n) (Inr fp) = (Inr fp, POLICYDB_ERROR)" using w by (simp add: w_node_def)
      then show ?thesis using None by (simp add: put_entry_append POLICYDB_ERROR_def)
    next
      case (Some fp')
      then have "w_node wr (fst n) (snd n) (Inr fp) = (Inr fp', POLICYDB_SUCCESS)" using w by (simp add: w_node_def)
      then show ?thesis using Some Cons.IH [of fp'] Cons.prems by (simp add: put_entry_append POLICYDB_SUCCESS_def)
    qed
  qed simp
  have "w_table wr (Some t) fp = Inr (put_entry (table_enc t) fp)" for fp
  proof -
    obtain fp' where "map_chain (w_node wr) (nodes t) (Inr fp) =
      (case put_entry (table_enc t) fp of None \<Rightarrow> (Inr fp', POLICYDB_ERROR) | Some fp \<Rightarrow> (Inr fp, SEPOL_OK))"
      using all [of "nodes t" fp] assms by (auto simp: storable_def table_enc_def)
    then show ?thesis
      by (simp add: w_table_def hashtab_map_nodes nodes_def SEPOL_OK_def POLICYDB_ERROR_def split: option.split)
  qed
  then show ?thesis by (simp add: emits_def)
qed

lemma nodes_read:
  assumes "table_ok t" and "counted t" and "\<forall>n\<in>set ns. ok (fst n) (snd n)" and "distinct (map fst ns)"
    and "\<forall>n\<in>set ns. \<not> skips (fst n) (snd n) \<longrightarrow> contents t (fst n) = None"
  shows "\<exists>t'. r_times (length ns) rd (Some t) (concat (map (\<lambda>n. enc (fst n) (snd n)) ns) @ r) = Inr (Some (Some t', r)) \<and>
    table_ok t' \<and> counted t' \<and> hsize t' = hsize t \<and>
    contents t' = contents t ++ map_of (filter (\<lambda>n. \<not> skips (fst n) (snd n)) ns)"
  using assms
proof (induction ns arbitrary: t)
  case (Cons n ns)
  obtain k d where n: "n = (k, d)" by (cases n)
  note ok = Cons.prems(3) [simplified n, simplified]
  show ?case
  proof (cases "skips k d")
    case True
    then show ?thesis using Cons.IH [of t] Cons.prems ok rd_skips [of k d] by (simp add: n r_bind_def)
  next
    case False
    obtain t1 where t1: "hashtab_insert (Some t) k d = Inr (Some t1, SEPOL_OK)" "table_ok t1" "counted t1"
      "hsize t1 = hsize t" "contents t1 = (contents t)(k \<mapsto> d)"
      using insert_nodes [OF Cons.prems(1,2) ok_key [of k d], of d] ok Cons.prems(5) False by (auto simp: n)
    have rd: "rd (Some t) (enc k d @ x) = Inr (Some (Some t1, x))" for x
      using rd_inserts [OF _ False t1(1)] ok by simp
    have "\<forall>m\<in>set ns. \<not> skips (fst m) (snd m) \<longrightarrow> contents t1 (fst m) = None"
      using Cons.prems(4,5) t1(5) by (auto simp: n)
    then obtain t' where t': "r_times (length ns) rd (Some t1) (concat (map (\<lambda>n. enc (fst n) (snd n)) ns) @ r) = Inr (Some (Some t', r))"
      "table_ok t'" "counted t'" "hsize t' = hsize t1"
      "contents t' = contents t1 ++ map_of (filter (\<lambda>n. \<not> skips (fst n) (snd n)) ns)"
      using Cons.IH [OF t1(2,3)] Cons.prems(3,4) by auto
    have "map_of (filter (\<lambda>n. \<not> skips (fst n) (snd n)) ns) k = None"
      using Cons.prems(4) by (auto simp: n map_of_eq_None_iff)
    then have "contents t1 ++ map_of (filter (\<lambda>n. \<not> skips (fst n) (snd n)) ns) =
        contents t ++ map_of (filter (\<lambda>n. \<not> skips (fst n) (snd n)) (n # ns))"
      using False t1(5) by (auto simp: n map_add_def split: option.split)
    then show ?thesis using t' rd t1(4) by (auto simp: n r_bind_def)
  qed
qed (simp add: r_ok_def)

lemma table_read:
  assumes t: "storable t" and t0: "skipped t t0"
  shows "accepts (r_times (unat (nel t)) rd (Some t0)) (table_enc t) (Some t)"
proof -
  note T = t [unfolded storable_def] and T0 = t0 [unfolded skipped_def]
  let ?P = "\<lambda>n. skips (fst n) (snd n)"
  have d: "distinct (map fst (nodes t))" using T nodes_distinct by blast
  have none: "map_of (filter ?P (nodes t)) (fst n) = None" if n: "n \<in> set (nodes t)" "\<not> ?P n" for n
  proof -
    have "m = n" if "m \<in> set (nodes t)" "fst m = fst n" for m
      using that n(1) d by (metis distinct_map inj_on_eq_iff)
    then show ?thesis using n by (auto simp: map_of_eq_None_iff)
  qed
  have new: "\<forall>n\<in>set (nodes t). \<not> ?P n \<longrightarrow> contents t0 (fst n) = None" using none T0 by simp
  have all: "map_of (filter ?P ns) ++ map_of (filter (\<lambda>n. \<not> ?P n) ns) = map_of ns" if "distinct (map fst ns)" for ns :: "('k \<times> 'd) list"
    using that
  proof (induction ns)
    case (Cons m ns)
    then have "fst m \<notin> fst ` set ns" by simp
    then have m: "map_of (filter (\<lambda>n. \<not> ?P n) ns) (fst m) = None"
      by (auto simp: map_of_eq_None_iff)
    have IH: "map_of (filter ?P ns) ++ map_of (filter (\<lambda>n. \<not> ?P n) ns) = map_of ns" using Cons by simp
    have "(map_of (filter ?P (m # ns)) ++ map_of (filter (\<lambda>n. \<not> ?P n) (m # ns))) x = map_of (m # ns) x" for x
      using fun_cong [OF IH, of x] m by (cases m) (auto simp: map_add_def split: option.splits)
    then show ?case by blast
  qed simp
  have "Some t' = Some t" if "table_ok t'" "counted t'" "hsize t' = hsize t0"
    "contents t' = contents t0 ++ map_of (filter (\<lambda>n. \<not> ?P n) (nodes t))" for t'
  proof -
    have c: "contents t' = contents t"
      using that(4) T0 all [OF d] contents_nodes [of t] T by simp
    have "map_of (nodes t') = map_of (nodes t)" using c contents_nodes that(1) T by metis
    then have "set (nodes t') = set (nodes t)" using nodes_distinct that(1) T map_of_eq_Some_iff by (metis (no_types, lifting) subset_antisym subrelI)
    then have "length (nodes t') = length (nodes t)"
      using nodes_distinct [OF that(1)] d by (metis distinct_card distinct_map)
    then have "nel t' = nel t" using that(2) T by (simp add: counted_def nodes_def)
    then show ?thesis using table_unique [of t' t] c that T T0 by simp
  qed
  note same = this
  have l: "unat (nel t) = length (nodes t)" using T counted_nel by blast
  have ok: "\<forall>n\<in>set (nodes t). ok (fst n) (snd n)" using T by blast
  show ?thesis
    unfolding accepts_def table_enc_def l
  proof
    fix r
    obtain t' where "r_times (length (nodes t)) rd (Some t0) (concat (map (\<lambda>n. enc (fst n) (snd n)) (nodes t)) @ r) =
        Inr (Some (Some t', r))" "table_ok t'" "counted t'" "hsize t' = hsize t0"
        "contents t' = contents t0 ++ map_of (filter (\<lambda>n. \<not> ?P n) (nodes t))"
      using nodes_read [OF _ _ ok d new, of r] T0 by blast
    then show "r_times (length (nodes t)) rd (Some t0) (concat (map (\<lambda>n. enc (fst n) (snd n)) (nodes t)) @ r) =
        Inr (Some (Some t, r))" using same [of t'] by simp
  qed
qed

text \<open>Tables all of whose symbols are inserted are read into a new table of the same size.\<close>

lemma new_skipped:
  assumes "storable t" and "hsize t = n" and "\<forall>m\<in>set (nodes t). \<not> skips (fst m) (snd m)"
  shows "skipped t (empty_table hash cmp n)"
proof -
  have n: "0 < unat n" "unat n < 2147483648" using assms(1,2) by (auto simp: storable_def table_ok_def)
  have "filter (\<lambda>m. skips (fst m) (snd m)) (nodes t) = []" using assms(3) by (simp add: filter_empty_conv)
  then show ?thesis using empty_ok [OF refl n] assms(2) unfolding skipped_def by simp
qed

lemma table_read_new:
  assumes "storable t" and "hsize t = n" and "\<And>k d. \<not> skips k d"
  shows "accepts (r_times (unat (nel t)) rd (Some (empty_table hash cmp n))) (table_enc t) (Some t)"
  by (rule table_read [OF assms(1) new_skipped [OF assms(1,2)]]) (simp add: assms(3))

text \<open>The table of one node.\<close>

lemma single_storable:
  assumes "ok k d" and "0 < unat n" and "unat n < 2147483648"
  obtains t where "hashtab_insert (Some (empty_table hash cmp n)) k d = Inr (Some t, SEPOL_OK)" and "storable t"
    and "hsize t = n" and "contents t = [k \<mapsto> d]"
proof -
  note f = empty_ok [of "empty_table hash cmp n :: ('k, 'd) hashtab" n, OF refl assms(2,3)]
  obtain t where t: "hashtab_insert (Some (empty_table hash cmp n)) k d = Inr (Some t, SEPOL_OK)" "table_ok t" "counted t"
    "hsize t = hsize (empty_table hash cmp n :: ('k, 'd) hashtab)" "contents t = (contents (empty_table hash cmp n))(k \<mapsto> d)"
    using insert_nodes [OF f(1,2) ok_key [OF assms(1)], of d] f(3) by auto
  have s: "set (nodes t) = {(k, d)}" using node_contents [OF t(2)] t(5) f(3) by (auto split: if_splits)
  moreover have "distinct (nodes t)" using nodes_distinct [OF t(2)] distinct_map by blast
  ultimately have "length (nodes t) = 1" by (metis distinct_card card_1_singleton_iff One_nat_def)
  then have "storable t" using t(2,3) s assms(1) by (auto simp: storable_def short_def)
  then show thesis using that t(1,4,5) f(3) by simp
qed

lemma empty_storable:
  assumes "0 < unat n" and "unat n < 2147483648"
  shows "storable (empty_table hash cmp n)"
  using empty_ok [OF refl assms] by (simp add: storable_def short_def)

end

text \<open>
  The symbols: tables of C strings, whose functions of \<open>read_f\<close> fail when the symbol exists.
\<close>

abbreviation fresh :: "u32 \<Rightarrow> (bytes, 'd) hashtab" where
  "fresh n \<equiv> empty_table symhash symcmp n"

locale symbol_codec =
  fixes wr :: "bytes \<Rightarrow> 'd \<Rightarrow> writer"
    and rd :: "(bytes, 'd) hashtab option \<Rightarrow> (bytes, 'd) hashtab option reader"
    and enc :: "bytes \<Rightarrow> 'd \<Rightarrow> bytes"
    and ok :: "bytes \<Rightarrow> 'd \<Rightarrow> bool"
    and skips :: "bytes \<Rightarrow> 'd \<Rightarrow> bool"
  assumes symbol_emits: "ok k d \<Longrightarrow> emits (wr k d) (enc k d)"
    and symbol_insert: "ok k d \<Longrightarrow> rd h (enc k d @ r) = (if skips k d then Inr (Some (h, r)) else r_insert h k d r)"
    and symbol_key: "ok k d \<Longrightarrow> sym_ok k"

sublocale symbol_codec \<subseteq> table_codec symcmp sym_ok symhash wr rd enc ok skips
proof
  fix k d h h' r
  assume ok: "ok k d"
  show "emits (wr k d) (enc k d)" by (rule symbol_emits [OF ok])
  show "sym_ok k" by (rule symbol_key [OF ok])
  show "skips k d \<Longrightarrow> rd h (enc k d @ r) = Inr (Some (h, r))" using symbol_insert [OF ok] by simp
  show "\<not> skips k d \<Longrightarrow> hashtab_insert h k d = Inr (h', SEPOL_OK) \<Longrightarrow> rd h (enc k d @ r) = Inr (Some (h', r))"
    using symbol_insert [OF ok] by (simp add: r_insert_def SEPOL_OK_def)
qed

end
