(* ===== verification/Sepol_Symbol_File.thy ===== *)
theory Sepol_Symbol_File
  imports Sepol_File_Base
begin

text \<open>
  The symbols of a policy file: permissions, commons, classes with their constraints, roles,
  types, users, booleans, sensitivities and categories, as write.c writes them and policydb.c
  (conditional.c for the booleans) reads them, in kernel policies and in modules.
\<close>

section \<open>Data\<close>

text \<open>The kind and the version of the policy, on which the format depends.\<close>

record pf_version =
  pv_type :: u32
  pv_vers :: u32

definition POLICY_BASE :: u32 where "POLICY_BASE = 1"
definition POLICY_MOD :: u32 where "POLICY_MOD = 2"

definition kern :: "pf_version \<Rightarrow> bool" where "kern v \<longleftrightarrow> pv_type v = POLICY_KERN"

text \<open>The conditions that compare a version of each of the two kinds.\<close>

definition kern_from :: "pf_version \<Rightarrow> u32 \<Rightarrow> bool" where "kern_from v n \<longleftrightarrow> kern v \<and> n \<le> pv_vers v"
definition base_from :: "pf_version \<Rightarrow> u32 \<Rightarrow> bool" where "base_from v n \<longleftrightarrow> pv_type v = POLICY_BASE \<and> n \<le> pv_vers v"
definition mod_from :: "pf_version \<Rightarrow> u32 \<Rightarrow> bool" where "mod_from v n \<longleftrightarrow> \<not> kern v \<and> n \<le> pv_vers v"

definition policydb_has_boundary_feature :: "pf_version \<Rightarrow> bool" where
  "policydb_has_boundary_feature v \<longleftrightarrow> kern_from v 24 \<or> mod_from v 9"

record pf_type_set = type_set + ts_flags :: u32

record role_set =
  rs_roles :: ebitmap
  rs_flags :: u32

record mls_level =
  lev_sens :: u32
  lev_cat :: ebitmap

record mls_range =
  range_low :: mls_level
  range_high :: mls_level

text \<open>The list of the categories of a semantic level, ranges from a first to a last one.\<close>

record mls_semantic_level =
  sem_sens :: u32
  sem_cats :: "(u32 \<times> u32) list"

record mls_semantic_range =
  sem_low :: mls_semantic_level
  sem_high :: mls_semantic_level

record constraint_expr =
  cx_type :: u32
  cx_attr :: u32
  cx_op :: u32
  cx_names :: ebitmap
  cx_type_names :: pf_type_set

record constraint_node =
  cn_permissions :: u32
  cn_expr :: "constraint_expr list"

record pf_common =
  com_value :: u32
  com_permissions :: "perm_datum symtab"

record pf_class =
  cl_value :: u32
  cl_comkey :: "bytes option"
  cl_comdatum :: "pf_common option"
  cl_permissions :: "perm_datum symtab"
  cl_constraints :: "constraint_node list"
  cl_validatetrans :: "constraint_node list"
  cl_default_user :: u8
  cl_default_role :: u8
  cl_default_type :: u8
  cl_default_range :: u8

record role_datum =
  ro_value :: u32
  ro_dominates :: ebitmap
  ro_types :: pf_type_set
  ro_bounds :: u32
  ro_flavor :: u32
  ro_roles :: ebitmap

record user_datum =
  us_value :: u32
  us_roles :: role_set
  us_range :: mls_semantic_range
  us_dfltlevel :: mls_semantic_level
  us_exp_range :: mls_range
  us_exp_dfltlevel :: mls_level
  us_bounds :: u32

record cond_bool_datum =
  bo_value :: u32
  bo_state :: int
  bo_flags :: u32

record level_datum =
  ld_level :: "mls_level option"
  ld_isalias :: u8
  ld_defined :: u8

record cat_datum =
  ca_value :: u32
  ca_isalias :: u8

text \<open>What \<open>calloc\<close> and the \<open>init\<close> functions leave.\<close>

definition type_set_init :: pf_type_set where
  "type_set_init = \<lparr>ts_types = ebitmap_init, ts_negset = ebitmap_init, ts_flags = 0\<rparr>"

definition mls_level_init :: mls_level where
  "mls_level_init = \<lparr>lev_sens = 0, lev_cat = ebitmap_init\<rparr>"

definition mls_range_init :: mls_range where
  "mls_range_init = \<lparr>range_low = mls_level_init, range_high = mls_level_init\<rparr>"

definition mls_semantic_level_init :: mls_semantic_level where
  "mls_semantic_level_init = \<lparr>sem_sens = 0, sem_cats = []\<rparr>"

definition mls_semantic_range_init :: mls_semantic_range where
  "mls_semantic_range_init = \<lparr>sem_low = mls_semantic_level_init, sem_high = mls_semantic_level_init\<rparr>"

section \<open>Sets and levels\<close>

definition role_set_write :: "role_set \<Rightarrow> writer" where
  "role_set_write x = w_all [w_ebitmap (rs_roles x), w_words [rs_flags x]]"

definition role_set_read :: "role_set reader" where
  "role_set_read =
     r_bind r_ebitmap (\<lambda>r. r_bind (r_words 1) (\<lambda>buf. r_ok \<lparr>rs_roles = r, rs_flags = buf ! 0\<rparr>))"

definition type_set_write :: "pf_type_set \<Rightarrow> writer" where
  "type_set_write x = w_all [w_ebitmap (ts_types x), w_ebitmap (ts_negset x), w_words [ts_flags x]]"

definition type_set_read :: "pf_type_set reader" where
  "type_set_read =
     r_bind r_ebitmap (\<lambda>t. r_bind r_ebitmap (\<lambda>n. r_bind (r_words 1) (\<lambda>buf.
       r_ok \<lparr>ts_types = t, ts_negset = n, ts_flags = buf ! 0\<rparr>)))"

definition mls_write_level :: "mls_level \<Rightarrow> writer" where
  "mls_write_level l = w_all [w_words [lev_sens l], w_ebitmap (lev_cat l)]"

definition mls_read_level :: "mls_level reader" where
  "mls_read_level =
     r_bind (r_words 1) (\<lambda>buf. r_bind r_ebitmap (\<lambda>c. r_ok \<lparr>lev_sens = buf ! 0, lev_cat = c\<rparr>))"

definition mls_level_eq :: "mls_level \<Rightarrow> mls_level \<Rightarrow> bool" where
  "mls_level_eq l1 l2 \<longleftrightarrow> lev_sens l1 = lev_sens l2 \<and> ebitmap_cmp (lev_cat l1) (lev_cat l2)"

definition mls_write_range_helper :: "mls_range \<Rightarrow> writer" where
  "mls_write_range_helper r =
     (let eq = mls_level_eq (range_high r) (range_low r);
          sens = lev_sens (range_low r) # (if eq then [] else [lev_sens (range_high r)])
      in w_all [w_words (len32 sens # sens), w_ebitmap (lev_cat (range_low r)), w_when (\<not> eq) (w_ebitmap (lev_cat (range_high r)))])"

text \<open>\<open>items\<close> may be 0; then \<open>buf[0]\<close> still holds it.\<close>

definition mls_read_range_helper :: "mls_range reader" where
  "mls_read_range_helper =
     r_bind (r_words 1) (\<lambda>b. let items = unat (b ! 0) in
       r_check (items \<le> 2) (r_bind (r_words items) (\<lambda>c.
         let buf = c @ drop items b;
             lo = buf ! 0; hi = (if 1 < items then buf ! 1 else lo)
         in r_bind r_ebitmap (\<lambda>lcat.
              r_bind (if 1 < items then r_ebitmap else r_ok (fst (ebitmap_cpy lcat))) (\<lambda>hcat.
                r_ok \<lparr>range_low = \<lparr>lev_sens = lo, lev_cat = lcat\<rparr>, range_high = \<lparr>lev_sens = hi, lev_cat = hcat\<rparr>\<rparr>)))))"

definition mls_write_semantic_level_helper :: "mls_semantic_level \<Rightarrow> writer" where
  "mls_write_semantic_level_helper l =
     w_seq (w_words [sem_sens l, len32 (sem_cats l)]) (w_all (map (\<lambda>c. w_words [fst c, snd c]) (sem_cats l)))"

text \<open>Each category read is put in front of the list.\<close>

primrec read_sem_cats :: "nat \<Rightarrow> (u32 \<times> u32) list \<Rightarrow> (u32 \<times> u32) list reader" where
  "read_sem_cats 0 cats = r_ok cats"
| "read_sem_cats (Suc n) cats = r_bind (r_words 2) (\<lambda>buf. read_sem_cats n ((buf ! 0, buf ! 1) # cats))"

definition mls_read_semantic_level_helper :: "mls_semantic_level reader" where
  "mls_read_semantic_level_helper =
     r_bind (r_words 2) (\<lambda>buf. r_bind (read_sem_cats (unat (buf ! 1)) []) (\<lambda>cats.
       r_ok \<lparr>sem_sens = buf ! 0, sem_cats = cats\<rparr>))"

definition mls_write_semantic_range_helper :: "mls_semantic_range \<Rightarrow> writer" where
  "mls_write_semantic_range_helper r =
     w_seq (mls_write_semantic_level_helper (sem_low r)) (mls_write_semantic_level_helper (sem_high r))"

definition mls_read_semantic_range_helper :: "mls_semantic_range reader" where
  "mls_read_semantic_range_helper =
     r_bind mls_read_semantic_level_helper (\<lambda>l. r_bind mls_read_semantic_level_helper (\<lambda>h.
       r_ok \<lparr>sem_low = l, sem_high = h\<rparr>))"

text \<open>
  The bits that \<open>ebitmap_for_each_bit\<close> visits in a bitmap whose \<open>highbit\<close> is the end of its
  last node, with their values: those of the nodes, one node after the other.
\<close>

definition visited_bits :: "ebitmap \<Rightarrow> (nat \<times> bool) list" where
  "visited_bits e = concat (map (\<lambda>n. map (\<lambda>j. (node_lo n + j, map_bit (mapw n) j)) [0..<MAPSIZE]) (enodes e))"

definition sem_cat_step :: "nat \<times> bool \<Rightarrow> (u32 \<times> u32) list \<times> bool \<Rightarrow> (u32 \<times> u32) list \<times> bool" where
  "sem_cat_step b s =
     (case (b, s) of ((i, v), (cats, open_cat)) \<Rightarrow>
        if v then (if open_cat then (cats, open_cat) else ((word_of_nat (i + 1), 0) # cats, True))
        else if \<not> open_cat then (cats, open_cat)
        else ((fst (hd cats), word_of_nat i) # tl cats, False))"

definition mls_level_to_semantic :: "mls_level \<Rightarrow> mls_semantic_level" where
  "mls_level_to_semantic l =
     (case fold sem_cat_step (visited_bits (lev_cat l)) ([], False) of (cats, open_cat) \<Rightarrow>
        \<lparr>sem_sens = lev_sens l,
         sem_cats = (if open_cat then (fst (hd cats), highbit (lev_cat l)) # tl cats else cats)\<rparr>)"

definition mls_range_to_semantic :: "mls_range \<Rightarrow> mls_semantic_range" where
  "mls_range_to_semantic r =
     \<lparr>sem_low = mls_level_to_semantic (range_low r), sem_high = mls_level_to_semantic (range_high r)\<rparr>"

section \<open>Permissions and commons\<close>

type_synonym 'd tab = "(bytes, 'd) hashtab option"

definition perm_write :: "bytes \<Rightarrow> perm_datum \<Rightarrow> writer" where
  "perm_write key d = w_all [w_words [len32 key, perm_value d], w_put key]"

definition perm_read :: "perm_datum tab \<Rightarrow> perm_datum tab reader" where
  "perm_read h = r_bind (r_words 2) (\<lambda>buf. r_bind (str_read (unat (buf ! 0))) (\<lambda>key.
     r_insert h key \<lparr>perm_value = buf ! 1\<rparr>))"

definition common_write :: "bytes \<Rightarrow> pf_common \<Rightarrow> writer" where
  "common_write key d =
     (case table (com_permissions d) of None \<Rightarrow> w_crash
      | Some t \<Rightarrow>
          w_all [w_words [len32 key, com_value d, nprim (com_permissions d), nel t], w_put key,
            w_table perm_write (table (com_permissions d))])"

definition PERM_SYMTAB_SIZE :: u32 where "PERM_SYMTAB_SIZE = 32"

definition common_read :: "pf_common tab \<Rightarrow> pf_common tab reader" where
  "common_read h = r_bind (r_words 4) (\<lambda>buf. let len = unat (buf ! 0) in
     r_check (\<not> zero_or_saturated 64 len) (r_bind (r_symtab PERM_SYMTAB_SIZE) (\<lambda>s.
       r_bind (r_key len) (\<lambda>key. r_bind (r_times (unat (buf ! 3)) perm_read (table s)) (\<lambda>t.
         r_insert h key \<lparr>com_value = buf ! 1, com_permissions = s\<lparr>table := t, nprim := buf ! 2\<rparr>\<rparr>)))))"

section \<open>Constraints\<close>

definition CEXPR_MAXDEPTH :: int where "CEXPR_MAXDEPTH = 5"
definition CEXPR_NOT :: u32 where "CEXPR_NOT = 1"
definition CEXPR_AND :: u32 where "CEXPR_AND = 2"
definition CEXPR_OR :: u32 where "CEXPR_OR = 3"
definition CEXPR_ATTR :: u32 where "CEXPR_ATTR = 4"
definition CEXPR_NAMES :: u32 where "CEXPR_NAMES = 5"
definition CEXPR_XTARGET :: u32 where "CEXPR_XTARGET = 16"

definition with_type_names :: "pf_version \<Rightarrow> bool" where
  "with_type_names v \<longleftrightarrow> \<not> kern v \<or> kern_from v 29"

definition write_cons_expr :: "pf_version \<Rightarrow> bool \<Rightarrow> constraint_expr \<Rightarrow> writer" where
  "write_cons_expr v allowxtarget e =
     w_seq (w_words [cx_type e, cx_attr e, cx_op e])
       (if cx_type e = CEXPR_NAMES then
          if \<not> allowxtarget \<and> cx_attr e AND CEXPR_XTARGET \<noteq> 0 then w_fail
          else w_seq (w_ebitmap (cx_names e)) (w_when (with_type_names v) (type_set_write (cx_type_names e)))
        else w_skip)"

definition write_cons_helper :: "pf_version \<Rightarrow> constraint_node list \<Rightarrow> bool \<Rightarrow> writer" where
  "write_cons_helper v node allowxtarget =
     w_all (map (\<lambda>c. w_seq (w_words [cn_permissions c, len32 (cn_expr c)])
       (w_all (map (write_cons_expr v allowxtarget) (cn_expr c)))) node)"

text \<open>The depth of the operand stack after an expression, if it is acceptable there.\<close>

definition expr_depth :: "bool \<Rightarrow> u32 \<Rightarrow> u32 \<Rightarrow> int \<Rightarrow> int option" where
  "expr_depth allowxtarget ty attr depth =
     (if ty = CEXPR_NOT then (if depth < 0 then None else Some depth)
      else if ty = CEXPR_AND \<or> ty = CEXPR_OR then (if depth < 1 then None else Some (depth - 1))
      else if ty = CEXPR_ATTR then (if depth = CEXPR_MAXDEPTH - 1 then None else Some (depth + 1))
      else if ty = CEXPR_NAMES then
        if \<not> allowxtarget \<and> attr AND CEXPR_XTARGET \<noteq> 0 then None
        else if depth = CEXPR_MAXDEPTH - 1 then None else Some (depth + 1)
      else None)"

primrec read_exprs :: "pf_version \<Rightarrow> bool \<Rightarrow> nat \<Rightarrow> int \<Rightarrow> constraint_expr list reader" where
  "read_exprs v allowxtarget 0 depth = r_check (depth = 0) (r_ok [])"
| "read_exprs v allowxtarget (Suc n) depth = r_bind (r_words 3) (\<lambda>buf.
     case expr_depth allowxtarget (buf ! 0) (buf ! 1) depth of
       None \<Rightarrow> r_fail
     | Some depth \<Rightarrow>
         r_bind (if buf ! 0 = CEXPR_NAMES then r_ebitmap else r_ok ebitmap_init) (\<lambda>names.
         r_bind (if buf ! 0 = CEXPR_NAMES \<and> with_type_names v then type_set_read else r_ok type_set_init) (\<lambda>tn.
         r_bind (read_exprs v allowxtarget n depth) (\<lambda>es.
           r_ok (\<lparr>cx_type = buf ! 0, cx_attr = buf ! 1, cx_op = buf ! 2, cx_names = names, cx_type_names = tn\<rparr> # es)))))"

definition read_cons_helper :: "pf_version \<Rightarrow> nat \<Rightarrow> bool \<Rightarrow> constraint_node list reader" where
  "read_cons_helper v ncons allowxtarget =
     r_list ncons (r_bind (r_words 2) (\<lambda>buf. r_bind (read_exprs v allowxtarget (unat (buf ! 1)) (- 1)) (\<lambda>es.
       r_ok \<lparr>cn_permissions = buf ! 0, cn_expr = es\<rparr>)))"

section \<open>Classes\<close>

definition DEFAULT_GLBLUB :: u8 where "DEFAULT_GLBLUB = 7"

definition glblub_version :: "pf_version \<Rightarrow> bool" where
  "glblub_version v \<longleftrightarrow> kern_from v 32 \<or> base_from v 20"

definition has_validatetrans :: "pf_version \<Rightarrow> bool" where
  "has_validatetrans v \<longleftrightarrow> kern_from v 19 \<or> base_from v 5"

definition has_defaults :: "pf_version \<Rightarrow> bool" where
  "has_defaults v \<longleftrightarrow> kern_from v 27 \<or> base_from v 15"

definition has_default_type :: "pf_version \<Rightarrow> bool" where
  "has_default_type v \<longleftrightarrow> kern_from v 28 \<or> base_from v 16"

text \<open>The assignment to the class in memory that \<open>class_write\<close> makes before it writes the defaults.\<close>

definition drop_glblub :: "pf_version \<Rightarrow> pf_class \<Rightarrow> pf_class" where
  "drop_glblub v d = (if has_defaults v \<and> \<not> glblub_version v \<and> cl_default_range d = DEFAULT_GLBLUB then d\<lparr>cl_default_range := 0\<rparr> else d)"

definition class_write :: "pf_version \<Rightarrow> bytes \<Rightarrow> pf_class \<Rightarrow> writer" where
  "class_write v key d =
     (let comkey = (case cl_comkey d of None \<Rightarrow> [] | Some k \<Rightarrow> k);
          nperm = (case table (cl_permissions d) of None \<Rightarrow> 0 | Some t \<Rightarrow> nel t);
          w = drop_glblub v d
      in w_all
        [w_words [len32 key, len32 comkey, cl_value d, nprim (cl_permissions d), nperm, len32 (cl_constraints d)],
         w_put key, w_put comkey, w_table perm_write (table (cl_permissions d)),
         write_cons_helper v (cl_constraints d) False,
         w_when (has_validatetrans v)
           (w_seq (w_words [len32 (cl_validatetrans d)]) (write_cons_helper v (cl_validatetrans d) True)),
         w_when (has_defaults v) (w_words [ucast (cl_default_user w), ucast (cl_default_role w), ucast (cl_default_range w)]),
         w_when (has_default_type v) (w_words [ucast (cl_default_type w)])])"

text \<open>The common a class inherits from: its name, and its entry in the table of commons.\<close>

definition read_comkey :: "pf_common tab \<Rightarrow> nat \<Rightarrow> (bytes option \<times> pf_common option) reader" where
  "read_comkey commons len2 =
     (if len2 = 0 then r_ok (None, None)
      else r_bind (r_key len2) (\<lambda>comkey fp.
        case hashtab_search commons comkey of
          Inl e \<Rightarrow> Inl e
        | Inr None \<Rightarrow> Inr None
        | Inr (Some c) \<Rightarrow> Inr (Some ((Some comkey, Some c), fp))))"

definition r_when :: "bool \<Rightarrow> 'a reader \<Rightarrow> 'a \<Rightarrow> 'a reader" where
  "r_when c m x = (if c then m else r_ok x)"

definition class_read :: "pf_version \<Rightarrow> pf_common tab \<Rightarrow> pf_class tab \<Rightarrow> pf_class tab reader" where
  "class_read v commons h = r_bind (r_words 6) (\<lambda>buf. let len = unat (buf ! 0); len2 = unat (buf ! 1) in
     r_check (\<not> zero_or_saturated 64 len) (r_check (\<not> is_saturated 64 len2) (
     r_bind (r_symtab PERM_SYMTAB_SIZE) (\<lambda>s.
     r_bind (r_key len) (\<lambda>key.
     r_bind (read_comkey commons len2) (\<lambda>(comkey, comdatum).
     r_bind (r_times (unat (buf ! 4)) perm_read (table s)) (\<lambda>t.
     r_bind (read_cons_helper v (unat (buf ! 5)) False) (\<lambda>cons.
     r_bind (r_when (has_validatetrans v)
       (r_bind (r_words 1) (\<lambda>b. read_cons_helper v (unat (b ! 0)) True)) []) (\<lambda>vt.
     r_bind (r_when (has_defaults v) (r_words 3) [0, 0, 0]) (\<lambda>df.
     r_bind (r_when (has_default_type v) (r_words 1) [0]) (\<lambda>dt.
       r_insert h key
         \<lparr>cl_value = buf ! 2, cl_comkey = comkey, cl_comdatum = comdatum,
          cl_permissions = s\<lparr>table := t, nprim := buf ! 3\<rparr>, cl_constraints = cons, cl_validatetrans = vt,
          cl_default_user = ucast (df ! 0), cl_default_role = ucast (df ! 1),
          cl_default_type = ucast (dt ! 0), cl_default_range = ucast (df ! 2)\<rparr>)))))))))))"

section \<open>Roles\<close>

definition ROLE_ATTRIB :: u32 where "ROLE_ATTRIB = 1"
definition OBJECT_R :: bytes where "OBJECT_R = [111, 98, 106, 101, 99, 116, 95, 114]"
definition OBJECT_R_VAL :: u32 where "OBJECT_R_VAL = 1"

definition role_init :: role_datum where
  "role_init = \<lparr>ro_value = 0, ro_dominates = ebitmap_init, ro_types = type_set_init, ro_bounds = 0, ro_flavor = 0,
     ro_roles = ebitmap_init\<rparr>"

definition without_role_attrs :: "pf_version \<Rightarrow> bool" where
  "without_role_attrs v \<longleftrightarrow> kern v \<or> \<not> kern v \<and> pv_vers v < 13"

definition role_write :: "pf_version \<Rightarrow> bytes \<Rightarrow> role_datum \<Rightarrow> writer" where
  "role_write v key d =
     (if ro_flavor d = ROLE_ATTRIB \<and> without_role_attrs v then w_skip
      else w_all
        [w_words ([len32 key, ro_value d] @ (if policydb_has_boundary_feature v then [ro_bounds d] else [])),
         w_put key, w_ebitmap (ro_dominates d),
         (if kern v then w_ebitmap (if ro_value d = OBJECT_R_VAL then ebitmap_init else ts_types (ro_types d))
          else type_set_write (ro_types d)),
         w_when (mod_from v 13) (w_seq (w_words [ro_flavor d]) (w_ebitmap (ro_roles d)))])"

definition role_read :: "pf_version \<Rightarrow> role_datum tab \<Rightarrow> role_datum tab reader" where
  "role_read v h = r_bind (r_words (if policydb_has_boundary_feature v then 3 else 2)) (\<lambda>buf. let len = unat (buf ! 0) in
     r_check (\<not> zero_or_saturated 64 len) (
     r_bind (r_key len) (\<lambda>key.
     r_bind r_ebitmap (\<lambda>dom.
     r_bind (if kern v then r_bind r_ebitmap (\<lambda>t. r_ok (type_set_init\<lparr>ts_types := t\<rparr>)) else type_set_read) (\<lambda>types.
     r_bind (r_when (mod_from v 13) (r_bind (r_words 1) (\<lambda>b. r_bind r_ebitmap (\<lambda>r. r_ok (b ! 0, r)))) (0, ebitmap_init)) (\<lambda>(fl, roles).
       if strcmp key OBJECT_R = 0 then r_check (buf ! 1 = OBJECT_R_VAL) (r_ok h)
       else r_insert h key
         \<lparr>ro_value = buf ! 1, ro_dominates = dom, ro_types = types,
          ro_bounds = (if policydb_has_boundary_feature v then buf ! 2 else 0), ro_flavor = fl, ro_roles = roles\<rparr>))))))"

end
