(* ===== verification/Sepol_Symtab_File.thy ===== *)
theory Sepol_Symtab_File
  imports Sepol_Symbol_File
begin

text \<open>
  The rest of the symbols of a policy file - types, users, booleans, sensitivities and
  categories -, the table of the formats (policydb.c), and the section of the file that
  holds the symbol tables, as \<open>policydb_write\<close> writes it and \<open>policydb_read\<close> reads it.
\<close>

section \<open>Formats\<close>

text \<open>\<open>policydb_compat\<close>: kind, version, number of symbol tables, number of lists of contexts, platform.\<close>

type_synonym compat_info = "u32 \<times> u32 \<times> nat \<times> nat \<times> int"

definition SEPOL_TARGET_XEN :: int where "SEPOL_TARGET_XEN = 1"

definition compat_kern :: "compat_info list" where
  "compat_kern =
     [(POLICY_KERN, 24, 8, 5, SEPOL_TARGET_XEN), (POLICY_KERN, 30, 8, 6, SEPOL_TARGET_XEN),
      (POLICY_KERN, 15, 5, 6, SEPOL_TARGET_SELINUX), (POLICY_KERN, 16, 6, 6, SEPOL_TARGET_SELINUX),
      (POLICY_KERN, 17, 6, 7, SEPOL_TARGET_SELINUX), (POLICY_KERN, 18, 6, 7, SEPOL_TARGET_SELINUX),
      (POLICY_KERN, 19, 8, 7, SEPOL_TARGET_SELINUX), (POLICY_KERN, 20, 8, 7, SEPOL_TARGET_SELINUX),
      (POLICY_KERN, 21, 8, 7, SEPOL_TARGET_SELINUX), (POLICY_KERN, 22, 8, 7, SEPOL_TARGET_SELINUX),
      (POLICY_KERN, 23, 8, 7, SEPOL_TARGET_SELINUX), (POLICY_KERN, 24, 8, 7, SEPOL_TARGET_SELINUX),
      (POLICY_KERN, 25, 8, 7, SEPOL_TARGET_SELINUX), (POLICY_KERN, 26, 8, 7, SEPOL_TARGET_SELINUX),
      (POLICY_KERN, 27, 8, 7, SEPOL_TARGET_SELINUX), (POLICY_KERN, 28, 8, 7, SEPOL_TARGET_SELINUX),
      (POLICY_KERN, 29, 8, 7, SEPOL_TARGET_SELINUX), (POLICY_KERN, 30, 8, 7, SEPOL_TARGET_SELINUX),
      (POLICY_KERN, 31, 8, 9, SEPOL_TARGET_SELINUX), (POLICY_KERN, 32, 8, 9, SEPOL_TARGET_SELINUX)]"

definition compat_base :: "compat_info list" where
  "compat_base =
     [(POLICY_BASE, 4, 8, 7, SEPOL_TARGET_SELINUX), (POLICY_BASE, 5, 8, 7, SEPOL_TARGET_SELINUX),
      (POLICY_BASE, 6, 8, 7, SEPOL_TARGET_SELINUX), (POLICY_BASE, 7, 8, 7, SEPOL_TARGET_SELINUX),
      (POLICY_BASE, 8, 8, 7, SEPOL_TARGET_SELINUX), (POLICY_BASE, 9, 8, 7, SEPOL_TARGET_SELINUX),
      (POLICY_BASE, 10, 8, 7, SEPOL_TARGET_SELINUX), (POLICY_BASE, 11, 8, 7, SEPOL_TARGET_SELINUX),
      (POLICY_BASE, 12, 8, 7, SEPOL_TARGET_SELINUX), (POLICY_BASE, 13, 8, 7, SEPOL_TARGET_SELINUX),
      (POLICY_BASE, 14, 8, 7, SEPOL_TARGET_SELINUX), (POLICY_BASE, 15, 8, 7, SEPOL_TARGET_SELINUX),
      (POLICY_BASE, 16, 8, 7, SEPOL_TARGET_SELINUX), (POLICY_BASE, 17, 8, 7, SEPOL_TARGET_SELINUX),
      (POLICY_BASE, 18, 8, 7, SEPOL_TARGET_SELINUX), (POLICY_BASE, 19, 8, 9, SEPOL_TARGET_SELINUX),
      (POLICY_BASE, 20, 8, 9, SEPOL_TARGET_SELINUX)]"

definition compat_mod :: "compat_info list" where
  "compat_mod =
     [(POLICY_MOD, 4, 8, 0, SEPOL_TARGET_SELINUX), (POLICY_MOD, 5, 8, 0, SEPOL_TARGET_SELINUX),
      (POLICY_MOD, 6, 8, 0, SEPOL_TARGET_SELINUX), (POLICY_MOD, 7, 8, 0, SEPOL_TARGET_SELINUX),
      (POLICY_MOD, 8, 8, 0, SEPOL_TARGET_SELINUX), (POLICY_MOD, 9, 8, 0, SEPOL_TARGET_SELINUX),
      (POLICY_MOD, 10, 8, 0, SEPOL_TARGET_SELINUX), (POLICY_MOD, 11, 8, 0, SEPOL_TARGET_SELINUX),
      (POLICY_MOD, 12, 8, 0, SEPOL_TARGET_SELINUX), (POLICY_MOD, 13, 8, 0, SEPOL_TARGET_SELINUX),
      (POLICY_MOD, 14, 8, 0, SEPOL_TARGET_SELINUX), (POLICY_MOD, 15, 8, 0, SEPOL_TARGET_SELINUX),
      (POLICY_MOD, 16, 8, 0, SEPOL_TARGET_SELINUX), (POLICY_MOD, 17, 8, 0, SEPOL_TARGET_SELINUX),
      (POLICY_MOD, 18, 8, 0, SEPOL_TARGET_SELINUX), (POLICY_MOD, 19, 8, 0, SEPOL_TARGET_SELINUX),
      (POLICY_MOD, 20, 8, 0, SEPOL_TARGET_SELINUX)]"

definition policydb_lookup_compat :: "u32 \<Rightarrow> u32 \<Rightarrow> int \<Rightarrow> compat_info option" where
  "policydb_lookup_compat version ty target =
     find (\<lambda>(t, v, _, _, p). v = version \<and> t = ty \<and> p = target) (compat_kern @ compat_base @ compat_mod)"

section \<open>Types\<close>

definition TYPE_ALIAS :: u32 where "TYPE_ALIAS = 2"
definition TYPE_FLAGS_PERMISSIVE :: u32 where "TYPE_FLAGS_PERMISSIVE = 1"
definition TYPEDATUM_PROPERTY_PRIMARY :: u32 where "TYPEDATUM_PROPERTY_PRIMARY = 0x0001"
definition TYPEDATUM_PROPERTY_ATTRIBUTE :: u32 where "TYPEDATUM_PROPERTY_ATTRIBUTE = 0x0002"
definition TYPEDATUM_PROPERTY_ALIAS :: u32 where "TYPEDATUM_PROPERTY_ALIAS = 0x0004"
definition TYPEDATUM_PROPERTY_PERMISSIVE :: u32 where "TYPEDATUM_PROPERTY_PERMISSIVE = 0x0008"

definition type_properties :: "pf_version \<Rightarrow> type_datum \<Rightarrow> u32" where
  "type_properties v d =
     (if primary d \<noteq> 0 then TYPEDATUM_PROPERTY_PRIMARY else 0) OR
     (if flavor d = TYPE_ATTRIB then TYPEDATUM_PROPERTY_ATTRIBUTE
      else if flavor d = TYPE_ALIAS \<and> \<not> kern v then TYPEDATUM_PROPERTY_ALIAS else 0) OR
     (if type_flags d AND TYPE_FLAGS_PERMISSIVE \<noteq> 0 \<and> \<not> kern v then TYPEDATUM_PROPERTY_PERMISSIVE else 0)"

definition without_type_attrs :: "pf_version \<Rightarrow> bool" where
  "without_type_attrs v \<longleftrightarrow> kern v \<and> pv_vers v < 24"

definition type_write :: "pf_version \<Rightarrow> bytes \<Rightarrow> type_datum \<Rightarrow> writer" where
  "type_write v key d =
     (if without_type_attrs v \<and> flavor d = TYPE_ATTRIB then w_skip
      else w_all
        [w_words ([len32 key, type_value d] @
           (if policydb_has_boundary_feature v then
              (if mod_from v 10 then [primary d] else []) @ [type_properties v d, type_bounds d]
            else [primary d] @ (if kern v then [] else flavor d # (if 8 \<le> pv_vers v then [type_flags d] else [])))),
         w_when (\<not> kern v) (w_ebitmap (type_types d)), w_put key])"

definition type_words :: "pf_version \<Rightarrow> nat" where
  "type_words v =
     (if policydb_has_boundary_feature v then (if mod_from v 10 then 5 else 4)
      else if kern v then 3 else if 8 \<le> pv_vers v then 5 else 4)"

text \<open>The datum from the words in front; \<open>types\<close> is read later.\<close>

definition type_of_words :: "pf_version \<Rightarrow> u32 list \<Rightarrow> type_datum" where
  "type_of_words v buf =
     (if policydb_has_boundary_feature v then
        let (prim, props, bounds) =
              (if mod_from v 10 then (buf ! 2, buf ! 3, buf ! 4)
               else (if buf ! 2 AND TYPEDATUM_PROPERTY_PRIMARY \<noteq> 0 then 1 else 0, buf ! 2, buf ! 3));
            fl = (if props AND TYPEDATUM_PROPERTY_ATTRIBUTE \<noteq> 0 then TYPE_ATTRIB else 0);
            fl = (if props AND TYPEDATUM_PROPERTY_ALIAS \<noteq> 0 \<and> \<not> kern v then TYPE_ALIAS else fl)
        in \<lparr>type_value = buf ! 1, primary = prim, flavor = fl, type_types = ebitmap_init,
            type_flags = (if props AND TYPEDATUM_PROPERTY_PERMISSIVE \<noteq> 0 \<and> \<not> kern v then TYPE_FLAGS_PERMISSIVE else 0),
            type_bounds = bounds\<rparr>
      else
        \<lparr>type_value = buf ! 1, primary = buf ! 2, flavor = (if kern v then 0 else buf ! 3), type_types = ebitmap_init,
         type_flags = (if \<not> kern v \<and> 8 \<le> pv_vers v then buf ! 4 else 0), type_bounds = 0\<rparr>)"

definition type_read :: "pf_version \<Rightarrow> type_datum tab \<Rightarrow> type_datum tab reader" where
  "type_read v h = r_bind (r_words (type_words v)) (\<lambda>buf. let len = unat (buf ! 0) in
     r_check (\<not> zero_or_saturated 64 len) (
     r_bind (r_when (\<not> kern v) r_ebitmap ebitmap_init) (\<lambda>types.
     r_bind (r_key len) (\<lambda>key.
       r_insert h key ((type_of_words v buf)\<lparr>type_types := types\<rparr>)))))"

section \<open>Users\<close>

text \<open>Whether the expanded range of a user is in the file, or its semantic range.\<close>

definition user_exp_range :: "pf_version \<Rightarrow> bool" where
  "user_exp_range v \<longleftrightarrow> kern_from v 19 \<or> (pv_type v = POLICY_MOD \<or> pv_type v = POLICY_BASE) \<and> 5 \<le> pv_vers v \<and> pv_vers v < 6"

definition user_sem_range :: "pf_version \<Rightarrow> bool" where
  "user_sem_range v \<longleftrightarrow> (pv_type v = POLICY_MOD \<or> pv_type v = POLICY_BASE) \<and> 6 \<le> pv_vers v"

definition user_write :: "pf_version \<Rightarrow> bytes \<Rightarrow> user_datum \<Rightarrow> writer" where
  "user_write v key d = w_all
     [w_words ([len32 key, us_value d] @ (if policydb_has_boundary_feature v then [us_bounds d] else [])),
      w_put key,
      (if kern v then w_ebitmap (rs_roles (us_roles d)) else role_set_write (us_roles d)),
      (if user_exp_range v then w_seq (mls_write_range_helper (us_exp_range d)) (mls_write_level (us_exp_dfltlevel d))
       else if user_sem_range v then
         w_seq (mls_write_semantic_range_helper (us_range d)) (mls_write_semantic_level_helper (us_dfltlevel d))
       else w_skip)]"

definition user_init :: user_datum where
  "user_init = \<lparr>us_value = 0, us_roles = \<lparr>rs_roles = ebitmap_init, rs_flags = 0\<rparr>, us_range = mls_semantic_range_init,
     us_dfltlevel = mls_semantic_level_init, us_exp_range = mls_range_init, us_exp_dfltlevel = mls_level_init, us_bounds = 0\<rparr>"

definition user_read_mls :: "pf_version \<Rightarrow> user_datum \<Rightarrow> user_datum reader" where
  "user_read_mls v d =
     (if user_exp_range v then
        r_bind mls_read_range_helper (\<lambda>r. r_bind mls_read_level (\<lambda>l.
          let d = d\<lparr>us_exp_range := r, us_exp_dfltlevel := l\<rparr> in
          r_ok (if kern v then d else d\<lparr>us_range := mls_range_to_semantic r, us_dfltlevel := mls_level_to_semantic l\<rparr>)))
      else if user_sem_range v then
        r_bind mls_read_semantic_range_helper (\<lambda>r. r_bind mls_read_semantic_level_helper (\<lambda>l.
          r_ok (d\<lparr>us_range := r, us_dfltlevel := l\<rparr>)))
      else r_ok d)"

definition user_read :: "pf_version \<Rightarrow> user_datum tab \<Rightarrow> user_datum tab reader" where
  "user_read v h = r_bind (r_words (if policydb_has_boundary_feature v then 3 else 2)) (\<lambda>buf. let len = unat (buf ! 0) in
     r_check (\<not> zero_or_saturated 64 len) (
     r_bind (r_key len) (\<lambda>key.
     r_bind (if kern v then r_bind r_ebitmap (\<lambda>r. r_ok \<lparr>rs_roles = r, rs_flags = 0\<rparr>) else role_set_read) (\<lambda>roles.
     r_bind (user_read_mls v (user_init\<lparr>us_value := buf ! 1,
         us_bounds := (if policydb_has_boundary_feature v then buf ! 2 else 0), us_roles := roles\<rparr>)) (\<lambda>d.
       r_insert h key d)))))"

section \<open>Booleans, sensitivities, categories\<close>

definition cond_write_bool :: "pf_version \<Rightarrow> bytes \<Rightarrow> cond_bool_datum \<Rightarrow> writer" where
  "cond_write_bool v key d = w_all
     [w_words [bo_value d, word_of_int (bo_state d), len32 key], w_put key, w_when (mod_from v 14) (w_words [bo_flags d])]"

definition bool_isvalid :: "cond_bool_datum \<Rightarrow> bool" where
  "bool_isvalid b \<longleftrightarrow> bo_state b = 0 \<or> bo_state b = 1"

definition cond_read_bool :: "pf_version \<Rightarrow> cond_bool_datum tab \<Rightarrow> cond_bool_datum tab reader" where
  "cond_read_bool v h = r_bind (r_words 3) (\<lambda>buf.
     let b = \<lparr>bo_value = buf ! 0, bo_state = sint (buf ! 1), bo_flags = 0\<rparr> in
     r_check (bool_isvalid b) (
     r_bind (str_read (unat (buf ! 2))) (\<lambda>key.
     r_bind (r_when (mod_from v 14) (r_words 1) [0]) (\<lambda>fl.
       r_insert h key (b\<lparr>bo_flags := fl ! 0\<rparr>)))))"

definition sens_write :: "bytes \<Rightarrow> level_datum \<Rightarrow> writer" where
  "sens_write key d = w_all
     [w_words [len32 key, ucast (ld_isalias d)], w_put key,
      (case ld_level d of None \<Rightarrow> w_crash | Some l \<Rightarrow> mls_write_level l)]"

definition sens_read :: "level_datum tab \<Rightarrow> level_datum tab reader" where
  "sens_read h = r_bind (r_words 2) (\<lambda>buf. let len = unat (buf ! 0) in
     r_check (\<not> zero_or_saturated 32 len) (
     r_bind (r_key len) (\<lambda>key. r_bind mls_read_level (\<lambda>l.
       r_insert h key \<lparr>ld_level = Some l, ld_isalias = ucast (buf ! 1), ld_defined = 0\<rparr>))))"

definition cat_write :: "bytes \<Rightarrow> cat_datum \<Rightarrow> writer" where
  "cat_write key d = w_all [w_words [len32 key, ca_value d, ucast (ca_isalias d)], w_put key]"

definition cat_read :: "cat_datum tab \<Rightarrow> cat_datum tab reader" where
  "cat_read h = r_bind (r_words 3) (\<lambda>buf. let len = unat (buf ! 0) in
     r_check (\<not> zero_or_saturated 32 len) (
     r_bind (r_key len) (\<lambda>key.
       r_insert h key \<lparr>ca_value = buf ! 1, ca_isalias = ucast (buf ! 2)\<rparr>)))"

section \<open>The symbol tables\<close>

definition SYM_NUM :: nat where "SYM_NUM = 8"

text \<open>The array \<open>symtab\<close> of the policy.\<close>

record pf_symtabs =
  pf_commons :: "pf_common symtab"
  pf_classes :: "pf_class symtab"
  pf_roles :: "role_datum symtab"
  pf_types :: "type_datum symtab"
  pf_users :: "user_datum symtab"
  pf_bools :: "cond_bool_datum symtab"
  pf_levels :: "level_datum symtab"
  pf_cats :: "cat_datum symtab"

definition type_attr_uncount :: "bytes \<Rightarrow> type_datum \<Rightarrow> u32 \<Rightarrow> u32 \<times> int" where
  "type_attr_uncount key d n = (if flavor d = TYPE_ATTRIB then n - 1 else n, 0)"

definition role_attr_uncount :: "bytes \<Rightarrow> role_datum \<Rightarrow> u32 \<Rightarrow> u32 \<times> int" where
  "role_attr_uncount key d n = (if ro_flavor d = ROLE_ATTRIB then n - 1 else n, 0)"

text \<open>One turn of the loop of \<open>policydb_write\<close>; \<open>uncount\<close> is the correction of the number of entries.\<close>

definition write_symtab :: "('d tab \<Rightarrow> u32 \<Rightarrow> u32) \<Rightarrow> (bytes \<Rightarrow> 'd \<Rightarrow> writer) \<Rightarrow> 'd symtab \<Rightarrow> writer" where
  "write_symtab uncount f s =
     (case table s of None \<Rightarrow> w_crash
      | Some t \<Rightarrow> w_seq (w_words [nprim s, uncount (table s) (nel t)]) (w_table f (table s)))"

definition write_symtabs :: "pf_version \<Rightarrow> nat \<Rightarrow> pf_symtabs \<Rightarrow> writer" where
  "write_symtabs v sym_num s = w_all (take sym_num
     [write_symtab (\<lambda>_ n. n) common_write (pf_commons s),
      write_symtab (\<lambda>_ n. n) (class_write v) (pf_classes s),
      write_symtab (\<lambda>t n. if without_role_attrs v then fst (hashtab_map t role_attr_uncount n) else n) (role_write v) (pf_roles s),
      write_symtab (\<lambda>t n. if without_type_attrs v then fst (hashtab_map t type_attr_uncount n) else n) (type_write v) (pf_types s),
      write_symtab (\<lambda>_ n. n) (user_write v) (pf_users s),
      write_symtab (\<lambda>_ n. n) (cond_write_bool v) (pf_bools s),
      write_symtab (\<lambda>_ n. n) sens_write (pf_levels s),
      write_symtab (\<lambda>_ n. n) cat_write (pf_cats s)])"

definition read_symtab :: "('d tab \<Rightarrow> 'd tab reader) \<Rightarrow> 'd symtab \<Rightarrow> 'd symtab reader" where
  "read_symtab f s = r_bind (r_words 2) (\<lambda>buf.
     r_check (buf ! 1 = 0 \<or> buf ! 0 \<noteq> 0) (r_bind (r_times (unat (buf ! 1)) f (table s)) (\<lambda>t.
       r_ok (s\<lparr>table := t, nprim := buf ! 0\<rparr>))))"

definition read_symtabs :: "pf_version \<Rightarrow> nat \<Rightarrow> pf_symtabs \<Rightarrow> pf_symtabs reader" where
  "read_symtabs v sym_num s =
     r_bind (r_when (0 < sym_num) (read_symtab common_read (pf_commons s)) (pf_commons s)) (\<lambda>commons.
     r_bind (r_when (1 < sym_num) (read_symtab (class_read v (table commons)) (pf_classes s)) (pf_classes s)) (\<lambda>classes.
     r_bind (r_when (2 < sym_num) (read_symtab (role_read v) (pf_roles s)) (pf_roles s)) (\<lambda>roles.
     r_bind (r_when (3 < sym_num) (read_symtab (type_read v) (pf_types s)) (pf_types s)) (\<lambda>types.
     r_bind (r_when (4 < sym_num) (read_symtab (user_read v) (pf_users s)) (pf_users s)) (\<lambda>users.
     r_bind (r_when (5 < sym_num) (read_symtab (cond_read_bool v) (pf_bools s)) (pf_bools s)) (\<lambda>bools.
     r_bind (r_when (6 < sym_num) (read_symtab sens_read (pf_levels s)) (pf_levels s)) (\<lambda>levels.
     r_bind (r_when (7 < sym_num) (read_symtab cat_read (pf_cats s)) (pf_cats s)) (\<lambda>cats.
       r_ok \<lparr>pf_commons = commons, pf_classes = classes, pf_roles = roles, pf_types = types, pf_users = users,
             pf_bools = bools, pf_levels = levels, pf_cats = cats\<rparr>))))))))"

text \<open>
  The tables \<open>policydb_init\<close> makes: empty ones, with the role \<open>object_r\<close>. The declaration
  of the role in the table of scopes is left out.
\<close>

definition new_symtab :: "u32 \<Rightarrow> 'd symtab" where
  "new_symtab n = fst (symtab_init \<lparr>table = None, nprim = 0\<rparr> n)"

definition roles_init :: "role_datum symtab \<Rightarrow> (role_datum symtab \<times> int) res" where
  "roles_init s =
     (let val = nprim s + 1 in
      res_bind (hashtab_insert (table s) OBJECT_R (role_init\<lparr>ro_value := val\<rparr>)) (\<lambda>(t, rc).
        let s = s\<lparr>table := t\<rparr> in
        if rc \<noteq> 0 then Inr (s, rc)
        else Inr (s\<lparr>nprim := val\<rparr>, if val \<noteq> OBJECT_R_VAL then - EINVAL else 0)))"

definition init_symtabs :: "pf_symtabs option res" where
  "init_symtabs = res_bind (roles_init (new_symtab 16)) (\<lambda>(roles, rc).
     Inr (if rc \<noteq> 0 then None else Some
       \<lparr>pf_commons = new_symtab 2, pf_classes = new_symtab 32, pf_roles = roles, pf_types = new_symtab 512,
        pf_users = new_symtab 128, pf_bools = new_symtab 16, pf_levels = new_symtab 16, pf_cats = new_symtab 16\<rparr>))"

end
