(* ===== verification/Sepol_Index.thy ===== *)
theory Sepol_Index
  imports Sepol_Symtab_File
begin

text \<open>
  The arrays of a policy that lead from the value of a symbol to its name and datum, which
  are built after the policy is read and after an edit (policydb.c, conditional.c), and the
  sets of types of roles and of roles of users, expanded for the checks of contexts
  (expand.c).
\<close>

section \<open>Arrays\<close>

text \<open>
  The arrays \<open>val_to_name\<close> and \<open>val_to_struct\<close> of a kind of symbol, which are set together:
  at the value less one, the name and the datum; \<open>None\<close> stands for null.
\<close>

type_synonym 'd val_index = "(bytes \<times> 'd) option list"

definition calloc_index :: "'d symtab \<Rightarrow> 'd val_index" where
  "calloc_index s = replicate (unat (nprim s)) None"

text \<open>What the functions of \<open>index_f\<close> do with one symbol, once its value is known.\<close>

definition index_value :: "u32 \<Rightarrow> u32 \<Rightarrow> bytes \<Rightarrow> 'd \<Rightarrow> 'd val_index \<Rightarrow> 'd val_index \<times> int" where
  "index_value n v key d a =
     (if v = 0 \<or> v > n then (a, - EINVAL)
      else if a ! (unat v - 1) \<noteq> None then (a, - EINVAL)
      else (a[unat v - 1 := Some (key, d)], 0))"

definition common_index :: "u32 \<Rightarrow> bytes \<Rightarrow> pf_common \<Rightarrow> pf_common val_index \<Rightarrow> pf_common val_index \<times> int" where
  "common_index n key d = index_value n (com_value d) key d"

definition class_index :: "u32 \<Rightarrow> bytes \<Rightarrow> pf_class \<Rightarrow> pf_class val_index \<Rightarrow> pf_class val_index \<times> int" where
  "class_index n key d = index_value n (cl_value d) key d"

definition role_index :: "u32 \<Rightarrow> bytes \<Rightarrow> role_datum \<Rightarrow> role_datum val_index \<Rightarrow> role_datum val_index \<times> int" where
  "role_index n key d = index_value n (ro_value d) key d"

definition type_index :: "u32 \<Rightarrow> bytes \<Rightarrow> type_datum \<Rightarrow> type_datum val_index \<Rightarrow> type_datum val_index \<times> int" where
  "type_index n key d a = (if primary d \<noteq> 0 then index_value n (type_value d) key d a else (a, 0))"

definition user_index :: "u32 \<Rightarrow> bytes \<Rightarrow> user_datum \<Rightarrow> user_datum val_index \<Rightarrow> user_datum val_index \<times> int" where
  "user_index n key d = index_value n (us_value d) key d"

definition cond_index_bool :: "u32 \<Rightarrow> bytes \<Rightarrow> cond_bool_datum \<Rightarrow> cond_bool_datum val_index \<Rightarrow> cond_bool_datum val_index \<times> int" where
  "cond_index_bool n key d = index_value n (bo_value d) key d"

text \<open>A sensitivity that is no alias and has no level reads a null pointer.\<close>

definition sens_index :: "u32 \<Rightarrow> bytes \<Rightarrow> level_datum \<Rightarrow> level_datum val_index res \<Rightarrow> level_datum val_index res \<times> int" where
  "sens_index n key d r =
     (case r of Inl e \<Rightarrow> (r, - EINVAL)
      | Inr a \<Rightarrow>
          if ld_isalias d \<noteq> 0 then (Inr a, 0)
          else case ld_level d of None \<Rightarrow> (Inl Null_Deref, - EINVAL)
            | Some l \<Rightarrow> (case index_value n (lev_sens l) key d a of (a, rc) \<Rightarrow> (Inr a, rc)))"

definition cat_index :: "u32 \<Rightarrow> bytes \<Rightarrow> cat_datum \<Rightarrow> cat_datum val_index \<Rightarrow> cat_datum val_index \<times> int" where
  "cat_index n key d a = (if ca_isalias d = 0 then index_value n (ca_value d) key d a else (a, 0))"

record pf_index =
  ix_commons :: "pf_common val_index"
  ix_classes :: "pf_class val_index"
  ix_roles :: "role_datum val_index"
  ix_types :: "type_datum val_index"
  ix_users :: "user_datum val_index"
  ix_bools :: "cond_bool_datum val_index"
  ix_levels :: "level_datum val_index"
  ix_cats :: "cat_datum val_index"
  role_cache :: "bytes \<Rightarrow> ebitmap option"
  user_cache :: "bytes \<Rightarrow> ebitmap option"

definition no_index :: pf_index where
  "no_index = \<lparr>ix_commons = [], ix_classes = [], ix_roles = [], ix_types = [], ix_users = [], ix_bools = [],
     ix_levels = [], ix_cats = [], role_cache = Map.empty, user_cache = Map.empty\<rparr>"

text \<open>One call of \<open>hashtab_map\<close> with a function of \<open>index_f\<close>, on new arrays.\<close>

definition build_index :: "(u32 \<Rightarrow> bytes \<Rightarrow> 'd \<Rightarrow> 'd val_index \<Rightarrow> 'd val_index \<times> int) \<Rightarrow> 'd symtab \<Rightarrow> 'd val_index \<times> int" where
  "build_index f s = hashtab_map (table s) (f (nprim s)) (calloc_index s)"

definition policydb_index_classes :: "pf_symtabs \<Rightarrow> pf_index \<Rightarrow> pf_index \<times> int" where
  "policydb_index_classes s ix =
     (case build_index common_index (pf_commons s) of (a, rc) \<Rightarrow>
        let ix = ix\<lparr>ix_commons := a\<rparr> in
        if rc \<noteq> 0 then (ix, - 1)
        else case build_index class_index (pf_classes s) of (a, rc) \<Rightarrow>
          let ix = ix\<lparr>ix_classes := a\<rparr> in (ix, if rc \<noteq> 0 then - 1 else 0))"

section \<open>Sets of types and roles\<close>

definition positive_bits :: "ebitmap \<Rightarrow> nat list" where
  "positive_bits e = map fst (filter snd (visited_bits e))"

definition TYPE_FLAGS_EXPAND_ATTR_TRUE :: u32 where "TYPE_FLAGS_EXPAND_ATTR_TRUE = 2"
definition TYPE_STAR :: u32 where "TYPE_STAR = 1"
definition TYPE_COMP :: u32 where "TYPE_COMP = 2"
definition ROLE_STAR :: u32 where "ROLE_STAR = 1"
definition ROLE_COMP :: u32 where "ROLE_COMP = 2"

text \<open>A loop whose body may fail (\<open>Inr None\<close>) or crash.\<close>

primrec set_loop :: "(nat \<Rightarrow> ebitmap \<Rightarrow> ebitmap option res) \<Rightarrow> nat list \<Rightarrow> ebitmap \<Rightarrow> ebitmap option res" where
  "set_loop f [] e = Inr (Some e)"
| "set_loop f (i # is) e = (case f i e of Inl x \<Rightarrow> Inl x | Inr None \<Rightarrow> Inr None | Inr (Some e) \<Rightarrow> set_loop f is e)"

definition checked :: "ebitmap \<times> int \<Rightarrow> ebitmap option res" where
  "checked r = Inr (if snd r \<noteq> 0 then None else Some (fst r))"

definition put_bit :: "bool \<Rightarrow> nat \<Rightarrow> ebitmap \<Rightarrow> ebitmap option res" where
  "put_bit v i e = checked (ebitmap_set_bit e (word_of_nat i) v)"

definition is_attrib :: "type_datum val_index \<Rightarrow> nat \<Rightarrow> bool" where
  "is_attrib types i = (case types ! i of None \<Rightarrow> False | Some (_, d) \<Rightarrow> flavor d = TYPE_ATTRIB)"

definition expand_positive :: "u32 \<Rightarrow> type_datum val_index \<Rightarrow> bool \<Rightarrow> nat \<Rightarrow> ebitmap \<Rightarrow> ebitmap option res" where
  "expand_positive n types expand i e =
     (if i \<ge> unat n then Inr None
      else case types ! i of None \<Rightarrow> Inr None
        | Some (_, d) \<Rightarrow>
            if flavor d = TYPE_ATTRIB \<and> (expand \<or> type_flags d AND TYPE_FLAGS_EXPAND_ATTR_TRUE \<noteq> 0)
            then checked (ebitmap_union e (type_types d)) else put_bit True i e)"

text \<open>The excluded types are not compared with the number of types: the array may be read behind its end.\<close>

definition expand_negative :: "type_datum val_index \<Rightarrow> nat \<Rightarrow> ebitmap \<Rightarrow> ebitmap option res" where
  "expand_negative types i e =
     (if i \<ge> length types then Inl Oob_Read
      else case types ! i of None \<Rightarrow> put_bit True i e
        | Some (_, d) \<Rightarrow> if flavor d = TYPE_ATTRIB then checked (ebitmap_union e (type_types d)) else put_bit True i e)"

text \<open>The assertion of the last loop is compiled in.\<close>

definition complement_type :: "type_datum val_index \<Rightarrow> nat \<Rightarrow> ebitmap \<Rightarrow> ebitmap option res" where
  "complement_type types i e =
     (if is_attrib types i then (if eget e i then Inl Assert_Failed else Inr (Some e)) else put_bit (\<not> eget e i) i e)"

definition res_opt_bind :: "'a option res \<Rightarrow> ('a \<Rightarrow> 'b option res) \<Rightarrow> 'b option res" where
  "res_opt_bind m f = (case m of Inl e \<Rightarrow> Inl e | Inr None \<Rightarrow> Inr None | Inr (Some x) \<Rightarrow> f x)"

definition type_set_expand :: "pf_type_set \<Rightarrow> u32 \<Rightarrow> type_datum val_index \<Rightarrow> bool \<Rightarrow> ebitmap option res" where
  "type_set_expand st n types alwaysexpand =
     (let expand = (alwaysexpand \<or> ebitmap_length (ts_negset st) \<noteq> 0 \<or> ts_flags st \<noteq> 0) in
      res_opt_bind (set_loop (expand_positive n types expand) (positive_bits (ts_types st)) ebitmap_init) (\<lambda>pos.
      res_opt_bind (set_loop (expand_negative types) (positive_bits (ts_negset st)) ebitmap_init) (\<lambda>neg.
      if ts_flags st AND TYPE_STAR \<noteq> 0 then
        set_loop (\<lambda>i t. if eget neg i \<or> is_attrib types i then Inr (Some t) else put_bit True i t) [0..<unat n] ebitmap_init
      else
        res_opt_bind (set_loop (\<lambda>i t. if eget neg i then Inr (Some t) else put_bit True i t) (positive_bits pos) ebitmap_init) (\<lambda>t.
        if ts_flags st AND TYPE_COMP \<noteq> 0 then set_loop (complement_type types) [0..<unat n] t else Inr (Some t)))))"

text \<open>The loop that complements a set of roles reads the length of the set at each turn.\<close>

function flip_roles :: "nat \<Rightarrow> ebitmap \<Rightarrow> ebitmap option res" where
  "flip_roles i e =
     (if i < ebitmap_length e \<and> i < 4294967296 then
        (case put_bit (\<not> eget e i) i e of
           Inl x \<Rightarrow> Inl x | Inr None \<Rightarrow> Inr None | Inr (Some e) \<Rightarrow> flip_roles (Suc i) e)
      else Inr (Some e))"
  by pat_completeness auto
termination by (relation "measure (\<lambda>(i, e). 4294967296 - i)") auto

text \<open>\<open>role_set_expand\<close> without a map of roles, as it is called for the caches.\<close>

definition role_set_expand :: "role_set \<Rightarrow> u32 \<Rightarrow> ebitmap option res" where
  "role_set_expand x n =
     (if rs_flags x AND ROLE_STAR \<noteq> 0 then set_loop (put_bit True) [0..<unat n] ebitmap_init
      else
        res_opt_bind (set_loop (put_bit True) (positive_bits (fst (ebitmap_cpy (rs_roles x)))) ebitmap_init) (\<lambda>r.
        if rs_flags x AND ROLE_COMP \<noteq> 0 then flip_roles 0 r else Inr (Some r)))"

text \<open>A cache is a field of the datum; here it is a map from the names.\<close>

type_synonym caches = "(bytes \<Rightarrow> ebitmap option) res"

definition put_cache :: "ebitmap option res \<Rightarrow> bytes \<Rightarrow> caches \<Rightarrow> caches \<times> int" where
  "put_cache r key c =
     (case c of Inl e \<Rightarrow> (c, - 1)
      | Inr m \<Rightarrow> (case r of Inl e \<Rightarrow> (Inl e, - 1) | Inr None \<Rightarrow> (Inr (m(key := None)), - 1) | Inr (Some e) \<Rightarrow> (Inr (m(key \<mapsto> e)), 0)))"

definition policydb_role_cache :: "u32 \<Rightarrow> type_datum val_index \<Rightarrow> bytes \<Rightarrow> role_datum \<Rightarrow> caches \<Rightarrow> caches \<times> int" where
  "policydb_role_cache n types key d c = put_cache (type_set_expand (ro_types d) n types True) key c"

definition policydb_user_cache :: "u32 \<Rightarrow> bytes \<Rightarrow> user_datum \<Rightarrow> caches \<Rightarrow> caches \<times> int" where
  "policydb_user_cache n key d c = put_cache (role_set_expand (us_roles d) n) key c"

section \<open>All arrays\<close>

text \<open>The loop over the kinds of symbols stops at the first that fails; a kind without values is passed over.\<close>

definition index_kind :: "(u32 \<Rightarrow> bytes \<Rightarrow> 'd \<Rightarrow> 'd val_index \<Rightarrow> 'd val_index \<times> int) \<Rightarrow> 'd symtab \<Rightarrow> 'd val_index option res" where
  "index_kind f s =
     (if nprim s = 0 then Inr (Some [])
      else case build_index f s of (a, rc) \<Rightarrow> Inr (if rc \<noteq> 0 then None else Some a))"

definition index_sens :: "level_datum symtab \<Rightarrow> level_datum val_index option res" where
  "index_sens s =
     (if nprim s = 0 then Inr (Some [])
      else case hashtab_map (table s) (sens_index (nprim s)) (Inr (calloc_index s)) of
          (Inl e, _) \<Rightarrow> Inl e | (Inr a, rc) \<Rightarrow> Inr (if rc \<noteq> 0 then None else Some a))"

definition run_caches :: "('d symtab) \<Rightarrow> (bytes \<Rightarrow> 'd \<Rightarrow> caches \<Rightarrow> caches \<times> int) \<Rightarrow> (bytes \<Rightarrow> ebitmap option) option res" where
  "run_caches s f =
     (case hashtab_map (table s) f (Inr Map.empty) of
        (Inl e, _) \<Rightarrow> Inl e | (Inr m, rc) \<Rightarrow> Inr (if rc \<noteq> 0 then None else Some m))"

definition index_arrays :: "pf_symtabs \<Rightarrow> pf_index \<Rightarrow> pf_index option res" where
  "index_arrays s ix =
     res_opt_bind (index_kind role_index (pf_roles s)) (\<lambda>roles.
     res_opt_bind (index_kind type_index (pf_types s)) (\<lambda>types.
     res_opt_bind (index_kind user_index (pf_users s)) (\<lambda>users.
     res_opt_bind (index_kind cond_index_bool (pf_bools s)) (\<lambda>bools.
     res_opt_bind (index_sens (pf_levels s)) (\<lambda>levels.
     res_opt_bind (index_kind cat_index (pf_cats s)) (\<lambda>cats.
     res_opt_bind (run_caches (pf_roles s) (policydb_role_cache (nprim (pf_types s)) types)) (\<lambda>rc.
       Inr (Some (ix\<lparr>ix_roles := roles, ix_types := types, ix_users := users, ix_bools := bools, ix_levels := levels,
         ix_cats := cats, role_cache := rc\<rparr>)))))))))"

text \<open>
  \<open>policydb_index_others\<close> of a kernel policy or a module that is no base, which does not
  expand the levels of its users. The arrays of a failed call are not kept.
\<close>

definition policydb_index_others :: "pf_symtabs \<Rightarrow> pf_index \<Rightarrow> pf_index option res" where
  "policydb_index_others s ix =
     res_opt_bind (index_arrays s ix) (\<lambda>ix.
     res_opt_bind (run_caches (pf_users s) (policydb_user_cache (nprim (pf_roles s)))) (\<lambda>uc.
       Inr (Some (ix\<lparr>user_cache := uc\<rparr>))))"

end
