(* ===== verification/Sepol_Transitions.thy ===== *)
theory Sepol_Transitions
  imports Sepol_Symbol_File
begin

text \<open>
  The transition rules of a policy file (policydb.c, write.c): the lists of role transitions
  and role allow rules, and the hash tables of filename transitions and of range transitions,
  whose keys are structures with their own hash and comparison functions.
\<close>

section \<open>Role rules\<close>

definition SECCLASS_PROCESS :: u32 where "SECCLASS_PROCESS = 2"

record role_trans =
  rt_role :: u32
  rt_type :: u32
  rt_tclass :: u32
  rt_new_role :: u32

record role_allow =
  ra_role :: u32
  ra_new_role :: u32

definition new_roletr :: "pf_version \<Rightarrow> bool" where "new_roletr v \<longleftrightarrow> kern_from v 26"

text \<open>Formats without a class hold the transitions of processes only.\<close>

definition role_trans_write :: "pf_version \<Rightarrow> role_trans list \<Rightarrow> writer" where
  "role_trans_write v r =
     w_seq (w_words [len32 (filter (\<lambda>tr. new_roletr v \<or> rt_tclass tr = SECCLASS_PROCESS) r)])
       (w_all (map (\<lambda>tr.
          if \<not> new_roletr v \<and> rt_tclass tr \<noteq> SECCLASS_PROCESS then w_skip
          else w_seq (w_words [rt_role tr, rt_type tr, rt_new_role tr]) (w_when (new_roletr v) (w_words [rt_tclass tr]))) r))"

definition role_trans_read :: "pf_version \<Rightarrow> role_trans list reader" where
  "role_trans_read v = r_bind (r_words 1) (\<lambda>nel. r_list (unat (nel ! 0))
     (r_bind (r_words 3) (\<lambda>buf. r_bind (r_when (new_roletr v) (r_words 1) [SECCLASS_PROCESS]) (\<lambda>c.
        r_ok \<lparr>rt_role = buf ! 0, rt_type = buf ! 1, rt_tclass = c ! 0, rt_new_role = buf ! 2\<rparr>))))"

definition role_allow_write :: "role_allow list \<Rightarrow> writer" where
  "role_allow_write r =
     w_seq (w_words [len32 r]) (w_all (map (\<lambda>ra. w_words [ra_role ra, ra_new_role ra]) r))"

definition role_allow_read :: "role_allow list reader" where
  "role_allow_read = r_bind (r_words 1) (\<lambda>nel. r_list (unat (nel ! 0))
     (r_bind (r_words 2) (\<lambda>buf. r_ok \<lparr>ra_role = buf ! 0, ra_new_role = buf ! 1\<rparr>)))"

section \<open>Filename transitions\<close>

record filename_trans =
  ft_stype :: u32
  ft_ttype :: u32
  ft_tclass :: u32
  ft_name :: bytes

type_synonym filename_trans_datum = u32
type_synonym filename_table = "(filename_trans, filename_trans_datum) hashtab option"

text \<open>The hash is an \<open>unsigned long\<close>, of 64 bits.\<close>

definition partial_name_hash :: "u64 \<Rightarrow> u64 \<Rightarrow> u64" where
  "partial_name_hash c prevhash = (prevhash + push_bit 4 c + drop_bit 4 c) * 11"

definition filenametr_hash :: "u32 \<Rightarrow> filename_trans \<Rightarrow> u32" where
  "filenametr_hash hsz ft =
     ucast (fold (\<lambda>focus hash. partial_name_hash (ucast focus) hash) (ft_name ft)
       (ucast (ft_stype ft XOR ft_ttype ft XOR ft_tclass ft)) AND ucast (hsz - 1))"

text \<open>The difference of two unsigned numbers, converted to an \<open>int\<close>.\<close>

definition diff32 :: "u32 \<Rightarrow> u32 \<Rightarrow> int" where "diff32 a b = to_int32 (uint (a - b))"

definition filenametr_cmp :: "filename_trans \<Rightarrow> filename_trans \<Rightarrow> int" where
  "filenametr_cmp ft1 ft2 =
     (if diff32 (ft_stype ft1) (ft_stype ft2) \<noteq> 0 then diff32 (ft_stype ft1) (ft_stype ft2)
      else if diff32 (ft_ttype ft1) (ft_ttype ft2) \<noteq> 0 then diff32 (ft_ttype ft1) (ft_ttype ft2)
      else if diff32 (ft_tclass ft1) (ft_tclass ft2) \<noteq> 0 then diff32 (ft_tclass ft1) (ft_tclass ft2)
      else strcmp (ft_name ft1) (ft_name ft2))"

definition filename_write_helper :: "filename_trans \<Rightarrow> filename_trans_datum \<Rightarrow> writer" where
  "filename_write_helper ft otype = w_all
     [w_words [len32 (ft_name ft)], w_put (ft_name ft), w_words [ft_stype ft, ft_ttype ft, ft_tclass ft, otype]]"

definition filename_trans_write :: "pf_version \<Rightarrow> filename_table \<Rightarrow> writer" where
  "filename_trans_write v h =
     (if pv_vers v < 25 then w_skip
      else case h of None \<Rightarrow> w_crash
        | Some t \<Rightarrow> w_seq (w_words [nel t]) (w_table filename_write_helper h))"

text \<open>
  A duplicate is meant to be dropped with a warning; but the warning names the types by
  arrays of the policy that are built only after it is read, and are null here.
\<close>

definition filename_trans_read1 :: "filename_table \<Rightarrow> filename_table reader" where
  "filename_trans_read1 h = r_bind (r_words 1) (\<lambda>b. let len = unat (b ! 0) in
     r_check (\<not> zero_or_saturated 32 len) (r_bind (r_key len) (\<lambda>name. r_bind (r_words 4) (\<lambda>buf fp.
       case hashtab_insert h \<lparr>ft_stype = buf ! 0, ft_ttype = buf ! 1, ft_tclass = buf ! 2, ft_name = name\<rparr> (buf ! 3) of
         Inl e \<Rightarrow> Inl e
       | Inr (h, rc) \<Rightarrow>
           if rc = 0 then Inr (Some (h, fp)) else if rc \<noteq> SEPOL_EEXIST then Inr None else Inl Null_Deref))))"

definition filename_trans_read :: "filename_table \<Rightarrow> filename_table reader" where
  "filename_trans_read h = r_bind (r_words 1) (\<lambda>nel. r_times (unat (nel ! 0)) filename_trans_read1 h)"

section \<open>Range transitions\<close>

record range_trans =
  source_type :: u32
  target_type :: u32
  target_class :: u32

type_synonym range_table = "(range_trans, mls_range) hashtab option"

definition rangetr_hash :: "u32 \<Rightarrow> range_trans \<Rightarrow> u32" where
  "rangetr_hash hsz key =
     (source_type key + push_bit 3 (target_type key) + push_bit 5 (target_class key)) AND (hsz - 1)"

definition rangetr_cmp :: "range_trans \<Rightarrow> range_trans \<Rightarrow> int" where
  "rangetr_cmp key1 key2 =
     (if diff32 (source_type key1) (source_type key2) \<noteq> 0 then diff32 (source_type key1) (source_type key2)
      else if diff32 (target_type key1) (target_type key2) \<noteq> 0 then diff32 (target_type key1) (target_type key2)
      else diff32 (target_class key1) (target_class key2))"

definition new_rangetr :: "pf_version \<Rightarrow> bool" where "new_rangetr v \<longleftrightarrow> kern_from v 21"

definition rangetrans_count :: "pf_version \<Rightarrow> range_trans \<Rightarrow> mls_range \<Rightarrow> u32 \<Rightarrow> u32 \<times> int" where
  "rangetrans_count v rt r n = (if new_rangetr v \<or> target_class rt = SECCLASS_PROCESS then n + 1 else n, 0)"

definition range_write_helper :: "pf_version \<Rightarrow> range_trans \<Rightarrow> mls_range \<Rightarrow> writer" where
  "range_write_helper v rt r =
     (if \<not> new_rangetr v \<and> target_class rt \<noteq> SECCLASS_PROCESS then w_skip
      else w_all [w_words [source_type rt, target_type rt], w_when (new_rangetr v) (w_words [target_class rt]),
        mls_write_range_helper r])"

definition range_write :: "pf_version \<Rightarrow> range_table \<Rightarrow> writer" where
  "range_write v h =
     w_seq (w_words [fst (hashtab_map h (rangetrans_count v) 0)]) (w_table (range_write_helper v) h)"

text \<open>The key and the range of one transition in the file.\<close>

definition range_entry :: "pf_version \<Rightarrow> (range_trans \<times> mls_range) reader" where
  "range_entry v = r_bind (r_words 2) (\<lambda>buf. r_bind (r_when (new_rangetr v) (r_words 1) [SECCLASS_PROCESS]) (\<lambda>c.
     r_bind mls_read_range_helper (\<lambda>r.
       r_ok (\<lparr>source_type = buf ! 0, target_type = buf ! 1, target_class = c ! 0\<rparr>, r))))"

definition range_read1 :: "pf_version \<Rightarrow> range_table \<Rightarrow> range_table reader" where
  "range_read1 v h = r_bind (range_entry v) (\<lambda>(rt, r). r_insert h rt r)"

text \<open>A transition rule of a module, into which the transitions of old base modules are turned.\<close>

record range_trans_rule =
  rtr_stypes :: pf_type_set
  rtr_ttypes :: pf_type_set
  rtr_tclasses :: ebitmap
  rtr_trange :: mls_semantic_range

definition range_trans_rule_init :: range_trans_rule where
  "range_trans_rule_init = \<lparr>rtr_stypes = type_set_init, rtr_ttypes = type_set_init, rtr_tclasses = ebitmap_init,
     rtr_trange = mls_semantic_range_init\<rparr>"

definition rule_of_range :: "range_trans \<Rightarrow> mls_range \<Rightarrow> range_trans_rule option" where
  "rule_of_range rt r =
     (case ebitmap_set_bit ebitmap_init (source_type rt - 1) True of (s, rc) \<Rightarrow> if rc \<noteq> 0 then None else
      case ebitmap_set_bit ebitmap_init (target_type rt - 1) True of (t, rc) \<Rightarrow> if rc \<noteq> 0 then None else
      case ebitmap_set_bit ebitmap_init (target_class rt - 1) True of (c, rc) \<Rightarrow> if rc \<noteq> 0 then None else
      Some \<lparr>rtr_stypes = type_set_init\<lparr>ts_types := s\<rparr>, rtr_ttypes = type_set_init\<lparr>ts_types := t\<rparr>,
        rtr_tclasses = c, rtr_trange = mls_range_to_semantic r\<rparr>)"

text \<open>\<open>range_read\<close>: the table of a kernel policy, the rules of a base module.\<close>

definition range_read :: "pf_version \<Rightarrow> range_table \<Rightarrow> (range_table \<times> range_trans_rule list) reader" where
  "range_read v h = r_bind (r_words 1) (\<lambda>nel.
     if kern v then r_bind (r_times (unat (nel ! 0)) (range_read1 v) h) (\<lambda>h. r_ok (h, []))
     else r_bind (r_list (unat (nel ! 0)) (r_bind (range_entry v) (\<lambda>(rt, r).
         case rule_of_range rt r of None \<Rightarrow> r_fail | Some rtr \<Rightarrow> r_ok rtr))) (\<lambda>rules. r_ok (h, rules)))"

text \<open>The tables \<open>policydb_init\<close> creates.\<close>

definition init_filename_trans :: filename_table where
  "init_filename_trans = hashtab_create filenametr_hash filenametr_cmp 1024"

definition init_range_tr :: range_table where
  "init_range_tr = hashtab_create rangetr_hash rangetr_cmp 256"

end
