(* ===== verification/Sepol_Context_File.thy ===== *)
theory Sepol_Context_File
  imports Sepol_Index Sepol_Transitions
begin

text \<open>
  Security contexts: when they are valid (context.c, mls.c), and the parts of a policy file
  that hold them, the lists of object contexts of both platforms and the contexts of generic
  file systems (policydb.c, write.c).
\<close>

section \<open>Validity\<close>

record context_struct =
  co_user :: u32
  co_role :: u32
  co_type :: u32
  co_range :: mls_range

definition context_init :: context_struct where
  "context_init = \<lparr>co_user = 0, co_role = 0, co_type = 0, co_range = mls_range_init\<rparr>"

definition mls_level_dom :: "mls_level \<Rightarrow> mls_level \<Rightarrow> bool" where
  "mls_level_dom l1 l2 \<longleftrightarrow> lev_sens l1 \<ge> lev_sens l2 \<and> ebitmap_contains (lev_cat l1) (lev_cat l2)"

definition mls_range_contains :: "mls_range \<Rightarrow> mls_range \<Rightarrow> bool" where
  "mls_range_contains r1 r2 \<longleftrightarrow>
     mls_level_dom (range_low r2) (range_low r1) \<and> mls_level_dom (range_high r1) (range_high r2)"

text \<open>The part of the policy that the checks read.\<close>

record pf_env =
  en_version :: pf_version
  en_tabs :: pf_symtabs
  en_index :: pf_index
  en_mls :: bool

definition level_isvalid :: "pf_env \<Rightarrow> mls_level \<Rightarrow> bool res" where
  "level_isvalid p l =
     (if lev_sens l = 0 \<or> lev_sens l > nprim (pf_levels (en_tabs p)) then Inr False
      else case ix_levels (en_index p) ! (unat (lev_sens l) - 1) of None \<Rightarrow> Inr False
        | Some (key, _) \<Rightarrow>
            res_bind (hashtab_search (table (pf_levels (en_tabs p))) key) (\<lambda>d.
              case d of None \<Rightarrow> Inr False
              | Some levdatum \<Rightarrow>
                  if positive_bits (lev_cat l) = [] then Inr True
                  else case ld_level levdatum of
                      None \<Rightarrow> (if hd (positive_bits (lev_cat l)) > unat (nprim (pf_cats (en_tabs p))) then Inr False else Inl Null_Deref)
                    | Some dl \<Rightarrow> Inr (\<forall>i\<in>set (positive_bits (lev_cat l)).
                        \<not> i > unat (nprim (pf_cats (en_tabs p))) \<and> eget (lev_cat dl) i)))"

definition mls_context_isvalid :: "pf_env \<Rightarrow> context_struct \<Rightarrow> bool res" where
  "mls_context_isvalid p c =
     (if \<not> en_mls p then Inr True
      else if \<not> mls_level_dom (range_high (co_range c)) (range_low (co_range c)) then Inr False
      else res_bind (level_isvalid p (range_low (co_range c))) (\<lambda>b.
        if \<not> b then Inr False
        else res_bind (level_isvalid p (range_high (co_range c))) (\<lambda>b.
          if \<not> b then Inr False
          else if co_role c = OBJECT_R_VAL then Inr True
          else if co_user c = 0 \<or> co_user c > nprim (pf_users (en_tabs p)) then Inr False
          else case ix_users (en_index p) ! (unat (co_user c) - 1) of None \<Rightarrow> Inr False
            | Some (_, usrdatum) \<Rightarrow> Inr (mls_range_contains (us_exp_range usrdatum) (co_range c)))))"

text \<open>A bit of a cache; a datum whose cache was never made has an empty one.\<close>

definition cached :: "(bytes \<Rightarrow> ebitmap option) \<Rightarrow> bytes \<Rightarrow> u32 \<Rightarrow> bool" where
  "cached c key i = (case c key of None \<Rightarrow> False | Some e \<Rightarrow> ebitmap_get_bit e i)"

definition context_is_valid :: "pf_env \<Rightarrow> context_struct \<Rightarrow> bool res" where
  "context_is_valid p c =
     (if co_role c = 0 \<or> co_role c > nprim (pf_roles (en_tabs p)) then Inr False
      else if co_user c = 0 \<or> co_user c > nprim (pf_users (en_tabs p)) then Inr False
      else if co_type c = 0 \<or> co_type c > nprim (pf_types (en_tabs p)) then Inr False
      else if co_role c \<noteq> OBJECT_R_VAL \<and>
        (case ix_roles (en_index p) ! (unat (co_role c) - 1) of None \<Rightarrow> True
         | Some (key, _) \<Rightarrow> \<not> cached (role_cache (en_index p)) key (co_type c - 1)) then Inr False
      else if co_role c \<noteq> OBJECT_R_VAL \<and>
        (case ix_users (en_index p) ! (unat (co_user c) - 1) of None \<Rightarrow> True
         | Some (key, _) \<Rightarrow> \<not> cached (user_cache (en_index p)) key (co_role c - 1)) then Inr False
      else mls_context_isvalid p c)"

section \<open>Contexts in the file\<close>

definition with_range :: "pf_version \<Rightarrow> bool" where
  "with_range v \<longleftrightarrow> kern_from v 19 \<or> base_from v 5"

definition context_write :: "pf_version \<Rightarrow> context_struct \<Rightarrow> writer" where
  "context_write v c =
     w_all [w_words [co_user c, co_role c, co_type c], w_when (with_range v) (mls_write_range_helper (co_range c))]"

definition context_read_and_validate :: "pf_env \<Rightarrow> context_struct reader" where
  "context_read_and_validate p = r_bind (r_words 3) (\<lambda>buf.
     r_bind (r_when (with_range (en_version p)) mls_read_range_helper mls_range_init) (\<lambda>r fp.
       let c = \<lparr>co_user = buf ! 0, co_role = buf ! 1, co_type = buf ! 2, co_range = r\<rparr> in
       case context_is_valid p c of Inl e \<Rightarrow> Inl e | Inr b \<Rightarrow> Inr (if b then Some (c, fp) else None)))"

section \<open>Object contexts\<close>

text \<open>The union of an object context: each list has one kind of member.\<close>

datatype ocon_u =
    U_none
  | U_name bytes
  | U_port u8 u16 u16
  | U_node u32 u32
  | U_node6 "u32 list" "u32 list"
  | U_device u32
  | U_pirq u16
  | U_iomem u64 u64
  | U_ioport u32 u32
  | U_ibpkey u32 u32 u16 u16
  | U_ibendport bytes u8

record ocontext =
  oc_u :: ocon_u
  oc_v :: u32
  oc_context0 :: context_struct
  oc_context1 :: context_struct
  oc_sid :: u32

definition ocontext_init :: ocontext where
  "ocontext_init = \<lparr>oc_u = U_none, oc_v = 0, oc_context0 = context_init, oc_context1 = context_init, oc_sid = 0\<rparr>"

definition OCON_ISID :: nat where "OCON_ISID = 0"
definition OCON_FS :: nat where "OCON_FS = 1"
definition OCON_PORT :: nat where "OCON_PORT = 2"
definition OCON_NETIF :: nat where "OCON_NETIF = 3"
definition OCON_NODE :: nat where "OCON_NODE = 4"
definition OCON_FSUSE :: nat where "OCON_FSUSE = 5"
definition OCON_NODE6 :: nat where "OCON_NODE6 = 6"
definition OCON_IBPKEY :: nat where "OCON_IBPKEY = 7"
definition OCON_IBENDPORT :: nat where "OCON_IBENDPORT = 8"
definition OCON_XEN_ISID :: nat where "OCON_XEN_ISID = 0"
definition OCON_XEN_PIRQ :: nat where "OCON_XEN_PIRQ = 1"
definition OCON_XEN_IOPORT :: nat where "OCON_XEN_IOPORT = 2"
definition OCON_XEN_IOMEM :: nat where "OCON_XEN_IOMEM = 3"
definition OCON_XEN_PCIDEVICE :: nat where "OCON_XEN_PCIDEVICE = 4"
definition OCON_XEN_DEVICETREE :: nat where "OCON_XEN_DEVICETREE = 5"

text \<open>
  One turn of the loops over a list: what is written for an entry, and an entry read. An entry
  with another member of the union than its list has ends the model; the code would read the
  bytes of the one as the other.
\<close>

definition write_ocon_selinux :: "pf_version \<Rightarrow> nat \<Rightarrow> ocontext \<Rightarrow> writer" where
  "write_ocon_selinux v i c =
     (let ctx0 = context_write v (oc_context0 c) in
      if i = OCON_ISID then
        (if co_user (oc_context0 c) = 0 then w_skip else w_seq (w_words [oc_sid c]) ctx0)
      else if i = OCON_FS \<or> i = OCON_NETIF then
        (case oc_u c of U_name name \<Rightarrow>
           w_all [w_words [len32 name], w_put name, ctx0, context_write v (oc_context1 c)] | _ \<Rightarrow> w_crash)
      else if i = OCON_IBPKEY then
        (case oc_u c of U_ibpkey s0 s1 lo hi \<Rightarrow> w_seq (w_words [s0, s1, ucast lo, ucast hi]) ctx0 | _ \<Rightarrow> w_crash)
      else if i = OCON_IBENDPORT then
        (case oc_u c of U_ibendport name port \<Rightarrow> w_all [w_words [len32 name, ucast port], w_put name, ctx0] | _ \<Rightarrow> w_crash)
      else if i = OCON_PORT then
        (case oc_u c of U_port proto lo hi \<Rightarrow> w_seq (w_words [ucast proto, ucast lo, ucast hi]) ctx0 | _ \<Rightarrow> w_crash)
      else if i = OCON_NODE then
        (case oc_u c of U_node addr m \<Rightarrow> w_seq (w_words [addr, m]) ctx0 | _ \<Rightarrow> w_crash)
      else if i = OCON_FSUSE then
        (case oc_u c of U_name name \<Rightarrow> w_all [w_words [oc_v c, len32 name], w_put name, ctx0] | _ \<Rightarrow> w_crash)
      else if i = OCON_NODE6 then
        (case oc_u c of U_node6 addr m \<Rightarrow> w_seq (w_words (take 4 addr @ take 4 m)) ctx0 | _ \<Rightarrow> w_crash)
      else w_skip)"

definition write_ocon_xen :: "pf_version \<Rightarrow> nat \<Rightarrow> ocontext \<Rightarrow> writer" where
  "write_ocon_xen v i c =
     (let ctx0 = context_write v (oc_context0 c) in
      if i = OCON_XEN_ISID then
        (if co_user (oc_context0 c) = 0 then w_skip else w_seq (w_words [oc_sid c]) ctx0)
      else if i = OCON_XEN_PIRQ then
        (case oc_u c of U_pirq pirq \<Rightarrow> w_seq (w_words [ucast pirq]) ctx0 | _ \<Rightarrow> w_crash)
      else if i = OCON_XEN_IOPORT then
        (case oc_u c of U_ioport lo hi \<Rightarrow> w_seq (w_words [lo, hi]) ctx0 | _ \<Rightarrow> w_crash)
      else if i = OCON_XEN_IOMEM then
        (case oc_u c of U_iomem lo hi \<Rightarrow>
           if pv_vers v \<ge> 30 then w_seq (w_put (le_bytes 8 (unat lo) @ le_bytes 8 (unat hi))) ctx0
           else if hi > 0xFFFFFFFF then w_fail
           else w_seq (w_words [ucast lo, ucast hi]) ctx0 | _ \<Rightarrow> w_crash)
      else if i = OCON_XEN_PCIDEVICE then
        (case oc_u c of U_device d \<Rightarrow> w_seq (w_words [d]) ctx0 | _ \<Rightarrow> w_crash)
      else if i = OCON_XEN_DEVICETREE then
        (case oc_u c of U_name name \<Rightarrow> w_all [w_words [len32 name], w_put name, ctx0] | _ \<Rightarrow> w_crash)
      else w_skip)"

text \<open>The list of a kind with its length, which leaves out the initial SIDs without a context.\<close>

definition write_ocons :: "(nat \<Rightarrow> ocontext \<Rightarrow> writer) \<Rightarrow> nat \<Rightarrow> ocontext list \<Rightarrow> writer" where
  "write_ocons f i cs =
     w_seq (w_words [len32 (filter (\<lambda>c. \<not> (i = OCON_ISID \<and> co_user (oc_context0 c) = 0)) cs)]) (w_all (map (f i) cs))"

definition ocontext_write_selinux :: "pf_version \<Rightarrow> nat \<Rightarrow> ocontext list list \<Rightarrow> writer" where
  "ocontext_write_selinux v ocon_num oc =
     w_all (map (\<lambda>i. write_ocons (write_ocon_selinux v) i (oc ! i)) [0..<ocon_num])"

definition ocontext_write_xen :: "pf_version \<Rightarrow> nat \<Rightarrow> ocontext list list \<Rightarrow> writer" where
  "ocontext_write_xen v ocon_num oc =
     w_all (map (\<lambda>i. write_ocons (write_ocon_xen v) i (oc ! i)) [0..<ocon_num])"

definition ocontext_write :: "pf_version \<Rightarrow> int \<Rightarrow> nat \<Rightarrow> ocontext list list \<Rightarrow> writer" where
  "ocontext_write v platform ocon_num oc =
     (if platform = SEPOL_TARGET_SELINUX then ocontext_write_selinux v ocon_num oc
      else if platform = SEPOL_TARGET_XEN then ocontext_write_xen v ocon_num oc else w_fail)"

definition r_ctx0 :: "pf_env \<Rightarrow> ocontext \<Rightarrow> ocontext reader" where
  "r_ctx0 p c = r_bind (context_read_and_validate p) (\<lambda>x. r_ok (c\<lparr>oc_context0 := x\<rparr>))"

definition IB_DEVICE_NAME_MAX :: nat where "IB_DEVICE_NAME_MAX = 64"

definition read_ocon_selinux :: "pf_env \<Rightarrow> nat \<Rightarrow> ocontext reader" where
  "read_ocon_selinux p i =
     (let z = ocontext_init in
      if i = OCON_ISID then r_bind (r_words 1) (\<lambda>buf. r_ctx0 p (z\<lparr>oc_sid := buf ! 0\<rparr>))
      else if i = OCON_FS \<or> i = OCON_NETIF then r_bind (r_words 1) (\<lambda>buf. let len = unat (buf ! 0) in
        r_check (\<not> (zero_or_saturated 64 len \<or> len > 63)) (r_bind (r_key len) (\<lambda>name.
          r_bind (r_ctx0 p (z\<lparr>oc_u := U_name name\<rparr>)) (\<lambda>c.
          r_bind (context_read_and_validate p) (\<lambda>x. r_ok (c\<lparr>oc_context1 := x\<rparr>))))))
      else if i = OCON_IBPKEY then r_bind (r_words 4) (\<lambda>buf.
        r_check (\<not> (buf ! 2 > 0xFFFF \<or> buf ! 3 > 0xFFFF))
          (r_ctx0 p (z\<lparr>oc_u := U_ibpkey (buf ! 0) (buf ! 1) (ucast (buf ! 2)) (ucast (buf ! 3))\<rparr>)))
      else if i = OCON_IBENDPORT then r_bind (r_words 2) (\<lambda>buf. let len = unat (buf ! 0) in
        r_check (\<not> (len = 0 \<or> len > IB_DEVICE_NAME_MAX - 1)) (r_check (\<not> (buf ! 1 > 0xFF \<or> buf ! 1 = 0))
          (r_bind (r_key len) (\<lambda>name. r_ctx0 p (z\<lparr>oc_u := U_ibendport name (ucast (buf ! 1))\<rparr>)))))
      else if i = OCON_PORT then r_bind (r_words 3) (\<lambda>buf.
        r_ctx0 p (z\<lparr>oc_u := U_port (ucast (buf ! 0)) (ucast (buf ! 1)) (ucast (buf ! 2))\<rparr>))
      else if i = OCON_NODE then r_bind (r_words 2) (\<lambda>buf. r_ctx0 p (z\<lparr>oc_u := U_node (buf ! 0) (buf ! 1)\<rparr>))
      else if i = OCON_FSUSE then r_bind (r_words 2) (\<lambda>buf. let len = unat (buf ! 1) in
        r_check (\<not> zero_or_saturated 64 len) (r_bind (r_key len) (\<lambda>name.
          r_ctx0 p (z\<lparr>oc_v := buf ! 0, oc_u := U_name name\<rparr>))))
      else if i = OCON_NODE6 then r_bind (r_words 8) (\<lambda>buf.
        r_ctx0 p (z\<lparr>oc_u := U_node6 (take 4 buf) (drop 4 buf)\<rparr>))
      else r_fail)"

definition read_ocon_xen :: "pf_env \<Rightarrow> nat \<Rightarrow> ocontext reader" where
  "read_ocon_xen p i =
     (let z = ocontext_init in
      if i = OCON_XEN_ISID then r_bind (r_words 1) (\<lambda>buf. r_ctx0 p (z\<lparr>oc_sid := buf ! 0\<rparr>))
      else if i = OCON_XEN_PIRQ then r_bind (r_words 1) (\<lambda>buf. r_ctx0 p (z\<lparr>oc_u := U_pirq (ucast (buf ! 0))\<rparr>))
      else if i = OCON_XEN_IOPORT then r_bind (r_words 2) (\<lambda>buf. r_ctx0 p (z\<lparr>oc_u := U_ioport (buf ! 0) (buf ! 1)\<rparr>))
      else if i = OCON_XEN_IOMEM then
        (if pv_vers (en_version p) \<ge> 30 then r_bind (r_bytes 16) (\<lambda>b.
           r_ctx0 p (z\<lparr>oc_u := U_iomem (word_of_nat (le_val (take 8 b))) (word_of_nat (le_val (drop 8 b)))\<rparr>))
         else r_bind (r_words 2) (\<lambda>buf. r_ctx0 p (z\<lparr>oc_u := U_iomem (ucast (buf ! 0)) (ucast (buf ! 1))\<rparr>)))
      else if i = OCON_XEN_PCIDEVICE then r_bind (r_words 1) (\<lambda>buf. r_ctx0 p (z\<lparr>oc_u := U_device (buf ! 0)\<rparr>))
      else if i = OCON_XEN_DEVICETREE then r_bind (r_words 1) (\<lambda>buf. let len = unat (buf ! 0) in
        r_check (\<not> zero_or_saturated 64 len) (r_bind (r_key len) (\<lambda>name. r_ctx0 p (z\<lparr>oc_u := U_name name\<rparr>))))
      else r_fail)"

primrec r_each :: "('a \<Rightarrow> 'b reader) \<Rightarrow> 'a list \<Rightarrow> 'b list reader" where
  "r_each f [] = r_ok []"
| "r_each f (x # xs) = r_bind (f x) (\<lambda>y. r_bind (r_each f xs) (\<lambda>ys. r_ok (y # ys)))"

definition read_ocons :: "(nat \<Rightarrow> ocontext reader) \<Rightarrow> nat \<Rightarrow> ocontext list reader" where
  "read_ocons f i = r_bind (r_words 1) (\<lambda>nel. r_list (unat (nel ! 0)) (f i))"

text \<open>The lists behind the last one of the format stay empty.\<close>

definition OCON_NUM :: nat where "OCON_NUM = 9"

definition pad_ocons :: "ocontext list list \<Rightarrow> ocontext list list" where
  "pad_ocons oc = oc @ replicate (OCON_NUM - length oc) []"

definition ocontext_read_selinux :: "pf_env \<Rightarrow> nat \<Rightarrow> ocontext list list reader" where
  "ocontext_read_selinux p ocon_num =
     r_bind (r_each (read_ocons (read_ocon_selinux p)) [0..<ocon_num]) (\<lambda>oc. r_ok (pad_ocons oc))"

definition ocontext_read_xen :: "pf_env \<Rightarrow> nat \<Rightarrow> ocontext list list reader" where
  "ocontext_read_xen p ocon_num =
     r_bind (r_each (read_ocons (read_ocon_xen p)) [0..<ocon_num]) (\<lambda>oc. r_ok (pad_ocons oc))"

definition ocontext_read :: "pf_env \<Rightarrow> int \<Rightarrow> nat \<Rightarrow> ocontext list list reader" where
  "ocontext_read p platform ocon_num =
     (if platform = SEPOL_TARGET_SELINUX then ocontext_read_selinux p ocon_num
      else if platform = SEPOL_TARGET_XEN then ocontext_read_xen p ocon_num else r_fail)"

section \<open>Generic file systems\<close>

record genfs_ocon =
  ge_name :: bytes
  ge_sclass :: u32
  ge_context :: context_struct

record genfs =
  ge_fstype :: bytes
  ge_head :: "genfs_ocon list"

definition genfs_write_ocon :: "pf_version \<Rightarrow> genfs_ocon \<Rightarrow> writer" where
  "genfs_write_ocon v c = w_all [w_words [len32 (ge_name c)], w_put (ge_name c), w_words [ge_sclass c], context_write v (ge_context c)]"

definition genfs_write :: "pf_version \<Rightarrow> genfs list \<Rightarrow> writer" where
  "genfs_write v gs = w_seq (w_words [len32 gs]) (w_all (map (\<lambda>g.
     w_all [w_words [len32 (ge_fstype g)], w_put (ge_fstype g), w_words [len32 (ge_head g)],
       w_all (map (genfs_write_ocon v) (ge_head g))]) gs))"

text \<open>The place of a file system: the list is sorted by name, and no name may be in it twice.\<close>

fun split_genfs :: "bytes \<Rightarrow> genfs list \<Rightarrow> (genfs list \<times> genfs list) option" where
  "split_genfs k [] = Some ([], [])"
| "split_genfs k (g # gs) =
     (if strcmp k (ge_fstype g) = 0 then None
      else if strcmp k (ge_fstype g) < 0 then Some ([], g # gs)
      else case split_genfs k gs of None \<Rightarrow> None | Some (a, b) \<Rightarrow> Some (g # a, b))"

text \<open>The place of an entry: longer names come first; no two entries match the same name and class.\<close>

fun insert_ocon :: "genfs_ocon \<Rightarrow> genfs_ocon list \<Rightarrow> genfs_ocon list option" where
  "insert_ocon n [] = Some [n]"
| "insert_ocon n (c # cs) =
     (if strcmp (ge_name n) (ge_name c) = 0 \<and> (ge_sclass c = 0 \<or> ge_sclass n = 0 \<or> ge_sclass n = ge_sclass c) then None
      else if length (ge_name n) > length (ge_name c) then Some (n # c # cs)
      else case insert_ocon n cs of None \<Rightarrow> None | Some cs \<Rightarrow> Some (c # cs))"

definition genfs_read_ocon :: "pf_env \<Rightarrow> genfs_ocon list \<Rightarrow> genfs_ocon list reader" where
  "genfs_read_ocon p head = r_bind (r_words 1) (\<lambda>b. let len = unat (b ! 0) in
     r_check (\<not> zero_or_saturated 64 len) (r_bind (r_key len) (\<lambda>name. r_bind (r_words 1) (\<lambda>buf.
     r_bind (context_read_and_validate p) (\<lambda>x.
       case insert_ocon \<lparr>ge_name = name, ge_sclass = buf ! 0, ge_context = x\<rparr> head of
         None \<Rightarrow> r_fail | Some head \<Rightarrow> r_ok head)))))"

definition genfs_read1 :: "pf_env \<Rightarrow> genfs list \<Rightarrow> genfs list reader" where
  "genfs_read1 p gs = r_bind (r_words 1) (\<lambda>b. let len = unat (b ! 0) in
     r_check (\<not> zero_or_saturated 64 len) (r_bind (r_key len) (\<lambda>fstype.
       case split_genfs fstype gs of None \<Rightarrow> r_fail
       | Some (before, behind) \<Rightarrow>
           r_bind (r_words 1) (\<lambda>nel2. r_bind (r_times (unat (nel2 ! 0)) (genfs_read_ocon p) []) (\<lambda>head.
             r_ok (before @ \<lparr>ge_fstype = fstype, ge_head = head\<rparr> # behind))))))"

definition genfs_read :: "pf_env \<Rightarrow> genfs list reader" where
  "genfs_read p = r_bind (r_words 1) (\<lambda>nel. r_times (unat (nel ! 0)) (genfs_read1 p) [])"

end
