(* ===== verification/Sepol_Conditional.thy ===== *)
theory Sepol_Conditional
  imports Sepol_Index Sepol_Avtab_File
begin

text \<open>
  Conditional rules of a policy (conditional.c, write.c): expressions over booleans in
  reverse Polish notation, their evaluation, normal form and comparison, and the lists of
  rules of a conditional, which point into a rule table of their own, as they are switched,
  written and read in kernel policies.
\<close>

section \<open>Data\<close>

record cond_expr =
  ce_type :: u32
  ce_bool :: u32

text \<open>
  A conditional: the lists hold pointers to the nodes of the table of conditional rules. The
  lists of module rules are left out.
\<close>

record cond_node =
  cur_state :: int
  cexpr :: "cond_expr list"
  true_list :: "avtab_ptr list"
  false_list :: "avtab_ptr list"
  nbools :: u32
  bool_ids :: "u32 list"
  expr_pre_comp :: u32
  cond_flags :: u32

definition COND_BOOL :: u32 where "COND_BOOL = 1"
definition COND_NOT :: u32 where "COND_NOT = 2"
definition COND_OR :: u32 where "COND_OR = 3"
definition COND_AND :: u32 where "COND_AND = 4"
definition COND_XOR :: u32 where "COND_XOR = 5"
definition COND_EQ :: u32 where "COND_EQ = 6"
definition COND_NEQ :: u32 where "COND_NEQ = 7"
definition COND_LAST :: u32 where "COND_LAST = COND_NEQ"
definition COND_EXPR_MAXDEPTH :: nat where "COND_EXPR_MAXDEPTH = 10"
definition COND_MAX_BOOLS :: nat where "COND_MAX_BOOLS = 5"

definition cond_node_init :: cond_node where
  "cond_node_init = \<lparr>cur_state = 0, cexpr = [], true_list = [], false_list = [], nbools = 0,
     bool_ids = replicate COND_MAX_BOOLS 0, expr_pre_comp = 0, cond_flags = 0\<rparr>"

section \<open>Evaluation\<close>

text \<open>
  The state of a boolean, by its value. The array is not cleared when it is allocated, so an
  entry that was never set is no valid pointer.
\<close>

definition bool_state :: "cond_bool_datum val_index \<Rightarrow> u32 \<Rightarrow> int res" where
  "bool_state bools b =
     (if b = 0 \<or> unat b > length bools then Inl Oob_Read
      else case bools ! (unat b - 1) of None \<Rightarrow> Inl Null_Deref | Some (_, d) \<Rightarrow> Inr (bo_state d))"

definition binary_op :: "u32 \<Rightarrow> (int \<Rightarrow> int \<Rightarrow> int) option" where
  "binary_op t =
     (if t = COND_OR then Some (\<lambda>x y. x OR y)
      else if t = COND_AND then Some (\<lambda>x y. x AND y)
      else if t = COND_XOR then Some (\<lambda>x y. x XOR y)
      else if t = COND_EQ then Some (\<lambda>x y. if x = y then 1 else 0)
      else if t = COND_NEQ then Some (\<lambda>x y. if x \<noteq> y then 1 else 0)
      else None)"

text \<open>
  The stack, with its top first: \<open>s[0]\<close> is the last element, and is -1 while nothing was put on
  the stack. The result is -1 for an expression that is not well-formed.
\<close>

fun eval_loop :: "cond_bool_datum val_index \<Rightarrow> cond_expr list \<Rightarrow> int list \<Rightarrow> int res" where
  "eval_loop bools [] s = Inr (if s = [] then - 1 else last s)"
| "eval_loop bools (e # es) s =
     (if ce_type e = COND_BOOL then
        (if length s = COND_EXPR_MAXDEPTH then Inr (- 1)
         else res_bind (bool_state bools (ce_bool e)) (\<lambda>v. eval_loop bools es (v # s)))
      else if ce_type e = COND_NOT then
        (case s of [] \<Rightarrow> Inr (- 1) | x # s \<Rightarrow> eval_loop bools es ((if x = 0 then 1 else 0) # s))
      else case binary_op (ce_type e) of None \<Rightarrow> Inr (- 1)
        | Some f \<Rightarrow> (case s of y # x # s \<Rightarrow> eval_loop bools es (f x y # s) | _ \<Rightarrow> Inr (- 1)))"

definition cond_evaluate_expr :: "cond_bool_datum val_index \<Rightarrow> cond_expr list \<Rightarrow> int res" where
  "cond_evaluate_expr bools e = eval_loop bools e []"

definition cond_copy_expr :: "cond_expr list \<Rightarrow> cond_expr list" where
  "cond_copy_expr e = map (\<lambda>c. \<lparr>ce_type = ce_type c, ce_bool = ce_bool c\<rparr>) e"

section \<open>Normal form\<close>

definition bool_present :: "u32 \<Rightarrow> u32 list \<Rightarrow> u32 \<Rightarrow> bool" where
  "bool_present target bools num_bools =
     (if unat num_bools > COND_MAX_BOOLS then False else target \<in> set (take (unat num_bools) bools))"

text \<open>One turn of the loop that collects the booleans.\<close>

definition add_bool :: "cond_expr \<Rightarrow> u32 list \<times> u32 \<Rightarrow> u32 list \<times> u32" where
  "add_bool e s =
     (case s of (ids, n) \<Rightarrow>
        if ce_type e = COND_BOOL \<and> \<not> bool_present (ce_bool e) ids n
        then (if unat n < COND_MAX_BOOLS then (ids[unat n := ce_bool e], n + 1) else (ids, n + 1))
        else (ids, n))"

definition set_state :: "int \<Rightarrow> u32 \<Rightarrow> cond_bool_datum val_index \<Rightarrow> cond_bool_datum val_index" where
  "set_state v b bools =
     bools[unat b - 1 := map_option (\<lambda>(k, d). (k, d\<lparr>bo_state := v\<rparr>)) (bools ! (unat b - 1))]"

text \<open>The states for one line of the table: bit \<open>j\<close> of \<open>test\<close> for boolean \<open>j\<close>.\<close>

definition assign :: "u32 list \<Rightarrow> nat \<Rightarrow> cond_bool_datum val_index \<Rightarrow> cond_bool_datum val_index" where
  "assign ids test bools = fold (\<lambda>j. set_state (if bit test j then 1 else 0) (ids ! j)) [0..<length ids] bools"

text \<open>The loop over all lines; it ends early, with the states of that line, when the expression is undefined.\<close>

primrec precompute :: "u32 list \<Rightarrow> cond_expr list \<Rightarrow> nat list \<Rightarrow> cond_bool_datum val_index \<Rightarrow> u32
    \<Rightarrow> (cond_bool_datum val_index \<times> u32 \<times> bool) res" where
  "precompute ids e [] bools acc = Inr (bools, acc, True)"
| "precompute ids e (test # ts) bools acc =
     (let bools = assign ids test bools in
      res_bind (cond_evaluate_expr bools e) (\<lambda>k.
        if k = - 1 then Inr (bools, acc, False)
        else precompute ids e ts bools (if k \<noteq> 0 then acc OR push_bit test 1 else acc)))"

primrec bool_states :: "cond_bool_datum val_index \<Rightarrow> u32 list \<Rightarrow> int list res" where
  "bool_states bools [] = Inr []"
| "bool_states bools (b # bs) =
     res_bind (bool_state bools b) (\<lambda>v. res_bind (bool_states bools bs) (\<lambda>vs. Inr (v # vs)))"

text \<open>The result is the booleans, the node and the return code; \<open>orig_value\<close> is stored only when all went well.\<close>

definition strip_not :: "cond_node \<Rightarrow> cond_node option" where
  "strip_not cn =
     (if ce_type (last (cexpr cn)) = COND_NOT then
        (if butlast (cexpr cn) = [] then None
         else Some (cn\<lparr>cexpr := butlast (cexpr cn), true_list := false_list cn, false_list := true_list cn\<rparr>))
      else Some cn)"

definition cond_normalize_expr ::
  "cond_bool_datum val_index \<Rightarrow> cond_node \<Rightarrow> (cond_bool_datum val_index \<times> cond_node \<times> int) res" where
  "cond_normalize_expr bools cn =
     (let cn = cn\<lparr>nbools := 0, bool_ids := replicate COND_MAX_BOOLS 0, expr_pre_comp := 0\<rparr> in
      if cexpr cn = [] then Inl Null_Deref
      else case strip_not cn of None \<Rightarrow> Inr (bools, cn, - 1)
      | Some cn \<Rightarrow>
          let (ids, n) = fold add_bool (cexpr cn) (bool_ids cn, 0);
              cn = cn\<lparr>bool_ids := ids, nbools := n\<rparr>
          in if unat n > COND_MAX_BOOLS then Inr (bools, cn, 0)
             else let used = take (unat n) ids in
               res_bind (bool_states bools used) (\<lambda>orig_value.
               res_bind (precompute used (cexpr cn) [0..<2 ^ unat n] bools 0) (\<lambda>(bools, pre, ok).
                 let cn = cn\<lparr>expr_pre_comp := pre\<rparr> in
                 if \<not> ok then Inr (bools, cn, - 1)
                 else Inr (fold (\<lambda>(b, v). set_state v b) (zip used orig_value) bools, cn, 0))))"

definition same_bools :: "cond_node \<Rightarrow> cond_node \<Rightarrow> bool" where
  "same_bools a b \<longleftrightarrow> nbools a = nbools b \<and>
     (\<forall>x\<in>set (take (unat (nbools a)) (bool_ids a)). bool_present x (bool_ids b) (nbools a))"

text \<open>The loop that compares long expressions.\<close>

fun same_exprs :: "cond_expr list \<Rightarrow> cond_expr list \<Rightarrow> bool" where
  "same_exprs [] [] = True"
| "same_exprs [] (_ # _) = False"
| "same_exprs (_ # _) [] = False"
| "same_exprs (a # as) (b # bs) =
     (if ce_type a \<noteq> ce_type b then False
      else if ce_type a = COND_BOOL \<and> ce_bool a \<noteq> ce_bool b then False
      else same_exprs as bs)"

definition cond_expr_equal :: "cond_node option \<Rightarrow> cond_node option \<Rightarrow> bool" where
  "cond_expr_equal a b =
     (case (a, b) of (Some a, Some b) \<Rightarrow>
        if nbools a \<noteq> nbools b then False
        else if unat (nbools a) \<le> COND_MAX_BOOLS \<and> unat (nbools b) \<le> COND_MAX_BOOLS then
          (if \<not> same_bools a b then False else expr_pre_comp a = expr_pre_comp b)
        else same_exprs (cexpr a) (cexpr b)
      | _ \<Rightarrow> False)"

text \<open>A new node for an expression, and the search that makes one when none is equal.\<close>

definition cond_node_create :: "cond_bool_datum val_index \<Rightarrow> cond_node option \<Rightarrow> cond_node option res" where
  "cond_node_create bools node =
     (case node of None \<Rightarrow> Inr (Some cond_node_init)
      | Some n \<Rightarrow>
          if cond_copy_expr (cexpr n) = [] then Inr None
          else res_bind (cond_evaluate_expr bools (cond_copy_expr (cexpr n))) (\<lambda>st.
            let m = min (unat (nbools n)) COND_MAX_BOOLS in
            Inr (Some (cond_node_init\<lparr>cexpr := cond_copy_expr (cexpr n), cur_state := st, nbools := nbools n,
              bool_ids := take m (bool_ids n) @ replicate (COND_MAX_BOOLS - m) 0, expr_pre_comp := expr_pre_comp n,
              cond_flags := cond_flags n\<rparr>))))"

fun cond_node_find :: "cond_bool_datum val_index \<Rightarrow> cond_node \<Rightarrow> cond_node list \<Rightarrow> (cond_node option \<times> bool) res" where
  "cond_node_find bools needle [] = res_bind (cond_node_create bools (Some needle)) (\<lambda>r. Inr (r, True))"
| "cond_node_find bools needle (h # hs) =
     (if cond_expr_equal (Some needle) (Some h) then Inr (Some h, False) else cond_node_find bools needle hs)"

definition cond_node_search :: "cond_bool_datum val_index \<Rightarrow> cond_node list \<Rightarrow> cond_node \<Rightarrow> (cond_node option \<times> cond_node list) res" where
  "cond_node_search bools cond_list cn =
     res_bind (cond_node_find bools cn cond_list) (\<lambda>(r, was_created).
       Inr (r, case r of None \<Rightarrow> cond_list | Some n \<Rightarrow> if was_created then n # cond_list else cond_list))"

section \<open>Switching rules\<close>

definition switch_rule :: "bool \<Rightarrow> avtab_ptr \<Rightarrow> avtab \<Rightarrow> avtab res" where
  "switch_rule on p t =
     res_bind (av_node t p) (\<lambda>n.
       let sp = specified (fst n);
           n = ((fst n)\<lparr>specified := (if on then sp OR ucast AVTAB_ENABLED else sp AND NOT (ucast AVTAB_ENABLED))\<rparr>, snd n)
       in Inr (t\<lparr>avslots := map_option (\<lambda>hs. hs[fst p := (hs ! fst p)[snd p := n]]) (avslots t)\<rparr>))"

primrec switch_rules :: "bool \<Rightarrow> avtab_ptr list \<Rightarrow> avtab \<Rightarrow> avtab res" where
  "switch_rules on [] t = Inr t"
| "switch_rules on (p # ps) t = res_bind (switch_rule on p t) (switch_rules on ps)"

definition evaluate_cond_node :: "cond_bool_datum val_index \<Rightarrow> cond_node \<Rightarrow> avtab \<Rightarrow> (cond_node \<times> avtab) res" where
  "evaluate_cond_node bools node t =
     res_bind (cond_evaluate_expr bools (cexpr node)) (\<lambda>new_state.
       if new_state = cur_state node then Inr (node, t)
       else res_bind (switch_rules (0 < new_state) (true_list node) t) (\<lambda>t.
            res_bind (switch_rules (new_state = 0) (false_list node) t) (\<lambda>t.
              Inr (node\<lparr>cur_state := new_state\<rparr>, t))))"

primrec evaluate_conds :: "cond_bool_datum val_index \<Rightarrow> cond_node list \<Rightarrow> avtab \<Rightarrow> (cond_node list \<times> avtab) res" where
  "evaluate_conds bools [] t = Inr ([], t)"
| "evaluate_conds bools (n # ns) t =
     res_bind (evaluate_cond_node bools n t) (\<lambda>(n, t).
     res_bind (evaluate_conds bools ns t) (\<lambda>(ns, t). Inr (n # ns, t)))"

text \<open>The reordering of a list: the type rules behind the first rule are moved to the front one by one.\<close>

fun cond_optimize :: "('p \<Rightarrow> bool) \<Rightarrow> 'p list \<Rightarrow> 'p list \<Rightarrow> 'p list \<Rightarrow> 'p list" where
  "cond_optimize is_type front kept [] = front @ kept"
| "cond_optimize is_type front kept (p # ps) =
     (if is_type p \<and> front @ kept \<noteq> [] then cond_optimize is_type (p # front) kept ps
      else cond_optimize is_type front (kept @ [p]) ps)"

section \<open>Reading\<close>

text \<open>A node is named by its place; an insertion moves the places behind the new node.\<close>

definition shift_ptr :: "avtab_ptr \<Rightarrow> avtab_ptr \<Rightarrow> avtab_ptr" where
  "shift_ptr q p = (if fst p = fst q \<and> snd q \<le> snd p then (fst p, Suc (snd p)) else p)"

text \<open>
  The state of the reader: the table of conditional rules, the nodes whose \<open>parse_context\<close> is
  set, the conditionals read so far, the true list while the false list is read (\<open>other\<close>), the
  list being read, and the flag of old extended permissions, which stays set once it is.
\<close>

record cond_state =
  cs_table :: avtab
  cs_marked :: "avtab_ptr set"
  cs_nodes :: "cond_node list"
  cs_other :: "avtab_ptr list"
  cs_head :: "avtab_ptr list"
  cs_compat :: bool

definition shift_node :: "avtab_ptr \<Rightarrow> cond_node \<Rightarrow> cond_node" where
  "shift_node q n = n\<lparr>true_list := map (shift_ptr q) (true_list n), false_list := map (shift_ptr q) (false_list n)\<rparr>"

definition insert_cond :: "avtab_ptr \<Rightarrow> avtab \<Rightarrow> cond_state \<Rightarrow> cond_state" where
  "insert_cond q t s =
     s\<lparr>cs_table := t, cs_marked := insert q (shift_ptr q ` cs_marked s), cs_nodes := map (shift_node q) (cs_nodes s),
       cs_other := map (shift_ptr q) (cs_other s), cs_head := map (shift_ptr q) (cs_head s) @ [q]\<rparr>"

text \<open>The checks of a type rule: whether it conflicts with a rule that is there.\<close>

definition type_rule_conflict :: "avtab \<Rightarrow> cond_state \<Rightarrow> avtab_key \<Rightarrow> bool res" where
  "type_rule_conflict te s k =
     res_bind (avtab_search te k) (\<lambda>r.
       if r \<noteq> None then Inr True
       else if cs_other s \<noteq> [] then
         res_bind (avtab_search_node (cs_table s) k) (\<lambda>node_ptr.
           case node_ptr of None \<Rightarrow> Inr False
           | Some q \<Rightarrow>
               res_bind (avtab_search_node_next (cs_table s) (Some q) (ucast (specified k))) (\<lambda>next_ptr.
                 Inr (next_ptr \<noteq> None \<or> q \<notin> set (cs_other s))))
       else res_bind (avtab_search (cs_table s) k) (\<lambda>r. Inr (r \<noteq> None)))"

definition cond_insertf :: "avtab \<Rightarrow> cond_state \<Rightarrow> avtab_key \<Rightarrow> avtab_datum \<Rightarrow> (cond_state \<times> int) res" where
  "cond_insertf te s k d =
     res_bind (if specified k AND AVTAB_TYPE \<noteq> 0 then type_rule_conflict te s k else Inr False) (\<lambda>conflict.
       if conflict then Inr (s\<lparr>cs_head := []\<rparr>, - 1)
       else res_bind (avtab_insert_nonunique (cs_table s) k d) (\<lambda>(t, node_ptr).
         case node_ptr of None \<Rightarrow> Inr (s\<lparr>cs_head := []\<rparr>, - 1) | Some q \<Rightarrow> Inr (insert_cond q t s, 0)))"

definition cond_read_item :: "u32 list \<Rightarrow> u32 \<Rightarrow> avtab \<Rightarrow> cond_state \<Rightarrow> cond_state reader" where
  "cond_read_item U vers te s fp =
     (case avtab_read_item U vers (cond_insertf te) (cs_compat s) fp s of
        Inl e \<Rightarrow> Inl e | Inr (s, mc, fp, rc) \<Rightarrow> Inr (if rc \<noteq> 0 then None else Some (s\<lparr>cs_compat := mc\<rparr>, fp)))"

text \<open>\<open>cond_read_av_list\<close>: the list is left in \<open>cs_head\<close>.\<close>

definition cond_read_av_list :: "u32 list \<Rightarrow> u32 \<Rightarrow> avtab \<Rightarrow> avtab_ptr list \<Rightarrow> cond_state \<Rightarrow> cond_state reader" where
  "cond_read_av_list U vers te other s = r_bind (r_words 1) (\<lambda>len.
     r_times (unat (len ! 0)) (cond_read_item U vers te) (s\<lparr>cs_other := other, cs_head := []\<rparr>))"

definition expr_isvalid :: "u32 \<Rightarrow> cond_expr \<Rightarrow> bool" where
  "expr_isvalid bool_nprim e \<longleftrightarrow> \<not> (ce_type e = 0 \<or> ce_type e > COND_LAST) \<and> \<not> ce_bool e > bool_nprim"

text \<open>A count that is kept in an \<open>int\<close>: a negative one runs no turn of the loop.\<close>

definition int_count :: "u32 \<Rightarrow> nat" where "int_count w = nat (sint w)"

definition cond_read_expr :: "u32 \<Rightarrow> cond_expr reader" where
  "cond_read_expr bool_nprim = r_bind (r_words 2) (\<lambda>buf. let e = \<lparr>ce_type = buf ! 0, ce_bool = buf ! 1\<rparr> in
     r_check (expr_isvalid bool_nprim e) (r_ok e))"

text \<open>
  \<open>cond_read_node\<close> in a kernel policy. While the false list is read, the true list is at
  \<open>cs_other\<close>, where the insertions keep it up to date.
\<close>

definition cond_read_node :: "u32 list \<Rightarrow> u32 \<Rightarrow> u32 \<Rightarrow> avtab \<Rightarrow> cond_state \<Rightarrow> cond_state reader" where
  "cond_read_node U vers bool_nprim te s = r_bind (r_words 1) (\<lambda>st. r_bind (r_words 1) (\<lambda>len.
     r_bind (r_list (int_count (len ! 0)) (cond_read_expr bool_nprim)) (\<lambda>es.
     r_bind (cond_read_av_list U vers te [] s) (\<lambda>s.
     r_bind (cond_read_av_list U vers te (cs_head s) s) (\<lambda>s.
       r_ok (s\<lparr>cs_nodes := cs_nodes s @ [cond_node_init\<lparr>cur_state := sint (st ! 0), cexpr := es,
         true_list := cs_other s, false_list := cs_head s\<rparr>], cs_other := [], cs_head := []\<rparr>))))))"

definition cond_read_list :: "u32 list \<Rightarrow> u32 \<Rightarrow> u32 \<Rightarrow> avtab \<Rightarrow> bool \<Rightarrow> avtab \<Rightarrow> cond_state reader" where
  "cond_read_list U vers bool_nprim te mcompat t0 = r_bind (r_words 1) (\<lambda>len.
     case avtab_alloc t0 (avnel te) of (t, rc) \<Rightarrow>
       r_check (rc = 0) (r_times (int_count (len ! 0)) (cond_read_node U vers bool_nprim te)
         \<lparr>cs_table = t, cs_marked = {}, cs_nodes = [], cs_other = [], cs_head = [], cs_compat = mcompat\<rparr>))"

section \<open>Writing\<close>

text \<open>
  Old kernel formats expand the rules of a list first (\<open>expand_cond_av_list\<close>, expand.c), into a
  table of their own; this is an argument, as for the rule table.
\<close>

type_synonym cond_expand = "avtab_ptr list \<Rightarrow> (avtab_ptr list \<times> avtab \<times> avtab_ptr set) option"

definition write_cond_item :: "policydb \<Rightarrow> bool \<Rightarrow> avtab \<Rightarrow> avtab_ptr \<Rightarrow> writer" where
  "write_cond_item p mcompat t q fp =
     (case avtab_write_item p mcompat t q False True {} None fp of
        Inl e \<Rightarrow> Inl e | Inr (fp, _, _, rc) \<Rightarrow> Inr (if rc \<noteq> 0 then None else Some fp))"

definition cond_write_av_list :: "cond_expand \<Rightarrow> policydb \<Rightarrow> bool \<Rightarrow> avtab \<Rightarrow> avtab_ptr set \<Rightarrow> avtab_ptr list \<Rightarrow> writer" where
  "cond_write_av_list expand p mcompat t marked l =
     (case (if old_version p then expand l else Some (l, t, marked)) of None \<Rightarrow> w_fail
      | Some (l, t, marked) \<Rightarrow>
          let l = filter (\<lambda>q. q \<in> marked) l in
          w_seq (w_words [len32 l]) (w_all (map (write_cond_item p mcompat t) l)))"

definition cond_write_node :: "cond_expand \<Rightarrow> policydb \<Rightarrow> bool \<Rightarrow> avtab \<Rightarrow> avtab_ptr set \<Rightarrow> cond_node \<Rightarrow> writer" where
  "cond_write_node expand p mcompat t marked n = w_all
     [w_words [word_of_int (cur_state n)], w_words [len32 (cexpr n)],
      w_all (map (\<lambda>e. w_words [ce_type e, ce_bool e]) (cexpr n)),
      cond_write_av_list expand p mcompat t marked (true_list n), cond_write_av_list expand p mcompat t marked (false_list n)]"

definition cond_write_list :: "cond_expand \<Rightarrow> policydb \<Rightarrow> bool \<Rightarrow> avtab \<Rightarrow> avtab_ptr set \<Rightarrow> cond_node list \<Rightarrow> writer" where
  "cond_write_list expand p mcompat t marked ns =
     w_seq (w_words [len32 ns]) (w_all (map (cond_write_node expand p mcompat t marked) ns))"

end
