(* ===== verification/Sepol_Module_File.thy ===== *)
theory Sepol_Module_File
  imports Sepol_Transitions Sepol_Conditional
begin

text \<open>
  The blocks of rules of policy modules (policydb.c, write.c, conditional.c): the rules before
  they are expanded, the declarations with their symbols, conditionals and scopes, the blocks,
  and the tables of scopes.
\<close>

section \<open>Rules\<close>

text \<open>A rule of a module; the position in the source is not in the file.\<close>

record avrule =
  avr_specified :: u32
  avr_flags :: u32
  avr_stypes :: pf_type_set
  avr_ttypes :: pf_type_set
  avr_perms :: "(u32 \<times> u32) list"
  avr_xperms :: "avtab_extended_perms option"

definition AVRULE_XPERMS :: u32 where "AVRULE_XPERMS = 0x0100 OR 0x0200 OR 0x0400 OR 0x0800"

definition avrule_xperms_ok :: "pf_version \<Rightarrow> int \<Rightarrow> bool" where
  "avrule_xperms_ok v platform \<longleftrightarrow> \<not> pv_vers v < 18 \<and> platform = SEPOL_TARGET_SELINUX"

definition avrule_write :: "pf_version \<Rightarrow> int \<Rightarrow> avrule \<Rightarrow> writer" where
  "avrule_write v platform r = w_all
     [w_words [avr_specified r, avr_flags r], type_set_write (avr_stypes r), type_set_write (avr_ttypes r),
      w_words [len32 (avr_perms r)], w_all (map (\<lambda>c. w_words [fst c, snd c]) (avr_perms r)),
      w_when (avr_specified r AND AVRULE_XPERMS \<noteq> 0)
        (if \<not> avrule_xperms_ok v platform then w_fail
         else case avr_xperms r of None \<Rightarrow> w_crash
           | Some x \<Rightarrow> w_all [w_put [xspecified x], w_put [driver x], w_words (take 8 (perms x))])]"

definition avrule_write_list :: "pf_version \<Rightarrow> int \<Rightarrow> avrule list \<Rightarrow> writer" where
  "avrule_write_list v platform rs = w_seq (w_words [len32 rs]) (w_all (map (avrule_write v platform) rs))"

definition class_perm_read :: "(u32 \<times> u32) reader" where
  "class_perm_read = r_bind (r_words 2) (\<lambda>buf. r_ok (buf ! 0, buf ! 1))"

definition avrule_xperms_read :: "avtab_extended_perms option reader" where
  "avrule_xperms_read = r_bind (r_bytes 1) (\<lambda>s. r_bind (r_bytes 1) (\<lambda>d. r_bind (r_words 8) (\<lambda>p.
     r_ok (Some \<lparr>xspecified = s ! 0, driver = d ! 0, perms = p\<rparr>))))"

definition avrule_read :: "pf_version \<Rightarrow> int \<Rightarrow> avrule reader" where
  "avrule_read v platform = r_bind (r_words 2) (\<lambda>buf.
     r_bind type_set_read (\<lambda>st. r_bind type_set_read (\<lambda>tt. r_bind (r_words 1) (\<lambda>len.
     r_bind (r_list (unat (len ! 0)) class_perm_read) (\<lambda>ps.
     r_bind (r_when (buf ! 0 AND AVRULE_XPERMS \<noteq> 0) (r_check (avrule_xperms_ok v platform) avrule_xperms_read) None) (\<lambda>x.
       r_ok \<lparr>avr_specified = buf ! 0, avr_flags = buf ! 1, avr_stypes = st, avr_ttypes = tt, avr_perms = ps, avr_xperms = x\<rparr>))))))"

definition avrule_read_list :: "pf_version \<Rightarrow> int \<Rightarrow> avrule list reader" where
  "avrule_read_list v platform = r_bind (r_words 1) (\<lambda>len. r_list (unat (len ! 0)) (avrule_read v platform))"

section \<open>Role, filename and range rules\<close>

record role_trans_rule =
  rr_roles :: role_set
  rr_types :: pf_type_set
  rr_classes :: ebitmap
  rr_new_role :: u32

definition only_process :: "ebitmap \<Rightarrow> bool" where
  "only_process e \<longleftrightarrow> list_all (\<lambda>i. i = unat SECCLASS_PROCESS - 1) (positive_bits e)"

definition role_trans_rule_write :: "pf_version \<Rightarrow> role_trans_rule list \<Rightarrow> writer" where
  "role_trans_rule_write v t =
     (let new_role = 12 \<le> pv_vers v; kept = (\<lambda>tr. new_role \<or> only_process (rr_classes tr)) in
      w_seq (w_words [len32 (filter kept t)])
        (w_all (map (\<lambda>tr. if \<not> kept tr then w_skip
           else w_all [role_set_write (rr_roles tr), type_set_write (rr_types tr), w_when new_role (w_ebitmap (rr_classes tr)),
             w_words [rr_new_role tr]]) t)))"

definition process_class :: "ebitmap reader" where
  "process_class = (case ebitmap_set_bit ebitmap_init (SECCLASS_PROCESS - 1) True of (e, rc) \<Rightarrow> r_check (rc = 0) (r_ok e))"

definition role_trans_rule_read :: "pf_version \<Rightarrow> role_trans_rule list reader" where
  "role_trans_rule_read v = r_bind (r_words 1) (\<lambda>nel. r_list (unat (nel ! 0))
     (r_bind role_set_read (\<lambda>rs. r_bind type_set_read (\<lambda>ts.
      r_bind (if 12 \<le> pv_vers v then r_ebitmap else process_class) (\<lambda>cs. r_bind (r_words 1) (\<lambda>buf.
        r_ok \<lparr>rr_roles = rs, rr_types = ts, rr_classes = cs, rr_new_role = buf ! 0\<rparr>))))))"

record role_allow_rule =
  al_roles :: role_set
  al_new_roles :: role_set

definition role_allow_rule_write :: "role_allow_rule list \<Rightarrow> writer" where
  "role_allow_rule_write r = w_seq (w_words [len32 r])
     (w_all (map (\<lambda>ra. w_seq (role_set_write (al_roles ra)) (role_set_write (al_new_roles ra))) r))"

definition role_allow_rule_read :: "role_allow_rule list reader" where
  "role_allow_rule_read = r_bind (r_words 1) (\<lambda>nel. r_list (unat (nel ! 0))
     (r_bind role_set_read (\<lambda>a. r_bind role_set_read (\<lambda>b. r_ok \<lparr>al_roles = a, al_new_roles = b\<rparr>))))"

record filename_trans_rule =
  fr_stypes :: pf_type_set
  fr_ttypes :: pf_type_set
  fr_tclass :: u32
  fr_name :: bytes
  fr_otype :: u32

definition filename_trans_rule_write :: "filename_trans_rule list \<Rightarrow> writer" where
  "filename_trans_rule_write t = w_seq (w_words [len32 t]) (w_all (map (\<lambda>r. w_all
     [w_words [len32 (fr_name r)], w_put (fr_name r), type_set_write (fr_stypes r), type_set_write (fr_ttypes r),
      w_words [fr_tclass r, fr_otype r]]) t))"

definition filename_trans_rule_read :: "filename_trans_rule list reader" where
  "filename_trans_rule_read = r_bind (r_words 1) (\<lambda>nel. r_list (unat (nel ! 0))
     (r_bind (r_words 1) (\<lambda>b. let len = unat (b ! 0) in r_check (\<not> zero_or_saturated 32 len)
       (r_bind (r_key len) (\<lambda>name. r_bind type_set_read (\<lambda>st. r_bind type_set_read (\<lambda>tt. r_bind (r_words 2) (\<lambda>buf.
          r_ok \<lparr>fr_stypes = st, fr_ttypes = tt, fr_tclass = buf ! 0, fr_name = name, fr_otype = buf ! 1\<rparr>))))))))"

definition range_trans_rule_write :: "range_trans_rule list \<Rightarrow> writer" where
  "range_trans_rule_write t = w_seq (w_words [len32 t]) (w_all (map (\<lambda>r. w_all
     [type_set_write (rtr_stypes r), type_set_write (rtr_ttypes r), w_ebitmap (rtr_tclasses r),
      mls_write_semantic_range_helper (rtr_trange r)]) t))"

definition range_trans_rule_read :: "range_trans_rule list reader" where
  "range_trans_rule_read = r_bind (r_words 1) (\<lambda>nel. r_list (unat (nel ! 0))
     (r_bind type_set_read (\<lambda>st. r_bind type_set_read (\<lambda>tt. r_bind r_ebitmap (\<lambda>cs. r_bind mls_read_semantic_range_helper (\<lambda>r.
        r_ok \<lparr>rtr_stypes = st, rtr_ttypes = tt, rtr_tclasses = cs, rtr_trange = r\<rparr>))))))"

section \<open>Conditionals\<close>

text \<open>A conditional of a declaration: its lists hold rules, not pointers.\<close>

record mod_cond =
  mc_state :: int
  mc_expr :: "cond_expr list"
  mc_true :: "avrule list"
  mc_false :: "avrule list"
  mc_flags :: u32

definition tunable_sep :: "pf_version \<Rightarrow> bool" where "tunable_sep v \<longleftrightarrow> mod_from v 14"

definition cond_write_mod_node :: "pf_version \<Rightarrow> int \<Rightarrow> mod_cond \<Rightarrow> writer" where
  "cond_write_mod_node v platform n = w_all
     [w_words [word_of_int (mc_state n)], w_words [len32 (mc_expr n)],
      w_all (map (\<lambda>e. w_words [ce_type e, ce_bool e]) (mc_expr n)),
      avrule_write_list v platform (mc_true n), avrule_write_list v platform (mc_false n),
      w_when (tunable_sep v) (w_words [mc_flags n])]"

definition cond_write_mod_list :: "pf_version \<Rightarrow> int \<Rightarrow> mod_cond list \<Rightarrow> writer" where
  "cond_write_mod_list v platform ns = w_seq (w_words [len32 ns]) (w_all (map (cond_write_mod_node v platform) ns))"

definition cond_read_mod_node :: "pf_version \<Rightarrow> int \<Rightarrow> u32 \<Rightarrow> mod_cond reader" where
  "cond_read_mod_node v platform bool_nprim = r_bind (r_words 1) (\<lambda>st. r_bind (r_words 1) (\<lambda>len.
     r_bind (r_list (int_count (len ! 0)) (cond_read_expr bool_nprim)) (\<lambda>es.
     r_bind (avrule_read_list v platform) (\<lambda>t. r_bind (avrule_read_list v platform) (\<lambda>f.
     r_bind (r_when (tunable_sep v) (r_words 1) [0]) (\<lambda>fl.
       r_ok \<lparr>mc_state = sint (st ! 0), mc_expr = es, mc_true = t, mc_false = f, mc_flags = fl ! 0\<rparr>))))))"

text \<open>
  The table of conditional rules is allocated for as many rules as the rule table has. A module
  has none, and no table is made.
\<close>

definition cond_read_mod_list :: "pf_version \<Rightarrow> int \<Rightarrow> u32 \<Rightarrow> avtab \<Rightarrow> avtab \<Rightarrow> (mod_cond list \<times> avtab) reader" where
  "cond_read_mod_list v platform bool_nprim te t0 = r_bind (r_words 1) (\<lambda>len.
     case avtab_alloc t0 (avnel te) of (t, rc) \<Rightarrow>
       r_check (rc = 0) (r_bind (r_list (int_count (len ! 0)) (cond_read_mod_node v platform bool_nprim)) (\<lambda>ns. r_ok (ns, t))))"

section \<open>Declarations and blocks\<close>

text \<open>The symbols a declaration requires or declares; \<open>class_perms_len\<close> is the length of the second list.\<close>

record scope_index =
  si_scope :: "ebitmap list"
  si_class_perms :: "ebitmap list"

record avrule_decl =
  de_id :: u32
  de_enabled :: u32
  de_conds :: "mod_cond list"
  de_avrules :: "avrule list"
  de_role_tr :: "role_trans_rule list"
  de_role_allow :: "role_allow_rule list"
  de_filename_trans :: "filename_trans_rule list"
  de_range_tr :: "range_trans_rule list"
  de_required :: scope_index
  de_declared :: scope_index
  de_symtab :: pf_symtabs

text \<open>A block; \<open>bl_enabled\<close> is the index of the declaration the pointer \<open>enabled\<close> points to.\<close>

record avrule_block =
  bl_decls :: "avrule_decl list"
  bl_enabled :: "nat option"
  bl_flags :: u32

definition AVRULE_OPTIONAL :: u32 where "AVRULE_OPTIONAL = 1"

definition new_scope_index :: scope_index where
  "new_scope_index = \<lparr>si_scope = replicate SYM_NUM ebitmap_init, si_class_perms = []\<rparr>"

text \<open>The tables of a declaration are smaller than those of the policy.\<close>

definition empty_symtabs :: pf_symtabs where
  "empty_symtabs = \<lparr>pf_commons = new_symtab 2, pf_classes = new_symtab 4, pf_roles = new_symtab 8, pf_types = new_symtab 32,
     pf_users = new_symtab 16, pf_bools = new_symtab 4, pf_levels = new_symtab 2, pf_cats = new_symtab 2\<rparr>"

definition avrule_decl_create :: "u32 \<Rightarrow> avrule_decl" where
  "avrule_decl_create i = \<lparr>de_id = i, de_enabled = 0, de_conds = [], de_avrules = [], de_role_tr = [], de_role_allow = [],
     de_filename_trans = [], de_range_tr = [], de_required = new_scope_index, de_declared = new_scope_index, de_symtab = empty_symtabs\<rparr>"

definition scope_index_write :: "nat \<Rightarrow> scope_index \<Rightarrow> writer" where
  "scope_index_write n s = w_all
     [w_all (map (\<lambda>i. w_ebitmap (si_scope s ! i)) [0..<n]), w_words [len32 (si_class_perms s)], w_all (map w_ebitmap (si_class_perms s))]"

definition scope_index_read :: "nat \<Rightarrow> scope_index reader" where
  "scope_index_read n = r_bind (r_list n r_ebitmap) (\<lambda>sc. r_bind (r_words 1) (\<lambda>buf.
     r_bind (r_list (unat (buf ! 0)) r_ebitmap) (\<lambda>cp.
       r_ok \<lparr>si_scope = sc @ drop n (si_scope new_scope_index), si_class_perms = cp\<rparr>)))"

text \<open>
  The tables of a declaration. Unlike for those of the policy, the attributes that are left
  out in old formats stay counted, and a count without values is no error.
\<close>

definition write_decl_symtabs :: "pf_version \<Rightarrow> nat \<Rightarrow> pf_symtabs \<Rightarrow> writer" where
  "write_decl_symtabs v n s = w_all (take n
     [write_symtab (\<lambda>_ n. n) common_write (pf_commons s),
      write_symtab (\<lambda>_ n. n) (class_write v) (pf_classes s),
      write_symtab (\<lambda>_ n. n) (role_write v) (pf_roles s),
      write_symtab (\<lambda>_ n. n) (type_write v) (pf_types s),
      write_symtab (\<lambda>_ n. n) (user_write v) (pf_users s),
      write_symtab (\<lambda>_ n. n) (cond_write_bool v) (pf_bools s),
      write_symtab (\<lambda>_ n. n) sens_write (pf_levels s),
      write_symtab (\<lambda>_ n. n) cat_write (pf_cats s)])"

definition read_decl_symtab :: "('d tab \<Rightarrow> 'd tab reader) \<Rightarrow> 'd symtab \<Rightarrow> 'd symtab reader" where
  "read_decl_symtab f s = r_bind (r_words 2) (\<lambda>buf.
     r_bind (r_times (unat (buf ! 1)) f (table s)) (\<lambda>t. r_ok (s\<lparr>table := t, nprim := buf ! 0\<rparr>)))"

text \<open>Classes look for their common part among those of the policy.\<close>

definition read_decl_symtabs :: "pf_version \<Rightarrow> pf_common tab \<Rightarrow> nat \<Rightarrow> pf_symtabs \<Rightarrow> pf_symtabs reader" where
  "read_decl_symtabs v p_commons n s =
     r_bind (r_when (0 < n) (read_decl_symtab common_read (pf_commons s)) (pf_commons s)) (\<lambda>commons.
     r_bind (r_when (1 < n) (read_decl_symtab (class_read v p_commons) (pf_classes s)) (pf_classes s)) (\<lambda>classes.
     r_bind (r_when (2 < n) (read_decl_symtab (role_read v) (pf_roles s)) (pf_roles s)) (\<lambda>roles.
     r_bind (r_when (3 < n) (read_decl_symtab (type_read v) (pf_types s)) (pf_types s)) (\<lambda>types.
     r_bind (r_when (4 < n) (read_decl_symtab (user_read v) (pf_users s)) (pf_users s)) (\<lambda>users.
     r_bind (r_when (5 < n) (read_decl_symtab (cond_read_bool v) (pf_bools s)) (pf_bools s)) (\<lambda>bools.
     r_bind (r_when (6 < n) (read_decl_symtab sens_read (pf_levels s)) (pf_levels s)) (\<lambda>levels.
     r_bind (r_when (7 < n) (read_decl_symtab cat_read (pf_cats s)) (pf_cats s)) (\<lambda>cats.
       r_ok \<lparr>pf_commons = commons, pf_classes = classes, pf_roles = roles, pf_types = types, pf_users = users,
             pf_bools = bools, pf_levels = levels, pf_cats = cats\<rparr>))))))))"

definition avrule_decl_write :: "pf_version \<Rightarrow> int \<Rightarrow> nat \<Rightarrow> avrule_decl \<Rightarrow> writer" where
  "avrule_decl_write v platform n d = w_all
     [w_words [de_id d, de_enabled d], cond_write_mod_list v platform (de_conds d), avrule_write_list v platform (de_avrules d),
      role_trans_rule_write v (de_role_tr d), role_allow_rule_write (de_role_allow d),
      w_when (11 \<le> pv_vers v) (filename_trans_rule_write (de_filename_trans d)),
      w_when (6 \<le> pv_vers v) (range_trans_rule_write (de_range_tr d)),
      scope_index_write n (de_required d), scope_index_write n (de_declared d), write_decl_symtabs v n (de_symtab d)]"

text \<open>What a reader of a declaration needs of the policy: version, platform, common parts, number of booleans, rule table.\<close>

record decl_env =
  dv_version :: pf_version
  dv_platform :: int
  dv_commons :: "pf_common tab"
  dv_bool_nprim :: u32
  dv_rules :: avtab

definition avrule_decl_read :: "decl_env \<Rightarrow> nat \<Rightarrow> avtab \<Rightarrow> (avrule_decl \<times> avtab) reader" where
  "avrule_decl_read E n t = (let v = dv_version E; pl = dv_platform E in
     r_bind (r_words 2) (\<lambda>buf.
     r_bind (cond_read_mod_list v pl (dv_bool_nprim E) (dv_rules E) t) (\<lambda>(conds, t).
     r_bind (avrule_read_list v pl) (\<lambda>rules.
     r_bind (role_trans_rule_read v) (\<lambda>rt.
     r_bind role_allow_rule_read (\<lambda>ra.
     r_bind (r_when (11 \<le> pv_vers v) filename_trans_rule_read []) (\<lambda>ft.
     r_bind (r_when (6 \<le> pv_vers v) range_trans_rule_read []) (\<lambda>rg.
     r_bind (scope_index_read n) (\<lambda>req.
     r_bind (scope_index_read n) (\<lambda>decl.
     r_bind (read_decl_symtabs v (dv_commons E) n empty_symtabs) (\<lambda>s.
       r_ok (\<lparr>de_id = buf ! 0, de_enabled = buf ! 1, de_conds = conds, de_avrules = rules, de_role_tr = rt, de_role_allow = ra,
         de_filename_trans = ft, de_range_tr = rg, de_required = req, de_declared = decl, de_symtab = s\<rparr>, t))))))))))))"

definition avrule_block_write :: "pf_version \<Rightarrow> int \<Rightarrow> nat \<Rightarrow> avrule_block list \<Rightarrow> writer" where
  "avrule_block_write v platform n bs = w_seq (w_words [len32 bs])
     (w_all (map (\<lambda>b. w_seq (w_words [len32 (bl_decls b)]) (w_all (map (avrule_decl_write v platform n) (bl_decls b)))) bs))"

text \<open>One declaration put behind the others of the block; at most one may be enabled.\<close>

definition read_block_decl :: "decl_env \<Rightarrow> nat \<Rightarrow> avrule_block \<times> avtab \<Rightarrow> (avrule_block \<times> avtab) reader" where
  "read_block_decl E n = (\<lambda>(b, t). r_bind (avrule_decl_read E n t) (\<lambda>(d, t).
     r_check (de_enabled d = 0 \<or> bl_enabled b = None)
       (r_ok (b\<lparr>bl_decls := bl_decls b @ [d], bl_enabled := (if de_enabled d \<noteq> 0 then Some (length (bl_decls b)) else bl_enabled b)\<rparr>, t))))"

definition read_block :: "decl_env \<Rightarrow> nat \<Rightarrow> avrule_block list \<times> avtab \<Rightarrow> (avrule_block list \<times> avtab) reader" where
  "read_block E n = (\<lambda>(bs, t). r_bind (r_words 1) (\<lambda>buf.
     r_bind (r_times (unat (buf ! 0)) (read_block_decl E n)
       (\<lparr>bl_decls = [], bl_enabled = None, bl_flags = (if bs \<noteq> [] then AVRULE_OPTIONAL else 0)\<rparr>, t)) (\<lambda>(b, t). r_ok (bs @ [b], t))))"

definition avrule_block_read :: "decl_env \<Rightarrow> nat \<Rightarrow> avtab \<Rightarrow> (avrule_block list \<times> avtab) reader" where
  "avrule_block_read E n t = r_bind (r_words 1) (\<lambda>buf. r_times (unat (buf ! 0)) (read_block E n) ([], t))"

section \<open>Scopes\<close>

type_synonym scope_table = "(bytes, scope_datum) hashtab option"

definition scope_write :: "bytes \<Rightarrow> scope_datum \<Rightarrow> writer" where
  "scope_write key s = w_all
     [w_words [len32 key], w_put key, w_words ([sc_scope s, len32 (decl_ids s)] @ decl_ids s)]"

text \<open>\<open>known\<close> searches the symbol table of the same kind; \<open>roles\<close> says that the kind is that of roles.\<close>

definition scope_read :: "(bytes \<Rightarrow> bool res) \<Rightarrow> bool \<Rightarrow> scope_table \<Rightarrow> scope_table reader" where
  "scope_read known roles h = r_bind (r_words 1) (\<lambda>b. let len = unat (b ! 0) in
     r_check (\<not> zero_or_saturated 64 len) (r_bind (r_key len) (\<lambda>key fp.
       case known key of Inl e \<Rightarrow> Inl e
       | Inr found \<Rightarrow> r_check found (r_bind (r_words 2) (\<lambda>buf. r_check (buf ! 1 \<noteq> 0)
           (r_bind (r_words (unat (buf ! 1))) (\<lambda>ids.
             if strcmp key OBJECT_R = 0 \<and> roles then r_ok h
             else r_insert h key \<lparr>sc_scope = buf ! 0, decl_ids = ids\<rparr>)))) fp)))"

end
