(* ===== verification/Sepol_Policy_File.thy ===== *)
theory Sepol_Policy_File
  imports Sepol_Context_File Sepol_Module_File
begin

text \<open>
  A whole policy file (policydb.c, write.c, policydb_convert.c): the policy as the library
  keeps it, its initial state, the writer and the reader of the file, for kernel policies and
  modules, and the conversion to and from an image in memory.
\<close>

section \<open>The policy\<close>

text \<open>
  \<open>te_cond_avtab\<close> and \<open>cond_list\<close> are \<open>po_cond_rules\<close> and \<open>po_conds\<close>, with the set of the
  nodes whose \<open>parse_context\<close> is set; \<open>global\<close> is the list of blocks.
\<close>

record pf_policy =
  po_version :: pf_version
  po_name :: "bytes option"
  po_module_version :: "bytes option"
  po_platform :: int
  po_unsupported :: bool
  po_mls :: bool
  po_unknown :: u32
  po_tabs :: pf_symtabs
  po_scopes :: "scope_table list"
  po_global :: "avrule_block list"
  po_decls :: "avrule_decl option list"
  po_index :: pf_index
  po_rules :: avtab
  po_cond_rules :: avtab
  po_cond_marked :: "avtab_ptr set"
  po_conds :: "cond_node list"
  po_role_tr :: "role_trans list"
  po_role_allow :: "role_allow list"
  po_ocontexts :: "ocontext list list"
  po_genfs :: "genfs list"
  po_range_tr :: range_table
  po_filename_trans :: filename_table
  po_type_attr :: "ebitmap list"
  po_attr_type :: "ebitmap list"
  po_policycaps :: ebitmap
  po_permissive :: ebitmap

definition symtab_sizes :: "u32 list" where "symtab_sizes = [2, 32, 16, 512, 128, 16, 16, 16]"

definition zero_avtab :: avtab where
  "zero_avtab = \<lparr>avslots = None, avnel = 0, nslot = 0, avmask = 0\<rparr>"

text \<open>
  \<open>policydb_init\<close>: the policy is cleared, which makes it a kernel policy of version 0 for
  SELinux, and its tables are made; \<open>roles_init\<close> declares the role \<open>object_r\<close>, in the scope of the
  first declaration.
\<close>

definition new_policy :: "pf_symtabs \<Rightarrow> scope_table \<Rightarrow> pf_policy" where
  "new_policy tabs role_scope =
     \<lparr>po_version = \<lparr>pv_type = POLICY_KERN, pv_vers = 0\<rparr>, po_name = None, po_module_version = None,
      po_platform = SEPOL_TARGET_SELINUX, po_unsupported = False, po_mls = False, po_unknown = 0, po_tabs = tabs,
      po_scopes = (map (\<lambda>n. table (new_symtab n)) symtab_sizes)[2 := role_scope],
      po_global = [\<lparr>bl_decls = [avrule_decl_create 1], bl_enabled = None, bl_flags = 0\<rparr>], po_decls = [], po_index = no_index,
      po_rules = zero_avtab, po_cond_rules = zero_avtab, po_cond_marked = {}, po_conds = [], po_role_tr = [], po_role_allow = [],
      po_ocontexts = replicate OCON_NUM [], po_genfs = [], po_range_tr = init_range_tr, po_filename_trans = init_filename_trans,
      po_type_attr = [], po_attr_type = [], po_policycaps = ebitmap_init, po_permissive = ebitmap_init\<rparr>"

definition policydb_init :: "pf_policy option res" where
  "policydb_init = res_opt_bind init_symtabs (\<lambda>tabs.
     res_bind (hashtab_insert (table (new_symtab 16)) OBJECT_R \<lparr>sc_scope = SCOPE_DECL, decl_ids = [1]\<rparr>) (\<lambda>(role_scope, rc).
       Inr (if rc \<noteq> 0 then None else Some (new_policy tabs role_scope))))"

section \<open>Writing\<close>

definition POLICYDB_MAGIC :: u32 where "POLICYDB_MAGIC = 0xf97cff8c"
definition POLICYDB_MOD_MAGIC :: u32 where "POLICYDB_MOD_MAGIC = 0xf97cff8d"
definition POLICYDB_STRING :: bytes where "POLICYDB_STRING = [83, 69, 32, 76, 105, 110, 117, 120]"
definition POLICYDB_XEN_STRING :: bytes where "POLICYDB_XEN_STRING = [88, 101, 110, 70, 108, 97, 115, 107]"
definition POLICYDB_MOD_STRING :: bytes where
  "POLICYDB_MOD_STRING = [83, 69, 32, 76, 105, 110, 117, 120, 32, 77, 111, 100, 117, 108, 101]"
definition POLICYDB_STRING_MAX_LENGTH :: nat where "POLICYDB_STRING_MAX_LENGTH = 32"
definition POLICYDB_CONFIG_MLS :: u32 where "POLICYDB_CONFIG_MLS = 1"
definition POLICYDB_CONFIG_UNKNOWN_MASK :: u32 where "POLICYDB_CONFIG_UNKNOWN_MASK = 0 OR 2 OR 4"
definition POLICYDB_CONFIG_ANDROID_NETLINK_ROUTE :: u32 where "POLICYDB_CONFIG_ANDROID_NETLINK_ROUTE = push_bit 31 1"
definition POLICYDB_VERSION_MIN :: u32 where "POLICYDB_VERSION_MIN = 15"
definition POLICYDB_VERSION_MAX :: u32 where "POLICYDB_VERSION_MAX = 32"
definition MOD_POLICYDB_VERSION_MIN :: u32 where "MOD_POLICYDB_VERSION_MIN = 4"
definition MOD_POLICYDB_VERSION_MAX :: u32 where "MOD_POLICYDB_VERSION_MAX = 20"

definition target_string :: "int \<Rightarrow> bytes" where
  "target_string platform = (if platform = SEPOL_TARGET_SELINUX then POLICYDB_STRING else POLICYDB_XEN_STRING)"

definition is_module :: "pf_version \<Rightarrow> bool" where
  "is_module v \<longleftrightarrow> pv_type v = POLICY_BASE \<or> pv_type v = POLICY_MOD"

text \<open>The part of the policy the writers of rules read: its kind, platform, version and rules.\<close>

definition rule_policy :: "pf_policy \<Rightarrow> policydb" where
  "rule_policy p = \<lparr>policy_type = pv_type (po_version p), target_platform = po_platform p, policyvers = pv_vers (po_version p),
     p_classes = \<lparr>table = None, nprim = 0\<rparr>, p_types = \<lparr>table = None, nprim = 0\<rparr>, type_store = [],
     types_scope = \<lparr>table = None, nprim = 0\<rparr>, scope_store = [], p_roles = [], roles_nprim = 0, declared_types = ebitmap_init,
     te_avtab = po_rules p, type_attr_map = po_type_attr p, attr_type_map = po_attr_type p, permissive_map = po_permissive p\<rparr>"

type_synonym avtab_expand = "policydb \<Rightarrow> avtab \<Rightarrow> avtab option"

definition w_avtab :: "avtab_expand \<Rightarrow> policydb \<Rightarrow> bool \<Rightarrow> avtab \<Rightarrow> writer" where
  "w_avtab expand p mc t fp =
     (case avtab_write expand p mc t fp of Inl e \<Rightarrow> Inl e | Inr (fp, rc) \<Rightarrow> Inr (if rc \<noteq> 0 then None else Some fp))"

text \<open>A string of a module, which is null in a policy that was never given one.\<close>

definition w_string :: "bytes option \<Rightarrow> writer" where
  "w_string s = (case s of None \<Rightarrow> w_crash | Some s \<Rightarrow> w_seq (w_words [len32 s]) (w_put s))"

definition has_mls_format :: "pf_version \<Rightarrow> bool" where
  "has_mls_format v \<longleftrightarrow> \<not> (pv_type v = POLICY_KERN \<and> pv_vers v < 19 \<or> is_module v \<and> pv_vers v < 5)"

definition has_policycaps :: "pf_version \<Rightarrow> bool" where
  "has_policycaps v \<longleftrightarrow> kern_from v 22 \<or> is_module v \<and> 7 \<le> pv_vers v"

definition has_range_section :: "pf_version \<Rightarrow> bool" where
  "has_range_section v \<longleftrightarrow> kern_from v 19 \<or> pv_type v = POLICY_BASE \<and> 5 \<le> pv_vers v \<and> pv_vers v < 6"

definition write_config :: "pf_policy \<Rightarrow> u32" where
  "write_config p = (if po_mls p then POLICYDB_CONFIG_MLS else 0) OR (POLICYDB_CONFIG_UNKNOWN_MASK AND po_unknown p) OR
     POLICYDB_CONFIG_ANDROID_NETLINK_ROUTE"

definition write_scope :: "scope_table \<Rightarrow> writer" where
  "write_scope h = (case h of None \<Rightarrow> w_crash | Some t \<Rightarrow> w_seq (w_words [nel t]) (w_table scope_write h))"

definition w_nth :: "('a \<Rightarrow> writer) \<Rightarrow> 'a list \<Rightarrow> nat \<Rightarrow> writer" where
  "w_nth f xs i = (if i < length xs then f (xs ! i) else (\<lambda>_. Inl Oob_Read))"

definition write_rules :: "avtab_expand \<Rightarrow> cond_expand \<Rightarrow> bool \<Rightarrow> nat \<Rightarrow> pf_policy \<Rightarrow> writer" where
  "write_rules expand cexpand mc sym_num p =
     (let v = po_version p in
      if kern v then w_all
        [w_avtab expand (rule_policy p) mc (po_rules p),
         w_when (16 \<le> pv_vers v) (cond_write_list cexpand (rule_policy p) mc (po_cond_rules p) (po_cond_marked p) (po_conds p)),
         role_trans_write v (po_role_tr p), role_allow_write (po_role_allow p),
         w_when (25 \<le> pv_vers v) (filename_trans_write v (po_filename_trans p))]
      else w_seq (avrule_block_write v (po_platform p) sym_num (po_global p)) (w_all (map (w_nth write_scope (po_scopes p)) [0..<sym_num])))"

text \<open>\<open>policydb_write\<close>: \<open>expand\<close> and \<open>cexpand\<close> are the expansions in front of formats before version 20, \<open>mc\<close> the static flag of avtab.c.\<close>

definition policydb_write :: "avtab_expand \<Rightarrow> cond_expand \<Rightarrow> bool \<Rightarrow> pf_policy \<Rightarrow> writer" where
  "policydb_write expand cexpand mc p =
     (let v = po_version p; name = (if kern v then target_string (po_platform p) else POLICYDB_MOD_STRING) in
      if po_unsupported p then w_fail
      else if po_mls p \<and> \<not> has_mls_format v then w_fail
      else w_all
        [w_words [if kern v then POLICYDB_MAGIC else POLICYDB_MOD_MAGIC, len32 name], w_put name,
         (case policydb_lookup_compat (pv_vers v) (pv_type v) (po_platform p) of None \<Rightarrow> w_fail
          | Some (_, _, sym_num, ocon_num, _) \<Rightarrow> w_all
              [w_words ((if kern v then [] else [pv_type v]) @ [pv_vers v, write_config p, word_of_nat sym_num, word_of_nat ocon_num]),
               w_when (pv_type v = POLICY_MOD) (w_seq (w_string (po_name p)) (w_string (po_module_version p))),
               w_when (has_policycaps v) (w_ebitmap (po_policycaps p)),
               w_when (kern_from v 23) (w_ebitmap (po_permissive p)),
               write_symtabs v sym_num (po_tabs p),
               write_rules expand cexpand mc sym_num p,
               ocontext_write v (po_platform p) ocon_num (po_ocontexts p), genfs_write v (po_genfs p),
               w_when (has_range_section v) (range_write v (po_range_tr p)),
               w_when (kern_from v 20) (w_all (map (w_nth w_ebitmap (po_type_attr p)) [0..<unat (nprim (pf_types (po_tabs p)))]))])])"

section \<open>Levels of the users of a base module\<close>

text \<open>
  \<open>mls_semantic_level_expand\<close>: the names of categories in its messages are read from an array
  that may be shorter than the number of the category.
\<close>

fun expand_cats :: "pf_index \<Rightarrow> mls_level option \<Rightarrow> nat list \<Rightarrow> ebitmap \<Rightarrow> ebitmap option res" where
  "expand_cats ix l [] e = Inr (Some e)"
| "expand_cats ix None (i # is) e = Inl Null_Deref"
| "expand_cats ix (Some l) (i # is) e =
     (if \<not> eget (lev_cat l) i then (if i < length (ix_cats ix) then Inr None else Inl Oob_Read)
      else res_opt_bind (put_bit True i e) (expand_cats ix (Some l) is))"

primrec expand_cat_ranges :: "pf_index \<Rightarrow> mls_level option \<Rightarrow> (u32 \<times> u32) list \<Rightarrow> ebitmap \<Rightarrow> ebitmap option res" where
  "expand_cat_ranges ix l [] e = Inr (Some e)"
| "expand_cat_ranges ix l (c # cs) e =
     (if fst c > snd c then
        (if unat (fst c - 1) < length (ix_cats ix) \<and> unat (snd c - 1) < length (ix_cats ix) then Inr None else Inl Oob_Read)
      else res_opt_bind (expand_cats ix l [unat (fst c - 1)..<unat (snd c)] e) (expand_cat_ranges ix l cs))"

definition mls_semantic_level_expand :: "pf_symtabs \<Rightarrow> pf_index \<Rightarrow> bool \<Rightarrow> mls_semantic_level \<Rightarrow> mls_level option res" where
  "mls_semantic_level_expand s ix mls sl =
     (if \<not> mls \<or> sem_sens sl = 0 then Inr (Some mls_level_init)
      else if unat (sem_sens sl) > length (ix_levels ix) then Inl Oob_Read
      else case ix_levels ix ! (unat (sem_sens sl) - 1) of None \<Rightarrow> Inl Null_Deref
        | Some (key, _) \<Rightarrow> res_bind (hashtab_search (table (pf_levels s)) key) (\<lambda>d.
            case d of None \<Rightarrow> Inr None
            | Some levdatum \<Rightarrow> res_opt_bind (expand_cat_ranges ix (ld_level levdatum) (sem_cats sl) ebitmap_init) (\<lambda>c.
                Inr (Some \<lparr>lev_sens = sem_sens sl, lev_cat = c\<rparr>))))"

definition mls_semantic_range_expand :: "pf_symtabs \<Rightarrow> pf_index \<Rightarrow> bool \<Rightarrow> mls_semantic_range \<Rightarrow> mls_range option res" where
  "mls_semantic_range_expand s ix mls sr =
     res_opt_bind (mls_semantic_level_expand s ix mls (sem_low sr)) (\<lambda>l.
     res_opt_bind (mls_semantic_level_expand s ix mls (sem_high sr)) (\<lambda>h.
       Inr (if \<not> mls_level_dom h l then None else Some \<lparr>range_low = l, range_high = h\<rparr>)))"

text \<open>\<open>policydb_user_cache\<close> for a base module; the second map holds the new levels of the users.\<close>

type_synonym base_caches = "((bytes \<Rightarrow> ebitmap option) \<times> (bytes \<Rightarrow> (mls_range \<times> mls_level) option)) res"

definition user_cache_base :: "pf_symtabs \<Rightarrow> pf_index \<Rightarrow> bool \<Rightarrow> bytes \<Rightarrow> user_datum \<Rightarrow> base_caches \<Rightarrow> base_caches \<times> int" where
  "user_cache_base s ix mls key d c =
     (case c of Inl e \<Rightarrow> (c, - 1)
      | Inr (m, x) \<Rightarrow>
          (case res_opt_bind (role_set_expand (us_roles d) (nprim (pf_roles s))) (\<lambda>roles.
              res_opt_bind (mls_semantic_range_expand s ix mls (us_range d)) (\<lambda>r.
              res_opt_bind (mls_semantic_level_expand s ix mls (us_dfltlevel d)) (\<lambda>l. Inr (Some (roles, r, l))))) of
             Inl e \<Rightarrow> (Inl e, - 1)
           | Inr None \<Rightarrow> (c, - 1)
           | Inr (Some (roles, r, l)) \<Rightarrow> (Inr (m(key \<mapsto> roles), x(key \<mapsto> (r, l))), 0)))"

definition with_levels :: "(bytes \<Rightarrow> (mls_range \<times> mls_level) option) \<Rightarrow> bytes \<times> user_datum \<Rightarrow> bytes \<times> user_datum" where
  "with_levels x = (\<lambda>(k, d). (k, case x k of None \<Rightarrow> d | Some (r, l) \<Rightarrow> d\<lparr>us_exp_range := r, us_exp_dfltlevel := l\<rparr>))"

definition expand_users :: "(bytes \<Rightarrow> (mls_range \<times> mls_level) option) \<Rightarrow> pf_symtabs \<Rightarrow> pf_symtabs" where
  "expand_users x s = s\<lparr>pf_users := (pf_users s)\<lparr>table :=
     map_option (\<lambda>t. t\<lparr>htable := map (map (with_levels x)) (htable t)\<rparr>) (table (pf_users s))\<rparr>\<rparr>"

definition index_base :: "pf_symtabs \<Rightarrow> pf_index \<Rightarrow> bool \<Rightarrow> (pf_symtabs \<times> pf_index) option res" where
  "index_base s ix mls = res_opt_bind (index_arrays s ix) (\<lambda>ix.
     case hashtab_map (table (pf_users s)) (user_cache_base s ix mls) (Inr (Map.empty, Map.empty)) of
       (Inl e, _) \<Rightarrow> Inl e
     | (Inr (m, x), rc) \<Rightarrow> Inr (if rc \<noteq> 0 then None
         else Some (expand_users x s, ix\<lparr>user_cache := m, ix_users := map (map_option (with_levels x)) (ix_users ix)\<rparr>)))"

text \<open>\<open>policydb_index_decls\<close>: the declarations by their numbers.\<close>

primrec index_decls :: "nat \<Rightarrow> avrule_decl list \<Rightarrow> avrule_decl option list \<Rightarrow> avrule_decl option list option" where
  "index_decls n [] a = Some a"
| "index_decls n (d # ds) a =
     (if de_id d < 1 \<or> unat (de_id d) > n then None
      else if a ! (unat (de_id d) - 1) \<noteq> None then None
      else index_decls n ds (a[unat (de_id d) - 1 := Some d]))"

definition policydb_index_decls :: "avrule_block list \<Rightarrow> avrule_decl option list option" where
  "policydb_index_decls bs = (let ds = concat (map bl_decls bs) in index_decls (length ds) ds (replicate (length ds) None))"

text \<open>The three calls that follow the rules.\<close>

definition index_policy :: "pf_policy \<Rightarrow> pf_policy option res" where
  "index_policy p =
     (case policydb_index_decls (po_global p) of None \<Rightarrow> Inr None
      | Some ds \<Rightarrow>
          (case policydb_index_classes (po_tabs p) (po_index p) of (ix, rc) \<Rightarrow>
             if rc \<noteq> 0 then Inr None
             else res_opt_bind (if pv_type (po_version p) = POLICY_BASE then index_base (po_tabs p) ix (po_mls p)
                 else res_opt_bind (policydb_index_others (po_tabs p) ix) (\<lambda>ix. Inr (Some (po_tabs p, ix)))) (\<lambda>(s, ix).
               Inr (Some (p\<lparr>po_decls := ds, po_tabs := s, po_index := ix\<rparr>)))))"

section \<open>Reading\<close>

definition r_avtab :: "u32 list \<Rightarrow> u32 \<Rightarrow> bool \<Rightarrow> avtab \<Rightarrow> (avtab \<times> bool) reader" where
  "r_avtab U vers mc t fp =
     (case avtab_read U vers mc fp t of Inl e \<Rightarrow> Inl e
      | Inr (t, mc, fp, rc) \<Rightarrow> Inr (if rc \<noteq> 0 then None else Some ((t, mc), fp)))"

definition r_lift :: "'a option res \<Rightarrow> 'a reader" where
  "r_lift m fp = (case m of Inl e \<Rightarrow> Inl e | Inr None \<Rightarrow> Inr None | Inr (Some x) \<Rightarrow> Inr (Some (x, fp)))"

definition r_crash :: "fault \<Rightarrow> 'a reader" where "r_crash e fp = Inl e"

primrec r_fold :: "('a \<Rightarrow> 's \<Rightarrow> 's reader) \<Rightarrow> 'a list \<Rightarrow> 's \<Rightarrow> 's reader" where
  "r_fold f [] s = r_ok s"
| "r_fold f (x # xs) s = r_bind (f x s) (r_fold f xs)"

definition find_target :: "bytes \<Rightarrow> int option" where
  "find_target s = find (\<lambda>i. strcmp s (target_string i) = 0) [SEPOL_TARGET_SELINUX, SEPOL_TARGET_XEN]"

text \<open>The magic number and the identifier: the kind of the policy as far as it is known, and its platform.\<close>

definition read_identity :: "pf_policy \<Rightarrow> (u32 \<times> pf_policy) reader" where
  "read_identity p = r_bind (r_words 2) (\<lambda>buf. let len = unat (buf ! 1) in
     r_check (buf ! 0 = POLICYDB_MAGIC \<or> buf ! 0 = POLICYDB_MOD_MAGIC) (
     r_check (\<not> (len = 0 \<or> len > POLICYDB_STRING_MAX_LENGTH)) (
     r_bind (r_key len) (\<lambda>str.
       if buf ! 0 = POLICYDB_MAGIC then
         (case find_target str of None \<Rightarrow> r_fail | Some platform \<Rightarrow> r_ok (POLICY_KERN, p\<lparr>po_platform := platform\<rparr>))
       else r_check (strcmp str POLICYDB_MOD_STRING = 0) (r_ok (POLICY_MOD, p))))))"

definition version_in_range :: "pf_version \<Rightarrow> bool" where
  "version_in_range v \<longleftrightarrow>
     (if pv_type v = POLICY_KERN then POLICYDB_VERSION_MIN \<le> pv_vers v \<and> pv_vers v \<le> POLICYDB_VERSION_MAX
      else MOD_POLICYDB_VERSION_MIN \<le> pv_vers v \<and> pv_vers v \<le> MOD_POLICYDB_VERSION_MAX)"

text \<open>The version, the configuration and the numbers of tables and of lists of contexts.\<close>

definition read_header :: "u32 \<times> pf_policy \<Rightarrow> (pf_policy \<times> nat \<times> nat) reader" where
  "read_header = (\<lambda>(ty, p). r_bind (r_words (if ty = POLICY_KERN then 4 else 5)) (\<lambda>buf.
     let v = (if ty = POLICY_MOD then \<lparr>pv_type = buf ! 0, pv_vers = buf ! 1\<rparr> else \<lparr>pv_type = ty, pv_vers = buf ! 0\<rparr>);
         b = (if ty = POLICY_MOD then drop 2 buf else drop 1 buf);
         p = p\<lparr>po_version := v, po_mls := (b ! 0 AND POLICYDB_CONFIG_MLS \<noteq> 0), po_unknown := b ! 0 AND POLICYDB_CONFIG_UNKNOWN_MASK\<rparr>
     in r_check (ty = POLICY_MOD \<longrightarrow> is_module v) (r_check (version_in_range v) (
        case policydb_lookup_compat (pv_vers v) (pv_type v) (po_platform p) of None \<Rightarrow> r_fail
        | Some (_, _, sym_num, ocon_num, _) \<Rightarrow>
            r_check (unat (b ! 1) = sym_num \<and> unat (b ! 2) = ocon_num) (r_ok (p, sym_num, ocon_num))))))"

definition r_string :: "bytes reader" where
  "r_string = r_bind (r_words 1) (\<lambda>buf. str_read (unat (buf ! 0)))"

definition known_symbol :: "pf_symtabs \<Rightarrow> nat \<Rightarrow> bytes \<Rightarrow> bool res" where
  "known_symbol s i k =
     (if i = 0 then map_sum id (\<lambda>d. d \<noteq> None) (hashtab_search (table (pf_commons s)) k)
      else if i = 1 then map_sum id (\<lambda>d. d \<noteq> None) (hashtab_search (table (pf_classes s)) k)
      else if i = 2 then map_sum id (\<lambda>d. d \<noteq> None) (hashtab_search (table (pf_roles s)) k)
      else if i = 3 then map_sum id (\<lambda>d. d \<noteq> None) (hashtab_search (table (pf_types s)) k)
      else if i = 4 then map_sum id (\<lambda>d. d \<noteq> None) (hashtab_search (table (pf_users s)) k)
      else if i = 5 then map_sum id (\<lambda>d. d \<noteq> None) (hashtab_search (table (pf_bools s)) k)
      else if i = 6 then map_sum id (\<lambda>d. d \<noteq> None) (hashtab_search (table (pf_levels s)) k)
      else map_sum id (\<lambda>d. d \<noteq> None) (hashtab_search (table (pf_cats s)) k))"

definition read_scopes :: "pf_symtabs \<Rightarrow> nat \<Rightarrow> scope_table list \<Rightarrow> scope_table list reader" where
  "read_scopes s i hs = r_bind (r_words 1) (\<lambda>nel.
     r_bind (r_times (unat (nel ! 0)) (scope_read (known_symbol s i) (i = 2)) (hs ! i)) (\<lambda>h. r_ok (hs[i := h])))"

text \<open>The rules; \<open>mc\<close> is the static flag of avtab.c.\<close>

definition read_kernel_rules :: "u32 list \<Rightarrow> pf_policy \<times> bool \<Rightarrow> (pf_policy \<times> bool) reader" where
  "read_kernel_rules U = (\<lambda>(p, mc). let v = po_version p in
     r_bind (r_avtab U (pv_vers v) mc (po_rules p)) (\<lambda>(te, mc).
     r_bind (if 16 \<le> pv_vers v
         then r_bind (cond_read_list U (pv_vers v) (nprim (pf_bools (po_tabs p))) te mc (po_cond_rules p)) (\<lambda>s.
           r_ok (p\<lparr>po_cond_rules := cs_table s, po_cond_marked := cs_marked s, po_conds := cs_nodes s\<rparr>, cs_compat s))
         else r_ok (p, mc)) (\<lambda>(p, mc).
     r_bind (role_trans_read v) (\<lambda>rt. r_bind role_allow_read (\<lambda>ra.
     r_bind (r_when (25 \<le> pv_vers v) (filename_trans_read (po_filename_trans p)) (po_filename_trans p)) (\<lambda>ft.
       r_ok (p\<lparr>po_rules := te, po_role_tr := rt, po_role_allow := ra, po_filename_trans := ft\<rparr>, mc)))))))"

definition read_blocks :: "nat \<Rightarrow> pf_policy \<Rightarrow> pf_policy reader" where
  "read_blocks sym_num p =
     r_bind (avrule_block_read \<lparr>dv_version = po_version p, dv_platform = po_platform p, dv_commons = table (pf_commons (po_tabs p)),
         dv_bool_nprim = nprim (pf_bools (po_tabs p)), dv_rules = po_rules p\<rparr> sym_num (po_cond_rules p)) (\<lambda>(bs, t).
       r_check (bs \<noteq> []) (r_bind (r_fold (read_scopes (po_tabs p)) [0..<sym_num] (po_scopes p)) (\<lambda>sc.
         r_ok (p\<lparr>po_global := bs, po_cond_rules := t, po_scopes := sc\<rparr>))))"

text \<open>
  The range transitions. Those of an old base module become rules of the enabled declaration of
  its first block; the pointer to it is null when no declaration is enabled.
\<close>

definition set_range_rules :: "range_trans_rule list \<Rightarrow> avrule_block list \<Rightarrow> avrule_block list" where
  "set_range_rules rules bs =
     (case bs of [] \<Rightarrow> [] | b # bs \<Rightarrow>
        (case bl_enabled b of None \<Rightarrow> b
         | Some i \<Rightarrow> b\<lparr>bl_decls := (bl_decls b)[i := (bl_decls b ! i)\<lparr>de_range_tr := rules\<rparr>]\<rparr>) # bs)"

definition read_ranges :: "pf_policy \<Rightarrow> pf_policy reader" where
  "read_ranges p = (let v = po_version p in
     if kern v \<or> bl_enabled (hd (po_global p)) \<noteq> None then
       r_bind (range_read v (po_range_tr p)) (\<lambda>(h, rules).
         r_ok (p\<lparr>po_range_tr := h, po_global := (if rules = [] then po_global p else set_range_rules rules (po_global p))\<rparr>))
     else r_bind (r_words 1) (\<lambda>nel.
       if nel ! 0 = 0 then r_ok p
       else r_bind (range_entry v) (\<lambda>(rt, r). case rule_of_range rt r of None \<Rightarrow> r_fail | Some _ \<Rightarrow> r_crash Null_Deref)))"

text \<open>The maps between types and attributes, of which the file has the one.\<close>

fun add_attrs :: "nat \<Rightarrow> nat \<Rightarrow> nat list \<Rightarrow> ebitmap list \<Rightarrow> ebitmap list option" where
  "add_attrs n i [] m = Some m"
| "add_attrs n i (j # js) m =
     (if i = j then add_attrs n i js m
      else if j \<ge> n then None
      else case ebitmap_set_bit (m ! j) (word_of_nat i) True of (e, rc) \<Rightarrow>
        if rc \<noteq> 0 then None else add_attrs n i js (m[j := e]))"

definition add_type :: "type_datum val_index \<Rightarrow> nat \<Rightarrow> ebitmap list \<Rightarrow> ebitmap list option" where
  "add_type types i m =
     (case types ! i of None \<Rightarrow> Some m
      | Some (_, d) \<Rightarrow>
          if flavor d = TYPE_ATTRIB then Some m
          else case ebitmap_set_bit (m ! i) (word_of_nat i) True of (e, rc) \<Rightarrow> if rc \<noteq> 0 then None else Some (m[i := e]))"

definition read_type_map :: "pf_version \<Rightarrow> type_datum val_index \<Rightarrow> nat \<Rightarrow> ebitmap list \<times> ebitmap list \<Rightarrow> (ebitmap list \<times> ebitmap list) reader" where
  "read_type_map v types i = (\<lambda>(ta, at).
     r_bind (r_when (20 \<le> pv_vers v) r_ebitmap ebitmap_init) (\<lambda>e.
     case (if 20 \<le> pv_vers v then add_attrs (length ta) i (positive_bits e) at else Some at) of None \<Rightarrow> r_fail
     | Some at \<Rightarrow> (case ebitmap_set_bit e (word_of_nat i) True of (e, rc) \<Rightarrow>
         r_check (rc = 0) (case add_type types i at of None \<Rightarrow> r_fail | Some at \<Rightarrow> r_ok (ta[i := e], at)))))"

definition read_type_maps :: "pf_policy \<Rightarrow> pf_policy reader" where
  "read_type_maps p = (let n = unat (nprim (pf_types (po_tabs p))) in
     r_bind (r_fold (read_type_map (po_version p) (ix_types (po_index p))) [0..<n] (replicate n ebitmap_init, replicate n ebitmap_init)) (\<lambda>(ta, at).
       r_ok (p\<lparr>po_type_attr := ta, po_attr_type := at\<rparr>)))"

definition policy_env :: "pf_policy \<Rightarrow> pf_env" where
  "policy_env p = \<lparr>en_version = po_version p, en_tabs = po_tabs p, en_index = po_index p, en_mls = po_mls p\<rparr>"

text \<open>What follows the header: the names of a module and the bitmaps of a policy, and the symbols.\<close>

definition read_symbols :: "nat \<Rightarrow> pf_policy \<Rightarrow> pf_policy reader" where
  "read_symbols sym_num p = (let v = po_version p in
     r_bind (if pv_type v = POLICY_MOD then r_bind r_string (\<lambda>n. r_bind r_string (\<lambda>m. r_ok (p\<lparr>po_name := Some n, po_module_version := Some m\<rparr>)))
       else r_ok p) (\<lambda>p.
     r_bind (r_when (has_policycaps v) r_ebitmap (po_policycaps p)) (\<lambda>caps.
     r_bind (r_when (kern_from v 23) r_ebitmap (po_permissive p)) (\<lambda>perm.
     r_bind (read_symtabs v sym_num (po_tabs p)) (\<lambda>s.
       r_ok (p\<lparr>po_policycaps := caps, po_permissive := perm, po_tabs := s\<rparr>))))))"

definition read_contexts :: "nat \<Rightarrow> pf_policy \<Rightarrow> pf_policy reader" where
  "read_contexts ocon_num p =
     r_bind (ocontext_read (policy_env p) (po_platform p) ocon_num) (\<lambda>oc. r_bind (genfs_read (policy_env p)) (\<lambda>gs.
       r_ok (p\<lparr>po_ocontexts := oc, po_genfs := gs\<rparr>)))"

definition policydb_read :: "u32 list \<Rightarrow> bool \<Rightarrow> pf_policy \<Rightarrow> (pf_policy \<times> bool) reader" where
  "policydb_read U mc p =
     r_bind (read_identity p) (\<lambda>ip. r_bind (read_header ip) (\<lambda>(p, sym_num, ocon_num).
     r_bind (read_symbols sym_num p) (\<lambda>p.
     r_bind (if kern (po_version p) then read_kernel_rules U (p, mc) else r_bind (read_blocks sym_num p) (\<lambda>p. r_ok (p, mc))) (\<lambda>(p, mc).
     r_bind (r_lift (index_policy p)) (\<lambda>p.
     r_bind (read_contexts ocon_num p) (\<lambda>p.
     r_bind (if has_range_section (po_version p) then read_ranges p else r_ok p) (\<lambda>p.
     r_bind (if kern (po_version p) then read_type_maps p else r_ok p) (\<lambda>p. r_ok (p, mc)))))))))"

section \<open>Images\<close>

definition policydb_from_image :: "u32 list \<Rightarrow> bool \<Rightarrow> bytes \<Rightarrow> pf_policy \<Rightarrow> (pf_policy \<times> bool) option res" where
  "policydb_from_image U mc data p = (case policydb_read U mc p data of Inl e \<Rightarrow> Inl e | Inr r \<Rightarrow> Inr (map_option fst r))"

text \<open>
  The length is counted first; the image is written into memory of that length, whose contents
  are \<open>junk\<close> until then, and read into a new policy as a check.
\<close>

definition policydb_to_image ::
  "u32 list \<Rightarrow> avtab_expand \<Rightarrow> cond_expand \<Rightarrow> bool \<Rightarrow> bytes \<Rightarrow> pf_policy \<Rightarrow> (bytes \<times> bool) option res" where
  "policydb_to_image U expand cexpand mc junk p =
     res_opt_bind (policydb_write expand cexpand mc p (PF_LEN 0)) (\<lambda>fp.
     case fp of PF_USE_MEMORY _ _ \<Rightarrow> Inr None
     | PF_LEN len \<Rightarrow> res_opt_bind (policydb_write expand cexpand mc p (PF_USE_MEMORY len [])) (\<lambda>fp.
         case fp of PF_LEN _ \<Rightarrow> Inr None
         | PF_USE_MEMORY room d \<Rightarrow> let image = d @ take room junk in
             res_opt_bind policydb_init (\<lambda>tmp. res_opt_bind (policydb_from_image U mc image tmp) (\<lambda>(_, mc).
               Inr (Some (image, mc))))))"

end
