(* ===== verification/Sepol_Symtab_Correct.thy ===== *)
theory Sepol_Symtab_Correct
  imports Sepol_Symtab_File
begin

text \<open>
  The symbol tables of a kernel policy survive the file: each function of \<open>read_f\<close> inserts
  what its function of \<open>write_f\<close> has written, and the tables read are the tables written,
  chain by chain.
\<close>

section \<open>Levels and constraints\<close>

lemma cpy_same: "fst (ebitmap_cpy e) = e"
proof -
  have "cpy_nodes ns = ns" for ns by (induction ns) simp_all
  then show ?thesis by (simp add: ebitmap_cpy_def)
qed

lemma cmp_same: "ebitmap_cmp a b \<longleftrightarrow> a = b"
proof -
  have "cmp_nodes m n \<longleftrightarrow> m = n" for m n by (induction m n rule: cmp_nodes.induct) auto
  then show ?thesis by (cases a, cases b) (auto simp: ebitmap_cmp_def)
qed

definition type_set_ok :: "pf_type_set \<Rightarrow> bool" where
  "type_set_ok x \<longleftrightarrow> ebitmap_ok (ts_types x) \<and> ebitmap_ok (ts_negset x)"

definition type_set_enc :: "pf_type_set \<Rightarrow> bytes" where
  "type_set_enc x = ebitmap_write (ts_types x) @ ebitmap_write (ts_negset x) @ le32s [ts_flags x]"

lemma emits_type_set [emit_intros]: "emits (type_set_write x) (type_set_enc x)"
  unfolding type_set_write_def by (rule emits_eq, (rule emit_intros)+) (simp add: type_set_enc_def)

lemma accepts_type_set [accept_intros]: "type_set_ok x \<Longrightarrow> accepts type_set_read (type_set_enc x) x"
  by (cases x, intro acceptsI) (simp add: type_set_read_def type_set_enc_def type_set_ok_def run_simps)

definition level_ok :: "mls_level \<Rightarrow> bool" where "level_ok l \<longleftrightarrow> ebitmap_ok (lev_cat l)"

definition level_enc :: "mls_level \<Rightarrow> bytes" where "level_enc l = le32s [lev_sens l] @ ebitmap_write (lev_cat l)"

lemma emits_level [emit_intros]: "emits (mls_write_level l) (level_enc l)"
  unfolding mls_write_level_def by (rule emits_eq, (rule emit_intros)+) (simp add: level_enc_def)

lemma accepts_level [accept_intros]: "level_ok l \<Longrightarrow> accepts mls_read_level (level_enc l) l"
  by (cases l, intro acceptsI) (simp add: mls_read_level_def level_enc_def level_ok_def run_simps)

definition range_ok :: "mls_range \<Rightarrow> bool" where
  "range_ok r \<longleftrightarrow> level_ok (range_low r) \<and> level_ok (range_high r)"

definition range_enc :: "mls_range \<Rightarrow> bytes" where
  "range_enc r = (if range_low r = range_high r
     then le32s [1] @ le32s [lev_sens (range_low r)] @ ebitmap_write (lev_cat (range_low r))
     else le32s [2] @ le32s [lev_sens (range_low r), lev_sens (range_high r)] @
       ebitmap_write (lev_cat (range_low r)) @ ebitmap_write (lev_cat (range_high r)))"

lemma level_eq: "mls_level_eq a b \<longleftrightarrow> a = b"
  by (cases a, cases b) (simp add: mls_level_eq_def cmp_same)

lemma le32s_append: "le32s (a # b # bs) = le32s [a] @ le32s (b # bs)"
  by (simp add: le32s_def)

lemma emits_range [emit_intros]: "emits (mls_write_range_helper r) (range_enc r)"
proof -
  have s: "len32 [x] = 1" "len32 [x, y] = 2" for x y :: u32 by (simp_all add: len32_def)
  show ?thesis
    unfolding mls_write_range_helper_def Let_def level_eq
    by (rule emits_eq, (rule emit_intros)+) (auto simp: range_enc_def s le32s_append)
qed

lemma accepts_range [accept_intros]:
  assumes "range_ok r"
  shows "accepts mls_read_range_helper (range_enc r) r"
proof (rule acceptsI)
  fix x
  show "mls_read_range_helper (range_enc r @ x) = r_ok r x"
  proof (cases "range_low r = range_high r")
    case True
    then show ?thesis using assms
      by (cases r, cases "range_low r")
        (simp add: mls_read_range_helper_def range_enc_def range_ok_def level_ok_def run_simps cpy_same Let_def)
  next
    case False
    then show ?thesis using assms
      by (cases r, cases "range_low r", cases "range_high r")
        (simp add: mls_read_range_helper_def range_enc_def range_ok_def level_ok_def run_simps cpy_same Let_def)
  qed
qed

lemmas run_type_set [run_simps] = run_bind [OF accepts_type_set]
lemmas run_level [run_simps] = run_bind [OF accepts_level]
lemmas run_range [run_simps] = run_bind [OF accepts_range]

text \<open>A constraint that the file can hold: acceptable operands, no names where none are written.\<close>

definition expr_ok :: "pf_version \<Rightarrow> constraint_expr \<Rightarrow> bool" where
  "expr_ok v e \<longleftrightarrow>
     (if cx_type e = CEXPR_NAMES then ebitmap_ok (cx_names e) else cx_names e = ebitmap_init) \<and>
     (if cx_type e = CEXPR_NAMES \<and> with_type_names v then type_set_ok (cx_type_names e) else cx_type_names e = type_set_init)"

fun exprs_ok :: "pf_version \<Rightarrow> bool \<Rightarrow> int \<Rightarrow> constraint_expr list \<Rightarrow> bool" where
  "exprs_ok v ax depth [] \<longleftrightarrow> depth = 0"
| "exprs_ok v ax depth (e # es) \<longleftrightarrow> expr_ok v e \<and>
     (case expr_depth ax (cx_type e) (cx_attr e) depth of None \<Rightarrow> False | Some depth \<Rightarrow> exprs_ok v ax depth es)"

definition expr_enc :: "pf_version \<Rightarrow> constraint_expr \<Rightarrow> bytes" where
  "expr_enc v e = le32s [cx_type e, cx_attr e, cx_op e] @
     (if cx_type e = CEXPR_NAMES then
        ebitmap_write (cx_names e) @ (if with_type_names v then type_set_enc (cx_type_names e) else [])
      else [])"

definition cons_ok :: "pf_version \<Rightarrow> bool \<Rightarrow> constraint_node \<Rightarrow> bool" where
  "cons_ok v ax c \<longleftrightarrow> short (cn_expr c) \<and> exprs_ok v ax (- 1) (cn_expr c)"

definition cons_enc :: "pf_version \<Rightarrow> constraint_node \<Rightarrow> bytes" where
  "cons_enc v c = le32s [cn_permissions c, len32 (cn_expr c)] @ concat (map (expr_enc v) (cn_expr c))"

lemma exprs_no_xtarget:
  "exprs_ok v ax depth es \<Longrightarrow> e \<in> set es \<Longrightarrow> cx_type e = CEXPR_NAMES \<Longrightarrow> ax \<or> cx_attr e AND CEXPR_XTARGET = 0"
  by (induction es arbitrary: depth)
    (auto simp: expr_depth_def CEXPR_NOT_def CEXPR_AND_def CEXPR_OR_def CEXPR_ATTR_def CEXPR_NAMES_def split: option.splits if_splits)

lemma emits_expr:
  assumes "cx_type e = CEXPR_NAMES \<Longrightarrow> ax \<or> cx_attr e AND CEXPR_XTARGET = 0"
  shows "emits (write_cons_expr v ax e) (expr_enc v e)"
proof -
  have w: "write_cons_expr v ax e = w_seq (w_words [cx_type e, cx_attr e, cx_op e])
      (if cx_type e = CEXPR_NAMES then w_seq (w_ebitmap (cx_names e)) (w_when (with_type_names v) (type_set_write (cx_type_names e)))
       else w_skip)"
    using assms by (auto simp: write_cons_expr_def)
  have "emits (if cx_type e = CEXPR_NAMES then w_seq (w_ebitmap (cx_names e)) (w_when (with_type_names v) (type_set_write (cx_type_names e)))
      else w_skip) (if cx_type e = CEXPR_NAMES then ebitmap_write (cx_names e) @
        (if with_type_names v then type_set_enc (cx_type_names e) else []) else [])"
    by (intro emits_if emits_seq emits_ebitmap emits_when emits_type_set emits_skip)
  then show ?thesis unfolding w expr_enc_def by (rule emits_seq [OF emits_words])
qed

lemma emits_cons [emit_intros]:
  assumes "\<forall>c\<in>set cs. cons_ok v ax c"
  shows "emits (write_cons_helper v cs ax) (concat (map (cons_enc v) cs))"
  unfolding write_cons_helper_def
proof (rule emits_list)
  fix c assume c: "c \<in> set cs"
  have "emits (write_cons_expr v ax e) (expr_enc v e)" if "e \<in> set (cn_expr c)" for e
    using exprs_no_xtarget [of v ax "- 1" "cn_expr c" e] assms c that by (intro emits_expr) (auto simp: cons_ok_def)
  then show "emits (w_seq (w_words [cn_permissions c, len32 (cn_expr c)]) (w_all (map (write_cons_expr v ax) (cn_expr c)))) (cons_enc v c)"
    unfolding cons_enc_def by (intro emits_seq emits_words emits_list)
qed

lemma accepts_exprs: "exprs_ok v ax depth es \<Longrightarrow> accepts (read_exprs v ax (length es) depth) (concat (map (expr_enc v) es)) es"
proof (induction es arbitrary: depth)
  case (Cons e es)
  obtain d where d: "expr_depth ax (cx_type e) (cx_attr e) depth = Some d" "exprs_ok v ax d es" "expr_ok v e"
    using Cons.prems by (auto split: option.splits)
  obtain ty at op nm tn where e: "e = \<lparr>cx_type = ty, cx_attr = at, cx_op = op, cx_names = nm, cx_type_names = tn\<rparr>"
    by (cases e)
  note IH = run_bind [OF Cons.IH [OF d(2)]]
  show ?case
  proof (rule acceptsI)
    fix r
    show "read_exprs v ax (length (e # es)) depth (concat (map (expr_enc v) (e # es)) @ r) = r_ok (e # es) r"
      using d(1,3) by (simp add: e expr_enc_def [of v e] expr_enc_def [of v "\<lparr>cx_type = ty, cx_attr = at, cx_op = op, cx_names = nm, cx_type_names = tn\<rparr>"]
          expr_ok_def run_simps IH split: if_splits)
  qed
qed (simp add: r_check_def accepts_ok)

lemma accepts_cons [accept_intros]:
  assumes "\<forall>c\<in>set cs. cons_ok v ax c" and "length cs = n"
  shows "accepts (read_cons_helper v n ax) (concat (map (cons_enc v) cs)) cs"
  unfolding read_cons_helper_def
proof (rule accepts_list [OF assms(2)])
  fix c assume c_in: "c \<in> set cs"
  obtain pm es where c: "c = \<lparr>cn_permissions = pm, cn_expr = es\<rparr>" by (cases c)
  have es: "short es" "exprs_ok v ax (- 1) es" using c_in assms(1) by (auto simp: cons_ok_def c)
  show "accepts (r_bind (r_words 2) (\<lambda>buf. r_bind (read_exprs v ax (unat (buf ! 1)) (- 1)) (\<lambda>es.
      r_ok \<lparr>cn_permissions = buf ! 0, cn_expr = es\<rparr>))) (cons_enc v c) c"
    using es(1) by (intro acceptsI) (simp add: c cons_enc_def run_simps run_bind [OF accepts_exprs [OF es(2)]])
qed

lemmas run_cons [run_simps] = run_bind [OF accepts_cons]

section \<open>Permissions, commons and classes\<close>

definition perm_ok :: "bytes \<Rightarrow> perm_datum \<Rightarrow> bool" where "perm_ok k d \<longleftrightarrow> name_ok k"

definition perm_enc :: "bytes \<Rightarrow> perm_datum \<Rightarrow> bytes" where "perm_enc k d = le32s [len32 k, perm_value d] @ k"

interpretation perm: symbol_codec perm_write perm_read perm_enc perm_ok "\<lambda>_ _. False"
proof
  fix k :: bytes and d :: perm_datum and h :: "perm_datum tab" and r
  assume ok: "perm_ok k d"
  show "emits (perm_write k d) (perm_enc k d)"
    unfolding perm_write_def by (rule emits_eq, (rule emit_intros)+) (simp add: perm_enc_def)
  show "perm_read h (perm_enc k d @ r) = (if False then Inr (Some (h, r)) else r_insert h k d r)"
    using ok by (cases d) (simp add: perm_read_def perm_enc_def perm_ok_def run_simps)
  show "sym_ok k" using ok by (simp add: perm_ok_def name_okD)
qed

text \<open>A table of permissions: of the size the code gives it, and of storable permissions.\<close>

definition perms_ok :: "perm_datum symtab \<Rightarrow> bool" where
  "perms_ok s \<longleftrightarrow> (\<exists>t. table s = Some t \<and> perm.storable t \<and> hsize t = PERM_SYMTAB_SIZE)"

definition perms_enc :: "perm_datum symtab \<Rightarrow> bytes" where
  "perms_enc s = (case table s of None \<Rightarrow> [] | Some t \<Rightarrow> perm.table_enc t)"

definition perms_nel :: "perm_datum symtab \<Rightarrow> u32" where
  "perms_nel s = (case table s of None \<Rightarrow> 0 | Some t \<Rightarrow> nel t)"

lemma emits_perms [emit_intros]: "perms_ok s \<Longrightarrow> emits (w_table perm_write (table s)) (perms_enc s)"
  using perm.written by (auto simp: perms_ok_def perms_enc_def)

lemma symtab_init_fresh: "symtab_init \<lparr>table = None, nprim = 0\<rparr> n = (\<lparr>table = Some (fresh n), nprim = 0\<rparr>, 0)"
  by (simp add: symtab_init_def create_empty)

lemma new_symtab_fresh: "new_symtab n = \<lparr>table = Some (fresh n), nprim = 0\<rparr>"
  by (simp add: new_symtab_def symtab_init_fresh)

lemma run_symtab [run_simps]: "r_bind (r_symtab n) f = f \<lparr>table = Some (fresh n), nprim = 0\<rparr>"
  by (simp add: r_symtab_def symtab_init_fresh r_check_def run_ok)

lemma accepts_perms [accept_intros]:
  assumes "perms_ok s"
  shows "accepts (r_times (unat (perms_nel s)) perm_read (Some (fresh PERM_SYMTAB_SIZE))) (perms_enc s) (table s)"
proof -
  obtain t where t: "table s = Some t" "perm.storable t" "hsize t = PERM_SYMTAB_SIZE" using assms by (auto simp: perms_ok_def)
  show ?thesis
    using perm.table_read_new [OF t(2,3)] by (simp add: t(1) perms_enc_def perms_nel_def)
qed

lemmas run_perms [run_simps] = run_bind [OF accepts_perms]

definition common_ok :: "bytes \<Rightarrow> pf_common \<Rightarrow> bool" where
  "common_ok k d \<longleftrightarrow> name_ok k \<and> perms_ok (com_permissions d)"

definition common_enc :: "bytes \<Rightarrow> pf_common \<Rightarrow> bytes" where
  "common_enc k d = le32s [len32 k, com_value d, nprim (com_permissions d), perms_nel (com_permissions d)] @ k @
     perms_enc (com_permissions d)"

interpretation common: symbol_codec common_write common_read common_enc common_ok "\<lambda>_ _. False"
proof
  fix k :: bytes and d :: pf_common and h :: "pf_common tab" and r
  assume ok: "common_ok k d"
  obtain t where t: "table (com_permissions d) = Some t" using ok by (auto simp: common_ok_def perms_ok_def)
  have e: "emits (w_table perm_write (Some t)) (perms_enc (com_permissions d))"
    using emits_perms ok unfolding t [symmetric] common_ok_def by blast
  show "emits (common_write k d) (common_enc k d)"
    unfolding common_write_def t option.case
    by (rule emits_eq, (rule emit_intros e)+) (simp add: common_enc_def perms_nel_def t)
  obtain vl ps where dd: "d = \<lparr>com_value = vl, com_permissions = ps\<rparr>" by (cases d)
  obtain n tb where "ps = \<lparr>table = tb, nprim = n\<rparr>" by (cases ps)
  note d = dd [unfolded this]
  show "common_read h (common_enc k d @ r) = (if False then Inr (Some (h, r)) else r_insert h k d r)"
    using ok unfolding d by (simp add: common_read_def common_enc_def common_ok_def name_okD run_simps)
  show "sym_ok k" using ok by (simp add: common_ok_def name_okD)
qed

text \<open>The common of a class is the one of that name in the table.\<close>

definition comkey_ok :: "pf_common tab \<Rightarrow> pf_class \<Rightarrow> bool" where
  "comkey_ok commons d \<longleftrightarrow>
     (case cl_comkey d of None \<Rightarrow> cl_comdatum d = None
      | Some k \<Rightarrow> name_ok k \<and> hashtab_search commons k = Inr (cl_comdatum d) \<and> cl_comdatum d \<noteq> None)"

definition class_ok :: "pf_version \<Rightarrow> pf_common tab \<Rightarrow> bytes \<Rightarrow> pf_class \<Rightarrow> bool" where
  "class_ok v commons k d \<longleftrightarrow> name_ok k \<and> comkey_ok commons d \<and> perms_ok (cl_permissions d) \<and>
     short (cl_constraints d) \<and> (\<forall>c\<in>set (cl_constraints d). cons_ok v False c) \<and>
     short (cl_validatetrans d) \<and> (\<forall>c\<in>set (cl_validatetrans d). cons_ok v True c) \<and>
     (\<not> has_validatetrans v \<longrightarrow> cl_validatetrans d = []) \<and>
     (\<not> has_defaults v \<longrightarrow> cl_default_user d = 0 \<and> cl_default_role d = 0 \<and> cl_default_range d = 0) \<and>
     (\<not> has_default_type v \<longrightarrow> cl_default_type d = 0) \<and>
     (cl_default_range d = DEFAULT_GLBLUB \<longrightarrow> glblub_version v)"

definition comkey_of :: "pf_class \<Rightarrow> bytes" where
  "comkey_of d = (case cl_comkey d of None \<Rightarrow> [] | Some k \<Rightarrow> k)"

definition class_enc :: "pf_version \<Rightarrow> bytes \<Rightarrow> pf_class \<Rightarrow> bytes" where
  "class_enc v k d =
     le32s [len32 k, len32 (comkey_of d), cl_value d, nprim (cl_permissions d), perms_nel (cl_permissions d), len32 (cl_constraints d)] @
     k @ comkey_of d @ perms_enc (cl_permissions d) @ concat (map (cons_enc v) (cl_constraints d)) @
     (if has_validatetrans v then le32s [len32 (cl_validatetrans d)] @ concat (map (cons_enc v) (cl_validatetrans d)) else []) @
     (if has_defaults v then le32s [ucast (cl_default_user d), ucast (cl_default_role d), ucast (cl_default_range d)] else []) @
     (if has_default_type v then le32s [ucast (cl_default_type d)] else [])"

lemma run_comkey [run_simps]:
  assumes "comkey_ok commons d"
  shows "r_bind (read_comkey commons (length (comkey_of d))) f (comkey_of d @ r) = f (cl_comkey d, cl_comdatum d) r"
proof (cases "cl_comkey d")
  case None
  then show ?thesis using assms by (simp add: comkey_of_def comkey_ok_def read_comkey_def run_simps)
next
  case (Some k)
  then show ?thesis
    using assms by (auto simp: comkey_of_def comkey_ok_def read_comkey_def run_simps name_okD) (simp add: r_bind_def)
qed

lemma run_when [run_simps]: "r_when True m x = m" "r_when False m x = r_ok x"
  by (simp_all add: r_when_def)

lemma ucast_back [simp]: "ucast (ucast x :: u32) = (x :: u8)"
  by (rule bit_word_eqI) (simp add: bit_simps)

lemma comkey_short:
  assumes "comkey_ok commons d"
  shows "short (comkey_of d)" and "\<not> is_saturated 64 (length (comkey_of d))"
  using assms by (auto simp: comkey_ok_def comkey_of_def short_def name_ok_def is_saturated_def split: option.splits)

lemma class_enc_read:
  assumes "class_ok v commons k d"
  shows "class_read v commons h (class_enc v k d @ r) = r_insert h k d r"
proof -
  obtain vl ck cd ps cs vt u ro ty ra where d: "d = \<lparr>cl_value = vl, cl_comkey = ck, cl_comdatum = cd,
      cl_permissions = ps, cl_constraints = cs, cl_validatetrans = vt,
      cl_default_user = u, cl_default_role = ro, cl_default_type = ty, cl_default_range = ra\<rparr>" by (cases d)
  note ok = assms [unfolded class_ok_def]
  have c: "short (comkey_of d)" "\<not> is_saturated 64 (length (comkey_of d))" using ok comkey_short by blast+
  have run: "r_bind (read_comkey commons (length (comkey_of d))) f (comkey_of d @ x) = f (ck, cd) x"
    for f :: "_ \<Rightarrow> pf_class tab reader" and x
    using run_comkey [of commons d f x] ok by (simp add: d)
  show ?thesis
    using ok c run unfolding class_read_def class_enc_def
    by (cases "has_validatetrans v"; cases "has_defaults v"; cases "has_default_type v"; cases ps)
      (simp_all add: d name_okD run_simps)
qed

interpretation clss: symbol_codec "class_write v" "class_read v commons" "class_enc v" "class_ok v commons" "\<lambda>_ _. False" for v commons
proof
  fix k :: bytes and d :: pf_class and h :: "pf_class tab" and r
  assume ok: "class_ok v commons k d"
  note D = ok [unfolded class_ok_def]
  have w: "drop_glblub v d = d" using D by (auto simp: drop_glblub_def)
  have n: "(case table (cl_permissions d) of None \<Rightarrow> 0 | Some t \<Rightarrow> nel t) = perms_nel (cl_permissions d)"
    "(case cl_comkey d of None \<Rightarrow> [] | Some k \<Rightarrow> k) = comkey_of d"
    by (simp_all add: perms_nel_def comkey_of_def)
  have e: "emits (w_table perm_write (table (cl_permissions d))) (perms_enc (cl_permissions d))"
    "emits (write_cons_helper v (cl_constraints d) False) (concat (map (cons_enc v) (cl_constraints d)))"
    "emits (write_cons_helper v (cl_validatetrans d) True) (concat (map (cons_enc v) (cl_validatetrans d)))"
    using D by (auto intro: emits_perms emits_cons)
  show "emits (class_write v k d) (class_enc v k d)"
    unfolding class_write_def Let_def w n by (rule emits_eq, (rule emit_intros e)+) (simp add: class_enc_def)
  show "class_read v commons h (class_enc v k d @ r) = (if False then Inr (Some (h, r)) else r_insert h k d r)"
    using class_enc_read [OF ok] by simp
  show "sym_ok k" using D by (simp add: name_okD)
qed

section \<open>Roles, types and users of a kernel policy\<close>

lemma kern_no_mod [simp]: "kern v \<Longrightarrow> \<not> mod_from v n"
  by (simp add: mod_from_def)

definition bounded :: "pf_version \<Rightarrow> u32 \<Rightarrow> bool" where
  "bounded v b \<longleftrightarrow> policydb_has_boundary_feature v \<or> b = 0"

definition bounds_words :: "pf_version \<Rightarrow> u32 \<Rightarrow> u32 list" where
  "bounds_words v b = (if policydb_has_boundary_feature v then [b] else [])"

text \<open>A role: no attribute, no set of types but a plain one; \<open>object_r\<close> has the value 1 and no types.\<close>

definition role_ok :: "pf_version \<Rightarrow> bytes \<Rightarrow> role_datum \<Rightarrow> bool" where
  "role_ok v k d \<longleftrightarrow> kern v \<and> name_ok k \<and> ebitmap_ok (ro_dominates d) \<and> ebitmap_ok (ts_types (ro_types d)) \<and>
     ts_negset (ro_types d) = ebitmap_init \<and> ts_flags (ro_types d) = 0 \<and> bounded v (ro_bounds d) \<and> ro_flavor d = 0 \<and>
     ro_roles d = ebitmap_init \<and> (k = OBJECT_R \<longrightarrow> ro_value d = OBJECT_R_VAL) \<and>
     (ro_value d = OBJECT_R_VAL \<longrightarrow> ts_types (ro_types d) = ebitmap_init)"

definition role_enc :: "pf_version \<Rightarrow> bytes \<Rightarrow> role_datum \<Rightarrow> bytes" where
  "role_enc v k d = le32s ([len32 k, ro_value d] @ bounds_words v (ro_bounds d)) @ k @ ebitmap_write (ro_dominates d) @
     ebitmap_write (ts_types (ro_types d))"

lemma object_r_ok: "sym_ok OBJECT_R"
  by (simp add: OBJECT_R_def sym_ok_def)

lemma is_object_r: "name_ok k \<Longrightarrow> strcmp k OBJECT_R = 0 \<longleftrightarrow> k = OBJECT_R"
  by (rule strcmp_eq) (simp_all add: object_r_ok name_okD)

lemma role_enc_read:
  assumes "role_ok v k d"
  shows "role_read v h (role_enc v k d @ r) = (if k = OBJECT_R then Inr (Some (h, r)) else r_insert h k d r)"
proof -
  obtain vl dom ts bo fl ro where dd: "d = \<lparr>ro_value = vl, ro_dominates = dom,
      ro_types = ts, ro_bounds = bo, ro_flavor = fl, ro_roles = ro\<rparr>" by (cases d)
  obtain tt tn tf where "ts = \<lparr>ts_types = tt, ts_negset = tn, ts_flags = tf\<rparr>" by (cases ts)
  note d = dd [unfolded this]
  note ok = assms [unfolded role_ok_def]
  show ?thesis
    using ok is_object_r [of k] unfolding role_read_def role_enc_def
    by (cases "policydb_has_boundary_feature v")
      (auto simp: d bounds_words_def bounded_def name_okD type_set_init_def run_simps r_ok_def)
qed

interpretation role: symbol_codec "role_write v" "role_read v" "role_enc v" "role_ok v" "\<lambda>k _. k = OBJECT_R" for v
proof
  fix k :: bytes and d :: role_datum and h :: "role_datum tab" and r
  assume ok: "role_ok v k d"
  note D = ok [unfolded role_ok_def]
  have w: "\<not> (ro_flavor d = ROLE_ATTRIB \<and> without_role_attrs v)"
    "(if kern v then w_ebitmap (if ro_value d = OBJECT_R_VAL then ebitmap_init else ts_types (ro_types d))
          else type_set_write (ro_types d)) = w_ebitmap (ts_types (ro_types d))"
    "w_when (mod_from v 13) (w_seq (w_words [ro_flavor d]) (w_ebitmap (ro_roles d))) = w_skip"
    using D by (auto simp: ROLE_ATTRIB_def w_when_def)
  show "emits (role_write v k d) (role_enc v k d)"
    unfolding role_write_def w if_not_P [OF w(1)] by (rule emits_eq, (rule emit_intros)+) (simp add: role_enc_def bounds_words_def)
  show "role_read v h (role_enc v k d @ r) = (if k = OBJECT_R then Inr (Some (h, r)) else r_insert h k d r)"
    by (rule role_enc_read [OF ok])
  show "sym_ok k" using D by (simp add: name_okD)
qed

text \<open>
  A type: the kernel format keeps that it is primary, not which number says so, and no flags;
  before version 24 neither attributes nor bounds.
\<close>

definition type_ok :: "pf_version \<Rightarrow> bytes \<Rightarrow> type_datum \<Rightarrow> bool" where
  "type_ok v k d \<longleftrightarrow> kern v \<and> name_ok k \<and> type_types d = ebitmap_init \<and> type_flags d = 0 \<and>
     (if policydb_has_boundary_feature v then (primary d = 0 \<or> primary d = 1) \<and> (flavor d = 0 \<or> flavor d = TYPE_ATTRIB)
      else flavor d = 0 \<and> type_bounds d = 0)"

definition type_enc :: "pf_version \<Rightarrow> bytes \<Rightarrow> type_datum \<Rightarrow> bytes" where
  "type_enc v k d = le32s ([len32 k, type_value d] @
     (if policydb_has_boundary_feature v then [type_properties v d, type_bounds d] else [primary d])) @ k"

lemmas type_consts = TYPE_ATTRIB_def TYPE_ALIAS_def TYPEDATUM_PROPERTY_PRIMARY_def TYPEDATUM_PROPERTY_ATTRIBUTE_def
  TYPEDATUM_PROPERTY_ALIAS_def TYPEDATUM_PROPERTY_PERMISSIVE_def

lemma type_words_back:
  assumes "type_ok v k d"
  shows "type_of_words v ([len32 k, type_value d] @
     (if policydb_has_boundary_feature v then [type_properties v d, type_bounds d] else [primary d])) = d"
proof -
  obtain vl pr fl ty fg bo where d: "d = \<lparr>type_value = vl, primary = pr, flavor = fl, type_types = ty, type_flags = fg, type_bounds = bo\<rparr>"
    by (cases d)
  show ?thesis
    using assms unfolding type_ok_def
    by (cases "policydb_has_boundary_feature v") (auto simp: d type_of_words_def type_properties_def type_consts)
qed

interpretation stype: symbol_codec "type_write v" "type_read v" "type_enc v" "type_ok v" "\<lambda>_ _. False" for v
proof
  fix k :: bytes and d :: type_datum and h :: "type_datum tab" and r
  assume ok: "type_ok v k d"
  note D = ok [unfolded type_ok_def]
  have w: "\<not> (without_type_attrs v \<and> flavor d = TYPE_ATTRIB)" "\<not> mod_from v 10" "kern v"
    using D by (auto simp: without_type_attrs_def policydb_has_boundary_feature_def kern_from_def TYPE_ATTRIB_def split: if_splits)
  show "emits (type_write v k d) (type_enc v k d)"
    unfolding type_write_def if_not_P [OF w(1)] by (rule emits_eq, (rule emit_intros)+) (simp add: w type_enc_def)
  have l: "type_words v = (if policydb_has_boundary_feature v then 4 else 3)" using w by (simp add: type_words_def)
  have b: "type_types d = ebitmap_init" using D by simp
  have "(type_of_words v ([len32 k, type_value d] @
      (if policydb_has_boundary_feature v then [type_properties v d, type_bounds d] else [primary d])))\<lparr>type_types := ebitmap_init\<rparr> = d"
    unfolding type_words_back [OF ok] using b by (cases d) simp
  then show "type_read v h (type_enc v k d @ r) = (if False then Inr (Some (h, r)) else r_insert h k d r)"
    using D w l unfolding type_read_def type_enc_def
    by (cases "policydb_has_boundary_feature v") (simp_all add: name_okD run_simps)
  show "sym_ok k" using D by (simp add: name_okD)
qed

text \<open>A user: its roles, and its expanded range where the version has one.\<close>

definition user_ok :: "pf_version \<Rightarrow> bytes \<Rightarrow> user_datum \<Rightarrow> bool" where
  "user_ok v k d \<longleftrightarrow> kern v \<and> name_ok k \<and> ebitmap_ok (rs_roles (us_roles d)) \<and> rs_flags (us_roles d) = 0 \<and>
     us_range d = mls_semantic_range_init \<and> us_dfltlevel d = mls_semantic_level_init \<and> bounded v (us_bounds d) \<and>
     (if user_exp_range v then range_ok (us_exp_range d) \<and> level_ok (us_exp_dfltlevel d)
      else us_exp_range d = mls_range_init \<and> us_exp_dfltlevel d = mls_level_init)"

definition user_enc :: "pf_version \<Rightarrow> bytes \<Rightarrow> user_datum \<Rightarrow> bytes" where
  "user_enc v k d = le32s ([len32 k, us_value d] @ bounds_words v (us_bounds d)) @ k @
     ebitmap_write (rs_roles (us_roles d)) @
     (if user_exp_range v then range_enc (us_exp_range d) @ level_enc (us_exp_dfltlevel d) else [])"

lemma kern_no_sem [simp]: "kern v \<Longrightarrow> \<not> user_sem_range v"
  by (auto simp: kern_def user_sem_range_def POLICY_KERN_def POLICY_MOD_def POLICY_BASE_def)

interpretation user: symbol_codec "user_write v" "user_read v" "user_enc v" "user_ok v" "\<lambda>_ _. False" for v
proof
  fix k :: bytes and d :: user_datum and h :: "user_datum tab" and r
  assume ok: "user_ok v k d"
  note D = ok [unfolded user_ok_def]
  have w: "kern v" "\<not> user_sem_range v" using D by simp_all
  have m: "(if user_sem_range v then
         w_seq (mls_write_semantic_range_helper (us_range d)) (mls_write_semantic_level_helper (us_dfltlevel d))
       else w_skip) = w_skip"
    "(if kern v then w_ebitmap (rs_roles (us_roles d)) else role_set_write (us_roles d)) = w_ebitmap (rs_roles (us_roles d))"
    using w by simp_all
  show "emits (user_write v k d) (user_enc v k d)"
    unfolding user_write_def m by (rule emits_eq, (rule emit_intros)+) (simp add: user_enc_def bounds_words_def)
  obtain vl ro ra df er ed bo where dd: "d = \<lparr>us_value = vl, us_roles = ro, us_range = ra, us_dfltlevel = df,
      us_exp_range = er, us_exp_dfltlevel = ed, us_bounds = bo\<rparr>" by (cases d)
  obtain rr rf where "ro = \<lparr>rs_roles = rr, rs_flags = rf\<rparr>" by (cases ro)
  note d = dd [unfolded this]
  show "user_read v h (user_enc v k d @ r) = (if False then Inr (Some (h, r)) else r_insert h k d r)"
    using D unfolding user_read_def user_enc_def user_read_mls_def
    by (cases "policydb_has_boundary_feature v"; cases "user_exp_range v")
      (simp_all add: d bounds_words_def bounded_def name_okD user_init_def run_simps Let_def)
  show "sym_ok k" using D by (simp add: name_okD)
qed

section \<open>Booleans, sensitivities, categories\<close>

definition bool_ok :: "pf_version \<Rightarrow> bytes \<Rightarrow> cond_bool_datum \<Rightarrow> bool" where
  "bool_ok v k d \<longleftrightarrow> name_ok k \<and> bool_isvalid d \<and> (\<not> mod_from v 14 \<longrightarrow> bo_flags d = 0)"

definition bool_enc :: "pf_version \<Rightarrow> bytes \<Rightarrow> cond_bool_datum \<Rightarrow> bytes" where
  "bool_enc v k d = le32s [bo_value d, word_of_int (bo_state d), len32 k] @ k @ (if mod_from v 14 then le32s [bo_flags d] else [])"

interpretation boolean: symbol_codec "cond_write_bool v" "cond_read_bool v" "bool_enc v" "bool_ok v" "\<lambda>_ _. False" for v
proof
  fix k :: bytes and d :: cond_bool_datum and h :: "cond_bool_datum tab" and r
  assume ok: "bool_ok v k d"
  note D = ok [unfolded bool_ok_def]
  show "emits (cond_write_bool v k d) (bool_enc v k d)"
    unfolding cond_write_bool_def by (rule emits_eq, (rule emit_intros)+) (simp add: bool_enc_def)
  obtain vl st fl where d: "d = \<lparr>bo_value = vl, bo_state = st, bo_flags = fl\<rparr>" by (cases d)
  show "cond_read_bool v h (bool_enc v k d @ r) = (if False then Inr (Some (h, r)) else r_insert h k d r)"
    using D unfolding cond_read_bool_def bool_enc_def
    by (cases "mod_from v 14") (auto simp: d bool_isvalid_def run_simps)
  show "sym_ok k" using D by (simp add: name_okD)
qed

definition sens_ok :: "bytes \<Rightarrow> level_datum \<Rightarrow> bool" where
  "sens_ok k d \<longleftrightarrow> name_ok k \<and> (\<exists>l. ld_level d = Some l \<and> level_ok l) \<and> ld_defined d = 0"

definition sens_enc :: "bytes \<Rightarrow> level_datum \<Rightarrow> bytes" where
  "sens_enc k d = le32s [len32 k, ucast (ld_isalias d)] @ k @ (case ld_level d of None \<Rightarrow> [] | Some l \<Rightarrow> level_enc l)"

interpretation sens: symbol_codec sens_write sens_read sens_enc sens_ok "\<lambda>_ _. False"
proof
  fix k :: bytes and d :: level_datum and h :: "level_datum tab" and r
  assume ok: "sens_ok k d"
  obtain l ia where d: "d = \<lparr>ld_level = Some l, ld_isalias = ia, ld_defined = 0\<rparr>" "name_ok k" "level_ok l"
    using ok by (cases d) (auto simp: sens_ok_def)
  show "emits (sens_write k d) (sens_enc k d)"
    unfolding sens_write_def d(1) level_datum.simps option.case
    by (rule emits_eq, (rule emit_intros)+) (simp add: sens_enc_def)
  show "sens_read h (sens_enc k d @ r) = (if False then Inr (Some (h, r)) else r_insert h k d r)"
    using d by (simp add: sens_read_def sens_enc_def name_okD run_simps)
  show "sym_ok k" using d(2) by (simp add: name_okD)
qed

definition cat_ok :: "bytes \<Rightarrow> cat_datum \<Rightarrow> bool" where "cat_ok k d \<longleftrightarrow> name_ok k"

definition cat_enc :: "bytes \<Rightarrow> cat_datum \<Rightarrow> bytes" where
  "cat_enc k d = le32s [len32 k, ca_value d, ucast (ca_isalias d)] @ k"

interpretation cat: symbol_codec cat_write cat_read cat_enc cat_ok "\<lambda>_ _. False"
proof
  fix k :: bytes and d :: cat_datum and h :: "cat_datum tab" and r
  assume ok: "cat_ok k d"
  show "emits (cat_write k d) (cat_enc k d)"
    unfolding cat_write_def by (rule emits_eq, (rule emit_intros)+) (simp add: cat_enc_def)
  show "cat_read h (cat_enc k d @ r) = (if False then Inr (Some (h, r)) else r_insert h k d r)"
    using ok by (cases d) (simp add: cat_read_def cat_enc_def cat_ok_def name_okD run_simps)
  show "sym_ok k" using ok by (simp add: cat_ok_def name_okD)
qed

section \<open>The section of the symbol tables\<close>

context symbol_codec begin

definition symtab_stored :: "u32 \<Rightarrow> 'd symtab \<Rightarrow> bool" where
  "symtab_stored n s \<longleftrightarrow> (\<exists>t. table s = Some t \<and> storable t \<and> hsize t = n \<and> (nel t = 0 \<or> nprim s \<noteq> 0))"

definition symtab_enc :: "'d symtab \<Rightarrow> bytes" where
  "symtab_enc s = (case table s of None \<Rightarrow> [] | Some t \<Rightarrow> le32s [nprim s, nel t] @ table_enc t)"

lemma symtab_written:
  assumes "symtab_stored n s" and "uncount (table s) = (\<lambda>n. n)"
  shows "emits (write_symtab uncount wr s) (symtab_enc s)"
proof -
  obtain t where t: "table s = Some t" "storable t" using assms(1) by (auto simp: symtab_stored_def)
  show ?thesis
    using emits_seq [OF emits_words written [OF t(2)]] assms(2) by (simp add: write_symtab_def symtab_enc_def t(1))
qed

lemma symtab_read:
  assumes "symtab_stored n s" and "table s0 = Some t0" and "skipped (the (table s)) t0"
  shows "accepts (read_symtab rd s0) (symtab_enc s) s"
proof -
  obtain t where t: "table s = Some t" "storable t" "nel t = 0 \<or> nprim s \<noteq> 0" using assms(1) by (auto simp: symtab_stored_def)
  have sk: "skipped t t0" using assms(3) t(1) by simp
  have s: "s0\<lparr>table := Some t, nprim := nprim s\<rparr> = s" using t(1) by (cases s, cases s0) simp
  show ?thesis
    by (rule acceptsI)
      (use t(3) in \<open>simp add: read_symtab_def symtab_enc_def t(1) assms(2) run_simps run_bind [OF table_read [OF t(2) sk]] s\<close>)
qed

lemma symtab_read_new:
  assumes "symtab_stored n s" and "\<And>k d. \<not> skips k d"
  shows "accepts (read_symtab rd (new_symtab n)) (symtab_enc s) s"
proof -
  obtain t where t: "table s = Some t" "storable t" "hsize t = n" using assms(1) by (auto simp: symtab_stored_def)
  have "skipped (the (table s)) (fresh n)" using new_skipped [OF t(2,3)] assms(2) by (simp add: t(1))
  moreover have "table (new_symtab n :: 'd symtab) = Some (fresh n)" by (simp add: new_symtab_fresh)
  ultimately show ?thesis using symtab_read [OF assms(1)] by blast
qed

end

text \<open>A table of one symbol, made by inserting it into a new table.\<close>

definition one_symtab :: "u32 \<Rightarrow> bytes \<Rightarrow> 'd \<Rightarrow> 'd symtab" where
  "one_symtab n k d = (case hashtab_insert (Some (fresh n)) k d of Inl _ \<Rightarrow> \<lparr>table = None, nprim = 0\<rparr> | Inr (t, _) \<Rightarrow> \<lparr>table = t, nprim = 1\<rparr>)"

context symbol_codec begin

lemma one_stored:
  assumes "ok k d" and "0 < unat n" and "unat n < 2147483648"
  shows "symtab_stored n (one_symtab n k d)" and "sym.contents (the (table (one_symtab n k d))) = [k \<mapsto> d]"
proof -
  obtain t where "hashtab_insert (Some (fresh n)) k d = Inr (Some t, SEPOL_OK)" "storable t" "hsize t = n"
    "sym.contents t = [k \<mapsto> d]"
    using single_storable [OF assms] by blast
  then show "symtab_stored n (one_symtab n k d)" "sym.contents (the (table (one_symtab n k d))) = [k \<mapsto> d]"
    by (simp_all add: symtab_stored_def one_symtab_def)
qed

lemma empty_stored:
  assumes "0 < unat n" and "unat n < 2147483648"
  shows "symtab_stored n (new_symtab n)"
  using empty_storable [OF assms] by (simp add: symtab_stored_def new_symtab_fresh)

end

definition object_r :: role_datum where
  "object_r = role_init\<lparr>ro_value := OBJECT_R_VAL\<rparr>"

definition symtabs_ok :: "pf_version \<Rightarrow> pf_symtabs \<Rightarrow> bool" where
  "symtabs_ok v s \<longleftrightarrow> common.symtab_stored 2 (pf_commons s) \<and> clss.symtab_stored v (table (pf_commons s)) 32 (pf_classes s) \<and>
     role.symtab_stored v 16 (pf_roles s) \<and> sym.contents (the (table (pf_roles s))) OBJECT_R = Some object_r \<and>
     stype.symtab_stored v 512 (pf_types s) \<and> user.symtab_stored v 128 (pf_users s) \<and>
     boolean.symtab_stored v 16 (pf_bools s) \<and> sens.symtab_stored 16 (pf_levels s) \<and> cat.symtab_stored 16 (pf_cats s)"

definition symtabs_enc :: "pf_version \<Rightarrow> pf_symtabs \<Rightarrow> bytes" where
  "symtabs_enc v s = common.symtab_enc (pf_commons s) @ clss.symtab_enc v (pf_classes s) @ role.symtab_enc v (pf_roles s) @
     stype.symtab_enc v (pf_types s) @ user.symtab_enc v (pf_users s) @ boolean.symtab_enc v (pf_bools s) @
     sens.symtab_enc (pf_levels s) @ cat.symtab_enc (pf_cats s)"

lemma uncount_none:
  assumes "\<And>n m. n \<in> set (nodes t) \<Longrightarrow> f (fst n) (snd n) m = (m, 0)"
  shows "fst (hashtab_map (Some t) f m) = m"
proof -
  have "map_chain f ns m = (m, SEPOL_OK)" if "set ns \<subseteq> set (nodes t)" for ns
    using that assms by (induction ns) (auto simp: SEPOL_OK_def)
  then show ?thesis by (simp add: hashtab_map_nodes nodes_def [symmetric])
qed

lemma roles_uncount:
  assumes "role.symtab_stored v n s"
  shows "fst (hashtab_map (table s) role_attr_uncount m) = m"
proof -
  obtain t where "table s = Some t" "\<forall>n\<in>set (nodes t). role_ok v (fst n) (snd n)"
    using assms by (auto simp: role.symtab_stored_def role.storable_def)
  then show ?thesis by (auto intro!: uncount_none simp: role_attr_uncount_def role_ok_def ROLE_ATTRIB_def)
qed

lemma types_uncount:
  assumes "stype.symtab_stored v n s" and "without_type_attrs v"
  shows "fst (hashtab_map (table s) type_attr_uncount m) = m"
proof -
  obtain t where "table s = Some t" "\<forall>n\<in>set (nodes t). type_ok v (fst n) (snd n)"
    using assms by (auto simp: stype.symtab_stored_def stype.storable_def)
  moreover have "\<not> policydb_has_boundary_feature v"
    using assms(2) by (auto simp: without_type_attrs_def policydb_has_boundary_feature_def kern_from_def mod_from_def)
  ultimately show ?thesis by (auto intro!: uncount_none simp: type_attr_uncount_def type_ok_def TYPE_ATTRIB_def)
qed

lemma symtabs_written:
  assumes "symtabs_ok v s"
  shows "emits (write_symtabs v SYM_NUM s) (symtabs_enc v s)"
proof -
  note D = assms [unfolded symtabs_ok_def]
  have r: "role.symtab_stored v 16 (pf_roles s)" and t: "stype.symtab_stored v 512 (pf_types s)" using D by blast+
  have e: "emits (write_symtab (\<lambda>_ n. n) common_write (pf_commons s)) (common.symtab_enc (pf_commons s))"
    "emits (write_symtab (\<lambda>_ n. n) (class_write v) (pf_classes s)) (clss.symtab_enc v (pf_classes s))"
    "emits (write_symtab (\<lambda>t n. if without_role_attrs v then fst (hashtab_map t role_attr_uncount n) else n) (role_write v) (pf_roles s))
      (role.symtab_enc v (pf_roles s))"
    "emits (write_symtab (\<lambda>t n. if without_type_attrs v then fst (hashtab_map t type_attr_uncount n) else n) (type_write v) (pf_types s))
      (stype.symtab_enc v (pf_types s))"
    "emits (write_symtab (\<lambda>_ n. n) (user_write v) (pf_users s)) (user.symtab_enc v (pf_users s))"
    "emits (write_symtab (\<lambda>_ n. n) (cond_write_bool v) (pf_bools s)) (boolean.symtab_enc v (pf_bools s))"
    "emits (write_symtab (\<lambda>_ n. n) sens_write (pf_levels s)) (sens.symtab_enc (pf_levels s))"
    "emits (write_symtab (\<lambda>_ n. n) cat_write (pf_cats s)) (cat.symtab_enc (pf_cats s))"
    using D common.symtab_written clss.symtab_written user.symtab_written boolean.symtab_written sens.symtab_written
      cat.symtab_written role.symtab_written [OF r] stype.symtab_written [OF t]
    by (auto simp: roles_uncount [OF r] types_uncount [OF t] fun_eq_iff)
  show ?thesis
    unfolding write_symtabs_def SYM_NUM_def by (simp, rule emits_eq, (rule emit_intros e)+) (simp add: symtabs_enc_def)
qed

lemma roles_init_table:
  obtains t where "roles_init (new_symtab 16) = Inr (\<lparr>table = Some t, nprim = 1\<rparr>, 0)" and "sym.table_ok t" and "sym.counted t"
    and "hsize t = 16" and "sym.contents t = [OBJECT_R \<mapsto> object_r]"
proof -
  have n: "0 < unat (16 :: u32)" "unat (16 :: u32) < 2147483648" by simp_all
  note f = sym.empty_ok [of "fresh 16 :: (bytes, role_datum) hashtab" 16, OF refl n]
  obtain t where t: "hashtab_insert (Some (fresh 16)) OBJECT_R object_r = Inr (Some t, SEPOL_OK)" "sym.table_ok t" "sym.counted t"
    "hsize t = hsize (fresh 16 :: (bytes, role_datum) hashtab)"
    "sym.contents t = (sym.contents (fresh 16))(OBJECT_R \<mapsto> object_r)"
    using sym.insert_nodes [OF f(1,2) object_r_ok, of object_r] f(3) by auto
  have "roles_init (new_symtab 16) = Inr (\<lparr>table = Some t, nprim = 1\<rparr>, 0)"
    using t(1) by (simp add: roles_init_def new_symtab_fresh object_r_def OBJECT_R_VAL_def SEPOL_OK_def Let_def)
  then show thesis using that t f(3) by simp
qed

lemma symtabs_read:
  assumes "symtabs_ok v s"
  obtains s0 where "init_symtabs = Inr (Some s0)" and "accepts (read_symtabs v SYM_NUM s0) (symtabs_enc v s) s"
proof -
  note D = assms [unfolded symtabs_ok_def]
  obtain t0 where t0: "roles_init (new_symtab 16) = Inr (\<lparr>table = Some t0, nprim = 1\<rparr>, 0)" "sym.table_ok t0" "sym.counted t0"
    "hsize t0 = 16" "sym.contents t0 = [OBJECT_R \<mapsto> object_r]" by (rule roles_init_table)
  let ?s0 = "\<lparr>pf_commons = new_symtab 2, pf_classes = new_symtab 32, pf_roles = \<lparr>table = Some t0, nprim = 1\<rparr>,
    pf_types = new_symtab 512, pf_users = new_symtab 128, pf_bools = new_symtab 16, pf_levels = new_symtab 16,
    pf_cats = new_symtab 16\<rparr>"
  obtain t where t: "table (pf_roles s) = Some t" "sym.table_ok t" "hsize t = 16" "sym.contents t OBJECT_R = Some object_r"
    using D by (auto simp: role.symtab_stored_def role.storable_def)
  have "map_of (filter (\<lambda>n. fst n = OBJECT_R) ns) = (\<lambda>k. if k = OBJECT_R then map_of ns OBJECT_R else None)" for ns :: "(bytes \<times> role_datum) list"
    by (induction ns) (auto simp: fun_eq_iff)
  then have "map_of (filter (\<lambda>n. fst n = OBJECT_R) (nodes t)) = [OBJECT_R \<mapsto> object_r]"
    using t(2,4) sym.contents_nodes [of t] by (auto simp: fun_eq_iff)
  then have sk: "role.skipped (the (table (pf_roles s))) t0" using t t0 by (simp add: role.skipped_def)
  have roles: "accepts (read_symtab (role_read v) \<lparr>table = Some t0, nprim = 1\<rparr>) (role.symtab_enc v (pf_roles s)) (pf_roles s)"
    by (rule role.symtab_read [OF _ _ sk]) (use D in \<open>auto\<close>)
  have r: "accepts (read_symtab common_read (new_symtab 2)) (common.symtab_enc (pf_commons s)) (pf_commons s)"
    "accepts (read_symtab (class_read v (table (pf_commons s))) (new_symtab 32)) (clss.symtab_enc v (pf_classes s)) (pf_classes s)"
    "accepts (read_symtab (type_read v) (new_symtab 512)) (stype.symtab_enc v (pf_types s)) (pf_types s)"
    "accepts (read_symtab (user_read v) (new_symtab 128)) (user.symtab_enc v (pf_users s)) (pf_users s)"
    "accepts (read_symtab (cond_read_bool v) (new_symtab 16)) (boolean.symtab_enc v (pf_bools s)) (pf_bools s)"
    "accepts (read_symtab sens_read (new_symtab 16)) (sens.symtab_enc (pf_levels s)) (pf_levels s)"
    "accepts (read_symtab cat_read (new_symtab 16)) (cat.symtab_enc (pf_cats s)) (pf_cats s)"
    using D common.symtab_read_new clss.symtab_read_new stype.symtab_read_new user.symtab_read_new boolean.symtab_read_new
      sens.symtab_read_new cat.symtab_read_new by blast+
  have eta: "\<lparr>pf_commons = pf_commons s, pf_classes = pf_classes s, pf_roles = pf_roles s, pf_types = pf_types s,
      pf_users = pf_users s, pf_bools = pf_bools s, pf_levels = pf_levels s, pf_cats = pf_cats s\<rparr> = s" by (cases s) simp
  have "init_symtabs = Inr (Some ?s0)" by (simp add: init_symtabs_def t0(1))
  moreover have "accepts (read_symtabs v SYM_NUM ?s0) (symtabs_enc v s) s"
    by (rule acceptsI) (simp add: read_symtabs_def symtabs_enc_def SYM_NUM_def run_simps r [THEN run_bind] roles [THEN run_bind] eta)
  ultimately show thesis by (rule that)
qed

text \<open>The table of the formats knows every version from 20 on, and all of them have all tables.\<close>

lemma compat_all_tables:
  assumes "policydb_lookup_compat (pv_vers v) POLICY_KERN SEPOL_TARGET_SELINUX = Some (t, w, n, oc, p)" and "19 \<le> pv_vers v"
  shows "n = SYM_NUM"
proof -
  have "find P xs = Some x \<Longrightarrow> x \<in> set xs \<and> P x" for P and xs :: "compat_info list" and x
    by (induction xs) (auto split: if_splits)
  from this [OF assms(1) [unfolded policydb_lookup_compat_def]]
  have "(t, w, n, oc, p) \<in> set (compat_kern @ compat_base @ compat_mod)" "w = pv_vers v" "t = POLICY_KERN" "p = SEPOL_TARGET_SELINUX"
    by blast+
  then show ?thesis
    using assms(2) by (auto simp: compat_kern_def compat_base_def compat_mod_def SYM_NUM_def POLICY_KERN_def POLICY_BASE_def POLICY_MOD_def
      SEPOL_TARGET_SELINUX_def SEPOL_TARGET_XEN_def)
qed

end
