(* ===== verification/Sepol_Index_Correct.thy ===== *)
theory Sepol_Index_Correct
  imports Sepol_Index Sepol_Symtab_Correct
begin

text \<open>
  The arrays of a policy are the inverses of its symbol tables: building them fails exactly
  when a value is 0, too large or used twice. And the expansion of a set of types is the set
  its attributes, exclusions and flags describe.
\<close>

section \<open>Arrays\<close>

text \<open>What the symbol tables and the arrays of one kind have in common: which symbols have no entry, and the value.\<close>

locale val_symbols =
  fixes f :: "u32 \<Rightarrow> bytes \<Rightarrow> 'd \<Rightarrow> 'd val_index \<Rightarrow> 'd val_index \<times> int"
    and unindexed :: "'d \<Rightarrow> bool" and val :: "'d \<Rightarrow> u32"
  assumes f_eq: "f n k d a = (if unindexed d then (a, 0) else index_value n (val d) k d a)"
begin

definition valued :: "(bytes \<times> 'd) list \<Rightarrow> (bytes \<times> 'd) list" where
  "valued ns = filter (\<lambda>n. \<not> unindexed (snd n)) ns"

definition slots :: "(bytes \<times> 'd) list \<Rightarrow> u32 list" where
  "slots ns = map (\<lambda>n. val (snd n)) (valued ns)"

definition values_ok :: "u32 \<Rightarrow> (bytes \<times> 'd) list \<Rightarrow> bool" where
  "values_ok n ns \<longleftrightarrow> (\<forall>v\<in>set (slots ns). v \<noteq> 0 \<and> v \<le> n) \<and> distinct (slots ns)"

lemma slots_simps [simp]:
  "slots [] = []" "slots (m # ns) = (if unindexed (snd m) then slots ns else val (snd m) # slots ns)"
  by (simp_all add: slots_def valued_def)

lemma slot_eq: "v \<noteq> 0 \<Longrightarrow> w \<noteq> 0 \<Longrightarrow> unat v - 1 = unat w - 1 \<longleftrightarrow> v = (w :: u32)"
  by (metis One_nat_def Suc_pred unat_gt_0 word_unat_eq_iff)

text \<open>The loop over nodes, on any array.\<close>

lemma index_chain:
  assumes "length a = unat n"
  shows "map_chain (f n) ns a = (a', rc) \<Longrightarrow>
    (rc = 0 \<longleftrightarrow> values_ok n ns \<and> (\<forall>v\<in>set (slots ns). a ! (unat v - 1) = None)) \<and>
    (rc = 0 \<longrightarrow> length a' = length a \<and> (\<forall>i < length a. \<forall>k d. a' ! i = Some (k, d) \<longleftrightarrow>
      a ! i = Some (k, d) \<or> (k, d) \<in> set ns \<and> \<not> unindexed d \<and> unat (val d) = Suc i))"
  using assms
proof (induction ns arbitrary: a)
  case (Cons m ns)
  obtain k d where m: "m = (k, d)" by (cases m)
  show ?case
  proof (cases "unindexed d")
    case True
    then have "map_chain (f n) ns a = (a', rc)" using Cons.prems(1) by (simp add: m f_eq [of n k d])
    from Cons.IH [OF this Cons.prems(2)] True show ?thesis by (auto simp: m values_ok_def)
  next
    case na: False
    show ?thesis
    proof (cases "val d = 0 \<or> val d > n \<or> a ! (unat (val d) - 1) \<noteq> None")
      case True
      then have "rc = - EINVAL" using Cons.prems(1) na by (simp add: m f_eq [of n k d] index_value_def EINVAL_def split: if_splits)
      then show ?thesis using True na by (force simp: m values_ok_def EINVAL_def)
    next
      case False
      let ?i = "unat (val d) - 1"
      have v: "val d \<noteq> 0" "val d \<le> n" "a ! ?i = None" using False unfolding de_Morgan_disj not_not not_less by blast+
      then have i: "?i < length a" "unat (val d) = Suc ?i"
        using Cons.prems(2) unat_gt_0 [of "val d"] by (simp_all add: word_le_nat_alt)
      let ?b = "a[?i := Some (k, d)]"
      have "\<not> (val d = 0 \<or> val d > n)" using v by auto
      then have "map_chain (f n) ns ?b = (a', rc)" using Cons.prems(1) na v(3) by (simp add: m f_eq [of n k d] index_value_def)
      from Cons.IH [OF this] Cons.prems(2) have IH:
        "rc = 0 \<longleftrightarrow> values_ok n ns \<and> (\<forall>v\<in>set (slots ns). ?b ! (unat v - 1) = None)"
        "rc = 0 \<longrightarrow> length a' = length a \<and> (\<forall>i < length a. \<forall>k' d'. a' ! i = Some (k', d') \<longleftrightarrow>
          ?b ! i = Some (k', d') \<or> (k', d') \<in> set ns \<and> \<not> unindexed d' \<and> unat (val d') = Suc i)"
        by simp_all
      have b: "?b ! (unat w - 1) = None \<longleftrightarrow> w \<noteq> val d \<and> a ! (unat w - 1) = None" if "w \<noteq> 0" for w
        using slot_eq [OF that v(1)] i(1) v(3) by (cases "unat w - 1 = ?i") auto
      have "rc = 0 \<longleftrightarrow> values_ok n (m # ns) \<and> (\<forall>v\<in>set (slots (m # ns)). a ! (unat v - 1) = None)"
        using IH(1) b v na by (auto simp: m values_ok_def)
      moreover have "?b ! j = Some (k', d') \<longleftrightarrow> a ! j = Some (k', d') \<or> (k', d') = (k, d) \<and> unat (val d) = Suc j"
        if "j < length a" for j k' d'
        using i v(3) by (cases "j = ?i") auto
      then have "rc = 0 \<longrightarrow> length a' = length a \<and> (\<forall>i < length a. \<forall>k' d'. a' ! i = Some (k', d') \<longleftrightarrow>
          a ! i = Some (k', d') \<or> (k', d') \<in> set (m # ns) \<and> \<not> unindexed d' \<and> unat (val d') = Suc i)"
        using IH(2) na by (auto simp: m)
      ultimately show ?thesis by blast
    qed
  qed
qed (auto simp: values_ok_def SEPOL_OK_def)

text \<open>The array that inverts a table.\<close>

definition index_of :: "'d symtab \<Rightarrow> 'd val_index \<Rightarrow> bool" where
  "index_of s a \<longleftrightarrow> length a = unat (nprim s) \<and> (\<forall>i < length a. \<forall>k d. a ! i = Some (k, d) \<longleftrightarrow>
     sym.contents (the (table s)) k = Some d \<and> \<not> unindexed d \<and> unat (val d) = Suc i)"

lemma built:
  assumes "table s = Some t" and "sym.table_ok t"
  shows "snd (build_index f s) = 0 \<longleftrightarrow> values_ok (nprim s) (nodes t)"
    and "snd (build_index f s) = 0 \<Longrightarrow> index_of s (fst (build_index f s))"
proof -
  obtain a rc where r: "map_chain (f (nprim s)) (nodes t) (calloc_index s) = (a, rc)"
    by (cases "map_chain (f (nprim s)) (nodes t) (calloc_index s)")
  have l: "length (calloc_index s :: 'd val_index) = unat (nprim s)" by (simp add: calloc_index_def)
  have e: "build_index f s = (a, rc)" using r assms(1) by (simp add: build_index_def hashtab_map_nodes nodes_def [symmetric])
  have none: "calloc_index s ! i = (None :: (bytes \<times> 'd) option)" if "i < unat (nprim s)" for i using that by (simp add: calloc_index_def)
  have "\<forall>v\<in>set (slots (nodes t)). calloc_index s ! (unat v - 1) = (None :: (bytes \<times> 'd) option)" if "values_ok (nprim s) (nodes t)"
  proof
    fix v assume "v \<in> set (slots (nodes t))"
    then have "v \<noteq> 0" "v \<le> nprim s" using that by (auto simp: values_ok_def)
    then have "unat v - 1 < unat (nprim s)" using unat_gt_0 [of v] by (simp add: word_le_nat_alt)
    then show "calloc_index s ! (unat v - 1) = (None :: (bytes \<times> 'd) option)" by (rule none)
  qed
  then show "snd (build_index f s) = 0 \<longleftrightarrow> values_ok (nprim s) (nodes t)"
    using index_chain [OF l r] by (auto simp: e)
  show "snd (build_index f s) = 0 \<Longrightarrow> index_of s (fst (build_index f s))"
    using index_chain [OF l r] l none by (auto simp: e index_of_def assms(1) sym.node_contents [OF assms(2)])
qed

lemma kind_built:
  assumes "table s = Some t" and "sym.table_ok t" and "index_kind f s = Inr (Some a)"
  shows "nprim s = 0 \<or> index_of s a"
  using built(2) [OF assms(1,2)] assms(3) by (auto simp: index_kind_def split: if_splits prod.splits)

lemma entry:
  assumes "index_of s a" and "sym.contents (the (table s)) k = Some d" and "\<not> unindexed d" and "val d \<noteq> 0" and "val d \<le> nprim s"
  shows "a ! (unat (val d) - 1) = Some (k, d)"
proof -
  have "unat (val d) - 1 < length a" "unat (val d) = Suc (unat (val d) - 1)"
    using assms(1,4,5) unat_gt_0 [of "val d"] by (simp_all add: index_of_def word_le_nat_alt)
  then show ?thesis using assms(1-3) by (simp add: index_of_def)
qed

end

interpretation common_ix: val_symbols common_index "\<lambda>_. False" com_value
  by unfold_locales (simp add: common_index_def)

interpretation class_ix: val_symbols class_index "\<lambda>_. False" cl_value
  by unfold_locales (simp add: class_index_def)

interpretation role_ix: val_symbols role_index "\<lambda>_. False" ro_value
  by unfold_locales (simp add: role_index_def)

interpretation type_ix: val_symbols type_index "\<lambda>d. primary d = 0" type_value
  by unfold_locales (simp add: type_index_def)

interpretation user_ix: val_symbols user_index "\<lambda>_. False" us_value
  by unfold_locales (simp add: user_index_def)

interpretation bool_ix: val_symbols cond_index_bool "\<lambda>_. False" bo_value
  by unfold_locales (simp add: cond_index_bool_def)

interpretation cat_ix: val_symbols cat_index "\<lambda>d. ca_isalias d \<noteq> 0" ca_value
  by unfold_locales (simp add: cat_index_def)

section \<open>All arrays\<close>

definition sens_unindexed :: "level_datum \<Rightarrow> bool" where "sens_unindexed d \<longleftrightarrow> ld_isalias d \<noteq> 0"

definition sens_value :: "level_datum \<Rightarrow> u32" where
  "sens_value d = (case ld_level d of None \<Rightarrow> 0 | Some l \<Rightarrow> lev_sens l)"

definition sens_plain :: "u32 \<Rightarrow> bytes \<Rightarrow> level_datum \<Rightarrow> level_datum val_index \<Rightarrow> level_datum val_index \<times> int" where
  "sens_plain n key d a = (if sens_unindexed d then (a, 0) else index_value n (sens_value d) key d a)"

interpretation sens_ix: val_symbols sens_plain sens_unindexed sens_value
  by unfold_locales (simp add: sens_plain_def)

lemma sens_chain:
  assumes "\<forall>m\<in>set ns. ld_level (snd m) \<noteq> None"
  shows "map_chain (sens_index n) ns (Inr a) = (case map_chain (sens_plain n) ns a of (a, rc) \<Rightarrow> (Inr a, rc))"
  using assms
proof (induction ns arbitrary: a)
  case (Cons m ns)
  obtain k d where m: "m = (k, d)" by (cases m)
  obtain l where l: "ld_level d = Some l" using Cons.prems by (auto simp: m)
  have "sens_index n k d (Inr a) = (case sens_plain n k d a of (a, rc) \<Rightarrow> (Inr a, rc))"
    by (simp add: sens_index_def sens_plain_def sens_unindexed_def sens_value_def l)
  then show ?case using Cons by (auto simp: m Let_def split: prod.splits)
qed simp

text \<open>The inverse of a kind without values is left empty.\<close>

definition all_levels :: "level_datum symtab \<Rightarrow> bool" where
  "all_levels s \<longleftrightarrow> (\<forall>k d. sym.contents (the (table s)) k = Some d \<longrightarrow> ld_level d \<noteq> None)"

lemma sens_built:
  assumes "table s = Some t" and "sym.table_ok t" and "all_levels s" and "index_sens s = Inr (Some a)"
  shows "nprim s = 0 \<or> sens_ix.index_of s a"
proof (cases "nprim s = 0")
  case False
  have "\<forall>m\<in>set (nodes t). ld_level (snd m) \<noteq> None"
    using assms(1,3) sym.node_contents [OF assms(2)] by (auto simp: all_levels_def)
  note sens_chain [OF this, of "nprim s" "calloc_index s"]
  then have "index_kind sens_plain s = Inr (Some a)"
    using assms(1,4) False
    by (auto simp: index_sens_def index_kind_def build_index_def hashtab_map_nodes nodes_def [symmetric] split: prod.splits if_splits)
  from sens_ix.kind_built [OF assms(1,2) this] show ?thesis .
qed simp

definition tables_ok :: "pf_symtabs \<Rightarrow> bool" where
  "tables_ok s \<longleftrightarrow> (\<exists>t. table (pf_roles s) = Some t \<and> sym.table_ok t) \<and> (\<exists>t. table (pf_types s) = Some t \<and> sym.table_ok t) \<and>
     (\<exists>t. table (pf_users s) = Some t \<and> sym.table_ok t) \<and> (\<exists>t. table (pf_bools s) = Some t \<and> sym.table_ok t) \<and>
     (\<exists>t. table (pf_levels s) = Some t \<and> sym.table_ok t) \<and> (\<exists>t. table (pf_cats s) = Some t \<and> sym.table_ok t) \<and>
     all_levels (pf_levels s)"

definition indexed :: "pf_symtabs \<Rightarrow> pf_index \<Rightarrow> bool" where
  "indexed s ix \<longleftrightarrow>
     (nprim (pf_roles s) = 0 \<or> role_ix.index_of (pf_roles s) (ix_roles ix)) \<and>
     (nprim (pf_types s) = 0 \<or> type_ix.index_of (pf_types s) (ix_types ix)) \<and>
     (nprim (pf_users s) = 0 \<or> user_ix.index_of (pf_users s) (ix_users ix)) \<and>
     (nprim (pf_bools s) = 0 \<or> bool_ix.index_of (pf_bools s) (ix_bools ix)) \<and>
     (nprim (pf_levels s) = 0 \<or> sens_ix.index_of (pf_levels s) (ix_levels ix)) \<and>
     (nprim (pf_cats s) = 0 \<or> cat_ix.index_of (pf_cats s) (ix_cats ix))"

lemma res_opt_bind_Some: "res_opt_bind m f = Inr (Some y) \<longleftrightarrow> (\<exists>x. m = Inr (Some x) \<and> f x = Inr (Some y))"
  by (auto simp: res_opt_bind_def split: sum.splits option.splits)

lemma others_indexed:
  assumes "tables_ok s" and "policydb_index_others s ix = Inr (Some ix')"
  shows "indexed s ix'"
proof -
  obtain roles types users bools levels cats rc uc where
    r: "index_kind role_index (pf_roles s) = Inr (Some roles)" "index_kind type_index (pf_types s) = Inr (Some types)"
       "index_kind user_index (pf_users s) = Inr (Some users)" "index_kind cond_index_bool (pf_bools s) = Inr (Some bools)"
       "index_sens (pf_levels s) = Inr (Some levels)" "index_kind cat_index (pf_cats s) = Inr (Some cats)"
    and ix': "ix' = ix\<lparr>ix_roles := roles, ix_types := types, ix_users := users, ix_bools := bools, ix_levels := levels,
         ix_cats := cats, role_cache := rc\<rparr>\<lparr>user_cache := uc\<rparr>"
    using assms(2) by (auto simp: policydb_index_others_def index_arrays_def res_opt_bind_Some)
  show ?thesis
    using assms(1) role_ix.kind_built [OF _ _ r(1)] type_ix.kind_built [OF _ _ r(2)] user_ix.kind_built [OF _ _ r(3)]
      bool_ix.kind_built [OF _ _ r(4)] sens_built [OF _ _ _ r(5)] cat_ix.kind_built [OF _ _ r(6)]
    unfolding indexed_def tables_ok_def ix' by (auto simp del: disj_not1)
qed

section \<open>Sets of types\<close>

lemma visited_node: "(i, v) \<in> (\<lambda>j. (node_lo n + j, map_bit (mapw n) j)) ` {0..<MAPSIZE} \<longleftrightarrow>
    node_lo n \<le> i \<and> i < node_lo n + 64 \<and> v = bit (mapw n) (i - node_lo n)"
proof
  assume "(i, v) \<in> (\<lambda>j. (node_lo n + j, map_bit (mapw n) j)) ` {0..<MAPSIZE}"
  then show "node_lo n \<le> i \<and> i < node_lo n + 64 \<and> v = bit (mapw n) (i - node_lo n)"
    by (auto simp: MAPSIZE_def map_bit_iff)
next
  assume i: "node_lo n \<le> i \<and> i < node_lo n + 64 \<and> v = bit (mapw n) (i - node_lo n)"
  then have "i - node_lo n < 64" by linarith
  then show "(i, v) \<in> (\<lambda>j. (node_lo n + j, map_bit (mapw n) j)) ` {0..<MAPSIZE}"
    using i by (intro image_eqI [of _ _ "i - node_lo n"]) (simp_all add: map_bit_iff MAPSIZE_def)
qed

lemma set_positive: "set (positive_bits e) = ebits e"
proof -
  have v: "(i, v) \<in> set (visited_bits e) \<longleftrightarrow>
      (\<exists>n\<in>set (enodes e). node_lo n \<le> i \<and> i < node_lo n + 64 \<and> v = bit (mapw n) (i - node_lo n))" for i v
    by (simp only: visited_bits_def set_concat set_map image_image set_upt UN_iff visited_node)
  have "i \<in> set (positive_bits e) \<longleftrightarrow> (i, True) \<in> set (visited_bits e)" for i
    by (force simp: positive_bits_def)
  then have "i \<in> set (positive_bits e) \<longleftrightarrow> (\<exists>n\<in>set (enodes e). i \<in> node_bits n)" for i
    by (simp add: v node_bits_def)
  then show ?thesis by (auto simp: ebits_def nodes_set_def)
qed

text \<open>A step that adds certain bits, and the loop over such steps.\<close>

definition adds :: "(ebitmap \<Rightarrow> ebitmap option res) \<Rightarrow> nat set \<Rightarrow> bool" where
  "adds f X \<longleftrightarrow> (\<forall>e. ebitmap_ok e \<longrightarrow> (\<exists>e'. f e = Inr (Some e') \<and> ebitmap_ok e' \<and> ebits e' = ebits e \<union> X))"

lemma adds_put: "i < 4294967232 \<Longrightarrow> adds (put_bit True i) {i}"
  unfolding adds_def
proof (intro allI impI)
  fix e assume i: "i < 4294967232" and e: "ebitmap_ok e"
  have u: "unat (word_of_nat i :: u32) = i" by (rule unat_word_of_nat_u32) (use i in simp)
  obtain e' where "ebitmap_set_bit e (word_of_nat i) True = (e', 0)" "ebitmap_ok e'" "ebits e' = insert i (ebits e)"
    using ebitmap_set_bit_correct [OF e, of "word_of_nat i" True] i u by auto
  then show "\<exists>e'. put_bit True i e = Inr (Some e') \<and> ebitmap_ok e' \<and> ebits e' = ebits e \<union> {i}"
    by (simp add: put_bit_def checked_def)
qed

lemma adds_union: "ebitmap_ok x \<Longrightarrow> adds (\<lambda>e. checked (ebitmap_union e x)) (ebits x)"
  unfolding adds_def
proof (intro allI impI)
  fix e assume x: "ebitmap_ok x" and e: "ebitmap_ok e"
  obtain d where "ebitmap_or e x = (d, 0)" "ebitmap_ok d" "ebits d = ebits e \<union> ebits x"
    by (rule ebitmap_or_correct [OF e x])
  then show "\<exists>e'. checked (ebitmap_union e x) = Inr (Some e') \<and> ebitmap_ok e' \<and> ebits e' = ebits e \<union> ebits x"
    by (simp add: ebitmap_union_def checked_def)
qed

lemma adds_none: "adds (\<lambda>e. Inr (Some e)) {}"
  by (simp add: adds_def)

lemma adds_loop:
  assumes "\<And>i. i \<in> set is \<Longrightarrow> adds (f i) (X i)"
  shows "adds (set_loop f is) (\<Union>i\<in>set is. X i)"
  using assms
proof (induction "is")
  case (Cons i "is")
  have "\<And>j. j \<in> set is \<Longrightarrow> adds (f j) (X j)" using Cons.prems by simp
  note IH = Cons.IH [OF this, unfolded adds_def]
  have i: "adds (f i) (X i)" using Cons.prems by simp
  show ?case
    unfolding adds_def
  proof (intro allI impI)
    fix e assume "ebitmap_ok e"
    then obtain e1 where e1: "f i e = Inr (Some e1)" "ebitmap_ok e1" "ebits e1 = ebits e \<union> X i" using i unfolding adds_def by blast
    then obtain e2 where "set_loop f is e1 = Inr (Some e2)" "ebitmap_ok e2" "ebits e2 = ebits e1 \<union> (\<Union>i\<in>set is. X i)"
      using IH by blast
    then show "\<exists>e'. set_loop f (i # is) e = Inr (Some e') \<and> ebitmap_ok e' \<and> ebits e' = ebits e \<union> (\<Union>i\<in>set (i # is). X i)"
      using e1 by auto
  qed
qed (simp add: adds_def)

lemma adds_start: "adds f X \<Longrightarrow> \<exists>e. f ebitmap_init = Inr (Some e) \<and> ebitmap_ok e \<and> ebits e = X"
  using ebm.inv_empty by (fastforce simp: adds_def ebits_def ebitmap_init_def)

text \<open>What an element of a set of types stands for: an attribute for its types.\<close>

definition attr_types :: "type_datum val_index \<Rightarrow> nat \<Rightarrow> nat set" where
  "attr_types types i = (case types ! i of None \<Rightarrow> {i} | Some (_, d) \<Rightarrow> if flavor d = TYPE_ATTRIB then ebits (type_types d) else {i})"

definition type_index_ok :: "u32 \<Rightarrow> type_datum val_index \<Rightarrow> bool" where
  "type_index_ok n types \<longleftrightarrow> length types = unat n \<and> unat n < 4294967232 \<and>
     (\<forall>i < length types. \<forall>k d. types ! i = Some (k, d) \<longrightarrow> ebitmap_ok (type_types d))"

definition set_in_range :: "pf_type_set \<Rightarrow> type_datum val_index \<Rightarrow> bool" where
  "set_in_range st types \<longleftrightarrow> type_set_ok st \<and> (\<forall>i\<in>ebits (ts_types st). i < length types \<and> types ! i \<noteq> None) \<and>
     (\<forall>i\<in>ebits (ts_negset st). i < length types)"

definition plain_types :: "pf_type_set \<Rightarrow> type_datum val_index \<Rightarrow> nat set" where
  "plain_types st types = (\<Union>i\<in>ebits (ts_types st). attr_types types i) - (\<Union>i\<in>ebits (ts_negset st). attr_types types i)"

definition expanded :: "pf_type_set \<Rightarrow> type_datum val_index \<Rightarrow> nat set" where
  "expanded st types =
     (if ts_flags st AND TYPE_STAR \<noteq> 0
      then {i. i < length types \<and> \<not> is_attrib types i \<and> i \<notin> (\<Union>i\<in>ebits (ts_negset st). attr_types types i)}
      else if ts_flags st AND TYPE_COMP \<noteq> 0
      then {i. i < length types \<and> \<not> is_attrib types i \<and> i \<notin> plain_types st types} \<union>
        {i \<in> plain_types st types. length types \<le> i}
      else plain_types st types)"

lemma adds_positive:
  assumes "type_index_ok n types" and "i < length types" and "types ! i \<noteq> None"
  shows "adds (expand_positive n types True i) (attr_types types i)"
proof -
  obtain k d where d: "types ! i = Some (k, d)" using assms(3) by auto
  have i: "i < unat n" "i < 4294967232" "ebitmap_ok (type_types d)" using assms(1,2) d by (auto simp: type_index_ok_def)
  have "expand_positive n types True i =
      (if flavor d = TYPE_ATTRIB then (\<lambda>e. checked (ebitmap_union e (type_types d))) else put_bit True i)"
    using i(1) by (auto simp: expand_positive_def d fun_eq_iff)
  then show ?thesis using adds_put [OF i(2)] adds_union [OF i(3)] by (simp add: attr_types_def d)
qed

lemma adds_negative:
  assumes "type_index_ok n types" and "i < length types"
  shows "adds (expand_negative types i) (attr_types types i)"
proof -
  have i: "i < 4294967232" using assms by (simp add: type_index_ok_def)
  show ?thesis
  proof (cases "types ! i")
    case None
    then have "expand_negative types i = put_bit True i" using assms(2) by (auto simp: expand_negative_def fun_eq_iff)
    then show ?thesis using adds_put [OF i] by (simp add: attr_types_def None)
  next
    case (Some kd)
    obtain k d where d: "kd = (k, d)" by (cases kd)
    have "expand_negative types i =
        (if flavor d = TYPE_ATTRIB then (\<lambda>e. checked (ebitmap_union e (type_types d))) else put_bit True i)"
      using assms(2) by (auto simp: expand_negative_def fun_eq_iff Some d)
    moreover have "ebitmap_ok (type_types d)" using assms Some d by (auto simp: type_index_ok_def)
    ultimately show ?thesis using adds_put [OF i] adds_union by (simp add: attr_types_def Some d)
  qed
qed

text \<open>The loop that complements the set: no attribute may be in it.\<close>

lemma complement_loop:
  assumes "ebitmap_ok e" and "distinct is" and "\<forall>i\<in>set is. i < 4294967232 \<and> \<not> (is_attrib types i \<and> i \<in> ebits e)"
  shows "\<exists>e'. set_loop (complement_type types) is e = Inr (Some e') \<and> ebitmap_ok e' \<and>
    ebits e' = (ebits e - set is) \<union> {i \<in> set is. \<not> is_attrib types i \<and> i \<notin> ebits e}"
  using assms
proof (induction "is" arbitrary: e)
  case (Cons i "is")
  have g: "eget e i \<longleftrightarrow> i \<in> ebits e" and i: "i < 4294967232" using eget_iff [OF Cons.prems(1), of i] Cons.prems(3) by auto
  have step: "\<exists>e1. complement_type types i e = Inr (Some e1) \<and> ebitmap_ok e1 \<and>
      ebits e1 = (if is_attrib types i then ebits e else if i \<in> ebits e then ebits e - {i} else insert i (ebits e))"
  proof (cases "is_attrib types i")
    case True
    then show ?thesis using Cons.prems(1,3) g by (simp add: complement_type_def)
  next
    case False
    have u: "unat (word_of_nat i :: u32) = i" by (rule unat_word_of_nat_u32) (use i in simp)
    obtain e1 where "ebitmap_set_bit e (word_of_nat i) (\<not> eget e i) = (e1, 0)" "ebitmap_ok e1"
      "ebits e1 = (if \<not> eget e i then insert i (ebits e) else ebits e - {i})"
      using ebitmap_set_bit_correct [OF Cons.prems(1), of "word_of_nat i" "\<not> eget e i"] i u by metis
    then show ?thesis using False g by (simp add: complement_type_def put_bit_def checked_def)
  qed
  then obtain e1 where e1: "complement_type types i e = Inr (Some e1)" "ebitmap_ok e1"
      "ebits e1 = (if is_attrib types i then ebits e else if i \<in> ebits e then ebits e - {i} else insert i (ebits e))"
    by blast
  have n: "i \<notin> set is" using Cons.prems(2) by simp
  have "\<forall>j\<in>set is. j < 4294967232 \<and> \<not> (is_attrib types j \<and> j \<in> ebits e1)"
    using Cons.prems(3) n e1(3) by auto
  then obtain e' where "set_loop (complement_type types) is e1 = Inr (Some e')" "ebitmap_ok e'"
    "ebits e' = (ebits e1 - set is) \<union> {i \<in> set is. \<not> is_attrib types i \<and> i \<notin> ebits e1}"
    using Cons.IH [OF e1(2)] Cons.prems(2) by auto
  moreover have "(ebits e1 - set is) \<union> {j \<in> set is. \<not> is_attrib types j \<and> j \<notin> ebits e1} =
      (ebits e - set (i # is)) \<union> {j \<in> set (i # is). \<not> is_attrib types j \<and> j \<notin> ebits e}"
    using Cons.prems(3) n e1(3) by auto
  ultimately show ?case using e1(1) by simp
qed simp

lemma expand_set:
  assumes "type_index_ok n types" and "set_in_range st types"
    and "ts_flags st AND TYPE_STAR = 0 \<and> ts_flags st AND TYPE_COMP \<noteq> 0 \<Longrightarrow>
      \<forall>i\<in>plain_types st types. i < length types \<longrightarrow> \<not> is_attrib types i"
  shows "\<exists>t. type_set_expand st n types True = Inr (Some t) \<and> ebitmap_ok t \<and> ebits t = expanded st types"
proof -
  let ?P = "\<Union>i\<in>ebits (ts_types st). attr_types types i" and ?N = "\<Union>i\<in>ebits (ts_negset st). attr_types types i"
  have len: "length types = unat n" "unat n < 4294967232" using assms(1) by (simp_all add: type_index_ok_def)
  have "\<exists>e. set_loop (expand_positive n types True) (positive_bits (ts_types st)) ebitmap_init = Inr (Some e) \<and> ebitmap_ok e \<and> ebits e = ?P"
    using adds_start [OF adds_loop [of "positive_bits (ts_types st)" "expand_positive n types True" "attr_types types"]]
      adds_positive [OF assms(1)] assms(2) by (simp add: set_positive set_in_range_def)
  then obtain pos where pos: "set_loop (expand_positive n types True) (positive_bits (ts_types st)) ebitmap_init = Inr (Some pos)"
    "ebitmap_ok pos" "ebits pos = ?P" by blast
  have "\<exists>e. set_loop (expand_negative types) (positive_bits (ts_negset st)) ebitmap_init = Inr (Some e) \<and> ebitmap_ok e \<and> ebits e = ?N"
    using adds_start [OF adds_loop [of "positive_bits (ts_negset st)" "expand_negative types" "attr_types types"]]
      adds_negative [OF assms(1)] assms(2) by (simp add: set_positive set_in_range_def)
  then obtain neg where neg: "set_loop (expand_negative types) (positive_bits (ts_negset st)) ebitmap_init = Inr (Some neg)"
    "ebitmap_ok neg" "ebits neg = ?N" by blast
  note start = pos(1) neg(1)
  show ?thesis
  proof (cases "ts_flags st AND TYPE_STAR \<noteq> 0")
    case True
    let ?f = "\<lambda>i t. if eget neg i \<or> is_attrib types i then Inr (Some t) else put_bit True i t"
    have "adds (?f i) (if i \<in> ?N \<or> is_attrib types i then {} else {i})" if "i \<in> set [0..<unat n]" for i
      using that len adds_none adds_put [of i] eget_iff [OF neg(2), of i] neg(3) by auto
    from adds_start [OF adds_loop [of "[0..<unat n]" ?f, OF this]] obtain t where
      "set_loop ?f [0..<unat n] ebitmap_init = Inr (Some t)" "ebitmap_ok t"
      "ebits t = (\<Union>i\<in>set [0..<unat n]. if i \<in> ?N \<or> is_attrib types i then {} else {i})" by blast
    then show ?thesis
      using True len(1) by (auto simp: type_set_expand_def start res_opt_bind_def expanded_def split: if_splits)
  next
    case star: False
    let ?f = "\<lambda>i t. if eget neg i then Inr (Some t) else put_bit True i t"
    have "adds (?f i) (if i \<in> ?N then {} else {i})" if "i \<in> set (positive_bits pos)" for i
    proof -
      have "i \<in> ebits pos" using that by (simp add: set_positive)
      then have "i < 4294967232" using ebits_less [OF pos(2)] ebitmap_length_le [OF pos(2)] by fastforce
      then show ?thesis using adds_none adds_put [of i] eget_iff [OF neg(2), of i] neg(3) by auto
    qed
    from adds_start [OF adds_loop [of "positive_bits pos" ?f, OF this]]
    obtain t where t: "set_loop ?f (positive_bits pos) ebitmap_init = Inr (Some t)" "ebitmap_ok t"
      "ebits t = (\<Union>i\<in>set (positive_bits pos). if i \<in> ?N then {} else {i})" by blast
    have tb: "ebits t = plain_types st types" using pos(3) by (auto simp: t(3) set_positive plain_types_def split: if_splits)
    show ?thesis
    proof (cases "ts_flags st AND TYPE_COMP \<noteq> 0")
      case True
      have "\<forall>i\<in>set [0..<unat n]. i < 4294967232 \<and> \<not> (is_attrib types i \<and> i \<in> ebits t)"
        using assms(3) star True len tb by auto
      from complement_loop [OF t(2) _ this] obtain e' where
        "set_loop (complement_type types) [0..<unat n] t = Inr (Some e')" "ebitmap_ok e'"
        "ebits e' = (ebits t - set [0..<unat n]) \<union> {i \<in> set [0..<unat n]. \<not> is_attrib types i \<and> i \<notin> ebits t}" by auto
      then show ?thesis
        using star True tb len(1) by (auto simp: type_set_expand_def start res_opt_bind_def expanded_def t(1))
    next
      case False
      then show ?thesis using star tb t(2) by (simp add: type_set_expand_def start res_opt_bind_def expanded_def t(1))
    qed
  qed
qed

end
