(* ===== verification/Sepol_Transitions_Correct.thy ===== *)
theory Sepol_Transitions_Correct
  imports Sepol_Transitions Sepol_Symtab_Correct
begin

text \<open>
  The transition rules of a kernel policy survive the file. The two hash tables are
  interpretations of the interface of the symbol tables: their comparison functions order
  keys whose numbers are below $2^{31}$, where a difference does not change its sign.
\<close>

section \<open>Lists\<close>

definition role_trans_ok :: "pf_version \<Rightarrow> role_trans list \<Rightarrow> bool" where
  "role_trans_ok v r \<longleftrightarrow> short r \<and> (new_roletr v \<or> (\<forall>tr\<in>set r. rt_tclass tr = SECCLASS_PROCESS))"

definition role_trans_enc1 :: "pf_version \<Rightarrow> role_trans \<Rightarrow> bytes" where
  "role_trans_enc1 v tr = le32s [rt_role tr, rt_type tr, rt_new_role tr] @ (if new_roletr v then le32s [rt_tclass tr] else [])"

definition role_trans_enc :: "pf_version \<Rightarrow> role_trans list \<Rightarrow> bytes" where
  "role_trans_enc v r = le32s [len32 r] @ concat (map (role_trans_enc1 v) r)"

lemma emits_role_trans [emit_intros]:
  assumes "role_trans_ok v r"
  shows "emits (role_trans_write v r) (role_trans_enc v r)"
proof -
  have f: "filter (\<lambda>tr. new_roletr v \<or> rt_tclass tr = SECCLASS_PROCESS) r = r"
    using assms by (auto simp: role_trans_ok_def filter_id_conv)
  have e: "emits (if \<not> new_roletr v \<and> rt_tclass tr \<noteq> SECCLASS_PROCESS then w_skip
      else w_seq (w_words [rt_role tr, rt_type tr, rt_new_role tr]) (w_when (new_roletr v) (w_words [rt_tclass tr])))
      (role_trans_enc1 v tr)" if "tr \<in> set r" for tr
  proof -
    have "\<not> (\<not> new_roletr v \<and> rt_tclass tr \<noteq> SECCLASS_PROCESS)" using assms that by (auto simp: role_trans_ok_def)
    then show ?thesis
      unfolding role_trans_enc1_def by (simp only: if_False) (intro emits_seq emits_words emits_when)
  qed
  show ?thesis unfolding role_trans_write_def role_trans_enc_def f
    by (intro emits_seq emits_words emits_list e)
qed

lemma accepts_role_trans [accept_intros]:
  assumes "role_trans_ok v r"
  shows "accepts (role_trans_read v) (role_trans_enc v r) r"
proof -
  have s: "short r" using assms by (simp add: role_trans_ok_def)
  have "accepts (r_list (length r) (r_bind (r_words 3) (\<lambda>buf. r_bind (r_when (new_roletr v) (r_words 1) [SECCLASS_PROCESS]) (\<lambda>c.
      r_ok \<lparr>rt_role = buf ! 0, rt_type = buf ! 1, rt_tclass = c ! 0, rt_new_role = buf ! 2\<rparr>))))
      (concat (map (role_trans_enc1 v) r)) r"
  proof (rule accepts_list [OF refl], rule acceptsI)
    fix tr x
    assume "tr \<in> set r"
    then have "new_roletr v \<or> rt_tclass tr = SECCLASS_PROCESS" using assms by (auto simp: role_trans_ok_def)
    then show "r_bind (r_words 3) (\<lambda>buf. r_bind (r_when (new_roletr v) (r_words 1) [SECCLASS_PROCESS]) (\<lambda>c.
        r_ok \<lparr>rt_role = buf ! 0, rt_type = buf ! 1, rt_tclass = c ! 0, rt_new_role = buf ! 2\<rparr>)) (role_trans_enc1 v tr @ x) =
        r_ok tr x"
      by (cases tr, cases "new_roletr v") (simp_all add: role_trans_enc1_def run_simps)
  qed
  then show ?thesis
    by (intro acceptsI) (simp add: role_trans_read_def role_trans_enc_def run_simps s accepts_def r_ok_def)
qed

definition role_allow_enc :: "role_allow list \<Rightarrow> bytes" where
  "role_allow_enc r = le32s [len32 r] @ concat (map (\<lambda>ra. le32s [ra_role ra, ra_new_role ra]) r)"

lemma emits_role_allow [emit_intros]: "emits (role_allow_write r) (role_allow_enc r)"
  unfolding role_allow_write_def role_allow_enc_def by (intro emits_seq emits_words emits_list)

lemma accepts_role_allow [accept_intros]:
  assumes "short r"
  shows "accepts role_allow_read (role_allow_enc r) r"
proof -
  have "accepts (r_list (length r) (r_bind (r_words 2) (\<lambda>buf. r_ok \<lparr>ra_role = buf ! 0, ra_new_role = buf ! 1\<rparr>)))
      (concat (map (\<lambda>ra. le32s [ra_role ra, ra_new_role ra]) r)) r"
  proof (rule accepts_list [OF refl], rule acceptsI)
    fix ra x
    show "r_bind (r_words 2) (\<lambda>buf. r_ok \<lparr>ra_role = buf ! 0, ra_new_role = buf ! 1\<rparr>)
        (le32s [ra_role ra, ra_new_role ra] @ x) = r_ok ra x"
      by (cases ra) (simp add: run_simps)
  qed
  then show ?thesis
    by (intro acceptsI) (simp add: role_allow_read_def role_allow_enc_def run_simps assms accepts_def r_ok_def)
qed

section \<open>Comparisons by differences\<close>

definition low31 :: "u32 \<Rightarrow> bool" where "low31 a \<longleftrightarrow> uint a < 2147483648"

lemma diff32_low: "low31 a \<Longrightarrow> low31 b \<Longrightarrow> diff32 a b = uint a - uint b"
proof -
  assume l: "low31 a" "low31 b"
  have "uint (a - b) = (uint a - uint b) mod 4294967296" by (simp add: uint_word_ariths)
  then have "diff32 a b = ((uint a - uint b) mod 4294967296 + 2147483648) mod 4294967296 - 2147483648"
    by (simp add: diff32_def to_int32_def)
  also have "\<dots> = (uint a - uint b + 2147483648) mod 4294967296 - 2147483648" by (simp add: mod_simps)
  also have "\<dots> = uint a - uint b"
  proof -
    have "0 \<le> uint a" "0 \<le> uint b" by simp_all
    then have "0 \<le> uint a - uint b + 2147483648" "uint a - uint b + 2147483648 < 4294967296"
      using l unfolding low31_def by linarith+
    then show ?thesis by simp
  qed
  finally show ?thesis .
qed

definition filename_key :: "filename_trans \<Rightarrow> bool" where
  "filename_key ft \<longleftrightarrow> low31 (ft_stype ft) \<and> low31 (ft_ttype ft) \<and> low31 (ft_tclass ft) \<and> sym_ok (ft_name ft)"

definition range_key :: "range_trans \<Rightarrow> bool" where
  "range_key rt \<longleftrightarrow> low31 (source_type rt) \<and> low31 (target_type rt) \<and> low31 (target_class rt)"

lemma masked_less: "n \<noteq> 0 \<Longrightarrow> x AND (n - 1) < (n :: u32)"
proof -
  assume n: "n \<noteq> 0"
  have "x AND (n - 1) \<le> n - 1" by (rule word_and_le1)
  then show ?thesis using n
    by (simp add: word_le_nat_alt word_less_nat_alt unat_minus_one unat_gt_0) (metis Suc_pred le_imp_less_Suc unat_gt_0)
qed

lemma ucast_masked: "ucast (h AND ucast (m :: u32) :: u64) = (ucast h AND m :: u32)"
  by (rule bit_word_eqI) (auto simp: bit_simps)

interpretation file_tr: hash_scheme filenametr_cmp filename_key filenametr_hash
proof
  fix a b c :: filename_trans and n :: u32
  show "n \<noteq> 0 \<Longrightarrow> filenametr_hash n a < n"
    unfolding filenametr_hash_def ucast_masked by (rule masked_less)
  assume a: "filename_key a" and b: "filename_key b"
  have cmp: "filenametr_cmp x y = (if ft_stype x \<noteq> ft_stype y then uint (ft_stype x) - uint (ft_stype y)
      else if ft_ttype x \<noteq> ft_ttype y then uint (ft_ttype x) - uint (ft_ttype y)
      else if ft_tclass x \<noteq> ft_tclass y then uint (ft_tclass x) - uint (ft_tclass y)
      else strcmp (ft_name x) (ft_name y))" if "filename_key x" "filename_key y" for x y
    using that by (simp add: filenametr_cmp_def filename_key_def diff32_low word_uint_eq_iff)
  show "filenametr_cmp a b = 0 \<longleftrightarrow> a = b"
    using a b strcmp_eq by (cases a, cases b) (auto simp: cmp filename_key_def word_uint_eq_iff)
  show "0 < filenametr_cmp a b \<longleftrightarrow> filenametr_cmp b a < 0"
    using strcmp_neg [of "ft_name a" "ft_name b"] by (auto simp: cmp a b)
  assume c: "filename_key c" and ab: "0 < filenametr_cmp a b" and bc: "0 < filenametr_cmp b c"
  have t: "0 < strcmp (ft_name a) (ft_name b) \<Longrightarrow> 0 < strcmp (ft_name b) (ft_name c) \<Longrightarrow> 0 < strcmp (ft_name a) (ft_name c)"
    using strcmp_trans [of "ft_name a" "ft_name b" "ft_name c"] a b c by (simp add: filename_key_def)
  show "0 < filenametr_cmp a c"
    using ab bc t by (auto simp: cmp a b c split: if_splits)
qed

interpretation range_tr: hash_scheme rangetr_cmp range_key rangetr_hash
proof
  fix a b c :: range_trans and n :: u32
  show "n \<noteq> 0 \<Longrightarrow> rangetr_hash n a < n" unfolding rangetr_hash_def by (rule masked_less)
  assume a: "range_key a" and b: "range_key b"
  have cmp: "rangetr_cmp x y = (if source_type x \<noteq> source_type y then uint (source_type x) - uint (source_type y)
      else if target_type x \<noteq> target_type y then uint (target_type x) - uint (target_type y)
      else uint (target_class x) - uint (target_class y))" if "range_key x" "range_key y" for x y
    using that by (simp add: rangetr_cmp_def range_key_def diff32_low word_uint_eq_iff)
  show "rangetr_cmp a b = 0 \<longleftrightarrow> a = b"
    by (cases a, cases b) (use a b in \<open>auto simp: cmp word_uint_eq_iff\<close>)
  show "0 < rangetr_cmp a b \<longleftrightarrow> rangetr_cmp b a < 0" by (auto simp: cmp a b)
  assume c: "range_key c" and ab: "0 < rangetr_cmp a b" and bc: "0 < rangetr_cmp b c"
  show "0 < rangetr_cmp a c" using ab bc by (auto simp: cmp a b c split: if_splits)
qed

section \<open>The two tables\<close>

definition filename_ok :: "filename_trans \<Rightarrow> filename_trans_datum \<Rightarrow> bool" where
  "filename_ok ft d \<longleftrightarrow> filename_key ft \<and> name_ok (ft_name ft)"

definition filename_enc :: "filename_trans \<Rightarrow> filename_trans_datum \<Rightarrow> bytes" where
  "filename_enc ft d = le32s [len32 (ft_name ft)] @ ft_name ft @ le32s [ft_stype ft, ft_ttype ft, ft_tclass ft, d]"

interpretation file_codec: table_codec filenametr_cmp filename_key filenametr_hash filename_write_helper filename_trans_read1
  filename_enc filename_ok "\<lambda>_ _. False"
proof
  fix k :: filename_trans and d :: filename_trans_datum and h h' :: filename_table and r
  assume ok: "filename_ok k d"
  show "emits (filename_write_helper k d) (filename_enc k d)"
    unfolding filename_write_helper_def by (rule emits_eq, (rule emit_intros)+) (simp add: filename_enc_def)
  show "filename_key k" using ok by (simp add: filename_ok_def)
  show "False \<Longrightarrow> filename_trans_read1 h (filename_enc k d @ r) = Inr (Some (h, r))" by simp
  show "\<not> False \<Longrightarrow> hashtab_insert h k d = Inr (h', SEPOL_OK) \<Longrightarrow> filename_trans_read1 h (filename_enc k d @ r) = Inr (Some (h', r))"
    using ok by (cases k) (simp add: filename_trans_read1_def filename_enc_def filename_ok_def run_simps name_okD SEPOL_OK_def)
qed

definition range_row_ok :: "pf_version \<Rightarrow> range_trans \<Rightarrow> mls_range \<Rightarrow> bool" where
  "range_row_ok v rt r \<longleftrightarrow> kern v \<and> range_key rt \<and> range_ok r \<and> (new_rangetr v \<or> target_class rt = SECCLASS_PROCESS)"

definition range_row_enc :: "pf_version \<Rightarrow> range_trans \<Rightarrow> mls_range \<Rightarrow> bytes" where
  "range_row_enc v rt r = le32s [source_type rt, target_type rt] @ (if new_rangetr v then le32s [target_class rt] else []) @ range_enc r"

interpretation range_codec: table_codec rangetr_cmp range_key rangetr_hash "range_write_helper v" "range_read1 v"
  "range_row_enc v" "range_row_ok v" "\<lambda>_ _. False" for v
proof
  fix k :: range_trans and d :: mls_range and h h' :: range_table and r
  assume ok: "range_row_ok v k d"
  have w: "\<not> (\<not> new_rangetr v \<and> target_class k \<noteq> SECCLASS_PROCESS)" using ok by (auto simp: range_row_ok_def)
  show "emits (range_write_helper v k d) (range_row_enc v k d)"
    unfolding range_write_helper_def if_not_P [OF w] by (rule emits_eq, (rule emit_intros)+) (simp add: range_row_enc_def)
  show "range_key k" using ok by (simp add: range_row_ok_def)
  show "False \<Longrightarrow> range_read1 v h (range_row_enc v k d @ r) = Inr (Some (h, r))" by simp
  show "\<not> False \<Longrightarrow> hashtab_insert h k d = Inr (h', SEPOL_OK) \<Longrightarrow> range_read1 v h (range_row_enc v k d @ r) = Inr (Some (h', r))"
    using ok by (cases k, cases "new_rangetr v")
      (simp_all add: range_read1_def range_entry_def range_row_enc_def range_row_ok_def run_simps r_insert_def SEPOL_OK_def)
qed

definition filename_trans_ok :: "pf_version \<Rightarrow> filename_table \<Rightarrow> bool" where
  "filename_trans_ok v h \<longleftrightarrow> (\<exists>t. h = Some t \<and> file_codec.storable t \<and> hsize t = 1024)"

definition filename_trans_enc :: "filename_table \<Rightarrow> bytes" where
  "filename_trans_enc h = (case h of None \<Rightarrow> [] | Some t \<Rightarrow> le32s [nel t] @ file_codec.table_enc t)"

lemma emits_filename_trans:
  assumes "filename_trans_ok v h" and "25 \<le> pv_vers v"
  shows "emits (filename_trans_write v h) (filename_trans_enc h)"
proof -
  have v: "\<not> pv_vers v < 25" using assms(2) by simp
  obtain t where t: "h = Some t" "file_codec.storable t" using assms(1) by (auto simp: filename_trans_ok_def)
  show ?thesis
    unfolding filename_trans_write_def filename_trans_enc_def if_not_P [OF v] t(1) option.case
    by (intro emits_seq emits_words file_codec.written t(2))
qed

lemma accepts_filename_trans:
  assumes "filename_trans_ok v h"
  shows "accepts (filename_trans_read init_filename_trans) (filename_trans_enc h) h"
proof -
  obtain t where t: "h = Some t" "file_codec.storable t" "hsize t = 1024" using assms by (auto simp: filename_trans_ok_def)
  note rd = file_codec.table_read_new [OF t(2,3)]
  show ?thesis
    by (rule acceptsI)
      (use rd in \<open>simp add: filename_trans_read_def filename_trans_enc_def t(1) run_simps init_filename_trans_def create_empty
        accepts_def r_ok_def\<close>)
qed

definition range_tr_ok :: "pf_version \<Rightarrow> range_table \<Rightarrow> bool" where
  "range_tr_ok v h \<longleftrightarrow> kern v \<and> (\<exists>t. h = Some t \<and> range_codec.storable v t \<and> hsize t = 256)"

definition range_tr_enc :: "pf_version \<Rightarrow> range_table \<Rightarrow> bytes" where
  "range_tr_enc v h = (case h of None \<Rightarrow> [] | Some t \<Rightarrow> le32s [nel t] @ range_codec.table_enc v t)"

lemma range_counted:
  assumes "range_codec.storable v t"
  shows "fst (hashtab_map (Some t) (rangetrans_count v) 0) = nel t"
proof -
  have all: "\<forall>n\<in>set (nodes t). new_rangetr v \<or> target_class (fst n) = SECCLASS_PROCESS" and n: "nel t = len32 (nodes t)"
    using assms by (auto simp: range_codec.storable_def range_row_ok_def range_tr.counted_def nodes_def len32_def)
  have "map_chain (rangetrans_count v) ns m = (m + word_of_nat (length ns), SEPOL_OK)"
    if "\<forall>n\<in>set ns. new_rangetr v \<or> target_class (fst n) = SECCLASS_PROCESS" for ns and m :: u32
    using that by (induction ns arbitrary: m) (auto simp: rangetrans_count_def algebra_simps)
  then show ?thesis using all n by (simp add: hashtab_map_nodes nodes_def [symmetric] len32_def)
qed

lemma emits_range_tr:
  assumes "range_tr_ok v h"
  shows "emits (range_write v h) (range_tr_enc v h)"
proof -
  obtain t where t: "h = Some t" "range_codec.storable v t" using assms by (auto simp: range_tr_ok_def)
  show ?thesis
    unfolding range_write_def range_tr_enc_def t(1) option.case range_counted [OF t(2)]
    by (intro emits_seq emits_words range_codec.written t(2))
qed

lemma accepts_range_tr:
  assumes "range_tr_ok v h"
  shows "accepts (range_read v init_range_tr) (range_tr_enc v h) (h, [])"
proof -
  obtain t where t: "kern v" "h = Some t" "range_codec.storable v t" "hsize t = 256" using assms by (auto simp: range_tr_ok_def)
  note rd = run_bind [OF range_codec.table_read_new [OF t(3,4)]]
  show ?thesis
    by (rule acceptsI)
      (simp add: range_read_def range_tr_enc_def t(1,2) run_simps init_range_tr_def create_empty rd)
qed

end
