(* ===== verification/Sepol_Context_Correct.thy ===== *)
theory Sepol_Context_Correct
  imports Sepol_Context_File Sepol_Index_Correct Sepol_Transitions_Correct
begin

text \<open>
  Contexts survive the file when they are valid in the policy they are read into; the lists
  of object contexts come back as they were, and so do those of generic file systems when
  they are sorted the way reading sorts them.
\<close>

section \<open>Dominance\<close>

lemma level_dom_iff:
  "level_ok a \<Longrightarrow> level_ok b \<Longrightarrow> mls_level_dom a b \<longleftrightarrow> lev_sens b \<le> lev_sens a \<and> ebits (lev_cat b) \<subseteq> ebits (lev_cat a)"
  using ebitmap_contains_correct [of "lev_cat a" "lev_cat b"] by (simp add: mls_level_dom_def level_ok_def)

lemma level_dom_antisym:
  assumes "level_ok a" and "level_ok b" and "mls_level_dom a b" and "mls_level_dom b a"
  shows "a = b"
proof -
  have "lev_sens a = lev_sens b" "ebits (lev_cat a) = ebits (lev_cat b)"
    using assms level_dom_iff by (metis order_antisym)+
  moreover have "ebitmap_cmp (lev_cat a) (lev_cat b) \<longleftrightarrow> ebits (lev_cat a) = ebits (lev_cat b)"
    using assms(1,2) ebitmap_cmp_correct by (simp add: level_ok_def)
  ultimately show ?thesis by (cases a, cases b) (simp add: cmp_same)
qed

section \<open>Contexts\<close>

definition context_ok :: "pf_env \<Rightarrow> context_struct \<Rightarrow> bool" where
  "context_ok p c \<longleftrightarrow> (if with_range (en_version p) then range_ok (co_range c) else co_range c = mls_range_init) \<and>
     context_is_valid p c = Inr True"

definition context_enc :: "pf_version \<Rightarrow> context_struct \<Rightarrow> bytes" where
  "context_enc v c = le32s [co_user c, co_role c, co_type c] @ (if with_range v then range_enc (co_range c) else [])"

lemma emits_context [emit_intros]: "emits (context_write v c) (context_enc v c)"
  unfolding context_write_def by (rule emits_eq, (rule emit_intros)+) (simp add: context_enc_def)

lemma accepts_context [accept_intros]:
  assumes "context_ok p c"
  shows "accepts (context_read_and_validate p) (context_enc (en_version p) c) c"
proof (rule acceptsI)
  fix r
  have "context_is_valid p \<lparr>co_user = co_user c, co_role = co_role c, co_type = co_type c, co_range = co_range c\<rparr> = Inr True"
    using assms by (cases c) (simp add: context_ok_def)
  then show "context_read_and_validate p (context_enc (en_version p) c @ r) = r_ok c r"
    using assms by (cases c, cases "with_range (en_version p)")
      (simp_all add: context_read_and_validate_def context_enc_def context_ok_def run_simps r_ok_def)
qed

lemmas run_context [run_simps] = run_bind [OF accepts_context]

lemma valid_user: "context_is_valid p c = Inr True \<Longrightarrow> co_user c \<noteq> 0"
  by (auto simp: context_is_valid_def split: if_splits)

section \<open>Object contexts\<close>

lemmas ocon_kinds = OCON_ISID_def OCON_FS_def OCON_PORT_def OCON_NETIF_def OCON_NODE_def OCON_FSUSE_def OCON_NODE6_def
  OCON_IBPKEY_def OCON_IBENDPORT_def
lemmas ocon_xen_kinds = OCON_XEN_ISID_def OCON_XEN_PIRQ_def OCON_XEN_IOPORT_def OCON_XEN_IOMEM_def OCON_XEN_PCIDEVICE_def
  OCON_XEN_DEVICETREE_def

definition two_contexts :: "nat \<Rightarrow> bool" where "two_contexts i \<longleftrightarrow> i = OCON_FS \<or> i = OCON_NETIF"

text \<open>An entry that its list can hold in the file: nothing set that the file has no place for.\<close>

definition ocon_ok :: "pf_env \<Rightarrow> nat \<Rightarrow> ocontext \<Rightarrow> bool" where
  "ocon_ok p i c \<longleftrightarrow> context_ok p (oc_context0 c) \<and>
     (if two_contexts i then context_ok p (oc_context1 c) else oc_context1 c = context_init) \<and>
     (i \<noteq> OCON_ISID \<longrightarrow> oc_sid c = 0) \<and> (i \<noteq> OCON_FSUSE \<longrightarrow> oc_v c = 0) \<and>
     (case oc_u c of
        U_none \<Rightarrow> i = OCON_ISID
      | U_name n \<Rightarrow> name_ok n \<and> (two_contexts i \<and> length n \<le> 63 \<or> i = OCON_FSUSE)
      | U_port _ _ _ \<Rightarrow> i = OCON_PORT
      | U_node _ _ \<Rightarrow> i = OCON_NODE
      | U_node6 a m \<Rightarrow> i = OCON_NODE6 \<and> length a = 4 \<and> length m = 4
      | U_ibpkey _ _ _ _ \<Rightarrow> i = OCON_IBPKEY
      | U_ibendport n port \<Rightarrow> i = OCON_IBENDPORT \<and> name_ok n \<and> length n \<le> 63 \<and> port \<noteq> 0
      | _ \<Rightarrow> False)"

definition ocon_enc :: "pf_version \<Rightarrow> nat \<Rightarrow> ocontext \<Rightarrow> bytes" where
  "ocon_enc v i c =
     (case oc_u c of
        U_none \<Rightarrow> le32s [oc_sid c]
      | U_name n \<Rightarrow> le32s (if i = OCON_FSUSE then [oc_v c, len32 n] else [len32 n]) @ n
      | U_port proto lo hi \<Rightarrow> le32s [ucast proto, ucast lo, ucast hi]
      | U_node a m \<Rightarrow> le32s [a, m]
      | U_node6 a m \<Rightarrow> le32s (a @ m)
      | U_ibpkey s0 s1 lo hi \<Rightarrow> le32s [s0, s1, ucast lo, ucast hi]
      | U_ibendport n port \<Rightarrow> le32s [len32 n, ucast port] @ n
      | _ \<Rightarrow> []) @
     context_enc v (oc_context0 c) @ (if two_contexts i then context_enc v (oc_context1 c) else [])"

lemma emits_ocon:
  assumes "ocon_ok p i c"
  shows "emits (write_ocon_selinux v i c) (ocon_enc v i c)"
proof -
  have u: "co_user (oc_context0 c) \<noteq> 0" using assms valid_user [of p "oc_context0 c"] by (simp add: ocon_ok_def context_ok_def)
  note D = assms [unfolded ocon_ok_def]
  show ?thesis
  proof (cases "oc_u c")
    case U_none
    then have "write_ocon_selinux v i c = w_seq (w_words [oc_sid c]) (context_write v (oc_context0 c))"
      using D u by (simp add: write_ocon_selinux_def ocon_kinds)
    moreover have "ocon_enc v i c = le32s [oc_sid c] @ context_enc v (oc_context0 c)"
      using D U_none by (simp add: ocon_enc_def two_contexts_def ocon_kinds)
    ultimately show ?thesis by (simp add: emits_seq emits_words emits_context)
  next
    case (U_name n)
    show ?thesis
    proof (cases "i = OCON_FSUSE")
      case True
      then have w: "write_ocon_selinux v i c = w_all [w_words [oc_v c, len32 n], w_put n, context_write v (oc_context0 c)]"
        using U_name by (simp add: write_ocon_selinux_def ocon_kinds)
      show ?thesis unfolding w
        by (rule emits_eq, (rule emit_intros)+) (simp add: ocon_enc_def U_name True two_contexts_def ocon_kinds)
    next
      case False
      then have i: "two_contexts i" using D U_name by simp
      then have w: "write_ocon_selinux v i c = w_all [w_words [len32 n], w_put n, context_write v (oc_context0 c), context_write v (oc_context1 c)]"
        using U_name by (auto simp: write_ocon_selinux_def two_contexts_def ocon_kinds)
      show ?thesis unfolding w
        by (rule emits_eq, (rule emit_intros)+) (simp add: ocon_enc_def U_name False i)
    qed
  next
    case (U_port proto lo hi)
    then have "write_ocon_selinux v i c = w_seq (w_words [ucast proto, ucast lo, ucast hi]) (context_write v (oc_context0 c))"
      "ocon_enc v i c = le32s [ucast proto, ucast lo, ucast hi] @ context_enc v (oc_context0 c)"
      using D by (simp_all add: write_ocon_selinux_def ocon_enc_def two_contexts_def ocon_kinds)
    then show ?thesis by (simp only: emits_seq emits_words emits_context)
  next
    case (U_node a m)
    then have "write_ocon_selinux v i c = w_seq (w_words [a, m]) (context_write v (oc_context0 c))"
      "ocon_enc v i c = le32s [a, m] @ context_enc v (oc_context0 c)"
      using D by (simp_all add: write_ocon_selinux_def ocon_enc_def two_contexts_def ocon_kinds)
    then show ?thesis by (simp only: emits_seq emits_words emits_context)
  next
    case (U_node6 a m)
    then have "write_ocon_selinux v i c = w_seq (w_words (a @ m)) (context_write v (oc_context0 c))"
      "ocon_enc v i c = le32s (a @ m) @ context_enc v (oc_context0 c)"
      using D by (simp_all add: write_ocon_selinux_def ocon_enc_def two_contexts_def ocon_kinds)
    then show ?thesis by (simp only: emits_seq emits_words emits_context)
  next
    case (U_ibpkey s0 s1 lo hi)
    then have "write_ocon_selinux v i c = w_seq (w_words [s0, s1, ucast lo, ucast hi]) (context_write v (oc_context0 c))"
      "ocon_enc v i c = le32s [s0, s1, ucast lo, ucast hi] @ context_enc v (oc_context0 c)"
      using D by (simp_all add: write_ocon_selinux_def ocon_enc_def two_contexts_def ocon_kinds)
    then show ?thesis by (simp only: emits_seq emits_words emits_context)
  next
    case (U_ibendport n port)
    then have w: "write_ocon_selinux v i c = w_all [w_words [len32 n, ucast port], w_put n, context_write v (oc_context0 c)]"
      using D by (simp add: write_ocon_selinux_def ocon_kinds)
    have i: "\<not> two_contexts i" using D U_ibendport by (simp add: two_contexts_def ocon_kinds)
    show ?thesis unfolding w by (rule emits_eq, (rule emit_intros)+) (simp add: ocon_enc_def U_ibendport i)
  qed (use D in simp_all)
qed

lemma ucast_word16 [simp]: "ucast (ucast x :: u32) = (x :: u16)"
  by (rule bit_word_eqI) (simp add: bit_simps)

lemma ucast_u16_le: "(ucast (x :: u16) :: u32) \<le> 0xFFFF"
proof -
  have "uint (ucast x :: u32) = uint x" by (rule uint_up_ucast) (simp add: is_up)
  then show ?thesis using unsigned_less [of x, where 'a = int] by (simp add: word_le_def)
qed

lemma ucast_u8_le: "(ucast (x :: u8) :: u32) \<le> 0xFF"
proof -
  have "uint (ucast x :: u32) = uint x" by (rule uint_up_ucast) (simp add: is_up)
  then show ?thesis using unsigned_less [of x, where 'a = int] by (simp add: word_le_def)
qed

lemma ucast_u8_0: "(ucast (x :: u8) :: u32) = 0 \<longleftrightarrow> x = 0"
  by (metis ucast_back ucast_0)

lemma accepts_ocon:
  assumes "ocon_ok p i c"
  shows "accepts (read_ocon_selinux p i) (ocon_enc (en_version p) i c) c"
proof (rule acceptsI)
  fix r
  obtain u v c0 c1 sid where c: "c = \<lparr>oc_u = u, oc_v = v, oc_context0 = c0, oc_context1 = c1, oc_sid = sid\<rparr>" by (cases c)
  note D = assms [unfolded ocon_ok_def c ocontext.simps]
  have run: "r_bind (r_ctx0 p z) f (context_enc (en_version p) c0 @ x) = f (z\<lparr>oc_context0 := c0\<rparr>) x" for z and f :: "_ \<Rightarrow> ocontext reader" and x
    using D by (simp add: r_ctx0_def run_simps)
  have last: "r_ctx0 p z (context_enc (en_version p) c0 @ x) = r_ok (z\<lparr>oc_context0 := c0\<rparr>) x" for z x
    using D by (simp add: r_ctx0_def run_simps)
  note defs = read_ocon_selinux_def ocon_enc_def c ocontext_init_def
  show "read_ocon_selinux p i (ocon_enc (en_version p) i c @ r) = r_ok c r"
  proof (cases u)
    case U_none
    then show ?thesis using D last by (simp add: defs two_contexts_def ocon_kinds run_simps)
  next
    case (U_name n)
    then have n: "name_ok n" using D by simp
    show ?thesis
    proof (cases "i = OCON_FSUSE")
      case True
      then have "\<not> two_contexts i" by (simp add: two_contexts_def ocon_kinds)
      then show ?thesis using D U_name True n last by (simp add: defs ocon_kinds run_simps name_okD)
    next
      case False
      then have i: "two_contexts i" "length n \<le> 63" using D U_name by simp_all
      then show ?thesis using D U_name n run unfolding two_contexts_def
        by (auto simp add: defs ocon_kinds run_simps name_okD two_contexts_def)
    qed
  next
    case (U_ibpkey s0 s1 lo hi)
    have "\<not> (ucast lo :: u32) > 0xFFFF" "\<not> (ucast hi :: u32) > 0xFFFF"
      using ucast_u16_le [of lo] ucast_u16_le [of hi] by simp_all
    then show ?thesis using D U_ibpkey last by (simp add: defs two_contexts_def ocon_kinds run_simps)
  next
    case (U_ibendport n port)
    have n: "name_ok n" "length n \<le> 63" "port \<noteq> 0" using D U_ibendport by simp_all
    then have "\<not> (ucast port :: u32) > 0xFF" "(ucast port :: u32) \<noteq> 0" using ucast_u8_le [of port] ucast_u8_0 [of port] by simp_all
    then show ?thesis using D U_ibendport n last
      by (simp add: defs two_contexts_def ocon_kinds run_simps name_okD IB_DEVICE_NAME_MAX_def)
  qed (use D last in \<open>simp_all add: defs two_contexts_def ocon_kinds run_simps\<close>)
qed

definition ocons_ok :: "pf_env \<Rightarrow> nat \<Rightarrow> ocontext list list \<Rightarrow> bool" where
  "ocons_ok p n oc \<longleftrightarrow> length oc = OCON_NUM \<and> n \<le> OCON_NUM \<and> (\<forall>i < n. short (oc ! i) \<and> (\<forall>c\<in>set (oc ! i). ocon_ok p i c)) \<and>
     (\<forall>i < OCON_NUM. n \<le> i \<longrightarrow> oc ! i = [])"

definition ocons_enc :: "pf_version \<Rightarrow> nat \<Rightarrow> ocontext list list \<Rightarrow> bytes" where
  "ocons_enc v n oc = concat (map (\<lambda>i. le32s [len32 (oc ! i)] @ concat (map (ocon_enc v i) (oc ! i))) [0..<n])"

lemma emits_ocons:
  assumes "ocons_ok p n oc"
  shows "emits (ocontext_write v SEPOL_TARGET_SELINUX n oc) (ocons_enc v n oc)"
proof -
  have "emits (write_ocons (write_ocon_selinux v) i (oc ! i)) (le32s [len32 (oc ! i)] @ concat (map (ocon_enc v i) (oc ! i)))"
    if "i \<in> set [0..<n]" for i
  proof -
    have ok: "\<forall>c\<in>set (oc ! i). ocon_ok p i c" using assms that by (simp add: ocons_ok_def)
    have "\<forall>c\<in>set (oc ! i). co_user (oc_context0 c) \<noteq> 0"
      using ok valid_user [of p] by (auto simp: ocon_ok_def context_ok_def)
    then have "filter (\<lambda>c. \<not> (i = OCON_ISID \<and> co_user (oc_context0 c) = 0)) (oc ! i) = oc ! i"
      by (simp add: filter_id_conv)
    then show ?thesis unfolding write_ocons_def using ok by (simp only:) (intro emits_seq emits_words emits_list emits_ocon, blast)
  qed
  from emits_list [OF this] show ?thesis
    unfolding ocontext_write_def ocontext_write_selinux_def ocons_enc_def by (simp only: if_True simp_thms)
qed

lemma accepts_each:
  "(\<And>x. x \<in> set xs \<Longrightarrow> accepts (f x) (enc x) (g x)) \<Longrightarrow> accepts (r_each f xs) (concat (map enc xs)) (map g xs)"
proof (induction xs)
  case (Cons x xs)
  have "accepts (r_each f xs) (concat (map enc xs)) (map g xs)" by (rule Cons.IH) (use Cons.prems in simp)
  then show ?case using Cons.prems [of x] by (simp add: accepts_bind accepts_bind_ok)
qed (simp add: accepts_ok)

lemma accepts_ocons:
  assumes "ocons_ok p n oc"
  shows "accepts (ocontext_read p SEPOL_TARGET_SELINUX n) (ocons_enc (en_version p) n oc) oc"
proof -
  have e: "accepts (read_ocons (read_ocon_selinux p) i) (le32s [len32 (oc ! i)] @ concat (map (ocon_enc (en_version p) i) (oc ! i))) (oc ! i)"
    if "i \<in> set [0..<n]" for i
  proof -
    have ok: "short (oc ! i)" "\<forall>c\<in>set (oc ! i). ocon_ok p i c" using assms that by (simp_all add: ocons_ok_def)
    have "accepts (r_list (length (oc ! i)) (read_ocon_selinux p i)) (concat (map (ocon_enc (en_version p) i) (oc ! i))) (oc ! i)"
      using ok(2) by (intro accepts_list [OF refl] accepts_ocon) blast
    then show ?thesis
      unfolding read_ocons_def by (intro accepts_bind [OF accepts_words]) (simp_all add: ok(1))
  qed
  have "pad_ocons (map ((!) oc) [0..<n]) = oc"
  proof (rule nth_equalityI)
    have l: "length oc = OCON_NUM" "n \<le> OCON_NUM" and rest: "\<And>i. i < OCON_NUM \<Longrightarrow> n \<le> i \<Longrightarrow> oc ! i = []"
      using assms by (simp_all add: ocons_ok_def)
    then show "length (pad_ocons (map ((!) oc) [0..<n])) = length oc" by (simp add: pad_ocons_def)
    fix i assume "i < length (pad_ocons (map ((!) oc) [0..<n]))"
    then have "i < OCON_NUM" using l by (simp add: pad_ocons_def)
    then show "pad_ocons (map ((!) oc) [0..<n]) ! i = oc ! i"
      using l rest [of i] by (cases "i < n") (simp_all add: pad_ocons_def nth_append)
  qed
  moreover have "accepts (r_bind (r_each (read_ocons (read_ocon_selinux p)) [0..<n]) (\<lambda>oc. r_ok (pad_ocons oc)))
      (ocons_enc (en_version p) n oc) (pad_ocons (map ((!) oc) [0..<n]))"
    unfolding ocons_enc_def by (rule accepts_bind_ok [OF accepts_each [OF e]])
  ultimately show ?thesis
    unfolding ocontext_read_def ocontext_read_selinux_def by (simp only: if_True simp_thms)
qed

section \<open>Generic file systems\<close>

definition ge_ok :: "pf_env \<Rightarrow> genfs_ocon \<Rightarrow> bool" where
  "ge_ok p c \<longleftrightarrow> name_ok (ge_name c) \<and> context_ok p (ge_context c)"

definition ge_apart :: "genfs_ocon \<Rightarrow> genfs_ocon \<Rightarrow> bool" where
  "ge_apart c n \<longleftrightarrow> length (ge_name n) \<le> length (ge_name c) \<and>
     \<not> (ge_name n = ge_name c \<and> (ge_sclass c = 0 \<or> ge_sclass n = 0 \<or> ge_sclass n = ge_sclass c))"

definition genfs_ok :: "pf_env \<Rightarrow> genfs list \<Rightarrow> bool" where
  "genfs_ok p gs \<longleftrightarrow> short gs \<and> sorted_wrt (\<lambda>a b. strcmp (ge_fstype b) (ge_fstype a) > 0) gs \<and>
     (\<forall>g\<in>set gs. name_ok (ge_fstype g) \<and> short (ge_head g) \<and> sorted_wrt ge_apart (ge_head g) \<and> (\<forall>c\<in>set (ge_head g). ge_ok p c))"

definition ge_enc :: "pf_version \<Rightarrow> genfs_ocon \<Rightarrow> bytes" where
  "ge_enc v c = le32s [len32 (ge_name c)] @ ge_name c @ le32s [ge_sclass c] @ context_enc v (ge_context c)"

definition genfs_enc1 :: "pf_version \<Rightarrow> genfs \<Rightarrow> bytes" where
  "genfs_enc1 v g = le32s [len32 (ge_fstype g)] @ ge_fstype g @ le32s [len32 (ge_head g)] @ concat (map (ge_enc v) (ge_head g))"

definition genfs_enc :: "pf_version \<Rightarrow> genfs list \<Rightarrow> bytes" where
  "genfs_enc v gs = le32s [len32 gs] @ concat (map (genfs_enc1 v) gs)"

lemma emits_genfs: "emits (genfs_write v gs) (genfs_enc v gs)"
proof -
  have c: "emits (genfs_write_ocon v c) (ge_enc v c)" for c
    unfolding genfs_write_ocon_def by (rule emits_eq, (rule emit_intros)+) (simp add: ge_enc_def)
  have g: "emits (w_all [w_words [len32 (ge_fstype g)], w_put (ge_fstype g), w_words [len32 (ge_head g)],
      w_all (map (genfs_write_ocon v) (ge_head g))]) (genfs_enc1 v g)" for g
    by (rule emits_eq, (rule emits_all_Cons emits_all_Nil emits_words emits_put emits_list c)+) (simp add: genfs_enc1_def)
  show ?thesis unfolding genfs_write_def genfs_enc_def by (intro emits_seq emits_words emits_list g)
qed

text \<open>Entries and file systems that come in order are put at the end.\<close>

lemma insert_last:
  "name_ok (ge_name n) \<Longrightarrow> \<forall>c\<in>set cs. name_ok (ge_name c) \<and> ge_apart c n \<Longrightarrow> insert_ocon n cs = Some (cs @ [n])"
  by (induction cs) (auto simp: ge_apart_def strcmp_eq name_okD)

lemma split_last:
  assumes "name_ok k" and "\<forall>g\<in>set gs. name_ok (ge_fstype g) \<and> strcmp k (ge_fstype g) > 0"
  shows "split_genfs k gs = Some (gs, [])"
  using assms by (induction gs) auto

lemma read_head:
  assumes "sorted_wrt ge_apart (done @ cs)" and "\<forall>c\<in>set (done @ cs). ge_ok p c"
  shows "accepts (r_times (length cs) (genfs_read_ocon p) done) (concat (map (ge_enc (en_version p)) cs)) (done @ cs)"
  using assms
proof (induction cs arbitrary: "done")
  case (Cons c cs)
  obtain n sc x where c: "c = \<lparr>ge_name = n, ge_sclass = sc, ge_context = x\<rparr>" by (cases c)
  have ok: "name_ok n" "context_ok p x" using Cons.prems(2) by (auto simp: c ge_ok_def)
  have ins: "insert_ocon c done = Some (done @ [c])"
    using Cons.prems by (intro insert_last) (auto simp: c ge_ok_def sorted_wrt_append)
  have one: "accepts (genfs_read_ocon p done) (ge_enc (en_version p) c) (done @ [c])"
    using ok ins by (intro acceptsI) (simp add: genfs_read_ocon_def ge_enc_def c run_simps name_okD)
  have "accepts (r_times (length cs) (genfs_read_ocon p) (done @ [c])) (concat (map (ge_enc (en_version p)) cs)) ((done @ [c]) @ cs)"
    by (rule Cons.IH) (use Cons.prems in simp_all)
  then show ?case using accepts_bind [OF one] by simp
qed (simp add: accepts_ok)

lemma read_file_systems:
  assumes "sorted_wrt (\<lambda>a b. strcmp (ge_fstype b) (ge_fstype a) > 0) (done @ gs)"
    and "\<forall>g\<in>set (done @ gs). name_ok (ge_fstype g) \<and> short (ge_head g) \<and> sorted_wrt ge_apart (ge_head g) \<and> (\<forall>c\<in>set (ge_head g). ge_ok p c)"
  shows "accepts (r_times (length gs) (genfs_read1 p) done) (concat (map (genfs_enc1 (en_version p)) gs)) (done @ gs)"
  using assms
proof (induction gs arbitrary: "done")
  case (Cons g gs)
  obtain k h where g: "g = \<lparr>ge_fstype = k, ge_head = h\<rparr>" by (cases g)
  have ok: "name_ok k" "short h" "sorted_wrt ge_apart ([] @ h)" "\<forall>c\<in>set ([] @ h). ge_ok p c" using Cons.prems(2) by (auto simp: g)
  have sp: "split_genfs k done = Some (done, [])"
    using Cons.prems ok(1) by (intro split_last) (auto simp: g sorted_wrt_append)
  note run = run_bind [OF read_head [OF ok(3,4)]]
  have one: "accepts (genfs_read1 p done) (genfs_enc1 (en_version p) g) (done @ [g])"
    using ok(1,2) sp run by (intro acceptsI) (simp add: genfs_read1_def genfs_enc1_def g run_simps name_okD)
  have "accepts (r_times (length gs) (genfs_read1 p) (done @ [g])) (concat (map (genfs_enc1 (en_version p)) gs)) ((done @ [g]) @ gs)"
    by (rule Cons.IH) (use Cons.prems in simp_all)
  then show ?case using accepts_bind [OF one] by simp
qed (simp add: accepts_ok)

lemma accepts_genfs:
  assumes "genfs_ok p gs"
  shows "accepts (genfs_read p) (genfs_enc (en_version p) gs) gs"
proof -
  have "accepts (r_times (length gs) (genfs_read1 p) []) (concat (map (genfs_enc1 (en_version p)) gs)) ([] @ gs)"
    using assms by (intro read_file_systems) (auto simp: genfs_ok_def)
  then show ?thesis
    unfolding genfs_read_def genfs_enc_def using assms by (intro accepts_bind [OF accepts_words]) (simp_all add: genfs_ok_def)
qed

end
