(* ===== verification/Sepol_Conditional_Correct.thy ===== *)
theory Sepol_Conditional_Correct
  imports Sepol_Conditional Sepol_Symtab_Correct "HOL-Library.Multiset"
begin

text \<open>
  Conditional rules survive the file: each conditional is read with its state, its expression
  and lists that point to the rules that were written, while the table of conditional rules
  is built anew around the pointers. Expressions are evaluated as the formulas they spell, and
  the comparison of expressions takes different ones for equal.
\<close>

section \<open>Pointers into the table\<close>

lemma av_node_slot:
  assumes "av_ok t" and "avslots t = Some hs"
  shows "av_node t p = Inr n \<longleftrightarrow> fst p < length hs \<and> snd p < length (hs ! fst p) \<and> n = hs ! fst p ! snd p"
  using assms by (auto simp: av_node_def av_slot_def av_ok_def split: if_splits)

text \<open>The insertion of a rule, with the nodes that were there at their new places.\<close>

lemma insert_cond_rule:
  assumes ok: "av_ok t" and sp: "av_spec k \<noteq> 0"
  obtains t' q where "avtab_insert_nonunique t k d = Inr (t', Some q)" and "av_ok t'"
    and "av_node t' q = Inr (new_avnode k d)"
    and "\<And>p n. av_node t p = Inr n \<Longrightarrow> av_node t' (shift_ptr q p) = Inr n"
    and "\<And>k'. mset (filter (av_hit k') (av_chain t' k')) =
      mset (filter (av_hit k') (av_chain t k')) + (if av_hit k' (new_avnode k d) then {#new_avnode k d#} else {#})"
proof -
  let ?c = "av_chain t k" and ?n = "new_avnode k d" and ?hv = "avtab_hash k (avmask t)"
  define i where "i = av_nonunique_walk k (av_spec k) ?c 0"
  let ?c' = "take i ?c @ ?n # drop i ?c"
  let ?t = "(av_put t k ?c')\<lparr>avnel := avnel t + 1\<rparr>"
  note c = av_chain_ok [OF ok, of k] and r = avtab_hash_range [OF ok, of k]
  have w: "i \<le> length ?c" "\<forall>n\<in>set (take i ?c). av_triple (fst n) \<le> av_triple k \<and> \<not> av_hit k n"
      "\<forall>n\<in>set (drop i ?c). av_triple k \<le> av_triple (fst n)"
    using av_nonunique_walk_spec [OF c(1) i_def [symmetric]] by auto
  have parts: "av_sorted (take i ?c)" "av_sorted (drop i ?c)"
    using c(1) by (metis append_take_drop_id av_sorted_simps(3))+
  have srt: "av_sorted ?c'" using w(2,3) parts by (fastforce intro: order_trans)
  have hs': "\<forall>n\<in>set ?c'. avtab_hash (fst n) (avmask t) = ?hv"
    using c(2) by (auto dest: in_set_takeD in_set_dropD)
  note put = av_put_ok [OF ok srt hs']
  have e: "avtab_insert_nonunique t k d = Inr (?t, Some (nat ?hv, i))"
    using av_ok_Some [OF ok] av_slot_hash [OF ok, of k] avtab_insert_node_put [OF ok, of k _ d]
    by (auto simp: avtab_insert_nonunique_def Let_def i_def)
  obtain hs where hs: "avslots t = Some hs" "length hs = unat (nslot t)" using av_ok_Some [OF ok] by blast
  have okt: "av_ok ?t" using put(1) by simp
  have slots: "avslots ?t = Some (hs[nat ?hv := ?c'])" by (simp add: av_put_def hs)
  have ch: "?c = hs ! nat ?hv" by (simp add: av_chain_def hs)
  note node = av_node_slot [OF ok hs(1)] av_node_slot [OF okt slots]
  have l: "nat ?hv < length hs" using r hs by simp
  have "av_node ?t (nat ?hv, i) = Inr ?n" using l w(1) by (simp add: node nth_append)
  moreover have "av_node ?t (shift_ptr (nat ?hv, i) p) = Inr n" if p: "av_node t p = Inr n" for p n
  proof (cases "fst p = nat ?hv")
    case True
    have np: "snd p < length ?c" "n = ?c ! snd p" using p True unfolding ch by (simp_all add: node(1))
    have "?c' ! (if i \<le> snd p then Suc (snd p) else snd p) = ?c ! snd p"
      using np(1) w(1) by (auto simp: nth_append nth_Cons' min_def)
    then show ?thesis using np True l by (auto simp: node(2) shift_ptr_def)
  next
    case False
    then show ?thesis using p by (simp add: node shift_ptr_def)
  qed
  moreover have "mset (filter (av_hit k') (av_chain ?t k')) =
      mset (filter (av_hit k') (av_chain t k')) + (if av_hit k' ?n then {#?n#} else {#})" for k'
  proof (cases "avtab_hash k' (avmask t) = ?hv")
    case True
    have cc: "mset (filter (av_hit k') ?c) = mset (filter (av_hit k') (take i ?c)) + mset (filter (av_hit k') (drop i ?c))"
      by (metis append_take_drop_id filter_append mset_append)
    have "av_chain t k' = ?c" using True by (simp add: av_chain_def)
    then show ?thesis using True put(2) [of k'] cc by simp
  next
    case False
    then have "\<not> av_hit k' ?n" using avtab_hash_same [of k' k] by (auto simp: av_hit_def)
    then show ?thesis using False put(2) [of k'] by simp
  qed
  ultimately show thesis using that [OF e okt] by blast
qed

text \<open>When a key has one rule, a search finds it, and nothing behind it.\<close>

lemma single_rule:
  assumes ok: "av_ok t" and one: "length (filter (av_hit k) (av_chain t k)) = 1"
    and p: "av_node t p = Inr n" "av_hit k n"
  shows "avtab_search_node t k = Inr (Some p)" and "avtab_search_node_next t (Some p) (ucast (specified k)) = Inr None"
proof -
  let ?c = "av_chain t k"
  obtain hs where hs: "avslots t = Some hs" "length hs = unat (nslot t)"
    "\<And>i n. i < length hs \<Longrightarrow> n \<in> set (hs ! i) \<Longrightarrow> avtab_hash (fst n) (avmask t) = int i"
    by (rule av_okE [OF ok]) (rule that, assumption+)
  have np: "fst p < length hs" "snd p < length (hs ! fst p)" "n = hs ! fst p ! snd p" using av_node_slot [OF ok hs(1)] p(1) by auto
  then have "avtab_hash (fst n) (avmask t) = int (fst p)" using hs(3) by (metis nth_mem)
  then have h: "avtab_hash k (avmask t) = int (fst p)" using p(2) avtab_hash_same [of k "fst n" "avmask t"] by (simp add: av_hit_def)
  then have ch: "?c = hs ! fst p" by (simp add: av_chain_def hs)
  have sl: "?c = take (snd p) ?c @ n # drop (Suc (snd p)) ?c" using np ch by (metis id_take_nth_drop)
  have "filter (av_hit k) ?c = filter (av_hit k) (take (snd p) ?c) @ n # filter (av_hit k) (drop (Suc (snd p)) ?c)"
    by (subst sl) (simp add: p(2))
  then have none: "filter (av_hit k) (take (snd p) ?c) = []" "filter (av_hit k) (drop (Suc (snd p)) ?c) = []"
    using one by auto
  obtain r where r: "avtab_search_node t k = Inr r" "case r of None \<Rightarrow> av_look t k = None
     | Some q \<Rightarrow> fst q = nat (avtab_hash k (avmask t)) \<and> snd q < length ?c \<and> find (av_hit k) ?c = Some (?c ! snd q) \<and>
         av_look t k = Some (snd (?c ! snd q)) \<and> find (av_hit k) (take (snd q) ?c) = None"
    using avtab_search_correct [OF ok, of k] by blast
  have "av_look t k \<noteq> None"
  proof
    assume "av_look t k = None"
    then have "filter (av_hit k) ?c = []" by (auto simp: av_look_def find_None_iff filter_empty_conv)
    then show False using one by simp
  qed
  then obtain q where q: "r = Some q" using r(2) by (cases r) auto
  have hitq: "av_hit k (?c ! snd q)" and lq: "snd q < length ?c" "fst q = fst p" "find (av_hit k) (take (snd q) ?c) = None"
    using r(2) q h by (auto simp: find_Some_iff)
  have "snd q = snd p"
  proof (rule ccontr)
    assume ne: "snd q \<noteq> snd p"
    then consider "snd q < snd p" | "snd p < snd q" by linarith
    then show False
    proof cases
      case 1
      then have "?c ! snd q \<in> set (take (snd p) ?c)" using lq(1) by (metis in_set_conv_nth length_take min_less_iff_conj nth_take)
      then show False using none(1) hitq by (auto simp: filter_empty_conv)
    next
      case 2
      then have "n \<in> set (take (snd q) ?c)" using np ch by (metis in_set_conv_nth length_take min_less_iff_conj nth_take)
      then show False using lq(3) p(2) unfolding find_None_iff by blast
    qed
  qed
  then have qp: "q = p" using lq(2) by (simp add: prod_eq_iff)
  show "avtab_search_node t k = Inr (Some p)" using r(1) q qp by simp
  have srt: "av_sorted (drop (Suc (snd p)) ?c)"
    using av_chain_ok(1) [OF ok, of k] by (metis append_take_drop_id av_sorted_simps(3))
  have same: "av_search_walk (fst n) s c i = av_search_walk k s c i" for s c i
    using p(2) by (induction c arbitrary: i) (simp_all add: av_search_walk.simps av_hit_def av_same_triple av_before_triple)
  have nf: "find (av_hit k) (drop (Suc (snd p)) ?c) = None" using none(2) by (auto simp: find_None_iff filter_empty_conv)
  have "av_slot t (int (fst p)) = Inr ?c" using ch np(1) hs by (simp add: av_slot_def)
  moreover have "av_search_walk k (av_spec k) (drop (Suc (snd p)) ?c) (Suc (snd p)) = None"
    using av_search_walk_None [OF srt, of k "Suc (snd p)"] nf by simp
  ultimately show "avtab_search_node_next t (Some p) (ucast (specified k)) = Inr None"
    using p(1) by (simp add: avtab_search_node_next_def same av_spec_def)
qed

section \<open>Reading rules\<close>

definition holds :: "avtab \<Rightarrow> avtab_ptr list \<Rightarrow> avtab_node list \<Rightarrow> bool" where
  "holds t ps ns \<longleftrightarrow> list_all2 (\<lambda>p n. av_node t p = Inr n) ps ns"

text \<open>A conditional as its file has it: the rules themselves where the node has pointers.\<close>

record cond_rules =
  cr_state :: int
  cr_expr :: "cond_expr list"
  cr_true :: "avtab_node list"
  cr_false :: "avtab_node list"

definition node_holds :: "avtab \<Rightarrow> cond_node \<Rightarrow> cond_rules \<Rightarrow> bool" where
  "node_holds t n r \<longleftrightarrow> cur_state n = cr_state r \<and> cexpr n = cr_expr r \<and>
     holds t (true_list n) (cr_true r) \<and> holds t (false_list n) (cr_false r)"

definition node_ptrs :: "cond_node \<Rightarrow> avtab_ptr set" where
  "node_ptrs n = set (true_list n) \<union> set (false_list n)"

text \<open>The state of the reader after \<open>rules\<close> were read, of which \<open>head\<close> are in the list being read.\<close>

definition reading :: "cond_state \<Rightarrow> cond_rules list \<Rightarrow> avtab_node list \<Rightarrow> avtab_node list \<Rightarrow> avtab_node list \<Rightarrow> bool" where
  "reading s done other head rules \<longleftrightarrow> av_ok (cs_table s) \<and> \<not> cs_compat s \<and>
     (\<forall>k. mset (filter (av_hit k) (av_chain (cs_table s) k)) = mset (filter (av_hit k) rules)) \<and>
     list_all2 (node_holds (cs_table s)) (cs_nodes s) done \<and> holds (cs_table s) (cs_other s) other \<and>
     holds (cs_table s) (cs_head s) head \<and>
     (\<Union>(node_ptrs ` set (cs_nodes s))) \<union> set (cs_other s) \<union> set (cs_head s) \<subseteq> cs_marked s"

lemma holds_shift:
  assumes "holds t ps ns" and "\<And>p n. av_node t p = Inr n \<Longrightarrow> av_node t' (shift_ptr q p) = Inr n"
  shows "holds t' (map (shift_ptr q) ps) ns"
  using assms(1) unfolding holds_def by (simp add: list_all2_map1) (metis (mono_tags, lifting) assms(2) list_all2_mono)

lemma node_holds_shift:
  assumes "node_holds t n r" and "\<And>p n. av_node t p = Inr n \<Longrightarrow> av_node t' (shift_ptr q p) = Inr n"
  shows "node_holds t' (shift_node q n) r"
  using assms(1) holds_shift [OF _ assms(2)] by (auto simp: node_holds_def shift_node_def)

lemma reading_insert:
  assumes "reading s done other head rules" and "av_spec (fst n) \<noteq> 0" and "new_avnode (fst n) (snd n) = n"
  obtains t q where "avtab_insert_nonunique (cs_table s) (fst n) (snd n) = Inr (t, Some q)"
    and "reading (insert_cond q t s) done other (head @ [n]) (rules @ [n])"
proof -
  note R = assms(1) [unfolded reading_def]
  have ok: "av_ok (cs_table s)" using R by blast
  obtain t q where t: "avtab_insert_nonunique (cs_table s) (fst n) (snd n) = Inr (t, Some q)" "av_ok t" "av_node t q = Inr n"
    "\<And>p m. av_node (cs_table s) p = Inr m \<Longrightarrow> av_node t (shift_ptr q p) = Inr m"
    "\<And>k. mset (filter (av_hit k) (av_chain t k)) = mset (filter (av_hit k) (av_chain (cs_table s) k)) + (if av_hit k n then {#n#} else {#})"
    using insert_cond_rule [OF ok assms(2), of "snd n"] unfolding assms(3) by metis
  have "list_all2 (\<lambda>n r. node_holds t (shift_node q n) r) (cs_nodes s) done"
    by (rule list_all2_mono [of "node_holds (cs_table s)"]) (use R node_holds_shift [OF _ t(4)] in blast)+
  then have nodes: "list_all2 (node_holds t) (map (shift_node q) (cs_nodes s)) done" by (simp add: list_all2_map1)
  have lists: "holds t (map (shift_ptr q) (cs_other s)) other" "holds t (map (shift_ptr q) (cs_head s)) head"
    using R holds_shift [OF _ t(4)] by blast+
  then have head: "holds t (map (shift_ptr q) (cs_head s) @ [q]) (head @ [n])"
    using t(3) by (simp add: holds_def list_all2_appendI)
  have ptrs: "node_ptrs (shift_node q m) = shift_ptr q ` node_ptrs m" for m
    by (auto simp: node_ptrs_def shift_node_def)
  have marked: "(\<Union>(node_ptrs ` set (cs_nodes s))) \<union> set (cs_other s) \<union> set (cs_head s) \<subseteq> cs_marked s" using R by blast
  have "(\<Union>(node_ptrs ` set (map (shift_node q) (cs_nodes s)))) = shift_ptr q ` \<Union>(node_ptrs ` set (cs_nodes s))"
    by (simp add: image_UN ptrs)
  then have m: "(\<Union>(node_ptrs ` set (map (shift_node q) (cs_nodes s)))) \<union> set (map (shift_ptr q) (cs_other s)) \<union>
      set (map (shift_ptr q) (cs_head s) @ [q]) \<subseteq> insert q (shift_ptr q ` cs_marked s)"
    using image_mono [OF marked, of "shift_ptr q"] by (simp only: image_Un set_map set_append) auto
  have hits: "\<forall>k. mset (filter (av_hit k) (av_chain t k)) = mset (filter (av_hit k) (rules @ [n]))"
    using R t(5) by simp
  have "reading (insert_cond q t s) done other (head @ [n]) (rules @ [n])"
    unfolding reading_def insert_cond_def
    by (intro conjI) (use R t(2) hits nodes lists(1) head m in simp_all)
  then show thesis using that t(1) by blast
qed

text \<open>A type rule may be added when nothing outside decides its type, and at most one rule of the true list does inside.\<close>

definition no_conflict :: "avtab \<Rightarrow> avtab_node list \<Rightarrow> avtab_node list \<Rightarrow> avtab_node \<Rightarrow> bool" where
  "no_conflict te rules other n \<longleftrightarrow> (specified (fst n) AND AVTAB_TYPE \<noteq> 0 \<longrightarrow>
     av_look te (fst n) = None \<and>
     (filter (av_hit (fst n)) rules = [] \<or> (\<exists>m\<in>set other. filter (av_hit (fst n)) rules = [m])))"

lemma list_all2_right: "list_all2 P xs ys \<Longrightarrow> y \<in> set ys \<Longrightarrow> \<exists>x\<in>set xs. P x y"
  by (induction xs ys rule: list_all2_induct) auto

lemma conflict_free:
  assumes r: "reading s done other head rules" and te: "av_ok te" and n: "no_conflict te rules other n"
    and ty: "specified (fst n) AND AVTAB_TYPE \<noteq> 0"
  shows "type_rule_conflict te s (fst n) = Inr False"
proof -
  let ?k = "fst n" and ?t = "cs_table s"
  note R = r [unfolded reading_def]
  have ok: "av_ok ?t" using R by blast
  have m: "mset (filter (av_hit ?k) (av_chain ?t ?k)) = mset (filter (av_hit ?k) rules)" using R by blast
  have look: "av_look te ?k = None" and cases: "filter (av_hit ?k) rules = [] \<or> (\<exists>m\<in>set other. filter (av_hit ?k) rules = [m])"
    using n ty by (auto simp: no_conflict_def)
  have none: "avtab_search u j = Inr None \<and> avtab_search_node u j = Inr None" if u: "av_ok u" "av_look u j = None" for u j
  proof -
    obtain r where r: "avtab_search u j = Inr r" "avtab_search_node u j = Inr r" "case r of None \<Rightarrow> av_look u j = None
      | Some p \<Rightarrow> av_look u j = Some (snd (av_chain u j ! snd p))"
      using avtab_search_correct [OF u(1), of j] by (auto split: option.splits)
    then have "r = None" using u(2) by (cases r) simp_all
    then show ?thesis using r(1,2) by simp
  qed
  have s1: "avtab_search te ?k = Inr None" using none [OF te look] by simp
  show ?thesis
  proof (cases "filter (av_hit ?k) rules = []")
    case True
    then have "mset (filter (av_hit ?k) (av_chain ?t ?k)) = {#}" using m by (simp only: mset.simps)
    then have "filter (av_hit ?k) (av_chain ?t ?k) = []" by (simp only: mset_zero_iff)
    then have "av_look ?t ?k = None" unfolding av_look_def filter_empty_conv by (simp only: find_None_iff map_option_is_None) blast
    from none [OF ok this] show ?thesis using s1 by (simp add: type_rule_conflict_def)
  next
    case False
    then obtain x where x: "x \<in> set other" "filter (av_hit ?k) rules = [x]" using cases by blast
    have "list_all2 (\<lambda>p n. av_node ?t p = Inr n) (cs_other s) other" using R by (simp add: holds_def)
    then obtain p where p: "p \<in> set (cs_other s)" "av_node ?t p = Inr x"
      using list_all2_right [OF _ x(1)] by blast
    have "x \<in> set (filter (av_hit ?k) rules)" unfolding x(2) by simp
    then have hit: "av_hit ?k x" by simp
    have "size (mset (filter (av_hit ?k) (av_chain ?t ?k))) = size (mset (filter (av_hit ?k) rules))" by (simp only: m)
    then have one: "length (filter (av_hit ?k) (av_chain ?t ?k)) = 1" unfolding size_mset x(2) by simp
    note sr = single_rule [OF ok one p(2) hit]
    have "cs_other s \<noteq> []" using p(1) by auto
    then show ?thesis using s1 sr p(1) by (simp add: type_rule_conflict_def)
  qed
qed

lemma spec_mask: "av_spec k = specified k AND 0x7FFF"
proof -
  have b: "bit (push_bit 15 1 :: u32) n \<longleftrightarrow> n = 15" "bit (push_bit 31 1 :: u32) n \<longleftrightarrow> n = 31" for n
    by (auto simp only: bit_push_bit_iff bit_1_iff possible_bit_word) simp_all
  have e: "bit AVTAB_ENABLED n \<longleftrightarrow> n = 15" "bit AVTAB_ENABLED_OLD n \<longleftrightarrow> n = 31" for n
    using b [of n] by (simp_all add: AVTAB_ENABLED_def AVTAB_ENABLED_OLD_def)
  have m: "(0x7FFF :: u16) = mask 15" by (simp add: mask_eq_exp_minus_1)
  show ?thesis unfolding av_spec_def m by (rule bit_word_eqI) (auto simp: bit_simps e)
qed

lemma spec_nonzero:
  assumes "rule_ok vers n"
  shows "av_spec (fst n) \<noteq> 0"
proof
  assume z: "av_spec (fst n) = 0"
  have "specified (fst n) AND o1 = av_spec (fst n) AND o1" if "o1 \<in> set spec_order" for o1
    using that by (auto simp: spec_mask spec_order_def and.assoc)
  then have "filter (\<lambda>o1. specified (fst n) AND o1 \<noteq> 0) spec_order = []" by (simp add: z filter_empty_conv)
  then show False using assms by (simp add: rule_ok_def)
qed

lemma read_cond_item:
  assumes "reading s done other head rules" and "rule_ok vers n" and "\<not> vers < POLICYDB_VERSION_AVTAB" and "av_ok te"
    and "no_conflict te rules other n"
  obtains s' where "\<And>r. cond_read_item U vers te s (rule_bytes n @ r) = Inr (Some (s', r))"
    and "reading s' done other (head @ [n]) (rules @ [n])"
proof -
  have c: "\<not> cs_compat s" using assms(1) by (simp add: reading_def)
  obtain t q where t: "avtab_insert_nonunique (cs_table s) (fst n) (snd n) = Inr (t, Some q)"
    "reading (insert_cond q t s) done other (head @ [n]) (rules @ [n])"
    using reading_insert [OF assms(1) spec_nonzero [OF assms(2)] new_avnode_rule [OF assms(2)]] by blast
  have "cond_insertf te s (fst n) (snd n) = Inr (insert_cond q t s, 0)"
    using conflict_free [OF assms(1,4,5)] t(1) by (auto simp: cond_insertf_def)
  then have "avtab_read_item U vers (cond_insertf te) False (rule_bytes n @ r) s = Inr (insert_cond q t s, False, r, 0)" for r
    using read_rule [OF assms(2,3), of U "cond_insertf te" r s] by simp
  moreover have "\<not> cs_compat (insert_cond q t s)" using c by (simp add: insert_cond_def)
  then have "(insert_cond q t s)\<lparr>cs_compat := False\<rparr> = insert_cond q t s" by simp
  ultimately have "cond_read_item U vers te s (rule_bytes n @ r) = Inr (Some (insert_cond q t s, r))" for r
    using c by (simp add: cond_read_item_def)
  then show thesis using that t(2) by blast
qed

fun apart_rules :: "avtab \<Rightarrow> avtab_node list \<Rightarrow> avtab_node list \<Rightarrow> avtab_node list \<Rightarrow> bool" where
  "apart_rules te rules other [] = True"
| "apart_rules te rules other (n # ns) \<longleftrightarrow> no_conflict te rules other n \<and> apart_rules te (rules @ [n]) other ns"

lemma read_cond_items:
  assumes "reading s done other head rules" and "\<forall>n\<in>set ns. rule_ok vers n" and "\<not> vers < POLICYDB_VERSION_AVTAB" and "av_ok te"
    and "apart_rules te rules other ns"
  shows "\<exists>s'. (\<forall>r. r_times (length ns) (cond_read_item U vers te) s (rules_bytes ns @ r) = Inr (Some (s', r))) \<and>
    reading s' done other (head @ ns) (rules @ ns)"
  using assms
proof (induction ns arbitrary: s head rules)
  case (Cons n ns)
  obtain s1 where s1: "\<And>r. cond_read_item U vers te s (rule_bytes n @ r) = Inr (Some (s1, r))"
    "reading s1 done other (head @ [n]) (rules @ [n])"
    using read_cond_item [OF Cons.prems(1) _ Cons.prems(3,4)] Cons.prems(2,5) by (metis apart_rules.simps(2) list.set_intros(1))
  have "\<forall>n\<in>set ns. rule_ok vers n" "apart_rules te (rules @ [n]) other ns" using Cons.prems(2,5) by simp_all
  from Cons.IH [OF s1(2) this(1) Cons.prems(3,4) this(2)] s1(1) show ?case
    by (auto simp: rules_bytes_def r_bind_def)
qed (simp add: rules_bytes_def r_ok_def)

definition rule_list_bytes :: "avtab_node list \<Rightarrow> bytes" where
  "rule_list_bytes ns = le32s [len32 ns] @ rules_bytes ns"

lemma read_rule_list:
  assumes "reading s done [] [] rules \<or> reading s done [] other rules" and "holds (cs_table s) ps other" and "set ps \<subseteq> cs_marked s"
    and "\<forall>n\<in>set ns. rule_ok vers n" and "\<not> vers < POLICYDB_VERSION_AVTAB" and "av_ok te" and "apart_rules te rules other ns" and "short ns"
  shows "\<exists>s'. (\<forall>r. cond_read_av_list U vers te ps s (rule_list_bytes ns @ r) = Inr (Some (s', r))) \<and>
    reading s' done other ns (rules @ ns)"
proof -
  have "reading (s\<lparr>cs_other := ps, cs_head := []\<rparr>) done other [] rules"
    using assms(1-3) by (auto simp: reading_def holds_def)
  from read_cond_items [OF this assms(4-7), of U] obtain s' where
    s': "\<And>r. r_times (length ns) (cond_read_item U vers te) (s\<lparr>cs_other := ps, cs_head := []\<rparr>) (rules_bytes ns @ r) = Inr (Some (s', r))"
    "reading s' done other ns (rules @ ns)" by auto
  then show ?thesis
    using assms(8) by (auto simp: cond_read_av_list_def rule_list_bytes_def run_simps)
qed

section \<open>Conditionals\<close>

definition expr_bytes :: "cond_expr list \<Rightarrow> bytes" where
  "expr_bytes es = concat (map (\<lambda>e. le32s [ce_type e, ce_bool e]) es)"

definition cond_bytes :: "cond_rules \<Rightarrow> bytes" where
  "cond_bytes r = le32s [word_of_int (cr_state r)] @ le32s [len32 (cr_expr r)] @ expr_bytes (cr_expr r) @
     rule_list_bytes (cr_true r) @ rule_list_bytes (cr_false r)"

definition cond_ok :: "u32 \<Rightarrow> u32 \<Rightarrow> cond_rules \<Rightarrow> bool" where
  "cond_ok vers bool_nprim r \<longleftrightarrow> - 2147483648 \<le> cr_state r \<and> cr_state r < 2147483648 \<and>
     length (cr_expr r) < 2147483648 \<and> (\<forall>e\<in>set (cr_expr r). expr_isvalid bool_nprim e) \<and>
     short (cr_true r) \<and> short (cr_false r) \<and> (\<forall>n\<in>set (cr_true r) \<union> set (cr_false r). rule_ok vers n)"

fun apart_conds :: "avtab \<Rightarrow> avtab_node list \<Rightarrow> cond_rules list \<Rightarrow> bool" where
  "apart_conds te rules [] = True"
| "apart_conds te rules (r # rs) \<longleftrightarrow> apart_rules te rules [] (cr_true r) \<and>
     apart_rules te (rules @ cr_true r) (cr_true r) (cr_false r) \<and> apart_conds te (rules @ cr_true r @ cr_false r) rs"

lemma sint_back: "- 2147483648 \<le> z \<Longrightarrow> z < 2147483648 \<Longrightarrow> sint (word_of_int z :: u32) = z"
  by (simp add: signed_of_int signed_take_bit_int_eq_self)

lemma int_count_len: "length xs < 2147483648 \<Longrightarrow> int_count (len32 xs) = length xs"
  using sint_back [of "int (length xs)"] by (simp add: int_count_def len32_def)

lemma accepts_expr:
  assumes "\<forall>e\<in>set es. expr_isvalid n e" and "length es < 2147483648"
  shows "accepts (r_list (int_count (len32 es)) (cond_read_expr n)) (expr_bytes es) es"
  unfolding expr_bytes_def
proof (rule accepts_list)
  show "length es = int_count (len32 es)" using int_count_len [OF assms(2)] by simp
  fix e assume "e \<in> set es"
  then have "expr_isvalid n e" using assms(1) by blast
  then show "accepts (cond_read_expr n) (le32s [ce_type e, ce_bool e]) e"
    by (intro acceptsI, cases e) (simp add: cond_read_expr_def run_simps)
qed

lemmas run_expr = run_bind [OF accepts_expr]

lemma read_cond_node:
  assumes r: "reading s done [] [] rules" and c: "cond_ok vers nb c" and v: "\<not> vers < POLICYDB_VERSION_AVTAB" and te: "av_ok te"
    and a: "apart_rules te rules [] (cr_true c)" "apart_rules te (rules @ cr_true c) (cr_true c) (cr_false c)"
  shows "\<exists>s'. (\<forall>r. cond_read_node U vers nb te s (cond_bytes c @ r) = Inr (Some (s', r))) \<and>
    reading s' (done @ [c]) [] [] (rules @ cr_true c @ cr_false c)"
proof -
  note C = c [unfolded cond_ok_def]
  have rt: "\<forall>n\<in>set (cr_true c). rule_ok vers n" "\<forall>n\<in>set (cr_false c). rule_ok vers n" "short (cr_true c)" "short (cr_false c)"
    using C by auto
  have h0: "holds (cs_table s) [] []" by (simp add: holds_def)
  obtain s1 where s1: "\<And>x. cond_read_av_list U vers te [] s (rule_list_bytes (cr_true c) @ x) = Inr (Some (s1, x))"
    "reading s1 done [] (cr_true c) (rules @ cr_true c)"
    using read_rule_list [OF disjI1 [OF r] h0 _ rt(1) v te a(1) rt(3), of U] by auto
  have h1: "holds (cs_table s1) (cs_head s1) (cr_true c)" "set (cs_head s1) \<subseteq> cs_marked s1"
    using s1(2) by (auto simp: reading_def)
  obtain s2 where s2: "\<And>x. cond_read_av_list U vers te (cs_head s1) s1 (rule_list_bytes (cr_false c) @ x) = Inr (Some (s2, x))"
    "reading s2 done (cr_true c) (cr_false c) ((rules @ cr_true c) @ cr_false c)"
    using read_rule_list [OF disjI2 [OF s1(2)] h1 rt(2) v te a(2) rt(4), of U] by blast
  let ?n = "cond_node_init\<lparr>cur_state := cr_state c, cexpr := cr_expr c, true_list := cs_other s2, false_list := cs_head s2\<rparr>"
  let ?s = "s2\<lparr>cs_nodes := cs_nodes s2 @ [?n], cs_other := [], cs_head := []\<rparr>"
  have e: "sint (word_of_int (cr_state c) :: u32) = cr_state c" using sint_back C by blast
  have "cond_read_node U vers nb te s (cond_bytes c @ x) = Inr (Some (?s, x))" for x
    using C s1(1) s2(1) by (simp add: cond_read_node_def cond_bytes_def run_simps run_expr r_bind_def [of "cond_read_av_list _ _ _ _ _"] e r_ok_def)
  moreover have "reading ?s (done @ [c]) [] [] (rules @ cr_true c @ cr_false c)"
    using s2(2) by (auto simp: reading_def holds_def node_holds_def list_all2_appendI node_ptrs_def)
  ultimately show ?thesis by blast
qed

lemma read_cond_nodes:
  assumes "reading s done [] [] rules" and "\<forall>c\<in>set cs. cond_ok vers nb c" and "\<not> vers < POLICYDB_VERSION_AVTAB" and "av_ok te"
    and "apart_conds te rules cs"
  shows "\<exists>s' rules'. (\<forall>r. r_times (length cs) (cond_read_node U vers nb te) s (concat (map cond_bytes cs) @ r) = Inr (Some (s', r))) \<and>
    reading s' (done @ cs) [] [] rules'"
  using assms
proof (induction cs arbitrary: s "done" rules)
  case (Cons c cs)
  obtain s1 where s1: "\<And>r. cond_read_node U vers nb te s (cond_bytes c @ r) = Inr (Some (s1, r))"
    "reading s1 (done @ [c]) [] [] (rules @ cr_true c @ cr_false c)"
    using read_cond_node [OF Cons.prems(1) _ Cons.prems(3,4), of nb c U] Cons.prems(2,5) by auto
  have "\<forall>c\<in>set cs. cond_ok vers nb c" "apart_conds te (rules @ cr_true c @ cr_false c) cs" using Cons.prems(2,5) by simp_all
  from Cons.IH [OF s1(2) this(1) Cons.prems(3,4) this(2)] s1(1) show ?case
    by (auto simp: r_bind_def)
qed (auto simp: r_ok_def)

text \<open>What a policy's conditionals stand for: a table and nodes whose marked pointers hold the rules.\<close>

definition conds_hold :: "avtab \<Rightarrow> avtab_ptr set \<Rightarrow> cond_node list \<Rightarrow> cond_rules list \<Rightarrow> bool" where
  "conds_hold t marked ns cs \<longleftrightarrow> list_all2 (node_holds t) ns cs \<and> (\<forall>n\<in>set ns. node_ptrs n \<subseteq> marked)"

definition conds_bytes :: "cond_rules list \<Rightarrow> bytes" where
  "conds_bytes cs = le32s [len32 cs] @ concat (map cond_bytes cs)"

definition conds_ok :: "u32 \<Rightarrow> u32 \<Rightarrow> avtab \<Rightarrow> cond_rules list \<Rightarrow> bool" where
  "conds_ok vers nb te cs \<longleftrightarrow> length cs < 2147483648 \<and> (\<forall>c\<in>set cs. cond_ok vers nb c) \<and> apart_conds te [] cs"

lemma chain_alloc:
  assumes "n \<noteq> 0"
  shows "\<exists>t'. avtab_alloc t n = (t', 0) \<and> av_ok t' \<and> (\<forall>k. av_chain t' k = [])"
proof -
  let ?t = "t\<lparr>avslots := Some (replicate (unat (av_nslot n)) []), avnel := 0, nslot := av_nslot n, avmask := av_nslot n - 1\<rparr>"
  have ok: "av_ok ?t" using av_nslot_range [of n] by (simp add: av_ok_def)
  moreover have "av_chain ?t k = []" for k using avtab_hash_range(2) [OF ok, of k] by (simp add: av_chain_def)
  ultimately show ?thesis using assms by (simp add: avtab_alloc_def Let_def)
qed

lemma conds_read:
  assumes "conds_ok vers nb te cs" and "\<not> vers < POLICYDB_VERSION_AVTAB" and "av_ok te" and "avnel te \<noteq> 0"
  shows "\<exists>s. (\<forall>r. cond_read_list U vers nb te False t0 (conds_bytes cs @ r) = Inr (Some (s, r))) \<and>
    av_ok (cs_table s) \<and> conds_hold (cs_table s) (cs_marked s) (cs_nodes s) cs \<and> \<not> cs_compat s"
proof -
  obtain t where t: "avtab_alloc t0 (avnel te) = (t, 0)" "av_ok t" "\<And>k. av_chain t k = []" using chain_alloc [OF assms(4)] by blast
  let ?s = "\<lparr>cs_table = t, cs_marked = {}, cs_nodes = [], cs_other = [], cs_head = [], cs_compat = False\<rparr>"
  have "reading ?s [] [] [] []" using t(2,3) by (simp add: reading_def holds_def)
  from read_cond_nodes [OF this _ assms(2,3), of cs nb U] assms(1) obtain s rules where
    s: "\<And>r. r_times (length cs) (cond_read_node U vers nb te) ?s (concat (map cond_bytes cs) @ r) = Inr (Some (s, r))"
    "reading s cs [] [] rules" by (auto simp: conds_ok_def)
  have "int_count (len32 cs) = length cs" using assms(1) int_count_len by (auto simp: conds_ok_def)
  then have "cond_read_list U vers nb te False t0 (conds_bytes cs @ r) = Inr (Some (s, r))" for r
    using s(1) by (simp add: cond_read_list_def conds_bytes_def run_simps t(1))
  moreover have "conds_hold (cs_table s) (cs_marked s) (cs_nodes s) cs" "av_ok (cs_table s)" "\<not> cs_compat s"
    using s(2) by (auto simp: reading_def conds_hold_def)
  ultimately show ?thesis by blast
qed

section \<open>Writing\<close>

lemma put_entry_Some_append:
  "put_entry a fp = Some fp' \<Longrightarrow> put_entry (a @ b) fp = put_entry b fp'"
  "put_entry a fp = None \<Longrightarrow> put_entry (a @ b) fp = None"
  by (simp_all add: put_entry_append)

definition finished :: "(out_file \<times> int) res \<Rightarrow> out_file option res" where
  "finished r = (case r of Inl e \<Rightarrow> Inl e | Inr (fp, rc) \<Rightarrow> Inr (if rc \<noteq> 0 then None else Some fp))"

lemma write_new_put:
  assumes "can_hold p n"
  shows "finished (avtab_write_new p False n fp) = Inr (put_entry (rule_bytes n) fp)"
proof -
  have p: "rule_ok (policyvers p) n" "target_platform p = SEPOL_TARGET_SELINUX" using assms by (simp_all add: can_hold_def)
  let ?k = "le16 (source_type (fst n)) @ le16 (target_type (fst n)) @ le16 (target_class (fst n)) @ le16 (specified (fst n))"
  show ?thesis
  proof (cases "put_entry ?k fp")
    case None
    have "put_entry (rule_bytes n) fp = None"
      using put_entry_Some_append(2) [OF None] by (simp add: rule_bytes_def)
    then show ?thesis using None by (simp add: finished_def avtab_write_new_def write_key_plain POLICYDB_ERROR_def)
  next
    case (Some fp1)
    note app = put_entry_Some_append(1) [OF Some]
    show ?thesis
    proof (cases "is_xrule n")
      case True
      then obtain x where x: "xperms (snd n) = Some x" "\<not> policyvers p < POLICYDB_VERSION_XPERMS_IOCTL"
        using p(1) by (auto simp: rule_ok_def split: option.splits)
      have b: "put_entry (rule_bytes n) fp = put_entry ([xspecified x] @ [driver x] @ concat (map le32 (perms x))) fp1"
        using app True x(1) by (simp add: rule_bytes_def)
      show ?thesis
        unfolding b put_entry_append finished_def
        using Some True x p(2)
        by (simp add: avtab_write_new_def write_key_plain is_xrule_def write_xperms_def POLICYDB_ERROR_def POLICYDB_SUCCESS_def split: option.split)
    next
      case False
      then have "put_entry (rule_bytes n) fp = put_entry (le32 (av_data (snd n))) fp1" using app by (simp add: rule_bytes_def)
      then show ?thesis
        using Some False p(2)
        by (simp add: finished_def avtab_write_new_def write_key_plain is_xrule_def POLICYDB_ERROR_def POLICYDB_SUCCESS_def split: option.split)
    qed
  qed
qed

lemma emits_cond_item:
  assumes "can_hold p n" and "\<not> old_version p" and "av_node t q = Inr n"
  shows "emits (write_cond_item p False t q) (rule_bytes n)"
  unfolding emits_def
proof
  fix fp
  show "write_cond_item p False t q fp = Inr (put_entry (rule_bytes n) fp)"
    using assms(2,3) write_new_put [OF assms(1), of fp]
    by (auto simp: write_cond_item_def avtab_write_item_def res_bind_def finished_def split: sum.splits prod.splits)
qed

lemma emits_rule_list:
  assumes "holds t ps ns" and "set ps \<subseteq> marked" and "\<forall>n\<in>set ns. can_hold p n" and "\<not> old_version p"
  shows "emits (cond_write_av_list expand p False t marked ps) (rule_list_bytes ns)"
proof -
  have f: "filter (\<lambda>q. q \<in> marked) ps = ps" using assms(2) by (auto simp: filter_id_conv)
  have l: "len32 ps = len32 ns" using assms(1) by (simp add: holds_def len32_def list_all2_lengthD)
  have "emits (w_all (map (write_cond_item p False t) ps)) (rules_bytes ns)"
    using assms(1,3) unfolding holds_def
  proof (induction ps ns rule: list_all2_induct)
    case (Cons q ps n ns)
    then show ?case using emits_cond_item [OF _ assms(4), of n t q] by (simp add: rules_bytes_def emits_seq)
  qed (simp add: rules_bytes_def emits_skip)
  then show ?thesis
    using assms(4) by (simp add: cond_write_av_list_def f l rule_list_bytes_def emits_seq emits_words)
qed

lemma emits_cond_node:
  assumes "node_holds t n c" and "node_ptrs n \<subseteq> marked" and "\<forall>m\<in>set (cr_true c) \<union> set (cr_false c). can_hold p m" and "\<not> old_version p"
  shows "emits (cond_write_node expand p False t marked n) (cond_bytes c)"
proof -
  have h: "cur_state n = cr_state c" "cexpr n = cr_expr c" "holds t (true_list n) (cr_true c)" "holds t (false_list n) (cr_false c)"
    "set (true_list n) \<subseteq> marked" "set (false_list n) \<subseteq> marked"
    using assms(1,2) by (auto simp: node_holds_def node_ptrs_def)
  have l: "emits (cond_write_av_list expand p False t marked (true_list n)) (rule_list_bytes (cr_true c))"
    "emits (cond_write_av_list expand p False t marked (false_list n)) (rule_list_bytes (cr_false c))"
    using emits_rule_list [OF h(3,5) _ assms(4)] emits_rule_list [OF h(4,6) _ assms(4)] assms(3) by auto
  show ?thesis
    unfolding cond_write_node_def h(1,2)
    by (rule emits_eq, (rule emits_all_Cons emits_all_Nil emits_words emits_list l)+) (simp add: cond_bytes_def expr_bytes_def)
qed

lemma conds_written:
  assumes "conds_hold t marked ns cs" and "\<forall>c\<in>set cs. \<forall>m\<in>set (cr_true c) \<union> set (cr_false c). can_hold p m" and "\<not> old_version p"
  shows "emits (cond_write_list expand p False t marked ns) (conds_bytes cs)"
proof -
  have "list_all2 (node_holds t) ns cs" "\<forall>n\<in>set ns. node_ptrs n \<subseteq> marked" using assms(1) by (simp_all add: conds_hold_def)
  then have "emits (w_all (map (cond_write_node expand p False t marked) ns)) (concat (map cond_bytes cs))"
    using assms(2)
  proof (induction ns cs rule: list_all2_induct)
    case (Cons n ns c cs)
    then show ?case using emits_cond_node [OF Cons.hyps(1) _ _ assms(3)] by (simp add: emits_seq)
  qed (simp add: emits_skip)
  moreover have "length ns = length cs" using assms(1) by (auto simp: conds_hold_def dest: list_all2_lengthD)
  then have "len32 ns = len32 cs" by (simp add: len32_def)
  ultimately show ?thesis unfolding cond_write_list_def conds_bytes_def by (simp add: emits_seq emits_words)
qed

end
