(* ===== verification/Sepol_Policy_Correct.thy ===== *)
theory Sepol_Policy_Correct
  imports Sepol_Policy_File Sepol_Context_Correct Sepol_Conditional_Correct
begin

text \<open>
  A kernel policy survives its file: what the writer emits for a policy that the format can hold
  is read back, into a policy whose tables, contexts, transitions and maps are the same and whose
  rules are found by the same searches.
\<close>

section \<open>Rules\<close>

lemma write_items_put:
  assumes "list_all2 (\<lambda>q n. av_node t q = Inr n) ps ns" and "\<not> old_version p" and "list_all (can_hold p) ns"
  shows "finished (res_bind (write_items (\<lambda>q. avtab_write_item p False t q True True) ps mg cnt fp) (\<lambda>(fp, _, _, r). Inr (fp, r))) =
    Inr (put_entry (rules_bytes ns) fp)"
  using assms
proof (induction ps ns arbitrary: fp rule: list_all2_induct)
  case (Cons q ps n ns)
  have h: "can_hold p n" "list_all (can_hold p) ns" using Cons.prems(2) by simp_all
  obtain fp1 rc where w: "avtab_write_new p False n fp = Inr (fp1, rc)"
    using write_new_put [OF h(1), of fp] by (auto simp: finished_def split: sum.splits)
  have e: "put_entry (rule_bytes n) fp = (if rc \<noteq> 0 then None else Some fp1)"
    using write_new_put [OF h(1), of fp] w by (simp add: finished_def split: if_splits)
  have "avtab_write_item p False t q True True mg cnt fp = Inr (fp1, mg, cnt, rc)"
    using Cons.hyps(1) Cons.prems(1) w by (simp add: avtab_write_item_def)
  then show ?case
    using e Cons.IH [OF Cons.prems(1) h(2), of fp1] by (cases "rc = 0") (simp_all add: rules_bytes_def put_entry_append finished_def)
qed (simp add: rules_bytes_def finished_def)

lemma emits_avtab:
  assumes "av_ok t" and "\<not> old_version p" and "list_all (can_hold p) (rules_of t)"
  shows "emits (w_avtab expand p False t) (table_bytes t)"
  unfolding emits_def
proof
  fix fp
  obtain ps where ps: "all_ptrs t = Inr ps" "list_all2 (\<lambda>q n. av_node t q = Inr n) ps (rules_of t)"
    using all_ptrs_ok [OF assms(1)] by blast
  have "w_avtab expand p False t fp = finished (avtab_write expand p False t fp)"
    by (simp add: w_avtab_def finished_def)
  also have "\<dots> = Inr (put_entry (table_bytes t) fp)"
  proof (cases "put_entry (le32 (avnel t)) fp")
    case None
    then show ?thesis using assms(2) by (simp add: avtab_write_def table_bytes_def put_entry_append finished_def POLICYDB_ERROR_def)
  next
    case (Some fp1)
    then show ?thesis using assms(2) write_items_put [OF ps(2) assms(2,3), of "{}" "Some (avnel t)" fp1] ps(1)
      by (simp add: avtab_write_def table_bytes_def put_entry_append)
  qed
  finally show "w_avtab expand p False t fp = Inr (put_entry (table_bytes t) fp)" .
qed

text \<open>The checks of conditional rules only search the rule table.\<close>

lemma no_conflict_cong:
  assumes "read_back te' te"
  shows "no_conflict te = no_conflict te'"
  by (simp add: fun_eq_iff no_conflict_def read_back_look [OF assms])

lemma apart_rules_cong:
  assumes "read_back te' te"
  shows "apart_rules te rules other ns = apart_rules te' rules other ns"
proof (induction ns arbitrary: rules)
  case (Cons n ns)
  then show ?case unfolding apart_rules.simps no_conflict_cong [OF assms] by (rule arg_cong)
qed (unfold apart_rules.simps, rule refl)

lemma apart_conds_cong:
  assumes "read_back te' te"
  shows "apart_conds te rules cs = apart_conds te' rules cs"
proof (induction cs arbitrary: rules)
  case (Cons c cs)
  then show ?case unfolding apart_conds.simps apart_rules_cong [OF assms] by metis
qed (unfold apart_conds.simps, rule refl)

lemma conds_ok_cong: "read_back te' te \<Longrightarrow> conds_ok vers nb te cs = conds_ok vers nb te' cs"
  unfolding conds_ok_def using apart_conds_cong by blast

section \<open>The maps of types and attributes\<close>

lemma ebits_inject: "ebitmap_ok a \<Longrightarrow> ebitmap_ok b \<Longrightarrow> ebits a = ebits b \<Longrightarrow> a = b"
  using ebitmap_cmp_correct cmp_same by blast

lemma set_bit_nat:
  assumes "ebitmap_ok e" and "i < 4294967232"
  obtains e' where "ebitmap_set_bit e (word_of_nat i) True = (e', 0)" and "ebitmap_ok e'" and "ebits e' = insert i (ebits e)"
proof -
  have u: "unat (word_of_nat i :: u32) = i" by (rule unat_word_of_nat_u32) (use assms(2) in simp)
  show thesis using ebitmap_set_bit_correct [OF assms(1), of "word_of_nat i" True] assms(2) u that by auto
qed

text \<open>The maps while they are filled: bitmaps, and the set of the rows seen.\<close>

definition bitmaps :: "ebitmap list \<Rightarrow> (nat \<Rightarrow> nat set) \<Rightarrow> bool" where
  "bitmaps m f \<longleftrightarrow> (\<forall>j < length m. ebitmap_ok (m ! j) \<and> ebits (m ! j) = f j)"

lemma bitmaps_unique: "bitmaps m f \<Longrightarrow> bitmaps m' f \<Longrightarrow> length m = length m' \<Longrightarrow> m = m'"
  unfolding bitmaps_def by (intro nth_equalityI ebits_inject) auto

lemma bitmaps_update:
  assumes "bitmaps m f" and "ebitmap_ok e" and "ebits e = X" and "j < length m"
  shows "bitmaps (m[j := e]) (f(j := X))"
  using assms by (auto simp: bitmaps_def nth_list_update)

lemma added_attrs:
  assumes "bitmaps m f" and "i < 4294967232" and "\<forall>j\<in>set js. j < length m" and "n = length m"
  shows "\<exists>m'. add_attrs n i js m = Some m' \<and> length m' = length m \<and> bitmaps m' (\<lambda>j. f j \<union> (if j \<in> set js \<and> j \<noteq> i then {i} else {}))"
  using assms(1,3,4)
proof (induction js arbitrary: m f)
  case (Cons j js)
  show ?case
  proof (cases "i = j")
    case True
    then have "(\<lambda>k. f k \<union> (if k \<in> set (j # js) \<and> k \<noteq> i then {i} else {})) = (\<lambda>k. f k \<union> (if k \<in> set js \<and> k \<noteq> i then {i} else {}))"
      by (auto simp: fun_eq_iff)
    then show ?thesis using Cons True by simp
  next
    case False
    have j: "j < length m" using Cons.prems(2) by simp
    then have "ebitmap_ok (m ! j)" "ebits (m ! j) = f j" using Cons.prems(1) by (simp_all add: bitmaps_def)
    then obtain e where e: "ebitmap_set_bit (m ! j) (word_of_nat i) True = (e, 0)" "ebitmap_ok e" "ebits e = insert i (f j)"
      using set_bit_nat [OF _ assms(2), of "m ! j"] by auto
    have b: "bitmaps (m[j := e]) (f(j := insert i (f j)))" by (rule bitmaps_update [OF Cons.prems(1) e(2,3) j])
    have "\<forall>k\<in>set js. k < length (m[j := e])" "n = length (m[j := e])" using Cons.prems(2,3) by simp_all
    from Cons.IH [OF b this] obtain m' where m': "add_attrs n i js (m[j := e]) = Some m'" "length m' = length m"
      "bitmaps m' (\<lambda>k. (f(j := insert i (f j))) k \<union> (if k \<in> set js \<and> k \<noteq> i then {i} else {}))" by auto
    have "(\<lambda>k. (f(j := insert i (f j))) k \<union> (if k \<in> set js \<and> k \<noteq> i then {i} else {})) =
        (\<lambda>k. f k \<union> (if k \<in> set (j # js) \<and> k \<noteq> i then {i} else {}))" using False by (auto simp: fun_eq_iff)
    then show ?thesis using False j Cons.prems(3) e(1) m' by simp
  qed
qed simp

definition plain_type :: "type_datum val_index \<Rightarrow> nat \<Rightarrow> bool" where
  "plain_type types j \<longleftrightarrow> (\<exists>k d. types ! j = Some (k, d) \<and> flavor d \<noteq> TYPE_ATTRIB)"

text \<open>The second map is the converse of the first, but for the diagonal, which has the types that are no attributes.\<close>

definition attr_rows :: "type_datum val_index \<Rightarrow> ebitmap list \<Rightarrow> nat \<Rightarrow> nat \<Rightarrow> nat set" where
  "attr_rows types ta n j = {i. i < n \<and> i \<noteq> j \<and> j \<in> ebits (ta ! i)} \<union> (if j < n \<and> plain_type types j then {j} else {})"

definition type_maps_ok :: "nat \<Rightarrow> type_datum val_index \<Rightarrow> ebitmap list \<Rightarrow> ebitmap list \<Rightarrow> bool" where
  "type_maps_ok n types ta at \<longleftrightarrow> n < 4294967232 \<and> length ta = n \<and> length at = n \<and>
     (\<forall>i<n. ebitmap_ok (ta ! i) \<and> i \<in> ebits (ta ! i) \<and> (\<forall>j\<in>ebits (ta ! i). j < n)) \<and> bitmaps at (attr_rows types ta n)"

lemma added_type:
  assumes "bitmaps m f" and "i < length m" and "i < 4294967232"
  shows "\<exists>m'. add_type types i m = Some m' \<and> length m' = length m \<and>
    bitmaps m' (\<lambda>j. f j \<union> (if j = i \<and> plain_type types j then {i} else {}))"
proof (cases "plain_type types i")
  case True
  then obtain k d where d: "types ! i = Some (k, d)" "flavor d \<noteq> TYPE_ATTRIB" by (auto simp: plain_type_def)
  have "ebitmap_ok (m ! i)" "ebits (m ! i) = f i" using assms(1,2) by (simp_all add: bitmaps_def)
  then obtain e where e: "ebitmap_set_bit (m ! i) (word_of_nat i) True = (e, 0)" "ebitmap_ok e" "ebits e = insert i (f i)"
    using set_bit_nat [OF _ assms(3), of "m ! i"] by auto
  have "(\<lambda>j. f j \<union> (if j = i \<and> plain_type types j then {i} else {})) = f(i := insert i (f i))" using True by (auto simp: fun_eq_iff)
  then show ?thesis using d e(1) bitmaps_update [OF assms(1) e(2,3) assms(2)] by (simp add: add_type_def)
next
  case False
  then have "(\<lambda>j. f j \<union> (if j = i \<and> plain_type types j then {i} else {})) = f" by (auto simp: fun_eq_iff)
  moreover have "add_type types i m = Some m"
    using False by (auto simp: add_type_def plain_type_def split: option.split)
  ultimately show ?thesis using assms(1) by simp
qed

lemma read_one_map:
  assumes ok: "type_maps_ok n types ta at" and i: "i < n" and v: "20 \<le> pv_vers v"
    and m: "bitmaps m (attr_rows types ta i)" "length m = n" and l: "length ta0 = n"
  shows "\<exists>m'. accepts (read_type_map v types i (ta0, m)) (ebitmap_write (ta ! i)) (ta0[i := ta ! i], m') \<and>
    bitmaps m' (attr_rows types ta (Suc i)) \<and> length m' = n"
proof -
  note O = ok [unfolded type_maps_ok_def]
  have e: "ebitmap_ok (ta ! i)" "i \<in> ebits (ta ! i)" "\<forall>j\<in>ebits (ta ! i). j < n" and i2: "i < 4294967232" using O i by auto
  have js: "\<forall>j\<in>set (positive_bits (ta ! i)). j < length m" using e(3) m(2) by (simp add: set_positive)
  obtain m1 where m1: "add_attrs n i (positive_bits (ta ! i)) m = Some m1" "length m1 = n"
    "bitmaps m1 (\<lambda>j. attr_rows types ta i j \<union> (if j \<in> ebits (ta ! i) \<and> j \<noteq> i then {i} else {}))"
    using added_attrs [OF m(1) i2 js] m(2) by (auto simp: set_positive)
  obtain m2 where m2: "add_type types i m1 = Some m2" "length m2 = n"
    "bitmaps m2 (\<lambda>j. (attr_rows types ta i j \<union> (if j \<in> ebits (ta ! i) \<and> j \<noteq> i then {i} else {})) \<union>
       (if j = i \<and> plain_type types j then {i} else {}))"
    using added_type [OF m1(3) _ i2, of types] m1(2) i by auto
  have rows: "(\<lambda>j. (attr_rows types ta i j \<union> (if j \<in> ebits (ta ! i) \<and> j \<noteq> i then {i} else {})) \<union>
       (if j = i \<and> plain_type types j then {i} else {})) = attr_rows types ta (Suc i)"
    by (rule ext) (auto simp: attr_rows_def less_Suc_eq)
  obtain e' where e': "ebitmap_set_bit (ta ! i) (word_of_nat i) True = (e', 0)" "ebitmap_ok e'" "ebits e' = insert i (ebits (ta ! i))"
    by (rule set_bit_nat [OF e(1) i2])
  have "e' = ta ! i" by (rule ebits_inject [OF e'(2) e(1)]) (use e(2) e'(3) in auto)
  then have "accepts (read_type_map v types i (ta0, m)) (ebitmap_write (ta ! i)) (ta0[i := ta ! i], m2)"
    using m1(1) m2(1) e'(1) v l e(1) by (intro acceptsI) (simp add: read_type_map_def run_simps)
  then show ?thesis using m2(2,3) unfolding rows by blast
qed

lemma take_update:
  assumes "i < length ta"
  shows "(take i ta @ replicate (length ta - i) z)[i := ta ! i] = take (Suc i) ta @ replicate (length ta - Suc i) z"
proof -
  have "replicate (length ta - i) z = z # replicate (length ta - Suc i) z"
    using assms by (simp add: Suc_diff_Suc [symmetric])
  then show ?thesis using assms by (simp add: list_update_append take_Suc_conv_app_nth)
qed

lemma read_maps_from:
  assumes ok: "type_maps_ok n types ta at" and v: "20 \<le> pv_vers v" and "i \<le> n"
    and "bitmaps m (attr_rows types ta i)" and "length m = n"
  shows "accepts (r_fold (read_type_map v types) [i..<n] (take i ta @ replicate (n - i) ebitmap_init, m))
    (concat (map (\<lambda>j. ebitmap_write (ta ! j)) [i..<n])) (ta, at)"
  using assms(3-5)
proof (induction i arbitrary: m rule: inc_induct)
  case base
  then have "m = at" using ok bitmaps_unique [of m "attr_rows types ta n" at] by (simp add: type_maps_ok_def)
  then show ?case using ok by (simp add: accepts_ok type_maps_ok_def)
next
  case (step i)
  have l: "length (take i ta @ replicate (n - i) ebitmap_init) = n" "length ta = n" using ok step by (simp_all add: type_maps_ok_def)
  obtain m' where m': "accepts (read_type_map v types i (take i ta @ replicate (n - i) ebitmap_init, m)) (ebitmap_write (ta ! i))
      ((take i ta @ replicate (n - i) ebitmap_init)[i := ta ! i], m')"
    "bitmaps m' (attr_rows types ta (Suc i))" "length m' = n"
    using read_one_map [OF ok step.hyps(2) v step.prems l(1)] by blast
  have u: "(take i ta @ replicate (n - i) ebitmap_init)[i := ta ! i] = take (Suc i) ta @ replicate (n - Suc i) ebitmap_init"
    using take_update [of i ta] step.hyps(2) l(2) by simp
  have "[i..<n] = i # [Suc i..<n]" using step.hyps(2) by (rule upt_conv_Cons)
  moreover have "accepts (r_bind (read_type_map v types i (take i ta @ replicate (n - i) ebitmap_init, m)) (r_fold (read_type_map v types) [Suc i..<n]))
      (ebitmap_write (ta ! i) @ concat (map (\<lambda>j. ebitmap_write (ta ! j)) [Suc i..<n])) (ta, at)"
    by (rule accepts_bind [OF m'(1) [unfolded u]]) (rule step.IH [OF m'(2,3)])
  ultimately show ?case by simp
qed

lemma accepts_type_maps:
  assumes "type_maps_ok n types ta at" and "20 \<le> pv_vers v"
  shows "accepts (r_fold (read_type_map v types) [0..<n] (replicate n ebitmap_init, replicate n ebitmap_init))
    (concat (map (\<lambda>j. ebitmap_write (ta ! j)) [0..<n])) (ta, at)"
proof -
  have "bitmaps (replicate n ebitmap_init) (attr_rows types ta 0)"
    using ebm.inv_empty by (auto simp: bitmaps_def attr_rows_def ebits_def ebitmap_init_def)
  from read_maps_from [OF assms _ this] show ?thesis by simp
qed

lemma emits_nth:
  assumes "n \<le> length xs" and "\<And>x. x \<in> set xs \<Longrightarrow> emits (f x) (enc x)"
  shows "emits (w_all (map (w_nth f xs) [0..<n])) (concat (map (\<lambda>i. enc (xs ! i)) [0..<n]))"
  by (rule emits_list) (use assms in \<open>simp add: w_nth_def\<close>)

section \<open>The policy and its bytes\<close>

text \<open>A kernel policy from version 20 on whose header, symbols and maps the file can hold; \<open>n\<close> is the number of lists of contexts.\<close>

definition header_ok :: "pf_policy \<Rightarrow> nat \<Rightarrow> bool" where
  "header_ok p n \<longleftrightarrow> pv_type (po_version p) = POLICY_KERN \<and> 20 \<le> pv_vers (po_version p) \<and> pv_vers (po_version p) \<le> 32 \<and>
     po_platform p = SEPOL_TARGET_SELINUX \<and> \<not> po_unsupported p \<and> POLICYDB_CONFIG_UNKNOWN_MASK AND po_unknown p = po_unknown p \<and>
     (\<exists>t w k pl. policydb_lookup_compat (pv_vers (po_version p)) POLICY_KERN SEPOL_TARGET_SELINUX = Some (t, w, k, n, pl))"

definition symbols_ok :: "pf_policy \<Rightarrow> bool" where
  "symbols_ok p \<longleftrightarrow> ebitmap_ok (po_policycaps p) \<and> ebitmap_ok (po_permissive p) \<and>
     (pv_vers (po_version p) < 22 \<longrightarrow> po_policycaps p = ebitmap_init) \<and>
     (pv_vers (po_version p) < 23 \<longrightarrow> po_permissive p = ebitmap_init) \<and> symtabs_ok (po_version p) (po_tabs p)"

text \<open>
  Its rules: at least one, and only extended permissions have several for one key; \<open>cs\<close> are its
  conditionals with the rules their pointers stand for.
\<close>

definition te_rules_ok :: "pf_policy \<Rightarrow> cond_rules list \<Rightarrow> bool" where
  "te_rules_ok p cs \<longleftrightarrow> av_ok (po_rules p) \<and> list_all (can_hold (rule_policy p)) (rules_of (po_rules p)) \<and>
     plain_rules_distinct (rules_of (po_rules p)) \<and> rules_of (po_rules p) \<noteq> [] \<and> unat (avnel (po_rules p)) = length (rules_of (po_rules p)) \<and>
     conds_hold (po_cond_rules p) (po_cond_marked p) (po_conds p) cs \<and>
     conds_ok (pv_vers (po_version p)) (nprim (pf_bools (po_tabs p))) (po_rules p) cs"

definition transitions_ok :: "pf_policy \<Rightarrow> bool" where
  "transitions_ok p \<longleftrightarrow> role_trans_ok (po_version p) (po_role_tr p) \<and> short (po_role_allow p) \<and>
     (if 25 \<le> pv_vers (po_version p) then filename_trans_ok (po_version p) (po_filename_trans p)
      else po_filename_trans p = init_filename_trans) \<and> range_tr_ok (po_version p) (po_range_tr p)"

text \<open>Its arrays are those the indexing functions build, and its contexts are valid by them.\<close>

definition indexes_ok :: "pf_policy \<Rightarrow> bool" where
  "indexes_ok p \<longleftrightarrow> (\<exists>ix. policydb_index_classes (po_tabs p) no_index = (ix, 0) \<and>
     policydb_index_others (po_tabs p) ix = Inr (Some (po_index p)))"

definition contexts_ok :: "pf_policy \<Rightarrow> nat \<Rightarrow> bool" where
  "contexts_ok p n \<longleftrightarrow> ocons_ok (policy_env p) n (po_ocontexts p) \<and> genfs_ok (policy_env p) (po_genfs p) \<and>
     type_maps_ok (unat (nprim (pf_types (po_tabs p)))) (ix_types (po_index p)) (po_type_attr p) (po_attr_type p)"

text \<open>It has nothing of a module.\<close>

definition no_module :: "pf_policy \<Rightarrow> bool" where
  "no_module p \<longleftrightarrow> po_name p = None \<and> po_module_version p = None \<and> po_decls p = [Some (avrule_decl_create 1)] \<and>
     (\<exists>p0. policydb_init = Inr (Some p0) \<and> po_global p = po_global p0 \<and> po_scopes p = po_scopes p0)"

definition kernel_policy_ok :: "pf_policy \<Rightarrow> nat \<Rightarrow> cond_rules list \<Rightarrow> bool" where
  "kernel_policy_ok p n cs \<longleftrightarrow> header_ok p n \<and> symbols_ok p \<and> te_rules_ok p cs \<and> transitions_ok p \<and> indexes_ok p \<and> contexts_ok p n \<and> no_module p"

definition header_enc :: "pf_policy \<Rightarrow> nat \<Rightarrow> bytes" where
  "header_enc p n = le32s [POLICYDB_MAGIC, len32 POLICYDB_STRING] @ POLICYDB_STRING @
     le32s [pv_vers (po_version p), write_config p, word_of_nat SYM_NUM, word_of_nat n]"

definition symbols_enc :: "pf_policy \<Rightarrow> bytes" where
  "symbols_enc p = (if 22 \<le> pv_vers (po_version p) then ebitmap_write (po_policycaps p) else []) @
     (if 23 \<le> pv_vers (po_version p) then ebitmap_write (po_permissive p) else []) @ symtabs_enc (po_version p) (po_tabs p)"

definition te_rules_enc :: "pf_policy \<Rightarrow> cond_rules list \<Rightarrow> bytes" where
  "te_rules_enc p cs = table_bytes (po_rules p) @ conds_bytes cs @ role_trans_enc (po_version p) (po_role_tr p) @
     role_allow_enc (po_role_allow p) @ (if 25 \<le> pv_vers (po_version p) then filename_trans_enc (po_filename_trans p) else [])"

definition contexts_enc :: "pf_policy \<Rightarrow> nat \<Rightarrow> bytes" where
  "contexts_enc p n = ocons_enc (po_version p) n (po_ocontexts p) @ genfs_enc (po_version p) (po_genfs p)"

definition type_maps_enc :: "pf_policy \<Rightarrow> bytes" where
  "type_maps_enc p = concat (map (\<lambda>i. ebitmap_write (po_type_attr p ! i)) [0..<unat (nprim (pf_types (po_tabs p)))])"

definition policy_enc :: "pf_policy \<Rightarrow> nat \<Rightarrow> cond_rules list \<Rightarrow> bytes" where
  "policy_enc p n cs = header_enc p n @ symbols_enc p @ te_rules_enc p cs @ contexts_enc p n @
     range_tr_enc (po_version p) (po_range_tr p) @ type_maps_enc p"

section \<open>Writing\<close>

lemma header_kern: "header_ok p n \<Longrightarrow> kern (po_version p)"
  by (simp add: header_ok_def kern_def)

lemma conds_can_hold:
  assumes "header_ok p n" and "conds_ok (pv_vers (po_version p)) nb te cs"
  shows "\<forall>c\<in>set cs. \<forall>m\<in>set (cr_true c) \<union> set (cr_false c). can_hold (rule_policy p) m"
  using assms by (auto simp: conds_ok_def cond_ok_def can_hold_def rule_policy_def header_ok_def)

lemma emits_te_rules:
  assumes "header_ok p n" and "te_rules_ok p cs" and "transitions_ok p"
  shows "emits (write_rules expand cexpand False k p) (te_rules_enc p cs)"
proof -
  let ?v = "po_version p"
  note H = assms(1) [unfolded header_ok_def] and R = assms(2) [unfolded te_rules_ok_def] and T = assms(3) [unfolded transitions_ok_def]
  have o: "\<not> old_version (rule_policy p)" using H by (simp add: old_version_def rule_policy_def POLICYDB_VERSION_AVTAB_def not_less)
  have ch: "\<forall>c\<in>set cs. \<forall>m\<in>set (cr_true c) \<union> set (cr_false c). can_hold (rule_policy p) m"
    using conds_can_hold [OF assms(1)] R by blast
  have e: "emits (w_avtab expand (rule_policy p) False (po_rules p)) (table_bytes (po_rules p))"
    "emits (cond_write_list cexpand (rule_policy p) False (po_cond_rules p) (po_cond_marked p) (po_conds p)) (conds_bytes cs)"
    "emits (role_trans_write ?v (po_role_tr p)) (role_trans_enc ?v (po_role_tr p))"
    "25 \<le> pv_vers ?v \<Longrightarrow> emits (filename_trans_write ?v (po_filename_trans p)) (filename_trans_enc (po_filename_trans p))"
    using emits_avtab [OF _ o] conds_written [OF _ ch o] emits_role_trans emits_filename_trans R T by simp_all
  have "16 \<le> pv_vers ?v" using H by (auto intro: order_trans [of _ 20])
  then show ?thesis
    unfolding write_rules_def Let_def if_P [OF header_kern [OF assms(1)]]
    by (intro emits_eq [OF emits_all_Cons [OF e(1) emits_all_Cons [OF emits_when [OF e(2)] emits_all_Cons [OF e(3)
          emits_all_Cons [OF emits_role_allow emits_all_Cons [OF emits_when [OF e(4)] emits_all_Nil]]]]]])
      (simp_all add: te_rules_enc_def)
qed

lemma header_compat:
  assumes "header_ok p n"
  obtains t w pl where "policydb_lookup_compat (pv_vers (po_version p)) (pv_type (po_version p)) (po_platform p) = Some (t, w, SYM_NUM, n, pl)"
proof -
  note H = assms [unfolded header_ok_def]
  obtain t w k pl where c: "policydb_lookup_compat (pv_vers (po_version p)) POLICY_KERN SEPOL_TARGET_SELINUX = Some (t, w, k, n, pl)"
    using H by blast
  have "19 \<le> pv_vers (po_version p)" using H by (auto intro: order_trans [of _ 20])
  from compat_all_tables [OF c this] show thesis using that c H by simp
qed

lemma kern_sections:
  assumes "header_ok p n"
  shows "has_mls_format (po_version p)" "has_range_section (po_version p)" "kern_from (po_version p) 20" "\<not> is_module (po_version p)"
    "has_policycaps (po_version p) \<longleftrightarrow> 22 \<le> pv_vers (po_version p)" "kern_from (po_version p) k \<longleftrightarrow> k \<le> pv_vers (po_version p)"
    "kern (po_version p)" "pv_type (po_version p) = POLICY_KERN" "20 \<le> pv_vers (po_version p)" "version_in_range (po_version p)"
    "POLICY_KERN \<noteq> POLICY_MOD" "POLICY_KERN \<noteq> POLICY_BASE"
proof -
  note H = assms [unfolded header_ok_def]
  have k: "kern (po_version p)" by (rule header_kern [OF assms])
  have d: "POLICY_KERN \<noteq> POLICY_MOD" "POLICY_KERN \<noteq> POLICY_BASE" by (simp_all add: POLICY_KERN_def POLICY_MOD_def POLICY_BASE_def)
  have v: "15 \<le> pv_vers (po_version p)" "19 \<le> pv_vers (po_version p)" using H by (auto intro: order_trans [of _ 20])
  show "has_mls_format (po_version p)" "has_range_section (po_version p)" "kern_from (po_version p) 20" "\<not> is_module (po_version p)"
    "has_policycaps (po_version p) \<longleftrightarrow> 22 \<le> pv_vers (po_version p)" "kern_from (po_version p) k \<longleftrightarrow> k \<le> pv_vers (po_version p)"
    "kern (po_version p)" "pv_type (po_version p) = POLICY_KERN" "20 \<le> pv_vers (po_version p)" "version_in_range (po_version p)"
    "POLICY_KERN \<noteq> POLICY_MOD" "POLICY_KERN \<noteq> POLICY_BASE"
    using H k d v by (auto simp: has_mls_format_def has_range_section_def kern_from_def is_module_def has_policycaps_def version_in_range_def
        POLICYDB_VERSION_MIN_def POLICYDB_VERSION_MAX_def)
qed

lemma emits_header_ebitmaps:
  assumes "header_ok p n"
  shows "emits (w_when (has_policycaps (po_version p)) (w_ebitmap (po_policycaps p)))
      (if 22 \<le> pv_vers (po_version p) then ebitmap_write (po_policycaps p) else [])"
    and "emits (w_when (kern_from (po_version p) 23) (w_ebitmap (po_permissive p)))
      (if 23 \<le> pv_vers (po_version p) then ebitmap_write (po_permissive p) else [])"
  unfolding kern_sections [OF assms] by (intro emits_when emits_ebitmap)+

lemma policy_written:
  assumes "kernel_policy_ok p n cs"
  shows "emits (policydb_write expand cexpand False p) (policy_enc p n cs)"
proof -
  let ?v = "po_version p"
  note D = assms [unfolded kernel_policy_ok_def]
  have h: "header_ok p n" using D by blast
  note H = h [unfolded header_ok_def] and K = kern_sections [OF h]
  obtain t w pl where c: "policydb_lookup_compat (pv_vers ?v) (pv_type ?v) (po_platform p) = Some (t, w, SYM_NUM, n, pl)"
    by (rule header_compat [OF h])
  have ty: "unat (nprim (pf_types (po_tabs p))) \<le> length (po_type_attr p)" using D by (simp add: contexts_ok_def type_maps_ok_def)
  have s: "emits (write_symtabs ?v SYM_NUM (po_tabs p)) (symtabs_enc ?v (po_tabs p))"
    using D symtabs_written by (simp add: symbols_ok_def)
  have r: "emits (write_rules expand cexpand False SYM_NUM p) (te_rules_enc p cs)" using D emits_te_rules [OF h] by blast
  have o: "emits (ocontext_write ?v SEPOL_TARGET_SELINUX n (po_ocontexts p)) (ocons_enc ?v n (po_ocontexts p))"
    using D emits_ocons by (auto simp: contexts_ok_def)
  have rg: "emits (range_write ?v (po_range_tr p)) (range_tr_enc ?v (po_range_tr p))" using D emits_range_tr by (simp add: transitions_ok_def)
  note maps = emits_nth [OF ty emits_ebitmap]
  have pl: "po_platform p = SEPOL_TARGET_SELINUX" "\<not> po_unsupported p" using H by simp_all
  show ?thesis
    unfolding policydb_write_def Let_def if_P [OF K(7)] if_not_P [OF pl(2)] c option.case prod.case
    by (rule emits_eq, simp only: K(1-3,8,11) pl(1) w_when_def if_True simp_thms if_False,
        (rule emits_all_Cons emits_all_Nil emits_words emits_put emits_skip s r o rg maps emits_genfs emits_header_ebitmaps [OF h, unfolded w_when_def])+)
      (simp add: policy_enc_def header_enc_def symbols_enc_def contexts_enc_def type_maps_enc_def target_string_def)
qed

section \<open>Reading\<close>

lemma policydb_string: "sym_ok POLICYDB_STRING" "length POLICYDB_STRING = 8"
  by (simp_all add: POLICYDB_STRING_def sym_ok_def)

lemma accepts_identity:
  "accepts (read_identity p0) (le32s [POLICYDB_MAGIC, len32 POLICYDB_STRING] @ POLICYDB_STRING)
    (POLICY_KERN, p0\<lparr>po_platform := SEPOL_TARGET_SELINUX\<rparr>)"
proof (rule acceptsI)
  fix r
  have "find_target POLICYDB_STRING = Some SEPOL_TARGET_SELINUX"
    by (simp add: find_target_def target_string_def strcmp_eq policydb_string)
  moreover have "unat (len32 POLICYDB_STRING) = 8" by (simp add: len32_def policydb_string)
  ultimately show "read_identity p0 ((le32s [POLICYDB_MAGIC, len32 POLICYDB_STRING] @ POLICYDB_STRING) @ r) =
      r_ok (POLICY_KERN, p0\<lparr>po_platform := SEPOL_TARGET_SELINUX\<rparr>) r"
    by (simp add: read_identity_def run_simps policydb_string POLICYDB_STRING_MAX_LENGTH_def)
qed

lemma config_back:
  assumes "POLICYDB_CONFIG_UNKNOWN_MASK AND po_unknown p = po_unknown p"
  shows "write_config p AND POLICYDB_CONFIG_MLS \<noteq> 0 \<longleftrightarrow> po_mls p" and "write_config p AND POLICYDB_CONFIG_UNKNOWN_MASK = po_unknown p"
proof -
  note defs = POLICYDB_CONFIG_MLS_def POLICYDB_CONFIG_UNKNOWN_MASK_def POLICYDB_CONFIG_ANDROID_NETLINK_ROUTE_def
  have u: "(6 :: u32) AND po_unknown p = po_unknown p" using assms by (simp add: defs)
  have "(1 :: u32) AND (6 AND x) = 0" "(6 :: u32) AND (6 AND x) = 6 AND x" for x
    by (simp_all add: and.assoc [symmetric])
  from this [of "po_unknown p"] have z: "po_unknown p AND 1 = 0" "po_unknown p AND 6 = po_unknown p"
    by (simp_all only: u and.commute [of "po_unknown p"])
  show "write_config p AND POLICYDB_CONFIG_MLS \<noteq> 0 \<longleftrightarrow> po_mls p"
    using u z by (simp add: write_config_def defs bit.conj_disj_distrib2)
  show "write_config p AND POLICYDB_CONFIG_UNKNOWN_MASK = po_unknown p"
    using u z by (simp add: write_config_def defs bit.conj_disj_distrib2)
qed

lemma accepts_header:
  assumes h: "header_ok p n" and n: "n < 4294967296" and pl: "po_platform p1 = SEPOL_TARGET_SELINUX"
  shows "accepts (read_header (POLICY_KERN, p1)) (le32s [pv_vers (po_version p), write_config p, word_of_nat SYM_NUM, word_of_nat n])
    (p1\<lparr>po_version := po_version p, po_mls := po_mls p, po_unknown := po_unknown p\<rparr>, SYM_NUM, n)"
proof (rule acceptsI)
  fix r
  note H = h [unfolded header_ok_def] and K = kern_sections [OF h]
  obtain t w pl where c: "policydb_lookup_compat (pv_vers (po_version p)) (pv_type (po_version p)) (po_platform p) = Some (t, w, SYM_NUM, n, pl)"
    by (rule header_compat [OF h])
  have c': "policydb_lookup_compat (pv_vers (po_version p)) POLICY_KERN SEPOL_TARGET_SELINUX = Some (t, w, SYM_NUM, n, pl)" using c H by simp
  have v: "\<lparr>pv_type = POLICY_KERN, pv_vers = pv_vers (po_version p)\<rparr> = po_version p" using K(8) by (cases "po_version p") simp
  have m: "POLICYDB_CONFIG_UNKNOWN_MASK AND po_unknown p = po_unknown p" using H by blast
  have u: "unat (word_of_nat n :: u32) = n" "unat (word_of_nat SYM_NUM :: u32) = SYM_NUM"
    using n by (simp_all add: unat_word_of_nat_u32 SYM_NUM_def)
  show "read_header (POLICY_KERN, p1) (le32s [pv_vers (po_version p), write_config p, word_of_nat SYM_NUM, word_of_nat n] @ r) =
      r_ok (p1\<lparr>po_version := po_version p, po_mls := po_mls p, po_unknown := po_unknown p\<rparr>, SYM_NUM, n) r"
    using K by (simp add: read_header_def run_simps v c' u pl config_back [OF m])
qed

lemma accepts_symbols:
  assumes h: "header_ok p n" and s: "symbols_ok p" and v: "po_version p2 = po_version p" and s0: "init_symtabs = Inr (Some (po_tabs p2))"
    and e: "po_policycaps p2 = ebitmap_init" "po_permissive p2 = ebitmap_init"
  shows "accepts (read_symbols SYM_NUM p2) (symbols_enc p)
    (p2\<lparr>po_policycaps := po_policycaps p, po_permissive := po_permissive p, po_tabs := po_tabs p\<rparr>)"
proof (rule acceptsI)
  fix r
  note K = kern_sections [OF h] and S = s [unfolded symbols_ok_def]
  obtain s1 where s1: "init_symtabs = Inr (Some s1)" "accepts (read_symtabs (po_version p) SYM_NUM s1) (symtabs_enc (po_version p) (po_tabs p)) (po_tabs p)"
    using symtabs_read S by blast
  have "s1 = po_tabs p2" using s0 unfolding s1(1) by simp
  then have a: "accepts (read_symtabs (po_version p) SYM_NUM (po_tabs p2)) (symtabs_enc (po_version p) (po_tabs p)) (po_tabs p)"
    using s1(2) by (simp only:)
  show "read_symbols SYM_NUM p2 (symbols_enc p @ r) =
      r_ok (p2\<lparr>po_policycaps := po_policycaps p, po_permissive := po_permissive p, po_tabs := po_tabs p\<rparr>) r"
    using S K e by (auto simp: read_symbols_def symbols_enc_def Let_def v run_simps run_bind [OF a])
qed

lemma accepts_read_table:
  assumes "header_ok p n" and "te_rules_ok p cs"
  obtains te where "accepts (r_avtab U (pv_vers (po_version p)) False t0) (table_bytes (po_rules p)) (te, False)" and "read_back (po_rules p) te"
proof -
  note H = assms(1) [unfolded header_ok_def] and R = assms(2) [unfolded te_rules_ok_def]
  have v: "\<not> pv_vers (po_version p) < POLICYDB_VERSION_AVTAB" using H by (simp add: POLICYDB_VERSION_AVTAB_def not_less)
  have "list_all (rule_ok (pv_vers (po_version p))) (rules_of (po_rules p))"
    using R by (auto simp: can_hold_def rule_policy_def list_all_iff)
  then obtain te where te: "\<And>r. avtab_read U (pv_vers (po_version p)) False (table_bytes (po_rules p) @ r) t0 = Inr (te, False, r, 0)"
    "read_back (po_rules p) te"
    using avtab_read_table [OF _ _ v] R by metis
  have "accepts (r_avtab U (pv_vers (po_version p)) False t0) (table_bytes (po_rules p)) (te, False)"
    using te(1) by (simp add: accepts_def r_avtab_def)
  then show thesis using te(2) that by blast
qed

lemma accepts_read_conds:
  assumes "header_ok p n" and "te_rules_ok p cs" and te: "read_back (po_rules p) te"
  obtains s where "accepts (cond_read_list U (pv_vers (po_version p)) (nprim (pf_bools (po_tabs p))) te False t0) (conds_bytes cs) s"
    and "conds_hold (cs_table s) (cs_marked s) (cs_nodes s) cs" and "cs_compat s = False"
proof -
  note H = assms(1) [unfolded header_ok_def] and R = assms(2) [unfolded te_rules_ok_def]
  have v: "\<not> pv_vers (po_version p) < POLICYDB_VERSION_AVTAB" using H by (simp add: POLICYDB_VERSION_AVTAB_def not_less)
  have "conds_ok (pv_vers (po_version p)) (nprim (pf_bools (po_tabs p))) te cs" unfolding conds_ok_cong [OF te] using R by blast
  moreover have B: "av_ok te" "avnel te = avnel (po_rules p)" using te by (simp_all add: read_back_def)
  moreover from B have "avnel te \<noteq> 0" using R by (metis length_0_conv unsigned_0)
  ultimately obtain s where "\<forall>r. cond_read_list U (pv_vers (po_version p)) (nprim (pf_bools (po_tabs p))) te False t0 (conds_bytes cs @ r) = Inr (Some (s, r))"
    "conds_hold (cs_table s) (cs_marked s) (cs_nodes s) cs" "\<not> cs_compat s"
    using conds_read [OF _ v B(1)] by blast
  then show thesis using that by (simp add: accepts_def)
qed

text \<open>What reading gives: the same policy, but for rules in other places.\<close>

definition with_rules :: "pf_policy \<Rightarrow> avtab \<Rightarrow> avtab \<Rightarrow> avtab_ptr set \<Rightarrow> cond_node list \<Rightarrow> pf_policy" where
  "with_rules p te ct m ns = p\<lparr>po_rules := te, po_cond_rules := ct, po_cond_marked := m, po_conds := ns\<rparr>"

definition same_rules :: "pf_policy \<Rightarrow> cond_rules list \<Rightarrow> avtab \<Rightarrow> avtab \<Rightarrow> avtab_ptr set \<Rightarrow> cond_node list \<Rightarrow> bool" where
  "same_rules p cs te ct m ns \<longleftrightarrow> read_back (po_rules p) te \<and> conds_hold ct m ns cs"

lemma accepts_te_rules:
  assumes h: "header_ok p n" and r: "te_rules_ok p cs" and t: "transitions_ok p"
    and p3: "po_version p3 = po_version p" "po_tabs p3 = po_tabs p" "po_filename_trans p3 = init_filename_trans"
  obtains te ct m ns where "same_rules p cs te ct m ns"
    and "accepts (read_kernel_rules U (p3, False)) (te_rules_enc p cs)
      (with_rules (p3\<lparr>po_role_tr := po_role_tr p, po_role_allow := po_role_allow p, po_filename_trans := po_filename_trans p\<rparr>) te ct m ns, False)"
proof -
  note H = h [unfolded header_ok_def] and T = t [unfolded transitions_ok_def]
  obtain te where te: "accepts (r_avtab U (pv_vers (po_version p)) False (po_rules p3)) (table_bytes (po_rules p)) (te, False)"
    "read_back (po_rules p) te" by (rule accepts_read_table [OF h r])
  obtain s where s: "accepts (cond_read_list U (pv_vers (po_version p)) (nprim (pf_bools (po_tabs p))) te False (po_cond_rules p3)) (conds_bytes cs) s"
    "conds_hold (cs_table s) (cs_marked s) (cs_nodes s) cs" "cs_compat s = False" by (rule accepts_read_conds [OF h r te(2)])
  have v: "16 \<le> pv_vers (po_version p)" using H by (auto intro: order_trans [of _ 20])
  have tr: "accepts (role_trans_read (po_version p)) (role_trans_enc (po_version p) (po_role_tr p)) (po_role_tr p)"
    "accepts role_allow_read (role_allow_enc (po_role_allow p)) (po_role_allow p)"
    using T accepts_role_trans accepts_role_allow by simp_all
  have ft: "accepts (r_when (25 \<le> pv_vers (po_version p)) (filename_trans_read init_filename_trans) init_filename_trans)
      (if 25 \<le> pv_vers (po_version p) then filename_trans_enc (po_filename_trans p) else []) (po_filename_trans p)"
    using T accepts_filename_trans accepts_ok by (auto simp: r_when_def)
  let ?q = "with_rules (p3\<lparr>po_role_tr := po_role_tr p, po_role_allow := po_role_allow p, po_filename_trans := po_filename_trans p\<rparr>)
    te (cs_table s) (cs_marked s) (cs_nodes s)"
  have q: "p3\<lparr>po_cond_rules := cs_table s, po_cond_marked := cs_marked s, po_conds := cs_nodes s, po_rules := te,
      po_role_tr := po_role_tr p, po_role_allow := po_role_allow p, po_filename_trans := po_filename_trans p\<rparr> = ?q"
    by (rule pf_policy.equality) (simp_all add: with_rules_def)
  have "accepts (read_kernel_rules U (p3, False)) (te_rules_enc p cs) (?q, False)"
    using v by (intro acceptsI) (simp add: read_kernel_rules_def te_rules_enc_def Let_def p3 run_simps run_bind [OF te(1)] run_bind [OF s(1)]
        run_bind [OF tr(1)] run_bind [OF tr(2)] run_bind [OF ft] s(3) q)
  moreover have "same_rules p cs te (cs_table s) (cs_marked s) (cs_nodes s)" using te(2) s(2) by (simp add: same_rules_def)
  ultimately show thesis using that by blast
qed

text \<open>The whole file.\<close>

lemma index_kernel:
  assumes k: "pv_type (po_version q) = POLICY_KERN" and i: "indexes_ok p" and q: "po_tabs q = po_tabs p" "po_index q = no_index"
    and g: "po_global q = [\<lparr>bl_decls = [avrule_decl_create 1], bl_enabled = None, bl_flags = 0\<rparr>]"
  shows "index_policy q = Inr (Some (q\<lparr>po_decls := [Some (avrule_decl_create 1)], po_tabs := po_tabs p, po_index := po_index p\<rparr>))"
proof -
  obtain ix where ix: "policydb_index_classes (po_tabs p) no_index = (ix, 0)" "policydb_index_others (po_tabs p) ix = Inr (Some (po_index p))"
    using i by (auto simp: indexes_ok_def)
  have "policydb_index_decls (po_global q) = Some [Some (avrule_decl_create 1)]"
    by (simp add: policydb_index_decls_def g avrule_decl_create_def)
  then show ?thesis
    using k ix by (simp add: index_policy_def q res_opt_bind_def POLICY_KERN_def POLICY_BASE_def)
qed

lemma policy_read:
  assumes ok: "kernel_policy_ok p n cs" and p0: "policydb_init = Inr (Some p0)"
  obtains te ct m ns where "same_rules p cs te ct m ns"
    and "accepts (policydb_read U False p0) (policy_enc p n cs) (with_rules p te ct m ns, False)"
proof -
  note D = ok [unfolded kernel_policy_ok_def]
  have h: "header_ok p n" "symbols_ok p" "te_rules_ok p cs" "transitions_ok p" "indexes_ok p" "contexts_ok p n" "no_module p" using D by blast+
  note K = kern_sections [OF h(1)]
  obtain s0 sc where s0: "init_symtabs = Inr (Some s0)" "p0 = new_policy s0 sc"
    using p0 by (auto simp: policydb_init_def res_opt_bind_def res_bind_def split: sum.splits option.splits prod.splits if_splits)
  let ?p1 = "p0\<lparr>po_platform := SEPOL_TARGET_SELINUX\<rparr>"
  let ?p2 = "?p1\<lparr>po_version := po_version p, po_mls := po_mls p, po_unknown := po_unknown p\<rparr>"
  let ?p3 = "?p2\<lparr>po_policycaps := po_policycaps p, po_permissive := po_permissive p, po_tabs := po_tabs p\<rparr>"
  let ?p4 = "\<lambda>te ct m ns. with_rules (?p3\<lparr>po_role_tr := po_role_tr p, po_role_allow := po_role_allow p, po_filename_trans := po_filename_trans p\<rparr>) te ct m ns"
  have n: "n < 4294967296" using h(6) by (simp add: contexts_ok_def ocons_ok_def OCON_NUM_def)
  have a1: "accepts (read_header (POLICY_KERN, ?p1)) (le32s [pv_vers (po_version p), write_config p, word_of_nat SYM_NUM, word_of_nat n]) (?p2, SYM_NUM, n)"
    by (rule accepts_header [OF h(1) n]) simp
  have a2: "accepts (read_symbols SYM_NUM ?p2) (symbols_enc p) ?p3"
    by (rule accepts_symbols [OF h(1,2)]) (simp_all add: s0 new_policy_def)
  obtain te ct m ns where r: "same_rules p cs te ct m ns"
    "accepts (read_kernel_rules U (?p3, False)) (te_rules_enc p cs) (?p4 te ct m ns, False)"
    by (rule accepts_te_rules [OF h(1,3,4), of ?p3]) (auto simp: s0 new_policy_def)
  let ?q = "?p4 te ct m ns"
  let ?q5 = "?q\<lparr>po_decls := [Some (avrule_decl_create 1)], po_tabs := po_tabs p, po_index := po_index p\<rparr>"
  have ix: "index_policy ?q = Inr (Some ?q5)"
    by (rule index_kernel [OF _ h(5)]) (simp_all add: with_rules_def K s0 new_policy_def)
  have env: "policy_env ?q5 = policy_env p" by (simp add: policy_env_def with_rules_def)
  have cx: "accepts (read_contexts n ?q5) (contexts_enc p n) (?q5\<lparr>po_ocontexts := po_ocontexts p, po_genfs := po_genfs p\<rparr>)"
  proof (rule acceptsI)
    fix r
    have c: "accepts (ocontext_read (policy_env p) SEPOL_TARGET_SELINUX n) (ocons_enc (po_version p) n (po_ocontexts p)) (po_ocontexts p)"
      "accepts (genfs_read (policy_env p)) (genfs_enc (po_version p) (po_genfs p)) (po_genfs p)"
      using h(6) accepts_ocons [of "policy_env p"] accepts_genfs [of "policy_env p"] by (simp_all add: contexts_ok_def policy_env_def)
    have pl: "po_platform ?q5 = SEPOL_TARGET_SELINUX" by (simp add: with_rules_def)
    show "read_contexts n ?q5 (contexts_enc p n @ r) = r_ok (?q5\<lparr>po_ocontexts := po_ocontexts p, po_genfs := po_genfs p\<rparr>) r"
      unfolding read_contexts_def env pl contexts_enc_def append_assoc run_bind [OF c(1)] run_bind [OF c(2)] by (rule refl)
  qed
  let ?q6 = "?q5\<lparr>po_ocontexts := po_ocontexts p, po_genfs := po_genfs p\<rparr>"
  let ?q7 = "?q6\<lparr>po_range_tr := po_range_tr p, po_global := po_global ?q6\<rparr>"
  have rg: "accepts (read_ranges ?q6) (range_tr_enc (po_version p) (po_range_tr p)) ?q7"
  proof (rule acceptsI)
    fix r
    have a: "accepts (range_read (po_version p) init_range_tr) (range_tr_enc (po_version p) (po_range_tr p)) (po_range_tr p, [])"
      using h(4) accepts_range_tr by (simp add: transitions_ok_def)
    have f: "po_version ?q6 = po_version p" "po_range_tr ?q6 = init_range_tr" by (simp_all add: with_rules_def s0 new_policy_def)
    show "read_ranges ?q6 (range_tr_enc (po_version p) (po_range_tr p) @ r) = r_ok ?q7 r"
      unfolding read_ranges_def Let_def f using K(7) by (simp add: run_bind [OF a])
  qed
  let ?q8 = "?q7\<lparr>po_type_attr := po_type_attr p, po_attr_type := po_attr_type p\<rparr>"
  have tm: "accepts (read_type_maps ?q7) (type_maps_enc p) ?q8"
  proof (rule acceptsI)
    fix r
    let ?n = "unat (nprim (pf_types (po_tabs p)))"
    have a: "accepts (r_fold (read_type_map (po_version p) (ix_types (po_index p))) [0..<?n] (replicate ?n ebitmap_init, replicate ?n ebitmap_init))
      (concat (map (\<lambda>j. ebitmap_write (po_type_attr p ! j)) [0..<?n])) (po_type_attr p, po_attr_type p)"
      using h(6) accepts_type_maps [OF _ K(9)] by (simp add: contexts_ok_def)
    have f: "po_version ?q7 = po_version p" "po_tabs ?q7 = po_tabs p" "po_index ?q7 = po_index p" by (simp_all add: with_rules_def)
    show "read_type_maps ?q7 (type_maps_enc p @ r) = r_ok ?q8 r"
      unfolding read_type_maps_def Let_def f type_maps_enc_def by (simp add: run_bind [OF a])
  qed
  have md: "po_name p = None" "po_module_version p = None" "po_decls p = [Some (avrule_decl_create 1)]"
    "po_global p = po_global p0" "po_scopes p = po_scopes p0"
    using h(7) unfolding no_module_def p0 by simp_all
  have same: "?q8 = with_rules p te ct m ns"
    using h(1) by (intro pf_policy.equality) (simp_all add: with_rules_def md [unfolded s0(2)] header_ok_def, simp_all add: s0(2) new_policy_def)
  have v: "kern (po_version ?p3)" "kern (po_version ?q7)" "has_range_section (po_version ?q6)" "po_version ?p3 = po_version p"
    using K by (simp_all add: with_rules_def)
  have "accepts (policydb_read U False p0) (policy_enc p n cs) (?q8, False)"
  proof (rule acceptsI)
    fix r
    have e: "policy_enc p n cs @ r = (le32s [POLICYDB_MAGIC, len32 POLICYDB_STRING] @ POLICYDB_STRING) @
        le32s [pv_vers (po_version p), write_config p, word_of_nat SYM_NUM, word_of_nat n] @ symbols_enc p @ te_rules_enc p cs @ contexts_enc p n @
        range_tr_enc (po_version p) (po_range_tr p) @ type_maps_enc p @ r"
      by (simp add: policy_enc_def header_enc_def)
    have l: "r_bind (r_lift (index_policy ?q)) f = f ?q5" for f :: "pf_policy \<Rightarrow> (pf_policy \<times> bool) reader"
      by (rule ext) (simp add: r_bind_def r_lift_def ix)
    show "policydb_read U False p0 (policy_enc p n cs @ r) = r_ok (?q8, False) r"
      unfolding e policydb_read_def run_bind [OF accepts_identity] run_bind [OF a1] prod.case run_bind [OF a2] if_P [OF v(1)] run_bind [OF r(2)]
        l run_bind [OF cx] if_P [OF v(3)] run_bind [OF rg] if_P [OF v(2)] run_bind [OF tm] by (rule refl)
  qed
  then show thesis using that r(1) unfolding same by blast
qed

text \<open>The image: both passes, the check, and reading it again.\<close>

lemma emits_memory: "emits w b \<Longrightarrow> w (PF_USE_MEMORY (length b) []) = Inr (Some (PF_USE_MEMORY 0 b))"
  by (simp add: emits_def put_entry_memory)

lemma image_survives:
  assumes ok: "kernel_policy_ok p n cs" and p0: "policydb_init = Inr (Some p0)"
  obtains te ct m ns where "same_rules p cs te ct m ns"
    and "policydb_to_image U expand cexpand False junk p = Inr (Some (policy_enc p n cs, False))"
    and "policydb_from_image U False (policy_enc p n cs @ r) p0 = Inr (Some (with_rules p te ct m ns, False))"
proof -
  obtain te ct m ns where r: "same_rules p cs te ct m ns"
    "accepts (policydb_read U False p0) (policy_enc p n cs) (with_rules p te ct m ns, False)" by (rule policy_read [OF ok p0])
  have f: "policydb_from_image U False (policy_enc p n cs @ x) p0 = Inr (Some (with_rules p te ct m ns, False))" for x
    using r(2) by (simp add: policydb_from_image_def accepts_def)
  note w = policy_written [OF ok, of expand cexpand]
  have "policydb_write expand cexpand False p (PF_LEN 0) = Inr (Some (PF_LEN (length (policy_enc p n cs))))"
    using w by (simp add: emits_def)
  then have "policydb_to_image U expand cexpand False junk p = Inr (Some (policy_enc p n cs, False))"
    using emits_memory [OF w] f [of "[]"] by (simp add: policydb_to_image_def res_opt_bind_def p0)
  then show thesis using that r(1) f by blast
qed

end
