(* ===== verification/Sepol_Cond_Eval.thy ===== *)
theory Sepol_Cond_Eval
  imports Sepol_Conditional
begin

text \<open>
  The evaluation of conditional expressions: on the Polish form of a formula the stack
  machine computes the formula's value, and the truth table that the normal form stores has the
  value of the expression on each line.
\<close>

section \<open>Formulas\<close>

datatype bform =
    BVar u32
  | BNot bform
  | BOr bform bform
  | BAnd bform bform
  | BXor bform bform
  | BEq bform bform
  | BNeq bform bform

primrec bval :: "(u32 \<Rightarrow> bool) \<Rightarrow> bform \<Rightarrow> bool" where
  "bval \<sigma> (BVar b) = \<sigma> b"
| "bval \<sigma> (BNot f) = (\<not> bval \<sigma> f)"
| "bval \<sigma> (BOr f g) = (bval \<sigma> f \<or> bval \<sigma> g)"
| "bval \<sigma> (BAnd f g) = (bval \<sigma> f \<and> bval \<sigma> g)"
| "bval \<sigma> (BXor f g) = (bval \<sigma> f \<noteq> bval \<sigma> g)"
| "bval \<sigma> (BEq f g) = (bval \<sigma> f = bval \<sigma> g)"
| "bval \<sigma> (BNeq f g) = (bval \<sigma> f \<noteq> bval \<sigma> g)"

definition cop :: "u32 \<Rightarrow> cond_expr" where "cop t = \<lparr>ce_type = t, ce_bool = 0\<rparr>"

primrec rpn :: "bform \<Rightarrow> cond_expr list" where
  "rpn (BVar b) = [\<lparr>ce_type = COND_BOOL, ce_bool = b\<rparr>]"
| "rpn (BNot f) = rpn f @ [cop COND_NOT]"
| "rpn (BOr f g) = rpn f @ rpn g @ [cop COND_OR]"
| "rpn (BAnd f g) = rpn f @ rpn g @ [cop COND_AND]"
| "rpn (BXor f g) = rpn f @ rpn g @ [cop COND_XOR]"
| "rpn (BEq f g) = rpn f @ rpn g @ [cop COND_EQ]"
| "rpn (BNeq f g) = rpn f @ rpn g @ [cop COND_NEQ]"

text \<open>The height the stack reaches.\<close>

primrec depth :: "bform \<Rightarrow> nat" where
  "depth (BVar b) = 1"
| "depth (BNot f) = depth f"
| "depth (BOr f g) = max (depth f) (Suc (depth g))"
| "depth (BAnd f g) = max (depth f) (Suc (depth g))"
| "depth (BXor f g) = max (depth f) (Suc (depth g))"
| "depth (BEq f g) = max (depth f) (Suc (depth g))"
| "depth (BNeq f g) = max (depth f) (Suc (depth g))"

primrec bvars :: "bform \<Rightarrow> u32 set" where
  "bvars (BVar b) = {b}"
| "bvars (BNot f) = bvars f"
| "bvars (BOr f g) = bvars f \<union> bvars g"
| "bvars (BAnd f g) = bvars f \<union> bvars g"
| "bvars (BXor f g) = bvars f \<union> bvars g"
| "bvars (BEq f g) = bvars f \<union> bvars g"
| "bvars (BNeq f g) = bvars f \<union> bvars g"

lemmas cond_ops = COND_BOOL_def COND_NOT_def COND_OR_def COND_AND_def COND_XOR_def COND_EQ_def COND_NEQ_def

lemma eval_rpn:
  assumes "\<forall>b\<in>bvars f. bool_state bools b = Inr (of_bool (\<sigma> b))" and "depth f + length s \<le> COND_EXPR_MAXDEPTH"
  shows "eval_loop bools (rpn f @ es) s = eval_loop bools es (of_bool (bval \<sigma> f) # s)"
  using assms
proof (induction f arbitrary: s es)
  case (BVar b)
  then show ?case by (simp add: cond_ops)
next
  case (BNot f)
  then show ?case by (simp add: cop_def cond_ops)
next
  case (BOr f g)
  then show ?case by (simp add: cop_def cond_ops binary_op_def)
next
  case (BAnd f g)
  then show ?case by (simp add: cop_def cond_ops binary_op_def)
next
  case (BXor f g)
  then show ?case by (simp add: cop_def cond_ops binary_op_def)
next
  case (BEq f g)
  then show ?case by (simp add: cop_def cond_ops binary_op_def)
next
  case (BNeq f g)
  then show ?case by (simp add: cop_def cond_ops binary_op_def)
qed

section \<open>The truth table\<close>

text \<open>An evaluation reads only the states of the booleans that occur.\<close>

definition expr_bools :: "cond_expr list \<Rightarrow> u32 set" where
  "expr_bools es = {ce_bool e | e. e \<in> set es \<and> ce_type e = COND_BOOL}"

lemma eval_cong:
  "\<forall>b\<in>expr_bools es. bool_state bools b = bool_state bools' b \<Longrightarrow> eval_loop bools es s = eval_loop bools' es s"
proof (induction es arbitrary: s)
  case (Cons e es)
  have "\<forall>b\<in>expr_bools es. bool_state bools b = bool_state bools' b"
    using Cons.prems by (auto simp: expr_bools_def)
  note IH = Cons.IH [OF this]
  show ?case
  proof (cases "ce_type e = COND_BOOL")
    case True
    then have "bool_state bools (ce_bool e) = bool_state bools' (ce_bool e)" using Cons.prems by (auto simp: expr_bools_def)
    then show ?thesis using True by (simp add: IH res_bind_def split: sum.split)
  next
    case False
    then show ?thesis by (simp add: IH split: list.split option.split)
  qed
qed simp

text \<open>Setting a state.\<close>

definition has_bool :: "cond_bool_datum val_index \<Rightarrow> u32 \<Rightarrow> bool" where
  "has_bool bools b \<longleftrightarrow> b \<noteq> 0 \<and> unat b \<le> length bools \<and> bools ! (unat b - 1) \<noteq> None"

lemma bool_state_iff: "(\<exists>v. bool_state bools b = Inr v) \<longleftrightarrow> has_bool bools b"
  by (auto simp: bool_state_def has_bool_def split: option.splits)

lemma value_slot: "b \<noteq> 0 \<Longrightarrow> c \<noteq> 0 \<Longrightarrow> unat b - 1 = unat c - 1 \<longleftrightarrow> b = (c :: u32)"
  by (metis One_nat_def Suc_pred unat_gt_0 word_unat_eq_iff)

lemma has_bool_slot: "has_bool bools b \<Longrightarrow> unat b - 1 < length bools"
  using unat_gt_0 [of b] unfolding has_bool_def by linarith

lemma state_set_state:
  assumes "has_bool bools b" and "has_bool bools c"
  shows "bool_state (set_state v b bools) c = (if c = b then Inr v else bool_state bools c)"
proof -
  have nz: "b \<noteq> 0" "c \<noteq> 0" using assms by (auto simp: has_bool_def)
  note l = has_bool_slot [OF assms(1)]
  show ?thesis
    using assms l value_slot [OF nz] by (auto simp: bool_state_def set_state_def has_bool_def nth_list_update split: option.splits)
qed

lemma has_set_state [simp]: "has_bool bools b \<Longrightarrow> has_bool (set_state v b bools) c = has_bool bools c"
proof -
  assume b: "has_bool bools b"
  from has_bool_slot [OF this] show ?thesis using b by (auto simp: has_bool_def set_state_def nth_list_update)
qed

lemma states_of_line:
  assumes "\<forall>b\<in>set ids. has_bool bools b" and "distinct ids" and "n \<le> length ids" and "has_bool bools c"
  shows "bool_state (fold (\<lambda>j. set_state (if bit test j then 1 else 0) (ids ! j)) [0..<n] bools) c =
      (if \<exists>j<n. ids ! j = c then Inr (if \<exists>j<n. ids ! j = c \<and> bit test j then 1 else 0) else bool_state bools c) \<and>
    (\<forall>b. has_bool (fold (\<lambda>j. set_state (if bit test j then 1 else 0) (ids ! j)) [0..<n] bools) b = has_bool bools b)"
  using assms(3)
proof (induction n)
  case (Suc n)
  let ?f = "fold (\<lambda>j. set_state (if bit test j then 1 else 0) (ids ! j)) [0..<n] bools"
  have IH: "bool_state ?f c = (if \<exists>j<n. ids ! j = c then Inr (if \<exists>j<n. ids ! j = c \<and> bit test j then 1 else 0) else bool_state bools c)"
    "\<forall>b. has_bool ?f b = has_bool bools b" using Suc by auto
  have h: "has_bool ?f (ids ! n)" "has_bool ?f c" using assms(1,4) Suc.prems IH(2) by auto
  have d: "ids ! j \<noteq> ids ! n" if "j < n" for j using that assms(2) Suc.prems by (simp add: nth_eq_iff_index_eq)
  have "bool_state (set_state (if bit test n then 1 else 0) (ids ! n) ?f) c =
      (if c = ids ! n then Inr (if bit test n then 1 else 0) else bool_state ?f c)"
    by (rule state_set_state [OF h])
  moreover have "(\<exists>j<Suc n. ids ! j = c) \<longleftrightarrow> c = ids ! n \<or> (\<exists>j<n. ids ! j = c)" by (auto simp: less_Suc_eq)
  moreover have "(\<exists>j<Suc n. ids ! j = c \<and> bit test j) \<longleftrightarrow> (if c = ids ! n then bit test n else \<exists>j<n. ids ! j = c \<and> bit test j)"
    using d by (auto simp: less_Suc_eq)
  ultimately show ?case using IH h by auto
qed simp

lemma assign_state:
  assumes "\<forall>b\<in>set ids. has_bool bools b" and "distinct ids" and "has_bool bools c"
  shows "bool_state (assign ids test bools) c = (if c \<in> set ids then Inr (if \<exists>j<length ids. ids ! j = c \<and> bit test j then 1 else 0) else bool_state bools c)"
    and "has_bool (assign ids test bools) b = has_bool bools b"
  using states_of_line [OF assms(1,2) order_refl assms(3), of test] by (auto simp: assign_def in_set_conv_nth)

definition line_value :: "cond_bool_datum val_index \<Rightarrow> u32 list \<Rightarrow> cond_expr list \<Rightarrow> nat \<Rightarrow> int res" where
  "line_value bools ids e test = cond_evaluate_expr (assign ids test bools) e"

text \<open>The loop over the lines: each sees only the states it sets itself.\<close>

lemma precompute_lines:
  assumes "precompute ids e ts bools acc = Inr (bools', pre, True)"
    and "\<forall>b\<in>set ids. has_bool bools b" and "distinct ids" and "expr_bools e \<subseteq> set ids" and "distinct ts" and "\<forall>t\<in>set ts. t < 32"
  shows "(\<forall>t\<in>set ts. \<exists>k. line_value bools ids e t = Inr k \<and> k \<noteq> - 1) \<and>
    (\<forall>t < 32. bit pre t \<longleftrightarrow> bit acc t \<or> t \<in> set ts \<and> line_value bools ids e t \<noteq> Inr 0) \<and>
    (\<forall>b. has_bool bools' b = has_bool bools b) \<and>
    (\<forall>c. has_bool bools c \<longrightarrow> c \<notin> set ids \<longrightarrow> bool_state bools' c = bool_state bools c)"
  using assms(1,2,5,6)
proof (induction ts arbitrary: bools acc)
  case (Cons t ts)
  let ?b = "assign ids t bools"
  note st = assign_state [OF Cons.prems(2) assms(3)]
  have hb: "has_bool ?b b = has_bool bools b" for b
  proof (cases "ids = []")
    case True
    then show ?thesis by (simp add: assign_def)
  next
    case False
    then have "hd ids \<in> set ids" by simp
    then show ?thesis using st(2) [of "hd ids" t b] Cons.prems(2) by blast
  qed
  obtain k where k: "cond_evaluate_expr ?b e = Inr k" "k \<noteq> - 1"
    "precompute ids e ts ?b (if k \<noteq> 0 then acc OR push_bit t 1 else acc) = Inr (bools', pre, True)"
    using Cons.prems(1) by (auto simp: Let_def res_bind_def split: sum.splits if_splits)
  have h: "\<forall>b\<in>set ids. has_bool ?b b" using Cons.prems(2) hb by simp
  have same: "line_value ?b ids e u = line_value bools ids e u" for u
    unfolding line_value_def cond_evaluate_expr_def
  proof (rule eval_cong, rule ballI)
    fix c assume "c \<in> expr_bools e"
    then have "c \<in> set ids" "has_bool bools c" using assms(4) Cons.prems(2) by blast+
    then show "bool_state (assign ids u ?b) c = bool_state (assign ids u bools) c"
      using assign_state(1) [OF h assms(3), of c u] st(1) [of c u] hb by simp
  qed
  have IH: "(\<forall>u\<in>set ts. \<exists>k. line_value ?b ids e u = Inr k \<and> k \<noteq> - 1) \<and>
    (\<forall>u < 32. bit pre u \<longleftrightarrow> bit (if k \<noteq> 0 then acc OR push_bit t 1 else acc) u \<or> u \<in> set ts \<and> line_value ?b ids e u \<noteq> Inr 0) \<and>
    (\<forall>b. has_bool bools' b = has_bool ?b b) \<and>
    (\<forall>c. has_bool ?b c \<longrightarrow> c \<notin> set ids \<longrightarrow> bool_state bools' c = bool_state ?b c)"
    by (rule Cons.IH [OF k(3) h]) (use Cons.prems in auto)
  have "line_value bools ids e t = Inr k" using k(1) by (simp add: line_value_def)
  moreover have "bit (acc OR push_bit t 1) u \<longleftrightarrow> bit acc u \<or> u = t" if "u < 32" "t < 32" for u
    using that by (auto simp: bit_simps)
  moreover have "t < 32" using Cons.prems(4) by simp
  ultimately show ?case
    using IH k(2) hb st(1) Cons.prems(2) unfolding same by (auto split: if_splits)
qed simp

section \<open>The normal form\<close>

lemma take_Suc_update: "n < length xs \<Longrightarrow> take (Suc n) (xs[n := x]) = take n xs @ [x]"
  by (simp add: take_Suc_conv_app_nth)

text \<open>The collected booleans; the count does not wrap around for expressions of less than $2^{31}$ elements.\<close>

lemma collect_bools:
  assumes "length ids = COND_MAX_BOOLS" and "unat n + length es < 4294967296"
    and "fold add_bool es (ids, n) = (ids', n')" and "unat n' \<le> COND_MAX_BOOLS" and "distinct (take (unat n) ids)"
  shows "length ids' = COND_MAX_BOOLS \<and> unat n \<le> unat n' \<and> distinct (take (unat n') ids') \<and>
    set (take (unat n') ids') = set (take (unat n) ids) \<union> expr_bools es"
  using assms
proof (induction es arbitrary: ids n)
  case (Cons e es)
  have u: "unat (n + 1) = Suc (unat n)"
  proof -
    have "unat n + 1 < 2 ^ LENGTH(32)" using Cons.prems(2) by simp
    then show ?thesis by (simp add: unat_word_ariths)
  qed
  have grow: "unat m \<le> unat n'" if "fold add_bool es (xs, m) = (ids', n')" "unat m + length es < 4294967296" for xs m
    using that
  proof (induction es arbitrary: xs m)
    case (Cons a es)
    obtain ys k where k: "add_bool a (xs, m) = (ys, k)" by (cases "add_bool a (xs, m)")
    have "unat m + 1 < 2 ^ LENGTH(32)" using Cons.prems(2) by simp
    then have um: "unat (m + 1) = Suc (unat m)" by (simp add: unat_word_ariths)
    have "k = m \<or> k = m + 1" using k by (auto simp: add_bool_def split: if_splits)
    then have "unat m \<le> unat k" "unat k + length es < 4294967296" using um Cons.prems(2) by auto
    then show ?case using Cons.IH [of ys k] Cons.prems(1) k by simp
  qed simp
  obtain ys k where k: "add_bool e (ids, n) = (ys, k)" by (cases "add_bool e (ids, n)")
  have f: "fold add_bool es (ys, k) = (ids', n')" using Cons.prems(3) k by simp
  have b: "expr_bools (e # es) = (if ce_type e = COND_BOOL then {ce_bool e} else {}) \<union> expr_bools es"
    by (auto simp: expr_bools_def)
  show ?case
  proof (cases "ce_type e = COND_BOOL \<and> \<not> bool_present (ce_bool e) ids n")
    case False
    then have k': "ys = ids" "k = n" using k by (auto simp: add_bool_def)
    have small: "unat n \<le> COND_MAX_BOOLS" using grow [OF f] Cons.prems(2,4) k' by simp
    have "ce_type e = COND_BOOL \<longrightarrow> ce_bool e \<in> set (take (unat n) ids)"
      using False small by (auto simp: bool_present_def)
    moreover have "unat n + length es < 4294967296" using Cons.prems(2) by simp
    note Cons.IH [OF Cons.prems(1) this f [unfolded k'] Cons.prems(4,5)]
    ultimately show ?thesis using b by auto
  next
    case True
    have kk: "k = n + 1" using True k by (auto simp: add_bool_def split: if_splits)
    have l: "unat k + length es < 4294967296" using kk u Cons.prems(2) by simp
    have "unat k \<le> COND_MAX_BOOLS" using grow [OF f l] Cons.prems(4) by simp
    then have n: "unat n < COND_MAX_BOOLS" using kk u by simp
    then have ys: "ys = ids[unat n := ce_bool e]" using True k by (auto simp: add_bool_def)
    have t: "take (unat k) ys = take (unat n) ids @ [ce_bool e]"
      using n Cons.prems(1) unfolding ys kk u by (intro take_Suc_update) simp
    have new: "ce_bool e \<notin> set (take (unat n) ids)" using True n by (auto simp: bool_present_def)
    have "distinct (take (unat k) ys)" using t new Cons.prems(5) by simp
    moreover have "length ys = COND_MAX_BOOLS" using ys Cons.prems(1) by simp
    ultimately have "length ids' = COND_MAX_BOOLS \<and> unat k \<le> unat n' \<and> distinct (take (unat n') ids') \<and>
        set (take (unat n') ids') = set (take (unat k) ys) \<union> expr_bools es"
      using Cons.IH [OF _ l f Cons.prems(4)] by blast
    then show ?thesis using t kk u b True by auto
  qed
qed (simp add: expr_bools_def)

lemma bool_states_ok: "bool_states bools bs = Inr vs \<Longrightarrow> list_all2 (\<lambda>b v. bool_state bools b = Inr v) bs vs"
  by (induction bs arbitrary: vs) (auto simp: res_bind_def split: sum.splits)

lemma restored:
  assumes "list_all2 (\<lambda>b v. bool_state bools b = Inr v) bs vs" and "\<forall>b. has_bool b2 b = has_bool bools b" and "distinct bs" and "has_bool bools c"
  shows "bool_state (fold (\<lambda>(b, v). set_state v b) (zip bs vs) b2) c = (if c \<in> set bs then bool_state bools c else bool_state b2 c)"
  using assms
proof (induction bs vs arbitrary: b2 rule: list_all2_induct)
  case (Cons b bs v vs)
  have hb: "has_bool bools b" using Cons.hyps(1) bool_state_iff by blast
  then have h2: "has_bool b2 b" "has_bool b2 c" using Cons.prems by auto
  have "\<forall>x. has_bool (set_state v b b2) x = has_bool bools x" using Cons.prems(1) h2(1) by simp
  from Cons.IH [OF this] Cons.prems have IH: "bool_state (fold (\<lambda>(b, v). set_state v b) (zip bs vs) (set_state v b b2)) c =
      (if c \<in> set bs then bool_state bools c else bool_state (set_state v b b2) c)" by simp
  show ?case using IH state_set_state [OF h2] Cons.prems(2) Cons.hyps(1) by auto
qed simp

lemma normalized:
  assumes "cond_normalize_expr bools cn = Inr (bools', cn', 0)" and "unat (nbools cn') \<le> COND_MAX_BOOLS"
    and "length (cexpr cn) < 2147483648"
  shows "(\<forall>t < 2 ^ unat (nbools cn'). bit (expr_pre_comp cn') t \<longleftrightarrow>
      line_value bools (take (unat (nbools cn')) (bool_ids cn')) (cexpr cn') t \<noteq> Inr 0) \<and>
    distinct (take (unat (nbools cn')) (bool_ids cn')) \<and> set (take (unat (nbools cn')) (bool_ids cn')) = expr_bools (cexpr cn') \<and>
    (\<forall>b\<in>expr_bools (cexpr cn'). has_bool bools b) \<and> unat (nbools cn') \<le> length (bool_ids cn') \<and>
    (\<forall>c. has_bool bools c \<longrightarrow> bool_state bools' c = bool_state bools c) \<and>
    (\<forall>t. bit (expr_pre_comp cn') t \<longrightarrow> t < 2 ^ unat (nbools cn'))"
proof -
  let ?c0 = "cn\<lparr>nbools := 0, bool_ids := replicate COND_MAX_BOOLS 0, expr_pre_comp := 0\<rparr>"
  obtain c1 where c1: "strip_not ?c0 = Some c1" using assms(1) by (auto simp: cond_normalize_expr_def Let_def split: option.splits if_splits)
  have ids0: "bool_ids c1 = replicate COND_MAX_BOOLS 0" "length (cexpr c1) \<le> length (cexpr cn)"
    using c1 by (auto simp: strip_not_def split: if_splits)
  obtain ids n where f: "fold add_bool (cexpr c1) (bool_ids c1, 0) = (ids, n)" by (cases "fold add_bool (cexpr c1) (bool_ids c1, 0)")
  let ?c2 = "c1\<lparr>bool_ids := ids, nbools := n\<rparr>"
  have small: "unat n \<le> COND_MAX_BOOLS"
    using assms(1,2) c1 f by (auto simp: cond_normalize_expr_def Let_def split: if_splits)
  define used where "used = take (unat n) ids"
  have ne: "cexpr cn \<noteq> []" using assms(1) by (auto simp: cond_normalize_expr_def)
  have "cexpr cn \<noteq> [] \<Longrightarrow> cond_normalize_expr bools cn = res_bind (bool_states bools used) (\<lambda>orig_value.
      res_bind (precompute used (cexpr ?c2) [0..<2 ^ unat n] bools 0) (\<lambda>(bools, pre, ok).
        let cn = ?c2\<lparr>expr_pre_comp := pre\<rparr> in
        if \<not> ok then Inr (bools, cn, - 1)
        else Inr (fold (\<lambda>(b, v). set_state v b) (zip used orig_value) bools, cn, 0)))"
    unfolding cond_normalize_expr_def Let_def used_def using c1 f small by simp
  note n = this [OF ne, unfolded assms(1)]
  obtain orig where o1: "bool_states bools used = Inr orig" using n by (cases "bool_states bools used") (auto simp: res_bind_def)
  obtain b2 pre ok where o2: "precompute used (cexpr c1) [0..<2 ^ unat n] bools 0 = Inr (b2, pre, ok)"
    using n o1 by (cases "precompute used (cexpr c1) [0..<2 ^ unat n] bools 0") (auto simp: res_bind_def)
  have "ok" using n by (cases ok) (simp_all add: o1 o2 res_bind_def Let_def)
  then have p: "bool_states bools used = Inr orig" "precompute used (cexpr c1) [0..<2 ^ unat n] bools 0 = Inr (b2, pre, True)"
    "bools' = fold (\<lambda>(b, v). set_state v b) (zip used orig) b2" "cn' = ?c2\<lparr>expr_pre_comp := pre\<rparr>"
    using n by (simp_all add: o1 o2 res_bind_def Let_def)
  have "length (cexpr c1) < 4294967296" using ids0(2) assms(3) by linarith
  then have col: "distinct used" "set used = expr_bools (cexpr c1)" "length ids = COND_MAX_BOOLS"
    using collect_bools [OF _ _ f small] ids0(1) by (simp_all add: used_def)
  note st = bool_states_ok [OF p(1)]
  have hb: "\<forall>b\<in>set used. has_bool bools b"
  proof
    fix b assume "b \<in> set used"
    then obtain i where "i < length used" "b = used ! i" by (auto simp: in_set_conv_nth)
    then have "bool_state bools b = Inr (orig ! i)" using list_all2_nthD [OF st] by simp
    then show "has_bool bools b" using bool_state_iff by blast
  qed
  have "(2 :: nat) ^ unat n \<le> 2 ^ 5" using small by (intro power_increasing) (simp_all add: COND_MAX_BOOLS_def)
  then have t32: "\<forall>t\<in>set [0..<2 ^ unat n]. t < 32" by auto
  have "expr_bools (cexpr c1) \<subseteq> set used" using col(2) by simp
  from precompute_lines [OF p(2) hb col(1) this _ t32]
  have lines: "\<forall>t < 32. bit pre t \<longleftrightarrow> t < 2 ^ unat n \<and> line_value bools used (cexpr c1) t \<noteq> Inr 0"
    "\<forall>b. has_bool b2 b = has_bool bools b" "\<forall>c. has_bool bools c \<longrightarrow> c \<notin> set used \<longrightarrow> bool_state b2 c = bool_state bools c"
    by auto
  have "bool_state bools' c = bool_state bools c" if "has_bool bools c" for c
    using restored [OF st lines(2) col(1) that] lines(3) that by (simp add: p(3))
  moreover have "bit pre t \<longleftrightarrow> line_value bools used (cexpr c1) t \<noteq> Inr 0" if "t < 2 ^ unat n" for t
    using lines(1) t32 that by simp
  moreover have "t < 2 ^ unat n" if "bit pre t" for t
    using lines(1) that bit_imp_le_length [OF that] by simp
  ultimately show ?thesis using col hb small by (simp add: p(4) used_def)
qed

text \<open>The truth table of a formula: line \<open>t\<close> gives the booleans the bits of \<open>t\<close>, in the order of \<open>bool_ids\<close>.\<close>

definition line_state :: "u32 list \<Rightarrow> nat \<Rightarrow> u32 \<Rightarrow> bool" where
  "line_state ids t b \<longleftrightarrow> (\<exists>j<length ids. ids ! j = b \<and> bit t j)"

lemma expr_bools_rpn: "expr_bools (rpn f) = bvars f"
proof -
  have a: "expr_bools (es @ es') = expr_bools es \<union> expr_bools es'" for es es' by (auto simp: expr_bools_def)
  have c: "expr_bools [cop t] = {}" if "t \<noteq> COND_BOOL" for t using that by (simp add: expr_bools_def cop_def)
  have n: "COND_NOT \<noteq> COND_BOOL" "COND_OR \<noteq> COND_BOOL" "COND_AND \<noteq> COND_BOOL" "COND_XOR \<noteq> COND_BOOL" "COND_EQ \<noteq> COND_BOOL"
    "COND_NEQ \<noteq> COND_BOOL" by (simp_all add: cond_ops)
  show ?thesis by (induction f) (simp_all add: a c n, simp add: expr_bools_def)
qed

lemma line_of_formula:
  assumes "\<forall>b\<in>set ids. has_bool bools b" and "distinct ids" and "bvars f = set ids" and "depth f \<le> COND_EXPR_MAXDEPTH"
  shows "line_value bools ids (rpn f) t = Inr (of_bool (bval (line_state ids t) f))"
proof -
  have "\<forall>b\<in>bvars f. bool_state (assign ids t bools) b = Inr (of_bool (line_state ids t b))"
  proof
    fix b assume "b \<in> bvars f"
    then have b: "b \<in> set ids" "has_bool bools b" using assms(1,3) by auto
    show "bool_state (assign ids t bools) b = Inr (of_bool (line_state ids t b))"
      using assign_state(1) [OF assms(1,2) b(2), of t] b(1) by (auto simp: line_state_def)
  qed
  from eval_rpn [OF this, of "[]" "[]"] assms(4) show ?thesis by (simp add: line_value_def cond_evaluate_expr_def)
qed

text \<open>A formula sees only its own booleans, and each of their assignments is one of the lines.\<close>

lemma bval_cong: "\<forall>b\<in>bvars f. \<sigma> b = \<tau> b \<Longrightarrow> bval \<sigma> f = bval \<tau> f"
  by (induction f) auto

lemma line_of_assignment:
  assumes "distinct ids"
  obtains t where "t < 2 ^ length ids" and "\<forall>b\<in>set ids. line_state ids t b = \<sigma> b"
proof -
  let ?t = "take_bit (length ids) (horner_sum of_bool 2 (map \<sigma> ids) :: nat)"
  have b: "bit ?t j \<longleftrightarrow> \<sigma> (ids ! j)" if "j < length ids" for j
    using that by (simp add: bit_take_bit_iff bit_horner_sum_bit_iff)
  have "line_state ids ?t (ids ! i) \<longleftrightarrow> bit ?t i" if "i < length ids" for i
    using assms that by (auto simp: line_state_def nth_eq_iff_index_eq)
  then have "\<forall>b\<in>set ids. line_state ids ?t b = \<sigma> b" using b by (auto simp: in_set_conv_nth)
  then show thesis using that [of ?t] by simp
qed

definition used_bools :: "cond_node \<Rightarrow> u32 list" where
  "used_bools cn = take (unat (nbools cn)) (bool_ids cn)"

definition normal_form :: "cond_bool_datum val_index \<Rightarrow> cond_node \<Rightarrow> bform \<Rightarrow> bool" where
  "normal_form bools cn' f \<longleftrightarrow> (\<exists>cn bools'. cond_normalize_expr bools cn = Inr (bools', cn', 0) \<and> length (cexpr cn) < 2147483648) \<and>
     unat (nbools cn') \<le> COND_MAX_BOOLS \<and> cexpr cn' = rpn f \<and> depth f \<le> COND_EXPR_MAXDEPTH"

lemma normal_form_table:
  assumes "normal_form bools cn f"
  shows "distinct (used_bools cn)" and "set (used_bools cn) = bvars f" and "length (used_bools cn) = unat (nbools cn)"
    and "bit (expr_pre_comp cn) t \<longleftrightarrow> t < 2 ^ unat (nbools cn) \<and> bval (line_state (used_bools cn) t) f"
proof -
  obtain cn0 bools' where n: "cond_normalize_expr bools cn0 = Inr (bools', cn, 0)" "length (cexpr cn0) < 2147483648"
    and f: "unat (nbools cn) \<le> COND_MAX_BOOLS" "cexpr cn = rpn f" "depth f \<le> COND_EXPR_MAXDEPTH"
    using assms by (auto simp: normal_form_def)
  note N = normalized [OF n(1) f(1) n(2)]
  show u: "distinct (used_bools cn)" "set (used_bools cn) = bvars f" "length (used_bools cn) = unat (nbools cn)"
    using N by (auto simp: used_bools_def f(2) expr_bools_rpn)
  have "line_value bools (used_bools cn) (rpn f) t = Inr (of_bool (bval (line_state (used_bools cn) t) f))"
    using N u f(2,3) by (intro line_of_formula) (auto simp: expr_bools_rpn)
  then show "bit (expr_pre_comp cn) t \<longleftrightarrow> t < 2 ^ unat (nbools cn) \<and> bval (line_state (used_bools cn) t) f"
    using N f(2) unfolding used_bools_def [symmetric] by auto
qed

text \<open>Comparing normal forms compares the sets of booleans and the tables, line by line.\<close>

lemma equal_by_place:
  assumes a: "normal_form bools a f" and b: "normal_form bools b g"
  shows "cond_expr_equal (Some a) (Some b) \<longleftrightarrow> bvars f = bvars g \<and>
    (\<forall>t < 2 ^ card (bvars f). bval (line_state (used_bools a) t) f = bval (line_state (used_bools b) t) g)"
proof -
  note A = normal_form_table [OF a] and B = normal_form_table [OF b]
  have ca: "unat (nbools a) = card (bvars f)" using A(1-3) by (metis distinct_card)
  have cb: "unat (nbools b) = card (bvars g)" using B(1-3) by (metis distinct_card)
  have m: "unat (nbools a) \<le> COND_MAX_BOOLS" "unat (nbools b) \<le> COND_MAX_BOOLS" using a b by (auto simp: normal_form_def)
  have fin: "finite (bvars f)" "finite (bvars g)" using A(2) B(2) by (metis finite_set)+
  have sb: "nbools a = nbools b \<and> same_bools a b \<longleftrightarrow> bvars f = bvars g"
  proof
    assume s: "nbools a = nbools b \<and> same_bools a b"
    then have "bvars f \<subseteq> bvars g"
      using m unfolding A(2) [symmetric] B(2) [symmetric] by (auto simp: same_bools_def bool_present_def used_bools_def)
    then show "bvars f = bvars g" using s ca cb fin by (metis card_subset_eq)
  next
    assume s: "bvars f = bvars g"
    then have n: "nbools a = nbools b" using ca cb by (simp add: word_unat_eq_iff)
    have "set (used_bools a) \<subseteq> set (used_bools b)" using s A(2) B(2) by simp
    then show "nbools a = nbools b \<and> same_bools a b"
      using n m by (auto simp: same_bools_def bool_present_def used_bools_def)
  qed
  have "expr_pre_comp a = expr_pre_comp b \<longleftrightarrow>
      (\<forall>t < 2 ^ card (bvars f). bval (line_state (used_bools a) t) f = bval (line_state (used_bools b) t) g)"
    if "bvars f = bvars g"
  proof -
    have "expr_pre_comp a = expr_pre_comp b \<longleftrightarrow> (\<forall>t. bit (expr_pre_comp a) t = bit (expr_pre_comp b) t)"
      by (auto intro: bit_eqI)
    then show ?thesis using that unfolding A(4) B(4) ca cb by auto
  qed
  then show ?thesis using sb m by (auto simp: cond_expr_equal_def)
qed

end
