(* ===== verification/Rule_File_Properties.thy ===== *)
theory Rule_File_Properties
  imports Sepol_Avtab_File
begin

text \<open>
  The properties of rules in policy files: they survive being written and read, no file of
  the new format makes the reader run outside its memory, and one of the old format does.
\<close>

section \<open>Round trip\<close>

text \<open>
  C23: rules survive their file. The table is well-formed, not empty, counts its rules, and
  of its rules only those of extended permissions may have the same source, target, class and
  kind as another; the format is that of version 20 on, without the compatibility flag of
  Android M, and can hold each rule of this policy for SELinux. Then the two
  passes of writing agree on the length, and what they write is read back, from a file that
  may go on, into a well-formed table with the same count in which every search finds the same
  rules. Searching one kind finds them in the opposite order, so that of several rules of
  extended permissions another comes first and a rule that is alone is found as before; where
  no two rules of the source, target and class are of one kind every search finds the rules in
  the order in which it found them before.
\<close>

theorem rules_survive_file:
  assumes "av_ok t" and "\<not> policyvers p < POLICYDB_VERSION_AVTAB" and "list_all (can_hold p) (rules_of t)"
    and "plain_rules_distinct (rules_of t)" and "rules_of t \<noteq> []" and "unat (avnel t) = length (rules_of t)"
  shows "\<exists>out t'. avtab_write expand p False t (PF_LEN 0) = Inr (PF_LEN (length out), 0) \<and>
    avtab_write expand p False t (PF_USE_MEMORY (length out) []) = Inr (PF_USE_MEMORY 0 out, 0) \<and>
    avtab_read U (policyvers p) False (out @ r) a = Inr (t', False, r, 0) \<and>
    av_ok t' \<and> avnel t' = avnel t \<and>
    (\<forall>k. mset (av_hits t' k) = mset (av_hits t k)) \<and>
    (\<forall>k. one_kind k \<longrightarrow> av_hits t' k = rev (av_hits t k)) \<and>
    (\<forall>k. distinct_rules (filter (\<lambda>n. av_same k (fst n)) (rules_of t)) \<longrightarrow> av_hits t' k = av_hits t k)"
proof -
  have o: "\<not> old_version p" using assms(2) by (simp add: old_version_def)
  have r: "list_all (rule_ok (policyvers p)) (rules_of t)" using assms(3) by (simp add: list_all_iff can_hold_def)
  show ?thesis
    using avtab_write_len [OF assms(1) o assms(3), of expand 0] avtab_write_memory [OF assms(1) o assms(3) order_refl, of expand "[]"]
      avtab_read_table [OF assms(1) r assms(2,4-6), of U a] unfolding read_back_def
    by (intro exI [of _ "table_bytes t"]) auto
qed

text \<open>A plain rule and two rules of extended permissions with one key.\<close>

definition io_rule :: "u8 \<Rightarrow> avtab_node" where
  "io_rule d = (\<lparr>source_type = 3, target_type = 4, target_class = 5, specified = 0x100\<rparr>,
     \<lparr>av_data = 0, xperms = Some \<lparr>xspecified = 1, driver = d, perms = [1, 2, 3, 4, 5, 6, 7, 8]\<rparr>\<rparr>)"

definition three_rules :: "avtab_node list" where
  "three_rules = [(\<lparr>source_type = 3, target_type = 4, target_class = 5, specified = 1\<rparr>, \<lparr>av_data = 9, xperms = None\<rparr>),
     io_rule 7, io_rule 8]"

definition one_slot_rules :: avtab where
  "one_slot_rules = \<lparr>avslots = Some [three_rules], avnel = 3, nslot = 1, avmask = 0\<rparr>"

definition kernel_policy :: policydb where
  "kernel_policy = \<lparr>policy_type = POLICY_KERN, target_platform = SEPOL_TARGET_SELINUX, policyvers = 30,
     p_classes = \<lparr>table = None, nprim = 0\<rparr>, p_types = \<lparr>table = None, nprim = 0\<rparr>, type_store = [],
     types_scope = \<lparr>table = None, nprim = 0\<rparr>, scope_store = [], p_roles = [], roles_nprim = 0, declared_types = ebitmap_init,
     te_avtab = one_slot_rules, type_attr_map = [], attr_type_map = [], permissive_map = ebitmap_init\<rparr>"

lemma one_slot_rules_ok: "av_ok one_slot_rules"
  by (auto simp: av_ok_def one_slot_rules_def three_rules_def io_rule_def av_triple_def avtab_hash_def to_int32_def)

lemma rules_of_slot: "rules_of one_slot_rules = three_rules"
  by (simp add: rules_of_def one_slot_rules_def)

lemma three_rules_plain: "plain_rules_distinct three_rules"
  by (simp add: plain_rules_distinct_def three_rules_def io_rule_def av_hit_def av_spec_def is_xrule_def
      AVTAB_ENABLED_def AVTAB_ENABLED_OLD_def AVTAB_XPERMS_def)

lemma three_rules_ok: "n \<in> set three_rules \<Longrightarrow> rule_ok 30 n"
  by (auto simp: three_rules_def io_rule_def rule_ok_def is_xrule_def spec_order_def AVTAB_XPERMS_def AVTAB_OPTYPE_def
      POLICYDB_VERSION_XPERMS_IOCTL_def AVTAB_XPERMS_IOCTLFUNCTION_def)

lemma io_rule_kind: "one_kind (fst (io_rule d))"
  by (simp add: one_kind_def io_rule_def av_spec_def AVTAB_ENABLED_def AVTAB_ENABLED_OLD_def) (rule exI [of _ 8], simp)

lemma io_rules_found: "av_hits one_slot_rules (fst (io_rule d)) = [io_rule 7, io_rule 8]"
  by (simp add: av_hits_rules av_rules_all [OF one_slot_rules_ok] rules_of_slot)
    (simp add: three_rules_def io_rule_def av_hit_def av_same_def av_spec_def AVTAB_ENABLED_def AVTAB_ENABLED_OLD_def)

theorem rules_survive_file_witness:
  "\<exists>out t'. avtab_write (\<lambda>_. Some) kernel_policy False one_slot_rules (PF_USE_MEMORY (length out) []) = Inr (PF_USE_MEMORY 0 out, 0) \<and>
    avtab_read (replicate 8 0) 30 False (out @ [1, 2]) one_slot_rules = Inr (t', False, [1, 2], 0) \<and> av_ok t' \<and> avnel t' = 3 \<and>
    av_hits t' (fst (io_rule 7)) = [io_rule 8, io_rule 7]"
proof -
  have "list_all (can_hold kernel_policy) (rules_of one_slot_rules)"
    using three_rules_ok by (simp add: rules_of_slot list_all_iff can_hold_def) (simp add: kernel_policy_def)
  moreover have "plain_rules_distinct (rules_of one_slot_rules)" by (simp add: rules_of_slot three_rules_plain)
  moreover have "rules_of one_slot_rules \<noteq> []" "unat (avnel one_slot_rules) = length (rules_of one_slot_rules)"
    by (simp_all add: rules_of_slot) (simp_all add: three_rules_def one_slot_rules_def)
  moreover have "\<not> policyvers kernel_policy < POLICYDB_VERSION_AVTAB" by (simp add: kernel_policy_def POLICYDB_VERSION_AVTAB_def)
  ultimately obtain out t' where
    "avtab_write (\<lambda>_. Some) kernel_policy False one_slot_rules (PF_USE_MEMORY (length out) []) = Inr (PF_USE_MEMORY 0 out, 0)"
    "avtab_read (replicate 8 0) (policyvers kernel_policy) False (out @ [1, 2]) one_slot_rules = Inr (t', False, [1, 2], 0)"
    "av_ok t'" "avnel t' = avnel one_slot_rules" "\<forall>k. one_kind k \<longrightarrow> av_hits t' k = rev (av_hits one_slot_rules k)"
    using rules_survive_file [OF one_slot_rules_ok, of kernel_policy "\<lambda>_. Some" "replicate 8 0" "[1, 2]" one_slot_rules] by blast
  moreover from this have "av_hits t' (fst (io_rule 7)) = [io_rule 8, io_rule 7]" using io_rule_kind io_rules_found by simp
  moreover have "policyvers kernel_policy = 30" "avnel one_slot_rules = 3" by (simp_all add: kernel_policy_def one_slot_rules_def)
  ultimately show ?thesis by metis
qed

section \<open>Any file\<close>

definition ends_ok :: "(avtab \<times> bool \<times> bytes \<times> int) res \<Rightarrow> bool" where
  "ends_ok R \<longleftrightarrow> (\<exists>t mc fp rc. R = Inr (t, mc, fp, rc) \<and> av_ok t)"

lemma ends_ok_Inr [simp]: "ends_ok (Inr (t, x)) \<longleftrightarrow> av_ok t"
  by (cases x) (simp add: ends_ok_def)

lemma ends_ok_insert: "av_ok t \<Longrightarrow> ends_ok (res_bind (avtab_insertf t k d) (\<lambda>(s, rc). Inr (s, mc, fp, rc)))"
  using avtab_insert_correct [of t k d] by (auto simp: avtab_insertf_def split: option.splits if_splits)

lemma read_item_total:
  assumes "\<not> vers < POLICYDB_VERSION_AVTAB" and "av_ok t"
  shows "ends_ok (avtab_read_item U vers avtab_insertf mc fp t)"
  unfolding avtab_read_item_def Let_def
  using assms ends_ok_insert by (auto split: option.split prod.split)

text \<open>The kinds that a word of specifiers names.\<close>

definition old_kinds :: "u32 \<Rightarrow> u16 list \<Rightarrow> u16 list" where
  "old_kinds val os = filter (\<lambda>o1. val AND ucast o1 \<noteq> 0) os"

definition past_buffer :: "u32 \<Rightarrow> u16 list \<Rightarrow> nat \<Rightarrow> (avtab \<times> 'b) res \<Rightarrow> bool" where
  "past_buffer val os room R \<longleftrightarrow> R = Inl Oob_Read \<and> room < length (old_kinds val os)"

definition ok_or_past :: "u32 \<Rightarrow> u16 list \<Rightarrow> nat \<Rightarrow> (avtab \<times> 'b) res \<Rightarrow> bool" where
  "ok_or_past val os room R \<longleftrightarrow> past_buffer val os room R \<or> (\<exists>t x. R = Inr (t, x) \<and> av_ok t)"

lemma ok_or_past_Inr [simp]: "ok_or_past val os room (Inr (t, x)) \<longleftrightarrow> av_ok t"
  by (simp add: ok_or_past_def past_buffer_def)

lemma ok_or_past_if: "ok_or_past val os room X \<Longrightarrow> ok_or_past val os room Y \<Longrightarrow> ok_or_past val os room (if b then X else Y)"
  by simp

lemma ok_or_past_bind:
  "ok_or_past val os room R \<Longrightarrow> (\<And>t x. av_ok t \<Longrightarrow> ok_or_past val os room (f (t, x))) \<Longrightarrow> ok_or_past val os room (res_bind R f)"
  unfolding ok_or_past_def [of _ _ _ R] by (auto simp: past_buffer_def) (simp add: ok_or_past_def past_buffer_def)

lemma old_rules_total:
  assumes "av_ok t" and "items \<le> length buf"
  shows "ok_or_past val os (length buf - items) (old_rules avtab_insertf key en val buf os items t)"
  using assms
proof (induction os arbitrary: items t)
  case (Cons o1 os)
  show ?case
  proof (cases "val AND ucast o1 \<noteq> 0")
    case False
    then show ?thesis using Cons.IH [OF Cons.prems] by (simp add: ok_or_past_def past_buffer_def old_kinds_def)
  next
    case named: True
    show ?thesis
    proof (cases "items < length buf")
      case False
      then show ?thesis using named Cons.prems(2) by (simp add: ok_or_past_def past_buffer_def old_kinds_def)
    next
      case True
      let ?k = "key\<lparr>specified := o1 OR en\<rparr>" and ?d = "\<lparr>av_data = buf ! items, xperms = None\<rparr>"
      obtain t1 rc where t1: "avtab_insertf t ?k ?d = Inr (t1, rc)" "av_ok t1"
        using avtab_insert_correct [OF Cons.prems(1), of ?k ?d] Cons.prems(1)
        by (auto simp: avtab_insertf_def split: option.splits if_splits)
      then show ?thesis using named True Cons.IH [OF t1(2), of "items + 1"]
        by (auto simp: ok_or_past_def past_buffer_def old_kinds_def)
    qed
  qed
qed simp

lemma read_old_total:
  assumes "length U = 8" and "av_ok t"
  shows "ok_or_past (rd_le32 (take 4 (drop 16 fp))) spec_order 4 (avtab_read_old U avtab_insertf fp t)"
proof (cases "next_entry 4 fp")
  case None
  then show ?thesis using assms(2) by (simp add: avtab_read_old_def)
next
  case (Some bf)
  obtain b fp1 where b: "bf = (b, fp1)" "fp1 = drop 4 fp" using Some by (auto simp: next_entry_def split: if_splits)
  let ?i2 = "unat (rd_le32 b)"
  show ?thesis
  proof (cases "?i2 < 5 \<or> ?i2 > 8 \<or> next_entry (4 * ?i2) fp1 = None")
    case True
    then show ?thesis using Some b(1) assms(2) by (auto simp: avtab_read_old_def Let_def)
  next
    case False
    then obtain c fp2 where c: "next_entry (4 * ?i2) fp1 = Some (c, fp2)" by auto
    then have c': "c = take (4 * ?i2) fp1" "length c = 4 * ?i2" by (auto simp: next_entry_def split: if_splits)
    let ?buf = "words32 c @ drop ?i2 (U[0 := rd_le32 b])"
    have l: "length ?buf = 8" using assms(1) False c'(2) by (simp add: words32_def)
    have "?buf ! 3 = rd_le32 (take 4 (drop 12 c))" using False c'(2) by (simp add: words32_def nth_append)
    moreover have "min 4 (4 * ?i2 - 12) = 4" using False by linarith
    then have "take 4 (drop 12 c) = take 4 (drop 16 fp)" by (simp add: c'(1) b(2) drop_take)
    ultimately have v: "?buf ! 3 = rd_le32 (take 4 (drop 16 fp))" by simp
    note T = old_rules_total [OF assms(2), of 4 ?buf, unfolded l]
    show ?thesis
      using Some b(1) False c
      apply (simp only: avtab_read_old_def Let_def option.case prod.case simp_thms if_False)
      apply (intro ok_or_past_if ok_or_past_bind)
      using assms(2) T v by (auto intro: ok_or_past_if split: prod.split)
  qed
qed

lemma read_item_ends:
  assumes "length U = 8" and "av_ok t"
  shows "vers < POLICYDB_VERSION_AVTAB \<and>
      past_buffer (rd_le32 (take 4 (drop 16 fp))) spec_order 4 (avtab_read_item U vers avtab_insertf mc fp t) \<or>
    ends_ok (avtab_read_item U vers avtab_insertf mc fp t)"
proof (cases "vers < POLICYDB_VERSION_AVTAB")
  case True
  then show ?thesis using read_old_total [OF assms, of fp] by (auto simp: avtab_read_item_def ok_or_past_def past_buffer_def)
qed (use read_item_total assms(2) in blast)

lemma read_items_ends:
  assumes "length U = 8"
  shows "av_ok t \<Longrightarrow> vers < POLICYDB_VERSION_AVTAB \<and> read_items (avtab_read_item U vers avtab_insertf) n mc fp t = Inl Oob_Read \<or>
    ends_ok (read_items (avtab_read_item U vers avtab_insertf) n mc fp t)"
proof (induction n arbitrary: mc fp t)
  case (Suc n)
  consider "vers < POLICYDB_VERSION_AVTAB" "avtab_read_item U vers avtab_insertf mc fp t = Inl Oob_Read"
    | t1 mc1 fp1 rc where "avtab_read_item U vers avtab_insertf mc fp t = Inr (t1, mc1, fp1, rc)" "av_ok t1"
    using read_item_ends [OF assms Suc.prems, of vers fp mc] by (auto simp: ends_ok_def past_buffer_def)
  then show ?case using Suc.IH by cases simp_all
qed simp

text \<open>
  C24: reading rules from any bytes, whatever the version, the state of the compatibility flag
  and the contents of the local array of eight words. From version 20 on it never faults: it
  ends with 0 and a well-formed table, or with -1 and no table. Before version 20 the one
  other outcome is a read behind that array, and an entry has it only when the word of its
  specifiers, at byte 16 of the entry, names more than four kinds of rules.
\<close>

theorem rule_file_faults:
  assumes "length U = 8"
  shows "((\<exists>t mc' fp' rc. avtab_read U vers mc fp a = Inr (t, mc', fp', rc) \<and> (rc = 0 \<and> av_ok t \<or> rc = - 1 \<and> avslots t = None)) \<or>
      vers < POLICYDB_VERSION_AVTAB \<and> avtab_read U vers mc fp a = Inl Oob_Read) \<and>
    (av_ok t \<and> avtab_read_item U vers avtab_insertf mc entry t = Inl e \<longrightarrow>
      vers < POLICYDB_VERSION_AVTAB \<and> e = Oob_Read \<and> 4 < length (old_kinds (rd_le32 (take 4 (drop 16 entry))) spec_order))"
proof (rule conjI)
  show "av_ok t \<and> avtab_read_item U vers avtab_insertf mc entry t = Inl e \<longrightarrow>
      vers < POLICYDB_VERSION_AVTAB \<and> e = Oob_Read \<and> 4 < length (old_kinds (rd_le32 (take 4 (drop 16 entry))) spec_order)"
    using read_item_ends [OF assms, of t vers entry mc] by (auto simp: past_buffer_def ends_ok_def)
  have d: "avslots (avtab_destroy t) = None" for t by (simp add: avtab_destroy_def)
  show "(\<exists>t mc' fp' rc. avtab_read U vers mc fp a = Inr (t, mc', fp', rc) \<and> (rc = 0 \<and> av_ok t \<or> rc = - 1 \<and> avslots t = None)) \<or>
      vers < POLICYDB_VERSION_AVTAB \<and> avtab_read U vers mc fp a = Inl Oob_Read"
  proof (cases "\<exists>b r. next_entry 4 fp = Some (b, r) \<and> rd_le32 b \<noteq> 0")
    case False
    then show ?thesis using d by (cases "next_entry 4 fp") (auto simp: avtab_read_def)
  next
    case True
    then obtain b r where br: "next_entry 4 fp = Some (b, r)" "rd_le32 b \<noteq> 0" by blast
    obtain t0 where t0: "avtab_alloc a (rd_le32 b) = (t0, 0)" "av_ok t0"
      using avtab_alloc_correct [OF br(2), of a] by blast
    let ?R = "read_items (avtab_read_item U vers avtab_insertf) (unat (rd_le32 b)) mc r t0"
    have e: "avtab_read U vers mc fp a = res_bind ?R (\<lambda>(a, mcompat, fp, rc).
        if rc \<noteq> 0 then Inr (avtab_destroy a, mcompat, fp, - 1) else Inr (a, mcompat, fp, 0))"
      using br t0(1) by (simp add: avtab_read_def)
    consider "vers < POLICYDB_VERSION_AVTAB" "?R = Inl Oob_Read"
      | t1 mc1 fp1 rc where "?R = Inr (t1, mc1, fp1, rc)" "av_ok t1"
      using read_items_ends [OF assms t0(2), of vers "unat (rd_le32 b)" mc r] by (auto simp: ends_ok_def)
    then show ?thesis using d by cases (auto simp: e)
  qed
qed

theorem rule_file_faults_witness:
  "(\<exists>t mc' fp' rc. avtab_read (replicate 8 0) 30 True [2, 0, 0, 0, 1] one_slot_rules = Inr (t, mc', fp', rc) \<and>
      (rc = 0 \<and> av_ok t \<or> rc = - 1 \<and> avslots t = None)) \<and>
   avtab_read_item (replicate 8 0) 15 avtab_insertf True (le32 5 @ le32 1 @ le32 1 @ le32 1 @ le32 7) one_slot_rules \<noteq> Inl Oob_Read"
proof (rule conjI)
  show "\<exists>t mc' fp' rc. avtab_read (replicate 8 0) 30 True [2, 0, 0, 0, 1] one_slot_rules = Inr (t, mc', fp', rc) \<and>
      (rc = 0 \<and> av_ok t \<or> rc = - 1 \<and> avslots t = None)"
    using rule_file_faults [of "replicate 8 0" 30 True "[2, 0, 0, 0, 1]" one_slot_rules] by (simp add: POLICYDB_VERSION_AVTAB_def)
  have "length (old_kinds 7 spec_order) = 3" by (simp add: old_kinds_def spec_order_def)
  moreover have "rd_le32 (take 4 (drop 16 (le32 5 @ le32 1 @ le32 1 @ le32 1 @ le32 7))) = 7" by simp
  ultimately show "avtab_read_item (replicate 8 0) 15 avtab_insertf True (le32 5 @ le32 1 @ le32 1 @ le32 1 @ le32 7) one_slot_rules \<noteq> Inl Oob_Read"
    using rule_file_faults [of "replicate 8 0" 15 True "[]" one_slot_rules one_slot_rules
        "le32 5 @ le32 1 @ le32 1 @ le32 1 @ le32 7" Oob_Read] one_slot_rules_ok by auto
qed

lemma old_rules_step:
  assumes "\<forall>s k d. \<exists>s'. f s k d = Inr (s', 0)"
  shows "old_rules f key en val buf (o1 # os) items s =
    (if val AND ucast o1 \<noteq> 0 then if items \<ge> length buf then Inl Oob_Read
       else old_rules f key en val buf os (items + 1) (fst (projr (f s (key\<lparr>specified := o1 OR en\<rparr>) \<lparr>av_data = buf ! items, xperms = None\<rparr>)))
     else old_rules f key en val buf os items s)"
proof -
  obtain s' where "f s (key\<lparr>specified := o1 OR en\<rparr>) \<lparr>av_data = buf ! items, xperms = None\<rparr> = Inr (s', 0)" using assms by blast
  then show ?thesis by simp
qed

text \<open>
  in the old format an entry of eight items whose specifiers are the three access
  vectors and the three extended ones has six rules: the fifth is read behind the array.
\<close>

theorem old_entry_reads_past_buffer:
  assumes "\<forall>s k d. \<exists>s'. f s k d = Inr (s', 0)" and "vers < POLICYDB_VERSION_AVTAB"
    and "src < 65536" and "tgt < 65536" and "cls < 65536" and "length ws = 4" and "length U = 8"
  shows "avtab_read_item U vers f mc (le32 8 @ concat (map le32 ([src, tgt, cls, 0x707] @ ws)) @ r) s = Inl Oob_Read"
proof -
  have w: "length (concat (map le32 ([src, tgt, cls, 0x707] @ ws))) = 32"
    using assms(6) by (simp add: length_concat comp_def sum_list_triv)
  have u: "ucast (ucast x :: u16) = x" if "x < 65536" for x :: u32
  proof -
    have "unat x < 65536" using that by (simp add: word_less_nat_alt)
    then have "unat (take_bit 16 x) = unat x"
      unfolding unsigned_take_bit_eq by (intro take_bit_nat_eq_self) simp
    then have "take_bit 16 x = x" by (simp only: word_unat_eq_iff)
    moreover have "ucast (ucast x :: u16) = take_bit 16 x" by (rule bit_word_eqI) (auto simp: bit_simps)
    ultimately show ?thesis by simp
  qed
  have "old_rules f key en 0x707 ([src, tgt, cls, 0x707] @ ws) spec_order 4 s = Inl Oob_Read" for key en
    using assms(6) by (simp add: spec_order_def old_rules_step [OF assms(1)] del: old_rules.simps)
  then have "avtab_read_old U f (le32 8 @ concat (map le32 ([src, tgt, cls, 0x707] @ ws)) @ r) s = Inl Oob_Read"
    using next_entry_app [of "le32 8" 4] next_entry_app [OF w] u assms(3-7) words32_concat [of "[src, tgt, cls, 0x707] @ ws"]
    by (simp add: avtab_read_old_def AVTAB_AV_def AVTAB_TYPE_def AVTAB_ENABLED_OLD_def)
  then show ?thesis using assms(2) by (simp add: avtab_read_item_def)
qed

theorem old_entry_reads_past_buffer_witness:
  "avtab_read_item (replicate 8 0) 15 (\<lambda>s k d. Inr ((k, d) # s, 0)) False
    (le32 8 @ concat (map le32 ([1, 2, 3, 0x707] @ [4, 5, 6, 7])) @ []) [] = Inl Oob_Read"
  by (rule old_entry_reads_past_buffer) (simp_all add: POLICYDB_VERSION_AVTAB_def)

end
