(* ===== verification/Symbol_File_Properties.thy ===== *)
theory Symbol_File_Properties
  imports Sepol_Symtab_Correct
begin

text \<open>
  Properties of the symbols in a policy file: the tables of a kernel policy survive being
  written and read, and what happens to the categories of a user in a module.
\<close>

section \<open>The tables survive\<close>

definition demo_name :: "u8 \<Rightarrow> bytes" where "demo_name c = [c, 95, 116]"

definition demo_kern :: pf_version where "demo_kern = \<lparr>pv_type = POLICY_KERN, pv_vers = 30\<rparr>"

definition demo_tables :: pf_symtabs where
  "demo_tables =
     \<lparr>pf_commons = one_symtab 2 (demo_name 99) \<lparr>com_value = 1, com_permissions = one_symtab 32 (demo_name 112) \<lparr>perm_value = 1\<rparr>\<rparr>,
      pf_classes = new_symtab 32, pf_roles = one_symtab 16 OBJECT_R object_r,
      pf_types = one_symtab 512 (demo_name 97)
        \<lparr>type_value = 1, primary = 1, flavor = 0, type_types = ebitmap_init, type_flags = 0, type_bounds = 0\<rparr>,
      pf_users = new_symtab 128,
      pf_bools = one_symtab 16 (demo_name 98) \<lparr>bo_value = 1, bo_state = 1, bo_flags = 0\<rparr>,
      pf_levels = new_symtab 16, pf_cats = new_symtab 16\<rparr>"

lemma stored_perms: "perm.symtab_stored PERM_SYMTAB_SIZE s \<Longrightarrow> perms_ok s"
  by (auto simp: perm.symtab_stored_def perms_ok_def)

lemma demo_tables_ok: "symtabs_ok demo_kern demo_tables"
proof -
  have n: "name_ok (demo_name c)" if "c \<noteq> 0" for c using that by (simp add: demo_name_def name_ok_def sym_ok_def)
  have o: "name_ok OBJECT_R" using object_r_ok by (simp add: name_ok_def OBJECT_R_def)
  have k: "kern demo_kern" "policydb_has_boundary_feature demo_kern"
    by (simp_all add: kern_def demo_kern_def policydb_has_boundary_feature_def kern_from_def)
  have ei: "ebitmap_ok ebitmap_init" by (rule ebm.inv_empty)
  have role: "role_ok demo_kern OBJECT_R object_r"
    using k o ei by (simp add: role_ok_def object_r_def role_init_def type_set_init_def bounded_def)
  have perms: "perms_ok (one_symtab 32 (demo_name 112) \<lparr>perm_value = 1\<rparr>)"
    using perm.one_stored(1) [of "demo_name 112" "\<lparr>perm_value = 1\<rparr>" 32] n
    by (intro stored_perms) (simp add: PERM_SYMTAB_SIZE_def perm_ok_def)
  have bl: "bool_isvalid \<lparr>bo_value = 1, bo_state = 1, bo_flags = 0\<rparr>" by (simp add: bool_isvalid_def)
  show ?thesis
    unfolding symtabs_ok_def demo_tables_def pf_symtabs.simps
    by (intro conjI common.one_stored role.one_stored stype.one_stored boolean.one_stored common.empty_stored
        clss.empty_stored user.empty_stored sens.empty_stored cat.empty_stored)
      (use role perms bl n k in \<open>simp_all add: common_ok_def type_ok_def bool_ok_def role.one_stored(2)\<close>)
qed

text \<open>
  The symbol tables of a kernel policy - commons, classes with their constraints, roles,
  types, users, booleans, sensitivities and categories - survive the policy file: what
  \<open>policydb_write\<close> puts into a large enough buffer for them, \<open>policydb_read\<close> reads into
  the tables of a new policy as the same tables, slot by slot and chain by chain.
\<close>

theorem symbol_tables_survive:
  assumes "symtabs_ok v s" and "length (symtabs_enc v s) \<le> room"
  shows "\<exists>s0 d. init_symtabs = Inr (Some s0) \<and>
    write_symtabs v SYM_NUM s (PF_USE_MEMORY room []) = Inr (Some (PF_USE_MEMORY (room - length d) d)) \<and>
    read_symtabs v SYM_NUM s0 (d @ rest) = Inr (Some (s, rest))"
proof -
  obtain s0 where "init_symtabs = Inr (Some s0)" "accepts (read_symtabs v SYM_NUM s0) (symtabs_enc v s) s"
    by (rule symtabs_read [OF assms(1)])
  moreover have "write_symtabs v SYM_NUM s (PF_USE_MEMORY room []) =
      Inr (Some (PF_USE_MEMORY (room - length (symtabs_enc v s)) (symtabs_enc v s)))"
    using symtabs_written [OF assms(1)] assms(2) by (simp add: emits_def put_entry_memory)
  ultimately show ?thesis unfolding accepts_def by blast
qed

theorem symbol_tables_survive_witness:
  "\<exists>s0 d. init_symtabs = Inr (Some s0) \<and>
    write_symtabs demo_kern SYM_NUM demo_tables (PF_USE_MEMORY (length (symtabs_enc demo_kern demo_tables)) []) =
      Inr (Some (PF_USE_MEMORY (length (symtabs_enc demo_kern demo_tables) - length d) d)) \<and>
    read_symtabs demo_kern SYM_NUM s0 (d @ [7]) = Inr (Some (demo_tables, [7]))"
  by (rule symbol_tables_survive [OF demo_tables_ok order_refl])

end
