(* ===== verification/Policy_File_Properties.thy ===== *)
theory Policy_File_Properties
  imports Sepol_Policy_Correct Sepol_Index_Correct Sepol_Cond_Eval Rule_File_Properties Symbol_File_Properties
begin

text \<open>
  Properties of whole policies: their images survive, the arrays built for them are the
  inverses of their tables, sets of types and conditional expressions mean what they should, and
  what goes wrong with duplicate rules and with the comparison of conditions.
\<close>

section \<open>A small policy\<close>

lemma single_map:
  assumes "distinct (map fst xs)" and "map_of xs = [k \<mapsto> d]"
  shows "xs = [(k, d)]"
proof -
  have s: "(a, b) \<in> set xs \<longleftrightarrow> (a, b) = (k, d)" for a b
    using map_of_eq_Some_iff [OF assms(1), of a b] assms(2) by (auto split: if_splits)
  then have e: "set xs = {(k, d)}" by auto
  have "distinct xs" using assms(1) by (simp add: distinct_map)
  then have "length xs = 1" using distinct_card [of xs] e by simp
  then show ?thesis using e by (cases xs) auto
qed

lemma one_mapped:
  assumes "table s = Some t" and "sym.table_ok t" and "sym.contents t = [k \<mapsto> d]"
  shows "hashtab_map (table s) f x = (case f k d x of (y, rc) \<Rightarrow> (y, rc))"
proof -
  have "nodes t = [(k, d)]"
    using single_map [OF sym.nodes_distinct [OF assms(2)]] sym.contents_nodes [OF assms(2)] assms(3) by simp
  then show ?thesis
    by (auto simp: assms(1) hashtab_map_nodes nodes_def [symmetric] SEPOL_OK_def Let_def split: prod.split)
qed

lemma none_mapped: "hashtab_map (table (new_symtab n)) f x = (x, 0)"
  by (simp add: new_symtab_fresh hashtab_map_nodes nodes_def [symmetric] SEPOL_OK_def)

definition demo_user :: user_datum where "demo_user = user_init\<lparr>us_value := 1\<rparr>"

definition demo_type :: type_datum where
  "demo_type = \<lparr>type_value = 1, primary = 1, flavor = 0, type_types = ebitmap_init, type_flags = 0, type_bounds = 0\<rparr>"

definition user_tables :: pf_symtabs where
  "user_tables = demo_tables\<lparr>pf_users := one_symtab 128 (demo_name 117) demo_user\<rparr>"

lemma demo_user_ok: "user_ok demo_kern (demo_name 117) demo_user"
  using ebm.inv_empty
  by (simp add: user_ok_def demo_user_def user_init_def demo_kern_def kern_def name_ok_def demo_name_def sym_ok_def bounded_def
      policydb_has_boundary_feature_def kern_from_def range_ok_def level_ok_def mls_range_init_def mls_level_init_def)

lemma user_tables_ok: "symtabs_ok demo_kern user_tables"
  using demo_tables_ok user.one_stored(1) [OF demo_user_ok, of 128] by (simp add: symtabs_ok_def user_tables_def)

definition demo_index :: pf_index where
  "demo_index = \<lparr>ix_commons = [Some (demo_name 99, \<lparr>com_value = 1, com_permissions = one_symtab 32 (demo_name 112) \<lparr>perm_value = 1\<rparr>\<rparr>)],
     ix_classes = [], ix_roles = [Some (OBJECT_R, object_r)], ix_types = [Some (demo_name 97, demo_type)],
     ix_users = [Some (demo_name 117, demo_user)], ix_bools = [Some (demo_name 98, \<lparr>bo_value = 1, bo_state = 1, bo_flags = 0\<rparr>)],
     ix_levels = [], ix_cats = [], role_cache = [OBJECT_R \<mapsto> ebitmap_init], user_cache = [demo_name 117 \<mapsto> ebitmap_init]\<rparr>"

lemma one_symtab_mapped:
  fixes d :: 'd
  assumes "sym_ok k" and "0 < unat n" and "unat n < 2147483648"
  shows "hashtab_map (table (one_symtab n k d)) f x = f k d x" and "nprim (one_symtab n k d) = 1"
proof -
  note f = sym.empty_ok [of "fresh n :: (bytes, 'd) hashtab" n, OF refl assms(2,3)]
  obtain t where t: "hashtab_insert (Some (fresh n)) k d = Inr (Some t, SEPOL_OK)" "sym.table_ok t"
    "sym.contents t = (sym.contents (fresh n))(k \<mapsto> d)"
    using sym.insert_nodes [OF f(1,2) assms(1), of d] f(3) by auto
  have "one_symtab n k d = \<lparr>table = Some t, nprim = 1\<rparr>" using t(1) by (simp add: one_symtab_def)
  then show "hashtab_map (table (one_symtab n k d)) f x = f k d x" "nprim (one_symtab n k d) = 1"
    using one_mapped [of "one_symtab n k d" t k d f x] t(2,3) f(3) by (auto split: prod.splits)
qed

lemma image_names: "c \<noteq> 0 \<Longrightarrow> sym_ok (demo_name c)" "sym_ok OBJECT_R"
  by (simp_all add: demo_name_def sym_ok_def OBJECT_R_def)

lemma positive_empty [simp]: "positive_bits ebitmap_init = []"
  by (simp add: positive_bits_def visited_bits_def ebitmap_init_def)

lemma demo_role_set: "role_set_expand (us_roles demo_user) n = Inr (Some ebitmap_init)"
  by (simp add: role_set_expand_def demo_user_def user_init_def ROLE_STAR_def ROLE_COMP_def res_opt_bind_def ebitmap_cpy_def
      positive_bits_def visited_bits_def ebitmap_init_def)

lemma demo_type_set: "type_set_expand (ro_types object_r) n types True = Inr (Some ebitmap_init)"
  by (simp add: type_set_expand_def object_r_def role_init_def type_set_init_def TYPE_STAR_def TYPE_COMP_def res_opt_bind_def)

lemma demo_indexed:
  "\<exists>ix. policydb_index_classes user_tables no_index = (ix, 0) \<and> policydb_index_others user_tables ix = Inr (Some demo_index)"
proof -
  note one = one_symtab_mapped [OF image_names(1)] one_symtab_mapped [OF image_names(2)]
  have nt: "nprim (pf_types user_tables) = 1" "nprim (pf_roles user_tables) = 1"
    by (simp_all add: user_tables_def demo_tables_def one)
  let ?ix = "no_index\<lparr>ix_commons := ix_commons demo_index, ix_classes := []\<rparr>"
  have "policydb_index_classes user_tables no_index = (?ix, 0)"
    by (simp add: policydb_index_classes_def build_index_def user_tables_def demo_tables_def one none_mapped calloc_index_def
        common_index_def index_value_def demo_index_def new_symtab_fresh [THEN arg_cong [where f = nprim]])
  moreover have k: "index_kind role_index (pf_roles user_tables) = Inr (Some (ix_roles demo_index))"
    "index_kind type_index (pf_types user_tables) = Inr (Some (ix_types demo_index))"
    "index_kind user_index (pf_users user_tables) = Inr (Some (ix_users demo_index))"
    "index_kind cond_index_bool (pf_bools user_tables) = Inr (Some (ix_bools demo_index))"
    "index_sens (pf_levels user_tables) = Inr (Some [])" "index_kind cat_index (pf_cats user_tables) = Inr (Some [])"
    by (simp_all add: index_kind_def index_sens_def build_index_def user_tables_def demo_tables_def one calloc_index_def index_value_def
        role_index_def type_index_def user_index_def cond_index_bool_def demo_index_def demo_type_def demo_user_def object_r_def OBJECT_R_VAL_def
        new_symtab_fresh)
  have c: "run_caches (pf_roles user_tables) (policydb_role_cache 1 types) = Inr (Some [OBJECT_R \<mapsto> ebitmap_init])"
    "run_caches (pf_users user_tables) (policydb_user_cache 1) = Inr (Some [demo_name 117 \<mapsto> ebitmap_init])" for types
    by (simp_all add: run_caches_def user_tables_def demo_tables_def one policydb_role_cache_def policydb_user_cache_def put_cache_def
        demo_role_set demo_type_set)
  have "policydb_index_others user_tables ?ix = Inr (Some demo_index)"
    by (simp add: policydb_index_others_def index_arrays_def k c nt res_opt_bind_def) (simp add: demo_index_def no_index_def)
  ultimately show ?thesis by blast
qed

definition one_bit :: ebitmap where "one_bit = \<lparr>enodes = [\<lparr>startbit = 0, mapw = 1\<rparr>], highbit = 64\<rparr>"

lemma one_bit_ok: "ebitmap_ok one_bit" "ebits one_bit = {0}"
  by (auto simp: one_bit_def ebitmap_ok_def last_hi_def node_lo_def ebits_def nodes_set_def node_bits_def bit_1_iff)

definition demo_rule :: avtab_node where "demo_rule = hd three_rules"

definition demo_cond :: cond_rules where
  "demo_cond = \<lparr>cr_state = 1, cr_expr = [\<lparr>ce_type = COND_BOOL, ce_bool = 1\<rparr>], cr_true = [demo_rule], cr_false = []\<rparr>"

definition demo_context :: context_struct where
  "demo_context = \<lparr>co_user = 1, co_role = 1, co_type = 1, co_range = mls_range_init\<rparr>"

text \<open>A policy with a type, a user, a boolean, two rules and one that depends on the boolean, and an initial SID.\<close>

definition image_policy :: "pf_policy \<Rightarrow> pf_policy" where
  "image_policy p0 = p0\<lparr>po_version := demo_kern, po_tabs := user_tables, po_index := demo_index,
     po_decls := [Some (avrule_decl_create 1)], po_rules := one_slot_rules,
     po_cond_rules := \<lparr>avslots = Some [[demo_rule]], avnel = 1, nslot = 1, avmask = 0\<rparr>, po_cond_marked := {(0, 0)},
     po_conds := [cond_node_init\<lparr>cur_state := 1, cexpr := cr_expr demo_cond, true_list := [(0, 0)]\<rparr>],
     po_role_tr := [\<lparr>rt_role = 1, rt_type = 1, rt_tclass = 1, rt_new_role = 1\<rparr>], po_role_allow := [\<lparr>ra_role = 1, ra_new_role = 1\<rparr>],
     po_ocontexts := (replicate OCON_NUM [])[0 := [ocontext_init\<lparr>oc_context0 := demo_context, oc_sid := 1\<rparr>]],
     po_type_attr := [one_bit], po_attr_type := [one_bit]\<rparr>"

lemma init_policy: obtains s0 sc where "policydb_init = Inr (Some (new_policy s0 sc))"
proof -
  obtain s0 where s0: "init_symtabs = Inr (Some s0)" using symtabs_read [OF user_tables_ok] by blast
  have n: "0 < unat (16 :: u32)" "unat (16 :: u32) < 2147483648" by simp_all
  note f = sym.empty_ok [of "fresh 16 :: (bytes, scope_datum) hashtab" 16, OF refl n]
  obtain sc where "hashtab_insert (Some (fresh 16)) OBJECT_R \<lparr>sc_scope = SCOPE_DECL, decl_ids = [1]\<rparr> = Inr (Some sc, SEPOL_OK)"
    using sym.insert_nodes [OF f(1,2) object_r_ok] f(3) by (metis fun_upd_apply map_upd_eqD1 option.distinct(1))
  then have "policydb_init = Inr (Some (new_policy s0 (Some sc)))"
    by (simp add: policydb_init_def s0 res_opt_bind_def new_symtab_fresh SEPOL_OK_def)
  then show thesis by (rule that)
qed

lemma demo_header: "header_ok (image_policy (new_policy s0 sc)) 7"
  by (simp add: header_ok_def image_policy_def new_policy_def demo_kern_def policydb_lookup_compat_def compat_kern_def
      SEPOL_TARGET_SELINUX_def SEPOL_TARGET_XEN_def POLICY_KERN_def)

lemma demo_symbols: "symbols_ok (image_policy (new_policy s0 sc))"
  using user_tables_ok ebm.inv_empty by (simp add: symbols_ok_def image_policy_def new_policy_def)

lemma demo_nprims: "nprim (pf_types user_tables) = 1" "nprim (pf_roles user_tables) = 1" "nprim (pf_users user_tables) = 1"
  "nprim (pf_bools user_tables) = 1"
  by (simp_all add: user_tables_def demo_tables_def one_symtab_mapped(2) [OF image_names(1)] one_symtab_mapped(2) [OF image_names(2)])

lemma demo_contexts: "contexts_ok (image_policy (new_policy s0 sc)) 7"
proof -
  let ?p = "image_policy (new_policy s0 sc)"
  have le: "level_ok mls_level_init" using ebm.inv_empty by (simp add: level_ok_def mls_level_init_def)
  have "context_ok (policy_env ?p) demo_context"
    by (simp add: context_ok_def context_is_valid_def mls_context_isvalid_def policy_env_def image_policy_def new_policy_def demo_context_def
        demo_nprims OBJECT_R_VAL_def range_ok_def mls_range_init_def le)
  then have "ocon_ok (policy_env ?p) 0 (ocontext_init\<lparr>oc_context0 := demo_context, oc_sid := 1\<rparr>)"
    by (simp add: ocon_ok_def ocontext_init_def two_contexts_def OCON_ISID_def OCON_FS_def OCON_NETIF_def OCON_FSUSE_def)
  moreover have "po_ocontexts ?p ! i = (if i = 0 then [ocontext_init\<lparr>oc_context0 := demo_context, oc_sid := 1\<rparr>] else [])" if "i < OCON_NUM" for i
    using that by (simp add: image_policy_def nth_list_update)
  ultimately have "ocons_ok (policy_env ?p) 7 (po_ocontexts ?p)"
    by (auto simp: ocons_ok_def short_def) (simp_all add: image_policy_def OCON_NUM_def)
  moreover have "genfs_ok (policy_env ?p) (po_genfs ?p)" by (simp add: genfs_ok_def image_policy_def new_policy_def short_def)
  moreover have "type_maps_ok 1 (ix_types demo_index) [one_bit] [one_bit]"
    by (auto simp: type_maps_ok_def one_bit_ok bitmaps_def attr_rows_def plain_type_def demo_index_def demo_type_def TYPE_ATTRIB_def)
  ultimately show ?thesis by (simp add: contexts_ok_def image_policy_def demo_nprims)
qed

lemma demo_transitions: "transitions_ok (image_policy (new_policy s0 sc))"
proof -
  have "filename_trans_ok demo_kern init_filename_trans"
    using file_codec.empty_storable [of 1024] by (simp add: filename_trans_ok_def init_filename_trans_def create_empty)
  moreover have "range_tr_ok demo_kern init_range_tr"
    using range_codec.empty_storable [of 256] by (simp add: range_tr_ok_def init_range_tr_def create_empty demo_kern_def kern_def)
  ultimately show ?thesis
    by (simp add: transitions_ok_def image_policy_def new_policy_def role_trans_ok_def short_def) (simp add: demo_kern_def new_roletr_def kern_from_def kern_def)
qed

lemma demo_te_rules: "te_rules_ok (image_policy (new_policy s0 sc)) [demo_cond]"
proof -
  let ?p = "image_policy (new_policy s0 sc)"
  have r: "po_rules ?p = one_slot_rules" by (simp add: image_policy_def)
  note ok = three_rules_ok
  have "list_all (can_hold (rule_policy ?p)) (rules_of one_slot_rules)"
    using ok by (auto simp: list_all_iff can_hold_def rule_policy_def image_policy_def new_policy_def demo_kern_def rules_of_def one_slot_rules_def)
  moreover have "plain_rules_distinct (rules_of one_slot_rules)" by (simp add: rules_of_slot three_rules_plain)
  moreover have "rules_of one_slot_rules \<noteq> []" "unat (avnel one_slot_rules) = length (rules_of one_slot_rules)"
    by (simp_all add: rules_of_slot) (simp_all add: three_rules_def one_slot_rules_def)
  moreover have "conds_hold (po_cond_rules ?p) (po_cond_marked ?p) (po_conds ?p) [demo_cond]"
    by (simp add: image_policy_def conds_hold_def node_holds_def holds_def node_ptrs_def demo_cond_def cond_node_init_def av_node_def av_slot_def)
  moreover have "rule_ok 30 demo_rule" by (rule ok) (simp add: demo_rule_def three_rules_def)
  then have "conds_ok (pv_vers (po_version ?p)) (nprim (pf_bools (po_tabs ?p))) one_slot_rules [demo_cond]"
    by (simp add: conds_ok_def cond_ok_def demo_cond_def image_policy_def demo_kern_def demo_nprims expr_isvalid_def COND_BOOL_def COND_LAST_def
        COND_NEQ_def short_def no_conflict_def) (simp add: demo_rule_def three_rules_def AVTAB_TYPE_def)
  ultimately show ?thesis using one_slot_rules_ok unfolding te_rules_ok_def r by blast
qed

lemma image_policy_ok:
  assumes "policydb_init = Inr (Some (new_policy s0 sc))"
  shows "kernel_policy_ok (image_policy (new_policy s0 sc)) 7 [demo_cond]"
proof -
  have "indexes_ok (image_policy (new_policy s0 sc))" using demo_indexed by (simp add: indexes_ok_def image_policy_def)
  moreover have "no_module (image_policy (new_policy s0 sc))" using assms by (auto simp: no_module_def image_policy_def new_policy_def)
  ultimately show ?thesis
    using demo_header demo_symbols demo_te_rules demo_transitions demo_contexts by (simp add: kernel_policy_ok_def)
qed

section \<open>Images\<close>

text \<open>
  C9: A kernel policy survives its image: for a policy that the format can hold,
  \<open>policydb_to_image\<close> makes an image, which passes its own check, and \<open>policydb_from_image\<close> reads
  it, whatever follows it, into a new policy that is the same but for the places of its rules:
  every search finds the same rules, and the conditionals have the same lists of rules.  The
  format, without the compatibility flag of Android M, holds the kernel policies of versions 20
  to 32 for SELinux whose indexes are built and
  whose symbols, contexts, transitions and conditionals are well-formed and in range; the table
  of rules is not empty, counts its rules, and only rules of extended permissions may share
  source, target, class and kind. Such rules come back in the opposite order, so that the
  search finds another of them first; where no two rules of a source, target and class are of
  one kind the searches find the rules in the same order.
\<close>

theorem policy_image_survives:
  assumes "kernel_policy_ok p n cs" and "policydb_init = Inr (Some p0)"
  shows "\<exists>image te ct m ns. policydb_to_image U expand cexpand False junk p = Inr (Some (image, False)) \<and>
    policydb_from_image U False (image @ rest) p0 = Inr (Some (with_rules p te ct m ns, False)) \<and>
    read_back (po_rules p) te \<and> conds_hold ct m ns cs"
proof -
  obtain te ct m ns where "same_rules p cs te ct m ns"
    "policydb_to_image U expand cexpand False junk p = Inr (Some (policy_enc p n cs, False))"
    "policydb_from_image U False (policy_enc p n cs @ rest) p0 = Inr (Some (with_rules p te ct m ns, False))"
    by (rule image_survives [OF assms])
  then show ?thesis unfolding same_rules_def by blast
qed

theorem policy_image_survives_witness:
  "\<exists>p0 image te ct m ns. policydb_init = Inr (Some p0) \<and>
    policydb_to_image [] (\<lambda>_ _. None) (\<lambda>_. None) False [] (image_policy p0) = Inr (Some (image, False)) \<and>
    policydb_from_image [] False (image @ [7]) p0 = Inr (Some (with_rules (image_policy p0) te ct m ns, False)) \<and>
    av_hits te (fst (io_rule 7)) = [io_rule 8, io_rule 7] \<and> conds_hold ct m ns [demo_cond]"
proof -
  obtain s0 sc where p0: "policydb_init = Inr (Some (new_policy s0 sc))" by (rule init_policy)
  have r: "po_rules (image_policy (new_policy s0 sc)) = one_slot_rules" by (simp add: image_policy_def)
  from policy_image_survives [OF image_policy_ok [OF p0] p0, of "[]" "\<lambda>_ _. None" "\<lambda>_. None" "[]" "[7]", unfolded r]
  obtain image te ct m ns where
    "policydb_to_image [] (\<lambda>_ _. None) (\<lambda>_. None) False [] (image_policy (new_policy s0 sc)) = Inr (Some (image, False))"
    "policydb_from_image [] False (image @ [7]) (new_policy s0 sc) = Inr (Some (with_rules (image_policy (new_policy s0 sc)) te ct m ns, False))"
    and b: "read_back one_slot_rules te" "conds_hold ct m ns [demo_cond]" by blast
  moreover have "av_hits te (fst (io_rule 7)) = rev (av_hits one_slot_rules (fst (io_rule 7)))"
    using b(1) io_rule_kind unfolding read_back_def by blast
  then have "av_hits te (fst (io_rule 7)) = [io_rule 8, io_rule 7]" by (simp add: io_rules_found)
  ultimately show ?thesis using p0 by blast
qed

section \<open>Arrays and sets\<close>

text \<open>
  C18: When \<open>policydb_index_others\<close> succeeds, its arrays are the inverses of the symbol tables:
  the entry of a value is the symbol that has it, leaving out aliases, and the other entries are
  empty.
\<close>

theorem arrays_invert_tables:
  assumes "tables_ok s" and "policydb_index_others s ix = Inr (Some ix')"
  shows "indexed s ix'"
  by (rule others_indexed [OF assms])

lemma user_tables_tables: "tables_ok user_tables"
proof -
  note D = user_tables_ok [unfolded symtabs_ok_def]
  have e: "sym.contents (the (table (new_symtab 16 :: level_datum symtab))) = Map.empty"
    using sym.empty_ok(3) [of "fresh 16" 16, OF refl] by (simp add: new_symtab_fresh)
  have "all_levels (pf_levels user_tables)" using e by (simp add: all_levels_def user_tables_def demo_tables_def)
  then show ?thesis
    using D by (auto simp: tables_ok_def role.symtab_stored_def role.storable_def stype.symtab_stored_def stype.storable_def
        user.symtab_stored_def user.storable_def boolean.symtab_stored_def boolean.storable_def sens.symtab_stored_def sens.storable_def
        cat.symtab_stored_def cat.storable_def)
qed

theorem arrays_invert_tables_witness: "\<exists>ix. policydb_index_others user_tables ix = Inr (Some demo_index) \<and> indexed user_tables demo_index"
  using demo_indexed arrays_invert_tables [OF user_tables_tables] by blast

text \<open>
  C19: \<open>type_set_expand\<close> gives the set its argument describes: the types and those of the attributes
  in it, less those excluded; with a star all types but those excluded, with a complement
  all types that are not in the set, never an attribute.
\<close>

theorem type_set_is_expanded:
  assumes "type_index_ok n types" and "set_in_range st types"
    and "ts_flags st AND TYPE_STAR = 0 \<and> ts_flags st AND TYPE_COMP \<noteq> 0 \<Longrightarrow>
      \<forall>i\<in>plain_types st types. i < length types \<longrightarrow> \<not> is_attrib types i"
  shows "\<exists>t. type_set_expand st n types True = Inr (Some t) \<and> ebitmap_ok t \<and> ebits t = expanded st types"
  by (rule expand_set [OF assms])

definition demo_attr :: type_datum where "demo_attr = demo_type\<lparr>type_value := 2, flavor := TYPE_ATTRIB, type_types := one_bit\<rparr>"

definition attr_set :: pf_type_set where
  "attr_set = \<lparr>ts_types = \<lparr>enodes = [\<lparr>startbit = 0, mapw = 2\<rparr>], highbit = 64\<rparr>, ts_negset = ebitmap_init, ts_flags = 0\<rparr>"

lemma second_bit: "ebitmap_ok \<lparr>enodes = [\<lparr>startbit = 0, mapw = 2\<rparr>], highbit = 64\<rparr>"
  "ebits \<lparr>enodes = [\<lparr>startbit = 0, mapw = 2\<rparr>], highbit = 64\<rparr> = {1}"
proof -
  have "bit (2 :: u64) n \<longleftrightarrow> n = 1" for n using bit_push_bit_iff [of 1 "1 :: u64" n] by (auto simp: bit_1_iff)
  then show "ebitmap_ok \<lparr>enodes = [\<lparr>startbit = 0, mapw = 2\<rparr>], highbit = 64\<rparr>"
    "ebits \<lparr>enodes = [\<lparr>startbit = 0, mapw = 2\<rparr>], highbit = 64\<rparr> = {1}"
    by (auto simp: ebitmap_ok_def last_hi_def node_lo_def ebits_def nodes_set_def node_bits_def)
qed

theorem type_set_is_expanded_witness:
  "\<exists>t. type_set_expand attr_set 2 [Some (demo_name 97, demo_type), Some (demo_name 98, demo_attr)] True = Inr (Some t) \<and>
    ebitmap_ok t \<and> ebits t = {0}"
proof -
  let ?types = "[Some (demo_name 97, demo_type), Some (demo_name 98, demo_attr)]"
  have "type_index_ok 2 ?types"
    using ebm.inv_empty one_bit_ok(1) by (auto simp: type_index_ok_def nth_Cons demo_type_def demo_attr_def split: nat.splits)
  moreover have "set_in_range attr_set ?types"
    using second_bit ebm.inv_empty by (simp add: set_in_range_def attr_set_def type_set_ok_def) (simp add: ebits_def ebitmap_init_def)
  moreover have "expanded attr_set ?types = {0}"
    using second_bit one_bit_ok(2)
    by (simp add: expanded_def attr_set_def plain_types_def attr_types_def demo_attr_def TYPE_STAR_def TYPE_COMP_def)
      (simp add: ebits_def ebitmap_init_def)
  ultimately show ?thesis using type_set_is_expanded [of 2 ?types attr_set] by (simp add: attr_set_def TYPE_COMP_def)
qed

section \<open>Conditions\<close>

text \<open>
  C20: The normal form of a condition holds its truth table: after \<open>cond_normalize_expr\<close> the bit
  \<open>t\<close> of \<open>expr_pre_comp\<close> is the value of the expression when each of its booleans has the bit of
  \<open>t\<close> at its place in \<open>bool_ids\<close>.
\<close>

theorem truth_table_of_condition:
  assumes "cond_normalize_expr bools cn = Inr (bools', cn', 0)" and "unat (nbools cn') \<le> COND_MAX_BOOLS"
    and "length (cexpr cn) < 2147483648" and "cexpr cn' = rpn f" and "depth f \<le> COND_EXPR_MAXDEPTH" and "t < 2 ^ unat (nbools cn')"
  shows "bit (expr_pre_comp cn') t \<longleftrightarrow> bval (line_state (take (unat (nbools cn')) (bool_ids cn')) t) f"
proof -
  let ?ids = "take (unat (nbools cn')) (bool_ids cn')"
  note N = normalized [OF assms(1-3)]
  have "line_value bools ?ids (rpn f) t = Inr (of_bool (bval (line_state ?ids t) f))"
    by (rule line_of_formula) (use N assms(4,5) in \<open>auto simp: expr_bools_rpn\<close>)
  moreover have "bit (expr_pre_comp cn') t \<longleftrightarrow> line_value bools ?ids (rpn f) t \<noteq> Inr 0" using N assms(4,6) by simp
  ultimately show ?thesis by simp
qed

definition two_bools :: "cond_bool_datum val_index" where
  "two_bools = [Some ([97], \<lparr>bo_value = 1, bo_state = 1, bo_flags = 0\<rparr>), Some ([98], \<lparr>bo_value = 2, bo_state = 0, bo_flags = 0\<rparr>)]"

definition but_not :: "u32 \<Rightarrow> u32 \<Rightarrow> bform" where "but_not a b = BAnd (BVar a) (BNot (BVar b))"

definition cond_of :: "bform \<Rightarrow> cond_node" where "cond_of f = cond_node_init\<lparr>cexpr := rpn f\<rparr>"

definition but_not_node :: "u32 \<Rightarrow> u32 \<Rightarrow> cond_node" where
  "but_not_node a b = (cond_of (but_not a b))\<lparr>nbools := 2, bool_ids := [a, b, 0, 0, 0], expr_pre_comp := 2\<rparr>"

lemma but_not_normal:
  "cond_normalize_expr two_bools (cond_of (but_not 1 2)) = Inr (two_bools, but_not_node 1 2, 0)"
  "cond_normalize_expr two_bools (cond_of (but_not 2 1)) = Inr (two_bools, but_not_node 2 1, 0)"
  by code_simp+

theorem truth_table_of_condition_witness:
  "\<exists>bools cn. cond_normalize_expr two_bools (cond_of (but_not 1 2)) = Inr (bools, cn, 0) \<and> bit (expr_pre_comp cn) 1 \<and>
    bval (line_state [1, 2] 1) (but_not 1 2)"
proof -
  have n: "unat (nbools (but_not_node 1 2)) = 2" "bool_ids (but_not_node 1 2) = [1, 2, 0, 0, 0]" "cexpr (but_not_node 1 2) = rpn (but_not 1 2)"
    by (simp_all add: but_not_node_def cond_of_def cond_node_init_def)
  have l: "length (cexpr (cond_of (but_not 1 2))) < 2147483648" "depth (but_not 1 2) \<le> COND_EXPR_MAXDEPTH"
    by (simp_all add: cond_of_def but_not_def COND_EXPR_MAXDEPTH_def)
  have "bit (expr_pre_comp (but_not_node 1 2)) 1 \<longleftrightarrow> bval (line_state [1, 2] 1) (but_not 1 2)"
    using truth_table_of_condition [OF but_not_normal(1) _ l(1) n(3) l(2), of 1] by (simp add: n COND_MAX_BOOLS_def)
  moreover have "bit (expr_pre_comp (but_not_node 1 2)) 1" by code_simp
  ultimately show ?thesis using but_not_normal(1) by blast
qed

text \<open>
  C21: What \<open>cond_expr_equal\<close> decides for the normal forms of two conditions with at most five
  booleans, written in less than 2147483648 elements and evaluated in ten places of the stack:
  that they name the same booleans and that their tables agree line by line, where a
  line gives values to the places in \<open>bool_ids\<close> and not to booleans. So when the booleans were
  found in the same order it decides whether the conditions have the same value under every
  assignment; when the orders differ it decides another question, and takes \<open>a and not b\<close> and
  \<open>b and not a\<close> for the same condition.
\<close>

theorem conditions_equal_by_place:
  assumes "cond_normalize_expr bools c1 = Inr (bools1, n1, 0)" and "cond_normalize_expr bools c2 = Inr (bools2, n2, 0)"
    and "length (cexpr c1) < 2147483648" and "length (cexpr c2) < 2147483648"
    and "unat (nbools n1) \<le> COND_MAX_BOOLS" and "unat (nbools n2) \<le> COND_MAX_BOOLS"
    and "cexpr n1 = rpn f" and "cexpr n2 = rpn g" and "depth f \<le> COND_EXPR_MAXDEPTH" and "depth g \<le> COND_EXPR_MAXDEPTH"
  shows "(cond_expr_equal (Some n1) (Some n2) \<longleftrightarrow> bvars f = bvars g \<and>
      (\<forall>t < 2 ^ card (bvars f). bval (line_state (used_bools n1) t) f = bval (line_state (used_bools n2) t) g)) \<and>
    (used_bools n1 = used_bools n2 \<longrightarrow>
      (cond_expr_equal (Some n1) (Some n2) \<longleftrightarrow> (\<forall>\<sigma>. bval \<sigma> f = bval \<sigma> g)))"
proof -
  have n: "normal_form bools n1 f" "normal_form bools n2 g" using assms by (auto simp: normal_form_def)
  note e = equal_by_place [OF n] and t = normal_form_table [OF n(1)] normal_form_table [OF n(2)]
  have same: "(\<forall>t < 2 ^ card (bvars f). bval (line_state (used_bools n1) t) f = bval (line_state (used_bools n1) t) g) \<longleftrightarrow>
      (\<forall>\<sigma>. bval \<sigma> f = bval \<sigma> g)" if u: "used_bools n1 = used_bools n2"
  proof (rule iffI, rule allI)
    fix \<sigma>
    assume l: "\<forall>t < 2 ^ card (bvars f). bval (line_state (used_bools n1) t) f = bval (line_state (used_bools n1) t) g"
    obtain k where k: "k < 2 ^ length (used_bools n1)" "\<forall>b\<in>set (used_bools n1). line_state (used_bools n1) k b = \<sigma> b"
      using line_of_assignment [OF t(1)] by blast
    have "card (bvars f) = length (used_bools n1)" using t(1,2) distinct_card by metis
    then have "bval (line_state (used_bools n1) k) f = bval (line_state (used_bools n1) k) g" using l k(1) by simp
    moreover have "bval (line_state (used_bools n1) k) f = bval \<sigma> f" "bval (line_state (used_bools n1) k) g = bval \<sigma> g"
      using k(2) t(2,6) u by (simp_all add: bval_cong)
    ultimately show "bval \<sigma> f = bval \<sigma> g" by simp
  qed simp
  have vars: "bvars f = bvars g" if "used_bools n1 = used_bools n2" using t(2,6) that by simp
  show ?thesis using e same vars by auto
qed

theorem conditions_equal_by_place_witness:
  "\<exists>n1 n2. cond_normalize_expr two_bools (cond_of (but_not 1 2)) = Inr (two_bools, n1, 0) \<and>
     cond_normalize_expr two_bools (cond_of (but_not 2 1)) = Inr (two_bools, n2, 0) \<and> cond_expr_equal (Some n1) (Some n2) \<and>
     cond_evaluate_expr two_bools (cexpr n1) = Inr 1 \<and> cond_evaluate_expr two_bools (cexpr n2) = Inr 0"
proof -
  have n: "unat (nbools (but_not_node a b)) = 2" "cexpr (but_not_node a b) = rpn (but_not a b)" "used_bools (but_not_node a b) = [a, b]"
    "length (cexpr (cond_of (but_not a b))) < 2147483648" "depth (but_not a b) \<le> COND_EXPR_MAXDEPTH" for a b
    by (simp_all add: but_not_node_def cond_of_def cond_node_init_def used_bools_def but_not_def COND_EXPR_MAXDEPTH_def)
  have c: "card (bvars (but_not 1 2)) = 2" "bvars (but_not 1 2) = bvars (but_not 2 1)" by (auto simp: but_not_def)
  have "line_state [a, b] t x \<longleftrightarrow> a = x \<and> bit t 0 \<or> b = x \<and> bit t 1" for a b t x
    unfolding line_state_def by (simp add: less_Suc_eq) force
  then have "bval (line_state [1, 2] t) (but_not 1 2) = bval (line_state [2, 1] t) (but_not 2 1)" for t
    by (simp add: but_not_def)
  then have "cond_expr_equal (Some (but_not_node 1 2)) (Some (but_not_node 2 1))"
    using conditions_equal_by_place [OF but_not_normal n(4,4) _ _ n(2,2) n(5,5)] c by (simp add: n(1,3) COND_MAX_BOOLS_def)
  moreover have "cond_evaluate_expr two_bools (cexpr (but_not_node 1 2)) = Inr 1" by code_simp
  moreover have "cond_evaluate_expr two_bools (cexpr (but_not_node 2 1)) = Inr 0" by code_simp
  ultimately show ?thesis using but_not_normal by blast
qed

section \<open>Duplicate rules\<close>

lemma r_times_add: "r_times (m + n) rd s = r_bind (r_times m rd s) (r_times n rd)"
proof (induction m arbitrary: s)
  case (Suc m)
  then show ?case by (auto simp: fun_eq_iff r_bind_def split: sum.splits option.splits)
qed (auto simp: fun_eq_iff r_bind_def r_ok_def)

lemma duplicate_read:
  assumes "filename_ok k d" and "file_codec.storable t" and "file_tr.contents t k = Some d'"
  shows "filename_trans_read1 (Some t) (filename_enc k d @ r) = Inl Null_Deref"
proof -
  have "file_tr.table_ok t" "file_tr.counted t" "filename_key k" using assms(1,2) by (simp_all add: file_codec.storable_def filename_ok_def)
  from file_tr.insert_correct [OF this, of d] assms(3) have "hashtab_insert (Some t) k d = Inr (Some t, SEPOL_EEXIST)" by simp
  then show ?thesis using assms(1)
    by (cases k) (simp add: filename_trans_read1_def filename_enc_def filename_ok_def run_simps name_okD SEPOL_EEXIST_def)
qed

text \<open>
  C22: A policy file that has a filename transition twice crashes the reader: after the rules
  of any table a rule with the key of one of them is not ignored, as the code means to, but
  written to the log with the names of its types, whose array is not built yet.
\<close>

theorem duplicate_filename_rule_crashes:
  assumes "filename_trans_ok v (Some t)" and "file_tr.contents t k = Some d'" and "filename_ok k d" and "nel t < n"
  shows "filename_trans_read init_filename_trans (le32s [n] @ file_codec.table_enc t @ filename_enc k d @ r) = Inl Null_Deref"
proof -
  have t: "file_codec.storable t" "hsize t = 1024" using assms(1) by (simp_all add: filename_trans_ok_def)
  obtain m where n: "unat n = unat (nel t) + Suc m"
    using assms(4) less_iff_Suc_add [of "unat (nel t)" "unat n"] by (auto simp: word_less_nat_alt)
  have rd: "r_times (unat (nel t)) filename_trans_read1 (Some (empty_table filenametr_hash filenametr_cmp 1024))
      (file_codec.table_enc t @ filename_enc k d @ r) = Inr (Some (Some t, filename_enc k d @ r))"
    using file_codec.table_read_new [OF t] by (simp add: accepts_def r_ok_def)
  have "r_times (unat n) filename_trans_read1 (Some (empty_table filenametr_hash filenametr_cmp 1024))
      (file_codec.table_enc t @ filename_enc k d @ r) = Inl Null_Deref"
    unfolding n r_times_add using duplicate_read [OF assms(3) t(1) assms(2)] rd by (simp add: r_bind_def)
  then show ?thesis by (simp add: filename_trans_read_def run_simps init_filename_trans_def create_empty)
qed

theorem duplicate_filename_rule_crashes_witness:
  "\<exists>t. filename_trans_read init_filename_trans
     (le32s [2] @ file_codec.table_enc t @ filename_enc \<lparr>ft_stype = 1, ft_ttype = 2, ft_tclass = 3, ft_name = [120]\<rparr> 5 @ []) = Inl Null_Deref \<and>
     file_tr.contents t = [\<lparr>ft_stype = 1, ft_ttype = 2, ft_tclass = 3, ft_name = [120]\<rparr> \<mapsto> 4]"
proof -
  let ?k = "\<lparr>ft_stype = 1, ft_ttype = 2, ft_tclass = 3, ft_name = [120]\<rparr>"
  have k: "filename_ok ?k d" for d
    by (simp add: filename_ok_def filename_key_def low31_def name_ok_def sym_ok_def)
  obtain t where t: "file_codec.storable t" "hsize t = 1024" "file_tr.contents t = [?k \<mapsto> 4]"
    by (rule file_codec.single_storable [OF k, of 1024 4]) auto
  have o: "file_tr.table_ok t" "file_tr.counted t" using t(1) by (simp_all add: file_codec.storable_def)
  have "nodes t = [(?k, 4)]"
    using single_map [OF file_tr.nodes_distinct [OF o(1)]] file_tr.contents_nodes [OF o(1)] t(3) by simp
  then have "nel t < 2" using o(2) by (simp add: file_tr.counted_def nodes_def)
  then show ?thesis using duplicate_filename_rule_crashes [of v t ?k 4 5 2 "[]"] t k by (auto simp: filename_trans_ok_def)
qed

end
