(* ===== verification/Cpio_Newc_Write.thy ===== *)
theory Cpio_Newc_Write
  imports Bxxt_Prelude
begin

text \<open>
  Writing archives in the newc format of libarchive (archive_write_set_format_cpio_newc.c),
  which holds the ramdisk of a boot image, with the states of the writer above it
  (archive_write.c). Bytes go to the compression filter, a stream here; the locale is one
  in which names are not converted.
\<close>

section \<open>Entries\<close>

record archive_entry =
  ae_pathname :: "bytes option"
  ae_mode :: u32
  ae_ino :: int
  ae_uid :: int
  ae_gid :: int
  ae_nlink :: u32
  ae_mtime :: int
  ae_size :: "int option"
  ae_devmajor :: int
  ae_devminor :: int
  ae_rdevmajor :: int
  ae_rdevminor :: int
  ae_symlink :: "bytes option"
  ae_hardlink :: "bytes option"

definition archive_entry_new :: archive_entry where
  "archive_entry_new = \<lparr>ae_pathname = None, ae_mode = 0, ae_ino = 0, ae_uid = 0, ae_gid = 0, ae_nlink = 0, ae_mtime = 0,
     ae_size = None, ae_devmajor = 0, ae_devminor = 0, ae_rdevmajor = 0, ae_rdevminor = 0, ae_symlink = None, ae_hardlink = None\<rparr>"

definition AE_IFMT :: u32 where "AE_IFMT = 0xF000"
definition AE_IFREG :: u32 where "AE_IFREG = 0x8000"
definition AE_IFLNK :: u32 where "AE_IFLNK = 0xA000"
definition AE_IFDIR :: u32 where "AE_IFDIR = 0x4000"
definition AE_IFCHR :: u32 where "AE_IFCHR = 0x2000"
definition AE_IFBLK :: u32 where "AE_IFBLK = 0x6000"

definition ae_filetype :: "archive_entry \<Rightarrow> u32" where
  "ae_filetype e = ae_mode e AND AE_IFMT"

definition entry_size :: "archive_entry \<Rightarrow> int" where
  "entry_size e = (case ae_size e of None \<Rightarrow> 0 | Some n \<Rightarrow> n)"

definition ARCHIVE_EOF :: int where "ARCHIVE_EOF = 1"
definition ARCHIVE_OK :: int where "ARCHIVE_OK = 0"
definition ARCHIVE_WARN :: int where "ARCHIVE_WARN = - 20"
definition ARCHIVE_FAILED :: int where "ARCHIVE_FAILED = - 25"
definition ARCHIVE_FATAL :: int where "ARCHIVE_FATAL = - 30"

section \<open>Fields\<close>

definition hex_char :: "int \<Rightarrow> u8" where
  "hex_char d = (if d < 10 then word_of_int (48 + d) else word_of_int (87 + d))"

primrec format_hex_recursive :: "int \<Rightarrow> nat \<Rightarrow> int \<times> bytes" where
  "format_hex_recursive v 0 = (v, [])"
| "format_hex_recursive v (Suc s) =
     (let (v, p) = format_hex_recursive v s in (v div 16, hex_char (v mod 16) # p))"

definition format_hex :: "int \<Rightarrow> nat \<Rightarrow> bytes \<times> int" where
  "format_hex v digits =
     (let mx = 2 ^ (digits * 4) - 1 in
      if 0 \<le> v \<and> v \<le> mx then (snd (format_hex_recursive v digits), 0)
      else (snd (format_hex_recursive mx digits), - 1))"

definition hex_field :: "int \<Rightarrow> bytes" where
  "hex_field v = fst (format_hex v 8)"

definition PAD4 :: "nat \<Rightarrow> nat" where
  "PAD4 n = nat ((- int n) mod 4)"

section \<open>The writer\<close>

datatype archive_state = STATE_HEADER | STATE_DATA | STATE_EOF | STATE_CLOSED | STATE_FATAL

record newc_writer =
  nw_out :: bytes
  nw_remaining :: nat
  nw_padding :: nat
  nw_state :: archive_state

text \<open>
  \<open>write_header\<close>: the fixed header in the order of the field offsets, the name with its
  terminator and padding, the target of a symbolic link with its padding.
\<close>

definition newc_fields :: "archive_entry \<Rightarrow> int \<Rightarrow> int \<Rightarrow> bytes" where
  "newc_fields e filesize namesize =
     (let dev = (ae_filetype e = AE_IFBLK \<or> ae_filetype e = AE_IFCHR) in
      fst (format_hex 0x070701 6) @ hex_field (ae_ino e mod 2 ^ 32) @ hex_field (uint (ae_mode e)) @ hex_field (ae_uid e) @
      hex_field (ae_gid e) @ hex_field (uint (ae_nlink e)) @ hex_field (ae_mtime e) @ hex_field filesize @
      hex_field (ae_devmajor e) @ hex_field (ae_devminor e) @
      hex_field (if dev then ae_rdevmajor e else 0) @ hex_field (if dev then ae_rdevminor e else 0) @
      hex_field namesize @ hex_field 0)"

definition link_text :: "archive_entry \<Rightarrow> bytes" where
  "link_text e = (case ae_symlink e of None \<Rightarrow> [] | Some p \<Rightarrow> p)"

definition write_header :: "newc_writer \<Rightarrow> archive_entry \<Rightarrow> newc_writer \<times> int" where
  "write_header w e =
     (let path = (case ae_pathname e of None \<Rightarrow> [] | Some p \<Rightarrow> p);
          pathlength = length path + 1;
          size = (if ae_filetype e \<noteq> AE_IFREG then 0 else entry_size e);
          filesize = (if link_text e \<noteq> [] then int (length (link_text e)) else size)
      in if snd (format_hex filesize 8) \<noteq> 0 then (w, ARCHIVE_FAILED)
         else
           (w\<lparr>nw_out := nw_out w @ newc_fields e filesize (int pathlength) @ path @ [0] @ replicate (PAD4 (pathlength + 110)) 0 @
                link_text e @ (if link_text e \<noteq> [] then replicate (PAD4 (length (link_text e))) 0 else []),
              nw_remaining := nat size, nw_padding := PAD4 (nat size)\<rparr>,
            if ae_ino e > 0xffffffff then ARCHIVE_WARN else ARCHIVE_OK))"

definition archive_write_newc_header :: "newc_writer \<Rightarrow> archive_entry \<Rightarrow> newc_writer \<times> int" where
  "archive_write_newc_header w e =
     (if ae_filetype e = 0 \<and> ae_hardlink e = None then (w, ARCHIVE_FAILED)
      else if ae_pathname e = None \<or> ae_pathname e = Some [] then (w, ARCHIVE_FAILED)
      else if ae_hardlink e = None \<and> (ae_size e = None \<or> entry_size e < 0) then (w, ARCHIVE_FAILED)
      else write_header w e)"

definition archive_write_newc_data :: "newc_writer \<Rightarrow> bytes \<Rightarrow> newc_writer \<times> int" where
  "archive_write_newc_data w buff =
     (let s = min (length buff) (nw_remaining w) in
      (w\<lparr>nw_out := nw_out w @ take s buff, nw_remaining := nw_remaining w - s\<rparr>, int s))"

definition archive_write_newc_finish_entry :: "newc_writer \<Rightarrow> newc_writer" where
  "archive_write_newc_finish_entry w = w\<lparr>nw_out := nw_out w @ replicate (nw_remaining w + nw_padding w) 0\<rparr>"

definition TRAILER :: bytes where
  "TRAILER = c_bytes ''TRAILER!!!''"

definition archive_write_newc_close :: "newc_writer \<Rightarrow> newc_writer \<times> int" where
  "archive_write_newc_close w =
     write_header w (archive_entry_new\<lparr>ae_nlink := 1, ae_size := Some 0, ae_pathname := Some TRAILER\<rparr>)"

section \<open>The states above it\<close>

definition newc_open :: newc_writer where
  "newc_open = \<lparr>nw_out = [], nw_remaining = 0, nw_padding = 0, nw_state = STATE_HEADER\<rparr>"

text \<open>Calls in a wrong state make the writer fail for good.\<close>

definition archive_write_finish_entry :: "newc_writer \<Rightarrow> newc_writer \<times> int" where
  "archive_write_finish_entry w =
     (case nw_state w of
        STATE_DATA \<Rightarrow> ((archive_write_newc_finish_entry w)\<lparr>nw_state := STATE_HEADER\<rparr>, ARCHIVE_OK)
      | STATE_HEADER \<Rightarrow> (w, ARCHIVE_OK)
      | _ \<Rightarrow> (w\<lparr>nw_state := STATE_FATAL\<rparr>, ARCHIVE_FATAL))"

definition archive_write_header :: "newc_writer \<Rightarrow> archive_entry \<Rightarrow> newc_writer \<times> int" where
  "archive_write_header w e =
     (let (w, ret) = archive_write_finish_entry w in
      if ret = ARCHIVE_FATAL then (w\<lparr>nw_state := STATE_FATAL\<rparr>, ARCHIVE_FATAL)
      else if ret < ARCHIVE_OK \<and> ret \<noteq> ARCHIVE_WARN then (w, ret)
      else
        let (w, r2) = archive_write_newc_header w e in
        if r2 = ARCHIVE_FAILED then (w, ARCHIVE_FAILED)
        else if r2 = ARCHIVE_FATAL then (w\<lparr>nw_state := STATE_FATAL\<rparr>, ARCHIVE_FATAL)
        else (w\<lparr>nw_state := STATE_DATA\<rparr>, min ret r2))"

definition archive_write_data :: "newc_writer \<Rightarrow> bytes \<Rightarrow> newc_writer \<times> int" where
  "archive_write_data w buff =
     (if nw_state w \<noteq> STATE_DATA then (w\<lparr>nw_state := STATE_FATAL\<rparr>, ARCHIVE_FATAL)
      else archive_write_newc_data w (take 2147483647 buff))"

definition archive_write_close :: "newc_writer \<Rightarrow> newc_writer \<times> int" where
  "archive_write_close w =
     (let w = (if nw_state w = STATE_DATA then archive_write_newc_finish_entry w else w);
          (w, r) = archive_write_newc_close w
      in (if nw_state w \<noteq> STATE_FATAL then w\<lparr>nw_state := STATE_CLOSED\<rparr> else w, min ARCHIVE_OK r))"

end
