(* ===== verification/Cpio_Newc_Read.thy ===== *)
theory Cpio_Newc_Read
  imports Cpio_Newc_Write
begin

text \<open>
  Reading cpio archives (archive_read_support_format_cpio.c): the newc format, the older ASCII
  format odc with afio's large headers, and the binary formats of both byte orders; with the
  states of the reader above it (archive_read.c). The decompressed archive is a list of bytes;
  how many of them are visible at once, beyond those asked for, is an argument.
\<close>

section \<open>The stream\<close>

text \<open>\<open>look s n\<close>: how much a look ahead shows of the rest \<open>s\<close> when \<open>n\<close> bytes are needed.\<close>

type_synonym lookahead = "bytes \<Rightarrow> nat \<Rightarrow> nat"

definition read_ahead :: "lookahead \<Rightarrow> bytes \<Rightarrow> nat \<Rightarrow> bytes option" where
  "read_ahead look s n = (if length s < n then None else Some (take (max n (look s n)) s))"

text \<open>
  \<open>__archive_read_consume\<close> of a 64-bit request: a negative one fails without moving, one
  beyond the end takes what there is and fails. A look ahead of a negative size, which is
  huge as a \<open>size_t\<close>, finds too little.
\<close>

definition read_consume :: "bytes \<Rightarrow> int \<Rightarrow> bytes \<times> int" where
  "read_consume s request =
     (if request < 0 then (s, ARCHIVE_FATAL)
      else if nat request > length s then ([], ARCHIVE_FATAL)
      else (drop (nat request) s, request))"

definition read_ahead64 :: "lookahead \<Rightarrow> bytes \<Rightarrow> int \<Rightarrow> bytes option" where
  "read_ahead64 look s n = (if n < 0 then None else read_ahead look s (nat n))"

text \<open>The formats, as the choice of the function pointer \<open>read_header\<close>.\<close>

datatype cpio_format = Fmt_Odc | Fmt_Newc | Fmt_Bin_BE | Fmt_Bin_LE

record link_entry =
  le_dev :: "int \<times> int"
  le_ino :: int
  le_links :: u32
  le_name :: bytes

record newc_reader =
  nr_format :: cpio_format
  nr_in :: bytes
  nr_remaining :: int
  nr_padding :: nat
  nr_unconsumed :: nat
  nr_offset :: nat
  nr_links :: "link_entry list"
  nr_state :: archive_state

section \<open>Headers\<close>

definition is_hex_char :: "u8 \<Rightarrow> bool" where
  "is_hex_char c \<longleftrightarrow> 48 \<le> c \<and> c \<le> 57 \<or> 97 \<le> c \<and> c \<le> 102 \<or> 65 \<le> c \<and> c \<le> 70"

definition is_hex :: "bytes \<Rightarrow> bool" where
  "is_hex p = list_all is_hex_char p"

definition hex_digit :: "u8 \<Rightarrow> int option" where
  "hex_digit c =
     (if 97 \<le> c \<and> c \<le> 102 then Some (uint c - 97 + 10)
      else if 65 \<le> c \<and> c \<le> 70 then Some (uint c - 65 + 10)
      else if 48 \<le> c \<and> c \<le> 57 then Some (uint c - 48) else None)"

fun atol16_loop :: "int \<Rightarrow> bytes \<Rightarrow> int" where
  "atol16_loop l [] = l"
| "atol16_loop l (c # p) = (case hex_digit c of None \<Rightarrow> l | Some d \<Rightarrow> atol16_loop (16 * l + d) p)"

definition atol16 :: "bytes \<Rightarrow> int" where
  "atol16 p = atol16_loop 0 p"

text \<open>The eight digits at an offset of the header.\<close>

definition newc_field :: "bytes \<Rightarrow> nat \<Rightarrow> int" where
  "newc_field h off = atol16 (take 8 (drop off h))"

definition newc_here :: "bytes \<Rightarrow> bool" where
  "newc_here p \<longleftrightarrow> take 5 p = c_bytes ''07070'' \<and> (p ! 5 = 49 \<or> p ! 5 = 50) \<and> is_hex (take 110 p)"

text \<open>The inner loop of the search: where a header is found, or where it gives up.\<close>

function seek_newc :: "bytes \<Rightarrow> nat \<Rightarrow> nat + nat" where
  "seek_newc h p =
     (if p + 110 \<le> length h then
        if h ! (p + 5) = 49 \<or> h ! (p + 5) = 50 then
          (if take 5 (drop p h) = c_bytes ''07070'' \<and> is_hex (take 110 (drop p h)) then Inl p else seek_newc h (p + 2))
        else if h ! (p + 5) = 48 then seek_newc h (p + 1)
        else seek_newc h (p + 6)
      else Inr p)"
  by pat_completeness auto
termination by (relation "measure (\<lambda>(h, p). length h + 6 - p)") auto

declare seek_newc.simps [simp del]

lemma seek_newc_mono: "seek_newc h p = Inr q \<Longrightarrow> p \<le> q \<and> (p + 110 \<le> length h \<longrightarrow> p < q)"
proof (induction h p rule: seek_newc.induct)
  case (1 h p)
  from 1(4) have e: "(if p + 110 \<le> length h then
        if h ! (p + 5) = 49 \<or> h ! (p + 5) = 50 then
          (if take 5 (drop p h) = c_bytes ''07070'' \<and> is_hex (take 110 (drop p h)) then Inl p else seek_newc h (p + 2))
        else if h ! (p + 5) = 48 then seek_newc h (p + 1)
        else seek_newc h (p + 6)
      else Inr p) = Inr q" by (subst (asm) seek_newc.simps)
  show ?case using e 1(1-3) by (auto split: if_splits)
qed

function find_newc_header :: "lookahead \<Rightarrow> bytes \<Rightarrow> nat \<Rightarrow> bytes \<times> int" where
  "find_newc_header look s skipped =
     (case read_ahead look s 110 of None \<Rightarrow> (s, ARCHIVE_FATAL)
      | Some h \<Rightarrow>
          if newc_here h then (s, ARCHIVE_OK)
          else case seek_newc h 0 of
            Inl p \<Rightarrow> (drop p s, if skipped + p > 0 then ARCHIVE_WARN else ARCHIVE_OK)
          | Inr p \<Rightarrow> find_newc_header look (drop p s) (skipped + p))"
  by pat_completeness auto
termination
proof (relation "measure (\<lambda>(_, s, _). length s)", goal_cases)
  case (2 look s skipped h p)
  then have "110 \<le> length h" "length h \<le> length s" by (auto simp: read_ahead_def split: if_splits)
  then show ?case using seek_newc_mono [of h 0 p] 2 by simp
qed simp

declare find_newc_header.simps [simp del]

text \<open>\<open>header_newc\<close>: the entry, the length of the name and of its padding.\<close>

definition newc_entry :: "bytes \<Rightarrow> archive_entry" where
  "newc_entry h = archive_entry_new\<lparr>
     ae_devmajor := newc_field h 62, ae_devminor := newc_field h 70, ae_ino := newc_field h 6,
     ae_mode := word_of_int (newc_field h 14), ae_uid := newc_field h 22, ae_gid := newc_field h 30,
     ae_nlink := word_of_int (newc_field h 38), ae_rdevmajor := newc_field h 78, ae_rdevminor := newc_field h 86,
     ae_mtime := newc_field h 46, ae_size := Some (newc_field h 54)\<rparr>"

definition header_newc :: "lookahead \<Rightarrow> newc_reader \<Rightarrow> newc_reader \<times> archive_entry \<times> nat \<times> nat \<times> int" where
  "header_newc look a =
     (let (s, r) = find_newc_header look (nr_in a) 0; a = a\<lparr>nr_in := s\<rparr> in
      if r < ARCHIVE_WARN then (a, archive_entry_new, 0, 0, r)
      else case read_ahead look s 110 of None \<Rightarrow> (a, archive_entry_new, 0, 0, ARCHIVE_FATAL)
      | Some h \<Rightarrow>
          let namelength = nat (newc_field h 94); name_pad = nat ((2 - int namelength) mod 4); n = newc_field h 54 in
          (a\<lparr>nr_in := drop 110 s, nr_remaining := n, nr_padding := nat ((- n) mod 4)\<rparr>, newc_entry h, namelength, name_pad, r))"

section \<open>Older headers\<close>

definition is_octal :: "bytes \<Rightarrow> bool" where
  "is_octal p = list_all (\<lambda>c. 48 \<le> c \<and> c \<le> 55) p"

fun atol8_loop :: "int \<Rightarrow> bytes \<Rightarrow> int" where
  "atol8_loop l [] = l"
| "atol8_loop l (c # p) = (if 48 \<le> c \<and> c \<le> 55 then atol8_loop (8 * l + (uint c - 48)) p else l)"

definition atol8 :: "bytes \<Rightarrow> int" where
  "atol8 p = atol8_loop 0 p"

text \<open>Sixteen hexadecimal digits can wrap around in an \<open>int64_t\<close>.\<close>

definition to_int64 :: "int \<Rightarrow> int" where
  "to_int64 z = (z + 9223372036854775808) mod 18446744073709551616 - 9223372036854775808"

definition oct_field :: "bytes \<Rightarrow> nat \<Rightarrow> nat \<Rightarrow> int" where
  "oct_field h off n = atol8 (take n (drop off h))"

definition hex64_field :: "bytes \<Rightarrow> nat \<Rightarrow> nat \<Rightarrow> int" where
  "hex64_field h off n = to_int64 (atol16 (take n (drop off h)))"

text \<open>
  A \<open>dev_t\<close> that is not broken down, as the two numbers the macros \<open>major\<close> and \<open>minor\<close> of
  Linux make of it; \<open>makedev\<close>, which \<open>archive_entry_dev\<close> uses, is their inverse.
\<close>

definition dev_major :: "u64 \<Rightarrow> int" where
  "dev_major d = uint ((drop_bit 32 d AND 0xFFFFF000) OR (drop_bit 8 d AND 0xFFF))"

definition dev_minor :: "u64 \<Rightarrow> int" where
  "dev_minor d = uint ((drop_bit 12 d AND 0xFFFFFF00) OR (d AND 0xFF))"

definition set_devs :: "int \<Rightarrow> int \<Rightarrow> archive_entry \<Rightarrow> archive_entry" where
  "set_devs dev rdev e = e\<lparr>
     ae_devmajor := dev_major (word_of_int dev), ae_devminor := dev_minor (word_of_int dev),
     ae_rdevmajor := dev_major (word_of_int rdev), ae_rdevminor := dev_minor (word_of_int rdev)\<rparr>"

definition is_afio_large :: "bytes \<Rightarrow> bool" where
  "is_afio_large h \<longleftrightarrow>
     116 \<le> length h \<and> h ! 30 = 109 \<and> h ! 85 = 110 \<and> h ! 98 = 115 \<and> h ! 115 = 58 \<and>
     is_hex (take 24 (drop 6 h)) \<and> is_hex (take 54 (drop 31 h)) \<and> is_hex (take 12 (drop 86 h)) \<and>
     is_hex (take 16 (drop 99 h))"

definition odc_here :: "bytes \<Rightarrow> bool" where
  "odc_here p \<longleftrightarrow> take 6 p = c_bytes ''070707'' \<and> is_octal (take 76 p)"

definition afio_here :: "bytes \<Rightarrow> bool" where
  "afio_here p \<longleftrightarrow> take 6 p = c_bytes ''070727'' \<and> is_afio_large p"

text \<open>The two loops of \<open>find_odc_header\<close>; the last result tells whether the header is a large one.\<close>

function seek_odc :: "bytes \<Rightarrow> nat \<Rightarrow> nat + nat" where
  "seek_odc h p =
     (if p + 76 \<le> length h then
        if h ! (p + 5) = 55 then
          (if odc_here (drop p h) \<or> afio_here (drop p h) then Inl p else seek_odc h (p + 2))
        else if h ! (p + 5) = 48 then seek_odc h (p + 1)
        else seek_odc h (p + 6)
      else Inr p)"
  by pat_completeness auto
termination by (relation "measure (\<lambda>(h, p). length h + 6 - p)") auto

declare seek_odc.simps [simp del]

lemma seek_odc_mono: "seek_odc h p = Inr q \<Longrightarrow> p \<le> q \<and> (p + 76 \<le> length h \<longrightarrow> p < q)"
proof (induction h p rule: seek_odc.induct)
  case (1 h p)
  from 1(4) have e: "(if p + 76 \<le> length h then
        if h ! (p + 5) = 55 then
          (if odc_here (drop p h) \<or> afio_here (drop p h) then Inl p else seek_odc h (p + 2))
        else if h ! (p + 5) = 48 then seek_odc h (p + 1)
        else seek_odc h (p + 6)
      else Inr p) = Inr q" by (subst (asm) seek_odc.simps)
  show ?case using e 1(1-3) by (auto split: if_splits)
qed

function find_odc_header :: "lookahead \<Rightarrow> bytes \<Rightarrow> nat \<Rightarrow> bytes \<times> int \<times> bool" where
  "find_odc_header look s skipped =
     (case read_ahead look s 76 of None \<Rightarrow> (s, ARCHIVE_FATAL, False)
      | Some h \<Rightarrow>
          if odc_here h then (s, ARCHIVE_OK, False)
          else if afio_here h then (s, ARCHIVE_OK, True)
          else case seek_odc h 0 of
            Inl p \<Rightarrow> (drop p s, if skipped + p > 0 then ARCHIVE_WARN else ARCHIVE_OK, h ! (p + 4) = 50)
          | Inr p \<Rightarrow> find_odc_header look (drop p s) (skipped + p))"
  by pat_completeness auto
termination
proof (relation "measure (\<lambda>(_, s, _). length s)", goal_cases)
  case (2 look s skipped h p)
  then have "76 \<le> length h" "length h \<le> length s" by (auto simp: read_ahead_def split: if_splits)
  then show ?case using seek_odc_mono [of h 0 p] 2 by simp
qed simp

declare find_odc_header.simps [simp del]

definition afiol_entry :: "bytes \<Rightarrow> archive_entry" where
  "afiol_entry h = set_devs (hex64_field h 6 8) (hex64_field h 61 8) (archive_entry_new\<lparr>
     ae_ino := hex64_field h 14 16, ae_mode := word_of_int (oct_field h 31 6), ae_uid := hex64_field h 37 8,
     ae_gid := hex64_field h 45 8, ae_nlink := word_of_int (hex64_field h 53 8), ae_mtime := hex64_field h 69 16,
     ae_size := Some (hex64_field h 99 16)\<rparr>)"

definition header_afiol :: "lookahead \<Rightarrow> newc_reader \<Rightarrow> newc_reader \<times> archive_entry \<times> nat \<times> nat \<times> int" where
  "header_afiol look a =
     (case read_ahead look (nr_in a) 116 of None \<Rightarrow> (a, archive_entry_new, 0, 0, ARCHIVE_FATAL)
      | Some h \<Rightarrow>
          (a\<lparr>nr_in := drop 116 (nr_in a), nr_remaining := hex64_field h 99 16, nr_padding := 0\<rparr>, afiol_entry h,
           nat (hex64_field h 86 4), 0, ARCHIVE_OK))"

definition odc_entry :: "bytes \<Rightarrow> archive_entry" where
  "odc_entry h = set_devs (oct_field h 6 6) (oct_field h 42 6) (archive_entry_new\<lparr>
     ae_ino := oct_field h 12 6, ae_mode := word_of_int (oct_field h 18 6), ae_uid := oct_field h 24 6,
     ae_gid := oct_field h 30 6, ae_nlink := word_of_int (oct_field h 36 6), ae_mtime := oct_field h 48 11,
     ae_size := Some (oct_field h 65 11)\<rparr>)"

definition header_odc :: "lookahead \<Rightarrow> newc_reader \<Rightarrow> newc_reader \<times> archive_entry \<times> nat \<times> nat \<times> int" where
  "header_odc look a =
     (let (s, r, large) = find_odc_header look (nr_in a) 0; a = a\<lparr>nr_in := s\<rparr> in
      if r < ARCHIVE_WARN then (a, archive_entry_new, 0, 0, r)
      else if large then
        let (a, e, namelength, name_pad, r2) = header_afiol look a in
        (a, e, namelength, name_pad, if r2 = ARCHIVE_OK then r else r2)
      else case read_ahead look s 76 of None \<Rightarrow> (a, archive_entry_new, 0, 0, ARCHIVE_FATAL)
      | Some h \<Rightarrow>
          (a\<lparr>nr_in := drop 76 s, nr_remaining := oct_field h 65 11, nr_padding := 0\<rparr>, odc_entry h,
           nat (oct_field h 59 6), 0, r))"

text \<open>The binary headers: numbers of two bytes, and of four, which in the little-endian format have the high half first.\<close>

definition le2 :: "bytes \<Rightarrow> nat \<Rightarrow> int" where
  "le2 h off = uint (h ! off) + uint (h ! (off + 1)) * 256"

definition be2 :: "bytes \<Rightarrow> nat \<Rightarrow> int" where
  "be2 h off = uint (h ! off) * 256 + uint (h ! (off + 1))"

definition le4 :: "bytes \<Rightarrow> nat \<Rightarrow> int" where
  "le4 h off = uint (h ! off) * 65536 + uint (h ! (off + 1)) * 16777216 + uint (h ! (off + 2)) + uint (h ! (off + 3)) * 256"

definition be4 :: "bytes \<Rightarrow> nat \<Rightarrow> int" where
  "be4 h off = uint (h ! off) * 16777216 + uint (h ! (off + 1)) * 65536 + uint (h ! (off + 2)) * 256 + uint (h ! (off + 3))"

definition bin_entry :: "(bytes \<Rightarrow> nat \<Rightarrow> int) \<Rightarrow> (bytes \<Rightarrow> nat \<Rightarrow> int) \<Rightarrow> bytes \<Rightarrow> archive_entry" where
  "bin_entry two four h = set_devs (two h 2) (two h 14) (archive_entry_new\<lparr>
     ae_ino := two h 4, ae_mode := word_of_int (two h 6), ae_uid := two h 8, ae_gid := two h 10,
     ae_nlink := word_of_int (two h 12), ae_mtime := four h 16, ae_size := Some (four h 22)\<rparr>)"

definition header_bin_le :: "lookahead \<Rightarrow> newc_reader \<Rightarrow> newc_reader \<times> archive_entry \<times> nat \<times> nat \<times> int" where
  "header_bin_le look a =
     (case read_ahead look (nr_in a) 26 of None \<Rightarrow> (a, archive_entry_new, 0, 0, ARCHIVE_FATAL)
      | Some h \<Rightarrow>
          let namelength = nat (le2 h 20); n = le4 h 22 in
          (a\<lparr>nr_in := drop 26 (nr_in a), nr_remaining := n, nr_padding := nat (n mod 2)\<rparr>, bin_entry le2 le4 h,
           namelength, namelength mod 2, ARCHIVE_OK))"

definition header_bin_be :: "lookahead \<Rightarrow> newc_reader \<Rightarrow> newc_reader \<times> archive_entry \<times> nat \<times> nat \<times> int" where
  "header_bin_be look a =
     (case read_ahead look (nr_in a) 26 of None \<Rightarrow> (a, archive_entry_new, 0, 0, ARCHIVE_FATAL)
      | Some h \<Rightarrow>
          let namelength = nat (be2 h 20); n = be4 h 22 in
          (a\<lparr>nr_in := drop 26 (nr_in a), nr_remaining := n, nr_padding := nat (n mod 2)\<rparr>, bin_entry be2 be4 h,
           namelength, namelength mod 2, ARCHIVE_OK))"

text \<open>The call through the function pointer.\<close>

definition cpio_header :: "lookahead \<Rightarrow> newc_reader \<Rightarrow> newc_reader \<times> archive_entry \<times> nat \<times> nat \<times> int" where
  "cpio_header look a =
     (case nr_format a of
        Fmt_Odc \<Rightarrow> header_odc look a
      | Fmt_Newc \<Rightarrow> header_newc look a
      | Fmt_Bin_BE \<Rightarrow> header_bin_be look a
      | Fmt_Bin_LE \<Rightarrow> header_bin_le look a)"

section \<open>Entries\<close>

fun use_link :: "int \<times> int \<Rightarrow> int \<Rightarrow> link_entry list \<Rightarrow> (bytes \<times> link_entry list) option" where
  "use_link dev ino [] = None"
| "use_link dev ino (l # ls) =
     (if le_dev l = dev \<and> le_ino l = ino then
        Some (le_name l, if le_links l - 1 = 0 then ls else l\<lparr>le_links := le_links l - 1\<rparr> # ls)
      else map_option (\<lambda>(n, ls). (n, l # ls)) (use_link dev ino ls))"

definition record_hardlink :: "newc_reader \<Rightarrow> archive_entry \<Rightarrow> newc_reader \<times> archive_entry" where
  "record_hardlink a e =
     (if ae_nlink e \<le> 1 then (a, e)
      else case use_link (ae_devmajor e, ae_devminor e) (ae_ino e) (nr_links a) of
        Some (n, ls) \<Rightarrow> (a\<lparr>nr_links := ls\<rparr>, e\<lparr>ae_hardlink := Some n\<rparr>)
      | None \<Rightarrow>
          (a\<lparr>nr_links := \<lparr>le_dev = (ae_devmajor e, ae_devminor e), le_ino = ae_ino e, le_links = ae_nlink e - 1,
               le_name = (case ae_pathname e of None \<Rightarrow> [] | Some p \<Rightarrow> p)\<rparr> # nr_links a\<rparr>, e))"

text \<open>The bytes of a name field up to its terminator.\<close>

definition cut_name :: "nat \<Rightarrow> bytes \<Rightarrow> bytes" where
  "cut_name n h = takeWhile (\<lambda>c. c \<noteq> 0) (take n h)"

definition read_symlink :: "lookahead \<Rightarrow> newc_reader \<Rightarrow> archive_entry \<Rightarrow> newc_reader \<times> archive_entry \<times> bool" where
  "read_symlink look a e =
     (if ae_filetype e \<noteq> AE_IFLNK then (a, e, True)
      else if nr_remaining a > 1024 * 1024 then (a, e, False)
      else case read_ahead64 look (nr_in a) (nr_remaining a) of None \<Rightarrow> (a, e, False)
      | Some h \<Rightarrow>
          (a\<lparr>nr_in := fst (read_consume (nr_in a) (nr_remaining a)), nr_remaining := 0\<rparr>,
           e\<lparr>ae_symlink := Some (cut_name (nat (nr_remaining a)) h)\<rparr>, True))"

definition archive_read_format_cpio_read_header ::
  "lookahead \<Rightarrow> newc_reader \<Rightarrow> newc_reader \<times> archive_entry \<times> int" where
  "archive_read_format_cpio_read_header look a =
     (let (a, e, namelength, name_pad, r) = cpio_header look a in
      if r < ARCHIVE_WARN then (a, e, r)
      else case read_ahead look (nr_in a) (namelength + name_pad) of None \<Rightarrow> (a, e, ARCHIVE_FATAL)
      | Some h \<Rightarrow>
          let e = e\<lparr>ae_pathname := Some (cut_name namelength h)\<rparr>;
              a = a\<lparr>nr_offset := 0, nr_in := drop (namelength + name_pad) (nr_in a)\<rparr>;
              (a, e, ok) = read_symlink look a e
          in if \<not> ok then (a, e, ARCHIVE_FATAL)
             else if namelength = 11 \<and> cut_name 11 h = TRAILER then (a, e, ARCHIVE_EOF)
             else let (a, e) = record_hardlink a e in (a, e, r))"

definition archive_read_format_cpio_read_data ::
  "lookahead \<Rightarrow> newc_reader \<Rightarrow> newc_reader \<times> bytes \<times> nat \<times> int" where
  "archive_read_format_cpio_read_data look a =
     (let a = a\<lparr>nr_in := drop (nr_unconsumed a) (nr_in a), nr_unconsumed := 0\<rparr> in
      if nr_remaining a > 0 then
        case read_ahead look (nr_in a) 1 of None \<Rightarrow> (a, [], 0, ARCHIVE_FATAL)
        | Some h \<Rightarrow>
            let n = nat (min (int (length h)) (nr_remaining a)) in
            (a\<lparr>nr_unconsumed := n, nr_offset := nr_offset a + n, nr_remaining := nr_remaining a - int n\<rparr>,
             take n h, nr_offset a, ARCHIVE_OK)
      else if nr_padding a > length (nr_in a) then (a\<lparr>nr_in := []\<rparr>, [], 0, ARCHIVE_FATAL)
      else (a\<lparr>nr_in := drop (nr_padding a) (nr_in a), nr_padding := 0\<rparr>, [], nr_offset a, ARCHIVE_EOF))"

definition archive_read_format_cpio_skip :: "newc_reader \<Rightarrow> newc_reader \<times> int" where
  "archive_read_format_cpio_skip a =
     (let to_skip = nr_remaining a + int (nr_padding a) + int (nr_unconsumed a);
          (s, r) = read_consume (nr_in a) to_skip
      in if to_skip \<noteq> r then (a\<lparr>nr_in := s\<rparr>, ARCHIVE_FATAL)
         else (a\<lparr>nr_in := s, nr_remaining := 0, nr_padding := 0, nr_unconsumed := 0\<rparr>, ARCHIVE_OK))"

section \<open>The states above it\<close>

definition archive_read_data_skip :: "newc_reader \<Rightarrow> newc_reader \<times> int" where
  "archive_read_data_skip a =
     (let (a, r) = archive_read_format_cpio_skip a in
      (a\<lparr>nr_state := STATE_HEADER\<rparr>, if r = ARCHIVE_EOF then ARCHIVE_OK else r))"

text \<open>The reader keeps one entry, which a call in a wrong state leaves as it was.\<close>

definition archive_read_next_header ::
  "lookahead \<Rightarrow> newc_reader \<Rightarrow> archive_entry \<Rightarrow> newc_reader \<times> archive_entry \<times> int" where
  "archive_read_next_header look a entry =
     (if nr_state a = STATE_EOF \<or> nr_state a = STATE_FATAL then (a\<lparr>nr_state := STATE_FATAL\<rparr>, entry, ARCHIVE_FATAL)
      else
        let (a, r1) = (if nr_state a = STATE_DATA then archive_read_data_skip a else (a, ARCHIVE_OK)) in
        if r1 = ARCHIVE_EOF \<or> r1 = ARCHIVE_FATAL then (a\<lparr>nr_state := STATE_FATAL\<rparr>, archive_entry_new, ARCHIVE_FATAL)
        else
          let (a, e, r2) = archive_read_format_cpio_read_header look a;
              a = (if r2 = ARCHIVE_EOF then a\<lparr>nr_state := STATE_EOF\<rparr>
                   else if r2 = ARCHIVE_OK \<or> r2 = ARCHIVE_WARN then a\<lparr>nr_state := STATE_DATA\<rparr>
                   else if r2 = ARCHIVE_FATAL then a\<lparr>nr_state := STATE_FATAL\<rparr> else a)
          in (a, e, if r2 < r1 \<or> r2 = ARCHIVE_EOF then r2 else r1))"

definition archive_read_data_block :: "lookahead \<Rightarrow> newc_reader \<Rightarrow> newc_reader \<times> bytes \<times> nat \<times> int" where
  "archive_read_data_block look a =
     (if nr_state a \<noteq> STATE_DATA then (a\<lparr>nr_state := STATE_FATAL\<rparr>, [], 0, ARCHIVE_FATAL)
      else archive_read_format_cpio_read_data look a)"

definition cpio_reader_open :: "cpio_format \<Rightarrow> bytes \<Rightarrow> newc_reader" where
  "cpio_reader_open f s = \<lparr>nr_format = f, nr_in = s, nr_remaining = 0, nr_padding = 0, nr_unconsumed = 0, nr_offset = 0, nr_links = [],
     nr_state = STATE_HEADER\<rparr>"

end
