(* ===== verification/Bxxt_Cpio.thy ===== *)
theory Bxxt_Cpio
  imports Cpio_Newc_Read Bxxt_Strcmp Bxxt_Buffer
begin

text \<open>
  The ramdisk packer and unpacker (cpio.c). Packing walks a directory twice, guesses the
  size of the output, sorts the paths and writes one entry for each; unpacking hands every
  entry and block of the archive to a disk writer. The file system, the compression filter
  and the disk writer's answers are arguments; what the disk writer is told is recorded.
\<close>

section \<open>The host\<close>

text \<open>
  \<open>h_list\<close>: \<open>opendir\<close> and \<open>readdir\<close>, names with whether \<open>d_type\<close> is a directory;
  \<open>h_lstat\<close>: mode and size; \<open>h_reads\<close>: what the calls of \<open>read\<close> give until one gives nothing.
\<close>

record host =
  h_list :: "bytes \<Rightarrow> (bytes \<times> bool) list option"
  h_lstat :: "bytes \<Rightarrow> (u32 \<times> int) option"
  h_readlink :: "bytes \<Rightarrow> bytes option"
  h_reads :: "bytes \<Rightarrow> bytes list"
  h_realpath :: "bytes \<Rightarrow> bytes option"

datatype disk_op =
    Disk_Header archive_entry
  | Disk_Data bytes nat
  | Disk_Finish

definition CPIO_PATH_MAX :: nat where "CPIO_PATH_MAX = 4096"

record bxxt_cpio =
  cp_path :: bytes
  archive_size_gussed :: u32
  cp_r :: newc_reader
  cp_e :: archive_entry
  cp_w :: newc_writer
  cp_d_w :: "disk_op list"
  cp_inode :: u32

definition bxxt_cpio_archive_new :: "bytes \<Rightarrow> bxxt_cpio" where
  "bxxt_cpio_archive_new path =
     \<lparr>cp_path = path, archive_size_gussed = 0, cp_r = cpio_reader_open Fmt_Newc [], cp_e = archive_entry_new, cp_w = newc_open, cp_d_w = [],
      cp_inode = 300000\<rparr>"

section \<open>Walking a directory\<close>

definition slash :: bytes where "slash = c_bytes ''/''"

text \<open>\<open>snprintf\<close> into a buffer of \<open>PATH_MAX\<close> bytes cuts the path.\<close>

definition walk_path :: "bytes \<Rightarrow> bytes \<Rightarrow> bytes" where
  "walk_path name d = take (CPIO_PATH_MAX - 1) (name @ slash @ d)"

definition is_dots :: "bytes \<Rightarrow> bool" where
  "is_dots d \<longleftrightarrow> strcmp d (c_bytes ''.'') = 0 \<or> strcmp d (c_bytes ''..'') = 0"

text \<open>The entries of one directory; \<open>down\<close> walks a subdirectory.\<close>

fun walk_dir :: "(bytes \<Rightarrow> 'a \<Rightarrow> 'a option) \<Rightarrow> (bytes \<Rightarrow> 'a \<Rightarrow> 'a) \<Rightarrow> bytes \<Rightarrow> (bytes \<times> bool) list \<Rightarrow> 'a \<Rightarrow> 'a option" where
  "walk_dir down fn name [] arg = Some arg"
| "walk_dir down fn name ((d, is_dir) # es) arg =
     (let path = walk_path name d in
      case (if is_dir then if \<not> is_dots d then map_option (fn path) (down path arg) else Some arg else Some (fn path arg))
      of None \<Rightarrow> None | Some arg \<Rightarrow> walk_dir down fn name es arg)"

text \<open>The recursion is as deep as the directories are; \<open>None\<close> when it goes deeper than the first argument.\<close>

primrec bxxt_tree_walk :: "nat \<Rightarrow> host \<Rightarrow> (bytes \<Rightarrow> 'a \<Rightarrow> 'a) \<Rightarrow> bytes \<Rightarrow> 'a \<Rightarrow> 'a option" where
  "bxxt_tree_walk 0 h fn name arg = None"
| "bxxt_tree_walk (Suc k) h fn name arg =
     (case h_list h name of None \<Rightarrow> Some arg
      | Some es \<Rightarrow> walk_dir (bxxt_tree_walk k h fn) fn name es arg)"

definition bxxt_cpio_walk_entries :: "bytes \<Rightarrow> bytes list \<Rightarrow> bytes list" where
  "bxxt_cpio_walk_entries path wde = wde @ [path]"

definition bxxt_cpio_archive_guess_buffer_size :: "host \<Rightarrow> bytes \<Rightarrow> bxxt_cpio \<Rightarrow> bxxt_cpio" where
  "bxxt_cpio_archive_guess_buffer_size h path cp =
     (let st_size = (case h_lstat h path of None \<Rightarrow> 0 | Some (_, n) \<Rightarrow> n) in
      cp\<lparr>archive_size_gussed := archive_size_gussed cp + word_of_int st_size + word_of_nat CPIO_PATH_MAX\<rparr>)"

definition compare_paths :: "bytes \<Rightarrow> bytes \<Rightarrow> int" where
  "compare_paths a b = strcmp a b"

text \<open>\<open>qsort\<close> with the comparison of the source.\<close>

fun insert_path :: "bytes \<Rightarrow> bytes list \<Rightarrow> bytes list" where
  "insert_path p [] = [p]"
| "insert_path p (q # qs) = (if compare_paths p q \<le> 0 then p # q # qs else q # insert_path p qs)"

definition qsort_paths :: "bytes list \<Rightarrow> bytes list" where
  "qsort_paths ps = foldr insert_path ps []"

section \<open>Packing\<close>

text \<open>The header call stores a size of zero into an entry that is not a regular file, when it gets that far.\<close>

definition entry_after_header :: "archive_entry \<Rightarrow> archive_entry" where
  "entry_after_header e =
     (if ae_filetype e = 0 \<or> ae_pathname e = None \<or> ae_pathname e = Some [] \<or> ae_size e = None \<or> entry_size e < 0 then e
      else if ae_filetype e \<noteq> AE_IFREG then e\<lparr>ae_size := Some 0\<rparr> else e)"

primrec write_chunks :: "newc_writer \<Rightarrow> bytes list \<Rightarrow> newc_writer" where
  "write_chunks w [] = w"
| "write_chunks w (c # cs) = write_chunks (fst (archive_write_data w c)) cs"

text \<open>\<open>readlink\<close> into \<open>link\<close>: a target that fills the buffer leaves no terminator.\<close>

definition link_buffer :: "host \<Rightarrow> bytes \<Rightarrow> bytes res" where
  "link_buffer h d_name =
     (case h_readlink h d_name of None \<Rightarrow> Inr []
      | Some t \<Rightarrow> if CPIO_PATH_MAX \<le> length t then Inl Oob_Read else Inr (cstr t))"

definition bxxt_cpio_archive_write :: "host \<Rightarrow> bxxt_cpio \<Rightarrow> bytes \<Rightarrow> bytes \<Rightarrow> (bxxt_cpio \<times> int) res" where
  "bxxt_cpio_archive_write h cp d_name a_name =
     (case h_lstat h d_name of None \<Rightarrow> Inr (cp, ARCHIVE_FAILED)
      | Some (st_mode, st_size) \<Rightarrow>
          let ft = st_mode AND AE_IFMT;
              perm = st_mode AND NOT AE_IFMT;
              known = (ft = AE_IFREG \<or> ft = AE_IFDIR \<or> ft = AE_IFLNK)
          in res_bind (if ft = AE_IFLNK then res_bind (link_buffer h d_name) (\<lambda>l. Inr (Some l)) else Inr None) (\<lambda>sl.
             let e = archive_entry_new\<lparr>ae_pathname := Some a_name, ae_size := Some st_size,
                   ae_mode := if known then perm OR ft else perm, ae_uid := 0, ae_gid := 0, ae_symlink := sl,
                   ae_mtime := 0, ae_nlink := 1, ae_rdevmajor := 0, ae_rdevminor := 0, ae_devmajor := 0, ae_devminor := 0,
                   ae_ino := uint (cp_inode cp)\<rparr>;
                 w = fst (archive_write_header (cp_w cp) e);
                 w = (if entry_size (entry_after_header e) > 0 then write_chunks w (h_reads h d_name) else w)
             in Inr (cp\<lparr>cp_w := w, cp_inode := cp_inode cp + 1\<rparr>, ARCHIVE_OK)))"

definition bxxt_cpio_archive_add_file :: "host \<Rightarrow> bytes \<Rightarrow> bxxt_cpio \<Rightarrow> bxxt_cpio res" where
  "bxxt_cpio_archive_add_file h path cp =
     res_bind (bxxt_cpio_archive_write h cp path (drop (length (cp_path cp) + 1) path)) (\<lambda>(cp, _). Inr cp)"

fun add_files :: "host \<Rightarrow> bytes list \<Rightarrow> bxxt_cpio \<Rightarrow> bxxt_cpio res" where
  "add_files h [] cp = Inr cp"
| "add_files h (p # ps) cp = res_bind (bxxt_cpio_archive_add_file h p cp) (add_files h ps)"

text \<open>
  \<open>gz n s\<close>: what the compression filter leaves in a buffer of \<open>n\<close> bytes for the stream \<open>s\<close>.
\<close>

definition bxxt_cpio_archive_out ::
  "(nat \<Rightarrow> bytes \<Rightarrow> bytes) \<Rightarrow> nat \<Rightarrow> host \<Rightarrow> bytes \<Rightarrow> (buffer option \<times> int) res option" where
  "bxxt_cpio_archive_out gz fuel h path =
     (case h_realpath h path of None \<Rightarrow> Some (Inr (None, ARCHIVE_FAILED))
      | Some rpath \<Rightarrow>
          case bxxt_tree_walk fuel h (bxxt_cpio_archive_guess_buffer_size h) rpath (bxxt_cpio_archive_new rpath) of None \<Rightarrow> None
          | Some cp \<Rightarrow>
              case bxxt_tree_walk fuel h bxxt_cpio_walk_entries rpath [] of None \<Rightarrow> None
              | Some wde \<Rightarrow> Some (
                  let bb = bxxt_buffer_create (unat (archive_size_gussed cp)) in
                  res_bind (add_files h (qsort_paths wde) cp) (\<lambda>cp.
                  let out = gz (b_size bb) (nw_out (fst (archive_write_close (cp_w cp)))) in
                  res_bind (wr_bytes (b_ptr bb) 0 out) (\<lambda>p.
                  res_bind (bxxt_buffer_resize (bb\<lparr>b_ptr := p\<rparr>) (to_int32 (int (length out) - int (b_size bb)))) (\<lambda>bb.
                  Inr (Some bb, ARCHIVE_OK))))))"

section \<open>Unpacking\<close>

lemma data_block_progress:
  assumes "archive_read_data_block look a = (a', b, off, r)" and "\<not> (r = ARCHIVE_EOF \<or> r < ARCHIVE_OK)"
  shows "nat (nr_remaining a') < nat (nr_remaining a)"
proof -
  have c: "ARCHIVE_FATAL < ARCHIVE_OK" by (simp add: ARCHIVE_OK_def ARCHIVE_FATAL_def)
  have "h \<noteq> []" if "read_ahead look s 1 = Some h" for s h
    using that by (auto simp: read_ahead_def split: if_splits)
  then show ?thesis
    using assms c by (auto simp: archive_read_data_block_def archive_read_format_cpio_read_data_def Let_def split: if_splits option.splits)
qed

text \<open>The loop over the blocks of an entry; \<open>disk\<close> is what the disk writer answers.\<close>

function copy_blocks :: "lookahead \<Rightarrow> (disk_op list \<Rightarrow> bytes \<Rightarrow> nat \<Rightarrow> int) \<Rightarrow> newc_reader \<Rightarrow> disk_op list \<Rightarrow> newc_reader \<times> disk_op list" where
  "copy_blocks look disk a d =
     (case archive_read_data_block look a of (a, buff, offset, r) \<Rightarrow>
        if r = ARCHIVE_EOF \<or> r < ARCHIVE_OK then (a, d)
        else if disk d buff offset < ARCHIVE_OK then (a, d @ [Disk_Data buff offset])
        else copy_blocks look disk a (d @ [Disk_Data buff offset]))"
  by pat_completeness auto
termination
  by (relation "measure (\<lambda>(_, _, a, _). nat (nr_remaining a))") (auto dest: data_block_progress [OF sym])

declare copy_blocks.simps [simp del]

text \<open>\<open>sprintf\<close> into \<open>fpath\<close> knows no bound. The path stays in the entry, which the reader keeps.\<close>

definition bxxt_cpio_archive_read_entry ::
  "lookahead \<Rightarrow> (disk_op list \<Rightarrow> bytes \<Rightarrow> nat \<Rightarrow> int) \<Rightarrow> bxxt_cpio \<Rightarrow> (bxxt_cpio \<times> int) res" where
  "bxxt_cpio_archive_read_entry look disk cp =
     (case ae_pathname (cp_e cp) of None \<Rightarrow> Inr (cp, ARCHIVE_FAILED)
      | Some p \<Rightarrow>
          let fpath = cp_path cp @ slash @ p in
          if CPIO_PATH_MAX \<le> length fpath then Inl Oob_Write
          else
            let e = (cp_e cp)\<lparr>ae_pathname := Some fpath\<rparr>;
                (a, d) = copy_blocks look disk (cp_r cp) (cp_d_w cp @ [Disk_Header e])
            in Inr (cp\<lparr>cp_e := e, cp_r := a, cp_d_w := d @ [Disk_Finish]\<rparr>, ARCHIVE_OK))"

primrec extract_entries ::
  "nat \<Rightarrow> lookahead \<Rightarrow> (disk_op list \<Rightarrow> bytes \<Rightarrow> nat \<Rightarrow> int) \<Rightarrow> bxxt_cpio \<Rightarrow> bxxt_cpio res option" where
  "extract_entries 0 look disk cp = None"
| "extract_entries (Suc k) look disk cp =
     (let (a, e, r) = archive_read_next_header look (cp_r cp) (cp_e cp);
          cp = cp\<lparr>cp_r := a, cp_e := e\<rparr>
      in if r = ARCHIVE_EOF then Some (Inr cp)
         else case bxxt_cpio_archive_read_entry look disk cp of
           Inl f \<Rightarrow> Some (Inl f)
         | Inr (cp, r) \<Rightarrow> if r \<noteq> ARCHIVE_OK then Some (Inr cp) else extract_entries k look disk cp)"

definition archive_read_format_cpio_bid :: "bytes \<Rightarrow> cpio_format option" where
  "archive_read_format_cpio_bid p =
     (if length p < 6 then None
      else if take 6 p = c_bytes ''070707'' \<or> take 6 p = c_bytes ''070727'' then Some Fmt_Odc
      else if take 6 p = c_bytes ''070701'' \<or> take 6 p = c_bytes ''070702'' then Some Fmt_Newc
      else if uint (p ! 0) * 256 + uint (p ! 1) = 29127 then Some Fmt_Bin_BE
      else if uint (p ! 0) + uint (p ! 1) * 256 = 29127 then Some Fmt_Bin_LE
      else None)"

text \<open>
  A stream that no format claims leaves the reader failed and its entry empty; else the format
  that claims it sets the function that reads its headers. \<open>plain\<close> undoes the compression.
\<close>

definition bxxt_cpio_archive_in ::
  "(bytes \<Rightarrow> bytes) \<Rightarrow> nat \<Rightarrow> lookahead \<Rightarrow> (disk_op list \<Rightarrow> bytes \<Rightarrow> nat \<Rightarrow> int) \<Rightarrow>
   host \<Rightarrow> buffer \<Rightarrow> bytes \<Rightarrow> (disk_op list \<times> int) res option" where
  "bxxt_cpio_archive_in plain fuel look disk h bb path =
     (case h_realpath h path of None \<Rightarrow> Some (Inr ([], ARCHIVE_FAILED))
      | Some rpath \<Rightarrow>
          let cp = bxxt_cpio_archive_new rpath; s = plain (take (b_size bb) (b_ptr bb)) in
          map_option (\<lambda>r. res_bind r (\<lambda>cp. Inr (cp_d_w cp, ARCHIVE_OK)))
            (case archive_read_format_cpio_bid s of
               None \<Rightarrow> extract_entries fuel look disk (cp\<lparr>cp_r := (cpio_reader_open Fmt_Newc s)\<lparr>nr_state := STATE_FATAL\<rparr>\<rparr>)
             | Some f \<Rightarrow> extract_entries fuel look disk (cp\<lparr>cp_r := cpio_reader_open f s\<rparr>)))"

end
