(* ===== verification/Cpio_Newc_Correct.thy ===== *)
theory Cpio_Newc_Correct
  imports Cpio_Newc_Read
begin

text \<open>
  An archive that was written is read back: every entry with the same fields, name, link
  target and data, then the end, however much of the stream a look ahead shows.
\<close>

section \<open>Fields\<close>

lemma hex_digit_char:
  assumes "0 \<le> d" and "d < 16"
  shows "hex_digit (hex_char d) = Some d \<and> is_hex_char (hex_char d)"
proof -
  have "d = 0 \<or> d = 1 \<or> d = 2 \<or> d = 3 \<or> d = 4 \<or> d = 5 \<or> d = 6 \<or> d = 7 \<or> d = 8 \<or> d = 9 \<or> d = 10 \<or> d = 11 \<or>
      d = 12 \<or> d = 13 \<or> d = 14 \<or> d = 15" using assms by presburger
  then show ?thesis by (elim disjE) (simp_all add: hex_char_def hex_digit_def is_hex_char_def)
qed

lemma format_hex_recursive_props:
  "fst (format_hex_recursive v s) = v div 16 ^ s \<and> length (snd (format_hex_recursive v s)) = s \<and>
    is_hex (snd (format_hex_recursive v s)) \<and> atol16_loop l (snd (format_hex_recursive v s)) = l * 16 ^ s + v mod 16 ^ s"
proof (induction s arbitrary: l)
  case 0
  show ?case by (simp add: is_hex_def)
next
  case (Suc s)
  obtain w p where wp: "format_hex_recursive v s = (w, p)" by (cases "format_hex_recursive v s")
  have w: "w = v div 16 ^ s" "length p = s" "is_hex p" using Suc [of 0] wp by simp_all
  have p: "atol16_loop l p = l * 16 ^ s + v mod 16 ^ s" for l using Suc [of l] wp by simp
  have d: "hex_digit (hex_char (w mod 16)) = Some (w mod 16)" "is_hex_char (hex_char (w mod 16))" using hex_digit_char [of "w mod 16"] by auto
  have "v mod (16 ^ s * 16) = 16 ^ s * (v div 16 ^ s mod 16) + v mod 16 ^ s" by (rule zmod_zmult2_eq) simp
  then have "(16 * l + w mod 16) * 16 ^ s + v mod 16 ^ s = l * 16 ^ Suc s + v mod 16 ^ Suc s"
    unfolding w(1) by (simp add: algebra_simps)
  moreover have "w div 16 = v div 16 ^ Suc s" unfolding w(1) by (simp add: zdiv_zmult2_eq [symmetric] mult.commute)
  ultimately show ?case using wp w(2,3) d p by (simp add: is_hex_def)
qed

lemma format_hex_props [simp]: "length (fst (format_hex v n)) = n" "is_hex (fst (format_hex v n))"
  using format_hex_recursive_props [of v n] format_hex_recursive_props [of "2 ^ (n * 4) - 1" n]
  by (auto simp: format_hex_def Let_def)

lemma length_hex_field [simp]: "length (hex_field v) = 8" "is_hex (hex_field v)"
  by (simp_all add: hex_field_def)

lemma format_hex_ok: "0 \<le> v \<Longrightarrow> v < 4294967296 \<Longrightarrow> snd (format_hex v 8) = 0"
  by (simp add: format_hex_def)

lemma atol16_hex_field: "0 \<le> v \<Longrightarrow> v < 4294967296 \<Longrightarrow> atol16 (hex_field v) = v"
  using format_hex_recursive_props [of v 8 0] by (simp add: hex_field_def format_hex_def atol16_def)

lemma newc_magic: "fst (format_hex 0x070701 6) = c_bytes ''070701''"
  by (simp add: format_hex_def eval_nat_numeral Let_def hex_char_def c_bytes_def byte_of_chr_def)

lemma is_hex_append [simp]: "is_hex (a @ b) \<longleftrightarrow> is_hex a \<and> is_hex b"
  by (simp add: is_hex_def)

lemma length_newc_fields [simp]: "length (newc_fields e m n) = 110" "is_hex (newc_fields e m n)"
  by (simp_all add: newc_fields_def Let_def)

lemma newc_here_fields: "newc_here (newc_fields e m n @ s)"
proof -
  have "newc_fields e m n @ s = c_bytes ''070701'' @ drop 6 (newc_fields e m n) @ s"
    by (simp add: newc_fields_def Let_def newc_magic c_bytes_def)
  then have "take 5 (newc_fields e m n @ s) = c_bytes ''07070''" "(newc_fields e m n @ s) ! 5 = 49"
    by (simp_all only:) (simp_all add: c_bytes_def byte_of_chr_def)
  then show ?thesis by (simp add: newc_here_def)
qed

definition small :: "int \<Rightarrow> bool" where
  "small v \<longleftrightarrow> 0 \<le> v \<and> v < 4294967296"

lemma newc_field_at:
  assumes "s = pre @ hex_field v @ post" and "length pre = off" and "small v"
  shows "newc_field s off = v"
  using assms by (simp add: newc_field_def atol16_hex_field small_def)

lemma newc_field_take: "off + 8 \<le> k \<Longrightarrow> newc_field (take k s) off = newc_field s off"
  by (simp add: newc_field_def take_drop min_def)

text \<open>The header as a row of thirteen numbers behind the magic.\<close>

definition newc_numbers :: "archive_entry \<Rightarrow> int \<Rightarrow> int \<Rightarrow> int list" where
  "newc_numbers e m n =
     (let dev = (ae_filetype e = AE_IFBLK \<or> ae_filetype e = AE_IFCHR) in
      [ae_ino e mod 2 ^ 32, uint (ae_mode e), ae_uid e, ae_gid e, uint (ae_nlink e), ae_mtime e, m, ae_devmajor e, ae_devminor e,
       if dev then ae_rdevmajor e else 0, if dev then ae_rdevminor e else 0, n, 0])"

lemma newc_fields_numbers: "newc_fields e m n = c_bytes ''070701'' @ concat (map hex_field (newc_numbers e m n))"
  by (simp add: newc_fields_def newc_numbers_def Let_def newc_magic)

lemma newc_number_at:
  assumes "i < length vs" and "small (vs ! i)" and "6 + 8 * i + 8 \<le> k"
  shows "newc_field (take k ((c_bytes ''070701'' @ concat (map hex_field vs)) @ s)) (6 + 8 * i) = vs ! i"
proof -
  have l: "length (concat (map hex_field xs)) = 8 * length xs" for xs by (induction xs) simp_all
  have "concat (map hex_field vs) = concat (map hex_field (take i vs @ vs ! i # drop (Suc i) vs))"
    using id_take_nth_drop [OF assms(1)] by simp
  then have "(c_bytes ''070701'' @ concat (map hex_field vs)) @ s =
     (c_bytes ''070701'' @ concat (map hex_field (take i vs))) @ hex_field (vs ! i) @ (concat (map hex_field (drop (Suc i) vs)) @ s)"
    by simp
  moreover have "length (c_bytes ''070701'' @ concat (map hex_field (take i vs))) = 6 + 8 * i"
    using l assms(1) by (simp add: c_bytes_def)
  ultimately show ?thesis unfolding newc_field_take [OF assms(3)] by (rule newc_field_at [OF _ _ assms(2)])
qed

section \<open>Entries\<close>

text \<open>The entries an archive keeps: numbers of 32 bits, a name, and a body for files, a target for links, nothing else.\<close>

definition no_device :: "archive_entry \<Rightarrow> bool" where
  "no_device e \<longleftrightarrow> ae_filetype e \<noteq> AE_IFBLK \<and> ae_filetype e \<noteq> AE_IFCHR"

definition name_ok :: "bytes \<Rightarrow> bool" where
  "name_ok p \<longleftrightarrow> p \<noteq> [] \<and> 0 \<notin> set p \<and> length p < 4294967295"

definition numbers_ok :: "archive_entry \<Rightarrow> bool" where
  "numbers_ok e \<longleftrightarrow> small (ae_ino e) \<and> small (ae_uid e) \<and> small (ae_gid e) \<and> small (ae_mtime e) \<and> small (ae_devmajor e) \<and>
     small (ae_devminor e) \<and> small (ae_rdevmajor e) \<and> small (ae_rdevminor e) \<and>
     (no_device e \<longrightarrow> ae_rdevmajor e = 0 \<and> ae_rdevminor e = 0)"

definition entry_ok :: "archive_entry \<Rightarrow> bytes \<Rightarrow> bool" where
  "entry_ok e d \<longleftrightarrow> numbers_ok e \<and> (\<exists>p. ae_pathname e = Some p \<and> name_ok p \<and> p \<noteq> TRAILER) \<and> ae_filetype e \<noteq> 0 \<and>
     ae_hardlink e = None \<and> ae_nlink e \<le> 1 \<and> (\<exists>n. ae_size e = Some n \<and> 0 \<le> n) \<and>
     (ae_filetype e = AE_IFREG \<longrightarrow> ae_size e = Some (int (length d)) \<and> length d < 4294967296) \<and>
     (ae_filetype e \<noteq> AE_IFREG \<longrightarrow> d = []) \<and>
     (if ae_filetype e = AE_IFLNK then (\<exists>t. ae_symlink e = Some t \<and> t \<noteq> [] \<and> 0 \<notin> set t \<and> length t \<le> 1048576)
      else ae_symlink e = None)"

definition stored_size :: "archive_entry \<Rightarrow> bytes \<Rightarrow> nat" where
  "stored_size e d = (if link_text e \<noteq> [] then length (link_text e) else length d)"

definition the_name :: "archive_entry \<Rightarrow> bytes" where
  "the_name e = (case ae_pathname e of None \<Rightarrow> [] | Some p \<Rightarrow> p)"

definition head_bytes :: "archive_entry \<Rightarrow> bytes \<Rightarrow> bytes" where
  "head_bytes e d = newc_fields e (int (stored_size e d)) (int (length (the_name e) + 1)) @ the_name e @ [0] @
     replicate (PAD4 (length (the_name e) + 1 + 110)) 0 @ link_text e @
     (if link_text e \<noteq> [] then replicate (PAD4 (length (link_text e))) 0 else [])"

text \<open>What a reader gets: the size is that of the stored body.\<close>

definition as_read :: "archive_entry \<Rightarrow> bytes \<Rightarrow> archive_entry" where
  "as_read e d = e\<lparr>ae_size := Some (int (stored_size e d))\<rparr>"

subsection \<open>Writing an entry\<close>

lemma entry_link: "entry_ok e d \<Longrightarrow> link_text e \<noteq> [] \<longleftrightarrow> ae_filetype e = AE_IFLNK"
  by (auto simp: entry_ok_def link_text_def split: option.splits if_splits)

lemma file_types: "AE_IFLNK \<noteq> AE_IFREG" "AE_IFDIR \<noteq> AE_IFREG" "AE_IFLNK \<noteq> 0" "AE_IFDIR \<noteq> 0" "AE_IFREG \<noteq> 0" "AE_IFDIR \<noteq> AE_IFLNK"
  "AE_IFLNK \<noteq> AE_IFBLK" "AE_IFLNK \<noteq> AE_IFCHR" "AE_IFDIR \<noteq> AE_IFBLK" "AE_IFDIR \<noteq> AE_IFCHR" "AE_IFREG \<noteq> AE_IFBLK" "AE_IFREG \<noteq> AE_IFCHR"
  by (simp_all add: AE_IFLNK_def AE_IFREG_def AE_IFDIR_def AE_IFBLK_def AE_IFCHR_def)

lemma write_header_bytes:
  assumes "entry_ok e d"
  shows "write_header w e = (w\<lparr>nw_out := nw_out w @ head_bytes e d, nw_remaining := length d, nw_padding := PAD4 (length d)\<rparr>, ARCHIVE_OK)"
proof -
  let ?size = "if ae_filetype e \<noteq> AE_IFREG then 0 else entry_size e"
  have size: "?size = int (length d)" using assms by (auto simp: entry_ok_def entry_size_def)
  have l: "length d < 4294967296" "link_text e \<noteq> [] \<Longrightarrow> length (link_text e) \<le> 1048576"
    using assms by (auto simp: entry_ok_def link_text_def split: if_splits)
  have sz: "(if link_text e \<noteq> [] then int (length (link_text e)) else ?size) = int (stored_size e d)"
    using size by (simp add: stored_size_def)
  have ok: "snd (format_hex (int (stored_size e d)) 8) = 0"
    using l by (intro format_hex_ok) (auto simp: stored_size_def)
  have "ae_ino e \<le> 0xffffffff" using assms by (simp add: entry_ok_def numbers_ok_def small_def)
  then show ?thesis
    unfolding write_header_def Let_def the_name_def [symmetric] sz
    using ok size by (simp add: head_bytes_def)
qed

lemma archive_write_newc_header_bytes:
  assumes "entry_ok e d"
  shows "archive_write_newc_header w e =
    (w\<lparr>nw_out := nw_out w @ head_bytes e d, nw_remaining := length d, nw_padding := PAD4 (length d)\<rparr>, ARCHIVE_OK)"
proof -
  have "ae_filetype e \<noteq> 0" "ae_pathname e \<noteq> None" "ae_pathname e \<noteq> Some []" "ae_size e \<noteq> None" "\<not> entry_size e < 0"
    using assms by (auto simp: entry_ok_def name_ok_def entry_size_def)
  then show ?thesis using write_header_bytes [OF assms, of w] by (auto simp: archive_write_newc_header_def)
qed

text \<open>The bytes still due for the entry in progress.\<close>

definition due :: "newc_writer \<Rightarrow> bytes" where
  "due w = (if nw_state w = STATE_DATA then replicate (nw_remaining w + nw_padding w) 0 else [])"

definition writable :: "newc_writer \<Rightarrow> bool" where
  "writable w \<longleftrightarrow> nw_state w = STATE_HEADER \<or> nw_state w = STATE_DATA"

lemma archive_write_header_bytes:
  assumes "entry_ok e d" and "writable w"
  shows "archive_write_header w e = (\<lparr>nw_out = nw_out w @ due w @ head_bytes e d, nw_remaining = length d,
    nw_padding = PAD4 (length d), nw_state = STATE_DATA\<rparr>, ARCHIVE_OK)"
proof -
  have c: "ARCHIVE_OK \<noteq> ARCHIVE_FATAL" "ARCHIVE_OK \<noteq> ARCHIVE_FAILED" by (simp_all add: ARCHIVE_OK_def ARCHIVE_FATAL_def ARCHIVE_FAILED_def)
  define w1 where "w1 = fst (archive_write_finish_entry w)"
  have f: "archive_write_finish_entry w = (w1, ARCHIVE_OK)" "nw_out w1 = nw_out w @ due w"
    using assms(2) by (auto simp: w1_def archive_write_finish_entry_def due_def writable_def archive_write_newc_finish_entry_def)
  show ?thesis
    using archive_write_newc_header_bytes [OF assms(1), of w1] f c by (simp add: archive_write_header_def)
qed

subsection \<open>Reading an entry\<close>

lemma small_uint [simp]: "small (uint (w :: u32))" "small 0"
  using uint_lt2p [of w] by (simp_all add: small_def)

lemma word_of_uint: "word_of_int (uint w) = w"
  by simp

lemma newc_numbers_nth:
  "newc_numbers e m n ! 0 = ae_ino e mod 2 ^ 32" "newc_numbers e m n ! 1 = uint (ae_mode e)" "newc_numbers e m n ! 2 = ae_uid e"
  "newc_numbers e m n ! 3 = ae_gid e" "newc_numbers e m n ! 4 = uint (ae_nlink e)" "newc_numbers e m n ! 5 = ae_mtime e"
  "newc_numbers e m n ! 6 = m" "newc_numbers e m n ! 7 = ae_devmajor e" "newc_numbers e m n ! 8 = ae_devminor e"
  "newc_numbers e m n ! 9 = (if no_device e then 0 else ae_rdevmajor e)" "newc_numbers e m n ! 10 = (if no_device e then 0 else ae_rdevminor e)"
  "newc_numbers e m n ! 11 = n" "length (newc_numbers e m n) = 13"
  by (simp_all add: newc_numbers_def Let_def no_device_def)

lemma read_fields:
  assumes "numbers_ok e" and "small m" and "small n" and "110 \<le> k"
  shows "newc_entry (take k (newc_fields e m n @ s)) = e\<lparr>ae_pathname := None, ae_size := Some m, ae_symlink := None, ae_hardlink := None\<rparr>"
    and "newc_field (take k (newc_fields e m n @ s)) 94 = n" and "newc_field (take k (newc_fields e m n @ s)) 54 = m"
proof -
  let ?v = "newc_numbers e m n"
  have sm: "\<forall>i<13. small (?v ! i)"
  proof -
    have "small (ae_ino e mod 2 ^ 32)" by (simp add: small_def)
    then have "list_all small ?v"
      using assms(1-3) by (simp add: newc_numbers_def numbers_ok_def Let_def)
    then show ?thesis by (simp add: list_all_length newc_numbers_def Let_def)
  qed
  obtain F where F: "F = newc_field (take k (newc_fields e m n @ s))" by simp
  have at: "F (6 + 8 * i) = ?v ! i" if "i < 13" for i
    unfolding F newc_fields_numbers using that assms(4) sm by (intro newc_number_at) (simp_all add: newc_numbers_nth)
  have ino: "ae_ino e mod 2 ^ 32 = ae_ino e" using assms(1) by (simp add: numbers_ok_def small_def)
  have dev: "(if no_device e then 0 else ae_rdevmajor e) = ae_rdevmajor e" "(if no_device e then 0 else ae_rdevminor e) = ae_rdevminor e"
    using assms(1) by (auto simp: numbers_ok_def)
  note num = newc_numbers_nth [of e m n, unfolded ino dev]
  have f: "F 6 = ae_ino e" "F 14 = uint (ae_mode e)" "F 22 = ae_uid e" "F 30 = ae_gid e" "F 38 = uint (ae_nlink e)" "F 46 = ae_mtime e"
    "F 54 = m" "F 62 = ae_devmajor e" "F 70 = ae_devminor e" "F 78 = ae_rdevmajor e" "F 86 = ae_rdevminor e" "F 94 = n"
    using at [of 0] at [of 1] at [of 2] at [of 3] at [of 4] at [of 5] at [of 6] at [of 7] at [of 8] at [of 9] at [of 10] at [of 11]
    unfolding num by simp_all
  show "newc_entry (take k (newc_fields e m n @ s)) = e\<lparr>ae_pathname := None, ae_size := Some m, ae_symlink := None, ae_hardlink := None\<rparr>"
    unfolding newc_entry_def F [symmetric] f by (simp add: archive_entry_new_def)
  show "newc_field (take k (newc_fields e m n @ s)) 94 = n" "newc_field (take k (newc_fields e m n @ s)) 54 = m"
    using f unfolding F by blast+
qed

lemma read_ahead_some: "n \<le> length s \<Longrightarrow> \<exists>k\<ge>n. read_ahead look s n = Some (take k s)"
  by (auto simp: read_ahead_def intro!: exI [of _ "max n (look s n)"])

lemma find_newc_header_here:
  assumes "110 \<le> length s" and "newc_here s"
  shows "find_newc_header look s 0 = (s, ARCHIVE_OK)"
proof -
  obtain k where k: "110 \<le> k" "read_ahead look s 110 = Some (take k s)" using read_ahead_some [OF assms(1)] by blast
  have "newc_here (take k s)" using assms(2) k(1) by (simp add: newc_here_def min_def)
  then show ?thesis using k(2) by (subst find_newc_header.simps) simp
qed

lemma header_newc_bytes:
  assumes "numbers_ok e" and "small m" and "small n" and "nr_in a = newc_fields e m n @ s"
  shows "header_newc look a =
    (a\<lparr>nr_in := s, nr_remaining := m, nr_padding := nat ((- m) mod 4)\<rparr>,
     e\<lparr>ae_pathname := None, ae_size := Some m, ae_symlink := None, ae_hardlink := None\<rparr>, nat n, nat ((2 - n) mod 4), ARCHIVE_OK)"
proof -
  have l: "110 \<le> length (nr_in a)" using assms(4) by simp
  have here: "find_newc_header look (nr_in a) 0 = (nr_in a, ARCHIVE_OK)"
    using find_newc_header_here [OF l] assms(4) newc_here_fields by simp
  obtain k where k: "110 \<le> k" "read_ahead look (nr_in a) 110 = Some (take k (nr_in a))" using read_ahead_some [OF l] by blast
  have c: "\<not> ARCHIVE_OK < ARCHIVE_WARN" by (simp add: ARCHIVE_OK_def ARCHIVE_WARN_def)
  have n: "0 \<le> n" using assms(3) by (simp add: small_def)
  note r = read_fields [OF assms(1-3) k(1), of s, folded assms(4)]
  have d: "drop 110 (nr_in a) = s" using assms(4) by simp
  show ?thesis unfolding header_newc_def Let_def here prod.case k(2) option.case using c n k(2)
    by (simp add: r d)
qed

text \<open>An entry in the stream: what its header takes, and what follows it.\<close>

definition front_bytes :: "archive_entry \<Rightarrow> bytes \<Rightarrow> bytes" where
  "front_bytes e d = newc_fields e (int (stored_size e d)) (int (length (the_name e) + 1)) @ (the_name e @ [0] @
     replicate (PAD4 (length (the_name e) + 1 + 110)) 0) @ link_text e"

definition body_pad :: "archive_entry \<Rightarrow> bytes \<Rightarrow> bytes" where
  "body_pad e d = replicate (PAD4 (stored_size e d)) 0"

definition entry_bytes :: "archive_entry \<Rightarrow> bytes \<Rightarrow> bytes" where
  "entry_bytes e d = head_bytes e d @ d @ replicate (PAD4 (length d)) 0"

lemma PAD4_0 [simp]: "PAD4 0 = 0"
  by (simp add: PAD4_def)

lemma entry_bytes_split:
  assumes "entry_ok e d"
  shows "entry_bytes e d = front_bytes e d @ d @ body_pad e d"
proof (cases "ae_filetype e = AE_IFLNK")
  case True
  then have "d = []" "link_text e \<noteq> []" using assms entry_link [OF assms] file_types by (auto simp: entry_ok_def)
  then show ?thesis by (simp add: entry_bytes_def head_bytes_def front_bytes_def body_pad_def stored_size_def)
next
  case False
  then have "link_text e = []" using entry_link [OF assms] by blast
  then show ?thesis by (simp add: entry_bytes_def head_bytes_def front_bytes_def body_pad_def stored_size_def)
qed

lemma name_padding: "nat ((2 - int (n + 1)) mod 4) = PAD4 (n + 1 + 110)"
proof -
  have "(2 - (int n + 1)) mod 4 = (- (int n + 111)) mod 4" by presburger
  then show ?thesis by (simp add: PAD4_def algebra_simps)
qed

lemma takeWhile_nonzero: "0 \<notin> set p \<Longrightarrow> takeWhile (\<lambda>c. c \<noteq> 0) (p @ s) = p @ takeWhile (\<lambda>c. c \<noteq> 0) s"
  by (rule takeWhile_append2) metis

lemma cut_name_at: "0 \<notin> set p \<Longrightarrow> cut_name (length p + 1) (p @ 0 # s) = p"
  by (simp add: cut_name_def takeWhile_nonzero)

lemma cut_name_all: "0 \<notin> set p \<Longrightarrow> cut_name (length p) (p @ s) = p"
  using takeWhile_nonzero [of p "[]"] by (simp add: cut_name_def)

lemma read_ahead_exact: "\<exists>s'. read_ahead look (p @ s) (length p) = Some (p @ s')"
  by (auto simp: read_ahead_def)

lemma read_symlink_bytes:
  assumes "entry_ok e d" and "nr_in a = link_text e @ s" and "nr_remaining a = int (stored_size e d)"
  shows "read_symlink look a (e\<lparr>ae_size := z, ae_symlink := None, ae_hardlink := None\<rparr>) =
    (a\<lparr>nr_in := s, nr_remaining := int (length d)\<rparr>, e\<lparr>ae_size := z\<rparr>, True)"
proof (cases "ae_filetype e = AE_IFLNK")
  case True
  then obtain t where t: "ae_symlink e = Some t" "t \<noteq> []" "0 \<notin> set t" "length t \<le> 1048576" using assms(1) by (auto simp: entry_ok_def)
  have d: "d = []" "ae_hardlink e = None" using True assms(1) file_types by (auto simp: entry_ok_def)
  have lt: "link_text e = t" "nr_remaining a = int (length t)" using t assms(3) by (simp_all add: link_text_def stored_size_def)
  obtain s' where s': "read_ahead look (t @ s) (length t) = Some (t @ s')" using read_ahead_exact by blast
  show ?thesis
    using True t d lt s' assms(2) cut_name_all [OF t(3), of s']
    by (simp add: read_symlink_def ae_filetype_def read_ahead64_def read_consume_def)
next
  case False
  then have n: "link_text e = []" "ae_symlink e = None" "ae_hardlink e = None" using entry_link [OF assms(1)] assms(1) by (auto simp: entry_ok_def)
  then have "stored_size e d = length d" by (simp add: stored_size_def)
  then show ?thesis using False n assms(2,3) by (simp add: read_symlink_def ae_filetype_def)
qed

lemma entry_sizes:
  assumes "entry_ok e d"
  shows "small (int (stored_size e d))" and "small (int (length (the_name e) + 1))" and "numbers_ok e"
    and "0 \<notin> set (the_name e)" and "the_name e \<noteq> TRAILER" and "ae_pathname e = Some (the_name e)"
  using assms entry_link [OF assms]
  by (auto simp: entry_ok_def stored_size_def small_def the_name_def name_ok_def link_text_def split: if_splits)

text \<open>The part of a header record that every entry shares, the trailer included.\<close>

lemma read_name:
  assumes "0 \<notin> set p" and "nr_in a = (p @ [0] @ replicate (PAD4 (length p + 1 + 110)) 0) @ s"
  shows "\<exists>h. read_ahead look (nr_in a) (length p + 1 + PAD4 (length p + 1 + 110)) = Some h \<and> cut_name (length p + 1) h = p \<and>
    drop (length p + 1 + PAD4 (length p + 1 + 110)) (nr_in a) = s"
proof -
  let ?q = "p @ [0] @ replicate (PAD4 (length p + 1 + 110)) 0"
  have l: "length ?q = length p + 1 + PAD4 (length p + 1 + 110)" by simp
  obtain s' where s': "read_ahead look (?q @ s) (length ?q) = Some (?q @ s')" using read_ahead_exact by blast
  have "cut_name (length p + 1) (?q @ s') = p" using cut_name_at [OF assms(1)] by simp
  moreover have "drop (length ?q) (?q @ s) = s" by (metis append_eq_conv_conj)
  ultimately show ?thesis using s' unfolding l assms(2) by blast
qed

lemma read_header_bytes:
  assumes e: "entry_ok e d" and a: "nr_in a = front_bytes e d @ s" and n: "nr_format a = Fmt_Newc"
  shows "archive_read_format_cpio_read_header look a =
    (a\<lparr>nr_in := s, nr_remaining := int (length d), nr_padding := PAD4 (stored_size e d), nr_offset := 0\<rparr>, as_read e d, ARCHIVE_OK)"
proof -
  let ?p = "the_name e" and ?m = "int (stored_size e d)" and ?n = "int (length (the_name e) + 1)"
  let ?e0 = "e\<lparr>ae_pathname := None, ae_size := Some ?m, ae_symlink := None, ae_hardlink := None\<rparr>"
  let ?s1 = "(?p @ [0] @ replicate (PAD4 (length ?p + 1 + 110)) 0) @ link_text e @ s"
  let ?a1 = "a\<lparr>nr_in := ?s1, nr_remaining := int (stored_size e d), nr_padding := PAD4 (stored_size e d)\<rparr>"
  note sz = entry_sizes [OF e]
  have "nr_in a = newc_fields e ?m ?n @ ?s1" using a by (simp add: front_bytes_def)
  from header_newc_bytes [OF sz(3,1,2) this]
  have h: "cpio_header look a = (?a1, ?e0, length ?p + 1, PAD4 (length ?p + 1 + 110), ARCHIVE_OK)"
    unfolding name_padding by (simp add: PAD4_def cpio_header_def n)
  have "nr_in ?a1 = ?s1" by simp
  from read_name [OF sz(4) this, of look] obtain b where b: "read_ahead look (nr_in ?a1) (length ?p + 1 + PAD4 (length ?p + 1 + 110)) = Some b"
    "cut_name (length ?p + 1) b = ?p" "drop (length ?p + 1 + PAD4 (length ?p + 1 + 110)) (nr_in ?a1) = link_text e @ s" by blast
  let ?a2 = "?a1\<lparr>nr_offset := 0, nr_in := link_text e @ s\<rparr>"
  have named: "?e0\<lparr>ae_pathname := Some ?p\<rparr> = e\<lparr>ae_size := Some ?m, ae_symlink := None, ae_hardlink := None\<rparr>"
    using sz(6) by (cases e) simp
  have "nr_in ?a2 = link_text e @ s" "nr_remaining ?a2 = int (stored_size e d)" by simp_all
  from read_symlink_bytes [OF e this, of look "Some ?m"]
  have l: "read_symlink look ?a2 (?e0\<lparr>ae_pathname := Some ?p\<rparr>) = (?a2\<lparr>nr_in := s, nr_remaining := int (length d)\<rparr>, as_read e d, True)"
    using named by (simp add: as_read_def)
  have t: "\<not> (length ?p + 1 = 11 \<and> cut_name 11 b = TRAILER)" using b(2) sz(5) by auto
  have c: "\<not> ARCHIVE_OK < ARCHIVE_WARN" by (simp add: ARCHIVE_OK_def ARCHIVE_WARN_def)
  have "ae_nlink (as_read e d) \<le> 1" using e by (simp add: entry_ok_def as_read_def)
  then have r: "record_hardlink x (as_read e d) = (x, as_read e d)" for x by (simp add: record_hardlink_def)
  show ?thesis
    unfolding archive_read_format_cpio_read_header_def h prod.case if_not_P [OF c] b(1) option.case Let_def b(2,3) l if_not_P [OF t] r
    by simp
qed

subsection \<open>The reader between calls\<close>

text \<open>\<open>s\<close> is the stream behind the entry in progress, \<open>d\<close> what is left of its body.\<close>

definition stream_behind :: "newc_reader \<Rightarrow> bytes \<Rightarrow> bool" where
  "stream_behind a s \<longleftrightarrow> nr_format a = Fmt_Newc \<and>
     (nr_unconsumed a = 0 \<and> nr_state a = STATE_HEADER \<and> nr_in a = s \<or>
      nr_state a = STATE_DATA \<and> 0 \<le> nr_remaining a \<and> nat (nr_remaining a) + nr_padding a + nr_unconsumed a \<le> length (nr_in a) \<and>
        drop (nat (nr_remaining a) + nr_padding a + nr_unconsumed a) (nr_in a) = s)"

definition body_left :: "newc_reader \<Rightarrow> bytes \<Rightarrow> bytes \<Rightarrow> bool" where
  "body_left a d s \<longleftrightarrow> nr_format a = Fmt_Newc \<and> nr_state a = STATE_DATA \<and> nr_remaining a = int (length d) \<and>
     nr_unconsumed a \<le> length (nr_in a) \<and> drop (nr_unconsumed a) (nr_in a) = d @ replicate (nr_padding a) 0 @ s"

lemma body_left_behind:
  assumes "body_left a d s"
  shows "stream_behind a s"
proof -
  let ?u = "nr_unconsumed a" and ?q = "d @ replicate (nr_padding a) 0"
  have b: "nr_format a = Fmt_Newc" "nr_state a = STATE_DATA" "nr_remaining a = int (length d)" "?u \<le> length (nr_in a)"
    "drop ?u (nr_in a) = ?q @ s"
    using assms by (simp_all add: body_left_def)
  have n: "nat (nr_remaining a) + nr_padding a + ?u = length ?q + ?u" using b(3) by simp
  have "length (nr_in a) - ?u = length (?q @ s)" using arg_cong [OF b(5), of length] by simp
  then have "length ?q + ?u \<le> length (nr_in a)" using b(4) by simp
  moreover have "drop (length ?q + ?u) (nr_in a) = s"
    using arg_cong [OF b(5), of "drop (length ?q)"] by (simp add: add.commute)
  ultimately show ?thesis using b(1,2,3) unfolding stream_behind_def n by simp
qed

lemma read_consume_all: "n \<le> length s \<Longrightarrow> read_consume s (int n) = (drop n s, int n)"
  by (simp add: read_consume_def)

lemma next_header_skip:
  assumes "stream_behind a s"
  shows "\<exists>a'. archive_read_next_header look a x = archive_read_next_header look a' x \<and> nr_state a' = STATE_HEADER \<and>
    nr_unconsumed a' = 0 \<and> nr_in a' = s \<and> nr_links a' = nr_links a \<and> nr_format a' = Fmt_Newc"
proof (cases "nr_state a = STATE_HEADER")
  case True
  then have "nr_unconsumed a = 0" "nr_in a = s" "nr_format a = Fmt_Newc" using assms by (auto simp: stream_behind_def)
  with True show ?thesis by blast
next
  case False
  let ?a = "a\<lparr>nr_in := s, nr_remaining := 0, nr_padding := 0, nr_unconsumed := 0, nr_state := STATE_HEADER\<rparr>"
  let ?n = "nat (nr_remaining a) + nr_padding a + nr_unconsumed a"
  have b: "nr_state a = STATE_DATA" "0 \<le> nr_remaining a" "\<not> ?n > length (nr_in a)" "drop ?n (nr_in a) = s"
    "nr_format a = Fmt_Newc" using assms False by (auto simp: stream_behind_def)
  have n: "nr_remaining a + int (nr_padding a) + int (nr_unconsumed a) = int ?n" using b(2) by simp
  have "read_consume (nr_in a) (int ?n) = (s, int ?n)"
    using read_consume_all [of ?n "nr_in a"] b(3) unfolding b(4) by (simp only: not_less simp_thms)
  then have "archive_read_data_skip a = (?a, ARCHIVE_OK)"
    unfolding archive_read_data_skip_def archive_read_format_cpio_skip_def Let_def n by simp
  then have "archive_read_next_header look a x = archive_read_next_header look ?a x"
    using b(1) by (simp add: archive_read_next_header_def)
  then show ?thesis using b(5) by (intro exI [of _ ?a]) simp
qed

lemma next_header_entry:
  assumes "entry_ok e d" and "stream_behind a (entry_bytes e d @ s)"
  shows "\<exists>a'. archive_read_next_header look a x = (a', as_read e d, ARCHIVE_OK) \<and> body_left a' d s \<and> nr_offset a' = 0"
proof -
  obtain b where b: "archive_read_next_header look a x = archive_read_next_header look b x" "nr_state b = STATE_HEADER"
    "nr_unconsumed b = 0" "nr_in b = entry_bytes e d @ s" "nr_format b = Fmt_Newc" using next_header_skip [OF assms(2)] by blast
  let ?b = "b\<lparr>nr_in := d @ body_pad e d @ s, nr_remaining := int (length d), nr_padding := PAD4 (stored_size e d), nr_offset := 0\<rparr>"
  have "nr_in b = front_bytes e d @ d @ body_pad e d @ s" using b(4) entry_bytes_split [OF assms(1)] by simp
  from read_header_bytes [OF assms(1) this b(5)]
  have "archive_read_format_cpio_read_header look b = (?b, as_read e d, ARCHIVE_OK)" .
  then have "archive_read_next_header look b x = (?b\<lparr>nr_state := STATE_DATA\<rparr>, as_read e d, ARCHIVE_OK)"
    using b(2) by (simp add: archive_read_next_header_def ARCHIVE_OK_def ARCHIVE_EOF_def ARCHIVE_FATAL_def)
  moreover have "body_left (?b\<lparr>nr_state := STATE_DATA\<rparr>) d s" using b(3,5) by (simp add: body_left_def body_pad_def)
  ultimately show ?thesis using b(1) by (intro exI [of _ "?b\<lparr>nr_state := STATE_DATA\<rparr>"]) simp
qed

lemma read_ahead_prefix: "n \<le> length s \<Longrightarrow> \<exists>h. read_ahead look s n = Some h \<and> n \<le> length h \<and> h = take (length h) s"
  by (auto simp: read_ahead_def min_def)

lemma data_block_step:
  assumes "body_left a d s" and "d \<noteq> []"
  shows "\<exists>a' b d'. archive_read_data_block look a = (a', b, nr_offset a, ARCHIVE_OK) \<and> d = b @ d' \<and> b \<noteq> [] \<and> body_left a' d' s \<and>
    nr_offset a' = nr_offset a + length b"
proof -
  let ?q = "d @ replicate (nr_padding a) 0 @ s"
  have q: "drop (nr_unconsumed a) (nr_in a) = ?q" "nr_state a = STATE_DATA" "nr_remaining a = int (length d)"
    "nr_format a = Fmt_Newc" using assms(1) by (simp_all add: body_left_def)
  have "1 \<le> length ?q" using assms(2) by (cases d) simp_all
  then obtain h where k: "read_ahead look ?q 1 = Some h" and h: "1 \<le> length h" "h = take (length h) ?q"
    using read_ahead_prefix by blast
  define n where "n = min (length h) (length d)"
  have ni: "nat (min (int (length h)) (int (length d))) = n" by (simp add: n_def)
  have n: "0 < n" "n \<le> length d" "n \<le> length h" using h(1) assms(2) by (auto simp: n_def)
  have "take n (take (length h) ?q) = take n ?q" using n(3) by (simp only: take_take min_absorb1)
  then have "take n h = take n ?q" using h(2) by metis
  then have t: "take n h = take n d" using n(2) by simp
  let ?a = "a\<lparr>nr_in := ?q, nr_unconsumed := n, nr_offset := nr_offset a + n, nr_remaining := int (length d) - int n\<rparr>"
  have "archive_read_data_block look a = (?a, take n d, nr_offset a, ARCHIVE_OK)"
    using q k assms(2) t ni
    by (simp add: archive_read_data_block_def archive_read_format_cpio_read_data_def Let_def del: take_take take_append length_take)
  moreover have "body_left ?a (drop n d) s" using q n(2) by (simp add: body_left_def of_nat_diff)
  ultimately show ?thesis using n(1,2) assms(2) by (intro exI [of _ ?a] exI [of _ "take n d"] exI [of _ "drop n d"]) simp
qed

lemma data_block_end:
  assumes "body_left a [] s"
  shows "\<exists>a'. archive_read_data_block look a = (a', [], nr_offset a, ARCHIVE_EOF) \<and> stream_behind a' s"
  using assms by (simp add: body_left_def archive_read_data_block_def archive_read_format_cpio_read_data_def Let_def stream_behind_def)

subsection \<open>The end of the archive\<close>

definition trailer_entry :: archive_entry where
  "trailer_entry = archive_entry_new\<lparr>ae_nlink := 1, ae_size := Some 0, ae_pathname := Some TRAILER\<rparr>"

definition trailer_bytes :: bytes where
  "trailer_bytes = newc_fields trailer_entry 0 11 @ TRAILER @ [0] @ replicate (PAD4 (length TRAILER + 1 + 110)) 0"

lemma TRAILER_props [simp]: "length TRAILER = 10" "0 \<notin> set TRAILER" "TRAILER \<noteq> []"
  by (simp_all add: TRAILER_def c_bytes_def byte_of_chr_def)

lemma trailer_written: "archive_write_newc_close w = (w\<lparr>nw_out := nw_out w @ trailer_bytes, nw_remaining := 0, nw_padding := 0\<rparr>, ARCHIVE_OK)"
proof -
  have f: "ae_filetype trailer_entry \<noteq> AE_IFREG" "link_text trailer_entry = []" "ae_pathname trailer_entry = Some TRAILER" "ae_ino trailer_entry = 0"
    by (simp_all add: ae_filetype_def trailer_entry_def archive_entry_new_def AE_IFREG_def link_text_def)
  have "snd (format_hex 0 8) = 0" by (rule format_hex_ok) simp_all
  then show ?thesis
    unfolding archive_write_newc_close_def trailer_entry_def [symmetric]
    using f by (simp add: write_header_def trailer_bytes_def)
qed

lemma archive_write_close_bytes:
  assumes "writable w"
  shows "nw_out (fst (archive_write_close w)) = nw_out w @ due w @ trailer_bytes" and "snd (archive_write_close w) = ARCHIVE_OK"
  using assms by (auto simp: writable_def archive_write_close_def trailer_written due_def archive_write_newc_finish_entry_def ARCHIVE_OK_def)

lemma read_trailer:
  assumes "nr_in a = trailer_bytes @ s" and n: "nr_format a = Fmt_Newc"
  shows "\<exists>a' e. archive_read_format_cpio_read_header look a = (a', e, ARCHIVE_EOF) \<and> nr_in a' = s"
proof -
  let ?e0 = "trailer_entry\<lparr>ae_pathname := None, ae_size := Some 0, ae_symlink := None, ae_hardlink := None\<rparr>"
  let ?s1 = "(TRAILER @ [0] @ replicate (PAD4 (length TRAILER + 1 + 110)) 0) @ s"
  let ?a1 = "a\<lparr>nr_in := ?s1, nr_remaining := 0, nr_padding := 0\<rparr>"
  let ?n = "length TRAILER + 1 + PAD4 (length TRAILER + 1 + 110)"
  have ok: "numbers_ok trailer_entry" "small 0" "small 11"
    by (simp_all add: numbers_ok_def small_def trailer_entry_def archive_entry_new_def)
  have "nr_in a = newc_fields trailer_entry 0 11 @ ?s1" using assms by (simp add: trailer_bytes_def)
  from header_newc_bytes [OF ok this]
  have h: "cpio_header look a = (?a1, ?e0, length TRAILER + 1, PAD4 (length TRAILER + 1 + 110), ARCHIVE_OK)"
    by (simp add: PAD4_def cpio_header_def n)
  have "nr_in ?a1 = ?s1" by simp
  from read_name [OF _ this, of look] obtain b where b: "read_ahead look (nr_in ?a1) ?n = Some b"
    "cut_name (length TRAILER + 1) b = TRAILER" "drop ?n (nr_in ?a1) = s" by auto
  have c: "\<not> ARCHIVE_OK < ARCHIVE_WARN" by (simp add: ARCHIVE_OK_def ARCHIVE_WARN_def)
  have y: "read_symlink look x (?e0\<lparr>ae_pathname := p\<rparr>) = (x, ?e0\<lparr>ae_pathname := p\<rparr>, True)" for x p
    by (simp add: read_symlink_def ae_filetype_def trailer_entry_def archive_entry_new_def AE_IFLNK_def)
  have t: "length TRAILER + 1 = 11 \<and> cut_name 11 b = TRAILER" using b(2) by simp
  show ?thesis
    unfolding archive_read_format_cpio_read_header_def h prod.case if_not_P [OF c] b(1) option.case Let_def b(2,3) y if_P [OF t]
    by simp
qed

lemma next_header_end:
  assumes "stream_behind a (trailer_bytes @ s)"
  shows "\<exists>a' e. archive_read_next_header look a x = (a', e, ARCHIVE_EOF)"
proof -
  obtain b where b: "archive_read_next_header look a x = archive_read_next_header look b x" "nr_state b = STATE_HEADER"
    "nr_in b = trailer_bytes @ s" "nr_format b = Fmt_Newc" using next_header_skip [OF assms] by blast
  from read_trailer [OF b(3,4), of look] obtain a' e where "archive_read_format_cpio_read_header look b = (a', e, ARCHIVE_EOF)" by blast
  then show ?thesis using b(1,2) by (simp add: archive_read_next_header_def ARCHIVE_OK_def ARCHIVE_EOF_def ARCHIVE_FATAL_def)
qed

text \<open>The two numbers of a device determine it, so comparing them compares the devices.\<close>

lemma dev_numbers_inj:
  assumes "dev_major d = dev_major d'" and "dev_minor d = dev_minor d'"
  shows "d = d'"
proof (rule bit_word_eqI)
  fix n assume n: "n < LENGTH(64)"
  have m: "(0xFFFFF000 :: u64) = push_bit 12 (mask 20)" "(0xFFF :: u64) = mask 12" "(0xFFFFFF00 :: u64) = push_bit 8 (mask 24)" "(0xFF :: u64) = mask 8"
    by (simp_all add: mask_eq_exp_minus_1 push_bit_eq_mult)
  have ma: "bit ((drop_bit 32 d AND 0xFFFFF000) OR (drop_bit 8 d AND 0xFFF)) i = bit ((drop_bit 32 d' AND 0xFFFFF000) OR (drop_bit 8 d' AND 0xFFF)) i" for i
    using assms(1) unfolding dev_major_def by (simp only: word_uint_eq_iff [symmetric])
  have mi: "bit ((drop_bit 12 d AND 0xFFFFFF00) OR (d AND 0xFF)) i = bit ((drop_bit 12 d' AND 0xFFFFFF00) OR (d' AND 0xFF)) i" for i
    using assms(2) unfolding dev_minor_def by (simp only: word_uint_eq_iff [symmetric])
  consider "n < 8" | "8 \<le> n" "n < 20" | "20 \<le> n" "n < 44" | "44 \<le> n" by linarith
  then show "bit d n = bit d' n"
  proof cases
    case 1
    then show ?thesis using mi [of n] unfolding m by (simp add: bit_simps)
  next
    case 2
    then have "n - 8 < 12" by simp
    with 2 show ?thesis using ma [of "n - 8"] unfolding m by (simp add: bit_simps)
  next
    case 3
    then have "\<not> n - 12 < 8" "n - 20 < 24" "n - 20 < 64" "n - 12 < 64" by simp_all
    with 3 show ?thesis using mi [of "n - 12"] unfolding m by (simp add: bit_simps)
  next
    case 4
    then have "\<not> n - 32 < 12" "n - 44 < 20" "n - 44 < 64" "n - 32 < 64" using n by simp_all
    with 4 show ?thesis using ma [of "n - 32"] n unfolding m by (simp add: bit_simps)
  qed
qed

end
