(* ===== verification/Bxxt_Cpio_Correct.thy ===== *)
theory Bxxt_Cpio_Correct
  imports Bxxt_Cpio Cpio_Newc_Correct "HOL-Library.Multiset"
begin

text \<open>
  The ramdisk packer writes every path of the directory tree once, in the order of
  \<open>strcmp\<close>, and the unpacker gives the disk writer what was packed.
\<close>

section \<open>Sorting\<close>

lemma insert_path_insort:
  assumes "sym_ok p" and "list_all sym_ok qs"
  shows "map Abs_c_string (insert_path p qs) = insort (Abs_c_string p) (map Abs_c_string qs) \<and> list_all sym_ok (insert_path p qs)"
  using assms(2)
proof (induction qs)
  case (Cons q qs)
  have "Abs_c_string p \<le> Abs_c_string q \<longleftrightarrow> strcmp p q \<le> 0"
    using assms(1) Cons.prems by (simp add: less_eq_c_string.rep_eq Abs_c_string_inverse)
  with Cons assms(1) show ?case by (simp add: compare_paths_def)
qed (simp add: assms(1))

lemma qsort_paths_sort:
  assumes "list_all sym_ok ps"
  shows "map Abs_c_string (qsort_paths ps) = sort (map Abs_c_string ps) \<and> list_all sym_ok (qsort_paths ps)"
  using assms
proof (induction ps)
  case (Cons p ps)
  then show ?case using insert_path_insort [of p "qsort_paths ps"] by (simp add: qsort_paths_def)
qed (simp add: qsort_paths_def)

lemma mset_insert_path [simp]: "mset (insert_path p qs) = add_mset p (mset qs)"
  by (induction qs) auto

lemma mset_qsort_paths [simp]: "mset (qsort_paths ps) = mset ps"
  by (induction ps) (simp_all add: qsort_paths_def)

lemma set_qsort_paths [simp]: "set (qsort_paths ps) = set ps"
  using mset_qsort_paths [of ps] by (metis set_mset_mset)

section \<open>Chunks\<close>

lemma write_chunks_bytes:
  assumes "nw_state w = STATE_DATA" and "nw_remaining w = length (concat cs) + k" and "\<forall>c\<in>set cs. length c \<le> 2147483647"
  shows "write_chunks w cs = w\<lparr>nw_out := nw_out w @ concat cs, nw_remaining := k\<rparr>"
  using assms
proof (induction cs arbitrary: w)
  case (Cons c cs)
  have "archive_write_data w c = (w\<lparr>nw_out := nw_out w @ c, nw_remaining := length (concat cs) + k\<rparr>, int (length c))"
    using Cons.prems by (simp add: archive_write_data_def archive_write_newc_data_def)
  then show ?case using Cons.IH [of "w\<lparr>nw_out := nw_out w @ c, nw_remaining := length (concat cs) + k\<rparr>"] Cons.prems by simp
qed simp

section \<open>Directory trees\<close>

text \<open>A directory as a tree, and the paths below it in the order in which they are visited.\<close>

datatype dtree = File | Dir "(bytes \<times> dtree) list"

fun tree_paths :: "bytes \<Rightarrow> dtree \<Rightarrow> bytes list" and dir_paths :: "bytes \<Rightarrow> (bytes \<times> dtree) list \<Rightarrow> bytes list" where
  "tree_paths name File = []"
| "tree_paths name (Dir es) = dir_paths name es"
| "dir_paths name [] = []"
| "dir_paths name ((d, t) # es) = tree_paths (name @ slash @ d) t @ [name @ slash @ d] @ dir_paths name es"

fun height :: "dtree \<Rightarrow> nat" and dir_height :: "(bytes \<times> dtree) list \<Rightarrow> nat" where
  "height File = 0"
| "height (Dir es) = Suc (dir_height es)"
| "dir_height [] = 0"
| "dir_height ((d, t) # es) = max (height t) (dir_height es)"

text \<open>The host shows a tree: what \<open>readdir\<close> gives, the two dot entries anywhere among it.\<close>

definition dir_kind :: "bytes \<times> dtree \<Rightarrow> bytes \<times> bool" where
  "dir_kind x = (fst x, snd x \<noteq> File)"

lemma dir_kind_pair [simp]: "dir_kind (d, t) = (d, t \<noteq> File)"
  by (simp add: dir_kind_def)

fun shows_tree :: "host \<Rightarrow> bytes \<Rightarrow> dtree \<Rightarrow> bool" and shows_dir :: "host \<Rightarrow> bytes \<Rightarrow> (bytes \<times> dtree) list \<Rightarrow> bool" where
  "shows_tree h name File = True"
| "shows_tree h name (Dir es) =
     ((\<exists>ls. h_list h name = Some ls \<and> filter (\<lambda>(d, is_dir). \<not> (is_dir \<and> is_dots d)) ls = map dir_kind es) \<and> shows_dir h name es)"
| "shows_dir h name [] = True"
| "shows_dir h name ((d, t) # es) =
     (length (name @ slash @ d) < CPIO_PATH_MAX \<and> shows_tree h (name @ slash @ d) t \<and> shows_dir h name es)"

lemma walk_path_short: "length (name @ slash @ d) < CPIO_PATH_MAX \<Longrightarrow> walk_path name d = name @ slash @ d"
  unfolding walk_path_def by (rule take_all) simp

lemma walk_dir_dots: "walk_dir down fn name ls arg = walk_dir down fn name (filter (\<lambda>(d, is_dir). \<not> (is_dir \<and> is_dots d)) ls) arg"
  by (induction down fn name ls arg rule: walk_dir.induct) (auto simp: Let_def split: option.splits)

lemma dir_kind_dots:
  assumes "filter P ls = map dir_kind es" and "x \<in> set es"
  shows "P (dir_kind x)"
proof -
  have "dir_kind x \<in> set (filter P ls)" unfolding assms(1) using assms(2) by simp
  then show ?thesis by simp
qed

lemma tree_walk_paths:
  "shows_tree h name t \<Longrightarrow> t \<noteq> File \<Longrightarrow> height t \<le> k \<Longrightarrow> bxxt_tree_walk k h fn name arg = Some (fold fn (tree_paths name t) arg)"
  "shows_dir h name es \<Longrightarrow> (\<forall>x\<in>set es. \<not> (snd x \<noteq> File \<and> is_dots (fst x))) \<Longrightarrow> dir_height es \<le> k \<Longrightarrow>
    walk_dir (bxxt_tree_walk k h fn) fn name (map dir_kind es) arg = Some (fold fn (dir_paths name es) arg)"
proof (induction name t and name es arbitrary: k arg and k arg rule: tree_paths_dir_paths.induct)
  case (2 name es)
  then obtain k' where k: "k = Suc k'" by (cases k) auto
  obtain ls where ls: "h_list h name = Some ls" "filter (\<lambda>(d, is_dir). \<not> (is_dir \<and> is_dots d)) ls = map dir_kind es"
    using 2(2) by auto
  have "\<forall>x\<in>set es. \<not> (snd x \<noteq> File \<and> is_dots (fst x))" using dir_kind_dots [OF ls(2)] by (fastforce simp: dir_kind_def)
  then have "walk_dir (bxxt_tree_walk k' h fn) fn name (map dir_kind es) arg = Some (fold fn (dir_paths name es) arg)"
    using 2 k by auto
  then show ?case using ls walk_dir_dots [of "bxxt_tree_walk k' h fn" fn name ls arg] k by simp
next
  case (4 name d t es)
  then have p: "walk_path name d = name @ slash @ d" by (intro walk_path_short) simp
  have e: "walk_dir (bxxt_tree_walk k h fn) fn name (map dir_kind es) arg = Some (fold fn (dir_paths name es) arg)" for arg
    using 4 by auto
  show ?case
  proof (cases t)
    case File
    then show ?thesis using e p by simp
  next
    case (Dir xs)
    then have "bxxt_tree_walk k h fn (name @ slash @ d) arg = Some (fold fn (tree_paths (name @ slash @ d) t) arg)"
      using 4 by auto
    moreover have "\<not> is_dots d" using 4(4) Dir by auto
    ultimately show ?thesis using e p Dir by (simp add: Let_def)
  qed
qed simp_all

text \<open>
  A path that fills the buffer is cut to the directory itself: the walk goes down for ever.
\<close>

lemma tree_walk_cut:
  assumes "h_list h name = Some (pre @ (d, True) # post)" and "walk_path name d = name" and "\<not> is_dots d"
  shows "bxxt_tree_walk k h fn name arg = None"
proof (induction k arbitrary: arg)
  case (Suc k)
  have "walk_dir (bxxt_tree_walk k h fn) fn name (pre @ (d, True) # post) x = None" for x
  proof (induction pre arbitrary: x)
    case Nil
    show ?case using assms(2,3) Suc by simp
  next
    case (Cons q pre)
    obtain d' b where q: "q = (d', b)" by (cases q)
    show ?case using Cons by (auto simp: q Let_def split: option.splits)
  qed
  then show ?case using assms(1) by simp
qed simp

section \<open>Packing\<close>

text \<open>What a path stands for: the mode, the size and the body that an entry gets.\<close>

definition S_IFMT_of :: "u32 \<Rightarrow> u32" where
  "S_IFMT_of m = m AND AE_IFMT"

definition packable :: "host \<Rightarrow> bytes \<Rightarrow> bytes \<Rightarrow> bool" where
  "packable h root p \<longleftrightarrow>
     (case h_lstat h p of None \<Rightarrow> False
      | Some (m, n) \<Rightarrow> 0 \<le> n \<and> S_IFMT_of m \<in> {AE_IFREG, AE_IFDIR, AE_IFLNK} \<and>
          (S_IFMT_of m = AE_IFREG \<longrightarrow> n = int (length (concat (h_reads h p))) \<and> n < 4294967296 \<and> (\<forall>c\<in>set (h_reads h p). length c \<le> 4096)) \<and>
          (S_IFMT_of m = AE_IFLNK \<longrightarrow> (\<exists>t. h_readlink h p = Some t \<and> t \<noteq> [] \<and> 0 \<notin> set t \<and> length t < CPIO_PATH_MAX))) \<and>
     name_ok (drop (length root + 1) p) \<and> drop (length root + 1) p \<noteq> TRAILER"

definition packed_entry :: "host \<Rightarrow> bytes \<Rightarrow> u32 \<Rightarrow> bytes \<Rightarrow> archive_entry" where
  "packed_entry h root ino p =
     (let (m, n) = the (h_lstat h p) in
      archive_entry_new\<lparr>ae_pathname := Some (drop (length root + 1) p), ae_mode := m, ae_ino := uint ino, ae_nlink := 1, ae_size := Some n,
        ae_symlink := if S_IFMT_of m = AE_IFLNK then h_readlink h p else None\<rparr>)"

definition packed_body :: "host \<Rightarrow> bytes \<Rightarrow> bytes" where
  "packed_body h p = (if S_IFMT_of (fst (the (h_lstat h p))) = AE_IFREG then concat (h_reads h p) else [])"

lemma mode_parts: "(m AND NOT AE_IFMT) OR (m AND AE_IFMT) = (m :: u32)"
  by (rule bit_eqI) (auto simp: bit_simps)

lemma cstr_all: "0 \<notin> set t \<Longrightarrow> cstr t = t"
  unfolding cstr_def by (rule takeWhile_eq_all_conv [THEN iffD2]) metis

lemma packed_entry_ok:
  assumes "packable h root p"
  shows "entry_ok (packed_entry h root ino p) (packed_body h p)"
proof -
  obtain m n where l: "h_lstat h p = Some (m, n)" using assms by (auto simp: packable_def split: option.splits)
  have ft: "ae_filetype (packed_entry h root ino p) = S_IFMT_of m"
    by (simp add: packed_entry_def l ae_filetype_def S_IFMT_of_def)
  have num: "numbers_ok (packed_entry h root ino p)"
    by (simp add: numbers_ok_def packed_entry_def l archive_entry_new_def)
  have "S_IFMT_of m \<noteq> 0" using assms l file_types by (auto simp: packable_def)
  moreover have "ae_nlink (packed_entry h root ino p) \<le> 1" "ae_hardlink (packed_entry h root ino p) = None"
    by (simp_all add: packed_entry_def l archive_entry_new_def)
  ultimately show ?thesis
    unfolding entry_ok_def ft using num assms l
    by (auto simp: packable_def packed_entry_def packed_body_def CPIO_PATH_MAX_def)
qed

lemma archive_write_entry:
  assumes "packable h (cp_path cp) p" and "writable (cp_w cp)"
  shows "\<exists>cp'. bxxt_cpio_archive_add_file h p cp = Inr cp' \<and> cp_path cp' = cp_path cp \<and> cp_inode cp' = cp_inode cp + 1 \<and> writable (cp_w cp') \<and>
    nw_out (cp_w cp') @ due (cp_w cp') = nw_out (cp_w cp) @ due (cp_w cp) @
      entry_bytes (packed_entry h (cp_path cp) (cp_inode cp) p) (packed_body h p)"
proof -
  obtain m n where l: "h_lstat h p = Some (m, n)" using assms(1) by (auto simp: packable_def split: option.splits)
  let ?e = "packed_entry h (cp_path cp) (cp_inode cp) p" and ?d = "packed_body h p"
  note ok = packed_entry_ok [OF assms(1), of "cp_inode cp"]
  have ft: "S_IFMT_of m \<in> {AE_IFREG, AE_IFDIR, AE_IFLNK}" "0 \<le> n" using assms(1) l by (auto simp: packable_def)
  have ae: "ae_filetype ?e = S_IFMT_of m" by (simp add: packed_entry_def l ae_filetype_def S_IFMT_of_def)
  let ?w = "\<lparr>nw_out = nw_out (cp_w cp) @ due (cp_w cp) @ head_bytes ?e ?d, nw_remaining = length ?d, nw_padding = PAD4 (length ?d), nw_state = STATE_DATA\<rparr>"
  have hd: "archive_write_header (cp_w cp) ?e = (?w, ARCHIVE_OK)" by (rule archive_write_header_bytes [OF ok assms(2)])
  have lnk: "(if S_IFMT_of m = AE_IFLNK then res_bind (link_buffer h p) (\<lambda>l. Inr (Some l)) else Inr None) = Inr (ae_symlink ?e)"
    using assms(1) l cstr_all by (auto simp: packable_def link_buffer_def packed_entry_def)
  have sz: "entry_size (entry_after_header ?e) > 0 \<longleftrightarrow> S_IFMT_of m = AE_IFREG \<and> n > 0"
    using ok ft ae by (auto simp: entry_after_header_def entry_ok_def entry_size_def packed_entry_def l name_ok_def)
  let ?w' = "if entry_size (entry_after_header ?e) > 0 then write_chunks ?w (h_reads h p) else ?w"
  have w': "writable ?w' \<and> nw_out ?w' @ due ?w' = nw_out (cp_w cp) @ due (cp_w cp) @ entry_bytes ?e ?d"
  proof (cases "S_IFMT_of m = AE_IFREG \<and> n > 0")
    case True
    then have d: "?d = concat (h_reads h p)" "\<forall>c\<in>set (h_reads h p). length c \<le> 2147483647"
      using assms(1) l by (auto simp: packed_body_def packable_def)
    have "write_chunks ?w (h_reads h p) = ?w\<lparr>nw_out := nw_out ?w @ concat (h_reads h p), nw_remaining := 0\<rparr>"
      by (rule write_chunks_bytes) (use d in simp_all)
    then show ?thesis using True sz d(1) by (simp add: writable_def due_def entry_bytes_def)
  next
    case False
    then have "?d = []" using assms(1) l ft(2) by (auto simp: packed_body_def packable_def)
    moreover have no: "\<not> entry_size (entry_after_header ?e) > 0" using False sz by blast
    ultimately show ?thesis unfolding if_not_P [OF no] by (simp add: writable_def due_def entry_bytes_def)
  qed
  have "bxxt_cpio_archive_write h cp p (drop (length (cp_path cp) + 1) p) = Inr (cp\<lparr>cp_w := ?w', cp_inode := cp_inode cp + 1\<rparr>, ARCHIVE_OK)"
  proof -
    let ?x = "archive_entry_new\<lparr>ae_pathname := Some (drop (length (cp_path cp) + 1) p), ae_size := Some n, ae_mode := m, ae_uid := 0, ae_gid := 0,
      ae_symlink := ae_symlink ?e, ae_mtime := 0, ae_nlink := 1, ae_rdevmajor := 0, ae_rdevminor := 0, ae_devmajor := 0, ae_devminor := 0,
      ae_ino := uint (cp_inode cp)\<rparr>"
    have x: "?x = ?e" by (simp add: packed_entry_def l archive_entry_new_def)
    have k: "(if m AND AE_IFMT = AE_IFREG \<or> m AND AE_IFMT = AE_IFDIR \<or> m AND AE_IFMT = AE_IFLNK
        then (m AND NOT AE_IFMT) OR (m AND AE_IFMT) else m AND NOT AE_IFMT) = m"
      using ft(1) mode_parts [of m] by (auto simp: S_IFMT_of_def)
    show ?thesis
      unfolding bxxt_cpio_archive_write_def l option.case prod.case Let_def k lnk [unfolded S_IFMT_of_def] res_bind_Inr x hd fst_conv ..
  qed
  then show ?thesis using w' by (simp add: bxxt_cpio_archive_add_file_def)
qed

fun packed :: "host \<Rightarrow> bytes \<Rightarrow> u32 \<Rightarrow> bytes list \<Rightarrow> (archive_entry \<times> bytes) list" where
  "packed h root ino [] = []"
| "packed h root ino (p # ps) = (packed_entry h root ino p, packed_body h p) # packed h root (ino + 1) ps"

definition archive_bytes :: "(archive_entry \<times> bytes) list \<Rightarrow> bytes" where
  "archive_bytes es = concat (map (\<lambda>(e, d). entry_bytes e d) es)"

lemma add_files_bytes:
  assumes "list_all (packable h (cp_path cp)) ps" and "writable (cp_w cp)"
  shows "\<exists>cp'. add_files h ps cp = Inr cp' \<and> writable (cp_w cp') \<and>
    nw_out (cp_w cp') @ due (cp_w cp') = nw_out (cp_w cp) @ due (cp_w cp) @ archive_bytes (packed h (cp_path cp) (cp_inode cp) ps)"
  using assms
proof (induction ps arbitrary: cp)
  case (Cons p ps)
  from archive_write_entry [of h cp p] Cons.prems obtain cp1 where c: "bxxt_cpio_archive_add_file h p cp = Inr cp1" "cp_path cp1 = cp_path cp"
    "cp_inode cp1 = cp_inode cp + 1" "writable (cp_w cp1)" "nw_out (cp_w cp1) @ due (cp_w cp1) = nw_out (cp_w cp) @ due (cp_w cp) @
      entry_bytes (packed_entry h (cp_path cp) (cp_inode cp) p) (packed_body h p)" by auto
  then show ?case using Cons.IH [of cp1] Cons.prems by (auto simp: archive_bytes_def)
qed (simp add: archive_bytes_def)

lemma guess_keeps: "cp_path (fold (bxxt_cpio_archive_guess_buffer_size h) ps cp) = cp_path cp \<and>
    cp_inode (fold (bxxt_cpio_archive_guess_buffer_size h) ps cp) = cp_inode cp \<and>
    cp_w (fold (bxxt_cpio_archive_guess_buffer_size h) ps cp) = cp_w cp"
  by (induction ps arbitrary: cp) (simp_all add: bxxt_cpio_archive_guess_buffer_size_def Let_def)

text \<open>The size that the first walk adds up, modulo the width of its field.\<close>

definition path_size :: "host \<Rightarrow> bytes \<Rightarrow> int" where
  "path_size h p = (case h_lstat h p of None \<Rightarrow> 0 | Some (_, n) \<Rightarrow> n) + int CPIO_PATH_MAX"

lemma guess_sum: "archive_size_gussed (fold (bxxt_cpio_archive_guess_buffer_size h) ps cp) =
    archive_size_gussed cp + word_of_int (sum_list (map (path_size h) ps))"
  by (induction ps arbitrary: cp) (simp_all add: bxxt_cpio_archive_guess_buffer_size_def Let_def path_size_def algebra_simps)

lemma walk_entries_fold: "fold bxxt_cpio_walk_entries ps acc = acc @ ps"
  by (induction ps arbitrary: acc) (simp_all add: bxxt_cpio_walk_entries_def)

text \<open>The stream that is compressed.\<close>

definition packed_stream :: "host \<Rightarrow> bytes \<Rightarrow> dtree \<Rightarrow> bytes" where
  "packed_stream h root t = archive_bytes (packed h root 300000 (qsort_paths (tree_paths root t))) @ trailer_bytes"

lemma archive_out_stream:
  assumes "h_realpath h path = Some root" and "shows_tree h root t" and "t \<noteq> File" and "height t \<le> fuel"
    and "list_all (packable h root) (tree_paths root t)"
    and "n = nat (sum_list (map (path_size h) (tree_paths root t)) mod 2 ^ 32)" and "length (gz n (packed_stream h root t)) \<le> n" and "n < 2 ^ 31"
  shows "\<exists>bb. bxxt_cpio_archive_out gz fuel h path = Some (Inr (Some bb, ARCHIVE_OK)) \<and> b_ptr bb = gz n (packed_stream h root t) \<and> buffer_wf bb"
proof -
  let ?ps = "tree_paths root t" and ?cp = "bxxt_cpio_archive_new root"
  let ?g = "fold (bxxt_cpio_archive_guess_buffer_size h) ?ps ?cp"
  have walk: "bxxt_tree_walk fuel h fn root arg = Some (fold fn ?ps arg)" for fn :: "bytes \<Rightarrow> 'b \<Rightarrow> 'b" and arg
    by (rule tree_walk_paths(1) [OF assms(2,3,4)])
  have g: "cp_path ?g = root" "cp_inode ?g = 300000" "cp_w ?g = newc_open"
    using guess_keeps [of h ?ps ?cp] by (simp_all add: bxxt_cpio_archive_new_def)
  have n: "unat (archive_size_gussed ?g) = n"
    unfolding guess_sum assms(6) by (simp add: bxxt_cpio_archive_new_def uint_word_of_int flip: nat_uint_eq)
  have "list_all (packable h (cp_path ?g)) (qsort_paths ?ps)" using assms(5) g(1) by (simp add: list_all_iff)
  moreover have "writable (cp_w ?g)" by (simp add: g(3) newc_open_def writable_def)
  ultimately obtain cp where cp: "add_files h (qsort_paths ?ps) ?g = Inr cp" "writable (cp_w cp)"
    "nw_out (cp_w cp) @ due (cp_w cp) = archive_bytes (packed h root 300000 (qsort_paths ?ps))"
    using add_files_bytes [of h ?g "qsort_paths ?ps"] g by (auto simp: newc_open_def due_def)
  have s: "nw_out (fst (archive_write_close (cp_w cp))) = packed_stream h root t"
    using archive_write_close_bytes(1) [OF cp(2)] cp(3) by (simp add: packed_stream_def)
  let ?out = "gz n (packed_stream h root t)" and ?bb = "bxxt_buffer_create n"
  have w: "wr_bytes (b_ptr ?bb) 0 ?out = Inr (?out @ drop (length ?out) (b_ptr ?bb))"
    using assms(7) by (simp add: wr_bytes_def splice_def bxxt_buffer_create_def bxxt_malloc_def)
  have i: "to_int32 (int (length ?out) - int n) = int (length ?out) - int n"
    using assms(7,8) by (intro to_int32_id) auto
  have b: "b_size ?bb = n" by (simp add: bxxt_buffer_create_def)
  have r: "bxxt_buffer_resize (?bb\<lparr>b_ptr := ?out @ drop (length ?out) (b_ptr ?bb)\<rparr>) (int (length ?out) - int n) =
      Inr \<lparr>b_size = length ?out, b_ptr = ?out\<rparr>"
    using assms(7) b by (simp add: bxxt_buffer_resize_def)
  have "bxxt_cpio_archive_out gz fuel h path = Some (Inr (Some \<lparr>b_size = length ?out, b_ptr = ?out\<rparr>, ARCHIVE_OK))"
    unfolding bxxt_cpio_archive_out_def assms(1) option.case walk n Let_def cp(1) res_bind_Inr s b w i r walk_entries_fold append_Nil ..
  then show ?thesis by (simp add: buffer_wf_def)
qed

section \<open>Unpacking\<close>

text \<open>What a disk writer that puts each block at its offset has in the end; the newest file comes first.\<close>

definition put_block :: "bytes \<Rightarrow> nat \<Rightarrow> bytes \<Rightarrow> bytes" where
  "put_block c off b = take off (c @ replicate (off - length c) 0) @ b @ drop (off + length b) c"

fun replay_op :: "disk_op \<Rightarrow> (archive_entry \<times> bytes) list \<Rightarrow> (archive_entry \<times> bytes) list" where
  "replay_op (Disk_Header e) xs = (e, []) # xs"
| "replay_op (Disk_Data b off) [] = []"
| "replay_op (Disk_Data b off) ((e, c) # xs) = (e, put_block c off b) # xs"
| "replay_op Disk_Finish xs = xs"

definition on_disk :: "disk_op list \<Rightarrow> (archive_entry \<times> bytes) list" where
  "on_disk ops = rev (fold replay_op ops [])"

definition disk_accepts :: "(disk_op list \<Rightarrow> bytes \<Rightarrow> nat \<Rightarrow> int) \<Rightarrow> bool" where
  "disk_accepts disk \<longleftrightarrow> (\<forall>l b off. ARCHIVE_OK \<le> disk l b off)"

definition extracted :: "bytes \<Rightarrow> archive_entry \<times> bytes \<Rightarrow> archive_entry \<times> bytes" where
  "extracted root x = (case x of (e, d) \<Rightarrow> ((as_read e d)\<lparr>ae_pathname := Some (root @ slash @ the_name e)\<rparr>, d))"

lemma copy_blocks_body:
  assumes "body_left a d s" and "nr_offset a = length c" and "disk_accepts disk"
  shows "\<exists>a' ops. copy_blocks look disk a l = (a', l @ ops) \<and> stream_behind a' s \<and> fold replay_op ops ((e, c) # xs) = (e, c @ d) # xs"
  using assms(1,2)
proof (induction "length d" arbitrary: a d c l rule: less_induct)
  case less
  have k: "ARCHIVE_OK \<noteq> ARCHIVE_EOF" by (simp add: ARCHIVE_OK_def ARCHIVE_EOF_def)
  show ?case
  proof (cases "d = []")
    case True
    from data_block_end [OF less.prems(1) [unfolded True], of look] obtain a' where
      a': "archive_read_data_block look a = (a', [], nr_offset a, ARCHIVE_EOF)" "stream_behind a' s" by blast
    show ?thesis by (rule exI [of _ a'], rule exI [of _ "[]"]) (use a' True in \<open>simp add: copy_blocks.simps [of look disk a]\<close>)
  next
    case False
    from data_block_step [OF less.prems(1) this, of look] obtain a1 b d1 where
      a1: "archive_read_data_block look a = (a1, b, nr_offset a, ARCHIVE_OK)" "d = b @ d1" "b \<noteq> []" "body_left a1 d1 s"
        "nr_offset a1 = nr_offset a + length b" by blast
    have "length d1 < length d" "nr_offset a1 = length (c @ b)" using a1(2,3,5) less.prems(2) by simp_all
    from less.hyps [OF this(1) a1(4) this(2), of "l @ [Disk_Data b (nr_offset a)]"] obtain a' ops where
      r: "copy_blocks look disk a1 (l @ [Disk_Data b (nr_offset a)]) = (a', (l @ [Disk_Data b (nr_offset a)]) @ ops)" "stream_behind a' s"
        "fold replay_op ops ((e, c @ b) # xs) = (e, (c @ b) @ d1) # xs" by blast
    have "\<not> disk l b (nr_offset a) < ARCHIVE_OK" using assms(3) by (simp add: disk_accepts_def not_less)
    then have "copy_blocks look disk a l = (a', l @ Disk_Data b (nr_offset a) # ops)"
      using a1(1) r(1) k by (subst copy_blocks.simps) simp
    moreover have "put_block c (nr_offset a) b = c @ b" using less.prems(2) by (simp add: put_block_def)
    ultimately show ?thesis using r(2,3) a1(2) by (intro exI [of _ a'] exI [of _ "Disk_Data b (nr_offset a) # ops"]) simp
  qed
qed

lemma read_entry_done:
  assumes "cp_e cp = as_read e d" and "ae_pathname e = Some (the_name e)" and "body_left (cp_r cp) d s" and "nr_offset (cp_r cp) = 0"
    and "length (cp_path cp @ slash @ the_name e) < CPIO_PATH_MAX" and "disk_accepts disk"
  shows "\<exists>cp'. bxxt_cpio_archive_read_entry look disk cp = Inr (cp', ARCHIVE_OK) \<and> stream_behind (cp_r cp') s \<and> cp_path cp' = cp_path cp \<and>
    fold replay_op (cp_d_w cp') xs = extracted (cp_path cp) (e, d) # fold replay_op (cp_d_w cp) xs"
proof -
  let ?f = "cp_path cp @ slash @ the_name e"
  let ?e = "(as_read e d)\<lparr>ae_pathname := Some ?f\<rparr>"
  have "nr_offset (cp_r cp) = length []" using assms(4) by simp
  from copy_blocks_body [OF assms(3) this assms(6), of look "cp_d_w cp @ [Disk_Header ?e]" ?e "fold replay_op (cp_d_w cp) xs"]
  obtain a' ops where c: "copy_blocks look disk (cp_r cp) (cp_d_w cp @ [Disk_Header ?e]) = (a', (cp_d_w cp @ [Disk_Header ?e]) @ ops)"
    "stream_behind a' s" "fold replay_op ops ((?e, []) # fold replay_op (cp_d_w cp) xs) = (?e, [] @ d) # fold replay_op (cp_d_w cp) xs" by blast
  have p: "ae_pathname (as_read e d) = Some (the_name e)" using assms(2) by (simp add: as_read_def)
  have n: "\<not> CPIO_PATH_MAX \<le> length ?f" using assms(5) by linarith
  have "bxxt_cpio_archive_read_entry look disk cp =
      Inr (cp\<lparr>cp_e := ?e, cp_r := a', cp_d_w := ((cp_d_w cp @ [Disk_Header ?e]) @ ops) @ [Disk_Finish]\<rparr>, ARCHIVE_OK)"
    unfolding bxxt_cpio_archive_read_entry_def assms(1) p option.case Let_def if_not_P [OF n] c(1) prod.case ..
  then show ?thesis using c(2,3) by (simp add: extracted_def)
qed

lemma extract_entries_all:
  assumes "list_all (\<lambda>(e, d). entry_ok e d \<and> length (cp_path cp @ slash @ the_name e) < CPIO_PATH_MAX) es" and "disk_accepts disk"
    and "stream_behind (cp_r cp) (archive_bytes es @ trailer_bytes @ s)" and "length es < k"
  shows "\<exists>cp'. extract_entries k look disk cp = Some (Inr cp') \<and>
    fold replay_op (cp_d_w cp') [] = rev (map (extracted (cp_path cp)) es) @ fold replay_op (cp_d_w cp) []"
  using assms(1,3,4)
proof (induction es arbitrary: cp k)
  case Nil
  then obtain k' where "k = Suc k'" by (cases k) auto
  moreover obtain a' e where "archive_read_next_header look (cp_r cp) (cp_e cp) = (a', e, ARCHIVE_EOF)"
    using next_header_end [of "cp_r cp" s look "cp_e cp"] Nil by (auto simp: archive_bytes_def)
  ultimately show ?case by simp
next
  case (Cons x es)
  obtain e d where x: "x = (e, d)" by (cases x)
  then have ok: "entry_ok e d" "length (cp_path cp @ slash @ the_name e) < CPIO_PATH_MAX" using Cons.prems(1) by simp_all
  obtain k' where k: "k = Suc k'" "length es < k'" using Cons.prems(3) by (cases k) auto
  have "stream_behind (cp_r cp) (entry_bytes e d @ archive_bytes es @ trailer_bytes @ s)"
    using Cons.prems(2) x by (simp add: archive_bytes_def)
  from next_header_entry [OF ok(1) this, of look "cp_e cp"] obtain a' where
    a': "archive_read_next_header look (cp_r cp) (cp_e cp) = (a', as_read e d, ARCHIVE_OK)" "body_left a' d (archive_bytes es @ trailer_bytes @ s)"
      "nr_offset a' = 0" by blast
  let ?cp = "cp\<lparr>cp_r := a', cp_e := as_read e d\<rparr>"
  have eqs: "cp_e ?cp = as_read e d" "cp_r ?cp = a'" "cp_path ?cp = cp_path cp" "cp_d_w ?cp = cp_d_w cp" by simp_all
  from read_entry_done [of ?cp e d "archive_bytes es @ trailer_bytes @ s" disk look "[]", unfolded eqs, OF refl entry_sizes(6) [OF ok(1)] a'(2,3) ok(2) assms(2)]
  obtain cp1 where c: "bxxt_cpio_archive_read_entry look disk ?cp = Inr (cp1, ARCHIVE_OK)" "stream_behind (cp_r cp1) (archive_bytes es @ trailer_bytes @ s)"
    "cp_path cp1 = cp_path cp" "fold replay_op (cp_d_w cp1) [] = extracted (cp_path cp) (e, d) # fold replay_op (cp_d_w cp) []" by blast
  have "extract_entries k look disk cp = extract_entries k' look disk cp1"
    using a'(1) c(1) k(1) by (simp add: ARCHIVE_OK_def ARCHIVE_EOF_def)
  moreover have "list_all (\<lambda>(e, d). entry_ok e d \<and> length (cp_path cp1 @ slash @ the_name e) < CPIO_PATH_MAX) es" using Cons.prems(1) c(3) by simp
  ultimately show ?case using Cons.IH [OF _ c(2) k(2)] c(3,4) x by auto
qed

lemma packed_ok:
  assumes "list_all (packable h root) ps" and "list_all (\<lambda>p. length (dest @ slash @ drop (length root + 1) p) < CPIO_PATH_MAX) ps"
  shows "list_all (\<lambda>(e, d). entry_ok e d \<and> length (dest @ slash @ the_name e) < CPIO_PATH_MAX) (packed h root ino ps)"
  using assms
proof (induction ps arbitrary: ino)
  case (Cons p ps)
  have "the_name (packed_entry h root ino p) = drop (length root + 1) p"
    by (simp add: the_name_def packed_entry_def archive_entry_new_def split: prod.split)
  with Cons packed_entry_ok [of h root p ino] show ?case by simp
qed simp

lemma length_packed [simp]: "length (packed h root ino ps) = length ps"
  by (induction ps arbitrary: ino) simp_all

lemma bid_newc: "archive_read_format_cpio_bid (newc_fields e m n @ s) = Some Fmt_Newc"
proof -
  have "newc_fields e m n @ s = c_bytes ''070701'' @ drop 6 (newc_fields e m n) @ s"
    by (simp add: newc_fields_def Let_def newc_magic c_bytes_def)
  then have "take 6 (newc_fields e m n @ s) = c_bytes ''070701''"
    by (simp only:) (simp add: c_bytes_def)
  moreover have "\<not> length (newc_fields e m n @ s) < 6" by simp
  ultimately show ?thesis unfolding archive_read_format_cpio_bid_def by (simp add: c_bytes_def byte_of_chr_def)
qed

lemma bid_archive: "archive_read_format_cpio_bid (archive_bytes es @ trailer_bytes @ s) = Some Fmt_Newc"
  using bid_newc by (cases es) (simp_all add: archive_bytes_def trailer_bytes_def entry_bytes_def head_bytes_def split: prod.split)

lemma archive_in_stream:
  assumes "list_all (packable h root) (tree_paths root t)"
    and "plain (b_ptr bb) = packed_stream h root t" and "h_realpath h' dir = Some dest" and "disk_accepts disk"
    and "length (tree_paths root t) < fuel"
    and "list_all (\<lambda>p. length (dest @ slash @ drop (length root + 1) p) < CPIO_PATH_MAX) (tree_paths root t)" and "buffer_wf bb"
  shows "\<exists>log. bxxt_cpio_archive_in plain fuel look disk h' bb dir = Some (Inr (log, ARCHIVE_OK)) \<and>
    on_disk log = map (extracted dest) (packed h root 300000 (qsort_paths (tree_paths root t)))"
proof -
  let ?es = "packed h root 300000 (qsort_paths (tree_paths root t))"
  let ?cp = "(bxxt_cpio_archive_new dest)\<lparr>cp_r := cpio_reader_open Fmt_Newc (packed_stream h root t)\<rparr>"
  have "list_all (packable h root) (qsort_paths (tree_paths root t))"
    "list_all (\<lambda>p. length (dest @ slash @ drop (length root + 1) p) < CPIO_PATH_MAX) (qsort_paths (tree_paths root t))"
    using assms(1,6) by (simp_all add: list_all_iff)
  then have ok: "list_all (\<lambda>(e, d). entry_ok e d \<and> length (cp_path ?cp @ slash @ the_name e) < CPIO_PATH_MAX) ?es"
    using packed_ok [of h root _ dest] by (simp add: bxxt_cpio_archive_new_def)
  have "length (qsort_paths (tree_paths root t)) = length (tree_paths root t)" using mset_qsort_paths by (metis size_mset)
  then have f: "length ?es < fuel" using assms(5) by simp
  have "stream_behind (cp_r ?cp) (archive_bytes ?es @ trailer_bytes @ [])"
    by (simp add: stream_behind_def cpio_reader_open_def packed_stream_def)
  from extract_entries_all [OF ok assms(4) this f, of look] obtain cp' where
    c: "extract_entries fuel look disk ?cp = Some (Inr cp')" "fold replay_op (cp_d_w cp') [] = rev (map (extracted dest) ?es)"
    by (auto simp: bxxt_cpio_archive_new_def)
  have b: "archive_read_format_cpio_bid (packed_stream h root t) = Some Fmt_Newc"
    using bid_archive [of ?es "[]"] by (simp add: packed_stream_def)
  have "take (b_size bb) (b_ptr bb) = b_ptr bb" using assms(7) by (simp add: buffer_wf_def)
  then have "bxxt_cpio_archive_in plain fuel look disk h' bb dir = Some (Inr (cp_d_w cp', ARCHIVE_OK))"
    unfolding bxxt_cpio_archive_in_def assms(3) option.case Let_def using assms(2) b c(1) by simp
  then show ?thesis using c(2) by (simp add: on_disk_def)
qed

section \<open>Archives that stop too early\<close>

lemma status_codes: "ARCHIVE_FATAL \<noteq> ARCHIVE_EOF" "ARCHIVE_FATAL < ARCHIVE_OK" "ARCHIVE_OK \<noteq> ARCHIVE_EOF" "ARCHIVE_WARN \<noteq> ARCHIVE_EOF"
  "ARCHIVE_FATAL < ARCHIVE_WARN" "ARCHIVE_OK \<noteq> ARCHIVE_FATAL" "ARCHIVE_WARN \<noteq> ARCHIVE_FATAL" "\<not> ARCHIVE_OK < ARCHIVE_WARN" "ARCHIVE_OK \<noteq> ARCHIVE_WARN"
  by (simp_all add: ARCHIVE_FATAL_def ARCHIVE_EOF_def ARCHIVE_OK_def ARCHIVE_WARN_def)

text \<open>Once the reader has failed, the entry it keeps grows by the destination at every round.\<close>

lemma failed_step:
  assumes "nr_state (cp_r cp) = STATE_FATAL" and "ae_pathname (cp_e cp) = Some p"
  shows "extract_entries (Suc k) look disk cp =
    (if CPIO_PATH_MAX \<le> length (cp_path cp @ slash @ p) then Some (Inl Oob_Write)
     else extract_entries k look disk (cp\<lparr>cp_e := (cp_e cp)\<lparr>ae_pathname := Some (cp_path cp @ slash @ p)\<rparr>,
       cp_d_w := cp_d_w cp @ [Disk_Header ((cp_e cp)\<lparr>ae_pathname := Some (cp_path cp @ slash @ p)\<rparr>), Disk_Finish]\<rparr>))"
proof -
  have n: "archive_read_next_header look (cp_r cp) (cp_e cp) = (cp_r cp, cp_e cp, ARCHIVE_FATAL)"
    using assms(1) by (simp add: archive_read_next_header_def)
  have "copy_blocks look disk (cp_r cp) l = (cp_r cp, l)" for l
    using assms(1) status_codes by (subst copy_blocks.simps) (simp add: archive_read_data_block_def)
  then show ?thesis using n assms(2) status_codes by (simp add: bxxt_cpio_archive_read_entry_def Let_def)
qed

lemma failed_overflows:
  assumes "nr_state (cp_r cp) = STATE_FATAL" and "ae_pathname (cp_e cp) = Some p" and "CPIO_PATH_MAX - length p < k"
  shows "extract_entries k look disk cp = Some (Inl Oob_Write)"
  using assms
proof (induction k arbitrary: cp p)
  case (Suc k)
  have l: "length (cp_path cp @ slash @ p) = length (cp_path cp) + 1 + length p" by (simp add: slash_def c_bytes_def)
  show ?case
  proof (cases "CPIO_PATH_MAX \<le> length (cp_path cp @ slash @ p)")
    case True
    then show ?thesis unfolding failed_step [OF Suc.prems(1,2)] by simp
  next
    case False
    then have "CPIO_PATH_MAX - length (cp_path cp @ slash @ p) < k" using Suc.prems(3) l by linarith
    then show ?thesis unfolding failed_step [OF Suc.prems(1,2)] using False Suc.IH Suc.prems(1) by simp
  qed
qed simp

lemma first_failure:
  assumes "archive_read_next_header look (cp_r cp) (cp_e cp) = (a, e, ARCHIVE_FATAL)" and "nr_state a = STATE_FATAL"
    and "ae_pathname e = Some p" and "CPIO_PATH_MAX < k"
  shows "extract_entries (Suc k) look disk cp = Some (Inl Oob_Write)"
proof -
  let ?cp = "cp\<lparr>cp_r := a, cp_e := e\<rparr>"
  have n: "archive_read_next_header look (cp_r ?cp) (cp_e ?cp) = (a, e, ARCHIVE_FATAL)"
    using assms(2) by (simp add: archive_read_next_header_def)
  have "extract_entries (Suc k) look disk cp = extract_entries (Suc k) look disk ?cp"
    using assms(1) n by simp
  also have "\<dots> = Some (Inl Oob_Write)"
    by (rule failed_overflows [where p = p]) (use assms in simp_all)
  finally show ?thesis .
qed

text \<open>A symbolic link whose target is cut off: the header is read and the name kept, then the reader fails.\<close>

lemma read_cut_link:
  assumes e: "entry_ok e []" and f: "ae_filetype e = AE_IFLNK" and t: "length t < length (link_text e)"
    and a: "nr_in a = newc_fields e (int (stored_size e [])) (int (length (the_name e) + 1)) @
      (the_name e @ [0] @ replicate (PAD4 (length (the_name e) + 1 + 110)) 0) @ t" and n: "nr_format a = Fmt_Newc"
  shows "\<exists>a' e'. archive_read_format_cpio_read_header look a = (a', e', ARCHIVE_FATAL) \<and> ae_pathname e' = Some (the_name e)"
proof -
  let ?p = "the_name e" and ?m = "int (stored_size e [])" and ?n = "int (length (the_name e) + 1)"
  let ?e0 = "e\<lparr>ae_pathname := None, ae_size := Some ?m, ae_symlink := None, ae_hardlink := None\<rparr>"
  let ?s1 = "(?p @ [0] @ replicate (PAD4 (length ?p + 1 + 110)) 0) @ t"
  let ?a1 = "a\<lparr>nr_in := ?s1, nr_remaining := int (stored_size e []), nr_padding := PAD4 (stored_size e [])\<rparr>"
  note sz = entry_sizes [OF e]
  from header_newc_bytes [OF sz(3,1,2) a]
  have h: "cpio_header look a = (?a1, ?e0, length ?p + 1, PAD4 (length ?p + 1 + 110), ARCHIVE_OK)"
    unfolding name_padding by (simp add: PAD4_def cpio_header_def n)
  have "nr_in ?a1 = ?s1" by simp
  from read_name [OF sz(4) this, of look] obtain b where b: "read_ahead look (nr_in ?a1) (length ?p + 1 + PAD4 (length ?p + 1 + 110)) = Some b"
    "cut_name (length ?p + 1) b = ?p" "drop (length ?p + 1 + PAD4 (length ?p + 1 + 110)) (nr_in ?a1) = t" by blast
  have "link_text e \<noteq> []" using t by auto
  then have s: "stored_size e [] = length (link_text e)" by (simp add: stored_size_def)
  let ?a2 = "?a1\<lparr>nr_offset := 0, nr_in := t\<rparr>" and ?e1 = "?e0\<lparr>ae_pathname := Some ?p\<rparr>"
  have l: "read_symlink look ?a2 ?e1 = (?a2, ?e1, False)"
    using f t s by (simp add: read_symlink_def ae_filetype_def read_ahead64_def read_ahead_def)
  show ?thesis
    unfolding archive_read_format_cpio_read_header_def h prod.case if_not_P [OF status_codes(8)] b(1) option.case Let_def b(2,3) l
    by simp
qed

section \<open>Extraction ends\<close>

lemma read_ahead_le: "read_ahead look s n = Some h \<Longrightarrow> n \<le> length h \<and> length h \<le> length s"
  by (auto simp: read_ahead_def split: if_splits)

lemma find_newc_header_le: "find_newc_header look s k = (s', r) \<Longrightarrow> length s' \<le> length s"
proof (induction look s k rule: find_newc_header.induct)
  case (1 look s k)
  from 1(2) show ?case
    by (subst (asm) find_newc_header.simps)
       (use 1(1) in \<open>fastforce split: option.splits if_splits sum.splits\<close>)
qed

lemma find_newc_header_status: "snd (find_newc_header look s k) \<in> {ARCHIVE_FATAL, ARCHIVE_OK, ARCHIVE_WARN}"
proof (induction look s k rule: find_newc_header.induct)
  case (1 look s k)
  then show ?case by (subst find_newc_header.simps) (auto split: option.splits sum.splits)
qed

lemma header_newc_shrinks:
  assumes "header_newc look a = (a', e, n, p, r)"
  shows "r = ARCHIVE_FATAL \<or> (r = ARCHIVE_OK \<or> r = ARCHIVE_WARN) \<and> length (nr_in a') < length (nr_in a)"
proof -
  obtain s q where f: "find_newc_header look (nr_in a) 0 = (s, q)" by (cases "find_newc_header look (nr_in a) 0")
  have "length s \<le> length (nr_in a)" by (rule find_newc_header_le [OF f])
  moreover have "q \<in> {ARCHIVE_FATAL, ARCHIVE_OK, ARCHIVE_WARN}" using find_newc_header_status [of look "nr_in a" 0] f by simp
  ultimately show ?thesis using assms f status_codes
    by (auto simp: header_newc_def Let_def split: if_splits option.splits dest!: read_ahead_le)
qed

text \<open>The older headers shorten the stream as well.\<close>

lemma find_odc_header_le: "find_odc_header look s k = (s', r, l) \<Longrightarrow> length s' \<le> length s"
proof (induction look s k rule: find_odc_header.induct)
  case (1 look s k)
  from 1(2) show ?case
    by (subst (asm) find_odc_header.simps)
       (use 1(1) in \<open>fastforce split: option.splits if_splits sum.splits\<close>)
qed

lemma find_odc_header_status: "fst (snd (find_odc_header look s k)) \<in> {ARCHIVE_FATAL, ARCHIVE_OK, ARCHIVE_WARN}"
proof (induction look s k rule: find_odc_header.induct)
  case (1 look s k)
  then show ?case by (subst find_odc_header.simps) (auto split: option.splits sum.splits)
qed

lemma header_afiol_shrinks:
  assumes "header_afiol look a = (a', e, n, p, r)"
  shows "r = ARCHIVE_FATAL \<or> r = ARCHIVE_OK \<and> length (nr_in a') < length (nr_in a)"
  using assms by (auto simp: header_afiol_def split: option.splits dest!: read_ahead_le)

lemma header_odc_shrinks:
  assumes "header_odc look a = (a', e, n, p, r)"
  shows "r = ARCHIVE_FATAL \<or> (r = ARCHIVE_OK \<or> r = ARCHIVE_WARN) \<and> length (nr_in a') < length (nr_in a)"
proof -
  obtain s q l where f: "find_odc_header look (nr_in a) 0 = (s, q, l)" by (metis prod_cases3)
  have le: "length s \<le> length (nr_in a)" by (rule find_odc_header_le [OF f])
  have st: "q = ARCHIVE_FATAL \<or> q = ARCHIVE_OK \<or> q = ARCHIVE_WARN" using find_odc_header_status [of look "nr_in a" 0] f by simp
  obtain a1 e1 n1 p1 r1 where g: "header_afiol look (a\<lparr>nr_in := s\<rparr>) = (a1, e1, n1, p1, r1)" by (metis prod_cases5)
  consider "q = ARCHIVE_FATAL" | "q = ARCHIVE_OK \<or> q = ARCHIVE_WARN" l | "q = ARCHIVE_OK \<or> q = ARCHIVE_WARN" "\<not> l" using st by blast
  then show ?thesis
  proof cases
    case 1
    then show ?thesis using assms f status_codes by (simp add: header_odc_def Let_def)
  next
    case 2
    then have "a' = a1 \<and> r = (if r1 = ARCHIVE_OK then q else r1)" using assms f g status_codes by (auto simp: header_odc_def Let_def)
    then show ?thesis using header_afiol_shrinks [OF g] 2(1) le status_codes by auto
  next
    case 3
    then show ?thesis using assms f status_codes le by (auto simp: header_odc_def Let_def split: option.splits dest!: read_ahead_le)
  qed
qed

lemma header_bin_shrinks:
  "header_bin_le look a = (a', e, n, p, r) \<Longrightarrow> r = ARCHIVE_FATAL \<or> r = ARCHIVE_OK \<and> length (nr_in a') < length (nr_in a)"
  "header_bin_be look a = (a', e, n, p, r) \<Longrightarrow> r = ARCHIVE_FATAL \<or> r = ARCHIVE_OK \<and> length (nr_in a') < length (nr_in a)"
  by (auto simp: header_bin_le_def header_bin_be_def Let_def split: option.splits dest!: read_ahead_le)

lemma cpio_header_shrinks:
  assumes "cpio_header look a = (a', e, n, p, r)"
  shows "r = ARCHIVE_FATAL \<or> (r = ARCHIVE_OK \<or> r = ARCHIVE_WARN) \<and> length (nr_in a') < length (nr_in a)"
proof (cases "nr_format a")
  case Fmt_Odc
  then show ?thesis using assms header_odc_shrinks by (simp add: cpio_header_def)
next
  case Fmt_Newc
  then show ?thesis using assms header_newc_shrinks by (simp add: cpio_header_def)
next
  case Fmt_Bin_BE
  then show ?thesis using assms header_bin_shrinks(2) [of look a] by (auto simp: cpio_header_def)
next
  case Fmt_Bin_LE
  then show ?thesis using assms header_bin_shrinks(1) [of look a] by (auto simp: cpio_header_def)
qed

lemma read_consume_le: "length (fst (read_consume s n)) \<le> length s"
  by (simp add: read_consume_def)

text \<open>A skip of as many bytes as the error code says is taken for a success.\<close>

lemma skip_of_minus_30:
  assumes "nr_remaining a + int (nr_padding a) + int (nr_unconsumed a) = - 30"
  shows "archive_read_format_cpio_skip a = (a\<lparr>nr_remaining := 0, nr_padding := 0, nr_unconsumed := 0\<rparr>, ARCHIVE_OK)"
  using assms by (simp add: archive_read_format_cpio_skip_def read_consume_def ARCHIVE_FATAL_def)

lemma read_symlink_le: "read_symlink look a e = (a', e', ok) \<Longrightarrow> length (nr_in a') \<le> length (nr_in a)"
  using read_consume_le by (auto simp: read_symlink_def split: if_splits option.splits)

lemma record_hardlink_in: "nr_in (fst (record_hardlink a e)) = nr_in a"
  by (auto simp: record_hardlink_def split: option.splits)

lemma read_header_shrinks:
  assumes "archive_read_format_cpio_read_header look a = (a', e, r)"
  shows "r = ARCHIVE_FATAL \<or> r = ARCHIVE_EOF \<or> (r = ARCHIVE_OK \<or> r = ARCHIVE_WARN) \<and> length (nr_in a') < length (nr_in a)"
proof -
  obtain a1 e1 n p q where h: "cpio_header look a = (a1, e1, n, p, q)" by (cases "cpio_header look a") auto
  define b where "b = a1\<lparr>nr_offset := 0, nr_in := drop (n + p) (nr_in a1)\<rparr>"
  obtain y where y: "read_ahead look (nr_in a1) (n + p) = y" by simp
  obtain a2 e2 ok where l: "read_symlink look b (e1\<lparr>ae_pathname := Some (cut_name n (the y))\<rparr>) = (a2, e2, ok)" by (metis prod_cases3)
  have "length (nr_in b) \<le> length (nr_in a1)" by (simp add: b_def)
  then have "length (nr_in (fst (record_hardlink a2 e2))) \<le> length (nr_in a1)" unfolding record_hardlink_in using read_symlink_le [OF l] by linarith
  with cpio_header_shrinks [OF h] assms h y l show ?thesis
    by (auto simp: archive_read_format_cpio_read_header_def Let_def b_def split: if_splits option.splits prod.splits)
qed

lemma next_header_state:
  "archive_read_next_header look a x = (a', e, r) \<Longrightarrow> nr_state a \<noteq> STATE_EOF \<Longrightarrow> nr_state a \<noteq> STATE_FATAL \<Longrightarrow>
    (\<exists>b q. (if nr_state a = STATE_DATA then archive_read_data_skip a else (a, ARCHIVE_OK)) = (b, q) \<and>
      (nr_state a' = STATE_FATAL \<or> (\<exists>a2 r2. archive_read_format_cpio_read_header look b = (a2, e, r2) \<and> nr_in a' = nr_in a2 \<and>
        (r2 = ARCHIVE_EOF \<and> r = ARCHIVE_EOF \<or> r2 = ARCHIVE_FATAL \<and> nr_state a' = STATE_FATAL \<or>
         (r2 = ARCHIVE_OK \<or> r2 = ARCHIVE_WARN) \<and> nr_state a' = STATE_DATA \<or>
         r2 \<notin> {ARCHIVE_EOF, ARCHIVE_FATAL, ARCHIVE_OK, ARCHIVE_WARN}))))"
  using status_codes by (fastforce simp: archive_read_next_header_def Let_def split: if_splits prod.splits)

lemma next_header_shrinks:
  assumes "archive_read_next_header look a x = (a', e, r)"
  shows "r = ARCHIVE_EOF \<or> nr_state a' = STATE_FATAL \<or> nr_state a' = STATE_DATA \<and> length (nr_in a') < length (nr_in a)"
proof (cases "nr_state a = STATE_EOF \<or> nr_state a = STATE_FATAL")
  case True
  then show ?thesis using assms by (auto simp: archive_read_next_header_def)
next
  case False
  obtain b q where b: "(if nr_state a = STATE_DATA then archive_read_data_skip a else (a, ARCHIVE_OK)) = (b, q)" by (metis surj_pair)
  have lb: "length (nr_in b) \<le> length (nr_in a)"
    using b read_consume_le [of "nr_in a" "nr_remaining a + int (nr_padding a) + int (nr_unconsumed a)"]
    by (auto simp: archive_read_data_skip_def archive_read_format_cpio_skip_def Let_def split: if_splits prod.splits)
  show ?thesis
  proof (cases "nr_state a' = STATE_FATAL")
    case True
    then show ?thesis by blast
  next
    case alive: False
    from next_header_state [OF assms] False b alive obtain a2 r2 where h: "archive_read_format_cpio_read_header look b = (a2, e, r2)" "nr_in a' = nr_in a2"
      "r2 = ARCHIVE_EOF \<and> r = ARCHIVE_EOF \<or> (r2 = ARCHIVE_OK \<or> r2 = ARCHIVE_WARN) \<and> nr_state a' = STATE_DATA \<or>
         r2 \<notin> {ARCHIVE_EOF, ARCHIVE_FATAL, ARCHIVE_OK, ARCHIVE_WARN}" by (auto simp: b)
    from read_header_shrinks [OF h(1)] h(2,3) lb status_codes show ?thesis by auto
  qed
qed

lemma copy_blocks_le:
  "copy_blocks look disk a l = (a', l') \<Longrightarrow> nr_state a = STATE_DATA \<Longrightarrow> nr_state a' = STATE_DATA \<and> length (nr_in a') \<le> length (nr_in a)"
proof (induction look disk a l rule: copy_blocks.induct)
  case (1 look disk a l)
  obtain a1 b off r where d: "archive_read_data_block look a = (a1, b, off, r)" by (metis prod_cases4)
  have "nr_state a1 = STATE_DATA \<and> length (nr_in a1) \<le> length (nr_in a)"
    using d 1(3) by (auto simp: archive_read_data_block_def archive_read_format_cpio_read_data_def Let_def split: if_splits option.splits)
  note le = this
  show ?case
  proof (cases "(r = ARCHIVE_EOF \<or> r < ARCHIVE_OK) \<or> disk l b off < ARCHIVE_OK")
    case True
    then have "a' = a1" using 1(2) d by (subst (asm) copy_blocks.simps) (auto split: if_splits)
    then show ?thesis using le by simp
  next
    case False
    then have "copy_blocks look disk a1 (l @ [Disk_Data b off]) = (a', l')" using 1(2) d by (subst (asm) copy_blocks.simps) simp
    from 1(1) [OF d [symmetric]] this False le show ?thesis by force
  qed
qed

text \<open>Every archive is worked through: the rounds are bounded by its length and by the longest path.\<close>

lemma extract_entries_end:
  assumes "nr_state (cp_r cp) = STATE_FATAL \<or> length (nr_in (cp_r cp)) < j" and "j + CPIO_PATH_MAX < k"
  shows "extract_entries k look disk cp \<noteq> None"
  using assms
proof (induction k arbitrary: j cp)
  case (Suc k)
  obtain a e r where h: "archive_read_next_header look (cp_r cp) (cp_e cp) = (a, e, r)" by (metis prod_cases3)
  show ?case
  proof (cases "nr_state (cp_r cp) = STATE_FATAL")
    case True
    show ?thesis
    proof (cases "ae_pathname (cp_e cp)")
      case None
      then show ?thesis using True status_codes
        by (simp add: archive_read_next_header_def bxxt_cpio_archive_read_entry_def ARCHIVE_FAILED_def ARCHIVE_OK_def)
    next
      case (Some p)
      have "CPIO_PATH_MAX - length p < Suc k" using Suc.prems(2) by simp
      from failed_overflows [OF True Some this] show ?thesis by (simp del: extract_entries.simps)
    qed
  next
    case False
    then have j: "length (nr_in (cp_r cp)) < j" using Suc.prems(1) by blast
    let ?cp = "cp\<lparr>cp_r := a, cp_e := e\<rparr>"
    show ?thesis
    proof (cases "r = ARCHIVE_EOF \<or> bxxt_cpio_archive_read_entry look disk ?cp = Inl Oob_Write \<or> ae_pathname e = None")
      case True
      then show ?thesis using h by (auto simp: Let_def) (auto simp: bxxt_cpio_archive_read_entry_def ARCHIVE_FAILED_def ARCHIVE_OK_def)
    next
      case more: False
      then obtain p where p: "ae_pathname e = Some p" by auto
      let ?f = "cp_path cp @ slash @ p"
      obtain a' l where c: "copy_blocks look disk a (cp_d_w cp @ [Disk_Header (e\<lparr>ae_pathname := Some ?f\<rparr>)]) = (a', l)" by (metis surj_pair)
      have n: "\<not> CPIO_PATH_MAX \<le> length ?f" using more p by (auto simp: bxxt_cpio_archive_read_entry_def)
      let ?cp' = "cp\<lparr>cp_e := e\<lparr>ae_pathname := Some ?f\<rparr>, cp_r := a', cp_d_w := l @ [Disk_Finish]\<rparr>"
      have s: "extract_entries (Suc k) look disk cp = extract_entries k look disk ?cp'"
        using h more p c n by (simp add: bxxt_cpio_archive_read_entry_def Let_def)
      show ?thesis
      proof (cases "nr_state a = STATE_FATAL")
        case True
        then have "nr_state a' = STATE_FATAL" using c status_codes by (subst (asm) copy_blocks.simps) (auto simp: archive_read_data_block_def)
        then have "extract_entries k look disk ?cp' = Some (Inl Oob_Write)"
          using Suc.prems(2) j by (intro failed_overflows [where p = ?f]) auto
        then show ?thesis using s by simp
      next
        case False
        then have "nr_state a = STATE_DATA" "length (nr_in a) < length (nr_in (cp_r cp))" using next_header_shrinks [OF h] more by auto
        with copy_blocks_le [OF c] j have "length (nr_in a') < j - 1" by linarith
        then have "length (nr_in (cp_r ?cp')) < j - 1" by simp
        moreover have "j - 1 + CPIO_PATH_MAX < k" using Suc.prems(2) j by linarith
        ultimately show ?thesis using Suc.IH [of ?cp' "j - 1"] s by simp
      qed
    qed
  qed
qed simp

end
