(* ===== verification/Cpio_Properties.thy ===== *)
theory Cpio_Properties
  imports Bxxt_Cpio_Correct
begin

text \<open>
  The properties of the ramdisk packer and unpacker.
\<close>

section \<open>A host with three paths\<close>

definition demo_root :: bytes where "demo_root = c_bytes ''/r''"

definition demo_host :: host where
  "demo_host = \<lparr>
     h_list = (\<lambda>p. if p = c_bytes ''/r'' then Some [(c_bytes ''.'', True), (c_bytes ''z'', False), (c_bytes ''b'', True), (c_bytes ''..'', True)]
                   else if p = c_bytes ''/r/b'' then Some [(c_bytes ''l'', False)] else None),
     h_lstat = (\<lambda>p. if p = c_bytes ''/r/z'' then Some (0x81A4, 3) else if p = c_bytes ''/r/b'' then Some (0x41ED, 4096)
                    else if p = c_bytes ''/r/b/l'' then Some (0xA1FF, 1) else None),
     h_readlink = (\<lambda>p. if p = c_bytes ''/r/b/l'' then Some (c_bytes ''t'') else None),
     h_reads = (\<lambda>p. if p = c_bytes ''/r/z'' then [[1, 2], [3]] else []),
     h_realpath = (\<lambda>p. Some p)\<rparr>"

definition demo_tree :: dtree where
  "demo_tree = Dir [(c_bytes ''z'', File), (c_bytes ''b'', Dir [(c_bytes ''l'', File)])]"

lemmas demo_simps = demo_host_def demo_tree_def demo_root_def c_bytes_def byte_of_chr_def slash_def CPIO_PATH_MAX_def

lemma is_dots_eval: "is_dots [] = False" "is_dots [98] = False" "is_dots [46] = True" "is_dots [46, 46] = True"
  by (simp_all add: is_dots_def c_bytes_def byte_of_chr_def)

lemma demo_shows: "shows_tree demo_host demo_root demo_tree"
  by (simp add: demo_simps is_dots_eval)

lemma demo_paths: "tree_paths demo_root demo_tree = [c_bytes ''/r/z'', c_bytes ''/r/b/l'', c_bytes ''/r/b'']"
  by (simp add: demo_simps)

lemma demo_all_packable: "list_all (packable demo_host demo_root) (tree_paths demo_root demo_tree)"
  unfolding demo_paths
  by (simp add: demo_simps packable_def S_IFMT_of_def AE_IFMT_def AE_IFREG_def AE_IFDIR_def AE_IFLNK_def name_ok_def TRAILER_def)

section \<open>Walking\<close>

text \<open>
  C25: the recursive walk of a directory whose paths fit the path buffer calls its callback
  on every path below it exactly as a traversal of the directory tree does, children before
  their directory and the dot entries left out, whatever the callback does with its argument.
\<close>

theorem tree_walk_is_traversal:
  assumes "shows_tree h name t" and "t \<noteq> File" and "height t \<le> fuel"
  shows "bxxt_tree_walk fuel h fn name arg = Some (fold fn (tree_paths name t) arg)"
  using assms by (rule tree_walk_paths(1))

lemma tree_walk_is_traversal_witness:
  "bxxt_tree_walk 2 demo_host bxxt_cpio_walk_entries demo_root [] = Some [c_bytes ''/r/z'', c_bytes ''/r/b/l'', c_bytes ''/r/b'']"
proof -
  have "demo_tree \<noteq> File" "height demo_tree \<le> 2" by (simp_all add: demo_tree_def)
  from tree_walk_is_traversal [OF demo_shows this, of bxxt_cpio_walk_entries "[]"]
  show ?thesis by (simp add: demo_paths bxxt_cpio_walk_entries_def)
qed

text \<open>
  a directory whose path fills the path buffer, and which has a subdirectory, is walked
  without end: the path of the subdirectory is cut to that of the directory, and the
  recursion starts again whatever depth it is given.
\<close>

theorem long_path_walks_for_ever:
  assumes "h_list h name = Some (pre @ (d, True) # post)" and "CPIO_PATH_MAX - 1 \<le> length name" and "\<not> is_dots d"
    and "length name < CPIO_PATH_MAX"
  shows "bxxt_tree_walk fuel h fn name arg = None"
proof -
  have "length name = CPIO_PATH_MAX - 1" using assms(2,4) by linarith
  then have "walk_path name d = name" by (simp add: walk_path_def)
  then show ?thesis by (rule tree_walk_cut [OF assms(1) _ assms(3)])
qed

definition deep_host :: host where
  "deep_host = demo_host\<lparr>h_list := (\<lambda>p. if length p = 4095 then Some [([98], True)] else None)\<rparr>"

lemma long_path_walks_for_ever_witness:
  "\<forall>fuel. bxxt_tree_walk fuel deep_host bxxt_cpio_walk_entries (replicate 4095 47) [] = None"
proof
  fix fuel
  have l: "h_list deep_host (replicate 4095 47) = Some ([] @ ([98], True) # [])" by (simp add: deep_host_def)
  show "bxxt_tree_walk fuel deep_host bxxt_cpio_walk_entries (replicate 4095 47) [] = None"
    by (rule long_path_walks_for_ever [OF l]) (simp_all add: is_dots_eval CPIO_PATH_MAX_def)
qed

text \<open>
  the sort of the packer puts the paths into the linear order of \<open>strcmp\<close> on C strings:
  it is the sort of the library on them, so each path appears as often as it was found.
\<close>

theorem paths_sorted_by_strcmp:
  assumes "list_all sym_ok ps"
  shows "map Abs_c_string (qsort_paths ps) = sort (map Abs_c_string ps)"
  using qsort_paths_sort [OF assms] by blast

lemma paths_sorted_by_strcmp_witness:
  "map Abs_c_string (qsort_paths [[98], [97, 47], [97]]) = sort (map Abs_c_string [[98], [97, 47], [97]])"
  by (rule paths_sorted_by_strcmp) (simp add: sym_ok_def)

section \<open>Packing and unpacking\<close>

text \<open>
  C8: packing a directory and unpacking the result into another one gives the disk writer
  every path of the directory, in the sorted order, with the mode, link target, zero owner
  and time, and, block by block, the contents it had. The compression is only required to
  fit the guessed buffer and to be undone by the decompression; how much of the stream each
  look ahead of the reader shows is arbitrary.
\<close>

theorem cpio_pack_unpack:
  assumes "h_realpath h path = Some root" and "shows_tree h root t" and "t \<noteq> File" and "height t \<le> fuel"
    and "list_all (packable h root) (tree_paths root t)"
    and "n = nat (sum_list (map (path_size h) (tree_paths root t)) mod 2 ^ 32)" and "n < 2 ^ 31"
    and "length (gz n (packed_stream h root t)) \<le> n" and "plain (gz n (packed_stream h root t)) = packed_stream h root t"
    and "h_realpath h' dir = Some dest" and "disk_accepts disk" and "length (tree_paths root t) < fuel'"
    and "list_all (\<lambda>p. length (dest @ slash @ drop (length root + 1) p) < CPIO_PATH_MAX) (tree_paths root t)"
  shows "\<exists>bb log. bxxt_cpio_archive_out gz fuel h path = Some (Inr (Some bb, ARCHIVE_OK)) \<and>
    bxxt_cpio_archive_in plain fuel' look disk h' bb dir = Some (Inr (log, ARCHIVE_OK)) \<and>
    on_disk log = map (extracted dest) (packed h root 300000 (qsort_paths (tree_paths root t)))"
proof -
  obtain bb where bb: "bxxt_cpio_archive_out gz fuel h path = Some (Inr (Some bb, ARCHIVE_OK))" "b_ptr bb = gz n (packed_stream h root t)" "buffer_wf bb"
    using archive_out_stream [of h path root t fuel n gz] assms(1-8) by blast
  have "plain (b_ptr bb) = packed_stream h root t" using assms(9) bb(2) by simp
  from archive_in_stream [where plain = plain, OF assms(5) this assms(10-13) bb(3)] bb(1) show ?thesis by blast
qed

lemma PAD4_le: "PAD4 n \<le> 3"
  unfolding PAD4_def by linarith

lemma length_entry_bytes: "length (entry_bytes e d) \<le> 120 + length (the_name e) + length (link_text e) + length d"
  using PAD4_le [of "length (the_name e) + 1 + 110"] PAD4_le [of "length (link_text e)"] PAD4_le [of "length d"]
  by (simp add: entry_bytes_def head_bytes_def)

lemma length_trailer: "length trailer_bytes \<le> 130"
  using PAD4_le [of "length TRAILER + 1 + 110"] by (simp add: trailer_bytes_def)

definition demo_sorted :: "bytes list" where
  "demo_sorted = [c_bytes ''/r/b'', c_bytes ''/r/b/l'', c_bytes ''/r/z'']"

lemma demo_qsort: "qsort_paths (tree_paths demo_root demo_tree) = demo_sorted"
  unfolding demo_paths by (simp add: qsort_paths_def demo_sorted_def compare_paths_def c_bytes_def byte_of_chr_def)

lemma demo_stream_length: "length (packed_stream demo_host demo_root demo_tree) \<le> 16388"
proof -
  have e: "length (entry_bytes (packed_entry demo_host demo_root i p) (packed_body demo_host p)) \<le> 200" if "p \<in> set demo_sorted" for i p
  proof -
    have "length (the_name (packed_entry demo_host demo_root i p)) \<le> 3" "length (link_text (packed_entry demo_host demo_root i p)) \<le> 1"
      "length (packed_body demo_host p) \<le> 3"
      using that by (auto simp: demo_sorted_def packed_entry_def packed_body_def the_name_def link_text_def archive_entry_new_def demo_simps)
    then show ?thesis using length_entry_bytes [of "packed_entry demo_host demo_root i p" "packed_body demo_host p"] by linarith
  qed
  have "set demo_sorted = {c_bytes ''/r/b'', c_bytes ''/r/b/l'', c_bytes ''/r/z''}" by (simp add: demo_sorted_def)
  then have e3: "length (entry_bytes (packed_entry demo_host demo_root i p) (packed_body demo_host p)) \<le> 200"
    if "p = c_bytes ''/r/b'' \<or> p = c_bytes ''/r/b/l'' \<or> p = c_bytes ''/r/z''" for i p using e that by blast
  show ?thesis
    unfolding packed_stream_def demo_qsort
    using e3 [of "c_bytes ''/r/b''" 300000] e3 [of "c_bytes ''/r/b/l''" 300001] e3 [of "c_bytes ''/r/z''" 300002] length_trailer
    by (simp add: demo_sorted_def archive_bytes_def)
qed

lemma cpio_pack_unpack_witness:
  "\<exists>bb log. bxxt_cpio_archive_out (\<lambda>n s. s) 2 demo_host demo_root = Some (Inr (Some bb, ARCHIVE_OK)) \<and>
    bxxt_cpio_archive_in (\<lambda>s. s) 4 (\<lambda>s n. 0) (\<lambda>l b off. 0) demo_host bb (c_bytes ''/d'') = Some (Inr (log, ARCHIVE_OK)) \<and>
    on_disk log = map (extracted (c_bytes ''/d'')) (packed demo_host demo_root 300000 demo_sorted)"
proof -
  have n: "(16388 :: nat) = nat (sum_list (map (path_size demo_host) (tree_paths demo_root demo_tree)) mod 2 ^ 32)"
    unfolding demo_paths by (simp add: path_size_def demo_simps)
  have r: "h_realpath demo_host demo_root = Some demo_root" "h_realpath demo_host (c_bytes ''/d'') = Some (c_bytes ''/d'')"
    by (simp_all add: demo_host_def)
  have t: "demo_tree \<noteq> File" "height demo_tree \<le> 2" by (simp_all add: demo_tree_def)
  have d: "disk_accepts (\<lambda>l b off. 0)" by (simp add: disk_accepts_def ARCHIVE_OK_def)
  have p: "length (tree_paths demo_root demo_tree) < 4"
    "list_all (\<lambda>p. length (c_bytes ''/d'' @ slash @ drop (length demo_root + 1) p) < CPIO_PATH_MAX) (tree_paths demo_root demo_tree)"
    unfolding demo_paths by (simp_all add: demo_simps)
  show ?thesis
    by (rule cpio_pack_unpack [where gz = "\<lambda>n s. s" and plain = "\<lambda>s. s" and n = 16388, OF r(1) demo_shows t demo_all_packable n _ demo_stream_length refl r(2) d p, unfolded demo_qsort])
       simp
qed

section \<open>Extraction of bad archives\<close>

text \<open>
  C26: extraction ends for every archive, however damaged, in each of the formats the reader
  knows (newc, odc with afio's large headers, binary of either byte order) or in none, and for
  every answer of the disk: the number of rounds is bounded by the length of the stream and of
  the longest path, so enough fuel always gives a result.
\<close>

theorem extraction_ends:
  assumes "length (plain (take (b_size bb) (b_ptr bb))) + CPIO_PATH_MAX + 1 < fuel"
  shows "bxxt_cpio_archive_in plain fuel look disk h bb path \<noteq> None"
proof -
  let ?s = "plain (take (b_size bb) (b_ptr bb))"
  have "extract_entries fuel look disk ((bxxt_cpio_archive_new rpath)\<lparr>cp_r := cpio_reader_open f ?s\<rparr>) \<noteq> None" for rpath f
    by (rule extract_entries_end [where j = "length ?s + 1"]) (use assms in \<open>simp_all add: cpio_reader_open_def\<close>)
  moreover have "extract_entries fuel look disk ((bxxt_cpio_archive_new rpath)\<lparr>cp_r := (cpio_reader_open f ?s)\<lparr>nr_state := STATE_FATAL\<rparr>\<rparr>) \<noteq> None" for rpath f
    by (rule extract_entries_end [where j = 0]) (use assms in \<open>simp_all\<close>)
  ultimately show ?thesis by (auto simp: bxxt_cpio_archive_in_def Let_def split: option.splits)
qed

text \<open>A binary archive that stops inside its first header.\<close>

lemma extraction_ends_witness:
  "archive_read_format_cpio_bid [0xC7, 0x71, 1, 2, 3, 4, 5] = Some Fmt_Bin_LE \<and>
   bxxt_cpio_archive_in (\<lambda>s. s) 5000 (\<lambda>s n. 0) (\<lambda>l b off. 0) demo_host \<lparr>b_size = 7, b_ptr = [0xC7, 0x71, 1, 2, 3, 4, 5]\<rparr> demo_root \<noteq> None"
proof (rule conjI)
  show "archive_read_format_cpio_bid [0xC7, 0x71, 1, 2, 3, 4, 5] = Some Fmt_Bin_LE"
    by (simp add: archive_read_format_cpio_bid_def c_bytes_def byte_of_chr_def)
  show "bxxt_cpio_archive_in (\<lambda>s. s) 5000 (\<lambda>s n. 0) (\<lambda>l b off. 0) demo_host \<lparr>b_size = 7, b_ptr = [0xC7, 0x71, 1, 2, 3, 4, 5]\<rparr> demo_root \<noteq> None"
    by (rule extraction_ends) (simp add: CPIO_PATH_MAX_def)
qed

text \<open>
  C34: an archive that breaks off inside the target of a symbolic link overflows the path
  buffer of the extraction: the failed reader keeps the entry it was reading, the loop does
  not test for the failure, and each round writes the destination in front of the kept path
  until the path no longer fits.
\<close>

theorem truncated_link_overflows_path:
  assumes "entry_ok e []" and "ae_filetype e = AE_IFLNK" and "length t < length (link_text e)"
    and "plain (take (b_size bb) (b_ptr bb)) = newc_fields e (int (stored_size e [])) (int (length (the_name e) + 1)) @
      (the_name e @ [0] @ replicate (PAD4 (length (the_name e) + 1 + 110)) 0) @ t"
    and "h_realpath h path = Some root" and "CPIO_PATH_MAX + 1 < fuel"
  shows "bxxt_cpio_archive_in plain fuel look disk h bb path = Some (Inl Oob_Write)"
proof -
  let ?s = "plain (take (b_size bb) (b_ptr bb))"
  let ?cp = "(bxxt_cpio_archive_new root)\<lparr>cp_r := cpio_reader_open Fmt_Newc ?s\<rparr>"
  have "nr_in (cpio_reader_open Fmt_Newc ?s) = newc_fields e (int (stored_size e [])) (int (length (the_name e) + 1)) @
      (the_name e @ [0] @ replicate (PAD4 (length (the_name e) + 1 + 110)) 0) @ t" unfolding assms(4) by (simp add: cpio_reader_open_def)
  moreover have "nr_format (cpio_reader_open Fmt_Newc ?s) = Fmt_Newc" by (simp add: cpio_reader_open_def)
  ultimately obtain a' e' where
    r: "archive_read_format_cpio_read_header look (cpio_reader_open Fmt_Newc ?s) = (a', e', ARCHIVE_FATAL)" "ae_pathname e' = Some (the_name e)"
    using read_cut_link [OF assms(1-3), of "cpio_reader_open Fmt_Newc ?s" look] by blast
  obtain k where k: "fuel = Suc k" "CPIO_PATH_MAX < k" using assms(6) by (cases fuel) auto
  have h: "archive_read_next_header look (cp_r ?cp) (cp_e ?cp) = (a'\<lparr>nr_state := STATE_FATAL\<rparr>, e', ARCHIVE_FATAL)"
    using r(1) status_codes by (simp add: archive_read_next_header_def cpio_reader_open_def)
  have "extract_entries fuel look disk ?cp = Some (Inl Oob_Write)" unfolding k(1)
    by (rule first_failure [OF h _ r(2) k(2)]) simp
  moreover have "archive_read_format_cpio_bid ?s = Some Fmt_Newc" unfolding assms(4) by (rule bid_newc)
  ultimately show ?thesis using assms(5) by (simp add: bxxt_cpio_archive_in_def Let_def)
qed

definition cut_entry :: archive_entry where
  "cut_entry = archive_entry_new\<lparr>ae_pathname := Some [97], ae_mode := 0xA1FF, ae_nlink := 1, ae_size := Some 0, ae_symlink := Some [98, 99]\<rparr>"

definition cut_archive :: bytes where
  "cut_archive = newc_fields cut_entry 2 2 @ ([97] @ [0] @ replicate (PAD4 112) 0) @ [98]"

lemma truncated_link_overflows_path_witness:
  "bxxt_cpio_archive_in (\<lambda>s. s) 5000 (\<lambda>s n. 0) (\<lambda>l b off. 0) demo_host
     \<lparr>b_size = length cut_archive, b_ptr = cut_archive\<rparr> demo_root = Some (Inl Oob_Write)"
proof (rule truncated_link_overflows_path [where e = cut_entry and t = "[98]"])
  show "entry_ok cut_entry []"
    by (simp add: entry_ok_def numbers_ok_def cut_entry_def archive_entry_new_def name_ok_def TRAILER_def c_bytes_def ae_filetype_def
      AE_IFMT_def AE_IFREG_def AE_IFLNK_def)
  show "ae_filetype cut_entry = AE_IFLNK" by (simp add: ae_filetype_def cut_entry_def archive_entry_new_def AE_IFMT_def AE_IFLNK_def)
  show "take (b_size \<lparr>b_size = length cut_archive, b_ptr = cut_archive\<rparr>) (b_ptr \<lparr>b_size = length cut_archive, b_ptr = cut_archive\<rparr>) =
      newc_fields cut_entry (int (stored_size cut_entry [])) (int (length (the_name cut_entry) + 1)) @
      (the_name cut_entry @ [0] @ replicate (PAD4 (length (the_name cut_entry) + 1 + 110)) 0) @ [98]"
    by (simp add: cut_archive_def stored_size_def link_text_def the_name_def cut_entry_def)
qed (simp_all add: link_text_def cut_entry_def demo_host_def CPIO_PATH_MAX_def)

end
