(* ===== verification/Dt_Data.thy ===== *)
theory Dt_Data
  imports Bxxt_Strcmp
begin

text \<open>
  The growing byte strings of the device tree compiler (libdtc/data.c): appending, merging
  and alignment, with the markers that go with them. Lengths are C ints; a block is the
  bytes in use and the size that was allocated.
\<close>

section \<open>Results\<close>

text \<open>
  Beside a value or a fault, the compiler may end the process: \<open>die\<close>, and an assertion that fails.
  \<open>No_Fuel\<close> is a recursion that goes deeper than the model was asked to follow.
\<close>

datatype 'a dres = Done 'a | Fault fault | Die | No_Fuel

definition dbind :: "'a dres \<Rightarrow> ('a \<Rightarrow> 'b dres) \<Rightarrow> 'b dres" where
  "dbind m f = (case m of Done x \<Rightarrow> f x | Fault e \<Rightarrow> Fault e | Die \<Rightarrow> Die | No_Fuel \<Rightarrow> No_Fuel)"

lemma dbind_simps [simp, res_simps]:
  "dbind (Done x) f = f x" "dbind (Fault e) f = Fault e" "dbind Die f = Die" "dbind No_Fuel f = No_Fuel"
  by (simp_all add: dbind_def)

lemma dbind_Done [res_simps]: "dbind m f = Done y \<longleftrightarrow> (\<exists>x. m = Done x \<and> f x = Done y)"
  by (cases m) simp_all

lemma dbind_No_Fuel [res_simps]: "dbind m f = No_Fuel \<longleftrightarrow> m = No_Fuel \<or> (\<exists>x. m = Done x \<and> f x = No_Fuel)"
  by (cases m) simp_all

lemma dbind_cong [fundef_cong]: "m = m' \<Longrightarrow> (\<And>x. m' = Done x \<Longrightarrow> f x = g x) \<Longrightarrow> dbind m f = dbind m' g"
  by (cases m') simp_all

definition from_res :: "'a res \<Rightarrow> 'a dres" where
  "from_res m = (case m of Inl e \<Rightarrow> Fault e | Inr x \<Rightarrow> Done x)"

lemma from_res_simps [simp, res_simps]: "from_res (Inl e) = Fault e" "from_res (Inr x) = Done x"
  by (simp_all add: from_res_def)

section \<open>Data\<close>

datatype markertype = REF_PHANDLE | REF_PATH | LABEL

record marker =
  mk_type :: markertype
  mk_offset :: nat
  mk_ref :: bytes

record dt_data =
  d_val :: bytes
  d_cap :: nat
  d_markers :: "marker list"

definition empty_data :: dt_data where
  "empty_data = \<lparr>d_val = [], d_cap = 0, d_markers = []\<rparr>"

abbreviation d_len :: "dt_data \<Rightarrow> nat" where
  "d_len d \<equiv> length (d_val d)"

abbreviation INT_MAX :: nat where
  "INT_MAX \<equiv> 2147483647"

text \<open>The loop that doubles a size until it is enough.\<close>

function grow_size :: "nat \<Rightarrow> nat \<Rightarrow> nat dres" where
  "grow_size need newsize =
     (if need > newsize \<and> newsize \<noteq> 0 then (if newsize * 2 > INT_MAX then Fault Signed_Overflow else grow_size need (newsize * 2))
      else Done newsize)"
  by pat_completeness auto
termination by (relation "measure (\<lambda>(need, newsize). need - newsize)") auto

declare grow_size.simps [simp del]

text \<open>
  A negative length asks the allocator for more than there is when nothing is held yet;
  otherwise its doubling overflows.
\<close>

definition data_grow_for :: "dt_data \<Rightarrow> int \<Rightarrow> dt_data dres" where
  "data_grow_for d xlen =
     (if xlen = 0 then Done d
      else if xlen < 0 then (if d_len d = 0 then Die else Fault Signed_Overflow)
      else if int (d_len d) + xlen > int INT_MAX then Fault Signed_Overflow
      else dbind (grow_size (d_len d + nat xlen) (nat xlen)) (\<lambda>n. Done (d\<lparr>d_cap := n\<rparr>)))"

text \<open>The bytes that are copied behind those in use must have been allocated.\<close>

definition data_put :: "dt_data \<Rightarrow> bytes \<Rightarrow> dt_data dres" where
  "data_put d p = (if d_len d + length p > d_cap d \<and> p \<noteq> [] then Fault Oob_Write else Done (d\<lparr>d_val := d_val d @ p\<rparr>))"

definition data_append_data :: "dt_data \<Rightarrow> bytes \<Rightarrow> dt_data dres" where
  "data_append_data d p = dbind (data_grow_for d (int (length p))) (\<lambda>d. data_put d p)"

definition data_copy_mem :: "bytes \<Rightarrow> dt_data dres" where
  "data_copy_mem mem = dbind (data_grow_for empty_data (int (length mem))) (\<lambda>d. data_put d mem)"

text \<open>The marker is given by its place in the list; those behind it move with the bytes.\<close>

definition shift_marker :: "nat \<Rightarrow> marker \<Rightarrow> marker" where
  "shift_marker n m = m\<lparr>mk_offset := mk_offset m + n\<rparr>"

definition data_insert_at_marker :: "dt_data \<Rightarrow> nat \<Rightarrow> bytes \<Rightarrow> dt_data dres" where
  "data_insert_at_marker d i p =
     dbind (data_grow_for d (int (length p))) (\<lambda>d.
     let o1 = mk_offset (d_markers d ! i) in
     if d_len d + length p > d_cap d \<and> p \<noteq> [] \<or> o1 > d_len d then Fault Oob_Write
     else Done (d\<lparr>d_val := take o1 (d_val d) @ p @ drop o1 (d_val d),
                  d_markers := take (Suc i) (d_markers d) @ map (shift_marker (length p)) (drop (Suc i) (d_markers d))\<rparr>))"

definition data_append_markers :: "dt_data \<Rightarrow> marker list \<Rightarrow> dt_data" where
  "data_append_markers d m = d\<lparr>d_markers := d_markers d @ m\<rparr>"

definition data_merge :: "dt_data \<Rightarrow> dt_data \<Rightarrow> dt_data dres" where
  "data_merge d1 d2 =
     dbind (data_append_data d1 (d_val d2)) (\<lambda>d. Done (data_append_markers d (map (shift_marker (d_len d1)) (d_markers d2))))"

definition data_append_integer :: "dt_data \<Rightarrow> u64 \<Rightarrow> nat \<Rightarrow> dt_data dres" where
  "data_append_integer d v bits =
     (if bits = 8 then data_append_data d [ucast v]
      else if bits = 16 then data_append_data d (be_bytes 2 (unat (ucast v :: u16)))
      else if bits = 32 then data_append_data d (be32 (ucast v))
      else if bits = 64 then data_append_data d (be64 v)
      else Die)"

definition data_append_re :: "dt_data \<Rightarrow> u64 \<Rightarrow> u64 \<Rightarrow> dt_data dres" where
  "data_append_re d addr sz = data_append_data d (be64 addr @ be64 sz)"

definition data_append_cell :: "dt_data \<Rightarrow> u32 \<Rightarrow> dt_data dres" where
  "data_append_cell d w = data_append_integer d (ucast w) 32"

definition data_append_addr :: "dt_data \<Rightarrow> u64 \<Rightarrow> dt_data dres" where
  "data_append_addr d addr = data_append_integer d addr 64"

definition data_append_byte :: "dt_data \<Rightarrow> u8 \<Rightarrow> dt_data dres" where
  "data_append_byte d b = data_append_data d [b]"

definition data_append_zeroes :: "dt_data \<Rightarrow> int \<Rightarrow> dt_data dres" where
  "data_append_zeroes d len = dbind (data_grow_for d len) (\<lambda>d. data_put d (replicate (nat len) 0))"

unbundle bit_operations_syntax

definition ALIGN :: "int \<Rightarrow> int \<Rightarrow> int" where
  "ALIGN x a = (x + a - 1) AND NOT (a - 1)"

definition data_append_align :: "dt_data \<Rightarrow> int \<Rightarrow> dt_data dres" where
  "data_append_align d align = data_append_zeroes d (ALIGN (int (d_len d)) align - int (d_len d))"

definition data_add_marker :: "dt_data \<Rightarrow> markertype \<Rightarrow> bytes \<Rightarrow> dt_data" where
  "data_add_marker d t r = data_append_markers d [\<lparr>mk_type = t, mk_offset = d_len d, mk_ref = r\<rparr>]"

definition data_is_one_string :: "dt_data \<Rightarrow> bool" where
  "data_is_one_string d \<longleftrightarrow> d_val d \<noteq> [] \<and> 0 \<notin> set (butlast (d_val d)) \<and> last (d_val d) = 0"

section \<open>Growing is enough\<close>

lemma grow_size_ok:
  assumes "0 < newsize" and "newsize \<le> need" and "need \<le> 1073741823"
  shows "\<exists>n. grow_size need newsize = Done n \<and> need \<le> n"
  using assms
proof (induction need newsize rule: grow_size.induct)
  case (1 need newsize)
  show ?case
  proof (cases "need > newsize")
    case True
    show ?thesis
    proof (cases "newsize * 2 \<le> need")
      case less: True
      then obtain n where "grow_size need (newsize * 2) = Done n" "need \<le> n" using 1 True by auto
      then show ?thesis using 1(2-4) True by (subst grow_size.simps) simp
    next
      case False
      then have "grow_size need (newsize * 2) = Done (newsize * 2)" by (subst grow_size.simps) simp
      then show ?thesis using 1(2-4) True False by (subst grow_size.simps) simp
    qed
  next
    case False
    then show ?thesis using 1(3) by (subst grow_size.simps) simp
  qed
qed

text \<open>What every operation keeps: the bytes in use were allocated, and the lengths are small enough to be doubled.\<close>

definition fits :: "nat \<Rightarrow> bool" where
  "fits n \<longleftrightarrow> n \<le> 1073741823"

lemma data_grow_for_fits:
  assumes "fits (d_len d + n)" and "n \<noteq> 0"
  shows "\<exists>c. data_grow_for d (int n) = Done (d\<lparr>d_cap := c\<rparr>) \<and> d_len d + n \<le> c"
proof -
  obtain c where "grow_size (d_len d + n) n = Done c" "d_len d + n \<le> c"
    using grow_size_ok [of n "d_len d + n"] assms by (auto simp: fits_def)
  moreover have "\<not> int (d_len d) + int n > int INT_MAX" using assms(1) by (simp add: fits_def)
  ultimately have "data_grow_for d (int n) = Done (d\<lparr>d_cap := c\<rparr>)" using assms(2) by (simp add: data_grow_for_def)
  then show ?thesis using \<open>d_len d + n \<le> c\<close> by blast
qed

lemma data_append_data_fits:
  assumes "fits (d_len d + length p)"
  shows "\<exists>c. data_append_data d p = Done (d\<lparr>d_val := d_val d @ p, d_cap := c\<rparr>)"
proof (cases "p = []")
  case True
  then have "data_append_data d p = Done (d\<lparr>d_val := d_val d @ p, d_cap := d_cap d\<rparr>)"
    by (simp add: data_append_data_def data_grow_for_def data_put_def)
  then show ?thesis by blast
next
  case False
  then obtain c where c: "data_grow_for d (int (length p)) = Done (d\<lparr>d_cap := c\<rparr>)" "d_len d + length p \<le> c"
    using data_grow_for_fits [OF assms] by auto
  then have "data_append_data d p = Done (d\<lparr>d_val := d_val d @ p, d_cap := c\<rparr>)"
    by (simp add: data_append_data_def data_put_def)
  then show ?thesis by blast
qed

text \<open>The results, up to the size of the block.\<close>

definition gives :: "dt_data dres \<Rightarrow> bytes \<Rightarrow> marker list \<Rightarrow> bool" where
  "gives m v ms \<longleftrightarrow> (\<exists>d. m = Done d \<and> d_val d = v \<and> d_markers d = ms)"

lemma gives_bind: "gives m v ms \<Longrightarrow> (\<And>d. d_val d = v \<Longrightarrow> d_markers d = ms \<Longrightarrow> P (f d)) \<Longrightarrow> P (dbind m f)"
  by (auto simp: gives_def)

lemma data_append_data_gives: "fits (d_len d + length p) \<Longrightarrow> gives (data_append_data d p) (d_val d @ p) (d_markers d)"
  using data_append_data_fits [of d p] by (auto simp: gives_def)

lemma data_append_cell_gives: "fits (d_len d + 4) \<Longrightarrow> gives (data_append_cell d w) (d_val d @ be32 w) (d_markers d)"
proof -
  assume "fits (d_len d + 4)"
  moreover have "(ucast (ucast w :: u64) :: u32) = w" by (rule bit_word_eqI) (auto simp: bit_simps)
  ultimately show ?thesis using data_append_data_gives [of d "be32 w"]
    by (simp add: data_append_cell_def data_append_integer_def be32.length_enc)
qed

lemma data_append_byte_gives: "fits (d_len d + 1) \<Longrightarrow> gives (data_append_byte d b) (d_val d @ [b]) (d_markers d)"
  using data_append_data_gives [of d "[b]"] by (simp add: data_append_byte_def)

lemma data_append_re_gives: "fits (d_len d + 16) \<Longrightarrow> gives (data_append_re d a s) (d_val d @ be64 a @ be64 s) (d_markers d)"
  using data_append_data_gives [of d "be64 a @ be64 s"] by (simp add: data_append_re_def be64.length_enc)

lemma data_append_zeroes_gives: "fits (d_len d + n) \<Longrightarrow> gives (data_append_zeroes d (int n)) (d_val d @ replicate n 0) (d_markers d)"
proof -
  have "data_append_zeroes d (int n) = data_append_data d (replicate n 0)"
    by (simp add: data_append_zeroes_def data_append_data_def)
  then show "fits (d_len d + n) \<Longrightarrow> ?thesis" using data_append_data_gives [of d "replicate n 0"] by simp
qed

lemma ALIGN_pow: "ALIGN x (2 ^ k) = (x + 2 ^ k - 1) div 2 ^ k * 2 ^ k"
proof -
  have "(2 ^ k - 1 :: int) = mask k" by (simp add: mask_eq_exp_minus_1)
  then have "ALIGN x (2 ^ k) = (x + 2 ^ k - 1) AND NOT (mask k)" by (simp add: ALIGN_def)
  also have "\<dots> = push_bit k (drop_bit k (x + 2 ^ k - 1))"
    by (rule bit_eqI) (auto simp: bit_simps)
  finally show ?thesis by (simp add: push_bit_eq_mult drop_bit_eq_div)
qed

definition pad_to :: "nat \<Rightarrow> nat \<Rightarrow> nat" where
  "pad_to a n = nat ((- int n) mod int a)"

lemma ALIGN_pad:
  assumes "a = 4 \<or> a = 8"
  shows "ALIGN (int n) (int a) = int (n + pad_to a n)"
proof -
  have "ALIGN (int n) 4 = (int n + 3) div 4 * 4" "ALIGN (int n) 8 = (int n + 7) div 8 * 8"
    using ALIGN_pow [of "int n" 2] ALIGN_pow [of "int n" 3] by (simp_all add: algebra_simps)
  moreover have "(int n + 3) div 4 * 4 = int n + (- int n) mod 4" "(int n + 7) div 8 * 8 = int n + (- int n) mod 8" by presburger+
  moreover have "0 \<le> (- int n) mod 4" "0 \<le> (- int n) mod 8" by simp_all
  ultimately show ?thesis using assms by (elim disjE) (simp_all only: pad_to_def of_nat_add of_nat_numeral int_nat_eq if_True)
qed

lemma data_append_align_gives:
  assumes "a = 4 \<or> a = 8" and "fits (d_len d + pad_to a (d_len d))"
  shows "gives (data_append_align d (int a)) (d_val d @ replicate (pad_to a (d_len d)) 0) (d_markers d)"
  using data_append_zeroes_gives [OF assms(2)] by (simp add: data_append_align_def ALIGN_pad [OF assms(1)])

lemma data_merge_gives:
  "fits (d_len d1 + d_len d2) \<Longrightarrow>
   gives (data_merge d1 d2) (d_val d1 @ d_val d2) (d_markers d1 @ map (shift_marker (d_len d1)) (d_markers d2))"
  unfolding data_merge_def
  by (rule gives_bind [OF data_append_data_gives]) (simp_all add: gives_def data_append_markers_def)

end
