(* ===== verification/Dt_Live.thy ===== *)
theory Dt_Live
  imports Dt_Data
begin

text \<open>
  The live device tree (libdtc/livetree.c): nodes with their properties, labels and
  children, the operations that build a tree, merge two and delete from one, and the
  searches. A node has its name from the start: building and naming it are one step here.
  Links to the parent are not kept, a node inside a tree is reached by the places of the
  children on the way to it.
\<close>

section \<open>Nodes\<close>

record dt_label =
  lb_deleted :: bool
  lb_text :: bytes

record dt_property =
  pr_deleted :: bool
  pr_name :: bytes
  pr_val :: dt_data
  pr_labels :: "dt_label list"

datatype dt_node =
  Node (nd_deleted: bool) (nd_name: bytes) (nd_proplist: "dt_property list") (nd_children: "dt_node list")
    (nd_fullpath: "bytes option") (nd_basenamelen: nat) (nd_phandle: u32) (nd_labels: "dt_label list")

record reserve_info =
  re_address :: u64
  re_size :: u64
  re_labels :: "dt_label list"

record dt_info =
  dt_dtsflags :: nat
  dt_reservelist :: "reserve_info list"
  dt_boot_cpuid_phys :: u32
  dt_tree :: dt_node

definition DTSF_V1 :: nat where "DTSF_V1 = 1"

definition streq :: "bytes \<Rightarrow> bytes \<Rightarrow> bool" where
  "streq a b \<longleftrightarrow> strcmp a b = 0"

abbreviation live_props :: "dt_node \<Rightarrow> dt_property list" where
  "live_props n \<equiv> filter (\<lambda>p. \<not> pr_deleted p) (nd_proplist n)"

abbreviation live_children :: "dt_node \<Rightarrow> dt_node list" where
  "live_children n \<equiv> filter (\<lambda>c. \<not> nd_deleted c) (nd_children n)"

abbreviation set_props :: "dt_node \<Rightarrow> dt_property list \<Rightarrow> dt_node" where
  "set_props n ps \<equiv> Node (nd_deleted n) (nd_name n) ps (nd_children n) (nd_fullpath n) (nd_basenamelen n) (nd_phandle n) (nd_labels n)"

abbreviation set_children :: "dt_node \<Rightarrow> dt_node list \<Rightarrow> dt_node" where
  "set_children n cs \<equiv> Node (nd_deleted n) (nd_name n) (nd_proplist n) cs (nd_fullpath n) (nd_basenamelen n) (nd_phandle n) (nd_labels n)"

section \<open>Building\<close>

fun add_label :: "dt_label list \<Rightarrow> bytes \<Rightarrow> dt_label list" where
  "add_label ls l =
     (if \<exists>x\<in>set ls. streq (lb_text x) l then
        (case dropWhile (\<lambda>x. \<not> streq (lb_text x) l) ls of
           x # xs \<Rightarrow> takeWhile (\<lambda>x. \<not> streq (lb_text x) l) ls @ x\<lparr>lb_deleted := False\<rparr> # xs
         | [] \<Rightarrow> ls)
      else \<lparr>lb_deleted = False, lb_text = l\<rparr> # ls)"

definition delete_labels :: "dt_label list \<Rightarrow> dt_label list" where
  "delete_labels ls = map (\<lambda>l. l\<lparr>lb_deleted := True\<rparr>) ls"

definition build_property :: "bytes \<Rightarrow> dt_data \<Rightarrow> dt_property" where
  "build_property p v = \<lparr>pr_deleted = False, pr_name = p, pr_val = v, pr_labels = []\<rparr>"

definition build_property_delete :: "bytes \<Rightarrow> dt_property" where
  "build_property_delete p = \<lparr>pr_deleted = True, pr_name = p, pr_val = empty_data, pr_labels = []\<rparr>"

definition build_node :: "bytes \<Rightarrow> dt_property list \<Rightarrow> dt_node list \<Rightarrow> dt_node" where
  "build_node nm proplist children = Node False nm (rev proplist) children None 0 0 []"

definition add_property :: "dt_node \<Rightarrow> dt_property \<Rightarrow> dt_node" where
  "add_property n p = set_props n (nd_proplist n @ [p])"

definition add_child :: "dt_node \<Rightarrow> dt_node \<Rightarrow> dt_node" where
  "add_child n c = set_children n (nd_children n @ [c])"

definition build_reserve_entry :: "u64 \<Rightarrow> u64 \<Rightarrow> reserve_info" where
  "build_reserve_entry a s = \<lparr>re_address = a, re_size = s, re_labels = []\<rparr>"

text \<open>An entry alone is a list of one; chaining one that already has a successor is asserted not to happen.\<close>

definition chain_reserve_entry :: "reserve_info list \<Rightarrow> reserve_info list \<Rightarrow> reserve_info list dres" where
  "chain_reserve_entry f l =
     (case f of [] \<Rightarrow> Fault Null_Deref | [e] \<Rightarrow> Done (e # l) | _ \<Rightarrow> Die)"

definition add_reserve_entry :: "reserve_info list \<Rightarrow> reserve_info \<Rightarrow> reserve_info list" where
  "add_reserve_entry l r = l @ [r]"

definition build_dt_info :: "nat \<Rightarrow> reserve_info list \<Rightarrow> dt_node \<Rightarrow> u32 \<Rightarrow> dt_info" where
  "build_dt_info fl rs t cpu = \<lparr>dt_dtsflags = fl, dt_reservelist = rs, dt_boot_cpuid_phys = cpu, dt_tree = t\<rparr>"

section \<open>Deleting and merging\<close>

definition delete_property :: "dt_property \<Rightarrow> dt_property" where
  "delete_property p = p\<lparr>pr_deleted := True, pr_labels := delete_labels (pr_labels p)\<rparr>"

text \<open>The first property of the name, whether it is deleted or not.\<close>

fun on_first :: "('a \<Rightarrow> bool) \<Rightarrow> ('a \<Rightarrow> 'a) \<Rightarrow> 'a list \<Rightarrow> 'a list" where
  "on_first P f [] = []"
| "on_first P f (x # xs) = (if P x then f x # xs else x # on_first P f xs)"

definition delete_property_by_name :: "dt_node \<Rightarrow> bytes \<Rightarrow> dt_node" where
  "delete_property_by_name n p = set_props n (on_first (\<lambda>q. streq (pr_name q) p) delete_property (nd_proplist n))"

fun delete_node :: "dt_node \<Rightarrow> dt_node" where
  "delete_node (Node d nm ps cs fp bl ph ls) =
     Node True nm (map (\<lambda>p. if pr_deleted p then p else delete_property p) ps) (map (\<lambda>c. if nd_deleted c then c else delete_node c) cs)
       fp bl ph (delete_labels ls)"

definition delete_node_by_name :: "dt_node \<Rightarrow> bytes \<Rightarrow> dt_node" where
  "delete_node_by_name n c = set_children n (on_first (\<lambda>q. streq (nd_name q) c) delete_node (nd_children n))"

definition merge_labels :: "dt_label list \<Rightarrow> dt_label list \<Rightarrow> dt_label list" where
  "merge_labels old new = fold (\<lambda>l ls. add_label ls (lb_text l)) new old"

definition merge_property :: "dt_property \<Rightarrow> dt_node \<Rightarrow> dt_node" where
  "merge_property p n =
     (if pr_deleted p then delete_property_by_name n (pr_name p)
      else if \<exists>q\<in>set (nd_proplist n). streq (pr_name q) (pr_name p) then
        set_props n (on_first (\<lambda>q. streq (pr_name q) (pr_name p))
          (\<lambda>q. q\<lparr>pr_labels := merge_labels (pr_labels q) (pr_labels p), pr_val := pr_val p, pr_deleted := False\<rparr>) (nd_proplist n))
      else add_property n p)"

fun merge_nodes :: "dt_node \<Rightarrow> dt_node \<Rightarrow> dt_node" and merge_children :: "dt_node \<Rightarrow> dt_node list \<Rightarrow> dt_node" where
  "merge_nodes old (Node d nm ps cs fp bl ph ls) =
     merge_children (fold merge_property ps
       (Node False (nd_name old) (nd_proplist old) (nd_children old) (nd_fullpath old) (nd_basenamelen old) (nd_phandle old)
         (merge_labels (nd_labels old) ls))) cs"
| "merge_children old [] = old"
| "merge_children old (c # cs) =
     merge_children
       (if nd_deleted c then delete_node_by_name old (nd_name c)
        else if \<exists>q\<in>set (nd_children old). streq (nd_name q) (nd_name c) then
          set_children old (on_first (\<lambda>q. streq (nd_name q) (nd_name c)) (\<lambda>q. merge_nodes q c) (nd_children old))
        else add_child old c) cs"

definition append_to_property :: "dt_node \<Rightarrow> bytes \<Rightarrow> bytes \<Rightarrow> dt_node dres" where
  "append_to_property n p dat =
     (case find (\<lambda>q. \<not> pr_deleted q \<and> streq (pr_name q) p) (nd_proplist n) of
        Some q \<Rightarrow> dbind (data_append_data (pr_val q) dat) (\<lambda>d.
          Done (set_props n (on_first (\<lambda>q. \<not> pr_deleted q \<and> streq (pr_name q) p) (\<lambda>q. q\<lparr>pr_val := d\<rparr>) (nd_proplist n))))
      | None \<Rightarrow> dbind (data_append_data empty_data dat) (\<lambda>d. Done (add_property n (build_property p d))))"

section \<open>Searching\<close>

definition get_property :: "dt_node \<Rightarrow> bytes \<Rightarrow> dt_property option" where
  "get_property n p = find (\<lambda>q. streq (pr_name q) p) (live_props n)"

definition propval_cell :: "dt_property \<Rightarrow> u32 dres" where
  "propval_cell p = (if d_len (pr_val p) = 4 then Done (rd_be32 (d_val (pr_val p))) else Die)"

definition get_subnode :: "dt_node \<Rightarrow> bytes \<Rightarrow> dt_node option" where
  "get_subnode n nm = find (\<lambda>c. streq (nd_name c) nm) (live_children n)"

text \<open>A path without its leading slashes, cut at the next one.\<close>

definition strip_slashes :: "bytes \<Rightarrow> bytes" where
  "strip_slashes p = dropWhile (\<lambda>c. c = 47) p"

lemma length_strip_slashes: "length (strip_slashes p) \<le> length p"
  by (simp add: strip_slashes_def length_dropWhile_le)

text \<open>
  The loop over the children ends at the first one that fits, even when the search below it
  fails.
\<close>

function get_node_by_path :: "dt_node \<Rightarrow> bytes \<Rightarrow> dt_node option" where
  "get_node_by_path t path =
     (if path = [] then (if nd_deleted t then None else Some t)
      else
        let path = strip_slashes path; w = takeWhile (\<lambda>c. c \<noteq> 47) path; more = drop (length w) path in
        case find (\<lambda>c. nd_name c = w) (live_children t) of
          None \<Rightarrow> None
        | Some c \<Rightarrow> if more = [] then Some c else get_node_by_path c (tl more))"
  by pat_completeness auto
termination
proof (relation "measure (\<lambda>(t, p). length p)", goal_cases)
  case (2 t p q w more c)
  have "length (tl more) < length more" using 2 by (cases more) simp_all
  also have "length more \<le> length q" using 2 by simp
  also have "length q \<le> length p" using 2 length_strip_slashes by simp
  finally show ?case by simp
qed simp

declare get_node_by_path.simps [simp del]

fun first_some :: "('a \<Rightarrow> 'b option) \<Rightarrow> 'a list \<Rightarrow> 'b option" where
  "first_some f [] = None"
| "first_some f (x # xs) = (case f x of None \<Rightarrow> first_some f xs | Some y \<Rightarrow> Some y)"

lemma first_some_cong [fundef_cong]:
  "xs = ys \<Longrightarrow> (\<And>x. x \<in> set ys \<Longrightarrow> f x = g x) \<Longrightarrow> first_some f xs = first_some g ys"
  by (induction ys arbitrary: xs) (auto split: option.splits)

text \<open>The two searches assert at every node that the label is not empty and the phandle a proper one.\<close>

fun find_label :: "dt_node \<Rightarrow> bytes \<Rightarrow> dt_node option" where
  "find_label (Node d nm ps cs fp bl ph ls) l =
     (if \<exists>x\<in>set ls. \<not> lb_deleted x \<and> streq (lb_text x) l then Some (Node d nm ps cs fp bl ph ls)
      else first_some (\<lambda>c. if nd_deleted c then None else find_label c l) cs)"

fun find_phandle :: "dt_node \<Rightarrow> u32 \<Rightarrow> dt_node option" where
  "find_phandle (Node d nm ps cs fp bl ph ls) h =
     (if ph = h then (if d then None else Some (Node d nm ps cs fp bl ph ls))
      else first_some (\<lambda>c. if nd_deleted c then None else find_phandle c h) cs)"

definition get_node_by_label :: "dt_node \<Rightarrow> bytes \<Rightarrow> dt_node option dres" where
  "get_node_by_label t l = (if l = [] then Die else Done (find_label t l))"

definition get_node_by_phandle :: "dt_node \<Rightarrow> u32 \<Rightarrow> dt_node option dres" where
  "get_node_by_phandle t h = (if h = 0 \<or> h = - 1 then Die else Done (find_phandle t h))"

definition get_node_by_ref :: "dt_node \<Rightarrow> bytes \<Rightarrow> dt_node option dres" where
  "get_node_by_ref t ref =
     (if streq ref (c_bytes ''/'') then Done (Some t)
      else if ref \<noteq> [] \<and> hd ref = 47 then Done (get_node_by_path t ref)
      else get_node_by_label t ref)"

definition guess_boot_cpuid :: "dt_node \<Rightarrow> u32 dres" where
  "guess_boot_cpuid t =
     (case get_node_by_path t (c_bytes ''/cpus'') of None \<Rightarrow> Done 0
      | Some cpus \<Rightarrow> (case nd_children cpus of [] \<Rightarrow> Done 0
         | b # _ \<Rightarrow> (case get_property b (c_bytes ''reg'') of None \<Rightarrow> Done 0
            | Some reg \<Rightarrow> if d_len (pr_val reg) \<noteq> 4 then Done 0 else propval_cell reg)))"

end
