(* ===== verification/Dt_Flat.thy ===== *)
theory Dt_Flat
  imports Dt_Live
begin

text \<open>
  Flattening a device tree into a blob (libdtc/flattree.c): the structure block and the table
  of property names, the reservation map and the header. The emitter is the binary one.
\<close>

section \<open>Formats\<close>

definition FDT_MAGIC :: u32 where "FDT_MAGIC = 0xd00dfeed"
definition FDT_BEGIN_NODE :: u32 where "FDT_BEGIN_NODE = 1"
definition FDT_END_NODE :: u32 where "FDT_END_NODE = 2"
definition FDT_PROP :: u32 where "FDT_PROP = 3"
definition FDT_NOP :: u32 where "FDT_NOP = 4"
definition FDT_END :: u32 where "FDT_END = 9"

definition FDT_V1_SIZE :: nat where "FDT_V1_SIZE = 7 * 4"
definition FDT_V2_SIZE :: nat where "FDT_V2_SIZE = FDT_V1_SIZE + 4"
definition FDT_V3_SIZE :: nat where "FDT_V3_SIZE = FDT_V2_SIZE + 4"
definition FDT_V17_SIZE :: nat where "FDT_V17_SIZE = FDT_V3_SIZE + 4"

text \<open>The flags of a version.\<close>

record dt_flags =
  FTF_FULLPATH :: bool
  FTF_VARALIGN :: bool
  FTF_NAMEPROPS :: bool
  FTF_BOOTCPUID :: bool
  FTF_STRTABSIZE :: bool
  FTF_STRUCTSIZE :: bool
  FTF_NOPS :: bool

record version_info =
  vi_version :: nat
  vi_last_comp_version :: nat
  vi_hdr_size :: nat
  vi_flags :: dt_flags

definition flags_of :: "bool list \<Rightarrow> dt_flags" where
  "flags_of bs = \<lparr>FTF_FULLPATH = bs ! 0, FTF_VARALIGN = bs ! 1, FTF_NAMEPROPS = bs ! 2, FTF_BOOTCPUID = bs ! 3,
     FTF_STRTABSIZE = bs ! 4, FTF_STRUCTSIZE = bs ! 5, FTF_NOPS = bs ! 6\<rparr>"

definition version_table :: "version_info list" where
  "version_table =
     [\<lparr>vi_version = 1, vi_last_comp_version = 1, vi_hdr_size = FDT_V1_SIZE, vi_flags = flags_of [True, True, True, False, False, False, False]\<rparr>,
      \<lparr>vi_version = 2, vi_last_comp_version = 1, vi_hdr_size = FDT_V2_SIZE, vi_flags = flags_of [True, True, True, True, False, False, False]\<rparr>,
      \<lparr>vi_version = 3, vi_last_comp_version = 1, vi_hdr_size = FDT_V3_SIZE, vi_flags = flags_of [True, True, True, True, True, False, False]\<rparr>,
      \<lparr>vi_version = 16, vi_last_comp_version = 16, vi_hdr_size = FDT_V3_SIZE, vi_flags = flags_of [False, False, False, True, True, False, True]\<rparr>,
      \<lparr>vi_version = 17, vi_last_comp_version = 16, vi_hdr_size = FDT_V17_SIZE, vi_flags = flags_of [False, False, False, True, True, True, True]\<rparr>]"

definition find_version :: "nat \<Rightarrow> version_info option" where
  "find_version v = find (\<lambda>vi. vi_version vi = v) version_table"

text \<open>The settings of the compiler that shape a blob.\<close>

record dtc_opts =
  reservenum :: nat
  minsize :: int
  padsize :: int
  alignsize :: int

section \<open>The structure block\<close>

definition bin_emit_cell :: "dt_data \<Rightarrow> u32 \<Rightarrow> dt_data dres" where
  "bin_emit_cell d v = data_append_cell d v"

text \<open>A length of zero stands for that of the whole string.\<close>

definition bin_emit_string :: "dt_data \<Rightarrow> bytes \<Rightarrow> nat \<Rightarrow> dt_data dres" where
  "bin_emit_string d str len =
     (let len = (if len = 0 then length str else len) in
      if len > length str + 1 then Fault Oob_Read
      else dbind (data_append_data d (take len (str @ [0]))) (\<lambda>d. data_append_byte d 0))"

definition bin_emit_align :: "dt_data \<Rightarrow> int \<Rightarrow> dt_data dres" where
  "bin_emit_align d a = data_append_align d a"

definition bin_emit_data :: "dt_data \<Rightarrow> dt_data \<Rightarrow> dt_data dres" where
  "bin_emit_data d e = data_append_data d (d_val e)"

text \<open>The search through the table of names, \<open>i\<close> the offset of what is left of it.\<close>

fun table_find :: "bytes \<Rightarrow> bytes \<Rightarrow> nat \<Rightarrow> nat option" where
  "table_find str [] i = None"
| "table_find str (b # bs) i = (if streq str (cstr (b # bs)) then Some i else table_find str bs (i + 1))"

definition stringtable_insert :: "dt_data \<Rightarrow> bytes \<Rightarrow> (dt_data \<times> nat) dres" where
  "stringtable_insert d str =
     (case table_find str (d_val d) 0 of
        Some i \<Rightarrow> Done (d, i)
      | None \<Rightarrow> dbind (data_append_data d (str @ [0])) (\<lambda>e. Done (e, d_len d)))"

text \<open>What is written so far: the structure and the names.\<close>

type_synonym dt_bufs = "dt_data \<times> dt_data"

definition on_struct :: "dt_bufs \<Rightarrow> (dt_data \<Rightarrow> dt_data dres) \<Rightarrow> dt_bufs dres" where
  "on_struct b f = dbind (f (fst b)) (\<lambda>d. Done (d, snd b))"

definition flatten_property :: "dt_flags \<Rightarrow> dt_property \<Rightarrow> dt_bufs \<Rightarrow> dt_bufs dres" where
  "flatten_property fl p b =
     dbind (stringtable_insert (snd b) (pr_name p)) (\<lambda>(st, nameoff).
     dbind (on_struct (fst b, st) (\<lambda>d. bin_emit_cell d FDT_PROP)) (\<lambda>b.
     dbind (on_struct b (\<lambda>d. bin_emit_cell d (word_of_nat (d_len (pr_val p))))) (\<lambda>b.
     dbind (on_struct b (\<lambda>d. bin_emit_cell d (word_of_nat nameoff))) (\<lambda>b.
     dbind (if FTF_VARALIGN fl \<and> d_len (pr_val p) \<ge> 8 then on_struct b (\<lambda>d. bin_emit_align d 8) else Done b) (\<lambda>b.
     dbind (on_struct b (\<lambda>d. bin_emit_data d (pr_val p))) (\<lambda>b.
     on_struct b (\<lambda>d. bin_emit_align d 4)))))))"

fun flatten_properties :: "dt_flags \<Rightarrow> dt_property list \<Rightarrow> dt_bufs \<Rightarrow> dt_bufs dres" where
  "flatten_properties fl [] b = Done b"
| "flatten_properties fl (p # ps) b =
     dbind (if pr_deleted p then Done b else flatten_property fl p b) (flatten_properties fl ps)"

definition flatten_name_property :: "bytes \<Rightarrow> nat \<Rightarrow> dt_flags \<Rightarrow> dt_bufs \<Rightarrow> dt_bufs dres" where
  "flatten_name_property nm basenamelen fl b =
     dbind (on_struct b (\<lambda>d. bin_emit_cell d FDT_PROP)) (\<lambda>b.
     dbind (on_struct b (\<lambda>d. bin_emit_cell d (word_of_nat (basenamelen + 1)))) (\<lambda>b.
     dbind (stringtable_insert (snd b) (c_bytes ''name'')) (\<lambda>(st, off).
     dbind (on_struct (fst b, st) (\<lambda>d. bin_emit_cell d (word_of_nat off))) (\<lambda>b.
     dbind (if FTF_VARALIGN fl \<and> basenamelen + 1 \<ge> 8 then on_struct b (\<lambda>d. bin_emit_align d 8) else Done b) (\<lambda>b.
     dbind (on_struct b (\<lambda>d. bin_emit_string d nm basenamelen)) (\<lambda>b.
     on_struct b (\<lambda>d. bin_emit_align d 4)))))))"

fun flatten_tree :: "dt_flags \<Rightarrow> dt_node \<Rightarrow> dt_bufs \<Rightarrow> dt_bufs dres"
and flatten_children :: "dt_flags \<Rightarrow> dt_node list \<Rightarrow> dt_bufs \<Rightarrow> dt_bufs dres" where
  "flatten_tree fl (Node del nm ps cs fp bl ph ls) b =
     (if del then Done b
      else
        dbind (on_struct b (\<lambda>d. bin_emit_cell d FDT_BEGIN_NODE)) (\<lambda>b.
        dbind (if FTF_FULLPATH fl then (case fp of None \<Rightarrow> Fault Null_Deref | Some p \<Rightarrow> on_struct b (\<lambda>d. bin_emit_string d p 0))
               else on_struct b (\<lambda>d. bin_emit_string d nm 0)) (\<lambda>b.
        dbind (on_struct b (\<lambda>d. bin_emit_align d 4)) (\<lambda>b.
        dbind (flatten_properties fl ps b) (\<lambda>b.
        dbind (if FTF_NAMEPROPS fl \<and> \<not> (\<exists>p\<in>set ps. \<not> pr_deleted p \<and> streq (pr_name p) (c_bytes ''name''))
               then flatten_name_property nm bl fl b else Done b) (\<lambda>b.
        dbind (flatten_children fl cs b) (\<lambda>b.
        on_struct b (\<lambda>d. bin_emit_cell d FDT_END_NODE))))))))"
| "flatten_children fl [] b = Done b"
| "flatten_children fl (c # cs) b =
     dbind (if nd_deleted c then Done b else flatten_tree fl c b) (flatten_children fl cs)"

section \<open>The blob\<close>

fun append_reserves :: "reserve_info list \<Rightarrow> dt_data \<Rightarrow> dt_data dres" where
  "append_reserves [] d = Done d"
| "append_reserves (r # rs) d = dbind (data_append_re d (re_address r) (re_size r)) (append_reserves rs)"

definition flatten_reserve_list :: "dtc_opts \<Rightarrow> reserve_info list \<Rightarrow> dt_data dres" where
  "flatten_reserve_list opts rs =
     dbind (append_reserves rs empty_data) (append_reserves (replicate (reservenum opts) (build_reserve_entry 0 0)))"

record fdt_header =
  fh_magic :: u32
  fh_totalsize :: u32
  fh_off_dt_struct :: u32
  fh_off_dt_strings :: u32
  fh_off_mem_rsvmap :: u32
  fh_version :: u32
  fh_last_comp_version :: u32
  fh_boot_cpuid_phys :: u32
  fh_size_dt_strings :: u32
  fh_size_dt_struct :: u32

definition header_bytes :: "fdt_header \<Rightarrow> bytes" where
  "header_bytes h = concat (map be32 [fh_magic h, fh_totalsize h, fh_off_dt_struct h, fh_off_dt_strings h, fh_off_mem_rsvmap h,
     fh_version h, fh_last_comp_version h, fh_boot_cpuid_phys h, fh_size_dt_strings h, fh_size_dt_struct h])"

text \<open>Fields that a version does not have keep the ones of the \<open>memset\<close>.\<close>

definition make_fdt_header :: "version_info \<Rightarrow> nat \<Rightarrow> nat \<Rightarrow> nat \<Rightarrow> u32 \<Rightarrow> fdt_header" where
  "make_fdt_header vi reservesize dtsize strsize cpu =
     (let reservesize = reservesize + 16; reserve_off = nat (ALIGN (int (vi_hdr_size vi)) 8) in
      \<lparr>fh_magic = FDT_MAGIC,
       fh_totalsize = word_of_nat (reserve_off + reservesize + dtsize + strsize),
       fh_off_dt_struct = word_of_nat (reserve_off + reservesize),
       fh_off_dt_strings = word_of_nat (reserve_off + reservesize + dtsize),
       fh_off_mem_rsvmap = word_of_nat reserve_off,
       fh_version = word_of_nat (vi_version vi),
       fh_last_comp_version = word_of_nat (vi_last_comp_version vi),
       fh_boot_cpuid_phys = (if FTF_BOOTCPUID (vi_flags vi) then cpu else 0xffffffff),
       fh_size_dt_strings = (if FTF_STRTABSIZE (vi_flags vi) then word_of_nat strsize else 0xffffffff),
       fh_size_dt_struct = (if FTF_STRUCTSIZE (vi_flags vi) then word_of_nat dtsize else 0xffffffff)\<rparr>)"

text \<open>The padding that the settings ask for behind \<open>tsize\<close> bytes.\<close>

definition blob_padding :: "dtc_opts \<Rightarrow> u32 \<Rightarrow> int" where
  "blob_padding opts tsize =
     (let p = (if minsize opts > 0 then max 0 (to_int32 (minsize opts - uint tsize)) else 0);
          p = (if padsize opts > 0 then padsize opts else p)
      in if alignsize opts > 0 then to_int32 (ALIGN ((uint tsize + p) mod 2 ^ 32) (alignsize opts) - uint tsize) else p)"

definition dt_to_mem :: "dtc_opts \<Rightarrow> dt_info \<Rightarrow> nat \<Rightarrow> bytes dres" where
  "dt_to_mem opts dti version =
     (case find_version version of None \<Rightarrow> Die
      | Some vi \<Rightarrow>
          dbind (flatten_tree (vi_flags vi) (dt_tree dti) (empty_data, empty_data)) (\<lambda>(dtbuf, strbuf).
          dbind (bin_emit_cell dtbuf FDT_END) (\<lambda>dtbuf.
          dbind (flatten_reserve_list opts (dt_reservelist dti)) (\<lambda>reservebuf.
          let fdt = make_fdt_header vi (d_len reservebuf) (d_len dtbuf) (d_len strbuf) (dt_boot_cpuid_phys dti);
              padlen = blob_padding opts (fh_totalsize fdt);
              fdt = (if padlen > 0 then fdt\<lparr>fh_totalsize := fh_totalsize fdt + word_of_int padlen\<rparr> else fdt)
          in
          dbind (data_append_data empty_data (take (vi_hdr_size vi) (header_bytes fdt))) (\<lambda>blob.
          dbind (data_append_align blob 8) (\<lambda>blob.
          dbind (data_merge blob reservebuf) (\<lambda>blob.
          dbind (data_append_zeroes blob 16) (\<lambda>blob.
          dbind (data_merge blob dtbuf) (\<lambda>blob.
          dbind (data_merge blob strbuf) (\<lambda>blob.
          dbind (if padlen > 0 then data_append_zeroes blob padlen else Done blob) (\<lambda>blob.
          Done (d_val blob))))))))))))"

end
