(* ===== verification/Dt_Unflat.thy ===== *)
theory Dt_Unflat
  imports Dt_Flat
begin

text \<open>
  Reading a device tree from a blob in memory (libdtc/flattree.c): the buffers over it, the
  reservation map, the structure block and the header. The block of memory is a list of
  bytes; what lies outside it cannot be read.
\<close>

section \<open>Buffers\<close>

record inbuf =
  ib_base :: nat
  ib_limit :: nat
  ib_ptr :: nat

definition inbuf_init :: "nat \<Rightarrow> nat \<Rightarrow> inbuf" where
  "inbuf_init base limit = \<lparr>ib_base = base, ib_limit = limit, ib_ptr = base\<rparr>"

definition flat_read_chunk :: "bytes \<Rightarrow> inbuf \<Rightarrow> nat \<Rightarrow> (bytes \<times> inbuf) dres" where
  "flat_read_chunk m inb len =
     (if ib_ptr inb + len > ib_limit inb then Die
      else dbind (from_res (rd_bytes m (ib_ptr inb) len)) (\<lambda>p. Done (p, inb\<lparr>ib_ptr := ib_ptr inb + len\<rparr>)))"

definition flat_read_word :: "bytes \<Rightarrow> inbuf \<Rightarrow> (u32 \<times> inbuf) dres" where
  "flat_read_word m inb =
     (if (ib_ptr inb - ib_base inb) mod 4 \<noteq> 0 then Die
      else dbind (flat_read_chunk m inb 4) (\<lambda>(p, inb). Done (rd_be32 p, inb)))"

text \<open>
  The source keeps the offset in an \<open>int\<close>; for offsets of 2 GiB and more, where it would be
  negative, the model goes on counting.
\<close>

definition flat_realign :: "inbuf \<Rightarrow> nat \<Rightarrow> inbuf dres" where
  "flat_realign inb align =
     (let off = ib_ptr inb - ib_base inb; p = ib_base inb + nat (ALIGN (int off) (int align)) in
      if p > ib_limit inb then Die else Done (inb\<lparr>ib_ptr := p\<rparr>))"

text \<open>The scan for a terminator from \<open>p\<close>: the string, or the end of the buffer, or of the memory before it.\<close>

definition scan_string :: "bytes \<Rightarrow> nat \<Rightarrow> nat \<Rightarrow> bytes dres" where
  "scan_string m p limit =
     (let s = cstr (drop p m) in
      if p + length s \<ge> limit then Die
      else if p + length s \<ge> length m then Fault Oob_Read
      else Done s)"

definition flat_read_string :: "bytes \<Rightarrow> inbuf \<Rightarrow> (bytes \<times> inbuf) dres" where
  "flat_read_string m inb =
     dbind (scan_string m (ib_ptr inb) (ib_limit inb)) (\<lambda>s.
     dbind (flat_realign (inb\<lparr>ib_ptr := ib_ptr inb + length s + 1\<rparr>) 4) (\<lambda>inb. Done (s, inb)))"

definition flat_read_data :: "bytes \<Rightarrow> inbuf \<Rightarrow> int \<Rightarrow> (dt_data \<times> inbuf) dres" where
  "flat_read_data m inb len =
     (if len = 0 then Done (empty_data, inb)
      else dbind (data_grow_for empty_data len) (\<lambda>d.
        dbind (flat_read_chunk m inb (nat len)) (\<lambda>(p, inb).
        dbind (flat_realign inb 4) (\<lambda>inb. Done (d\<lparr>d_val := p\<rparr>, inb)))))"

definition flat_read_stringtable :: "bytes \<Rightarrow> inbuf \<Rightarrow> int \<Rightarrow> bytes dres" where
  "flat_read_stringtable m inb offset =
     (if offset < 0 then Die else scan_string m (ib_base inb + nat offset) (ib_limit inb))"

text \<open>The two words are handed over as ints.\<close>

definition flat_read_property :: "bytes \<Rightarrow> bool \<Rightarrow> inbuf \<Rightarrow> inbuf \<Rightarrow> (dt_property \<times> inbuf) dres" where
  "flat_read_property m varalign dtbuf strbuf =
     dbind (flat_read_word m dtbuf) (\<lambda>(proplen, dtbuf).
     dbind (flat_read_word m dtbuf) (\<lambda>(stroff, dtbuf).
     dbind (flat_read_stringtable m strbuf (sint stroff)) (\<lambda>nm.
     dbind (if varalign \<and> proplen \<ge> 8 then flat_realign dtbuf 8 else Done dtbuf) (\<lambda>dtbuf.
     dbind (flat_read_data m dtbuf (sint proplen)) (\<lambda>(val, dtbuf).
     Done (build_property nm val, dtbuf))))))"

function flat_read_mem_reserve :: "bytes \<Rightarrow> inbuf \<Rightarrow> reserve_info list \<Rightarrow> reserve_info list dres" where
  "flat_read_mem_reserve m inb rs =
     dbind (flat_read_chunk m inb 16) (\<lambda>(p, inb').
     let addr = rd_be64 (take 8 p); sz = rd_be64 (drop 8 p) in
     if sz = 0 then Done rs else flat_read_mem_reserve m inb' (add_reserve_entry rs (build_reserve_entry addr sz)))"
  by pat_completeness auto
termination
  by (relation "measure (\<lambda>(m, inb, rs). ib_limit inb - ib_ptr inb)")
     (auto simp: flat_read_chunk_def dbind_Done split: if_splits)

declare flat_read_mem_reserve.simps [simp del]

section \<open>The tree\<close>

text \<open>A name without that of the parent; one that is no longer than it is read behind its end.\<close>

definition nodename_from_path :: "bytes \<Rightarrow> bytes \<Rightarrow> bytes dres" where
  "nodename_from_path ppath cpath =
     (let plen = length ppath in
      if take plen cpath \<noteq> ppath then Die
      else
        let plen = (if \<not> streq ppath (c_bytes ''/'') then plen + 1 else plen) in
        if plen > length cpath then Fault Oob_Read else Done (drop plen cpath))"

text \<open>
  \<open>unflatten_tree\<close> and its loop over the tags; the first argument bounds the number of tags
  and names that are read on the way down.
\<close>

fun unflatten_tree :: "nat \<Rightarrow> bytes \<Rightarrow> bool \<Rightarrow> inbuf \<Rightarrow> bytes \<Rightarrow> inbuf \<Rightarrow> (dt_node \<times> inbuf) dres"
and unflatten_loop :: "nat \<Rightarrow> bytes \<Rightarrow> bool \<Rightarrow> inbuf \<Rightarrow> bytes \<Rightarrow> dt_node \<Rightarrow> inbuf \<Rightarrow> (dt_node \<times> inbuf) dres" where
  "unflatten_tree 0 m old strbuf parent dtbuf = No_Fuel"
| "unflatten_tree (Suc k) m old strbuf parent dtbuf =
     dbind (flat_read_string m dtbuf) (\<lambda>(flatname, dtbuf).
     dbind (if old then nodename_from_path parent flatname else Done flatname) (\<lambda>nm.
     unflatten_loop k m old strbuf flatname (build_node nm [] []) dtbuf))"
| "unflatten_loop 0 m old strbuf flatname node dtbuf = No_Fuel"
| "unflatten_loop (Suc k) m old strbuf flatname node dtbuf =
     dbind (flat_read_word m dtbuf) (\<lambda>(val, dtbuf).
     if val = FDT_PROP then
       dbind (flat_read_property m old dtbuf strbuf) (\<lambda>(prop, dtbuf).
       unflatten_loop k m old strbuf flatname (add_property node prop) dtbuf)
     else if val = FDT_BEGIN_NODE then
       dbind (unflatten_tree k m old strbuf flatname dtbuf) (\<lambda>(child, dtbuf).
       unflatten_loop k m old strbuf flatname (add_child node child) dtbuf)
     else if val = FDT_END_NODE then Done (node, dtbuf)
     else if val = FDT_END then Die
     else if val = FDT_NOP then unflatten_loop k m old strbuf flatname node dtbuf
     else Die)"

section \<open>The blob\<close>

definition header_field :: "bytes \<Rightarrow> nat \<Rightarrow> nat dres" where
  "header_field m off = dbind (from_res (rd_bytes m off 4)) (\<lambda>p. Done (unat (rd_be32 p)))"

text \<open>
  The size of the memory is an argument of the function that it never looks at: the offsets
  and the sizes of the header are taken as they are.
\<close>

definition dt_from_mem :: "nat \<Rightarrow> bytes \<Rightarrow> nat \<Rightarrow> dt_info dres" where
  "dt_from_mem fuel m memsize =
     dbind (header_field m 4) (\<lambda>totalsize.
     dbind (header_field m 8) (\<lambda>off_dt.
     dbind (header_field m 12) (\<lambda>off_str.
     dbind (header_field m 16) (\<lambda>off_mem_rsvmap.
     dbind (header_field m 28) (\<lambda>boot_cpuid_phys.
     dbind (header_field m 20) (\<lambda>version.
     dbind (if version \<ge> 3 then dbind (header_field m 32) (\<lambda>size_str. Done (inbuf_init off_str (off_str + size_str)))
            else Done (inbuf_init off_str totalsize)) (\<lambda>strbuf.
     let old = version < 16;
         memresvbuf = inbuf_init off_mem_rsvmap totalsize;
         dtbuf = inbuf_init off_dt totalsize
     in
     dbind (flat_read_mem_reserve m memresvbuf []) (\<lambda>reservelist.
     dbind (flat_read_word m dtbuf) (\<lambda>(ret, dtbuf).
     if ret \<noteq> FDT_BEGIN_NODE then Die
     else
       dbind (unflatten_tree fuel m old strbuf [] dtbuf) (\<lambda>(tree, dtbuf).
       dbind (flat_read_word m dtbuf) (\<lambda>(ret, dtbuf).
       if ret \<noteq> FDT_END then Die
       else Done (build_dt_info DTSF_V1 reservelist tree (word_of_nat boot_cpuid_phys)))))))))))))"

end
