(* ===== verification/Dt_Flat_Correct.thy ===== *)
theory Dt_Flat_Correct
  imports Dt_Unflat
begin

text \<open>
  What flattening writes, as a relation between a tree and its bytes, and that reading
  follows the same relation back.
\<close>

section \<open>The table of names\<close>

definition table_ok :: "bytes \<Rightarrow> bool" where
  "table_ok t \<longleftrightarrow> t = [] \<or> last t = 0"

definition named :: "bytes \<Rightarrow> nat \<Rightarrow> bytes \<Rightarrow> bool" where
  "named t i s \<longleftrightarrow> (\<exists>r. drop i t = s @ 0 # r)"

lemma named_bound: "named t i s \<Longrightarrow> i + length s < length t"
proof -
  assume "named t i s"
  then obtain r where "drop i t = s @ 0 # r" by (auto simp: named_def)
  then have "length t - i = length s + 1 + length r" using length_drop [of i t] by simp
  then show "i + length s < length t" by linarith
qed

lemma named_append: "named t i s \<Longrightarrow> named (t @ x) i s"
  using named_bound [of t i s] by (auto simp: named_def)

lemma cstr_named: "0 \<notin> set s \<Longrightarrow> named t i s \<Longrightarrow> cstr (drop i t) = s"
  by (auto simp: named_def cstr_append_nul)

lemma cstr_split: "0 \<in> set t \<Longrightarrow> \<exists>r. t = cstr t @ 0 # r"
proof -
  assume "0 \<in> set t"
  then obtain ys zs where "t = ys @ 0 # zs" "0 \<notin> set ys" using split_list_first by metis
  then show ?thesis by (auto simp: cstr_append_nul)
qed

lemma table_find_some:
  assumes "table_find s t i = Some j" and "t = [] \<or> last t = 0" and "sym_ok s"
  shows "i \<le> j \<and> named t (j - i) s"
  using assms
proof (induction s t i rule: table_find.induct)
  case (2 s b bs i)
  show ?case
  proof (cases "streq s (cstr (b # bs))")
    case True
    have "sym_ok (cstr (b # bs))" by (simp add: sym_ok_def cstr_no_nul)
    then have "cstr (b # bs) = s" using True strcmp_eq [OF 2(4)] by (simp add: streq_def)
    moreover have "0 \<in> set (b # bs)" using 2(3) last_in_set [of "b # bs"] by simp
    ultimately have "\<exists>r. b # bs = s @ 0 # r" using cstr_split by metis
    then show ?thesis using 2(2) True by (auto simp: named_def)
  next
    case False
    then have "table_find s bs (i + 1) = Some j" "bs = [] \<or> last bs = 0" using 2(2,3) by (auto split: if_splits)
    with 2(1) [OF False] 2(4) have "i + 1 \<le> j" "named bs (j - (i + 1)) s" by auto
    moreover have "j - i = Suc (j - (i + 1))" using \<open>i + 1 \<le> j\<close> by simp
    ultimately show ?thesis by (simp add: named_def)
  qed
qed simp

section \<open>What is written\<close>

definition fill4 :: "nat \<Rightarrow> bytes" where
  "fill4 n = replicate (pad_to 4 n) 0"

definition prop_bytes :: "nat \<Rightarrow> dt_property \<Rightarrow> bytes" where
  "prop_bytes i p = be32 FDT_PROP @ be32 (word_of_nat (d_len (pr_val p))) @ be32 (word_of_nat i) @ d_val (pr_val p) @ fill4 (d_len (pr_val p))"

fun props_spec :: "bytes \<Rightarrow> dt_property list \<Rightarrow> bytes \<Rightarrow> bool" where
  "props_spec t [] bs \<longleftrightarrow> bs = []"
| "props_spec t (p # ps) bs \<longleftrightarrow>
     (if pr_deleted p then props_spec t ps bs
      else \<exists>i b1. bs = prop_bytes i p @ b1 \<and> named t i (pr_name p) \<and> fits (length t) \<and> props_spec t ps b1)"

definition name_bytes :: "bytes \<Rightarrow> bytes" where
  "name_bytes s = s @ [0] @ fill4 (length s + 1)"

fun node_spec :: "bytes \<Rightarrow> dt_node \<Rightarrow> bytes \<Rightarrow> bool" and children_spec :: "bytes \<Rightarrow> dt_node list \<Rightarrow> bytes \<Rightarrow> bool" where
  "node_spec t (Node del nm ps cs fp bl ph ls) bs \<longleftrightarrow>
     (\<exists>pb cb. bs = name_bytes nm @ pb @ cb @ be32 FDT_END_NODE \<and> props_spec t ps pb \<and> children_spec t cs cb)"
| "children_spec t [] bs \<longleftrightarrow> bs = []"
| "children_spec t (c # cs) bs \<longleftrightarrow>
     (if nd_deleted c then children_spec t cs bs
      else \<exists>b1 b2. bs = be32 FDT_BEGIN_NODE @ b1 @ b2 \<and> node_spec t c b1 \<and> children_spec t cs b2)"

text \<open>An upper bound of what a tree takes in either block, and what its names have to be.\<close>

definition prop_room :: "dt_property \<Rightarrow> nat" where
  "prop_room p = (if pr_deleted p then 0 else 16 + d_len (pr_val p) + length (pr_name p))"

fun room :: "dt_node \<Rightarrow> nat" where
  "room (Node del nm ps cs fp bl ph ls) =
     16 + length nm + sum_list (map prop_room ps) + sum_list (map (\<lambda>c. if nd_deleted c then 0 else room c) cs)"

definition children_room :: "dt_node list \<Rightarrow> nat" where
  "children_room cs = sum_list (map (\<lambda>c. if nd_deleted c then 0 else room c) cs)"

fun tree_ok :: "dt_node \<Rightarrow> bool" where
  "tree_ok (Node del nm ps cs fp bl ph ls) \<longleftrightarrow>
     sym_ok nm \<and> (\<forall>p\<in>set ps. \<not> pr_deleted p \<longrightarrow> sym_ok (pr_name p)) \<and> (\<forall>c\<in>set cs. \<not> nd_deleted c \<longrightarrow> tree_ok c)"

subsection \<open>Composition\<close>

definition bufs_ok :: "dt_bufs \<Rightarrow> nat \<Rightarrow> bool" where
  "bufs_ok b n \<longleftrightarrow> table_ok (d_val (snd b)) \<and> 4 dvd d_len (fst b) \<and> fits (d_len (fst b) + n) \<and> fits (d_len (snd b) + n)"

definition writes :: "dt_bufs \<Rightarrow> dt_bufs dres \<Rightarrow> nat \<Rightarrow> (bytes \<Rightarrow> bytes \<Rightarrow> bool) \<Rightarrow> bool" where
  "writes b m n P \<longleftrightarrow> (\<exists>b' o1 x. m = Done b' \<and> d_val (fst b') = d_val (fst b) @ o1 \<and> d_val (snd b') = d_val (snd b) @ x \<and>
     table_ok (d_val (snd b')) \<and> length o1 \<le> n \<and> length x \<le> n \<and> 4 dvd length o1 \<and> P (d_val (snd b')) o1)"

definition stable :: "(bytes \<Rightarrow> bytes \<Rightarrow> bool) \<Rightarrow> bool" where
  "stable P \<longleftrightarrow> (\<forall>t x bs. P t bs \<longrightarrow> fits (length (t @ x)) \<longrightarrow> P (t @ x) bs)"

definition in_turn :: "(bytes \<Rightarrow> bytes \<Rightarrow> bool) \<Rightarrow> (bytes \<Rightarrow> bytes \<Rightarrow> bool) \<Rightarrow> bytes \<Rightarrow> bytes \<Rightarrow> bool" where
  "in_turn P Q t bs \<longleftrightarrow> (\<exists>b1 b2. bs = b1 @ b2 \<and> P t b1 \<and> Q t b2)"

lemma fits_mono: "fits n \<Longrightarrow> m \<le> n \<Longrightarrow> fits m"
  by (simp add: fits_def)

lemma bufs_ok_mono: "bufs_ok b n \<Longrightarrow> m \<le> n \<Longrightarrow> bufs_ok b m"
  using fits_mono [of "d_len (fst b) + n" "d_len (fst b) + m"] fits_mono [of "d_len (snd b) + n" "d_len (snd b) + m"]
  by (simp add: bufs_ok_def)

lemma writes_bind:
  assumes "bufs_ok b (n1 + n2)" and "writes b m n1 P" and "stable P" and "\<And>b'. bufs_ok b' n2 \<Longrightarrow> writes b' (f b') n2 Q"
  shows "writes b (dbind m f) (n1 + n2) (in_turn P Q)"
proof -
  obtain b1 o1 x where m: "m = Done b1" "d_val (fst b1) = d_val (fst b) @ o1" "d_val (snd b1) = d_val (snd b) @ x"
    "table_ok (d_val (snd b1))" "length o1 \<le> n1" "length x \<le> n1" "4 dvd length o1" "P (d_val (snd b1)) o1"
    using assms(2) by (auto simp: writes_def)
  have "bufs_ok b1 n2" using assms(1) m by (auto simp: bufs_ok_def elim: fits_mono)
  from assms(4) [OF this] obtain b2 o2 y where f: "f b1 = Done b2" "d_val (fst b2) = d_val (fst b1) @ o2" "d_val (snd b2) = d_val (snd b1) @ y"
    "table_ok (d_val (snd b2))" "length o2 \<le> n2" "length y \<le> n2" "4 dvd length o2" "Q (d_val (snd b2)) o2" by (auto simp: writes_def)
  have "fits (length (d_val (snd b1) @ y))" using assms(1) m(3,6) f(6) by (auto simp: bufs_ok_def elim: fits_mono)
  then have "P (d_val (snd b2)) o1" using assms(3) m(8) f(3) by (simp add: stable_def)
  then have "in_turn P Q (d_val (snd b2)) (o1 @ o2)" using f(8) by (auto simp: in_turn_def)
  then show ?thesis unfolding writes_def
    by (intro exI [of _ b2] exI [of _ "o1 @ o2"] exI [of _ "x @ y"]) (use m f in auto)
qed

lemma writes_weaken: "writes b m n P \<Longrightarrow> n \<le> n' \<Longrightarrow> (\<And>t bs. fits (length t) \<Longrightarrow> P t bs \<Longrightarrow> Q t bs) \<Longrightarrow> fits (d_len (snd b) + n) \<Longrightarrow> writes b m n' Q"
proof -
  assume w: "writes b m n P" "n \<le> n'" and pq: "\<And>t bs. fits (length t) \<Longrightarrow> P t bs \<Longrightarrow> Q t bs" and ft: "fits (d_len (snd b) + n)"
  obtain b' o1 x where b': "m = Done b'" "d_val (fst b') = d_val (fst b) @ o1" "d_val (snd b') = d_val (snd b) @ x"
    "table_ok (d_val (snd b'))" "length o1 \<le> n" "length x \<le> n" "4 dvd length o1" "P (d_val (snd b')) o1" using w(1) by (auto simp: writes_def)
  have "fits (length (d_val (snd b')))" using ft b'(3,6) by (auto elim: fits_mono)
  with pq b'(8) have "Q (d_val (snd b')) o1" by blast
  then show "writes b m n' Q" unfolding writes_def
    by (intro exI [of _ b'] exI [of _ o1] exI [of _ x]) (use b' w(2) in auto)
qed

lemma writes_nothing: "bufs_ok b n \<Longrightarrow> P (d_val (snd b)) [] \<Longrightarrow> writes b (Done b) n P"
  unfolding writes_def by (intro exI [of _ b] exI [of _ "[]"]) (simp add: bufs_ok_def)

lemma dbind_assoc: "dbind (dbind m f) g = dbind m (\<lambda>x. dbind (f x) g)"
  by (cases m) simp_all

lemma on_struct_seq: "dbind (on_struct b f) (\<lambda>b. on_struct b g) = on_struct b (\<lambda>d. dbind (f d) g)"
  by (simp add: on_struct_def dbind_assoc)

lemma writes_struct:
  assumes "bufs_ok b n" and "gives (f (fst b)) (d_val (fst b) @ out) ms" and "4 dvd length out" and "length out \<le> n"
  shows "writes b (on_struct b f) n (\<lambda>t bs. bs = out)"
proof -
  obtain d where "f (fst b) = Done d" "d_val d = d_val (fst b) @ out" using assms(2) by (auto simp: gives_def)
  then show ?thesis unfolding writes_def
    by (intro exI [of _ "(d, snd b)"] exI [of _ out] exI [of _ "[]"]) (use assms in \<open>auto simp: on_struct_def bufs_ok_def\<close>)
qed

lemma writes_cell: "bufs_ok b 4 \<Longrightarrow> writes b (on_struct b (\<lambda>d. bin_emit_cell d w)) 4 (\<lambda>t bs. bs = be32 w)"
  using data_append_cell_gives [of "fst b" w]
  by (intro writes_struct [where ms = "d_markers (fst b)"]) (simp_all add: bufs_ok_def bin_emit_cell_def be32.length_enc)

text \<open>Bytes followed by the alignment to a cell.\<close>

lemma pad_to_le: "pad_to 4 n \<le> 3" "4 dvd n + pad_to 4 n" "4 dvd k \<Longrightarrow> pad_to 4 (k + n) = pad_to 4 n"
proof -
  have "(- int n) mod 4 \<le> 3" "4 dvd int n + (- int n) mod 4" by presburger+
  then show "pad_to 4 n \<le> 3" "4 dvd n + pad_to 4 n"
    by (simp_all add: pad_to_def flip: int_dvd_int_iff)
  show "4 dvd k \<Longrightarrow> pad_to 4 (k + n) = pad_to 4 n"
  proof -
    assume "4 dvd k"
    then obtain j where "k = 4 * j" by (auto elim: dvdE)
    then have "(- int (k + n)) mod 4 = (- int n) mod 4" by simp presburger
    then show "pad_to 4 (k + n) = pad_to 4 n" by (simp add: pad_to_def)
  qed
qed

lemma writes_aligned:
  assumes "bufs_ok b (length out + 3)" and "gives (f (fst b)) (d_val (fst b) @ out) ms"
  shows "writes b (on_struct b (\<lambda>d. dbind (f d) (\<lambda>d. bin_emit_align d 4))) (length out + 3) (\<lambda>t bs. bs = out @ fill4 (length out))"
proof -
  have p: "pad_to 4 (d_len (fst b) + length out) = pad_to 4 (length out)" using assms(1) by (intro pad_to_le(3)) (simp add: bufs_ok_def)
  have ft: "fits (d_len (fst b) + length out + pad_to 4 (length out))"
    using assms(1) pad_to_le(1) [of "length out"] by (auto simp: bufs_ok_def elim!: fits_mono)
  have g: "gives (dbind (f (fst b)) (\<lambda>d. bin_emit_align d 4)) (d_val (fst b) @ out @ fill4 (length out)) ms"
  proof (rule gives_bind [OF assms(2)])
    fix d :: dt_data assume d: "d_val d = d_val (fst b) @ out" "d_markers d = ms"
    have "gives (data_append_align d (int 4)) (d_val d @ replicate (pad_to 4 (d_len d)) 0) (d_markers d)"
      by (rule data_append_align_gives) (use d p ft in simp_all)
    then show "gives (bin_emit_align d 4) (d_val (fst b) @ out @ fill4 (length out)) ms"
      using d p by (simp add: bin_emit_align_def fill4_def)
  qed
  show ?thesis
    by (rule writes_struct [where f = "\<lambda>d. dbind (f d) (\<lambda>d. bin_emit_align d 4)", OF assms(1) g])
       (use pad_to_le [of "length out"] in \<open>simp_all add: fill4_def\<close>)
qed

subsection \<open>Properties and nodes\<close>

lemma stringtable_insert_ok:
  assumes "table_ok (d_val d)" and "sym_ok str" and "fits (d_len d + length str + 1)"
  shows "\<exists>e i x. stringtable_insert d str = Done (e, i) \<and> d_val e = d_val d @ x \<and> length x \<le> length str + 1 \<and> table_ok (d_val e) \<and>
    named (d_val e) i str"
proof (cases "table_find str (d_val d) 0")
  case (Some i)
  then have "named (d_val d) i str" using table_find_some [OF Some _ assms(2)] assms(1) by (simp add: table_ok_def)
  then show ?thesis using Some assms(1) by (intro exI [of _ d] exI [of _ i] exI [of _ "[]"]) (simp add: stringtable_insert_def)
next
  case None
  have "gives (data_append_data d (str @ [0])) (d_val d @ str @ [0]) (d_markers d)"
    by (rule data_append_data_gives) (use assms(3) in simp)
  then obtain e where "data_append_data d (str @ [0]) = Done e" "d_val e = d_val d @ str @ [0]" by (auto simp: gives_def)
  then show ?thesis using None
    by (intro exI [of _ e] exI [of _ "d_len d"] exI [of _ "str @ [0]"]) (simp add: stringtable_insert_def table_ok_def named_def)
qed

lemma in_turn_eq: "in_turn (\<lambda>t bs. bs = o1) Q t bs \<longleftrightarrow> (\<exists>b2. bs = o1 @ b2 \<and> Q t b2)"
  by (simp add: in_turn_def)

lemma stable_eq [simp]: "stable (\<lambda>t bs. bs = o1)"
  by (simp add: stable_def)

text \<open>Writing after the name was found: the four parts of a property.\<close>

lemma flatten_property_body:
  assumes "bufs_ok b (15 + d_len v)"
  shows "writes b
    (dbind (on_struct b (\<lambda>d. bin_emit_cell d FDT_PROP)) (\<lambda>b. dbind (on_struct b (\<lambda>d. bin_emit_cell d w)) (\<lambda>b.
       dbind (on_struct b (\<lambda>d. bin_emit_cell d i)) (\<lambda>b. dbind (on_struct b (\<lambda>d. bin_emit_data d v)) (\<lambda>b.
         on_struct b (\<lambda>d. bin_emit_align d 4))))))
    (15 + d_len v) (\<lambda>t bs. bs = be32 FDT_PROP @ be32 w @ be32 i @ d_val v @ fill4 (d_len v))"
proof -
  have tail: "writes b' (dbind (on_struct b' (\<lambda>d. bin_emit_data d v)) (\<lambda>b. on_struct b (\<lambda>d. bin_emit_align d 4)))
      (d_len v + 3) (\<lambda>t bs. bs = d_val v @ fill4 (d_len v))" if "bufs_ok b' (d_len v + 3)" for b'
  proof -
    have "gives (bin_emit_data (fst b') v) (d_val (fst b') @ d_val v) (d_markers (fst b'))"
      unfolding bin_emit_data_def by (rule data_append_data_gives) (use that in \<open>auto simp: bufs_ok_def elim: fits_mono\<close>)
    from writes_aligned [where f = "\<lambda>d. bin_emit_data d v", OF that this] show ?thesis unfolding on_struct_seq .
  qed
  have "bufs_ok b (4 + (4 + (4 + (d_len v + 3))))" using assms by (simp add: add.commute)
  then have "writes b
    (dbind (on_struct b (\<lambda>d. bin_emit_cell d FDT_PROP)) (\<lambda>b. dbind (on_struct b (\<lambda>d. bin_emit_cell d w)) (\<lambda>b.
       dbind (on_struct b (\<lambda>d. bin_emit_cell d i)) (\<lambda>b. dbind (on_struct b (\<lambda>d. bin_emit_data d v)) (\<lambda>b.
         on_struct b (\<lambda>d. bin_emit_align d 4))))))
    (4 + (4 + (4 + (d_len v + 3))))
    (in_turn (\<lambda>t bs. bs = be32 FDT_PROP) (in_turn (\<lambda>t bs. bs = be32 w) (in_turn (\<lambda>t bs. bs = be32 i) (\<lambda>t bs. bs = d_val v @ fill4 (d_len v)))))"
    by (intro writes_bind writes_cell stable_eq tail) (auto simp: bufs_ok_def elim: fits_mono)
  then show ?thesis
    by (rule writes_weaken) (use assms in \<open>auto simp: in_turn_eq in_turn_def bufs_ok_def elim: fits_mono\<close>)
qed

definition prop_spec :: "dt_property \<Rightarrow> bytes \<Rightarrow> bytes \<Rightarrow> bool" where
  "prop_spec p t bs \<longleftrightarrow> (\<exists>i. bs = prop_bytes i p \<and> named t i (pr_name p) \<and> fits (length t))"

lemma stable_spec: "stable (prop_spec p)" "stable (\<lambda>t bs. props_spec t ps bs)"
proof -
  show "stable (prop_spec p)" by (auto simp: stable_def prop_spec_def named_append)
  have "props_spec t ps bs \<Longrightarrow> fits (length (t @ x)) \<Longrightarrow> props_spec (t @ x) ps bs" for t x bs
  proof (induction t ps bs rule: props_spec.induct)
    case (2 t p ps bs)
    show ?case
    proof (cases "pr_deleted p")
      case True
      then show ?thesis using 2 by simp
    next
      case False
      then obtain i b1 where "bs = prop_bytes i p @ b1" "named t i (pr_name p)" "props_spec t ps b1" using 2(3) by auto
      then show ?thesis using 2(2) [OF False] 2(4) False named_append by fastforce
    qed
  qed simp
  then show "stable (\<lambda>t bs. props_spec t ps bs)" by (auto simp: stable_def)
qed

lemma flatten_property_writes:
  assumes "\<not> FTF_VARALIGN fl" and "sym_ok (pr_name p)" and "bufs_ok b (16 + d_len (pr_val p) + length (pr_name p))"
  shows "writes b (flatten_property fl p b) (16 + d_len (pr_val p) + length (pr_name p)) (prop_spec p)"
proof -
  let ?v = "pr_val p" and ?n = "16 + d_len (pr_val p) + length (pr_name p)"
  obtain st i x where s: "stringtable_insert (snd b) (pr_name p) = Done (st, i)" "d_val st = d_val (snd b) @ x" "length x \<le> length (pr_name p) + 1"
    "table_ok (d_val st)" "named (d_val st) i (pr_name p)"
  proof -
    have "table_ok (d_val (snd b))" "fits (d_len (snd b) + length (pr_name p) + 1)"
      using assms(3) by (auto simp: bufs_ok_def elim: fits_mono)
    from stringtable_insert_ok [OF this(1) assms(2) this(2)] that show thesis by blast
  qed
  have "fits (d_len (fst b) + ?n)" "fits (d_len (snd b) + ?n)" using assms(3) by (simp_all add: bufs_ok_def)
  moreover have "d_len st + (15 + d_len ?v) \<le> d_len (snd b) + ?n" using s(2,3) by simp
  ultimately have "fits (d_len (fst b) + (15 + d_len ?v))" "fits (d_len st + (15 + d_len ?v))"
    using fits_mono [of "d_len (fst b) + ?n"] fits_mono [of "d_len (snd b) + ?n"] by simp_all
  then have b1: "bufs_ok (fst b, st) (15 + d_len ?v)" using assms(3) s(4) by (simp add: bufs_ok_def)
  from flatten_property_body [OF b1, of "word_of_nat (d_len ?v)" "word_of_nat i"]
  obtain b' y where b': "flatten_property fl p b = Done b'" "d_val (fst b') = d_val (fst b) @ prop_bytes i p"
    "d_val (snd b') = d_val st @ y" "table_ok (d_val (snd b'))" "length (prop_bytes i p) \<le> 15 + d_len ?v" "length y \<le> 15 + d_len ?v" "4 dvd length (prop_bytes i p)"
    using assms(1) s(1) by (auto simp: writes_def flatten_property_def prop_bytes_def)
  have "d_val (snd b') = d_val (snd b) @ x @ y" using b'(3) s(2) by simp
  moreover have "length (x @ y) \<le> ?n" using s(3) b'(6) by simp
  moreover have "fits (d_len (snd b'))"
  proof (rule fits_mono)
    show "fits (d_len (snd b) + ?n)" using assms(3) by (simp add: bufs_ok_def)
    show "d_len (snd b') \<le> d_len (snd b) + ?n" using s(3) b'(6) \<open>d_val (snd b') = d_val (snd b) @ x @ y\<close> by simp
  qed
  moreover have "named (d_val (snd b')) i (pr_name p)" unfolding b'(3) by (rule named_append [OF s(5)])
  ultimately show ?thesis unfolding writes_def prop_spec_def
    by (intro exI [of _ b'] exI [of _ "prop_bytes i p"] exI [of _ "x @ y"]) (use b' in auto)
qed

lemma flatten_properties_writes:
  assumes "\<not> FTF_VARALIGN fl" and "\<forall>p\<in>set ps. \<not> pr_deleted p \<longrightarrow> sym_ok (pr_name p)" and "bufs_ok b (sum_list (map prop_room ps))"
  shows "writes b (flatten_properties fl ps b) (sum_list (map prop_room ps)) (\<lambda>t bs. props_spec t ps bs)"
  using assms(2,3)
proof (induction ps arbitrary: b)
  case Nil
  then show ?case by (simp add: writes_nothing)
next
  case (Cons p ps)
  show ?case
  proof (cases "pr_deleted p")
    case True
    then show ?thesis using Cons by (simp add: prop_room_def)
  next
    case False
    let ?n = "16 + d_len (pr_val p) + length (pr_name p)" and ?m = "sum_list (map prop_room ps)"
    have r: "prop_room p = ?n" using False by (simp add: prop_room_def)
    then have b: "bufs_ok b (?n + ?m)" using Cons.prems(2) by simp
    then have b1: "bufs_ok b ?n" by (rule bufs_ok_mono) simp
    have "writes b (dbind (flatten_property fl p b) (flatten_properties fl ps)) (?n + ?m) (in_turn (prop_spec p) (\<lambda>t bs. props_spec t ps bs))"
      by (rule writes_bind [OF b flatten_property_writes [OF assms(1) _ b1] stable_spec(1)]) (use Cons False in auto)
    then have "writes b (dbind (flatten_property fl p b) (flatten_properties fl ps)) (?n + ?m) (\<lambda>t bs. props_spec t (p # ps) bs)"
    proof (rule writes_weaken)
      show "fits (d_len (snd b) + (?n + ?m))" using b by (simp add: bufs_ok_def)
    qed (use False in \<open>auto simp: in_turn_def prop_spec_def\<close>)
    then show ?thesis using False r by simp
  qed
qed

lemma writes_string:
  assumes "bufs_ok b (length nm + 4)" and "sym_ok nm"
  shows "writes b (dbind (on_struct b (\<lambda>d. bin_emit_string d nm 0)) (\<lambda>b. on_struct b (\<lambda>d. bin_emit_align d 4))) (length nm + 4)
    (\<lambda>t bs. bs = name_bytes nm)"
proof -
  have g: "gives (bin_emit_string (fst b) nm 0) (d_val (fst b) @ nm @ [0]) (d_markers (fst b))"
  proof -
    have "gives (dbind (data_append_data (fst b) nm) (\<lambda>d. data_append_byte d 0)) (d_val (fst b) @ nm @ [0]) (d_markers (fst b))"
    proof (rule gives_bind [OF data_append_data_gives])
      show "fits (d_len (fst b) + length nm)" using assms(1) by (auto simp: bufs_ok_def elim: fits_mono)
      fix d :: dt_data assume d: "d_val d = d_val (fst b) @ nm" "d_markers d = d_markers (fst b)"
      have "fits (d_len d + 1)" using assms(1) d(1) by (auto simp: bufs_ok_def elim: fits_mono)
      from data_append_byte_gives [OF this, of 0] show "gives (data_append_byte d 0) (d_val (fst b) @ nm @ [0]) (d_markers (fst b))"
        using d by simp
    qed
    then show ?thesis by (simp add: bin_emit_string_def Let_def)
  qed
  have "bufs_ok b (length (nm @ [0]) + 3)" using assms(1) by (simp add: bufs_ok_def add.commute)
  from writes_aligned [where f = "\<lambda>d. bin_emit_string d nm 0", OF this g]
  show ?thesis unfolding on_struct_seq by (simp add: name_bytes_def add.commute)
qed

definition tree_spec :: "dt_node \<Rightarrow> bytes \<Rightarrow> bytes \<Rightarrow> bool" where
  "tree_spec n t bs \<longleftrightarrow> (\<exists>b1. bs = be32 FDT_BEGIN_NODE @ b1 \<and> node_spec t n b1)"

lemma spec_grows:
  "node_spec t n bs \<Longrightarrow> fits (length (t @ x)) \<Longrightarrow> node_spec (t @ x) n bs"
  "children_spec t cs bs \<Longrightarrow> fits (length (t @ x)) \<Longrightarrow> children_spec (t @ x) cs bs"
proof (induction t n bs and t cs bs rule: node_spec_children_spec.induct)
  case (1 t del nm ps cs fp bl ph ls bs)
  then obtain pb cb where "bs = name_bytes nm @ pb @ cb @ be32 FDT_END_NODE" "props_spec t ps pb" "children_spec t cs cb" by auto
  moreover have "props_spec (t @ x) ps pb" using stable_spec(2) [of ps] 1(3) calculation(2) by (simp add: stable_def)
  ultimately show ?case using 1 by auto
next
  case (3 t c cs bs)
  show ?case
  proof (cases "nd_deleted c")
    case True
    then show ?thesis using 3 by simp
  next
    case False
    then obtain b1 b2 where "bs = be32 FDT_BEGIN_NODE @ b1 @ b2" "node_spec t c b1" "children_spec t cs b2" using 3(4) by auto
    then show ?thesis using 3(2,3) [OF False] 3(5) False by auto
  qed
qed simp

lemma stable_tree: "stable (tree_spec n)" "stable (\<lambda>t bs. children_spec t cs bs)"
  using spec_grows by (fastforce simp: stable_def tree_spec_def)+

lemma flatten_children_writes:
  assumes "\<And>c b. c \<in> set cs \<Longrightarrow> \<not> nd_deleted c \<Longrightarrow> bufs_ok b (room c) \<Longrightarrow> writes b (flatten_tree fl c b) (room c) (tree_spec c)"
    and "bufs_ok b (children_room cs)"
  shows "writes b (flatten_children fl cs b) (children_room cs) (\<lambda>t bs. children_spec t cs bs)"
  using assms
proof (induction cs arbitrary: b)
  case Nil
  then show ?case by (simp add: writes_nothing children_room_def)
next
  case (Cons c cs)
  show ?case
  proof (cases "nd_deleted c")
    case True
    then show ?thesis using Cons by (simp add: children_room_def)
  next
    case False
    let ?n = "room c" and ?m = "children_room cs"
    have r: "children_room (c # cs) = ?n + ?m" using False by (simp add: children_room_def)
    then have b: "bufs_ok b (?n + ?m)" using Cons.prems(2) by simp
    then have b1: "bufs_ok b ?n" by (rule bufs_ok_mono) simp
    have "writes b (dbind (flatten_tree fl c b) (flatten_children fl cs)) (?n + ?m) (in_turn (tree_spec c) (\<lambda>t bs. children_spec t cs bs))"
      by (rule writes_bind [OF b Cons.prems(1) [OF _ False b1] stable_tree(1)]) (use Cons False in auto)
    then have "writes b (dbind (flatten_tree fl c b) (flatten_children fl cs)) (?n + ?m) (\<lambda>t bs. children_spec t (c # cs) bs)"
    proof (rule writes_weaken)
      show "fits (d_len (snd b) + (?n + ?m))" using b by (simp add: bufs_ok_def)
    qed (use False in \<open>fastforce simp: in_turn_def tree_spec_def\<close>)+
    then show ?thesis using False r by simp
  qed
qed

lemma flatten_tree_parts:
  assumes "\<not> FTF_FULLPATH fl" and "\<not> FTF_NAMEPROPS fl"
  shows "flatten_tree fl (Node False nm ps cs fp bl ph ls) b =
    dbind (on_struct b (\<lambda>d. bin_emit_cell d FDT_BEGIN_NODE)) (\<lambda>b.
    dbind (dbind (on_struct b (\<lambda>d. bin_emit_string d nm 0)) (\<lambda>b. on_struct b (\<lambda>d. bin_emit_align d 4))) (\<lambda>b.
    dbind (flatten_properties fl ps b) (\<lambda>b.
    dbind (flatten_children fl cs b) (\<lambda>b. on_struct b (\<lambda>d. bin_emit_cell d FDT_END_NODE)))))"
  using assms by (simp add: dbind_assoc)

text \<open>A tree is written as the relation says, and takes no more than its room in either block.\<close>

lemma flatten_tree_writes:
  assumes "\<not> FTF_FULLPATH fl" and "\<not> FTF_NAMEPROPS fl" and "\<not> FTF_VARALIGN fl"
  shows "tree_ok n \<Longrightarrow> \<not> nd_deleted n \<Longrightarrow> bufs_ok b (room n) \<Longrightarrow> writes b (flatten_tree fl n b) (room n) (tree_spec n)"
proof (induction n arbitrary: b)
  case (Node del nm ps cs fp bl ph ls)
  let ?p = "sum_list (map prop_room ps)" and ?c = "children_room cs"
  have r: "room (Node del nm ps cs fp bl ph ls) = 16 + length nm + ?p + ?c" by (simp add: children_room_def)
  have b: "bufs_ok b (4 + ((length nm + 4) + (?p + (?c + 4))))" using Node(4) unfolding r by (rule bufs_ok_mono) simp
  have "writes b (flatten_tree fl (Node del nm ps cs fp bl ph ls) b) (4 + ((length nm + 4) + (?p + (?c + 4))))
    (in_turn (\<lambda>t bs. bs = be32 FDT_BEGIN_NODE) (in_turn (\<lambda>t bs. bs = name_bytes nm) (in_turn (\<lambda>t bs. props_spec t ps bs)
      (in_turn (\<lambda>t bs. children_spec t cs bs) (\<lambda>t bs. bs = be32 FDT_END_NODE)))))"
  proof -
    have tail: "writes b' (dbind (flatten_children fl cs b') (\<lambda>b. on_struct b (\<lambda>d. bin_emit_cell d FDT_END_NODE))) (?c + 4)
        (in_turn (\<lambda>t bs. children_spec t cs bs) (\<lambda>t bs. bs = be32 FDT_END_NODE))" if ok: "bufs_ok b' (?c + 4)" for b'
    proof (rule writes_bind [OF ok _ stable_tree(2) writes_cell])
      show "writes b' (flatten_children fl cs b') ?c (\<lambda>t bs. children_spec t cs bs)"
        by (rule flatten_children_writes) (use Node(1,2) bufs_ok_mono [OF ok, of ?c] in auto)
    qed
    have body: "writes b' (dbind (flatten_properties fl ps b') (\<lambda>b.
          dbind (flatten_children fl cs b) (\<lambda>b. on_struct b (\<lambda>d. bin_emit_cell d FDT_END_NODE)))) (?p + (?c + 4))
        (in_turn (\<lambda>t bs. props_spec t ps bs) (in_turn (\<lambda>t bs. children_spec t cs bs) (\<lambda>t bs. bs = be32 FDT_END_NODE)))"
      if ok: "bufs_ok b' (?p + (?c + 4))" for b'
      by (rule writes_bind [OF ok flatten_properties_writes stable_spec(2) tail])
        (use assms(3) Node(2) bufs_ok_mono [OF ok, of ?p] in auto)
    have rest: "writes b' (dbind (dbind (on_struct b' (\<lambda>d. bin_emit_string d nm 0)) (\<lambda>b. on_struct b (\<lambda>d. bin_emit_align d 4))) (\<lambda>b.
          dbind (flatten_properties fl ps b) (\<lambda>b.
          dbind (flatten_children fl cs b) (\<lambda>b. on_struct b (\<lambda>d. bin_emit_cell d FDT_END_NODE))))) ((length nm + 4) + (?p + (?c + 4)))
        (in_turn (\<lambda>t bs. bs = name_bytes nm) (in_turn (\<lambda>t bs. props_spec t ps bs)
          (in_turn (\<lambda>t bs. children_spec t cs bs) (\<lambda>t bs. bs = be32 FDT_END_NODE))))"
      if ok: "bufs_ok b' ((length nm + 4) + (?p + (?c + 4)))" for b'
      by (rule writes_bind [OF ok writes_string stable_eq body]) (use Node(2) bufs_ok_mono [OF ok] in auto)
    have "flatten_tree fl (Node del nm ps cs fp bl ph ls) b = flatten_tree fl (Node False nm ps cs fp bl ph ls) b" using Node(3) by simp
    then show ?thesis unfolding flatten_tree_parts [OF assms(1,2)]
      using writes_bind [OF b writes_cell stable_eq rest] bufs_ok_mono [OF b, of 4] by simp
  qed
  then show ?case unfolding r
    by (rule writes_weaken) (use b in \<open>auto simp: in_turn_def tree_spec_def bufs_ok_def\<close>)
qed

end
