(* ===== verification/Dt_Unflat_Correct.thy ===== *)
theory Dt_Unflat_Correct
  imports Dt_Flat_Correct
begin

text \<open>
  Reading follows the relation that flattening establishes: bytes that are related to a tree
  are read back as that tree without what was deleted in it, and the fuel it takes is
  bounded by their number. And reading any bytes at all needs no more fuel than there are bytes.
\<close>

section \<open>What a reader sees\<close>

abbreviation advance :: "inbuf \<Rightarrow> nat \<Rightarrow> inbuf" where
  "advance inb n \<equiv> inb\<lparr>ib_ptr := ib_ptr inb + n\<rparr>"

definition sees :: "bytes \<Rightarrow> inbuf \<Rightarrow> bytes \<Rightarrow> bool" where
  "sees m inb bs \<longleftrightarrow> ib_base inb \<le> ib_ptr inb \<and> (ib_ptr inb - ib_base inb) mod 4 = 0 \<and>
     ib_ptr inb + length bs \<le> ib_limit inb \<and> (\<exists>r. drop (ib_ptr inb) m = bs @ r)"

lemma sees_bound: "sees m inb bs \<Longrightarrow> bs \<noteq> [] \<Longrightarrow> ib_ptr inb + length bs \<le> length m"
proof -
  assume "sees m inb bs" "bs \<noteq> []"
  then obtain r where "drop (ib_ptr inb) m = bs @ r" by (auto simp: sees_def)
  then have "length m - ib_ptr inb = length bs + length r" using length_drop [of "ib_ptr inb" m] by simp
  moreover have "0 < length bs" using \<open>bs \<noteq> []\<close> by simp
  ultimately show ?thesis by linarith
qed

lemma sees_after: "sees m inb (a @ b) \<Longrightarrow> 4 dvd length a \<Longrightarrow> sees m (advance inb (length a)) b"
proof -
  assume s: "sees m inb (a @ b)" and d: "4 dvd length a"
  then obtain r where "drop (ib_ptr inb) m = a @ b @ r" by (auto simp: sees_def)
  then have "drop (length a) (drop (ib_ptr inb) m) = b @ r" by simp
  then have "drop (ib_ptr inb + length a) m = b @ r" by (simp add: add.commute)
  moreover obtain k where k: "length a = 4 * k" using d by (auto elim: dvdE)
  moreover have "(ib_ptr inb + length a - ib_base inb) mod 4 = 0"
  proof -
    have e: "ib_ptr inb + length a - ib_base inb = (ib_ptr inb - ib_base inb) + 4 * k" using s k by (simp add: sees_def)
    have z: "(ib_ptr inb - ib_base inb) mod 4 = 0" using s by (simp add: sees_def)
    show ?thesis by (simp only: e mod_mult_self2 z)
  qed
  ultimately show ?thesis using s by (simp add: sees_def)
qed

lemma sees_prefix: "sees m inb (a @ b) \<Longrightarrow> sees m inb a"
  by (auto simp: sees_def)

lemma read_chunk:
  assumes "sees m inb (a @ b)" and "a \<noteq> []"
  shows "flat_read_chunk m inb (length a) = Done (a, advance inb (length a))"
proof -
  obtain r where "drop (ib_ptr inb) m = a @ b @ r" using assms(1) by (auto simp: sees_def)
  moreover have "ib_ptr inb + length a \<le> length m" using sees_bound [OF sees_prefix [OF assms(1)] assms(2)] .
  ultimately show ?thesis using assms(1) by (simp add: flat_read_chunk_def sees_def)
qed

lemma read_word: "sees m inb (be32 w @ b) \<Longrightarrow> flat_read_word m inb = Done (w, advance inb 4)"
proof -
  assume s: "sees m inb (be32 w @ b)"
  have "be32 w \<noteq> []" using be32.length_enc [of w] by (metis list.size(3) zero_neq_numeral)
  from read_chunk [OF s this] have "flat_read_chunk m inb 4 = Done (be32 w, advance inb 4)" by simp
  then show ?thesis using s by (simp add: flat_read_word_def sees_def be32.dec_enc)
qed

lemma realign4:
  assumes "ib_base inb \<le> p" and "(p - ib_base inb) mod 4 = 0" and "p + n + pad_to 4 n \<le> ib_limit inb"
  shows "flat_realign (inb\<lparr>ib_ptr := p + n\<rparr>) 4 = Done (inb\<lparr>ib_ptr := p + n + pad_to 4 n\<rparr>)"
proof -
  have "p + n - ib_base inb = (p - ib_base inb) + n" using assms(1) by simp
  moreover have "pad_to 4 ((p - ib_base inb) + n) = pad_to 4 n" using assms(2) by (intro pad_to_le(3)) (simp add: dvd_eq_mod_eq_0)
  ultimately have "nat (ALIGN (int (p + n - ib_base inb)) 4) = (p - ib_base inb) + n + pad_to 4 n"
    using ALIGN_pad [of 4 "p + n - ib_base inb"] by simp
  then show ?thesis using assms by (simp add: flat_realign_def Let_def)
qed

lemma scan_sees:
  assumes "drop p m = s @ 0 # r" and "0 \<notin> set s" and "p + length s < limit"
  shows "scan_string m p limit = Done s"
proof -
  have "length m - p = length s + 1 + length r" using assms(1) length_drop [of p m] by simp
  then show ?thesis using assms by (simp add: scan_string_def cstr_append_nul)
qed

lemma dvd_name_bytes: "4 dvd length (name_bytes s)"
  using pad_to_le(2) [of "length s + 1"] by (simp add: name_bytes_def fill4_def)

lemma read_string:
  assumes "sees m inb (name_bytes s @ b)" and "0 \<notin> set s"
  shows "flat_read_string m inb = Done (s, advance inb (length (name_bytes s)))"
proof -
  obtain r where r: "drop (ib_ptr inb) m = s @ 0 # r" using assms(1) by (auto simp: sees_def name_bytes_def)
  have l: "length (name_bytes s) = length s + 1 + pad_to 4 (length s + 1)" by (simp add: name_bytes_def fill4_def)
  have sc: "scan_string m (ib_ptr inb) (ib_limit inb) = Done s"
    by (rule scan_sees [OF r assms(2)]) (use assms(1) l in \<open>simp add: sees_def\<close>)
  have "flat_realign (inb\<lparr>ib_ptr := ib_ptr inb + (length s + 1)\<rparr>) 4 = Done (inb\<lparr>ib_ptr := ib_ptr inb + (length s + 1) + pad_to 4 (length s + 1)\<rparr>)"
    by (rule realign4) (use assms(1) l in \<open>simp_all add: sees_def\<close>)
  then show ?thesis unfolding flat_read_string_def sc by (simp add: l add.assoc)
qed

lemma grow_size_same: "grow_size n n = Done n"
  by (subst grow_size.simps) simp

lemma read_data:
  assumes "sees m inb (v @ fill4 (length v) @ b)" and "fits (length v)"
  shows "flat_read_data m inb (int (length v)) =
    Done (\<lparr>d_val = v, d_cap = length v, d_markers = []\<rparr>, advance inb (length (v @ fill4 (length v))))"
proof (cases "v = []")
  case True
  then show ?thesis by (simp add: flat_read_data_def empty_data_def fill4_def pad_to_def)
next
  case False
  have ch: "flat_read_chunk m inb (length v) = Done (v, advance inb (length v))" by (rule read_chunk [OF assms(1) False])
  have "flat_realign (inb\<lparr>ib_ptr := ib_ptr inb + length v\<rparr>) 4 = Done (inb\<lparr>ib_ptr := ib_ptr inb + length v + pad_to 4 (length v)\<rparr>)"
    by (rule realign4) (use assms(1) in \<open>simp_all add: sees_def fill4_def\<close>)
  moreover have "data_grow_for empty_data (int (length v)) = Done (empty_data\<lparr>d_cap := length v\<rparr>)"
    using False assms(2) by (simp add: data_grow_for_def empty_data_def grow_size_same fits_def)
  ultimately show ?thesis using False ch by (simp add: flat_read_data_def empty_data_def fill4_def add.assoc)
qed

section \<open>The names\<close>

text \<open>The buffer over the names: the table lies at its base and does not go beyond its limit.\<close>

definition holds_table :: "bytes \<Rightarrow> inbuf \<Rightarrow> bytes \<Rightarrow> bool" where
  "holds_table m sb t \<longleftrightarrow> fits (length t) \<and> ib_base sb + length t \<le> ib_limit sb \<and> (\<exists>r. drop (ib_base sb) m = t @ r)"

lemma read_table_name:
  assumes "holds_table m sb t" and "named t i s" and "0 \<notin> set s"
  shows "flat_read_stringtable m sb (int i) = Done s"
proof -
  obtain r where r: "drop (ib_base sb) m = t @ r" using assms(1) by (auto simp: holds_table_def)
  have b: "i + length s < length t" by (rule named_bound [OF assms(2)])
  obtain q where "drop i t = s @ 0 # q" using assms(2) by (auto simp: named_def)
  then have "drop i (drop (ib_base sb) m) = s @ 0 # q @ r" using b by (simp add: r)
  then have "drop (ib_base sb + i) m = s @ 0 # q @ r" by (simp add: add.commute)
  then show ?thesis using scan_sees [OF _ assms(3)] b assms(1) by (simp add: flat_read_stringtable_def holds_table_def)
qed

lemma sint_fits: "fits n \<Longrightarrow> sint (word_of_nat n :: u32) = int n"
  by (simp add: fits_def signed_of_nat signed_take_bit_int_eq_self)

definition clean_prop :: "dt_property \<Rightarrow> dt_property" where
  "clean_prop p = build_property (pr_name p) \<lparr>d_val = d_val (pr_val p), d_cap = d_len (pr_val p), d_markers = []\<rparr>"

lemma dvd_prop_bytes: "4 dvd length (prop_bytes i p)"
proof -
  have "length (prop_bytes i p) = 4 * 3 + (d_len (pr_val p) + pad_to 4 (d_len (pr_val p)))" by (simp add: prop_bytes_def fill4_def)
  then show ?thesis using pad_to_le(2) [of "d_len (pr_val p)"] by (simp only: dvd_add dvd_triv_left)
qed

lemma read_property:
  assumes "sees m inb (prop_bytes i p @ b)" and "holds_table m sb t" and "named t i (pr_name p)" and "sym_ok (pr_name p)"
    and "fits (d_len (pr_val p))"
  shows "flat_read_property m False (advance inb 4) sb = Done (clean_prop p, advance inb (length (prop_bytes i p)))"
proof -
  let ?v = "d_val (pr_val p)"
  have "sees m inb (be32 FDT_PROP @ (be32 (word_of_nat (length ?v)) @ be32 (word_of_nat i) @ ?v @ fill4 (length ?v) @ b))"
    using assms(1) by (simp add: prop_bytes_def)
  from sees_after [OF this] have 1: "sees m (advance inb 4) (be32 (word_of_nat (length ?v)) @ (be32 (word_of_nat i) @ ?v @ fill4 (length ?v) @ b))" by simp
  from sees_after [OF this] have 2: "sees m (advance inb 8) (be32 (word_of_nat i) @ (?v @ fill4 (length ?v) @ b))"
    by (simp add: add.commute)
  from sees_after [OF this] have 3: "sees m (advance inb 12) (?v @ fill4 (length ?v) @ b)" by (simp add: add.commute)
  have w: "flat_read_word m (advance inb 4) = Done (word_of_nat (length ?v), advance inb 8)"
    "flat_read_word m (advance inb 8) = Done (word_of_nat i, advance inb 12)"
    using read_word [OF 1] read_word [OF 2] by (simp_all add: add.commute)
  have "fits i" using named_bound [OF assms(3)] assms(2) by (auto simp: holds_table_def intro: fits_mono)
  moreover have "0 \<notin> set (pr_name p)" using assms(4) by (simp add: sym_ok_def)
  ultimately have nm: "flat_read_stringtable m sb (sint (word_of_nat i :: u32)) = Done (pr_name p)"
    using read_table_name [OF assms(2,3)] by (simp add: sint_fits)
  have d: "flat_read_data m (advance inb 12) (sint (word_of_nat (length ?v) :: u32)) =
      Done (\<lparr>d_val = ?v, d_cap = length ?v, d_markers = []\<rparr>, advance inb (12 + length (?v @ fill4 (length ?v))))"
    using read_data [OF 3 assms(5)] assms(5) by (simp add: sint_fits add.assoc)
  show ?thesis unfolding flat_read_property_def
    using w nm d by (simp add: clean_prop_def prop_bytes_def add.assoc)
qed

section \<open>The tree\<close>

text \<open>The tree without what was deleted, its labels and its marks.\<close>

fun clean :: "dt_node \<Rightarrow> dt_node" where
  "clean (Node del nm ps cs fp bl ph ls) =
     Node False nm (map clean_prop (filter (\<lambda>p. \<not> pr_deleted p) ps)) (map clean (filter (\<lambda>c. \<not> nd_deleted c) cs)) None 0 0 []"

text \<open>The tags and names on the way through a tree.\<close>

fun tags :: "dt_node \<Rightarrow> nat" where
  "tags (Node del nm ps cs fp bl ph ls) =
     2 + length (filter (\<lambda>p. \<not> pr_deleted p) ps) + sum_list (map (\<lambda>c. if nd_deleted c then 0 else 1 + tags c) cs)"

definition children_tags :: "dt_node list \<Rightarrow> nat" where
  "children_tags cs = sum_list (map (\<lambda>c. if nd_deleted c then 0 else 1 + tags c) cs)"

lemma children_tags_simps [simp]:
  "children_tags [] = 0" "children_tags (c # cs) = (if nd_deleted c then 0 else 1 + tags c) + children_tags cs"
  by (simp_all add: children_tags_def)

lemma length_live_le_tags: "length (filter (\<lambda>c. \<not> nd_deleted c) cs) \<le> children_tags cs"
  by (induction cs) simp_all

fun props_fit :: "dt_node \<Rightarrow> bool" where
  "props_fit (Node del nm ps cs fp bl ph ls) \<longleftrightarrow>
     (\<forall>p\<in>set ps. \<not> pr_deleted p \<longrightarrow> fits (d_len (pr_val p))) \<and> (\<forall>c\<in>set cs. \<not> nd_deleted c \<longrightarrow> props_fit c)"

lemma add_property_set: "add_property (Node d nm ps cs fp bl ph ls) p = Node d nm (ps @ [p]) cs fp bl ph ls"
  by (simp add: add_property_def)

lemma add_child_set: "add_child (Node d nm ps cs fp bl ph ls) c = Node d nm ps (cs @ [c]) fp bl ph ls"
  by (simp add: add_child_def)

lemma prop_bytes_tag: "prop_bytes i p = be32 FDT_PROP @ drop 4 (prop_bytes i p)"
  by (simp add: prop_bytes_def)

lemma loop_props:
  assumes "props_spec t ps bs" and "sees m inb (bs @ b)" and "holds_table m sb t"
    and "\<forall>p\<in>set ps. \<not> pr_deleted p \<longrightarrow> sym_ok (pr_name p) \<and> fits (d_len (pr_val p))"
  shows "4 dvd length bs \<and>
    unflatten_loop (length (filter (\<lambda>p. \<not> pr_deleted p) ps) + k) m False sb fn (Node d nm qs cs fp bl ph ls) inb =
    unflatten_loop k m False sb fn (Node d nm (qs @ map clean_prop (filter (\<lambda>p. \<not> pr_deleted p) ps)) cs fp bl ph ls) (advance inb (length bs))"
  using assms
proof (induction t ps bs arbitrary: inb qs rule: props_spec.induct)
  case (2 t p ps bs)
  show ?case
  proof (cases "pr_deleted p")
    case True
    then show ?thesis using 2 by simp
  next
    case False
    then obtain i b1 where bs: "bs = prop_bytes i p @ b1" "named t i (pr_name p)" "props_spec t ps b1" using 2(3) by auto
    have s: "sees m inb (prop_bytes i p @ (b1 @ b))" using 2(4) bs(1) by simp
    then have "sees m inb (be32 FDT_PROP @ (drop 4 (prop_bytes i p) @ b1 @ b))" by (subst (asm) prop_bytes_tag) simp
    note w = read_word [OF this]
    have rp: "flat_read_property m False (advance inb 4) sb = Done (clean_prop p, advance inb (length (prop_bytes i p)))"
      by (rule read_property [OF s 2(5) bs(2)]) (use 2(6) False in auto)
    have ih: "4 dvd length b1 \<and>
      unflatten_loop (length (filter (\<lambda>p. \<not> pr_deleted p) ps) + k) m False sb fn (Node d nm (qs @ [clean_prop p]) cs fp bl ph ls) (advance inb (length (prop_bytes i p))) =
      unflatten_loop k m False sb fn (Node d nm ((qs @ [clean_prop p]) @ map clean_prop (filter (\<lambda>p. \<not> pr_deleted p) ps)) cs fp bl ph ls)
        (advance (advance inb (length (prop_bytes i p))) (length b1))"
      by (rule 2(2) [OF False bs(3) sees_after [OF s dvd_prop_bytes] 2(5)]) (use 2(6) in simp)
    have "4 dvd length bs" using ih dvd_prop_bytes bs(1) by simp
    moreover have "unflatten_loop (Suc (length (filter (\<lambda>p. \<not> pr_deleted p) ps) + k)) m False sb fn (Node d nm qs cs fp bl ph ls) inb =
      unflatten_loop (length (filter (\<lambda>p. \<not> pr_deleted p) ps) + k) m False sb fn (Node d nm (qs @ [clean_prop p]) cs fp bl ph ls) (advance inb (length (prop_bytes i p)))"
      using w rp by (simp add: add_property_set)
    ultimately show ?thesis using ih False bs(1) by (simp del: unflatten_loop.simps add: ac_simps)
  qed
qed simp

definition tree_read :: "bytes \<Rightarrow> inbuf \<Rightarrow> bytes \<Rightarrow> dt_node \<Rightarrow> bytes \<Rightarrow> bool" where
  "tree_read m sb t n bs \<longleftrightarrow> 4 dvd length bs \<and> tags n \<le> length bs \<and>
     (\<forall>inb b k parent. sees m inb (bs @ b) \<longrightarrow> tags n \<le> k \<longrightarrow>
        unflatten_tree k m False sb parent inb = Done (clean n, advance inb (length bs)))"

lemma tags_distinct: "FDT_BEGIN_NODE \<noteq> FDT_PROP" "FDT_END_NODE \<noteq> FDT_PROP" "FDT_END_NODE \<noteq> FDT_BEGIN_NODE"
  by (simp_all add: FDT_BEGIN_NODE_def FDT_PROP_def FDT_END_NODE_def)

lemma loop_children:
  assumes "children_spec t cs bs" and "sees m inb (bs @ b)" and "children_tags cs \<le> k"
    and "\<And>c b. c \<in> set cs \<Longrightarrow> \<not> nd_deleted c \<Longrightarrow> node_spec t c b \<Longrightarrow> tree_read m sb t c b"
  shows "unflatten_loop k m False sb fn (Node d nm qs ds fp bl ph ls) inb =
    unflatten_loop (k - length (filter (\<lambda>c. \<not> nd_deleted c) cs)) m False sb fn
      (Node d nm qs (ds @ map clean (filter (\<lambda>c. \<not> nd_deleted c) cs)) fp bl ph ls) (advance inb (length bs))"
  using assms
proof (induction cs arbitrary: bs inb ds k)
  case (Cons c cs)
  show ?case
  proof (cases "nd_deleted c")
    case True
    then show ?thesis using Cons by simp
  next
    case False
    then obtain b1 b2 where bs: "bs = be32 FDT_BEGIN_NODE @ b1 @ b2" "node_spec t c b1" "children_spec t cs b2"
      using Cons.prems(1) by auto
    have tr: "tree_read m sb t c b1" by (rule Cons.prems(4) [OF _ False bs(2)]) simp
    obtain j where k: "k = Suc j" "tags c \<le> j" "children_tags cs \<le> j" using Cons.prems(3) False by (cases k) simp_all
    have s: "sees m inb (be32 FDT_BEGIN_NODE @ (b1 @ (b2 @ b)))" using Cons.prems(2) bs(1) by simp
    have s1: "sees m (advance inb 4) (b1 @ (b2 @ b))" using sees_after [OF s] by simp
    have "unflatten_tree j m False sb fn (advance inb 4) = Done (clean c, advance (advance inb 4) (length b1))"
      using tr s1 k(2) unfolding tree_read_def by blast
    then have t1: "unflatten_tree j m False sb fn (advance inb 4) = Done (clean c, advance inb (4 + length b1))"
      by (simp add: ac_simps)
    have s2: "sees m (advance inb (4 + length b1)) (b2 @ b)" using sees_after [OF s1] tr by (simp add: tree_read_def ac_simps)
    have "unflatten_loop k m False sb fn (Node d nm qs ds fp bl ph ls) inb =
      unflatten_loop j m False sb fn (Node d nm qs (ds @ [clean c]) fp bl ph ls) (advance inb (4 + length b1))"
      using read_word [OF s] t1 k(1) tags_distinct by (simp add: add_child_set)
    also have "\<dots> = unflatten_loop (j - length (filter (\<lambda>c. \<not> nd_deleted c) cs)) m False sb fn
      (Node d nm qs ((ds @ [clean c]) @ map clean (filter (\<lambda>c. \<not> nd_deleted c) cs)) fp bl ph ls) (advance (advance inb (4 + length b1)) (length b2))"
      by (rule Cons.IH [OF bs(3) s2 k(3)]) (use Cons.prems(4) in auto)
    finally show ?thesis using False k(1) bs(1) by (simp del: unflatten_loop.simps add: ac_simps)
  qed
qed simp

lemma props_spec_dvd: "props_spec t ps bs \<Longrightarrow> 4 dvd length bs"
proof (induction t ps bs rule: props_spec.induct)
  case (2 t p ps bs)
  then show ?case using dvd_prop_bytes by (cases "pr_deleted p") auto
qed simp

lemma props_spec_length: "props_spec t ps bs \<Longrightarrow> length (filter (\<lambda>p. \<not> pr_deleted p) ps) \<le> length bs"
proof (induction t ps bs rule: props_spec.induct)
  case (2 t p ps bs)
  show ?case
  proof (cases "pr_deleted p")
    case True
    then show ?thesis using 2 by simp
  next
    case False
    then obtain i b1 where "bs = prop_bytes i p @ b1" "props_spec t ps b1" using 2(3) by auto
    then show ?thesis using 2(2) [OF False, of b1] False by (simp add: prop_bytes_def)
  qed
qed simp

lemma children_spec_length:
  assumes "children_spec t cs bs" and "\<And>c b. c \<in> set cs \<Longrightarrow> \<not> nd_deleted c \<Longrightarrow> node_spec t c b \<Longrightarrow> tree_read m sb t c b"
  shows "4 dvd length bs \<and> children_tags cs \<le> length bs"
  using assms
proof (induction cs arbitrary: bs)
  case (Cons c cs)
  show ?case
  proof (cases "nd_deleted c")
    case True
    then show ?thesis using Cons by simp
  next
    case False
    then obtain b1 b2 where bs: "bs = be32 FDT_BEGIN_NODE @ b1 @ b2" "node_spec t c b1" "children_spec t cs b2"
      using Cons.prems(1) by auto
    have "tree_read m sb t c b1" by (rule Cons.prems(2) [OF _ False bs(2)]) simp
    then have "4 dvd length b1" "tags c \<le> length b1" by (simp_all add: tree_read_def)
    moreover have "4 dvd length b2 \<and> children_tags cs \<le> length b2" by (rule Cons.IH [OF bs(3)]) (use Cons.prems(2) in auto)
    ultimately show ?thesis using bs(1) False by simp
  qed
qed simp

text \<open>What is related to a tree is read as the tree, whatever follows it and wherever it lies.\<close>

lemma tree_reads: "node_spec t n bs \<Longrightarrow> tree_ok n \<Longrightarrow> props_fit n \<Longrightarrow> holds_table m sb t \<Longrightarrow> tree_read m sb t n bs"
proof (induction n arbitrary: bs)
  case (Node del nm ps cs fp bl ph ls)
  let ?ps = "filter (\<lambda>p. \<not> pr_deleted p) ps" and ?cs = "filter (\<lambda>c. \<not> nd_deleted c) cs"
  obtain pb cb where bs: "bs = name_bytes nm @ pb @ cb @ be32 FDT_END_NODE" "props_spec t ps pb" "children_spec t cs cb"
    using Node(2) by auto
  have sub: "tree_read m sb t c b" if "c \<in> set cs" "\<not> nd_deleted c" "node_spec t c b" for c b
    using Node that by auto
  have fit: "\<forall>p\<in>set ps. \<not> pr_deleted p \<longrightarrow> sym_ok (pr_name p) \<and> fits (d_len (pr_val p))" and nm: "0 \<notin> set nm"
    using Node(3,4) by (auto simp: sym_ok_def)
  have cb: "4 dvd length cb" "children_tags cs \<le> length cb" using children_spec_length [OF bs(3) sub] by simp_all
  have tg: "tags (Node del nm ps cs fp bl ph ls) = 2 + length ?ps + children_tags cs" by (simp add: children_tags_def)
  have reads: "unflatten_tree k m False sb parent inb = Done (clean (Node del nm ps cs fp bl ph ls), advance inb (length bs))"
    if s: "sees m inb (bs @ b)" and k: "tags (Node del nm ps cs fp bl ph ls) \<le> k" for inb b k parent
  proof -
    let ?n = "length (name_bytes nm)" and ?p = "length pb" and ?c = "length cb"
    obtain j where j: "k = Suc (length ?ps + j)" "children_tags cs < j"
    proof
      show "k = Suc (length ?ps + (k - 1 - length ?ps))" "children_tags cs < k - 1 - length ?ps" using k unfolding tg by linarith+
    qed
    have s0: "sees m inb (name_bytes nm @ (pb @ (cb @ (be32 FDT_END_NODE @ b))))" using s bs(1) by simp
    have s1: "sees m (advance inb ?n) (pb @ (cb @ (be32 FDT_END_NODE @ b)))" by (rule sees_after [OF s0 dvd_name_bytes])
    have pr: "4 dvd ?p" "unflatten_loop (length ?ps + j) m False sb nm (Node False nm [] [] None 0 0 []) (advance inb ?n) =
      unflatten_loop j m False sb nm (Node False nm (map clean_prop ?ps) [] None 0 0 []) (advance (advance inb ?n) ?p)"
      using loop_props [OF bs(2) s1 Node(5) fit, where k = j and fn = nm and d = False and nm = nm and qs = "[]" and cs = "[]" and fp = None and bl = 0 and ph = 0 and ls = "[]"]
      by simp_all
    have s2: "sees m (advance (advance inb ?n) ?p) (cb @ (be32 FDT_END_NODE @ b))" by (rule sees_after [OF s1 pr(1)])
    have ch: "unflatten_loop j m False sb nm (Node False nm (map clean_prop ?ps) [] None 0 0 []) (advance (advance inb ?n) ?p) =
      unflatten_loop (j - length ?cs) m False sb nm (Node False nm (map clean_prop ?ps) ([] @ map clean ?cs) None 0 0 []) (advance (advance (advance inb ?n) ?p) ?c)"
      by (rule loop_children [OF bs(3) s2 less_imp_le [OF j(2)] sub])
    have s3: "sees m (advance (advance (advance inb ?n) ?p) ?c) (be32 FDT_END_NODE @ b)" by (rule sees_after [OF s2 cb(1)])
    obtain i where i: "j - length ?cs = Suc i" using j(2) length_live_le_tags [of cs] by (cases "j - length ?cs") simp_all
    have "unflatten_tree k m False sb parent inb = Done (clean (Node del nm ps cs fp bl ph ls), advance (advance (advance (advance inb ?n) ?p) ?c) 4)"
      using read_string [OF s0 nm] pr(2) ch read_word [OF s3] tags_distinct unfolding j(1) i by (simp add: build_node_def)
    then show ?thesis using pr(1) bs(1) by (simp add: ac_simps)
  qed
  have pb: "4 dvd length pb" by (rule props_spec_dvd [OF bs(2)])
  show ?case unfolding tree_read_def
  proof (intro conjI allI impI)
    show "4 dvd length bs" using bs(1) pb cb(1) dvd_name_bytes [of nm] by simp
    show "tags (Node del nm ps cs fp bl ph ls) \<le> length bs"
      unfolding tg using bs(1) cb(2) props_spec_length [OF bs(2)] by simp
  qed (use reads in blast)
qed

end
