(* ===== verification/Dt_Unflat_Total.thy ===== *)
theory Dt_Unflat_Total
  imports Dt_Unflat
begin

text \<open>
  Reading ends on any memory: every step of \<open>unflatten_tree\<close> moves the pointer, and it cannot
  move behind the memory without a fault, so that fuel for one step more than there are bytes is enough.
\<close>

section \<open>The pointer only moves on\<close>

definition moves :: "nat \<Rightarrow> inbuf \<Rightarrow> inbuf \<Rightarrow> bool" where
  "moves n inb inb' \<longleftrightarrow> ib_base inb' = ib_base inb \<and> ib_ptr inb + n \<le> ib_ptr inb'"

lemma moves_trans: "moves a x y \<Longrightarrow> moves b y z \<Longrightarrow> moves (a + b) x z"
  by (simp add: moves_def)

lemma moves_le: "moves a x y \<Longrightarrow> b \<le> a \<Longrightarrow> moves b x y"
  by (simp add: moves_def)

lemma from_res_fuel [simp]: "from_res m \<noteq> No_Fuel"
  by (cases m) simp_all

lemma chunk_moves: "flat_read_chunk m inb n = Done (p, inb') \<Longrightarrow> moves n inb inb' \<and> ib_ptr inb + n \<le> length m"
  by (auto simp: flat_read_chunk_def dbind_Done moves_def from_res_def rd_bytes_def split: if_splits sum.splits)

lemma chunk_fuel [simp]: "flat_read_chunk m inb n \<noteq> No_Fuel"
  by (simp add: flat_read_chunk_def dbind_No_Fuel)

lemma word_moves: "flat_read_word m inb = Done (w, inb') \<Longrightarrow> moves 4 inb inb' \<and> ib_ptr inb + 4 \<le> length m"
  by (auto simp: flat_read_word_def dbind_Done dest!: chunk_moves split: if_splits)

lemma word_fuel [simp]: "flat_read_word m inb \<noteq> No_Fuel"
  by (auto simp: flat_read_word_def dbind_No_Fuel)

lemma realign_moves: "a = 4 \<or> a = 8 \<Longrightarrow> ib_base inb \<le> ib_ptr inb \<Longrightarrow> flat_realign inb a = Done inb' \<Longrightarrow> moves 0 inb inb'"
  using ALIGN_pad [of a "ib_ptr inb - ib_base inb"]
  by (auto simp: flat_realign_def Let_def moves_def split: if_splits)

lemma realign_fuel [simp]: "flat_realign inb a \<noteq> No_Fuel"
  by (simp add: flat_realign_def Let_def)

lemma scan_fuel [simp]: "scan_string m p l \<noteq> No_Fuel"
  by (simp add: scan_string_def Let_def)

lemma string_moves:
  assumes "ib_base inb \<le> ib_ptr inb" and "flat_read_string m inb = Done (s, inb')"
  shows "moves 1 inb inb' \<and> ib_ptr inb + 1 \<le> length m"
proof -
  have sc: "scan_string m (ib_ptr inb) (ib_limit inb) = Done s"
    and re: "flat_realign (inb\<lparr>ib_ptr := ib_ptr inb + length s + 1\<rparr>) 4 = Done inb'"
    using assms(2) by (auto simp: flat_read_string_def dbind_Done)
  have "moves 0 (inb\<lparr>ib_ptr := ib_ptr inb + length s + 1\<rparr>) inb'" by (rule realign_moves [OF _ _ re]) (use assms(1) in simp_all)
  moreover have "ib_ptr inb + length s < length m" using sc by (auto simp: scan_string_def Let_def split: if_splits)
  ultimately show ?thesis by (simp add: moves_def)
qed

lemma string_fuel [simp]: "flat_read_string m inb \<noteq> No_Fuel"
  by (auto simp: flat_read_string_def dbind_No_Fuel)

lemma grow_size_fuel [simp]: "grow_size need n \<noteq> No_Fuel"
  by (induction need n rule: grow_size.induct) (subst grow_size.simps, simp)

lemma grow_for_fuel [simp]: "data_grow_for d n \<noteq> No_Fuel"
  by (simp add: data_grow_for_def dbind_No_Fuel)

lemma data_moves:
  assumes "ib_base inb \<le> ib_ptr inb" and "flat_read_data m inb len = Done (d, inb')"
  shows "moves 0 inb inb'"
proof (cases "len = 0")
  case True
  then show ?thesis using assms(2) by (simp add: flat_read_data_def moves_def)
next
  case False
  then obtain p i where c: "flat_read_chunk m inb (nat len) = Done (p, i)" and r: "flat_realign i 4 = Done inb'"
    using assms(2) by (auto simp: flat_read_data_def dbind_Done)
  have "moves (nat len) inb i" using chunk_moves [OF c] by simp
  moreover from this have "moves 0 i inb'" using realign_moves [OF _ _ r] assms(1) by (simp add: moves_def)
  ultimately show ?thesis by (simp add: moves_def)
qed

lemma data_fuel [simp]: "flat_read_data m inb len \<noteq> No_Fuel"
  by (auto simp: flat_read_data_def dbind_No_Fuel)

lemma property_moves:
  assumes "ib_base inb \<le> ib_ptr inb" and "flat_read_property m va inb sb = Done (p, inb')"
  shows "moves 8 inb inb'"
proof -
  obtain pl i1 so i2 i3 v where w: "flat_read_word m inb = Done (pl, i1)" "flat_read_word m i1 = Done (so, i2)"
    and al: "(if va \<and> pl \<ge> 8 then flat_realign i2 8 else Done i2) = Done i3" and d: "flat_read_data m i3 (sint pl) = Done (v, inb')"
    using assms(2) by (auto simp: flat_read_property_def dbind_Done)
  have "moves (4 + 4) inb i2" using word_moves [OF w(1)] word_moves [OF w(2)] moves_trans by blast
  moreover from this have "moves 0 i2 i3" using al realign_moves [of 8 i2 i3] assms(1) by (auto simp: moves_def split: if_splits)
  ultimately have m: "moves 8 inb i3" using moves_trans by fastforce
  then have "moves 0 i3 inb'" using data_moves [OF _ d] assms(1) by (simp add: moves_def)
  with m show ?thesis using moves_trans by fastforce
qed

lemma stringtable_fuel [simp]: "flat_read_stringtable m sb o1 \<noteq> No_Fuel"
  by (simp add: flat_read_stringtable_def)

lemma property_fuel [simp]: "flat_read_property m va inb sb \<noteq> No_Fuel"
  by (auto simp: flat_read_property_def dbind_No_Fuel)

lemma path_fuel [simp]: "nodename_from_path a b \<noteq> No_Fuel"
  by (simp add: nodename_from_path_def Let_def)

lemma reserve_fuel: "flat_read_mem_reserve m inb rs \<noteq> No_Fuel"
proof (induction m inb rs rule: flat_read_mem_reserve.induct)
  case (1 m inb rs)
  show ?case
    by (subst flat_read_mem_reserve.simps) (auto simp: dbind_No_Fuel Let_def dest: 1 [OF _ refl refl refl])
qed

section \<open>Fuel\<close>

definition enough :: "nat \<Rightarrow> bytes \<Rightarrow> inbuf \<Rightarrow> bool" where
  "enough k m inb \<longleftrightarrow> ib_base inb \<le> ib_ptr inb \<and> length m < k + ib_ptr inb \<and> 0 < k"

lemma enough_step: "enough (Suc k) m inb \<Longrightarrow> moves (Suc n) inb inb' \<Longrightarrow> ib_ptr inb + 1 \<le> length m \<Longrightarrow> enough k m inb'"
  by (auto simp: enough_def moves_def)

lemma enough_on: "enough k m inb \<Longrightarrow> moves n inb inb' \<Longrightarrow> enough k m inb'"
  by (auto simp: enough_def moves_def)

definition ends :: "inbuf \<Rightarrow> (dt_node \<times> inbuf) dres \<Rightarrow> bool" where
  "ends inb r \<longleftrightarrow> r \<noteq> No_Fuel \<and> (\<forall>n inb'. r = Done (n, inb') \<longrightarrow> moves 0 inb inb')"

lemma ends_bind:
  assumes "m \<noteq> No_Fuel" and "\<And>x i. m = Done (x, i) \<Longrightarrow> moves 0 inb i \<and> ends i (f (x, i))"
  shows "ends inb (dbind m f)"
proof (cases m)
  case (Done y)
  obtain x i where "y = (x, i)" by (cases y)
  with assms(2) Done have "moves 0 inb i" "ends i (f y)" by auto
  then show ?thesis using Done moves_trans [of 0 inb i 0] by (auto simp: ends_def)
qed (use assms(1) in \<open>simp_all add: ends_def\<close>)

lemma ends_stop [simp]: "ends inb (Done (n, inb))" "ends inb Die" "ends inb (Fault e)"
  by (simp_all add: ends_def moves_def)

lemma unflatten_ends:
  "enough k m inb \<Longrightarrow> ends inb (unflatten_tree k m old sb parent inb)"
  "enough k m inb \<Longrightarrow> ends inb (unflatten_loop k m old sb fn node inb)"
proof (induction k m old sb parent inb and k m old sb fn node inb rule: unflatten_tree_unflatten_loop.induct)
  case (2 k m old sb parent inb)
  show ?case unfolding unflatten_tree.simps
  proof (rule ends_bind)
    fix s i assume s: "flat_read_string m inb = Done (s, i)"
    have mv: "moves 1 inb i \<and> ib_ptr inb + 1 \<le> length m" using string_moves [OF _ s] 2(2) by (simp add: enough_def)
    have e: "enough k m i" by (rule enough_step [where n = 0, OF 2(2)]) (use mv in simp_all)
    have "ends i (dbind (if old then nodename_from_path parent s else Done s) (\<lambda>nm. unflatten_loop k m old sb s (build_node nm [] []) i))"
    proof (cases "if old then nodename_from_path parent s else Done s")
      case (Done nm)
      then show ?thesis using 2(1) [OF s refl Done] e by simp
    qed (simp_all add: ends_def split: if_splits)
    then show "moves 0 inb i \<and> ends i (case (s, i) of (flatname, dtbuf) \<Rightarrow>
        dbind (if old then nodename_from_path parent flatname else Done flatname) (\<lambda>nm. unflatten_loop k m old sb flatname (build_node nm [] []) dtbuf))"
      using mv moves_le by fastforce
  qed simp
next
  case (4 k m old sb fn node inb)
  show ?case unfolding unflatten_loop.simps
  proof (rule ends_bind)
    fix v i assume w: "flat_read_word m inb = Done (v, i)"
    have mv: "moves 4 inb i" "ib_ptr inb + 1 \<le> length m" using word_moves [OF w] by simp_all
    have e: "enough k m i" by (rule enough_step [where n = 3, OF 4(5)]) (use mv in simp_all)
    have pp: "ends i (dbind (flat_read_property m old i sb) (\<lambda>(p, j). unflatten_loop k m old sb fn (add_property node p) j))" if v: "v = FDT_PROP"
    proof (rule ends_bind)
      fix p j assume p: "flat_read_property m old i sb = Done (p, j)"
      have "moves 8 i j" using property_moves [OF _ p] e by (simp add: enough_def)
      then show "moves 0 i j \<and> ends j (case (p, j) of (p, j) \<Rightarrow> unflatten_loop k m old sb fn (add_property node p) j)"
        using 4(1) [OF w refl v p refl] enough_on [OF e] moves_le by fastforce
    qed simp
    have child: "ends i (dbind (unflatten_tree k m old sb fn i) (\<lambda>(c, j). unflatten_loop k m old sb fn (add_child node c) j))"
      if v: "v \<noteq> FDT_PROP" "v = FDT_BEGIN_NODE"
    proof (rule ends_bind)
      have t: "ends i (unflatten_tree k m old sb fn i)" by (rule 4(2) [OF w refl v e])
      then show "unflatten_tree k m old sb fn i \<noteq> No_Fuel" by (simp add: ends_def)
      fix c j assume c: "unflatten_tree k m old sb fn i = Done (c, j)"
      then have "moves 0 i j" using t by (simp add: ends_def)
      then show "moves 0 i j \<and> ends j (case (c, j) of (c, j) \<Rightarrow> unflatten_loop k m old sb fn (add_child node c) j)"
        using 4(3) [OF w refl v c refl] enough_on [OF e] by fastforce
    qed
    show "moves 0 inb i \<and> ends i (case (v, i) of (val, dtbuf) \<Rightarrow>
      if val = FDT_PROP then dbind (flat_read_property m old dtbuf sb) (\<lambda>(prop, dtbuf). unflatten_loop k m old sb fn (add_property node prop) dtbuf)
      else if val = FDT_BEGIN_NODE then dbind (unflatten_tree k m old sb fn dtbuf) (\<lambda>(child, dtbuf). unflatten_loop k m old sb fn (add_child node child) dtbuf)
      else if val = FDT_END_NODE then Done (node, dtbuf)
      else if val = FDT_END then Die
      else if val = FDT_NOP then unflatten_loop k m old sb fn node dtbuf
      else Die)"
      using pp child 4(4) [OF w refl] e moves_le [OF mv(1), of 0] by simp
  qed simp
qed (simp_all add: enough_def)

lemma header_field_fuel [simp]: "header_field m n \<noteq> No_Fuel"
  by (simp add: header_field_def dbind_No_Fuel)

lemma tree_fuel: "length m < fuel \<Longrightarrow> flat_read_word m (inbuf_init base lim) = Done (w, inb) \<Longrightarrow> unflatten_tree fuel m old sb parent inb \<noteq> No_Fuel"
proof -
  assume "length m < fuel" "flat_read_word m (inbuf_init base lim) = Done (w, inb)"
  then have "enough fuel m inb" using word_moves by (fastforce simp: enough_def moves_def inbuf_init_def)
  then show ?thesis using unflatten_ends(1) by (simp add: ends_def)
qed

end
