(* ===== verification/Dt_Blob_Correct.thy ===== *)
theory Dt_Blob_Correct
  imports Dt_Unflat_Correct Dt_Unflat_Total
begin

text \<open>
  Whole blobs: what \<open>dt_to_mem\<close> puts where, and that \<open>dt_from_mem\<close> finds it there.
\<close>

section \<open>The parts of a blob\<close>

lemma fits_le: "fits n \<Longrightarrow> m \<le> n \<Longrightarrow> fits m"
  by (rule fits_mono)

lemma blob_parts:
  fixes hd :: bytes and reservebuf dtbuf strbuf :: dt_data
  assumes "fits (length hd + 8 + d_len reservebuf + 16 + d_len dtbuf + d_len strbuf + nat padlen)"
  shows "dbind (data_append_data empty_data hd) (\<lambda>blob.
     dbind (data_append_align blob 8) (\<lambda>blob.
     dbind (data_merge blob reservebuf) (\<lambda>blob.
     dbind (data_append_zeroes blob 16) (\<lambda>blob.
     dbind (data_merge blob dtbuf) (\<lambda>blob.
     dbind (data_merge blob strbuf) (\<lambda>blob.
     dbind (if padlen > 0 then data_append_zeroes blob padlen else Done blob) (\<lambda>blob.
     Done (d_val blob)))))))) =
   Done (hd @ replicate (pad_to 8 (length hd)) 0 @ d_val reservebuf @ replicate 16 0 @ d_val dtbuf @ d_val strbuf @ replicate (nat padlen) 0)"
    (is "?m = Done ?out")
proof -
  have p: "pad_to 8 (length hd) < 8"
  proof -
    have "(- int (length hd)) mod 8 < 8" by simp
    then show ?thesis by (simp add: pad_to_def nat_less_iff)
  qed
  have ft: "fits n" if "n \<le> length hd + 8 + d_len reservebuf + 16 + d_len dtbuf + d_len strbuf + nat padlen" for n
    using fits_mono [OF assms that] .
  have step: "dbind m f = Done out" if "gives m v ms" "\<And>d. d_val d = v \<Longrightarrow> f d = Done out"
    for m v ms and f :: "dt_data \<Rightarrow> bytes dres" and out
    using that by (auto simp: gives_def)
  show ?thesis
  proof (rule step [OF data_append_data_gives])
    show "fits (d_len empty_data + length hd)" by (rule ft) (simp add: empty_data_def)
    fix b1 :: dt_data assume b1: "d_val b1 = d_val empty_data @ hd"
    have b1: "d_val b1 = hd" using b1 by (simp add: empty_data_def)
    have g1: "gives (data_append_align b1 (int 8)) (d_val b1 @ replicate (pad_to 8 (d_len b1)) 0) (d_markers b1)"
      by (rule data_append_align_gives) (use b1 p in \<open>auto intro!: ft\<close>)
    then have g1: "gives (data_append_align b1 8) (hd @ replicate (pad_to 8 (length hd)) 0) (d_markers b1)" by (simp add: b1)
    show "dbind (data_append_align b1 8) (\<lambda>blob.
     dbind (data_merge blob reservebuf) (\<lambda>blob.
     dbind (data_append_zeroes blob 16) (\<lambda>blob.
     dbind (data_merge blob dtbuf) (\<lambda>blob.
     dbind (data_merge blob strbuf) (\<lambda>blob.
     dbind (if padlen > 0 then data_append_zeroes blob padlen else Done blob) (\<lambda>blob.
     Done (d_val blob))))))) = Done ?out"
    proof (rule step [OF g1], rule step [OF data_merge_gives])
      fix b2 :: dt_data assume b2: "d_val b2 = hd @ replicate (pad_to 8 (length hd)) 0"
      show "fits (d_len b2 + d_len reservebuf)" by (rule ft) (use b2 p in simp)
      fix b3 :: dt_data assume b3: "d_val b3 = d_val b2 @ d_val reservebuf"
      have "gives (data_append_zeroes b3 (int 16)) (d_val b3 @ replicate 16 0) (d_markers b3)"
        by (rule data_append_zeroes_gives, rule ft) (use b2 b3 p in simp)
      then have g3: "gives (data_append_zeroes b3 16) (d_val b3 @ replicate 16 0) (d_markers b3)" by simp
      show "dbind (data_append_zeroes b3 16) (\<lambda>blob.
         dbind (data_merge blob dtbuf) (\<lambda>blob.
         dbind (data_merge blob strbuf) (\<lambda>blob.
         dbind (if padlen > 0 then data_append_zeroes blob padlen else Done blob) (\<lambda>blob. Done (d_val blob))))) = Done ?out"
      proof (rule step [OF g3], rule step [OF data_merge_gives], goal_cases)
        case (1 b4)
        then show ?case by (intro ft) (use b2 b3 p in simp)
      next
        case (2 b4 b5)
        show ?case
        proof (rule step [OF data_merge_gives])
          show "fits (d_len b5 + d_len strbuf)" by (rule ft) (use 2 b2 b3 p in simp)
          fix b6 :: dt_data assume b6: "d_val b6 = d_val b5 @ d_val strbuf"
          show "dbind (if padlen > 0 then data_append_zeroes b6 padlen else Done b6) (\<lambda>blob. Done (d_val blob)) = Done ?out"
          proof (cases "padlen > 0")
            case True
            have "gives (data_append_zeroes b6 (int (nat padlen))) (d_val b6 @ replicate (nat padlen) 0) (d_markers b6)"
              by (rule data_append_zeroes_gives, rule ft) (use 2 b2 b3 b6 p in simp)
            then show ?thesis using True 2 b2 b3 b6 by (auto simp: gives_def)
          next
            case False
            then show ?thesis using 2 b2 b3 b6 by simp
          qed
        qed
      qed
    qed
  qed
qed

definition reserve_bytes :: "reserve_info \<Rightarrow> bytes" where
  "reserve_bytes r = be64 (re_address r) @ be64 (re_size r)"

lemma length_reserve_bytes [simp]: "length (reserve_bytes r) = 16"
  by (simp add: reserve_bytes_def)

lemma length_reserves [simp]: "length (concat (map reserve_bytes rs)) = 16 * length rs"
  by (induction rs) simp_all

lemma append_reserves_gives:
  "fits (d_len d + 16 * length rs) \<Longrightarrow> gives (append_reserves rs d) (d_val d @ concat (map reserve_bytes rs)) (d_markers d)"
proof (induction rs arbitrary: d)
  case Nil
  then show ?case by (simp add: gives_def)
next
  case (Cons r rs)
  show ?case unfolding append_reserves.simps
  proof (rule gives_bind [OF data_append_re_gives])
    show "fits (d_len d + 16)" by (rule fits_mono [OF Cons.prems]) simp
    fix e :: dt_data assume e: "d_val e = d_val d @ be64 (re_address r) @ be64 (re_size r)" "d_markers e = d_markers d"
    have "gives (append_reserves rs e) (d_val e @ concat (map reserve_bytes rs)) (d_markers e)"
      by (rule Cons.IH, rule fits_mono [OF Cons.prems]) (use e in simp)
    then show "gives (append_reserves rs e) (d_val d @ concat (map reserve_bytes (r # rs))) (d_markers d)"
      using e by (simp add: reserve_bytes_def)
  qed
qed

lemma be64_0: "be64 0 = replicate 8 0"
  by (simp add: be64_def be_bytes_def)

lemma reserve_zero: "reserve_bytes (build_reserve_entry 0 0) = replicate 16 0"
  by (simp add: reserve_bytes_def build_reserve_entry_def be64_0 flip: replicate_add)

lemma reserve_zeros: "concat (map reserve_bytes (replicate n (build_reserve_entry 0 0))) = replicate (16 * n) 0"
  by (induction n) (simp_all add: reserve_zero replicate_add [symmetric])

lemma flatten_reserve_list_gives:
  assumes "fits (16 * length rs + 16 * reservenum opts)"
  shows "gives (flatten_reserve_list opts rs) (concat (map reserve_bytes rs) @ replicate (16 * reservenum opts) 0) []"
  unfolding flatten_reserve_list_def
proof (rule gives_bind [OF append_reserves_gives])
  show "fits (d_len empty_data + 16 * length rs)" by (rule fits_mono [OF assms]) (simp add: empty_data_def)
  fix d :: dt_data assume d: "d_val d = d_val empty_data @ concat (map reserve_bytes rs)" "d_markers d = d_markers empty_data"
  have "gives (append_reserves (replicate (reservenum opts) (build_reserve_entry 0 0)) d)
    (d_val d @ concat (map reserve_bytes (replicate (reservenum opts) (build_reserve_entry 0 0)))) (d_markers d)"
    by (rule append_reserves_gives) (use assms d in \<open>simp add: empty_data_def\<close>)
  then show "gives (append_reserves (replicate (reservenum opts) (build_reserve_entry 0 0)) d)
    (concat (map reserve_bytes rs) @ replicate (16 * reservenum opts) 0) []"
    unfolding reserve_zeros using d by (simp add: empty_data_def)
qed

text \<open>An entry without its labels.\<close>

definition clean_reserve :: "reserve_info \<Rightarrow> reserve_info" where
  "clean_reserve r = build_reserve_entry (re_address r) (re_size r)"

lemma read_reserves:
  assumes "drop (ib_ptr inb) m = concat (map reserve_bytes rs) @ replicate 16 0 @ r" and "\<forall>r\<in>set rs. re_size r \<noteq> 0"
    and "ib_ptr inb + 16 * length rs + 16 \<le> ib_limit inb"
  shows "flat_read_mem_reserve m inb acc = Done (acc @ map clean_reserve rs)"
  using assms
proof (induction rs arbitrary: inb acc)
  case Nil
  have "length m - ib_ptr inb = 16 + length r" using Nil(1) length_drop [of "ib_ptr inb" m] by simp
  then have "flat_read_chunk m inb 16 = Done (replicate 16 0, inb\<lparr>ib_ptr := ib_ptr inb + 16\<rparr>)"
    using Nil by (simp add: flat_read_chunk_def)
  moreover have "rd_be64 (replicate 8 0) = 0" using be64.dec_enc [of 0] by (simp add: be64_0)
  ultimately show ?case by (subst flat_read_mem_reserve.simps) (simp add: Let_def)
next
  case (Cons e rs)
  let ?inb = "inb\<lparr>ib_ptr := ib_ptr inb + 16\<rparr>"
  have "length m - ib_ptr inb = 16 + 16 * length rs + 16 + length r" using Cons(2) length_drop [of "ib_ptr inb" m] by simp
  then have ch: "flat_read_chunk m inb 16 = Done (reserve_bytes e, ?inb)"
    using Cons(2,4) by (simp add: flat_read_chunk_def)
  have "drop 16 (drop (ib_ptr inb) m) = concat (map reserve_bytes rs) @ replicate 16 0 @ r" using Cons(2) by simp
  then have dr: "drop (ib_ptr ?inb) m = concat (map reserve_bytes rs) @ replicate 16 0 @ r" by (simp add: add.commute)
  have ih: "flat_read_mem_reserve m ?inb (acc @ [clean_reserve e]) = Done ((acc @ [clean_reserve e]) @ map clean_reserve rs)"
    by (rule Cons.IH [OF dr]) (use Cons(3,4) in simp_all)
  have ds: "rd_be64 (take 8 (reserve_bytes e)) = re_address e" "rd_be64 (drop 8 (reserve_bytes e)) = re_size e"
    by (simp_all add: reserve_bytes_def be64.dec_enc)
  show ?case
    by (subst flat_read_mem_reserve.simps) (use ch ih ds Cons(3) in \<open>simp add: Let_def add_reserve_entry_def flip: clean_reserve_def\<close>)
qed

section \<open>The header\<close>

lemma header_at: "length pre = off \<Longrightarrow> header_field (pre @ be32 x @ r) off = Done (unat x)"
  by (simp add: header_field_def be32.dec_enc)

text \<open>The fields that every version from the third on has.\<close>

definition common_header :: "fdt_header \<Rightarrow> bytes" where
  "common_header h = be32 (fh_magic h) @ be32 (fh_totalsize h) @ be32 (fh_off_dt_struct h) @ be32 (fh_off_dt_strings h) @
     be32 (fh_off_mem_rsvmap h) @ be32 (fh_version h) @ be32 (fh_last_comp_version h) @ be32 (fh_boot_cpuid_phys h) @ be32 (fh_size_dt_strings h)"

lemma length_common_header [simp]: "length (common_header h) = 36"
  by (simp add: common_header_def)

lemma header_bytes_common: "header_bytes h = common_header h @ be32 (fh_size_dt_struct h)"
  by (simp add: header_bytes_def common_header_def)

lemma header_fields:
  "header_field (common_header h @ r) 4 = Done (unat (fh_totalsize h))"
  "header_field (common_header h @ r) 8 = Done (unat (fh_off_dt_struct h))"
  "header_field (common_header h @ r) 12 = Done (unat (fh_off_dt_strings h))"
  "header_field (common_header h @ r) 16 = Done (unat (fh_off_mem_rsvmap h))"
  "header_field (common_header h @ r) 20 = Done (unat (fh_version h))"
  "header_field (common_header h @ r) 28 = Done (unat (fh_boot_cpuid_phys h))"
  "header_field (common_header h @ r) 32 = Done (unat (fh_size_dt_strings h))"
proof -
  let ?a = "be32 (fh_magic h)" and ?b = "be32 (fh_totalsize h)" and ?c = "be32 (fh_off_dt_struct h)" and ?d = "be32 (fh_off_dt_strings h)"
    and ?e = "be32 (fh_off_mem_rsvmap h)" and ?f = "be32 (fh_version h)" and ?g = "be32 (fh_last_comp_version h)"
    and ?h = "be32 (fh_boot_cpuid_phys h)"
  show "header_field (common_header h @ r) 4 = Done (unat (fh_totalsize h))"
    unfolding common_header_def append_assoc by (rule header_at) simp
  show "header_field (common_header h @ r) 8 = Done (unat (fh_off_dt_struct h))"
    unfolding common_header_def using header_at [of "?a @ ?b" 8] by simp
  show "header_field (common_header h @ r) 12 = Done (unat (fh_off_dt_strings h))"
    unfolding common_header_def using header_at [of "?a @ ?b @ ?c" 12] by simp
  show "header_field (common_header h @ r) 16 = Done (unat (fh_off_mem_rsvmap h))"
    unfolding common_header_def using header_at [of "?a @ ?b @ ?c @ ?d" 16] by simp
  show "header_field (common_header h @ r) 20 = Done (unat (fh_version h))"
    unfolding common_header_def using header_at [of "?a @ ?b @ ?c @ ?d @ ?e" 20] by simp
  show "header_field (common_header h @ r) 28 = Done (unat (fh_boot_cpuid_phys h))"
    unfolding common_header_def using header_at [of "?a @ ?b @ ?c @ ?d @ ?e @ ?f @ ?g" 28] by simp
  show "header_field (common_header h @ r) 32 = Done (unat (fh_size_dt_strings h))"
    unfolding common_header_def using header_at [of "?a @ ?b @ ?c @ ?d @ ?e @ ?f @ ?g @ ?h" 32] by simp
qed

text \<open>A version that this program writes without the flags of the old ones.\<close>

definition new_version :: "nat \<Rightarrow> version_info \<Rightarrow> bool" where
  "new_version v vi \<longleftrightarrow> find_version v = Some vi \<and> 16 \<le> v"

lemma new_versionE:
  assumes "new_version v vi"
  shows "vi_version vi = v" "v = 16 \<or> v = 17" "vi_hdr_size vi = 36 \<or> vi_hdr_size vi = 40"
    "\<not> FTF_FULLPATH (vi_flags vi)" "\<not> FTF_VARALIGN (vi_flags vi)" "\<not> FTF_NAMEPROPS (vi_flags vi)"
    "FTF_BOOTCPUID (vi_flags vi)" "FTF_STRTABSIZE (vi_flags vi)"
  using assms
  by (auto simp: new_version_def find_version_def version_table_def flags_of_def FDT_V3_SIZE_def FDT_V17_SIZE_def FDT_V2_SIZE_def FDT_V1_SIZE_def
      split: if_splits)

lemma header_prefix:
  assumes "new_version v vi"
  shows "\<exists>q. take (vi_hdr_size vi) (header_bytes h) @ replicate (pad_to 8 (length (take (vi_hdr_size vi) (header_bytes h)))) 0 = common_header h @ q \<and>
    length q = 4"
  using new_versionE(3) [OF assms]
proof
  assume "vi_hdr_size vi = 36"
  then show ?thesis by (intro exI [of _ "replicate 4 0"]) (simp add: header_bytes_common pad_to_def)
next
  assume "vi_hdr_size vi = 40"
  then show ?thesis by (intro exI [of _ "be32 (fh_size_dt_struct h)"]) (simp add: header_bytes_common pad_to_def)
qed

section \<open>Reading a blob\<close>

text \<open>Where the header says things are.\<close>

definition describes :: "fdt_header \<Rightarrow> nat \<Rightarrow> nat \<Rightarrow> nat \<Rightarrow> nat \<Rightarrow> nat \<Rightarrow> bool" where
  "describes h v r d s tsz \<longleftrightarrow> unat (fh_totalsize h) = tsz \<and> unat (fh_off_dt_struct h) = 40 + r \<and>
     unat (fh_off_dt_strings h) = 40 + r + d \<and> unat (fh_off_mem_rsvmap h) = 40 \<and> unat (fh_version h) = v \<and>
     unat (fh_size_dt_strings h) = s \<and> 40 + r + d + s \<le> tsz"

lemma replicate_16: "replicate (16 * n) 0 @ replicate 16 0 @ r = replicate 16 0 @ replicate (16 * n) (0 :: u8) @ r"
proof -
  have "replicate (16 * n) (0 :: u8) @ replicate 16 0 = replicate 16 0 @ replicate (16 * n) 0"
    by (simp only: replicate_add [symmetric] add.commute)
  then show ?thesis by (metis append_assoc)
qed

lemma blob_read:
  assumes h: "describes h v (16 * length rs + 16 * n + 16) (length st + 4) (length t) tsz" and v: "16 \<le> v"
    and m: "m = common_header h @ q @ concat (map reserve_bytes rs) @ replicate (16 * n) 0 @ replicate 16 0 @ (st @ be32 FDT_END) @ t @ post"
    and q: "length q = 4" and rs: "\<forall>r\<in>set rs. re_size r \<noteq> 0"
    and t: "tree_spec tree t st" "tree_ok tree" "props_fit tree" "fits (length t)" and fuel: "length m < fuel"
  shows "dt_from_mem fuel m memsize = Done (build_dt_info DTSF_V1 (map clean_reserve rs) (clean tree) (fh_boot_cpuid_phys h))"
proof -
  let ?r = "16 * length rs + 16 * n + 16"
  have hd: "header_field m 4 = Done tsz" "header_field m 8 = Done (40 + ?r)" "header_field m 12 = Done (40 + ?r + (length st + 4))"
    "header_field m 16 = Done 40" "header_field m 20 = Done v" "header_field m 28 = Done (unat (fh_boot_cpuid_phys h))"
    "header_field m 32 = Done (length t)"
    using h unfolding m header_fields describes_def by simp_all
  have lim: "40 + ?r + (length st + 4) + length t \<le> tsz" using h by (simp add: describes_def)
  have "drop 40 m = concat (map reserve_bytes rs) @ replicate (16 * n) 0 @ replicate 16 0 @ (st @ be32 FDT_END) @ t @ post"
    unfolding m using q by simp
  then have d40: "drop (ib_ptr (inbuf_init 40 tsz)) m =
      concat (map reserve_bytes rs) @ replicate 16 0 @ (replicate (16 * n) 0 @ (st @ be32 FDT_END) @ t @ post)"
    unfolding replicate_16 by (simp add: inbuf_init_def)
  have res: "flat_read_mem_reserve m (inbuf_init 40 tsz) [] = Done (map clean_reserve rs)"
    using read_reserves [OF d40 rs, of "[]"] lim by (simp add: inbuf_init_def)
  obtain b1 where b1: "st = be32 FDT_BEGIN_NODE @ b1" "node_spec t tree b1" using t(1) by (auto simp: tree_spec_def)
  let ?db = "inbuf_init (40 + ?r) tsz" and ?sb = "inbuf_init (40 + ?r + (length st + 4)) (40 + ?r + (length st + 4) + length t)"
  have "drop (40 + ?r) m = st @ be32 FDT_END @ t @ post" unfolding m using q by simp
  then have s0: "sees m ?db (be32 FDT_BEGIN_NODE @ (b1 @ (be32 FDT_END @ [])))"
    using lim b1(1) by (simp add: sees_def inbuf_init_def)
  have "drop (40 + ?r + (length st + 4)) m = t @ post" unfolding m using q by simp
  then have "holds_table m ?sb t" using t(4) by (simp add: holds_table_def inbuf_init_def)
  then have tr: "tree_read m ?sb t tree b1" by (rule tree_reads [OF b1(2) t(2,3)])
  have s1: "sees m (advance ?db 4) (b1 @ (be32 FDT_END @ []))" using sees_after [OF s0] by simp
  have "tags tree \<le> fuel" using tr fuel b1(1) unfolding m by (simp add: tree_read_def)
  then have ut: "unflatten_tree fuel m False ?sb [] (advance ?db 4) = Done (clean tree, advance (advance ?db 4) (length b1))"
    using tr s1 unfolding tree_read_def by blast
  have s2: "sees m (advance (advance ?db 4) (length b1)) (be32 FDT_END @ [])"
    using sees_after [OF s1] tr by (simp add: tree_read_def)
  have old: "(v < 16) = False" "(v \<ge> 3) = True" using v by simp_all
  show ?thesis
    unfolding dt_from_mem_def hd dbind_simps Let_def old if_True res read_word [OF s0] ut read_word [OF s2]
      split_conv simp_thms if_False
    by (simp add: ut read_word [OF s2])
qed

section \<open>Writing a blob\<close>

lemma props_fit_room: "fits (room n) \<Longrightarrow> props_fit n"
proof (induction n)
  case (Node del nm ps cs fp bl ph ls)
  have p: "prop_room p \<le> sum_list (map prop_room ps)" if "p \<in> set ps" for p using that member_le_sum_list [of "prop_room p" "map prop_room ps"] by simp
  have c: "room c \<le> sum_list (map (\<lambda>c. if nd_deleted c then 0 else room c) cs)" if "c \<in> set cs" "\<not> nd_deleted c" for c
    using that member_le_sum_list [of "room c" "map (\<lambda>c. if nd_deleted c then 0 else room c) cs"] by force
  show ?case
  proof (simp only: props_fit.simps, intro conjI ballI impI)
    fix p assume "p \<in> set ps" "\<not> pr_deleted p"
    then show "fits (d_len (pr_val p))" using p by (intro fits_mono [OF Node(2)]) (fastforce simp: prop_room_def)
  next
    fix c' assume "c' \<in> set cs" "\<not> nd_deleted c'"
    then show "props_fit c'" using c by (intro Node(1) fits_mono [OF Node(2)]) fastforce+
  qed
qed

lemma header_describes:
  assumes "new_version v vi" and "fits (40 + (R + 16) + D + S + nat padlen)"
  shows "describes (let h = make_fdt_header vi R D S cpu in if padlen > 0 then h\<lparr>fh_totalsize := fh_totalsize h + word_of_int padlen\<rparr> else h)
    v (R + 16) D S (40 + (R + 16) + D + S + nat padlen)"
proof -
  have al: "nat (ALIGN (int (vi_hdr_size vi)) 8) = 40"
    using new_versionE(3) [OF assms(1)] ALIGN_pad [of 8 36] ALIGN_pad [of 8 40] by (auto simp: pad_to_def)
  have vv: "vi_version vi = v" "v \<le> 17" "FTF_STRTABSIZE (vi_flags vi)" using new_versionE [OF assms(1)] by auto
  have un: "unat (word_of_nat k :: u32) = k" if "k \<le> 40 + (R + 16) + D + S + nat padlen" for k
    using assms(2) that by (simp add: fits_def unat_of_nat)
  let ?h = "make_fdt_header vi R D S cpu" and ?n = "40 + (R + 16) + D + S"
  have tot: "fh_totalsize ?h = word_of_nat ?n" using al by (simp add: make_fdt_header_def Let_def del: of_nat_add)
  have ad: "word_of_nat a + word_of_int padlen = (word_of_nat (a + nat padlen) :: u32)" if "padlen > 0" for a
    using that by (simp flip: of_nat_nat)
  have rest: "unat (fh_off_dt_struct ?h) = 40 + (R + 16)" "unat (fh_off_dt_strings ?h) = 40 + (R + 16) + D" "unat (fh_off_mem_rsvmap ?h) = 40"
    "unat (fh_version ?h) = v" "unat (fh_size_dt_strings ?h) = S"
  proof -
    have "unat (word_of_nat v :: u32) = v" using vv(2) by (simp add: unat_of_nat)
    moreover note un [of "40 + (R + 16)"] un [of "40 + (R + 16) + D"] un [of 40] un [of S]
    ultimately show "unat (fh_off_dt_struct ?h) = 40 + (R + 16)" "unat (fh_off_dt_strings ?h) = 40 + (R + 16) + D" "unat (fh_off_mem_rsvmap ?h) = 40"
      "unat (fh_version ?h) = v" "unat (fh_size_dt_strings ?h) = S"
      using al vv by (simp_all add: make_fdt_header_def Let_def del: of_nat_add)
  qed
  show ?thesis
  proof (cases "padlen > 0")
    case True
    have "unat (word_of_nat ?n + word_of_int padlen :: u32) = ?n + nat padlen" unfolding ad [OF True] by (rule un) simp
    then show ?thesis using True rest by (simp add: describes_def tot Let_def)
  next
    case False
    have "unat (word_of_nat ?n :: u32) = ?n" by (rule un) simp
    then show ?thesis using False rest by (simp add: describes_def tot Let_def)
  qed
qed

text \<open>
  The settings are bounded by what they may add, the tree by its room; the maps and the strings
  then fit into a blob that the reader takes apart into the same tree.
\<close>

lemma blob_written:
  assumes v: "new_version v vi" and ok: "tree_ok (dt_tree dti)" "\<not> nd_deleted (dt_tree dti)"
    and pad: "\<And>w. blob_padding opts w \<le> int P"
    and ft: "fits (68 + 16 * length (dt_reservelist dti) + 16 * reservenum opts + 2 * room (dt_tree dti) + P)"
  shows "\<exists>h q st t pl. dt_to_mem opts dti v = Done (common_header h @ q @ concat (map reserve_bytes (dt_reservelist dti)) @
      replicate (16 * reservenum opts) 0 @ replicate 16 0 @ (st @ be32 FDT_END) @ t @ replicate pl 0) \<and>
    describes h v (16 * length (dt_reservelist dti) + 16 * reservenum opts + 16) (length st + 4) (length t)
      (60 + 16 * length (dt_reservelist dti) + 16 * reservenum opts + length st + length t + pl) \<and>
    length q = 4 \<and> tree_spec (dt_tree dti) t st \<and> fits (length t) \<and> fh_boot_cpuid_phys h = dt_boot_cpuid_phys dti"
proof -
  let ?T = "dt_tree dti" and ?rs = "dt_reservelist dti"
  let ?R = "16 * length ?rs + 16 * reservenum opts"
  have fl: "\<not> FTF_FULLPATH (vi_flags vi)" "\<not> FTF_NAMEPROPS (vi_flags vi)" "\<not> FTF_VARALIGN (vi_flags vi)" using new_versionE [OF v] by auto
  have bo: "bufs_ok (empty_data, empty_data) (room ?T)"
    unfolding bufs_ok_def using fits_mono [OF ft, of "room ?T"] by (simp add: empty_data_def table_ok_def)
  obtain b t st where w: "flatten_tree (vi_flags vi) ?T (empty_data, empty_data) = Done b" "d_val (fst b) = st" "d_val (snd b) = t"
    "length st \<le> room ?T" "length t \<le> room ?T" "tree_spec ?T t st"
    using flatten_tree_writes [OF fl ok bo] by (auto simp: writes_def empty_data_def)
  have "fits (d_len (fst b) + 4)" by (rule fits_mono [OF ft]) (use w in simp)
  from data_append_cell_gives [OF this, of FDT_END] obtain e where e: "bin_emit_cell (fst b) FDT_END = Done e" "d_val e = st @ be32 FDT_END"
    using w(2) by (auto simp: gives_def bin_emit_cell_def)
  have "fits ?R" by (rule fits_mono [OF ft]) simp
  from flatten_reserve_list_gives [OF this] obtain rb where rb: "flatten_reserve_list opts ?rs = Done rb"
    "d_val rb = concat (map reserve_bytes ?rs) @ replicate (16 * reservenum opts) 0" by (auto simp: gives_def)
  have lens: "d_len rb = ?R" "d_len e = length st + 4" "d_len (snd b) = length t" using rb(2) e(2) w(3) by simp_all
  define h0 where "h0 = make_fdt_header vi ?R (length st + 4) (length t) (dt_boot_cpuid_phys dti)"
  define pl where "pl = blob_padding opts (fh_totalsize h0)"
  define h where "h = (if pl > 0 then h0\<lparr>fh_totalsize := fh_totalsize h0 + word_of_int pl\<rparr> else h0)"
  have plP: "nat pl \<le> P" unfolding pl_def using pad [of "fh_totalsize h0"] by simp
  have ft2: "fits (40 + (?R + 16) + (length st + 4) + length t + nat pl)" by (rule fits_mono [OF ft]) (use w(4,5) plP in simp)
  have sz: "40 + (?R + 16) + (length st + 4) + length t + nat pl = 60 + ?R + length st + length t + nat pl" by simp
  from header_describes [OF v ft2, of "dt_boot_cpuid_phys dti"] have de: "describes h v (?R + 16) (length st + 4) (length t) (60 + ?R + length st + length t + nat pl)"
    unfolding sz h_def h0_def Let_def .
  have cpu: "fh_boot_cpuid_phys h = dt_boot_cpuid_phys dti"
    using new_versionE(7) [OF v] by (simp add: h_def h0_def make_fdt_header_def Let_def)
  let ?hd = "take (vi_hdr_size vi) (header_bytes h)"
  obtain q where q: "?hd @ replicate (pad_to 8 (length ?hd)) 0 = common_header h @ q" "length q = 4" using header_prefix [OF v] by blast
  have hl: "length ?hd \<le> 40" by (simp add: header_bytes_common)
  have "fits (length ?hd + 8 + d_len rb + 16 + d_len e + d_len (snd b) + nat pl)"
    by (rule fits_mono [OF ft]) (use w(4,5) plP hl in \<open>simp add: lens\<close>)
  note parts = blob_parts [OF this]
  have h0: "make_fdt_header vi (d_len rb) (d_len e) (d_len (snd b)) (dt_boot_cpuid_phys dti) = h0" by (simp add: h0_def lens)
  have vi: "find_version v = Some vi" using v by (simp add: new_version_def)
  obtain fb sb where bb: "b = (fb, sb)" by (cases b)
  from parts have "dt_to_mem opts dti v = Done (?hd @ replicate (pad_to 8 (length ?hd)) 0 @ d_val rb @ replicate 16 0 @ d_val e @ d_val (snd b) @ replicate (nat pl) 0)"
    using e(1) h0 unfolding dt_to_mem_def vi option.case w(1) dbind_simps bb split_conv fst_conv snd_conv
    by (simp only: dbind_simps rb(1) Let_def pl_def [symmetric] h_def [symmetric])
  also have "\<dots> = Done (common_header h @ q @ concat (map reserve_bytes ?rs) @ replicate (16 * reservenum opts) 0 @ replicate 16 0 @ (st @ be32 FDT_END) @ t @ replicate (nat pl) 0)"
    using q(1) rb(2) e(2) w(3) by (metis append_assoc)
  finally show ?thesis using de q(2) w(6) cpu fits_mono [OF ft, of "length t"] w(5)
    by (intro exI [of _ h] exI [of _ q] exI [of _ st] exI [of _ t] exI [of _ "nat pl"]) (simp add: ac_simps)
qed

end
