(* ===== verification/Dt_Source.thy ===== *)
theory Dt_Source
  imports Dt_Live Bxxt_Text
begin

text \<open>
  A device tree as source text (libdtc/treesource.c), and the reading of the escapes in its
  strings (libdtc/data.c, libdtc/util.c). What goes to the file is the list of bytes that
  is returned.
\<close>

section \<open>Characters\<close>

definition c_isprint :: "u8 \<Rightarrow> bool" where
  "c_isprint b \<longleftrightarrow> 32 \<le> b \<and> b \<le> 126"

definition isstring :: "u8 \<Rightarrow> bool" where
  "isstring c \<longleftrightarrow> c_isprint c \<or> c = 0 \<or> 7 \<le> c \<and> c \<le> 13"

definition write_prefix :: "nat \<Rightarrow> bytes" where
  "write_prefix level = replicate level 9"

definition print_hex :: "nat \<Rightarrow> bytes" where
  "print_hex n = c_bytes (print_x n)"

definition print_hex_pad :: "nat \<Rightarrow> nat \<Rightarrow> bytes" where
  "print_hex_pad w n = c_bytes (pad0 w (print_x n))"

text \<open>One character of a string: the letter of its escape, the character itself, or its code.\<close>

definition escape_letter :: "u8 \<Rightarrow> u8 option" where
  "escape_letter c =
     (if c = 7 then Some 97 else if c = 8 then Some 98 else if c = 9 then Some 116 else if c = 10 then Some 110
      else if c = 11 then Some 118 else if c = 12 then Some 102 else if c = 13 then Some 114
      else if c = 92 then Some 92 else if c = 34 then Some 34 else None)"

definition escape_byte :: "u8 \<Rightarrow> bytes" where
  "escape_byte c =
     (case escape_letter c of Some l \<Rightarrow> [92, l]
      | None \<Rightarrow> if c_isprint c then [c] else [92, 120] @ print_hex_pad 2 (unat c))"

section \<open>Labels inside a value\<close>

text \<open>
  The loops over the marks in front of a place: which offsets they pass, and what they
  assert of those of labels.
\<close>

fun run_labels :: "(nat \<Rightarrow> bool) \<Rightarrow> (nat \<Rightarrow> bool) \<Rightarrow> marker list \<Rightarrow> (bytes \<times> marker list) dres" where
  "run_labels go ok [] = Done ([], [])"
| "run_labels go ok (m # ms) =
     (if \<not> go (mk_offset m) then Done ([], m # ms)
      else if mk_type m \<noteq> LABEL then run_labels go ok ms
      else if \<not> ok (mk_offset m) then Die
      else dbind (run_labels go ok ms) (\<lambda>(out, r). Done (mk_ref m @ c_bytes '': '' @ out, r)))"

fun end_labels :: "nat \<Rightarrow> marker list \<Rightarrow> bytes dres" where
  "end_labels len [] = Done []"
| "end_labels len (m # ms) =
     (if mk_type m \<noteq> LABEL then end_labels len ms
      else if mk_offset m \<noteq> len then Die
      else dbind (end_labels len ms) (\<lambda>out. Done (c_bytes '' '' @ mk_ref m @ c_bytes '':'' @ out)))"

section \<open>Values\<close>

fun string_body :: "nat \<Rightarrow> bytes \<Rightarrow> marker list \<Rightarrow> (bytes \<times> marker list) dres" where
  "string_body i [] ms = Done ([], ms)"
| "string_body i (c # cs) ms =
     (if c = 0 then
        dbind (run_labels (\<lambda>n. n \<le> i + 1) (\<lambda>n. n = i + 1) ms) (\<lambda>(lb, r).
        dbind (string_body (i + 1) cs r) (\<lambda>(out, q). Done ([34, 44, 32] @ lb @ [34] @ out, q)))
      else dbind (string_body (i + 1) cs ms) (\<lambda>(out, q). Done (escape_byte c @ out, q)))"

definition write_propval_string :: "dt_data \<Rightarrow> bytes dres" where
  "write_propval_string v =
     (if d_val v = [] then Fault Oob_Read
      else if last (d_val v) \<noteq> 0 then Die
      else
        dbind (run_labels (\<lambda>n. n = 0) (\<lambda>n. True) (d_markers v)) (\<lambda>(lb, r).
        dbind (string_body 0 (butlast (d_val v)) r) (\<lambda>(out, q).
        dbind (end_labels (d_len v) q) (\<lambda>tl. Done (lb @ [34] @ out @ [34] @ tl)))))"

text \<open>The loop over the cells has its test behind the reading.\<close>

function cells_body :: "nat \<Rightarrow> bytes \<Rightarrow> marker list \<Rightarrow> (bytes \<times> marker list) dres" where
  "cells_body i bs ms =
     dbind (run_labels (\<lambda>n. n \<le> i) (\<lambda>n. n = i) ms) (\<lambda>(lb, r).
     if length bs < 4 then Fault Oob_Read
     else
       let out = lb @ c_bytes ''0x'' @ print_hex (unat (rd_be32 (take 4 bs))); rest = drop 4 bs in
       if rest = [] then Done (out, r)
       else dbind (cells_body (i + 4) rest r) (\<lambda>(more, q). Done (out @ c_bytes '' '' @ more, q)))"
  by pat_completeness auto
termination by (relation "measure (\<lambda>(i, bs, ms). length bs)") auto

declare cells_body.simps [simp del]

definition write_propval_cells :: "dt_data \<Rightarrow> bytes dres" where
  "write_propval_cells v =
     dbind (cells_body 0 (d_val v) (d_markers v)) (\<lambda>(out, q).
     dbind (end_labels (d_len v) q) (\<lambda>tl. Done (c_bytes ''<'' @ out @ tl @ c_bytes ''>'')))"

fun bytes_body :: "nat \<Rightarrow> bytes \<Rightarrow> marker list \<Rightarrow> (bytes \<times> marker list) dres" where
  "bytes_body i [] ms = dbind (run_labels (\<lambda>n. n = i) (\<lambda>n. True) ms) (\<lambda>_. Fault Oob_Read)"
| "bytes_body i (b # bs) ms =
     dbind (run_labels (\<lambda>n. n = i) (\<lambda>n. True) ms) (\<lambda>(lb, r).
     let out = lb @ print_hex_pad 2 (unat b) in
     if bs = [] then Done (out, r)
     else dbind (bytes_body (i + 1) bs r) (\<lambda>(more, q). Done (out @ c_bytes '' '' @ more, q)))"

definition write_propval_bytes :: "dt_data \<Rightarrow> bytes dres" where
  "write_propval_bytes v =
     dbind (bytes_body 0 (d_val v) (d_markers v)) (\<lambda>(out, q).
     dbind (end_labels (d_len v) q) (\<lambda>tl. Done (c_bytes ''['' @ out @ tl @ c_bytes '']'')))"

definition write_propval :: "dt_data \<Rightarrow> bytes dres" where
  "write_propval v =
     (let len = d_len v; lbs = filter (\<lambda>m. mk_type m = LABEL) (d_markers v);
          nnotstring = length (filter (\<lambda>c. \<not> isstring c) (d_val v)); nnul = length (filter (\<lambda>c. c = 0) (d_val v)) in
      if len = 0 then Done (c_bytes '';'' @ [10])
      else if \<exists>m\<in>set lbs. mk_offset m > len then Fault Oob_Read
      else
        let nnotstringlbl = length (filter (\<lambda>m. mk_offset m > 0 \<and> d_val v ! (mk_offset m - 1) \<noteq> 0) lbs);
            nnotcelllbl = length (filter (\<lambda>m. mk_offset m mod 4 \<noteq> 0) lbs) in
        dbind (if last (d_val v) = 0 \<and> nnotstring = 0 \<and> nnul < len - nnul \<and> nnotstringlbl = 0 then write_propval_string v
               else if len mod 4 = 0 \<and> nnotcelllbl = 0 then write_propval_cells v
               else write_propval_bytes v)
          (\<lambda>out. Done (c_bytes '' = '' @ out @ c_bytes '';'' @ [10])))"

section \<open>Nodes\<close>

definition label_texts :: "dt_label list \<Rightarrow> bytes" where
  "label_texts ls = concat (map (\<lambda>l. lb_text l @ c_bytes '': '') (filter (\<lambda>l. \<not> lb_deleted l) ls))"

fun props_source :: "nat \<Rightarrow> dt_property list \<Rightarrow> bytes dres" where
  "props_source level [] = Done []"
| "props_source level (p # ps) =
     (if pr_deleted p then props_source level ps
      else
        dbind (write_propval (pr_val p)) (\<lambda>v.
        dbind (props_source level ps) (\<lambda>more.
        Done (write_prefix (level + 1) @ label_texts (pr_labels p) @ pr_name p @ v @ more))))"

fun write_tree_source_node :: "dt_node \<Rightarrow> nat \<Rightarrow> bytes dres"
and children_source :: "dt_node list \<Rightarrow> nat \<Rightarrow> bytes dres" where
  "write_tree_source_node (Node d nm ps cs fp bl ph ls) level =
     dbind (props_source level ps) (\<lambda>pt.
     dbind (children_source cs level) (\<lambda>ct.
     Done (write_prefix level @ label_texts ls @ (if nm \<noteq> [] then nm else c_bytes ''/'') @ c_bytes '' {'' @ [10] @ pt @ ct @
       write_prefix level @ c_bytes ''};'' @ [10])))"
| "children_source [] level = Done []"
| "children_source (c # cs) level =
     (if nd_deleted c then children_source cs level
      else
        dbind (write_tree_source_node c (level + 1)) (\<lambda>t.
        dbind (children_source cs level) (\<lambda>more. Done ([10] @ t @ more))))"

definition reserve_source :: "reserve_info \<Rightarrow> bytes" where
  "reserve_source r = label_texts (re_labels r) @ c_bytes ''/memreserve/'' @ [9] @ c_bytes ''0x'' @ print_hex_pad 16 (unat (re_address r)) @
     c_bytes '' 0x'' @ print_hex_pad 16 (unat (re_size r)) @ c_bytes '';'' @ [10]"

definition dt_to_source :: "dt_info \<Rightarrow> bytes dres" where
  "dt_to_source dti =
     dbind (write_tree_source_node (dt_tree dti) 0) (\<lambda>t.
     Done (c_bytes ''/dts-v1/;'' @ [10, 10] @ concat (map reserve_source (dt_reservelist dti)) @ t))"

section \<open>Reading escapes\<close>

text \<open>\<open>strtol\<close> on a few bytes: the value and how many of them it took.\<close>

definition digit_of :: "nat \<Rightarrow> u8 \<Rightarrow> nat option" where
  "digit_of base b = (case hex_val (chr_of_byte b) of Some d \<Rightarrow> if d < base then Some d else None | None \<Rightarrow> None)"

definition c_strtol :: "nat \<Rightarrow> bytes \<Rightarrow> int \<times> nat" where
  "c_strtol base s =
     (let r = dropWhile (\<lambda>b. c_isspace (chr_of_byte b)) s;
          neg = (r \<noteq> [] \<and> hd r = 45);
          r = (if r \<noteq> [] \<and> (hd r = 45 \<or> hd r = 43) then tl r else r);
          r = (if base = 16 \<and> length r \<ge> 3 \<and> r ! 0 = 48 \<and> (r ! 1 = 120 \<or> r ! 1 = 88) \<and> digit_of base (r ! 2) \<noteq> None then drop 2 r else r);
          ds = takeWhile (\<lambda>b. digit_of base b \<noteq> None) r;
          v = foldl (\<lambda>a b. a * int base + int (the (digit_of base b))) 0 ds
      in if ds = [] then (0, 0) else (if neg then - v else v, length s - length r + length ds))"

text \<open>\<open>strncpy\<close> of \<open>n\<close> bytes of a string that starts at \<open>i\<close>.\<close>

definition peek :: "bytes \<Rightarrow> nat \<Rightarrow> nat \<Rightarrow> bytes dres" where
  "peek s i n =
     (let x = cstr (take n (drop i s)) in
      if length x < n \<and> i + length x \<ge> length s then Fault Oob_Read else Done x)"

definition get_oct_char :: "bytes \<Rightarrow> nat \<Rightarrow> (u8 \<times> nat) dres" where
  "get_oct_char s i =
     dbind (peek s i 3) (\<lambda>x. let (v, k) = c_strtol 8 x in if k = 0 then Die else Done (word_of_int v, i + k))"

definition get_hex_char :: "bytes \<Rightarrow> nat \<Rightarrow> (u8 \<times> nat) dres" where
  "get_hex_char s i =
     dbind (peek s i 2) (\<lambda>x. let (v, k) = c_strtol 16 x in if k = 0 then Die else Done (word_of_int v, i + k))"

definition get_escape_char :: "bytes \<Rightarrow> nat \<Rightarrow> (u8 \<times> nat) dres" where
  "get_escape_char s i =
     (if i \<ge> length s then Fault Oob_Read
      else
        let c = s ! i; j = i + 1 in
        if c = 97 then Done (7, j) else if c = 98 then Done (8, j) else if c = 116 then Done (9, j)
        else if c = 110 then Done (10, j) else if c = 118 then Done (11, j) else if c = 102 then Done (12, j)
        else if c = 114 then Done (13, j)
        else if 48 \<le> c \<and> c \<le> 55 then get_oct_char s (j - 1)
        else if c = 120 then get_hex_char s j
        else Done (c, j))"

lemma get_char_on: "get_oct_char s i = Done (c, j) \<Longrightarrow> i < j" "get_hex_char s i = Done (c, j) \<Longrightarrow> i < j"
proof -
  show "get_oct_char s i = Done (c, j) \<Longrightarrow> i < j"
    by (cases "c_strtol 8 (cstr (take 3 (drop i s)))") (auto simp: get_oct_char_def peek_def Let_def split: if_splits)
  show "get_hex_char s i = Done (c, j) \<Longrightarrow> i < j"
    by (cases "c_strtol 16 (cstr (take 2 (drop i s)))") (auto simp: get_hex_char_def peek_def Let_def split: if_splits)
qed

lemma get_escape_char_on: "get_escape_char s i = Done (c, j) \<Longrightarrow> i < j"
  using get_char_on [of s i c j] get_char_on [of s "i + 1" c j]
  by (auto simp: get_escape_char_def Let_def split: if_splits)

function escape_loop :: "bytes \<Rightarrow> nat \<Rightarrow> nat \<Rightarrow> dt_data \<Rightarrow> dt_data dres" where
  "escape_loop s len i d =
     (if i < len then
        if i \<ge> length s then Fault Oob_Read
        else
          dbind (if s ! i = 92 then get_escape_char s (i + 1) else Done (s ! i, i + 1)) (\<lambda>(c, j).
          dbind (data_put d [c]) (\<lambda>d. escape_loop s len j d))
      else data_put d [0])"
  by pat_completeness auto
termination
proof (relation "measure (\<lambda>(s, len, i, d). len - i)", goal_cases)
  case (2 s len i d c j x)
  then show ?case using get_escape_char_on [of s "i + 1"] by (fastforce split: if_splits)
qed simp

declare escape_loop.simps [simp del]

definition data_copy_escape_string :: "bytes \<Rightarrow> nat \<Rightarrow> dt_data dres" where
  "data_copy_escape_string s len = dbind (data_grow_for empty_data (int len + 1)) (escape_loop s len 0)"

end
