(* ===== verification/Dt_Source_Correct.thy ===== *)
theory Dt_Source_Correct
  imports Dt_Source Dt_Unflat_Total
begin

text \<open>
  Strings survive printing and reading, and what was read from a blob can always be
  printed: it carries no marks, so that no assertion about them can fail.
\<close>

section \<open>Strings\<close>

definition string_char :: "u8 \<Rightarrow> bool" where
  "string_char c \<longleftrightarrow> c \<noteq> 0 \<and> isstring c"

definition escaped :: "bytes \<Rightarrow> bytes" where
  "escaped s = concat (map escape_byte s)"

lemma escape_letter_cases:
  "escape_letter c = Some l \<Longrightarrow> (c, l) \<in> {(7, 97), (8, 98), (9, 116), (10, 110), (11, 118), (12, 102), (13, 114), (92, 92), (34, 34)}"
  by (auto simp: escape_letter_def split: if_splits)

lemma control_char: "7 \<le> c \<Longrightarrow> c \<le> 13 \<Longrightarrow> c \<in> {7, 8, 9, 10, 11, 12, 13 :: u8}"
proof -
  assume "7 \<le> c" "c \<le> 13"
  then have "7 \<le> unat c" "unat c \<le> 13" by (simp_all add: word_le_nat_alt)
  then have "unat c \<in> {7, 8, 9, 10, 11, 12, 13}" by auto
  then show ?thesis by (simp add: word_unat_eq_iff)
qed

lemma string_char_plain: "string_char c \<Longrightarrow> escape_letter c = None \<Longrightarrow> c_isprint c \<and> c \<noteq> 92"
  using control_char [of c] by (auto simp: string_char_def isstring_def escape_letter_def split: if_splits)

lemma escape_two:
  assumes "escape_letter c = Some l" and "i < length s" and "s ! i = l"
  shows "get_escape_char s i = Done (c, i + 1)"
  using escape_letter_cases [OF assms(1)] assms(2,3) by (auto simp: get_escape_char_def)

lemma data_put_ok: "d_len d + length p \<le> d_cap d \<Longrightarrow> data_put d p = Done (d\<lparr>d_val := d_val d @ p\<rparr>)"
  by (simp add: data_put_def)

lemma escape_loop_reads:
  assumes "\<forall>c\<in>set s. string_char c" and "d_len d \<le> length pre" and "length pre + length (escaped s) < d_cap d"
  shows "\<exists>e. escape_loop (pre @ escaped s @ post) (length pre + length (escaped s)) (length pre) d = Done e \<and>
    d_val e = d_val d @ s @ [0] \<and> d_markers e = d_markers d"
  using assms
proof (induction s arbitrary: pre d)
  case Nil
  then show ?case by (subst escape_loop.simps) (simp add: escaped_def data_put_ok)
next
  case (Cons c s)
  let ?d = "d\<lparr>d_val := d_val d @ [c]\<rparr>" and ?eb = "escape_byte c"
  let ?t = "pre @ escaped (c # s) @ post" and ?n = "length pre + length (escaped (c # s))"
  have e: "escaped (c # s) = ?eb @ escaped s" by (simp add: escaped_def)
  have put: "data_put d [c] = Done ?d" by (rule data_put_ok) (use Cons.prems(2,3) in simp)
  have ne: "?eb \<noteq> []" by (simp add: escape_byte_def split: option.splits)
  have step: "escape_loop ?t ?n (length pre) d = escape_loop ?t ?n (length (pre @ ?eb)) ?d"
  proof (cases "escape_letter c")
    case (Some l)
    then have eb: "?eb = [92, l]" by (simp add: escape_byte_def)
    have "get_escape_char ?t (length pre + 1) = Done (c, length pre + 1 + 1)"
      by (rule escape_two [OF Some]) (simp_all add: e eb nth_append)
    then show ?thesis using put by (subst escape_loop.simps) (simp add: e eb nth_append)
  next
    case None
    then have "c_isprint c" "c \<noteq> 92" using string_char_plain [of c] Cons.prems(1) by simp_all
    then have eb: "?eb = [c]" using None by (simp add: escape_byte_def)
    then show ?thesis using put \<open>c \<noteq> 92\<close> by (subst escape_loop.simps) (simp add: e nth_append)
  qed
  have "\<exists>e'. escape_loop ((pre @ ?eb) @ escaped s @ post) (length (pre @ ?eb) + length (escaped s)) (length (pre @ ?eb)) ?d = Done e' \<and>
      d_val e' = d_val ?d @ s @ [0] \<and> d_markers e' = d_markers ?d"
  proof (rule Cons.IH)
    show "d_len ?d \<le> length (pre @ ?eb)" using Cons.prems(2) ne by (cases ?eb) simp_all
  qed (use Cons.prems in \<open>simp_all add: e\<close>)
  then show ?case unfolding step by (simp add: e add.assoc)
qed

lemma escaped_reads:
  assumes "\<forall>c\<in>set s. string_char c" and "fits (length (escaped s) + 1)"
  shows "gives (data_copy_escape_string (escaped s @ post) (length (escaped s))) (s @ [0]) []"
proof -
  obtain c where c: "data_grow_for empty_data (int (length (escaped s) + 1)) = Done (empty_data\<lparr>d_cap := c\<rparr>)" "length (escaped s) + 1 \<le> c"
    using data_grow_for_fits [of empty_data "length (escaped s) + 1"] assms(2) by (auto simp: empty_data_def)
  have "\<exists>e. escape_loop ([] @ escaped s @ post) (length ([] :: bytes) + length (escaped s)) (length ([] :: bytes)) (empty_data\<lparr>d_cap := c\<rparr>) = Done e \<and>
      d_val e = d_val (empty_data\<lparr>d_cap := c\<rparr>) @ s @ [0] \<and> d_markers e = d_markers (empty_data\<lparr>d_cap := c\<rparr>)"
    by (rule escape_loop_reads [OF assms(1)]) (use c(2) in \<open>simp_all add: empty_data_def\<close>)
  then show ?thesis using c(1) by (auto simp: data_copy_escape_string_def gives_def empty_data_def add.commute)
qed

text \<open>Without marks a string is printed as its parts, each between quotes.\<close>

lemma string_body_plain: "0 \<notin> set s \<Longrightarrow> string_body i s [] = Done (escaped s, [])"
  by (induction s arbitrary: i) (simp_all add: escaped_def)

fun joined :: "bytes list \<Rightarrow> bytes" where
  "joined [] = []"
| "joined [s] = [34] @ escaped s @ [34]"
| "joined (s # t # ss) = [34] @ escaped s @ [34, 44, 32] @ joined (t # ss)"

definition stringlist :: "bytes list \<Rightarrow> bytes" where
  "stringlist ss = concat (map (\<lambda>s. s @ [0]) ss)"

lemma stringlist_simps [simp]: "stringlist [] = []" "stringlist (s # ss) = s @ 0 # stringlist ss"
  by (simp_all add: stringlist_def)

lemma string_body_append:
  "0 \<notin> set s \<Longrightarrow> string_body i (s @ 0 # t) [] = dbind (string_body (i + length s + 1) t []) (\<lambda>(out, q). Done (escaped s @ [34, 44, 32, 34] @ out, q))"
proof (induction s arbitrary: i)
  case Nil
  show ?case by (cases "string_body (Suc i) t []") (auto simp: escaped_def)
next
  case (Cons c s)
  then show ?case by (cases "string_body (Suc (Suc (i + length s))) t []") (auto simp: escaped_def)
qed

lemma string_body_joined:
  "\<forall>s\<in>set ss. 0 \<notin> set s \<Longrightarrow> ss \<noteq> [] \<Longrightarrow> \<exists>out. string_body i (butlast (stringlist ss)) [] = Done (out, []) \<and> [34] @ out @ [34] = joined ss"
proof (induction ss arbitrary: i rule: joined.induct)
  case (2 s)
  then show ?case by (simp add: string_body_plain butlast_append)
next
  case (3 s t ss)
  then obtain out where o: "string_body (i + length s + 1) (butlast (stringlist (t # ss))) [] = Done (out, [])" "[34] @ out @ [34] = joined (t # ss)"
    by fastforce
  have b: "butlast (stringlist (s # t # ss)) = s @ 0 # butlast (stringlist (t # ss))" by (simp add: butlast_append)
  have "0 \<notin> set s" using 3(2) by simp
  from string_body_append [OF this] have "string_body i (butlast (stringlist (s # t # ss))) [] = Done (escaped s @ [34, 44, 32, 34] @ out, [])"
    unfolding b o(1) by (simp only: o(1) dbind_simps split_conv)
  moreover have "[34] @ (escaped s @ [34, 44, 32, 34] @ out) @ [34] = joined (s # t # ss)" using o(2) by simp
  ultimately show ?case by blast
qed simp

lemma write_string_joined:
  assumes "\<forall>s\<in>set ss. 0 \<notin> set s" and "ss \<noteq> []" and "d_val v = stringlist ss" and "d_markers v = []"
  shows "write_propval_string v = Done (joined ss)"
proof -
  obtain out where o: "string_body 0 (butlast (stringlist ss)) [] = Done (out, [])" "[34] @ out @ [34] = joined ss"
    using string_body_joined [OF assms(1,2)] by blast
  have "stringlist ss \<noteq> []" "last (stringlist ss) = 0" using assms(2) by (cases ss rule: rev_cases, simp_all add: stringlist_def)+
  then show ?thesis using o assms(3,4) by (simp add: write_propval_string_def)
qed

section \<open>Trees without marks\<close>

fun plain :: "dt_node \<Rightarrow> bool" where
  "plain (Node d nm ps cs fp bl ph ls) \<longleftrightarrow> (\<forall>p\<in>set ps. d_markers (pr_val p) = []) \<and> (\<forall>c\<in>set cs. plain c) \<and> ls = []"

lemma plain_build: "plain (build_node nm [] [])"
  by (simp add: build_node_def)

lemma plain_property: "plain n \<Longrightarrow> d_markers (pr_val p) = [] \<Longrightarrow> plain (add_property n p)"
  by (cases n) (auto simp: add_property_def)

lemma plain_child: "plain n \<Longrightarrow> plain c \<Longrightarrow> plain (add_child n c)"
  by (cases n) (auto simp: add_child_def)

lemma grow_keeps_marks: "data_grow_for d n = Done e \<Longrightarrow> d_markers e = d_markers d"
  by (auto simp: data_grow_for_def dbind_Done split: if_splits)

lemma read_data_plain: "flat_read_data m inb len = Done (d, i) \<Longrightarrow> d_markers d = []"
  using grow_keeps_marks [of empty_data] by (auto simp: flat_read_data_def dbind_Done empty_data_def split: if_splits)

lemma read_property_plain: "flat_read_property m va inb sb = Done (p, i) \<Longrightarrow> d_markers (pr_val p) = []"
  by (auto simp: flat_read_property_def dbind_Done build_property_def dest: read_data_plain)

lemma unflatten_plain:
  "unflatten_tree k m old sb parent inb = Done (n, i) \<Longrightarrow> plain n"
  "plain node \<Longrightarrow> unflatten_loop k m old sb fn node inb = Done (n, i) \<Longrightarrow> plain n"
proof (induction k m old sb parent inb and k m old sb fn node inb arbitrary: n i and n i rule: unflatten_tree_unflatten_loop.induct)
  case (2 k m old sb parent inb)
  from 2(2) obtain s j nm where s: "flat_read_string m inb = Done (s, j)"
    and nm: "(if old then nodename_from_path parent s else Done s) = Done nm"
    and r: "unflatten_loop k m old sb s (build_node nm [] []) j = Done (n, i)" by (auto simp: dbind_Done)
  show ?case by (rule 2(1) [OF s refl nm plain_build r])
next
  case (4 k m old sb fn node inb)
  from 4(6) obtain v j where w: "flat_read_word m inb = Done (v, j)" by (auto simp: dbind_Done)
  consider "v = FDT_PROP" | "v \<noteq> FDT_PROP" "v = FDT_BEGIN_NODE" | "v \<noteq> FDT_PROP" "v \<noteq> FDT_BEGIN_NODE" by blast
  then show ?case
  proof cases
    case 1
    then obtain p j' where p: "flat_read_property m old j sb = Done (p, j')" and r: "unflatten_loop k m old sb fn (add_property node p) j' = Done (n, i)"
      using 4(6) w by (auto simp: dbind_Done)
    show ?thesis by (rule 4(1) [OF w refl 1 p refl plain_property [OF 4(5) read_property_plain [OF p]] r])
  next
    case 2
    then obtain c j' where c: "unflatten_tree k m old sb fn j = Done (c, j')" and r: "unflatten_loop k m old sb fn (add_child node c) j' = Done (n, i)"
      using 4(6) w by (auto simp: dbind_Done)
    show ?thesis by (rule 4(3) [OF w refl 2 c refl plain_child [OF 4(5) 4(2) [OF w refl 2 c]] r])
  next
    case 3
    then show ?thesis using 4(4) [OF w refl 3] 4(5,6) w by (auto simp: dbind_Done split: if_splits)
  qed
qed simp_all

section \<open>Printing them succeeds\<close>

lemma string_body_total: "\<exists>out. string_body i cs [] = Done (out, [])"
proof (induction cs arbitrary: i)
  case (Cons c cs)
  obtain out where "string_body (i + 1) cs [] = Done (out, [])" using Cons by blast
  then show ?case by (cases "c = 0") simp_all
qed simp

lemma cells_body_total: "bs \<noteq> [] \<Longrightarrow> length bs mod 4 = 0 \<Longrightarrow> \<exists>out. cells_body i bs [] = Done (out, [])"
proof (induction i bs "[] :: marker list" rule: cells_body.induct)
  case (1 i bs)
  have l: "\<not> length bs < 4" using 1(2,3) by (cases "length bs < 4") (auto simp: mod_less)
  show ?case
  proof (cases "drop 4 bs = []")
    case True
    then show ?thesis using l by (subst cells_body.simps) (simp add: Let_def)
  next
    case False
    have "length (drop 4 bs) mod 4 = 0" using 1(3) l by (simp add: le_mod_geq)
    then obtain out where "cells_body (i + 4) (drop 4 bs) [] = Done (out, [])" using 1(1) l False by fastforce
    then show ?thesis using l False by (subst cells_body.simps) (simp add: Let_def)
  qed
qed

lemma bytes_body_total: "bs \<noteq> [] \<Longrightarrow> \<exists>out. bytes_body i bs [] = Done (out, [])"
proof (induction bs arbitrary: i)
  case (Cons b bs)
  show ?case
  proof (cases "bs = []")
    case False
    then obtain out where "bytes_body (i + 1) bs [] = Done (out, [])" using Cons by blast
    then show ?thesis using False by (simp add: Let_def)
  qed (simp add: Let_def)
qed simp

lemma write_propval_total: "d_markers v = [] \<Longrightarrow> \<exists>out. write_propval v = Done out"
proof -
  assume m: "d_markers v = []"
  have s: "last (d_val v) = 0 \<Longrightarrow> d_val v \<noteq> [] \<Longrightarrow> \<exists>out. write_propval_string v = Done out"
    using string_body_total [of 0 "butlast (d_val v)"] m by (auto simp: write_propval_string_def)
  have c: "d_val v \<noteq> [] \<Longrightarrow> d_len v mod 4 = 0 \<Longrightarrow> \<exists>out. write_propval_cells v = Done out"
    using cells_body_total [of "d_val v" 0] m by (auto simp: write_propval_cells_def)
  have b: "d_val v \<noteq> [] \<Longrightarrow> \<exists>out. write_propval_bytes v = Done out"
    using bytes_body_total [of "d_val v" 0] m by (auto simp: write_propval_bytes_def)
  show ?thesis using s c b m unfolding write_propval_def Let_def by (auto split: if_splits)
qed

lemma props_source_total: "\<forall>p\<in>set ps. d_markers (pr_val p) = [] \<Longrightarrow> \<exists>out. props_source level ps = Done out"
proof (induction ps)
  case (Cons p ps)
  then obtain a b where "write_propval (pr_val p) = Done a" "props_source level ps = Done b" using write_propval_total by fastforce
  then show ?case by simp
qed simp

lemma tree_source_total: "plain n \<Longrightarrow> \<exists>out. write_tree_source_node n level = Done out"
proof (induction n arbitrary: level)
  case (Node d nm ps cs fp bl ph ls)
  have "\<exists>out. children_source cs level = Done out" using Node.IH Node.prems
  proof (induction cs)
    case (Cons c cs)
    obtain a where "children_source cs level = Done a" using Cons by auto
    moreover obtain b where "write_tree_source_node c (level + 1) = Done b" using Cons.prems by fastforce
    ultimately show ?case by simp
  qed simp
  moreover obtain a where "props_source level ps = Done a" using props_source_total Node.prems by fastforce
  ultimately show ?case by auto
qed

lemma plain_unlabelled: "plain n \<Longrightarrow> nd_labels n = [] \<and> (\<forall>c\<in>set (nd_children n). plain c)"
  by (cases n) simp

end
