(* ===== verification/Dt_Labels.thy ===== *)
theory Dt_Labels
  imports Dt_Live
begin

text \<open>
  What is added to a tree behind its reading: full paths (libdtc/dtc.c), phandles and the
  node of labels (libdtc/livetree.c). The nodes are written in place while the tree is
  walked, so a node is given by the places of the children on the way to it.
\<close>

section \<open>Places\<close>

fun node_at :: "dt_node \<Rightarrow> nat list \<Rightarrow> dt_node option" where
  "node_at t [] = Some t"
| "node_at t (i # is) = (if i < length (nd_children t) then node_at (nd_children t ! i) is else None)"

fun update_at :: "dt_node \<Rightarrow> nat list \<Rightarrow> (dt_node \<Rightarrow> dt_node) \<Rightarrow> dt_node" where
  "update_at t [] f = f t"
| "update_at t (i # is) f =
     (if i < length (nd_children t) then set_children t ((nd_children t)[i := update_at (nd_children t ! i) is f]) else t)"

section \<open>Full paths\<close>

definition join_path :: "bytes \<Rightarrow> bytes \<Rightarrow> bytes" where
  "join_path path nm = (if path \<noteq> [] \<and> last path = 47 then path @ nm else path @ [47] @ nm)"

fun fill_fullpaths :: "dt_node \<Rightarrow> bytes \<Rightarrow> dt_node" where
  "fill_fullpaths (Node d nm ps cs fp bl ph ls) prefix =
     (let full = join_path prefix nm in
      Node d nm ps (map (\<lambda>c. if nd_deleted c then c else fill_fullpaths c full) cs) (Some full)
        (length (takeWhile (\<lambda>b. b \<noteq> 64) nm)) ph ls)"

section \<open>Phandles\<close>

definition PHANDLE_LEGACY :: int where "PHANDLE_LEGACY = 1"
definition PHANDLE_EPAPR :: int where "PHANDLE_EPAPR = 2"

unbundle bit_operations_syntax

text \<open>The loop over the static counter.\<close>

function next_phandle :: "dt_node \<Rightarrow> u32 \<Rightarrow> u32 dres" where
  "next_phandle t ph =
     dbind (get_node_by_phandle t ph) (\<lambda>r. case r of None \<Rightarrow> Done ph | Some _ \<Rightarrow> next_phandle t (ph + 1))"
  by pat_completeness auto
termination
proof (relation "measure (\<lambda>(t, ph). 2 ^ 32 - unat ph)", goal_cases)
  case (2 t ph r n)
  then have "ph \<noteq> - 1" by (auto simp: get_node_by_phandle_def split: if_splits)
  then have "1 + ph \<noteq> 0" by (metis add.commute eq_neg_iff_add_eq_0)
  then have "unat (1 + ph) = Suc (unat ph)" by (rule unatSuc)
  moreover have "unat ph < 2 ^ 32" using unat_lt_u32 [of ph] by simp
  ultimately show ?case by (simp add: add.commute)
qed simp

declare next_phandle.simps [simp del]

definition set_phandle :: "u32 \<Rightarrow> dt_node \<Rightarrow> dt_node" where
  "set_phandle h n =
     Node (nd_deleted n) (nd_name n) (nd_proplist n) (nd_children n) (nd_fullpath n) (nd_basenamelen n) h (nd_labels n)"

definition phandle_property :: "bool \<Rightarrow> bytes \<Rightarrow> u32 \<Rightarrow> dt_node \<Rightarrow> dt_node dres" where
  "phandle_property wanted nm h n =
     (if get_property n nm = None \<and> wanted then
        dbind (data_append_cell empty_data h) (\<lambda>d. Done (add_property n (build_property nm d)))
      else Done n)"

text \<open>The tree and the counter are the state.\<close>

definition get_node_phandle :: "int \<Rightarrow> nat list \<Rightarrow> dt_node \<times> u32 \<Rightarrow> (dt_node \<times> u32) dres" where
  "get_node_phandle fmt path st =
     (case node_at (fst st) path of None \<Rightarrow> Fault Null_Deref
      | Some n \<Rightarrow>
          if nd_phandle n \<noteq> 0 \<and> nd_phandle n \<noteq> - 1 then Done st
          else
            dbind (next_phandle (fst st) (snd st)) (\<lambda>ph.
            dbind (phandle_property (fmt AND PHANDLE_LEGACY \<noteq> 0) (c_bytes ''linux,phandle'') ph (set_phandle ph n)) (\<lambda>n.
            dbind (phandle_property (fmt AND PHANDLE_EPAPR \<noteq> 0) (c_bytes ''phandle'') ph n) (\<lambda>n.
            Done (update_at (fst st) path (\<lambda>_. n), ph)))))"

section \<open>The node of labels\<close>

fun place_of :: "('a \<Rightarrow> bool) \<Rightarrow> 'a list \<Rightarrow> nat" where
  "place_of P [] = 0"
| "place_of P (x # xs) = (if P x then 0 else Suc (place_of P xs))"

definition build_and_name_child_node :: "dt_node \<Rightarrow> bytes \<Rightarrow> dt_node" where
  "build_and_name_child_node parent nm = add_child parent (build_node nm [] [])"

text \<open>The tree with the child, and the place of the child.\<close>

definition build_root_node :: "dt_node \<Rightarrow> bytes \<Rightarrow> dt_node \<times> nat" where
  "build_root_node t nm =
     (case get_subnode t nm of
        Some _ \<Rightarrow> (t, place_of (\<lambda>c. \<not> nd_deleted c \<and> streq (nd_name c) nm) (nd_children t))
      | None \<Rightarrow> (build_and_name_child_node t nm, length (nd_children t)))"

fun any_label_tree :: "dt_node \<Rightarrow> bool" where
  "any_label_tree (Node d nm ps cs fp bl ph ls) \<longleftrightarrow> ls \<noteq> [] \<or> (\<exists>c\<in>set cs. \<not> nd_deleted c \<and> any_label_tree c)"

text \<open>
  The labels of a node whose path is \<open>fp\<close>: those that the node of labels already has are
  passed over with a warning.
\<close>

fun add_label_props :: "nat \<Rightarrow> bytes option \<Rightarrow> dt_label list \<Rightarrow> dt_node \<Rightarrow> dt_node dres" where
  "add_label_props an fp [] t = Done t"
| "add_label_props an fp (l # ls) t =
     (if lb_deleted l then add_label_props an fp ls t
      else
        case node_at t [an] of None \<Rightarrow> Fault Null_Deref
        | Some n \<Rightarrow>
            if get_property n (lb_text l) \<noteq> None then add_label_props an fp ls t
            else
              case fp of None \<Rightarrow> Fault Null_Deref
              | Some p \<Rightarrow>
                  dbind (data_copy_mem (p @ [0])) (\<lambda>d.
                  add_label_props an fp ls (update_at t [an] (\<lambda>n. add_property n (build_property (lb_text l) d)))))"

fun generate_label_tree_internal :: "int \<Rightarrow> nat \<Rightarrow> bool \<Rightarrow> dt_node \<Rightarrow> nat list \<Rightarrow> dt_node \<times> u32 \<Rightarrow> (dt_node \<times> u32) dres"
and label_children :: "int \<Rightarrow> nat \<Rightarrow> bool \<Rightarrow> dt_node list \<Rightarrow> nat list \<Rightarrow> nat \<Rightarrow> dt_node \<times> u32 \<Rightarrow> (dt_node \<times> u32) dres" where
  "generate_label_tree_internal fmt an allocph (Node d nm ps cs fp bl ph ls) path st =
     dbind (if ls \<noteq> [] then
              dbind (add_label_props an fp ls (fst st)) (\<lambda>t.
              if allocph then get_node_phandle fmt path (t, snd st) else Done (t, snd st))
            else Done st)
       (label_children fmt an allocph cs path 0)"
| "label_children fmt an allocph [] path i st = Done st"
| "label_children fmt an allocph (c # cs) path i st =
     dbind (if nd_deleted c then Done st else generate_label_tree_internal fmt an allocph c (path @ [i]) st)
       (label_children fmt an allocph cs path (i + 1))"

definition generate_label_tree :: "int \<Rightarrow> bytes \<Rightarrow> bool \<Rightarrow> dt_info \<times> u32 \<Rightarrow> (dt_info \<times> u32) dres" where
  "generate_label_tree fmt nm allocph st =
     (let (dti, ph) = st in
      if \<not> any_label_tree (dt_tree dti) then Done st
      else
        let (t, an) = build_root_node (dt_tree dti) nm in
        dbind (generate_label_tree_internal fmt an allocph t [] (t, ph)) (\<lambda>(t, ph). Done (dti\<lparr>dt_tree := t\<rparr>, ph)))"

section \<open>Labels without paths\<close>

text \<open>A tree as the parser leaves it: no paths yet, and no label of a node deleted.\<close>

fun unfilled :: "dt_node \<Rightarrow> bool" where
  "unfilled (Node d nm ps cs fp bl ph ls) \<longleftrightarrow> fp = None \<and> (\<forall>l\<in>set ls. \<not> lb_deleted l) \<and> (\<forall>c\<in>set cs. unfilled c)"

definition bare :: "dt_node \<Rightarrow> nat \<Rightarrow> bool" where
  "bare t an \<longleftrightarrow> (\<exists>n. node_at t [an] = Some n \<and> nd_proplist n = [])"

lemma add_label_props_stops:
  assumes "bare t an" and "ls \<noteq> []" and "\<forall>l\<in>set ls. \<not> lb_deleted l"
  shows "add_label_props an None ls t = Fault Null_Deref"
proof -
  obtain n where "node_at t [an] = Some n" "nd_proplist n = []" using assms(1) by (auto simp: bare_def)
  then show ?thesis using assms(2,3) by (cases ls) (auto simp: get_property_def)
qed

lemma label_children_stops:
  assumes "\<And>c path. c \<in> set cs \<Longrightarrow> generate_label_tree_internal fmt an allocph c path st =
      (if any_label_tree c then Fault Null_Deref else Done st)"
  shows "label_children fmt an allocph cs path i st =
    (if \<exists>c\<in>set cs. \<not> nd_deleted c \<and> any_label_tree c then Fault Null_Deref else Done st)"
  using assms by (induction cs arbitrary: i) simp_all

lemma generate_label_tree_internal_stops:
  "unfilled n \<Longrightarrow> bare (fst st) an \<Longrightarrow>
   generate_label_tree_internal fmt an allocph n path st = (if any_label_tree n then Fault Null_Deref else Done st)"
proof (induction n arbitrary: path)
  case (Node d nm ps cs fp bl ph ls)
  show ?case
  proof (cases "ls = []")
    case True
    have "label_children fmt an allocph cs path 0 st =
        (if \<exists>c\<in>set cs. \<not> nd_deleted c \<and> any_label_tree c then Fault Null_Deref else Done st)"
      by (rule label_children_stops) (use Node in auto)
    then show ?thesis using True by simp
  next
    case False
    then have "add_label_props an fp ls (fst st) = Fault Null_Deref"
      using add_label_props_stops [OF Node.prems(2) False] Node.prems(1) by simp
    then show ?thesis using False by simp
  qed
qed

lemma any_label_child: "any_label_tree (add_child t c) \<longleftrightarrow> any_label_tree t \<or> \<not> nd_deleted c \<and> any_label_tree c"
  by (cases t) (auto simp: add_child_def)

lemma unfilled_child: "unfilled (add_child t c) \<longleftrightarrow> unfilled t \<and> unfilled c"
  by (cases t) (auto simp: add_child_def)

end
