(* ===== verification/Dt_Live_Correct.thy ===== *)
theory Dt_Live_Correct
  imports Dt_Labels
begin

text \<open>
  The shape of a tree: the names of the properties of a node are distinct, and so are those
  of its children. Merging keeps it, and overrides the properties of the old tree by those
  of the new one.
\<close>

section \<open>The first of a name\<close>

lemma streq_iff: "sym_ok a \<Longrightarrow> sym_ok b \<Longrightarrow> streq a b \<longleftrightarrow> a = b"
  by (simp add: streq_def strcmp_eq)

lemma map_on_first: "(\<And>x. g (f x) = g x) \<Longrightarrow> map g (on_first P f xs) = map g xs"
  by (induction xs) auto

lemma set_on_first: "x \<in> set (on_first P f xs) \<Longrightarrow> x \<in> set xs \<or> (\<exists>y\<in>set xs. P y \<and> x = f y)"
  by (induction xs) (auto split: if_splits)

lemma on_first_all: "(\<And>y. y \<in> set xs \<Longrightarrow> Q y) \<Longrightarrow> (\<And>y. y \<in> set xs \<Longrightarrow> P y \<Longrightarrow> Q (f y)) \<Longrightarrow> x \<in> set (on_first P f xs) \<Longrightarrow> Q x"
  using set_on_first by metis

lemma on_first_none: "\<forall>x\<in>set xs. \<not> P x \<Longrightarrow> on_first P f xs = xs"
  by (induction xs) simp_all

section \<open>The shape\<close>

fun shaped :: "dt_node \<Rightarrow> bool" where
  "shaped (Node d nm ps cs fp bl ph ls) \<longleftrightarrow>
     sym_ok nm \<and> distinct (map pr_name ps) \<and> (\<forall>p\<in>set ps. sym_ok (pr_name p)) \<and>
     distinct (map nd_name cs) \<and> (\<forall>c\<in>set cs. shaped c)"

lemma shaped_iff:
  "shaped n \<longleftrightarrow> sym_ok (nd_name n) \<and> distinct (map pr_name (nd_proplist n)) \<and> (\<forall>p\<in>set (nd_proplist n). sym_ok (pr_name p)) \<and>
     distinct (map nd_name (nd_children n)) \<and> (\<forall>c\<in>set (nd_children n). shaped c)"
  by (cases n) simp

lemma shaped_name: "shaped n \<Longrightarrow> sym_ok (nd_name n)"
  by (cases n) simp

lemma delete_node_name [simp]: "nd_name (delete_node n) = nd_name n"
  by (cases n) simp

lemma delete_property_name [simp]: "pr_name (delete_property p) = pr_name p"
  by (simp add: delete_property_def)

lemma delete_node_shaped: "shaped n \<Longrightarrow> shaped (delete_node n)"
proof (induction n)
  case (Node d nm ps cs fp bl ph ls)
  have "map pr_name (map (\<lambda>p. if pr_deleted p then p else delete_property p) ps) = map pr_name ps"
    "map nd_name (map (\<lambda>c. if nd_deleted c then c else delete_node c) cs) = map nd_name cs" by simp_all
  then show ?case using Node by (auto simp del: map_map)
qed

lemma set_props_shaped:
  "shaped n \<Longrightarrow> map pr_name ps = map pr_name (nd_proplist n) \<Longrightarrow> shaped (set_props n ps)"
proof -
  assume s: "shaped n" and m: "map pr_name ps = map pr_name (nd_proplist n)"
  have "pr_name ` set ps = pr_name ` set (nd_proplist n)" using m by (metis list.set_map)
  then have "\<forall>p\<in>set ps. sym_ok (pr_name p)" using s unfolding shaped_iff [of n] by (metis image_iff)
  then show ?thesis using s m unfolding shaped_iff [of n] by simp
qed

lemma set_children_shaped:
  "shaped n \<Longrightarrow> map nd_name cs = map nd_name (nd_children n) \<Longrightarrow> (\<And>c. c \<in> set cs \<Longrightarrow> shaped c) \<Longrightarrow> shaped (set_children n cs)"
  by (cases n) simp

lemma merge_property_shaped:
  assumes "shaped n" and "sym_ok (pr_name p)"
  shows "shaped (merge_property p n)"
proof -
  have del: "shaped (delete_property_by_name n (pr_name p))"
    unfolding delete_property_by_name_def by (rule set_props_shaped [OF assms(1)]) (simp add: map_on_first)
  have upd: "shaped (set_props n (on_first (\<lambda>q. streq (pr_name q) (pr_name p))
      (\<lambda>q. q\<lparr>pr_labels := merge_labels (pr_labels q) (pr_labels p), pr_val := pr_val p, pr_deleted := False\<rparr>) (nd_proplist n)))"
    by (rule set_props_shaped [OF assms(1)]) (simp add: map_on_first)
  have "pr_name p \<notin> pr_name ` set (nd_proplist n)" if "\<not> (\<exists>q\<in>set (nd_proplist n). streq (pr_name q) (pr_name p))"
    using that assms(2) by (force simp: streq_def strcmp_eq)
  then have "shaped (add_property n p)" if "\<not> (\<exists>q\<in>set (nd_proplist n). streq (pr_name q) (pr_name p))"
    using that assms unfolding add_property_def shaped_iff [of n] by simp
  then show ?thesis using del upd by (auto simp: merge_property_def)
qed

lemma merge_property_name [simp]: "nd_name (merge_property p n) = nd_name n"
  by (simp add: merge_property_def delete_property_by_name_def add_property_def)

lemma fold_merge_property_shaped:
  "\<forall>p\<in>set ps. sym_ok (pr_name p) \<Longrightarrow> shaped n \<Longrightarrow> shaped (fold merge_property ps n) \<and> nd_name (fold merge_property ps n) = nd_name n"
  by (induction ps arbitrary: n) (simp_all add: merge_property_shaped)

lemma merge_name [simp]: "nd_name (merge_nodes old new) = nd_name old" "nd_name (merge_children old cs) = nd_name old"
proof (induction old new and old cs rule: merge_nodes_merge_children.induct)
  case (1 old d nm ps cs fp bl ph ls)
  have "nd_name (fold merge_property ps n) = nd_name n" for n by (induction ps arbitrary: n) simp_all
  then show ?case using 1 by simp
next
  case (3 old c cs)
  then show ?case by (simp add: delete_node_by_name_def add_child_def)
qed simp

lemma delete_child_shaped: "shaped n \<Longrightarrow> shaped (delete_node_by_name n c)"
  unfolding delete_node_by_name_def
proof (rule set_children_shaped)
  show "map nd_name (on_first (\<lambda>q. streq (nd_name q) c) delete_node (nd_children n)) = map nd_name (nd_children n)"
    by (simp add: map_on_first)
  show "x \<in> set (on_first (\<lambda>q. streq (nd_name q) c) delete_node (nd_children n)) \<Longrightarrow> shaped x" if "shaped n" for x
    using that by (elim on_first_all [rotated 2]) (simp_all add: shaped_iff [of n] delete_node_shaped)
qed

lemma add_child_shaped:
  assumes "shaped n" and "shaped c" and "\<not> (\<exists>q\<in>set (nd_children n). streq (nd_name q) (nd_name c))"
  shows "shaped (add_child n c)"
proof -
  have "nd_name c \<notin> nd_name ` set (nd_children n)"
    using assms shaped_name [OF assms(2)] by (force simp: streq_def strcmp_eq)
  then show ?thesis using assms(1,2) unfolding add_child_def shaped_iff [of n] by simp
qed

text \<open>Merging two trees of the shape gives one.\<close>

lemma merge_shaped:
  "shaped old \<Longrightarrow> shaped new \<Longrightarrow> shaped (merge_nodes old new)"
  "shaped old \<Longrightarrow> \<forall>c\<in>set cs. shaped c \<Longrightarrow> shaped (merge_children old cs)"
proof (induction old new and old cs rule: merge_nodes_merge_children.induct)
  case (1 old d nm ps cs fp bl ph ls)
  have "shaped (Node False (nd_name old) (nd_proplist old) (nd_children old) (nd_fullpath old) (nd_basenamelen old) (nd_phandle old)
     (merge_labels (nd_labels old) ls))" using 1(2) by (simp add: shaped_iff [of old])
  then show ?case using 1(1,3) fold_merge_property_shaped [of ps] by simp
next
  case (3 old c cs)
  let ?P = "\<lambda>q. streq (nd_name q) (nd_name c)"
  have one: "shaped (if nd_deleted c then delete_node_by_name old (nd_name c)
        else if \<exists>q\<in>set (nd_children old). ?P q then set_children old (on_first ?P (\<lambda>q. merge_nodes q c) (nd_children old))
        else add_child old c)"
  proof (cases "nd_deleted c")
    case True
    then show ?thesis using delete_child_shaped [OF 3(3)] by simp
  next
    case live: False
    show ?thesis
    proof (cases "\<exists>q\<in>set (nd_children old). ?P q")
      case True
      have "shaped (set_children old (on_first ?P (\<lambda>q. merge_nodes q c) (nd_children old)))"
      proof (rule set_children_shaped [OF 3(3)])
        show "map nd_name (on_first ?P (\<lambda>q. merge_nodes q c) (nd_children old)) = map nd_name (nd_children old)"
          by (simp add: map_on_first)
        show "x \<in> set (on_first ?P (\<lambda>q. merge_nodes q c) (nd_children old)) \<Longrightarrow> shaped x" for x
          using 3 live True by (elim on_first_all [rotated 2]) (simp_all add: shaped_iff [of old])
      qed
      then show ?thesis using live True by simp
    next
      case False
      have "shaped (add_child old c)" by (rule add_child_shaped [OF 3(3) _ False]) (use 3(4) in simp)
      then show ?thesis using live False by simp
    qed
  qed
  show ?case unfolding merge_children.simps by (rule 3(2) [OF one]) (use 3(4) in simp)
qed simp

section \<open>The values\<close>

text \<open>What a node says of a name, and what merging a list of properties makes of it.\<close>

definition value_of :: "dt_node \<Rightarrow> bytes \<Rightarrow> bytes option" where
  "value_of n x = map_option (\<lambda>p. d_val (pr_val p)) (get_property n x)"

definition overridden :: "(bytes \<Rightarrow> bytes option) \<Rightarrow> dt_property list \<Rightarrow> bytes \<Rightarrow> bytes option" where
  "overridden m ps = fold (\<lambda>p m. m(pr_name p := if pr_deleted p then None else Some (d_val (pr_val p)))) ps m"

lemma get_property_find: "get_property n x = find (\<lambda>q. \<not> pr_deleted q \<and> streq (pr_name q) x) (nd_proplist n)"
proof -
  have "find (\<lambda>q. streq (pr_name q) x) (filter (\<lambda>p. \<not> pr_deleted p) ps) = find (\<lambda>q. \<not> pr_deleted q \<and> streq (pr_name q) x) ps" for ps
    by (induction ps) auto
  then show ?thesis by (simp add: get_property_def)
qed

lemma find_on_first:
  assumes "distinct (map pr_name ps)" and "\<forall>p\<in>set ps. sym_ok (pr_name p)" and "sym_ok x" and "sym_ok y" and "\<And>p. pr_name (f p) = pr_name p"
    and "\<exists>q\<in>set ps. streq (pr_name q) y"
  shows "find (\<lambda>q. \<not> pr_deleted q \<and> streq (pr_name q) x) (on_first (\<lambda>q. streq (pr_name q) y) f ps) =
    (if x = y then (let q = f (the (find (\<lambda>q. streq (pr_name q) y) ps)) in if pr_deleted q then None else Some q)
     else find (\<lambda>q. \<not> pr_deleted q \<and> streq (pr_name q) x) ps)"
  using assms
proof (induction ps)
  case (Cons p ps)
  show ?case
  proof (cases "pr_name p = y")
    case True
    then have "\<forall>q\<in>set ps. pr_name q \<noteq> y" using Cons.prems(1) by (metis distinct.simps(2) image_eqI list.map(2) list.set_map)
    then have "find (\<lambda>q. \<not> pr_deleted q \<and> streq (pr_name q) y) ps = None"
      using Cons.prems by (auto simp: find_None_iff streq_iff)
    then show ?thesis using True Cons.prems by (auto simp: streq_iff Let_def)
  next
    case False
    then have "\<exists>q\<in>set ps. streq (pr_name q) y" using Cons.prems by (auto simp: streq_iff)
    with Cons have ih: "find (\<lambda>q. \<not> pr_deleted q \<and> streq (pr_name q) x) (on_first (\<lambda>q. streq (pr_name q) y) f ps) =
      (if x = y then (let q = f (the (find (\<lambda>q. streq (pr_name q) y) ps)) in if pr_deleted q then None else Some q)
       else find (\<lambda>q. \<not> pr_deleted q \<and> streq (pr_name q) x) ps)" by simp
    show ?thesis using False Cons.prems ih by (auto simp: streq_iff)
  qed
qed simp

lemma value_merge_property:
  assumes "shaped n" and "sym_ok (pr_name p)" and "sym_ok x"
  shows "value_of (merge_property p n) x = (if x = pr_name p then (if pr_deleted p then None else Some (d_val (pr_val p))) else value_of n x)"
proof -
  let ?y = "pr_name p" and ?ps = "nd_proplist n"
  have d: "distinct (map pr_name ?ps)" "\<forall>p\<in>set ?ps. sym_ok (pr_name p)" using assms(1) by (simp_all add: shaped_iff [of n])
  show ?thesis
  proof (cases "\<exists>q\<in>set ?ps. streq (pr_name q) ?y")
    case True
    note fof = find_on_first [OF d assms(3,2) _ True]
    show ?thesis
    proof (cases "pr_deleted p")
      case del: True
      show ?thesis using fof [of delete_property] del
        by (simp add: merge_property_def delete_property_by_name_def value_of_def get_property_find Let_def) (simp add: delete_property_def)
    next
      case False
      show ?thesis using fof [of "\<lambda>q. q\<lparr>pr_labels := merge_labels (pr_labels q) (pr_labels p), pr_val := pr_val p, pr_deleted := False\<rparr>"] False True
        by (simp add: merge_property_def value_of_def get_property_find Let_def)
    qed
  next
    case False
    have same: "on_first (\<lambda>q. streq (pr_name q) ?y) f ?ps = ?ps" for f
      using False by (intro on_first_none) blast
    have none: "find (\<lambda>q. \<not> pr_deleted q \<and> streq (pr_name q) ?y) ?ps = None"
      using False by (auto simp: find_None_iff)
    show ?thesis
      using False none assms(2,3) same [of delete_property]
      by (auto simp: merge_property_def delete_property_by_name_def add_property_def value_of_def get_property_find find_append streq_iff
          split: option.splits)
  qed
qed

lemma value_fold_merge:
  "shaped n \<Longrightarrow> \<forall>p\<in>set ps. sym_ok (pr_name p) \<Longrightarrow> sym_ok x \<Longrightarrow> value_of (fold merge_property ps n) x = overridden (value_of n) ps x"
proof -
  have "value_of (fold merge_property ps n) x = overridden m ps x"
    if "shaped n" "\<forall>p\<in>set ps. sym_ok (pr_name p)" "sym_ok x" "\<And>x. sym_ok x \<Longrightarrow> value_of n x = m x" for m
    using that
  proof (induction ps arbitrary: n m)
    case (Cons p ps)
    have "value_of (fold merge_property ps (merge_property p n)) x =
        overridden (m(pr_name p := if pr_deleted p then None else Some (d_val (pr_val p)))) ps x"
      by (rule Cons.IH) (use Cons.prems in \<open>auto simp: merge_property_shaped value_merge_property\<close>)
    then show ?case by (simp add: overridden_def)
  qed (simp add: overridden_def)
  then show "shaped n \<Longrightarrow> \<forall>p\<in>set ps. sym_ok (pr_name p) \<Longrightarrow> sym_ok x \<Longrightarrow> ?thesis" by blast
qed

lemma value_merge_children: "value_of (merge_children old cs) x = value_of old x"
proof (induction cs arbitrary: old)
  case (Cons c cs)
  then show ?case by (simp add: value_of_def get_property_def delete_node_by_name_def add_child_def)
qed simp

lemma value_merge:
  assumes "shaped old" and "shaped new" and "sym_ok x"
  shows "value_of (merge_nodes old new) x = overridden (value_of old) (nd_proplist new) x"
proof (cases new)
  case (Node d nm ps cs fp bl ph ls)
  let ?o = "Node False (nd_name old) (nd_proplist old) (nd_children old) (nd_fullpath old) (nd_basenamelen old) (nd_phandle old)
     (merge_labels (nd_labels old) ls)"
  have o: "shaped ?o" "value_of ?o = value_of old" using assms(1) by (simp_all add: shaped_iff [of old] value_of_def get_property_def fun_eq_iff)
  have "value_of (fold merge_property ps ?o) x = overridden (value_of old) ps x"
    using value_fold_merge [OF o(1) _ assms(3)] assms(2) Node o(2) by simp
  then show ?thesis using Node by (simp add: value_merge_children)
qed

section \<open>Phandles\<close>

text \<open>The search ends at the first handle that is free, when there is one behind the counter.\<close>

lemma next_phandle_first:
  assumes "ph \<noteq> 0" and "unat ph \<le> unat h" and "h \<noteq> - 1" and "find_phandle t h = None"
  shows "\<exists>f. next_phandle t ph = Done f \<and> find_phandle t f = None \<and> unat ph \<le> unat f \<and> unat f \<le> unat h \<and>
    (\<forall>k. unat ph \<le> unat k \<and> unat k < unat f \<longrightarrow> find_phandle t k \<noteq> None)"
  using assms
proof (induction t ph rule: next_phandle.induct)
  case (1 t ph)
  have "ph \<noteq> - 1"
  proof
    assume "ph = - 1"
    then have "unat h = unat ph" using 1(3) word_order.extremum [of h] by (simp add: word_le_nat_alt)
    then have "h = ph" by (simp only: word_unat_eq_iff)
    then show False using 1(4) \<open>ph = - 1\<close> by simp
  qed
  then have g: "get_node_by_phandle t ph = Done (find_phandle t ph)" using 1(2) by (simp add: get_node_by_phandle_def)
  show ?case
  proof (cases "find_phandle t ph")
    case None
    then show ?thesis using g 1(3) by (subst next_phandle.simps) auto
  next
    case (Some n)
    have "ph \<noteq> h" using Some 1(5) by auto
    then have lt: "unat ph < unat h" using 1(3) by (metis le_neq_implies_less word_unat_eq_iff)
    have "1 + ph \<noteq> 0" using \<open>ph \<noteq> - 1\<close> by (metis add.commute eq_neg_iff_add_eq_0)
    then have s: "unat (ph + 1) = Suc (unat ph)" "ph + 1 \<noteq> 0" using unatSuc [of ph] by (simp_all add: add.commute)
    obtain f where f: "next_phandle t (ph + 1) = Done f" "find_phandle t f = None" "unat (ph + 1) \<le> unat f" "unat f \<le> unat h"
      "\<forall>k. unat (ph + 1) \<le> unat k \<and> unat k < unat f \<longrightarrow> find_phandle t k \<noteq> None"
      using 1(1) [OF g Some s(2) _ 1(4,5)] s(1) lt by auto
    have "next_phandle t ph = Done f" using g Some f(1) by (subst next_phandle.simps) simp
    moreover have "find_phandle t k \<noteq> None" if "unat ph \<le> unat k" "unat k < unat f" for k
    proof (cases "k = ph")
      case False
      then have "unat (ph + 1) \<le> unat k" using that(1) s(1) by (metis le_neq_implies_less Suc_leI word_unat_eq_iff)
      then show ?thesis using f(5) that(2) by blast
    qed (use Some in simp)
    ultimately show ?thesis using f s(1) by (intro exI [of _ f]) simp
  qed
qed

end
