(* ===== verification/Bxxt_Dtcc.thy ===== *)
theory Bxxt_Dtcc
  imports Dt_Labels Dt_Source Dt_Unflat Boot_Image
begin

text \<open>
  The program's door to the device tree compiler (dtcc.c): a blob as source text and a
  source text as a blob. The settings of the compiler are the globals of that file, the
  counter of phandles is a static variable of the compiler and outlives a call.
\<close>

definition dtcc_opts :: dtc_opts where
  "dtcc_opts = \<lparr>reservenum = 0, minsize = 0, padsize = 0, alignsize = 0\<rparr>"

definition phandle_format :: int where
  "phandle_format = PHANDLE_EPAPR"

definition DEFAULT_FDT_VERSION :: nat where
  "DEFAULT_FDT_VERSION = 17"

definition symbols :: bytes where
  "symbols = c_bytes ''__symbols__''"

text \<open>
  \<open>opens\<close> is whether the file can be opened; what is printed to it is the second part of the
  result. The fuel is that of \<open>unflatten_tree\<close>, one step more than the blob has bytes.
\<close>

definition bxxt_dtcc_dtb_to_source :: "bool \<Rightarrow> u32 \<Rightarrow> bytes \<Rightarrow> nat \<Rightarrow> (int \<times> bytes \<times> u32) dres" where
  "bxxt_dtcc_dtb_to_source opens ph p sz =
     (if \<not> opens then Done (BXXT_FAILED, [], ph)
      else
        dbind (from_res (bxxt_buffer_create_from_data p sz)) (\<lambda>dtb.
        dbind (dt_from_mem (b_size dtb + 1) (b_ptr dtb) (b_size dtb)) (\<lambda>dti.
        dbind (generate_label_tree phandle_format symbols True (dti, ph)) (\<lambda>(dti, ph).
        dbind (dt_to_source dti) (\<lambda>out.
        Done (BXXT_SUCCESS, out, ph))))))"

text \<open>\<open>parse\<close> is the generated parser: the tree of a source text, or the end of the process.\<close>

definition bxxt_dtcc_dtb_from_source :: "(bytes \<Rightarrow> dt_info dres) \<Rightarrow> u32 \<Rightarrow> bytes \<Rightarrow> (buffer \<times> u32) dres" where
  "bxxt_dtcc_dtb_from_source parse ph src =
     dbind (parse src) (\<lambda>dti.
     dbind (generate_label_tree phandle_format symbols True (dti, ph)) (\<lambda>(dti, ph).
     dbind (dt_to_mem dtcc_opts dti DEFAULT_FDT_VERSION) (\<lambda>p.
     dbind (from_res (bxxt_buffer_create_from_data p (length p))) (\<lambda>data.
     Done (data, ph)))))"

end
