(* ===== verification/Dt_Properties.thy ===== *)
theory Dt_Properties
  imports Dt_Blob_Correct Dt_Source_Correct Dt_Live_Correct Bxxt_Dtcc
begin

text \<open>The properties of the device tree compiler and of the program's use of it.\<close>

section \<open>Helpers\<close>

lemma plain_no_labels: "plain n \<Longrightarrow> \<not> any_label_tree n"
  by (induction n) auto

lemma plain_clean: "plain (clean n)"
  by (induction n) (auto simp: clean_prop_def build_property_def)

lemma no_labels_identity: "\<not> any_label_tree (dt_tree dti) \<Longrightarrow> generate_label_tree fmt nm al (dti, ph) = Done (dti, ph)"
  by (simp add: generate_label_tree_def)

lemma from_mem_plain: "dt_from_mem fuel m n = Done dti \<Longrightarrow> plain (dt_tree dti)"
  by (auto simp: dt_from_mem_def dbind_Done Let_def build_dt_info_def dest: unflatten_plain(1) split: if_splits)

lemma create_from_data: "n \<le> length d \<Longrightarrow> bxxt_buffer_create_from_data d n = Inr \<lparr>b_size = n, b_ptr = take n d\<rparr>"
  by (simp add: bxxt_buffer_create_from_data_def bxxt_buffer_create_def bxxt_malloc_def c_memcpy_def wr_bytes_def splice_0)

lemma source_total: "plain (dt_tree dti) \<Longrightarrow> \<exists>out. dt_to_source dti = Done out"
  using tree_source_total [of "dt_tree dti" 0] by (auto simp: dt_to_source_def)

lemma from_mem_fuel: "length m < fuel \<Longrightarrow> dt_from_mem fuel m n \<noteq> No_Fuel"
  using tree_fuel by (auto simp: dt_from_mem_def dbind_No_Fuel Let_def reserve_fuel split: if_splits)

lemma padding_zero: "blob_padding dtcc_opts w \<le> int 0"
  by (simp add: blob_padding_def dtcc_opts_def)

text \<open>What a blob keeps of a tree.\<close>

definition kept :: "dt_info \<Rightarrow> dt_info" where
  "kept dti = build_dt_info DTSF_V1 (map clean_reserve (dt_reservelist dti)) (clean (dt_tree dti)) (dt_boot_cpuid_phys dti)"

lemma kept_plain: "plain (dt_tree (kept dti))"
  by (simp add: kept_def build_dt_info_def plain_clean)

lemma blob_round_trip:
  assumes "find_version v = Some vi" and "16 \<le> v"
    and "tree_ok (dt_tree dti)" and "\<not> nd_deleted (dt_tree dti)" and "\<forall>r\<in>set (dt_reservelist dti). re_size r \<noteq> 0"
    and "\<And>w. blob_padding opts w \<le> int P"
    and "fits (68 + 16 * length (dt_reservelist dti) + 16 * reservenum opts + 2 * room (dt_tree dti) + P)"
  shows "\<exists>blob. dt_to_mem opts dti v = Done blob \<and>
    (\<forall>post n fuel. length (blob @ post) < fuel \<longrightarrow> dt_from_mem fuel (blob @ post) n = Done (kept dti))"
proof -
  have v: "new_version v vi" using assms(1,2) by (simp add: new_version_def)
  obtain h q st t pl where b: "dt_to_mem opts dti v = Done (common_header h @ q @ concat (map reserve_bytes (dt_reservelist dti)) @
      replicate (16 * reservenum opts) 0 @ replicate 16 0 @ (st @ be32 FDT_END) @ t @ replicate pl 0)"
    and d: "describes h v (16 * length (dt_reservelist dti) + 16 * reservenum opts + 16) (length st + 4) (length t)
      (60 + 16 * length (dt_reservelist dti) + 16 * reservenum opts + length st + length t + pl)"
    and r: "length q = 4" "tree_spec (dt_tree dti) t st" "fits (length t)" "fh_boot_cpuid_phys h = dt_boot_cpuid_phys dti"
    using blob_written [OF v assms(3,4,6,7)] by blast
  have fit: "props_fit (dt_tree dti)" by (rule props_fit_room, rule fits_mono [OF assms(7)]) simp
  show ?thesis
  proof (intro exI conjI allI impI, rule b)
    fix post :: bytes and n fuel
    let ?blob = "common_header h @ q @ concat (map reserve_bytes (dt_reservelist dti)) @ replicate (16 * reservenum opts) 0 @
      replicate 16 0 @ (st @ be32 FDT_END) @ t @ replicate pl 0"
    assume fuel: "length (?blob @ post) < fuel"
    show "dt_from_mem fuel (?blob @ post) n = Done (kept dti)"
      using blob_read [OF d assms(2) _ r(1) assms(5) r(2) assms(3) fit r(3) fuel, of "replicate pl 0 @ post" n] r(4)
      by (simp add: kept_def)
  qed
qed

section \<open>Blobs\<close>

text \<open>
  C5: A device tree survives a blob. For a tree whose names are C strings, with entries of
  the reservation map of nonzero size, and settings whose padding is at most \<open>P\<close>, all
  small enough for C ints to be doubled: \<open>dt_to_mem\<close> of a version from 16 on builds a blob, and
  \<open>dt_from_mem\<close> on memory that starts with it gives the tree back, less what was deleted in
  it, the labels and the marks; whatever follows the blob and whatever size is passed.
\<close>

theorem dtb_round_trip:
  assumes "find_version v = Some vi" and "16 \<le> v"
    and "tree_ok (dt_tree dti)" and "\<not> nd_deleted (dt_tree dti)" and "\<forall>r\<in>set (dt_reservelist dti). re_size r \<noteq> 0"
    and "\<And>w. blob_padding opts w \<le> int P"
    and "fits (68 + 16 * length (dt_reservelist dti) + 16 * reservenum opts + 2 * room (dt_tree dti) + P)"
  shows "\<exists>blob. dt_to_mem opts dti v = Done blob \<and>
    (\<forall>post n fuel. length (blob @ post) < fuel \<longrightarrow> dt_from_mem fuel (blob @ post) n = Done (kept dti))"
  by (rule blob_round_trip [OF assms])

definition demo_tree :: dt_node where
  "demo_tree = Node False [] [build_property (c_bytes ''model'') \<lparr>d_val = [65, 0], d_cap = 2, d_markers = []\<rparr>]
     [Node False (c_bytes ''cpus'') [] [] None 0 0 [], Node True (c_bytes ''old'') [] [] None 0 0 []] None 0 0 []"

definition demo_info :: dt_info where
  "demo_info = build_dt_info DTSF_V1 [build_reserve_entry 4096 8192] demo_tree 0"

lemma demo_info_ok:
  "tree_ok (dt_tree demo_info)" "\<not> nd_deleted (dt_tree demo_info)" "\<forall>r\<in>set (dt_reservelist demo_info). re_size r \<noteq> 0"
  "fits (68 + 16 * length (dt_reservelist demo_info) + 16 * reservenum dtcc_opts + 2 * room (dt_tree demo_info) + 0)"
  by (simp_all add: demo_info_def demo_tree_def build_dt_info_def build_reserve_entry_def sym_ok_def build_property_def c_bytes_def
      byte_of_chr_def fits_def dtcc_opts_def prop_room_def)

lemma find_version_17: "\<exists>vi. find_version 17 = Some vi"
  by (simp add: find_version_def version_table_def)

theorem dtb_round_trip_witness:
  "\<exists>blob. dt_to_mem dtcc_opts demo_info 17 = Done blob \<and>
    (\<forall>post n fuel. length (blob @ post) < fuel \<longrightarrow> dt_from_mem fuel (blob @ post) n = Done (kept demo_info))"
proof -
  obtain vi where "find_version 17 = Some vi" using find_version_17 by blast
  then show ?thesis by (rule dtb_round_trip [where P = 0]) (use demo_info_ok padding_zero in simp_all)
qed

text \<open>
  C6: A source text that parses to such a tree without labels compiles, and the blob
  decompiles to the source of what a blob keeps of the tree. The two functions of dtcc.c
  are composed as the packer and the unpacker of boot images do.
\<close>

theorem compile_decompile:
  assumes "parse src = Done dti" and "\<not> any_label_tree (dt_tree dti)"
    and "tree_ok (dt_tree dti)" and "\<not> nd_deleted (dt_tree dti)" and "\<forall>r\<in>set (dt_reservelist dti). re_size r \<noteq> 0"
    and "fits (68 + 16 * length (dt_reservelist dti) + 2 * room (dt_tree dti))"
  shows "\<exists>buf out. bxxt_dtcc_dtb_from_source parse ph src = Done (buf, ph) \<and> dt_to_source (kept dti) = Done out \<and>
    bxxt_dtcc_dtb_to_source True ph2 (b_ptr buf) (b_size buf) = Done (BXXT_SUCCESS, out, ph2)"
proof -
  obtain vi where "find_version 17 = Some vi" using find_version_17 by blast
  then obtain blob where b: "dt_to_mem dtcc_opts dti 17 = Done blob" "\<forall>post n fuel. length (blob @ post) < fuel \<longrightarrow> dt_from_mem fuel (blob @ post) n = Done (kept dti)"
    using blob_round_trip [of 17 vi dti dtcc_opts 0] assms(3-6) padding_zero by (auto simp: dtcc_opts_def)
  have "dt_from_mem (length blob + 1) blob (length blob) = Done (kept dti)" using b(2) [rule_format, of "[]" "length blob + 1" "length blob"] by simp
  moreover obtain out where "dt_to_source (kept dti) = Done out" using source_total [OF kept_plain] by blast
  moreover have "generate_label_tree phandle_format symbols True (kept dti, ph2) = Done (kept dti, ph2)"
    by (rule no_labels_identity [OF plain_no_labels [OF kept_plain]])
  ultimately show ?thesis using assms(1,2) b(1)
    by (intro exI [of _ "\<lparr>b_size = length blob, b_ptr = blob\<rparr>"] exI [of _ out])
      (simp add: bxxt_dtcc_dtb_from_source_def bxxt_dtcc_dtb_to_source_def no_labels_identity DEFAULT_FDT_VERSION_def create_from_data)
qed

theorem compile_decompile_witness:
  "\<exists>buf out. bxxt_dtcc_dtb_from_source (\<lambda>s. if s = [47] then Done demo_info else Die) 1 [47] = Done (buf, 1) \<and>
    dt_to_source (kept demo_info) = Done out \<and>
    bxxt_dtcc_dtb_to_source True 1 (b_ptr buf) (b_size buf) = Done (BXXT_SUCCESS, out, 1)"
  by (rule compile_decompile)
    (use demo_info_ok in \<open>simp_all add: demo_info_def demo_tree_def build_dt_info_def dtcc_opts_def\<close>)

text \<open>
  C27: Decompiling ends on any memory: fuel for one step more than there are bytes is always
  enough, so that \<open>bxxt_dtcc_dtb_to_source\<close> returns, ends the process or leaves its objects.
\<close>

theorem decompiling_ends: "bxxt_dtcc_dtb_to_source opens ph p n \<noteq> No_Fuel"
proof (cases "opens \<and> n \<le> length p")
  case True
  show ?thesis
  proof (cases "dt_from_mem (n + 1) (take n p) n")
    case (Done dti)
    then have "plain (dt_tree dti)" by (rule from_mem_plain)
    then show ?thesis using Done True source_total no_labels_identity [OF plain_no_labels]
      by (fastforce simp: bxxt_dtcc_dtb_to_source_def create_from_data)
  next
    case No_Fuel
    then show ?thesis using from_mem_fuel [of "take n p" "n + 1" n] True by simp
  qed (use True in \<open>simp_all add: bxxt_dtcc_dtb_to_source_def create_from_data\<close>)
qed (auto simp: bxxt_dtcc_dtb_to_source_def bxxt_buffer_create_from_data_def c_memcpy_def)

text \<open>
  C28: Whatever blob can be read can be printed: no tree that \<open>dt_from_mem\<close> builds makes
  \<open>dt_to_source\<close> fail an assertion about labels or leave a value, the generation of the label
  node does nothing to it, and the function reports success.
\<close>

theorem read_blobs_print:
  assumes "n \<le> length p" and "dt_from_mem (n + 1) (take n p) n = Done dti"
  shows "\<exists>out. dt_to_source dti = Done out \<and> bxxt_dtcc_dtb_to_source True ph p n = Done (BXXT_SUCCESS, out, ph)"
proof -
  have "plain (dt_tree dti)" by (rule from_mem_plain [OF assms(2)])
  then show ?thesis using assms source_total no_labels_identity [OF plain_no_labels]
    by (fastforce simp: bxxt_dtcc_dtb_to_source_def create_from_data)
qed

lemma demo_blob: "\<exists>blob. dt_to_mem dtcc_opts demo_info 17 = Done blob \<and> dt_from_mem (length blob + 1) (take (length blob) blob) (length blob) = Done (kept demo_info)"
proof -
  obtain vi where "find_version 17 = Some vi" using find_version_17 by blast
  from blob_round_trip [where P = 0, OF this _ demo_info_ok(1-3) padding_zero demo_info_ok(4)]
  obtain blob where b: "dt_to_mem dtcc_opts demo_info 17 = Done blob"
    "\<forall>post n fuel. length (blob @ post) < fuel \<longrightarrow> dt_from_mem fuel (blob @ post) n = Done (kept demo_info)" by auto
  then show ?thesis using b(2) [rule_format, of "[]" "length blob + 1" "length blob"] by simp
qed

theorem read_blobs_print_witness:
  "\<exists>blob out. dt_to_mem dtcc_opts demo_info 17 = Done blob \<and> dt_to_source (kept demo_info) = Done out \<and>
    bxxt_dtcc_dtb_to_source True 1 blob (length blob) = Done (BXXT_SUCCESS, out, 1)"
  using demo_blob read_blobs_print [OF le_refl] by blast

text \<open>
  The header is believed. When the reservation map begins less than one entry before the
  end of the memory, reading goes behind the memory, whatever its size was said to be; nothing
  but the header's own total size is compared with the offset.
\<close>

theorem reservation_map_outside:
  assumes "36 \<le> length m"
    and "length m < unat (rd_be32 (take 4 (drop 16 m))) + 16"
    and "unat (rd_be32 (take 4 (drop 16 m))) + 16 \<le> unat (rd_be32 (take 4 (drop 4 m)))"
  shows "dt_from_mem fuel m n = Fault Oob_Read"
proof -
  have h: "header_field m k = Done (unat (rd_be32 (take 4 (drop k m))))" if "k \<le> 32" for k
    using that assms(1) by (simp add: header_field_def)
  let ?off = "unat (rd_be32 (take 4 (drop 16 m)))" and ?tsz = "unat (rd_be32 (take 4 (drop 4 m)))"
  have "flat_read_mem_reserve m (inbuf_init ?off ?tsz) [] = Fault Oob_Read"
    by (subst flat_read_mem_reserve.simps) (use assms(2,3) in \<open>simp add: flat_read_chunk_def inbuf_init_def rd_bytes_def\<close>)
  then show ?thesis by (simp add: dt_from_mem_def h Let_def)
qed

definition wild_header :: fdt_header where
  "wild_header = \<lparr>fh_magic = FDT_MAGIC, fh_totalsize = 4096, fh_off_dt_struct = 56, fh_off_dt_strings = 64, fh_off_mem_rsvmap = 1024,
     fh_version = 17, fh_last_comp_version = 16, fh_boot_cpuid_phys = 0, fh_size_dt_strings = 0, fh_size_dt_struct = 8\<rparr>"

theorem reservation_map_outside_witness: "dt_from_mem 100 (common_header wild_header) 36 = Fault Oob_Read"
proof -
  have "header_field (common_header wild_header @ []) 16 = Done 1024" "header_field (common_header wild_header @ []) 4 = Done 4096"
    unfolding header_fields by (simp_all add: wild_header_def)
  then have "unat (rd_be32 (take 4 (drop 16 (common_header wild_header)))) = 1024" "unat (rd_be32 (take 4 (drop 4 (common_header wild_header)))) = 4096"
    by (simp_all add: header_field_def)
  then show ?thesis by (intro reservation_map_outside) simp_all
qed

section \<open>Source text\<close>

text \<open>
  C29: A string survives its source text: what \<open>write_propval_string\<close> prints between quotes for
  a value of printable characters and control characters with an escape is read back by
  \<open>data_copy_escape_string\<close> as the value, terminator included, whatever follows the closing quote.
\<close>

theorem string_literal_round_trip:
  assumes "\<forall>c\<in>set s. string_char c" and "d_val v = s @ [0]" and "d_markers v = []" and "fits (4 * length s + 1)"
  shows "\<exists>e. write_propval_string v = Done ([34] @ e @ [34]) \<and> gives (data_copy_escape_string (e @ [34] @ post) (length e)) (d_val v) []"
proof -
  have nul: "0 \<notin> set s" using assms(1) by (auto simp: string_char_def)
  have "write_propval_string v = Done (joined [s])"
    by (rule write_string_joined) (use nul assms(2,3) in simp_all)
  moreover have "length (escaped s) \<le> 4 * length s"
  proof -
    have "length (escape_byte c) \<le> 2" if "string_char c" for c
      using string_char_plain [OF that] by (auto simp: escape_byte_def split: option.splits)
    then show ?thesis using assms(1) by (induction s) (fastforce simp: escaped_def)+
  qed
  then have "fits (length (escaped s) + 1)" by (intro fits_mono [OF assms(4)]) simp
  ultimately show ?thesis using escaped_reads [OF assms(1)] assms(2) by (intro exI [of _ "escaped s"]) simp
qed

theorem string_literal_round_trip_witness:
  "\<exists>e. write_propval_string \<lparr>d_val = [65, 34, 9, 0], d_cap = 4, d_markers = []\<rparr> = Done ([34] @ e @ [34]) \<and>
    gives (data_copy_escape_string (e @ [34] @ [0]) (length e)) [65, 34, 9, 0] []"
  using string_literal_round_trip [of "[65, 34, 9]" "\<lparr>d_val = [65, 34, 9, 0], d_cap = 4, d_markers = []\<rparr>" "[0]"]
  by (simp add: string_char_def isstring_def c_isprint_def fits_def)

section \<open>Trees\<close>

text \<open>
  C31: Well-formedness of live trees: when names are distinct C strings among the properties and
  among the children of every node of two trees, deleted or not, they still are after
  \<open>merge_nodes\<close>.
\<close>

theorem merge_keeps_shape: "shaped old \<Longrightarrow> shaped new \<Longrightarrow> shaped (merge_nodes old new)"
  by (rule merge_shaped(1))

theorem merge_keeps_shape_witness: "shaped (merge_nodes demo_tree (delete_node demo_tree))"
  by (rule merge_keeps_shape)
    (simp_all add: demo_tree_def build_property_def delete_property_def sym_ok_def c_bytes_def byte_of_chr_def)

text \<open>
  C30: Merging overrides: as a map from names to values, a node after \<open>merge_nodes\<close> is the old map
  updated by the properties of the new node in their order, where a deleted property removes
  its name. The children do not matter to it.
\<close>

theorem merge_overrides:
  assumes "shaped old" and "shaped new" and "sym_ok x"
  shows "value_of (merge_nodes old new) x = overridden (value_of old) (nd_proplist new) x"
  by (rule value_merge [OF assms])

theorem merge_overrides_witness:
  "value_of (merge_nodes demo_tree (delete_node demo_tree)) (c_bytes ''model'') = None"
proof -
  have "shaped demo_tree" "shaped (delete_node demo_tree)" "sym_ok (c_bytes ''model'')"
    by (simp_all add: demo_tree_def build_property_def delete_property_def sym_ok_def c_bytes_def byte_of_chr_def)
  from merge_overrides [OF this] show ?thesis
    by (simp add: overridden_def demo_tree_def build_property_def delete_property_def)
qed

text \<open>
  C32: A phandle is found: when the counter is not 0 and some handle from it on, other than
  \<open>-1\<close>, is not used in the tree, the loop of \<open>get_node_phandle\<close> stops, at a free handle, and all
  those it passed are used.
\<close>

theorem phandle_found:
  assumes "ph \<noteq> 0" and "unat ph \<le> unat h" and "h \<noteq> - 1" and "find_phandle t h = None"
  shows "\<exists>f. next_phandle t ph = Done f \<and> find_phandle t f = None \<and>
    (\<forall>k. unat ph \<le> unat k \<and> unat k < unat f \<longrightarrow> find_phandle t k \<noteq> None)"
  using next_phandle_first [OF assms] by blast

theorem phandle_found_witness:
  "\<exists>f. next_phandle (set_phandle 1 demo_tree) 1 = Done f \<and> find_phandle (set_phandle 1 demo_tree) f = None \<and>
    (\<forall>k. unat (1 :: u32) \<le> unat k \<and> unat k < unat f \<longrightarrow> find_phandle (set_phandle 1 demo_tree) k \<noteq> None)"
  by (rule phandle_found [where h = 7]) (simp_all add: demo_tree_def set_phandle_def)

text \<open>
  C33: Labels crash the compiler. \<open>generate_label_tree\<close> needs the full path of a labelled node,
  which only the main program of dtc fills in; dtcc.c calls it on the tree of the parser.
  When the tree has a label and no node for the labels yet, the null path is read.
\<close>

theorem labelled_source_crashes:
  assumes "parse src = Done dti" and "unfilled (dt_tree dti)" and "any_label_tree (dt_tree dti)"
    and "get_subnode (dt_tree dti) symbols = None"
  shows "bxxt_dtcc_dtb_from_source parse ph src = Fault Null_Deref"
proof -
  let ?t = "build_and_name_child_node (dt_tree dti) symbols" and ?an = "length (nd_children (dt_tree dti))"
  have b: "bare ?t ?an" by (cases "dt_tree dti") (simp add: bare_def build_and_name_child_node_def add_child_def build_node_def)
  have "unfilled ?t" "any_label_tree ?t"
    using assms(2,3) by (simp_all add: build_and_name_child_node_def unfilled_child any_label_child build_node_def)
  then have "generate_label_tree_internal phandle_format ?an True ?t [] (?t, ph) = Fault Null_Deref"
    using generate_label_tree_internal_stops [of ?t "(?t, ph)"] b by simp
  then show ?thesis using assms by (simp add: bxxt_dtcc_dtb_from_source_def generate_label_tree_def build_root_node_def)
qed

definition labelled_info :: dt_info where
  "labelled_info = build_dt_info DTSF_V1 []
     (Node False [] [] [Node False (c_bytes ''soc'') [] [] None 0 0 [\<lparr>lb_deleted = False, lb_text = c_bytes ''soc''\<rparr>]] None 0 0 []) 0"

theorem labelled_source_crashes_witness:
  "bxxt_dtcc_dtb_from_source (\<lambda>s. if s = [47] then Done labelled_info else Die) 1 [47] = Fault Null_Deref"
  by (rule labelled_source_crashes [where dti = labelled_info])
    (simp_all add: labelled_info_def build_dt_info_def get_subnode_def streq_def symbols_def c_bytes_def byte_of_chr_def)

end
