(* ===== verification/Bxxt_Main.thy ===== *)
theory Bxxt_Main
  imports Boot_Pack Bxxt_Sepol_Main Bxxt_Patch Bxxt_Prop
begin

text \<open>
  The program: the options of the boot image tool (boot.c) and the choice of the tool by the
  first argument (bxxt.c). The tools share the operating system; the boot image tool uses
  its files only. What stack memory holds before it is written, and what \<open>realpath\<close> leaves in
  its buffer, are arguments.
\<close>

section \<open>Options of the boot image tool\<close>

record boot_args =
  ba_input :: string
  ba_output :: string
  ba_opts :: boot_opts

definition boot_opts_letters :: "char \<Rightarrow> bool option" where
  "boot_opts_letters c = (if c \<in> set ''ioe'' then Some True else if c = CHR ''n'' then Some False else None)"

definition boot_opt :: "(string \<Rightarrow> string) \<Rightarrow> char \<times> string \<Rightarrow> boot_args \<Rightarrow> boot_args res" where
  "boot_opt rp = (\<lambda>(opt, optarg) a.
     if opt = CHR ''e'' then Inr (a\<lparr>ba_opts := (ba_opts a)\<lparr>skip_unknown_data := (optarg = ''skip-unknown-data'')\<rparr>\<rparr>)
     else if opt = CHR ''n'' then Inr (a\<lparr>ba_opts := (ba_opts a)\<lparr>force_no_compat_check := True\<rparr>\<rparr>)
     else if opt = CHR ''i'' then (if length optarg < PATH_MAX then Inr (a\<lparr>ba_input := rp optarg\<rparr>) else Inl Oob_Write)
     else if opt = CHR ''o'' then (if length optarg < PATH_MAX then Inr (a\<lparr>ba_output := rp optarg\<rparr>) else Inl Oob_Write)
     else Inr a)"

fun boot_opt_loop :: "(string \<Rightarrow> string) \<Rightarrow> (char \<times> string) list \<Rightarrow> boot_args \<Rightarrow> boot_args res" where
  "boot_opt_loop rp [] a = Inr a"
| "boot_opt_loop rp (p # ps) a = res_bind (boot_opt rp p a) (boot_opt_loop rp ps)"

fun_cases boot_opt_loopE: "boot_opt_loop rp (p # ps) a = Inr b"

definition boot_main :: "pack_env \<Rightarrow> (string \<Rightarrow> string) \<Rightarrow> SHA1_CTX \<Rightarrow> string \<times> string \<Rightarrow> string list \<Rightarrow> fs \<Rightarrow> (fs \<times> int) res" where
  "boot_main E rp ctx0 stack argv fs =
     res_bind (boot_opt_loop rp (getopt boot_opts_letters argv)
       \<lparr>ba_input = fst stack, ba_output = snd stack, ba_opts = \<lparr>force_no_compat_check = False, skip_unknown_data = False\<rparr>\<rparr>) (\<lambda>a.
     if fs (ba_input a) = Some Dir then bxxt_boot_pack_all E (ba_opts a) ctx0 (ba_input a) (ba_output a) fs
     else bxxt_boot_unpack_all E (ba_opts a) ctx0 (ba_input a) (ba_output a) fs)"

section \<open>The program\<close>

record main_env =
  me_pack :: pack_env
  me_realpath :: "string \<Rightarrow> string"
  me_ctx :: SHA1_CTX
  me_stack :: "string \<times> string"
  me_sepol :: sepol_env
  me_prop :: prop_env
  me_procs :: "(string \<times> bytes option) list option"

definition bxxt_main :: "main_env \<Rightarrow> string list \<Rightarrow> os \<Rightarrow> (os \<times> int) res" where
  "bxxt_main M argv s =
     (let argc = length argv; tool = argv ! 1 in
      if argc > 2 \<and> tool = ''boot'' then
        res_bind (boot_main (me_pack M) (me_realpath M) (me_ctx M) (me_stack M) (tl argv) (os_fs s)) (\<lambda>(fs, r). Inr (s\<lparr>os_fs := fs\<rparr>, r))
      else if argc > 2 \<and> tool = ''sepol'' then sepol_main (me_sepol M) (tl argv) s
      else if argc = 3 \<and> tool = ''setdebuggable'' then
        res_bind (setdebuggable_main (me_prop M) (me_procs M) (tl argv) s) (\<lambda>(s, r, _). Inr (s, r))
      else if argc = 4 \<and> tool = ''setprop'' then setprop_main (me_prop M) (tl argv) s
      else if argc > 2 \<and> tool = ''patch'' then res_bind (patch_main (tl argv) s) (\<lambda>(s, r, _). Inr (s, r))
      else Inr (s, 1))"

section \<open>Options in any order\<close>

text \<open>Of the two paths and the two settings each has the last word of its own options only.\<close>

definition last_arg :: "char \<Rightarrow> (char \<times> string) list \<Rightarrow> string option" where
  "last_arg c ps = (case filter (\<lambda>p. fst p = c) ps of [] \<Rightarrow> None | qs \<Rightarrow> Some (snd (last qs)))"

lemma last_arg_simps [simp]:
  "last_arg c [] = None"
  "last_arg c ((d, x) # ps) = (case last_arg c ps of None \<Rightarrow> if d = c then Some x else None | Some y \<Rightarrow> Some y)"
  by (simp_all add: last_arg_def split: list.splits)

lemma boot_opt_fields:
  assumes "boot_opt rp (c, x) a = Inr a'"
  shows "ba_input a' = (if c = CHR ''i'' then rp x else ba_input a)"
    "ba_output a' = (if c = CHR ''o'' then rp x else ba_output a)"
    "force_no_compat_check (ba_opts a') = (force_no_compat_check (ba_opts a) \<or> c = CHR ''n'')"
    "skip_unknown_data (ba_opts a') = (if c = CHR ''e'' then x = ''skip-unknown-data'' else skip_unknown_data (ba_opts a))"
  using assms by (simp_all add: boot_opt_def split: if_splits) auto

lemma boot_opt_loop_step:
  "boot_opt_loop rp (p # ps) a = Inr b \<Longrightarrow> \<exists>a'. boot_opt rp p a = Inr a' \<and> boot_opt_loop rp ps a' = Inr b"
  by (auto simp: res_bind_eq_Inr elim: boot_opt_loopE)

lemma boot_opt_loop_input:
  "boot_opt_loop rp ps a = Inr b \<Longrightarrow> ba_input b = (case last_arg CHR ''i'' ps of None \<Rightarrow> ba_input a | Some x \<Rightarrow> rp x)"
proof (induction ps arbitrary: a)
  case (Cons p ps)
  obtain a' where s: "boot_opt rp p a = Inr a'" "boot_opt_loop rp ps a' = Inr b" using boot_opt_loop_step [OF Cons.prems] by blast
  obtain c x where p: "p = (c, x)" by (cases p)
  show ?case using Cons.IH [OF s(2)] boot_opt_fields(1) [OF s(1) [unfolded p]] p by (simp split: option.splits)
qed simp

lemma boot_opt_loop_output:
  "boot_opt_loop rp ps a = Inr b \<Longrightarrow> ba_output b = (case last_arg CHR ''o'' ps of None \<Rightarrow> ba_output a | Some x \<Rightarrow> rp x)"
proof (induction ps arbitrary: a)
  case (Cons p ps)
  obtain a' where s: "boot_opt rp p a = Inr a'" "boot_opt_loop rp ps a' = Inr b" using boot_opt_loop_step [OF Cons.prems] by blast
  obtain c x where p: "p = (c, x)" by (cases p)
  show ?case using Cons.IH [OF s(2)] boot_opt_fields(2) [OF s(1) [unfolded p]] p by (simp split: option.splits)
qed simp

text \<open>The command packs a directory and unpacks anything else, with the paths that were named last.\<close>

lemma boot_command:
  assumes "bxxt_main M (''bxxt'' # ''boot'' # args) s = Inr (s', r)" and "args \<noteq> []"
    and "last_arg CHR ''i'' (getopt boot_opts_letters (''boot'' # args)) = Some i"
    and "last_arg CHR ''o'' (getopt boot_opts_letters (''boot'' # args)) = Some p"
  shows "\<exists>opts. (if os_fs s (me_realpath M i) = Some Dir
      then bxxt_boot_pack_all (me_pack M) opts (me_ctx M) (me_realpath M i) (me_realpath M p) (os_fs s)
      else bxxt_boot_unpack_all (me_pack M) opts (me_ctx M) (me_realpath M i) (me_realpath M p) (os_fs s)) = Inr (os_fs s', r)"
proof -
  obtain n args' where "args = n # args'" using assms(2) by (cases args) auto
  then obtain fs where m: "boot_main (me_pack M) (me_realpath M) (me_ctx M) (me_stack M) (''boot'' # args) (os_fs s) = Inr (fs, r)"
    "s' = s\<lparr>os_fs := fs\<rparr>" using assms(1) by (auto simp: bxxt_main_def res_bind_eq_Inr)
  then obtain a where a: "boot_opt_loop (me_realpath M) (getopt boot_opts_letters (''boot'' # args))
      \<lparr>ba_input = fst (me_stack M), ba_output = snd (me_stack M), ba_opts = \<lparr>force_no_compat_check = False, skip_unknown_data = False\<rparr>\<rparr> = Inr a"
    "(if os_fs s (ba_input a) = Some Dir then bxxt_boot_pack_all (me_pack M) (ba_opts a) (me_ctx M) (ba_input a) (ba_output a) (os_fs s)
      else bxxt_boot_unpack_all (me_pack M) (ba_opts a) (me_ctx M) (ba_input a) (ba_output a) (os_fs s)) = Inr (fs, r)"
    by (auto simp: boot_main_def res_bind_eq_Inr)
  have i: "ba_input a = me_realpath M i" using boot_opt_loop_input [OF a(1)] assms(3) by simp
  have o: "ba_output a = me_realpath M p" using boot_opt_loop_output [OF a(1)] assms(4) by simp
  show ?thesis using a(2) m(2) unfolding i o by auto
qed

end
