(* ===== verification/Spec2Isabelle.thy ===== *)
theory Spec2Isabelle
  imports Util_Properties Boot_Properties Sepol_Properties Tools_Properties Policy_Properties
    Policy_File_Properties Cpio_Properties Dt_Properties Bxxt_Main
begin

text \<open>
  A verification development for bxxt, a command-line tool for rooted Android devices.
  It unpacks and repacks boot images (boot.c), edits the SELinux policy of the running
  kernel (sepol.c), changes system properties (prop.c) and patches bytes of files
  (patch.c); bxxt.c chooses the tool. Under it lie the libraries in the same repository:
  libsepol (the policy database), libarchive (the ramdisk) and libdtc (device trees).

  \<^bold>\<open>How the parts interact.\<close> Unpacking an image maps the file, computes the layout of its
  sections from the header, finds the device trees behind a section and writes every part to
  a directory with a METADATA file of the header fields; device trees go through
  dtcc.c and libdtc to source text. Packing reads METADATA and the files, compiles the device trees,
  puts the sections together in a growable buffer, pads them to pages and signs them with
  SHA-1. A ramdisk directory is packed into a newc archive, and unpacked from a cpio
  archive of any format, by cpio.c through libarchive. The policy editor loads the policy image with
  libsepol, executes statements on its tables and bitmaps, and writes the image to a file or
  to the kernel. Files are opened through the handles of util.c.

  \<^bold>\<open>Conventions.\<close> A function of the program is a function of the same name. State that
  it changes is passed and returned: the buffer, the hash context, the image reader, the
  operating system with its files and descriptors, the policy. Undefined behaviour is a
  value: a result is \<open>Inl\<close> of a \<open>fault\<close> (a read or write outside an object, a null pointer, an overflow of
  a signed integer, a use of freed memory) or \<open>Inr\<close> of a value, and \<open>dres\<close> for libdtc, which may also end the
  process. Return codes of the C code are values of the model. Unsigned integers are
  words of their width; signed ones are \<open>int\<close> with the conversion \<open>to_int32\<close> written out where it
  matters. Pointers into a mapped file are offsets, pointers to shared data are indices of a
  store. The target is a 64-bit little-endian machine.

  \<^bold>\<open>Theories.\<close>
  \<^item> \<open>Bxxt_Prelude\<close>: machine types, faults, memory, byte orders (locale \<open>byte_codec\<close>), C strings.
    \<open>Bxxt_Text\<close>, \<open>Bxxt_Scan\<close>, \<open>Bxxt_Getopt\<close>, \<open>Bxxt_Strcmp\<close>: the parts of the C library that the program uses; \<open>Bxxt_Strcmp\<close> has the
    locale \<open>key_order\<close> of comparison functions and makes C strings a linear order.
  \<^item> \<open>Bxxt_Buffer\<close>, \<open>Bxxt_File\<close> (util.c): the growable buffer; file handles over an explicit
    descriptor table and mappings.
  \<^item> \<open>Bxxt_Sha1\<close>, \<open>Bxxt_Sha1_Stream\<close>, \<open>Bxxt_Sha1_Correct\<close> (sha1.c): the unrolled transformation, the
    streaming interface, both proved to be the standard's hash; the locale
    \<open>stream_hash\<close> is what a caller relies on.
  \<^item> \<open>Boot_Header\<close>, \<open>Boot_Image\<close>, \<open>Boot_Layout\<close>, \<open>Boot_Sections\<close>, \<open>Boot_Metadata\<close>, \<open>Boot_Pack\<close>
    (boot.h, boot.c): the packed header, reading, the METADATA file, packing and unpacking.
  \<^item> \<open>Sepol_Ebitmap\<close>, \<open>Sepol_Ebitmap_Ops\<close> (ebitmap.c, write.c): bitmaps as sets of numbers, locale \<open>bit_store\<close>.
    \<open>Sepol_Hashtab\<close> (hashtab.c, symtab.c): symbol tables as finite maps over the locale \<open>hash_scheme\<close>, which extends \<open>key_order\<close>.
    \<open>Sepol_Avtab\<close>, \<open>Sepol_Avtab_Read\<close>, \<open>Sepol_Avtab_Write\<close>, \<open>Sepol_Avtab_File\<close> (avtab.c, write.c): the rules, locale \<open>rule_store\<close>, and
    their place in policy files.
  \<^item> \<open>Sepol_File_Base\<close> (services.c, symtab.c): the writers and readers of a policy file as combinators that fail or crash, the
    locales \<open>table_codec\<close> and \<open>symbol_codec\<close> of a table that survives its file. \<open>Sepol_Symbol_File\<close>, \<open>Sepol_Symtab_File\<close> (policydb.c,
    write.c, conditional.c, mls.c): the records of all kinds of symbols with their MLS levels, sets and constraints, the table of formats, the
    section of the symbol tables. \<open>Sepol_Symtab_Correct\<close>: one interpretation of \<open>symbol_codec\<close> for each kind.
  \<^item> The sections behind the symbols: \<open>Sepol_Transitions\<close> (policydb.c, write.c), the transition rules, whose tables interpret
    \<open>hash_scheme\<close> and \<open>table_codec\<close>; \<open>Sepol_Index\<close> (policydb.c, expand.c), the arrays by value and the expansion of sets;
    \<open>Sepol_Context_File\<close> (context.c, mls.c, policydb.c, write.c), contexts and when they are valid; \<open>Sepol_Conditional\<close>
    (conditional.c, write.c), conditions, their normal forms and their lists of rules; \<open>Sepol_Module_File\<close> (policydb.c, write.c,
    avrule_block.c), the blocks of modules; \<open>Sepol_Policy_File\<close> (policydb.c, write.c, policydb_convert.c), whole files and images.
    Their theories \<open>..._Correct\<close>, with \<open>Sepol_Policy_Correct\<close> over all of them, and \<open>Sepol_Cond_Eval\<close>, the meaning of conditions.
  \<^item> \<open>Sepol_Policy\<close> (policydb.h, policydb.c), \<open>Bxxt_Sepol\<close>, \<open>Bxxt_Sepol_Main\<close> (sepol.c): the policy, the
    statements, the runs over files. \<open>Sepol_Domain_Correct\<close>, \<open>Sepol_Edit_Correct\<close>, \<open>Sepol_Statements\<close>: the invariant
    of the policy, what every statement changes, and sessions of statements as a step relation.
  \<^item> \<open>Bxxt_Patch\<close>, \<open>Bxxt_Prop\<close> (patch.c, prop.c): the two small tools.
  \<^item> \<open>Cpio_Newc_Write\<close>, \<open>Cpio_Newc_Read\<close>, \<open>Cpio_Newc_Correct\<close> (libarchive): the newc format and the reader
    of the older cpio formats, with the states of the layers above them. \<open>Bxxt_Cpio\<close>, \<open>Bxxt_Cpio_Correct\<close> (cpio.c): the ramdisk.
  \<^item> \<open>Dt_Data\<close> (data.c), \<open>Dt_Live\<close>, \<open>Dt_Labels\<close>, \<open>Dt_Live_Correct\<close> (livetree.c), \<open>Dt_Flat\<close>, \<open>Dt_Unflat\<close>, \<open>Dt_Flat_Correct\<close>,
    \<open>Dt_Unflat_Correct\<close>, \<open>Dt_Unflat_Total\<close>, \<open>Dt_Blob_Correct\<close> (flattree.c), \<open>Dt_Source\<close>, \<open>Dt_Source_Correct\<close>
    (treesource.c, util.c), \<open>Bxxt_Dtcc\<close> (dtcc.c): device trees.
  \<^item> \<open>Bxxt_Main\<close> (bxxt.c, the options of boot.c): the choice of the tool.
  \<^item> The theories \<open>..._Properties\<close> hold the properties, each with an input on which its hypotheses hold.

  \<^bold>\<open>What is shown.\<close> Round trips: a packed image opens with the signature check on; METADATA; the
  ramdisk; rules in policy files; whole kernel
  policies in their images, in every version from 20 to 32, where repeated rules of extended permissions come back in
  the opposite order (\<open>read_back\<close>); device trees in blobs and in source. Refinements:
  bitmaps are sets, symbol tables are maps, the rule table is a store of rules, a
  run of the editor is its statement on the policy, the walk of a directory is a
  traversal of its tree, merging device trees overrides maps, the arrays of a policy invert its tables. Equivalences: SHA-1
  and the standard, the normal form of a condition and its truth table. Invariants: the policy stays well-formed under every statement. Safety: no
  text of a statement and no rule file of version 20 or later leaves the memory, and one of an older version only
  behind one local array. Termination: unpacking ends for every archive of any cpio format, decompiling for every blob. And where the
  code does otherwise than it means to, the theorem says what it does: trailing
  data loses its last byte, conditions are compared by the places of their booleans and not by the booleans, a duplicate rule reads a null array, a labelled device tree source reads a null path, a truncated archive
  overruns a path buffer, an invalid policy image is freed twice.

  \<^bold>\<open>Loops and fuel.\<close> Loops are recursion with a termination proof. \<open>unflatten_tree\<close> takes fuel; one step more
  than there are bytes is enough on every memory (\<open>unflatten_ends\<close>), which is what \<open>bxxt_dtcc_dtb_to_source\<close> passes.
  Walking a directory takes fuel too, and \<open>long_path_walks_for_ever\<close> shows that no
  amount is enough once a path fills its buffer. Sizes of libdtc blocks are bounded by half of the
  largest int (\<open>fits\<close>), so that the doubling of its allocator cannot overflow.

  \<^bold>\<open>Not modelled.\<close> The editor works on the part of the policy that its statements touch and takes the image format as an
  argument, of which \<open>policydb_to_image\<close> and \<open>policydb_from_image\<close> are the model for the whole policy. The expansion of
  attributes in front of kernel formats before version 20 is an argument of the writer. The generated parser and lexer of device tree sources
  (dtc-parser.c, dtc-lexer.c): an argument of \<open>bxxt_dtcc_dtb_from_source\<close>. The checks of dtc, which bxxt never runs, the assembler output and the
  overlay fixups. In libarchive, the other formats and filters, the disk writer, character sets and access control lists: of the ones that bxxt
  registers, compression is an argument of the packer and the disk writer records what it is told. The rest of libsepol
  (linking and expanding modules, CIL, assertions, the security server, users, networks) and zlib, which bxxt links and does not call directly. Failing allocations,
  which the code does not check, and logging. \<open>bxxt_buffer_free\<close>, \<open>data_free\<close> and the like release memory only.
\<close>

end
